(* ===== verification/Prelude.thy ===== *)
theory Prelude
  imports Complex_Main "HOL-Library.AList" "HOL-Library.Multiset" "HOL-Library.Product_Lexorder"
    "HOL-Library.List_Lexorder" "HOL-Library.Char_ord"
begin

text \<open>
  Shared ground of the development: the error-or-value results that stand for Python's
  exceptions (\<open>Inl\<close> is a raised exception, \<open>Inr\<close> a returned value), the loop that stops at
  the first exception, Python's list primitives with an explicit position, and the generic facts
  about lists and association lists (Python dicts keep their insertion order, so a dict whose
  order or keys are read is an association list updated with \<^const>\<open>AList.update\<close>).
\<close>

named_theorems const_defs \<open>the constants of the program, for unfolding together\<close>

section \<open>Results: an exception or a value\<close>

fun bindE :: "'e + 'a \<Rightarrow> ('a \<Rightarrow> 'e + 'b) \<Rightarrow> 'e + 'b" where
  "bindE (Inl e) f = Inl e"
| "bindE (Inr x) f = f x"

definition ensure :: "bool \<Rightarrow> 'e \<Rightarrow> 'e + unit" where
  "ensure b e = (if b then Inr () else Inl e)"

lemma bindE_Inr_iff: "bindE m f = Inr y \<longleftrightarrow> (\<exists>x. m = Inr x \<and> f x = Inr y)"
  by (cases m) auto

lemma bindE_Inl_iff: "bindE m f = Inl e \<longleftrightarrow> m = Inl e \<or> (\<exists>x. m = Inr x \<and> f x = Inl e)"
  by (cases m) auto

lemma bindE_InrE:
  assumes "bindE m f = Inr y"
  obtains x where "m = Inr x" and "f x = Inr y"
  using assms by (auto simp: bindE_Inr_iff)

lemma bindE_InlE:
  assumes "bindE m f = Inl e"
  obtains "m = Inl e" | x where "m = Inr x" and "f x = Inl e"
  using assms by (auto simp: bindE_Inl_iff)

lemma ensure_Inr_iff [simp]: "ensure b e = Inr u \<longleftrightarrow> b"
  by (simp add: ensure_def)

lemma ensure_Inl_iff [simp]: "ensure b e = Inl e' \<longleftrightarrow> \<not> b \<and> e' = e"
  by (auto simp: ensure_def)

lemma bindE_cong [fundef_cong]:
  "m = m' \<Longrightarrow> (\<And>x. m' = Inr x \<Longrightarrow> f x = g x) \<Longrightarrow> bindE m f = bindE m' g"
  by (cases m') auto

text \<open>For running a computation by the simplifier: the continuation waits for the value.\<close>

lemma bindE_weak_cong: "m = m' \<Longrightarrow> bindE m f = bindE m' f"
  by simp

text \<open>A loop over a list that stops at the first exception.\<close>

fun foldE :: "('x \<Rightarrow> 's \<Rightarrow> 'e + 's) \<Rightarrow> 'x list \<Rightarrow> 's \<Rightarrow> 'e + 's" where
  "foldE f [] s = Inr s"
| "foldE f (x # xs) s = bindE (f x s) (foldE f xs)"

lemma foldE_append: "foldE f (xs @ ys) s = bindE (foldE f xs s) (foldE f ys)"
proof (induction xs arbitrary: s)
  case Nil
  then show ?case by simp
next
  case (Cons x xs)
  then show ?case by (cases "f x s") simp_all
qed

text \<open>
  The interface of a machine that runs a batch of inputs: on admissible inputs every successful
  step keeps an invariant, so a successful run does. The extensions add a relation between the
  state before and the state after, which a run composes, and the errors a step may end with,
  which are those of a run.
\<close>

locale step_machine =
  fixes step :: "'x \<Rightarrow> 's \<Rightarrow> 'e + 's" and inp :: "'x \<Rightarrow> bool" and good :: "'s \<Rightarrow> bool"
  assumes step_good: "inp x \<Longrightarrow> good s \<Longrightarrow> step x s = Inr t \<Longrightarrow> good t"
begin

lemma run_good: "list_all inp xs \<Longrightarrow> good s \<Longrightarrow> foldE step xs s = Inr t \<Longrightarrow> good t"
proof (induction xs arbitrary: s)
  case Nil
  then show ?case by simp
next
  case (Cons x xs)
  from Cons.prems(3) obtain u where u: "step x s = Inr u" "foldE step xs u = Inr t"
    by (auto simp: bindE_Inr_iff)
  have "good u" using step_good [OF _ Cons.prems(2) u(1)] Cons.prems(1) by simp
  then show ?case using Cons.IH [OF _ _ u(2)] Cons.prems(1) by simp
qed

end

locale step_machine_rel = step_machine +
  fixes rel :: "'b \<Rightarrow> 'b \<Rightarrow> bool"
  assumes rel_refl: "rel s s"
    and rel_trans: "rel s t \<Longrightarrow> rel t u \<Longrightarrow> rel s u"
    and step_rel: "inp x \<Longrightarrow> good s \<Longrightarrow> step x s = Inr t \<Longrightarrow> rel s t"
begin

lemma run_rel: "list_all inp xs \<Longrightarrow> good s \<Longrightarrow> foldE step xs s = Inr t \<Longrightarrow> rel s t"
proof (induction xs arbitrary: s)
  case Nil
  then show ?case by (simp add: rel_refl)
next
  case (Cons x xs)
  from Cons.prems(3) obtain u where u: "step x s = Inr u" "foldE step xs u = Inr t"
    by (auto simp: bindE_Inr_iff)
  have "good u" using step_good [OF _ Cons.prems(2) u(1)] Cons.prems(1) by simp
  then have "rel u t" using Cons.IH [OF _ _ u(2)] Cons.prems(1) by simp
  moreover have "rel s u" using step_rel [OF _ Cons.prems(2) u(1)] Cons.prems(1) by simp
  ultimately show ?case by (blast intro: rel_trans)
qed

end

locale step_machine_err = step_machine +
  fixes bad :: "'c \<Rightarrow> bool"
  assumes step_bad: "inp x \<Longrightarrow> good s \<Longrightarrow> step x s = Inl e \<Longrightarrow> bad e"
begin

lemma run_bad: "list_all inp xs \<Longrightarrow> good s \<Longrightarrow> foldE step xs s = Inl e \<Longrightarrow> bad e"
proof (induction xs arbitrary: s)
  case Nil
  then show ?case by simp
next
  case (Cons x xs)
  then show ?case
    by (cases "step x s") (auto dest: step_bad step_good)
qed

end

section \<open>List positions\<close>

text \<open>The first position whose element satisfies a predicate: \<open>for p, x in enumerate(xs)\<close>.\<close>

fun find_pos :: "('a \<Rightarrow> bool) \<Rightarrow> 'a list \<Rightarrow> nat option" where
  "find_pos P [] = None"
| "find_pos P (x # xs) = (if P x then Some 0 else map_option Suc (find_pos P xs))"

lemma find_pos_None_iff: "find_pos P xs = None \<longleftrightarrow> (\<forall>x\<in>set xs. \<not> P x)"
  by (induction xs) auto

lemma find_pos_SomeD:
  "find_pos P xs = Some p \<Longrightarrow> p < length xs \<and> P (xs ! p) \<and> (\<forall>q<p. \<not> P (xs ! q))"
proof (induction xs arbitrary: p)
  case Nil
  then show ?case by simp
next
  case (Cons x xs)
  show ?case
  proof (cases "P x")
    case True
    with Cons.prems show ?thesis by simp
  next
    case False
    with Cons.prems obtain q where q: "p = Suc q" "find_pos P xs = Some q" by auto
    with Cons.IH [OF q(2)] False show ?thesis
      by (auto simp: nth_Cons split: nat.splits)
  qed
qed

definition insert_at :: "nat \<Rightarrow> 'a \<Rightarrow> 'a list \<Rightarrow> 'a list" where
  "insert_at n x xs = take n xs @ x # drop n xs"

definition remove_at :: "nat \<Rightarrow> 'a list \<Rightarrow> 'a list" where
  "remove_at n xs = take n xs @ drop (Suc n) xs"

lemma set_insert_at [simp]: "set (insert_at n x xs) = insert x (set xs)"
proof -
  have "set xs = set (take n xs) \<union> set (drop n xs)"
    by (metis append_take_drop_id set_append)
  then show ?thesis by (auto simp: insert_at_def)
qed

lemma length_insert_at [simp]: "length (insert_at n x xs) = Suc (length xs)"
  by (simp add: insert_at_def)

lemma length_remove_at: "n < length xs \<Longrightarrow> length (remove_at n xs) = length xs - 1"
  by (simp add: remove_at_def)

lemma map_insert_at: "map f (insert_at n x xs) = insert_at n (f x) (map f xs)"
  by (simp add: insert_at_def take_map drop_map)

lemma map_remove_at: "map f (remove_at n xs) = remove_at n (map f xs)"
  by (simp add: remove_at_def take_map drop_map)

lemma split_at_nth: "n < length xs \<Longrightarrow> xs = take n xs @ xs ! n # drop (Suc n) xs"
  by (rule id_take_nth_drop)

lemma mset_insert_at [simp]: "mset (insert_at n x xs) = add_mset x (mset xs)"
  by (metis append_take_drop_id insert_at_def mset.simps(2) mset_append union_mset_add_mset_right)

lemma mset_remove_at: "n < length xs \<Longrightarrow> add_mset (xs ! n) (mset (remove_at n xs)) = mset xs"
  by (metis mset.simps(2) mset_append remove_at_def split_at_nth union_mset_add_mset_right)

lemma insert_remove_at: "n < length xs \<Longrightarrow> insert_at n (xs ! n) (remove_at n xs) = xs"
  by (simp add: insert_at_def remove_at_def split_at_nth [symmetric])

lemma filter_insert_at: "\<not> P x \<Longrightarrow> filter P (insert_at n x xs) = filter P xs"
  by (metis append_take_drop_id filter.simps(2) filter_append insert_at_def)

lemma filter_remove_at: "\<lbrakk>n < length xs; \<not> P (xs ! n)\<rbrakk> \<Longrightarrow> filter P (remove_at n xs) = filter P xs"
  by (metis filter.simps(2) filter_append remove_at_def split_at_nth)

lemma filter_list_update:
  "\<lbrakk>n < length xs; P (xs ! n) \<Longrightarrow> False; \<not> P y\<rbrakk> \<Longrightarrow> filter P (xs[n := y]) = filter P xs"
proof -
  assume n: "n < length xs" and old: "P (xs ! n) \<Longrightarrow> False" and new: "\<not> P y"
  have "filter P (take n xs @ xs ! n # drop (Suc n) xs) = filter P (take n xs @ y # drop (Suc n) xs)"
    using old new by auto
  then show "filter P (xs[n := y]) = filter P xs"
    using n by (simp add: upd_conv_take_nth_drop split_at_nth [symmetric])
qed

lemma set_remove_at_subset: "set (remove_at n xs) \<subseteq> set xs"
  by (auto simp: remove_at_def dest: in_set_takeD in_set_dropD)

lemma distinct_remove_at: "distinct xs \<Longrightarrow> distinct (remove_at n xs)"
proof (cases "n < length xs")
  case True
  assume "distinct xs"
  then have "distinct (take n xs @ xs ! n # drop (Suc n) xs)"
    using True by (simp add: split_at_nth [symmetric])
  then show ?thesis by (auto simp: remove_at_def)
qed (simp add: remove_at_def)

lemma distinct_insert_at: "distinct (insert_at n x xs) \<longleftrightarrow> x \<notin> set xs \<and> distinct xs"
proof -
  have "mset (insert_at n x xs) = mset (x # xs)"
    by (metis append_take_drop_id insert_at_def mset.simps(2) mset_append union_mset_add_mset_right)
  then have "distinct (insert_at n x xs) = distinct (x # xs)"
    by (rule mset_eq_imp_distinct_iff)
  then show ?thesis by simp
qed

lemma set_remove_at: "distinct xs \<Longrightarrow> n < length xs \<Longrightarrow> set (remove_at n xs) = set xs - {xs ! n}"
proof -
  assume d: "distinct xs" and n: "n < length xs"
  have "distinct (take n xs @ xs ! n # drop (Suc n) xs)" using d n by (simp add: split_at_nth [symmetric])
  moreover have "set xs = set (take n xs @ xs ! n # drop (Suc n) xs)" using n by (simp add: split_at_nth [symmetric])
  ultimately show ?thesis by (auto simp: remove_at_def)
qed

section \<open>Dicts\<close>

definition keys :: "('k \<times> 'v) list \<Rightarrow> 'k set" where
  "keys d = fst ` set d"

lemma keys_Nil [simp]: "keys [] = {}"
  by (simp add: keys_def)

lemma keys_update [simp]: "keys (AList.update k v d) = insert k (keys d)"
  by (simp add: keys_def AList.dom_update)

lemma map_of_eq_None_keys: "map_of d k = None \<longleftrightarrow> k \<notin> keys d"
  by (simp add: keys_def map_of_eq_None_iff)

lemma map_of_Some_keys: "map_of d k = Some v \<Longrightarrow> k \<in> keys d"
  by (metis map_of_eq_None_keys option.distinct(1))

lemma map_of_update [simp]: "map_of (AList.update k v d) x = (if x = k then Some v else map_of d x)"
  by (simp add: AList.update_conv')

section \<open>Order of first occurrence and running sums\<close>

text \<open>\<open>list(dict.fromkeys(xs))\<close>: each value once, in the order of first occurrence.\<close>

fun dedup :: "'a list \<Rightarrow> 'a list" where
  "dedup [] = []"
| "dedup (x # xs) = x # filter (\<lambda>y. y \<noteq> x) (dedup xs)"

lemma set_dedup [simp]: "set (dedup xs) = set xs"
  by (induction xs) auto

lemma distinct_dedup [simp]: "distinct (dedup xs)"
  by (induction xs) auto

lemma sort_key_id_if_sorted: "sorted (map f xs) \<Longrightarrow> sort_key f xs = xs"
  by (simp add: sorted_sort_id sort_key_simps sort_key_stable properties_for_sort_key)

lemma sum_list_nonneg_int: "(\<And>x. x \<in> set xs \<Longrightarrow> (0::int) \<le> f x) \<Longrightarrow> 0 \<le> sum_list (map f xs)"
  by (induction xs) (auto intro: add_nonneg_nonneg)

end
