(* ===== verification/Py_Float.thy ===== *)
theory Py_Float
  imports Prelude
begin

text \<open>
  Python's floats as the code uses them: a finite binary64 value is the rational it denotes, and
  every float operation is the exact rational result followed by \<open>fl\<close>, the IEEE 754 rounding to
  nearest, ties to even, with 53 bits and the smallest exponent \<open>-1074\<close>. A result beyond the
  largest finite value is an infinity, which \<open>overflows\<close> tells. \<open>rne\<close> is Python's \<open>round\<close> to an
  integer (and its \<open>round\<close> of a \<open>Fraction\<close>), \<open>round3\<close> is \<open>round(x, 3)\<close>: the decimal with three
  places nearest to the exact value of \<open>x\<close>, read back as a float.
\<close>

type_synonym pyfloat = rat

section \<open>Rounding to an integer, ties to even\<close>

definition rne :: "rat \<Rightarrow> int" where
  "rne x = (let f = \<lfloor>x\<rfloor>; d = x - of_int f
            in if d < 1 / 2 then f else if 1 / 2 < d then f + 1 else if even f then f else f + 1)"

lemma floor_rat_numerals [simp]:
  "\<lfloor>numeral a / numeral b :: rat\<rfloor> = numeral a div numeral b"
  "\<lfloor>1 / numeral b :: rat\<rfloor> = 1 div numeral b"
  "\<lfloor>- (numeral a / numeral b) :: rat\<rfloor> = - numeral a div numeral b"
  "\<lfloor>- (1 / numeral b) :: rat\<rfloor> = - 1 div numeral b"
proof -
  show "\<lfloor>numeral a / numeral b :: rat\<rfloor> = numeral a div numeral b"
    by (metis floor_divide_of_int_eq of_int_numeral)
  show "\<lfloor>1 / numeral b :: rat\<rfloor> = 1 div numeral b"
    by (metis floor_divide_of_int_eq of_int_numeral of_int_1)
  show "\<lfloor>- (numeral a / numeral b) :: rat\<rfloor> = - numeral a div numeral b"
    by (metis divide_minus_left floor_divide_of_int_eq of_int_neg_numeral of_int_numeral)
  show "\<lfloor>- (1 / numeral b) :: rat\<rfloor> = - 1 div numeral b"
    by (metis divide_minus_left floor_divide_of_int_eq of_int_neg_numeral of_int_numeral of_int_1
        of_int_minus)
qed

lemma rne_of_int [simp]: "rne (of_int n) = n"
  by (simp add: rne_def)

lemma rne_0 [simp]: "rne 0 = 0"
  using rne_of_int [of 0] by simp

lemma rne_close: "\<bar>of_int (rne x) - x\<bar> \<le> 1 / 2"
proof -
  have "of_int \<lfloor>x\<rfloor> \<le> x" "x < of_int \<lfloor>x\<rfloor> + 1" by linarith+
  then show ?thesis unfolding rne_def Let_def abs_if by (simp split: if_split) linarith
qed

lemma rne_unique: "\<bar>of_int n - x\<bar> < 1 / 2 \<Longrightarrow> rne x = n"
proof -
  assume "\<bar>of_int n - x\<bar> < 1 / 2"
  moreover have "\<bar>of_int (rne x) - x\<bar> \<le> 1 / 2" by (rule rne_close)
  ultimately have "\<bar>of_int (rne x - n) :: rat\<bar> < 1" unfolding of_int_diff by linarith
  then show ?thesis by linarith
qed

lemma rne_mono: "x \<le> y \<Longrightarrow> rne x \<le> rne y"
proof (rule ccontr)
  assume le: "x \<le> y" and "\<not> rne x \<le> rne y"
  then have lt: "rne y + 1 \<le> rne x" by simp
  have "\<bar>of_int (rne x) - x\<bar> \<le> 1 / 2" "\<bar>of_int (rne y) - y\<bar> \<le> 1 / 2" by (rule rne_close)+
  moreover have "of_int (rne y) + 1 \<le> (of_int (rne x) :: rat)" using lt by linarith
  ultimately have "x = y" using le by linarith
  with lt show False by simp
qed

lemma rne_minus: "rne (- x) = - rne x"
proof (cases "x = of_int \<lfloor>x\<rfloor>")
  case True
  then show ?thesis by (metis of_int_minus rne_of_int)
next
  case False
  then have d: "0 < x - of_int \<lfloor>x\<rfloor>" "x - of_int \<lfloor>x\<rfloor> < 1" by linarith+
  have f: "\<lfloor>- x\<rfloor> = - \<lfloor>x\<rfloor> - 1" using d by linarith
  show ?thesis using d by (auto simp: rne_def f Let_def)
qed

lemma rne_nonneg: "0 \<le> x \<Longrightarrow> 0 \<le> rne x"
  using rne_mono [of 0 x] by simp

lemma rne_le_of_int: "x \<le> of_int n \<Longrightarrow> rne x \<le> n"
  using rne_mono [of x "of_int n"] by simp

lemma of_int_le_rne: "of_int n \<le> x \<Longrightarrow> n \<le> rne x"
  using rne_mono [of "of_int n" x] by simp

section \<open>Powers of two and the binary exponent\<close>

definition pow2 :: "int \<Rightarrow> rat" where
  "pow2 k = (if 0 \<le> k then 2 ^ nat k else 1 / 2 ^ nat (- k))"

lemma pow2_powi: "pow2 k = 2 powi k"
  by (simp add: pow2_def power_int_def field_simps power_inverse)

lemma pow2_pos [simp]: "0 < pow2 k"
  by (simp add: pow2_powi)

lemma pow2_nonzero [simp]: "pow2 k \<noteq> 0"
  using pow2_pos [of k] by linarith

lemma pow2_add: "pow2 (a + b) = pow2 a * pow2 b"
  by (simp add: pow2_powi power_int_add)

lemma pow2_mono: "a \<le> b \<Longrightarrow> pow2 a \<le> pow2 b"
  by (simp add: pow2_powi power_int_increasing)

lemma pow2_of_nat: "pow2 (int n) = 2 ^ n"
  by (simp add: pow2_def)

fun ilog2 :: "int \<Rightarrow> nat" where
  "ilog2 n = (if n \<le> 1 then 0 else Suc (ilog2 (n div 2)))"

declare ilog2.simps [simp del]

lemma ilog2_bounds: "1 \<le> n \<Longrightarrow> 2 ^ ilog2 n \<le> n \<and> n < 2 ^ Suc (ilog2 n)"
proof (induction n rule: ilog2.induct)
  case (1 n)
  show ?case
  proof (cases "n \<le> 1")
    case True
    with "1.prems" have "n = 1" by simp
    then show ?thesis by (simp add: ilog2.simps)
  next
    case False
    then have "2 ^ ilog2 (n div 2) \<le> n div 2 \<and> n div 2 < 2 ^ Suc (ilog2 (n div 2))"
      using "1.IH" by simp
    then show ?thesis using False by (subst (1 2) ilog2.simps) auto
  qed
qed

text \<open>\<open>flog2 x\<close> is the exponent of a positive rational: \<open>2 ^ flog2 x \<le> x < 2 ^ (flog2 x + 1)\<close>.\<close>

definition flog2 :: "rat \<Rightarrow> int" where
  "flog2 x =
     (if 1 \<le> x then int (ilog2 \<lfloor>x\<rfloor>)
      else let m = \<lceil>1 / x\<rceil> in if m \<le> 1 then 0 else - int (Suc (ilog2 (m - 1))))"

lemma flog2_bounds:
  assumes "0 < x"
  shows "pow2 (flog2 x) \<le> x" and "x < pow2 (flog2 x + 1)"
proof -
  have "pow2 (flog2 x) \<le> x \<and> x < pow2 (flog2 x + 1)"
  proof (cases "1 \<le> x")
    case True
    then have "1 \<le> \<lfloor>x\<rfloor>" by simp
    then have b: "2 ^ ilog2 \<lfloor>x\<rfloor> \<le> \<lfloor>x\<rfloor>" "\<lfloor>x\<rfloor> < 2 ^ Suc (ilog2 \<lfloor>x\<rfloor>)"
      using ilog2_bounds by blast+
    have "(2::rat) ^ ilog2 \<lfloor>x\<rfloor> = of_int (2 ^ ilog2 \<lfloor>x\<rfloor>)" by simp
    also have "\<dots> \<le> of_int \<lfloor>x\<rfloor>" using b(1) by (simp only: of_int_le_iff)
    also have "\<dots> \<le> x" by simp
    finally have lo: "2 ^ ilog2 \<lfloor>x\<rfloor> \<le> x" .
    have "x < of_int (\<lfloor>x\<rfloor> + 1)" by linarith
    also have "\<dots> \<le> of_int (2 ^ Suc (ilog2 \<lfloor>x\<rfloor>))" using b(2) by (simp only: of_int_le_iff)
    finally have hi: "x < 2 ^ Suc (ilog2 \<lfloor>x\<rfloor>)" by simp
    have "int (ilog2 \<lfloor>x\<rfloor>) + 1 = int (Suc (ilog2 \<lfloor>x\<rfloor>))" by simp
    then show ?thesis using lo hi True by (simp only: flog2_def if_True pow2_of_nat)
  next
    case False
    define m where "m = \<lceil>1 / x\<rceil>"
    have inv: "1 < 1 / x" using assms False by simp
    then have m: "2 \<le> m" unfolding m_def by linarith
    then have "1 \<le> m - 1" by simp
    then have b: "2 ^ ilog2 (m - 1) \<le> m - 1" "m - 1 < 2 ^ Suc (ilog2 (m - 1))"
      using ilog2_bounds by blast+
    have e: "flog2 x = - int (Suc (ilog2 (m - 1)))"
      using False m by (simp add: flog2_def m_def Let_def)
    have "1 / x \<le> of_int m" unfolding m_def by simp
    also have "\<dots> \<le> of_int (2 ^ Suc (ilog2 (m - 1)))" using b(2) by (simp only: of_int_le_iff)
    finally have lo: "1 / x \<le> 2 ^ Suc (ilog2 (m - 1))" by simp
    have "(2::rat) ^ ilog2 (m - 1) = of_int (2 ^ ilog2 (m - 1))" by simp
    also have "\<dots> \<le> of_int (m - 1)" using b(1) by (simp only: of_int_le_iff)
    also have "\<dots> < 1 / x" unfolding m_def by linarith
    finally have hi: "2 ^ ilog2 (m - 1) < 1 / x" .
    have p1: "pow2 (flog2 x) = 1 / 2 ^ Suc (ilog2 (m - 1))"
      using e by (simp add: pow2_def nat_add_distrib)
    have p2: "pow2 (flog2 x + 1) = 1 / 2 ^ ilog2 (m - 1)"
      using e by (simp add: pow2_def)
    show ?thesis unfolding p1 p2 using lo hi assms
      by (simp add: field_simps)
  qed
  then show "pow2 (flog2 x) \<le> x" and "x < pow2 (flog2 x + 1)" by auto
qed

lemma flog2_mono: "0 < x \<Longrightarrow> x \<le> y \<Longrightarrow> flog2 x \<le> flog2 y"
proof (rule ccontr)
  assume x: "0 < x" and le: "x \<le> y" and "\<not> flog2 x \<le> flog2 y"
  then have "flog2 y + 1 \<le> flog2 x" by simp
  then have "pow2 (flog2 y + 1) \<le> pow2 (flog2 x)" by (rule pow2_mono)
  moreover have "pow2 (flog2 x) \<le> x" "y < pow2 (flog2 y + 1)"
    using flog2_bounds x le by (auto intro: less_le_trans)
  ultimately show False using le by linarith
qed

section \<open>The nearest binary64 value\<close>

definition ulp_exp :: "rat \<Rightarrow> int" where
  "ulp_exp x = max (flog2 \<bar>x\<bar> - 52) (- 1074)"

definition fl :: "rat \<Rightarrow> pyfloat" where
  "fl x = (if x = 0 then 0 else let u = pow2 (ulp_exp x) in of_int (rne (x / u)) * u)"

definition overflows :: "pyfloat \<Rightarrow> bool" where
  "overflows x = (2 ^ 1024 \<le> \<bar>x\<bar>)"

text \<open>An equation that decides the test without the large power where it can.\<close>

lemma overflows_code [code]:
  "overflows x = (if \<bar>x\<bar> < 9223372036854775808 then False else 2 ^ 1024 \<le> \<bar>x\<bar>)"
proof -
  have "(2::rat) ^ 63 \<le> 2 ^ 1024" by (rule power_increasing) simp_all
  then show ?thesis by (auto simp: overflows_def)
qed

lemma fl_0 [simp]: "fl 0 = 0"
  by (simp add: fl_def)

lemma fl_minus: "fl (- x) = - fl x"
  by (simp add: fl_def ulp_exp_def rne_minus Let_def)

lemma fl_nonneg: "0 \<le> x \<Longrightarrow> 0 \<le> fl x"
proof -
  assume "0 \<le> x"
  then have "0 \<le> rne (x / pow2 (ulp_exp x))" by (intro rne_nonneg divide_nonneg_pos) simp_all
  then have "0 \<le> of_int (rne (x / pow2 (ulp_exp x))) * pow2 (ulp_exp x)"
    by (intro mult_nonneg_nonneg) (simp_all add: less_imp_le)
  then show ?thesis by (simp add: fl_def Let_def)
qed

lemma ulp_exp_mono: "0 < x \<Longrightarrow> x \<le> y \<Longrightarrow> ulp_exp x \<le> ulp_exp y"
  using flog2_mono [of x y] by (auto simp: ulp_exp_def)

lemma below_next_binade: "0 < x \<Longrightarrow> x \<le> pow2 (ulp_exp x + 53)"
proof -
  assume x: "0 < x"
  have "x < pow2 (flog2 x + 1)" using x by (rule flog2_bounds)
  also have "\<dots> \<le> pow2 (ulp_exp x + 53)" using x by (intro pow2_mono) (simp add: ulp_exp_def)
  finally show ?thesis by simp
qed

lemma fl_le_next_binade: "0 < x \<Longrightarrow> fl x \<le> pow2 (ulp_exp x + 53)"
proof -
  assume x: "0 < x"
  have "x / pow2 (ulp_exp x) \<le> of_int (2 ^ 53)"
    using below_next_binade [OF x] by (simp add: pow2_add pow2_def [of 53] field_simps)
  then have "rne (x / pow2 (ulp_exp x)) \<le> 2 ^ 53" by (rule rne_le_of_int)
  then have "of_int (rne (x / pow2 (ulp_exp x))) \<le> (of_int (2 ^ 53) :: rat)"
    by (simp only: of_int_le_iff)
  then have "of_int (rne (x / pow2 (ulp_exp x))) * pow2 (ulp_exp x) \<le> of_int (2 ^ 53) * pow2 (ulp_exp x)"
    by (intro mult_right_mono) (simp_all add: less_imp_le)
  then show ?thesis using x by (simp add: fl_def Let_def pow2_add pow2_def [of 53] mult.commute)
qed

lemma binade_le_fl: "0 < y \<Longrightarrow> - 1074 < ulp_exp y \<Longrightarrow> pow2 (ulp_exp y + 52) \<le> fl y"
proof -
  assume y: "0 < y" and n: "- 1074 < ulp_exp y"
  then have e: "ulp_exp y + 52 = flog2 y" by (simp add: ulp_exp_def)
  have "pow2 (ulp_exp y + 52) \<le> y" unfolding e using y by (rule flog2_bounds)
  then have "of_int (2 ^ 52) \<le> y / pow2 (ulp_exp y)"
    by (simp add: pow2_add pow2_def [of 52] field_simps)
  then have "2 ^ 52 \<le> rne (y / pow2 (ulp_exp y))" by (rule of_int_le_rne)
  then have "of_int (2 ^ 52) \<le> (of_int (rne (y / pow2 (ulp_exp y))) :: rat)"
    by (simp only: of_int_le_iff)
  then have "of_int (2 ^ 52) * pow2 (ulp_exp y) \<le> of_int (rne (y / pow2 (ulp_exp y))) * pow2 (ulp_exp y)"
    by (intro mult_right_mono) (simp_all add: less_imp_le)
  then show ?thesis using y by (simp add: fl_def Let_def pow2_add pow2_def [of 52] mult.commute)
qed

lemma fl_mono_pos: "0 < x \<Longrightarrow> x \<le> y \<Longrightarrow> fl x \<le> fl y"
proof -
  assume x: "0 < x" and le: "x \<le> y"
  then have y: "0 < y" by simp
  consider "ulp_exp x = ulp_exp y" | "ulp_exp x + 1 \<le> ulp_exp y"
    using ulp_exp_mono [OF x le] by linarith
  then show ?thesis
  proof cases
    case 1
    have "rne (x / pow2 (ulp_exp y)) \<le> rne (y / pow2 (ulp_exp y))"
      by (intro rne_mono divide_right_mono le) (simp add: less_imp_le)
    then show ?thesis using x y by (simp add: fl_def Let_def 1)
  next
    case 2
    have "fl x \<le> pow2 (ulp_exp x + 53)" by (rule fl_le_next_binade [OF x])
    also have "\<dots> \<le> pow2 (ulp_exp y + 52)" using 2 by (intro pow2_mono) simp
    also have "\<dots> \<le> fl y"
    proof (rule binade_le_fl [OF y])
      have "- 1074 \<le> ulp_exp x" by (simp add: ulp_exp_def)
      then show "- 1074 < ulp_exp y" using 2 by simp
    qed
    finally show ?thesis .
  qed
qed

lemma fl_mono: "x \<le> y \<Longrightarrow> fl x \<le> fl y"
proof -
  assume le: "x \<le> y"
  consider "0 < x" | "y < 0" | "x \<le> 0" "0 \<le> y" by linarith
  then show ?thesis
  proof cases
    case 1
    then show ?thesis using le by (rule fl_mono_pos)
  next
    case 2
    then have "fl (- y) \<le> fl (- x)" using le by (intro fl_mono_pos) simp_all
    then show ?thesis by (simp add: fl_minus)
  next
    case 3
    then have "0 \<le> fl (- x)" "0 \<le> fl y" by (simp_all add: fl_nonneg)
    then show ?thesis by (simp add: fl_minus)
  qed
qed

lemma fl_exact: "x = of_int m * pow2 k \<Longrightarrow> ulp_exp x \<le> k \<Longrightarrow> fl x = x"
proof (cases "x = 0")
  case False
  assume x: "x = of_int m * pow2 k" and k: "ulp_exp x \<le> k"
  define d where "d = nat (k - ulp_exp x)"
  have kd: "k = ulp_exp x + int d" using k by (simp add: d_def)
  have pk: "pow2 k = pow2 (ulp_exp x) * 2 ^ d" by (subst kd) (simp only: pow2_add pow2_of_nat)
  have "of_int m * pow2 k = of_int (m * 2 ^ d) * pow2 (ulp_exp x)"
    by (subst pk) (simp only: of_int_mult of_int_power of_int_numeral mult_ac)
  then have "x = of_int (m * 2 ^ d) * pow2 (ulp_exp x)" using x by (rule trans [rotated])
  then have "x / pow2 (ulp_exp x) = of_int (m * 2 ^ d)" by (metis nonzero_mult_div_cancel_right pow2_nonzero)
  then have "rne (x / pow2 (ulp_exp x)) = m * 2 ^ d" by (simp only: rne_of_int)
  then show ?thesis using False \<open>x = of_int (m * 2 ^ d) * pow2 (ulp_exp x)\<close>
    by (simp add: fl_def Let_def)
qed simp

lemma fl_of_int: "\<bar>n\<bar> < 2 ^ 53 \<Longrightarrow> fl (of_int n) = of_int n"
proof (cases "n = 0")
  case False
  assume n: "\<bar>n\<bar> < 2 ^ 53"
  have pos: "0 < \<bar>of_int n :: rat\<bar>" using False by simp
  have "pow2 (flog2 \<bar>of_int n\<bar>) \<le> \<bar>of_int n\<bar>" using pos by (rule flog2_bounds)
  also have "\<dots> < pow2 53" using n by (simp add: pow2_def flip: of_int_abs)
  finally have "\<not> 53 \<le> flog2 \<bar>of_int n\<bar>" using pow2_mono [of 53 "flog2 \<bar>of_int n\<bar>"] by linarith
  then show ?thesis by (intro fl_exact [where m = n and k = 0]) (simp_all add: ulp_exp_def pow2_def)
qed simp

lemma fl_close:
  assumes "pow2 (- 1022) \<le> \<bar>x\<bar>"
  shows "\<bar>fl x - x\<bar> \<le> \<bar>x\<bar> / 2 ^ 53"
proof -
  have pos: "0 < \<bar>x\<bar>" using assms pow2_pos [of "- 1022"] by linarith
  then have x: "x \<noteq> 0" by simp
  have b: "pow2 (flog2 \<bar>x\<bar>) \<le> \<bar>x\<bar>" "\<bar>x\<bar> < pow2 (flog2 \<bar>x\<bar> + 1)"
    using flog2_bounds [OF pos] .
  have "pow2 (- 1022) < pow2 (flog2 \<bar>x\<bar> + 1)" using assms b(2) by linarith
  then have "- 1022 < flog2 \<bar>x\<bar> + 1" using pow2_mono [of "flog2 \<bar>x\<bar> + 1" "- 1022"] by linarith
  then have e: "ulp_exp x = flog2 \<bar>x\<bar> - 52" by (simp add: ulp_exp_def)
  let ?u = "pow2 (ulp_exp x)"
  have u: "?u \<le> \<bar>x\<bar> / 2 ^ 52"
    using b(1) pow2_add [of "flog2 \<bar>x\<bar>" "- 52"] by (simp add: e pow2_def [of "- 52"] field_simps)
  have "\<bar>of_int (rne (x / ?u)) - x / ?u\<bar> * ?u \<le> 1 / 2 * ?u"
    by (intro mult_right_mono rne_close) (simp add: less_imp_le)
  moreover have "fl x - x = (of_int (rne (x / ?u)) - x / ?u) * ?u"
    using x by (simp add: fl_def Let_def left_diff_distrib)
  moreover have "\<bar>?u\<bar> = ?u" by (simp add: less_imp_le)
  ultimately have "\<bar>fl x - x\<bar> \<le> ?u / 2" by (simp only: abs_mult)
  also have "\<dots> \<le> (\<bar>x\<bar> / 2 ^ 52) / 2" using u by (intro divide_right_mono) simp_all
  finally show ?thesis by simp
qed

section \<open>\<open>round(x, 3)\<close>\<close>

definition round3 :: "pyfloat \<Rightarrow> pyfloat" where
  "round3 x = fl (of_int (rne (x * 1000)) / 1000)"

lemma round3_mono: "x \<le> y \<Longrightarrow> round3 x \<le> round3 y"
  unfolding round3_def
  by (intro fl_mono divide_right_mono) (simp_all add: rne_mono)

lemma round3_nonneg: "0 \<le> x \<Longrightarrow> 0 \<le> round3 x"
  unfolding round3_def by (intro fl_nonneg divide_nonneg_pos) (simp_all add: rne_nonneg)

end
