(* ===== verification/Py_Str.thy ===== *)
theory Py_Str
  imports Prelude
begin

text \<open>
  The parts of Python's \<open>str\<close> and \<open>int\<close> that the modelled code calls, on strings over the 256
  characters of \<^typ>\<open>char\<close> read as the code points U+0000 to U+00FF: \<open>str(n)\<close>, \<open>int(s)\<close>,
  \<open>s.isdigit()\<close>, \<open>s.strip()\<close>, \<open>s.partition(c)\<close>, \<open>s.startswith(p)\<close> and \<open>s.casefold()\<close>.
\<close>

section \<open>Decimal numbers\<close>

definition digit_char :: "nat \<Rightarrow> char" where
  "digit_char d = char_of (48 + d)"

definition is_digit :: "char \<Rightarrow> bool" where
  "is_digit c = (48 \<le> (of_char c :: nat) \<and> (of_char c :: nat) \<le> 57)"

definition digit_val :: "char \<Rightarrow> int" where
  "digit_val c = int (of_char c) - 48"

fun str_nat :: "nat \<Rightarrow> string" where
  "str_nat n = (if n < 10 then [digit_char n] else str_nat (n div 10) @ [digit_char (n mod 10)])"

declare str_nat.simps [simp del]

definition str_int :: "int \<Rightarrow> string" where
  "str_int k = (if k < 0 then CHR ''-'' # str_nat (nat (- k)) else str_nat (nat k))"

lemma of_char_digit_char: "d < 10 \<Longrightarrow> (of_char (digit_char d) :: nat) = 48 + d"
  by (simp add: digit_char_def)

lemma is_digit_digit_char [simp]: "d < 10 \<Longrightarrow> is_digit (digit_char d)"
  by (simp add: is_digit_def of_char_digit_char)

lemma digit_val_digit_char [simp]: "d < 10 \<Longrightarrow> digit_val (digit_char d) = int d"
  by (simp add: digit_val_def of_char_digit_char)

lemma str_nat_not_Nil [simp]: "str_nat n \<noteq> []"
  by (subst str_nat.simps) simp

lemma str_nat_digits: "c \<in> set (str_nat n) \<Longrightarrow> is_digit c"
proof (induction n rule: str_nat.induct)
  case (1 n)
  from "1.prems" show ?case
    by (subst (asm) str_nat.simps) (auto split: if_splits dest: "1.IH")
qed

lemma hd_str_nat: "0 < n \<Longrightarrow> hd (str_nat n) \<noteq> CHR ''0''"
proof (induction n rule: str_nat.induct)
  case (1 n)
  show ?case
  proof (cases "n < 10")
    case True
    have "(of_char (digit_char n) :: nat) \<noteq> of_char (CHR ''0'')"
      using "1.prems" True by (simp add: of_char_digit_char)
    then have "digit_char n \<noteq> CHR ''0''" by auto
    then show ?thesis using True by (subst str_nat.simps) simp
  next
    case False
    then have "hd (str_nat (n div 10)) \<noteq> CHR ''0''" using "1.IH" by simp
    then show ?thesis using False by (subst str_nat.simps) simp
  qed
qed

text \<open>
  \<open>int(s)\<close>: surrounding white space, an optional sign, then digits with single underscores
  between them; anything else raises \<open>ValueError\<close> (\<open>None\<close> here). The flag of \<open>digits_value\<close> says
  that the character before is a digit.
\<close>

fun digits_value :: "int \<Rightarrow> bool \<Rightarrow> string \<Rightarrow> int option" where
  "digits_value acc after_digit [] = (if after_digit then Some acc else None)"
| "digits_value acc after_digit (c # cs) =
     (if is_digit c then digits_value (acc * 10 + digit_val c) True cs
      else if c = CHR ''_'' \<and> after_digit then digits_value acc False cs
      else None)"

definition is_space :: "char \<Rightarrow> bool" where
  "is_space c = (let n = of_char c :: nat in (9 \<le> n \<and> n \<le> 13) \<or> (28 \<le> n \<and> n \<le> 32) \<or> n = 133 \<or> n = 160)"

definition py_strip :: "string \<Rightarrow> string" where
  "py_strip s = rev (dropWhile is_space (rev (dropWhile is_space s)))"

definition py_int :: "string \<Rightarrow> int option" where
  "py_int s =
     (case py_strip s of
        [] \<Rightarrow> None
      | c # cs \<Rightarrow>
          if c = CHR ''-'' then map_option uminus (digits_value 0 False cs)
          else if c = CHR ''+'' then digits_value 0 False cs
          else digits_value 0 False (c # cs))"

lemma digit_not_space: "is_digit c \<Longrightarrow> \<not> is_space c"
  by (auto simp: is_digit_def is_space_def Let_def)

lemma digit_not_sign: "is_digit c \<Longrightarrow> c \<noteq> CHR ''-'' \<and> c \<noteq> CHR ''+''"
  by (auto simp: is_digit_def)

lemma dropWhile_none: "(\<And>c. c \<in> set s \<Longrightarrow> \<not> P c) \<Longrightarrow> dropWhile P s = s"
  by (cases s) auto

lemma py_strip_id: "(\<And>c. c \<in> set s \<Longrightarrow> \<not> is_space c) \<Longrightarrow> py_strip s = s"
  using dropWhile_none [of s is_space] dropWhile_none [of "rev s" is_space]
  by (simp add: py_strip_def)

lemma digits_value_append:
  "(\<And>c. c \<in> set s \<Longrightarrow> is_digit c) \<Longrightarrow> s \<noteq> [] \<Longrightarrow>
     digits_value acc b (s @ t) = digits_value (the (digits_value acc b s)) True t"
proof (induction s arbitrary: acc b)
  case Nil
  then show ?case by simp
next
  case (Cons c s)
  then show ?case by (cases "s = []") simp_all
qed

lemma digits_value_all_digits:
  "(\<And>c. c \<in> set s \<Longrightarrow> is_digit c) \<Longrightarrow> s \<noteq> [] \<Longrightarrow> digits_value acc b s \<noteq> None"
proof (induction s arbitrary: acc b)
  case Nil
  then show ?case by simp
next
  case (Cons c s)
  then show ?case by (cases "s = []") simp_all
qed

lemma digits_value_str_nat: "digits_value 0 b (str_nat n) = Some (int n)"
proof (induction n arbitrary: b rule: str_nat.induct)
  case (1 n)
  show ?case
  proof (cases "n < 10")
    case True
    then show ?thesis by (subst str_nat.simps) simp
  next
    case False
    then have IH: "digits_value 0 b (str_nat (n div 10)) = Some (int (n div 10))" for b
      using "1.IH" by simp
    have "digits_value 0 b (str_nat (n div 10) @ [digit_char (n mod 10)])
        = digits_value (int (n div 10)) True [digit_char (n mod 10)]"
      using IH by (subst digits_value_append) (auto dest: str_nat_digits)
    also have "\<dots> = Some (int (n div 10) * 10 + int (n mod 10))" by simp
    also have "\<dots> = Some (int n)" by (simp add: zdiv_int zmod_int)
    finally show ?thesis using False by (subst str_nat.simps) simp
  qed
qed

lemma py_int_str_nat [simp]: "py_int (str_nat n) = Some (int n)"
proof -
  have strip: "py_strip (str_nat n) = str_nat n"
    by (rule py_strip_id) (auto dest: str_nat_digits digit_not_space)
  obtain c cs where cs: "str_nat n = c # cs" by (cases "str_nat n") auto
  then have "is_digit c" by (metis list.set_intros(1) str_nat_digits)
  then show ?thesis
    using digits_value_str_nat [of False n] by (simp add: py_int_def strip [unfolded cs] cs digit_not_sign)
qed

lemma str_nat_inject: "str_nat m = str_nat n \<longleftrightarrow> m = n"
  by (metis option.inject of_nat_eq_iff py_int_str_nat)

section \<open>Other string methods\<close>

text \<open>\<open>str.isdigit()\<close> also accepts the superscript digits U+00B2, U+00B3 and U+00B9.\<close>

definition py_isdigit :: "string \<Rightarrow> bool" where
  "py_isdigit s = (s \<noteq> [] \<and> (\<forall>c\<in>set s. is_digit c \<or> (of_char c :: nat) \<in> {178, 179, 185}))"

fun py_partition :: "char \<Rightarrow> string \<Rightarrow> string \<times> bool \<times> string" where
  "py_partition c [] = ([], False, [])"
| "py_partition c (x # xs) =
     (if x = c then ([], True, xs)
      else let (pre, found, post) = py_partition c xs in (x # pre, found, post))"

definition starts_with :: "string \<Rightarrow> string \<Rightarrow> bool" where
  "starts_with p s = (take (length p) s = p)"

text \<open>
  \<open>str.casefold()\<close> on this alphabet: the upper-case letters of ASCII and Latin-1 become lower case
  and U+00DF becomes \<open>ss\<close>. U+00B5 folds to a Greek letter outside the alphabet, which no other
  character folds to; leaving it alone gives the same comparisons.
\<close>

definition fold_char :: "char \<Rightarrow> string" where
  "fold_char c =
     (let n = of_char c :: nat in
      if (65 \<le> n \<and> n \<le> 90) \<or> (192 \<le> n \<and> n \<le> 222 \<and> n \<noteq> 215) then [char_of (n + 32)]
      else if n = 223 then ''ss'' else [c])"

definition py_casefold :: "string \<Rightarrow> string" where
  "py_casefold s = concat (map fold_char s)"

lemma py_isdigit_str_nat [simp]: "py_isdigit (str_nat n)"
  by (auto simp: py_isdigit_def dest: str_nat_digits)

lemma py_partition_prefix:
  "c \<notin> set pre \<Longrightarrow> py_partition c (pre @ c # post) = (pre, True, post)"
  by (induction pre) auto

end
