(* ===== verification/Timeline_Model.thy ===== *)
theory Timeline_Model
  imports Py_Float Py_Str
begin

text \<open>
  The domain model of edit timelines (\<open>lib/edit_timeline/model.py\<close>, \<open>errors.py\<close>): clips of the main
  track, BGM clips, the content of one revision, the persisted document with its append-only
  revisions, the checks that the pydantic validators run (\<open>valid_...\<close>), and the conversion between
  seconds (floats) and integer microseconds. The messages of exceptions are left out; their code,
  operation index, clip and field are kept.
\<close>

section \<open>Exceptions\<close>

datatype et_code =
    Project_not_found | Episode_not_found | Script_invalid | Timeline_not_found
  | Revision_not_found | Timeline_name_invalid | Timeline_name_conflict | Timeline_invalid
  | Operation_invalid | Revision_conflict | Revision_summary_invalid | Revision_unchanged

record et_error =
  err_code :: et_code
  err_op :: "nat option"
  err_clip :: "string option"
  err_field :: "string option"
  err_conflicts :: "string list"

datatype exn = Edit_error et_error | Validation_error | Overflow_error | Value_error

definition et_fail :: "et_code \<Rightarrow> exn" where
  "et_fail c = Edit_error \<lparr>err_code = c, err_op = None, err_clip = None, err_field = None,
     err_conflicts = []\<rparr>"

fun message_key :: "et_code \<Rightarrow> string option" where
  "message_key Project_not_found = Some ''project_not_found''"
| "message_key Episode_not_found = Some ''episode_not_found''"
| "message_key Timeline_not_found = Some ''edit_timeline_not_found''"
| "message_key Revision_not_found = Some ''edit_timeline_revision_not_found''"
| "message_key Revision_unchanged = Some ''edit_timeline_revision_unchanged''"
| "message_key Timeline_name_conflict = Some ''edit_timeline_name_conflict''"
| "message_key Timeline_name_invalid = Some ''edit_timeline_name_invalid''"
| "message_key Script_invalid = Some ''edit_timeline_script_invalid''"
| "message_key Timeline_invalid = Some ''edit_timeline_invalid''"
| "message_key _ = None"

definition edit_timeline_message ::
    "et_code \<Rightarrow> (string \<times> 'v) list \<Rightarrow> (string \<times> (string \<times> 'v) list) option" where
  "edit_timeline_message code params =
     (case message_key code of
        None \<Rightarrow> None
      | Some key \<Rightarrow>
          Some (key, case map_of params ''project'' of
                       None \<Rightarrow> params
                     | Some v \<Rightarrow> AList.update ''name'' v (AList.delete ''project'' params)))"

section \<open>Time\<close>

definition microseconds_per_second :: int where
  "microseconds_per_second = 1000000"

definition seconds_to_microseconds :: "pyfloat \<Rightarrow> exn + int" where
  "seconds_to_microseconds seconds =
     (let us = fl (round3 seconds * of_int microseconds_per_second)
      in if overflows us then Inl Overflow_error else Inr (rne us))"

definition microseconds_to_seconds :: "int \<Rightarrow> pyfloat" where
  "microseconds_to_seconds us = round3 (fl (of_int us / of_int microseconds_per_second))"

definition default_source_volume_const :: pyfloat where
  "default_source_volume_const = 1"

definition voiceover_source_volume :: pyfloat where
  "voiceover_source_volume = fl (3 / 10)"

definition default_bgm_volume :: pyfloat where
  "default_bgm_volume = fl (1 / 4)"

definition default_bgm_fade_microseconds :: int where
  "default_bgm_fade_microseconds = 1000000"

section \<open>Clips and content\<close>

datatype transition_type =
    DISSOLVE | FADE_BLACK | FADE_WHITE | PUSH_LEFT | PUSH_RIGHT | PUSH_UP | PUSH_DOWN
  | WIPE_LEFT | WIPE_RIGHT | WIPE_UP | WIPE_DOWN | CIRCLE | CURTAIN_HORIZONTAL
  | CURTAIN_VERTICAL | MOSAIC | BLUR | RADIAL | GRADIENT_WIPE | SQUEEZE

record transition =
  t_type :: transition_type
  t_duration_us :: int

record clip_trim =
  trim_in_us :: int
  trim_out_us :: int
  trim_basis_version :: int

record edit_clip =
  c_id :: string
  c_unit_id :: string
  c_trim :: "clip_trim option"
  c_source_volume :: pyfloat
  c_hold_us :: int
  c_carries_narration :: bool
  c_reason :: "string option"
  c_transition :: "transition option"

record bgm_clip =
  g_id :: string
  g_bgm_id :: string
  g_start_us :: int
  g_in_us :: int
  g_out_us :: int
  g_volume :: pyfloat
  g_fade_in_us :: int
  g_fade_out_us :: int

record tl_content =
  ct_clips :: "edit_clip list"
  ct_bgm :: "bgm_clip list"

definition valid_id :: "char \<Rightarrow> string \<Rightarrow> bool" where
  "valid_id prefix s =
     (case s of
        p # d # ds \<Rightarrow> p = prefix \<and> is_digit d \<and> d \<noteq> CHR ''0'' \<and> list_all is_digit ds
      | _ \<Rightarrow> False)"

definition valid_any_id :: "string \<Rightarrow> bool" where
  "valid_any_id s = (valid_id CHR ''c'' s \<or> valid_id CHR ''b'' s)"

definition is_timeline_id :: "string \<Rightarrow> bool" where
  "is_timeline_id s =
     (take 3 s = ''tl-'' \<and> length s = 11 \<and>
      list_all (\<lambda>c. is_digit c \<or> (97 \<le> (of_char c :: nat) \<and> (of_char c :: nat) \<le> 102)) (drop 3 s))"

text \<open>\<open>clip_number\<close> is \<open>int(clip_id[1:])\<close>; \<open>None\<close> is the \<open>ValueError\<close> of \<open>int\<close>.\<close>

definition clip_number :: "string \<Rightarrow> int option" where
  "clip_number clip_id = py_int (drop 1 clip_id)"

definition clip_id_of :: "int \<Rightarrow> string" where
  "clip_id_of n = CHR ''c'' # str_int n"

definition bgm_id_of :: "int \<Rightarrow> string" where
  "bgm_id_of n = CHR ''b'' # str_int n"

definition valid_transition :: "transition \<Rightarrow> bool" where
  "valid_transition t = (0 \<le> t_duration_us t)"

definition valid_trim :: "clip_trim \<Rightarrow> bool" where
  "valid_trim t =
     (0 \<le> trim_in_us t \<and> 0 \<le> trim_out_us t \<and> 1 \<le> trim_basis_version t \<and> trim_in_us t < trim_out_us t)"

definition valid_clip :: "edit_clip \<Rightarrow> bool" where
  "valid_clip c =
     (valid_id CHR ''c'' (c_id c) \<and> c_unit_id c \<noteq> [] \<and>
      (case c_trim c of None \<Rightarrow> True | Some t \<Rightarrow> valid_trim t) \<and>
      0 \<le> c_source_volume c \<and> c_source_volume c \<le> 1 \<and> 0 \<le> c_hold_us c \<and>
      (case c_transition c of None \<Rightarrow> True | Some t \<Rightarrow> valid_transition t))"

definition valid_bgm :: "bgm_clip \<Rightarrow> bool" where
  "valid_bgm g =
     (valid_id CHR ''b'' (g_id g) \<and> g_bgm_id g \<noteq> [] \<and> 0 \<le> g_start_us g \<and> 0 \<le> g_in_us g \<and>
      0 \<le> g_out_us g \<and> 0 \<le> g_volume g \<and> g_volume g \<le> 1 \<and> 0 \<le> g_fade_in_us g \<and>
      0 \<le> g_fade_out_us g \<and> g_in_us g < g_out_us g)"

definition carriers :: "edit_clip list \<Rightarrow> string list" where
  "carriers cs = map c_unit_id (filter c_carries_narration cs)"

text \<open>The validators of the content itself, and all of them with those of the clips (a stored
  document is parsed whole; a content built from clips already at hand runs its own only).\<close>

definition unique_content :: "tl_content \<Rightarrow> bool" where
  "unique_content ct =
     (distinct (map c_id (ct_clips ct)) \<and> distinct (map g_id (ct_bgm ct)) \<and>
      distinct (carriers (ct_clips ct)))"

definition valid_content :: "tl_content \<Rightarrow> bool" where
  "valid_content ct =
     (list_all valid_clip (ct_clips ct) \<and> list_all valid_bgm (ct_bgm ct) \<and> unique_content ct)"

text \<open>The constructors run the validators and raise \<open>ValidationError\<close> when one fails.\<close>

definition make_trim :: "int \<Rightarrow> int \<Rightarrow> int \<Rightarrow> exn + clip_trim" where
  "make_trim i out basis =
     (let t = \<lparr>trim_in_us = i, trim_out_us = out, trim_basis_version = basis\<rparr>
      in if valid_trim t then Inr t else Inl Validation_error)"

definition make_transition :: "transition_type \<Rightarrow> int \<Rightarrow> exn + transition" where
  "make_transition ty us =
     (let t = \<lparr>t_type = ty, t_duration_us = us\<rparr>
      in if valid_transition t then Inr t else Inl Validation_error)"

definition make_clip :: "edit_clip \<Rightarrow> exn + edit_clip" where
  "make_clip c = (if valid_clip c then Inr c else Inl Validation_error)"

definition make_bgm :: "bgm_clip \<Rightarrow> exn + bgm_clip" where
  "make_bgm g = (if valid_bgm g then Inr g else Inl Validation_error)"

definition make_content :: "edit_clip list \<Rightarrow> bgm_clip list \<Rightarrow> exn + tl_content" where
  "make_content cs gs =
     (let ct = \<lparr>ct_clips = cs, ct_bgm = gs\<rparr>
      in if unique_content ct then Inr ct else Inl Validation_error)"

section \<open>Revisions and documents\<close>

datatype author_kind = Creator | Arcreel_agent | External_agent

record revision_author =
  au_kind :: author_kind
  au_user_id :: "string option"

record timeline_revision =
  r_number :: int
  r_parent :: "int option"
  r_author :: revision_author
  r_summary :: string
  r_created_at :: string
  r_content :: tl_content
  r_changed_clip_ids :: "string list option"
  r_restored_from :: "int option"

record timeline_document =
  d_id :: string
  d_episode :: int
  d_name :: string
  d_created_at :: string
  d_next_clip_number :: int
  d_next_bgm_number :: int
  d_revisions :: "timeline_revision list"

text \<open>\<open>TimelineName\<close> strips the characters with the Unicode property \<open>White_Space\<close> and then bounds
  the length; a stored name is stripped.\<close>

definition is_white :: "char \<Rightarrow> bool" where
  "is_white c = (let n = of_char c :: nat in (9 \<le> n \<and> n \<le> 13) \<or> n = 32 \<or> n = 133 \<or> n = 160)"

definition strip_white :: "string \<Rightarrow> string" where
  "strip_white s = rev (dropWhile is_white (rev (dropWhile is_white s)))"

definition timeline_name_max_length :: nat where
  "timeline_name_max_length = 40"

definition valid_name :: "string \<Rightarrow> bool" where
  "valid_name s = (1 \<le> length s \<and> length s \<le> timeline_name_max_length \<and> strip_white s = s)"

text \<open>The fields a revision validates itself, and all that parsing one checks.\<close>

definition revision_fields_ok :: "timeline_revision \<Rightarrow> bool" where
  "revision_fields_ok r =
     (1 \<le> r_number r \<and> (case r_parent r of None \<Rightarrow> True | Some p \<Rightarrow> 1 \<le> p) \<and> r_summary r \<noteq> [] \<and>
      (case r_changed_clip_ids r of None \<Rightarrow> True | Some ids \<Rightarrow> list_all valid_any_id ids) \<and>
      (case r_restored_from r of None \<Rightarrow> True | Some p \<Rightarrow> 1 \<le> p))"

definition valid_revision :: "timeline_revision \<Rightarrow> bool" where
  "valid_revision r = (revision_fields_ok r \<and> valid_content (r_content r))"

definition make_revision :: "timeline_revision \<Rightarrow> exn + timeline_revision" where
  "make_revision r = (if revision_fields_ok r then Inr r else Inl Validation_error)"

definition id_below :: "int \<Rightarrow> string \<Rightarrow> bool" where
  "id_below n i = (case clip_number i of None \<Rightarrow> False | Some k \<Rightarrow> k < n)"

definition ids_allocated :: "int \<Rightarrow> int \<Rightarrow> tl_content \<Rightarrow> bool" where
  "ids_allocated next_clip next_bgm ct =
     (list_all (\<lambda>c. id_below next_clip (c_id c)) (ct_clips ct) \<and>
      list_all (\<lambda>g. id_below next_bgm (g_id g)) (ct_bgm ct))"

fun numbered_from :: "int \<Rightarrow> timeline_revision list \<Rightarrow> bool" where
  "numbered_from n [] = True"
| "numbered_from n (r # rs) = (r_number r = n \<and> numbered_from (n + 1) rs)"

definition document_fields_ok :: "timeline_document \<Rightarrow> bool" where
  "document_fields_ok d =
     (is_timeline_id (d_id d) \<and> 1 \<le> d_episode d \<and> valid_name (d_name d) \<and>
      1 \<le> d_next_clip_number d \<and> 1 \<le> d_next_bgm_number d \<and> d_revisions d \<noteq> [] \<and>
      numbered_from 1 (d_revisions d) \<and>
      list_all (\<lambda>r. ids_allocated (d_next_clip_number d) (d_next_bgm_number d) (r_content r))
        (d_revisions d))"

definition valid_document :: "timeline_document \<Rightarrow> bool" where
  "valid_document d = (document_fields_ok d \<and> list_all valid_revision (d_revisions d))"

definition make_document :: "timeline_document \<Rightarrow> exn + timeline_document" where
  "make_document d = (if document_fields_ok d then Inr d else Inl Validation_error)"

definition latest :: "timeline_document \<Rightarrow> timeline_revision" where
  "latest d = last (d_revisions d)"

definition revision_of :: "timeline_document \<Rightarrow> int \<Rightarrow> timeline_revision option" where
  "revision_of d n =
     (if 1 \<le> n \<and> n \<le> int (length (d_revisions d)) then Some (d_revisions d ! nat (n - 1)) else None)"

section \<open>Laws of the time conversion\<close>

lemma fl_close_pos: "1 / 1048576 \<le> x \<Longrightarrow> \<bar>fl x - x\<bar> \<le> x / 9007199254740992"
proof -
  assume x: "1 / 1048576 \<le> x"
  have "pow2 (- 1022) \<le> pow2 (- 20)" by (rule pow2_mono) simp
  also have "\<dots> \<le> \<bar>x\<bar>" using x by (simp add: pow2_def)
  finally have "\<bar>fl x - x\<bar> \<le> \<bar>x\<bar> / 2 ^ 53" by (rule fl_close)
  then show ?thesis using x by simp
qed

lemma not_overflows: "\<bar>x\<bar> < 2 ^ 63 \<Longrightarrow> \<not> overflows x"
proof -
  assume "\<bar>x\<bar> < 2 ^ 63"
  also have "(2::rat) ^ 63 \<le> 2 ^ 1024" by (rule power_increasing) simp_all
  finally show ?thesis by (simp add: overflows_def)
qed

lemma seconds_to_microseconds_mono:
  "\<lbrakk>a \<le> b; seconds_to_microseconds a = Inr x; seconds_to_microseconds b = Inr y\<rbrakk> \<Longrightarrow> x \<le> y"
  by (auto simp: seconds_to_microseconds_def microseconds_per_second_def Let_def split: if_splits
      intro!: rne_mono fl_mono mult_right_mono round3_mono)

lemma seconds_to_microseconds_nonneg:
  "0 \<le> s \<Longrightarrow> seconds_to_microseconds s = Inr x \<Longrightarrow> 0 \<le> x"
  by (auto simp: seconds_to_microseconds_def microseconds_per_second_def Let_def split: if_splits
      intro!: rne_nonneg fl_nonneg mult_nonneg_nonneg round3_nonneg)

text \<open>The one failure of the conversion: the product overflows to an infinity.\<close>

lemma seconds_to_microseconds_error: "seconds_to_microseconds s = Inl e \<Longrightarrow> e = Overflow_error"
  by (auto simp: seconds_to_microseconds_def Let_def split: if_splits)

text \<open>A whole number of milliseconds is represented well enough to be found again.\<close>

lemma millis_error:
  fixes q f :: rat
  assumes "1 \<le> q" and "q \<le> 1000000000001" and "\<bar>f - q / 1000\<bar> \<le> q / 1000 / 9007199254740992"
  shows "\<bar>q - f * 1000\<bar> < 1 / 2" and "1 / 1048576 \<le> f * 1000000"
  using assms unfolding abs_le_iff abs_less_iff by linarith+

lemma micros_error:
  fixes q f g :: rat
  assumes "1 \<le> q" and "q \<le> 1000000000001" and "\<bar>f - q / 1000\<bar> \<le> q / 1000 / 9007199254740992"
    and "\<bar>g - f * 1000000\<bar> \<le> f * 1000000 / 9007199254740992"
  shows "\<bar>1000 * q - g\<bar> < 1 / 2" and "\<bar>g\<bar> < 9223372036854775808"
  using assms unfolding abs_le_iff abs_less_iff by linarith+

lemma millisecond_float:
  assumes "0 \<le> r" and "r \<le> 1000000000001"
  shows "round3 (fl (of_int r / 1000)) = fl (of_int r / 1000)"
    and "seconds_to_microseconds (fl (of_int r / 1000)) = Inr (1000 * r)"
proof -
  let ?f = "fl (of_int r / 1000)"
  have "round3 ?f = ?f \<and> seconds_to_microseconds ?f = Inr (1000 * r)"
  proof (cases "r = 0")
    case True
    then show ?thesis by (simp add: round3_def seconds_to_microseconds_def overflows_def)
  next
    case False
    then have "1 \<le> r" using assms(1) by simp
    then have q: "1 \<le> (of_int r :: rat)" "(of_int r :: rat) \<le> 1000000000001"
      using assms(2) by (simp, metis of_int_le_iff of_int_numeral)
    have f: "\<bar>?f - of_int r / 1000\<bar> \<le> of_int r / 1000 / 9007199254740992"
      using q by (intro fl_close_pos) simp
    have "rne (?f * 1000) = r" using q f by (intro rne_unique millis_error)
    then have rd: "round3 ?f = ?f" by (simp add: round3_def)
    have g: "\<bar>fl (?f * 1000000) - ?f * 1000000\<bar> \<le> ?f * 1000000 / 9007199254740992"
      using q f by (intro fl_close_pos millis_error)
    have "\<bar>of_int (1000 * r) - fl (?f * 1000000)\<bar> < 1 / 2" using micros_error(1) [OF q f g] by simp
    then have n: "rne (fl (?f * 1000000)) = 1000 * r" by (rule rne_unique)
    have "\<not> overflows (fl (?f * 1000000))" using micros_error(2) [OF q f g] by (intro not_overflows) simp
    then show ?thesis
      using rd n by (simp add: seconds_to_microseconds_def microseconds_per_second_def Let_def)
  qed
  then show "round3 ?f = ?f" and "seconds_to_microseconds ?f = Inr (1000 * r)" by auto
qed

lemma readout_error:
  fixes q z r :: rat
  assumes "1 \<le> q" and "q \<le> 1000000000000000" and "\<bar>z - q / 1000000\<bar> \<le> q / 1000000 / 9007199254740992"
    and "\<bar>r - z * 1000\<bar> \<le> 1 / 2"
  shows "\<bar>1000 * r - q\<bar> < 501" and "r < 1000000000001"
  using assms unfolding abs_le_iff abs_less_iff by linarith+

lemma microseconds_to_seconds_millis:
  assumes "0 \<le> us" and "us \<le> 1000000000000000"
  obtains r where "0 \<le> r" and "r \<le> 1000000000001" and "\<bar>1000 * r - us\<bar> \<le> 500"
    and "microseconds_to_seconds us = fl (of_int r / 1000)"
proof -
  let ?z = "fl (of_int us / 1000000)"
  define r where "r = rne (?z * 1000)"
  have eq: "microseconds_to_seconds us = fl (of_int r / 1000)"
    by (simp add: microseconds_to_seconds_def microseconds_per_second_def round3_def r_def)
  have pos: "0 \<le> r" unfolding r_def using assms(1) by (intro rne_nonneg mult_nonneg_nonneg fl_nonneg) simp_all
  show ?thesis
  proof (cases "us = 0")
    case True
    then have "r = 0" by (simp add: r_def)
    then show ?thesis using True eq by (intro that [of r]) simp_all
  next
    case False
    then have "1 \<le> us" using assms(1) by simp
    then have q: "1 \<le> (of_int us :: rat)" "(of_int us :: rat) \<le> 1000000000000000"
      using assms(2) by (simp, metis of_int_le_iff of_int_numeral)
    have z: "\<bar>?z - of_int us / 1000000\<bar> \<le> of_int us / 1000000 / 9007199254740992"
      using q(1) by (intro fl_close_pos) simp
    have c: "\<bar>of_int r - ?z * 1000\<bar> \<le> 1 / 2" unfolding r_def by (rule rne_close)
    have "\<bar>of_int (1000 * r - us)\<bar> < (501 :: rat)" using readout_error(1) [OF q z c] by simp
    then have "\<bar>1000 * r - us\<bar> < 501" by (metis of_int_abs of_int_less_iff of_int_numeral)
    moreover have "r < 1000000000001"
      using readout_error(2) [OF q z c] by (metis of_int_less_iff of_int_numeral)
    moreover have "\<bar>1000 * r - us\<bar> \<le> 500" using \<open>\<bar>1000 * r - us\<bar> < 501\<close> by simp
    ultimately show ?thesis using pos eq by (intro that [of r]) simp_all
  qed
qed

lemma microseconds_to_seconds_nonneg: "0 \<le> us \<Longrightarrow> 0 \<le> microseconds_to_seconds us"
  unfolding microseconds_to_seconds_def microseconds_per_second_def
  by (intro round3_nonneg fl_nonneg) simp

lemma microseconds_to_seconds_mono: "a \<le> b \<Longrightarrow> microseconds_to_seconds a \<le> microseconds_to_seconds b"
  unfolding microseconds_to_seconds_def microseconds_per_second_def
  by (intro round3_mono fl_mono divide_right_mono) simp_all

section \<open>Laws of clip numbers\<close>

lemma clip_number_clip_id_of [simp]: "0 \<le> n \<Longrightarrow> clip_number (clip_id_of n) = Some n"
  by (simp add: clip_number_def clip_id_of_def str_int_def)

lemma clip_number_bgm_id_of [simp]: "0 \<le> n \<Longrightarrow> clip_number (bgm_id_of n) = Some n"
  by (simp add: clip_number_def bgm_id_of_def str_int_def)

lemma valid_id_str_int: "1 \<le> n \<Longrightarrow> valid_id p (p # str_int n)"
proof -
  assume n: "1 \<le> n"
  then have pos: "0 < nat n" by simp
  obtain d ds where ds: "str_nat (nat n) = d # ds" by (cases "str_nat (nat n)") auto
  then have "\<And>c. c \<in> set (d # ds) \<Longrightarrow> is_digit c" using str_nat_digits [of _ "nat n"] by metis
  moreover have "d \<noteq> CHR ''0''" using hd_str_nat [OF pos] by (simp add: ds)
  ultimately show ?thesis using n by (simp add: valid_id_def str_int_def ds list_all_iff)
qed

lemma valid_clip_id_of: "1 \<le> n \<Longrightarrow> valid_id CHR ''c'' (clip_id_of n)"
  by (simp add: clip_id_of_def valid_id_str_int)

lemma valid_bgm_id_of: "1 \<le> n \<Longrightarrow> valid_id CHR ''b'' (bgm_id_of n)"
  by (simp add: bgm_id_of_def valid_id_str_int)

lemma fresh_id_not_below: "0 \<le> n \<Longrightarrow> \<not> id_below n (clip_id_of n) \<and> \<not> id_below n (bgm_id_of n)"
  by (simp add: id_below_def)

lemma id_below_mono: "id_below n i \<Longrightarrow> n \<le> m \<Longrightarrow> id_below m i"
  by (auto simp: id_below_def split: option.splits)

lemma valid_id_prefix: "valid_id p s \<Longrightarrow> \<exists>t. s = p # t"
  by (auto simp: valid_id_def split: list.splits)

lemma ids_allocated_mono:
  "ids_allocated a b ct \<Longrightarrow> a \<le> a' \<Longrightarrow> b \<le> b' \<Longrightarrow> ids_allocated a' b' ct"
  by (auto simp: ids_allocated_def list_all_iff intro: id_below_mono)

end
