(* ===== verification/Timeline_Bgm.thy ===== *)
theory Timeline_Bgm
  imports Timeline_Model
begin

text \<open>
  The facts an episode provides to the timeline commands (\<open>lib/edit_timeline/sources.py\<close>: script
  units, current media, present BGM) and the placement of the BGM track
  (\<open>lib/edit_timeline/bgm.py\<close>): clips by absolute start, cut at the end of the timeline, fades fitted.
\<close>

section \<open>Episode sources\<close>

datatype speech_mode = CHARACTER_SPEECH | NARRATOR_VOICEOVER | SILENT

record script_unit =
  u_id :: string
  u_speech_mode :: "speech_mode option"
  u_scripted_us :: int
  u_subtitle :: string

record episode_script_units =
  es_episode :: int
  es_kind :: string
  es_units :: "script_unit list"

definition video_resource_type :: "episode_script_units \<Rightarrow> string" where
  "video_resource_type es = (if es_kind es = ''video_units'' then ''reference_videos'' else ''videos'')"

record unit_media =
  m_video_version :: "int option"
  m_video_us :: "int option"
  m_narration_us :: "int option"

record bgm_media =
  bm_name :: string
  bm_duration_us :: int

record episode_sources =
  so_script :: episode_script_units
  so_media :: "string \<Rightarrow> unit_media option"
  so_tts_narration :: bool
  so_bgm :: "string \<Rightarrow> bgm_media option"

definition unit_of :: "episode_sources \<Rightarrow> string \<Rightarrow> script_unit option" where
  "unit_of so uid = List.find (\<lambda>u. u_id u = uid) (es_units (so_script so))"

text \<open>What loading guarantees: nonempty unit ids, versions from 1, positive measured durations.\<close>

definition wf_media :: "unit_media \<Rightarrow> bool" where
  "wf_media m =
     ((case m_video_version m of None \<Rightarrow> True | Some v \<Rightarrow> 1 \<le> v) \<and>
      (case m_video_us m of None \<Rightarrow> True | Some d \<Rightarrow> 0 \<le> d) \<and>
      (case m_narration_us m of None \<Rightarrow> True | Some d \<Rightarrow> 0 \<le> d))"

definition wf_sources :: "episode_sources \<Rightarrow> bool" where
  "wf_sources so =
     ((\<forall>u\<in>set (es_units (so_script so)). u_id u \<noteq> [] \<and> 0 \<le> u_scripted_us u) \<and>
      (\<forall>uid m. so_media so uid = Some m \<longrightarrow> wf_media m) \<and>
      (\<forall>bid m. so_bgm so bid = Some m \<longrightarrow> bid \<noteq> [] \<and> 0 < bm_duration_us m))"

lemma unit_of_SomeD: "unit_of so uid = Some u \<Longrightarrow> u \<in> set (es_units (so_script so)) \<and> u_id u = uid"
  by (auto simp: unit_of_def find_Some_iff)

text \<open>\<open>_current_file\<close> and \<open>_unit_media\<close>: a version counts when it is positive and its file exists;
  a measured duration when it is positive. The file test and the probe are arguments.\<close>

definition current_version :: "int \<Rightarrow> bool \<Rightarrow> int option" where
  "current_version version file_exists = (if version \<le> 0 \<or> \<not> file_exists then None else Some version)"

definition probed_duration_us :: "pyfloat option \<Rightarrow> int option" where
  "probed_duration_us seconds =
     (case seconds of
        None \<Rightarrow> None
      | Some s \<Rightarrow> if 0 < s then Some (rne (fl (s * of_int microseconds_per_second))) else None)"

definition load_unit_media ::
    "int \<Rightarrow> bool \<Rightarrow> pyfloat option \<Rightarrow> int \<Rightarrow> bool \<Rightarrow> pyfloat option \<Rightarrow> unit_media" where
  "load_unit_media v_version v_exists v_probe n_version n_exists n_probe =
     \<lparr>m_video_version = current_version v_version v_exists,
      m_video_us = (case current_version v_version v_exists of
                      None \<Rightarrow> None | Some _ \<Rightarrow> probed_duration_us v_probe),
      m_narration_us = (case current_version n_version n_exists of
                      None \<Rightarrow> None | Some _ \<Rightarrow> probed_duration_us n_probe)\<rparr>"

lemma load_unit_media_wf: "wf_media (load_unit_media v ve vp n ne np)"
  by (auto simp: wf_media_def load_unit_media_def current_version_def probed_duration_us_def
      microseconds_per_second_def split: option.splits intro!: rne_nonneg fl_nonneg)

section \<open>Placing the BGM track\<close>

definition bgm_cutoff_fade_microseconds :: int where
  "bgm_cutoff_fade_microseconds = 1000000"

record placed_bgm =
  p_clip_id :: string
  p_bgm_id :: string
  p_start_us :: int
  p_source_in_us :: int
  p_duration_us :: int
  p_volume :: pyfloat
  p_fade_in_us :: int
  p_fade_out_us :: int
  p_truncated :: bool

definition p_end_us :: "placed_bgm \<Rightarrow> int" where
  "p_end_us p = p_start_us p + p_duration_us p"

definition bgm_clip_length_us :: "bgm_clip \<Rightarrow> int" where
  "bgm_clip_length_us g = g_out_us g - g_in_us g"

definition bgm_end_us :: "bgm_clip \<Rightarrow> int" where
  "bgm_end_us g = g_start_us g + bgm_clip_length_us g"

definition fit_fades :: "bgm_clip \<Rightarrow> int \<Rightarrow> bool \<Rightarrow> int \<times> int" where
  "fit_fades g len truncated =
     (if truncated then
        let fade_out = min bgm_cutoff_fade_microseconds len
        in (min (g_fade_in_us g) (len - fade_out), fade_out)
      else
        let total = g_fade_in_us g + g_fade_out_us g
        in if total \<le> len then (g_fade_in_us g, g_fade_out_us g)
           else (g_fade_in_us g * len div total, g_fade_out_us g * len div total))"

definition place_one_bgm :: "int \<Rightarrow> bgm_clip \<Rightarrow> placed_bgm option" where
  "place_one_bgm duration_us g =
     (let natural_end = g_start_us g + bgm_clip_length_us g;
          end_us = min natural_end duration_us
      in if end_us \<le> g_start_us g then None
         else let len = end_us - g_start_us g;
                  truncated = end_us < natural_end;
                  fades = fit_fades g len truncated
              in Some \<lparr>p_clip_id = g_id g, p_bgm_id = g_bgm_id g, p_start_us = g_start_us g,
                       p_source_in_us = g_in_us g, p_duration_us = len, p_volume = g_volume g,
                       p_fade_in_us = fst fades, p_fade_out_us = snd fades,
                       p_truncated = truncated\<rparr>)"

definition place_bgm :: "bgm_clip list \<Rightarrow> int \<Rightarrow> placed_bgm list" where
  "place_bgm gs duration_us = List.map_filter (place_one_bgm duration_us) (sort_key g_start_us gs)"

definition bgm_ids :: "bgm_clip list \<Rightarrow> string list" where
  "bgm_ids gs = dedup (map g_bgm_id gs)"

record bgm_source =
  bs_bgm_id :: string
  bs_path :: string
  bs_content_digest :: string
  bs_gain_db :: pyfloat

definition bgm_sources_input ::
    "bgm_clip list \<Rightarrow> (string \<Rightarrow> bgm_source option) \<Rightarrow> (string \<times> (string \<times> pyfloat) option) list" where
  "bgm_sources_input gs sources =
     map (\<lambda>i. (i, map_option (\<lambda>s. (bs_content_digest s, bs_gain_db s)) (sources i))) (bgm_ids gs)"

subsection \<open>Laws\<close>

lemma proportional_share:
  fixes a b len :: int
  assumes "0 \<le> a" "0 \<le> b" "0 < len" "len < a + b"
  shows "0 \<le> a * len div (a + b)" and "0 \<le> b * len div (a + b)"
    and "a * len div (a + b) + b * len div (a + b) \<le> len"
proof -
  have t: "0 < a + b" using assms by simp
  show "0 \<le> a * len div (a + b)" "0 \<le> b * len div (a + b)"
    using assms t by (simp_all add: pos_imp_zdiv_nonneg_iff)
  have "(a + b) * (a * len div (a + b)) \<le> a * len" "(a + b) * (b * len div (a + b)) \<le> b * len"
    using t by (simp_all add: mult.commute [of "a + b"] minus_mod_eq_div_mult [symmetric])
  then have "(a + b) * (a * len div (a + b) + b * len div (a + b)) \<le> (a + b) * len"
    by (simp add: distrib_left distrib_right)
  then show "a * len div (a + b) + b * len div (a + b) \<le> len"
    using t by (simp only: mult_le_cancel_left_pos)
qed

lemma fit_fades_bounds:
  assumes "0 \<le> g_fade_in_us g" "0 \<le> g_fade_out_us g" "0 < len"
  shows "0 \<le> fst (fit_fades g len tr)" "0 \<le> snd (fit_fades g len tr)"
    "fst (fit_fades g len tr) + snd (fit_fades g len tr) \<le> len"
  using assms proportional_share [of "g_fade_in_us g" "g_fade_out_us g" len]
  by (auto simp: fit_fades_def Let_def bgm_cutoff_fade_microseconds_def min_def)

lemma place_one_bgm_SomeD:
  assumes "place_one_bgm d g = Some p" and "valid_bgm g"
  shows "p_start_us p = g_start_us g" "0 < p_duration_us p" "p_end_us p \<le> d"
    "p_end_us p \<le> bgm_end_us g" "p_truncated p \<longleftrightarrow> d < bgm_end_us g"
    "0 \<le> p_fade_in_us p" "0 \<le> p_fade_out_us p" "p_fade_in_us p + p_fade_out_us p \<le> p_duration_us p"
    "p_clip_id p = g_id g" "p_bgm_id p = g_bgm_id g" "p_source_in_us p = g_in_us g"
    "p_source_in_us p + p_duration_us p \<le> g_out_us g" "p_volume p = g_volume g"
  using assms
  by (auto simp: place_one_bgm_def Let_def p_end_us_def bgm_end_us_def bgm_clip_length_us_def
      valid_bgm_def split: if_splits intro!: fit_fades_bounds)

lemma set_map_filter_iff: "y \<in> set (List.map_filter f xs) \<longleftrightarrow> (\<exists>x\<in>set xs. f x = Some y)"
  by (auto simp: List.map_filter_def image_iff)

lemma place_bgm_member:
  "p \<in> set (place_bgm gs d) \<Longrightarrow> \<exists>g\<in>set gs. place_one_bgm d g = Some p"
  by (auto simp: place_bgm_def set_map_filter_iff)

text \<open>A track on which at most one clip sounds at a time.\<close>

definition bgm_disjoint :: "bgm_clip list \<Rightarrow> bool" where
  "bgm_disjoint gs = sorted_wrt (\<lambda>a b. bgm_end_us a \<le> g_start_us b) (sort_key g_start_us gs)"

lemma sorted_wrt_map_filter:
  "sorted_wrt R xs \<Longrightarrow> (\<And>x y x' y'. R x y \<Longrightarrow> x \<in> set xs \<Longrightarrow> y \<in> set xs \<Longrightarrow> f x = Some x' \<Longrightarrow> f y = Some y' \<Longrightarrow> S x' y') \<Longrightarrow>
   sorted_wrt S (List.map_filter f xs)"
proof (induction xs)
  case Nil
  then show ?case by (simp add: List.map_filter_simps)
next
  case (Cons x xs)
  then have IH: "sorted_wrt S (List.map_filter f xs)" by (intro Cons.IH) auto
  show ?case
  proof (cases "f x")
    case None
    then show ?thesis using IH by (simp add: List.map_filter_simps)
  next
    case (Some x')
    have "S x' y'" if "y' \<in> set (List.map_filter f xs)" for y'
    proof -
      from that obtain z where z: "z \<in> set xs" "f z = Some y'" by (auto simp: set_map_filter_iff)
      then have "R x z" using Cons.prems(1) by simp
      then show ?thesis using z Some by (intro Cons.prems(2) [of x z]) simp_all
    qed
    then show ?thesis using IH Some by (simp add: List.map_filter_simps)
  qed
qed

lemma place_bgm_disjoint:
  assumes "bgm_disjoint gs" and "list_all valid_bgm gs"
  shows "sorted_wrt (\<lambda>a b. p_end_us a \<le> p_start_us b) (place_bgm gs d)"
  unfolding place_bgm_def
proof (rule sorted_wrt_map_filter)
  show "sorted_wrt (\<lambda>a b. bgm_end_us a \<le> g_start_us b) (sort_key g_start_us gs)"
    using assms(1) by (simp add: bgm_disjoint_def)
next
  fix x y x' y'
  assume le: "bgm_end_us x \<le> g_start_us y" and xy: "x \<in> set (sort_key g_start_us gs)" "y \<in> set (sort_key g_start_us gs)"
    and p: "place_one_bgm d x = Some x'" "place_one_bgm d y = Some y'"
  have v: "valid_bgm x" "valid_bgm y" using assms(2) xy by (auto simp: list_all_iff)
  show "p_end_us x' \<le> p_start_us y'"
    using le place_one_bgm_SomeD(4) [OF p(1) v(1)] place_one_bgm_SomeD(1) [OF p(2) v(2)] by linarith
qed

end
