(* ===== verification/Timeline_Readout.thy ===== *)
theory Timeline_Readout
  imports Timeline_Bgm
begin

text \<open>
  The reading projection of one revision (\<open>lib/edit_timeline/readout.py\<close>): the effective source
  range of a clip, absolute starts and durations, narration windows, and the structural, narration
  and BGM issues. \<open>missing_glyphs\<close> is an argument: it depends on the bundled font file.
\<close>

section \<open>Issues\<close>

datatype issue_severity = INFO | WARNING | BLOCKING

datatype issue_scope = SCOPE_ALL | WITH_NARRATION

datatype issue_code =
    TRIM_IGNORED | UNIT_DELETED | UNIT_UNUSED | VIDEO_MISSING | HOLD_TOO_LONG
  | NARRATION_MISSING | NARRATION_OVERRUN | NARRATION_SOURCE_COLLISION
  | SUBTITLE_MISSING_GLYPHS | BGM_MISSING

fun issue_level :: "issue_code \<Rightarrow> issue_severity \<times> issue_scope" where
  "issue_level TRIM_IGNORED = (INFO, SCOPE_ALL)"
| "issue_level UNIT_DELETED = (INFO, SCOPE_ALL)"
| "issue_level UNIT_UNUSED = (INFO, SCOPE_ALL)"
| "issue_level VIDEO_MISSING = (BLOCKING, SCOPE_ALL)"
| "issue_level HOLD_TOO_LONG = (WARNING, SCOPE_ALL)"
| "issue_level NARRATION_MISSING = (BLOCKING, WITH_NARRATION)"
| "issue_level NARRATION_OVERRUN = (WARNING, WITH_NARRATION)"
| "issue_level NARRATION_SOURCE_COLLISION = (WARNING, WITH_NARRATION)"
| "issue_level SUBTITLE_MISSING_GLYPHS = (WARNING, SCOPE_ALL)"
| "issue_level BGM_MISSING = (BLOCKING, SCOPE_ALL)"

definition hold_warning_microseconds :: int where
  "hold_warning_microseconds = 2000000"

datatype param = P_str string | P_int int | P_float pyfloat

record timeline_issue =
  i_code :: issue_code
  i_severity :: issue_severity
  i_applies_to :: issue_scope
  i_clip_ids :: "string list"
  i_unit_id :: "string option"
  i_params :: "(string \<times> param) list"

definition make_issue ::
    "issue_code \<Rightarrow> string list \<Rightarrow> string option \<Rightarrow> (string \<times> param) list \<Rightarrow> timeline_issue" where
  "make_issue code clip_ids uid params =
     \<lparr>i_code = code, i_severity = fst (issue_level code), i_applies_to = snd (issue_level code),
      i_clip_ids = clip_ids, i_unit_id = uid, i_params = params\<rparr>"

section \<open>The source range a clip shows\<close>

definition trim_applies :: "edit_clip \<Rightarrow> unit_media \<Rightarrow> bool" where
  "trim_applies c m =
     (case (c_trim c, m_video_version m) of
        (Some t, Some v) \<Rightarrow> trim_basis_version t = v
      | _ \<Rightarrow> False)"

definition effective_source_range_us :: "edit_clip \<Rightarrow> int option \<Rightarrow> int \<Rightarrow> int \<times> int" where
  "effective_source_range_us c video_version whole_us =
     (case (video_version, c_trim c) of
        (Some v, Some t) \<Rightarrow>
          if trim_basis_version t \<noteq> v then (0, whole_us)
          else let source_in = min (trim_in_us t) whole_us
               in (source_in, max source_in (min (trim_out_us t) whole_us))
      | _ \<Rightarrow> (0, whole_us))"

definition clip_source_duration_us :: "edit_clip \<Rightarrow> unit_media \<Rightarrow> int \<Rightarrow> int" where
  "clip_source_duration_us c m scripted_us =
     (let whole = (case m_video_us m of Some d \<Rightarrow> d | None \<Rightarrow> scripted_us);
          range = effective_source_range_us c (m_video_version m) whole
      in snd range - fst range)"

section \<open>Views\<close>

datatype clip_status = Ready | Video_missing_status | Unit_deleted_status

record trim_view =
  tv_source_in :: pyfloat
  tv_source_out :: pyfloat
  tv_basis_version :: int

record transition_view =
  xv_type :: transition_type
  xv_duration :: pyfloat

record narration_view =
  nv_start :: pyfloat
  nv_end :: "pyfloat option"

record clip_view =
  cv_id :: string
  cv_unit_id :: string
  cv_status :: clip_status
  cv_start :: pyfloat
  cv_duration :: pyfloat
  cv_video_version :: "int option"
  cv_source_duration :: "pyfloat option"
  cv_trim :: "trim_view option"
  cv_source_volume :: pyfloat
  cv_hold :: pyfloat
  cv_carries_narration :: bool
  cv_narration :: "narration_view option"
  cv_reason :: "string option"
  cv_transition :: "transition_view option"

record bgm_view =
  gv_id :: string
  gv_bgm_id :: string
  gv_name :: "string option"
  gv_start :: pyfloat
  gv_end :: pyfloat
  gv_source_in :: pyfloat
  gv_source_out :: pyfloat
  gv_volume :: pyfloat
  gv_fade_in :: pyfloat
  gv_fade_out :: pyfloat

record timeline_readout =
  ro_id :: string
  ro_name :: string
  ro_episode :: int
  ro_revision :: int
  ro_latest_revision :: int
  ro_duration :: pyfloat
  ro_clips :: "clip_view list"
  ro_bgm :: "bgm_view list"
  ro_issues :: "timeline_issue list"

text \<open>The duration a clip occupies: 0 when its unit is gone.\<close>

definition clip_duration_us :: "episode_sources \<Rightarrow> edit_clip \<Rightarrow> int" where
  "clip_duration_us so c =
     (case (unit_of so (c_unit_id c), so_media so (c_unit_id c)) of
        (Some u, Some m) \<Rightarrow> clip_source_duration_us c m (u_scripted_us u) + c_hold_us c
      | _ \<Rightarrow> 0)"

definition narration_view_of :: "episode_sources \<Rightarrow> edit_clip \<Rightarrow> int \<Rightarrow> narration_view option" where
  "narration_view_of so c start_us =
     (case (unit_of so (c_unit_id c), so_media so (c_unit_id c)) of
        (Some u, Some m) \<Rightarrow>
          if c_carries_narration c \<and> u_speech_mode u = Some NARRATOR_VOICEOVER
          then Some \<lparr>nv_start = microseconds_to_seconds start_us,
                     nv_end = map_option (\<lambda>n. microseconds_to_seconds (start_us + n)) (m_narration_us m)\<rparr>
          else None
      | _ \<Rightarrow> None)"

definition clip_status_of :: "episode_sources \<Rightarrow> edit_clip \<Rightarrow> clip_status" where
  "clip_status_of so c =
     (case (unit_of so (c_unit_id c), so_media so (c_unit_id c)) of
        (Some u, Some m) \<Rightarrow> if m_video_version m \<noteq> None then Ready else Video_missing_status
      | _ \<Rightarrow> Unit_deleted_status)"

definition clip_view_of :: "edit_clip \<Rightarrow> episode_sources \<Rightarrow> int \<Rightarrow> clip_view \<times> int" where
  "clip_view_of c so start_us =
     (let m = so_media so (c_unit_id c); duration_us = clip_duration_us so c
      in (\<lparr>cv_id = c_id c, cv_unit_id = c_unit_id c, cv_status = clip_status_of so c,
           cv_start = microseconds_to_seconds start_us,
           cv_duration = microseconds_to_seconds duration_us,
           cv_video_version = Option.bind m m_video_version,
           cv_source_duration =
             (case m of
                None \<Rightarrow> None
              | Some md \<Rightarrow> if m_video_version md \<noteq> None
                           then map_option microseconds_to_seconds (m_video_us md) else None),
           cv_trim = map_option (\<lambda>t. \<lparr>tv_source_in = microseconds_to_seconds (trim_in_us t),
                                      tv_source_out = microseconds_to_seconds (trim_out_us t),
                                      tv_basis_version = trim_basis_version t\<rparr>) (c_trim c),
           cv_source_volume = c_source_volume c,
           cv_hold = microseconds_to_seconds (c_hold_us c),
           cv_carries_narration = c_carries_narration c,
           cv_narration = narration_view_of so c start_us,
           cv_reason = c_reason c,
           cv_transition = map_option (\<lambda>t. \<lparr>xv_type = t_type t,
                                            xv_duration = microseconds_to_seconds (t_duration_us t)\<rparr>)
                             (c_transition c)\<rparr>,
          duration_us))"

section \<open>Structural issues\<close>

definition trim_ignored_issue :: "edit_clip \<Rightarrow> unit_media option \<Rightarrow> timeline_issue list" where
  "trim_ignored_issue c media =
     (case (c_trim c, media) of
        (Some t, Some m) \<Rightarrow>
          (case m_video_version m of
             Some v \<Rightarrow>
               if trim_applies c m then []
               else [make_issue TRIM_IGNORED [c_id c] (Some (c_unit_id c))
                       [(''basis_version'', P_int (trim_basis_version t)), (''current_version'', P_int v)]]
           | None \<Rightarrow> [])
      | _ \<Rightarrow> [])"

definition hold_issue :: "edit_clip \<Rightarrow> timeline_issue list" where
  "hold_issue c =
     (if hold_warning_microseconds < c_hold_us c
      then [make_issue HOLD_TOO_LONG [c_id c] (Some (c_unit_id c))
              [(''hold'', P_float (microseconds_to_seconds (c_hold_us c))),
               (''limit'', P_float (microseconds_to_seconds hold_warning_microseconds))]]
      else [])"

text \<open>The first loop: issues of each clip, and the clips of each unit in use (a dict of lists).\<close>

fun scan_clips ::
    "episode_sources \<Rightarrow> edit_clip list \<Rightarrow> (string \<times> string list) list
       \<Rightarrow> timeline_issue list \<times> (string \<times> string list) list" where
  "scan_clips so [] used = ([], used)"
| "scan_clips so (c # cs) used =
     (if unit_of so (c_unit_id c) = None then
        let (rest, used') = scan_clips so cs used
        in (make_issue UNIT_DELETED [c_id c] (Some (c_unit_id c)) [] # rest, used')
      else
        let old = (case map_of used (c_unit_id c) of None \<Rightarrow> [] | Some ids \<Rightarrow> ids);
            (rest, used') = scan_clips so cs (AList.update (c_unit_id c) (old @ [c_id c]) used)
        in (trim_ignored_issue c (so_media so (c_unit_id c)) @ hold_issue c @ rest, used'))"

definition unit_issues ::
    "(string \<Rightarrow> string) \<Rightarrow> episode_sources \<Rightarrow> string \<times> string list \<Rightarrow> timeline_issue list" where
  "unit_issues missing_glyphs so entry =
     (let uid = fst entry; clip_ids = snd entry;
          missing = (case unit_of so uid of Some u \<Rightarrow> missing_glyphs (u_subtitle u) | None \<Rightarrow> [])
      in (if Option.bind (so_media so uid) m_video_version = None
          then [make_issue VIDEO_MISSING clip_ids (Some uid) []] else []) @
         (if missing \<noteq> []
          then [make_issue SUBTITLE_MISSING_GLYPHS clip_ids (Some uid) [(''characters'', P_str missing)]]
          else []))"

definition structural_issues ::
    "(string \<Rightarrow> string) \<Rightarrow> timeline_revision \<Rightarrow> episode_sources \<Rightarrow> timeline_issue list" where
  "structural_issues missing_glyphs r so =
     (let (issues, used) = scan_clips so (ct_clips (r_content r)) []
      in issues @ concat (map (unit_issues missing_glyphs so) used) @
         map (\<lambda>u. make_issue UNIT_UNUSED [] (Some (u_id u)) [])
           (filter (\<lambda>u. map_of used (u_id u) = None) (es_units (so_script so))))"

section \<open>Narration issues\<close>

record placed =
  pl_clip :: edit_clip
  pl_start_us :: int
  pl_duration_us :: int

record narration =
  n_carrier :: placed
  n_position :: nat
  n_end_us :: int

definition scan_narration ::
    "episode_sources \<Rightarrow> nat \<times> placed \<Rightarrow> timeline_issue list \<times> narration list" where
  "scan_narration so entry =
     (let position = fst entry; item = snd entry; c = pl_clip item
      in case (unit_of so (c_unit_id c), so_media so (c_unit_id c)) of
           (Some u, Some m) \<Rightarrow>
             if c_carries_narration c \<and> u_speech_mode u = Some NARRATOR_VOICEOVER then
               (case m_narration_us m of
                  None \<Rightarrow> ([make_issue NARRATION_MISSING [c_id c] (Some (c_unit_id c)) []], [])
                | Some n \<Rightarrow> ([], [\<lparr>n_carrier = item, n_position = position,
                                   n_end_us = pl_start_us item + n\<rparr>]))
             else ([], [])
         | _ \<Rightarrow> ([], []))"

definition next_narration_issue :: "narration \<Rightarrow> narration option \<Rightarrow> timeline_issue list" where
  "next_narration_issue n following =
     (case following of
        None \<Rightarrow> []
      | Some f \<Rightarrow>
          if pl_start_us (n_carrier f) < n_end_us n then
            [make_issue NARRATION_OVERRUN [c_id (pl_clip (n_carrier n)), c_id (pl_clip (n_carrier f))]
               (Some (c_unit_id (pl_clip (n_carrier n))))
               [(''cause'', P_str ''next_narration''),
                (''next_unit_id'', P_str (c_unit_id (pl_clip (n_carrier f)))),
                (''overlap'', P_float (microseconds_to_seconds
                   (min (n_end_us n) (n_end_us f) - pl_start_us (n_carrier f))))]]
          else [])"

definition timeline_end_issue :: "narration \<Rightarrow> int \<Rightarrow> timeline_issue list" where
  "timeline_end_issue n total_us =
     (if total_us < n_end_us n
      then [make_issue NARRATION_OVERRUN [c_id (pl_clip (n_carrier n))]
              (Some (c_unit_id (pl_clip (n_carrier n))))
              [(''cause'', P_str ''timeline_end''),
               (''overflow'', P_float (microseconds_to_seconds (n_end_us n - total_us)))]]
      else [])"

definition collision_cause :: "episode_sources \<Rightarrow> placed \<Rightarrow> string option" where
  "collision_cause so item =
     (case unit_of so (c_unit_id (pl_clip item)) of
        None \<Rightarrow> None
      | Some u \<Rightarrow>
          if pl_duration_us item = 0 then None
          else if u_speech_mode u = Some CHARACTER_SPEECH then Some ''dialogue''
          else if voiceover_source_volume < c_source_volume (pl_clip item) then Some ''source_volume''
          else None)"

definition collision_issue :: "episode_sources \<Rightarrow> narration \<Rightarrow> placed \<Rightarrow> timeline_issue list" where
  "collision_issue so n item =
     (case collision_cause so item of
        None \<Rightarrow> []
      | Some cause \<Rightarrow>
          [make_issue NARRATION_SOURCE_COLLISION [c_id (pl_clip (n_carrier n)), c_id (pl_clip item)]
             (Some (c_unit_id (pl_clip (n_carrier n))))
             [(''cause'', P_str cause), (''other_unit_id'', P_str (c_unit_id (pl_clip item))),
              (''source_volume'', P_float (c_source_volume (pl_clip item))),
              (''overlap'', P_float (microseconds_to_seconds
                 (min (n_end_us n) (pl_start_us item + pl_duration_us item) - pl_start_us item)))]])"

text \<open>The inner loop stops at the first item that starts at or after the end of the narration.\<close>

definition narration_run_issues ::
    "episode_sources \<Rightarrow> placed list \<Rightarrow> int \<Rightarrow> narration \<times> narration option \<Rightarrow> timeline_issue list" where
  "narration_run_issues so items total_us pair =
     (let n = fst pair
      in next_narration_issue n (snd pair) @ timeline_end_issue n total_us @
         concat (map (collision_issue so n)
           (takeWhile (\<lambda>item. pl_start_us item < n_end_us n) (drop (Suc (n_position n)) items))))"

definition with_following :: "'a list \<Rightarrow> ('a \<times> 'a option) list" where
  "with_following xs = zip xs (map Some (drop 1 xs) @ [None])"

definition narration_issues :: "placed list \<Rightarrow> episode_sources \<Rightarrow> int \<Rightarrow> timeline_issue list" where
  "narration_issues items so total_us =
     (if \<not> so_tts_narration so then []
      else let scanned = map (scan_narration so) (enumerate 0 items);
               narrations = concat (map snd scanned)
           in concat (map fst scanned) @
              concat (map (narration_run_issues so items total_us) (with_following narrations)))"

definition bgm_missing_issues :: "tl_content \<Rightarrow> (string \<Rightarrow> bool) \<Rightarrow> timeline_issue list" where
  "bgm_missing_issues ct available =
     map (\<lambda>g. make_issue BGM_MISSING [g_id g] None [(''bgm_id'', P_str (g_bgm_id g))])
       (filter (\<lambda>g. \<not> available (g_bgm_id g)) (sort_key g_start_us (ct_bgm ct)))"

section \<open>The projection\<close>

fun lay_clips :: "episode_sources \<Rightarrow> edit_clip list \<Rightarrow> int \<Rightarrow> (clip_view \<times> placed) list \<times> int" where
  "lay_clips so [] cursor = ([], cursor)"
| "lay_clips so (c # cs) cursor =
     (let (view, duration_us) = clip_view_of c so cursor;
          (rest, total) = lay_clips so cs (cursor + duration_us)
      in ((view, \<lparr>pl_clip = c, pl_start_us = cursor, pl_duration_us = duration_us\<rparr>) # rest, total))"

definition bgm_view_of :: "episode_sources \<Rightarrow> placed_bgm list \<Rightarrow> bgm_clip \<Rightarrow> bgm_view" where
  "bgm_view_of so placements g =
     (let placed = map_of (rev (map (\<lambda>p. (p_clip_id p, p)) placements)) (g_id g)
      in \<lparr>gv_id = g_id g, gv_bgm_id = g_bgm_id g, gv_name = map_option bm_name (so_bgm so (g_bgm_id g)),
          gv_start = microseconds_to_seconds (g_start_us g),
          gv_end = microseconds_to_seconds
            (case placed of Some p \<Rightarrow> p_end_us p | None \<Rightarrow> g_start_us g),
          gv_source_in = microseconds_to_seconds (g_in_us g),
          gv_source_out = microseconds_to_seconds (g_out_us g),
          gv_volume = g_volume g,
          gv_fade_in = microseconds_to_seconds
            (case placed of Some p \<Rightarrow> p_fade_in_us p | None \<Rightarrow> g_fade_in_us g),
          gv_fade_out = microseconds_to_seconds
            (case placed of Some p \<Rightarrow> p_fade_out_us p | None \<Rightarrow> g_fade_out_us g)\<rparr>)"

definition project_readout ::
    "(string \<Rightarrow> string) \<Rightarrow> timeline_document \<Rightarrow> timeline_revision \<Rightarrow> episode_sources \<Rightarrow> timeline_readout" where
  "project_readout missing_glyphs d r so =
     (let (laid, total_us) = lay_clips so (ct_clips (r_content r)) 0;
          placements = place_bgm (ct_bgm (r_content r)) total_us
      in \<lparr>ro_id = d_id d, ro_name = d_name d, ro_episode = d_episode d,
          ro_revision = r_number r, ro_latest_revision = r_number (latest d),
          ro_duration = microseconds_to_seconds total_us,
          ro_clips = map fst laid,
          ro_bgm = map (bgm_view_of so placements) (sort_key g_start_us (ct_bgm (r_content r))),
          ro_issues = structural_issues missing_glyphs r so @
            narration_issues (map snd laid) so total_us @
            bgm_missing_issues (r_content r) (\<lambda>b. so_bgm so b \<noteq> None)\<rparr>)"

end
