(* ===== verification/Timeline_Ops.thy ===== *)
theory Timeline_Ops
  imports Timeline_Readout
begin

text \<open>
  The batch editing operations (\<open>lib/edit_timeline/operations.py\<close>): one definition per method of
  \<open>_Batch\<close>, in the order of the file, each with the operation's index, the batch state before and
  the batch state after or the exception raised. An exception discards the state, as the caller
  does. The validating constructors of the clips are called where the source calls them;
  \<open>model_copy\<close> runs no validator and is a record update.
\<close>

section \<open>Operations\<close>

definition min_trim_microseconds :: int where
  "min_trim_microseconds = 100000"

definition max_hold_microseconds :: int where
  "max_hold_microseconds = 10000000"

definition min_transition_microseconds :: int where
  "min_transition_microseconds = 100000"

definition max_transition_microseconds :: int where
  "max_transition_microseconds = 2000000"

definition reason_max_length :: nat where
  "reason_max_length = 200"

definition min_bgm_microseconds :: int where
  "min_bgm_microseconds = 1000000"

lemmas [const_defs] = min_trim_microseconds_def max_hold_microseconds_def min_transition_microseconds_def
  max_transition_microseconds_def reason_max_length_def min_bgm_microseconds_def
  microseconds_per_second_def

definition default_source_volume :: "speech_mode option \<Rightarrow> pyfloat" where
  "default_source_volume m =
     (if m = Some NARRATOR_VOICEOVER then voiceover_source_volume else default_source_volume_const)"

record trim_spec =
  ts_source_in :: pyfloat
  ts_source_out :: pyfloat

record transition_spec =
  xs_type :: transition_type
  xs_duration :: pyfloat

record insert_clip =
  ic_unit_id :: string
  ic_after :: "string option"
  ic_source_volume :: "pyfloat option"
  ic_trim :: "trim_spec option"
  ic_hold :: pyfloat
  ic_reason :: "string option"
  ic_transition :: "transition_spec option"

record insert_bgm =
  ib_bgm_id :: string
  ib_start :: pyfloat
  ib_source_in :: pyfloat
  ib_source_out :: "pyfloat option"
  ib_volume :: pyfloat
  ib_fade_in :: pyfloat
  ib_fade_out :: pyfloat

record set_bgm =
  sb_clip :: string
  sb_start :: "pyfloat option"
  sb_source_in :: "pyfloat option"
  sb_source_out :: "pyfloat option"
  sb_volume :: "pyfloat option"
  sb_fade_in :: "pyfloat option"
  sb_fade_out :: "pyfloat option"

datatype timeline_operation =
    InsertClip insert_clip
  | DeleteClip string
  | MoveClip string "string option"
  | SetTrim string "trim_spec option"
  | SetVolume string pyfloat
  | SetHold string pyfloat
  | SetReason string "string option"
  | SetTransition string "transition_spec option"
  | PlaceNarration string
  | InsertBgm insert_bgm
  | SetBgm set_bgm
  | DeleteBgm string

record applied_batch =
  ab_content :: tl_content
  ab_next_clip_number :: int
  ab_next_bgm_number :: int
  ab_targets :: "string set"
  ab_referenced :: "string set"
  ab_last_operation :: "(string \<times> nat) list"

definition op_invalid :: "nat \<Rightarrow> string option \<Rightarrow> string \<Rightarrow> exn" where
  "op_invalid index clip_id field =
     Edit_error \<lparr>err_code = Operation_invalid, err_op = Some index, err_clip = clip_id,
                 err_field = Some field, err_conflicts = []\<rparr>"

record batch =
  b_clips :: "edit_clip list"
  b_bgm :: "bgm_clip list"
  b_next_clip :: int
  b_next_bgm :: int
  b_targets :: "string set"
  b_referenced :: "string set"
  b_last :: "(string \<times> nat) list"

definition init_batch :: "tl_content \<Rightarrow> int \<Rightarrow> int \<Rightarrow> batch" where
  "init_batch ct next_clip next_bgm =
     \<lparr>b_clips = ct_clips ct, b_bgm = ct_bgm ct, b_next_clip = next_clip, b_next_bgm = next_bgm,
      b_targets = {}, b_referenced = {}, b_last = []\<rparr>"

section \<open>Locating\<close>

definition batch_position :: "nat \<Rightarrow> string \<Rightarrow> string \<Rightarrow> batch \<Rightarrow> exn + nat \<times> batch" where
  "batch_position index clip_id field b =
     (let b' = b\<lparr>b_referenced := insert clip_id (b_referenced b),
                 b_targets := (if field = ''clip'' then insert clip_id (b_targets b) else b_targets b)\<rparr>
      in case find_pos (\<lambda>c. c_id c = clip_id) (b_clips b) of
           Some p \<Rightarrow> Inr (p, b')
         | None \<Rightarrow> Inl (op_invalid index (Some clip_id) field))"

definition insertion_point :: "nat \<Rightarrow> string option \<Rightarrow> batch \<Rightarrow> exn + nat \<times> batch" where
  "insertion_point index after b =
     (case after of
        None \<Rightarrow> Inr (0, b)
      | Some a \<Rightarrow> bindE (batch_position index a ''after'' b) (\<lambda>(p, b'). Inr (p + 1, b')))"

definition touch :: "nat \<Rightarrow> string \<Rightarrow> batch \<Rightarrow> batch" where
  "touch index clip_id b = b\<lparr>b_last := AList.update clip_id index (b_last b)\<rparr>"

definition replace_clip :: "nat \<Rightarrow> nat \<Rightarrow> (edit_clip \<Rightarrow> edit_clip) \<Rightarrow> batch \<Rightarrow> batch" where
  "replace_clip index position changes b =
     (let updated = changes (b_clips b ! position)
      in if updated \<noteq> b_clips b ! position
         then touch index (c_id updated) (b\<lparr>b_clips := (b_clips b)[position := updated]\<rparr>)
         else b)"

definition current_video ::
    "episode_sources \<Rightarrow> nat \<Rightarrow> string option \<Rightarrow> string \<Rightarrow> exn + int \<times> int" where
  "current_video so index clip_id uid =
     (case so_media so uid of
        None \<Rightarrow> Inl (op_invalid index clip_id ''trim'')
      | Some m \<Rightarrow>
          if unit_of so uid = None then Inl (op_invalid index clip_id ''trim'')
          else (case (m_video_version m, m_video_us m) of
                  (Some v, Some d) \<Rightarrow> Inr (v, d)
                | _ \<Rightarrow> Inl (op_invalid index clip_id ''trim'')))"

section \<open>Field checks\<close>

definition check_trim ::
    "episode_sources \<Rightarrow> nat \<Rightarrow> string option \<Rightarrow> string \<Rightarrow> trim_spec option \<Rightarrow> exn + clip_trim option" where
  "check_trim so index clip_id uid spec =
     (case spec of
        None \<Rightarrow> Inr None
      | Some s \<Rightarrow>
          bindE (current_video so index clip_id uid) (\<lambda>(version, whole_us).
            let whole = microseconds_to_seconds whole_us;
                in_range = (0 \<le> ts_source_in s \<and> ts_source_in s < ts_source_out s \<and>
                            ts_source_out s \<le> fl (whole + fl (1 / 1000)))
            in bindE (if in_range then seconds_to_microseconds (ts_source_in s) else Inr 0) (\<lambda>in_us.
               bindE (if in_range then seconds_to_microseconds (ts_source_out s) else Inr 0) (\<lambda>out0.
                 let out_us = (if whole_us < out0 \<and> out0 \<le> whole_us + 1000 then whole_us else out0)
                 in if \<not> in_range \<or> whole_us < out_us \<or> out_us - in_us < min_trim_microseconds
                    then Inl (op_invalid index clip_id ''trim'')
                    else bindE (make_trim in_us out_us version) (\<lambda>t. Inr (Some t))))))"

definition check_volume :: "nat \<Rightarrow> string option \<Rightarrow> pyfloat \<Rightarrow> exn + pyfloat" where
  "check_volume index clip_id v =
     (if \<not> (0 \<le> v \<and> v \<le> 1) then Inl (op_invalid index clip_id ''source_volume'') else Inr v)"

definition check_hold :: "nat \<Rightarrow> string option \<Rightarrow> pyfloat \<Rightarrow> exn + int" where
  "check_hold index clip_id v =
     (if \<not> (0 \<le> v \<and> v \<le> microseconds_to_seconds max_hold_microseconds)
      then Inl (op_invalid index clip_id ''hold'') else seconds_to_microseconds v)"

definition check_reason :: "nat \<Rightarrow> string option \<Rightarrow> string option \<Rightarrow> exn + string option" where
  "check_reason index clip_id v =
     (let reason = (case v of Some s \<Rightarrow> py_strip s | None \<Rightarrow> [])
      in if reason = [] then Inr None
         else if reason_max_length < length reason then Inl (op_invalid index clip_id ''reason'')
         else Inr (Some reason))"

definition check_transition ::
    "nat \<Rightarrow> string option \<Rightarrow> transition_spec option \<Rightarrow> exn + transition option" where
  "check_transition index clip_id spec =
     (case spec of
        None \<Rightarrow> Inr None
      | Some s \<Rightarrow>
          if \<not> (microseconds_to_seconds min_transition_microseconds \<le> xs_duration s \<and>
                xs_duration s \<le> microseconds_to_seconds max_transition_microseconds)
          then Inl (op_invalid index clip_id ''transition.duration'')
          else bindE (seconds_to_microseconds (xs_duration s)) (\<lambda>us.
               bindE (make_transition (xs_type s) us) (\<lambda>t. Inr (Some t))))"

definition require_next :: "nat \<Rightarrow> nat \<Rightarrow> transition option \<Rightarrow> batch \<Rightarrow> exn + unit" where
  "require_next index position t b =
     (if t \<noteq> None \<and> Suc position = length (b_clips b)
      then Inl (op_invalid index (Some (c_id (b_clips b ! position))) ''transition'')
      else Inr ())"

section \<open>Neighbours\<close>

text \<open>The dict from a clip id to the id of the clip after it (\<open>None\<close> for the last clip).\<close>

fun next_pairs :: "edit_clip list \<Rightarrow> (string \<times> string option) list" where
  "next_pairs [] = []"
| "next_pairs [c] = [(c_id c, None)]"
| "next_pairs (c # d # cs) = (c_id c, Some (c_id d)) # next_pairs (d # cs)"

definition next_ids :: "edit_clip list \<Rightarrow> string \<rightharpoonup> string option" where
  "next_ids cs = map_of (rev (next_pairs cs))"

definition reset_cut ::
    "nat \<Rightarrow> (string \<rightharpoonup> string option) \<Rightarrow> (string \<rightharpoonup> string option) \<Rightarrow> nat \<Rightarrow> batch \<Rightarrow> batch" where
  "reset_cut index before after position b =
     (let c = b_clips b ! position
      in if c_transition c \<noteq> None \<and>
            (case before (c_id c) of None \<Rightarrow> False | Some n \<Rightarrow> Some n \<noteq> after (c_id c))
         then replace_clip index position (\<lambda>c. c\<lparr>c_transition := None\<rparr>) b
         else b)"

definition reset_broken_cuts :: "nat \<Rightarrow> (string \<rightharpoonup> string option) \<Rightarrow> batch \<Rightarrow> batch" where
  "reset_broken_cuts index before b =
     fold (reset_cut index before (next_ids (b_clips b))) [0..<length (b_clips b)] b"

section \<open>The operations on the main track\<close>

definition apply_insert :: "episode_sources \<Rightarrow> nat \<Rightarrow> insert_clip \<Rightarrow> batch \<Rightarrow> exn + batch" where
  "apply_insert so index op b =
     (case unit_of so (ic_unit_id op) of
        None \<Rightarrow> Inl (op_invalid index None ''unit_id'')
      | Some u \<Rightarrow>
          bindE (check_trim so index None (u_id u) (ic_trim op)) (\<lambda>trim.
          bindE (case ic_source_volume op of
                   Some v \<Rightarrow> check_volume index None v
                 | None \<Rightarrow> Inr (default_source_volume (u_speech_mode u))) (\<lambda>volume.
          bindE (check_hold index None (ic_hold op)) (\<lambda>hold_us.
          bindE (check_reason index None (ic_reason op)) (\<lambda>reason.
          bindE (check_transition index None (ic_transition op)) (\<lambda>transition.
          bindE (make_clip
                   \<lparr>c_id = clip_id_of (b_next_clip b), c_unit_id = u_id u, c_trim = trim,
                    c_source_volume = volume, c_hold_us = hold_us,
                    c_carries_narration =
                      (\<not> list_ex c_carries_narration (filter (\<lambda>c. c_unit_id c = u_id u) (b_clips b))),
                    c_reason = reason, c_transition = transition\<rparr>) (\<lambda>clip.
          bindE (insertion_point index (ic_after op) b) (\<lambda>(position, b1).
            let b2 = (touch index (c_id clip) b1)
                       \<lparr>b_clips := insert_at position clip (b_clips b1), b_next_clip := b_next_clip b1 + 1\<rparr>
            in bindE (require_next index position (c_transition clip) b2) (\<lambda>_.
                 Inr (reset_broken_cuts index (next_ids (b_clips b)) b2))))))))))"

definition apply_place_narration :: "episode_sources \<Rightarrow> nat \<Rightarrow> string \<Rightarrow> batch \<Rightarrow> exn + batch" where
  "apply_place_narration so index clip_id b =
     bindE (batch_position index clip_id ''clip'' b) (\<lambda>(position, b1).
       let uid = c_unit_id (b_clips b1 ! position)
       in if (case unit_of so uid of None \<Rightarrow> True | Some u \<Rightarrow> u_speech_mode u \<noteq> Some NARRATOR_VOICEOVER)
          then Inl (op_invalid index (Some clip_id) ''clip'')
          else let b2 = fold (\<lambda>other b.
                          if c_unit_id (b_clips b ! other) = uid \<and> other \<noteq> position
                          then replace_clip index other (\<lambda>c. c\<lparr>c_carries_narration := False\<rparr>) b else b)
                        [0..<length (b_clips b1)] b1
               in Inr (replace_clip index position (\<lambda>c. c\<lparr>c_carries_narration := True\<rparr>) b2))"

definition apply_delete :: "nat \<Rightarrow> string \<Rightarrow> batch \<Rightarrow> exn + batch" where
  "apply_delete index clip_id b =
     bindE (batch_position index clip_id ''clip'' b) (\<lambda>(position, b1).
       let before = next_ids (b_clips b1);
           removed = b_clips b1 ! position;
           b2 = touch index (c_id removed) (b1\<lparr>b_clips := remove_at position (b_clips b1)\<rparr>);
           b3 = (if c_carries_narration removed then
                   (case find_pos (\<lambda>c. c_unit_id c = c_unit_id removed) (b_clips b2) of
                      Some heir \<Rightarrow> replace_clip index heir (\<lambda>c. c\<lparr>c_carries_narration := True\<rparr>) b2
                    | None \<Rightarrow> b2)
                 else b2)
       in Inr (reset_broken_cuts index before b3))"

definition apply_move :: "nat \<Rightarrow> string \<Rightarrow> string option \<Rightarrow> batch \<Rightarrow> exn + batch" where
  "apply_move index clip_id after b =
     bindE (batch_position index clip_id ''clip'' b) (\<lambda>(position, b1).
       if after = Some clip_id then Inl (op_invalid index (Some clip_id) ''after'')
       else
         let before = next_ids (b_clips b1);
             moving = b_clips b1 ! position;
             b2 = b1\<lparr>b_clips := remove_at position (b_clips b1)\<rparr>
         in bindE (insertion_point index after b2) (\<lambda>(destination, b3).
              let b4 = (if destination \<noteq> position then touch index (c_id moving) b3 else b3)
              in Inr (reset_broken_cuts index before
                   (b4\<lparr>b_clips := insert_at destination moving (b_clips b4)\<rparr>))))"

section \<open>The operations on the BGM track\<close>

definition bgm_position :: "nat \<Rightarrow> string \<Rightarrow> batch \<Rightarrow> exn + nat \<times> batch" where
  "bgm_position index clip_id b =
     (let b' = b\<lparr>b_referenced := insert clip_id (b_referenced b), b_targets := insert clip_id (b_targets b)\<rparr>
      in case find_pos (\<lambda>g. g_id g = clip_id) (b_bgm b) of
           Some p \<Rightarrow> Inr (p, b')
         | None \<Rightarrow> Inl (op_invalid index (Some clip_id) ''clip''))"

definition bgm_duration ::
    "episode_sources \<Rightarrow> nat \<Rightarrow> string option \<Rightarrow> string \<Rightarrow> exn + int" where
  "bgm_duration so index clip_id bgm_id =
     (case so_bgm so bgm_id of
        None \<Rightarrow> Inl (op_invalid index clip_id ''bgm_id'')
      | Some m \<Rightarrow> Inr (bm_duration_us m))"

definition bgm_range ::
    "episode_sources \<Rightarrow> nat \<Rightarrow> string option \<Rightarrow> string \<Rightarrow> pyfloat \<Rightarrow> pyfloat option \<Rightarrow> exn + int \<times> int" where
  "bgm_range so index clip_id bgm_id source_in source_out =
     bindE (bgm_duration so index clip_id bgm_id) (\<lambda>whole_us.
       let whole = microseconds_to_seconds whole_us;
           out = (case source_out of None \<Rightarrow> whole | Some s \<Rightarrow> s);
           in_range = (0 \<le> source_in \<and> source_in < out \<and> out \<le> fl (whole + fl (1 / 1000)))
       in bindE (if in_range then seconds_to_microseconds source_in else Inr 0) (\<lambda>in_us.
          bindE (if in_range then bindE (seconds_to_microseconds out) (\<lambda>us. Inr (min us whole_us))
                 else Inr 0) (\<lambda>out_us.
            if \<not> in_range \<or> out_us - in_us < min min_bgm_microseconds whole_us
            then Inl (op_invalid index clip_id ''source_in/source_out'')
            else Inr (in_us, out_us))))"

definition bgm_volume :: "nat \<Rightarrow> string option \<Rightarrow> pyfloat \<Rightarrow> exn + pyfloat" where
  "bgm_volume index clip_id v =
     (if \<not> (0 \<le> v \<and> v \<le> 1) then Inl (op_invalid index clip_id ''volume'') else Inr v)"

definition seconds_at_least_zero :: "nat \<Rightarrow> string option \<Rightarrow> string \<Rightarrow> pyfloat \<Rightarrow> exn + int" where
  "seconds_at_least_zero index clip_id field v =
     (if v < 0 then Inl (op_invalid index clip_id field) else seconds_to_microseconds v)"

definition apply_insert_bgm :: "episode_sources \<Rightarrow> nat \<Rightarrow> insert_bgm \<Rightarrow> batch \<Rightarrow> exn + batch" where
  "apply_insert_bgm so index op b =
     bindE (bgm_range so index None (ib_bgm_id op) (ib_source_in op) (ib_source_out op)) (\<lambda>(in_us, out_us).
     bindE (seconds_at_least_zero index None ''start'' (ib_start op)) (\<lambda>start_us.
     bindE (bgm_volume index None (ib_volume op)) (\<lambda>volume.
     bindE (seconds_at_least_zero index None ''fade_in'' (ib_fade_in op)) (\<lambda>fade_in_us.
     bindE (seconds_at_least_zero index None ''fade_out'' (ib_fade_out op)) (\<lambda>fade_out_us.
     bindE (make_bgm
              \<lparr>g_id = bgm_id_of (b_next_bgm b), g_bgm_id = ib_bgm_id op, g_start_us = start_us,
               g_in_us = in_us, g_out_us = out_us, g_volume = volume, g_fade_in_us = fade_in_us,
               g_fade_out_us = fade_out_us\<rparr>) (\<lambda>g.
       Inr ((touch index (g_id g) b)\<lparr>b_next_bgm := b_next_bgm b + 1, b_bgm := b_bgm b @ [g]\<rparr>)))))))"

text \<open>One entry of \<open>changes\<close>: absent when the operation does not name the field.\<close>

definition optional :: "'x option \<Rightarrow> ('x \<Rightarrow> exn + 'y) \<Rightarrow> 'y \<Rightarrow> exn + 'y" where
  "optional v check old = (case v of None \<Rightarrow> Inr old | Some x \<Rightarrow> check x)"

definition apply_set_bgm :: "episode_sources \<Rightarrow> nat \<Rightarrow> set_bgm \<Rightarrow> batch \<Rightarrow> exn + batch" where
  "apply_set_bgm so index op b =
     bindE (bgm_position index (sb_clip op) b) (\<lambda>(position, b1).
       let current = b_bgm b1 ! position; cid = Some (sb_clip op)
       in bindE (if sb_source_in op \<noteq> None \<or> sb_source_out op \<noteq> None then
                   bgm_range so index cid (g_bgm_id current)
                     (case sb_source_in op of Some s \<Rightarrow> s | None \<Rightarrow> microseconds_to_seconds (g_in_us current))
                     (Some (case sb_source_out op of Some s \<Rightarrow> s
                            | None \<Rightarrow> microseconds_to_seconds (g_out_us current)))
                 else Inr (g_in_us current, g_out_us current)) (\<lambda>(in_us, out_us).
          bindE (optional (sb_start op) (seconds_at_least_zero index cid ''start'') (g_start_us current)) (\<lambda>start_us.
          bindE (optional (sb_volume op) (bgm_volume index cid) (g_volume current)) (\<lambda>volume.
          bindE (optional (sb_fade_in op) (seconds_at_least_zero index cid ''fade_in'')
                   (g_fade_in_us current)) (\<lambda>fade_in_us.
          bindE (optional (sb_fade_out op) (seconds_at_least_zero index cid ''fade_out'')
                   (g_fade_out_us current)) (\<lambda>fade_out_us.
            let updated = current\<lparr>g_start_us := start_us, g_in_us := in_us, g_out_us := out_us,
                            g_volume := volume, g_fade_in_us := fade_in_us, g_fade_out_us := fade_out_us\<rparr>
            in Inr (if updated \<noteq> current
                    then touch index (g_id updated) (b1\<lparr>b_bgm := (b_bgm b1)[position := updated]\<rparr>)
                    else b1)))))))"

definition apply_delete_bgm :: "nat \<Rightarrow> string \<Rightarrow> batch \<Rightarrow> exn + batch" where
  "apply_delete_bgm index clip_id b =
     bindE (bgm_position index clip_id b) (\<lambda>(position, b1).
       Inr (touch index (g_id (b_bgm b1 ! position)) (b1\<lparr>b_bgm := remove_at position (b_bgm b1)\<rparr>)))"

section \<open>Dispatch\<close>

text \<open>An operation that sets one field of one clip: locate, check the value, replace.\<close>

definition set_field ::
    "nat \<Rightarrow> string \<Rightarrow> (edit_clip \<Rightarrow> exn + 'v) \<Rightarrow> ('v \<Rightarrow> edit_clip \<Rightarrow> edit_clip) \<Rightarrow> batch \<Rightarrow> exn + batch" where
  "set_field index clip_id check change b =
     bindE (batch_position index clip_id ''clip'' b) (\<lambda>(position, b1).
     bindE (check (b_clips b1 ! position)) (\<lambda>v. Inr (replace_clip index position (change v) b1)))"

definition apply_set_transition ::
    "nat \<Rightarrow> string \<Rightarrow> transition_spec option \<Rightarrow> batch \<Rightarrow> exn + batch" where
  "apply_set_transition index clip_id spec b =
     bindE (batch_position index clip_id ''clip'' b) (\<lambda>(position, b1).
     bindE (check_transition index (Some clip_id) spec) (\<lambda>t.
     bindE (require_next index position t b1) (\<lambda>_.
       Inr (replace_clip index position (\<lambda>c. c\<lparr>c_transition := t\<rparr>) b1))))"

fun apply_op :: "episode_sources \<Rightarrow> nat \<times> timeline_operation \<Rightarrow> batch \<Rightarrow> exn + batch" where
  "apply_op so (index, InsertClip op) b = apply_insert so index op b"
| "apply_op so (index, DeleteClip clip_id) b = apply_delete index clip_id b"
| "apply_op so (index, MoveClip clip_id after) b = apply_move index clip_id after b"
| "apply_op so (index, SetTrim clip_id spec) b =
     set_field index clip_id (\<lambda>c. check_trim so index (Some clip_id) (c_unit_id c) spec)
       (\<lambda>t c. c\<lparr>c_trim := t\<rparr>) b"
| "apply_op so (index, SetVolume clip_id v) b =
     set_field index clip_id (\<lambda>c. check_volume index (Some clip_id) v) (\<lambda>v c. c\<lparr>c_source_volume := v\<rparr>) b"
| "apply_op so (index, SetHold clip_id v) b =
     set_field index clip_id (\<lambda>c. check_hold index (Some clip_id) v) (\<lambda>us c. c\<lparr>c_hold_us := us\<rparr>) b"
| "apply_op so (index, SetReason clip_id v) b =
     set_field index clip_id (\<lambda>c. check_reason index (Some clip_id) v) (\<lambda>r c. c\<lparr>c_reason := r\<rparr>) b"
| "apply_op so (index, SetTransition clip_id spec) b = apply_set_transition index clip_id spec b"
| "apply_op so (index, PlaceNarration clip_id) b = apply_place_narration so index clip_id b"
| "apply_op so (index, InsertBgm op) b = apply_insert_bgm so index op b"
| "apply_op so (index, SetBgm op) b = apply_set_bgm so index op b"
| "apply_op so (index, DeleteBgm clip_id) b = apply_delete_bgm index clip_id b"

section \<open>The checks of the whole batch\<close>

definition batch_duration_us :: "episode_sources \<Rightarrow> edit_clip \<Rightarrow> int option" where
  "batch_duration_us so c =
     (case (unit_of so (c_unit_id c), so_media so (c_unit_id c)) of
        (Some u, Some m) \<Rightarrow> Some (clip_source_duration_us c m (u_scripted_us u) + c_hold_us c)
      | _ \<Rightarrow> None)"

definition touched_indexes :: "(string \<times> nat) list \<Rightarrow> string list \<Rightarrow> nat list" where
  "touched_indexes lasts ids = List.map_filter (map_of lasts) ids"

definition transition_us :: "transition option \<Rightarrow> int" where
  "transition_us t = (case t of None \<Rightarrow> 0 | Some x \<Rightarrow> t_duration_us x)"

definition check_window :: "episode_sources \<Rightarrow> batch \<Rightarrow> edit_clip option \<Rightarrow> edit_clip \<Rightarrow> exn + unit" where
  "check_window so b previous c =
     (let indexes = touched_indexes (b_last b) (map c_id (case previous of None \<Rightarrow> [c] | Some p \<Rightarrow> [p, c]));
          total_us = transition_us (Option.bind previous c_transition) + transition_us (c_transition c)
      in if indexes = [] then Inr ()
         else case batch_duration_us so c of
                None \<Rightarrow> Inr ()
              | Some d \<Rightarrow>
                  if total_us = 0 \<or> total_us \<le> 2 * d then Inr ()
                  else Inl (op_invalid (Max (set indexes)) (Some (c_id c)) ''transition.duration''))"

fun check_windows_from ::
    "episode_sources \<Rightarrow> batch \<Rightarrow> edit_clip option \<Rightarrow> edit_clip list \<Rightarrow> exn + unit" where
  "check_windows_from so b previous [] = Inr ()"
| "check_windows_from so b previous (c # cs) =
     bindE (check_window so b previous c) (\<lambda>_. check_windows_from so b (Some c) cs)"

definition check_transition_windows :: "episode_sources \<Rightarrow> batch \<Rightarrow> exn + unit" where
  "check_transition_windows so b = check_windows_from so b None (b_clips b)"

definition timeline_duration_us :: "episode_sources \<Rightarrow> edit_clip list \<Rightarrow> int" where
  "timeline_duration_us so cs = sum_list (List.map_filter (batch_duration_us so) cs)"

text \<open>\<open>sorted(..., key=_bgm_order)\<close>: the key reads the clip number and fails where \<open>int\<close> does.\<close>

definition bgm_order :: "bgm_clip \<Rightarrow> int \<times> int" where
  "bgm_order g = (g_start_us g, case clip_number (g_id g) of Some n \<Rightarrow> n | None \<Rightarrow> 0)"

definition sorted_bgm :: "bgm_clip list \<Rightarrow> exn + bgm_clip list" where
  "sorted_bgm gs =
     (if list_all (\<lambda>g. clip_number (g_id g) \<noteq> None) gs then Inr (sort_key bgm_order gs)
      else Inl Value_error)"

fun check_starts :: "(string \<times> nat) list \<Rightarrow> int \<Rightarrow> bgm_clip list \<Rightarrow> exn + unit" where
  "check_starts lasts total_us [] = Inr ()"
| "check_starts lasts total_us (g # gs) =
     (case map_of lasts (g_id g) of
        None \<Rightarrow> check_starts lasts total_us gs
      | Some index \<Rightarrow>
          if total_us \<le> g_start_us g then Inl (op_invalid index (Some (g_id g)) ''start'')
          else check_starts lasts total_us gs)"

fun check_overlaps :: "(string \<times> nat) list \<Rightarrow> bgm_clip list \<Rightarrow> exn + unit" where
  "check_overlaps lasts (previous # following # gs) =
     (let indexes = touched_indexes lasts [g_id previous, g_id following];
          subject = (if map_of lasts (g_id following) \<noteq> None then following else previous)
      in if g_start_us previous + bgm_clip_length_us previous \<le> g_start_us following \<or> indexes = []
         then check_overlaps lasts (following # gs)
         else Inl (op_invalid (Max (set indexes)) (Some (g_id subject)) ''start''))"
| "check_overlaps lasts _ = Inr ()"

definition check_bgm :: "episode_sources \<Rightarrow> batch \<Rightarrow> exn + unit" where
  "check_bgm so b =
     (if filter (\<lambda>g. map_of (b_last b) (g_id g) \<noteq> None) (b_bgm b) = [] then Inr ()
      else bindE (check_starts (b_last b) (timeline_duration_us so (b_clips b)) (b_bgm b)) (\<lambda>_.
           bindE (sorted_bgm (b_bgm b)) (check_overlaps (b_last b))))"

definition apply_operations ::
    "tl_content \<Rightarrow> int \<Rightarrow> timeline_operation list \<Rightarrow> episode_sources \<Rightarrow> int \<Rightarrow> bool \<Rightarrow> exn + applied_batch" where
  "apply_operations ct next_clip ops so next_bgm check_windows =
     bindE (foldE (apply_op so) (enumerate 0 ops) (init_batch ct next_clip next_bgm)) (\<lambda>b.
     bindE (if check_windows
            then bindE (check_transition_windows so b) (\<lambda>_. check_bgm so b) else Inr ()) (\<lambda>_.
     bindE (sorted_bgm (b_bgm b)) (\<lambda>bgm.
     bindE (make_content (b_clips b) bgm) (\<lambda>content.
       Inr \<lparr>ab_content = content, ab_next_clip_number = b_next_clip b,
            ab_next_bgm_number = b_next_bgm b, ab_targets = b_targets b,
            ab_referenced = b_referenced b, ab_last_operation = b_last b\<rparr>))))"

end
