(* ===== verification/Timeline_Batch.thy ===== *)
theory Timeline_Batch
  imports Timeline_Ops
begin

text \<open>
  What a batch of timeline operations keeps: the invariant of the batch state, the frame (what an
  operation leaves alone), the cuts (a transition survives only while its neighbour does), and the
  errors. The batch is an instance of the machine interfaces of the prelude.
\<close>

section \<open>Neighbours\<close>

lemma next_pairs_zip: "next_pairs cs = zip (map c_id cs) (map Some (tl (map c_id cs)) @ [None])"
  by (induction cs rule: next_pairs.induct) simp_all

lemma next_pairs_ids: "map fst (next_pairs cs) = map c_id cs"
  by (induction cs rule: next_pairs.induct) simp_all

lemma next_ids_cong: "map c_id cs = map c_id ds \<Longrightarrow> next_ids cs = next_ids ds"
  by (simp add: next_ids_def next_pairs_zip)

lemma next_ids_nth:
  assumes "distinct (map c_id cs)" and "p < length cs"
  shows "next_ids cs (c_id (cs ! p)) = Some (if Suc p < length cs then Some (c_id (cs ! Suc p)) else None)"
proof -
  have len: "length (next_pairs cs) = length cs" by (metis length_map next_pairs_ids)
  have "next_pairs cs ! p = (c_id (cs ! p), if Suc p < length cs then Some (c_id (cs ! Suc p)) else None)"
    using assms(2) by (cases cs) (auto simp: next_pairs_zip nth_append nth_Cons')
  then have "(c_id (cs ! p), if Suc p < length cs then Some (c_id (cs ! Suc p)) else None) \<in> set (rev (next_pairs cs))"
    using assms(2) len by (metis nth_mem set_rev)
  moreover have "distinct (map fst (rev (next_pairs cs)))"
    using assms(1) by (simp add: rev_map [symmetric] next_pairs_ids)
  ultimately show ?thesis unfolding next_ids_def by (intro map_of_is_SomeI)
qed

lemma next_ids_None_iff: "next_ids cs x = None \<longleftrightarrow> x \<notin> c_id ` set cs"
proof -
  have "fst ` set (next_pairs cs) = c_id ` set cs"
    by (metis next_pairs_ids set_map)
  then show ?thesis by (simp add: next_ids_def map_of_eq_None_iff)
qed

section \<open>Replacing clips in place\<close>

text \<open>A loop that replaces the clip at each position: the clips become the images.\<close>

lemma fold_replace_prefix:
  assumes "n \<le> length (b_clips b)" and "\<And>p c. c_id (f p c) = c_id c"
  shows "\<exists>L. fold (\<lambda>p. replace_clip i p (f p)) [0..<n] b =
      b\<lparr>b_clips := map (\<lambda>p. f p (b_clips b ! p)) [0..<n] @ drop n (b_clips b), b_last := L\<rparr> \<and>
    keys L = keys (b_last b) \<union> {c_id (b_clips b ! p) | p. p < n \<and> f p (b_clips b ! p) \<noteq> b_clips b ! p} \<and>
    (\<forall>x. map_of L x = map_of (b_last b) x \<or> map_of L x = Some i \<and> x \<in> c_id ` set (b_clips b))"
  using assms(1)
proof (induction n)
  case 0
  show ?case by (intro exI [of _ "b_last b"]) simp
next
  case (Suc n)
  let ?cs = "b_clips b"
  let ?pre = "map (\<lambda>p. f p (?cs ! p)) [0..<n]"
  from Suc obtain L where L: "fold (\<lambda>p. replace_clip i p (f p)) [0..<n] b =
      b\<lparr>b_clips := ?pre @ drop n ?cs, b_last := L\<rparr>"
    "keys L = keys (b_last b) \<union> {c_id (?cs ! p) | p. p < n \<and> f p (?cs ! p) \<noteq> ?cs ! p}"
    "\<And>x. map_of L x = map_of (b_last b) x \<or> map_of L x = Some i \<and> x \<in> c_id ` set ?cs" by auto
  have n: "n < length ?cs" using Suc.prems by simp
  have d: "drop n ?cs = ?cs ! n # drop (Suc n) ?cs" using n by (simp add: Cons_nth_drop_Suc)
  have at: "(?pre @ drop n ?cs) ! n = ?cs ! n" by (simp add: nth_append d)
  have up: "(?pre @ drop n ?cs)[n := y] = ?pre @ y # drop (Suc n) ?cs" for y
    by (simp add: list_update_append d)
  have step: "fold (\<lambda>p. replace_clip i p (f p)) [0..<Suc n] b =
      replace_clip i n (f n) (b\<lparr>b_clips := ?pre @ drop n ?cs, b_last := L\<rparr>)"
    using L(1) by simp
  show ?case
  proof (cases "f n (?cs ! n) = ?cs ! n")
    case True
    then have "fold (\<lambda>p. replace_clip i p (f p)) [0..<Suc n] b =
        b\<lparr>b_clips := map (\<lambda>p. f p (?cs ! p)) [0..<Suc n] @ drop (Suc n) ?cs, b_last := L\<rparr>"
      unfolding step using True at by (simp add: replace_clip_def Let_def d)
    moreover have "{c_id (?cs ! p) | p. p < Suc n \<and> f p (?cs ! p) \<noteq> ?cs ! p} =
        {c_id (?cs ! p) | p. p < n \<and> f p (?cs ! p) \<noteq> ?cs ! p}"
      using True by (auto simp: less_Suc_eq)
    ultimately show ?thesis using L(2,3) by (intro exI [of _ L]) simp
  next
    case False
    then have "fold (\<lambda>p. replace_clip i p (f p)) [0..<Suc n] b =
        b\<lparr>b_clips := map (\<lambda>p. f p (?cs ! p)) [0..<Suc n] @ drop (Suc n) ?cs,
          b_last := AList.update (c_id (?cs ! n)) i L\<rparr>"
      unfolding step using at up by (simp add: replace_clip_def touch_def Let_def assms(2) d)
    moreover have "{c_id (?cs ! p) | p. p < Suc n \<and> f p (?cs ! p) \<noteq> ?cs ! p} =
        insert (c_id (?cs ! n)) {c_id (?cs ! p) | p. p < n \<and> f p (?cs ! p) \<noteq> ?cs ! p}"
      using False by (auto simp: less_Suc_eq)
    ultimately show ?thesis using L(2,3) imageI [OF nth_mem [OF n], of c_id]
      by (intro exI [of _ "AList.update (c_id (?cs ! n)) i L"]) simp
  qed
qed

lemma fold_replace:
  assumes "\<And>p c. c_id (f p c) = c_id c"
  obtains L where "fold (\<lambda>p. replace_clip i p (f p)) [0..<length (b_clips b)] b =
      b\<lparr>b_clips := map (\<lambda>p. f p (b_clips b ! p)) [0..<length (b_clips b)], b_last := L\<rparr>"
    "keys L = keys (b_last b) \<union>
       {c_id (b_clips b ! p) | p. p < length (b_clips b) \<and> f p (b_clips b ! p) \<noteq> b_clips b ! p}"
    "\<forall>x. map_of L x = map_of (b_last b) x \<or> map_of L x = Some i \<and> x \<in> c_id ` set (b_clips b)"
  using fold_replace_prefix [of "length (b_clips b)" b f i] assms by auto

text \<open>Resetting the broken cuts is such a loop.\<close>

definition cut_broken :: "(string \<rightharpoonup> string option) \<Rightarrow> (string \<rightharpoonup> string option) \<Rightarrow> edit_clip \<Rightarrow> bool" where
  "cut_broken before after c =
     (c_transition c \<noteq> None \<and>
      (case before (c_id c) of None \<Rightarrow> False | Some n \<Rightarrow> Some n \<noteq> after (c_id c)))"

definition mend_cut :: "(string \<rightharpoonup> string option) \<Rightarrow> (string \<rightharpoonup> string option) \<Rightarrow> edit_clip \<Rightarrow> edit_clip" where
  "mend_cut before after c = (if cut_broken before after c then c\<lparr>c_transition := None\<rparr> else c)"

lemma mend_cut_simps [simp]:
  "c_id (mend_cut before after c) = c_id c" "c_unit_id (mend_cut before after c) = c_unit_id c"
  "c_carries_narration (mend_cut before after c) = c_carries_narration c"
  "valid_clip c \<Longrightarrow> valid_clip (mend_cut before after c)"
  by (simp_all add: mend_cut_def valid_clip_def)

lemma mend_cut_transition:
  "c_transition (mend_cut before after c) = (if cut_broken before after c then None else c_transition c)"
  by (simp add: mend_cut_def)

lemma mend_cut_neq: "mend_cut before after c \<noteq> c \<longleftrightarrow> cut_broken before after c"
proof -
  have "c\<lparr>c_transition := None\<rparr> \<noteq> c" if "c_transition c \<noteq> None"
    using that by (metis edit_clip.ext_inject edit_clip.surjective edit_clip.update_convs(8))
  then show ?thesis by (auto simp: mend_cut_def cut_broken_def)
qed

lemma reset_broken_cuts_eq:
  obtains L where "reset_broken_cuts i before b =
      b\<lparr>b_clips := map (mend_cut before (next_ids (b_clips b))) (b_clips b), b_last := L\<rparr>"
    "keys L = keys (b_last b) \<union>
       c_id ` {c \<in> set (b_clips b). cut_broken before (next_ids (b_clips b)) c}"
    "\<forall>x. map_of L x = map_of (b_last b) x \<or> map_of L x = Some i \<and> x \<in> c_id ` set (b_clips b)"
proof -
  let ?f = "\<lambda>p. mend_cut before (next_ids (b_clips b))"
  have "replace_clip i p (\<lambda>c. c\<lparr>c_transition := None\<rparr>) b' = replace_clip i p (mend_cut before after) b'"
    if "cut_broken before after (b_clips b' ! p)" for p b' after
    using that by (simp add: replace_clip_def mend_cut_def)
  moreover have "replace_clip i p (mend_cut before after) b' = b'"
    if "\<not> cut_broken before after (b_clips b' ! p)" for p b' after
    using that by (simp add: replace_clip_def mend_cut_def)
  ultimately have "reset_cut i before after = (\<lambda>p. replace_clip i p (mend_cut before after))" for after
    by (auto simp: reset_cut_def fun_eq_iff Let_def cut_broken_def)
  then have eq: "reset_broken_cuts i before b = fold (\<lambda>p. replace_clip i p (?f p)) [0..<length (b_clips b)] b"
    by (simp add: reset_broken_cuts_def)
  obtain L where L: "fold (\<lambda>p. replace_clip i p (?f p)) [0..<length (b_clips b)] b =
      b\<lparr>b_clips := map (\<lambda>p. ?f p (b_clips b ! p)) [0..<length (b_clips b)], b_last := L\<rparr>"
    "keys L = keys (b_last b) \<union>
       {c_id (b_clips b ! p) | p. p < length (b_clips b) \<and> ?f p (b_clips b ! p) \<noteq> b_clips b ! p}"
    "\<forall>x. map_of L x = map_of (b_last b) x \<or> map_of L x = Some i \<and> x \<in> c_id ` set (b_clips b)"
    by (rule fold_replace [of ?f]) simp_all
  have 1: "map (\<lambda>p. ?f p (b_clips b ! p)) [0..<length (b_clips b)] = map (?f 0) (b_clips b)"
    by (rule nth_equalityI) simp_all
  have 2: "{c_id (b_clips b ! p) | p. p < length (b_clips b) \<and> ?f p (b_clips b ! p) \<noteq> b_clips b ! p} =
      c_id ` {c \<in> set (b_clips b). cut_broken before (next_ids (b_clips b)) c}"
    unfolding mend_cut_neq by (auto simp: in_set_conv_nth image_iff)
  show ?thesis by (rule that [OF _ _ L(3)]) (use L(1,2) in \<open>simp_all only: eq 1 2\<close>)
qed


section \<open>The invariant, the frame and the cuts\<close>

definition carries :: "string \<Rightarrow> edit_clip \<Rightarrow> bool" where
  "carries uid c = (c_unit_id c = uid \<and> c_carries_narration c)"

definition carrier_count :: "edit_clip list \<Rightarrow> string \<Rightarrow> nat" where
  "carrier_count cs uid = length (filter (carries uid) cs)"

text \<open>Every unit that occurs among the clips has a clip that carries its narration.\<close>

definition narration_covered :: "edit_clip list \<Rightarrow> bool" where
  "narration_covered cs = list_all (\<lambda>c. 1 \<le> carrier_count cs (c_unit_id c)) cs"

text \<open>The last clip carries no transition.\<close>

definition no_dangling :: "edit_clip list \<Rightarrow> bool" where
  "no_dangling cs = (cs \<noteq> [] \<longrightarrow> c_transition (last cs) = None)"

definition base_good :: "nat \<Rightarrow> batch \<Rightarrow> bool" where
  "base_good n b =
     (list_all valid_clip (b_clips b) \<and> list_all valid_bgm (b_bgm b) \<and>
      distinct (map c_id (b_clips b)) \<and> distinct (map g_id (b_bgm b)) \<and>
      list_all (id_below (b_next_clip b)) (map c_id (b_clips b)) \<and>
      list_all (id_below (b_next_bgm b)) (map g_id (b_bgm b)) \<and>
      1 \<le> b_next_clip b \<and> 1 \<le> b_next_bgm b \<and> (\<forall>x j. map_of (b_last b) x = Some j \<longrightarrow> j < n \<and> valid_any_id x))"

lemma valid_id_any: "valid_clip c \<Longrightarrow> valid_any_id (c_id c)" "valid_bgm g \<Longrightarrow> valid_any_id (g_id g)"
  by (auto simp: valid_clip_def valid_bgm_def valid_any_id_def)

lemma valid_clip_any_id: "list_all valid_clip cs \<Longrightarrow> c \<in> set cs \<Longrightarrow> valid_any_id (c_id c)"
  by (auto simp: list_all_iff valid_clip_def valid_any_id_def)

lemma valid_bgm_any_id: "list_all valid_bgm gs \<Longrightarrow> g \<in> set gs \<Longrightarrow> valid_any_id (g_id g)"
  by (auto simp: list_all_iff valid_bgm_def valid_any_id_def)

definition one_carrier :: "edit_clip list \<Rightarrow> bool" where
  "one_carrier cs = (\<forall>uid. carrier_count cs uid \<le> 1)"

definition touched :: "batch \<Rightarrow> string set" where
  "touched b = keys (b_last b)"

definition batch_frame :: "batch \<Rightarrow> batch \<Rightarrow> bool" where
  "batch_frame b b' =
     (touched b \<subseteq> touched b' \<and> b_next_clip b \<le> b_next_clip b' \<and> b_next_bgm b \<le> b_next_bgm b' \<and>
      filter (\<lambda>c. c_id c \<notin> touched b') (b_clips b) = filter (\<lambda>c. c_id c \<notin> touched b') (b_clips b') \<and>
      filter (\<lambda>g. g_id g \<notin> touched b') (b_bgm b) = filter (\<lambda>g. g_id g \<notin> touched b') (b_bgm b'))"

definition cuts_kept :: "batch \<Rightarrow> batch \<Rightarrow> bool" where
  "cuts_kept b b' =
     (\<forall>c\<in>set (b_clips b'). c_transition c \<noteq> None \<longrightarrow> c_id c \<notin> touched b' \<longrightarrow>
        next_ids (b_clips b) (c_id c) = next_ids (b_clips b') (c_id c))"

lemma base_good_simps [simp]:
  "base_good n (b\<lparr>b_targets := T\<rparr>) = base_good n b" "base_good n (b\<lparr>b_referenced := R\<rparr>) = base_good n b"
  by (simp_all add: base_good_def)

lemma touched_simps [simp]:
  "touched (b\<lparr>b_targets := T\<rparr>) = touched b" "touched (b\<lparr>b_referenced := R\<rparr>) = touched b"
  "touched (b\<lparr>b_clips := cs\<rparr>) = touched b" "touched (b\<lparr>b_bgm := gs\<rparr>) = touched b"
  "touched (b\<lparr>b_next_clip := k\<rparr>) = touched b" "touched (b\<lparr>b_next_bgm := k\<rparr>) = touched b"
  "touched (b\<lparr>b_last := L\<rparr>) = keys L" "touched (touch i x b) = insert x (touched b)"
  by (simp_all add: touched_def touch_def)

lemma touch_simps [simp]:
  "b_clips (touch i x b) = b_clips b" "b_bgm (touch i x b) = b_bgm b"
  "b_next_clip (touch i x b) = b_next_clip b" "b_next_bgm (touch i x b) = b_next_bgm b"
  "b_last (touch i x b) = AList.update x i (b_last b)"
  by (simp_all add: touch_def)

lemma batch_frame_refl [simp]: "batch_frame b b"
  by (simp add: batch_frame_def)

lemma filter_frame_trans:
  assumes "filter P xs = filter P ys" and "filter Q ys = filter Q zs" and "\<And>x. Q x \<Longrightarrow> P x"
  shows "filter Q xs = filter Q zs"
proof -
  have "filter Q (filter P xs) = filter Q xs" "filter Q (filter P ys) = filter Q ys"
    using assms(3) by (auto intro: filter_cong)
  then show ?thesis using assms(1,2) by metis
qed

lemma batch_frame_trans:
  assumes "batch_frame b c" and "batch_frame c d"
  shows "batch_frame b d"
proof -
  have sub: "touched c \<subseteq> touched d" using assms(2) by (simp add: batch_frame_def)
  have "filter (\<lambda>x. c_id x \<notin> touched d) (b_clips b) = filter (\<lambda>x. c_id x \<notin> touched d) (b_clips d)"
    by (rule filter_frame_trans [of "\<lambda>x. c_id x \<notin> touched c" _ "b_clips c"])
      (use assms sub in \<open>auto simp: batch_frame_def\<close>)
  moreover have "filter (\<lambda>x. g_id x \<notin> touched d) (b_bgm b) = filter (\<lambda>x. g_id x \<notin> touched d) (b_bgm d)"
    by (rule filter_frame_trans [of "\<lambda>x. g_id x \<notin> touched c" _ "b_bgm c"])
      (use assms sub in \<open>auto simp: batch_frame_def\<close>)
  ultimately show ?thesis using assms by (auto simp: batch_frame_def)
qed

lemma filter_mem_iff: "filter P xs = filter P ys \<Longrightarrow> P x \<Longrightarrow> x \<in> set xs \<longleftrightarrow> x \<in> set ys"
proof -
  assume eq: "filter P xs = filter P ys" and "P x"
  have "x \<in> set (filter P xs) \<longleftrightarrow> x \<in> set (filter P ys)" by (simp only: eq)
  then show ?thesis using \<open>P x\<close> by simp
qed

lemma batch_frame_mem: "batch_frame b b' \<Longrightarrow> c_id c \<notin> touched b' \<Longrightarrow> c \<in> set (b_clips b) \<longleftrightarrow> c \<in> set (b_clips b')"
  unfolding batch_frame_def using filter_mem_iff [of "\<lambda>c. c_id c \<notin> touched b'"] by metis

lemma cuts_kept_refl: "cuts_kept b b"
  by (simp add: cuts_kept_def)

lemma cuts_kept_trans:
  assumes "cuts_kept b c" and "cuts_kept c d" and "batch_frame c d"
  shows "cuts_kept b d"
  unfolding cuts_kept_def
proof (intro ballI impI)
  fix x
  assume x: "x \<in> set (b_clips d)" "c_transition x \<noteq> None" "c_id x \<notin> touched d"
  have "x \<in> set (b_clips c)" using x batch_frame_mem [OF assms(3)] by blast
  moreover have "c_id x \<notin> touched c" using x(3) assms(3) by (auto simp: batch_frame_def)
  ultimately show "next_ids (b_clips b) (c_id x) = next_ids (b_clips d) (c_id x)"
    using x assms(1,2) by (auto simp: cuts_kept_def)
qed

subsection \<open>Rewriting the clips in place\<close>

lemma base_good_last:
  assumes "base_good n b" "i < n"
    and "\<forall>x. map_of L x = map_of (b_last b) x \<or> map_of L x = Some i \<and> x \<in> c_id ` set (b_clips b)"
    and "map_of L x = Some j"
  shows "j < n \<and> valid_any_id x"
proof (cases "map_of L x = map_of (b_last b) x")
  case True
  then have "map_of (b_last b) x = Some j" using assms(4) by simp
  then show ?thesis using assms(1) by (auto simp: base_good_def)
next
  case False
  then have "map_of L x = Some i" "x \<in> c_id ` set (b_clips b)" using assms(3) by blast+
  moreover have "list_all valid_clip (b_clips b)" using assms(1) by (simp add: base_good_def)
  ultimately show ?thesis using assms(2,4) valid_clip_any_id by auto
qed

lemma rewrite_good:
  assumes "base_good n b" and "map c_id cs = map c_id (b_clips b)" and "list_all valid_clip cs"
    and "\<And>x j. map_of L x = Some j \<Longrightarrow> j < n \<and> valid_any_id x"
  shows "base_good n (b\<lparr>b_clips := cs, b_last := L\<rparr>)"
  using assms by (simp add: base_good_def)

lemma rewrite_frame:
  assumes "map c_id cs = map c_id (b_clips b)" and "keys (b_last b) \<subseteq> keys L"
    and "\<And>p. p < length cs \<Longrightarrow> cs ! p \<noteq> b_clips b ! p \<Longrightarrow> c_id (cs ! p) \<in> keys L"
  shows "batch_frame b (b\<lparr>b_clips := cs, b_last := L\<rparr>)"
proof -
  have len: "length cs = length (b_clips b)" using assms(1) by (metis length_map)
  have "length cs = length ds \<Longrightarrow> map c_id cs = map c_id ds \<Longrightarrow>
      (\<And>p. p < length cs \<Longrightarrow> cs ! p \<noteq> ds ! p \<Longrightarrow> c_id (cs ! p) \<in> keys L) \<Longrightarrow>
      filter (\<lambda>c. c_id c \<notin> keys L) ds = filter (\<lambda>c. c_id c \<notin> keys L) cs" for ds
  proof (induction cs ds rule: list_induct2)
    case Nil
    show ?case by simp
  next
    case (Cons c cs d ds)
    have "filter (\<lambda>c. c_id c \<notin> keys L) ds = filter (\<lambda>c. c_id c \<notin> keys L) cs"
      by (rule Cons.IH) (use Cons.prems(1) Cons.prems(2) [of "Suc _"] in auto)
    then show ?case using Cons.prems(1) Cons.prems(2) [of 0] by auto
  qed
  then show ?thesis using assms len by (auto simp: batch_frame_def touched_def)
qed

lemma replace_clip_eq:
  assumes "p < length (b_clips b)" and "\<And>c. c_id (f c) = c_id c"
  obtains L where "replace_clip i p f b = b\<lparr>b_clips := (b_clips b)[p := f (b_clips b ! p)], b_last := L\<rparr>"
    "keys (b_last b) \<subseteq> keys L" "f (b_clips b ! p) \<noteq> b_clips b ! p \<Longrightarrow> c_id (b_clips b ! p) \<in> keys L"
    "\<forall>x. map_of L x = map_of (b_last b) x \<or> map_of L x = Some i \<and> x \<in> c_id ` set (b_clips b)"
proof (cases "f (b_clips b ! p) = b_clips b ! p")
  case True
  then have "(b_clips b)[p := f (b_clips b ! p)] = b_clips b" by simp
  then show ?thesis using True by (intro that [of "b_last b"]) (simp_all add: replace_clip_def)
next
  case False
  then show ?thesis
    by (intro that [of "AList.update (c_id (b_clips b ! p)) i (b_last b)"])
      (use imageI [OF nth_mem [OF assms(1)], of c_id] in
        \<open>auto simp: replace_clip_def touch_def Let_def assms(2)\<close>)
qed

lemma list_all_update: "list_all P xs \<Longrightarrow> P y \<Longrightarrow> list_all P (xs[p := y])"
  by (auto simp: list_all_iff dest!: set_update_subset_insert [THEN subsetD])

lemma replace_clip_good:
  assumes "base_good n b" "i < n" "p < length (b_clips b)" "\<And>c. c_id (f c) = c_id c"
    "valid_clip (f (b_clips b ! p))"
  shows "base_good n (replace_clip i p f b)" and "batch_frame b (replace_clip i p f b)"
    and "b_clips (replace_clip i p f b) = (b_clips b)[p := f (b_clips b ! p)]"
    and "b_bgm (replace_clip i p f b) = b_bgm b"
proof -
  obtain L where L: "replace_clip i p f b = b\<lparr>b_clips := (b_clips b)[p := f (b_clips b ! p)], b_last := L\<rparr>"
    "keys (b_last b) \<subseteq> keys L" "f (b_clips b ! p) \<noteq> b_clips b ! p \<Longrightarrow> c_id (b_clips b ! p) \<in> keys L"
    "\<forall>x. map_of L x = map_of (b_last b) x \<or> map_of L x = Some i \<and> x \<in> c_id ` set (b_clips b)"
    by (rule replace_clip_eq [where i = i and f = f, OF assms(3,4)]) blast+
  have ids: "map c_id ((b_clips b)[p := f (b_clips b ! p)]) = map c_id (b_clips b)"
    using assms(3,4) by (simp add: map_update list_update_same_conv)
  have v: "list_all valid_clip ((b_clips b)[p := f (b_clips b ! p)])"
    using assms by (intro list_all_update) (simp_all add: base_good_def)
  have "j < n \<and> valid_any_id x" if "map_of L x = Some j" for x j
    by (rule base_good_last [OF assms(1,2) L(4) that])
  then show "base_good n (replace_clip i p f b)"
    unfolding L(1) using assms(1) ids v by (intro rewrite_good)
  have "c_id ((b_clips b)[p := f (b_clips b ! p)] ! q) \<in> keys L"
    if "(b_clips b)[p := f (b_clips b ! p)] ! q \<noteq> b_clips b ! q" for q
    using that L(3) assms(3,4) by (cases "q = p") auto
  then show "batch_frame b (replace_clip i p f b)"
    unfolding L(1) using L(2) ids by (intro rewrite_frame) auto
  show "b_clips (replace_clip i p f b) = (b_clips b)[p := f (b_clips b ! p)]"
    "b_bgm (replace_clip i p f b) = b_bgm b" by (simp_all add: L(1))
qed

text \<open>The loop that resets the broken cuts of an operation begun in state \<open>b\<close>.\<close>

lemma reset_broken_cuts_good:
  assumes "base_good n b2" "i < n"
  shows "base_good n (reset_broken_cuts i before b2)" and "batch_frame b2 (reset_broken_cuts i before b2)"
    and "b_clips (reset_broken_cuts i before b2) = map (mend_cut before (next_ids (b_clips b2))) (b_clips b2)"
    and "b_bgm (reset_broken_cuts i before b2) = b_bgm b2"
proof -
  let ?cs = "map (mend_cut before (next_ids (b_clips b2))) (b_clips b2)"
  obtain L where L: "reset_broken_cuts i before b2 = b2\<lparr>b_clips := ?cs, b_last := L\<rparr>"
    "keys L = keys (b_last b2) \<union> c_id ` {c \<in> set (b_clips b2). cut_broken before (next_ids (b_clips b2)) c}"
    "\<forall>x. map_of L x = map_of (b_last b2) x \<or> map_of L x = Some i \<and> x \<in> c_id ` set (b_clips b2)"
    by (rule reset_broken_cuts_eq)
  have ids: "map c_id ?cs = map c_id (b_clips b2)" by simp
  have v: "list_all valid_clip ?cs" using assms(1) by (auto simp: base_good_def list_all_iff)
  have "j < n \<and> valid_any_id x" if "map_of L x = Some j" for x j
    by (rule base_good_last [OF assms(1,2) L(3) that])
  then show "base_good n (reset_broken_cuts i before b2)"
    unfolding L(1) using assms(1) ids v by (intro rewrite_good)
  have "c_id (?cs ! p) \<in> keys L" if "p < length ?cs" "?cs ! p \<noteq> b_clips b2 ! p" for p
    using that by (auto simp: L(2) mend_cut_neq)
  then show "batch_frame b2 (reset_broken_cuts i before b2)"
    unfolding L(1) using ids L(2) by (intro rewrite_frame) auto
  show "b_clips (reset_broken_cuts i before b2) = ?cs" "b_bgm (reset_broken_cuts i before b2) = b_bgm b2"
    by (simp_all add: L(1))
qed

lemma reset_cuts_kept:
  assumes "base_good n b2" "i < n" "batch_frame b b2"
  defines "b' \<equiv> reset_broken_cuts i (next_ids (b_clips b)) b2"
  shows "cuts_kept b b'"
  unfolding cuts_kept_def
proof (intro ballI impI)
  fix c
  assume c: "c \<in> set (b_clips b')" "c_transition c \<noteq> None" "c_id c \<notin> touched b'"
  note r = reset_broken_cuts_good [OF assms(1,2), of "next_ids (b_clips b)", folded b'_def]
  have "batch_frame b b'" using assms(3) r(2) by (rule batch_frame_trans)
  then have "c \<in> set (b_clips b)" using c batch_frame_mem by blast
  then have before: "next_ids (b_clips b) (c_id c) \<noteq> None" by (simp add: next_ids_None_iff)
  from c(1) obtain d where d: "c = mend_cut (next_ids (b_clips b)) (next_ids (b_clips b2)) d"
    by (auto simp: r(3))
  then have "\<not> cut_broken (next_ids (b_clips b)) (next_ids (b_clips b2)) d" "c_id d = c_id c" "c_transition d \<noteq> None"
    using c(2) by (auto simp: mend_cut_transition split: if_splits)
  then have "next_ids (b_clips b) (c_id c) = next_ids (b_clips b2) (c_id c)"
    using before by (auto simp: cut_broken_def split: option.splits)
  also have "next_ids (b_clips b2) = next_ids (b_clips b')"
    by (rule next_ids_cong) (simp add: r(3))
  finally show "next_ids (b_clips b) (c_id c) = next_ids (b_clips b') (c_id c)" .
qed

lemma last_unique:
  assumes "distinct (map c_id cs)" and "c \<in> set cs" and "next_ids cs (c_id c) = Some None"
  shows "c = last cs"
proof -
  obtain p where p: "p < length cs" "cs ! p = c" using assms(2) by (auto simp: in_set_conv_nth)
  then have "\<not> Suc p < length cs" using next_ids_nth [OF assms(1) p(1)] assms(3) by (auto split: if_splits)
  then have "p = length cs - 1" using p by simp
  moreover have "cs \<noteq> []" using p(1) by auto
  ultimately show ?thesis using p(2) by (simp add: last_conv_nth)
qed

lemma next_ids_last:
  assumes "distinct (map c_id cs)" and "cs \<noteq> []"
  shows "next_ids cs (c_id (last cs)) = Some None"
  using next_ids_nth [OF assms(1), of "length cs - 1"] assms(2) by (simp add: last_conv_nth)

lemma reset_no_dangling:
  assumes "base_good n b2" "i < n" "distinct (map c_id (b_clips b))" "no_dangling (b_clips b)"
    and "b_clips b2 \<noteq> [] \<Longrightarrow> c_transition (last (b_clips b2)) \<noteq> None \<Longrightarrow>
       \<exists>c\<in>set (b_clips b). c_id c = c_id (last (b_clips b2)) \<and> c_transition c = c_transition (last (b_clips b2))"
  shows "no_dangling (b_clips (reset_broken_cuts i (next_ids (b_clips b)) b2))"
  unfolding no_dangling_def reset_broken_cuts_good(3) [OF assms(1,2)]
proof (rule impI, rule ccontr)
  let ?l = "last (b_clips b2)"
  let ?m = "mend_cut (next_ids (b_clips b)) (next_ids (b_clips b2))"
  assume "map ?m (b_clips b2) \<noteq> []"
  then have ne: "b_clips b2 \<noteq> []" by simp
  assume "c_transition (last (map ?m (b_clips b2))) \<noteq> None"
  then have t: "c_transition ?l \<noteq> None" "\<not> cut_broken (next_ids (b_clips b)) (next_ids (b_clips b2)) ?l"
    using ne by (auto simp: last_map mend_cut_transition split: if_splits)
  obtain c where c: "c \<in> set (b_clips b)" "c_id c = c_id ?l" "c_transition c = c_transition ?l"
    using assms(5) [OF ne t(1)] by blast
  have "next_ids (b_clips b2) (c_id ?l) = Some None"
    using assms(1) ne by (intro next_ids_last) (simp_all add: base_good_def)
  moreover have "next_ids (b_clips b) (c_id c) \<noteq> None" using c(1) by (simp add: next_ids_None_iff)
  ultimately have "next_ids (b_clips b) (c_id c) = Some None"
    using t c(2) by (auto simp: cut_broken_def split: option.splits)
  then have "c = last (b_clips b)" using assms(3) c(1) by (intro last_unique)
  then show False using assms(4) c(1,3) t(1) by (auto simp: no_dangling_def)
qed


section \<open>Carriers\<close>

lemma carrier_count_Nil [simp]: "carrier_count [] uid = 0"
  by (simp add: carrier_count_def)

lemma carrier_count_update:
  "p < length cs \<Longrightarrow>
   carrier_count (cs[p := y]) uid + of_bool (carries uid (cs ! p)) = carrier_count cs uid + of_bool (carries uid y)"
proof -
  assume p: "p < length cs"
  have "carrier_count cs uid = carrier_count (take p cs @ cs ! p # drop (Suc p) cs) uid"
    using p by (simp add: split_at_nth [symmetric])
  then show ?thesis using p by (simp add: carrier_count_def upd_conv_take_nth_drop)
qed

lemma carrier_count_insert_at:
  "carrier_count (insert_at p y cs) uid = carrier_count cs uid + of_bool (carries uid y)"
proof -
  have "filter (carries uid) cs = filter (carries uid) (take p cs) @ filter (carries uid) (drop p cs)"
    by (metis append_take_drop_id filter_append)
  then show ?thesis by (simp add: carrier_count_def insert_at_def)
qed

lemma carrier_count_remove_at:
  "p < length cs \<Longrightarrow> carrier_count (remove_at p cs) uid + of_bool (carries uid (cs ! p)) = carrier_count cs uid"
  using carrier_count_insert_at [of p "cs ! p" "remove_at p cs" uid] by (simp add: insert_remove_at)

lemma carrier_count_map:
  "(\<And>c. c \<in> set cs \<Longrightarrow> carries uid (f c) = carries uid c) \<Longrightarrow>
   carrier_count (map f cs) uid = carrier_count cs uid"
  by (induction cs) (simp_all add: carrier_count_def)

lemma carrier_count_pos: "1 \<le> carrier_count cs uid \<longleftrightarrow> (\<exists>c\<in>set cs. carries uid c)"
  by (induction cs) (auto simp: carrier_count_def)

lemma narration_covered_iff:
  "narration_covered cs \<longleftrightarrow> (\<forall>uid. uid \<in> c_unit_id ` set cs \<longrightarrow> 1 \<le> carrier_count cs uid)"
  by (auto simp: narration_covered_def list_all_iff)

text \<open>Clips that agree on identity, unit and carriage.\<close>

lemma same_carriage:
  assumes "map (\<lambda>c. (c_unit_id c, c_carries_narration c)) cs = map (\<lambda>c. (c_unit_id c, c_carries_narration c)) ds"
  shows "carrier_count cs uid = carrier_count ds uid" and "c_unit_id ` set cs = c_unit_id ` set ds"
proof -
  let ?g = "\<lambda>c. (c_unit_id c, c_carries_narration c)"
  have "carrier_count cs uid = length (filter (\<lambda>x. x = (uid, True)) (map ?g cs))" for cs
    by (induction cs) (auto simp: carrier_count_def carries_def)
  then show "carrier_count cs uid = carrier_count ds uid" using assms by (simp only:)
  have "c_unit_id ` set cs = fst ` set (map ?g cs)" for cs by (auto simp: image_iff)
  then show "c_unit_id ` set cs = c_unit_id ` set ds" using assms by metis
qed

lemma distinct_carriers_iff: "distinct (carriers cs) \<longleftrightarrow> one_carrier cs"
proof -
  have "count_list (carriers cs) uid = carrier_count cs uid" for uid
    by (induction cs) (auto simp: carriers_def carrier_count_def carries_def)
  moreover have "distinct xs \<longleftrightarrow> (\<forall>u. count_list xs u \<le> 1)" for xs :: "string list"
  proof (induction xs)
    case Nil
    show ?case by simp
  next
    case (Cons x xs)
    have "x \<notin> set xs \<longleftrightarrow> count_list xs x = 0" by (simp add: count_list_0_iff)
    then show ?case using Cons by (auto simp: le_Suc_eq)
  qed
  ultimately show ?thesis by (simp add: one_carrier_def)
qed

section \<open>Every operation\<close>

definition good_step :: "nat \<Rightarrow> batch \<Rightarrow> batch \<Rightarrow> bool" where
  "good_step n b b' =
     (base_good n b' \<and> batch_frame b b' \<and> cuts_kept b b' \<and>
      (one_carrier (b_clips b) \<longrightarrow> one_carrier (b_clips b')) \<and>
      (narration_covered (b_clips b) \<longrightarrow> narration_covered (b_clips b')) \<and>
      (no_dangling (b_clips b) \<longrightarrow> no_dangling (b_clips b')))"

lemma frame_locating_simps [simp]:
  "batch_frame (b\<lparr>b_targets := T\<rparr>) c = batch_frame b c" "batch_frame (b\<lparr>b_referenced := T\<rparr>) c = batch_frame b c"
  "batch_frame b (c\<lparr>b_targets := T\<rparr>) = batch_frame b c" "batch_frame b (c\<lparr>b_referenced := T\<rparr>) = batch_frame b c"
  "cuts_kept (b\<lparr>b_targets := T\<rparr>) c = cuts_kept b c" "cuts_kept (b\<lparr>b_referenced := T\<rparr>) c = cuts_kept b c"
  "cuts_kept b (c\<lparr>b_targets := T\<rparr>) = cuts_kept b c" "cuts_kept b (c\<lparr>b_referenced := T\<rparr>) = cuts_kept b c"
  by (simp_all add: batch_frame_def cuts_kept_def)

lemma good_step_locating [simp]:
  "good_step n (b\<lparr>b_targets := T\<rparr>) c = good_step n b c" "good_step n (b\<lparr>b_referenced := T\<rparr>) c = good_step n b c"
  by (simp_all add: good_step_def)

lemma batch_positionE:
  assumes "batch_position i cid fld b = Inr (p, b1)"
  obtains T R where "b1 = b\<lparr>b_referenced := R, b_targets := T\<rparr>" "p < length (b_clips b)"
    "c_id (b_clips b ! p) = cid"
  using assms find_pos_SomeD [of "\<lambda>c. c_id c = cid" "b_clips b"]
  by (fastforce simp: batch_position_def Let_def split: option.splits)

lemma insertion_pointE:
  assumes "insertion_point i after b = Inr (p, b1)"
  obtains T R where "b1 = b\<lparr>b_referenced := R, b_targets := T\<rparr>" "p \<le> length (b_clips b)"
proof (cases after)
  case None
  then show ?thesis using assms
    by (intro that [of "b_targets b" "b_referenced b"]) (simp_all add: insertion_point_def)
next
  case (Some a)
  then obtain q where q: "batch_position i a ''after'' b = Inr (q, b1)" "p = q + 1"
    using assms by (auto simp: insertion_point_def bindE_Inr_iff)
  show ?thesis by (rule batch_positionE [OF q(1)]) (use q(2) in \<open>auto intro: that\<close>)
qed

lemma bgm_positionE:
  assumes "bgm_position i cid b = Inr (p, b1)"
  obtains T R where "b1 = b\<lparr>b_referenced := R, b_targets := T\<rparr>" "p < length (b_bgm b)"
    "g_id (b_bgm b ! p) = cid"
  using assms find_pos_SomeD [of "\<lambda>c. g_id c = cid" "b_bgm b"]
  by (fastforce simp: bgm_position_def Let_def split: option.splits)

text \<open>Replacing one field that is neither identity nor unit nor carriage nor transition.\<close>

lemma good_step_replace:
  assumes "base_good n b" "i < n" "p < length (b_clips b)"
    and keep: "\<And>c. c_id (f c) = c_id c" "\<And>c. c_unit_id (f c) = c_unit_id c"
      "\<And>c. c_carries_narration (f c) = c_carries_narration c"
    and v: "valid_clip (f (b_clips b ! p))"
    and d: "no_dangling (b_clips b) \<Longrightarrow> no_dangling ((b_clips b)[p := f (b_clips b ! p)])"
  shows "good_step n b (replace_clip i p f b)"
proof -
  note r = replace_clip_good [OF assms(1-3) keep(1) v]
  let ?cs = "(b_clips b)[p := f (b_clips b ! p)]"
  have g: "map (\<lambda>c. (c_unit_id c, c_carries_narration c)) ?cs =
      map (\<lambda>c. (c_unit_id c, c_carries_narration c)) (b_clips b)"
    using assms(3) keep by (simp add: map_update list_update_same_conv)
  have ids: "map c_id ?cs = map c_id (b_clips b)"
    using assms(3) keep by (simp add: map_update list_update_same_conv)
  have "cuts_kept b (replace_clip i p f b)"
    unfolding cuts_kept_def r(3) using next_ids_cong [OF ids] by simp
  then show ?thesis
    using r(1,2) d same_carriage [OF g]
    by (simp add: good_step_def r(3) one_carrier_def narration_covered_iff)
qed

lemma no_dangling_update:
  assumes "p < length cs" "c_transition y = c_transition (cs ! p)" "no_dangling cs"
  shows "no_dangling (cs[p := y])"
proof -
  have "cs \<noteq> []" using assms(1) by auto
  then show ?thesis using assms by (auto simp: no_dangling_def last_conv_nth nth_list_update)
qed

lemma set_field_good:
  assumes "set_field i cid check change b = Inr b'" "base_good n b" "i < n"
    and keep: "\<And>v c. c_id (change v c) = c_id c" "\<And>v c. c_unit_id (change v c) = c_unit_id c"
      "\<And>v c. c_carries_narration (change v c) = c_carries_narration c"
      "\<And>v c. c_transition (change v c) = c_transition c"
    and v: "\<And>c x. check c = Inr x \<Longrightarrow> valid_clip c \<Longrightarrow> valid_clip (change x c)"
  shows "good_step n b b'"
proof -
  from assms(1) obtain p b1 x where b1: "batch_position i cid ''clip'' b = Inr (p, b1)"
    and x: "check (b_clips b1 ! p) = Inr x" "b' = replace_clip i p (change x) b1"
    by (auto simp: set_field_def bindE_Inr_iff)
  from b1 obtain T R where e: "b1 = b\<lparr>b_referenced := R, b_targets := T\<rparr>" and p: "p < length (b_clips b)"
    by (rule batch_positionE)
  have "valid_clip (b_clips b1 ! p)" using assms(2) p e by (auto simp: base_good_def list_all_iff)
  then have "good_step n b1 (replace_clip i p (change x) b1)"
    using e p assms(2,3) x(1) keep v by (intro good_step_replace no_dangling_update) simp_all
  then show ?thesis using e x(2) by simp
qed

subsection \<open>The checked values are valid\<close>

lemma check_trim_valid: "check_trim so i cid uid spec = Inr (Some t) \<Longrightarrow> valid_trim t"
  by (auto simp: check_trim_def make_trim_def bindE_Inr_iff Let_def split: option.splits if_splits)

lemma check_volume_valid: "check_volume i cid v = Inr x \<Longrightarrow> 0 \<le> x \<and> x \<le> 1"
  by (auto simp: check_volume_def split: if_splits)

lemma check_hold_valid: "check_hold i cid v = Inr x \<Longrightarrow> 0 \<le> x"
  by (auto simp: check_hold_def split: if_splits intro: seconds_to_microseconds_nonneg)

lemma check_transition_valid: "check_transition i cid spec = Inr (Some t) \<Longrightarrow> valid_transition t"
  by (auto simp: check_transition_def make_transition_def bindE_Inr_iff Let_def split: option.splits if_splits)

lemma voiceover_source_volume_unit: "0 \<le> voiceover_source_volume" "voiceover_source_volume \<le> 1"
  by code_simp+

lemma default_source_volume_unit [simp]: "0 \<le> default_source_volume m" "default_source_volume m \<le> 1"
  using voiceover_source_volume_unit
  by (simp_all add: default_source_volume_def default_source_volume_const_def)

lemma set_transition_good:
  assumes "apply_set_transition i cid spec b = Inr b'" "base_good n b" "i < n"
  shows "good_step n b b'"
proof -
  from assms(1) obtain p b1 t where b1: "batch_position i cid ''clip'' b = Inr (p, b1)"
    and t: "check_transition i (Some cid) spec = Inr t" "require_next i p t b1 = Inr ()"
      "b' = replace_clip i p (\<lambda>c. c\<lparr>c_transition := t\<rparr>) b1"
    by (auto simp: apply_set_transition_def bindE_Inr_iff)
  from b1 obtain T R where e: "b1 = b\<lparr>b_referenced := R, b_targets := T\<rparr>" and p: "p < length (b_clips b)"
    by (rule batch_positionE)
  have v: "valid_clip (b_clips b1 ! p)" using assms(2) p e by (auto simp: base_good_def list_all_iff)
  have "no_dangling ((b_clips b)[p := (b_clips b ! p)\<lparr>c_transition := t\<rparr>])" if "no_dangling (b_clips b)"
  proof -
    have "b_clips b \<noteq> []" using p by auto
    then show ?thesis using that t(2) p e
      by (auto simp: no_dangling_def require_next_def last_conv_nth nth_list_update split: if_splits)
  qed
  then have "good_step n b1 (replace_clip i p (\<lambda>c. c\<lparr>c_transition := t\<rparr>) b1)"
    using e p assms(2,3) v check_transition_valid [of i "Some cid" spec] t(1)
    by (intro good_step_replace) (auto simp: valid_clip_def split: option.splits)
  then show ?thesis using e t(3) by simp
qed

subsection \<open>Inserting, deleting and moving\<close>

text \<open>An operation that ends by resetting the cuts broken since its start.\<close>

lemma good_step_reset:
  assumes b2: "base_good n b2" "batch_frame b b2" and "i < n" and b: "base_good n b"
    and c1: "one_carrier (b_clips b) \<Longrightarrow> one_carrier (b_clips b2)"
    and c2: "narration_covered (b_clips b) \<Longrightarrow> narration_covered (b_clips b2)"
    and nd: "b_clips b2 \<noteq> [] \<Longrightarrow> c_transition (last (b_clips b2)) \<noteq> None \<Longrightarrow>
       \<exists>c\<in>set (b_clips b). c_id c = c_id (last (b_clips b2)) \<and> c_transition c = c_transition (last (b_clips b2))"
  shows "good_step n b (reset_broken_cuts i (next_ids (b_clips b)) b2)"
proof -
  note r = reset_broken_cuts_good [OF b2(1) \<open>i < n\<close>, of "next_ids (b_clips b)"]
  have d: "distinct (map c_id (b_clips b))" using b by (simp add: base_good_def)
  have g: "map (\<lambda>c. (c_unit_id c, c_carries_narration c)) (b_clips (reset_broken_cuts i (next_ids (b_clips b)) b2)) =
      map (\<lambda>c. (c_unit_id c, c_carries_narration c)) (b_clips b2)"
    by (simp add: r(3))
  show ?thesis
    unfolding good_step_def
    using r(1) batch_frame_trans [OF b2(2) r(2)] reset_cuts_kept [OF b2(1) \<open>i < n\<close> b2(2)]
      reset_no_dangling [OF b2(1) \<open>i < n\<close> d _ nd] c1 c2 same_carriage [OF g]
    by (simp add: one_carrier_def narration_covered_iff)
qed

lemma list_all_insert_at: "list_all P (insert_at p x xs) \<longleftrightarrow> P x \<and> list_all P xs"
  by (simp add: list_all_iff)

lemma insert_good:
  assumes "apply_insert so i op b = Inr b'" "base_good n b" "i < n"
  shows "good_step n b b'"
proof -
  from assms(1) obtain u trim volume hold reason tr clip p b1 where u: "unit_of so (ic_unit_id op) = Some u"
    and mk: "make_clip \<lparr>c_id = clip_id_of (b_next_clip b), c_unit_id = u_id u, c_trim = trim,
       c_source_volume = volume, c_hold_us = hold,
       c_carries_narration = (\<not> list_ex c_carries_narration (filter (\<lambda>c. c_unit_id c = u_id u) (b_clips b))),
       c_reason = reason, c_transition = tr\<rparr> = Inr clip"
    and ip: "insertion_point i (ic_after op) b = Inr (p, b1)"
    and rn: "require_next i p (c_transition clip)
       ((touch i (c_id clip) b1)\<lparr>b_clips := insert_at p clip (b_clips b1), b_next_clip := b_next_clip b1 + 1\<rparr>) = Inr ()"
    and b': "b' = reset_broken_cuts i (next_ids (b_clips b))
       ((touch i (c_id clip) b1)\<lparr>b_clips := insert_at p clip (b_clips b1), b_next_clip := b_next_clip b1 + 1\<rparr>)"
    by (auto simp: apply_insert_def bindE_Inr_iff Let_def split: option.splits)
  from ip obtain T R where e: "b1 = b\<lparr>b_referenced := R, b_targets := T\<rparr>" and p: "p \<le> length (b_clips b)"
    by (rule insertion_pointE)
  have clip: "valid_clip clip" "c_id clip = clip_id_of (b_next_clip b)"
    "c_carries_narration clip \<longleftrightarrow> carrier_count (b_clips b) (c_unit_id clip) = 0"
    using mk by (auto simp: make_clip_def list_ex_iff carrier_count_def carries_def filter_empty_conv
        split: if_splits)
  have n1: "1 \<le> b_next_clip b" using assms(2) by (simp add: base_good_def)
  have fresh: "c_id clip \<notin> c_id ` set (b_clips b)"
    using assms(2) fresh_id_not_below [of "b_next_clip b"] n1 clip(2)
    by (auto simp: base_good_def list_all_iff)
  define b2 where "b2 = (touch i (c_id clip) b1)
     \<lparr>b_clips := insert_at p clip (b_clips b1), b_next_clip := b_next_clip b1 + 1\<rparr>"
  have cs: "b_clips b2 = insert_at p clip (b_clips b)" by (simp add: b2_def e)
  have g2: "base_good n b2"
    using assms(2,3) clip fresh n1 valid_id_any(1) [OF clip(1)]
    by (auto simp: b2_def e base_good_def list_all_insert_at map_insert_at distinct_insert_at
        list_all_iff intro: id_below_mono)
      (auto simp: id_below_def)
  have f2: "batch_frame b b2"
    using fresh by (auto simp: batch_frame_def b2_def e filter_insert_at touched_def)
  have cnt: "carrier_count (b_clips b2) uid =
      carrier_count (b_clips b) uid + of_bool (uid = c_unit_id clip \<and> carrier_count (b_clips b) uid = 0)" for uid
    unfolding cs carrier_count_insert_at using clip(3) by (auto simp: carries_def)
  have "good_step n b (reset_broken_cuts i (next_ids (b_clips b)) b2)"
  proof (rule good_step_reset [OF g2 f2 assms(3,2)])
    show "one_carrier (b_clips b2)" if "one_carrier (b_clips b)"
      using that unfolding one_carrier_def cnt by (auto simp: le_Suc_eq)
    show "narration_covered (b_clips b2)" if "narration_covered (b_clips b)"
      using that unfolding narration_covered_iff cnt by (auto simp: cs)
    show "\<exists>c\<in>set (b_clips b). c_id c = c_id (last (b_clips b2)) \<and> c_transition c = c_transition (last (b_clips b2))"
      if t: "c_transition (last (b_clips b2)) \<noteq> None"
    proof (cases "p = length (b_clips b)")
      case True
      then have "last (b_clips b2) = clip" by (simp add: cs insert_at_def)
      then show ?thesis using rn True t by (auto simp: require_next_def e split: if_splits)
    next
      case False
      then have "last (b_clips b2) = last (b_clips b)" "b_clips b \<noteq> []"
        using p by (auto simp: cs insert_at_def)
      then show ?thesis using last_in_set by auto
    qed
  qed
  then show ?thesis using b' by (simp add: b2_def)
qed

lemma remove_at_last: "p < length xs \<Longrightarrow> remove_at p xs \<noteq> [] \<Longrightarrow> last (remove_at p xs) \<in> set xs"
  using set_remove_at_subset last_in_set by fastforce

lemma base_good_remove:
  assumes "base_good n b" "i < n" "valid_any_id x"
  shows "base_good n (touch i x (b\<lparr>b_clips := remove_at p (b_clips b)\<rparr>))"
  using assms set_remove_at_subset [of p "b_clips b"]
  by (auto simp: base_good_def list_all_iff map_remove_at [symmetric] intro: distinct_remove_at)
    (auto simp: map_remove_at intro: distinct_remove_at)

text \<open>What holds of the clips left after a deletion, with the narration passed on or not.\<close>

definition descends :: "edit_clip list \<Rightarrow> edit_clip list \<Rightarrow> bool" where
  "descends ds cs =
     ((one_carrier ds \<longrightarrow> one_carrier cs) \<and> (narration_covered ds \<longrightarrow> narration_covered cs) \<and>
      (cs \<noteq> [] \<longrightarrow> (\<exists>c\<in>set ds. c_id c = c_id (last cs) \<and> c_transition c = c_transition (last cs))))"

lemma descends_heir:
  assumes p: "p < length ds" and q: "q < length (remove_at p ds)"
    and u: "c_unit_id (remove_at p ds ! q) = c_unit_id (ds ! p)" and r: "c_carries_narration (ds ! p)"
  defines "cs \<equiv> (remove_at p ds)[q := (remove_at p ds ! q)\<lparr>c_carries_narration := True\<rparr>]"
  shows "descends ds cs"
proof -
  let ?cs = "remove_at p ds" and ?h = "(remove_at p ds ! q)\<lparr>c_carries_narration := True\<rparr>"
  have cnt: "carrier_count ?cs uid + of_bool (uid = c_unit_id (ds ! p)) = carrier_count ds uid" for uid
    using carrier_count_remove_at [OF p, of uid] r by (simp add: carries_def eq_commute)
  have up: "carrier_count cs uid + of_bool (carries uid (?cs ! q)) =
      carrier_count ?cs uid + of_bool (uid = c_unit_id (ds ! p))" for uid
    unfolding cs_def using carrier_count_update [OF q, of ?h uid] u by (simp add: carries_def eq_commute)
  have le: "carrier_count cs uid \<le> carrier_count ds uid" for uid
    using up [of uid] cnt [of uid] by simp
  have ge: "1 \<le> carrier_count cs uid" if "narration_covered ds" "uid \<in> c_unit_id ` set ds" for uid
  proof (cases "uid = c_unit_id (ds ! p)")
    case True
    then show ?thesis using q u unfolding carrier_count_pos cs_def
      by (intro bexI [of _ ?h]) (auto simp: carries_def set_update_memI)
  next
    case False
    then have "carrier_count cs uid = carrier_count ds uid"
      using up [of uid] cnt [of uid] u by (simp add: carries_def)
    then show ?thesis using that by (simp add: narration_covered_iff)
  qed
  have "set cs \<subseteq> insert ?h (set ?cs)" unfolding cs_def by (rule set_update_subset_insert)
  moreover have "?cs ! q \<in> set ds" using q set_remove_at_subset [of p ds] by auto
  ultimately have units: "c_unit_id ` set cs \<subseteq> c_unit_id ` set ds"
    using set_remove_at_subset [of p ds] by fastforce
  have "\<exists>c\<in>set ds. c_id c = c_id (last cs) \<and> c_transition c = c_transition (last cs)" if "cs \<noteq> []"
  proof -
    have ne: "?cs \<noteq> []" using that by (auto simp: cs_def)
    have "c_id (last cs) = c_id (last ?cs) \<and> c_transition (last cs) = c_transition (last ?cs)"
      using ne q by (cases "q = length ?cs - 1") (simp_all add: cs_def last_conv_nth)
    then show ?thesis using remove_at_last [OF p ne] by metis
  qed
  moreover have "one_carrier cs" if "one_carrier ds"
    using that le unfolding one_carrier_def by (meson le_trans)
  ultimately show ?thesis using ge units
    by (auto simp: descends_def narration_covered_iff)
qed

lemma descends_remove:
  assumes p: "p < length ds"
    and h: "c_carries_narration (ds ! p) \<Longrightarrow> c_unit_id (ds ! p) \<notin> c_unit_id ` set (remove_at p ds)"
  shows "descends ds (remove_at p ds)"
proof -
  let ?cs = "remove_at p ds"
  have cnt: "carrier_count ?cs uid + of_bool (carries uid (ds ! p)) = carrier_count ds uid" for uid
    by (rule carrier_count_remove_at [OF p])
  have "narration_covered ?cs" if "narration_covered ds"
    unfolding narration_covered_iff
  proof (intro allI impI)
    fix uid
    assume u: "uid \<in> c_unit_id ` set ?cs"
    then have "\<not> carries uid (ds ! p)" using h by (auto simp: carries_def)
    moreover have "uid \<in> c_unit_id ` set ds" using u set_remove_at_subset [of p ds] by blast
    ultimately show "1 \<le> carrier_count ?cs uid" using that cnt [of uid] by (simp add: narration_covered_iff)
  qed
  moreover have "one_carrier ?cs" if "one_carrier ds"
    using that cnt unfolding one_carrier_def by (metis le_add1 le_trans)
  moreover have "\<exists>c\<in>set ds. c_id c = c_id (last ?cs) \<and> c_transition c = c_transition (last ?cs)" if "?cs \<noteq> []"
    using remove_at_last [OF p that] by blast
  ultimately show ?thesis by (simp add: descends_def)
qed

lemma delete_good:
  assumes "apply_delete i cid b = Inr b'" "base_good n b" "i < n"
  shows "good_step n b b'"
proof -
  from assms(1) obtain p b1 where b1: "batch_position i cid ''clip'' b = Inr (p, b1)"
    and b': "b' = (let removed = b_clips b1 ! p;
       b2 = touch i (c_id removed) (b1\<lparr>b_clips := remove_at p (b_clips b1)\<rparr>);
       b3 = (if c_carries_narration removed then
               (case find_pos (\<lambda>c. c_unit_id c = c_unit_id removed) (b_clips b2) of
                  Some heir \<Rightarrow> replace_clip i heir (\<lambda>c. c\<lparr>c_carries_narration := True\<rparr>) b2
                | None \<Rightarrow> b2) else b2)
       in reset_broken_cuts i (next_ids (b_clips b1)) b3)"
    by (auto simp: apply_delete_def bindE_Inr_iff Let_def)
  from b1 obtain T R where e: "b1 = b\<lparr>b_referenced := R, b_targets := T\<rparr>" and p: "p < length (b_clips b)"
    by (rule batch_positionE)
  let ?r = "b_clips b ! p" and ?cs = "remove_at p (b_clips b)"
  define b2 where "b2 = touch i (c_id ?r) (b1\<lparr>b_clips := remove_at p (b_clips b1)\<rparr>)"
  define b3 where "b3 = (if c_carries_narration ?r then
       (case find_pos (\<lambda>c. c_unit_id c = c_unit_id ?r) (b_clips b2) of
          Some heir \<Rightarrow> replace_clip i heir (\<lambda>c. c\<lparr>c_carries_narration := True\<rparr>) b2
        | None \<Rightarrow> b2) else b2)"
  have cs: "b_clips b2 = ?cs" by (simp add: b2_def e)
  have "valid_any_id (c_id ?r)" using assms(2) p by (auto simp: base_good_def intro: valid_clip_any_id)
  then have g2: "base_good n b2" unfolding b2_def using assms(2,3) e by (intro base_good_remove) simp_all
  have f2: "batch_frame b b2"
    using p by (auto simp: batch_frame_def b2_def e filter_remove_at)
  have b3: "base_good n b3 \<and> batch_frame b b3 \<and> descends (b_clips b) (b_clips b3)"
  proof (cases "c_carries_narration ?r \<and> find_pos (\<lambda>c. c_unit_id c = c_unit_id ?r) ?cs \<noteq> None")
    case True
    then obtain q where q: "find_pos (\<lambda>c. c_unit_id c = c_unit_id ?r) ?cs = Some q" by blast
    have q': "q < length ?cs" "c_unit_id (?cs ! q) = c_unit_id ?r" using find_pos_SomeD [OF q] by auto
    have b3': "b3 = replace_clip i q (\<lambda>c. c\<lparr>c_carries_narration := True\<rparr>) b2"
      using True q by (simp add: b3_def cs)
    have v: "valid_clip ((b_clips b2 ! q)\<lparr>c_carries_narration := True\<rparr>)"
      using g2 q' by (auto simp: cs base_good_def list_all_iff valid_clip_def)
    note r = replace_clip_good [OF g2 assms(3) q'(1) [folded cs], of "\<lambda>c. c\<lparr>c_carries_narration := True\<rparr>",
        OF _ v, folded b3']
    have "descends (b_clips b) (b_clips b3)"
      using descends_heir [OF p q'(1,2)] True r(3) by (simp add: cs)
    then show ?thesis using r(1) batch_frame_trans [OF f2 r(2)] by simp
  next
    case False
    then have "b3 = b2" by (auto simp: b3_def cs split: option.splits)
    moreover have "descends (b_clips b) ?cs"
      using False p by (intro descends_remove) (auto simp: find_pos_None_iff)
    ultimately show ?thesis using g2 f2 cs by simp
  qed
  have e': "b_clips b1 = b_clips b" by (simp add: e)
  have "b' = reset_broken_cuts i (next_ids (b_clips b)) b3"
    unfolding b' b3_def b2_def Let_def e' by (rule refl)
  then show ?thesis using b3 assms(2,3) by (auto simp: descends_def intro!: good_step_reset)
qed

lemma move_good:
  assumes "apply_move i cid after b = Inr b'" "base_good n b" "i < n"
  shows "good_step n b b'"
proof -
  from assms(1) obtain p b1 d b3 where b1: "batch_position i cid ''clip'' b = Inr (p, b1)"
    and ip: "insertion_point i after (b1\<lparr>b_clips := remove_at p (b_clips b1)\<rparr>) = Inr (d, b3)"
    and b': "b' = (let b4 = (if d \<noteq> p then touch i (c_id (b_clips b1 ! p)) b3 else b3)
       in reset_broken_cuts i (next_ids (b_clips b1))
            (b4\<lparr>b_clips := insert_at d (b_clips b1 ! p) (b_clips b4)\<rparr>))"
    by (auto simp: apply_move_def bindE_Inr_iff Let_def split: if_splits)
  from b1 obtain T R where e: "b1 = b\<lparr>b_referenced := R, b_targets := T\<rparr>" and p: "p < length (b_clips b)"
    by (rule batch_positionE)
  let ?x = "b_clips b ! p" and ?rest = "remove_at p (b_clips b)"
  from ip obtain T' R' where e3: "b3 = b1\<lparr>b_clips := ?rest, b_referenced := R', b_targets := T'\<rparr>"
    and d: "d \<le> length ?rest"
    by (rule insertion_pointE) (simp add: e)
  define b4 where "b4 = (if d \<noteq> p then touch i (c_id ?x) b3 else b3)"
  define b5 where "b5 = b4\<lparr>b_clips := insert_at d ?x ?rest\<rparr>"
  have cs: "b_clips b5 = insert_at d ?x ?rest" by (simp add: b5_def)
  have m: "mset (b_clips b5) = mset (b_clips b)" using mset_remove_at [OF p] by (simp add: cs)
  have set5: "set (b_clips b5) = set (b_clips b)" using m by (rule mset_eq_setD)
  have dist: "distinct (map c_id (b_clips b5)) = distinct (map c_id (b_clips b))"
    by (rule mset_eq_imp_distinct_iff) (simp add: m)
  have "valid_any_id (c_id ?x)" using assms(2) p by (auto simp: base_good_def intro: valid_clip_any_id)
  then have g5: "base_good n b5"
    using assms(2,3) dist set5
    by (auto simp: base_good_def list_all_iff b5_def b4_def e3 e split: if_splits)
  have f5: "batch_frame b b5"
  proof (cases "d = p")
    case True
    then have "insert_at d ?x ?rest = b_clips b" using insert_remove_at [OF p] by simp
    then show ?thesis using True by (simp add: batch_frame_def touched_def b5_def b4_def e3 e)
  next
    case False
    then show ?thesis using p
      by (auto simp: batch_frame_def touched_def b5_def b4_def e3 e filter_insert_at filter_remove_at)
  qed
  have cnt: "carrier_count (b_clips b5) uid = carrier_count (b_clips b) uid" for uid
    unfolding carrier_count_def using m by (metis mset_filter size_mset)
  have "good_step n b (reset_broken_cuts i (next_ids (b_clips b)) b5)"
  proof (rule good_step_reset [OF g5 f5 assms(3,2)])
    show "\<exists>c\<in>set (b_clips b). c_id c = c_id (last (b_clips b5)) \<and> c_transition c = c_transition (last (b_clips b5))"
      if "b_clips b5 \<noteq> []"
      using last_in_set [OF that] unfolding set5 by blast
  qed (simp_all add: one_carrier_def narration_covered_iff cnt set5)
  moreover have "b' = reset_broken_cuts i (next_ids (b_clips b)) b5"
    by (simp add: b' b5_def b4_def Let_def e e3)
  ultimately show ?thesis by simp
qed

text \<open>The loop that unloads the other clips of a unit.\<close>

lemma fold_replace_good:
  assumes "base_good n b" "i < n" and id: "\<And>p c. c_id (f p c) = c_id c"
    and v: "\<And>p c. valid_clip c \<Longrightarrow> valid_clip (f p c)"
  defines "b' \<equiv> fold (\<lambda>q. replace_clip i q (f q)) [0..<length (b_clips b)] b"
  shows "base_good n b'" "batch_frame b b'"
    "b_clips b' = map (\<lambda>q. f q (b_clips b ! q)) [0..<length (b_clips b)]"
proof -
  let ?cs = "map (\<lambda>q. f q (b_clips b ! q)) [0..<length (b_clips b)]"
  obtain L where L: "b' = b\<lparr>b_clips := ?cs, b_last := L\<rparr>"
    "keys L = keys (b_last b) \<union>
       {c_id (b_clips b ! q) | q. q < length (b_clips b) \<and> f q (b_clips b ! q) \<noteq> b_clips b ! q}"
    "\<forall>x. map_of L x = map_of (b_last b) x \<or> map_of L x = Some i \<and> x \<in> c_id ` set (b_clips b)"
    unfolding b'_def by (rule fold_replace [where f = f and b = b and i = i, OF id]) blast
  have ids: "map c_id ?cs = map c_id (b_clips b)" by (rule nth_equalityI) (simp_all add: id)
  have v2: "list_all valid_clip ?cs" using assms(1) v by (auto simp: base_good_def list_all_iff)
  have "j < n \<and> valid_any_id x" if "map_of L x = Some j" for x j
    by (rule base_good_last [OF assms(1,2) L(3) that])
  then show "base_good n b'" unfolding L(1) using assms(1) ids v2 by (intro rewrite_good)
  show "batch_frame b b'"
    unfolding L(1) using ids L(2) by (intro rewrite_frame) (auto simp: id)
  show "b_clips b' = ?cs" by (simp add: L(1))
qed

lemma sole_carrier_count:
  assumes len: "length cs' = length cs" and p: "p < length cs"
    and at: "\<And>q. q < length cs \<Longrightarrow> c_unit_id (cs' ! q) = c_unit_id (cs ! q) \<and>
      c_carries_narration (cs' ! q) =
        (if c_unit_id (cs ! q) = c_unit_id (cs ! p) then q = p else c_carries_narration (cs ! q))"
  shows "carrier_count cs' uid = (if uid = c_unit_id (cs ! p) then 1 else carrier_count cs uid)"
proof (cases "uid = c_unit_id (cs ! p)")
  case True
  then have "{q. q < length cs' \<and> carries uid (cs' ! q)} = {p}"
    using p at len by (auto simp: carries_def)
  then have "carrier_count cs' uid = card {p}"
    by (simp only: carrier_count_def length_filter_conv_card)
  then show ?thesis using True by simp
next
  case False
  then have "{q. q < length cs' \<and> carries uid (cs' ! q)} = {q. q < length cs \<and> carries uid (cs ! q)}"
    using at len by (auto simp: carries_def)
  then show ?thesis using False by (simp add: carrier_count_def length_filter_conv_card)
qed

lemma place_narration_good:
  assumes "apply_place_narration so i cid b = Inr b'" "base_good n b" "i < n"
  shows "good_step n b b'"
proof -
  from assms(1) obtain p b1 where b1: "batch_position i cid ''clip'' b = Inr (p, b1)"
    and b': "b' = replace_clip i p (\<lambda>c. c\<lparr>c_carries_narration := True\<rparr>)
       (fold (\<lambda>q b2. if c_unit_id (b_clips b2 ! q) = c_unit_id (b_clips b1 ! p) \<and> q \<noteq> p
           then replace_clip i q (\<lambda>c. c\<lparr>c_carries_narration := False\<rparr>) b2 else b2)
         [0..<length (b_clips b1)] b1)"
    by (auto simp: apply_place_narration_def bindE_Inr_iff Let_def split: if_splits option.splits)
  from b1 obtain T R where e: "b1 = b\<lparr>b_referenced := R, b_targets := T\<rparr>" and p: "p < length (b_clips b)"
    by (rule batch_positionE)
  let ?uid = "c_unit_id (b_clips b ! p)"
  define f where "f q c = (if c_unit_id c = ?uid \<and> q \<noteq> p then c\<lparr>c_carries_narration := False\<rparr> else c)"
    for q and c :: edit_clip
  have keep: "c_id (f q c) = c_id c" "valid_clip c \<Longrightarrow> valid_clip (f q c)" for q and c :: edit_clip
    by (auto simp: f_def valid_clip_def)
  define b2 where "b2 = fold (\<lambda>q. replace_clip i q (f q)) [0..<length (b_clips b1)] b1"
  have "(\<lambda>q b2. if c_unit_id (b_clips b2 ! q) = ?uid \<and> q \<noteq> p
      then replace_clip i q (\<lambda>c. c\<lparr>c_carries_narration := False\<rparr>) b2 else b2) = (\<lambda>q. replace_clip i q (f q))"
    by (auto simp: fun_eq_iff replace_clip_def f_def)
  then have b'': "b' = replace_clip i p (\<lambda>c. c\<lparr>c_carries_narration := True\<rparr>) b2"
    using b' e by (simp add: b2_def)
  have "base_good n b1" using assms(2) e by simp
  note f2 = fold_replace_good [where f = f, OF this assms(3) keep, folded b2_def]
  have p2: "p < length (b_clips b2)" "b_clips b2 ! p = b_clips b ! p" using p f2(3) by (simp_all add: f_def e)
  have "valid_clip (b_clips b ! p)" using assms(2) p by (auto simp: base_good_def list_all_iff)
  then have "valid_clip ((b_clips b2 ! p)\<lparr>c_carries_narration := True\<rparr>)"
    by (simp add: p2(2) valid_clip_def)
  note r = replace_clip_good [where f = "\<lambda>c. c\<lparr>c_carries_narration := True\<rparr>", OF f2(1) assms(3) p2(1) _ this, folded b'']
  have len': "length (b_clips b') = length (b_clips b)" using r(3) by (simp add: f2(3) e)
  have nth': "b_clips b' ! q = (if q = p then (b_clips b ! p)\<lparr>c_carries_narration := True\<rparr> else f q (b_clips b ! q))"
    if "q < length (b_clips b)" for q
    using that p2 r(3) by (simp add: f2(3) nth_list_update e)
  have same: "map c_id (b_clips b') = map c_id (b_clips b)" "map c_unit_id (b_clips b') = map c_unit_id (b_clips b)"
    "map c_transition (b_clips b') = map c_transition (b_clips b)"
    by (rule nth_equalityI; auto simp: len' nth' f_def)+
  have cnt: "carrier_count (b_clips b') uid = (if uid = ?uid then 1 else carrier_count (b_clips b) uid)" for uid
    by (rule sole_carrier_count [OF len' p]) (auto simp: nth' f_def)
  have units: "c_unit_id ` set (b_clips b') = c_unit_id ` set (b_clips b)" using same(2) by (metis set_map)
  have "no_dangling (b_clips b')" if "no_dangling (b_clips b)"
    using that same(3) len' by (metis last_map length_0_conv no_dangling_def)
  moreover have "cuts_kept b b'" unfolding cuts_kept_def using next_ids_cong [OF same(1)] by simp
  moreover have "batch_frame b b'" using batch_frame_trans [OF f2(2) r(2)] e by simp
  ultimately show ?thesis
    using r(1) cnt units by (simp add: good_step_def one_carrier_def narration_covered_iff)
qed

subsection \<open>The operations on the BGM track\<close>

lemma bgm_range_bounds:
  assumes "bgm_range so i cid bid a out = Inr (x, y)" "wf_sources so"
  shows "0 \<le> x" "x < y"
proof -
  from assms(1) obtain whole where w: "bgm_duration so i cid bid = Inr whole"
    and xy: "x = 0 \<or> (0 \<le> a \<and> seconds_to_microseconds a = Inr x)" "min min_bgm_microseconds whole \<le> y - x"
    by (auto simp: bgm_range_def bindE_Inr_iff Let_def split: if_splits)
  have "0 < whole" using w assms(2) by (auto simp: bgm_duration_def wf_sources_def split: option.splits)
  then show "x < y" using xy(2) by (auto simp: min_bgm_microseconds_def min_def split: if_splits)
  show "0 \<le> x" using xy(1) seconds_to_microseconds_nonneg by auto
qed

lemma seconds_at_least_zero_nonneg: "seconds_at_least_zero i cid f v = Inr x \<Longrightarrow> 0 \<le> x"
  using seconds_to_microseconds_nonneg [of v x]
  by (auto simp: seconds_at_least_zero_def split: if_splits)

lemma bgm_volume_unit: "bgm_volume i cid v = Inr x \<Longrightarrow> 0 \<le> x \<and> x \<le> 1"
  by (auto simp: bgm_volume_def split: if_splits)

lemma good_step_bgm:
  assumes "base_good n b'" "batch_frame b b'" "b_clips b' = b_clips b"
  shows "good_step n b b'"
  using assms by (simp add: good_step_def cuts_kept_def)

lemma insert_bgm_good:
  assumes "apply_insert_bgm so i op b = Inr b'" "base_good n b" "i < n"
  shows "good_step n b b'"
proof -
  from assms(1) obtain g where g: "valid_bgm g" "g_id g = bgm_id_of (b_next_bgm b)"
    and b': "b' = (touch i (g_id g) b)\<lparr>b_next_bgm := b_next_bgm b + 1, b_bgm := b_bgm b @ [g]\<rparr>"
    by (auto simp: apply_insert_bgm_def bindE_Inr_iff make_bgm_def split: if_splits)
  have n1: "1 \<le> b_next_bgm b" using assms(2) by (simp add: base_good_def)
  have fresh: "g_id g \<notin> g_id ` set (b_bgm b)"
    using assms(2) fresh_id_not_below [of "b_next_bgm b"] n1 g(2)
    by (auto simp: base_good_def list_all_iff)
  have below: "id_below (b_next_bgm b + 1) (g_id g)" using n1 g(2) by (simp add: id_below_def)
  have "base_good n b'"
    using assms(2,3) g(1) fresh n1 below valid_id_any(2) [OF g(1)]
    by (auto simp: b' base_good_def list_all_iff intro: id_below_mono split: if_splits)
  moreover have "batch_frame b b'" by (auto simp: batch_frame_def b' touched_def)
  ultimately show ?thesis by (rule good_step_bgm) (simp add: b')
qed

lemma set_bgm_good:
  assumes "apply_set_bgm so i op b = Inr b'" "base_good n b" "i < n" "wf_sources so"
  shows "good_step n b b'"
proof -
  from assms(1) obtain p b1 x y s v fi fo where b1: "bgm_position i (sb_clip op) b = Inr (p, b1)"
    and xy: "(if sb_source_in op \<noteq> None \<or> sb_source_out op \<noteq> None then
        bgm_range so i (Some (sb_clip op)) (g_bgm_id (b_bgm b1 ! p))
          (case sb_source_in op of Some s \<Rightarrow> s | None \<Rightarrow> microseconds_to_seconds (g_in_us (b_bgm b1 ! p)))
          (Some (case sb_source_out op of Some s \<Rightarrow> s
                 | None \<Rightarrow> microseconds_to_seconds (g_out_us (b_bgm b1 ! p))))
        else Inr (g_in_us (b_bgm b1 ! p), g_out_us (b_bgm b1 ! p))) = Inr (x, y)"
    and o: "optional (sb_start op) (seconds_at_least_zero i (Some (sb_clip op)) ''start'') (g_start_us (b_bgm b1 ! p)) = Inr s"
      "optional (sb_volume op) (bgm_volume i (Some (sb_clip op))) (g_volume (b_bgm b1 ! p)) = Inr v"
      "optional (sb_fade_in op) (seconds_at_least_zero i (Some (sb_clip op)) ''fade_in'') (g_fade_in_us (b_bgm b1 ! p)) = Inr fi"
      "optional (sb_fade_out op) (seconds_at_least_zero i (Some (sb_clip op)) ''fade_out'') (g_fade_out_us (b_bgm b1 ! p)) = Inr fo"
    and b': "b' = (let updated = (b_bgm b1 ! p)\<lparr>g_start_us := s, g_in_us := x, g_out_us := y,
        g_volume := v, g_fade_in_us := fi, g_fade_out_us := fo\<rparr>
      in if updated \<noteq> b_bgm b1 ! p
         then touch i (g_id updated) (b1\<lparr>b_bgm := (b_bgm b1)[p := updated]\<rparr>) else b1)"
    unfolding apply_set_bgm_def Let_def by (auto simp: bindE_Inr_iff)
  from b1 obtain T R where e: "b1 = b\<lparr>b_referenced := R, b_targets := T\<rparr>" and p: "p < length (b_bgm b)"
    by (rule bgm_positionE)
  let ?g = "b_bgm b ! p"
  let ?u = "?g\<lparr>g_start_us := s, g_in_us := x, g_out_us := y, g_volume := v, g_fade_in_us := fi, g_fade_out_us := fo\<rparr>"
  have g: "valid_bgm ?g" using assms(2) p by (auto simp: base_good_def list_all_iff)
  then have "0 \<le> x \<and> x < y" "0 \<le> s" "0 \<le> v \<and> v \<le> 1" "0 \<le> fi" "0 \<le> fo"
    using xy o bgm_range_bounds [OF _ assms(4)] seconds_at_least_zero_nonneg bgm_volume_unit
    by (auto simp: e optional_def valid_bgm_def split: if_splits option.splits)
  then have u: "valid_bgm ?u" using g by (simp add: valid_bgm_def)
  have ids: "map g_id ((b_bgm b)[p := ?u]) = map g_id (b_bgm b)"
    using p by (simp add: map_update list_update_same_conv)
  have "base_good n (touch i (g_id ?g) (b1\<lparr>b_bgm := (b_bgm b)[p := ?u]\<rparr>))"
    using assms(2,3) u ids valid_id_any(2) [OF g]
    by (auto simp: base_good_def e list_all_update split: if_splits)
  moreover have "batch_frame b (touch i (g_id ?g) (b1\<lparr>b_bgm := (b_bgm b)[p := ?u]\<rparr>))"
    using filter_list_update [OF p, of "\<lambda>g. g_id g \<noteq> g_id ?g \<and> g_id g \<notin> touched b" ?u]
    by (auto simp: batch_frame_def e)
  ultimately show ?thesis
    using assms(2) by (auto simp: b' Let_def e intro!: good_step_bgm)
qed

lemma delete_bgm_good:
  assumes "apply_delete_bgm i cid b = Inr b'" "base_good n b" "i < n"
  shows "good_step n b b'"
proof -
  from assms(1) obtain p b1 where b1: "bgm_position i cid b = Inr (p, b1)"
    and b': "b' = touch i (g_id (b_bgm b1 ! p)) (b1\<lparr>b_bgm := remove_at p (b_bgm b1)\<rparr>)"
    by (auto simp: apply_delete_bgm_def bindE_Inr_iff)
  from b1 obtain T R where e: "b1 = b\<lparr>b_referenced := R, b_targets := T\<rparr>" and p: "p < length (b_bgm b)"
    by (rule bgm_positionE)
  have sub: "set (remove_at p (b_bgm b)) \<subseteq> set (b_bgm b)"
    "set (remove_at p (map g_id (b_bgm b))) \<subseteq> g_id ` set (b_bgm b)"
    using set_remove_at_subset [of p "b_bgm b"] set_remove_at_subset [of p "map g_id (b_bgm b)"] by simp_all
  have "valid_any_id (g_id (b_bgm b ! p))" using assms(2) p by (auto simp: base_good_def intro: valid_bgm_any_id)
  then have "base_good n b'"
    using assms(2,3) sub
    by (auto simp: base_good_def b' e list_all_iff map_remove_at intro: distinct_remove_at split: if_splits)
  moreover have "batch_frame b b'"
    using p by (auto simp: batch_frame_def b' e filter_remove_at)
  ultimately show ?thesis by (rule good_step_bgm) (simp add: b' e)
qed

section \<open>Every operation\<close>

theorem apply_op_good:
  assumes "apply_op so (i, op) b = Inr b'" "base_good n b" "i < n" "wf_sources so"
  shows "good_step n b b'"
proof (cases op)
  case (SetTrim cid spec)
  show ?thesis
    by (rule set_field_good [OF assms(1) [unfolded SetTrim apply_op.simps] assms(2,3)])
      (auto simp: valid_clip_def dest: check_trim_valid split: option.splits)
next
  case (SetVolume cid v)
  show ?thesis
    by (rule set_field_good [OF assms(1) [unfolded SetVolume apply_op.simps] assms(2,3)])
      (auto simp: valid_clip_def dest: check_volume_valid)
next
  case (SetHold cid v)
  show ?thesis
    by (rule set_field_good [OF assms(1) [unfolded SetHold apply_op.simps] assms(2,3)])
      (auto simp: valid_clip_def dest: check_hold_valid)
next
  case (SetReason cid v)
  show ?thesis
    by (rule set_field_good [OF assms(1) [unfolded SetReason apply_op.simps] assms(2,3)])
      (auto simp: valid_clip_def)
qed (use assms in \<open>auto intro: insert_good delete_good move_good set_transition_good
  place_narration_good insert_bgm_good set_bgm_good delete_bgm_good\<close>)


section \<open>The errors\<close>

text \<open>An operation fails with \<open>operation_invalid\<close> and its own index, or with the overflow of the
  conversion of seconds; a validating constructor never fails.\<close>

definition op_error :: "nat \<Rightarrow> exn \<Rightarrow> bool" where
  "op_error n e = (e = Overflow_error \<or> (\<exists>i<n. \<exists>x f. e = op_invalid i x f))"

lemma op_error_simps [simp]: "op_error n Overflow_error" "i < n \<Longrightarrow> op_error n (op_invalid i x f)"
  by (auto simp: op_error_def)

lemma seconds_error [simp]: "seconds_to_microseconds s = Inl e \<Longrightarrow> op_error n e"
  using seconds_to_microseconds_error [of s e] by simp

lemma current_video_version:
  "current_video so i cid uid = Inr (v, d) \<Longrightarrow> wf_sources so \<Longrightarrow> 1 \<le> v \<and> 0 \<le> d"
  by (fastforce simp: current_video_def wf_sources_def wf_media_def split: option.splits if_splits)

lemma check_trim_error:
  assumes "check_trim so i cid uid spec = Inl e" "wf_sources so" "i < n"
  shows "op_error n e"
proof (cases spec)
  case None
  then show ?thesis using assms(1) by (simp add: check_trim_def)
next
  case (Some s)
  show ?thesis
  proof (cases "current_video so i cid uid")
    case (Inl e')
    then show ?thesis using assms Some
      by (auto simp: check_trim_def current_video_def split: option.splits if_splits)
  next
    case (Inr vd)
    obtain v d where vd: "vd = (v, d)" by (cases vd)
    have v: "1 \<le> v" "0 \<le> d" using current_video_version Inr vd assms(2) by auto
    have "valid_trim \<lparr>trim_in_us = x, trim_out_us = y, trim_basis_version = v\<rparr>"
      if "0 \<le> x" "min_trim_microseconds \<le> y - x" for x y
      using that v by (simp add: valid_trim_def const_defs)
    then show ?thesis
      using assms(1,3) Some Inr vd seconds_to_microseconds_nonneg [of "ts_source_in s"]
      by (auto simp: check_trim_def make_trim_def bindE_Inl_iff Let_def not_less split: if_splits)
  qed
qed

lemma check_volume_error: "check_volume i cid v = Inl e \<Longrightarrow> i < n \<Longrightarrow> op_error n e"
  by (auto simp: check_volume_def split: if_splits)

lemma check_hold_error: "check_hold i cid v = Inl e \<Longrightarrow> i < n \<Longrightarrow> op_error n e"
  by (auto simp: check_hold_def split: if_splits)

lemma check_reason_error: "check_reason i cid v = Inl e \<Longrightarrow> i < n \<Longrightarrow> op_error n e"
  by (auto simp: check_reason_def Let_def split: if_splits)

lemma check_transition_error:
  assumes "check_transition i cid spec = Inl e" "i < n"
  shows "op_error n e"
proof -
  have "0 \<le> us" if "seconds_to_microseconds (xs_duration s) = Inr us"
    "microseconds_to_seconds min_transition_microseconds \<le> xs_duration s" for us s
    using that microseconds_to_seconds_nonneg [of min_transition_microseconds]
      seconds_to_microseconds_nonneg [of "xs_duration s" us]
    by (simp add: const_defs)
  then show ?thesis using assms
    by (auto simp: check_transition_def make_transition_def valid_transition_def bindE_Inl_iff Let_def
        split: option.splits if_splits)
qed

lemma batch_position_error: "batch_position i cid f b = Inl e \<Longrightarrow> i < n \<Longrightarrow> op_error n e"
  by (auto simp: batch_position_def Let_def split: option.splits)

lemma insertion_point_error: "insertion_point i after b = Inl e \<Longrightarrow> i < n \<Longrightarrow> op_error n e"
  by (auto simp: insertion_point_def bindE_Inl_iff dest: batch_position_error split: option.splits)

lemma require_next_error: "require_next i p t b = Inl e \<Longrightarrow> i < n \<Longrightarrow> op_error n e"
  by (auto simp: require_next_def split: if_splits)

lemma bgm_position_error: "bgm_position i cid b = Inl e \<Longrightarrow> i < n \<Longrightarrow> op_error n e"
  by (auto simp: bgm_position_def Let_def split: option.splits)

lemma bgm_range_error: "bgm_range so i cid bid a out = Inl e \<Longrightarrow> i < n \<Longrightarrow> op_error n e"
  by (auto simp: bgm_range_def bgm_duration_def bindE_Inl_iff Let_def split: option.splits if_splits)

lemma bgm_volume_error: "bgm_volume i cid v = Inl e \<Longrightarrow> i < n \<Longrightarrow> op_error n e"
  by (auto simp: bgm_volume_def split: if_splits)

lemma seconds_at_least_zero_error: "seconds_at_least_zero i cid f v = Inl e \<Longrightarrow> i < n \<Longrightarrow> op_error n e"
  by (auto simp: seconds_at_least_zero_def split: if_splits)

lemmas field_errors = check_trim_error check_volume_error check_hold_error check_reason_error
  check_transition_error batch_position_error insertion_point_error require_next_error
  bgm_position_error bgm_range_error bgm_volume_error seconds_at_least_zero_error

lemma insert_error:
  assumes "apply_insert so i op b = Inl e" "base_good n b" "i < n" "wf_sources so"
  shows "op_error n e"
proof -
  have ok: False
    if "make_clip \<lparr>c_id = clip_id_of (b_next_clip b), c_unit_id = u_id u, c_trim = trim, c_source_volume = v,
       c_hold_us = h, c_carries_narration = k, c_reason = r, c_transition = t\<rparr> = Inl e'"
      "unit_of so (ic_unit_id op) = Some u" "check_trim so i None (u_id u) (ic_trim op) = Inr trim"
      "0 \<le> v" "v \<le> 1" "check_hold i None (ic_hold op) = Inr h"
      "check_transition i None (ic_transition op) = Inr t" for u trim v h k r t e'
  proof -
    have "u_id u \<noteq> []" using unit_of_SomeD [OF that(2)] assms(4) by (auto simp: wf_sources_def)
    moreover have "1 \<le> b_next_clip b" using assms(2) by (simp add: base_good_def)
    ultimately show ?thesis
      using that check_trim_valid [of so i None "u_id u" "ic_trim op"] check_hold_valid [of i None "ic_hold op" h]
        check_transition_valid [of i None "ic_transition op"]
      by (auto simp: make_clip_def valid_clip_def valid_clip_id_of split: option.splits if_splits)
  qed
  show ?thesis
    using assms(1,3,4) unfolding apply_insert_def
    by (auto simp: bindE_Inl_iff Let_def dest!: check_volume_valid dest: field_errors ok split: option.splits)
qed

lemma insert_bgm_error:
  assumes "apply_insert_bgm so i op b = Inl e" "base_good n b" "i < n" "wf_sources so"
  shows "op_error n e"
proof -
  have "ib_bgm_id op \<noteq> []" if "bgm_range so i None (ib_bgm_id op) a out = Inr xy" for a out xy
    using that assms(4)
    by (auto simp: bgm_range_def bgm_duration_def wf_sources_def bindE_Inr_iff split: option.splits)
  moreover have "1 \<le> b_next_bgm b" using assms(2) by (simp add: base_good_def)
  ultimately show ?thesis
    using assms(1,3) bgm_range_bounds [OF _ assms(4)] seconds_at_least_zero_nonneg bgm_volume_unit
    unfolding apply_insert_bgm_def make_bgm_def valid_bgm_def
    by (fastforce simp: bindE_Inl_iff valid_bgm_id_of dest: field_errors split: if_splits)
qed

lemma set_field_error:
  assumes "set_field i cid check change b = Inl e" "i < n"
    and "\<And>c. check c = Inl e \<Longrightarrow> op_error n e"
  shows "op_error n e"
  using assms by (auto simp: set_field_def bindE_Inl_iff dest: field_errors)

lemma apply_op_error:
  assumes "apply_op so (i, op) b = Inl e" "base_good n b" "i < n" "wf_sources so"
  shows "op_error n e"
proof (cases op)
  case (InsertClip x1)
  then show ?thesis using assms insert_error by simp
next
  case (InsertBgm x10)
  then show ?thesis using assms insert_bgm_error by simp
next
  case (SetBgm x11)
  then show ?thesis using assms(1,3)
    by (auto simp: apply_set_bgm_def optional_def bindE_Inl_iff Let_def dest: field_errors
        split: if_splits option.splits)
qed (use assms in \<open>auto simp: apply_delete_def apply_move_def apply_set_transition_def
  apply_place_narration_def apply_delete_bgm_def bindE_Inl_iff Let_def dest: field_errors
  elim!: set_field_error split: if_splits option.splits\<close>)

section \<open>The batch as a machine\<close>

text \<open>Admissible inputs carry the index of an operation of a batch of \<open>n\<close>; the facts of the
  interface speak of the loop of \<^const>\<open>apply_operations\<close>.\<close>

definition batch_ok :: "episode_sources \<Rightarrow> nat \<Rightarrow> batch \<Rightarrow> bool" where
  "batch_ok so n b = (wf_sources so \<and> base_good n b)"

definition batch_rel :: "batch \<Rightarrow> batch \<Rightarrow> bool" where
  "batch_rel b b' =
     (batch_frame b b' \<and> cuts_kept b b' \<and>
      (one_carrier (b_clips b) \<longrightarrow> one_carrier (b_clips b')) \<and>
      (narration_covered (b_clips b) \<longrightarrow> narration_covered (b_clips b')) \<and>
      (no_dangling (b_clips b) \<longrightarrow> no_dangling (b_clips b')))"

lemma good_step_rel: "good_step n b b' \<Longrightarrow> base_good n b' \<and> batch_rel b b'"
  by (simp add: good_step_def batch_rel_def)

interpretation ops: step_machine_rel "apply_op so" "\<lambda>x. fst x < n" "batch_ok so n" batch_rel for so n
proof
  show "batch_ok so n t" if "fst x < n" "batch_ok so n s" "apply_op so x s = Inr t" for x s t
    using that apply_op_good [of so "fst x" "snd x" s t n] good_step_rel [of n s t] by (simp add: batch_ok_def)
  show "batch_rel s t" if "fst x < n" "batch_ok so n s" "apply_op so x s = Inr t" for x s t
    using that apply_op_good [of so "fst x" "snd x" s t n] good_step_rel [of n s t] by (simp add: batch_ok_def)
  show "batch_rel s s" for s by (simp add: batch_rel_def cuts_kept_refl)
  show "batch_rel s u" if "batch_rel s t" "batch_rel t u" for s t u
    using that batch_frame_trans cuts_kept_trans unfolding batch_rel_def by blast
qed

interpretation ops_err: step_machine_err "apply_op so" "\<lambda>x. fst x < n" "batch_ok so n" "op_error n" for so n
  by unfold_locales (metis apply_op_error batch_ok_def prod.collapse)

section \<open>The whole batch\<close>

lemma init_batch_ok:
  assumes "wf_sources so" "valid_content ct" "ids_allocated nc nb ct" "1 \<le> nc" "1 \<le> nb"
  shows "batch_ok so n (init_batch ct nc nb)"
  using assms
  by (auto simp: batch_ok_def base_good_def init_batch_def valid_content_def unique_content_def
      ids_allocated_def list_all_iff)

lemma enumerate_inputs: "list_all (\<lambda>x. fst x < length ops) (enumerate 0 ops)"
  by (auto simp: list_all_iff in_set_enumerate_eq)

lemma base_good_sorted:
  assumes "base_good n b"
  shows "sorted_bgm (b_bgm b) = Inr (sort_key bgm_order (b_bgm b))"
  using assms by (auto simp: sorted_bgm_def base_good_def list_all_iff id_below_def split: option.splits)

lemma base_good_content:
  assumes "base_good n b" "one_carrier (b_clips b)"
  shows "make_content (b_clips b) (sort_key bgm_order (b_bgm b)) =
      Inr \<lparr>ct_clips = b_clips b, ct_bgm = sort_key bgm_order (b_bgm b)\<rparr>"
    and "valid_content \<lparr>ct_clips = b_clips b, ct_bgm = sort_key bgm_order (b_bgm b)\<rparr>"
    and "ids_allocated (b_next_clip b) (b_next_bgm b) \<lparr>ct_clips = b_clips b, ct_bgm = sort_key bgm_order (b_bgm b)\<rparr>"
proof -
  have "distinct (map g_id (sort_key bgm_order (b_bgm b))) = distinct (map g_id (b_bgm b))"
    by (rule mset_eq_imp_distinct_iff) simp
  then show v: "valid_content \<lparr>ct_clips = b_clips b, ct_bgm = sort_key bgm_order (b_bgm b)\<rparr>"
    using assms by (auto simp: valid_content_def unique_content_def base_good_def list_all_iff distinct_carriers_iff)
  then show "make_content (b_clips b) (sort_key bgm_order (b_bgm b)) =
      Inr \<lparr>ct_clips = b_clips b, ct_bgm = sort_key bgm_order (b_bgm b)\<rparr>"
    by (simp add: make_content_def valid_content_def)
  show "ids_allocated (b_next_clip b) (b_next_bgm b) \<lparr>ct_clips = b_clips b, ct_bgm = sort_key bgm_order (b_bgm b)\<rparr>"
    using assms(1) by (auto simp: ids_allocated_def base_good_def list_all_iff)
qed

text \<open>The result of a batch that succeeds, and the state the loop ended in.\<close>

lemma apply_operationsE:
  assumes "apply_operations ct nc ops so nb cw = Inr ab"
    and "wf_sources so" "valid_content ct" "ids_allocated nc nb ct" "1 \<le> nc" "1 \<le> nb"
  obtains b where "foldE (apply_op so) (enumerate 0 ops) (init_batch ct nc nb) = Inr b"
    "base_good (length ops) b" "batch_rel (init_batch ct nc nb) b" "one_carrier (b_clips b)"
    "cw \<Longrightarrow> check_transition_windows so b = Inr ()" "cw \<Longrightarrow> check_bgm so b = Inr ()"
    "ab = \<lparr>ab_content = \<lparr>ct_clips = b_clips b, ct_bgm = sort_key bgm_order (b_bgm b)\<rparr>,
            ab_next_clip_number = b_next_clip b, ab_next_bgm_number = b_next_bgm b,
            ab_targets = b_targets b, ab_referenced = b_referenced b, ab_last_operation = b_last b\<rparr>"
proof -
  from assms(1) obtain b bgm content where b: "foldE (apply_op so) (enumerate 0 ops) (init_batch ct nc nb) = Inr b"
    and c: "(if cw then bindE (check_transition_windows so b) (\<lambda>_. check_bgm so b) else Inr ()) = Inr ()"
    and s: "sorted_bgm (b_bgm b) = Inr bgm" "make_content (b_clips b) bgm = Inr content"
    and ab: "ab = \<lparr>ab_content = content, ab_next_clip_number = b_next_clip b, ab_next_bgm_number = b_next_bgm b,
            ab_targets = b_targets b, ab_referenced = b_referenced b, ab_last_operation = b_last b\<rparr>"
    by (auto simp: apply_operations_def bindE_Inr_iff)
  note ok = init_batch_ok [OF assms(2-), of "length ops"]
  have g: "base_good (length ops) b"
    using ops.run_good [OF enumerate_inputs ok b] by (simp add: batch_ok_def)
  have r: "batch_rel (init_batch ct nc nb) b" by (rule ops.run_rel [OF enumerate_inputs ok b])
  have "one_carrier (b_clips (init_batch ct nc nb))"
    using assms(3) by (simp add: init_batch_def valid_content_def unique_content_def distinct_carriers_iff)
  then have o: "one_carrier (b_clips b)" using r by (simp add: batch_rel_def)
  have w: "check_transition_windows so b = Inr ()" "check_bgm so b = Inr ()" if cw
    using c that by (simp_all add: bindE_Inr_iff)
  have "ab = \<lparr>ab_content = \<lparr>ct_clips = b_clips b, ct_bgm = sort_key bgm_order (b_bgm b)\<rparr>,
      ab_next_clip_number = b_next_clip b, ab_next_bgm_number = b_next_bgm b,
      ab_targets = b_targets b, ab_referenced = b_referenced b, ab_last_operation = b_last b\<rparr>"
    using s ab base_good_sorted [OF g] base_good_content(1) [OF g o] by simp
  then show ?thesis using that [OF b g r o] w by blast
qed

lemma check_windows_error:
  assumes "check_windows_from so b prev cs = Inl e" "\<And>x j. map_of (b_last b) x = Some j \<Longrightarrow> j < n"
  shows "op_error n e"
  using assms(1)
proof (induction cs arbitrary: prev)
  case Nil
  then show ?case by simp
next
  case (Cons c cs)
  have "j < n" if "j \<in> set (touched_indexes (b_last b) ids)" for j ids
    using that assms(2) by (auto simp: touched_indexes_def set_map_filter_iff)
  then have "Max (set (touched_indexes (b_last b) ids)) < n" if "touched_indexes (b_last b) ids \<noteq> []" for ids
    using that by simp
  then have "check_window so b prev c = Inl e' \<Longrightarrow> op_error n e'" for e'
    by (auto simp: check_window_def Let_def split: option.splits if_splits)
  then show ?case using Cons by (auto simp: bindE_Inl_iff)
qed

lemma check_starts_error:
  assumes "\<And>x j. map_of L x = Some j \<Longrightarrow> j < n"
  shows "check_starts L total_us gs = Inl e \<Longrightarrow> op_error n e"
  by (induction gs) (auto dest: assms split: option.splits if_splits)

lemma check_overlaps_error:
  "\<lbrakk>\<And>x j. map_of L x = Some j \<Longrightarrow> j < n; check_overlaps L gs = Inl e\<rbrakk> \<Longrightarrow> op_error n e"
proof (induction L gs rule: check_overlaps.induct)
  case (1 L p f gs)
  have "j < n" if "j \<in> set (touched_indexes L ids)" for j ids
    using that 1 by (auto simp: touched_indexes_def set_map_filter_iff)
  then have "Max (set (touched_indexes L ids)) < n" if "touched_indexes L ids \<noteq> []" for ids
    using that by simp
  then show ?case using 1 by (auto simp: Let_def split: if_splits)
qed simp_all

lemma batch_checks_error:
  assumes "base_good n b"
  shows "check_transition_windows so b = Inl e \<Longrightarrow> op_error n e" and "check_bgm so b = Inl e \<Longrightarrow> op_error n e"
proof -
  have lt: "j < n" if "map_of (b_last b) x = Some j" for x j using that assms by (auto simp: base_good_def)
  show "op_error n e" if "check_transition_windows so b = Inl e"
    using check_windows_error that lt unfolding check_transition_windows_def by blast
  show "op_error n e" if "check_bgm so b = Inl e"
    using that base_good_sorted [OF assms] check_starts_error [OF lt] check_overlaps_error [OF lt]
    by (auto simp: check_bgm_def bindE_Inl_iff split: if_splits)
qed

lemma apply_operations_errors:
  assumes "apply_operations ct nc ops so nb cw = Inl e"
    and "wf_sources so" "valid_content ct" "ids_allocated nc nb ct" "1 \<le> nc" "1 \<le> nb"
  shows "op_error (length ops) e"
proof (cases "foldE (apply_op so) (enumerate 0 ops) (init_batch ct nc nb)")
  case (Inl e')
  then show ?thesis
    using assms(1) ops_err.run_bad [OF enumerate_inputs init_batch_ok [OF assms(2-)]]
    by (simp add: apply_operations_def)
next
  case (Inr b)
  note ok = init_batch_ok [OF assms(2-), of "length ops"]
  have g: "base_good (length ops) b"
    using ops.run_good [OF enumerate_inputs ok Inr] by (simp add: batch_ok_def)
  have "batch_rel (init_batch ct nc nb) b" by (rule ops.run_rel [OF enumerate_inputs ok Inr])
  moreover have "one_carrier (b_clips (init_batch ct nc nb))"
    using assms(3) by (simp add: init_batch_def valid_content_def unique_content_def distinct_carriers_iff)
  ultimately have o: "one_carrier (b_clips b)" by (simp add: batch_rel_def)
  show ?thesis
    using assms(1) Inr base_good_sorted [OF g] base_good_content(1) [OF g o] batch_checks_error [OF g]
    by (auto simp: apply_operations_def bindE_Inl_iff split: if_splits)
qed

end
