(* ===== verification/Sample_Episode.thy ===== *)
theory Sample_Episode
  imports Timeline_Batch
begin

text \<open>
  A small concrete episode, its content and a batch of edits: the inputs at which the witnesses of
  the timeline theories apply their theorems.
\<close>

definition sample_sources :: episode_sources where
  "sample_sources =
     \<lparr>so_script = \<lparr>es_episode = 1, es_kind = ''video_units'',
        es_units =
          [\<lparr>u_id = ''U1'', u_speech_mode = Some NARRATOR_VOICEOVER, u_scripted_us = 6000000, u_subtitle = ''one''\<rparr>,
           \<lparr>u_id = ''U2'', u_speech_mode = Some CHARACTER_SPEECH, u_scripted_us = 4000000, u_subtitle = ''two''\<rparr>]\<rparr>,
      so_media = map_of
        [(''U1'', \<lparr>m_video_version = Some 1, m_video_us = Some 6000000, m_narration_us = Some 3000000\<rparr>),
         (''U2'', \<lparr>m_video_version = Some 2, m_video_us = Some 4000000, m_narration_us = None\<rparr>)],
      so_tts_narration = True,
      so_bgm = map_of [(''bgm-1'', \<lparr>bm_name = ''theme'', bm_duration_us = 60000000\<rparr>)]\<rparr>"

definition sample_content :: tl_content where
  "sample_content =
     \<lparr>ct_clips =
        [\<lparr>c_id = ''c1'', c_unit_id = ''U1'', c_trim = None, c_source_volume = 1 / 4, c_hold_us = 0,
          c_carries_narration = True, c_reason = None,
          c_transition = Some \<lparr>t_type = DISSOLVE, t_duration_us = 500000\<rparr>\<rparr>,
         \<lparr>c_id = ''c2'', c_unit_id = ''U2'', c_trim = None, c_source_volume = 1, c_hold_us = 0,
          c_carries_narration = True, c_reason = None, c_transition = None\<rparr>],
      ct_bgm =
        [\<lparr>g_id = ''b1'', g_bgm_id = ''bgm-1'', g_start_us = 0, g_in_us = 0, g_out_us = 5000000,
          g_volume = 1 / 4, g_fade_in_us = 1000000, g_fade_out_us = 1000000\<rparr>]\<rparr>"

text \<open>Insert a trimmed clip of the first unit between the two (the cut before it is reset), hold the
  last clip, and add a second piece of music after the first.\<close>

definition sample_ops :: "timeline_operation list" where
  "sample_ops =
     [InsertClip \<lparr>ic_unit_id = ''U1'', ic_after = Some ''c1'', ic_source_volume = None,
        ic_trim = Some \<lparr>ts_source_in = 1 / 2, ts_source_out = 5 / 2\<rparr>, ic_hold = 0, ic_reason = Some '' calm '',
        ic_transition = None\<rparr>,
      SetHold ''c2'' 1,
      InsertBgm \<lparr>ib_bgm_id = ''bgm-1'', ib_start = 6, ib_source_in = 0, ib_source_out = Some 4,
        ib_volume = 1 / 2, ib_fade_in = 1, ib_fade_out = 1\<rparr>]"

definition is_ok :: "'e + 'a \<Rightarrow> bool" where
  "is_ok r = (case r of Inl _ \<Rightarrow> False | Inr _ \<Rightarrow> True)"

lemma is_ok_iff: "is_ok r \<longleftrightarrow> (\<exists>x. r = Inr x)"
  by (simp add: is_ok_def split: sum.split)

lemma sample_sources_wf [simp]: "wf_sources sample_sources"
  by (auto simp: wf_sources_def sample_sources_def wf_media_def split: if_splits)

lemma sample_content_valid [simp]:
  "valid_content sample_content" "ids_allocated 3 2 sample_content" "bgm_disjoint (ct_bgm sample_content)"
  by code_simp+


section \<open>Running a batch by the simplifier\<close>

lemmas op_defs = apply_operations_def init_batch_def apply_insert_def apply_place_narration_def
  apply_delete_def apply_move_def set_field_def apply_set_transition_def apply_insert_bgm_def
  apply_set_bgm_def apply_delete_bgm_def batch_position_def insertion_point_def touch_def
  replace_clip_def current_video_def check_trim_def check_volume_def check_hold_def check_reason_def
  check_transition_def require_next_def next_ids_def reset_cut_def reset_broken_cuts_def
  bgm_position_def bgm_duration_def bgm_range_def bgm_volume_def seconds_at_least_zero_def
  optional_def make_trim_def make_clip_def make_transition_def make_bgm_def make_content_def
  insert_at_def remove_at_def valid_trim_def valid_clip_def valid_transition_def valid_bgm_def
  unit_of_def valid_id_def unique_content_def carriers_def check_transition_windows_def
  check_window_def batch_duration_us_def check_bgm_def sorted_bgm_def bgm_order_def
  timeline_duration_us_def touched_indexes_def clip_source_duration_us_def
  effective_source_range_us_def transition_us_def bgm_clip_length_us_def is_digit_def digit_val_def

lemma sample_conversions:
  "microseconds_to_seconds 6000000 = 6" "microseconds_to_seconds 60000000 = 60"
  "microseconds_to_seconds 10000000 = 10" "seconds_to_microseconds (1 / 2) = Inr 500000"
  "seconds_to_microseconds (5 / 2) = Inr 2500000" "seconds_to_microseconds 0 = Inr 0"
  "seconds_to_microseconds 1 = Inr 1000000" "seconds_to_microseconds 6 = Inr 6000000"
  "seconds_to_microseconds 4 = Inr 4000000"
  "fl (6 + fl (1 / 1000)) = 6756525340962587 / 1125899906842624"
  "fl (60 + fl (1 / 1000)) = 8444390038808035 / 140737488355328"
  by code_simp+

lemma sample_strings:
  "clip_id_of 3 = ''c3''" "bgm_id_of 2 = ''b2''" "py_strip '' calm '' = ''calm''"
  "clip_number ''b1'' = Some 1" "clip_number ''b2'' = Some 2"
  by code_simp+

lemmas sample_defs = sample_content_def sample_ops_def sample_sources_def is_ok_def
lemmas run_simps = op_defs const_defs sample_conversions sample_strings Let_def

lemma sample_run: "is_ok (apply_operations sample_content 3 sample_ops sample_sources 2 True)"
  by (simp add: run_simps sample_defs cong: bindE_weak_cong)

text \<open>A batch whose second operation sets a volume out of range.\<close>

definition sample_bad_ops :: "timeline_operation list" where
  "sample_bad_ops = [SetHold ''c2'' 1, SetVolume ''c1'' 2]"

lemma sample_bad_run:
  "apply_operations sample_content 3 sample_bad_ops sample_sources 2 True =
     Inl (op_invalid 1 (Some ''c1'') ''source_volume'')"
  by (simp add: run_simps sample_defs sample_bad_ops_def cong: bindE_weak_cong)

end
