(* ===== verification/Timeline_Diff.thy ===== *)
theory Timeline_Diff
  imports Sample_Episode "HOL-Library.Sublist"
begin

text \<open>
  The comparison of two contents (\<open>lib/edit_timeline/operations.py\<close>, second part): the table of the
  longest common subsequence and the walk back through it, the content diff, the ids a restore
  reports as changed, and the order in which ids are reported.
\<close>

section \<open>The table and the walk\<close>

text \<open>One row of the table from the row above (\<open>diag # up # ups\<close>) and the value to the left.\<close>

fun lcs_row :: "'a \<Rightarrow> 'a list \<Rightarrow> nat list \<Rightarrow> nat \<Rightarrow> nat list" where
  "lcs_row a (b # bs) (diag # up # ups) left =
     (let v = (if a = b then diag + 1 else max up left) in v # lcs_row a bs (up # ups) v)"
| "lcs_row a _ _ left = []"

fun lcs_rows :: "'a list \<Rightarrow> 'a list \<Rightarrow> nat list \<Rightarrow> nat list list" where
  "lcs_rows [] right row = [row]"
| "lcs_rows (a # as) right row = row # lcs_rows as right (0 # lcs_row a right row 0)"

definition lcs_table :: "'a list \<Rightarrow> 'a list \<Rightarrow> nat list list" where
  "lcs_table left right = lcs_rows left right (replicate (length right + 1) 0)"

function lcs_walk :: "'a list \<Rightarrow> 'a list \<Rightarrow> nat list list \<Rightarrow> nat \<Rightarrow> nat \<Rightarrow> 'a list \<Rightarrow> 'a list" where
  "lcs_walk left right table i j kept =
     (if i = 0 \<or> j = 0 then kept
      else if left ! (i - 1) = right ! (j - 1)
      then lcs_walk left right table (i - 1) (j - 1) (left ! (i - 1) # kept)
      else if table ! i ! (j - 1) \<le> table ! (i - 1) ! j
      then lcs_walk left right table (i - 1) j kept
      else lcs_walk left right table i (j - 1) kept)"
  by pat_completeness auto
termination by (relation "measure (\<lambda>(left, right, table, i, j, kept). i + j)") auto

declare lcs_walk.simps [simp del]

definition longest_common_subsequence :: "'a list \<Rightarrow> 'a list \<Rightarrow> 'a set" where
  "longest_common_subsequence left right =
     set (lcs_walk left right (lcs_table left right) (length left) (length right) [])"

section \<open>The diff\<close>

record content_diff =
  cd_added :: "string set"
  cd_removed :: "string set"
  cd_modified :: "string set"
  cd_moved :: "string set"

definition cd_changed :: "content_diff \<Rightarrow> string set" where
  "cd_changed d = cd_added d \<union> cd_removed d \<union> cd_modified d \<union> cd_moved d"

definition content_items :: "tl_content \<Rightarrow> (string \<times> (edit_clip + bgm_clip)) list" where
  "content_items ct = map (\<lambda>c. (c_id c, Inl c)) (ct_clips ct) @ map (\<lambda>g. (g_id g, Inr g)) (ct_bgm ct)"

definition content_dict :: "tl_content \<Rightarrow> string \<rightharpoonup> edit_clip + bgm_clip" where
  "content_dict ct = map_of (rev (content_items ct))"

definition diff_content :: "tl_content \<Rightarrow> tl_content \<Rightarrow> content_diff" where
  "diff_content before after =
     (let old_keys = set (map fst (content_items before)); new_keys = set (map fst (content_items after));
          old = content_dict before; new = content_dict after;
          common_before = filter (\<lambda>i. i \<in> new_keys) (map c_id (ct_clips before));
          common_after = filter (\<lambda>i. i \<in> old_keys) (map c_id (ct_clips after));
          in_order = longest_common_subsequence common_before common_after
      in \<lparr>cd_added = new_keys - old_keys, cd_removed = old_keys - new_keys,
          cd_modified = Set.filter (\<lambda>i. old i \<noteq> new i) (old_keys \<inter> new_keys),
          cd_moved = set (filter (\<lambda>i. i \<notin> in_order) common_before)\<rparr>)"

definition restore_changed_clip_ids :: "tl_content \<Rightarrow> tl_content \<Rightarrow> string set" where
  "restore_changed_clip_ids before after =
     (let diff = diff_content before after
      in if cd_moved diff = {} then cd_changed diff
         else cd_changed diff \<union> (c_id ` set (ct_clips after) \<inter> c_id ` set (ct_clips before)))"

definition clip_order :: "string \<Rightarrow> bool \<times> int" where
  "clip_order i = (starts_with ''b'' i, case clip_number i of Some n \<Rightarrow> n | None \<Rightarrow> 0)"

definition sorted_clip_ids :: "string set \<Rightarrow> exn + string list" where
  "sorted_clip_ids ids =
     (if \<forall>i\<in>ids. clip_number i \<noteq> None then Inr (sort_key clip_order (sorted_list_of_set ids))
      else Inl Value_error)"

section \<open>The table holds the lengths\<close>

fun lcs_len :: "'a list \<Rightarrow> 'a list \<Rightarrow> nat \<Rightarrow> nat \<Rightarrow> nat" where
  "lcs_len l r 0 j = 0"
| "lcs_len l r (Suc i) 0 = 0"
| "lcs_len l r (Suc i) (Suc j) =
     (if l ! i = r ! j then lcs_len l r i j + 1 else max (lcs_len l r i (Suc j)) (lcs_len l r (Suc i) j))"

lemma lcs_row_len:
  assumes "i < length l" "k \<le> length r"
  shows "lcs_row (l ! i) (drop k r) (map (lcs_len l r i) [k..<Suc (length r)]) (lcs_len l r (Suc i) k) =
    map (lcs_len l r (Suc i)) [Suc k..<Suc (length r)]"
  using assms(2)
proof (induction "length r - k" arbitrary: k)
  case 0
  then have "k = length r" by simp
  then show ?case by simp
next
  case (Suc n)
  then have k: "k < length r" by simp
  have d: "drop k r = r ! k # drop (Suc k) r" using k by (simp add: Cons_nth_drop_Suc)
  have up: "map (lcs_len l r i) [k..<Suc (length r)] =
      lcs_len l r i k # lcs_len l r i (Suc k) # map (lcs_len l r i) [Suc (Suc k)..<Suc (length r)]"
    using k by (simp add: upt_conv_Cons del: upt_Suc)
  have IH: "lcs_row (l ! i) (drop (Suc k) r) (map (lcs_len l r i) [Suc k..<Suc (length r)])
      (lcs_len l r (Suc i) (Suc k)) = map (lcs_len l r (Suc i)) [Suc (Suc k)..<Suc (length r)]"
    using Suc k by (intro Suc.hyps(1)) simp_all
  have "[Suc k..<Suc (length r)] = Suc k # [Suc (Suc k)..<Suc (length r)]"
    using k by (simp add: upt_conv_Cons)
  then show ?case using IH unfolding d up by (simp add: Let_def)
qed

lemma lcs_rows_len:
  assumes "i \<le> length l"
  shows "lcs_rows (drop i l) r (map (lcs_len l r i) [0..<Suc (length r)]) =
    map (\<lambda>i. map (lcs_len l r i) [0..<Suc (length r)]) [i..<Suc (length l)]"
  using assms
proof (induction "length l - i" arbitrary: i)
  case 0
  then show ?case by simp
next
  case (Suc n)
  then have i: "i < length l" by simp
  have d: "drop i l = l ! i # drop (Suc i) l" using i by (simp add: Cons_nth_drop_Suc)
  have "0 # lcs_row (l ! i) r (map (lcs_len l r i) [0..<Suc (length r)]) 0 =
      map (lcs_len l r (Suc i)) [0..<Suc (length r)]"
    using lcs_row_len [OF i, of 0 r] by (simp add: upt_conv_Cons del: upt_Suc)
  moreover have "lcs_rows (drop (Suc i) l) r (map (lcs_len l r (Suc i)) [0..<Suc (length r)]) =
      map (\<lambda>i. map (lcs_len l r i) [0..<Suc (length r)]) [Suc i..<Suc (length l)]"
    using Suc i by (intro Suc.hyps(1)) simp_all
  moreover have "[i..<Suc (length l)] = i # [Suc i..<Suc (length l)]" using i by (simp add: upt_conv_Cons)
  ultimately show ?case unfolding d by (simp del: upt_Suc)
qed

lemma lcs_table_nth:
  assumes "i \<le> length l" "j \<le> length r"
  shows "lcs_table l r ! i ! j = lcs_len l r i j"
proof -
  have "replicate (length r + 1) 0 = map (lcs_len l r 0) [0..<Suc (length r)]"
    by (rule nth_equalityI) (simp_all add: nth_Cons' del: upt_Suc)
  then have "lcs_table l r = map (\<lambda>i. map (lcs_len l r i) [0..<Suc (length r)]) [0..<Suc (length l)]"
    using lcs_rows_len [of 0 l r] by (simp add: lcs_table_def)
  then show ?thesis using assms by (simp del: upt_Suc)
qed

subsection \<open>The walk is a common subsequence, and none is longer\<close>

lemma subseq_snoc:
  "subseq zs (xs @ [a]) \<longleftrightarrow> subseq zs xs \<or> (\<exists>us. zs = us @ [a] \<and> subseq us xs)"
proof
  assume "subseq zs (xs @ [a])"
  then obtain us vs where uv: "zs = us @ vs" "subseq us xs" "subseq vs [a]"
    by (auto simp: subseq_append_iff)
  then have "vs = [] \<or> vs = [a]" by (cases vs) (auto split: if_splits)
  then show "subseq zs xs \<or> (\<exists>us. zs = us @ [a] \<and> subseq us xs)" using uv(1,2) by auto
qed (auto intro: subseq_rev_drop_many list_emb_append_mono)

lemma take_Suc_snoc: "i < length l \<Longrightarrow> take (Suc i) l = take i l @ [l ! i]"
  by (simp add: take_Suc_conv_app_nth)

lemma lcs_walk_spec:
  assumes "i \<le> length l" "j \<le> length r"
  shows "\<exists>ks. lcs_walk l r (lcs_table l r) i j kept = ks @ kept \<and> subseq ks (take i l) \<and>
    subseq ks (take j r) \<and> length ks = lcs_len l r i j"
  using assms
proof (induction "i + j" arbitrary: i j kept rule: less_induct)
  case less
  show ?case
  proof (cases "i = 0 \<or> j = 0")
    case True
    then have "lcs_walk l r (lcs_table l r) i j kept = kept" by (simp add: lcs_walk.simps [of l r _ i j])
    moreover have "lcs_len l r i j = 0" using True by (cases i) auto
    ultimately show ?thesis by simp
  next
    case False
    then obtain i' j' where ij: "i = Suc i'" "j = Suc j'" by (metis not0_implies_Suc)
    have lt: "i' < length l" "j' < length r" using less.prems ij by simp_all
    note t = take_Suc_snoc [OF lt(1)] take_Suc_snoc [OF lt(2)]
    have tab: "lcs_table l r ! i ! j' = lcs_len l r i j'" "lcs_table l r ! i' ! j = lcs_len l r i' j"
      using lt ij by (simp_all add: lcs_table_nth)
    note w = lcs_walk.simps [of l r "lcs_table l r" "Suc i'" "Suc j'" kept]
    consider "l ! i' = r ! j'" | "l ! i' \<noteq> r ! j'" "lcs_len l r i j' \<le> lcs_len l r i' j"
      | "l ! i' \<noteq> r ! j'" "\<not> lcs_len l r i j' \<le> lcs_len l r i' j" by blast
    then show ?thesis
    proof cases
      case 1
      obtain ks where "lcs_walk l r (lcs_table l r) i' j' (l ! i' # kept) = ks @ l ! i' # kept"
        "subseq ks (take i' l)" "subseq ks (take j' r)" "length ks = lcs_len l r i' j'"
        using less.hyps [of i' j' "l ! i' # kept"] lt ij by auto
      then show ?thesis using 1 ij t
        by (intro exI [of _ "ks @ [l ! i']"]) (auto simp: w subseq_snoc)
    next
      case 2
      then show ?thesis using less.hyps [of i' j kept] lt ij t tab less.prems
        by (auto simp: w subseq_snoc)
    next
      case 3
      then show ?thesis using less.hyps [of i j' kept] lt ij t tab less.prems
        by (auto simp: w subseq_snoc)
    qed
  qed
qed

lemma lcs_len_max:
  "\<lbrakk>i \<le> length l; j \<le> length r; subseq zs (take i l); subseq zs (take j r)\<rbrakk> \<Longrightarrow> length zs \<le> lcs_len l r i j"
proof (induction l r i j arbitrary: zs rule: lcs_len.induct)
  case (3 l r i j)
  then have lt: "i < length l" "j < length r" by simp_all
  have z: "subseq zs (take i l) \<or> (\<exists>us. zs = us @ [l ! i] \<and> subseq us (take i l))"
    "subseq zs (take j r) \<or> (\<exists>us. zs = us @ [r ! j] \<and> subseq us (take j r))"
    using 3(6,7) lt by (simp_all add: take_Suc_snoc subseq_snoc)
  show ?case
  proof (cases "l ! i = r ! j")
    case True
    have "subseq (butlast zs) (take i l)" "subseq (butlast zs) (take j r)"
      using z by (auto intro: subseq_order.order_trans [rotated] prefix_imp_subseq simp: prefixeq_butlast)
    then have "length (butlast zs) \<le> lcs_len l r i j" using True lt by (intro 3(1)) simp_all
    then show ?thesis using True by simp
  next
    case False
    then have "subseq zs (take i l) \<and> subseq zs (take (Suc j) r) \<or> subseq zs (take j r) \<and> subseq zs (take (Suc i) l)"
      using z 3(6,7) by auto
    then show ?thesis using 3(2) [OF False, of zs] 3(3) [OF False, of zs] lt False by auto
  qed
qed simp_all

text \<open>The kept values, in order: a common subsequence of greatest length.\<close>

lemma longest_common_subsequence_spec:
  obtains ks where "longest_common_subsequence l r = set ks" "subseq ks l" "subseq ks r"
    "\<And>zs. subseq zs l \<Longrightarrow> subseq zs r \<Longrightarrow> length zs \<le> length ks"
proof -
  obtain ks where ks: "lcs_walk l r (lcs_table l r) (length l) (length r) [] = ks @ []"
    "subseq ks (take (length l) l)" "subseq ks (take (length r) r)" "length ks = lcs_len l r (length l) (length r)"
    using lcs_walk_spec [of "length l" l "length r" r "[]"] by auto
  show ?thesis
  proof (rule that [of ks])
    show "length zs \<le> length ks" if "subseq zs l" "subseq zs r" for zs
      using lcs_len_max [of "length l" l "length r" r zs] that ks(4) by simp
  qed (use ks in \<open>simp_all add: longest_common_subsequence_def\<close>)
qed

section \<open>The diff accounts for every difference\<close>

lemma subseq_filter_distinct:
  "subseq ks xs \<Longrightarrow> distinct xs \<Longrightarrow> filter (\<lambda>x. x \<in> set ks) xs = ks"
proof (induction ks xs rule: list_emb.induct)
  case (list_emb_Nil ys)
  then show ?case by simp
next
  case (list_emb_Cons xs ys y)
  have "set xs \<subseteq> set ys" using list_emb_Cons.hyps(1) by (auto elim: list_emb_set)
  then have "y \<notin> set xs" using list_emb_Cons.prems by auto
  then show ?case using list_emb_Cons by simp
next
  case (list_emb_Cons2 x y xs ys)
  then have "filter (\<lambda>z. z \<in> set (x # xs)) ys = filter (\<lambda>z. z \<in> set xs) ys"
    by (intro filter_cong) auto
  then show ?case using list_emb_Cons2 by simp
qed

lemma map_of_rev_distinct: "distinct (map fst xs) \<Longrightarrow> map_of (rev xs) = map_of xs"
  by (simp add: map_of_inject_set rev_map [symmetric])

lemma content_keys: "fst ` set (content_items ct) = c_id ` set (ct_clips ct) \<union> g_id ` set (ct_bgm ct)"
  by (simp add: content_items_def image_Un image_image)

lemma valid_ids_apart:
  "valid_content ct \<Longrightarrow> valid_content ct' \<Longrightarrow> c \<in> set (ct_clips ct) \<Longrightarrow> g \<in> set (ct_bgm ct') \<Longrightarrow> c_id c \<noteq> g_id g"
  using valid_id_prefix [of "CHR ''c''" "c_id c"] valid_id_prefix [of "CHR ''b''" "g_id g"]
  by (auto simp: valid_content_def valid_clip_def valid_bgm_def list_all_iff)

lemma content_dict_clip:
  assumes "valid_content ct" "c \<in> set (ct_clips ct)"
  shows "content_dict ct (c_id c) = Some (Inl c)"
proof -
  have "distinct (map fst (content_items ct))"
    using assms(1) valid_ids_apart [OF assms(1) assms(1)]
    by (auto simp: content_items_def valid_content_def unique_content_def comp_def)
  moreover have "(c_id c, Inl c) \<in> set (content_items ct)" using assms(2) by (auto simp: content_items_def)
  ultimately show ?thesis by (simp add: content_dict_def map_of_rev_distinct)
qed

text \<open>The ids outside the changed ones: the same ones, in the same order.\<close>

lemma unchanged_ids:
  assumes v: "valid_content before" "valid_content after" and ch: "cd_changed (diff_content before after) \<subseteq> ch"
  shows "filter (\<lambda>i. i \<notin> ch) (map c_id (ct_clips before)) = filter (\<lambda>i. i \<notin> ch) (map c_id (ct_clips after))"
    (is "filter _ ?B = filter _ ?A")
proof -
  let ?ok = "set (map fst (content_items before))" and ?nk = "set (map fst (content_items after))"
  let ?cb = "filter (\<lambda>i. i \<in> ?nk) ?B" and ?ca = "filter (\<lambda>i. i \<in> ?ok) ?A"
  have dist: "distinct ?B" "distinct ?A" using v by (simp_all add: valid_content_def unique_content_def)
  obtain ks where ks: "longest_common_subsequence ?cb ?ca = set ks" "subseq ks ?cb" "subseq ks ?ca"
    by (rule longest_common_subsequence_spec [of ?cb ?ca])
  have kb: "filter (\<lambda>i. i \<in> set ks) ?cb = ks"
    by (rule subseq_filter_distinct [OF ks(2)]) (use dist in simp)
  have ka: "filter (\<lambda>i. i \<in> set ks) ?ca = ks"
    by (rule subseq_filter_distinct [OF ks(3)]) (use dist in simp)
  have mv: "cd_moved (diff_content before after) = set (filter (\<lambda>i. i \<notin> set ks) ?cb)"
    unfolding diff_content_def Let_def content_diff.simps ks(1) by (rule refl)
  have moved: "i \<in> set ks" if "i \<in> set ?cb" "i \<notin> ch" for i
    using that ch unfolding cd_changed_def mv by (simp only: set_filter) blast
  have sets: "?nk - ?ok \<subseteq> ch" "?ok - ?nk \<subseteq> ch"
    using ch by (auto simp: cd_changed_def diff_content_def Let_def)
  have "set ?B \<subseteq> ?ok" "set ?A \<subseteq> ?nk" by (auto simp: content_keys)
  then have keys: "i \<in> set ?B \<Longrightarrow> i \<notin> ch \<Longrightarrow> i \<in> ?nk" and keys': "i \<in> set ?A \<Longrightarrow> i \<notin> ch \<Longrightarrow> i \<in> ?ok" for i
    using sets by blast+
  have "filter (\<lambda>i. i \<notin> ch) ?B = filter (\<lambda>i. i \<notin> ch) (filter (\<lambda>i. i \<in> set ks) ?cb)"
    using moved keys by (auto intro: filter_cong)
  moreover have "filter (\<lambda>i. i \<notin> ch) ?A = filter (\<lambda>i. i \<notin> ch) (filter (\<lambda>i. i \<in> set ks) ?ca)"
  proof -
    have "i \<in> set ks" if "i \<in> set ?A" "i \<notin> ch" for i
    proof -
      have "i \<in> set ?B"
        using keys' [OF that] that(1) valid_ids_apart [OF v(2,1)] by (auto simp: content_keys)
      then show ?thesis using moved [of i] keys [of i] that by auto
    qed
    then show ?thesis using keys' by (auto intro: filter_cong)
  qed
  ultimately show ?thesis by (simp only: kb ka)
qed

lemma unchanged_clips:
  assumes v: "valid_content before" "valid_content after" and ch: "cd_changed (diff_content before after) \<subseteq> ch"
  shows "filter (\<lambda>c. c_id c \<notin> ch) (ct_clips before) = filter (\<lambda>c. c_id c \<notin> ch) (ct_clips after)"
    (is "?fb = ?fa")
proof (rule nth_equalityI)
  have ids: "map c_id ?fb = map c_id ?fa"
    using unchanged_ids [OF assms] by (simp add: filter_map comp_def)
  then show len: "length ?fb = length ?fa" by (metis length_map)
  fix p
  assume p: "p < length ?fb"
  have id: "c_id (?fb ! p) = c_id (?fa ! p)" using arg_cong [OF ids, of "\<lambda>l. l ! p"] p len by simp
  have x: "?fb ! p \<in> set (ct_clips before)" "c_id (?fb ! p) \<notin> ch" using nth_mem [OF p] by auto
  have y: "?fa ! p \<in> set (ct_clips after)" using nth_mem [of p ?fa] p len by auto
  have "content_dict before i = content_dict after i"
    if "i \<in> fst ` set (content_items before)" "i \<in> fst ` set (content_items after)" "i \<notin> ch" for i
    using that ch by (auto simp: cd_changed_def diff_content_def Let_def)
  moreover have "c_id (?fb ! p) \<in> fst ` set (content_items before)"
    using imageI [OF x(1), of c_id] unfolding content_keys by (rule UnI1)
  moreover have "c_id (?fb ! p) \<in> fst ` set (content_items after)"
    using imageI [OF y, of c_id] unfolding content_keys id by (rule UnI1)
  ultimately have "content_dict before (c_id (?fb ! p)) = content_dict after (c_id (?fb ! p))"
    using x(2) by blast
  also have "\<dots> = Some (Inl (?fa ! p))" unfolding id by (rule content_dict_clip [OF v(2) y])
  finally show "?fb ! p = ?fa ! p" by (simp only: content_dict_clip [OF v(1) x(1)] option.inject sum.inject)
qed

lemma content_dict_bgm:
  assumes "valid_content ct" "g \<in> set (ct_bgm ct)"
  shows "content_dict ct (g_id g) = Some (Inr g)"
proof -
  have "distinct (map fst (content_items ct))"
    using assms(1) valid_ids_apart [OF assms(1) assms(1)]
    by (auto simp: content_items_def valid_content_def unique_content_def comp_def)
  moreover have "(g_id g, Inr g) \<in> set (content_items ct)" using assms(2) by (auto simp: content_items_def)
  ultimately show ?thesis by (simp add: content_dict_def map_of_rev_distinct)
qed

lemma content_dict_SomeD:
  "content_dict ct i = Some (Inr g) \<Longrightarrow> g \<in> set (ct_bgm ct) \<and> g_id g = i"
  by (auto simp: content_dict_def content_items_def dest!: map_of_SomeD)

lemma unchanged_bgm:
  assumes v: "valid_content before" "valid_content after" and ch: "cd_changed (diff_content before after) \<subseteq> ch"
    and g: "g_id g \<notin> ch"
  shows "g \<in> set (ct_bgm before) \<longleftrightarrow> g \<in> set (ct_bgm after)"
proof -
  let ?ok = "fst ` set (content_items before)" and ?nk = "fst ` set (content_items after)"
  have sets: "?nk - ?ok \<subseteq> ch" "?ok - ?nk \<subseteq> ch"
    "\<And>i. i \<in> ?ok \<Longrightarrow> i \<in> ?nk \<Longrightarrow> i \<notin> ch \<Longrightarrow> content_dict before i = content_dict after i"
    using ch by (auto simp: cd_changed_def diff_content_def Let_def)
  show ?thesis
  proof
    assume b: "g \<in> set (ct_bgm before)"
    then have i: "g_id g \<in> ?ok" by (auto simp: content_keys)
    then have "g_id g \<in> ?nk" using sets(2) g by blast
    then have "content_dict after (g_id g) = Some (Inr g)"
      using sets(3) [OF i _ g] content_dict_bgm [OF v(1) b] by simp
    then show "g \<in> set (ct_bgm after)" using content_dict_SomeD by blast
  next
    assume a: "g \<in> set (ct_bgm after)"
    then have i: "g_id g \<in> ?nk" by (auto simp: content_keys)
    then have "g_id g \<in> ?ok" using sets(1) g by blast
    then have "content_dict before (g_id g) = Some (Inr g)"
      using sets(3) [OF _ i g] content_dict_bgm [OF v(2) a] by simp
    then show "g \<in> set (ct_bgm before)" using content_dict_SomeD by blast
  qed
qed

text \<open>C17: the function that decides which clips kept their order returns the elements of a longest
  common subsequence: they form, in order, a subsequence of both lists, and no common subsequence is
  longer.\<close>

theorem longest_common_subsequence_correct:
  "\<exists>ks. longest_common_subsequence left right = set ks \<and> subseq ks left \<and> subseq ks right \<and>
     (\<forall>zs. subseq zs left \<and> subseq zs right \<longrightarrow> length zs \<le> length ks)"
proof (rule longest_common_subsequence_spec [of left right])
  fix ks
  assume "longest_common_subsequence left right = set ks" "subseq ks left" "subseq ks right"
    and "\<And>zs. subseq zs left \<Longrightarrow> subseq zs right \<Longrightarrow> length zs \<le> length ks"
  then show ?thesis by (intro exI [of _ ks] conjI allI impI) simp_all
qed

theorem longest_common_subsequence_correct_witness:
  "\<exists>ks. longest_common_subsequence [1, 2, 3::nat] [2, 3, 1] = set ks \<and> 2 \<le> length ks"
proof -
  obtain ks where ks: "longest_common_subsequence [1, 2, 3::nat] [2, 3, 1] = set ks \<and>
      subseq ks [1, 2, 3] \<and> subseq ks [2, 3, 1] \<and>
      (\<forall>zs. subseq zs [1, 2, 3::nat] \<and> subseq zs [2, 3, 1] \<longrightarrow> length zs \<le> length ks)"
    using longest_common_subsequence_correct [of "[1, 2, 3::nat]" "[2, 3, 1]"] by (rule exE)
  then have "subseq [2, 3::nat] [1, 2, 3] \<and> subseq [2, 3::nat] [2, 3, 1] \<longrightarrow> length [2, 3::nat] \<le> length ks"
    by (elim conjE allE [of _ "[2, 3]"])
  then show ?thesis using ks by (intro exI [of _ ks]) simp
qed

text \<open>The diff of two valid contents, and the larger set a restore reports, account for every
  difference: the clips outside the set are the same in both contents and in the same order, and so
  are the BGM clips outside it.\<close>

theorem restore_changed_complete:
  assumes "valid_content before" "valid_content after"
    and "ids = cd_changed (diff_content before after) \<or> ids = restore_changed_clip_ids before after"
  shows "filter (\<lambda>c. c_id c \<notin> ids) (ct_clips before) = filter (\<lambda>c. c_id c \<notin> ids) (ct_clips after) \<and>
    (\<forall>g. g_id g \<notin> ids \<longrightarrow> g \<in> set (ct_bgm before) \<longleftrightarrow> g \<in> set (ct_bgm after))"
proof -
  have "cd_changed (diff_content before after) \<subseteq> ids"
    using assms(3) by (auto simp: restore_changed_clip_ids_def Let_def)
  then show ?thesis
    using unchanged_clips [OF assms(1,2)] unchanged_bgm [OF assms(1,2)] by blast
qed

theorem restore_changed_complete_witness:
  "let after = sample_content\<lparr>ct_clips := rev (ct_clips sample_content)\<rparr>;
       ids = restore_changed_clip_ids sample_content after
   in filter (\<lambda>c. c_id c \<notin> ids) (ct_clips sample_content) = filter (\<lambda>c. c_id c \<notin> ids) (ct_clips after)"
proof -
  have "valid_content (sample_content\<lparr>ct_clips := rev (ct_clips sample_content)\<rparr>)" by code_simp
  then show ?thesis unfolding Let_def by (intro restore_changed_complete [THEN conjunct1]) simp_all
qed

end
