(* ===== verification/Timeline_Store.thy ===== *)
theory Timeline_Store
  imports Timeline_Model
begin

text \<open>
  The file store of edit timelines (\<open>lib/edit_timeline/store.py\<close>). The state is the content of
  \<open>edit_timelines/\<close>: a dict from directory names to dicts from file stems to files, where a file is
  the document its JSON says (\<open>None\<close>: not JSON of that shape). Reading validates; writing replaces
  one file. The activity record and the change event that follow a write are not modelled.
\<close>

section \<open>A store of documents by key\<close>

text \<open>
  What a client of a store relies on. \<open>fits\<close> says that a value may be put: it is valid, and its key
  is not held elsewhere.
\<close>

locale keyed_store =
  fixes lookup :: "'s \<Rightarrow> 'k \<Rightarrow> 'v option"
    and put :: "'v \<Rightarrow> 's \<Rightarrow> 's"
    and remove :: "'v \<Rightarrow> 's \<Rightarrow> 's"
    and key :: "'v \<Rightarrow> 'k"
    and fits :: "'s \<Rightarrow> 'v \<Rightarrow> bool"
    and ok :: "'s \<Rightarrow> bool"
  assumes put_ok: "ok s \<Longrightarrow> fits s v \<Longrightarrow> ok (put v s)"
    and lookup_put: "ok s \<Longrightarrow> fits s v \<Longrightarrow> lookup (put v s) k = (if k = key v then Some v else lookup s k)"
    and remove_ok: "ok s \<Longrightarrow> fits s v \<Longrightarrow> ok (remove v s)"
    and lookup_remove: "ok s \<Longrightarrow> fits s v \<Longrightarrow> lookup (remove v s) k = (if k = key v then None else lookup s k)"
begin

lemma put_others: "ok s \<Longrightarrow> fits s v \<Longrightarrow> k \<noteq> key v \<Longrightarrow> lookup (put v s) k = lookup s k"
  by (simp add: lookup_put)

lemma put_same: "ok s \<Longrightarrow> fits s v \<Longrightarrow> lookup (put v s) (key v) = Some v"
  by (simp add: lookup_put)

text \<open>Writing again under the same key: the last write wins.\<close>

lemma put_put:
  assumes "ok s" "fits s v" "fits (put v s) w" "key w = key v"
  shows "lookup (put w (put v s)) k = (if k = key v then Some w else lookup s k)"
  using assms put_ok [OF assms(1,2)] by (simp add: lookup_put)

lemma remove_put:
  assumes "ok s" "fits s v" "fits (put v s) v" "lookup s (key v) = None"
  shows "lookup (remove v (put v s)) k = lookup s k"
  using assms put_ok [OF assms(1,2)] by (simp add: lookup_put lookup_remove)

end

section \<open>The state and the operations\<close>

type_synonym stored_file = "timeline_document option"
type_synonym episode_files = "(string \<times> stored_file) list"
type_synonym store = "(string \<times> episode_files) list"

definition parse_document :: "string \<Rightarrow> stored_file \<Rightarrow> exn + timeline_document" where
  "parse_document stem f =
     (case f of
        None \<Rightarrow> Inl (et_fail Timeline_invalid)
      | Some d \<Rightarrow> if \<not> valid_document d \<or> d_id d \<noteq> stem then Inl (et_fail Timeline_invalid) else Inr d)"

definition episode_dir :: "int \<Rightarrow> string" where
  "episode_dir n = ''episode_'' @ str_int n"

text \<open>\<open>number.isdigit()\<close> accepts superscript digits, which \<open>int\<close> rejects.\<close>

definition episode_number :: "string \<Rightarrow> exn + int option" where
  "episode_number name =
     (let (prefix, _, number) = py_partition CHR ''_'' name
      in if prefix = ''episode'' \<and> py_isdigit number
         then (case py_int number of
                 None \<Rightarrow> Inl Value_error
               | Some n \<Rightarrow> Inr (if 1 \<le> n then Some n else None))
         else Inr None)"

fun episode_dirs_of :: "string list \<Rightarrow> exn + (int \<times> string) list" where
  "episode_dirs_of [] = Inr []"
| "episode_dirs_of (name # names) =
     bindE (episode_number name) (\<lambda>n. bindE (episode_dirs_of names) (\<lambda>found.
       Inr (case n of None \<Rightarrow> found | Some k \<Rightarrow> (k, name) # found)))"

definition episode_dirs :: "store \<Rightarrow> exn + (int \<times> string) list" where
  "episode_dirs s = bindE (episode_dirs_of (map fst s)) (\<lambda>found. Inr (sort found))"

definition files_of :: "store \<Rightarrow> string \<Rightarrow> episode_files" where
  "files_of s dir = (case map_of s dir of None \<Rightarrow> [] | Some files \<Rightarrow> files)"

fun scan_files :: "bool \<Rightarrow> int \<Rightarrow> (string \<times> stored_file) list \<Rightarrow> exn + timeline_document list" where
  "scan_files strict number [] = Inr []"
| "scan_files strict number ((stem, f) # files) =
     (if \<not> is_timeline_id stem then scan_files strict number files
      else case parse_document stem f of
             Inl e \<Rightarrow> if strict then Inl e else scan_files strict number files
           | Inr d \<Rightarrow> bindE (scan_files strict number files) (\<lambda>ds.
               Inr (if d_episode d = number then d # ds else ds)))"

fun scan_dirs :: "store \<Rightarrow> int option \<Rightarrow> bool \<Rightarrow> (int \<times> string) list \<Rightarrow> exn + timeline_document list" where
  "scan_dirs s episode strict [] = Inr []"
| "scan_dirs s episode strict ((number, dir) # dirs) =
     (if episode \<noteq> None \<and> episode \<noteq> Some number then scan_dirs s episode strict dirs
      else bindE (scan_files strict number (sort_key fst (files_of s dir))) (\<lambda>ds.
           bindE (scan_dirs s episode strict dirs) (\<lambda>rest. Inr (ds @ rest))))"

definition list_documents :: "store \<Rightarrow> int option \<Rightarrow> bool \<Rightarrow> exn + timeline_document list" where
  "list_documents s episode strict =
     bindE (episode_dirs s) (\<lambda>dirs.
     bindE (scan_dirs s episode strict dirs) (\<lambda>ds.
       Inr (sort_key (\<lambda>d. (d_episode d, d_created_at d, d_id d)) ds)))"

definition has_documents :: "store \<Rightarrow> int \<Rightarrow> bool" where
  "has_documents s episode = list_ex (\<lambda>(stem, f). is_timeline_id stem) (files_of s (episode_dir episode))"

fun find_in :: "store \<Rightarrow> string \<Rightarrow> (int \<times> string) list \<Rightarrow> exn + timeline_document" where
  "find_in s tid [] = Inl (et_fail Timeline_not_found)"
| "find_in s tid ((number, dir) # dirs) =
     (case map_of (files_of s dir) tid of
        None \<Rightarrow> find_in s tid dirs
      | Some f \<Rightarrow> bindE (parse_document tid f) (\<lambda>d.
          if d_episode d \<noteq> number then Inl (et_fail Timeline_invalid) else Inr d))"

definition find_document :: "store \<Rightarrow> string \<Rightarrow> exn + timeline_document" where
  "find_document s tid =
     (if is_timeline_id tid then bindE (episode_dirs s) (find_in s tid)
      else Inl (et_fail Timeline_not_found))"

definition write_document :: "timeline_document \<Rightarrow> store \<Rightarrow> store" where
  "write_document d s =
     (let dir = episode_dir (d_episode d)
      in AList.update dir (AList.update (d_id d) (Some d) (files_of s dir)) s)"

definition delete_document :: "timeline_document \<Rightarrow> store \<Rightarrow> store" where
  "delete_document d s =
     (let dir = episode_dir (d_episode d)
      in if map_of s dir = None then s else AList.update dir (AList.delete (d_id d) (files_of s dir)) s)"

definition read_timeline_document :: "store \<Rightarrow> int \<Rightarrow> string \<Rightarrow> timeline_document option" where
  "read_timeline_document s episode tid =
     (if \<not> is_timeline_id tid then None
      else case map_of (files_of s (episode_dir episode)) tid of
             None \<Rightarrow> None
           | Some f \<Rightarrow>
               (case parse_document tid f of
                  Inl _ \<Rightarrow> None
                | Inr d \<Rightarrow> if d_episode d = episode then Some d else None))"

section \<open>Well-formed stores\<close>

text \<open>
  The shape the store's own operations keep: a directory has one entry per name, directory names are
  \<open>episode_N\<close> or no episode names at all, and a timeline id occurs in one episode only.
\<close>

definition file_at :: "store \<Rightarrow> int \<Rightarrow> string \<Rightarrow> stored_file option" where
  "file_at s n tid = map_of (files_of s (episode_dir n)) tid"

definition dict_ok :: "('k \<times> 'v) list \<Rightarrow> bool" where
  "dict_ok d = distinct (map fst d)"

definition store_ok :: "store \<Rightarrow> bool" where
  "store_ok s =
     (dict_ok s \<and> (\<forall>dir. dict_ok (files_of s dir)) \<and>
      (\<forall>dir\<in>keys s. (\<exists>n\<ge>1. dir = episode_dir n) \<or> episode_number dir = Inr None) \<and>
      (\<forall>m n tid. 1 \<le> m \<and> 1 \<le> n \<and> file_at s m tid \<noteq> None \<and> file_at s n tid \<noteq> None \<longrightarrow> m = n))"

definition document_fits :: "store \<Rightarrow> timeline_document \<Rightarrow> bool" where
  "document_fits s d =
     (valid_document d \<and> (\<forall>n\<ge>1. file_at s n (d_id d) \<noteq> None \<longrightarrow> n = d_episode d))"

definition lookup_document :: "store \<Rightarrow> string \<Rightarrow> timeline_document option" where
  "lookup_document s tid = (case find_document s tid of Inl _ \<Rightarrow> None | Inr d \<Rightarrow> Some d)"

lemma store_okD:
  "store_ok s \<Longrightarrow> 1 \<le> m \<Longrightarrow> 1 \<le> n \<Longrightarrow> file_at s m tid \<noteq> None \<Longrightarrow> file_at s n tid \<noteq> None \<Longrightarrow> m = n"
  unfolding store_ok_def by blast

lemma store_ok_dicts: "store_ok s \<Longrightarrow> dict_ok s \<and> dict_ok (files_of s dir)"
  unfolding store_ok_def by blast

lemma dict_ok_update [simp]: "dict_ok d \<Longrightarrow> dict_ok (AList.update k v d)"
  unfolding dict_ok_def by (rule AList.distinct_update)

lemma dict_ok_delete [simp]: "dict_ok d \<Longrightarrow> dict_ok (AList.delete k d)"
  unfolding dict_ok_def by (rule AList.distinct_delete)

lemma store_okI:
  assumes "dict_ok s" "\<And>dir. dict_ok (files_of s dir)"
    and "\<And>dir. dir \<in> keys s \<Longrightarrow> (\<exists>n\<ge>1. dir = episode_dir n) \<or> episode_number dir = Inr None"
    and "\<And>m n tid. 1 \<le> m \<Longrightarrow> 1 \<le> n \<Longrightarrow> file_at s m tid \<noteq> None \<Longrightarrow> file_at s n tid \<noteq> None \<Longrightarrow> m = n"
  shows "store_ok s"
  using assms unfolding store_ok_def by blast

lemma store_ok_dirs:
  "store_ok s \<Longrightarrow> dir \<in> keys s \<Longrightarrow> (\<exists>n\<ge>1. dir = episode_dir n) \<or> episode_number dir = Inr None"
  unfolding store_ok_def by blast

lemma str_int_nonneg: "0 \<le> n \<Longrightarrow> str_int n = str_nat (nat n)"
  by (simp add: str_int_def)

lemma episode_dir_inject: "0 \<le> m \<Longrightarrow> 0 \<le> n \<Longrightarrow> episode_dir m = episode_dir n \<longleftrightarrow> m = n"
  by (simp add: episode_dir_def str_int_nonneg str_nat_inject eq_nat_nat_iff)

lemma episode_number_dir: "1 \<le> n \<Longrightarrow> episode_number (episode_dir n) = Inr (Some n)"
proof -
  assume n: "1 \<le> n"
  have "py_partition CHR ''_'' (''episode'' @ CHR ''_'' # str_int n) = (''episode'', True, str_int n)"
    by (rule py_partition_prefix) simp
  then show ?thesis using n by (simp add: episode_number_def episode_dir_def str_int_nonneg)
qed

lemma episode_dirs_ok:
  assumes "store_ok s"
  obtains dirs where "episode_dirs s = Inr dirs" "set dirs = {(n, episode_dir n) | n. 1 \<le> n \<and> episode_dir n \<in> keys s}"
proof -
  have "\<exists>dirs. episode_dirs_of names = Inr dirs \<and> set dirs = {(n, episode_dir n) | n. 1 \<le> n \<and> episode_dir n \<in> set names}"
    if "\<forall>dir\<in>set names. (\<exists>n\<ge>1. dir = episode_dir n) \<or> episode_number dir = Inr None" for names
    using that
  proof (induction names)
    case Nil
    then show ?case by simp
  next
    case (Cons name names)
    then obtain dirs where dirs: "episode_dirs_of names = Inr dirs"
      "set dirs = {(n, episode_dir n) | n. 1 \<le> n \<and> episode_dir n \<in> set names}" by auto
    show ?case
    proof (cases "episode_number name = Inr None")
      case True
      then have "episode_dir n \<noteq> name" if "1 \<le> n" for n using episode_number_dir [OF that] by auto
      then show ?thesis using True dirs by auto
    next
      case False
      then obtain n where "1 \<le> n" "name = episode_dir n" using Cons.prems by auto
      then show ?thesis using dirs by (auto simp: episode_number_dir episode_dir_inject)
    qed
  qed
  note ex = this
  have names: "set (map fst s) = keys s" by (simp add: keys_def)
  have "\<forall>dir\<in>set (map fst s). (\<exists>n\<ge>1. dir = episode_dir n) \<or> episode_number dir = Inr None"
    unfolding names using store_ok_dirs [OF assms] by blast
  from ex [OF this] obtain dirs where "episode_dirs_of (map fst s) = Inr dirs"
    "set dirs = {(n, episode_dir n) | n. 1 \<le> n \<and> episode_dir n \<in> keys s}"
    unfolding names by (elim exE conjE)
  then show ?thesis by (intro that [of "sort dirs"]) (simp_all add: episode_dirs_def)
qed

lemma files_of_Nil: "dir \<notin> keys s \<Longrightarrow> files_of s dir = []"
  using map_of_eq_None_keys [of s dir] by (simp add: files_of_def)

text \<open>Looking a document up in a well-formed store.\<close>

lemma find_in_none:
  "(\<And>n dir. (n, dir) \<in> set dirs \<Longrightarrow> map_of (files_of s dir) tid = None) \<Longrightarrow>
     find_in s tid dirs = Inl (et_fail Timeline_not_found)"
proof (induction dirs)
  case (Cons p dirs)
  then show ?case using Cons.prems [of "fst p" "snd p"] by (cases p) auto
qed simp

lemma find_in_one:
  assumes "(n, dir) \<in> set dirs" "map_of (files_of s dir) tid = Some f"
    and "\<And>m dir'. (m, dir') \<in> set dirs \<Longrightarrow> map_of (files_of s dir') tid \<noteq> None \<Longrightarrow> m = n \<and> dir' = dir"
  shows "find_in s tid dirs = bindE (parse_document tid f) (\<lambda>d.
     if d_episode d \<noteq> n then Inl (et_fail Timeline_invalid) else Inr d)"
  using assms
proof (induction dirs)
  case Nil
  then show ?case by simp
next
  case (Cons p dirs)
  obtain m d where p: "p = (m, d)" by (cases p)
  show ?case
  proof (cases "map_of (files_of s d) tid")
    case None
    then have "(n, dir) \<in> set dirs" using Cons.prems(1,2) p by auto
    moreover have "m = n \<and> dir' = dir" if "(m, dir') \<in> set dirs" "map_of (files_of s dir') tid \<noteq> None" for m dir'
      using Cons.prems(3) [of m dir'] that by simp
    ultimately have "find_in s tid dirs = bindE (parse_document tid f) (\<lambda>d.
       if d_episode d \<noteq> n then Inl (et_fail Timeline_invalid) else Inr d)"
      using Cons.prems(2) by (intro Cons.IH)
    then show ?thesis using None p by simp
  next
    case (Some g)
    then have "m = n \<and> d = dir" using Cons.prems(3) [of m d] p by simp
    then show ?thesis using Some Cons.prems(2) p by simp
  qed
qed

lemma find_document_eq:
  assumes "store_ok s" "is_timeline_id tid" "1 \<le> n" "file_at s n tid = Some f"
  shows "find_document s tid = bindE (parse_document tid f) (\<lambda>d.
     if d_episode d \<noteq> n then Inl (et_fail Timeline_invalid) else Inr d)"
proof -
  obtain dirs where dirs: "episode_dirs s = Inr dirs"
    "set dirs = {(n, episode_dir n) | n. 1 \<le> n \<and> episode_dir n \<in> keys s}"
    by (rule episode_dirs_ok [OF assms(1)])
  have "episode_dir n \<in> keys s"
    using assms(4) files_of_Nil [of "episode_dir n" s] by (cases "episode_dir n \<in> keys s") (auto simp: file_at_def)
  then have "(n, episode_dir n) \<in> set dirs" using dirs(2) assms(3) by auto
  moreover have "m = n \<and> dir = episode_dir n" if "(m, dir) \<in> set dirs" "map_of (files_of s dir) tid \<noteq> None" for m dir
    using that dirs(2) assms(3,4) store_okD [OF assms(1), of m n tid] by (auto simp: file_at_def)
  ultimately have "find_in s tid dirs = bindE (parse_document tid f) (\<lambda>d.
     if d_episode d \<noteq> n then Inl (et_fail Timeline_invalid) else Inr d)"
    using assms(4) unfolding file_at_def by (intro find_in_one)
  then show ?thesis using assms(2) dirs(1) by (simp add: find_document_def)
qed

lemma find_document_none:
  assumes "store_ok s" "\<And>n. 1 \<le> n \<Longrightarrow> file_at s n tid = None"
  shows "find_document s tid = Inl (et_fail Timeline_not_found)"
proof -
  obtain dirs where dirs: "episode_dirs s = Inr dirs"
    "set dirs = {(n, episode_dir n) | n. 1 \<le> n \<and> episode_dir n \<in> keys s}"
    by (rule episode_dirs_ok [OF assms(1)])
  then have "find_in s tid dirs = Inl (et_fail Timeline_not_found)"
    using assms(2) by (intro find_in_none) (auto simp: file_at_def)
  then show ?thesis using dirs(1) by (simp add: find_document_def)
qed

lemma parse_document_Inr: "parse_document tid f = Inr d \<longleftrightarrow> f = Some d \<and> valid_document d \<and> d_id d = tid"
  by (auto simp: parse_document_def split: option.splits)

lemma find_document_Inr_iff:
  assumes "store_ok s"
  shows "find_document s tid = Inr d \<longleftrightarrow>
    valid_document d \<and> d_id d = tid \<and> file_at s (d_episode d) tid = Some (Some d)"
proof
  assume l: "find_document s tid = Inr d"
  then have tid: "is_timeline_id tid" by (simp add: find_document_def split: if_splits)
  obtain n f where nf: "1 \<le> n" "file_at s n tid = Some f"
    using l find_document_none [OF assms, of tid] by fastforce
  show "valid_document d \<and> d_id d = tid \<and> file_at s (d_episode d) tid = Some (Some d)"
    using l nf unfolding find_document_eq [OF assms tid nf]
    by (auto simp: bindE_Inr_iff parse_document_Inr split: if_splits)
next
  assume r: "valid_document d \<and> d_id d = tid \<and> file_at s (d_episode d) tid = Some (Some d)"
  then have "is_timeline_id tid" "1 \<le> d_episode d" by (auto simp: valid_document_def document_fields_ok_def)
  then show "find_document s tid = Inr d"
    using find_document_eq [OF assms, of tid "d_episode d" "Some d"] r by (simp add: parse_document_def)
qed

lemma lookup_document_find: "lookup_document s tid = Some d \<longleftrightarrow> find_document s tid = Inr d"
  by (auto simp: lookup_document_def split: sum.splits)

lemma lookup_document_iff:
  assumes "store_ok s"
  shows "lookup_document s tid = Some d \<longleftrightarrow>
    valid_document d \<and> d_id d = tid \<and> file_at s (d_episode d) tid = Some (Some d)"
  using find_document_Inr_iff [OF assms] lookup_document_find by simp

section \<open>The store is a keyed store\<close>

lemma files_of_update: "files_of (AList.update dir fs s) dir' = (if dir' = dir then fs else files_of s dir')"
  by (simp add: files_of_def)

lemma file_at_write:
  assumes "1 \<le> n" "1 \<le> d_episode d"
  shows "file_at (write_document d s) n tid =
    (if n = d_episode d \<and> tid = d_id d then Some (Some d) else file_at s n tid)"
  using assms by (auto simp: file_at_def write_document_def files_of_def Let_def episode_dir_inject)

lemma file_at_delete:
  assumes "1 \<le> n" "1 \<le> d_episode d"
  shows "file_at (delete_document d s) n tid =
    (if n = d_episode d \<and> tid = d_id d then None else file_at s n tid)"
  using assms
  by (auto simp: file_at_def delete_document_def files_of_def Let_def episode_dir_inject AList.delete_conv'
      split: option.splits)

lemma valid_document_simps: "valid_document d \<Longrightarrow> 1 \<le> d_episode d \<and> is_timeline_id (d_id d)"
  by (simp add: valid_document_def document_fields_ok_def)

lemma document_fitsD:
  "document_fits s d \<Longrightarrow> valid_document d \<and> 1 \<le> d_episode d"
  "document_fits s d \<Longrightarrow> 1 \<le> n \<Longrightarrow> file_at s n (d_id d) \<noteq> None \<Longrightarrow> n = d_episode d"
  using valid_document_simps by (auto simp: document_fits_def)

lemma write_ok:
  assumes "store_ok s" "document_fits s d"
  shows "store_ok (write_document d s)"
proof (rule store_okI)
  have e: "1 \<le> d_episode d" using document_fitsD(1) [OF assms(2)] by simp
  show "dict_ok (write_document d s)" "dict_ok (files_of (write_document d s) dir)" for dir
    using store_ok_dicts [OF assms(1)] by (simp_all add: write_document_def files_of_update Let_def)
  show "(\<exists>n\<ge>1. dir = episode_dir n) \<or> episode_number dir = Inr None" if "dir \<in> keys (write_document d s)" for dir
    using that e store_ok_dirs [OF assms(1)] by (auto simp: write_document_def Let_def)
  have home: "k = d_episode d" if "1 \<le> k" "file_at (write_document d s) k (d_id d) \<noteq> None" for k
    using that e document_fitsD(2) [OF assms(2), of k] by (simp add: file_at_write split: if_splits)
  have old: "file_at s k tid \<noteq> None" if "1 \<le> k" "file_at (write_document d s) k tid \<noteq> None" "tid \<noteq> d_id d" for k tid
    using that e by (simp add: file_at_write)
  show "m = n" if "1 \<le> m" "1 \<le> n" "file_at (write_document d s) m tid \<noteq> None"
    "file_at (write_document d s) n tid \<noteq> None" for m n tid
  proof (cases "tid = d_id d")
    case True
    then have "m = d_episode d" "n = d_episode d" using home that by blast+
    then show ?thesis by simp
  next
    case False
    then show ?thesis using store_okD [OF assms(1) that(1,2) old old] that by simp
  qed
qed

lemma delete_ok:
  assumes "store_ok s" "document_fits s d"
  shows "store_ok (delete_document d s)"
proof (rule store_okI)
  have e: "1 \<le> d_episode d" using document_fitsD(1) [OF assms(2)] by simp
  show "dict_ok (delete_document d s)" "dict_ok (files_of (delete_document d s) dir)" for dir
    using store_ok_dicts [OF assms(1)] by (simp_all add: delete_document_def files_of_update Let_def)
  have "keys (delete_document d s) = keys s"
    by (auto simp: delete_document_def Let_def map_of_eq_None_keys)
  then show "(\<exists>n\<ge>1. dir = episode_dir n) \<or> episode_number dir = Inr None" if "dir \<in> keys (delete_document d s)" for dir
    using that store_ok_dirs [OF assms(1)] by simp
  show "m = n" if "1 \<le> m" "1 \<le> n" "file_at (delete_document d s) m tid \<noteq> None"
    "file_at (delete_document d s) n tid \<noteq> None" for m n tid
    using that e by (intro store_okD [OF assms(1), of m n tid]) (auto simp: file_at_delete split: if_splits)
qed

lemma option_eqI: "(\<And>x. a = Some x \<longleftrightarrow> b = Some x) \<Longrightarrow> a = b"
  by (cases a; cases b) auto

interpretation docs: keyed_store lookup_document write_document delete_document d_id document_fits store_ok
proof
  fix s d k
  assume s: "store_ok s" and f: "document_fits s d"
  note w = write_ok [OF s f] and r = delete_ok [OF s f] and v = document_fitsD(1) [OF f]
  have e: "valid_document x \<Longrightarrow> 1 \<le> d_episode x" for x using valid_document_simps by blast
  have same: "d_episode x = d_episode d \<or> file_at s (d_episode x) (d_id d) = None" if "valid_document x" for x
    using document_fitsD(2) [OF f] e [OF that] by blast
  show "store_ok (write_document d s)" "store_ok (delete_document d s)" by (rule w, rule r)
  show "lookup_document (write_document d s) k = (if k = d_id d then Some d else lookup_document s k)"
  proof (rule option_eqI)
    fix x
    show "lookup_document (write_document d s) k = Some x \<longleftrightarrow>
        (if k = d_id d then Some d else lookup_document s k) = Some x"
    proof (cases "k = d_id d")
      case True
      have "file_at (write_document d s) (d_episode x) (d_id d) =
          (if d_episode x = d_episode d then Some (Some d) else None)" if "valid_document x"
        using same [OF that] e [OF that] v by (auto simp: file_at_write)
      then show ?thesis using True v by (auto simp: lookup_document_iff [OF w] split: if_splits)
    next
      case False
      then show ?thesis using v
        by (auto simp: lookup_document_iff [OF w] lookup_document_iff [OF s] file_at_write dest: e)
    qed
  qed
  show "lookup_document (delete_document d s) k = (if k = d_id d then None else lookup_document s k)"
  proof (rule option_eqI)
    fix x
    show "lookup_document (delete_document d s) k = Some x \<longleftrightarrow>
        (if k = d_id d then None else lookup_document s k) = Some x"
    proof (cases "k = d_id d")
      case True
      have "file_at (delete_document d s) (d_episode x) (d_id d) = None" if "valid_document x"
        using same [OF that] e [OF that] v by (auto simp: file_at_delete)
      then show ?thesis using True by (auto simp: lookup_document_iff [OF r])
    next
      case False
      then show ?thesis using v
        by (auto simp: lookup_document_iff [OF r] lookup_document_iff [OF s] file_at_delete dest: e)
    qed
  qed
qed

section \<open>Listing\<close>

definition docs_in :: "int \<Rightarrow> (string \<times> stored_file) list \<Rightarrow> timeline_document set" where
  "docs_in n fs = {d. \<exists>stem f. (stem, f) \<in> set fs \<and> is_timeline_id stem \<and> parse_document stem f = Inr d \<and> d_episode d = n}"

lemma docs_in_Cons:
  "docs_in n ((stem, f) # fs) =
     (if is_timeline_id stem then {d. parse_document stem f = Inr d \<and> d_episode d = n} else {}) \<union> docs_in n fs"
  by (auto simp: docs_in_def)

lemma docs_in_sort [simp]: "docs_in n (sort_key fst fs) = docs_in n fs"
  by (simp add: docs_in_def)

lemma scan_files_set: "\<exists>ds. scan_files False n fs = Inr ds \<and> set ds = docs_in n fs"
proof (induction fs)
  case Nil
  then show ?case by (simp add: docs_in_def)
next
  case (Cons p fs)
  obtain stem f where p: "p = (stem, f)" by (cases p)
  from Cons obtain ds where ds: "scan_files False n fs = Inr ds" "set ds = docs_in n fs" by blast
  show ?case by (cases "parse_document stem f") (auto simp: p ds docs_in_Cons)
qed

lemma scan_dirs_set:
  "\<exists>ds. scan_dirs s (Some n) False dirs = Inr ds \<and>
     set ds = (\<Union>dir\<in>{dir. (n, dir) \<in> set dirs}. docs_in n (files_of s dir))"
proof (induction dirs)
  case Nil
  then show ?case by simp
next
  case (Cons p dirs)
  obtain m dir where p: "p = (m, dir)" by (cases p)
  obtain fs where fs: "scan_files False m (sort_key fst (files_of s dir)) = Inr fs"
    "set fs = docs_in m (files_of s dir)"
    using scan_files_set [of m "sort_key fst (files_of s dir)"] by auto
  obtain ds where ds: "scan_dirs s (Some n) False dirs = Inr ds"
    "set ds = (\<Union>dir\<in>{dir. (n, dir) \<in> set dirs}. docs_in n (files_of s dir))"
    using Cons by blast
  show ?case
  proof (cases "m = n")
    case True
    then have "{d. (n, d) \<in> set (p # dirs)} = insert dir {d. (n, d) \<in> set dirs}" using p by auto
    then show ?thesis using True fs ds by (simp add: p)
  next
    case False
    then have "{d. (n, d) \<in> set (p # dirs)} = {d. (n, d) \<in> set dirs}" using p by auto
    then show ?thesis using False ds by (simp add: p)
  qed
qed

lemma list_documents_set:
  assumes "store_ok s" "1 \<le> n"
  obtains ds where "list_documents s (Some n) False = Inr ds"
    "set ds = {d. lookup_document s (d_id d) = Some d \<and> d_episode d = n}"
proof -
  obtain dirs where dirs: "episode_dirs s = Inr dirs"
    "set dirs = {(n, episode_dir n) | n. 1 \<le> n \<and> episode_dir n \<in> keys s}"
    by (rule episode_dirs_ok [OF assms(1)])
  obtain ds where ds: "scan_dirs s (Some n) False dirs = Inr ds"
    "set ds = (\<Union>dir\<in>{dir. (n, dir) \<in> set dirs}. docs_in n (files_of s dir))"
    using scan_dirs_set [of s n dirs] by (elim exE conjE)
  have files: "(stem, f) \<in> set (files_of s (episode_dir n)) \<longleftrightarrow> file_at s n stem = Some f" for stem f
    using store_ok_dicts [OF assms(1), of "episode_dir n"] by (simp add: file_at_def dict_ok_def)
  have "set ds = {d. lookup_document s (d_id d) = Some d \<and> d_episode d = n}"
  proof (intro set_eqI iffI)
    fix d
    assume "d \<in> set ds"
    then obtain stem f where "file_at s n stem = Some f" "parse_document stem f = Inr d" "d_episode d = n"
      unfolding ds(2) dirs(2) docs_in_def using files by (auto split: if_splits)
    then show "d \<in> {d. lookup_document s (d_id d) = Some d \<and> d_episode d = n}"
      by (simp add: lookup_document_iff [OF assms(1)] parse_document_Inr)
  next
    fix d
    assume "d \<in> {d. lookup_document s (d_id d) = Some d \<and> d_episode d = n}"
    then have d: "valid_document d" "file_at s n (d_id d) = Some (Some d)" "d_episode d = n"
      by (auto simp: lookup_document_iff [OF assms(1)])
    then have "episode_dir n \<in> keys s"
      using files_of_Nil [of "episode_dir n" s] by (cases "episode_dir n \<in> keys s") (auto simp: file_at_def)
    then have "(n, episode_dir n) \<in> set dirs" using dirs(2) assms(2) by auto
    moreover have "(d_id d, Some d) \<in> set (files_of s (episode_dir n))" using d(2) files by simp
    moreover have "is_timeline_id (d_id d)" using d(1) valid_document_simps by blast
    ultimately show "d \<in> set ds" unfolding ds(2) docs_in_def using d by (auto simp: parse_document_Inr)
  qed
  then show ?thesis using that dirs(1) ds(1) by (simp add: list_documents_def)
qed

end
