(* ===== verification/Timeline_Service.thy ===== *)
theory Timeline_Service
  imports Timeline_Diff Timeline_Store
begin

text \<open>
  The timeline commands (\<open>lib/edit_timeline/service.py\<close>): each transaction as a function from the
  store to an exception or the store after and what the command returns. The clock, the random
  timeline id and the loaded facts (script units, sources) are arguments; the user-visible texts are
  given in English. Locking serialises the transactions of an episode; what a request read before its
  transaction is read again inside it, so a transaction is one step of the store.
\<close>

section \<open>What the commands return\<close>

record timeline_summary =
  sm_id :: string
  sm_name :: string
  sm_episode :: int
  sm_revision :: int
  sm_clip_count :: nat
  sm_created_at :: string
  sm_updated_at :: string
  sm_updated_by :: revision_author
  sm_update_summary :: string

record revision_summary =
  rs_number :: int
  rs_parent :: "int option"
  rs_author :: revision_author
  rs_summary :: string
  rs_created_at :: string
  rs_clip_count :: nat
  rs_changed_clip_ids :: "string list option"
  rs_restored_from :: "int option"

record written =
  w_document :: timeline_document
  w_base_revision :: int
  w_previous_latest :: timeline_revision
  w_affected :: "string set"
  w_deleted :: "string set"

definition revision_summary_max_length :: nat where
  "revision_summary_max_length = 200"

definition mechanical_creation_summary :: string where
  "mechanical_creation_summary = ''created from the script: every unit whole, hard cuts only''"

definition copy_summary :: "string \<Rightarrow> int \<Rightarrow> string" where
  "copy_summary name number = ''copied from '' @ name @ '' revision '' @ str_int number"

definition restore_summary :: "int \<Rightarrow> string" where
  "restore_summary number = ''restored revision '' @ str_int number"

section \<open>Names and new documents\<close>

fun mechanical_clips :: "int \<Rightarrow> script_unit list \<Rightarrow> exn + edit_clip list" where
  "mechanical_clips index [] = Inr []"
| "mechanical_clips index (u # us) =
     bindE (make_clip \<lparr>c_id = clip_id_of index, c_unit_id = u_id u, c_trim = None,
              c_source_volume = default_source_volume (u_speech_mode u), c_hold_us = 0,
              c_carries_narration = True, c_reason = None, c_transition = None\<rparr>) (\<lambda>c.
     bindE (mechanical_clips (index + 1) us) (\<lambda>cs. Inr (c # cs)))"

definition mechanical_content :: "episode_script_units \<Rightarrow> exn + tl_content" where
  "mechanical_content script = bindE (mechanical_clips 1 (es_units script)) (\<lambda>cs. make_content cs [])"

definition normalized_name :: "string \<Rightarrow> exn + string" where
  "normalized_name name =
     (let s = strip_white name
      in if 1 \<le> length s \<and> length s \<le> timeline_name_max_length then Inr s
         else Inl (et_fail Timeline_name_invalid))"

definition ensure_name_free :: "store \<Rightarrow> int \<Rightarrow> string \<Rightarrow> string option \<Rightarrow> exn + unit" where
  "ensure_name_free s episode name excluding =
     bindE (list_documents s (Some episode) False) (\<lambda>ds.
       if list_ex (\<lambda>d. Some (d_id d) \<noteq> excluding \<and> py_casefold (d_name d) = py_casefold name) ds
       then Inl (et_fail Timeline_name_conflict) else Inr ())"

fun successors :: "edit_clip list \<Rightarrow> (string \<times> string) list" where
  "successors (c # d # cs) = (c_id c, c_id d) # successors (d # cs)"
| "successors _ = []"

definition new_document ::
    "int \<Rightarrow> string \<Rightarrow> tl_content \<Rightarrow> string \<Rightarrow> revision_author \<Rightarrow> int \<Rightarrow> int \<Rightarrow> string \<Rightarrow> string
       \<Rightarrow> exn + timeline_document" where
  "new_document episode name content summary author next_clip next_bgm now token =
     bindE (make_revision
              \<lparr>r_number = 1, r_parent = None, r_author = author, r_summary = summary, r_created_at = now,
               r_content = content, r_changed_clip_ids = None, r_restored_from = None\<rparr>) (\<lambda>r.
     make_document
       \<lparr>d_id = ''tl-'' @ token, d_episode = episode, d_name = name, d_created_at = now,
        d_next_clip_number = next_clip, d_next_bgm_number = next_bgm, d_revisions = [r]\<rparr>)"

definition summarize_document :: "timeline_document \<Rightarrow> timeline_summary" where
  "summarize_document d =
     \<lparr>sm_id = d_id d, sm_name = d_name d, sm_episode = d_episode d, sm_revision = r_number (latest d),
      sm_clip_count = length (ct_clips (r_content (latest d))), sm_created_at = d_created_at d,
      sm_updated_at = r_created_at (latest d), sm_updated_by = r_author (latest d),
      sm_update_summary = r_summary (latest d)\<rparr>"

section \<open>The commands\<close>

definition create_from_script ::
    "store \<Rightarrow> episode_script_units \<Rightarrow> int \<Rightarrow> string \<Rightarrow> revision_author \<Rightarrow> string \<Rightarrow> string
       \<Rightarrow> exn + store \<times> timeline_document" where
  "create_from_script s script episode name author now token =
     bindE (mechanical_content script) (\<lambda>content.
     bindE (ensure_name_free s episode name None) (\<lambda>_.
     bindE (new_document episode name content mechanical_creation_summary author
              (int (length (ct_clips content)) + 1) 1 now token) (\<lambda>d.
       Inr (write_document d s, d))))"

definition base_revision :: "timeline_document \<Rightarrow> int \<Rightarrow> exn + timeline_revision" where
  "base_revision d number =
     (case revision_of d number of None \<Rightarrow> Inl (et_fail Revision_not_found) | Some r \<Rightarrow> Inr r)"

definition copy_timeline ::
    "store \<Rightarrow> string \<Rightarrow> int option \<Rightarrow> string \<Rightarrow> revision_author \<Rightarrow> string \<Rightarrow> string
       \<Rightarrow> exn + store \<times> timeline_document" where
  "copy_timeline s tid number name author now token =
     bindE (find_document s tid) (\<lambda>source.
     bindE (base_revision source (case number of Some n \<Rightarrow> n | None \<Rightarrow> r_number (latest source))) (\<lambda>target.
     bindE (ensure_name_free s (d_episode source) name None) (\<lambda>_.
     bindE (new_document (d_episode source) name (r_content target)
              (copy_summary (d_name source) (r_number target)) author
              (d_next_clip_number source) (d_next_bgm_number source) now token) (\<lambda>d.
       Inr (write_document d s, d)))))"

definition rename_timeline :: "store \<Rightarrow> string \<Rightarrow> string \<Rightarrow> exn + store \<times> timeline_document" where
  "rename_timeline s tid name =
     bindE (find_document s tid) (\<lambda>d.
       if d_name d = name then Inr (s, d)
       else bindE (ensure_name_free s (d_episode d) name (Some tid)) (\<lambda>_.
         let renamed = d\<lparr>d_name := name\<rparr> in Inr (write_document renamed s, renamed)))"

definition list_revisions :: "store \<Rightarrow> string \<Rightarrow> exn + int \<times> revision_summary list" where
  "list_revisions s tid =
     bindE (find_document s tid) (\<lambda>d.
       Inr (r_number (latest d),
            map (\<lambda>r. \<lparr>rs_number = r_number r, rs_parent = r_parent r, rs_author = r_author r,
                      rs_summary = r_summary r, rs_created_at = r_created_at r,
                      rs_clip_count = length (ct_clips (r_content r)),
                      rs_changed_clip_ids = r_changed_clip_ids r,
                      rs_restored_from = r_restored_from r\<rparr>) (d_revisions d)))"

text \<open>The revision after \<open>late\<close>, and the document with one more revision, validated.\<close>

definition next_revision ::
    "timeline_revision \<Rightarrow> revision_author \<Rightarrow> string \<Rightarrow> string \<Rightarrow> tl_content \<Rightarrow> string list \<Rightarrow> int option
       \<Rightarrow> timeline_revision" where
  "next_revision late author summary now content ids restored_from =
     \<lparr>r_number = r_number late + 1, r_parent = Some (r_number late), r_author = author,
      r_summary = summary, r_created_at = now, r_content = content,
      r_changed_clip_ids = Some ids, r_restored_from = restored_from\<rparr>"

definition append_revision ::
    "timeline_document \<Rightarrow> int \<Rightarrow> int \<Rightarrow> timeline_revision \<Rightarrow> exn + timeline_document" where
  "append_revision d next_clip next_bgm r =
     bindE (make_revision r) (\<lambda>r.
       make_document (d\<lparr>d_next_clip_number := next_clip, d_next_bgm_number := next_bgm,
                        d_revisions := d_revisions d @ [r]\<rparr>))"

definition restore_timeline ::
    "store \<Rightarrow> string \<Rightarrow> int \<Rightarrow> revision_author \<Rightarrow> string \<Rightarrow> exn + store \<times> written" where
  "restore_timeline s tid number author now =
     bindE (find_document s tid) (\<lambda>d.
     bindE (base_revision d number) (\<lambda>target.
       let late = latest d
       in if r_content target = r_content late then Inl (et_fail Revision_unchanged)
          else let changed = restore_changed_clip_ids (r_content late) (r_content target);
                   changes = diff_content (r_content late) (r_content target)
               in bindE (sorted_clip_ids changed) (\<lambda>ids.
                  bindE (append_revision d (d_next_clip_number d) (d_next_bgm_number d)
                           (next_revision late author (restore_summary number) now (r_content target) ids
                              (Some number))) (\<lambda>updated.
                    Inr (write_document updated s,
                         \<lparr>w_document = updated, w_base_revision = r_number late, w_previous_latest = late,
                          w_affected = changed - cd_removed changes, w_deleted = cd_removed changes\<rparr>)))))"

definition delete_timeline :: "store \<Rightarrow> string \<Rightarrow> exn + store" where
  "delete_timeline s tid = bindE (find_document s tid) (\<lambda>d. Inr (delete_document d s))"

subsection \<open>Editing\<close>

fun changed_since :: "timeline_revision list \<Rightarrow> string set" where
  "changed_since (previous # r # rs) =
     (case r_changed_clip_ids r of
        Some ids \<Rightarrow> set ids
      | None \<Rightarrow> cd_changed (diff_content (r_content previous) (r_content r))) \<union> changed_since (r # rs)"
| "changed_since _ = {}"

definition reject_conflict :: "string set \<Rightarrow> exn + 'a" where
  "reject_conflict conflicting =
     bindE (sorted_clip_ids conflicting) (\<lambda>ids.
       Inl (Edit_error \<lparr>err_code = Revision_conflict, err_op = None, err_clip = None, err_field = None,
                       err_conflicts = ids\<rparr>))"

fun transition_targets :: "timeline_operation list \<Rightarrow> string list" where
  "transition_targets [] = []"
| "transition_targets (SetTransition clip_id spec # ops) = clip_id # transition_targets ops"
| "transition_targets (op # ops) = transition_targets ops"

definition apply_to ::
    "timeline_document \<Rightarrow> timeline_revision \<Rightarrow> timeline_operation list \<Rightarrow> episode_sources \<Rightarrow> bool
       \<Rightarrow> exn + applied_batch" where
  "apply_to d r ops so check_windows =
     apply_operations (r_content r) (d_next_clip_number d) ops so (d_next_bgm_number d) check_windows"

definition check_conflicts ::
    "timeline_document \<Rightarrow> timeline_revision \<Rightarrow> timeline_operation list \<Rightarrow> episode_sources
       \<Rightarrow> exn + applied_batch" where
  "check_conflicts d base ops so =
     (let since_base = changed_since (drop (nat (r_number base - 1)) (d_revisions d))
      in bindE (apply_to d base ops so False) (\<lambda>on_base.
         let hit = (ab_referenced on_base \<union> keys (ab_last_operation on_base)) \<inter> since_base
         in if hit \<noteq> {} then reject_conflict hit
            else bindE (apply_to d (latest d) ops so False) (\<lambda>on_latest.
              let hit = keys (ab_last_operation on_latest) \<inter> since_base
              in if hit \<noteq> {} then reject_conflict hit
                 else let base_next = map_of (successors (ct_clips (ab_content on_base)));
                          latest_next = map_of (successors (ct_clips (ab_content on_latest)));
                          moved_cuts = set (filter (\<lambda>i. base_next i \<noteq> latest_next i) (transition_targets ops))
                      in if moved_cuts \<noteq> {} then reject_conflict moved_cuts
                         else apply_to d (latest d) ops so True)))"

text \<open>The checks of a request before its transaction.\<close>

definition edit_request :: "string \<Rightarrow> timeline_operation list \<Rightarrow> exn + string" where
  "edit_request summary ops =
     (let normalized = py_strip summary
      in if normalized = [] \<or> revision_summary_max_length < length normalized
         then Inl (et_fail Revision_summary_invalid)
         else if ops = [] then Inl (et_fail Operation_invalid)
         else Inr normalized)"

definition edit_timeline ::
    "store \<Rightarrow> string \<Rightarrow> int \<Rightarrow> string \<Rightarrow> timeline_operation list \<Rightarrow> episode_sources \<Rightarrow> revision_author \<Rightarrow> string
       \<Rightarrow> exn + store \<times> written" where
  "edit_timeline s tid base_number summary ops so author now =
     bindE (find_document s tid) (\<lambda>d.
     bindE (base_revision d base_number) (\<lambda>base.
       let late = latest d
       in bindE (if r_number base \<noteq> r_number late then check_conflicts d base ops so
                 else apply_to d late ops so True) (\<lambda>applied.
          let changes = diff_content (r_content late) (ab_content applied)
          in bindE (sorted_clip_ids (keys (ab_last_operation applied))) (\<lambda>ids.
             bindE (append_revision d (ab_next_clip_number applied) (ab_next_bgm_number applied)
                      (next_revision late author summary now (ab_content applied) ids None)) (\<lambda>updated.
               Inr (write_document updated s,
                    \<lparr>w_document = updated, w_base_revision = r_number base, w_previous_latest = late,
                     w_affected = (ab_targets applied \<union> cd_added changes \<union> cd_modified changes) - cd_removed changes,
                     w_deleted = cd_removed changes\<rparr>))))))"

definition list_timelines :: "store \<Rightarrow> int option \<Rightarrow> exn + timeline_summary list" where
  "list_timelines s episode =
     bindE (list_documents s episode False) (\<lambda>ds. Inr (map summarize_document ds))"

definition read_timeline ::
    "(string \<Rightarrow> string) \<Rightarrow> store \<Rightarrow> string \<Rightarrow> int option \<Rightarrow> episode_sources \<Rightarrow> exn + timeline_readout" where
  "read_timeline missing_glyphs s tid number so =
     bindE (find_document s tid) (\<lambda>d.
     bindE (base_revision d (case number of Some n \<Rightarrow> n | None \<Rightarrow> r_number (latest d))) (\<lambda>target.
       Inr (project_readout missing_glyphs d target so)))"

record write_result =
  wr_revision :: int
  wr_base_revision :: int
  wr_concurrent :: "int list"
  wr_duration :: pyfloat
  wr_clips :: "clip_view list"
  wr_bgm :: "bgm_view list"
  wr_deleted_clip_ids :: "string list"
  wr_issues :: "timeline_issue list"

definition concurrent_revisions :: "written \<Rightarrow> timeline_revision list" where
  "concurrent_revisions w =
     take (nat (r_number (w_previous_latest w) - w_base_revision w))
       (drop (nat (w_base_revision w)) (d_revisions (w_document w)))"

definition make_write_result ::
    "(string \<Rightarrow> string) \<Rightarrow> episode_sources \<Rightarrow> written \<Rightarrow> timeline_revision list \<Rightarrow> exn + write_result" where
  "make_write_result missing_glyphs so w concurrent =
     (let late = latest (w_document w); readout = project_readout missing_glyphs (w_document w) late so
      in bindE (sorted_clip_ids (w_deleted w)) (\<lambda>deleted.
           Inr \<lparr>wr_revision = r_number late, wr_base_revision = w_base_revision w,
                wr_concurrent = map r_number concurrent, wr_duration = ro_duration readout,
                wr_clips = filter (\<lambda>c. cv_id c \<in> w_affected w) (ro_clips readout),
                wr_bgm = filter (\<lambda>g. gv_id g \<in> w_affected w) (ro_bgm readout),
                wr_deleted_clip_ids = deleted, wr_issues = ro_issues readout\<rparr>))"

end
