(* ===== verification/Timeline_Laws.thy ===== *)
theory Timeline_Laws
  imports Sample_Episode
begin

text \<open>
  The laws of a batch of timeline operations: what a batch that succeeds guarantees, and how a
  batch fails. They are read off the machine interpretations of the batch.
\<close>

section \<open>BGM clips that do not overlap\<close>

lemma valid_bgm_length: "valid_bgm g \<Longrightarrow> g_start_us g < bgm_end_us g"
  by (simp add: valid_bgm_def bgm_end_us_def bgm_clip_length_us_def)

definition apart :: "bgm_clip \<Rightarrow> bgm_clip \<Rightarrow> bool" where
  "apart a b = (bgm_end_us a \<le> g_start_us b \<or> bgm_end_us b \<le> g_start_us a)"

lemma sorted_wrt_apart:
  assumes "sorted_wrt (\<lambda>a b. bgm_end_us a \<le> g_start_us b) xs" "a \<in> set xs" "b \<in> set xs" "a \<noteq> b"
  shows "apart a b"
  using assms by (induction xs) (auto simp: apart_def)

lemma apart_sorted_wrt:
  assumes "sorted (map g_start_us xs)" "distinct xs" "list_all valid_bgm xs"
    and "\<And>a b. a \<in> set xs \<Longrightarrow> b \<in> set xs \<Longrightarrow> a \<noteq> b \<Longrightarrow> apart a b"
  shows "sorted_wrt (\<lambda>a b. bgm_end_us a \<le> g_start_us b) xs"
  using assms
proof (induction xs)
  case Nil
  then show ?case by simp
next
  case (Cons x xs)
  have "bgm_end_us x \<le> g_start_us y" if "y \<in> set xs" for y
  proof -
    have "apart x y" "g_start_us x \<le> g_start_us y" "valid_bgm y"
      using that Cons.prems by (auto simp: list_all_iff)
    then show ?thesis using valid_bgm_length [of y] by (auto simp: apart_def)
  qed
  moreover have "sorted_wrt (\<lambda>a b. bgm_end_us a \<le> g_start_us b) xs"
    using Cons.prems by (intro Cons.IH) auto
  ultimately show ?case by simp
qed

lemma bgm_disjoint_iff:
  assumes "distinct gs" "list_all valid_bgm gs"
  shows "bgm_disjoint gs \<longleftrightarrow> (\<forall>a\<in>set gs. \<forall>b\<in>set gs. a \<noteq> b \<longrightarrow> apart a b)"
proof
  assume "bgm_disjoint gs"
  then show "\<forall>a\<in>set gs. \<forall>b\<in>set gs. a \<noteq> b \<longrightarrow> apart a b"
    using sorted_wrt_apart [of "sort_key g_start_us gs"] by (simp add: bgm_disjoint_def)
next
  assume "\<forall>a\<in>set gs. \<forall>b\<in>set gs. a \<noteq> b \<longrightarrow> apart a b"
  then show "bgm_disjoint gs"
    unfolding bgm_disjoint_def using assms
    by (intro apart_sorted_wrt) (auto simp: list_all_iff)
qed

text \<open>The pairwise check over the sorted track: neighbours are apart unless both are untouched.\<close>

lemma touched_indexes_Nil: "touched_indexes L ids = [] \<longleftrightarrow> (\<forall>x\<in>set ids. x \<notin> keys L)"
  by (induction ids) (auto simp: touched_indexes_def List.map_filter_simps map_of_eq_None_keys
      dest: map_of_Some_keys split: option.splits)

lemma check_overlaps_apart:
  assumes "check_overlaps L gs = Inr ()" "list_all valid_bgm gs"
    and "\<And>a b. a \<in> set gs \<Longrightarrow> b \<in> set gs \<Longrightarrow> a \<noteq> b \<Longrightarrow> g_id a \<notin> keys L \<Longrightarrow> g_id b \<notin> keys L \<Longrightarrow> apart a b"
    and "distinct gs" "sorted (map g_start_us gs)"
  shows "sorted_wrt (\<lambda>a b. bgm_end_us a \<le> g_start_us b) gs"
  using assms
proof (induction L gs rule: check_overlaps.induct)
  case (1 L p f gs)
  have tail: "sorted_wrt (\<lambda>a b. bgm_end_us a \<le> g_start_us b) (f # gs)"
    using "1.prems" by (intro "1.IH") (auto simp: Let_def split: if_splits)
  have v: "valid_bgm f" "valid_bgm p" using "1.prems"(2) by simp_all
  have "bgm_end_us p \<le> g_start_us f"
  proof (cases "bgm_end_us p \<le> g_start_us f")
    case False
    then have "touched_indexes L [g_id p, g_id f] = []"
      using "1.prems"(1) by (auto simp: Let_def bgm_end_us_def split: if_splits)
    then have "apart p f" using "1.prems"(3) [of p f] "1.prems"(4) by (auto simp: touched_indexes_Nil)
    moreover have "g_start_us p \<le> g_start_us f" using "1.prems"(5) by simp
    ultimately show ?thesis using valid_bgm_length [OF v(1)] by (auto simp: apart_def)
  qed
  moreover have "g_start_us f \<le> g_start_us g" if "g \<in> set gs" for g using "1.prems"(5) that by simp
  ultimately show ?case using tail by force
qed simp_all

lemma sorted_bgm_order: "sorted (map g_start_us (sort_key bgm_order gs))"
proof -
  have "sorted_wrt (\<lambda>x y. bgm_order x \<le> bgm_order y) (sort_key bgm_order gs)"
    using sorted_sort_key [of bgm_order gs] by (simp only: sorted_map)
  then have "sorted_wrt (\<lambda>x y. g_start_us x \<le> g_start_us y) (sort_key bgm_order gs)"
    by (rule sorted_wrt_mono_rel [rotated]) (auto simp: bgm_order_def less_eq_prod_def)
  then show ?thesis by (simp only: sorted_map)
qed

lemma check_starts_ok:
  "check_starts L total_us gs = Inr () \<Longrightarrow> g \<in> set gs \<Longrightarrow> g_id g \<in> keys L \<Longrightarrow> g_start_us g < total_us"
  by (induction gs) (auto simp: map_of_eq_None_keys split: option.splits if_splits)

lemma check_windows_ok:
  assumes "check_windows_from so b prev cs = Inr ()" "p < length cs"
  shows "check_window so b (if p = 0 then prev else Some (cs ! (p - 1))) (cs ! p) = Inr ()"
  using assms
proof (induction cs arbitrary: prev p)
  case Nil
  then show ?case by simp
next
  case (Cons c cs)
  show ?case
  proof (cases p)
    case 0
    then show ?thesis using Cons.prems by (auto simp: bindE_Inr_iff)
  next
    case (Suc q)
    then have "check_window so b (if q = 0 then Some c else Some (cs ! (q - 1))) (cs ! q) = Inr ()"
      using Cons.prems Cons.IH [of "Some c" q] by (auto simp: bindE_Inr_iff)
    then show ?thesis using Suc by (cases q) simp_all
  qed
qed

lemma clip_source_duration_nonneg:
  "wf_media m \<Longrightarrow> 0 \<le> scripted \<Longrightarrow> 0 \<le> clip_source_duration_us c m scripted"
  by (auto simp: clip_source_duration_us_def effective_source_range_us_def wf_media_def Let_def
      split: option.splits)

lemma batch_duration_nonneg:
  "batch_duration_us so c = Some d \<Longrightarrow> wf_sources so \<Longrightarrow> valid_clip c \<Longrightarrow> 0 \<le> d"
  by (fastforce simp: batch_duration_us_def wf_sources_def valid_clip_def dest: unit_of_SomeD
      intro: add_nonneg_nonneg clip_source_duration_nonneg split: option.splits)

text \<open>The track after the batch, from the track before and the checks.\<close>

lemma bgm_disjoint_kept:
  assumes g: "base_good n b" and c: "check_bgm so b = Inr ()" and v: "list_all valid_bgm gs" "distinct (map g_id gs)"
    and f: "filter (\<lambda>g. g_id g \<notin> touched b) gs = filter (\<lambda>g. g_id g \<notin> touched b) (b_bgm b)"
    and d: "bgm_disjoint gs"
  shows "bgm_disjoint (sort_key bgm_order (b_bgm b))"
proof -
  let ?gs = "sort_key bgm_order (b_bgm b)"
  have vb: "list_all valid_bgm ?gs" and "distinct (map g_id (b_bgm b))"
    using g by (auto simp: base_good_def list_all_iff)
  then have dist: "distinct ?gs" by (simp add: distinct_map)
  have old: "apart x y" if "x \<in> set ?gs" "y \<in> set ?gs" "x \<noteq> y" "g_id x \<notin> touched b" "g_id y \<notin> touched b" for x y
  proof -
    have "x \<in> set gs" "y \<in> set gs"
      using that f filter_mem_iff [of "\<lambda>g. g_id g \<notin> touched b" gs "b_bgm b"] by auto
    then show ?thesis using d v that(3) by (auto simp: bgm_disjoint_iff distinct_map)
  qed
  have "sorted_wrt (\<lambda>a b. bgm_end_us a \<le> g_start_us b) ?gs"
  proof (cases "filter (\<lambda>g. map_of (b_last b) (g_id g) \<noteq> None) (b_bgm b) = []")
    case True
    then have "g_id x \<notin> touched b" if "x \<in> set ?gs" for x
      using that by (auto simp: filter_empty_conv touched_def map_of_eq_None_keys [symmetric])
    then show ?thesis using old vb dist sorted_bgm_order by (intro apart_sorted_wrt) auto
  next
    case False
    then have "check_overlaps (b_last b) ?gs = Inr ()"
      using c base_good_sorted [OF g] by (simp add: check_bgm_def bindE_Inr_iff)
    then show ?thesis
      using vb old dist sorted_bgm_order by (intro check_overlaps_apart) (auto simp: touched_def)
  qed
  then show ?thesis using vb dist sorted_wrt_apart by (auto simp: bgm_disjoint_iff)
qed

section \<open>What a batch guarantees\<close>

lemma sample_batch:
  obtains ab where "apply_operations sample_content 3 sample_ops sample_sources 2 True = Inr ab"
  using sample_run by (auto simp: is_ok_iff)

text \<open>C1: a batch that succeeds on a valid content with allocated ids yields a valid content: every
  clip passes its validators, ids are unique, a unit's narration has at most one carrier, every id
  lies below the returned counters, and the counters never go back.\<close>

theorem apply_operations_valid:
  assumes "apply_operations ct nc ops so nb cw = Inr ab"
    and "wf_sources so" "valid_content ct" "ids_allocated nc nb ct" "1 \<le> nc" "1 \<le> nb"
  shows "valid_content (ab_content ab) \<and>
    ids_allocated (ab_next_clip_number ab) (ab_next_bgm_number ab) (ab_content ab) \<and>
    nc \<le> ab_next_clip_number ab \<and> nb \<le> ab_next_bgm_number ab"
proof -
  obtain b where b: "base_good (length ops) b" "batch_rel (init_batch ct nc nb) b" "one_carrier (b_clips b)"
    and ab: "ab_content ab = \<lparr>ct_clips = b_clips b, ct_bgm = sort_key bgm_order (b_bgm b)\<rparr>"
      "ab_next_clip_number ab = b_next_clip b" "ab_next_bgm_number ab = b_next_bgm b"
    by (rule apply_operationsE [OF assms]) auto
  have "nc \<le> b_next_clip b \<and> nb \<le> b_next_bgm b"
    using b(2) by (simp add: batch_rel_def batch_frame_def init_batch_def)
  then show ?thesis using base_good_content [OF b(1,3)] by (simp add: ab)
qed

theorem apply_operations_valid_witness:
  "\<exists>ab. apply_operations sample_content 3 sample_ops sample_sources 2 True = Inr ab \<and>
     valid_content (ab_content ab) \<and> 3 \<le> ab_next_clip_number ab"
proof -
  obtain ab where "apply_operations sample_content 3 sample_ops sample_sources 2 True = Inr ab"
    by (rule sample_batch)
  then show ?thesis using apply_operations_valid [of sample_content 3 sample_ops sample_sources 2 True ab] by simp
qed

text \<open>C28: a batch fails only with \<open>operation_invalid\<close> that names one of its own operations, or with the
  \<open>OverflowError\<close> of the conversion of an astronomically large number of seconds; in particular no
  validating constructor ever fails, so no half-checked clip reaches a document.\<close>

theorem apply_operations_error:
  assumes "apply_operations ct nc ops so nb cw = Inl e"
    and "wf_sources so" "valid_content ct" "ids_allocated nc nb ct" "1 \<le> nc" "1 \<le> nb"
  shows "e = Overflow_error \<or> (\<exists>i<length ops. \<exists>clip_id field. e = op_invalid i clip_id field)"
  using apply_operations_errors [OF assms] by (simp add: op_error_def)

theorem apply_operations_error_witness:
  "\<exists>i<2. \<exists>clip_id field.
     apply_operations sample_content 3 sample_bad_ops sample_sources 2 True = Inl (op_invalid i clip_id field)"
  using apply_operations_error [OF sample_bad_run] sample_bad_run
  by (simp add: sample_bad_ops_def op_invalid_def)

text \<open>C29: the frame of a batch. The clips that \<open>last_operation\<close> does not name are the same before and
  after, in the same relative order, and so are the BGM clips it does not name.\<close>

theorem apply_operations_frame:
  assumes "apply_operations ct nc ops so nb cw = Inr ab"
    and "wf_sources so" "valid_content ct" "ids_allocated nc nb ct" "1 \<le> nc" "1 \<le> nb"
  shows "filter (\<lambda>c. c_id c \<notin> keys (ab_last_operation ab)) (ct_clips (ab_content ab)) =
      filter (\<lambda>c. c_id c \<notin> keys (ab_last_operation ab)) (ct_clips ct) \<and>
    filter (\<lambda>g. g_id g \<notin> keys (ab_last_operation ab)) (ct_bgm (ab_content ab)) =
      filter (\<lambda>g. g_id g \<notin> keys (ab_last_operation ab)) (sort_key bgm_order (ct_bgm ct))"
proof -
  obtain b where b: "batch_rel (init_batch ct nc nb) b"
    and ab: "ab_content ab = \<lparr>ct_clips = b_clips b, ct_bgm = sort_key bgm_order (b_bgm b)\<rparr>"
      "ab_last_operation ab = b_last b"
    by (rule apply_operationsE [OF assms]) auto
  have "filter (\<lambda>g. g_id g \<notin> keys (b_last b)) (ct_bgm ct) = filter (\<lambda>g. g_id g \<notin> keys (b_last b)) (b_bgm b)"
    using b by (simp add: batch_rel_def batch_frame_def init_batch_def touched_def)
  then have "filter (\<lambda>g. g_id g \<notin> keys (b_last b)) (sort_key bgm_order (ct_bgm ct)) =
      filter (\<lambda>g. g_id g \<notin> keys (b_last b)) (sort_key bgm_order (b_bgm b))"
    by (simp add: filter_sort)
  then show ?thesis using b by (simp add: batch_rel_def batch_frame_def init_batch_def touched_def ab)
qed

theorem apply_operations_frame_witness:
  "\<exists>ab. apply_operations sample_content 3 sample_ops sample_sources 2 True = Inr ab \<and>
     filter (\<lambda>c. c_id c \<notin> keys (ab_last_operation ab)) (ct_clips (ab_content ab)) =
     filter (\<lambda>c. c_id c \<notin> keys (ab_last_operation ab)) (ct_clips sample_content)"
proof -
  obtain ab where ab: "apply_operations sample_content 3 sample_ops sample_sources 2 True = Inr ab"
    by (rule sample_batch)
  then show ?thesis using apply_operations_frame [OF ab] by simp
qed

text \<open>cuts. After a batch the last clip still carries no transition, and a clip that the batch did not
  touch and that carries a transition is still followed by the same clip as before.\<close>

theorem apply_operations_cuts:
  assumes "apply_operations ct nc ops so nb cw = Inr ab"
    and "wf_sources so" "valid_content ct" "ids_allocated nc nb ct" "1 \<le> nc" "1 \<le> nb"
    and "no_dangling (ct_clips ct)"
  shows "no_dangling (ct_clips (ab_content ab)) \<and>
    (\<forall>c\<in>set (ct_clips (ab_content ab)).
       c_transition c \<noteq> None \<longrightarrow> c_id c \<notin> keys (ab_last_operation ab) \<longrightarrow>
       next_ids (ct_clips ct) (c_id c) = next_ids (ct_clips (ab_content ab)) (c_id c))"
proof -
  obtain b where b: "batch_rel (init_batch ct nc nb) b"
    and ab: "ab_content ab = \<lparr>ct_clips = b_clips b, ct_bgm = sort_key bgm_order (b_bgm b)\<rparr>"
      "ab_last_operation ab = b_last b"
    by (rule apply_operationsE [OF assms(1-6)]) auto
  then show ?thesis using assms(7)
    by (auto simp: batch_rel_def cuts_kept_def init_batch_def touched_def)
qed

theorem apply_operations_cuts_witness:
  "\<exists>ab. apply_operations sample_content 3 sample_ops sample_sources 2 True = Inr ab \<and>
     no_dangling (ct_clips (ab_content ab))"
proof -
  obtain ab where ab: "apply_operations sample_content 3 sample_ops sample_sources 2 True = Inr ab"
    by (rule sample_batch)
  have "no_dangling (ct_clips sample_content)" by code_simp
  then show ?thesis using ab apply_operations_cuts [OF ab] by simp
qed

text \<open>narration. If every unit among the clips had a clip that carries its narration, then after any
  batch (insertions, deletions, moves, hand-overs) every unit among the clips has exactly one.\<close>

theorem apply_operations_narration:
  assumes "apply_operations ct nc ops so nb cw = Inr ab"
    and "wf_sources so" "valid_content ct" "ids_allocated nc nb ct" "1 \<le> nc" "1 \<le> nb"
    and "narration_covered (ct_clips ct)"
  shows "\<forall>c\<in>set (ct_clips (ab_content ab)).
    carrier_count (ct_clips (ab_content ab)) (c_unit_id c) = 1"
proof -
  obtain b where b: "batch_rel (init_batch ct nc nb) b" "one_carrier (b_clips b)"
    and ab: "ab_content ab = \<lparr>ct_clips = b_clips b, ct_bgm = sort_key bgm_order (b_bgm b)\<rparr>"
    by (rule apply_operationsE [OF assms(1-6)]) auto
  have "narration_covered (b_clips b)" using b(1) assms(7) by (simp add: batch_rel_def init_batch_def)
  then show ?thesis using b(2)
    by (auto simp: ab narration_covered_def one_carrier_def list_all_iff intro: le_antisym)
qed

theorem apply_operations_narration_witness:
  "\<exists>ab. apply_operations sample_content 3 sample_ops sample_sources 2 True = Inr ab \<and>
     (\<forall>c\<in>set (ct_clips (ab_content ab)). carrier_count (ct_clips (ab_content ab)) (c_unit_id c) = 1)"
proof -
  obtain ab where ab: "apply_operations sample_content 3 sample_ops sample_sources 2 True = Inr ab"
    by (rule sample_batch)
  have "narration_covered (ct_clips sample_content)" by code_simp
  then show ?thesis using ab apply_operations_narration [OF ab] by simp
qed

text \<open>Transition windows. After a checked batch, every clip that the batch touched, or whose
  predecessor it touched, is long enough for the halves of the transitions on its two sides.\<close>

theorem apply_operations_windows:
  assumes "apply_operations ct nc ops so nb True = Inr ab"
    and "wf_sources so" "valid_content ct" "ids_allocated nc nb ct" "1 \<le> nc" "1 \<le> nb"
    and "p < length (ct_clips (ab_content ab))"
    and "batch_duration_us so (ct_clips (ab_content ab) ! p) = Some d"
    and "c_id (ct_clips (ab_content ab) ! p) \<in> keys (ab_last_operation ab) \<or>
      0 < p \<and> c_id (ct_clips (ab_content ab) ! (p - 1)) \<in> keys (ab_last_operation ab)"
  shows "(if p = 0 then 0 else transition_us (c_transition (ct_clips (ab_content ab) ! (p - 1)))) +
    transition_us (c_transition (ct_clips (ab_content ab) ! p)) \<le> 2 * d"
proof -
  obtain b where b: "base_good (length ops) b" "check_transition_windows so b = Inr ()"
    and ab: "ab_content ab = \<lparr>ct_clips = b_clips b, ct_bgm = sort_key bgm_order (b_bgm b)\<rparr>"
      "ab_last_operation ab = b_last b"
    by (rule apply_operationsE [OF assms(1-6)]) auto
  let ?c = "b_clips b ! p"
  have p: "p < length (b_clips b)" using assms(7) by (simp add: ab)
  have w: "check_window so b (if p = 0 then None else Some (b_clips b ! (p - 1))) ?c = Inr ()"
    using b(2) p by (auto simp: check_transition_windows_def dest: check_windows_ok)
  have "valid_clip ?c" using b(1) p by (auto simp: base_good_def list_all_iff)
  then have "0 \<le> d" using batch_duration_nonneg assms(2,8) by (simp add: ab)
  then show ?thesis using w assms(8,9)
    by (auto simp: check_window_def Let_def ab touched_indexes_Nil transition_us_def split: if_splits)
qed

theorem apply_operations_windows_witness:
  "\<exists>ab. apply_operations sample_content 3 [SetHold ''c1'' 1] sample_sources 2 True = Inr ab \<and>
     transition_us (c_transition (ct_clips (ab_content ab) ! 0)) \<le> 2 * 7000000"
proof -
  obtain ab where ab: "apply_operations sample_content 3 [SetHold ''c1'' 1] sample_sources 2 True = Inr ab"
    and "keys (ab_last_operation ab) = {''c1''}" "length (ct_clips (ab_content ab)) = 2"
      "c_id (ct_clips (ab_content ab) ! 0) = ''c1''"
      "batch_duration_us sample_sources (ct_clips (ab_content ab) ! 0) = Some 7000000"
    by (simp add: run_simps sample_defs keys_def cong: bindE_weak_cong)
  then show ?thesis
    using apply_operations_windows [OF ab, of 0 7000000] by simp
qed

text \<open>the BGM track. After a checked batch a BGM clip that the batch touched starts inside the
  timeline, and if the track had no overlaps before, it has none after.\<close>

theorem apply_operations_bgm:
  assumes "apply_operations ct nc ops so nb True = Inr ab"
    and "wf_sources so" "valid_content ct" "ids_allocated nc nb ct" "1 \<le> nc" "1 \<le> nb"
    and "bgm_disjoint (ct_bgm ct)"
  shows "bgm_disjoint (ct_bgm (ab_content ab)) \<and>
    (\<forall>g\<in>set (ct_bgm (ab_content ab)). g_id g \<in> keys (ab_last_operation ab) \<longrightarrow>
       g_start_us g < timeline_duration_us so (ct_clips (ab_content ab)))"
proof -
  obtain b where b: "base_good (length ops) b" "check_bgm so b = Inr ()" "batch_rel (init_batch ct nc nb) b"
    and ab: "ab_content ab = \<lparr>ct_clips = b_clips b, ct_bgm = sort_key bgm_order (b_bgm b)\<rparr>"
      "ab_last_operation ab = b_last b"
    by (rule apply_operationsE [OF assms(1-6)]) auto
  have f: "filter (\<lambda>g. g_id g \<notin> touched b) (ct_bgm ct) = filter (\<lambda>g. g_id g \<notin> touched b) (b_bgm b)"
    using b(3) by (simp add: batch_rel_def batch_frame_def init_batch_def)
  have "g_start_us g < timeline_duration_us so (b_clips b)"
    if "g \<in> set (b_bgm b)" "g_id g \<in> keys (b_last b)" for g
  proof -
    have "filter (\<lambda>g. map_of (b_last b) (g_id g) \<noteq> None) (b_bgm b) \<noteq> []"
      using that by (auto simp: filter_empty_conv map_of_eq_None_keys)
    then show ?thesis using b(2) that by (auto simp: check_bgm_def bindE_Inr_iff dest: check_starts_ok)
  qed
  moreover have "bgm_disjoint (sort_key bgm_order (b_bgm b))"
    by (rule bgm_disjoint_kept [OF b(1,2) _ _ f assms(7)])
      (use assms(3) in \<open>simp_all add: valid_content_def unique_content_def\<close>)
  ultimately show ?thesis by (simp add: ab)
qed

theorem apply_operations_bgm_witness:
  "\<exists>ab. apply_operations sample_content 3 sample_ops sample_sources 2 True = Inr ab \<and>
     bgm_disjoint (ct_bgm (ab_content ab))"
proof -
  obtain ab where ab: "apply_operations sample_content 3 sample_ops sample_sources 2 True = Inr ab"
    by (rule sample_batch)
  then show ?thesis using apply_operations_bgm [OF ab] by simp
qed

end
