(* ===== verification/Service_Laws.thy ===== *)
theory Service_Laws
  imports Timeline_Service Timeline_Laws
begin

text \<open>
  The laws of the timeline commands: what a transaction does to the document and to the store, how it
  fails, and what optimistic concurrency guarantees. The store is used through its interface.
\<close>

section \<open>Ids\<close>

lemma valid_any_id_number: "valid_any_id i \<Longrightarrow> clip_number i \<noteq> None"
proof -
  assume "valid_any_id i"
  then obtain p d ds where i: "i = p # d # ds" and dig: "\<And>c. c \<in> set (d # ds) \<Longrightarrow> is_digit c"
    by (auto simp: valid_any_id_def valid_id_def list_all_iff split: list.splits)
  have strip: "py_strip (d # ds) = d # ds"
    by (rule py_strip_id) (use dig in \<open>auto dest: digit_not_space\<close>)
  have "digits_value 0 False (d # ds) \<noteq> None" by (rule digits_value_all_digits) (use dig in auto)
  then show ?thesis
    using dig digit_not_sign [of d] by (simp add: i clip_number_def py_int_def strip)
qed

lemma sorted_clip_ids_valid:
  "finite ids \<Longrightarrow> (\<And>i. i \<in> ids \<Longrightarrow> valid_any_id i) \<Longrightarrow> \<exists>xs. sorted_clip_ids ids = Inr xs \<and> set xs = ids"
  using valid_any_id_number by (auto simp: sorted_clip_ids_def)

lemma finite_keys [simp]: "finite (keys d)"
  by (simp add: keys_def)

lemma content_keys_valid: "valid_content ct \<Longrightarrow> i \<in> fst ` set (content_items ct) \<Longrightarrow> valid_any_id i"
  unfolding content_keys valid_content_def using valid_clip_any_id valid_bgm_any_id by blast

lemma diff_ids:
  assumes "valid_content a" "valid_content b"
  shows "finite (cd_changed (diff_content a b))" "i \<in> cd_changed (diff_content a b) \<Longrightarrow> valid_any_id i"
    "finite (restore_changed_clip_ids a b)" "i \<in> restore_changed_clip_ids a b \<Longrightarrow> valid_any_id i"
proof -
  let ?K = "fst ` set (content_items a) \<union> fst ` set (content_items b)"
  have K: "finite ?K" "\<And>i. i \<in> ?K \<Longrightarrow> valid_any_id i" using assms content_keys_valid by auto
  have "c_id ` set (ct_clips a) \<subseteq> ?K" by (auto simp: content_keys)
  then have c: "cd_changed (diff_content a b) \<subseteq> ?K"
    by (auto simp: cd_changed_def diff_content_def Let_def)
  moreover have "c_id ` set (ct_clips b) \<subseteq> ?K" by (auto simp: content_keys)
  ultimately have r: "restore_changed_clip_ids a b \<subseteq> ?K"
    unfolding restore_changed_clip_ids_def Let_def by auto
  show "finite (cd_changed (diff_content a b))" "finite (restore_changed_clip_ids a b)"
    using c r K(1) finite_subset by blast+
  show "i \<in> cd_changed (diff_content a b) \<Longrightarrow> valid_any_id i" "i \<in> restore_changed_clip_ids a b \<Longrightarrow> valid_any_id i"
    using c r K(2) by blast+
qed

section \<open>Documents\<close>

lemma numbered_from_append:
  "numbered_from n (rs @ [r]) \<longleftrightarrow> numbered_from n rs \<and> r_number r = n + int (length rs)"
proof (induction rs arbitrary: n)
  case (Cons q rs)
  have "n + 1 + int (length rs) = n + int (length (q # rs))" by simp
  then show ?case using Cons.IH [of "n + 1"] by (simp only: append_Cons numbered_from.simps) simp
qed simp

lemma numbered_from_nth: "numbered_from n rs \<Longrightarrow> i < length rs \<Longrightarrow> r_number (rs ! i) = n + int i"
proof (induction rs arbitrary: n i)
  case Nil
  then show ?case by simp
next
  case (Cons r rs)
  then show ?case by (cases i) auto
qed

lemma valid_documentD:
  assumes "valid_document d"
  shows "d_revisions d \<noteq> []" "latest d \<in> set (d_revisions d)" "r_number (latest d) = int (length (d_revisions d))"
    "1 \<le> d_next_clip_number d" "1 \<le> d_next_bgm_number d" "1 \<le> d_episode d" "is_timeline_id (d_id d)"
    "\<And>r. r \<in> set (d_revisions d) \<Longrightarrow> valid_content (r_content r) \<and> revision_fields_ok r \<and>
       ids_allocated (d_next_clip_number d) (d_next_bgm_number d) (r_content r)"
proof -
  show ne: "d_revisions d \<noteq> []" "1 \<le> d_next_clip_number d" "1 \<le> d_next_bgm_number d" "1 \<le> d_episode d"
    "is_timeline_id (d_id d)"
    using assms by (auto simp: valid_document_def document_fields_ok_def)
  then show "latest d \<in> set (d_revisions d)" by (simp add: latest_def)
  have "numbered_from 1 (d_revisions d)" using assms by (simp add: valid_document_def document_fields_ok_def)
  then show "r_number (latest d) = int (length (d_revisions d))"
    using numbered_from_nth [of 1 "d_revisions d" "length (d_revisions d) - 1"] ne(1)
    by (simp add: latest_def last_conv_nth Suc_leI of_nat_diff)
  show "valid_content (r_content r) \<and> revision_fields_ok r \<and>
      ids_allocated (d_next_clip_number d) (d_next_bgm_number d) (r_content r)" if "r \<in> set (d_revisions d)" for r
    using assms that
    by (auto simp: valid_document_def document_fields_ok_def valid_revision_def list_all_iff)
qed

lemma revision_ofD: "revision_of d n = Some r \<Longrightarrow> r \<in> set (d_revisions d)"
  by (auto simp: revision_of_def split: if_splits)

lemma append_revision_ok:
  assumes d: "valid_document d" and r: "valid_revision r" "r_number r = r_number (latest d) + 1"
    and n: "d_next_clip_number d \<le> nc" "d_next_bgm_number d \<le> nb" "ids_allocated nc nb (r_content r)"
  defines "d' \<equiv> d\<lparr>d_next_clip_number := nc, d_next_bgm_number := nb, d_revisions := d_revisions d @ [r]\<rparr>"
  shows "append_revision d nc nb r = Inr d'" and "valid_document d'"
proof -
  note D = valid_documentD [OF d]
  have "ids_allocated nc nb (r_content q)" if "q \<in> set (d_revisions d)" for q
    using D(8) [OF that] n by (auto intro: ids_allocated_mono)
  then have f: "document_fields_ok d'"
    using d r n D(3) unfolding d'_def
    by (auto simp: document_fields_ok_def valid_document_def numbered_from_append list_all_iff)
  then show "append_revision d nc nb r = Inr d'"
    using r(1) by (simp add: append_revision_def make_revision_def make_document_def valid_revision_def d'_def)
  show "valid_document d'"
    using f d r(1) by (simp add: valid_document_def d'_def)
qed

lemma latest_append [simp]: "latest (d\<lparr>d_next_clip_number := nc, d_next_bgm_number := nb, d_revisions := rs @ [r]\<rparr>) = r"
  by (simp add: latest_def)

section \<open>Batches on a revision\<close>

lemma apply_to_ok:
  assumes "valid_document d" "r \<in> set (d_revisions d)" "wf_sources so" "apply_to d r ops so cw = Inr ab"
  shows "valid_content (ab_content ab)" "d_next_clip_number d \<le> ab_next_clip_number ab"
    "d_next_bgm_number d \<le> ab_next_bgm_number ab"
    "ids_allocated (ab_next_clip_number ab) (ab_next_bgm_number ab) (ab_content ab)"
    "\<And>i. i \<in> keys (ab_last_operation ab) \<Longrightarrow> valid_any_id i"
    "filter (\<lambda>c. c_id c \<notin> keys (ab_last_operation ab)) (ct_clips (r_content r)) =
     filter (\<lambda>c. c_id c \<notin> keys (ab_last_operation ab)) (ct_clips (ab_content ab))"
    "\<And>g. g_id g \<notin> keys (ab_last_operation ab) \<Longrightarrow>
       g \<in> set (ct_bgm (r_content r)) \<longleftrightarrow> g \<in> set (ct_bgm (ab_content ab))"
proof -
  note D = valid_documentD [OF assms(1)]
  obtain b where b: "base_good (length ops) b" "batch_rel (init_batch (r_content r) (d_next_clip_number d) (d_next_bgm_number d)) b"
      "one_carrier (b_clips b)"
    and ab: "ab_content ab = \<lparr>ct_clips = b_clips b, ct_bgm = sort_key bgm_order (b_bgm b)\<rparr>"
      "ab_next_clip_number ab = b_next_clip b" "ab_next_bgm_number ab = b_next_bgm b" "ab_last_operation ab = b_last b"
    by (rule apply_operationsE [OF assms(4) [unfolded apply_to_def] assms(3)]) (use D(4,5) D(8) [OF assms(2)] in auto)
  show "valid_content (ab_content ab)"
    "ids_allocated (ab_next_clip_number ab) (ab_next_bgm_number ab) (ab_content ab)"
    using base_good_content [OF b(1,3)] by (simp_all add: ab)
  have f: "batch_frame (init_batch (r_content r) (d_next_clip_number d) (d_next_bgm_number d)) b"
    using b(2) by (simp add: batch_rel_def)
  then show "d_next_clip_number d \<le> ab_next_clip_number ab" "d_next_bgm_number d \<le> ab_next_bgm_number ab"
    "filter (\<lambda>c. c_id c \<notin> keys (ab_last_operation ab)) (ct_clips (r_content r)) =
     filter (\<lambda>c. c_id c \<notin> keys (ab_last_operation ab)) (ct_clips (ab_content ab))"
    by (simp_all add: batch_frame_def init_batch_def ab touched_def)
  show "valid_any_id i" if "i \<in> keys (ab_last_operation ab)" for i
  proof -
    obtain j where "map_of (b_last b) i = Some j" using \<open>i \<in> keys (ab_last_operation ab)\<close> ab(4)
      by (metis map_of_eq_None_keys not_None_eq)
    then show ?thesis using b(1) by (simp add: base_good_def)
  qed
  show "g \<in> set (ct_bgm (r_content r)) \<longleftrightarrow> g \<in> set (ct_bgm (ab_content ab))"
    if "g_id g \<notin> keys (ab_last_operation ab)" for g
    using f that filter_mem_iff [of "\<lambda>g. g_id g \<notin> touched b" "ct_bgm (r_content r)" "b_bgm b" g]
    by (simp add: batch_frame_def init_batch_def ab touched_def)
qed

lemma apply_to_error:
  assumes "valid_document d" "r \<in> set (d_revisions d)" "wf_sources so" "apply_to d r ops so cw = Inl e"
  shows "op_error (length ops) e"
  by (rule apply_operations_errors [OF assms(4) [unfolded apply_to_def] assms(3)])
    (use valid_documentD [OF assms(1)] assms(2) in auto)

text \<open>The preview without the checks ends in the same state as the checked run.\<close>

lemma apply_to_preview:
  "apply_to d r ops so False = Inr a \<Longrightarrow> apply_to d r ops so True = Inr b \<Longrightarrow> a = b"
  by (auto simp: apply_to_def apply_operations_def bindE_Inr_iff)


section \<open>Writing an updated document\<close>

lemma find_document_valid:
  "store_ok s \<Longrightarrow> find_document s tid = Inr d \<Longrightarrow> valid_document d \<and> d_id d = tid"
  by (simp add: find_document_Inr_iff)

lemma update_fits:
  assumes "store_ok s" "find_document s tid = Inr d" "valid_document d'" "d_id d' = d_id d" "d_episode d' = d_episode d"
  shows "document_fits s d'"
proof -
  have d: "valid_document d" "d_id d = tid" "file_at s (d_episode d) tid = Some (Some d)"
    using assms(2) by (simp_all add: find_document_Inr_iff [OF assms(1)])
  have "n = d_episode d" if "1 \<le> n" "file_at s n tid \<noteq> None" for n
    using store_okD [OF assms(1) that(1) _ that(2), of "d_episode d"] d valid_documentD(6) [OF d(1)] by simp
  then show ?thesis using assms(3-5) d(2) by (simp add: document_fits_def)
qed

lemma write_updated:
  assumes "store_ok s" "find_document s tid = Inr d" "valid_document d'" "d_id d' = d_id d" "d_episode d' = d_episode d"
  shows "store_ok (write_document d' s)" "find_document (write_document d' s) tid = Inr d'"
    "k \<noteq> tid \<Longrightarrow> lookup_document (write_document d' s) k = lookup_document s k"
proof -
  have id: "d_id d' = tid" using find_document_valid [OF assms(1,2)] assms(4) by simp
  note f = update_fits [OF assms]
  show "store_ok (write_document d' s)" by (rule docs.put_ok [OF assms(1) f])
  show "find_document (write_document d' s) tid = Inr d'"
    using docs.put_same [OF assms(1) f] id by (simp add: lookup_document_find)
  show "k \<noteq> tid \<Longrightarrow> lookup_document (write_document d' s) k = lookup_document s k"
    using docs.put_others [OF assms(1) f] id by simp
qed

section \<open>A successful edit\<close>

lemma changed_since_drop_last: "changed_since [r] = {}"
  by simp

lemma reject_conflict_Inr [simp]: "reject_conflict ids \<noteq> Inr x"
  by (simp add: reject_conflict_def bindE_Inr_iff)

definition since_revision :: "timeline_document \<Rightarrow> timeline_revision \<Rightarrow> string set" where
  "since_revision d base = changed_since (drop (nat (r_number base - 1)) (d_revisions d))"

lemma check_conflictsD:
  assumes "check_conflicts d base ops so = Inr ab"
  obtains on_base where "apply_to d base ops so False = Inr on_base"
    "(ab_referenced on_base \<union> keys (ab_last_operation on_base)) \<inter> since_revision d base = {}"
    "apply_to d (latest d) ops so True = Inr ab" "keys (ab_last_operation ab) \<inter> since_revision d base = {}"
    "\<forall>i\<in>set (transition_targets ops).
       map_of (successors (ct_clips (ab_content on_base))) i = map_of (successors (ct_clips (ab_content ab))) i"
proof -
  from assms obtain on_base on_latest where b: "apply_to d base ops so False = Inr on_base"
    "(ab_referenced on_base \<union> keys (ab_last_operation on_base)) \<inter> since_revision d base = {}"
    and l: "apply_to d (latest d) ops so False = Inr on_latest"
    "keys (ab_last_operation on_latest) \<inter> since_revision d base = {}"
    "set (filter (\<lambda>i. map_of (successors (ct_clips (ab_content on_base))) i \<noteq>
       map_of (successors (ct_clips (ab_content on_latest))) i) (transition_targets ops)) = {}"
    and f: "apply_to d (latest d) ops so True = Inr ab"
    unfolding check_conflicts_def Let_def since_revision_def
    by (auto simp: bindE_Inr_iff split: if_splits)
  have "on_latest = ab" by (rule apply_to_preview [OF l(1) f])
  then show ?thesis using that [OF b f] l(2,3) by (simp add: filter_empty_conv)
qed

lemma since_latest: "valid_document d \<Longrightarrow> r_number base = r_number (latest d) \<Longrightarrow> since_revision d base = {}"
proof -
  assume d: "valid_document d" and n: "r_number base = r_number (latest d)"
  let ?rs = "d_revisions d"
  have "?rs \<noteq> []" "nat (r_number base - 1) = length ?rs - 1" using valid_documentD [OF d] n by auto
  then have "drop (nat (r_number base - 1)) ?rs = [last ?rs]"
    by (metis append_butlast_last_id append_eq_conv_conj length_butlast)
  then show ?thesis by (simp add: since_revision_def)
qed

text \<open>What follows a batch that was applied to the latest revision cannot fail.\<close>

lemma next_revision_simps [simp]:
  "r_number (next_revision late a t n c ids f) = r_number late + 1"
  "r_parent (next_revision late a t n c ids f) = Some (r_number late)"
  "r_content (next_revision late a t n c ids f) = c"
  "r_changed_clip_ids (next_revision late a t n c ids f) = Some ids"
  "r_summary (next_revision late a t n c ids f) = t"
  "r_restored_from (next_revision late a t n c ids f) = f"
  by (simp_all add: next_revision_def)

lemma next_revision_valid:
  assumes "valid_document d" "t \<noteq> []" "valid_content c" "list_all valid_any_id ids"
    and "f = None \<or> (\<exists>n\<ge>1. f = Some n)"
  shows "valid_revision (next_revision (latest d) a t n c ids f)"
proof -
  have "1 \<le> r_number (latest d)"
    using valid_documentD(1,3) [OF assms(1)] by (cases "d_revisions d") auto
  then show ?thesis using assms by (auto simp: valid_revision_def revision_fields_ok_def)
qed

lemma edit_finish:
  assumes v: "valid_document d" and so: "wf_sources so" "summary \<noteq> []"
    and ab: "apply_to d (latest d) ops so True = Inr ab"
  obtains ids d' where "sorted_clip_ids (keys (ab_last_operation ab)) = Inr ids"
    "set ids = keys (ab_last_operation ab)"
    "d' = d\<lparr>d_next_clip_number := ab_next_clip_number ab, d_next_bgm_number := ab_next_bgm_number ab,
       d_revisions := d_revisions d @ [next_revision (latest d) author summary now (ab_content ab) ids None]\<rparr>"
    "append_revision d (ab_next_clip_number ab) (ab_next_bgm_number ab)
       (next_revision (latest d) author summary now (ab_content ab) ids None) = Inr d'"
    "valid_document d'"
proof -
  note A = apply_to_ok [OF v valid_documentD(2) [OF v] so(1) ab]
  obtain ids where ids: "sorted_clip_ids (keys (ab_last_operation ab)) = Inr ids"
    "set ids = keys (ab_last_operation ab)"
    using sorted_clip_ids_valid [of "keys (ab_last_operation ab)"] A(5) by auto
  then have "valid_revision (next_revision (latest d) author summary now (ab_content ab) ids None)"
    using A(1,5) so(2) v by (intro next_revision_valid) (auto simp: list_all_iff)
  note P = append_revision_ok [OF v this _ A(2,3)]
  show ?thesis using that [OF ids refl] P A(4) by simp
qed

lemma edit_timelineE:
  assumes "edit_timeline s tid base_number summary ops so author now = Inr (s', w)"
    and s: "store_ok s" "wf_sources so" "summary \<noteq> []"
  obtains d base ab ids where "find_document s tid = Inr d" "revision_of d base_number = Some base"
    "r_number base \<noteq> r_number (latest d) \<longrightarrow> check_conflicts d base ops so = Inr ab"
    "apply_to d (latest d) ops so True = Inr ab" "set ids = keys (ab_last_operation ab)"
    "w_document w = d\<lparr>d_next_clip_number := ab_next_clip_number ab, d_next_bgm_number := ab_next_bgm_number ab,
       d_revisions := d_revisions d @ [next_revision (latest d) author summary now (ab_content ab) ids None]\<rparr>"
    "valid_document (w_document w)" "s' = write_document (w_document w) s" "valid_document d" "d_id d = tid"
proof -
  from assms(1) obtain d base ab where d: "find_document s tid = Inr d"
    and base: "revision_of d base_number = Some base"
    and ab: "(if r_number base \<noteq> r_number (latest d) then check_conflicts d base ops so
        else apply_to d (latest d) ops so True) = Inr ab"
    and rest: "bindE (sorted_clip_ids (keys (ab_last_operation ab))) (\<lambda>ids.
        bindE (append_revision d (ab_next_clip_number ab) (ab_next_bgm_number ab)
          (next_revision (latest d) author summary now (ab_content ab) ids None)) (\<lambda>u.
        Inr (write_document u s,
          \<lparr>w_document = u, w_base_revision = r_number base, w_previous_latest = latest d,
           w_affected = (ab_targets ab \<union> cd_added (diff_content (r_content (latest d)) (ab_content ab)) \<union>
             cd_modified (diff_content (r_content (latest d)) (ab_content ab))) -
             cd_removed (diff_content (r_content (latest d)) (ab_content ab)),
           w_deleted = cd_removed (diff_content (r_content (latest d)) (ab_content ab))\<rparr>))) = Inr (s', w)"
    unfolding edit_timeline_def Let_def
    by (auto simp: bindE_Inr_iff base_revision_def split: option.splits)
  have v: "valid_document d" "d_id d = tid" using find_document_valid [OF s(1) d] by simp_all
  have ab': "apply_to d (latest d) ops so True = Inr ab"
    using ab by (auto split: if_splits elim: check_conflictsD)
  obtain ids d' where f: "sorted_clip_ids (keys (ab_last_operation ab)) = Inr ids"
    "set ids = keys (ab_last_operation ab)"
    "d' = d\<lparr>d_next_clip_number := ab_next_clip_number ab, d_next_bgm_number := ab_next_bgm_number ab,
       d_revisions := d_revisions d @ [next_revision (latest d) author summary now (ab_content ab) ids None]\<rparr>"
    "append_revision d (ab_next_clip_number ab) (ab_next_bgm_number ab)
       (next_revision (latest d) author summary now (ab_content ab) ids None) = Inr d'"
    "valid_document d'"
    by (rule edit_finish [OF v(1) s(2,3) ab'])
  have "s' = write_document d' s" "w_document w = d'" using rest f(1,4) by auto
  then show ?thesis using that [OF d base _ ab' f(2)] ab f(3,5) v by (simp split: if_splits)
qed

section \<open>What a history records\<close>

definition same_outside :: "string set \<Rightarrow> tl_content \<Rightarrow> tl_content \<Rightarrow> bool" where
  "same_outside ids a b =
     (filter (\<lambda>c. c_id c \<notin> ids) (ct_clips a) = filter (\<lambda>c. c_id c \<notin> ids) (ct_clips b) \<and>
      (\<forall>g. g_id g \<notin> ids \<longrightarrow> g \<in> set (ct_bgm a) \<longleftrightarrow> g \<in> set (ct_bgm b)))"

text \<open>Each revision's recorded ids account for every difference from the revision before it.\<close>

fun history_recorded :: "timeline_revision list \<Rightarrow> bool" where
  "history_recorded (p # r # rs) =
     ((case r_changed_clip_ids r of
         None \<Rightarrow> True
       | Some ids \<Rightarrow> same_outside (set ids) (r_content p) (r_content r)) \<and> history_recorded (r # rs))"
| "history_recorded _ = True"

lemma same_outside_refl [simp]: "same_outside ids a a"
  by (simp add: same_outside_def)

lemma same_outside_trans:
  assumes "same_outside I a b" "same_outside J b c"
  shows "same_outside (I \<union> J) a c"
proof -
  have "filter (\<lambda>c. c_id c \<notin> I \<union> J) (ct_clips a) = filter (\<lambda>c. c_id c \<notin> I \<union> J) (ct_clips b)"
    by (rule filter_frame_trans [of "\<lambda>c. c_id c \<notin> I" "ct_clips a" "ct_clips b"]) (use assms in \<open>auto simp: same_outside_def\<close>)
  also have "\<dots> = filter (\<lambda>c. c_id c \<notin> I \<union> J) (ct_clips c)"
    by (rule filter_frame_trans [of "\<lambda>c. c_id c \<notin> J" "ct_clips b" "ct_clips c"]) (use assms in \<open>auto simp: same_outside_def\<close>)
  finally show ?thesis using assms by (simp add: same_outside_def)
qed

lemma diff_same_outside:
  "valid_content a \<Longrightarrow> valid_content b \<Longrightarrow> same_outside (cd_changed (diff_content a b)) a b"
  using unchanged_clips [of a b] unchanged_bgm [of a b] by (auto simp: same_outside_def)

lemma changed_since_same:
  assumes "history_recorded rs" "rs \<noteq> []" "\<And>r. r \<in> set rs \<Longrightarrow> valid_content (r_content r)"
  shows "same_outside (changed_since rs) (r_content (hd rs)) (r_content (last rs))"
  using assms
proof (induction rs rule: changed_since.induct)
  case (1 p r rs)
  let ?ids = "case r_changed_clip_ids r of Some ids \<Rightarrow> set ids
    | None \<Rightarrow> cd_changed (diff_content (r_content p) (r_content r))"
  have "same_outside ?ids (r_content p) (r_content r)"
    using "1.prems" diff_same_outside [of "r_content p" "r_content r"] by (auto split: option.splits)
  moreover have "same_outside (changed_since (r # rs)) (r_content r) (r_content (last (r # rs)))"
    using "1.IH" "1.prems" by simp
  ultimately have "same_outside (?ids \<union> changed_since (r # rs)) (r_content p) (r_content (last (r # rs)))"
    by (rule same_outside_trans)
  then show ?case by simp
qed simp_all

lemma history_recorded_drop: "history_recorded rs \<Longrightarrow> history_recorded (drop n rs)"
proof (induction rs arbitrary: n rule: history_recorded.induct)
  case (1 p r rs)
  then show ?case by (cases n) auto
qed (auto simp: drop_Cons split: nat.split)

lemma history_recorded_append:
  assumes "history_recorded rs" "rs \<noteq> []"
    and "\<And>ids. r_changed_clip_ids r = Some ids \<Longrightarrow> same_outside (set ids) (r_content (last rs)) (r_content r)"
  shows "history_recorded (rs @ [r])"
  using assms
proof (induction rs rule: history_recorded.induct)
  case (1 p q rs)
  then show ?case by simp
qed (auto split: option.splits)

lemma base_at:
  assumes "valid_document d" "revision_of d n = Some base"
  shows "r_number base = n" "drop (nat (r_number base - 1)) (d_revisions d) \<noteq> []"
    "hd (drop (nat (r_number base - 1)) (d_revisions d)) = base"
    "last (drop (nat (r_number base - 1)) (d_revisions d)) = latest d"
proof -
  have n: "1 \<le> n" "n \<le> int (length (d_revisions d))" "base = d_revisions d ! nat (n - 1)"
    using assms(2) by (auto simp: revision_of_def split: if_splits)
  then have lt: "nat (n - 1) < length (d_revisions d)" by linarith
  have "numbered_from 1 (d_revisions d)" using assms(1) by (simp add: valid_document_def document_fields_ok_def)
  then show num: "r_number base = n" using numbered_from_nth [OF _ lt] n by simp
  show "drop (nat (r_number base - 1)) (d_revisions d) \<noteq> []"
    "hd (drop (nat (r_number base - 1)) (d_revisions d)) = base"
    "last (drop (nat (r_number base - 1)) (d_revisions d)) = latest d"
    unfolding num using lt n(3) by (simp_all add: hd_drop_conv_nth latest_def)
qed

section \<open>A concrete store\<close>

definition sample_author :: revision_author where
  "sample_author = \<lparr>au_kind = Creator, au_user_id = None\<rparr>"

definition sample_document :: timeline_document where
  "sample_document =
     \<lparr>d_id = ''tl-0000000a'', d_episode = 1, d_name = ''cut'', d_created_at = ''2025'',
      d_next_clip_number = 3, d_next_bgm_number = 2,
      d_revisions =
        [\<lparr>r_number = 1, r_parent = None, r_author = sample_author, r_summary = ''first'', r_created_at = ''2025'',
          r_content = sample_content, r_changed_clip_ids = None, r_restored_from = None\<rparr>,
         \<lparr>r_number = 2, r_parent = Some 1, r_author = sample_author, r_summary = ''hold'', r_created_at = ''2025'',
          r_content = sample_content\<lparr>ct_clips := [ct_clips sample_content ! 0,
            (ct_clips sample_content ! 1)\<lparr>c_hold_us := 1000000\<rparr>]\<rparr>,
          r_changed_clip_ids = Some [''c2''], r_restored_from = None\<rparr>]\<rparr>"

definition sample_store :: store where
  "sample_store = write_document sample_document []"

lemma sample_document_valid: "valid_document sample_document"
  by code_simp

lemma empty_store_ok: "store_ok []"
  by (simp add: store_ok_def dict_ok_def files_of_def file_at_def)

lemma sample_store_ok [simp]: "store_ok sample_store"
  and sample_store_find [simp]: "find_document sample_store ''tl-0000000a'' = Inr sample_document"
proof -
  have f: "document_fits [] sample_document"
    using sample_document_valid by (simp add: document_fits_def file_at_def files_of_def)
  show "store_ok sample_store" unfolding sample_store_def by (rule docs.put_ok [OF empty_store_ok f])
  show "find_document sample_store ''tl-0000000a'' = Inr sample_document"
    using docs.put_same [OF empty_store_ok f]
    by (simp add: sample_store_def lookup_document_find sample_document_def)
qed

lemma sample_edit_run:
  "is_ok (edit_timeline sample_store ''tl-0000000a'' 1 ''softer'' [SetVolume ''c1'' (1 / 2)] sample_sources
     sample_author ''2026'')"
proof -
  have "\<exists>ab. check_conflicts sample_document (d_revisions sample_document ! 0) [SetVolume ''c1'' (1 / 2)] sample_sources = Inr ab"
    by (simp add: check_conflicts_def apply_to_def run_simps sample_defs sample_document_def latest_def keys_def
        cong: bindE_weak_cong)
  then obtain ab where ab: "check_conflicts sample_document (d_revisions sample_document ! 0)
      [SetVolume ''c1'' (1 / 2)] sample_sources = Inr ab" ..
  then have a: "apply_to sample_document (latest sample_document) [SetVolume ''c1'' (1 / 2)] sample_sources True = Inr ab"
    by (auto elim: check_conflictsD)
  obtain ids d' where "sorted_clip_ids (keys (ab_last_operation ab)) = Inr ids"
    "append_revision sample_document (ab_next_clip_number ab) (ab_next_bgm_number ab)
       (next_revision (latest sample_document) sample_author ''softer'' ''2026'' (ab_content ab) ids None) = Inr d'"
    by (rule edit_finish [OF sample_document_valid _ _ a, of "''softer''" sample_author "''2026''"]) auto
  moreover have "revision_of sample_document 1 = Some (d_revisions sample_document ! 0)"
    "r_number (d_revisions sample_document ! 0) \<noteq> r_number (latest sample_document)" by code_simp+
  ultimately show ?thesis using ab
    by (simp add: edit_timeline_def base_revision_def is_ok_def Let_def)
qed

lemma sample_edit:
  obtains s' w where "edit_timeline sample_store ''tl-0000000a'' 1 ''softer'' [SetVolume ''c1'' (1 / 2)]
    sample_sources sample_author ''2026'' = Inr (s', w)"
  using sample_edit_run by (auto simp: is_ok_iff)

section \<open>The laws\<close>

text \<open>an edit that succeeds appends exactly one revision to the document on disk, numbered after the
  latest and with it as parent; every earlier revision, the id, the name and the episode stay; the
  counters do not go back; the result is a valid document, reading it back gives it, and every
  other timeline reads as before.\<close>

theorem edit_timeline_appends:
  assumes "edit_timeline s tid base_number summary ops so author now = Inr (s', w)"
    and "store_ok s" "wf_sources so" "summary \<noteq> []"
  shows "\<exists>d r. find_document s tid = Inr d \<and> find_document s' tid = Inr (w_document w) \<and>
    d_revisions (w_document w) = d_revisions d @ [r] \<and> r_number r = r_number (latest d) + 1 \<and>
    r_parent r = Some (r_number (latest d)) \<and> d_name (w_document w) = d_name d \<and>
    d_episode (w_document w) = d_episode d \<and> d_next_clip_number d \<le> d_next_clip_number (w_document w) \<and>
    d_next_bgm_number d \<le> d_next_bgm_number (w_document w) \<and> valid_document (w_document w) \<and>
    store_ok s' \<and> (\<forall>k. k \<noteq> tid \<longrightarrow> lookup_document s' k = lookup_document s k)"
proof -
  obtain d base ab ids where d: "find_document s tid = Inr d" and base: "revision_of d base_number = Some base"
    and cc: "r_number base \<noteq> r_number (latest d) \<longrightarrow> check_conflicts d base ops so = Inr ab"
    and ab: "apply_to d (latest d) ops so True = Inr ab" and ids: "set ids = keys (ab_last_operation ab)"
    and w: "w_document w = d\<lparr>d_next_clip_number := ab_next_clip_number ab, d_next_bgm_number := ab_next_bgm_number ab,
       d_revisions := d_revisions d @ [next_revision (latest d) author summary now (ab_content ab) ids None]\<rparr>"
    and u: "valid_document (w_document w)" "s' = write_document (w_document w) s"
    and v: "valid_document d" and id: "d_id d = tid"
    by (rule edit_timelineE [OF assms])
  note A = apply_to_ok [OF v valid_documentD(2) [OF v] assms(3) ab]
  note W = write_updated [OF assms(2) d u(1)]
  show ?thesis
    using d u W A(2,3) by (intro exI [of _ d] exI [of _ "next_revision (latest d) author summary now (ab_content ab) ids None"])
      (simp add: w)
qed

theorem edit_timeline_appends_witness:
  "\<exists>s' w. edit_timeline sample_store ''tl-0000000a'' 1 ''softer'' [SetVolume ''c1'' (1 / 2)]
     sample_sources sample_author ''2026'' = Inr (s', w) \<and> length (d_revisions (w_document w)) = 3"
proof -
  obtain s' w where e: "edit_timeline sample_store ''tl-0000000a'' 1 ''softer'' [SetVolume ''c1'' (1 / 2)]
    sample_sources sample_author ''2026'' = Inr (s', w)" by (rule sample_edit)
  have "length (d_revisions sample_document) = 2" by code_simp
  then show ?thesis using e edit_timeline_appends [OF e] by auto
qed

subsection \<open>How an edit fails\<close>

lemma find_document_error:
  assumes "store_ok s" "find_document s tid = Inl e"
  shows "e = et_fail Timeline_not_found \<or> e = et_fail Timeline_invalid"
proof (cases "is_timeline_id tid \<and> (\<exists>n\<ge>1. file_at s n tid \<noteq> None)")
  case True
  then obtain n f where "1 \<le> n" "file_at s n tid = Some f" "is_timeline_id tid" by auto
  then show ?thesis using assms(2) find_document_eq [OF assms(1)]
    by (auto simp: bindE_Inl_iff parse_document_def split: option.splits if_splits)
next
  case False
  then show ?thesis using assms find_document_none [OF assms(1), of tid]
    by (auto simp: find_document_def split: if_splits)
qed

lemma changed_since_ids:
  assumes "\<And>r. r \<in> set rs \<Longrightarrow> valid_content (r_content r) \<and> revision_fields_ok r"
  shows "finite (changed_since rs) \<and> (\<forall>i\<in>changed_since rs. valid_any_id i)"
  using assms
proof (induction rs rule: changed_since.induct)
  case (1 p r rs)
  then have "valid_content (r_content p)" "valid_content (r_content r)" "revision_fields_ok r" by auto
  have r: "finite (case r_changed_clip_ids r of Some ids \<Rightarrow> set ids
      | None \<Rightarrow> cd_changed (diff_content (r_content p) (r_content r)))"
    "\<forall>i\<in>(case r_changed_clip_ids r of Some ids \<Rightarrow> set ids
      | None \<Rightarrow> cd_changed (diff_content (r_content p) (r_content r))). valid_any_id i"
    using \<open>revision_fields_ok r\<close> diff_ids [OF \<open>valid_content (r_content p)\<close> \<open>valid_content (r_content r)\<close>]
    by (simp_all add: revision_fields_ok_def list_all_iff split: option.splits)
  have "finite (changed_since (r # rs)) \<and> (\<forall>i\<in>changed_since (r # rs). valid_any_id i)"
    using 1 by simp
  then show ?case using r by auto
qed simp_all

lemma reject_conflict_error:
  assumes "finite ids" "\<And>i. i \<in> ids \<Longrightarrow> valid_any_id i" "ids \<noteq> {}" "reject_conflict ids = Inl e"
  shows "\<exists>c. e = Edit_error c \<and> err_code c = Revision_conflict \<and> err_conflicts c \<noteq> []"
  using sorted_clip_ids_valid [OF assms(1,2)] assms(3,4) by (auto simp: reject_conflict_def)

lemma successors_keys: "map_of (successors cs) i \<noteq> None \<Longrightarrow> i \<in> c_id ` set cs"
  by (induction cs rule: successors.induct) (auto split: if_splits)

definition edit_error_codes :: "et_code set" where
  "edit_error_codes = {Timeline_not_found, Timeline_invalid, Revision_not_found, Operation_invalid, Revision_conflict}"

definition edit_error_ok :: "exn \<Rightarrow> bool" where
  "edit_error_ok e =
     (e = Overflow_error \<or>
      (\<exists>c. e = Edit_error c \<and> err_code c \<in> edit_error_codes \<and>
        (err_code c = Revision_conflict \<longrightarrow> err_conflicts c \<noteq> [])))"

lemma op_error_edit: "op_error n e \<Longrightarrow> edit_error_ok e"
  by (auto simp: op_error_def edit_error_ok_def op_invalid_def edit_error_codes_def)

lemma apply_to_edit_error:
  "valid_document d \<Longrightarrow> r \<in> set (d_revisions d) \<Longrightarrow> wf_sources so \<Longrightarrow> apply_to d r ops so cw = Inl e \<Longrightarrow> edit_error_ok e"
  using apply_to_error op_error_edit by blast

lemma check_conflicts_error:
  assumes v: "valid_document d" "base \<in> set (d_revisions d)" and so: "wf_sources so"
    and e: "check_conflicts d base ops so = Inl e"
  shows "edit_error_ok e"
proof -
  note D = valid_documentD [OF v(1)]
  have "finite (since_revision d base) \<and> (\<forall>i\<in>since_revision d base. valid_any_id i)"
    unfolding since_revision_def by (rule changed_since_ids) (use D(8) in \<open>auto dest: in_set_dropD\<close>)
  then have since: "finite (X \<inter> since_revision d base)" "i \<in> X \<inter> since_revision d base \<Longrightarrow> valid_any_id i" for X i
    by auto
  have conflict: "edit_error_ok e'" if "\<exists>c. e' = Edit_error c \<and> err_code c = Revision_conflict \<and> err_conflicts c \<noteq> []" for e'
    using that by (auto simp: edit_error_ok_def edit_error_codes_def)
  have hit: "edit_error_ok e'" if "X \<inter> since_revision d base \<noteq> {}"
    "reject_conflict (X \<inter> since_revision d base) = Inl e'" for X e'
    using conflict [OF reject_conflict_error [OF since(1) _ that]] since(2) by blast
  show ?thesis
  proof (cases "apply_to d base ops so False")
    case (Inl e')
    then have "e = e'" using e by (simp add: check_conflicts_def Let_def)
    then show ?thesis using Inl apply_to_edit_error [OF v so] by simp
  next
    case b: (Inr on_base)
    show ?thesis
    proof (cases "apply_to d (latest d) ops so False")
      case (Inl e')
      then show ?thesis
        using e b hit apply_to_edit_error [OF v(1) D(2) so]
        by (simp add: check_conflicts_def Let_def since_revision_def [symmetric] split: if_splits)
    next
      case l: (Inr on_latest)
      let ?moved = "set (filter (\<lambda>i. map_of (successors (ct_clips (ab_content on_base))) i \<noteq>
         map_of (successors (ct_clips (ab_content on_latest))) i) (transition_targets ops))"
      have "valid_any_id i" if "i \<in> ?moved" for i
      proof -
        have "map_of (successors (ct_clips (ab_content on_base))) i \<noteq> None \<or>
            map_of (successors (ct_clips (ab_content on_latest))) i \<noteq> None" using that by auto
        then have "i \<in> c_id ` set (ct_clips (ab_content on_base)) \<union> c_id ` set (ct_clips (ab_content on_latest))"
          using successors_keys by blast
        then show ?thesis
          using apply_to_ok(1) [OF v so b] apply_to_ok(1) [OF v(1) D(2) so l] valid_clip_any_id
          by (auto simp: valid_content_def)
      qed
      then have m: "\<exists>c. e' = Edit_error c \<and> err_code c = Revision_conflict \<and> err_conflicts c \<noteq> []"
        if "?moved \<noteq> {}" "reject_conflict ?moved = Inl e'" for e'
        using that by (intro reject_conflict_error) auto
      have m': "edit_error_ok e'" if "?moved \<noteq> {}" "reject_conflict ?moved = Inl e'" for e'
        by (rule conflict [OF m [OF that]])
      have f: "edit_error_ok e'" if "apply_to d (latest d) ops so True = Inl e'" for e'
        by (rule apply_to_edit_error [OF v(1) D(2) so that])
      have "(let since = since_revision d base;
          touched = (ab_referenced on_base \<union> keys (ab_last_operation on_base)) \<inter> since
        in if touched \<noteq> {} then reject_conflict touched
        else let again = keys (ab_last_operation on_latest) \<inter> since
          in if again \<noteq> {} then reject_conflict again
          else if ?moved \<noteq> {} then reject_conflict ?moved
          else apply_to d (latest d) ops so True) = Inl e"
        using e unfolding check_conflicts_def Let_def since_revision_def [symmetric] b l
        by (simp only: bindE.simps b l)
      then show ?thesis unfolding Let_def
        by (simp only: split: if_split_asm) (erule (1) hit m' | erule f)+
    qed
  qed
qed

text \<open>an edit on a well-formed store fails only because the timeline or the base revision is missing
  or unreadable, because one of its operations is invalid, because of a conflict (which names at
  least one clip), or by the overflow of a number of seconds; no internal validation error and no
  \<open>ValueError\<close> escapes.\<close>

theorem edit_timeline_errors:
  assumes "edit_timeline s tid base_number summary ops so author now = Inl e"
    and "store_ok s" "wf_sources so" "summary \<noteq> []"
  shows "edit_error_ok e"
proof (cases "find_document s tid")
  case (Inl e')
  then show ?thesis using assms(1) find_document_error [OF assms(2) Inl]
    by (auto simp: edit_timeline_def edit_error_ok_def et_fail_def edit_error_codes_def)
next
  case (Inr d)
  have v: "valid_document d" using find_document_valid [OF assms(2) Inr] by simp
  show ?thesis
  proof (cases "revision_of d base_number")
    case None
    then show ?thesis using assms(1) Inr
      by (auto simp: edit_timeline_def base_revision_def edit_error_ok_def et_fail_def edit_error_codes_def)
  next
    case (Some base)
    let ?run = "if r_number base \<noteq> r_number (latest d) then check_conflicts d base ops so
        else apply_to d (latest d) ops so True"
    show ?thesis
    proof (cases ?run)
      case (Inl e')
      then have "e = e'" using assms(1) Inr Some by (simp add: edit_timeline_def base_revision_def Let_def)
      then show ?thesis
        using Inl check_conflicts_error [OF v revision_ofD [OF Some] assms(3)]
          apply_to_edit_error [OF v valid_documentD(2) [OF v] assms(3)]
        by (simp split: if_splits)
    next
      case ab: (Inr ab)
      then have ab': "apply_to d (latest d) ops so True = Inr ab"
        by (auto split: if_splits elim: check_conflictsD)
      obtain ids d' where "sorted_clip_ids (keys (ab_last_operation ab)) = Inr ids"
        "append_revision d (ab_next_clip_number ab) (ab_next_bgm_number ab)
           (next_revision (latest d) author summary now (ab_content ab) ids None) = Inr d'"
        by (rule edit_finish [OF v assms(3,4) ab', of author now]) auto
      then show ?thesis using assms(1) Inr Some ab by (simp add: edit_timeline_def base_revision_def Let_def)
    qed
  qed
qed

theorem edit_timeline_errors_witness:
  "edit_error_ok (et_fail Revision_not_found)"
proof -
  have "revision_of sample_document 7 = None" by code_simp
  then have "edit_timeline sample_store ''tl-0000000a'' 7 ''softer'' [] sample_sources sample_author ''2026'' =
      Inl (et_fail Revision_not_found)"
    by (simp add: edit_timeline_def base_revision_def)
  then show ?thesis by (rule edit_timeline_errors) simp_all
qed

subsection \<open>Optimistic concurrency\<close>

lemma same_elsewhere:
  assumes "filter (\<lambda>c. c_id c \<notin> K) xs = filter (\<lambda>c. c_id c \<notin> K) ys" "K \<inter> S = {}"
  shows "filter (\<lambda>c. c_id c \<in> S) xs = filter (\<lambda>c. c_id c \<in> S) ys"
  by (rule filter_frame_trans [OF assms(1) refl]) (use assms(2) in auto)

text \<open>C3: no lost update. Whatever revision an edit is based on, the clips that were changed after that
  revision (as the history records it) are in the new revision exactly as the latest one had them,
  in the same relative order, and so are the BGM clips.\<close>

theorem edit_timeline_no_lost_update:
  assumes "edit_timeline s tid base_number summary ops so author now = Inr (s', w)"
    and "store_ok s" "wf_sources so" "summary \<noteq> []"
    and "find_document s tid = Inr d" "revision_of d base_number = Some base"
    and "since = changed_since (drop (nat (base_number - 1)) (d_revisions d))"
  shows "filter (\<lambda>c. c_id c \<in> since) (ct_clips (r_content (latest (w_document w)))) =
      filter (\<lambda>c. c_id c \<in> since) (ct_clips (r_content (latest d))) \<and>
    (\<forall>g. g_id g \<in> since \<longrightarrow>
       g \<in> set (ct_bgm (r_content (latest (w_document w)))) \<longleftrightarrow> g \<in> set (ct_bgm (r_content (latest d))))"
proof -
  obtain d' base' ab ids where d: "find_document s tid = Inr d'" and base: "revision_of d' base_number = Some base'"
    and cc: "r_number base' \<noteq> r_number (latest d') \<longrightarrow> check_conflicts d' base' ops so = Inr ab"
    and ab: "apply_to d' (latest d') ops so True = Inr ab" and ids: "set ids = keys (ab_last_operation ab)"
    and w: "w_document w = d'\<lparr>d_next_clip_number := ab_next_clip_number ab, d_next_bgm_number := ab_next_bgm_number ab,
       d_revisions := d_revisions d' @ [next_revision (latest d') author summary now (ab_content ab) ids None]\<rparr>"
    and u: "valid_document (w_document w)" "s' = write_document (w_document w) s"
    and v: "valid_document d'" and id: "d_id d' = tid"
    by (rule edit_timelineE [OF assms(1-4)])
  have eq: "d' = d" "base' = base" using d base assms(5,6) by simp_all
  have "r_number base = base_number" using base_at(1) [OF v base] eq by simp
  then have since: "since = since_revision d base" using assms(7) by (simp add: since_revision_def)
  have none: "keys (ab_last_operation ab) \<inter> since = {}"
  proof (cases "r_number base = r_number (latest d)")
    case True
    then show ?thesis using since_latest v eq since by simp
  next
    case False
    then have "check_conflicts d base ops so = Inr ab" using cc eq by simp
    then show ?thesis unfolding since by (rule check_conflictsD)
  qed
  note A = apply_to_ok [OF v valid_documentD(2) [OF v] assms(3) ab]
  have "filter (\<lambda>c. c_id c \<in> since) (ct_clips (r_content (latest d))) =
      filter (\<lambda>c. c_id c \<in> since) (ct_clips (ab_content ab))"
    using same_elsewhere [OF A(6) none] eq by simp
  moreover have "g \<in> set (ct_bgm (r_content (latest d))) \<longleftrightarrow> g \<in> set (ct_bgm (ab_content ab))" if "g_id g \<in> since" for g
    using A(7) [of g] that none eq by auto
  ultimately show ?thesis by (simp add: w)
qed

theorem edit_timeline_no_lost_update_witness:
  "\<exists>s' w. edit_timeline sample_store ''tl-0000000a'' 1 ''softer'' [SetVolume ''c1'' (1 / 2)]
     sample_sources sample_author ''2026'' = Inr (s', w) \<and>
     filter (\<lambda>c. c_id c \<in> {''c2''}) (ct_clips (r_content (latest (w_document w)))) =
     filter (\<lambda>c. c_id c \<in> {''c2''}) (ct_clips (r_content (latest sample_document)))"
proof -
  obtain s' w where e: "edit_timeline sample_store ''tl-0000000a'' 1 ''softer'' [SetVolume ''c1'' (1 / 2)]
    sample_sources sample_author ''2026'' = Inr (s', w)" by (rule sample_edit)
  have r: "revision_of sample_document 1 = Some (d_revisions sample_document ! 0)" by code_simp
  have "{''c2''} = changed_since (drop (nat (1 - 1)) (d_revisions sample_document))"
    by (simp add: sample_document_def)
  from edit_timeline_no_lost_update [OF e _ _ _ _ r this] e show ?thesis by auto
qed

text \<open>An edit takes effect on what its author saw. When the history records its changes, every clip
  that the batch names or changes on its base revision is the same clip in the latest revision it is
  applied to, and every clip given a transition is followed by the same clip on both.\<close>

theorem edit_timeline_sees_base:
  assumes "edit_timeline s tid base_number summary ops so author now = Inr (s', w)"
    and "store_ok s" "wf_sources so" "summary \<noteq> []"
    and "find_document s tid = Inr d" "revision_of d base_number = Some base"
    and "history_recorded (d_revisions d)" "r_number base \<noteq> r_number (latest d)"
  shows "\<exists>on_base. apply_to d base ops so False = Inr on_base \<and>
    (\<forall>i \<in> ab_referenced on_base \<union> keys (ab_last_operation on_base).
       filter (\<lambda>c. c_id c = i) (ct_clips (r_content base)) =
       filter (\<lambda>c. c_id c = i) (ct_clips (r_content (latest d)))) \<and>
    (\<forall>i \<in> set (transition_targets ops).
       map_of (successors (ct_clips (ab_content on_base))) i =
       map_of (successors (ct_clips (r_content (latest (w_document w))))) i)"
proof -
  obtain d' base' ab ids where d: "find_document s tid = Inr d'" and base: "revision_of d' base_number = Some base'"
    and cc: "r_number base' \<noteq> r_number (latest d') \<longrightarrow> check_conflicts d' base' ops so = Inr ab"
    and ab: "apply_to d' (latest d') ops so True = Inr ab" and ids: "set ids = keys (ab_last_operation ab)"
    and w: "w_document w = d'\<lparr>d_next_clip_number := ab_next_clip_number ab, d_next_bgm_number := ab_next_bgm_number ab,
       d_revisions := d_revisions d' @ [next_revision (latest d') author summary now (ab_content ab) ids None]\<rparr>"
    and u: "valid_document (w_document w)" "s' = write_document (w_document w) s"
    and v: "valid_document d'" and id: "d_id d' = tid"
    by (rule edit_timelineE [OF assms(1-4)])
  have eq: "d' = d" "base' = base" using d base assms(5,6) by simp_all
  obtain on_base where b: "apply_to d base ops so False = Inr on_base"
    "(ab_referenced on_base \<union> keys (ab_last_operation on_base)) \<inter> since_revision d base = {}"
    "\<forall>i\<in>set (transition_targets ops).
       map_of (successors (ct_clips (ab_content on_base))) i = map_of (successors (ct_clips (ab_content ab))) i"
    by (rule check_conflictsD [OF mp [OF cc [unfolded eq] assms(8)]])
  note B = base_at [OF v [unfolded eq] assms(6)]
  have "same_outside (since_revision d base) (r_content base) (r_content (latest d))"
    using changed_since_same [OF history_recorded_drop [OF assms(7)] B(2)]
      valid_documentD(8) [OF v [unfolded eq]] B(3,4)
    by (auto simp: since_revision_def dest: in_set_dropD)
  then have "filter (\<lambda>c. c_id c = i) (ct_clips (r_content base)) = filter (\<lambda>c. c_id c = i) (ct_clips (r_content (latest d)))"
    if "i \<in> ab_referenced on_base \<union> keys (ab_last_operation on_base)" for i
    using same_elsewhere [of "since_revision d base" _ _ "{i}"] that b(2) by (auto simp: same_outside_def)
  then show ?thesis using b w by auto
qed

theorem edit_timeline_sees_base_witness:
  "\<exists>on_base. apply_to sample_document (d_revisions sample_document ! 0) [SetVolume ''c1'' (1 / 2)] sample_sources False = Inr on_base \<and>
     (\<forall>i \<in> keys (ab_last_operation on_base).
       filter (\<lambda>c. c_id c = i) (ct_clips (r_content (d_revisions sample_document ! 0))) =
       filter (\<lambda>c. c_id c = i) (ct_clips (r_content (latest sample_document))))"
proof -
  obtain s' w where e: "edit_timeline sample_store ''tl-0000000a'' 1 ''softer'' [SetVolume ''c1'' (1 / 2)]
    sample_sources sample_author ''2026'' = Inr (s', w)" by (rule sample_edit)
  have r: "revision_of sample_document 1 = Some (d_revisions sample_document ! 0)"
    "r_number (d_revisions sample_document ! 0) \<noteq> r_number (latest sample_document)" by code_simp+
  have "history_recorded (d_revisions sample_document)"
    by (simp add: sample_document_def sample_content_def same_outside_def)
  from edit_timeline_sees_base [OF e _ _ _ _ r(1) this r(2)] show ?thesis by auto
qed

subsection \<open>Recorded histories and restoring\<close>

lemma restore_timelineE:
  assumes "restore_timeline s tid number author now = Inr (s', w)" and s: "store_ok s"
  obtains d target ids where "find_document s tid = Inr d" "revision_of d number = Some target"
    "set ids = restore_changed_clip_ids (r_content (latest d)) (r_content target)"
    "w_document w = d\<lparr>d_next_clip_number := d_next_clip_number d, d_next_bgm_number := d_next_bgm_number d,
       d_revisions := d_revisions d @ [next_revision (latest d) author (restore_summary number) now
         (r_content target) ids (Some number)]\<rparr>"
    "valid_document (w_document w)" "s' = write_document (w_document w) s" "valid_document d"
proof -
  from assms(1) obtain d target ids u where d: "find_document s tid = Inr d" "revision_of d number = Some target"
    and ids: "sorted_clip_ids (restore_changed_clip_ids (r_content (latest d)) (r_content target)) = Inr ids"
    and u: "append_revision d (d_next_clip_number d) (d_next_bgm_number d)
       (next_revision (latest d) author (restore_summary number) now (r_content target) ids (Some number)) = Inr u"
    and w: "s' = write_document u s" "w_document w = u"
    unfolding restore_timeline_def Let_def
    by (auto simp: bindE_Inr_iff base_revision_def split: option.splits if_splits)
  have v: "valid_document d" using find_document_valid [OF s d(1)] by simp
  note D = valid_documentD [OF v]
  have ct: "valid_content (r_content target)" "valid_content (r_content (latest d))"
    "ids_allocated (d_next_clip_number d) (d_next_bgm_number d) (r_content target)"
    using D(2,8) revision_ofD [OF d(2)] by blast+
  have set_ids: "set ids = restore_changed_clip_ids (r_content (latest d)) (r_content target)"
    using ids sorted_clip_ids_valid [OF diff_ids(3,4) [OF ct(2,1)]] by auto
  have "1 \<le> number" using d(2) by (auto simp: revision_of_def split: if_splits)
  then have "valid_revision (next_revision (latest d) author (restore_summary number) now (r_content target) ids (Some number))"
    using v ct(1) set_ids diff_ids(4) [OF ct(2,1)]
    by (intro next_revision_valid) (auto simp: restore_summary_def list_all_iff)
  note P = append_revision_ok [OF v this _ order.refl order.refl]
  show ?thesis using that [OF d set_ids _ _ _ v] P u ct(3) w by simp
qed

text \<open>restoring appends a revision whose content is exactly that of the restored one; every earlier
  revision and both counters stay, so the restored-over state remains in the history and can be
  restored in turn, and no other timeline changes.\<close>

theorem restore_timeline_content:
  assumes "restore_timeline s tid number author now = Inr (s', w)" and "store_ok s"
    and "find_document s tid = Inr d" and "revision_of d number = Some target"
  shows "\<exists>r. d_revisions (w_document w) = d_revisions d @ [r] \<and> r_content r = r_content target \<and>
    r_restored_from r = Some number \<and> r_number r = r_number (latest d) + 1 \<and>
    d_next_clip_number (w_document w) = d_next_clip_number d \<and>
    d_next_bgm_number (w_document w) = d_next_bgm_number d \<and>
    find_document s' tid = Inr (w_document w) \<and> store_ok s' \<and>
    (\<forall>k. k \<noteq> tid \<longrightarrow> lookup_document s' k = lookup_document s k)"
proof -
  obtain d' target' ids where d': "find_document s tid = Inr d'" "revision_of d' number = Some target'"
    and ids: "set ids = restore_changed_clip_ids (r_content (latest d')) (r_content target')"
    and w: "w_document w = d'\<lparr>d_next_clip_number := d_next_clip_number d', d_next_bgm_number := d_next_bgm_number d',
       d_revisions := d_revisions d' @ [next_revision (latest d') author (restore_summary number) now
         (r_content target') ids (Some number)]\<rparr>"
    and v: "valid_document (w_document w)" "s' = write_document (w_document w) s" and v': "valid_document d'"
    by (rule restore_timelineE [OF assms(1,2)])
  have eq: "d' = d" "target' = target" using d' assms(3,4) by simp_all
  note W = write_updated [OF assms(2,3) v(1)]
  show ?thesis using W v(2) w eq
    by (intro exI [of _ "next_revision (latest d) author (restore_summary number) now (r_content target) ids (Some number)"])
      simp
qed

lemma sample_restore:
  obtains s' w where "restore_timeline sample_store ''tl-0000000a'' 1 sample_author ''2026'' = Inr (s', w)"
proof -
  have "is_ok (sorted_clip_ids (restore_changed_clip_ids (r_content (latest sample_document))
      (r_content (d_revisions sample_document ! 0))))" by code_simp
  then obtain ids where ids: "sorted_clip_ids (restore_changed_clip_ids (r_content (latest sample_document))
      (r_content (d_revisions sample_document ! 0))) = Inr ids" by (auto simp: is_ok_iff)
  have r: "revision_of sample_document 1 = Some (d_revisions sample_document ! 0)"
    "r_content (d_revisions sample_document ! 0) \<noteq> r_content (latest sample_document)" by code_simp+
  have v: "d_revisions sample_document ! 0 \<in> set (d_revisions sample_document)" by code_simp
  note D = valid_documentD [OF sample_document_valid]
  have "set ids = restore_changed_clip_ids (r_content (latest sample_document)) (r_content (d_revisions sample_document ! 0))"
    using ids sorted_clip_ids_valid [OF diff_ids(3,4)] D(2,8) v by fastforce
  then have "valid_revision (next_revision (latest sample_document) sample_author (restore_summary 1) ''2026''
      (r_content (d_revisions sample_document ! 0)) ids (Some 1))"
    using D(2,8) v diff_ids(4) [of "r_content (latest sample_document)" "r_content (d_revisions sample_document ! 0)"]
      sample_document_valid
    by (intro next_revision_valid) (auto simp: restore_summary_def list_all_iff)
  then have "append_revision sample_document 3 2 (next_revision (latest sample_document) sample_author (restore_summary 1) ''2026''
      (r_content (d_revisions sample_document ! 0)) ids (Some 1)) \<noteq> Inl e" for e
    using append_revision_ok(1) [OF sample_document_valid, of _ 3 2] D(8) [OF v]
    by (simp add: sample_document_def)
  then show ?thesis
    using that r ids by (cases "append_revision sample_document 3 2 (next_revision (latest sample_document) sample_author
      (restore_summary 1) ''2026'' (r_content (d_revisions sample_document ! 0)) ids (Some 1))")
      (auto simp: restore_timeline_def base_revision_def Let_def sample_document_def)
qed

theorem restore_timeline_content_witness:
  "\<exists>s' w r. restore_timeline sample_store ''tl-0000000a'' 1 sample_author ''2026'' = Inr (s', w) \<and>
     d_revisions (w_document w) = d_revisions sample_document @ [r] \<and> r_content r = sample_content"
proof -
  obtain s' w where e: "restore_timeline sample_store ''tl-0000000a'' 1 sample_author ''2026'' = Inr (s', w)"
    by (rule sample_restore)
  have r: "revision_of sample_document 1 = Some (d_revisions sample_document ! 0)"
    "r_content (d_revisions sample_document ! 0) = sample_content" by code_simp+
  from restore_timeline_content [OF e _ _ r(1)] show ?thesis using e r(2) by auto
qed

text \<open>C32: histories stay recorded. When the ids recorded by every revision account for its differences
  from the revision before, that is still so after an edit and after a restore.\<close>

theorem history_stays_recorded:
  assumes "store_ok s" and "find_document s tid = Inr d" and "history_recorded (d_revisions d)"
    and "(\<exists>base_number summary ops so author now. wf_sources so \<and> summary \<noteq> [] \<and>
            edit_timeline s tid base_number summary ops so author now = Inr (s', w)) \<or>
         (\<exists>number author now. restore_timeline s tid number author now = Inr (s', w))"
  shows "history_recorded (d_revisions (w_document w))"
  using assms(4)
proof (elim disjE exE conjE)
  fix base_number summary ops so author now
  assume so: "wf_sources so" "summary \<noteq> []"
    and e: "edit_timeline s tid base_number summary ops so author now = Inr (s', w)"
  obtain d' base ab ids where d: "find_document s tid = Inr d'" and base: "revision_of d' base_number = Some base"
    and cc: "r_number base \<noteq> r_number (latest d') \<longrightarrow> check_conflicts d' base ops so = Inr ab"
    and ab: "apply_to d' (latest d') ops so True = Inr ab" and ids: "set ids = keys (ab_last_operation ab)"
    and w: "w_document w = d'\<lparr>d_next_clip_number := ab_next_clip_number ab, d_next_bgm_number := ab_next_bgm_number ab,
       d_revisions := d_revisions d' @ [next_revision (latest d') author summary now (ab_content ab) ids None]\<rparr>"
    and u: "valid_document (w_document w)" "s' = write_document (w_document w) s"
    and v: "valid_document d'" and id: "d_id d' = tid"
    by (rule edit_timelineE [OF e assms(1) so])
  note A = apply_to_ok [OF v valid_documentD(2) [OF v] so(1) ab]
  have "d' = d" using d assms(2) by simp
  then show ?thesis using w assms(3) A(6,7) ids valid_documentD(1) [OF v]
    by (auto simp: same_outside_def latest_def intro!: history_recorded_append)
next
  fix number author now
  assume e: "restore_timeline s tid number author now = Inr (s', w)"
  obtain d' target ids where d': "find_document s tid = Inr d'" "revision_of d' number = Some target"
    and ids: "set ids = restore_changed_clip_ids (r_content (latest d')) (r_content target)"
    and w: "w_document w = d'\<lparr>d_next_clip_number := d_next_clip_number d', d_next_bgm_number := d_next_bgm_number d',
       d_revisions := d_revisions d' @ [next_revision (latest d') author (restore_summary number) now
         (r_content target) ids (Some number)]\<rparr>"
    and u: "valid_document (w_document w)" "s' = write_document (w_document w) s"
    and v: "valid_document d'"
    by (rule restore_timelineE [OF e assms(1)])
  have vc: "valid_content (r_content (latest d'))" "valid_content (r_content target)"
    using valid_documentD(2,8) [OF v] revision_ofD [OF d'(2)] by blast+
  have "cd_changed (diff_content (r_content (latest d')) (r_content target)) \<subseteq> set ids"
    unfolding ids by (auto simp: restore_changed_clip_ids_def Let_def)
  then have "same_outside (set ids) (r_content (latest d')) (r_content target)"
    using unchanged_clips [OF vc] unchanged_bgm [OF vc] by (auto simp: same_outside_def)
  moreover have "d' = d" using d'(1) assms(2) by simp
  ultimately show ?thesis using w assms(3) valid_documentD(1) [OF v]
    by (auto simp: latest_def intro!: history_recorded_append)
qed

theorem history_stays_recorded_witness:
  "\<exists>s' w. restore_timeline sample_store ''tl-0000000a'' 1 sample_author ''2026'' = Inr (s', w) \<and>
     history_recorded (d_revisions (w_document w))"
proof -
  obtain s' w where e: "restore_timeline sample_store ''tl-0000000a'' 1 sample_author ''2026'' = Inr (s', w)"
    by (rule sample_restore)
  have "history_recorded (d_revisions sample_document)"
    by (simp add: sample_document_def sample_content_def same_outside_def)
  then have "history_recorded (d_revisions (w_document w))"
    by (rule history_stays_recorded [OF sample_store_ok sample_store_find]) (use e in blast)
  then show ?thesis using e by blast
qed

end
