(* ===== verification/Render_Plan.thy ===== *)
theory Render_Plan
  imports Timeline_Readout
begin

text \<open>
  The rendering plan of a final cut (\<open>lib/final_cut/render_plan.py\<close>) and the table of transitions
  (\<open>lib/edit_timeline/transitions.py\<close>): the clips on the grid of output frames, the windows of their
  transitions, and the segments between hard cuts. Frame numbers are exact: \<open>round\<close> of a
  \<open>Fraction\<close> is \<^const>\<open>rne\<close> of a rational.
\<close>

section \<open>The table of transitions\<close>

text \<open>The name of a preset in the draft format, a Chinese word, is left out.\<close>

record transition_preset =
  tp_xfade :: string
  tp_fade_color :: "string option"

definition overlapping :: "transition_preset \<Rightarrow> bool" where
  "overlapping p = (tp_fade_color p = None)"

definition xfade_only :: "string \<Rightarrow> transition_preset" where
  "xfade_only name = \<lparr>tp_xfade = name, tp_fade_color = None\<rparr>"

fun preset_of :: "transition_type \<Rightarrow> transition_preset" where
  "preset_of DISSOLVE = xfade_only ''fade''"
| "preset_of FADE_BLACK = \<lparr>tp_xfade = ''fadeblack'', tp_fade_color = Some ''black''\<rparr>"
| "preset_of FADE_WHITE = \<lparr>tp_xfade = ''fadewhite'', tp_fade_color = Some ''white''\<rparr>"
| "preset_of PUSH_LEFT = xfade_only ''slideleft''"
| "preset_of PUSH_RIGHT = xfade_only ''slideright''"
| "preset_of PUSH_UP = xfade_only ''slideup''"
| "preset_of PUSH_DOWN = xfade_only ''slidedown''"
| "preset_of WIPE_LEFT = xfade_only ''wipeleft''"
| "preset_of WIPE_RIGHT = xfade_only ''wiperight''"
| "preset_of WIPE_UP = xfade_only ''wipeup''"
| "preset_of WIPE_DOWN = xfade_only ''wipedown''"
| "preset_of CIRCLE = xfade_only ''circleopen''"
| "preset_of CURTAIN_HORIZONTAL = xfade_only ''horzopen''"
| "preset_of CURTAIN_VERTICAL = xfade_only ''vertopen''"
| "preset_of MOSAIC = xfade_only ''pixelize''"
| "preset_of BLUR = xfade_only ''hblur''"
| "preset_of RADIAL = xfade_only ''radial''"
| "preset_of GRADIENT_WIPE = xfade_only ''smoothleft''"
| "preset_of SQUEEZE = xfade_only ''squeezeh''"

section \<open>The canvas\<close>

record output_profile =
  op_width :: int
  op_height :: int
  op_fps :: int

definition frame_at :: "output_profile \<Rightarrow> int \<Rightarrow> int" where
  "frame_at p us = rne (of_int (us * op_fps p) / of_int microseconds_per_second)"

definition profile_seconds :: "output_profile \<Rightarrow> int \<Rightarrow> pyfloat" where
  "profile_seconds p frames = fl (of_int frames / of_int (op_fps p))"

definition final_cut_fps :: int where
  "final_cut_fps = 30"

definition short_edge :: int where
  "short_edge = 1080"

definition aspect_fraction :: "string \<Rightarrow> rat" where
  "aspect_fraction aspect_ratio =
     (case py_partition CHR '':'' aspect_ratio of (width_part, _, height_part) \<Rightarrow>
        (case (py_int width_part, py_int height_part) of
           (Some w, Some h) \<Rightarrow> if h = 0 then 16 / 9 else of_int w / of_int h
         | _ \<Rightarrow> 16 / 9))"

definition output_profile_for_aspect_ratio :: "string \<Rightarrow> output_profile" where
  "output_profile_for_aspect_ratio aspect_ratio =
     (let parsed = aspect_fraction aspect_ratio;
          ratio = (if parsed \<le> 0 then 16 / 9 else parsed)
      in if 1 \<le> ratio
         then \<lparr>op_width = rne (of_int short_edge * ratio / 2) * 2, op_height = short_edge, op_fps = final_cut_fps\<rparr>
         else \<lparr>op_width = short_edge, op_height = rne (of_int short_edge / ratio / 2) * 2, op_fps = final_cut_fps\<rparr>)"

section \<open>The clips to render\<close>

record render_media =
  rm_path :: string
  rm_video_version :: int
  rm_duration_us :: int
  rm_has_audio :: bool

record render_clip =
  rc_clip_id :: string
  rc_unit_id :: string
  rc_video_path :: string
  rc_source_in_us :: int
  rc_source_duration_us :: int
  rc_hold_us :: int
  rc_source_volume :: pyfloat
  rc_has_audio :: bool
  rc_transition :: "transition option"
  rc_media_duration_us :: int

definition rc_source_out_us :: "render_clip \<Rightarrow> int" where
  "rc_source_out_us c = rc_source_in_us c + rc_source_duration_us c"

definition render_clip_of :: "(string \<Rightarrow> render_media option) \<Rightarrow> edit_clip \<Rightarrow> render_clip option" where
  "render_clip_of media c =
     map_option (\<lambda>m.
       let window = effective_source_range_us c (Some (rm_video_version m)) (rm_duration_us m)
       in \<lparr>rc_clip_id = c_id c, rc_unit_id = c_unit_id c, rc_video_path = rm_path m,
           rc_source_in_us = fst window, rc_source_duration_us = snd window - fst window,
           rc_hold_us = c_hold_us c, rc_source_volume = c_source_volume c, rc_has_audio = rm_has_audio m,
           rc_transition = c_transition c, rc_media_duration_us = rm_duration_us m\<rparr>) (media (c_unit_id c))"

definition render_clips :: "edit_clip list \<Rightarrow> (string \<Rightarrow> render_media option) \<Rightarrow> render_clip list" where
  "render_clips cs media = List.map_filter (render_clip_of media) cs"

section \<open>Windows\<close>

record extension =
  x_source_frames :: int
  x_freeze_frames :: int

definition no_extension :: extension where
  "no_extension = \<lparr>x_source_frames = 0, x_freeze_frames = 0\<rparr>"

definition x_frames :: "extension \<Rightarrow> int" where
  "x_frames x = x_source_frames x + x_freeze_frames x"

definition borrow_frames :: "int \<Rightarrow> int \<Rightarrow> int \<Rightarrow> extension" where
  "borrow_frames needed available_us fps =
     (let available = max available_us 0 * fps div microseconds_per_second;
          source = min needed available
      in \<lparr>x_source_frames = source, x_freeze_frames = needed - source\<rparr>)"

record fade =
  fd_frames :: int
  fd_color :: string

record planned_clip =
  pl_render :: render_clip
  pl_start_frame :: int
  pl_source_frames :: int
  pl_hold_frames :: int
  pl_lead :: extension
  pl_trail :: extension
  pl_fade_in :: "fade option"
  pl_fade_out :: "fade option"

definition pl_frames :: "planned_clip \<Rightarrow> int" where
  "pl_frames p = pl_source_frames p + pl_hold_frames p"

definition pl_end_frame :: "planned_clip \<Rightarrow> int" where
  "pl_end_frame p = pl_start_frame p + pl_frames p"

definition pl_stream_frames :: "planned_clip \<Rightarrow> int" where
  "pl_stream_frames p = x_frames (pl_lead p) + pl_frames p + x_frames (pl_trail p)"

record crossfade =
  cf_effect :: string
  cf_offset_frames :: int
  cf_frames :: int

record render_segment =
  sg_clips :: "planned_clip list"
  sg_crossfades :: "crossfade list"

definition sg_frames :: "render_segment \<Rightarrow> int" where
  "sg_frames s = sum_list (map pl_frames (sg_clips s))"

definition sg_start_frame :: "render_segment \<Rightarrow> int" where
  "sg_start_frame s = pl_start_frame (hd (sg_clips s))"

record render_plan =
  rp_profile :: output_profile
  rp_segments :: "render_segment list"
  rp_total_frames :: int

definition rp_clips :: "render_plan \<Rightarrow> planned_clip list" where
  "rp_clips p = concat (map sg_clips (rp_segments p))"

definition rp_duration_seconds :: "render_plan \<Rightarrow> pyfloat" where
  "rp_duration_seconds p = profile_seconds (rp_profile p) (rp_total_frames p)"

definition window_frames :: "transition \<Rightarrow> output_profile \<Rightarrow> int \<times> int" where
  "window_frames t p =
     (let frames = max (frame_at p (t_duration_us t)) 1; before = frames div 2
      in (before, frames - before))"

section \<open>The plan\<close>

text \<open>Laying out needs of the profile only its grid, the function from microseconds to frames.\<close>

fun lay_out_from :: "(int \<Rightarrow> int) \<Rightarrow> int \<Rightarrow> render_clip list \<Rightarrow> planned_clip list \<times> int" where
  "lay_out_from frame cursor_us [] = ([], frame cursor_us)"
| "lay_out_from frame cursor_us (c # cs) =
     (let start = frame cursor_us;
          source_end = frame (cursor_us + rc_source_duration_us c);
          cursor_us' = cursor_us + (rc_source_duration_us c + rc_hold_us c);
          stop = frame cursor_us';
          (rest, total) = lay_out_from frame cursor_us' cs
      in (if start < stop
          then \<lparr>pl_render = c, pl_start_frame = start, pl_source_frames = source_end - start,
                pl_hold_frames = stop - source_end, pl_lead = no_extension, pl_trail = no_extension,
                pl_fade_in = None, pl_fade_out = None\<rparr> # rest
          else rest, total))"

definition lay_out :: "render_clip list \<Rightarrow> output_profile \<Rightarrow> planned_clip list \<times> int" where
  "lay_out cs p = lay_out_from (frame_at p) 0 cs"

definition join_clips :: "output_profile \<Rightarrow> planned_clip \<Rightarrow> planned_clip \<Rightarrow> planned_clip \<times> planned_clip" where
  "join_clips p previous following =
     (case rc_transition (pl_render previous) of
        None \<Rightarrow> (previous, following)
      | Some t \<Rightarrow>
          let (before, after) = window_frames t p
          in (case tp_fade_color (preset_of (t_type t)) of
                Some color \<Rightarrow>
                  (previous\<lparr>pl_fade_out := Some \<lparr>fd_frames = min before (pl_frames previous), fd_color = color\<rparr>\<rparr>,
                   following\<lparr>pl_fade_in := Some \<lparr>fd_frames = min after (pl_frames following), fd_color = color\<rparr>\<rparr>)
              | None \<Rightarrow>
                  let tail_us = (if pl_hold_frames previous \<noteq> 0 then 0
                        else rc_media_duration_us (pl_render previous) - rc_source_out_us (pl_render previous))
                  in (previous\<lparr>pl_trail := borrow_frames after tail_us (op_fps p)\<rparr>,
                      following\<lparr>pl_lead := borrow_frames before (rc_source_in_us (pl_render following)) (op_fps p)\<rparr>)))"

fun join_all :: "output_profile \<Rightarrow> planned_clip list \<Rightarrow> planned_clip list" where
  "join_all p (a # b # rest) = (let (a', b') = join_clips p a b in a' # join_all p (b' # rest))"
| "join_all p items = items"

definition clip_overlaps :: "planned_clip \<Rightarrow> bool" where
  "clip_overlaps item =
     (case rc_transition (pl_render item) of
        None \<Rightarrow> False
      | Some t \<Rightarrow> overlapping (preset_of (t_type t)))"

text \<open>The window that crosses from \<open>item\<close> to the next clip, in a segment that begins at frame \<open>origin\<close>.\<close>

definition crossfade_of :: "output_profile \<Rightarrow> int \<Rightarrow> planned_clip \<Rightarrow> transition \<Rightarrow> crossfade" where
  "crossfade_of p origin item t =
     (let (before, after) = window_frames t p
      in \<lparr>cf_effect = tp_xfade (preset_of (t_type t)), cf_offset_frames = pl_end_frame item - before - origin,
          cf_frames = before + after\<rparr>)"

fun split_segments ::
    "output_profile \<Rightarrow> planned_clip list \<Rightarrow> crossfade list \<Rightarrow> planned_clip list \<Rightarrow> render_segment list" where
  "split_segments p current crossfades [] = []"
| "split_segments p current crossfades (item # rest) =
     (let current' = current @ [item]
      in case rc_transition (pl_render item) of
           Some t \<Rightarrow>
             if clip_overlaps item \<and> rest \<noteq> []
             then split_segments p current'
                    (crossfades @ [crossfade_of p (pl_start_frame (hd current')) item t]) rest
             else \<lparr>sg_clips = current', sg_crossfades = crossfades\<rparr> # split_segments p [] [] rest
         | None \<Rightarrow> \<lparr>sg_clips = current', sg_crossfades = crossfades\<rparr> # split_segments p [] [] rest)"

definition plan_render :: "render_clip list \<Rightarrow> output_profile \<Rightarrow> render_plan" where
  "plan_render cs p =
     (let (planned, total_frames) = lay_out cs p
      in \<lparr>rp_profile = p, rp_segments = split_segments p [] [] (join_all p planned), rp_total_frames = total_frames\<rparr>)"

end
