(* ===== verification/Placement.thy ===== *)
theory Placement
  imports Timeline_Readout
begin

text \<open>
  The placement of a revision on the tracks of a draft (\<open>lib/jianying_draft/placement.py\<close>), shared by the
  draft export and the final cut: the clips end to end on the main track, the narrations, the
  subtitles and the BGM. The gain of a BGM, \<open>10 ** (gain_db / 20)\<close>, comes with its source.
\<close>

section \<open>The records\<close>

record unit_cue =
  cue_start_us :: int
  cue_duration_us :: int
  cue_text :: string

definition cue_end_us :: "unit_cue \<Rightarrow> int" where
  "cue_end_us c = cue_start_us c + cue_duration_us c"

record unit_material =
  um_unit_id :: string
  um_video_path :: string
  um_video_version :: int
  um_video_duration_us :: int
  um_source_gain :: pyfloat
  um_subtitles :: "unit_cue list"
  um_narration_path :: "string option"
  um_narration_duration_us :: "int option"

definition subtitles_follow_narration :: "unit_material \<Rightarrow> bool" where
  "subtitles_follow_narration u = (um_narration_path u \<noteq> None)"

record placed_clip =
  pc_clip_id :: string
  pc_unit_id :: string
  pc_video_path :: string
  pc_start_us :: int
  pc_source_in_us :: int
  pc_source_duration_us :: int
  pc_volume :: pyfloat
  pc_hold_us :: int
  pc_transition :: "transition option"

definition source_out_us :: "placed_clip \<Rightarrow> int" where
  "source_out_us c = pc_source_in_us c + pc_source_duration_us c"

definition hold_start_us :: "placed_clip \<Rightarrow> int" where
  "hold_start_us c = pc_start_us c + pc_source_duration_us c"

record placed_narration =
  pn_clip_id :: string
  pn_audio_path :: string
  pn_start_us :: int
  pn_duration_us :: int

definition pn_end_us :: "placed_narration \<Rightarrow> int" where
  "pn_end_us n = pn_start_us n + pn_duration_us n"

record placed_subtitle =
  ps_start_us :: int
  ps_duration_us :: int
  ps_text :: string

definition ps_end_us :: "placed_subtitle \<Rightarrow> int" where
  "ps_end_us s = ps_start_us s + ps_duration_us s"

record bgm_audio_source =
  ba_path :: string
  ba_gain :: pyfloat

record placed_bgm_audio =
  pb_clip_id :: string
  pb_audio_path :: string
  pb_start_us :: int
  pb_source_in_us :: int
  pb_duration_us :: int
  pb_volume :: pyfloat
  pb_fade_in_us :: int
  pb_fade_out_us :: int

record draft_placement =
  dp_duration_us :: int
  dp_clips :: "placed_clip list"
  dp_narrations :: "placed_narration list"
  dp_subtitles :: "placed_subtitle list"
  dp_bgm :: "placed_bgm_audio list"

section \<open>Placing\<close>

definition source_window :: "edit_clip \<Rightarrow> unit_material \<Rightarrow> int \<times> int" where
  "source_window c u = effective_source_range_us c (Some (um_video_version u)) (um_video_duration_us u)"

text \<open>Subtitles follow the narration where the unit has one, and the source of the clip otherwise.\<close>

definition source_subtitle :: "placed_clip \<Rightarrow> unit_cue \<Rightarrow> placed_subtitle list" where
  "source_subtitle c cue =
     (let start = max (cue_start_us cue) (pc_source_in_us c);
          stop = min (cue_end_us cue) (source_out_us c)
      in if start < stop
         then [\<lparr>ps_start_us = pc_start_us c + start - pc_source_in_us c, ps_duration_us = stop - start,
                ps_text = cue_text cue\<rparr>]
         else [])"

definition clip_subtitles :: "placed_clip \<Rightarrow> unit_material \<Rightarrow> bool \<Rightarrow> placed_subtitle list" where
  "clip_subtitles c u carries =
     (if subtitles_follow_narration u then
        if \<not> carries then []
        else map (\<lambda>cue. \<lparr>ps_start_us = pc_start_us c + cue_start_us cue, ps_duration_us = cue_duration_us cue,
                         ps_text = cue_text cue\<rparr>) (um_subtitles u)
      else concat (map (source_subtitle c) (um_subtitles u)))"

text \<open>Both kinds of pieces on a track have a start and a duration that \<open>replace\<close> can change.\<close>

definition within_timeline ::
    "('a \<Rightarrow> int) \<Rightarrow> ('a \<Rightarrow> int) \<Rightarrow> (int \<Rightarrow> 'a \<Rightarrow> 'a) \<Rightarrow> 'a list \<Rightarrow> int \<Rightarrow> 'a list" where
  "within_timeline start_us duration_of with_duration items duration_us =
     List.map_filter (\<lambda>item.
       let stop = min (start_us item + duration_of item) duration_us
       in if start_us item < stop then Some (with_duration (stop - start_us item) item) else None)
       (sort_key start_us items)"

fun put_on_track :: "('a \<Rightarrow> int) \<Rightarrow> ('a \<Rightarrow> int) \<Rightarrow> 'a \<Rightarrow> 'a list list \<Rightarrow> 'a list list" where
  "put_on_track start_us duration_of item [] = [[item]]"
| "put_on_track start_us duration_of item (track # tracks) =
     (if start_us (last track) + duration_of (last track) \<le> start_us item
      then (track @ [item]) # tracks
      else track # put_on_track start_us duration_of item tracks)"

definition stack_tracks :: "('a \<Rightarrow> int) \<Rightarrow> ('a \<Rightarrow> int) \<Rightarrow> 'a list \<Rightarrow> 'a list list" where
  "stack_tracks start_us duration_of items =
     foldl (\<lambda>tracks item. put_on_track start_us duration_of item tracks) [] (sort_key start_us items)"

text \<open>The loop over the clips: the cursor and the three lists it fills.\<close>

record placing =
  pg_cursor :: int
  pg_clips :: "placed_clip list"
  pg_narrations :: "placed_narration list"
  pg_subtitles :: "placed_subtitle list"

definition place_clip :: "(string \<Rightarrow> unit_material option) \<Rightarrow> edit_clip \<Rightarrow> placing \<Rightarrow> placing" where
  "place_clip units c st =
     (case units (c_unit_id c) of
        None \<Rightarrow> st
      | Some u \<Rightarrow>
          let window = source_window c u;
              p = \<lparr>pc_clip_id = c_id c, pc_unit_id = c_unit_id c, pc_video_path = um_video_path u,
                   pc_start_us = pg_cursor st, pc_source_in_us = fst window,
                   pc_source_duration_us = snd window - fst window,
                   pc_volume = fl (c_source_volume c * um_source_gain u),
                   pc_hold_us = c_hold_us c, pc_transition = c_transition c\<rparr>
          in \<lparr>pg_cursor = pg_cursor st + pc_source_duration_us p + pc_hold_us p,
              pg_clips = pg_clips st @ [p],
              pg_narrations = pg_narrations st @
                (case (um_narration_path u, um_narration_duration_us u) of
                   (Some path, Some n) \<Rightarrow>
                     if c_carries_narration c
                     then [\<lparr>pn_clip_id = c_id c, pn_audio_path = path, pn_start_us = pg_cursor st,
                            pn_duration_us = n\<rparr>]
                     else []
                 | _ \<Rightarrow> []),
              pg_subtitles = pg_subtitles st @ clip_subtitles p u (c_carries_narration c)\<rparr>)"

definition drop_last_transition :: "placed_clip list \<Rightarrow> placed_clip list" where
  "drop_last_transition cs =
     (if cs \<noteq> [] then butlast cs @ [(last cs)\<lparr>pc_transition := None\<rparr>] else cs)"

definition place_bgm_audio :: "(string \<Rightarrow> bgm_audio_source option) \<Rightarrow> placed_bgm \<Rightarrow> placed_bgm_audio option" where
  "place_bgm_audio sources p =
     map_option (\<lambda>s. \<lparr>pb_clip_id = p_clip_id p, pb_audio_path = ba_path s, pb_start_us = p_start_us p,
         pb_source_in_us = p_source_in_us p, pb_duration_us = p_duration_us p,
         pb_volume = fl (p_volume p * ba_gain s),
         pb_fade_in_us = p_fade_in_us p, pb_fade_out_us = p_fade_out_us p\<rparr>) (sources (p_bgm_id p))"

definition place_timeline ::
    "tl_content \<Rightarrow> (string \<Rightarrow> unit_material option) \<Rightarrow> (string \<Rightarrow> bgm_audio_source option) \<Rightarrow> draft_placement" where
  "place_timeline ct units bgm_sources =
     (let st = fold (place_clip units) (ct_clips ct)
                 \<lparr>pg_cursor = 0, pg_clips = [], pg_narrations = [], pg_subtitles = []\<rparr>;
          cursor = pg_cursor st
      in \<lparr>dp_duration_us = cursor,
          dp_clips = drop_last_transition (pg_clips st),
          dp_narrations = within_timeline pn_start_us pn_duration_us
            (\<lambda>d n. n\<lparr>pn_duration_us := d\<rparr>) (pg_narrations st) cursor,
          dp_subtitles = within_timeline ps_start_us ps_duration_us
            (\<lambda>d s. s\<lparr>ps_duration_us := d\<rparr>) (pg_subtitles st) cursor,
          dp_bgm = List.map_filter (place_bgm_audio bgm_sources) (place_bgm (ct_bgm ct) cursor)\<rparr>)"

section \<open>Pieces on a track\<close>

locale piece =
  fixes start_us :: "'a \<Rightarrow> int" and duration_of :: "'a \<Rightarrow> int" and with_duration :: "int \<Rightarrow> 'a \<Rightarrow> 'a"
  assumes start_with [simp]: "start_us (with_duration d x) = start_us x"
    and duration_with [simp]: "duration_of (with_duration d x) = d"
begin

lemma within_sorted: "sorted_wrt (\<lambda>a b. start_us a \<le> start_us b) (within_timeline start_us duration_of with_duration items len)"
  unfolding within_timeline_def
proof (rule sorted_wrt_map_filter)
  show "sorted_wrt (\<lambda>a b. start_us a \<le> start_us b) (sort_key start_us items)"
    by (metis sorted_sort_key sorted_map)
qed (auto simp: Let_def split: if_splits)

lemma within_bounds:
  "x \<in> set (within_timeline start_us duration_of with_duration items len) \<Longrightarrow>
     0 < duration_of x \<and> start_us x + duration_of x \<le> len \<and>
     (\<exists>y\<in>set items. x = with_duration (duration_of x) y \<and> duration_of x \<le> duration_of y)"
  unfolding within_timeline_def set_map_filter_iff by (auto simp: Let_def split: if_splits)

lemma within_complete:
  assumes "y \<in> set items" "start_us y < len" "0 < duration_of y"
  shows "with_duration (min (duration_of y) (len - start_us y)) y
    \<in> set (within_timeline start_us duration_of with_duration items len)"
proof -
  have "min (start_us y + duration_of y) len - start_us y = min (duration_of y) (len - start_us y)" by auto
  then show ?thesis using assms unfolding within_timeline_def set_map_filter_iff
    by (intro bexI [of _ y]) (auto simp: Let_def)
qed

end

interpretation narration_piece: piece pn_start_us pn_duration_us "\<lambda>d n. n\<lparr>pn_duration_us := d\<rparr>"
  by unfold_locales simp_all

interpretation subtitle_piece: piece ps_start_us ps_duration_us "\<lambda>d s. s\<lparr>ps_duration_us := d\<rparr>"
  by unfold_locales simp_all

end
