(* ===== verification/Readout_Laws.thy ===== *)
theory Readout_Laws
  imports Timeline_Laws
begin

text \<open>
  The laws of the readout: where clips, narration and BGM lie on the timeline, how accurate the times
  it shows are, and what its issues say of the content.
\<close>

section \<open>The layout\<close>

text \<open>The start of clip \<open>i\<close>: the durations of the clips before it.\<close>

definition clip_start_us :: "episode_sources \<Rightarrow> edit_clip list \<Rightarrow> nat \<Rightarrow> int" where
  "clip_start_us so cs i = sum_list (map (clip_duration_us so) (take i cs))"

definition total_us :: "episode_sources \<Rightarrow> edit_clip list \<Rightarrow> int" where
  "total_us so cs = sum_list (map (clip_duration_us so) cs)"

definition placed_at :: "episode_sources \<Rightarrow> edit_clip list \<Rightarrow> nat \<Rightarrow> placed" where
  "placed_at so cs i =
     \<lparr>pl_clip = cs ! i, pl_start_us = clip_start_us so cs i, pl_duration_us = clip_duration_us so (cs ! i)\<rparr>"

lemma clip_start_us_simps [simp]:
  "clip_start_us so cs 0 = 0"
  "clip_start_us so (c # cs) (Suc i) = clip_duration_us so c + clip_start_us so cs i"
  by (simp_all add: clip_start_us_def)

lemma snd_clip_view_of [simp]: "snd (clip_view_of c so t) = clip_duration_us so c"
  by (simp add: clip_view_of_def Let_def)

lemma lay_clips_eq:
  "lay_clips so cs cursor =
     (map (\<lambda>i. (fst (clip_view_of (cs ! i) so (cursor + clip_start_us so cs i)),
               \<lparr>pl_clip = cs ! i, pl_start_us = cursor + clip_start_us so cs i,
                pl_duration_us = clip_duration_us so (cs ! i)\<rparr>)) [0..<length cs],
      cursor + total_us so cs)"
proof (induction cs arbitrary: cursor)
  case Nil
  then show ?case by (simp add: total_us_def)
next
  case (Cons c cs)
  have "[0..<length (c # cs)] = 0 # map Suc [0..<length cs]" by (simp add: upt_conv_Cons map_Suc_upt del: upt_Suc)
  then show ?case
    using Cons.IH [of "cursor + clip_duration_us so c"]
    by (simp add: case_prod_beta total_us_def o_def add.assoc del: upt_Suc)
qed

lemma lay_clips_placed: "map snd (fst (lay_clips so cs 0)) = map (placed_at so cs) [0..<length cs]"
  by (simp add: lay_clips_eq placed_at_def)

lemma clip_duration_nonneg: "wf_sources so \<Longrightarrow> valid_clip c \<Longrightarrow> 0 \<le> clip_duration_us so c"
  by (fastforce simp: clip_duration_us_def wf_sources_def valid_clip_def dest: unit_of_SomeD
      intro: add_nonneg_nonneg clip_source_duration_nonneg split: option.splits)

lemma clip_start_Suc: "i < length cs \<Longrightarrow> clip_start_us so cs (Suc i) = clip_start_us so cs i + clip_duration_us so (cs ! i)"
  by (simp add: clip_start_us_def take_Suc_conv_app_nth)

lemma clip_start_mono:
  assumes "wf_sources so" "list_all valid_clip cs" "i \<le> j" "j \<le> length cs"
  shows "clip_start_us so cs i \<le> clip_start_us so cs j"
  using assms(3,4)
proof (induction j)
  case (Suc j)
  show ?case
  proof (cases "i = Suc j")
    case False
    then have "clip_start_us so cs i \<le> clip_start_us so cs j" using Suc by simp
    moreover have "0 \<le> clip_duration_us so (cs ! j)"
      using assms(1,2) Suc.prems by (intro clip_duration_nonneg) (simp_all add: list_all_length)
    ultimately show ?thesis using Suc.prems by (simp add: clip_start_Suc)
  qed simp
qed simp

lemma clip_start_length: "clip_start_us so cs (length cs) = total_us so cs"
  by (simp add: clip_start_us_def total_us_def)

section \<open>Narration against the source sound\<close>

definition narration_len :: "episode_sources \<Rightarrow> edit_clip \<Rightarrow> int option" where
  "narration_len so c =
     (case (unit_of so (c_unit_id c), so_media so (c_unit_id c)) of
        (Some u, Some m) \<Rightarrow>
          if c_carries_narration c \<and> u_speech_mode u = Some NARRATOR_VOICEOVER then m_narration_us m else None
      | _ \<Rightarrow> None)"

lemma snd_scan_narration:
  "snd (scan_narration so (i, item)) =
     (case narration_len so (pl_clip item) of
        None \<Rightarrow> []
      | Some n \<Rightarrow> [\<lparr>n_carrier = item, n_position = i, n_end_us = pl_start_us item + n\<rparr>])"
  by (cases "unit_of so (c_unit_id (pl_clip item))"; cases "so_media so (c_unit_id (pl_clip item))")
    (auto simp: scan_narration_def narration_len_def Let_def split: option.split)

lemma fst_scan_narration: "is \<in> set (fst (scan_narration so e)) \<Longrightarrow> i_code is = NARRATION_MISSING"
  by (auto simp: scan_narration_def Let_def make_issue_def split: option.splits if_splits)

lemma narrations_of:
  "set (concat (map snd (map (scan_narration so) (enumerate 0 (map (placed_at so cs) [0..<length cs]))))) =
     {n. \<exists>i len. i < length cs \<and> narration_len so (cs ! i) = Some len \<and>
        n = \<lparr>n_carrier = placed_at so cs i, n_position = i, n_end_us = clip_start_us so cs i + len\<rparr>}"
proof -
  have e: "enumerate 0 (map (placed_at so cs) [0..<length cs]) = map (\<lambda>i. (i, placed_at so cs i)) [0..<length cs]"
    by (rule nth_equalityI) (simp_all add: nth_enumerate_eq)
  show ?thesis
    by (auto simp: e snd_scan_narration placed_at_def o_def split: option.splits) 
qed

lemma with_following_fst: "map fst (with_following xs) = xs"
  by (cases xs) (simp_all add: with_following_def)

lemma sorted_takeWhile_filter:
  assumes "sorted_wrt (\<lambda>a b. f a \<le> (f b :: int)) xs"
  shows "takeWhile (\<lambda>x. f x < e) xs = filter (\<lambda>x. f x < e) xs"
  using assms
proof (induction xs)
  case (Cons x xs)
  show ?case
  proof (cases "f x < e")
    case False
    then have "\<not> f y < e" if "y \<in> set xs" for y using Cons.prems that by fastforce
    then show ?thesis using False by (auto simp: filter_empty_conv)
  qed (use Cons in simp)
qed simp

lemma later_placed:
  assumes "wf_sources so" "list_all valid_clip cs"
  shows "takeWhile (\<lambda>item. pl_start_us item < e) (drop k (map (placed_at so cs) [0..<length cs])) =
    map (placed_at so cs) (filter (\<lambda>j. clip_start_us so cs j < e) [k..<length cs])"
proof -
  have "sorted_wrt (\<lambda>a b. pl_start_us a \<le> pl_start_us b) (map (placed_at so cs) [k..<length cs])"
    using clip_start_mono [OF assms] by (auto simp: sorted_wrt_iff_nth_less placed_at_def)
  from sorted_takeWhile_filter [OF this] show ?thesis
    by (simp add: drop_map filter_map o_def placed_at_def)
qed

lemma collision_issues_of:
  assumes "is \<in> set (collision_issue so n item)"
  shows "i_code is = NARRATION_SOURCE_COLLISION \<and> i_clip_ids is = [c_id (pl_clip (n_carrier n)), c_id (pl_clip item)]
    \<and> collision_cause so item \<noteq> None"
  using assms by (cases "collision_cause so item") (simp_all add: collision_issue_def make_issue_def)

lemma collision_issue_some:
  "collision_cause so item \<noteq> None \<Longrightarrow> collision_issue so n item \<noteq> []"
  by (auto simp: collision_issue_def)

lemma other_issue_codes:
  "is \<in> set (next_narration_issue n f) \<Longrightarrow> i_code is = NARRATION_OVERRUN"
  "is \<in> set (timeline_end_issue n t) \<Longrightarrow> i_code is = NARRATION_OVERRUN"
  "is \<in> set (bgm_missing_issues ct av) \<Longrightarrow> i_code is = BGM_MISSING"
  by (auto simp: next_narration_issue_def timeline_end_issue_def bgm_missing_issues_def make_issue_def
      split: option.splits if_splits)

section \<open>Structural issues\<close>

abbreviation clips_of :: "string \<Rightarrow> edit_clip list \<Rightarrow> string list" where
  "clips_of uid cs \<equiv> map c_id (filter (\<lambda>c. c_unit_id c = uid) cs)"

lemma scan_clips_used:
  "map_of (snd (scan_clips so cs used)) uid =
     (if unit_of so uid = None \<or> clips_of uid cs = [] then map_of used uid
      else Some ((case map_of used uid of None \<Rightarrow> [] | Some ids \<Rightarrow> ids) @ clips_of uid cs))"
  by (induction cs arbitrary: used)
    (auto simp: case_prod_beta Let_def split: option.splits)

lemma scan_clips_distinct: "distinct (map fst used) \<Longrightarrow> distinct (map fst (snd (scan_clips so cs used)))"
  by (induction cs arbitrary: used) (auto simp: case_prod_beta Let_def AList.distinct_update)

lemma scan_clips_entry:
  "(uid, ids) \<in> set (snd (scan_clips so cs [])) \<longleftrightarrow>
     unit_of so uid \<noteq> None \<and> ids = clips_of uid cs \<and> ids \<noteq> []"
  using map_of_eq_Some_iff [OF scan_clips_distinct [of "[]" so cs], of uid ids]
  by (auto simp: scan_clips_used split: if_splits)

lemma not_blocking:
  "is \<in> set (fst (scan_clips so cs used)) \<Longrightarrow> i_severity is \<noteq> BLOCKING"
  by (induction cs arbitrary: used)
    (auto simp: case_prod_beta Let_def trim_ignored_issue_def hold_issue_def make_issue_def
      split: option.splits if_splits)

lemma narration_not_all:
  "is \<in> set (narration_issues items so t) \<Longrightarrow> i_applies_to is = WITH_NARRATION"
proof -
  have run: "i_applies_to is = WITH_NARRATION" if "is \<in> set (narration_run_issues so items t p)" for p
    using that by (auto simp: narration_run_issues_def Let_def collision_issue_def next_narration_issue_def
        timeline_end_issue_def make_issue_def split: option.splits if_splits)
  have scan: "i_applies_to is = WITH_NARRATION" if "is \<in> set (fst (scan_narration so e))" for e
    using that by (auto simp: scan_narration_def Let_def make_issue_def split: option.splits if_splits)
  show "is \<in> set (narration_issues items so t) \<Longrightarrow> i_applies_to is = WITH_NARRATION"
    by (auto simp: narration_issues_def Let_def dest: run scan split: if_splits)
qed

definition blocks_every_export :: "timeline_issue \<Rightarrow> bool" where
  "blocks_every_export is = (i_severity is = BLOCKING \<and> i_applies_to is = SCOPE_ALL)"

lemma structural_blocking:
  "{is \<in> set (structural_issues missing r so). blocks_every_export is} =
     {make_issue VIDEO_MISSING (clips_of uid (ct_clips (r_content r))) (Some uid) [] | uid.
        unit_of so uid \<noteq> None \<and> clips_of uid (ct_clips (r_content r)) \<noteq> [] \<and>
        Option.bind (so_media so uid) m_video_version = None}"
proof -
  have "{is \<in> set (structural_issues missing r so). blocks_every_export is} =
    {is. \<exists>uid ids. (uid, ids) \<in> set (snd (scan_clips so (ct_clips (r_content r)) [])) \<and>
       Option.bind (so_media so uid) m_video_version = None \<and> is = make_issue VIDEO_MISSING ids (Some uid) []}"
    by (force simp: structural_issues_def case_prod_beta Let_def unit_issues_def blocks_every_export_def
        make_issue_def dest: not_blocking)
  then show ?thesis by (auto simp: scan_clips_entry)
qed

lemma structural_codes:
  "is \<in> set (structural_issues mg r so) \<Longrightarrow>
   i_code is \<in> {UNIT_DELETED, TRIM_IGNORED, HOLD_TOO_LONG, VIDEO_MISSING, SUBTITLE_MISSING_GLYPHS, UNIT_UNUSED}"
proof -
  have scan: "i_code is \<in> {UNIT_DELETED, TRIM_IGNORED, HOLD_TOO_LONG}" if "is \<in> set (fst (scan_clips so cs used))" for cs used
    using that by (induction cs arbitrary: used)
      (auto simp: case_prod_beta Let_def trim_ignored_issue_def hold_issue_def make_issue_def
        split: option.splits if_splits)
  show "is \<in> set (structural_issues mg r so) \<Longrightarrow>
   i_code is \<in> {UNIT_DELETED, TRIM_IGNORED, HOLD_TOO_LONG, VIDEO_MISSING, SUBTITLE_MISSING_GLYPHS, UNIT_UNUSED}"
    by (auto simp: structural_issues_def case_prod_beta Let_def unit_issues_def make_issue_def dest: scan split: if_splits)
qed

section \<open>The laws\<close>

lemma project_readout_fields:
  "ro_clips (project_readout mg d r so) =
     map (\<lambda>i. fst (clip_view_of (ct_clips (r_content r) ! i) so (clip_start_us so (ct_clips (r_content r)) i)))
       [0..<length (ct_clips (r_content r))]"
  "ro_duration (project_readout mg d r so) = microseconds_to_seconds (total_us so (ct_clips (r_content r)))"
  "ro_issues (project_readout mg d r so) = structural_issues mg r so @
     narration_issues (map (placed_at so (ct_clips (r_content r))) [0..<length (ct_clips (r_content r))]) so
       (total_us so (ct_clips (r_content r))) @
     bgm_missing_issues (r_content r) (\<lambda>b. so_bgm so b \<noteq> None)"
  by (simp_all add: project_readout_def case_prod_beta Let_def lay_clips_eq o_def placed_at_def [abs_def])

text \<open>the readout lays the clips end to end. Clip \<open>i\<close> is shown in place \<open>i\<close>; its start is the sum of the
  durations before it, the next one starts where it ends, no clip reaches past the end, and the
  total shown is the sum of all; each is shown rounded by the same function.\<close>

theorem readout_layout:
  assumes "wf_sources so" "valid_content (r_content r)" "i < length (ct_clips (r_content r))"
  shows "let cs = ct_clips (r_content r); ro = project_readout mg d r so; v = ro_clips ro ! i
    in length (ro_clips ro) = length cs \<and> cv_id v = c_id (cs ! i) \<and>
       cv_start v = microseconds_to_seconds (clip_start_us so cs i) \<and>
       cv_duration v = microseconds_to_seconds (clip_duration_us so (cs ! i)) \<and>
       ro_duration ro = microseconds_to_seconds (clip_start_us so cs (length cs)) \<and>
       clip_start_us so cs (Suc i) = clip_start_us so cs i + clip_duration_us so (cs ! i) \<and>
       0 \<le> clip_start_us so cs i \<and> clip_start_us so cs (Suc i) \<le> clip_start_us so cs (length cs)"
proof -
  have v: "list_all valid_clip (ct_clips (r_content r))" using assms(2) by (simp add: valid_content_def)
  show ?thesis
    using assms(3) clip_start_mono [OF assms(1) v, of 0 i] clip_start_mono [OF assms(1) v, of "Suc i" "length (ct_clips (r_content r))"]
    by (simp add: Let_def project_readout_fields clip_start_Suc clip_start_length clip_view_of_def)
qed

definition sample_revision :: timeline_revision where
  "sample_revision =
     \<lparr>r_number = 1, r_parent = None, r_author = \<lparr>au_kind = Creator, au_user_id = None\<rparr>, r_summary = ''first'',
      r_created_at = ''2025'', r_content = sample_content, r_changed_clip_ids = None, r_restored_from = None\<rparr>"

lemma sample_revision_content [simp]: "r_content sample_revision = sample_content"
  by (simp add: sample_revision_def)

lemma sample_layout:
  "length (ct_clips sample_content) = 2" "clip_start_us sample_sources (ct_clips sample_content) (Suc 0) = 6000000"
  by code_simp+

theorem readout_layout_witness:
  "\<forall>d. cv_start (ro_clips (project_readout (\<lambda>_. []) d sample_revision sample_sources) ! 1) = microseconds_to_seconds 6000000"
proof
  fix d
  show "cv_start (ro_clips (project_readout (\<lambda>_. []) d sample_revision sample_sources) ! 1) = microseconds_to_seconds 6000000"
    using readout_layout [of sample_sources sample_revision 1 "\<lambda>_. []" d] by (simp add: Let_def sample_layout)
qed

text \<open>the times a readout shows are accurate and can be sent back: within a thousand million seconds,
  a shown time reads back within half a millisecond of the stored one, and as exactly the stored one
  when that is a whole number of milliseconds.\<close>

theorem shown_time_reads_back:
  assumes "0 \<le> us" "us \<le> 1000000000000000"
  shows "\<exists>back. seconds_to_microseconds (microseconds_to_seconds us) = Inr back \<and> \<bar>back - us\<bar> \<le> 500 \<and>
    1000 dvd back \<and> (1000 dvd us \<longrightarrow> back = us)"
proof -
  obtain n where n: "0 \<le> n" "n \<le> 1000000000001" "\<bar>1000 * n - us\<bar> \<le> 500"
    "microseconds_to_seconds us = fl (of_int n / 1000)"
    by (rule microseconds_to_seconds_millis [OF assms])
  have exact: "1000 * n = us" if "1000 dvd us"
  proof -
    from that obtain k where k: "us = 1000 * k" by (rule dvdE)
    then have "1000 * n - 1000 * k \<le> 500" "1000 * k - 1000 * n \<le> 500" using n(3) by (simp_all add: abs_le_iff)
    then have "n - k < 1" "k - n < 1" by linarith+
    then have "n = k" by simp
    then show ?thesis using k by simp
  qed
  show ?thesis
  proof (intro exI conjI impI)
    show "seconds_to_microseconds (microseconds_to_seconds us) = Inr (1000 * n)"
      unfolding n(4) by (rule millisecond_float(2) [OF n(1,2)])
    show "\<bar>1000 * n - us\<bar> \<le> 500" by (rule n(3))
    show "1000 dvd 1000 * n" by simp
    show "1000 * n = us" if "1000 dvd us" using that by (rule exact)
  qed
qed

theorem shown_time_reads_back_witness:
  "seconds_to_microseconds (microseconds_to_seconds 1234000) = Inr 1234000"
  using shown_time_reads_back [of 1234000] by (auto simp: dvd_def)

text \<open>C30: what blocks every export. The blocking issues of a readout that do not concern the narration
  are exactly these: for every unit of the script that some clip uses and that has no usable video,
  one \<open>video_missing\<close> that lists all its clips in order, and for every BGM clip whose music is not
  there, one \<open>bgm_missing\<close>.\<close>

theorem readout_blocking:
  "{is \<in> set (ro_issues (project_readout mg d r so)). blocks_every_export is} =
     {make_issue VIDEO_MISSING (clips_of uid (ct_clips (r_content r))) (Some uid) [] | uid.
        unit_of so uid \<noteq> None \<and> clips_of uid (ct_clips (r_content r)) \<noteq> [] \<and>
        Option.bind (so_media so uid) m_video_version = None} \<union>
     {make_issue BGM_MISSING [g_id g] None [(''bgm_id'', P_str (g_bgm_id g))] | g.
        g \<in> set (ct_bgm (r_content r)) \<and> so_bgm so (g_bgm_id g) = None}"
proof -
  have n: "{is \<in> set (narration_issues items so t). blocks_every_export is} = {}" for items t
    using narration_not_all by (fastforce simp: blocks_every_export_def)
  have b: "{is \<in> set (bgm_missing_issues (r_content r) (\<lambda>b. so_bgm so b \<noteq> None)). blocks_every_export is} =
      {make_issue BGM_MISSING [g_id g] None [(''bgm_id'', P_str (g_bgm_id g))] | g.
        g \<in> set (ct_bgm (r_content r)) \<and> so_bgm so (g_bgm_id g) = None}"
    by (auto simp: bgm_missing_issues_def blocks_every_export_def make_issue_def)
  have union: "{x \<in> set (xs @ ys @ zs). P x} = {x \<in> set xs. P x} \<union> {x \<in> set ys. P x} \<union> {x \<in> set zs. P x}"
    for xs ys zs :: "timeline_issue list" and P by auto
  show ?thesis unfolding project_readout_fields union structural_blocking n b by simp
qed

text \<open>The collisions that the readout reports: those of each narration with the clips it runs into.\<close>

lemma collision_issues_set:
  assumes "wf_sources so" "list_all valid_clip cs" "so_tts_narration so" "cs = ct_clips (r_content r)"
  shows "{is \<in> set (ro_issues (project_readout mg d r so)). i_code is = NARRATION_SOURCE_COLLISION} =
      (\<Union>n\<in>set (concat (map snd (map (scan_narration so) (enumerate 0 (map (placed_at so cs) [0..<length cs]))))). \<Union>k\<in>{k. n_position n < k \<and> k < length cs \<and> clip_start_us so cs k < n_end_us n}.
         set (collision_issue so n (placed_at so cs k)))"
proof -
  let ?items = "map (placed_at so cs) [0..<length cs]"
  let ?ns = "concat (map snd (map (scan_narration so) (enumerate 0 ?items)))"
  have later: "takeWhile (\<lambda>item. pl_start_us item < n_end_us n) (drop (Suc (n_position n)) ?items) =
      map (placed_at so cs) (filter (\<lambda>k. clip_start_us so cs k < n_end_us n) [Suc (n_position n)..<length cs])" for n
    by (rule later_placed [OF assms(1,2)])
  have run: "{is \<in> set (narration_run_issues so ?items t p). i_code is = NARRATION_SOURCE_COLLISION} =
      (\<Union>k\<in>{k. n_position (fst p) < k \<and> k < length cs \<and> clip_start_us so cs k < n_end_us (fst p)}.
       set (collision_issue so (fst p) (placed_at so cs k)))" for t p
    by (auto simp: narration_run_issues_def Let_def later Suc_le_eq dest: other_issue_codes collision_issues_of)
  have "{is \<in> set (narration_issues ?items so t). i_code is = NARRATION_SOURCE_COLLISION} =
      (\<Union>p\<in>set (with_following ?ns). {is \<in> set (narration_run_issues so ?items t p). i_code is = NARRATION_SOURCE_COLLISION})" for t
    using assms(3) by (auto simp: narration_issues_def Let_def dest: fst_scan_narration)
  then have nar: "{is \<in> set (narration_issues ?items so t). i_code is = NARRATION_SOURCE_COLLISION} =
      (\<Union>n\<in>fst ` set (with_following ?ns).
         \<Union>k\<in>{k. n_position n < k \<and> k < length cs \<and> clip_start_us so cs k < n_end_us n}.
           set (collision_issue so n (placed_at so cs k)))" for t
    by (simp only: run image_image)
  have fst_ns: "fst ` set (with_following ?ns) = set ?ns" by (metis with_following_fst set_map)
  have "{is \<in> set (xs @ ys @ zs). i_code is = C} = {is \<in> set ys. i_code is = C}"
    if "\<And>is. is \<in> set xs \<Longrightarrow> i_code is \<noteq> C" "\<And>is. is \<in> set zs \<Longrightarrow> i_code is \<noteq> C"
    for xs ys zs :: "timeline_issue list" and C using that by auto
  then have "{is \<in> set (ro_issues (project_readout mg d r so)). i_code is = NARRATION_SOURCE_COLLISION} =
      {is \<in> set (narration_issues ?items so (total_us so cs)). i_code is = NARRATION_SOURCE_COLLISION}"
    unfolding project_readout_fields assms(4) using structural_codes other_issue_codes(3) by fastforce
  then show ?thesis by (simp only: nar fst_ns)
qed

text \<open>Collisions of narration and source sound are reported exactly. In a project with TTS narration,
  for a clip with a narration and a later clip, the readout has a collision issue naming the two if
  and only if the later clip starts before the narration ends, occupies time, and either is spoken by
  characters or has its source louder than the narrator default.\<close>

theorem narration_collision_exact:
  assumes "wf_sources so" "valid_content (r_content r)" "so_tts_narration so"
    and "cs = ct_clips (r_content r)" "i < j" "j < length cs" "narration_len so (cs ! i) = Some len"
  shows "(\<exists>is \<in> set (ro_issues (project_readout mg d r so)).
      i_code is = NARRATION_SOURCE_COLLISION \<and> i_clip_ids is = [c_id (cs ! i), c_id (cs ! j)]) \<longleftrightarrow>
    clip_start_us so cs j < clip_start_us so cs i + len \<and> collision_cause so (placed_at so cs j) \<noteq> None"
    (is "?reported \<longleftrightarrow> ?early \<and> ?cause")
proof -
  let ?items = "map (placed_at so cs) [0..<length cs]"
  let ?ns = "concat (map snd (map (scan_narration so) (enumerate 0 ?items)))"
  let ?n = "\<lparr>n_carrier = placed_at so cs i, n_position = i, n_end_us = clip_start_us so cs i + len\<rparr>"
  have v: "list_all valid_clip cs" and dist: "distinct (map c_id cs)"
    using assms(2,4) by (simp_all add: valid_content_def unique_content_def)
  have same: "a = b" if "a < length cs" "b < length cs" "c_id (cs ! a) = c_id (cs ! b)" for a b
    using that dist nth_eq_iff_index_eq [of "map c_id cs" a b] by simp
  have issues: "{is \<in> set (ro_issues (project_readout mg d r so)). i_code is = NARRATION_SOURCE_COLLISION} =
      (\<Union>n\<in>set ?ns. \<Union>k\<in>{k. n_position n < k \<and> k < length cs \<and> clip_start_us so cs k < n_end_us n}.
         set (collision_issue so n (placed_at so cs k)))"
    by (rule collision_issues_set [OF assms(1) v assms(3,4)])
  have n: "?n \<in> set ?ns" using narrations_of [of so cs] assms(5-7) by auto
  show ?thesis
  proof
    assume ?reported
    then obtain "is" where "is": "is \<in> set (ro_issues (project_readout mg d r so))" "i_code is = NARRATION_SOURCE_COLLISION"
      "i_clip_ids is = [c_id (cs ! i), c_id (cs ! j)]" by blast
    then obtain n k where nk: "n \<in> set ?ns" "n_position n < k" "k < length cs" "clip_start_us so cs k < n_end_us n"
      "is \<in> set (collision_issue so n (placed_at so cs k))" using issues by blast
    obtain a la where a: "a < length cs" "narration_len so (cs ! a) = Some la"
      "n = \<lparr>n_carrier = placed_at so cs a, n_position = a, n_end_us = clip_start_us so cs a + la\<rparr>"
      using nk(1) unfolding narrations_of by blast
    have ids: "c_id (cs ! i) = c_id (cs ! a)" "c_id (cs ! j) = c_id (cs ! k)" and cause: "collision_cause so (placed_at so cs k) \<noteq> None"
      using collision_issues_of [OF nk(5)] "is"(3) by (simp_all add: a(3) placed_at_def)
    have "a = i" "k = j" using same [OF _ a(1) ids(1)] same [OF assms(6) nk(3) ids(2)] assms(5,6) by simp_all
    then show "?early \<and> ?cause" using nk(4) cause a(2,3) assms(7) by simp
  next
    assume e: "?early \<and> ?cause"
    then obtain "is" where "is": "is \<in> set (collision_issue so ?n (placed_at so cs j))"
      using collision_issue_some [of so "placed_at so cs j" ?n] by (meson list.set_sel(1))
    have "is \<in> {is \<in> set (ro_issues (project_readout mg d r so)). i_code is = NARRATION_SOURCE_COLLISION}"
      unfolding issues using n e "is" assms(5,6) by (intro UN_I [of ?n] UN_I [of j]) simp_all
    then show ?reported using collision_issues_of [OF "is"] by (auto simp: placed_at_def)
  qed
qed

theorem narration_collision_exact_witness:
  "\<forall>d. \<not> (\<exists>is \<in> set (ro_issues (project_readout (\<lambda>_. []) d sample_revision sample_sources)).
      i_code is = NARRATION_SOURCE_COLLISION \<and> i_clip_ids is = [''c1'', ''c2''])"
proof -
  have "narration_len sample_sources (ct_clips sample_content ! 0) = Some 3000000"
    "c_id (ct_clips sample_content ! 0) = ''c1''" "c_id (ct_clips sample_content ! 1) = ''c2''" "so_tts_narration sample_sources"
    by code_simp+
  then show ?thesis
    using narration_collision_exact [of sample_sources sample_revision "ct_clips sample_content" 0 1 3000000 "\<lambda>_. []"]
    by (simp add: sample_layout)
qed

section \<open>The BGM track\<close>

text \<open>the BGM track of an export. From valid BGM clips that do not overlap, the placed track is in order
  and free of overlaps; every placed piece lies inside the timeline, plays only what its clip
  selected from its source, and its two fades fit into it; and a clip is left out exactly when it
  starts at or after the end.\<close>

theorem place_bgm_track:
  assumes "bgm_disjoint gs" "list_all valid_bgm gs" "distinct (map g_id gs)"
  shows "sorted_wrt (\<lambda>a b. p_end_us a \<le> p_start_us b) (place_bgm gs d) \<and>
    (\<forall>p\<in>set (place_bgm gs d). 0 \<le> p_start_us p \<and> p_start_us p < p_end_us p \<and> p_end_us p \<le> d \<and>
       0 \<le> p_fade_in_us p \<and> 0 \<le> p_fade_out_us p \<and> p_fade_in_us p + p_fade_out_us p \<le> p_duration_us p \<and>
       (\<exists>g\<in>set gs. g_id g = p_clip_id p \<and> p_start_us p = g_start_us g \<and> p_source_in_us p = g_in_us g \<and>
          p_source_in_us p + p_duration_us p \<le> g_out_us g)) \<and>
    (\<forall>g\<in>set gs. (\<exists>p\<in>set (place_bgm gs d). p_clip_id p = g_id g) \<longleftrightarrow> g_start_us g < d)"
proof (intro conjI ballI)
  show "sorted_wrt (\<lambda>a b. p_end_us a \<le> p_start_us b) (place_bgm gs d)" by (rule place_bgm_disjoint [OF assms(1,2)])
next
  fix p
  assume "p \<in> set (place_bgm gs d)"
  then obtain g where g: "g \<in> set gs" "place_one_bgm d g = Some p" using place_bgm_member by blast
  then have v: "valid_bgm g" using assms(2) by (simp add: list_all_iff)
  note P = place_one_bgm_SomeD [OF g(2) v]
  show "0 \<le> p_start_us p" using P(1) v by (simp add: valid_bgm_def)
  show "p_start_us p < p_end_us p" using P(2) by (simp add: p_end_us_def)
  show "p_end_us p \<le> d" "0 \<le> p_fade_in_us p" "0 \<le> p_fade_out_us p" "p_fade_in_us p + p_fade_out_us p \<le> p_duration_us p"
    by (fact P)+
  show "\<exists>g\<in>set gs. g_id g = p_clip_id p \<and> p_start_us p = g_start_us g \<and> p_source_in_us p = g_in_us g \<and>
      p_source_in_us p + p_duration_us p \<le> g_out_us g"
    using g(1) P by (intro bexI [of _ g]) simp_all
next
  fix g
  assume g: "g \<in> set gs"
  have "0 < bgm_clip_length_us g" using g assms(2) by (simp add: list_all_iff valid_bgm_def bgm_clip_length_us_def)
  then have one: "place_one_bgm d g = None \<longleftrightarrow> \<not> g_start_us g < d" by (auto simp: place_one_bgm_def Let_def)
  have id: "h = g" if "h \<in> set gs" "place_one_bgm d h = Some p" "p_clip_id p = g_id g" for h p
  proof -
    have "valid_bgm h" using assms(2) that(1) by (simp add: list_all_iff)
    then have "g_id h = g_id g" using place_one_bgm_SomeD(9) [OF that(2)] that(3) by simp
    then show ?thesis using assms(3) g that(1) by (auto simp: distinct_map dest: inj_onD)
  qed
  show "(\<exists>p\<in>set (place_bgm gs d). p_clip_id p = g_id g) \<longleftrightarrow> g_start_us g < d"
  proof
    assume "\<exists>p\<in>set (place_bgm gs d). p_clip_id p = g_id g"
    then show "g_start_us g < d" using place_bgm_member id one by (metis option.distinct(1))
  next
    assume "g_start_us g < d"
    then obtain p where p: "place_one_bgm d g = Some p" using one by (cases "place_one_bgm d g") auto
    moreover have "valid_bgm g" using g assms(2) by (simp add: list_all_iff)
    ultimately have "p_clip_id p = g_id g" by (intro place_one_bgm_SomeD(9))
    moreover have "p \<in> set (place_bgm gs d)" using p g by (auto simp: place_bgm_def set_map_filter_iff)
    ultimately show "\<exists>p\<in>set (place_bgm gs d). p_clip_id p = g_id g" by blast
  qed
qed

theorem place_bgm_track_witness:
  "list_all (\<lambda>p. p_end_us p \<le> 3000000 \<and> p_fade_in_us p + p_fade_out_us p \<le> p_duration_us p)
     (place_bgm (ct_bgm sample_content) 3000000)"
  using place_bgm_track [of "ct_bgm sample_content" 3000000] sample_content_valid
  by (simp add: valid_content_def unique_content_def list_all_iff)

end
