(* ===== verification/Placement_Laws.thy ===== *)
theory Placement_Laws
  imports Placement Readout_Laws
begin

text \<open>
  The laws of the placement: pieces stay inside the timeline, overlapping pieces go to as few tracks as
  possible, and the clips lie where the readout shows them.
\<close>

section \<open>Stacking on tracks\<close>

definition track_free :: "('a \<Rightarrow> int) \<Rightarrow> ('a \<Rightarrow> int) \<Rightarrow> 'a list \<Rightarrow> bool" where
  "track_free st du track = sorted_wrt (\<lambda>a b. st a + du a \<le> st b) track"

definition sounding :: "('a \<Rightarrow> int) \<Rightarrow> ('a \<Rightarrow> int) \<Rightarrow> int \<Rightarrow> 'a \<Rightarrow> bool" where
  "sounding st du t x = (st x \<le> t \<and> t < st x + du x)"

lemma put_on_track_mset: "mset (concat (put_on_track st du x tracks)) = add_mset x (mset (concat tracks))"
  by (induction tracks) auto

lemma put_on_track_nonempty: "[] \<notin> set tracks \<Longrightarrow> [] \<notin> set (put_on_track st du x tracks)"
  by (induction tracks) auto

lemma track_free_snoc:
  assumes "track_free st du track" "track \<noteq> []" "\<And>a. a \<in> set track \<Longrightarrow> 0 < du a"
    and "st (last track) + du (last track) \<le> st x"
  shows "track_free st du (track @ [x])"
proof -
  have "st a + du a \<le> st x" if "a \<in> set track" for a
  proof (cases "a \<in> set (butlast track)")
    case True
    have "track_free st du (butlast track @ [last track])" using assms(1,2) by simp
    then have "st a + du a \<le> st (last track)" using True by (auto simp: track_free_def sorted_wrt_append)
    moreover have "0 < du (last track)" using assms(2,3) by simp
    ultimately show ?thesis using assms(4) by linarith
  next
    case False
    then have "a = last track" using that assms(2) by (metis append_butlast_last_id in_set_conv_decomp set_ConsD UnE set_append empty_iff list.set(1) insert_iff list.set(2))
    then show ?thesis using assms(4) by simp
  qed
  then show ?thesis using assms(1) by (auto simp: track_free_def sorted_wrt_append)
qed

lemma put_on_track_free:
  assumes "list_all (track_free st du) tracks" "[] \<notin> set tracks" "\<And>a. a \<in> set (concat tracks) \<Longrightarrow> 0 < du a"
  shows "list_all (track_free st du) (put_on_track st du x tracks)"
  using assms
proof (induction tracks)
  case Nil
  then show ?case by (simp add: track_free_def)
next
  case (Cons track tracks)
  then show ?case by (auto intro!: track_free_snoc)
qed

text \<open>A track is opened only when a piece sounds on every other one.\<close>

lemma put_on_track_opens:
  assumes "length (put_on_track st du x tracks) \<noteq> length tracks" "\<And>a. a \<in> set (concat tracks) \<Longrightarrow> st a \<le> st x"
    and "[] \<notin> set tracks" "0 < du x"
  shows "length (put_on_track st du x tracks) \<le>
    length (filter (sounding st du (st x)) (concat (put_on_track st du x tracks)))"
  using assms
proof (induction tracks)
  case Nil
  then show ?case by (simp add: sounding_def)
next
  case (Cons track tracks)
  have no: "st x < st (last track) + du (last track)" using Cons.prems(1) by (auto split: if_splits)
  then have "sounding st du (st x) (last track)" using Cons.prems(2) [of "last track"] Cons.prems(3)
    by (cases "track = []") (auto simp: sounding_def)
  then have "1 \<le> length (filter (sounding st du (st x)) track)" using Cons.prems(3)
    by (metis One_nat_def Suc_leI filter_empty_conv last_in_set length_greater_0_conv list.set_intros(1))
  then show ?case using Cons no by auto
qed

lemma put_on_track_length: "length tracks \<le> length (put_on_track st du x tracks)"
  by (induction tracks) auto

lemma count_mono_mset: "mset xs \<subseteq># mset ys \<Longrightarrow> length (filter P xs) \<le> length (filter P ys)"
  by (metis multiset_filter_mono mset_filter size_mset size_mset_mono)

definition stacked :: "('a \<Rightarrow> int) \<Rightarrow> ('a \<Rightarrow> int) \<Rightarrow> 'a list \<Rightarrow> 'a list list \<Rightarrow> bool" where
  "stacked st du items tracks =
     (mset (concat tracks) = mset items \<and> [] \<notin> set tracks \<and> list_all (track_free st du) tracks \<and>
      (tracks = [] \<or> (\<exists>t. length tracks \<le> length (filter (sounding st du t) (concat tracks)))))"

lemma stack_step:
  assumes s: "stacked st du items tracks" and x: "\<And>a. a \<in> set items \<Longrightarrow> st a \<le> st x \<and> 0 < du a" "0 < du x"
  shows "stacked st du (items @ [x]) (put_on_track st du x tracks)"
proof -
  have set: "set (concat tracks) = set items" using s by (metis stacked_def set_mset_mset)
  let ?t = "put_on_track st du x tracks"
  have "\<exists>t. length ?t \<le> length (filter (sounding st du t) (concat ?t))"
  proof (cases "length ?t = length tracks \<and> tracks \<noteq> []")
    case True
    then obtain t where "length tracks \<le> length (filter (sounding st du t) (concat tracks))"
      using s by (auto simp: stacked_def)
    also have "\<dots> \<le> length (filter (sounding st du t) (concat ?t))"
      by (rule count_mono_mset) (simp add: put_on_track_mset del: mset_concat)
    finally show ?thesis using True by auto
  next
    case False
    then have "length ?t \<noteq> length tracks" by (cases tracks) auto
    then show ?thesis using put_on_track_opens [of st du x tracks] s x set
      by (intro exI [of _ "st x"]) (auto simp: stacked_def)
  qed
  then show ?thesis using s x put_on_track_free [of st du tracks x] put_on_track_nonempty [of tracks st du x] set
    by (auto simp: stacked_def put_on_track_mset simp del: mset_concat)
qed

lemma stack_tracks_stacked:
  assumes "\<And>x. x \<in> set items \<Longrightarrow> 0 < du x"
  shows "stacked st du items (stack_tracks st du items)"
proof -
  have "stacked st du xs (foldl (\<lambda>tracks item. put_on_track st du item tracks) [] xs)"
    if "sorted (map st xs)" "\<And>x. x \<in> set xs \<Longrightarrow> 0 < du x" for xs
    using that
  proof (induction xs rule: rev_induct)
    case Nil
    then show ?case by (simp add: stacked_def)
  next
    case (snoc x xs)
    then show ?case by (auto simp: sorted_append intro!: stack_step)
  qed
  from this [of "sort_key st items"] show ?thesis
    using assms by (simp add: stack_tracks_def stacked_def)
qed

lemma one_sounding:
  assumes "track_free st du track"
  shows "length (filter (sounding st du t) track) \<le> 1"
  using assms
proof (induction track)
  case (Cons x track)
  show ?case
  proof (cases "sounding st du t x")
    case True
    then have "filter (sounding st du t) track = []"
      using Cons.prems by (fastforce simp: filter_empty_conv track_free_def sounding_def)
    then show ?thesis by simp
  next
    case False
    then show ?thesis using Cons by (simp add: track_free_def)
  qed
qed simp

lemma sounding_le_tracks:
  "list_all (track_free st du) tracks \<Longrightarrow> length (filter (sounding st du t) (concat tracks)) \<le> length tracks"
  by (induction tracks) (auto dest: one_sounding [where t = t])

text \<open>C18: \<open>stack_tracks\<close> spreads pieces of positive length over tracks: every piece goes to exactly one
  track, no two pieces of a track overlap, and no arrangement without overlaps has fewer tracks.\<close>

theorem stack_tracks_optimal:
  assumes "\<And>x. x \<in> set items \<Longrightarrow> 0 < duration_of x"
  shows "mset (concat (stack_tracks start_us duration_of items)) = mset items \<and>
    list_all (track_free start_us duration_of) (stack_tracks start_us duration_of items) \<and>
    (\<forall>tracks. list_all (track_free start_us duration_of) tracks \<and> mset (concat tracks) = mset items \<longrightarrow>
       length (stack_tracks start_us duration_of items) \<le> length tracks)"
proof -
  have s: "stacked start_us duration_of items (stack_tracks start_us duration_of items)"
    by (rule stack_tracks_stacked [OF assms])
  have "length (stack_tracks start_us duration_of items) \<le> length tracks"
    if t: "list_all (track_free start_us duration_of) tracks" "mset (concat tracks) = mset items" for tracks
  proof (cases "stack_tracks start_us duration_of items = []")
    case False
    then obtain t where "length (stack_tracks start_us duration_of items) \<le>
        length (filter (sounding start_us duration_of t) (concat (stack_tracks start_us duration_of items)))"
      using s by (auto simp: stacked_def)
    also have "\<dots> \<le> length (filter (sounding start_us duration_of t) (concat tracks))"
      by (rule count_mono_mset) (use s t(2) in \<open>simp add: stacked_def del: mset_concat\<close>)
    also have "\<dots> \<le> length tracks" by (rule sounding_le_tracks [OF t(1)])
    finally show ?thesis .
  qed simp
  then show ?thesis using s unfolding stacked_def by blast
qed

definition sample_pieces :: "placed_subtitle list" where
  "sample_pieces =
     [\<lparr>ps_start_us = 4, ps_duration_us = 6, ps_text = ''b''\<rparr>, \<lparr>ps_start_us = 0, ps_duration_us = 5, ps_text = ''a''\<rparr>,
      \<lparr>ps_start_us = 5, ps_duration_us = 3, ps_text = ''c''\<rparr>]"

theorem stack_tracks_optimal_witness:
  "length (stack_tracks ps_start_us ps_duration_us sample_pieces) = 2 \<and>
   mset (concat (stack_tracks ps_start_us ps_duration_us sample_pieces)) = mset sample_pieces \<and>
   list_all (track_free ps_start_us ps_duration_us) (stack_tracks ps_start_us ps_duration_us sample_pieces)"
proof -
  have two: "length (stack_tracks ps_start_us ps_duration_us sample_pieces) = 2" by code_simp
  have "\<forall>x\<in>set sample_pieces. 0 < ps_duration_us x" by code_simp
  then show ?thesis using stack_tracks_optimal [of sample_pieces ps_duration_us ps_start_us] two by blast
qed

section \<open>The clips lie where the readout shows them\<close>

text \<open>The materials of an export agree with the sources of the readout: exactly the clips whose unit is
  in the script have a material, of the version and length that the readout knows.\<close>

definition materials_match ::
    "episode_sources \<Rightarrow> (string \<Rightarrow> unit_material option) \<Rightarrow> edit_clip list \<Rightarrow> bool" where
  "materials_match so units cs =
     list_all (\<lambda>c. case (unit_of so (c_unit_id c), so_media so (c_unit_id c)) of
         (Some _, Some m) \<Rightarrow>
           (case units (c_unit_id c) of
              None \<Rightarrow> False
            | Some u \<Rightarrow> m_video_version m = Some (um_video_version u) \<and>
                        m_video_us m = Some (um_video_duration_us u))
       | _ \<Rightarrow> units (c_unit_id c) = None) cs"

definition placed_span :: "placed_clip \<Rightarrow> string \<times> int \<times> int" where
  "placed_span p = (pc_clip_id p, pc_start_us p, pc_source_duration_us p + pc_hold_us p)"

lemma place_clip_span:
  assumes "materials_match so units [c]"
  shows "pg_cursor (place_clip units c st) = pg_cursor st + clip_duration_us so c"
    "map placed_span (pg_clips (place_clip units c st)) = map placed_span (pg_clips st) @
       (if units (c_unit_id c) = None then [] else [(c_id c, pg_cursor st, clip_duration_us so c)])"
  using assms
  by (auto simp: place_clip_def materials_match_def placed_span_def clip_duration_us_def clip_source_duration_us_def
      source_window_def Let_def split: option.splits)

lemma place_clips_span:
  assumes "materials_match so units cs"
  shows "pg_cursor (fold (place_clip units) cs st) = pg_cursor st + total_us so cs \<and>
    map placed_span (pg_clips (fold (place_clip units) cs st)) = map placed_span (pg_clips st) @
      map (\<lambda>i. (c_id (cs ! i), pg_cursor st + clip_start_us so cs i, clip_duration_us so (cs ! i)))
        (filter (\<lambda>i. units (c_unit_id (cs ! i)) \<noteq> None) [0..<length cs])"
  using assms
proof (induction cs arbitrary: st)
  case Nil
  then show ?case by (simp add: total_us_def)
next
  case (Cons c cs)
  have m: "materials_match so units [c]" "materials_match so units cs"
    using Cons.prems by (simp_all add: materials_match_def)
  have "[0..<length (c # cs)] = 0 # map Suc [0..<length cs]" by (simp add: upt_conv_Cons map_Suc_upt del: upt_Suc)
  then show ?case
    using Cons.IH [OF m(2), of "place_clip units c st"] place_clip_span [OF m(1), of st]
    by (auto simp: total_us_def filter_map o_def add.assoc simp del: upt_Suc)
qed

lemma drop_last_transition_span [simp]: "map placed_span (drop_last_transition ps) = map placed_span ps"
proof (cases ps rule: rev_cases)
  case (snoc qs q)
  then show ?thesis by (simp add: drop_last_transition_def placed_span_def)
qed (simp add: drop_last_transition_def)

text \<open>C9: what is exported is what was shown. When the materials agree with the sources, the exported
  timeline is as long as the readout's, and its clips are those of the readout whose unit is in the
  script, in order, with the same ids, starts and durations.\<close>

theorem place_timeline_as_shown:
  assumes "materials_match so units (ct_clips ct)"
  shows "dp_duration_us (place_timeline ct units bgm) = total_us so (ct_clips ct) \<and>
    map placed_span (dp_clips (place_timeline ct units bgm)) =
      map (\<lambda>i. (c_id (ct_clips ct ! i), clip_start_us so (ct_clips ct) i, clip_duration_us so (ct_clips ct ! i)))
        (filter (\<lambda>i. units (c_unit_id (ct_clips ct ! i)) \<noteq> None) [0..<length (ct_clips ct)])"
  using place_clips_span [OF assms, of "\<lparr>pg_cursor = 0, pg_clips = [], pg_narrations = [], pg_subtitles = []\<rparr>"]
  by (simp add: place_timeline_def Let_def)

definition sample_materials :: "string \<Rightarrow> unit_material option" where
  "sample_materials = map_of
     [(''U1'', \<lparr>um_unit_id = ''U1'', um_video_path = ''u1.mp4'', um_video_version = 1, um_video_duration_us = 6000000,
        um_source_gain = 1, um_subtitles = [\<lparr>cue_start_us = 0, cue_duration_us = 12000000, cue_text = ''one''\<rparr>],
        um_narration_path = Some ''n1.wav'', um_narration_duration_us = Some 3000000\<rparr>),
      (''U2'', \<lparr>um_unit_id = ''U2'', um_video_path = ''u2.mp4'', um_video_version = 2, um_video_duration_us = 4000000,
        um_source_gain = 1, um_subtitles = [\<lparr>cue_start_us = 1000000, cue_duration_us = 1000000, cue_text = ''two''\<rparr>],
        um_narration_path = None, um_narration_duration_us = None\<rparr>)]"

lemma sample_materials_match: "materials_match sample_sources sample_materials (ct_clips sample_content)"
  by code_simp

lemma sample_total: "total_us sample_sources (ct_clips sample_content) = 10000000"
  by code_simp

theorem place_timeline_as_shown_witness:
  "dp_duration_us (place_timeline sample_content sample_materials (\<lambda>_. None)) = 10000000"
  using place_timeline_as_shown [OF sample_materials_match] sample_total by simp

lemma sample_duration [simp]: "dp_duration_us (place_timeline sample_content sample_materials bgm) = 10000000"
  using place_clips_span [OF sample_materials_match, of "\<lparr>pg_cursor = 0, pg_clips = [], pg_narrations = [], pg_subtitles = []\<rparr>"]
  by (simp add: place_timeline_def Let_def sample_total)

section \<open>Nothing reaches outside\<close>

text \<open>Narration and subtitles stay inside the timeline. Both tracks are ordered by start, every
  piece is nonempty and ends by the end of the timeline, and it is one of the pieces that were laid,
  at most shortened at its end; a nonempty piece is lost only when it starts at the end or later.\<close>

theorem place_timeline_inside:
  fixes ct units bgm
  defines "st \<equiv> fold (place_clip units) (ct_clips ct) \<lparr>pg_cursor = 0, pg_clips = [], pg_narrations = [], pg_subtitles = []\<rparr>"
    and "dp \<equiv> place_timeline ct units bgm"
  shows "sorted_wrt (\<lambda>a b. pn_start_us a \<le> pn_start_us b) (dp_narrations dp) \<and>
    sorted_wrt (\<lambda>a b. ps_start_us a \<le> ps_start_us b) (dp_subtitles dp) \<and>
    (\<forall>n\<in>set (dp_narrations dp). 0 < pn_duration_us n \<and> pn_end_us n \<le> dp_duration_us dp \<and>
       (\<exists>m\<in>set (pg_narrations st). n = m\<lparr>pn_duration_us := pn_duration_us n\<rparr> \<and> pn_duration_us n \<le> pn_duration_us m)) \<and>
    (\<forall>x\<in>set (dp_subtitles dp). 0 < ps_duration_us x \<and> ps_end_us x \<le> dp_duration_us dp \<and>
       (\<exists>y\<in>set (pg_subtitles st). x = y\<lparr>ps_duration_us := ps_duration_us x\<rparr> \<and> ps_duration_us x \<le> ps_duration_us y)) \<and>
    (\<forall>m\<in>set (pg_narrations st). 0 < pn_duration_us m \<and> pn_start_us m < dp_duration_us dp \<longrightarrow>
       m\<lparr>pn_duration_us := min (pn_duration_us m) (dp_duration_us dp - pn_start_us m)\<rparr> \<in> set (dp_narrations dp)) \<and>
    (\<forall>y\<in>set (pg_subtitles st). 0 < ps_duration_us y \<and> ps_start_us y < dp_duration_us dp \<longrightarrow>
       y\<lparr>ps_duration_us := min (ps_duration_us y) (dp_duration_us dp - ps_start_us y)\<rparr> \<in> set (dp_subtitles dp))"
proof -
  have dp: "dp_duration_us dp = pg_cursor st"
    "dp_narrations dp = within_timeline pn_start_us pn_duration_us (\<lambda>d n. n\<lparr>pn_duration_us := d\<rparr>) (pg_narrations st) (pg_cursor st)"
    "dp_subtitles dp = within_timeline ps_start_us ps_duration_us (\<lambda>d s. s\<lparr>ps_duration_us := d\<rparr>) (pg_subtitles st) (pg_cursor st)"
    by (simp_all add: dp_def st_def place_timeline_def Let_def)
  note n = narration_piece.within_bounds [of _ "pg_narrations st" "pg_cursor st"]
  note y = subtitle_piece.within_bounds [of _ "pg_subtitles st" "pg_cursor st"]
  show ?thesis unfolding dp pn_end_us_def ps_end_us_def
    using narration_piece.within_sorted [of "pg_narrations st" "pg_cursor st"]
      subtitle_piece.within_sorted [of "pg_subtitles st" "pg_cursor st"] n y
      narration_piece.within_complete [of _ "pg_narrations st" "pg_cursor st"]
      subtitle_piece.within_complete [of _ "pg_subtitles st" "pg_cursor st"]
    by (intro conjI ballI impI) blast+
qed

theorem place_timeline_inside_witness:
  "list_all (\<lambda>n. pn_end_us n \<le> 10000000) (dp_narrations (place_timeline sample_content sample_materials (\<lambda>_. None)))"
proof -
  let ?dp = "place_timeline sample_content sample_materials (\<lambda>_. None)"
  have "\<forall>n\<in>set (dp_narrations ?dp). pn_end_us n \<le> dp_duration_us ?dp"
    using place_timeline_inside [where ct = sample_content and units = sample_materials and bgm = "\<lambda>_. None"] by blast
  then show ?thesis by (simp add: list_all_iff)
qed

end
