(* ===== verification/Render_Laws.thy ===== *)
theory Render_Laws
  imports Render_Plan Placement_Laws
begin

text \<open>
  The laws of the rendering plan: the clips tile the frames of the output, the segments compose to
  exactly their own length, no window reads outside its source, and the plan renders what the
  placement lays.
\<close>

section \<open>The grid\<close>

text \<open>What laying out needs of the grid of output frames.\<close>

locale frame_grid =
  fixes frame :: "int \<Rightarrow> int"
  assumes frame_mono: "a \<le> b \<Longrightarrow> frame a \<le> frame b" and frame_zero: "frame 0 = 0"

fun tiled :: "int \<Rightarrow> planned_clip list \<Rightarrow> int \<Rightarrow> bool" where
  "tiled a [] b = (a = b)"
| "tiled a (q # qs) b = (pl_start_frame q = a \<and> 0 < pl_frames q \<and> tiled (pl_end_frame q) qs b)"

definition rc_length_us :: "render_clip \<Rightarrow> int" where
  "rc_length_us c = rc_source_duration_us c + rc_hold_us c"

definition clip_offset :: "render_clip list \<Rightarrow> nat \<Rightarrow> int" where
  "clip_offset cs i = sum_list (map rc_length_us (take i cs))"

definition nonneg_clip :: "render_clip \<Rightarrow> bool" where
  "nonneg_clip c = (0 \<le> rc_source_duration_us c \<and> 0 \<le> rc_hold_us c \<and> 0 \<le> rc_source_in_us c)"

lemma clip_offset_simps [simp]:
  "clip_offset cs 0 = 0" "clip_offset (c # cs) (Suc i) = rc_length_us c + clip_offset cs i"
  by (simp_all add: clip_offset_def)

context frame_grid
begin

lemma lay_out_tiles:
  assumes "list_all nonneg_clip cs"
  shows "tiled (frame t) (fst (lay_out_from frame t cs)) (snd (lay_out_from frame t cs)) \<and>
    snd (lay_out_from frame t cs) = frame (t + clip_offset cs (length cs))"
  using assms
proof (induction cs arbitrary: t)
  case (Cons c cs)
  let ?u = "t + (rc_source_duration_us c + rc_hold_us c)"
  have "frame t \<le> frame (t + rc_source_duration_us c)" "frame t \<le> frame ?u"
    using Cons.prems by (auto simp: nonneg_clip_def intro: frame_mono)
  then show ?case using Cons.IH [of ?u] Cons.prems
    by (auto simp: case_prod_beta Let_def pl_frames_def pl_end_frame_def rc_length_us_def add.assoc)
qed simp

lemma lay_out_sources:
  assumes "list_all nonneg_clip cs" "q \<in> set (fst (lay_out_from frame t cs))"
  shows "\<exists>i<length cs. pl_render q = cs ! i \<and> pl_start_frame q = frame (t + clip_offset cs i) \<and>
    pl_end_frame q = frame (t + clip_offset cs (Suc i)) \<and> 0 \<le> pl_source_frames q \<and> 0 \<le> pl_hold_frames q"
  using assms
proof (induction cs arbitrary: t)
  case (Cons c cs)
  let ?u = "t + (rc_source_duration_us c + rc_hold_us c)"
  have le: "frame t \<le> frame (t + rc_source_duration_us c)" "frame (t + rc_source_duration_us c) \<le> frame ?u"
    using Cons.prems(1) by (auto simp: nonneg_clip_def intro: frame_mono)
  show ?case
  proof (cases "q \<in> set (fst (lay_out_from frame ?u cs))")
    case True
    then obtain i where "i < length cs" "pl_render q = cs ! i" "pl_start_frame q = frame (?u + clip_offset cs i)"
      "pl_end_frame q = frame (?u + clip_offset cs (Suc i))" "0 \<le> pl_source_frames q" "0 \<le> pl_hold_frames q"
      using Cons.IH [of ?u] Cons.prems(1) by auto
    then show ?thesis by (intro exI [of _ "Suc i"]) (simp add: rc_length_us_def add.assoc)
  next
    case False
    then show ?thesis using Cons.prems(2) le
      by (intro exI [of _ 0])
        (auto simp: case_prod_beta Let_def pl_end_frame_def pl_frames_def rc_length_us_def split: if_splits)
  qed
qed simp

lemma lay_out_plain:
  "q \<in> set (fst (lay_out_from frame t cs)) \<Longrightarrow>
     pl_lead q = no_extension \<and> pl_trail q = no_extension \<and> pl_fade_in q = None \<and> pl_fade_out q = None"
  by (induction cs arbitrary: t) (auto simp: case_prod_beta Let_def split: if_splits)

end

lemma frame_at_mono: "0 \<le> op_fps p \<Longrightarrow> a \<le> b \<Longrightarrow> frame_at p a \<le> frame_at p b"
  unfolding frame_at_def microseconds_per_second_def
  by (intro rne_mono divide_right_mono) (simp_all add: mult_right_mono)

lemma profile_fps [simp]: "op_fps (output_profile_for_aspect_ratio r) = 30"
  by (simp add: output_profile_for_aspect_ratio_def Let_def final_cut_fps_def)

interpretation final_grid: frame_grid "frame_at (output_profile_for_aspect_ratio r)" for r
  by unfold_locales (simp_all add: frame_at_mono, simp add: frame_at_def)

section \<open>Joining\<close>

definition window_of :: "output_profile \<Rightarrow> planned_clip \<Rightarrow> int \<times> int" where
  "window_of p q = (case rc_transition (pl_render q) of Some t \<Rightarrow> window_frames t p | None \<Rightarrow> (0, 0))"

text \<open>What is the same before and after a clip is joined with its neighbours.\<close>

definition core :: "planned_clip \<Rightarrow> render_clip \<times> int \<times> int \<times> int" where
  "core q = (pl_render q, pl_start_frame q, pl_source_frames q, pl_hold_frames q)"

lemma core_eq:
  "core a = core b \<longleftrightarrow> pl_render a = pl_render b \<and> pl_start_frame a = pl_start_frame b \<and>
     pl_source_frames a = pl_source_frames b \<and> pl_hold_frames a = pl_hold_frames b"
  by (auto simp: core_def)

lemma x_frames_borrow [simp]: "x_frames (borrow_frames needed available fps) = needed"
  by (simp add: borrow_frames_def x_frames_def Let_def)

lemma x_frames_none [simp]: "x_frames no_extension = 0"
  by (simp add: no_extension_def x_frames_def)

lemma join_clips_core:
  "join_clips p a b = (a', b') \<Longrightarrow> core a' = core a \<and> core b' = core b \<and> pl_lead a' = pl_lead a \<and> pl_trail b' = pl_trail b"
  by (auto simp: join_clips_def core_def case_prod_beta Let_def split: option.splits)

lemma join_all_core: "map core (join_all p qs) = map core qs"
proof (induction p qs rule: join_all.induct)
  case (1 p a b rest)
  obtain a' b' where j: "join_clips p a b = (a', b')" by fastforce
  then show ?case using "1.IH" [OF j [symmetric] refl] join_clips_core [OF j] by simp
qed simp_all

lemma tiled_core: "map core qs = map core rs \<Longrightarrow> tiled a qs b = tiled a rs b"
proof (induction qs arbitrary: rs a)
  case (Cons q qs)
  then obtain r rs' where "rs = r # rs'" "core q = core r" "map core qs = map core rs'" by (cases rs) auto
  then show ?case using Cons.IH by (simp add: core_eq pl_frames_def pl_end_frame_def)
qed simp

text \<open>Neighbours agree on the window between them, and nothing is borrowed at the ends.\<close>

fun linked :: "output_profile \<Rightarrow> planned_clip list \<Rightarrow> bool" where
  "linked p (a # b # rest) =
     (x_frames (pl_trail a) = (if clip_overlaps a then snd (window_of p a) else 0) \<and>
      x_frames (pl_lead b) = (if clip_overlaps a then fst (window_of p a) else 0) \<and> linked p (b # rest))"
| "linked p [a] = (x_frames (pl_trail a) = 0)"
| "linked p [] = True"

definition nothing_borrowed :: "planned_clip \<Rightarrow> bool" where
  "nothing_borrowed q = (pl_lead q = no_extension \<and> pl_trail q = no_extension)"

lemma join_clips_linked:
  assumes "join_clips p a b = (a', b')" "pl_trail a = no_extension" "nothing_borrowed b"
  shows "x_frames (pl_trail a') = (if clip_overlaps a' then snd (window_of p a') else 0)"
    "x_frames (pl_lead b') = (if clip_overlaps a' then fst (window_of p a') else 0)"
    "pl_trail b' = no_extension"
  using assms
  by (auto simp: join_clips_def nothing_borrowed_def clip_overlaps_def overlapping_def window_of_def
      case_prod_beta Let_def split: option.splits)

lemma join_all_hd: "join_all p (b # rest) = c # cs \<Longrightarrow> core c = core b \<and> pl_lead c = pl_lead b"
proof (cases rest)
  case (Cons d ds)
  moreover obtain b' d' where j: "join_clips p b d = (b', d')" by fastforce
  moreover assume "join_all p (b # rest) = c # cs"
  ultimately show ?thesis using join_clips_core [OF j] by simp
qed simp

lemma join_all_linked:
  assumes "list_all nothing_borrowed rest" "pl_trail a = no_extension"
  shows "linked p (join_all p (a # rest))"
  using assms
proof (induction rest arbitrary: a)
  case (Cons b rest)
  obtain a' b' where j: "join_clips p a b = (a', b')" by fastforce
  note L = join_clips_linked [OF j]
  have IH: "linked p (join_all p (b' # rest))" using Cons L(3) by simp
  obtain c cs where c: "join_all p (b' # rest) = c # cs"
    using join_all_core [of p "b' # rest"] by (cases "join_all p (b' # rest)") auto
  then show ?case using IH L(1,2) Cons.prems join_all_hd [OF c] by (simp add: j)
qed simp

section \<open>Segments\<close>

text \<open>The segments of a plan, each with the windows between its clips: the stream that is composed of the
  first clips ends where the window into the next one ends.\<close>

definition composed_frames :: "planned_clip list \<Rightarrow> crossfade list \<Rightarrow> int" where
  "composed_frames qs fs = sum_list (map pl_stream_frames qs) - sum_list (map cf_frames fs)"

definition segment_ok :: "render_segment \<Rightarrow> bool" where
  "segment_ok s =
     (length (sg_clips s) = Suc (length (sg_crossfades s)) \<and>
      composed_frames (sg_clips s) (sg_crossfades s) = sg_frames s \<and>
      (\<forall>k<length (sg_crossfades s). cf_offset_frames (sg_crossfades s ! k) + cf_frames (sg_crossfades s ! k) =
         composed_frames (take (Suc k) (sg_clips s)) (take k (sg_crossfades s))))"

text \<open>The state of the loop: the clips of the open segment, all with a window to the next clip.\<close>

definition open_segment :: "planned_clip list \<Rightarrow> crossfade list \<Rightarrow> planned_clip \<Rightarrow> bool" where
  "open_segment current fs item =
     (length current = length fs \<and>
      composed_frames current fs = pl_start_frame item - x_frames (pl_lead item) -
        pl_start_frame (hd (current @ [item])) \<and>
      sum_list (map pl_frames current) = pl_start_frame item - pl_start_frame (hd (current @ [item])) \<and>
      (\<forall>k<length fs. cf_offset_frames (fs ! k) + cf_frames (fs ! k) =
         composed_frames (take (Suc k) current) (take k fs)))"

lemma open_segment_extend:
  assumes o: "open_segment current fs item" and t: "rc_transition (pl_render item) = Some t" "clip_overlaps item"
    and l: "linked p (item # b # rest)" and n: "pl_start_frame b = pl_end_frame item"
  shows "open_segment (current @ [item])
     (fs @ [crossfade_of p (pl_start_frame (hd (current @ [item]))) item t]) b"
proof -
  let ?f = "crossfade_of p (pl_start_frame (hd (current @ [item]))) item t"
  have f: "cf_frames ?f = fst (window_of p item) + snd (window_of p item)"
    "cf_offset_frames ?f = pl_end_frame item - fst (window_of p item) - pl_start_frame (hd (current @ [item]))"
    using t(1) by (simp_all add: crossfade_of_def window_of_def case_prod_beta)
  have x: "x_frames (pl_trail item) = snd (window_of p item)" "x_frames (pl_lead b) = fst (window_of p item)"
    using l t(2) by simp_all
  have c: "composed_frames (current @ [item]) fs =
      pl_end_frame item + snd (window_of p item) - pl_start_frame (hd (current @ [item]))"
    using o x by (simp add: open_segment_def composed_frames_def pl_stream_frames_def pl_end_frame_def)
  have hd: "hd ((current @ [item]) @ [b]) = hd (current @ [item])" by (cases current) simp_all
  have "composed_frames (current @ [item]) (fs @ [?f]) =
      pl_start_frame b - x_frames (pl_lead b) - pl_start_frame (hd (current @ [item]))"
    using c f x n by (simp add: composed_frames_def)
  moreover have "cf_offset_frames ((fs @ [?f]) ! k) + cf_frames ((fs @ [?f]) ! k) =
      composed_frames (take (Suc k) (current @ [item])) (take k (fs @ [?f]))" if "k < length (fs @ [?f])" for k
  proof (cases "k < length fs")
    case True
    then show ?thesis using o by (simp add: open_segment_def nth_append)
  next
    case False
    then have "k = length fs" using that by simp
    then show ?thesis using o c f by (simp add: open_segment_def)
  qed
  ultimately show ?thesis using o n unfolding open_segment_def hd
    by (simp add: pl_end_frame_def)
qed

lemma open_segment_close:
  assumes "open_segment current fs item" "x_frames (pl_trail item) = 0"
  shows "segment_ok \<lparr>sg_clips = current @ [item], sg_crossfades = fs\<rparr>"
  using assms
  by (auto simp: open_segment_def segment_ok_def composed_frames_def sg_frames_def pl_stream_frames_def)

lemma open_segment_new: "x_frames (pl_lead item) = 0 \<Longrightarrow> open_segment [] [] item"
  by (simp add: open_segment_def composed_frames_def)

lemma split_segments_ok:
  assumes "linked p qs" "tiled a qs b" "qs \<noteq> [] \<longrightarrow> open_segment current fs (hd qs)" "qs = [] \<longrightarrow> current = []"
  shows "list_all segment_ok (split_segments p current fs qs) \<and>
    concat (map sg_clips (split_segments p current fs qs)) = current @ qs"
  using assms
proof (induction p current fs qs arbitrary: a rule: split_segments.induct)
  case (1 p current fs)
  then show ?case by simp
next
  case (2 p current fs item rest)
  have o: "open_segment current fs item" using "2.prems" by simp
  have rest: "linked p rest" "tiled (pl_end_frame item) rest b"
    using "2.prems" by (cases rest; simp)+
  have closed: "list_all segment_ok (\<lparr>sg_clips = current @ [item], sg_crossfades = fs\<rparr> # split_segments p [] [] rest) \<and>
      concat (map sg_clips (\<lparr>sg_clips = current @ [item], sg_crossfades = fs\<rparr> # split_segments p [] [] rest)) =
      current @ item # rest"
    if "\<not> clip_overlaps item \<or> rest = []"
      "list_all segment_ok (split_segments p [] [] rest) \<and> concat (map sg_clips (split_segments p [] [] rest)) = [] @ rest"
  proof -
    have "x_frames (pl_trail item) = 0" using "2.prems"(1) that(1) by (cases rest) auto
    then show ?thesis using open_segment_close [OF o] that(2) by simp
  qed
  have new: "rest \<noteq> [] \<longrightarrow> open_segment [] [] (hd rest)" if "\<not> clip_overlaps item \<or> rest = []"
    using "2.prems"(1) that by (cases rest) (auto intro: open_segment_new)
  show ?case
  proof (cases "rc_transition (pl_render item)")
    case None
    then have no: "\<not> clip_overlaps item" by (simp add: clip_overlaps_def)
    have "split_segments p current fs (item # rest) =
        \<lparr>sg_clips = current @ [item], sg_crossfades = fs\<rparr> # split_segments p [] [] rest"
      using None by (simp add: Let_def)
    then show ?thesis using closed [OF disjI1 [OF no]] "2.IH"(1) [OF refl None rest new [OF disjI1 [OF no]]] by simp
  next
    case (Some t)
    show ?thesis
    proof (cases "clip_overlaps item \<and> rest \<noteq> []")
      case True
      then obtain d ds where d: "rest = d # ds" by (cases rest) auto
      let ?fs = "fs @ [crossfade_of p (pl_start_frame (hd (current @ [item]))) item t]"
      have next_open: "open_segment (current @ [item]) ?fs d"
        using "2.prems"(1,2) True d by (intro open_segment_extend [OF o Some, of p d ds]) simp_all
      have IH: "list_all segment_ok (split_segments p (current @ [item]) ?fs rest) \<and>
          concat (map sg_clips (split_segments p (current @ [item]) ?fs rest)) = (current @ [item]) @ rest"
        by (rule "2.IH"(2) [OF refl Some True rest]) (use d next_open in simp_all)
      have "split_segments p current fs (item # rest) = split_segments p (current @ [item]) ?fs rest"
        using Some True by (simp add: Let_def)
      then show ?thesis using IH by simp
    next
      case False
      then have no: "\<not> clip_overlaps item \<or> rest = []" by blast
      have "split_segments p current fs (item # rest) =
          \<lparr>sg_clips = current @ [item], sg_crossfades = fs\<rparr> # split_segments p [] [] rest"
        using Some False by (auto simp: Let_def)
      then show ?thesis using closed [OF no] "2.IH"(3) [OF refl Some False rest new [OF no]] by simp
    qed
  qed
qed

section \<open>The laws\<close>

lemma lay_out_profile:
  "lay_out cs (output_profile_for_aspect_ratio r) = lay_out_from (frame_at (output_profile_for_aspect_ratio r)) 0 cs"
  by (simp add: lay_out_def)

lemma planned_linked: "linked p (join_all p (fst (lay_out cs (output_profile_for_aspect_ratio r))))"
proof (cases "fst (lay_out cs (output_profile_for_aspect_ratio r))")
  case (Cons q qs)
  have "nothing_borrowed x" if "x \<in> set (q # qs)" for x
    using final_grid.lay_out_plain [where q = x and t = 0 and cs = cs and r = r] that Cons by (simp add: nothing_borrowed_def lay_out_profile)
  then show ?thesis unfolding Cons by (intro join_all_linked) (simp_all add: list_all_iff nothing_borrowed_def)
qed simp

lemma first_not_borrowed:
  assumes "join_all p (fst (lay_out cs (output_profile_for_aspect_ratio r))) = q # qs"
  shows "x_frames (pl_lead q) = 0"
proof (cases "fst (lay_out cs (output_profile_for_aspect_ratio r))")
  case (Cons b rest)
  then have "pl_lead b = no_extension"
    using final_grid.lay_out_plain [where q = b and t = 0 and cs = cs and r = r] by (simp add: lay_out_profile)
  then show ?thesis using join_all_hd assms unfolding Cons by fastforce
qed (use assms in simp)

lemma plan_render_segments:
  fixes r cs
  assumes "list_all nonneg_clip cs"
  defines "p \<equiv> output_profile_for_aspect_ratio r"
  shows "list_all segment_ok (rp_segments (plan_render cs p))"
    "map core (rp_clips (plan_render cs p)) = map core (fst (lay_out cs p))"
    "tiled 0 (rp_clips (plan_render cs p)) (rp_total_frames (plan_render cs p))"
    "rp_total_frames (plan_render cs p) = frame_at p (clip_offset cs (length cs))"
    "rp_clips (plan_render cs p) = join_all p (fst (lay_out cs p))"
proof -
  let ?qs = "join_all p (fst (lay_out cs p))"
  have z: "frame_at p 0 = 0" unfolding p_def by (rule final_grid.frame_zero)
  have t: "tiled 0 (fst (lay_out cs p)) (snd (lay_out cs p))" "snd (lay_out cs p) = frame_at p (clip_offset cs (length cs))"
    using final_grid.lay_out_tiles [OF assms(1), where t = 0 and r = r, folded lay_out_profile p_def]
    unfolding z by auto
  have tq: "tiled 0 ?qs (snd (lay_out cs p))" using t(1) tiled_core [OF join_all_core] by metis
  have o: "?qs \<noteq> [] \<longrightarrow> open_segment [] [] (hd ?qs)"
    using first_not_borrowed [of p cs r] unfolding p_def by (cases ?qs) (auto intro: open_segment_new simp: p_def)
  have S: "list_all segment_ok (split_segments p [] [] ?qs) \<and> concat (map sg_clips (split_segments p [] [] ?qs)) = [] @ ?qs"
    by (rule split_segments_ok [OF _ tq o]) (use planned_linked in \<open>simp_all add: p_def\<close>)
  then show "list_all segment_ok (rp_segments (plan_render cs p))"
    by (simp add: plan_render_def case_prod_beta)
  show c: "rp_clips (plan_render cs p) = ?qs" using S by (simp add: plan_render_def rp_clips_def case_prod_beta)
  show "map core (rp_clips (plan_render cs p)) = map core (fst (lay_out cs p))" by (simp add: c join_all_core)
  show "tiled 0 (rp_clips (plan_render cs p)) (rp_total_frames (plan_render cs p))"
    using tq by (simp add: c) (simp add: plan_render_def case_prod_beta)
  show "rp_total_frames (plan_render cs p) = frame_at p (clip_offset cs (length cs))"
    using t(2) by (simp add: plan_render_def case_prod_beta)
qed

lemma frame_at_close: "\<bar>of_int (frame_at p us) - of_int (us * op_fps p) / 1000000\<bar> \<le> (1 / 2 :: rat)"
  unfolding frame_at_def microseconds_per_second_def of_int_numeral by (rule rne_close)

text \<open>C31: no drift. The clips of a plan tile the output from frame 0 to the total without gap or overlap,
  each with at least one frame; each begins and ends on the frame nearest to its exact time, so
  within half a frame, however many clips come before; and so does the whole.\<close>

theorem plan_render_tiles:
  assumes "list_all nonneg_clip cs" and "p = output_profile_for_aspect_ratio r"
  shows "tiled 0 (rp_clips (plan_render cs p)) (rp_total_frames (plan_render cs p)) \<and>
    \<bar>of_int (rp_total_frames (plan_render cs p)) - of_int (clip_offset cs (length cs) * 30) / 1000000\<bar> \<le> (1 / 2 :: rat) \<and>
    (\<forall>q\<in>set (rp_clips (plan_render cs p)). \<exists>i<length cs. pl_render q = cs ! i \<and>
       0 \<le> pl_source_frames q \<and> 0 \<le> pl_hold_frames q \<and>
       \<bar>of_int (pl_start_frame q) - of_int (clip_offset cs i * 30) / 1000000\<bar> \<le> (1 / 2 :: rat) \<and>
       \<bar>of_int (pl_end_frame q) - of_int (clip_offset cs (Suc i) * 30) / 1000000\<bar> \<le> (1 / 2 :: rat))"
proof -
  note S = plan_render_segments [OF assms(1), of r, folded assms(2)]
  have fps: "op_fps p = 30" by (simp add: assms(2))
  have near: "\<bar>of_int (frame_at p us) - of_int (us * 30) / 1000000\<bar> \<le> (1 / 2 :: rat)" for us
    using frame_at_close [of p us] by (simp add: fps)
  have "\<exists>i<length cs. pl_render q = cs ! i \<and> 0 \<le> pl_source_frames q \<and> 0 \<le> pl_hold_frames q \<and>
       \<bar>of_int (pl_start_frame q) - of_int (clip_offset cs i * 30) / 1000000\<bar> \<le> (1 / 2 :: rat) \<and>
       \<bar>of_int (pl_end_frame q) - of_int (clip_offset cs (Suc i) * 30) / 1000000\<bar> \<le> (1 / 2 :: rat)"
    if "q \<in> set (rp_clips (plan_render cs p))" for q
  proof -
    have "core q \<in> core ` set (fst (lay_out cs p))" using that S(2) by (metis image_eqI set_map)
    then obtain b where b: "b \<in> set (fst (lay_out cs p))" "core q = core b" by blast
    then obtain i where "i < length cs" "pl_render b = cs ! i" "pl_start_frame b = frame_at p (clip_offset cs i)"
      "pl_end_frame b = frame_at p (clip_offset cs (Suc i))" "0 \<le> pl_source_frames b" "0 \<le> pl_hold_frames b"
      using final_grid.lay_out_sources [OF assms(1), where t = 0 and r = r] by (auto simp: assms(2) lay_out_profile)
    then show ?thesis using b(2) near
      by (intro exI [of _ i]) (simp add: core_eq pl_end_frame_def pl_frames_def)
  qed
  then show ?thesis using S(3,4) near by simp
qed

text \<open>C12: the segments compose. Every segment has one window less than clips; composing its streams over the
  windows yields exactly the frames of its clips, every window ends where the stream composed so far
  ends, and the segments together have all the frames of the plan.\<close>

theorem plan_render_composes:
  assumes "list_all nonneg_clip cs" and "p = output_profile_for_aspect_ratio r"
  shows "list_all segment_ok (rp_segments (plan_render cs p)) \<and>
    sum_list (map sg_frames (rp_segments (plan_render cs p))) = rp_total_frames (plan_render cs p)"
proof -
  note S = plan_render_segments [OF assms(1), of r, folded assms(2)]
  have "tiled a qs b \<Longrightarrow> sum_list (map pl_frames qs) = b - a" for a b qs
    by (induction qs arbitrary: a) (auto simp: pl_end_frame_def)
  then have "sum_list (map pl_frames (rp_clips (plan_render cs p))) = rp_total_frames (plan_render cs p)"
    using S(3) by fastforce
  moreover have "sum_list (map pl_frames (concat (map sg_clips ss))) = sum_list (map sg_frames ss)" for ss
    by (induction ss) (simp_all add: sg_frames_def)
  ultimately show ?thesis using S(1) by (simp add: rp_clips_def)
qed

lemma borrow_frames_bounds:
  assumes "0 \<le> needed" "0 \<le> fps"
  shows "0 \<le> x_source_frames (borrow_frames needed available fps)"
    "x_source_frames (borrow_frames needed available fps) * 1000000 \<le> max available 0 * fps"
    "0 \<le> x_freeze_frames (borrow_frames needed available fps)"
proof -
  have pos: "0 \<le> max available 0 * fps div 1000000" using assms(2) by (simp add: pos_imp_zdiv_nonneg_iff)
  have le: "max available 0 * fps div 1000000 * 1000000 \<le> max available 0 * fps"
    by (simp add: minus_mod_eq_div_mult [symmetric])
  show "0 \<le> x_source_frames (borrow_frames needed available fps)" "0 \<le> x_freeze_frames (borrow_frames needed available fps)"
    using assms(1) pos by (simp_all add: borrow_frames_def Let_def microseconds_per_second_def)
  have "min needed (max available 0 * fps div 1000000) * 1000000 \<le> max available 0 * fps div 1000000 * 1000000"
    by (simp add: mult_right_mono)
  then show "x_source_frames (borrow_frames needed available fps) * 1000000 \<le> max available 0 * fps"
    using le unfolding borrow_frames_def Let_def microseconds_per_second_def by simp
qed

definition reads_inside :: "int \<Rightarrow> planned_clip \<Rightarrow> bool" where
  "reads_inside fps q =
     (0 \<le> x_source_frames (pl_lead q) \<and> 0 \<le> x_freeze_frames (pl_lead q) \<and>
      0 \<le> x_source_frames (pl_trail q) \<and> 0 \<le> x_freeze_frames (pl_trail q) \<and>
      x_source_frames (pl_lead q) * 1000000 \<le> rc_source_in_us (pl_render q) * fps \<and>
      x_source_frames (pl_trail q) * 1000000 \<le>
        max (rc_media_duration_us (pl_render q) - rc_source_out_us (pl_render q)) 0 * fps \<and>
      (pl_hold_frames q \<noteq> 0 \<longrightarrow> x_source_frames (pl_trail q) = 0))"

lemma window_nonneg: "0 \<le> fst (window_frames t p) \<and> 0 \<le> snd (window_frames t p)"
proof -
  have "0 \<le> m div 2 \<and> m div 2 \<le> m" if "1 \<le> m" for m :: int using that by linarith
  from this [of "max (frame_at p (t_duration_us t)) 1"] show ?thesis
    unfolding window_frames_def Let_def by simp
qed

lemma join_clips_inside:
  assumes "join_clips p a b = (a', b')" "0 \<le> op_fps p" "reads_inside (op_fps p) a" "reads_inside (op_fps p) b"
    and "0 \<le> rc_source_in_us (pl_render b)"
  shows "reads_inside (op_fps p) a' \<and> reads_inside (op_fps p) b'"
proof (cases "rc_transition (pl_render a)")
  case (Some t)
  have w: "0 \<le> fst (window_frames t p)" "0 \<le> snd (window_frames t p)" using window_nonneg [of t p] by simp_all
  have "x_source_frames (borrow_frames (snd (window_frames t p)) 0 (op_fps p)) = 0"
    using w by (simp add: borrow_frames_def Let_def)
  note none = this
  show ?thesis
  proof (cases "tp_fade_color (preset_of (t_type t))")
    case None
    let ?tail = "if pl_hold_frames a \<noteq> 0 then 0 else rc_media_duration_us (pl_render a) - rc_source_out_us (pl_render a)"
    have a': "a' = a\<lparr>pl_trail := borrow_frames (snd (window_frames t p)) ?tail (op_fps p)\<rparr>"
      and b': "b' = b\<lparr>pl_lead := borrow_frames (fst (window_frames t p)) (rc_source_in_us (pl_render b)) (op_fps p)\<rparr>"
      using assms(1) Some None by (simp_all add: join_clips_def case_prod_beta Let_def)
    note L = borrow_frames_bounds [OF w(1) assms(2), of "rc_source_in_us (pl_render b)"]
    note T = borrow_frames_bounds [OF w(2) assms(2), of ?tail]
    have "max ?tail 0 * op_fps p \<le> max (rc_media_duration_us (pl_render a) - rc_source_out_us (pl_render a)) 0 * op_fps p"
      using assms(2) by (intro mult_right_mono) simp_all
    then have "reads_inside (op_fps p) a'" using T none assms(3) unfolding a' reads_inside_def by simp
    moreover have "reads_inside (op_fps p) b'" using L assms(4,5) unfolding b' reads_inside_def by simp
    ultimately show ?thesis by simp
  next
    case (Some color)
    then have "a' = a\<lparr>pl_fade_out := Some \<lparr>fd_frames = min (fst (window_frames t p)) (pl_frames a), fd_color = color\<rparr>\<rparr>"
      "b' = b\<lparr>pl_fade_in := Some \<lparr>fd_frames = min (snd (window_frames t p)) (pl_frames b), fd_color = color\<rparr>\<rparr>"
      using assms(1) \<open>rc_transition (pl_render a) = Some t\<close> by (simp_all add: join_clips_def case_prod_beta Let_def)
    then show ?thesis using assms(3,4) by (simp add: reads_inside_def)
  qed
qed (use assms in \<open>simp add: join_clips_def\<close>)

lemma join_all_inside:
  "0 \<le> op_fps p \<Longrightarrow> list_all (reads_inside (op_fps p)) qs \<Longrightarrow> list_all (\<lambda>q. 0 \<le> rc_source_in_us (pl_render q)) qs \<Longrightarrow>
   list_all (reads_inside (op_fps p)) (join_all p qs)"
proof (induction p qs rule: join_all.induct)
  case (1 p a b rest)
  obtain a' b' where j: "join_clips p a b = (a', b')" by fastforce
  have "pl_render b' = pl_render b" using join_clips_core [OF j] by (simp add: core_eq)
  then show ?case using "1.IH" [OF j [symmetric] refl] "1.prems" join_clips_inside [OF j] j by simp
qed simp_all

text \<open>windows stay inside their sources. For the transition before it a clip reads at most the frames
  of its source that lie before its in point, and for the transition after it at most those after its
  out point; the rest of the window is filled with still frames, and a clip that ends with a hold
  reads nothing after it.\<close>

theorem plan_render_reads_inside:
  assumes "list_all nonneg_clip cs" and "p = output_profile_for_aspect_ratio r"
  shows "list_all (reads_inside 30) (rp_clips (plan_render cs p))"
proof -
  have b: "reads_inside 30 q \<and> 0 \<le> rc_source_in_us (pl_render q)" if "q \<in> set (fst (lay_out cs p))" for q
  proof -
    have "\<exists>i<length cs. pl_render q = cs ! i"
      using final_grid.lay_out_sources [OF assms(1), where t = 0 and r = r and q = q] that
      by (auto simp: assms(2) lay_out_profile)
    then have "0 \<le> rc_source_in_us (pl_render q)" using assms(1) by (auto simp: list_all_length nonneg_clip_def)
    moreover have "pl_lead q = no_extension" "pl_trail q = no_extension"
      using final_grid.lay_out_plain [where q = q and t = 0 and cs = cs and r = r] that by (simp_all add: assms(2) lay_out_profile)
    ultimately show ?thesis by (simp add: reads_inside_def no_extension_def)
  qed
  have fps: "op_fps p = 30" by (simp add: assms(2))
  have "list_all (reads_inside (op_fps p)) (join_all p (fst (lay_out cs p)))"
    by (rule join_all_inside) (use b in \<open>simp_all add: fps list_all_iff\<close>)
  moreover have "rp_clips (plan_render cs p) = join_all p (fst (lay_out cs p))"
    using plan_render_segments(5) [OF assms(1), of r, folded assms(2)] .
  ultimately show ?thesis by (simp add: fps)
qed

section \<open>The canvas\<close>

text \<open>Whatever the aspect ratio of a project says, the canvas has even sides, its short side is 1080 and
  its frame rate 30; for a ratio of two positive integers the sides are in that ratio within a pixel
  of the long side.\<close>

theorem output_profile_sound:
  "let p = output_profile_for_aspect_ratio r; q = aspect_fraction r in
     even (op_width p) \<and> even (op_height p) \<and> min (op_width p) (op_height p) = 1080 \<and> op_fps p = 30 \<and>
     (1 \<le> q \<longrightarrow> \<bar>of_int (op_width p) - of_int (op_height p) * q\<bar> \<le> 1) \<and>
     (0 < q \<and> q < 1 \<longrightarrow> \<bar>of_int (op_height p) - of_int (op_width p) / q\<bar> \<le> 1)"
proof -
  have close: "\<bar>of_int (rne (x / 2) * 2) - x\<bar> \<le> 1" for x :: rat
    using rne_close [of "x / 2"] unfolding abs_le_iff of_int_mult of_int_numeral by linarith
  have big: "1080 \<le> rne (x / 2) * 2" if "1080 \<le> x" for x :: rat
    using rne_mono [of "1080 / 2" "x / 2"] that rne_of_int [of 540] by simp
  have wide: "1080 \<le> 1080 * q" if "1 \<le> q" for q :: rat using that by simp
  have tall: "1080 \<le> 1080 / q" if "0 < q" "q < 1" for q :: rat using that by (simp add: field_simps)
  show ?thesis
    using close [of "1080 * aspect_fraction r"] close [of "1080 / aspect_fraction r"] big [OF wide] big [OF tall]
      big [of 1920]
    by (auto simp: output_profile_for_aspect_ratio_def Let_def short_edge_def final_cut_fps_def not_le)
qed

theorem output_profile_sound_witness:
  "let p = output_profile_for_aspect_ratio ''9:16'' in
     even (op_width p) \<and> \<bar>of_int (op_height p) - of_int (op_width p) * (16 / 9 :: rat)\<bar> \<le> 1"
proof -
  have q: "aspect_fraction ''9:16'' = 9 / 16" by code_simp
  show ?thesis using output_profile_sound [of "''9:16''"] unfolding q Let_def by simp
qed

section \<open>Both exports show the same\<close>

definition media_match :: "(string \<Rightarrow> render_media option) \<Rightarrow> (string \<Rightarrow> unit_material option) \<Rightarrow> bool" where
  "media_match media units =
     (\<forall>uid. map_option (\<lambda>m. (rm_video_version m, rm_duration_us m)) (media uid) =
            map_option (\<lambda>u. (um_video_version u, um_video_duration_us u)) (units uid))"

definition clip_use :: "placed_clip \<Rightarrow> string \<times> int \<times> int \<times> int" where
  "clip_use p = (pc_clip_id p, pc_source_in_us p, pc_source_duration_us p, pc_hold_us p)"

definition render_use :: "render_clip \<Rightarrow> string \<times> int \<times> int \<times> int" where
  "render_use c = (rc_clip_id c, rc_source_in_us c, rc_source_duration_us c, rc_hold_us c)"

lemma drop_last_transition_use [simp]: "map clip_use (drop_last_transition ps) = map clip_use ps"
proof (cases ps rule: rev_cases)
  case (snoc qs q)
  then show ?thesis by (simp add: drop_last_transition_def clip_use_def)
qed (simp add: drop_last_transition_def)

lemma lay_out_total: "snd (lay_out_from frame t cs) = frame (t + clip_offset cs (length cs))"
  by (induction cs arbitrary: t) (auto simp: case_prod_beta Let_def rc_length_us_def add.assoc)

lemma place_clip_use:
  assumes "media_match media units"
  shows "map clip_use (pg_clips (fold (place_clip units) cs st)) =
      map clip_use (pg_clips st) @ map render_use (render_clips cs media) \<and>
    pg_cursor (fold (place_clip units) cs st) = pg_cursor st +
      clip_offset (render_clips cs media) (length (render_clips cs media))"
proof (induction cs arbitrary: st)
  case Nil
  then show ?case by (simp add: render_clips_def List.map_filter_simps)
next
  case (Cons c cs)
  have m: "map_option (\<lambda>m. (rm_video_version m, rm_duration_us m)) (media (c_unit_id c)) =
      map_option (\<lambda>u. (um_video_version u, um_video_duration_us u)) (units (c_unit_id c))"
    using assms by (simp add: media_match_def)
  show ?case
  proof (cases "units (c_unit_id c)")
    case None
    then show ?thesis using Cons.IH m by (simp add: place_clip_def render_clips_def List.map_filter_simps render_clip_of_def)
  next
    case (Some u)
    then obtain v where v: "media (c_unit_id c) = Some v" "rm_video_version v = um_video_version u"
      "rm_duration_us v = um_video_duration_us u" using m by (cases "media (c_unit_id c)") auto
    show ?thesis using Cons.IH [of "place_clip units c st"] Some v
      by (simp add: place_clip_def render_clips_def List.map_filter_simps render_clip_of_def Let_def clip_use_def
          render_use_def source_window_def rc_length_us_def add.assoc)
  qed
qed

text \<open>The final cut and the draft agree. When both read the same version and length of every video, they
  use the same clips with the same source ranges and holds, and the final cut is as long as the
  draft, on the nearest frame.\<close>

theorem final_cut_as_draft:
  assumes "media_match media units"
  shows "map render_use (render_clips (ct_clips ct) media) = map clip_use (dp_clips (place_timeline ct units bgm)) \<and>
    rp_total_frames (plan_render (render_clips (ct_clips ct) media) p) =
      frame_at p (dp_duration_us (place_timeline ct units bgm))"
  using place_clip_use [OF assms, of "ct_clips ct" "\<lparr>pg_cursor = 0, pg_clips = [], pg_narrations = [], pg_subtitles = []\<rparr>"]
  by (simp add: place_timeline_def Let_def plan_render_def lay_out_def case_prod_beta lay_out_total)

definition sample_media :: "string \<Rightarrow> render_media option" where
  "sample_media uid = map_option (\<lambda>u. \<lparr>rm_path = um_video_path u, rm_video_version = um_video_version u,
     rm_duration_us = um_video_duration_us u, rm_has_audio = True\<rparr>) (sample_materials uid)"

lemma sample_media_match: "media_match sample_media sample_materials"
  by (simp add: media_match_def sample_media_def option.map_comp o_def)

theorem final_cut_as_draft_witness:
  "rp_total_frames (plan_render (render_clips (ct_clips sample_content) sample_media) (output_profile_for_aspect_ratio ''9:16'')) = 300"
proof -
  have "frame_at (output_profile_for_aspect_ratio ''9:16'') 10000000 = 300"
    by (simp add: frame_at_def microseconds_per_second_def) (use rne_of_int [of 300] in simp)
  then show ?thesis
    using final_cut_as_draft [OF sample_media_match, of sample_content "\<lambda>_. None" "output_profile_for_aspect_ratio ''9:16''"]
    by (simp add: sample_duration)
qed

lemma sample_render: "list_all nonneg_clip (render_clips (ct_clips sample_content) sample_media)"
  "clip_offset (render_clips (ct_clips sample_content) sample_media) (length (render_clips (ct_clips sample_content) sample_media)) = 10000000"
  by code_simp+

theorem plan_render_tiles_witness:
  "\<bar>of_int (rp_total_frames (plan_render (render_clips (ct_clips sample_content) sample_media) (output_profile_for_aspect_ratio ''9:16''))) - 300\<bar>
     \<le> (1 / 2 :: rat)"
  using plan_render_tiles [OF sample_render(1) refl, of "''9:16''"] by (simp add: sample_render(2))

theorem plan_render_composes_witness:
  "list_all (\<lambda>s. length (sg_clips s) = Suc (length (sg_crossfades s)))
     (rp_segments (plan_render (render_clips (ct_clips sample_content) sample_media) (output_profile_for_aspect_ratio ''9:16'')))"
  using plan_render_composes [OF sample_render(1) refl, of "''9:16''"] by (simp add: list_all_iff segment_ok_def)

theorem plan_render_reads_inside_witness:
  "list_all (reads_inside 30) (rp_clips (plan_render (render_clips (ct_clips sample_content) sample_media) (output_profile_for_aspect_ratio ''9:16'')))"
  by (rule plan_render_reads_inside [OF sample_render(1) refl])

end
