(* ===== verification/Py_Json.thy ===== *)
theory Py_Json
  imports Py_Str
begin

text \<open>
  Python's \<open>json\<close> module as the task queue and the manifest use it: \<open>json.dumps(value, ensure_ascii=False)\<close>, with
  and without \<open>sort_keys=True\<close>, and \<open>json.loads\<close>, in the default separators and the strict reading
  of strings. A float is carried as its text (\<open>repr\<close>, or \<open>NaN\<close> and the infinities), which reading
  keeps as it stands. Not modelled: escapes \<open>\u....\<close> of code points above U+00FF, and the recursion
  limit of the interpreter.
\<close>

datatype json =
    JNull
  | JBool bool
  | JInt int
  | JFloat string
  | JStr string
  | JArr "json list"
  | JObj "(string \<times> json) list"

section \<open>Writing\<close>

definition hex_digit :: "nat \<Rightarrow> char" where
  "hex_digit n = (if n < 10 then char_of (48 + n) else char_of (87 + n))"

definition escape_char :: "char \<Rightarrow> string" where
  "escape_char c =
     (let n = of_char c :: nat in
      if n = 34 then [char_of (92::nat), char_of (34::nat)]
      else if n = 92 then [char_of (92::nat), char_of (92::nat)]
      else if n = 8 then [char_of (92::nat), CHR ''b'']
      else if n = 12 then [char_of (92::nat), CHR ''f'']
      else if n = 10 then [char_of (92::nat), CHR ''n'']
      else if n = 13 then [char_of (92::nat), CHR ''r'']
      else if n = 9 then [char_of (92::nat), CHR ''t'']
      else if n < 32 then char_of (92::nat) # ''u00'' @ [hex_digit (n div 16), hex_digit (n mod 16)]
      else [c])"

definition quote :: char where
  "quote = CHR 0x22"

definition dumps_string :: "string \<Rightarrow> string" where
  "dumps_string s = quote # concat (map escape_char s) @ [quote]"

fun dumps :: "json \<Rightarrow> string"
  and dumps_items :: "json list \<Rightarrow> string"
  and dumps_members :: "(string \<times> json) list \<Rightarrow> string" where
  "dumps JNull = ''null''"
| "dumps (JBool b) = (if b then ''true'' else ''false'')"
| "dumps (JInt k) = str_int k"
| "dumps (JFloat t) = t"
| "dumps (JStr s) = dumps_string s"
| "dumps (JArr xs) = ''['' @ dumps_items xs @ '']''"
| "dumps (JObj kvs) = ''{'' @ dumps_members kvs @ ''}''"
| "dumps_items [] = []"
| "dumps_items (v # vs) = dumps v @ (if vs = [] then [] else '', '' @ dumps_items vs)"
| "dumps_members [] = []"
| "dumps_members ((k, v) # kvs) =
     dumps_string k @ '': '' @ dumps v @ (if kvs = [] then [] else '', '' @ dumps_members kvs)"

text \<open>\<open>sort_keys=True\<close>: the members of every dict in the order of their keys.\<close>

fun sort_keys :: "json \<Rightarrow> json" where
  "sort_keys (JArr xs) = JArr (map sort_keys xs)"
| "sort_keys (JObj kvs) = JObj (sort_key fst (map (\<lambda>(k, v). (k, sort_keys v)) kvs))"
| "sort_keys v = v"

definition dumps_sorted :: "json \<Rightarrow> string" where
  "dumps_sorted v = dumps (sort_keys v)"

section \<open>Reading\<close>

definition is_json_ws :: "char \<Rightarrow> bool" where
  "is_json_ws c = ((of_char c :: nat) \<in> {32, 9, 10, 13})"

definition skip_ws :: "string \<Rightarrow> string" where
  "skip_ws s = dropWhile is_json_ws s"

definition hex_val :: "char \<Rightarrow> nat option" where
  "hex_val c =
     (let n = of_char c in
      if 48 \<le> n \<and> n \<le> 57 then Some (n - 48)
      else if 97 \<le> n \<and> n \<le> 102 then Some (n - 87)
      else if 65 \<le> n \<and> n \<le> 70 then Some (n - 55)
      else None)"

text \<open>The character that a backslash and the next character stand for (other than \<open>u\<close>).\<close>

definition unescape :: "char \<Rightarrow> char option" where
  "unescape c =
     (let n = of_char c :: nat in
      if n = 34 \<or> n = 92 \<or> n = 47 then Some c
      else if c = CHR ''b'' then Some (char_of (8::nat))
      else if c = CHR ''f'' then Some (char_of (12::nat))
      else if c = CHR ''n'' then Some (char_of (10::nat))
      else if c = CHR ''r'' then Some (char_of (13::nat))
      else if c = CHR ''t'' then Some (char_of (9::nat))
      else None)"

definition hex4 :: "char \<Rightarrow> char \<Rightarrow> char \<Rightarrow> char \<Rightarrow> char option" where
  "hex4 a b c d =
     (case (hex_val a, hex_val b, hex_val c, hex_val d) of
        (Some 0, Some 0, Some h, Some l) \<Rightarrow> Some (char_of (h * 16 + l))
      | _ \<Rightarrow> None)"

text \<open>The rest of a string after its opening quote: the characters, and what follows it.\<close>

fun scan_string :: "string \<Rightarrow> (string \<times> string) option" where
  "scan_string [] = None"
| "scan_string (c # s) =
     (if c = quote then Some ([], s)
      else if (of_char c :: nat) < 32 then None
      else if (of_char c :: nat) = 92 then
        (case s of
           [] \<Rightarrow> None
         | e # t \<Rightarrow>
             if e = CHR ''u'' then
               (case t of
                  h1 # h2 # h3 # h4 # u \<Rightarrow>
                    (case hex4 h1 h2 h3 h4 of
                       None \<Rightarrow> None
                     | Some x \<Rightarrow> map_option (\<lambda>(w, r). (x # w, r)) (scan_string u))
                | _ \<Rightarrow> None)
             else
               (case unescape e of
                  None \<Rightarrow> None
                | Some x \<Rightarrow> map_option (\<lambda>(w, r). (x # w, r)) (scan_string t)))
      else map_option (\<lambda>(w, r). (c # w, r)) (scan_string s))"

text \<open>
  A number: an optional minus, an integer part with no leading zero, then a fraction and an exponent
  where they are complete. Text of more than 4300 digits is no int (\<open>sys.int_info\<close>).
\<close>

definition int_part :: "string \<Rightarrow> string" where
  "int_part s =
     (case s of [] \<Rightarrow> [] | c # r \<Rightarrow> if c = CHR ''0'' then [c] else takeWhile is_digit s)"

definition frac_part :: "string \<Rightarrow> string" where
  "frac_part s =
     (case s of
        [] \<Rightarrow> []
      | c # r \<Rightarrow> if c = CHR ''.'' \<and> takeWhile is_digit r \<noteq> [] then c # takeWhile is_digit r else [])"

definition exp_sign :: "string \<Rightarrow> string" where
  "exp_sign s = (case s of [] \<Rightarrow> [] | c # r \<Rightarrow> if c = CHR ''+'' \<or> c = CHR ''-'' then [c] else [])"

definition exp_part :: "string \<Rightarrow> string" where
  "exp_part s =
     (case s of
        [] \<Rightarrow> []
      | c # r \<Rightarrow>
          (let sg = exp_sign r; ds = takeWhile is_digit (drop (length sg) r)
           in if (c = CHR ''e'' \<or> c = CHR ''E'') \<and> ds \<noteq> [] then c # sg @ ds else []))"

definition max_int_digits :: nat where
  "max_int_digits = 4300"

definition minus_part :: "string \<Rightarrow> string" where
  "minus_part s = (case s of [] \<Rightarrow> [] | c # r \<Rightarrow> if c = CHR ''-'' then [c] else [])"

definition scan_number :: "string \<Rightarrow> (json \<times> string) option" where
  "scan_number s =
     (let m = minus_part s;
          i = int_part (drop (length m) s);
          s1 = drop (length m + length i) s;
          f = frac_part s1;
          s2 = drop (length f) s1;
          e = exp_part s2;
          s3 = drop (length e) s2
      in if i = [] then None
         else if f @ e \<noteq> [] then Some (JFloat (m @ i @ f @ e), s3)
         else if max_int_digits < length i then None
         else map_option (\<lambda>k. (JInt (if m = [] then k else - k), s3)) (digits_value 0 False i))"

fun scan_literal :: "(string \<times> json) list \<Rightarrow> string \<Rightarrow> (json \<times> string) option" where
  "scan_literal [] s = None"
| "scan_literal ((w, v) # ws) s =
     (if starts_with w s then Some (v, drop (length w) s) else scan_literal ws s)"

definition literals :: "(string \<times> json) list" where
  "literals =
     [(''null'', JNull), (''true'', JBool True), (''false'', JBool False), (''NaN'', JFloat ''NaN''),
      (''Infinity'', JFloat ''Infinity''), (''-Infinity'', JFloat ''-Infinity'')]"

definition scan_atom :: "string \<Rightarrow> (json \<times> string) option" where
  "scan_atom s =
     (case scan_literal literals s of
        Some r \<Rightarrow> Some r
      | None \<Rightarrow> scan_number s)"

text \<open>
  The value at the head of a text, the items of a list and the members of a dict, each up to and
  including its closing bracket. The fuel bounds the depth of the calls; \<open>loads_fuel\<close> below shows
  that twice the length of the text is enough.
\<close>

fun scan_value :: "nat \<Rightarrow> string \<Rightarrow> (json \<times> string) option"
  and scan_items :: "nat \<Rightarrow> string \<Rightarrow> (json list \<times> string) option"
  and scan_members :: "nat \<Rightarrow> string \<Rightarrow> ((string \<times> json) list \<times> string) option" where
  "scan_value 0 s = None"
| "scan_value (Suc n) s =
     (case s of
        [] \<Rightarrow> None
      | c # r \<Rightarrow>
          if c = quote then map_option (\<lambda>(x, t). (JStr x, t)) (scan_string r)
          else if c = CHR ''['' then
            (if starts_with '']'' (skip_ws r) then Some (JArr [], tl (skip_ws r))
             else map_option (\<lambda>(xs, t). (JArr xs, t)) (scan_items n (skip_ws r)))
          else if c = CHR ''{'' then
            (if starts_with ''}'' (skip_ws r) then Some (JObj [], tl (skip_ws r))
             else map_option (\<lambda>(kvs, t). (JObj kvs, t)) (scan_members n (skip_ws r)))
          else scan_atom s)"
| "scan_items 0 s = None"
| "scan_items (Suc n) s =
     (case scan_value n s of
        None \<Rightarrow> None
      | Some (v, t) \<Rightarrow>
          (case skip_ws t of
             [] \<Rightarrow> None
           | c # u \<Rightarrow>
               if c = CHR '']'' then Some ([v], u)
               else if c = CHR '','' then map_option (\<lambda>(vs, r). (v # vs, r)) (scan_items n (skip_ws u))
               else None))"
| "scan_members 0 s = None"
| "scan_members (Suc n) s =
     (case s of
        [] \<Rightarrow> None
      | q # r \<Rightarrow>
          if q \<noteq> quote then None
          else (case scan_string r of
                  None \<Rightarrow> None
                | Some (k, t) \<Rightarrow>
                    (case skip_ws t of
                       [] \<Rightarrow> None
                     | d # u \<Rightarrow>
                         if d \<noteq> CHR '':'' then None
                         else (case scan_value n (skip_ws u) of
                                 None \<Rightarrow> None
                               | Some (v, w) \<Rightarrow>
                                   (case skip_ws w of
                                      [] \<Rightarrow> None
                                    | c # x \<Rightarrow>
                                        if c = CHR ''}'' then Some ([(k, v)], x)
                                        else if c = CHR '','' then
                                          map_option (\<lambda>(kvs, y). ((k, v) # kvs, y))
                                            (scan_members n (skip_ws x))
                                        else None)))))"

definition loads_pairs_with :: "nat \<Rightarrow> string \<Rightarrow> json option" where
  "loads_pairs_with n s =
     (case scan_value n (skip_ws s) of
        None \<Rightarrow> None
      | Some (v, t) \<Rightarrow> if skip_ws t = [] then Some v else None)"

text \<open>Reading with \<open>object_pairs_hook\<close>, which sees the members of every object as they stand.\<close>

definition loads_pairs :: "string \<Rightarrow> json option" where
  "loads_pairs s = loads_pairs_with (2 * length s + 1) s"

text \<open>A dict built from pairs: a key that comes again keeps its place and takes the new value.\<close>

definition dict_of :: "('k \<times> 'v) list \<Rightarrow> ('k \<times> 'v) list" where
  "dict_of kvs = fold (\<lambda>(k, v). AList.update k v) kvs []"

fun merge_pairs :: "json \<Rightarrow> json" where
  "merge_pairs (JArr xs) = JArr (map merge_pairs xs)"
| "merge_pairs (JObj kvs) = JObj (dict_of (map (\<lambda>(k, v). (k, merge_pairs v)) kvs))"
| "merge_pairs v = v"

definition loads :: "string \<Rightarrow> json option" where
  "loads s = map_option merge_pairs (loads_pairs s)"

section \<open>What reading consumes\<close>

lemma scan_string_shorter: "scan_string s = Some (w, t) \<Longrightarrow> length t < length s"
  by (induction s arbitrary: w t rule: scan_string.induct)
    (fastforce split: if_splits list.splits option.splits)+

lemma skip_ws_le: "length (skip_ws s) \<le> length s"
  by (simp add: skip_ws_def length_dropWhile_le)

lemma skip_ws_ConsD: "skip_ws s = c # t \<Longrightarrow> length t < length s"
  using skip_ws_le [of s] by simp

lemma tl_skip_ws_less: "starts_with [c] (skip_ws s) \<Longrightarrow> length (tl (skip_ws s)) < length s"
  using skip_ws_le [of s] by (cases "skip_ws s") (auto simp: starts_with_def)

lemma scan_literal_shorter:
  "scan_literal ws s = Some (v, t) \<Longrightarrow> [] \<notin> fst ` set ws \<Longrightarrow> length t < length s"
proof (induction ws)
  case Nil
  then show ?case by simp
next
  case (Cons wv ws)
  obtain w x where wv: "wv = (w, x)" by (cases wv)
  show ?case
  proof (cases "starts_with w s")
    case True
    then have t: "t = drop (length w) s" and w: "0 < length w" "length w \<le> length s"
      using Cons.prems wv by (auto simp: starts_with_def dest: arg_cong [where f = length])
    show ?thesis unfolding t length_drop using w by linarith
  next
    case False
    then show ?thesis using Cons wv by auto
  qed
qed

lemma scan_number_shorter: "scan_number s = Some (v, t) \<Longrightarrow> length t < length s"
proof -
  assume *: "scan_number s = Some (v, t)"
  define m i where "m = minus_part s" and "i = int_part (drop (length m) s)"
  have "i \<noteq> []" using * by (auto simp: scan_number_def Let_def m_def i_def)
  then have "drop (length m) s \<noteq> []" by (auto simp: i_def int_part_def)
  then have "length m < length s" by simp
  moreover have "0 < length i" using \<open>i \<noteq> []\<close> by simp
  moreover have "length t \<le> length (drop (length m + length i) s)"
    using * by (auto simp: scan_number_def Let_def m_def i_def split: if_splits)
  ultimately show ?thesis unfolding length_drop by linarith
qed

lemma scan_atom_shorter: "scan_atom s = Some (v, t) \<Longrightarrow> length t < length s"
  using scan_literal_shorter [of literals s v t] scan_number_shorter [of s v t]
  by (auto simp: scan_atom_def literals_def simp del: scan_literal.simps split: option.splits)

lemma scan_shorter:
  "(scan_value n s = Some (v, t) \<longrightarrow> length t < length s) \<and>
   (scan_items n s = Some (vs, t) \<longrightarrow> length t < length s) \<and>
   (scan_members n s = Some (kvs, t) \<longrightarrow> length t < length s)"
proof (induction n arbitrary: s v vs kvs t)
  case 0
  then show ?case by simp
next
  case (Suc n)
  have v: "length t' < length s'" if "scan_value n s' = Some (v', t')" for s' v' t'
    using that Suc.IH by blast
  have i: "length t' < length s'" if "scan_items n s' = Some (v', t')" for s' v' t'
    using that Suc.IH by blast
  have m: "length t' < length s'" if "scan_members n s' = Some (v', t')" for s' v' t'
    using that Suc.IH by blast
  have "length t < length s" if s: "scan_value (Suc n) s = Some (v, t)"
  proof (cases s)
    case Nil
    then show ?thesis using s by simp
  next
    case (Cons c r)
    have le: "length (skip_ws r) \<le> length r" by (rule skip_ws_le)
    show ?thesis
      using s Cons le
      by (auto split: if_splits option.splits
          dest!: scan_string_shorter i m scan_atom_shorter tl_skip_ws_less)
  qed
  moreover have "length t < length s" if s: "scan_items (Suc n) s = Some (vs, t)"
  proof -
    obtain v' t' where v': "scan_value n s = Some (v', t')" using s by (auto split: option.splits)
    obtain c u where u: "skip_ws t' = c # u" using s v' by (auto split: list.splits)
    have "length t \<le> length u"
      using s v' u skip_ws_le [of u] by (auto split: if_splits dest!: i)
    then show ?thesis using v [OF v'] skip_ws_ConsD [OF u] by simp
  qed
  moreover have "length t < length s" if s: "scan_members (Suc n) s = Some (kvs, t)"
  proof -
    obtain q r where q: "s = q # r" "q = quote" using s by (auto split: list.splits if_splits)
    obtain k t1 where k: "scan_string r = Some (k, t1)" using s q by (auto split: option.splits)
    obtain u where u: "skip_ws t1 = CHR '':'' # u" using s q k by (auto split: list.splits if_splits)
    obtain v' w where v': "scan_value n (skip_ws u) = Some (v', w)"
      using s q k u by (auto split: option.splits)
    obtain c x where x: "skip_ws w = c # x" using s q k u v' by (auto split: list.splits)
    have "length t \<le> length x"
      using s q k u v' x skip_ws_le [of x] by (auto split: if_splits dest!: m)
    then show ?thesis
      using q scan_string_shorter [OF k] skip_ws_ConsD [OF u] v [OF v'] skip_ws_ConsD [OF x] skip_ws_le [of u]
      by simp
  qed
  ultimately show ?case by blast
qed

lemma scan_value_shorter: "scan_value n s = Some (v, t) \<Longrightarrow> length t < length s"
  using scan_shorter by blast

section \<open>Fuel\<close>

lemma scan_fuel:
  "(2 * length s + 1 \<le> n \<and> 2 * length s + 1 \<le> m \<longrightarrow> scan_value n s = scan_value m s) \<and>
   (2 * length s + 2 \<le> n \<and> 2 * length s + 2 \<le> m \<longrightarrow>
      scan_items n s = scan_items m s \<and> scan_members n s = scan_members m s)"
proof (induction n arbitrary: m s)
  case 0
  then show ?case by simp
next
  case (Suc n)
  show ?case
  proof (cases m)
    case 0
    then show ?thesis by simp
  next
    case m: (Suc k)
    have v: "scan_value n s' = scan_value k s'" if "2 * length s' + 1 \<le> n" "2 * length s' + 1 \<le> k" for s'
      using that Suc.IH by blast
    have i: "scan_items n s' = scan_items k s'" if "2 * length s' + 2 \<le> n" "2 * length s' + 2 \<le> k" for s'
      using that Suc.IH by blast
    have b: "scan_members n s' = scan_members k s'" if "2 * length s' + 2 \<le> n" "2 * length s' + 2 \<le> k" for s'
      using that Suc.IH by blast
    have "scan_value (Suc n) s = scan_value (Suc k) s"
      if le: "2 * length s + 1 \<le> Suc n" "2 * length s + 1 \<le> Suc k"
    proof (cases s)
      case Nil
      then show ?thesis by simp
    next
      case (Cons c r)
      then have "scan_items n (skip_ws r) = scan_items k (skip_ws r)"
        and "scan_members n (skip_ws r) = scan_members k (skip_ws r)"
        using le skip_ws_le [of r] by (auto intro!: i b)
      then show ?thesis using Cons by simp
    qed
    moreover have "scan_items (Suc n) s = scan_items (Suc k) s"
      if le: "2 * length s + 2 \<le> Suc n" "2 * length s + 2 \<le> Suc k"
    proof -
      have v': "scan_value n s = scan_value k s" using le by (intro v) simp_all
      have "scan_items n (skip_ws u) = scan_items k (skip_ws u)"
        if "scan_value k s = Some (x, t)" "skip_ws t = c # u" for x t c u
        using le scan_value_shorter [OF that(1)] skip_ws_ConsD [OF that(2)] skip_ws_le [of u]
        by (intro i) simp_all
      then show ?thesis by (auto simp: v' split: option.splits list.splits)
    qed
    moreover have "scan_members (Suc n) s = scan_members (Suc k) s"
      if le: "2 * length s + 2 \<le> Suc n" "2 * length s + 2 \<le> Suc k"
    proof -
      have v': "scan_value n (skip_ws u) = scan_value k (skip_ws u)"
        if "s = q # r" "scan_string r = Some (x, t)" "skip_ws t = d # u" for q r x t d u
        using le that(1) scan_string_shorter [OF that(2)] skip_ws_ConsD [OF that(3)] skip_ws_le [of u]
        by (intro v) simp_all
      have b': "scan_members n (skip_ws y) = scan_members k (skip_ws y)"
        if "s = q # r" "scan_string r = Some (x, t)" "skip_ws t = d # u"
          "scan_value k (skip_ws u) = Some (z, w)" "skip_ws w = c # y" for q r x t d u z w c y
        using le that(1) scan_string_shorter [OF that(2)] skip_ws_ConsD [OF that(3)] skip_ws_le [of u]
          scan_value_shorter [OF that(4)] skip_ws_ConsD [OF that(5)] skip_ws_le [of y]
        by (intro b) simp_all
      show ?thesis
        by (auto simp: v' b' split: option.splits list.splits)
    qed
    ultimately show ?thesis unfolding m by blast
  qed
qed

lemma loads_fuel: "2 * length s + 1 \<le> n \<Longrightarrow> loads_pairs_with n s = loads_pairs s"
proof -
  assume n: "2 * length s + 1 \<le> n"
  have "2 * length (skip_ws s) + 1 \<le> n" "2 * length (skip_ws s) + 1 \<le> 2 * length s + 1"
    using n skip_ws_le [of s] by simp_all
  then have "scan_value n (skip_ws s) = scan_value (2 * length s + 1) (skip_ws s)"
    using scan_fuel by blast
  then show ?thesis by (simp add: loads_pairs_def loads_pairs_with_def)
qed

section \<open>Reading what was written\<close>

text \<open>
  The values whose text reads back: the keys of a dict are distinct, ints are short enough to be
  read, and the text of a float is one that reading takes for a float.
\<close>

fun json_ok :: "json \<Rightarrow> bool" where
  "json_ok (JInt k) = (length (str_nat (nat \<bar>k\<bar>)) \<le> max_int_digits)"
| "json_ok (JFloat t) = (scan_atom t = Some (JFloat t, []))"
| "json_ok (JArr xs) = list_all json_ok xs"
| "json_ok (JObj kvs) = (distinct (map fst kvs) \<and> list_all (\<lambda>(k, v). json_ok v) kvs)"
| "json_ok v = True"

definition ends_value :: "string \<Rightarrow> bool" where
  "ends_value r = (case r of [] \<Rightarrow> True | c # _ \<Rightarrow> c \<in> {CHR '','', CHR '']'', CHR ''}''} \<or> is_json_ws c)"

lemma hex_val_hex_digit: "k < 16 \<Longrightarrow> hex_val (hex_digit k) = Some k"
  by (auto simp: hex_val_def hex_digit_def Let_def)

lemma hex4_char: "n < 32 \<Longrightarrow> hex4 CHR ''0'' CHR ''0'' (hex_digit (n div 16)) (hex_digit (n mod 16)) = Some (char_of n)"
proof -
  assume n: "n < 32"
  have z: "hex_val CHR ''0'' = Some 0" by (simp add: hex_val_def)
  have d: "hex_val (hex_digit (n div 16)) = Some (n div 16)" using n by (intro hex_val_hex_digit) simp
  have m: "hex_val (hex_digit (n mod 16)) = Some (n mod 16)" by (intro hex_val_hex_digit) simp
  show ?thesis by (simp add: hex4_def z d m)
qed

lemma char_of_marks: "char_of (34::nat) = CHR 0x22" "char_of (92::nat) = CHR 0x5C"
  by (simp_all add: char_of_eq_iff)

lemma scan_string_escape:
  "scan_string (escape_char c @ u) = map_option (\<lambda>(w, r). (c # w, r)) (scan_string u)"
proof -
  define n where "n = (of_char c :: nat)"
  have c: "c = char_of n" by (simp add: n_def)
  have "n < 256" by (simp add: n_def)
  have of: "(of_char (char_of (k::nat)) :: nat) = k" if "k < 256" for k using that by simp
  consider "n = 34" | "n = 92" | "n = 8" | "n = 12" | "n = 10" | "n = 13" | "n = 9"
    | "n < 32" "n \<notin> {8, 9, 10, 12, 13}" | "32 \<le> n" "n \<noteq> 34" "n \<noteq> 92"
    by fastforce
  then show ?thesis
  proof cases
    case 8
    then have "escape_char c = char_of (92::nat) # ''u00'' @ [hex_digit (n div 16), hex_digit (n mod 16)]"
      by (simp add: escape_char_def Let_def n_def [symmetric])
    then show ?thesis
      using 8 by (simp add: quote_def c hex4_char char_of_marks)
  next
    case 9
    then have "c \<noteq> quote" by (auto simp: n_def quote_def)
    then show ?thesis using 9 by (simp add: escape_char_def Let_def n_def [symmetric])
  qed (simp_all add: c escape_char_def quote_def unescape_def Let_def char_of_marks)
qed

lemma scan_string_dumps:
  "scan_string (concat (map escape_char s) @ quote # t) = Some (s, t)"
  by (induction s) (simp_all add: scan_string_escape)

lemma dict_of_distinct: "distinct (map fst kvs) \<Longrightarrow> dict_of kvs = kvs"
proof -
  have "fold (\<lambda>(k, v). AList.update k v) kvs d = d @ kvs" if "distinct (map fst (d @ kvs))" for d
    using that
  proof (induction kvs arbitrary: d)
    case Nil
    then show ?case by simp
  next
    case (Cons kv kvs)
    obtain k v where kv: "kv = (k, v)" by (cases kv)
    have "k \<notin> fst ` set d" using Cons.prems kv by auto
    then have "AList.update k v d = d @ [(k, v)]" by (induction d) auto
    then show ?case using Cons kv by simp
  qed
  then show "distinct (map fst kvs) \<Longrightarrow> dict_of kvs = kvs" by (simp add: dict_of_def)
qed

text \<open>A number or a literal does not see past the character that ends a value.\<close>

lemma takeWhile_digits_append:
  "ends_value r \<Longrightarrow> takeWhile is_digit (s @ r) = takeWhile is_digit s"
  by (induction s) (auto simp: ends_value_def is_digit_def is_json_ws_def split: list.splits)

lemma minus_part_append: "ends_value r \<Longrightarrow> minus_part (s @ r) = minus_part s"
  by (cases s; cases r) (auto simp: minus_part_def ends_value_def is_json_ws_def)

lemma int_part_append: "ends_value r \<Longrightarrow> int_part (s @ r) = int_part s"
  using takeWhile_digits_append [of r s]
  by (cases s; cases r) (auto simp: int_part_def ends_value_def is_digit_def is_json_ws_def)

lemma frac_part_append: "ends_value r \<Longrightarrow> frac_part (s @ r) = frac_part s"
  by (cases s; cases r) (auto simp: frac_part_def ends_value_def is_json_ws_def takeWhile_digits_append)

lemma exp_sign_append: "ends_value r \<Longrightarrow> exp_sign (s @ r) = exp_sign s"
  by (cases s; cases r) (auto simp: exp_sign_def ends_value_def is_json_ws_def)

lemma exp_sign_le: "length (exp_sign s) \<le> length s"
  by (cases s) (auto simp: exp_sign_def)

lemma exp_part_append: "ends_value r \<Longrightarrow> exp_part (s @ r) = exp_part s"
proof (cases s)
  case Nil
  then show "ends_value r \<Longrightarrow> ?thesis"
    by (cases r) (auto simp: exp_part_def ends_value_def is_json_ws_def Let_def)
next
  case (Cons c s')
  assume r: "ends_value r"
  have "drop (length (exp_sign s')) (s' @ r) = drop (length (exp_sign s')) s' @ r"
    using exp_sign_le [of s'] by simp
  then show ?thesis
    using Cons r by (simp add: exp_part_def Let_def exp_sign_append takeWhile_digits_append)
qed

lemma part_le:
  "length (minus_part s) \<le> length s" "length (int_part s) \<le> length s"
  "length (frac_part s) \<le> length s" "length (exp_part s) \<le> length s"
proof -
  show "length (minus_part s) \<le> length s" by (cases s) (auto simp: minus_part_def)
  show "length (int_part s) \<le> length s"
    by (cases s) (auto simp: int_part_def intro: le_trans [OF length_takeWhile_le])
  show "length (frac_part s) \<le> length s"
    by (cases s) (auto simp: frac_part_def intro: le_trans [OF length_takeWhile_le])
  show "length (exp_part s) \<le> length s"
  proof (cases s)
    case Nil
    then show ?thesis by (simp add: exp_part_def)
  next
    case (Cons c s')
    have "length (takeWhile is_digit (drop (length (exp_sign s')) s')) \<le> length s' - length (exp_sign s')"
      using length_takeWhile_le [of is_digit "drop (length (exp_sign s')) s'"] by simp
    then show ?thesis using Cons exp_sign_le [of s'] by (auto simp: exp_part_def Let_def)
  qed
qed

lemma scan_number_append:
  assumes r: "ends_value r"
  shows "scan_number (s @ r) = map_option (apsnd (\<lambda>t. t @ r)) (scan_number s)"
proof -
  define m where "m = minus_part s"
  define i where "i = int_part (drop (length m) s)"
  have lm: "length m \<le> length s" by (simp add: m_def part_le)
  have li: "length m + length i \<le> length s" using part_le(2) [of "drop (length m) s"] lm by (simp add: i_def)
  define s1 where "s1 = drop (length m + length i) s"
  define f where "f = frac_part s1"
  define s2 where "s2 = drop (length f) s1"
  define e where "e = exp_part s2"
  have lf: "length f \<le> length s1" by (simp add: f_def part_le)
  have le: "length e \<le> length s2" by (simp add: e_def part_le)
  have 1: "minus_part (s @ r) = m" using r by (simp add: minus_part_append m_def)
  have 2: "int_part (drop (length m) (s @ r)) = i" using r lm by (simp add: int_part_append i_def)
  have 3: "drop (length m + length i) (s @ r) = s1 @ r" using li by (simp add: s1_def)
  have 4: "frac_part (s1 @ r) = f" using r by (simp add: frac_part_append f_def)
  have 5: "drop (length f) (s1 @ r) = s2 @ r" using lf by (simp add: s2_def)
  have 6: "exp_part (s2 @ r) = e" using r by (simp add: exp_part_append e_def)
  have 7: "drop (length e) (s2 @ r) = drop (length e) s2 @ r" using le by simp
  have "scan_number s = (if i = [] then None
         else if f @ e \<noteq> [] then Some (JFloat (m @ i @ f @ e), drop (length e) s2)
         else if max_int_digits < length i then None
         else map_option (\<lambda>k. (JInt (if m = [] then k else - k), drop (length e) s2)) (digits_value 0 False i))"
    by (simp only: scan_number_def Let_def m_def [symmetric] i_def [symmetric] s1_def [symmetric]
        f_def [symmetric] s2_def [symmetric] e_def [symmetric])
  moreover have "scan_number (s @ r) = (if i = [] then None
         else if f @ e \<noteq> [] then Some (JFloat (m @ i @ f @ e), drop (length e) s2 @ r)
         else if max_int_digits < length i then None
         else map_option (\<lambda>k. (JInt (if m = [] then k else - k), drop (length e) s2 @ r)) (digits_value 0 False i))"
    by (simp only: scan_number_def Let_def 1 2 3 4 5 6 7)
  ultimately show ?thesis by (simp add: option.map_comp comp_def)
qed

lemma starts_with_append:
  assumes "ends_value r" "list_all (\<lambda>c. \<not> ends_value [c]) w"
  shows "starts_with w (s @ r) = starts_with w s"
proof (cases "length w \<le> length s")
  case True
  then show ?thesis by (simp add: starts_with_def)
next
  case False
  have "\<not> starts_with w (s @ r)"
  proof
    assume *: "starts_with w (s @ r)"
    then have "length w \<le> length (s @ r)" by (auto simp: starts_with_def dest: arg_cong [where f = length])
    then have "w ! length s = (s @ r) ! length s" using * False
      by (metis nth_take linorder_not_le starts_with_def)
    moreover have "r \<noteq> []" using False \<open>length w \<le> length (s @ r)\<close> by auto
    ultimately have "hd r \<in> set w" using False by (simp add: nth_append hd_conv_nth) (metis linorder_not_le nth_mem)
    then show False using assms \<open>r \<noteq> []\<close> by (cases r) (auto simp: ends_value_def list_all_iff)
  qed
  moreover have "\<not> starts_with w s"
    using False by (auto simp: starts_with_def dest: arg_cong [where f = length])
  ultimately show ?thesis by blast
qed

lemma scan_literal_append:
  assumes "ends_value r" "list_all (\<lambda>(w, v). list_all (\<lambda>c. \<not> ends_value [c]) w) ws"
  shows "scan_literal ws (s @ r) = map_option (apsnd (\<lambda>t. t @ r)) (scan_literal ws s)"
  using assms(2)
proof (induction ws)
  case Nil
  then show ?case by simp
next
  case (Cons wv ws)
  obtain w v where wv: "wv = (w, v)" by (cases wv)
  have eq: "starts_with w (s @ r) = starts_with w s"
    using Cons.prems wv assms(1) by (intro starts_with_append) auto
  have "length w \<le> length s" if "starts_with w s"
    using that by (auto simp: starts_with_def dest: arg_cong [where f = length])
  then show ?case using Cons wv eq by auto
qed

lemma scan_atom_append:
  "ends_value r \<Longrightarrow> scan_atom (s @ r) = map_option (apsnd (\<lambda>t. t @ r)) (scan_atom s)"
proof -
  assume r: "ends_value r"
  have "list_all (\<lambda>(w, v). list_all (\<lambda>c. \<not> ends_value [c]) w) literals"
    by (simp add: literals_def ends_value_def is_json_ws_def)
  then have "scan_literal literals (s @ r) = map_option (apsnd (\<lambda>t. t @ r)) (scan_literal literals s)"
    using r by (intro scan_literal_append)
  then show ?thesis
    by (simp add: scan_atom_def scan_number_append [OF r] option.map_comp comp_def split: option.splits)
qed

lemma scan_number_int:
  assumes "length (str_nat (nat \<bar>k\<bar>)) \<le> max_int_digits"
  shows "scan_number (str_int k) = Some (JInt k, [])"
proof -
  define d where "d = str_nat (nat \<bar>k\<bar>)"
  have dig: "takeWhile is_digit d = d" using str_nat_digits by (simp add: d_def takeWhile_eq_all_conv)
  obtain c r where d: "d = c # r" by (cases d) (auto simp: d_def)
  have c: "is_digit c" using str_nat_digits d by (metis d_def list.set_intros(1))
  then have sg: "c \<noteq> CHR ''-''" using digit_not_sign by blast
  have int: "int_part d = d"
  proof (cases "c = CHR ''0''")
    case True
    then have "nat \<bar>k\<bar> = 0" using hd_str_nat [of "nat \<bar>k\<bar>"] d by (auto simp: d_def)
    then have "d = [digit_char 0]" by (simp add: d_def str_nat.simps)
    then show ?thesis using True d by (simp add: int_part_def)
  next
    case False
    then show ?thesis using d dig by (simp add: int_part_def)
  qed
  have val: "digits_value 0 False d = Some \<bar>k\<bar>"
    by (simp add: d_def digits_value_str_nat)
  have str: "str_int k = (if k < 0 then CHR ''-'' # d else d)"
    by (auto simp: str_int_def d_def abs_if)
  have empty: "frac_part [] = []" "exp_part [] = []" by (simp_all add: frac_part_def exp_part_def)
  have m: "minus_part d = []" using d sg by (simp add: minus_part_def)
  have m': "minus_part (CHR ''-'' # d) = ''-''" by (simp add: minus_part_def)
  have "length d \<le> max_int_digits" using assms by (simp add: d_def)
  moreover have "d \<noteq> []" using d by simp
  ultimately show ?thesis
    by (simp add: scan_number_def str m m' int val empty Let_def)
qed

lemma starts_with_simps [simp]:
  "starts_with [] s" "\<not> starts_with (a # w) []" "starts_with (a # w) (b # s) = (a = b \<and> starts_with w s)"
  by (auto simp: starts_with_def)

text \<open>The characters that begin a literal or a number.\<close>

definition literal_heads :: "char list" where
  "literal_heads = ''ntfNI''"

lemma digit_heads: "is_digit c \<Longrightarrow> c \<notin> set literal_heads \<and> c \<noteq> CHR ''-''"
  by (auto simp: is_digit_def literal_heads_def)

lemma scan_literal_None:
  "c \<notin> set literal_heads \<Longrightarrow> c \<noteq> CHR ''-'' \<or> \<not> starts_with ''Infinity'' s \<Longrightarrow>
     scan_literal literals (c # s) = None"
  unfolding literals_def literal_heads_def by (cases "c = CHR ''-''") auto

lemma scan_atom_int:
  assumes "length (str_nat (nat \<bar>k\<bar>)) \<le> max_int_digits"
  shows "scan_atom (str_int k) = Some (JInt k, [])"
proof -
  obtain c r where d: "str_nat (nat \<bar>k\<bar>) = c # r" by (cases "str_nat (nat \<bar>k\<bar>)") auto
  have c: "is_digit c" using str_nat_digits d by (metis list.set_intros(1))
  have str: "str_int k = (if k < 0 then CHR ''-'' # c # r else c # r)"
    using d by (auto simp: str_int_def abs_if)
  have "\<not> starts_with ''Infinity'' (c # r)" using digit_heads [OF c] by (auto simp: literal_heads_def)
  then have "scan_literal literals (str_int k) = None"
    using digit_heads [OF c] scan_literal_None [of "CHR ''-''" "c # r"] scan_literal_None [of c r]
    unfolding str by (auto simp: literal_heads_def simp del: starts_with_simps)
  then show ?thesis by (simp add: scan_atom_def scan_number_int [OF assms])
qed

text \<open>The first character of a text, which tells the reader what follows.\<close>

definition starts_value :: "string \<Rightarrow> bool" where
  "starts_value s =
     (s \<noteq> [] \<and> \<not> is_json_ws (hd s) \<and> hd s \<noteq> CHR '']'' \<and> hd s \<noteq> CHR ''}'')"

lemma starts_value_append: "starts_value s \<Longrightarrow> starts_value (s @ t)"
  by (simp add: starts_value_def)

lemma scan_atom_head:
  assumes "scan_atom s = Some (v, t)"
  shows "s \<noteq> [] \<and> hd s \<noteq> quote \<and> hd s \<noteq> CHR ''['' \<and> hd s \<noteq> CHR ''{'' \<and> starts_value s"
proof (cases s)
  case Nil
  then show ?thesis
    using scan_atom_shorter [OF assms] by simp
next
  case (Cons c r)
  have c: "c \<in> set literal_heads \<or> c = CHR ''-'' \<or> is_digit c"
  proof (rule ccontr)
    assume *: "\<not> ?thesis"
    then have "c \<noteq> CHR ''0''" by (auto simp: is_digit_def)
    then have "int_part (drop (length (minus_part s)) s) = []"
      using * Cons by (simp add: minus_part_def int_part_def)
    then have "scan_number s = None" by (simp add: scan_number_def)
    moreover have "scan_literal literals s = None" using * Cons by (simp add: scan_literal_None)
    ultimately show False using assms by (simp add: scan_atom_def)
  qed
  have q: "c \<noteq> quote" using c by (auto simp: quote_def literal_heads_def is_digit_def)
  have "\<not> is_json_ws c" "c \<noteq> CHR ''[''" "c \<noteq> CHR ''{''" "c \<noteq> CHR '']''" "c \<noteq> CHR ''}''"
    using c by (auto simp: literal_heads_def is_digit_def is_json_ws_def)
  then show ?thesis using Cons q by (simp add: starts_value_def)
qed

lemma starts_value_string: "starts_value (dumps_string s)"
  by (simp add: starts_value_def dumps_string_def quote_def is_json_ws_def)

lemma starts_value_dumps: "json_ok v \<Longrightarrow> starts_value (dumps v)"
proof (cases v)
  case (JInt k)
  then show "json_ok v \<Longrightarrow> ?thesis" using scan_atom_head [OF scan_atom_int] by simp
next
  case (JFloat t)
  then show "json_ok v \<Longrightarrow> ?thesis" using scan_atom_head by simp
qed (simp_all add: starts_value_string, simp_all add: starts_value_def is_json_ws_def)

lemma skip_ws_starts: "starts_value s \<Longrightarrow> skip_ws s = s"
  by (cases s) (auto simp: starts_value_def skip_ws_def)

lemma starts_value_open: "starts_value s \<Longrightarrow> \<not> starts_with '']'' s \<and> \<not> starts_with ''}'' s"
  by (cases s) (auto simp: starts_value_def)

lemma scan_value_atom:
  assumes "scan_atom s = Some (v, t)"
  shows "scan_value (Suc n) s = Some (v, t)"
  using scan_atom_head [OF assms] assms by (cases s) auto

definition reads_back :: "json \<Rightarrow> bool" where
  "reads_back v = (\<forall>r. ends_value r \<longrightarrow> (\<exists>N. \<forall>n\<ge>N. scan_value n (dumps v @ r) = Some (v, r)))"

lemma reads_backD:
  assumes "reads_back v" "ends_value r"
  obtains N where "\<And>n. N \<le> n \<Longrightarrow> scan_value n (dumps v @ r) = Some (v, r)"
  using assms unfolding reads_back_def by blast

lemma reads_back_atom:
  assumes "scan_atom (dumps v) = Some (v, [])"
  shows "reads_back v"
  unfolding reads_back_def
proof (intro allI impI)
  fix r assume r: "ends_value r"
  have "scan_atom (dumps v @ r) = Some (v, r)" using scan_atom_append [OF r] assms by simp
  then have "scan_value n (dumps v @ r) = Some (v, r)" if "1 \<le> n" for n
    using that by (cases n) (auto simp del: scan_value.simps simp: scan_value_atom)
  then show "\<exists>N. \<forall>n\<ge>N. scan_value n (dumps v @ r) = Some (v, r)" by blast
qed

lemma dumps_items_reads:
  assumes "list_all reads_back vs" "list_all json_ok vs" "vs \<noteq> []"
  shows "\<exists>N. \<forall>n\<ge>N. scan_items n (dumps_items vs @ '']'' @ r) = Some (vs, r)"
  using assms
proof (induction vs)
  case Nil
  then show ?case by simp
next
  case (Cons v vs)
  let ?rest = "(if vs = [] then [] else '', '' @ dumps_items vs) @ '']'' @ r"
  have "ends_value ?rest" by (simp add: ends_value_def)
  then obtain N where N: "\<And>n. N \<le> n \<Longrightarrow> scan_value n (dumps v @ ?rest) = Some (v, ?rest)"
    using Cons.prems(1) reads_backD [of v ?rest] by (metis list.pred_inject(2))
  show ?case
  proof (cases "vs = []")
    case True
    have "scan_items n (dumps_items [v] @ '']'' @ r) = Some ([v], r)" if n: "Suc N \<le> n" for n
    proof (cases n)
      case 0
      then show ?thesis using n by simp
    next
      case (Suc k)
      then show ?thesis using N [of k] n True by (simp add: skip_ws_def is_json_ws_def)
    qed
    then show ?thesis using True by blast
  next
    case False
    then obtain M where M: "\<And>n. M \<le> n \<Longrightarrow> scan_items n (dumps_items vs @ '']'' @ r) = Some (vs, r)"
      using Cons by auto
    obtain w ws where vs: "vs = w # ws" using False by (cases vs) auto
    then have "starts_value (dumps_items vs @ '']'' @ r)"
      using Cons.prems(2) by (auto simp del: append_assoc intro!: starts_value_append starts_value_dumps)
    then have ws: "skip_ws (CHR '' '' # dumps_items vs @ '']'' @ r) = dumps_items vs @ '']'' @ r"
      using skip_ws_starts by (simp add: skip_ws_def is_json_ws_def)
    have "scan_items n (dumps_items (v # vs) @ '']'' @ r) = Some (v # vs, r)" if n: "Suc (max N M) \<le> n" for n
    proof (cases n)
      case 0
      then show ?thesis using n by simp
    next
      case (Suc k)
      have "scan_value k (dumps v @ '', '' @ dumps_items vs @ '']'' @ r) = Some (v, '', '' @ dumps_items vs @ '']'' @ r)"
        using N [of k] n Suc False by simp
      moreover have "scan_items k (dumps_items vs @ '']'' @ r) = Some (vs, r)" using M [of k] n Suc by simp
      moreover have "skip_ws ('', '' @ dumps_items vs @ '']'' @ r) = '', '' @ dumps_items vs @ '']'' @ r"
        by (simp add: skip_ws_def is_json_ws_def)
      ultimately show ?thesis using Suc False ws by simp
    qed
    then show ?thesis by blast
  qed
qed

lemma dumps_members_reads:
  assumes "list_all (\<lambda>kv. reads_back (snd kv)) kvs" "list_all (\<lambda>kv. json_ok (snd kv)) kvs" "kvs \<noteq> []"
  shows "\<exists>N. \<forall>n\<ge>N. scan_members n (dumps_members kvs @ ''}'' @ r) = Some (kvs, r)"
  using assms
proof (induction kvs)
  case Nil
  then show ?case by simp
next
  case (Cons kv kvs)
  obtain k v where kv: "kv = (k, v)" by (cases kv)
  let ?rest = "(if kvs = [] then [] else '', '' @ dumps_members kvs) @ ''}'' @ r"
  have "ends_value ?rest" by (simp add: ends_value_def)
  then obtain N where N: "\<And>n. N \<le> n \<Longrightarrow> scan_value n (dumps v @ ?rest) = Some (v, ?rest)"
    using Cons.prems(1) reads_backD [of v ?rest] kv by (metis list.pred_inject(2) snd_conv)
  have "starts_value (dumps v @ t)" for t
    using Cons.prems(2) kv by (auto intro!: starts_value_append starts_value_dumps)
  then have sv: "skip_ws (CHR '' '' # dumps v @ t) = dumps v @ t" for t
    using skip_ws_starts by (simp add: skip_ws_def is_json_ws_def)
  have colon: "skip_ws (CHR '':'' # t) = CHR '':'' # t" for t by (simp add: skip_ws_def is_json_ws_def)
  show ?case
  proof (cases "kvs = []")
    case True
    have "scan_members n (dumps_members [kv] @ ''}'' @ r) = Some ([kv], r)" if n: "Suc N \<le> n" for n
    proof (cases n)
      case 0
      then show ?thesis using n by simp
    next
      case (Suc j)
      then show ?thesis
        using N [of j] n True sv colon scan_string_dumps
        by (simp add: kv dumps_string_def) (simp add: skip_ws_def is_json_ws_def)
    qed
    then show ?thesis using True by blast
  next
    case False
    then obtain M where M: "\<And>n. M \<le> n \<Longrightarrow> scan_members n (dumps_members kvs @ ''}'' @ r) = Some (kvs, r)"
      using Cons by auto
    have "starts_value (dumps_members kvs @ ''}'' @ r)"
      using False starts_value_string by (cases kvs) (auto intro!: starts_value_append)
    then have ws: "skip_ws (CHR '' '' # dumps_members kvs @ ''}'' @ r) = dumps_members kvs @ ''}'' @ r"
      using skip_ws_starts by (simp add: skip_ws_def is_json_ws_def)
    have comma: "skip_ws ('', '' @ t) = '', '' @ t" for t by (simp add: skip_ws_def is_json_ws_def)
    have "scan_members n (dumps_members (kv # kvs) @ ''}'' @ r) = Some (kv # kvs, r)"
      if n: "Suc (max N M) \<le> n" for n
    proof (cases n)
      case 0
      then show ?thesis using n by simp
    next
      case (Suc j)
      have "scan_value j (dumps v @ '', '' @ dumps_members kvs @ ''}'' @ r)
          = Some (v, '', '' @ dumps_members kvs @ ''}'' @ r)"
        using N [of j] n Suc False by simp
      moreover have "scan_members j (dumps_members kvs @ ''}'' @ r) = Some (kvs, r)" using M [of j] n Suc by simp
      ultimately show ?thesis
        using Suc False ws sv colon scan_string_dumps comma by (simp add: kv dumps_string_def)
    qed
    then show ?thesis by blast
  qed
qed

lemma json_reads_back: "json_ok v \<Longrightarrow> reads_back v"
proof (induction v)
  case (JStr s)
  have "scan_value n (dumps (JStr s) @ r) = Some (JStr s, r)" if "1 \<le> n" for n r
    using that scan_string_dumps by (cases n) (simp_all add: dumps_string_def)
  then show ?case unfolding reads_back_def by blast
next
  case (JArr xs)
  have rb: "list_all reads_back xs" and ok: "list_all json_ok xs"
    using JArr by (auto simp: list_all_iff)
  show ?case
  proof (cases "xs = []")
    case True
    have "scan_value n (dumps (JArr []) @ r) = Some (JArr [], r)" if "1 \<le> n" for n r
      using that by (cases n) (simp_all add: skip_ws_def is_json_ws_def quote_def)
    then show ?thesis using True unfolding reads_back_def by blast
  next
    case False
    then obtain w ws where xs: "xs = w # ws" by (cases xs) auto
    have "\<exists>N. \<forall>n\<ge>N. scan_value n (dumps (JArr xs) @ r) = Some (JArr xs, r)" for r
    proof -
      obtain N where N: "\<And>n. N \<le> n \<Longrightarrow> scan_items n (dumps_items xs @ '']'' @ r) = Some (xs, r)"
        using dumps_items_reads [OF rb ok False] by blast
      have st: "starts_value (dumps_items xs @ '']'' @ r)"
        using ok xs by (auto simp del: append_assoc intro!: starts_value_append starts_value_dumps)
      have ws: "skip_ws (dumps_items xs @ '']'' @ r) = dumps_items xs @ '']'' @ r"
        and nb: "\<not> starts_with '']'' (dumps_items xs @ '']'' @ r)"
        using skip_ws_starts [OF st] starts_value_open [OF st] by simp_all
      have "scan_value n (dumps (JArr xs) @ r) = Some (JArr xs, r)" if "Suc N \<le> n" for n
        using that N [of "n - 1"] ws nb by (cases n) (simp_all add: quote_def)
      then show ?thesis by blast
    qed
    then show ?thesis unfolding reads_back_def by blast
  qed
next
  case (JObj kvs)
  have rb: "list_all (\<lambda>kv. reads_back (snd kv)) kvs" and ok: "list_all (\<lambda>kv. json_ok (snd kv)) kvs"
    using JObj by (fastforce simp: list_all_iff)+
  show ?case
  proof (cases "kvs = []")
    case True
    have "scan_value n (dumps (JObj []) @ r) = Some (JObj [], r)" if "1 \<le> n" for n r
      using that by (cases n) (simp_all add: skip_ws_def is_json_ws_def quote_def)
    then show ?thesis using True unfolding reads_back_def by blast
  next
    case False
    have "\<exists>N. \<forall>n\<ge>N. scan_value n (dumps (JObj kvs) @ r) = Some (JObj kvs, r)" for r
    proof -
      obtain N where N: "\<And>n. N \<le> n \<Longrightarrow> scan_members n (dumps_members kvs @ ''}'' @ r) = Some (kvs, r)"
        using dumps_members_reads [OF rb ok False] by blast
      have st: "starts_value (dumps_members kvs @ ''}'' @ r)"
        using False starts_value_string by (cases kvs) (auto intro!: starts_value_append)
      have ws: "skip_ws (dumps_members kvs @ ''}'' @ r) = dumps_members kvs @ ''}'' @ r"
        and nb: "\<not> starts_with ''}'' (dumps_members kvs @ ''}'' @ r)"
        using skip_ws_starts [OF st] starts_value_open [OF st] by simp_all
      have "scan_value n (dumps (JObj kvs) @ r) = Some (JObj kvs, r)" if "Suc N \<le> n" for n
        using that N [of "n - 1"] ws nb by (cases n) (simp_all add: quote_def)
      then show ?thesis by blast
    qed
    then show ?thesis unfolding reads_back_def by blast
  qed
next
  case (JInt k)
  then show ?case by (intro reads_back_atom) (simp add: scan_atom_int)
qed (intro reads_back_atom, simp add: scan_atom_def literals_def)+

lemma merge_pairs_ok: "json_ok v \<Longrightarrow> merge_pairs v = v"
proof (induction v)
  case (JArr xs)
  then show ?case by (auto simp: list_all_iff intro: map_idI)
next
  case (JObj kvs)
  have same: "map (\<lambda>(k, v). (k, merge_pairs v)) kvs = kvs"
  proof (rule map_idI)
    fix kv assume kv: "kv \<in> set kvs"
    obtain k v where p: "kv = (k, v)" by (cases kv)
    have "json_ok v" using JObj.prems kv p by (auto simp: list_all_iff)
    then have "merge_pairs v = v" using JObj.IH [OF kv] p by simp
    then show "(case kv of (k, v) \<Rightarrow> (k, merge_pairs v)) = kv" by (simp add: p)
  qed
  have "distinct (map fst kvs)" using JObj.prems by simp
  then show ?case by (simp only: merge_pairs.simps same dict_of_distinct)
qed simp_all

lemma loads_of_pairs: "json_ok v \<Longrightarrow> loads_pairs s = Some v \<Longrightarrow> loads s = Some v"
  by (simp add: loads_def merge_pairs_ok)

lemma loads_pairs_dumps: "json_ok v \<Longrightarrow> loads_pairs (dumps v) = Some v"
proof -
  assume ok: "json_ok v"
  obtain N where N: "\<And>n. N \<le> n \<Longrightarrow> scan_value n (dumps v @ []) = Some (v, [])"
    using reads_backD [OF json_reads_back [OF ok], of "[]"] by (auto simp: ends_value_def)
  have "skip_ws (dumps v) = dumps v" using ok by (intro skip_ws_starts starts_value_dumps)
  then have "loads_pairs_with (max N (2 * length (dumps v) + 1)) (dumps v) = Some v"
    using N [of "max N (2 * length (dumps v) + 1)"] by (simp add: loads_pairs_with_def skip_ws_def)
  then show ?thesis by (metis loads_fuel max.cobounded2)
qed

lemma loads_dumps: "json_ok v \<Longrightarrow> loads (dumps v) = Some v"
  by (simp add: loads_of_pairs loads_pairs_dumps)

lemma fst_sorted_members:
  fixes f :: "json \<Rightarrow> json" and kvs :: "(string \<times> json) list"
  shows "map fst (sort_key fst (map (\<lambda>(k, v). (k, f v)) kvs)) = sort (map fst kvs)"
proof -
  have a: "map fst (sort_key fst xs) = sort (map fst xs)" for xs :: "(string \<times> json) list"
    by (rule properties_for_sort [symmetric]) simp_all
  have b: "map fst (map (\<lambda>(k, v). (k, f v)) kvs) = map fst kvs" by (induction kvs) auto
  show ?thesis unfolding a b ..
qed

lemma json_ok_sort_keys: "json_ok v \<Longrightarrow> json_ok (sort_keys v)"
proof (induction v)
  case (JArr xs)
  then show ?case by (simp add: list_all_iff)
next
  case (JObj kvs)
  have "json_ok (sort_keys v)" if "(k, v) \<in> set kvs" for k v
    using JObj that by (fastforce simp: list_all_iff)
  then show ?case
    using JObj.prems by (auto simp: list_all_iff fst_sorted_members)
qed simp_all

lemma loads_dumps_sorted: "json_ok v \<Longrightarrow> loads (dumps_sorted v) = Some (sort_keys v)"
  unfolding dumps_sorted_def by (intro loads_dumps json_ok_sort_keys)

text \<open>Sorting the members of a dict does not change what a key holds.\<close>

lemma map_of_sort_key_fst:
  assumes "distinct (map fst kvs)"
  shows "map_of (sort_key fst kvs) k = map_of kvs k"
proof -
  have "distinct (map fst (sort_key fst kvs))"
    using assms by (metis distinct_map distinct_sort inj_on_cong set_sort)
  then show ?thesis using assms by (metis eq_key_imp_eq_value map_of_SomeD map_of_eq_None_iff
        map_of_is_SomeI not_None_eq set_sort set_map)
qed

definition member :: "string \<Rightarrow> json \<Rightarrow> json option" where
  "member k v = (case v of JObj kvs \<Rightarrow> map_of kvs k | _ \<Rightarrow> None)"

end
