(* ===== verification/Task_Failure.thy ===== *)
theory Task_Failure
  imports Py_Json
begin

text \<open>
  The failure reasons that a task stores (\<open>lib/generation/task_failure.py\<close>): the registered codes,
  the envelope \<open>[code] {params}\<close> and its reading, and the bounding of a reason to the length of the
  column, which shortens the string parameters and keeps the envelope readable. Rendering into a
  language is not modelled. A reason is text over U+0000 to U+00FF; the branches for a recursion
  limit of the interpreter do not occur.
\<close>

section \<open>The registered codes\<close>

definition capability_failure_codes :: "string list" where
  "capability_failure_codes =
     [''image_capability_missing_i2i'', ''image_capability_missing_t2i'',
      ''image_dashscope_4k_t2i_only'', ''image_endpoint_mismatch_no_i2i'',
      ''image_endpoint_mismatch_no_t2i'', ''image_reference_images_unreadable'',
      ''ref_payload_floor_exceeded'', ''video_capability_missing_t2v'',
      ''video_duration_invalid'', ''video_duration_not_supported'',
      ''video_end_image_requires_start_image'', ''video_end_image_unreadable'',
      ''video_last_frame_requires_pro'', ''video_last_frame_unsupported'',
      ''video_prompt_too_long'', ''video_reference_images_exceeded'',
      ''video_reference_images_required'', ''video_reference_images_unreadable'',
      ''video_reference_images_unsupported'', ''video_reference_images_with_frames_unsupported'',
      ''video_reference_resolution_unsupported'', ''video_reference_audio_duration_exceeded'',
      ''video_reference_audio_exceeded'', ''video_reference_audio_format_unsupported'',
      ''video_reference_audio_slots_insufficient'', ''video_reference_audio_unreadable'',
      ''video_reference_audio_unsupported'', ''video_aspect_ratio_not_supported'',
      ''video_resolution_not_supported'', ''video_start_image_unreadable'']"

definition reference_projection_failure_codes :: "string list" where
  "reference_projection_failure_codes =
     [''reference_asset_missing'', ''reference_asset_unregistered'',
      ''reference_capability_changed'', ''reference_capability_unavailable'', ''needs_replan'',
      ''reference_duration_confirmation_required'',
      ''reference_supported_durations_incompatible'', ''reference_supported_durations_invalid'',
      ''reference_supported_durations_missing'', ''video_audio_switch_not_supported'',
      ''video_capability_missing_i2v'', ''video_capability_missing_r2v'',
      ''video_capability_reference_unavailable'']"

definition generation_input_failure_codes :: "string list" where
  "generation_input_failure_codes =
     [''asset_description_required'', ''asset_original_missing'',
      ''derivative_description_required'', ''derivative_owner_sheet_missing'',
      ''reference_asset_missing'', ''reference_asset_unregistered'', ''script_prompt_pending'']"

definition video_request_facts_failure_codes :: "string list" where
  "video_request_facts_failure_codes =
     [''video_audio_switch_not_supported'', ''video_capability_unavailable'',
      ''video_supported_durations_incompatible'', ''video_supported_durations_invalid'',
      ''video_supported_durations_missing'']"

definition other_failure_keys :: "(string \<times> string) list" where
  "other_failure_keys =
     [(''provider_unsupported_media'', ''task_fail_provider_unsupported_media''),
      (''model_not_in_provider_catalog'', ''model_not_in_provider_catalog''),
      (''provider_rejected'', ''task_fail_provider_rejected''),
      (''dispatch_provider_requeue_failed'', ''task_fail_dispatch_provider_requeue_failed''),
      (''project_deleted_during_task'', ''task_fail_project_deleted_during_task''),
      (''restart_lost_image'', ''task_fail_restart_lost_image''),
      (''restart_lost_audio'', ''task_fail_restart_lost_audio''),
      (''restart_lost_text'', ''task_fail_restart_lost_text''),
      (''restart_lost_render'', ''task_fail_restart_lost_render''),
      (''restart_lost_no_job_id'', ''task_fail_restart_lost_no_job_id''),
      (''restart_lost_resume_no_job_id'', ''task_fail_restart_lost_resume_no_job_id''),
      (''resume_unsupported_provider'', ''task_fail_resume_unsupported_provider''),
      (''resume_unsupported_capacity_zero'', ''task_fail_resume_unsupported_capacity_zero''),
      (''resume_unsupported_detail'', ''task_fail_resume_unsupported_detail''),
      (''resume_expired_detail'', ''task_fail_resume_expired_detail''),
      (''resume_endpoint_changed_detail'', ''task_fail_resume_endpoint_changed_detail''),
      (''declarative_template_render_failed'', ''task_fail_declarative_template_render_failed''),
      (''declarative_response_extract_failed'', ''task_fail_declarative_response_extract_failed''),
      (''declarative_image_save_failed'', ''task_fail_declarative_image_save_failed''),
      (''comfyui_image_drop_unsupported'', ''task_fail_comfyui_image_drop_unsupported''),
      (''comfyui_upload_failed'', ''task_fail_comfyui_upload_failed''),
      (''comfyui_node_errors'', ''task_fail_comfyui_node_errors''),
      (''comfyui_job_lost'', ''task_fail_comfyui_job_lost''),
      (''comfyui_execution_error'', ''task_fail_comfyui_execution_error''),
      (''comfyui_interrupted'', ''task_fail_comfyui_interrupted''),
      (''comfyui_output_missing'', ''task_fail_comfyui_output_missing''),
      (''comfyui_output_type_mismatch'', ''task_fail_comfyui_output_type_mismatch''),
      (''comfyui_output_container_mismatch'', ''task_fail_comfyui_output_container_mismatch''),
      (''artifact_download_failed'', ''task_fail_artifact_download_failed''),
      (''restart_lost_checkpoint_no_job_id'', ''task_fail_restart_lost_checkpoint_no_job_id''),
      (''execution_identity_unrecoverable'', ''task_fail_execution_identity_unrecoverable''),
      (''script_edit_error'', ''script_edit_error''),
      (''script_edit_items_not_list'', ''script_edit_items_not_list''),
      (''script_edit_unit_lists_invalid'', ''script_edit_unit_lists_invalid''),
      (''script_edit_generated_assets_invalid'', ''script_edit_generated_assets_invalid''),
      (''cascade_blocked_dependency'', ''task_fail_cascade_blocked_dependency'')]"

definition failure_code_keys :: "(string \<times> string) list" where
  "failure_code_keys =
     map (\<lambda>c. (c, c)) capability_failure_codes @ map (\<lambda>c. (c, c)) reference_projection_failure_codes
     @ map (\<lambda>c. (c, c)) generation_input_failure_codes
     @ map (\<lambda>c. (c, c)) video_request_facts_failure_codes @ other_failure_keys"

definition known_code :: "string \<Rightarrow> bool" where
  "known_code c = list_ex (\<lambda>(k, _). k = c) failure_code_keys"

definition cascade_failure_code :: string where
  "cascade_failure_code = ''cascade_blocked_dependency''"

section \<open>The envelope\<close>

text \<open>\<open>[code]\<close>, or \<open>[code]\<close> and the parameters as JSON in the order of their names.\<close>

definition failure_text :: "string \<Rightarrow> (string \<times> json) list \<Rightarrow> string" where
  "failure_text code params =
     ''['' @ code @ '']'' @ (if params = [] then [] else '' '' @ dumps_sorted (JObj params))"

datatype failure_error = Unknown_code string

definition encode_failure :: "string \<Rightarrow> (string \<times> json) list \<Rightarrow> failure_error + string" where
  "encode_failure code params =
     (if \<not> known_code code then Inl (Unknown_code code) else Inr (failure_text code params))"

text \<open>
  \<open>re.compile(r"^\[(\w+)\](?:[ ](\{.*\}))?$", re.DOTALL)\<close>: the code, and the text of the parameters
  where it is there. The dollar also matches before a newline at the end.
\<close>

definition is_word :: "char \<Rightarrow> bool" where
  "is_word c =
     (let n = of_char c :: nat in
      (48 \<le> n \<and> n \<le> 57) \<or> (65 \<le> n \<and> n \<le> 90) \<or> n = 95 \<or> (97 \<le> n \<and> n \<le> 122) \<or>
      n \<in> {170, 178, 179, 181, 185, 186, 188, 189, 190} \<or> (192 \<le> n \<and> n \<noteq> 215 \<and> n \<noteq> 247))"

definition newline :: char where
  "newline = CHR 0x0A"

definition drop_newline :: "string \<Rightarrow> string" where
  "drop_newline s = (if s \<noteq> [] \<and> last s = newline then butlast s else s)"

definition structured_params :: "string \<Rightarrow> string option option" where
  "structured_params s =
     (if s = [] \<or> s = [newline] then Some None
      else if starts_with '' {'' s then
        (let body = (if last s = CHR ''}'' then s else drop_newline s)
         in if 3 \<le> length body \<and> last body = CHR ''}'' then Some (Some (tl body)) else None)
      else None)"

definition structured :: "string \<Rightarrow> (string \<times> string option) option" where
  "structured s =
     (case s of
        [] \<Rightarrow> None
      | c # r \<Rightarrow>
          (let code = takeWhile is_word r; t = drop (length code) r
           in if c = CHR ''['' \<and> code \<noteq> [] \<and> starts_with '']'' t
              then map_option (\<lambda>p. (code, p)) (structured_params (tl t))
              else None))"

definition parse_failure :: "string \<Rightarrow> (string \<times> (string \<times> json) list) option" where
  "parse_failure s =
     (case structured s of
        None \<Rightarrow> None
      | Some (code, raw) \<Rightarrow>
          if \<not> known_code code then None
          else case raw of
                 None \<Rightarrow> Some (code, [])
               | Some text \<Rightarrow>
                   (case loads text of
                      Some (JObj params) \<Rightarrow> Some (code, params)
                    | _ \<Rightarrow> None))"

text \<open>
  The innermost reason of a nest of cascade envelopes, at most 101 deep (\<open>_MAX_CASCADE_UNWRAP\<close> and
  the unwrapping that notices it).
\<close>

definition max_cascade_unwrap :: nat where
  "max_cascade_unwrap = 100"

fun collapse_from :: "nat \<Rightarrow> string \<Rightarrow> string" where
  "collapse_from left reason =
     (case parse_failure reason of
        None \<Rightarrow> reason
      | Some (code, params) \<Rightarrow>
          if code \<noteq> cascade_failure_code then reason
          else (case map_of params ''reason'' of
                  Some (JStr nested) \<Rightarrow> if left = 0 then nested else collapse_from (left - 1) nested
                | _ \<Rightarrow> reason))"

definition collapse_cascade_reason :: "string \<Rightarrow> string" where
  "collapse_cascade_reason reason = collapse_from max_cascade_unwrap reason"

section \<open>Bounding a reason\<close>

text \<open>A list or a dict as its JSON text, which can be shortened.\<close>

definition as_shrinkable :: "json \<Rightarrow> json" where
  "as_shrinkable v =
     (case v of
        JArr _ \<Rightarrow> JStr (dumps v)
      | JObj _ \<Rightarrow> JStr (dumps v)
      | _ \<Rightarrow> v)"

definition shrink_values :: "(string \<times> json) list \<Rightarrow> (string \<times> json) list" where
  "shrink_values kvs = map (\<lambda>(k, v). (k, as_shrinkable v)) kvs"

text \<open>A dict with the keys \<open>key\<close>, a string, and \<open>params\<close>, a dict.\<close>

definition validation_message :: "json \<Rightarrow> (json \<times> (string \<times> json) list) option" where
  "validation_message v =
     (case v of
        JObj kvs \<Rightarrow>
          if set (map fst kvs) = {''key'', ''params''} then
            (case (map_of kvs ''key'', map_of kvs ''params'') of
               (Some (JStr key), Some (JObj params)) \<Rightarrow> Some (JStr key, params)
             | _ \<Rightarrow> None)
          else None
      | _ \<Rightarrow> None)"

definition json_get :: "string \<Rightarrow> (string \<times> json) list \<Rightarrow> json" where
  "json_get k kvs = (case map_of kvs k of None \<Rightarrow> JNull | Some v \<Rightarrow> v)"

definition is_gap :: "json \<Rightarrow> bool" where
  "is_gap g =
     (case g of
        JObj kvs \<Rightarrow>
          (case (json_get ''code'' kvs, json_get ''name'' kvs) of
             (JStr code, JStr name) \<Rightarrow>
               code \<in> set generation_input_failure_codes \<and>
               json_get ''asset_type'' kvs
                 \<in> {JNull, JStr ''character'', JStr ''scene'', JStr ''prop'', JStr ''product''}
           | _ \<Rightarrow> False)
      | _ \<Rightarrow> False)"

text \<open>A kept gap: its code, its asset type and its name.\<close>

type_synonym gap = "string \<times> json \<times> string"

definition gap_of :: "json \<Rightarrow> gap" where
  "gap_of g =
     (case g of
        JObj kvs \<Rightarrow>
          ((case json_get ''code'' kvs of JStr c \<Rightarrow> c | _ \<Rightarrow> []), json_get ''asset_type'' kvs,
           (case json_get ''name'' kvs of JStr n \<Rightarrow> n | _ \<Rightarrow> []))
      | _ \<Rightarrow> ([], JNull, []))"

definition gap_json :: "gap \<Rightarrow> json" where
  "gap_json g =
     (case g of
        (code, asset_type, name) \<Rightarrow>
          JObj [(''code'', JStr code), (''asset_type'', asset_type), (''name'', JStr name)])"

fun first_per_code :: "gap list \<Rightarrow> gap list" where
  "first_per_code [] = []"
| "first_per_code (g # gs) = g # filter (\<lambda>h. fst h \<noteq> fst g) (first_per_code gs)"

definition gaps_of :: "string \<Rightarrow> (string \<times> json) list \<Rightarrow> gap list option" where
  "gaps_of code parsed =
     (case map_of parsed ''gaps'' of
        Some (JArr gs) \<Rightarrow>
          if code \<in> set generation_input_failure_codes \<and> list_all is_gap gs then Some (map gap_of gs)
          else None
      | _ \<Rightarrow> None)"

definition json_int :: "json \<Rightarrow> int" where
  "json_int v = (case v of JInt k \<Rightarrow> k | JBool b \<Rightarrow> (if b then 1 else 0) | _ \<Rightarrow> 0)"

text \<open>
  The strings that may be shortened, by their place: a parameter, the name of a kept gap, or a
  parameter of the nested message under \<open>detail\<close>.
\<close>

datatype place = Top string | Gap nat | Detail string

definition set_at :: "nat \<Rightarrow> ('a \<Rightarrow> 'a) \<Rightarrow> 'a list \<Rightarrow> 'a list" where
  "set_at i f xs = (if i < length xs then xs[i := f (xs ! i)] else xs)"

definition upd_member :: "string \<Rightarrow> (json \<Rightarrow> json) \<Rightarrow> (string \<times> json) list \<Rightarrow> (string \<times> json) list" where
  "upd_member k f kvs = map (\<lambda>(x, v). (x, if x = k then f v else v)) kvs"

definition in_obj :: "((string \<times> json) list \<Rightarrow> (string \<times> json) list) \<Rightarrow> json \<Rightarrow> json" where
  "in_obj f v = (case v of JObj kvs \<Rightarrow> JObj (f kvs) | _ \<Rightarrow> v)"

definition in_arr :: "(json list \<Rightarrow> json list) \<Rightarrow> json \<Rightarrow> json" where
  "in_arr f v = (case v of JArr xs \<Rightarrow> JArr (f xs) | _ \<Rightarrow> v)"

definition put_text :: "place \<times> string \<Rightarrow> (string \<times> json) list \<Rightarrow> (string \<times> json) list" where
  "put_text pt params =
     (case pt of
        (Top k, t) \<Rightarrow> upd_member k (\<lambda>_. JStr t) params
      | (Gap i, t) \<Rightarrow>
          upd_member ''gaps'' (in_arr (set_at i (in_obj (upd_member ''name'' (\<lambda>_. JStr t))))) params
      | (Detail k, t) \<Rightarrow>
          upd_member ''detail'' (in_obj (upd_member ''params'' (in_obj (upd_member k (\<lambda>_. JStr t))))) params)"

definition fill :: "(string \<times> json) list \<Rightarrow> place list \<Rightarrow> string list \<Rightarrow> (string \<times> json) list" where
  "fill params places texts = fold put_text (zip places texts) params"

definition string_places :: "(string \<Rightarrow> place) \<Rightarrow> (string \<times> json) list \<Rightarrow> (place \<times> string) list" where
  "string_places at_key kvs =
     concat (map (\<lambda>(k, v). case v of JStr t \<Rightarrow> [(at_key k, t)] | _ \<Rightarrow> []) kvs)"

definition prepared_params :: "string \<Rightarrow> (string \<times> json) list \<Rightarrow> (string \<times> json) list" where
  "prepared_params code parsed =
     (let params = shrink_values parsed;
          params1 =
            (case validation_message (json_get ''detail'' parsed) of
               None \<Rightarrow> params
             | Some (key, dparams) \<Rightarrow>
                 AList.update ''detail'' (JObj [(''key'', key), (''params'', JObj (shrink_values dparams))]) params)
      in case gaps_of code parsed of
           None \<Rightarrow> params1
         | Some gaps \<Rightarrow>
             (let kept = first_per_code gaps;
                  omitted = json_int (case map_of parsed ''gaps_omitted'' of None \<Rightarrow> JInt 0 | Some v \<Rightarrow> v)
              in AList.update ''gaps_omitted'' (JInt (omitted + int (length gaps) - int (length kept)))
                   (AList.update ''gaps'' (JArr (map gap_json kept)) params1)))"

definition shrinkable_places :: "string \<Rightarrow> (string \<times> json) list \<Rightarrow> (place \<times> string) list" where
  "shrinkable_places code parsed =
     (let params = prepared_params code parsed;
          kept = (case gaps_of code parsed of None \<Rightarrow> [] | Some gaps \<Rightarrow> first_per_code gaps)
      in string_places Top params
         @ map (\<lambda>(i, g). (Gap i, snd (snd g))) (enumerate 0 kept)
         @ (case validation_message (json_get ''detail'' params) of
              None \<Rightarrow> []
            | Some (_, dparams) \<Rightarrow> string_places Detail dparams))"

text \<open>The position of the first longest text: \<open>max(shrinkable, key=len)\<close>.\<close>

fun longest :: "string list \<Rightarrow> nat" where
  "longest [] = 0"
| "longest (t # ts) =
     (if ts = [] \<or> length (ts ! longest ts) \<le> length t then 0 else Suc (longest ts))"

text \<open>
  One round shortens the longest text by the excess, or by half where the excess is longer; when the
  longest text is empty there is nothing left to shorten and the loop ends with \<open>None\<close>. Every round
  removes a character.
\<close>

definition shortened :: "nat \<Rightarrow> string \<Rightarrow> string" where
  "shortened deficit t =
     (let cut = (if deficit < length t then deficit else max 1 (length t div 2)) in take (length t - cut) t)"

lemma longest_less: "ts \<noteq> [] \<Longrightarrow> longest ts < length ts"
  by (induction ts) auto

lemma longest_greatest: "t \<in> set ts \<Longrightarrow> length t \<le> length (ts ! longest ts)"
  by (induction ts arbitrary: t) (auto simp: nth_Cons split: nat.splits, fastforce+)

lemma sum_list_update_less:
  "i < length ts \<Longrightarrow> length t < length (ts ! i) \<Longrightarrow> sum_list (map length (ts[i := t])) < sum_list (map length ts)"
  by (induction ts arbitrary: i) (auto simp: nth_Cons split: nat.splits)

lemma shortened_less: "t \<noteq> [] \<Longrightarrow> 0 < deficit \<Longrightarrow> length (shortened deficit t) < length t"
  by (cases t) (auto simp: shortened_def Let_def)

function shrink_texts :: "(string list \<Rightarrow> string) \<Rightarrow> nat \<Rightarrow> string list \<Rightarrow> string option" where
  "shrink_texts encode limit ts =
     (let encoded = encode ts; i = longest ts; current = ts ! i in
      if length encoded \<le> limit then Some encoded
      else if ts = [] \<or> current = [] then None
      else shrink_texts encode limit (ts[i := shortened (length encoded - limit) current]))"
  by auto
termination
  by (relation "measure (\<lambda>(encode, limit, ts). sum_list (map length ts))")
    (auto intro!: sum_list_update_less longest_less shortened_less)

declare shrink_texts.simps [simp del]

definition bound_reason :: "string \<Rightarrow> nat \<Rightarrow> string" where
  "bound_reason reason limit =
     (if length reason \<le> limit then reason
      else case structured reason of
             Some (code, Some raw) \<Rightarrow>
               if \<not> known_code code then take limit reason
               else (case loads raw of
                       Some (JObj parsed) \<Rightarrow>
                         (let params = prepared_params code parsed; places = shrinkable_places code parsed
                          in if places = [] then take limit reason
                             else case shrink_texts (\<lambda>ts. failure_text code (fill params (map fst places) ts))
                                         limit (map snd places) of
                                    Some encoded \<Rightarrow> encoded
                                  | None \<Rightarrow> take limit reason)
                     | _ \<Rightarrow> take limit reason)
           | _ \<Rightarrow> take limit reason)"

section \<open>The reason of a blocked task\<close>

text \<open>\<open>_encode_bounded_cascade_failure\<close> of \<open>lib/db/repositories/task_repo.py\<close>.\<close>

definition max_error_message_len :: nat where
  "max_error_message_len = 2000"

definition cascade_text :: "string \<Rightarrow> string \<Rightarrow> string" where
  "cascade_text dependency reason =
     failure_text cascade_failure_code [(''dependency_task_id'', JStr dependency), (''reason'', JStr reason)]"

text \<open>At most five rounds: the reason is bounded to the budget, and the excess comes off the budget.\<close>

fun cascade_rounds :: "nat \<Rightarrow> string \<Rightarrow> string \<Rightarrow> nat \<Rightarrow> string" where
  "cascade_rounds rounds dependency reason budget =
     (let reason1 = bound_reason reason budget;
          encoded = cascade_text dependency reason1;
          overflow = length encoded - max_error_message_len
      in if rounds = 0 \<or> overflow = 0 \<or> budget = 0 then encoded
         else cascade_rounds (rounds - 1) dependency reason1 (budget - overflow))"

definition encode_bounded_cascade_failure :: "string \<Rightarrow> string \<Rightarrow> string" where
  "encode_bounded_cascade_failure dependency reason0 =
     (let reason = collapse_cascade_reason reason0;
          encoded = cascade_text dependency reason
      in if length encoded \<le> max_error_message_len then encoded
         else cascade_rounds 4 dependency reason
                (max_error_message_len - length (cascade_text dependency [])))"

end
