(* ===== verification/Task_Queue.thy ===== *)
theory Task_Queue
  imports Task_Failure
begin

text \<open>
  The queue of generation tasks (\<open>lib/db/repositories/task_repo.py\<close> over the tables of
  \<open>lib/db/models/task.py\<close>). A table is the list of its rows in the order of insertion; a row is
  found by its key, an \<open>UPDATE ... WHERE\<close> maps over the rows, and its \<open>rowcount\<close> is the number of
  rows that satisfied the condition. \<open>ORDER BY\<close> is a stable sort, so rows that tie come in the order
  of insertion, where the database leaves the choice open.

  An operation that reads rows and later writes under a guard takes the queue twice: \<open>seen\<close> is what
  its \<open>SELECT\<close> read, and the last argument is what its \<open>UPDATE\<close> found; other sessions may have
  committed in between. Every operation is one transaction: an error leaves the queue as it was.
  Instants are ints and are not turned into ISO text. The project filter of a subclass
  (\<open>_scope_query\<close>) is the base class's identity.
\<close>

section \<open>Rows\<close>

datatype task_status = Queued | Running | Succeeded | Failed | Cancelled

record task =
  t_id :: string
  t_batch_id :: "string option"
  t_project :: string
  t_type :: string
  t_media :: string
  t_resource_id :: string
  t_resource_type :: "string option"
  t_script_file :: "string option"
  t_payload_json :: "string option"
  t_status :: task_status
  t_result_json :: "string option"
  t_error :: "string option"
  t_source :: string
  t_dependency :: "string option"
  t_dependency_group :: "string option"
  t_dependency_index :: "int option"
  t_cancelled_by :: "string option"
  t_provider :: "string option"
  t_provider_job :: "string option"
  t_provider_endpoint :: "string option"
  t_base_url :: "string option"
  t_checkpoint :: "string option"
  t_queued_at :: int
  t_started_at :: "int option"
  t_finished_at :: "int option"
  t_updated_at :: int
  t_user :: string

record generation_batch =
  b_id :: string
  b_project :: string
  b_operation :: string
  b_requested_json :: string
  b_blocked_json :: string
  b_source :: string
  b_user :: string
  b_created_at :: int

record batch_task =
  m_batch :: string
  m_task :: string
  m_unit :: string
  m_deduped :: bool

datatype call_status = Call_pending | Call_success | Call_failed | Call_cancelled

record api_call =
  c_id :: int
  c_task :: "string option"
  c_status :: call_status
  c_finished_at :: "int option"
  c_error_message :: "string option"
  c_error_code :: "string option"
  c_error_params :: "json option"

record terminal_event =
  e_task :: string
  e_project :: string
  e_status :: task_status
  e_type :: string

record queue =
  q_tasks :: "task list"
  q_batches :: "generation_batch list"
  q_members :: "batch_task list"
  q_calls :: "api_call list"
  q_events :: "terminal_event list"

datatype task_error =
    Integrity_error
  | Task_value_error
  | Task_not_cancellable string
  | Guard_error
  | Attribute_error
  | Type_error

definition active_statuses :: "task_status list" where
  "active_statuses = [Queued, Running]"

definition terminal_task_statuses :: "task_status list" where
  "terminal_task_statuses = [Succeeded, Failed, Cancelled]"

definition coalesce :: "string option \<Rightarrow> string" where
  "coalesce x = (case x of None \<Rightarrow> [] | Some s \<Rightarrow> s)"

section \<open>Reading rows\<close>

definition json_dumps :: "json \<Rightarrow> string" where
  "json_dumps v = dumps v"

definition json_loads :: "string option \<Rightarrow> json \<Rightarrow> json" where
  "json_loads value fallback =
     (case value of
        None \<Rightarrow> fallback
      | Some s \<Rightarrow> if s = [] then fallback else (case loads s of None \<Rightarrow> fallback | Some v \<Rightarrow> v))"

text \<open>\<open>_task_to_dict\<close>: the row, with its payload and its result decoded.\<close>

type_synonym task_dict = "task \<times> json \<times> json"

definition task_to_dict :: "task \<Rightarrow> task_dict" where
  "task_to_dict t = (t, json_loads (t_payload_json t) (JObj []), json_loads (t_result_json t) (JObj []))"

definition find_task :: "string \<Rightarrow> queue \<Rightarrow> task option" where
  "find_task tid q = find (\<lambda>t. t_id t = tid) (q_tasks q)"

text \<open>The part of \<open>_active_dedupe_clauses\<close> and of \<open>idx_tasks_dedupe_active\<close> that rows are compared by.\<close>

type_synonym dedupe_key = "string \<times> string \<times> string \<times> string \<times> string \<times> string"

definition dedupe_key :: "task \<Rightarrow> dedupe_key" where
  "dedupe_key t =
     (t_project t, t_user t, t_type t, t_resource_id t, coalesce (t_script_file t), coalesce (t_resource_type t))"

definition is_active :: "task \<Rightarrow> bool" where
  "is_active t = (t_status t \<in> set active_statuses)"

definition active_matches ::
    "string \<Rightarrow> string \<Rightarrow> string \<Rightarrow> string option \<Rightarrow> string option \<Rightarrow> string list \<Rightarrow> queue \<Rightarrow> task list" where
  "active_matches project user type script rtype resources q =
     filter (\<lambda>t. is_active t \<and> t_resource_id t \<in> set resources \<and>
       dedupe_key t = (project, user, type, t_resource_id t, coalesce script, coalesce rtype)) (q_tasks q)"

definition index_allows :: "task \<Rightarrow> task list \<Rightarrow> bool" where
  "index_allows t ts =
     (is_active t \<longrightarrow> \<not> list_ex (\<lambda>u. t_id u \<noteq> t_id t \<and> is_active u \<and> dedupe_key u = dedupe_key t) ts)"

text \<open>An \<open>INSERT\<close> into the tasks: the primary key and the unique index may refuse it.\<close>

definition insert_task :: "task \<Rightarrow> queue \<Rightarrow> queue option" where
  "insert_task t q =
     (if list_ex (\<lambda>u. t_id u = t_id t) (q_tasks q) \<or> \<not> index_allows t (q_tasks q) then None
      else Some (q\<lparr>q_tasks := q_tasks q @ [t]\<rparr>))"

definition record_terminal_event :: "task \<Rightarrow> task_status \<Rightarrow> queue \<Rightarrow> queue" where
  "record_terminal_event t st q =
     (if st \<in> set terminal_task_statuses
      then q\<lparr>q_events := q_events q @ [\<lparr>e_task = t_id t, e_project = t_project t, e_status = st, e_type = t_type t\<rparr>]\<rparr>
      else q)"

definition rows_where :: "(task \<Rightarrow> bool) \<Rightarrow> queue \<Rightarrow> nat" where
  "rows_where P q = length (filter P (q_tasks q))"

definition update_where :: "(task \<Rightarrow> bool) \<Rightarrow> (task \<Rightarrow> task) \<Rightarrow> queue \<Rightarrow> queue" where
  "update_where P f q = q\<lparr>q_tasks := map (\<lambda>t. if P t then f t else t) (q_tasks q)\<rparr>"

section \<open>Batches\<close>

definition dict_get :: "string \<Rightarrow> json \<Rightarrow> task_error + json option" where
  "dict_get k v = (case v of JObj kvs \<Rightarrow> Inr (map_of kvs k) | _ \<Rightarrow> Inl Attribute_error)"

text \<open>Iterating a JSON value: the items of a list; a dict and a string iterate over strings.\<close>

definition iterate :: "json \<Rightarrow> task_error + json list" where
  "iterate v =
     (case v of
        JArr xs \<Rightarrow> Inr xs
      | JObj kvs \<Rightarrow> Inr (map (\<lambda>(k, _). JStr k) kvs)
      | JStr s \<Rightarrow> Inr (map (\<lambda>c. JStr [c]) s)
      | _ \<Rightarrow> Inl Type_error)"

text \<open>The hash of \<open>item.get("unit_id")\<close>: lists and dicts have none.\<close>

definition unit_of :: "(string \<times> json) list \<Rightarrow> task_error + json" where
  "unit_of kvs =
     (case map_of kvs ''unit_id'' of
        None \<Rightarrow> Inr JNull
      | Some (JArr _) \<Rightarrow> Inl Type_error
      | Some (JObj _) \<Rightarrow> Inl Type_error
      | Some v \<Rightarrow> Inr v)"

fun requested_units :: "json list \<Rightarrow> task_error + json list" where
  "requested_units [] = Inr []"
| "requested_units (v # vs) =
     (case v of
        JObj kvs \<Rightarrow> bindE (unit_of kvs) (\<lambda>u. bindE (requested_units vs) (\<lambda>us. Inr (u # us)))
      | _ \<Rightarrow> requested_units vs)"

fun blocked_units :: "json list \<Rightarrow> task_error + json list" where
  "blocked_units [] = Inr []"
| "blocked_units (v # vs) =
     (case v of
        JObj kvs \<Rightarrow>
          (case map_of kvs ''item'' of
             Some (JObj item) \<Rightarrow> bindE (unit_of item) (\<lambda>u. bindE (blocked_units vs) (\<lambda>us. Inr (u # us)))
           | _ \<Rightarrow> blocked_units vs)
      | _ \<Rightarrow> blocked_units vs)"

definition find_batch :: "string \<Rightarrow> string \<Rightarrow> string \<Rightarrow> queue \<Rightarrow> generation_batch option" where
  "find_batch project bid user q =
     find (\<lambda>b. b_id b = bid \<and> b_project b = project \<and> b_user b = user) (q_batches q)"

definition require_batch_units :: "string \<Rightarrow> string \<Rightarrow> string list \<Rightarrow> string \<Rightarrow> queue \<Rightarrow> task_error + unit" where
  "require_batch_units project bid units user q =
     (case find_batch project bid user q of
        None \<Rightarrow> Inl Task_value_error
      | Some b \<Rightarrow>
          bindE (dict_get ''requested'' (json_loads (Some (b_requested_json b)) (JObj []))) (\<lambda>requested.
          bindE (iterate (case requested of None \<Rightarrow> JArr [] | Some v \<Rightarrow> v)) (\<lambda>items.
          bindE (requested_units items) (\<lambda>requested_ids.
          bindE (iterate (json_loads (Some (b_blocked_json b)) (JArr []))) (\<lambda>blocked.
          bindE (blocked_units blocked) (\<lambda>blocked_ids.
            ensure (\<not> list_ex (\<lambda>u. JStr u \<notin> set requested_ids \<or> JStr u \<in> set blocked_ids) units)
              Task_value_error))))))"

definition create_batch ::
    "int \<Rightarrow> string \<Rightarrow> string \<Rightarrow> string \<Rightarrow> (string \<times> json) list \<Rightarrow> json list \<Rightarrow> string \<Rightarrow> string \<Rightarrow> queue \<Rightarrow> task_error + queue" where
  "create_batch now bid project operation requested blocked source user q =
     (if list_ex (\<lambda>b. b_id b = bid) (q_batches q) then Inl Integrity_error
      else Inr (q\<lparr>q_batches := q_batches q @
        [\<lparr>b_id = bid, b_project = project, b_operation = operation, b_requested_json = json_dumps (JObj requested),
          b_blocked_json = json_dumps (JArr blocked), b_source = source, b_user = user, b_created_at = now\<rparr>]\<rparr>))"

text \<open>The rows of \<open>BatchTask\<close>: a unit of a batch has one task (\<open>uq_batch_tasks_batch_unit\<close>).\<close>

fun add_members :: "string \<Rightarrow> string \<Rightarrow> bool \<Rightarrow> string list \<Rightarrow> queue \<Rightarrow> task_error + queue" where
  "add_members bid tid deduped [] q = Inr q"
| "add_members bid tid deduped (u # us) q =
     (if list_ex (\<lambda>m. m_batch m = bid \<and> m_unit m = u) (q_members q) then Inl Integrity_error
      else add_members bid tid deduped us
        (q\<lparr>q_members := q_members q @ [\<lparr>m_batch = bid, m_task = tid, m_unit = u, m_deduped = deduped\<rparr>]\<rparr>))"

definition attach_batch_task :: "string \<Rightarrow> string \<Rightarrow> string \<Rightarrow> string \<Rightarrow> bool \<Rightarrow> string \<Rightarrow> queue \<Rightarrow> task_error + queue" where
  "attach_batch_task project bid tid u deduped user q =
     bindE (require_batch_units project bid [u] user q) (\<lambda>_.
       case find (\<lambda>t. t_id t = tid \<and> t_project t = project \<and> t_user t = user) (q_tasks q) of
         None \<Rightarrow> Inl Task_value_error
       | Some _ \<Rightarrow> add_members bid tid deduped [u] q)"

definition delete_fresh_batch :: "string \<Rightarrow> string \<Rightarrow> string \<Rightarrow> queue \<Rightarrow> nat \<times> queue" where
  "delete_fresh_batch project bid user q =
     (let fresh = (\<lambda>b. b_id b = bid \<and> b_project b = project \<and> b_user b = user \<and>
            \<not> list_ex (\<lambda>t. t_batch_id t = Some (b_id b)) (q_tasks q) \<and>
            \<not> list_ex (\<lambda>m. m_batch m = b_id b) (q_members q))
      in (length (filter fresh (q_batches q)), q\<lparr>q_batches := filter (\<lambda>b. \<not> fresh b) (q_batches q)\<rparr>))"

record batch_view =
  bv_batch :: generation_batch
  bv_requested :: json
  bv_blocked :: json
  bv_memberships :: "(task_dict \<times> string \<times> bool) list"
  bv_depth :: "(string \<times> nat) list"

text \<open>The members of a batch with their tasks, and how many tasks of each of their types wait.\<close>

definition get_batch :: "string \<Rightarrow> string \<Rightarrow> string \<Rightarrow> queue \<Rightarrow> task_error + batch_view option" where
  "get_batch project bid user q =
     (case find_batch project bid user q of
        None \<Rightarrow> Inr None
      | Some b \<Rightarrow>
          (let rows = concat (map (\<lambda>m. if m_batch m \<noteq> bid then []
                 else map (\<lambda>t. (t, m)) (filter (\<lambda>t. t_id t = m_task m \<and> t_project t = b_project b \<and> t_user t = b_user b) (q_tasks q)))
                 (q_members q));
               types = dedup (map (\<lambda>(t, _). t_type t) rows);
               waiting = (\<lambda>ty. filter (\<lambda>t. t_project t = b_project b \<and> t_user t = b_user b \<and> t_type t = ty \<and>
                 t_status t = Queued) (q_tasks q))
           in case (loads (b_requested_json b), loads (b_blocked_json b)) of
                (Some requested, Some blocked) \<Rightarrow>
                  Inr (Some \<lparr>bv_batch = b, bv_requested = requested, bv_blocked = blocked,
                    bv_memberships = map (\<lambda>(t, m). (task_to_dict t, m_unit m, m_deduped m)) rows,
                    bv_depth = map (\<lambda>ty. (ty, length (waiting ty))) (filter (\<lambda>ty. waiting ty \<noteq> []) types)\<rparr>)
              | _ \<Rightarrow> Inl Task_value_error))"

section \<open>Enqueueing\<close>

record enqueue_request =
  r_project :: string
  r_type :: string
  r_media :: string
  r_resource_id :: string
  r_payload :: "(string \<times> json) list"
  r_script_file :: "string option"
  r_resource_type :: "string option"
  r_source :: string
  r_dependency :: "string option"
  r_dependency_group :: "string option"
  r_dependency_index :: "int option"
  r_user :: string
  r_provider :: "string option"
  r_batch_id :: "string option"
  r_batch_unit :: "string option"
  r_batch_units :: "string list"

record enqueue_result =
  er_task :: string
  er_status :: task_status
  er_deduped :: bool
  er_existing :: "string option"
  er_existing_payload :: "json option"

definition unit_ids_of :: "enqueue_request \<Rightarrow> string list" where
  "unit_ids_of r =
     dedup (r_batch_units r @ (case r_batch_unit r of None \<Rightarrow> [] | Some u \<Rightarrow> if u = [] then [] else [u]))"

definition new_task :: "int \<Rightarrow> string \<Rightarrow> enqueue_request \<Rightarrow> task" where
  "new_task now tid r =
     \<lparr>t_id = tid, t_batch_id = r_batch_id r, t_project = r_project r, t_type = r_type r, t_media = r_media r,
      t_resource_id = r_resource_id r, t_resource_type = r_resource_type r, t_script_file = r_script_file r,
      t_payload_json = Some (json_dumps (JObj (r_payload r))), t_status = Queued, t_result_json = None,
      t_error = None, t_source = r_source r, t_dependency = r_dependency r,
      t_dependency_group = r_dependency_group r, t_dependency_index = r_dependency_index r,
      t_cancelled_by = None, t_provider = r_provider r, t_provider_job = None, t_provider_endpoint = None,
      t_base_url = None, t_checkpoint = None, t_queued_at = now, t_started_at = None, t_finished_at = None,
      t_updated_at = now, t_user = r_user r\<rparr>"

definition require_units :: "enqueue_request \<Rightarrow> queue \<Rightarrow> task_error + unit" where
  "require_units r q =
     (case r_batch_id r of
        None \<Rightarrow> ensure (unit_ids_of r = []) Task_value_error
      | Some bid \<Rightarrow>
          bindE (ensure (unit_ids_of r \<noteq> []) Task_value_error) (\<lambda>_.
            require_batch_units (r_project r) bid (unit_ids_of r) (r_user r) q))"

text \<open>The active task of the same key, where the unique index refused the new one.\<close>

definition newest :: "task list \<Rightarrow> task option" where
  "newest ts = (case sort_key (\<lambda>t. - t_queued_at t) ts of [] \<Rightarrow> None | t # _ \<Rightarrow> Some t)"

definition existing_task :: "enqueue_request \<Rightarrow> queue \<Rightarrow> task option" where
  "existing_task r q =
     newest (active_matches (r_project r) (r_user r) (r_type r) (r_script_file r) (r_resource_type r)
       [r_resource_id r] q)"

definition join_batch :: "enqueue_request \<Rightarrow> enqueue_result \<Rightarrow> queue \<Rightarrow> task_error + enqueue_result \<times> queue" where
  "join_batch r res q =
     (case r_batch_id r of
        None \<Rightarrow> Inr (res, q)
      | Some bid \<Rightarrow>
          bindE (add_members bid (er_task res) (er_deduped res) (unit_ids_of r) q) (\<lambda>q1. Inr (res, q1)))"

text \<open>\<open>guard\<close> is the caller's \<open>dedupe_guard\<close>: whether it raises on the payload and the id of the
  task that is already there.\<close>

definition enqueue ::
    "int \<Rightarrow> string \<Rightarrow> (json \<Rightarrow> string \<Rightarrow> bool) \<Rightarrow> enqueue_request \<Rightarrow> queue \<Rightarrow> task_error + enqueue_result \<times> queue" where
  "enqueue now tid guard r q =
     bindE (require_units r q) (\<lambda>_.
       case insert_task (new_task now tid r) q of
         Some q1 \<Rightarrow>
           join_batch r \<lparr>er_task = tid, er_status = Queued, er_deduped = False, er_existing = None,
             er_existing_payload = None\<rparr> q1
       | None \<Rightarrow>
           (case existing_task r q of
              None \<Rightarrow> Inl Integrity_error
            | Some t \<Rightarrow>
                (let payload = json_loads (t_payload_json t) (JObj [])
                 in if guard payload (t_id t) then Inl Guard_error
                    else join_batch r \<lparr>er_task = t_id t, er_status = t_status t, er_deduped = True,
                           er_existing = Some (t_id t), er_existing_payload = Some payload\<rparr> q)))"

definition get_active_tasks_for_resources ::
    "string \<Rightarrow> string \<Rightarrow> string list \<Rightarrow> string option \<Rightarrow> string option \<Rightarrow> string \<Rightarrow> queue \<Rightarrow> task_dict list" where
  "get_active_tasks_for_resources project type resources script rtype user q =
     (if resources = [] then []
      else map task_to_dict (sort_key (\<lambda>t. (t_queued_at t, t_id t))
        (active_matches project user type script rtype resources q)))"

section \<open>Claiming\<close>

text \<open>The \<open>LEFT JOIN\<close>: a task waits for nothing, or the task it waits for has succeeded.\<close>

definition dependency_ready :: "task \<Rightarrow> queue \<Rightarrow> bool" where
  "dependency_ready t q =
     (case t_dependency t of
        None \<Rightarrow> True
      | Some d \<Rightarrow> list_ex (\<lambda>u. t_id u = d \<and> t_status u = Succeeded) (q_tasks q))"

definition claimable :: "string \<Rightarrow> string list \<Rightarrow> queue \<Rightarrow> task \<Rightarrow> bool" where
  "claimable media full q t =
     (t_status t = Queued \<and> t_media t = media \<and>
      (case t_provider t of None \<Rightarrow> True | Some p \<Rightarrow> p \<notin> set full) \<and> dependency_ready t q)"

definition claim_candidate :: "string \<Rightarrow> string list \<Rightarrow> queue \<Rightarrow> string option" where
  "claim_candidate media full q =
     (case sort_key t_queued_at (filter (claimable media full q) (q_tasks q)) of
        [] \<Rightarrow> None
      | t # _ \<Rightarrow> Some (t_id t))"

definition has_status :: "string \<Rightarrow> task_status list \<Rightarrow> task \<Rightarrow> bool" where
  "has_status tid sts t = (t_id t = tid \<and> t_status t \<in> set sts)"

definition claim_next :: "int \<Rightarrow> string \<Rightarrow> string list \<Rightarrow> queue \<Rightarrow> queue \<Rightarrow> task_dict option \<times> queue" where
  "claim_next now media full seen q =
     (case claim_candidate media full seen of
        None \<Rightarrow> (None, q)
      | Some tid \<Rightarrow>
          if rows_where (has_status tid [Queued]) q = 0 then (None, q)
          else (let q1 = update_where (has_status tid [Queued])
                      (\<lambda>t. t\<lparr>t_status := Running, t_started_at := Some now, t_updated_at := now\<rparr>) q
                in (map_option task_to_dict (find_task tid q1), q1)))"

section \<open>Ends of tasks\<close>

text \<open>
  A guarded transition of one task: the rows affected, and the queue after it with the terminal
  event of the task as it now is.
\<close>

definition transition :: "string \<Rightarrow> task_status list \<Rightarrow> (task \<Rightarrow> task) \<Rightarrow> queue \<Rightarrow> nat \<times> queue" where
  "transition tid from f q =
     (let n = rows_where (has_status tid from) q; q1 = update_where (has_status tid from) f q
      in if n = 0 then (0, q)
         else (n, case find_task tid q1 of None \<Rightarrow> q1 | Some t \<Rightarrow> record_terminal_event t (t_status t) q1))"

definition mark_succeeded :: "int \<Rightarrow> string \<Rightarrow> (string \<times> json) list \<Rightarrow> queue \<Rightarrow> nat \<times> queue" where
  "mark_succeeded now tid outcome q =
     transition tid [Running]
       (\<lambda>t. t\<lparr>t_status := Succeeded, t_result_json := Some (json_dumps (JObj outcome)), t_error := None,
              t_finished_at := Some now, t_updated_at := now\<rparr>) q"

definition failed_with :: "int \<Rightarrow> string \<Rightarrow> task \<Rightarrow> task" where
  "failed_with now msg t =
     t\<lparr>t_status := Failed, t_error := Some (bound_reason msg max_error_message_len),
       t_finished_at := Some now, t_updated_at := now\<rparr>"

definition cancelled_with :: "int \<Rightarrow> string \<Rightarrow> task \<Rightarrow> task" where
  "cancelled_with now by_whom t =
     t\<lparr>t_status := Cancelled, t_cancelled_by := Some by_whom, t_finished_at := Some now, t_updated_at := now\<rparr>"

definition mark_failed_running :: "int \<Rightarrow> string \<Rightarrow> string \<Rightarrow> queue \<Rightarrow> nat \<times> queue" where
  "mark_failed_running now tid msg q = transition tid [Running] (failed_with now msg) q"

definition mark_failed_queued_dep :: "int \<Rightarrow> string \<Rightarrow> string \<Rightarrow> queue \<Rightarrow> nat \<times> queue" where
  "mark_failed_queued_dep now tid msg q = transition tid [Queued] (failed_with now msg) q"

definition queued_dependents :: "string \<Rightarrow> queue \<Rightarrow> task list" where
  "queued_dependents tid q =
     sort_key t_queued_at (filter (\<lambda>t. t_dependency t = Some tid \<and> t_status t = Queued) (q_tasks q))"

definition waiting_tasks :: "queue \<Rightarrow> nat" where
  "waiting_tasks q = rows_where (\<lambda>t. t_status t = Queued) q"

lemma rows_where_map_le:
  assumes "\<And>t. t \<in> set ts \<Longrightarrow> Q (g t) \<Longrightarrow> Q t"
  shows "length (filter Q (map g ts)) \<le> length (filter Q ts)"
  using assms by (induction ts) auto

lemma rows_where_map_less:
  assumes "\<And>t. t \<in> set ts \<Longrightarrow> Q (g t) \<Longrightarrow> Q t" and "u \<in> set ts" "Q u" "\<not> Q (g u)"
  shows "length (filter Q (map g ts)) < length (filter Q ts)"
  using assms
proof (induction ts)
  case Nil
  then show ?case by simp
next
  case (Cons t ts)
  show ?case
  proof (cases "u = t")
    case True
    then show ?thesis using Cons.prems rows_where_map_le [of ts Q g] by (auto simp: less_Suc_eq_le)
  next
    case False
    then show ?thesis using Cons by auto
  qed
qed

lemma transition_tasks:
  "q_tasks (snd (transition tid from f q)) = map (\<lambda>t. if has_status tid from t then f t else t) (q_tasks q)"
proof (cases "rows_where (has_status tid from) q = 0")
  case True
  then have "\<And>t. t \<in> set (q_tasks q) \<Longrightarrow> \<not> has_status tid from t"
    by (auto simp: rows_where_def filter_empty_conv)
  then show ?thesis using True by (simp add: transition_def map_idI Let_def)
next
  case False
  then show ?thesis
    by (simp add: transition_def update_where_def record_terminal_event_def Let_def split: option.splits)
qed

lemma transition_waits:
  assumes "fst (transition tid [Queued] f q) \<noteq> 0" "\<And>t. t_status (f t) \<noteq> Queued"
  shows "waiting_tasks (snd (transition tid [Queued] f q)) < waiting_tasks q"
proof -
  have "rows_where (has_status tid [Queued]) q \<noteq> 0"
    using assms(1) by (auto simp: transition_def Let_def split: if_splits)
  then obtain u where u: "u \<in> set (q_tasks q)" "has_status tid [Queued] u"
    by (auto simp: rows_where_def filter_empty_conv)
  show ?thesis
    unfolding waiting_tasks_def rows_where_def transition_tasks
    using u assms(2) by (intro rows_where_map_less [of _ _ _ u]) (auto simp: has_status_def split: if_splits)
qed

text \<open>
  The cascade over the queued dependents, depth first: \<open>todo\<close> holds the tasks still to visit with
  the task each one waits for. Every visit that changes a task leaves fewer of them queued.
\<close>

definition parented :: "string \<Rightarrow> queue \<Rightarrow> (string \<times> string) list" where
  "parented tid q = map (\<lambda>t. (tid, t_id t)) (queued_dependents tid q)"

function cascade_failed_from :: "int \<Rightarrow> string \<Rightarrow> (string \<times> string) list \<Rightarrow> queue \<Rightarrow> nat \<times> queue" where
  "cascade_failed_from now msg [] q = (0, q)"
| "cascade_failed_from now msg ((parent, dep) # todo) q =
     (let (affected, q1) = mark_failed_queued_dep now dep (encode_bounded_cascade_failure parent msg) q
      in if affected = 0 then cascade_failed_from now msg todo q
         else let (n, q2) = cascade_failed_from now msg (parented dep q1 @ todo) q1 in (affected + n, q2))"
  by pat_completeness auto
termination
proof (relation "measures [\<lambda>(now, msg, todo, q). waiting_tasks q, \<lambda>(now, msg, todo, q). length todo]", goal_cases)
  case (3 now msg parent dep todo q x affected q1)
  have "waiting_tasks (snd (mark_failed_queued_dep now dep (encode_bounded_cascade_failure parent msg) q)) < waiting_tasks q"
    using 3 unfolding mark_failed_queued_dep_def
    by (intro transition_waits) (auto simp: failed_with_def dest: arg_cong [where f = fst])
  moreover have "q1 = snd (mark_failed_queued_dep now dep (encode_bounded_cascade_failure parent msg) q)"
    using 3 by (metis snd_conv)
  ultimately show ?case by simp
qed simp_all

definition cascade_failed_queued :: "int \<Rightarrow> string \<Rightarrow> string \<Rightarrow> queue \<Rightarrow> nat \<times> queue" where
  "cascade_failed_queued now tid msg q = cascade_failed_from now msg (parented tid q) q"

definition mark_failed :: "int \<Rightarrow> string \<Rightarrow> string \<Rightarrow> queue \<Rightarrow> nat \<times> queue" where
  "mark_failed now tid msg q =
     (let (affected, q1) = mark_failed_running now tid msg q
      in if affected = 0 then (0, q) else (affected, snd (cascade_failed_queued now tid msg q1)))"

definition artifact_failure_code :: string where
  "artifact_failure_code = ''artifact_download_failed''"

definition truthy :: "string option \<Rightarrow> bool" where
  "truthy x = (coalesce x \<noteq> [])"

definition retry_eligible :: "task \<Rightarrow> bool" where
  "retry_eligible t =
     (t_status t = Failed \<and> map_option fst (parse_failure (coalesce (t_error t))) = Some artifact_failure_code \<and>
      truthy (t_provider_job t) \<and> truthy (t_provider t))"

definition settleable_call :: "string \<Rightarrow> api_call \<Rightarrow> bool" where
  "settleable_call tid c = (c_task c = Some tid \<and> c_status c \<in> {Call_failed, Call_pending})"

text \<open>The call row with the greatest id: \<open>order_by(ApiCall.id.desc()).limit(1)\<close>.\<close>

definition latest_call :: "string \<Rightarrow> queue \<Rightarrow> int option" where
  "latest_call tid q =
     (case rev (sort (map c_id (filter (settleable_call tid) (q_calls q)))) of [] \<Rightarrow> None | k # _ \<Rightarrow> Some k)"

definition reopen_call :: "int \<Rightarrow> api_call \<Rightarrow> api_call" where
  "reopen_call k c =
     (if c_id c = k \<and> c_status c \<in> {Call_failed, Call_pending}
      then c\<lparr>c_status := Call_pending, c_finished_at := None, c_error_message := None, c_error_code := None,
             c_error_params := None\<rparr>
      else c)"

definition retry_artifact_download :: "int \<Rightarrow> string \<Rightarrow> queue \<Rightarrow> queue \<Rightarrow> task_error + task_dict \<times> queue" where
  "retry_artifact_download now tid seen q =
     (case find_task tid seen of
        None \<Rightarrow> Inl Task_value_error
      | Some t \<Rightarrow>
          if \<not> retry_eligible t then Inl Task_value_error
          else (case latest_call tid seen of
             None \<Rightarrow> Inl Task_value_error
           | Some k \<Rightarrow>
               if length (filter (\<lambda>c. c_id c = k \<and> c_status c \<in> {Call_failed, Call_pending}) (q_calls q)) \<noteq> 1
               then Inl Task_value_error
               else (let q1 = q\<lparr>q_calls := map (reopen_call k) (q_calls q)\<rparr>;
                         restart = (\<lambda>t. t\<lparr>t_status := Running, t_error := None, t_finished_at := None,
                                         t_started_at := Some now, t_updated_at := now\<rparr>)
                     in case filter (has_status tid [Failed]) (q_tasks q1) of
                          [u] \<Rightarrow>
                            if \<not> index_allows (restart u) (q_tasks q1) then Inl Integrity_error
                            else Inr (task_to_dict (restart u), update_where (has_status tid [Failed]) restart q1)
                        | _ \<Rightarrow> Inl Task_value_error)))"

section \<open>Cancelling\<close>

text \<open>
  The queued tasks behind a task, each before the ones behind it. The code recurses without a bound;
  the fuel is one more than the depth it may reach, and \<open>None\<close> stands for a recursion deeper than
  that.
\<close>

fun collect_queued_dependents :: "nat \<Rightarrow> string \<Rightarrow> queue \<Rightarrow> task list option" where
  "collect_queued_dependents 0 tid q = None"
| "collect_queued_dependents (Suc n) tid q =
     map_option concat (those (map
       (\<lambda>d. map_option (\<lambda>ds. d # ds) (collect_queued_dependents n (t_id d) q)) (queued_dependents tid q)))"

definition get_cancel_preview :: "nat \<Rightarrow> string \<Rightarrow> queue \<Rightarrow> task_error + (task \<times> task list) option" where
  "get_cancel_preview fuel tid q =
     (case find_task tid q of
        None \<Rightarrow> Inl Task_value_error
      | Some t \<Rightarrow>
          if t_status t = Running then Inl (Task_not_cancellable tid)
          else Inr (map_option (\<lambda>ds. (t, ds)) (collect_queued_dependents fuel tid q)))"

text \<open>The cascade of \<open>_mark_cancelled\<close>: the tasks cancelled, in the order in which they are.\<close>

function cascade_cancelled_from :: "int \<Rightarrow> string list \<Rightarrow> queue \<Rightarrow> task_dict list \<times> queue" where
  "cascade_cancelled_from now [] q = ([], q)"
| "cascade_cancelled_from now (tid # todo) q =
     (let (affected, q1) = transition tid [Queued] (cancelled_with now ''cascade'') q
      in if affected = 0 then cascade_cancelled_from now todo q
         else let (ds, q2) = cascade_cancelled_from now (map t_id (queued_dependents tid q1) @ todo) q1
              in (map task_to_dict (filter (\<lambda>t. t_id t = tid) (q_tasks q1)) @ ds, q2))"
  by pat_completeness auto
termination
proof (relation "measures [\<lambda>(now, todo, q). waiting_tasks q, \<lambda>(now, todo, q). length todo]", goal_cases)
  case (3 now tid todo q x affected q1)
  have "waiting_tasks (snd (transition tid [Queued] (cancelled_with now ''cascade'') q)) < waiting_tasks q"
    using 3 by (intro transition_waits) (auto simp: cancelled_with_def dest: arg_cong [where f = fst])
  moreover have "q1 = snd (transition tid [Queued] (cancelled_with now ''cascade'') q)"
    using 3 by (metis snd_conv)
  ultimately show ?case by simp
qed simp_all

definition mark_cancelled ::
    "int \<Rightarrow> string \<Rightarrow> string \<Rightarrow> task_status list \<Rightarrow> queue \<Rightarrow> (task_dict list \<times> queue) option" where
  "mark_cancelled now tid by_whom from q =
     (let (affected, q1) = transition tid from (cancelled_with now by_whom) q
      in if affected = 0 then None
         else let (ds, q2) = cascade_cancelled_from now (map t_id (queued_dependents tid q1)) q1
              in Some (map task_to_dict (filter (\<lambda>t. t_id t = tid) (q_tasks q1)) @ ds, q2))"

definition is_terminal :: "task \<Rightarrow> bool" where
  "is_terminal t = (t_status t \<in> set terminal_task_statuses)"

text \<open>The tasks cancelled and the tasks skipped because they had ended.\<close>

definition cancel_task ::
    "int \<Rightarrow> string \<Rightarrow> queue \<Rightarrow> queue \<Rightarrow> task_error + (task_dict list \<times> task_dict list) \<times> queue" where
  "cancel_task now tid seen q =
     (case find_task tid seen of
        None \<Rightarrow> Inl Task_value_error
      | Some t \<Rightarrow>
          if is_terminal t then Inr (([], [task_to_dict t]), q)
          else (case mark_cancelled now tid ''user'' [Queued] q of
                  Some (ds, q1) \<Rightarrow> Inr ((ds, []), q1)
                | None \<Rightarrow>
                    (case find_task tid q of
                       Some u \<Rightarrow>
                         if is_terminal u then Inr (([], [task_to_dict u]), q) else Inl (Task_not_cancellable tid)
                     | None \<Rightarrow> Inl Task_value_error)))"

definition finalize_interrupted :: "int \<Rightarrow> string \<Rightarrow> queue \<Rightarrow> nat \<times> queue" where
  "finalize_interrupted now tid q =
     (case mark_cancelled now tid ''interrupted'' [Queued, Running] q of
        None \<Rightarrow> (0, q)
      | Some (_, q1) \<Rightarrow> (1, q1))"

definition cancellable_in :: "string \<Rightarrow> string list \<Rightarrow> task \<Rightarrow> bool" where
  "cancellable_in project excluded t =
     (t_project t = project \<and> t_status t = Queued \<and> t_media t \<notin> set excluded)"

definition get_cancel_all_preview :: "string \<Rightarrow> string list \<Rightarrow> queue \<Rightarrow> nat" where
  "get_cancel_all_preview project excluded q = rows_where (cancellable_in project excluded) q"

definition cancel_all_queued :: "int \<Rightarrow> string \<Rightarrow> string list \<Rightarrow> queue \<Rightarrow> queue \<Rightarrow> (nat \<times> nat) \<times> queue" where
  "cancel_all_queued now project excluded seen q =
     (let ids = map t_id (filter (cancellable_in project excluded) (q_tasks seen));
          hit = (\<lambda>t. t_id t \<in> set ids \<and> t_status t = Queued);
          count = rows_where hit q;
          q1 = update_where hit (cancelled_with now ''user'') q;
          q2 = fold (\<lambda>t. record_terminal_event (t\<lparr>t_project := project\<rparr>) Cancelled)
                 (filter (\<lambda>t. t_id t \<in> set ids \<and> t_status t = Cancelled) (q_tasks q1)) q1
      in if ids = [] then ((0, 0), q) else ((count, length ids - count), q2))"

section \<open>Running tasks\<close>

definition persist_provider_job_id ::
    "int \<Rightarrow> string \<Rightarrow> string \<Rightarrow> string option \<Rightarrow> string option \<Rightarrow> queue \<Rightarrow> queue" where
  "persist_provider_job_id now tid job endpoint base_url q =
     update_where (\<lambda>t. t_id t = tid)
       (\<lambda>t. t\<lparr>t_provider_job := Some job, t_updated_at := now,
              t_provider_endpoint := (if endpoint = None then t_provider_endpoint t else endpoint),
              t_base_url := (if base_url = None then t_base_url t else base_url)\<rparr>) q"

definition may_checkpoint :: "string \<Rightarrow> task \<Rightarrow> bool" where
  "may_checkpoint tid t =
     (t_id t = tid \<and> t_type t \<in> {''video'', ''reference_video''} \<and> t_status t = Running \<and>
      t_checkpoint t = None \<and> t_provider_job t = None)"

definition persist_execution_checkpoint ::
    "int \<Rightarrow> string \<Rightarrow> string \<Rightarrow> string \<Rightarrow> queue \<Rightarrow> task_error + queue" where
  "persist_execution_checkpoint now tid checkpoint provider q =
     (if rows_where (may_checkpoint tid) q \<noteq> 1 then Inl Task_value_error
      else Inr (update_where (may_checkpoint tid)
             (\<lambda>t. t\<lparr>t_checkpoint := Some checkpoint, t_provider := Some provider, t_updated_at := now\<rparr>) q))"

definition persist_execution_provider_id :: "int \<Rightarrow> string \<Rightarrow> string \<Rightarrow> queue \<Rightarrow> queue" where
  "persist_execution_provider_id now tid provider q =
     update_where (\<lambda>t. t_id t = tid) (\<lambda>t. t\<lparr>t_provider := Some provider, t_updated_at := now\<rparr>) q"

definition running_tasks :: "queue \<Rightarrow> task list" where
  "running_tasks q = sort_key t_updated_at (filter (\<lambda>t. t_status t = Running) (q_tasks q))"

definition list_orphan_tasks_on_start :: "queue \<Rightarrow> task_dict list" where
  "list_orphan_tasks_on_start q = map task_to_dict (running_tasks q)"

definition requeue_running :: "int \<Rightarrow> int \<Rightarrow> queue \<Rightarrow> queue \<Rightarrow> nat \<times> queue" where
  "requeue_running now limit seen q =
     (let ids = map t_id (take (nat (max 1 (min 5000 limit))) (running_tasks seen));
          q1 = update_where (\<lambda>t. t_id t \<in> set ids \<and> t_status t = Running)
                 (\<lambda>t. t\<lparr>t_status := Queued, t_started_at := None, t_finished_at := None, t_updated_at := now,
                        t_result_json := None, t_error := None\<rparr>) q
      in if ids = [] then (0, q)
         else (rows_where (\<lambda>t. t_id t \<in> set ids \<and> t_status t = Queued) q1, q1))"

text \<open>The worker puts one task it has claimed back (\<open>_requeue_single_task\<close> of \<open>generation_worker.py\<close>).\<close>

definition requeue_single_task :: "int \<Rightarrow> string \<Rightarrow> queue \<Rightarrow> nat \<times> queue" where
  "requeue_single_task now tid q =
     (rows_where (has_status tid [Running]) q,
      update_where (has_status tid [Running])
        (\<lambda>t. t\<lparr>t_status := Queued, t_started_at := None, t_updated_at := now\<rparr>) q)"

section \<open>Lists and counts\<close>

definition get_task :: "string \<Rightarrow> queue \<Rightarrow> task_dict option" where
  "get_task tid q = map_option task_to_dict (find_task tid q)"

definition status_name :: "task_status \<Rightarrow> string" where
  "status_name st =
     (case st of Queued \<Rightarrow> ''queued'' | Running \<Rightarrow> ''running'' | Succeeded \<Rightarrow> ''succeeded''
      | Failed \<Rightarrow> ''failed'' | Cancelled \<Rightarrow> ''cancelled'')"

definition passes :: "string option \<Rightarrow> string \<Rightarrow> bool" where
  "passes wanted x = (\<not> truthy wanted \<or> wanted = Some x)"

record task_page =
  tp_items :: "task_dict list"
  tp_total :: nat
  tp_page :: int
  tp_page_size :: int

definition list_tasks ::
    "string option \<Rightarrow> string option \<Rightarrow> string option \<Rightarrow> string option \<Rightarrow> int \<Rightarrow> int \<Rightarrow> queue \<Rightarrow> task_page" where
  "list_tasks project status type source page0 size0 q =
     (let page = max 1 page0;
          size = max 1 (min 500 size0);
          rows = filter (\<lambda>t. passes project (t_project t) \<and> passes status (status_name (t_status t)) \<and>
                   passes type (t_type t) \<and> passes source (t_source t)) (q_tasks q);
          sorted = sort_key (\<lambda>t. (- t_updated_at t, - t_queued_at t)) rows
      in \<lparr>tp_items = map task_to_dict (take (nat size) (drop (nat ((page - 1) * size)) sorted)),
          tp_total = length rows, tp_page = page, tp_page_size = size\<rparr>)"

definition all_statuses :: "task_status list" where
  "all_statuses = [Queued, Running, Succeeded, Failed, Cancelled]"

definition get_stats :: "string option \<Rightarrow> queue \<Rightarrow> (string \<times> nat) list" where
  "get_stats project q =
     (let rows = filter (\<lambda>t. passes project (t_project t)) (q_tasks q)
      in map (\<lambda>st. (status_name st, length (filter (\<lambda>t. t_status t = st) rows))) all_statuses
         @ [(''total'', length rows)])"

section \<open>Terminal events as project changes\<close>

text \<open>
  \<open>lib/generation/task_terminal_events.py\<close>: the change that a terminal event is published as, and
  the batches, one per project in the order of its first event. A batch that cannot be published is
  dropped; the bus itself is not modelled.
\<close>

record task_change =
  ch_entity_type :: string
  ch_action :: string
  ch_entity_id :: string
  ch_label :: string
  ch_focus :: "string option"
  ch_important :: bool
  ch_task_type :: string

definition status_actions :: "(string \<times> string) list" where
  "status_actions =
     [(''succeeded'', ''task_succeeded''), (''failed'', ''task_failed''), (''cancelled'', ''task_cancelled'')]"

definition build_task_terminal_change :: "terminal_event \<Rightarrow> task_change option" where
  "build_task_terminal_change e =
     (case map_of status_actions (status_name (e_status e)) of
        None \<Rightarrow> None
      | Some action \<Rightarrow>
          if e_task e = [] then None
          else Some \<lparr>ch_entity_type = ''task'', ch_action = action, ch_entity_id = e_task e, ch_label = e_task e,
                 ch_focus = None, ch_important = False, ch_task_type = e_type e\<rparr>)"

fun group_changes :: "terminal_event list \<Rightarrow> (string \<times> task_change list) list \<Rightarrow> (string \<times> task_change list) list" where
  "group_changes [] groups = groups"
| "group_changes (e # es) groups =
     (case build_task_terminal_change e of
        None \<Rightarrow> group_changes es groups
      | Some c \<Rightarrow>
          if e_project e = [] then group_changes es groups
          else group_changes es (AList.update (e_project e)
                 ((case map_of groups (e_project e) of None \<Rightarrow> [] | Some cs \<Rightarrow> cs) @ [c]) groups))"

definition emit_task_terminal_events :: "terminal_event list \<Rightarrow> (string \<times> task_change list) list" where
  "emit_task_terminal_events es = group_changes es []"

end
