(* ===== verification/Failure_Laws.thy ===== *)
theory Failure_Laws
  imports Task_Failure "HOL-Library.Sublist"
begin

text \<open>
  The laws of stored failure reasons: a bounded reason fits the column and stays readable, an
  envelope reads back, and the reason of a blocked task names the first cause however long the chain.
\<close>

section \<open>Reading an envelope back\<close>

definition word_name :: "string \<Rightarrow> bool" where
  "word_name k = (k \<noteq> [] \<and> list_all is_word k)"

lemma word_name_Cons: "word_name (c # k) = (is_word c \<and> list_all is_word k)"
  by (simp add: word_name_def)

lemma word_chars [simp]: "list_all is_word ''abcdefghijklmnopqrstuvwxyz_0123456789''"
  by (simp add: is_word_def)

lemmas is_word_char [simp] = word_chars [simplified]

lemma registered_words:
  "list_all word_name capability_failure_codes" "list_all word_name reference_projection_failure_codes"
  "list_all word_name generation_input_failure_codes" "list_all word_name video_request_facts_failure_codes"
  "list_all word_name (map fst other_failure_keys)"
  unfolding capability_failure_codes_def reference_projection_failure_codes_def
    generation_input_failure_codes_def video_request_facts_failure_codes_def other_failure_keys_def
  by (simp_all only: list.pred_inject list.map fst_conv word_name_Cons is_word_char simp_thms)

lemma known_code_words: "list_all (\<lambda>(k, _). word_name k) failure_code_keys"
  using registered_words unfolding failure_code_keys_def
  by (auto simp: list_all_iff)

lemma known_codeD:
  assumes "known_code code"
  shows "code \<noteq> [] \<and> list_all is_word code"
  using assms known_code_words unfolding known_code_def by (auto simp: list_ex_iff list_all_iff word_name_def)

lemma not_word_bracket: "\<not> is_word CHR '']''"
  by (simp add: is_word_def)

lemma takeWhile_word: "list_all is_word code \<Longrightarrow> takeWhile is_word (code @ CHR '']'' # t) = code"
  by (induction code) (auto simp: not_word_bracket)

lemma structured_code:
  assumes "list_all is_word code" "code \<noteq> []"
  shows "structured (''['' @ code @ '']'' @ t) = map_option (\<lambda>p. (code, p)) (structured_params t)"
  using assms by (simp add: structured_def takeWhile_word Let_def)

lemma structured_params_obj:
  "structured_params ('' '' @ dumps (JObj kvs)) = Some (Some (dumps (JObj kvs)))"
  by (simp add: structured_params_def Let_def)

lemma sort_keys_obj: "sort_keys (JObj kvs) = JObj (sort_key fst (map (\<lambda>(k, v). (k, sort_keys v)) kvs))"
  by simp

definition stored_params :: "(string \<times> json) list \<Rightarrow> (string \<times> json) list" where
  "stored_params params = sort_key fst (map (\<lambda>(k, v). (k, sort_keys v)) params)"

lemma parse_failure_text:
  assumes code: "known_code code" and ok: "json_ok (JObj params)"
  shows "parse_failure (failure_text code params) = Some (code, stored_params params)"
proof -
  have w: "list_all is_word code" "code \<noteq> []" using known_codeD [OF code] by auto
  show ?thesis
  proof (cases "params = []")
    case True
    then show ?thesis
      using structured_code [OF w, of "[]"] code
      by (simp add: parse_failure_def failure_text_def structured_params_def stored_params_def)
  next
    case False
    have l: "loads (dumps_sorted (JObj params)) = Some (JObj (stored_params params))"
      using loads_dumps_sorted [OF ok] by (simp only: sort_keys_obj stored_params_def)
    have "structured (failure_text code params) = Some (code, Some (dumps_sorted (JObj params)))"
      using structured_code [OF w, of "'' '' @ dumps_sorted (JObj params)"] False
      by (simp only: failure_text_def dumps_sorted_def sort_keys_obj structured_params_obj option.map if_False)
    then show ?thesis using code l by (simp add: parse_failure_def)
  qed
qed

text \<open>
  encoding refuses a code that is not registered; what it returns for a registered one parses to
  the same code and the same parameters, in the order of their names.
\<close>

theorem encode_failure_reads_back:
  assumes "json_ok (JObj params)"
  shows "case encode_failure code params of
      Inl e \<Rightarrow> e = Unknown_code code \<and> \<not> known_code code
    | Inr s \<Rightarrow> known_code code \<and> parse_failure s = Some (code, stored_params params)"
  using parse_failure_text [OF _ assms] by (simp add: encode_failure_def)

section \<open>Shortening keeps the envelope\<close>

definition keeps_ok :: "(json \<Rightarrow> json) \<Rightarrow> bool" where
  "keeps_ok f = (\<forall>v. json_ok v \<longrightarrow> json_ok (f v))"

definition keeps_obj :: "((string \<times> json) list \<Rightarrow> (string \<times> json) list) \<Rightarrow> bool" where
  "keeps_obj f = (\<forall>kvs. json_ok (JObj kvs) \<longrightarrow> json_ok (JObj (f kvs)))"

lemma upd_member_ok: "keeps_ok f \<Longrightarrow> keeps_obj (upd_member k f)"
  unfolding keeps_ok_def keeps_obj_def upd_member_def
  by (auto simp: list_all_iff comp_def case_prod_beta)

lemma in_obj_ok: "keeps_obj f \<Longrightarrow> keeps_ok (in_obj f)"
  unfolding keeps_ok_def keeps_obj_def in_obj_def by (auto split: json.splits)

lemma in_arr_set_at_ok: "keeps_ok f \<Longrightarrow> keeps_ok (in_arr (set_at i f))"
  unfolding keeps_ok_def in_arr_def set_at_def
  by (auto split: json.splits simp: list_all_iff dest!: subsetD [OF set_update_subset_insert])

lemma put_text_ok: "keeps_obj (put_text pt)"
proof -
  have str: "keeps_ok (\<lambda>_. JStr t)" for t by (simp add: keeps_ok_def)
  obtain p t where pt: "pt = (p, t)" by (cases pt)
  show ?thesis
    unfolding pt put_text_def
    by (cases p) (simp_all add: upd_member_ok in_obj_ok in_arr_set_at_ok str)
qed

lemma fill_ok: "json_ok (JObj params) \<Longrightarrow> json_ok (JObj (fill params places texts))"
proof -
  have "json_ok (JObj params) \<Longrightarrow> json_ok (JObj (fold put_text pts params))" for pts
    using put_text_ok unfolding keeps_obj_def by (induction pts arbitrary: params) auto
  then show "json_ok (JObj params) \<Longrightarrow> ?thesis" by (simp add: fill_def)
qed

text \<open>
  What a run of the shortening ends with: either texts that are prefixes of the first ones and whose
  encoding fits, or all texts are empty and their encoding still does not fit.
\<close>

lemma shrink_texts_Some:
  assumes "shrink_texts encode limit ts = Some r"
  shows "length r \<le> limit \<and> (\<exists>us. list_all2 prefix us ts \<and> r = encode us)"
  using assms
proof (induction encode limit ts rule: shrink_texts.induct)
  case (1 encode limit ts)
  define d where "d = length (encode ts) - limit"
  define current where "current = ts ! longest ts"
  show ?case
  proof (cases "length (encode ts) \<le> limit \<or> ts = [] \<or> current = []")
    case True
    then have "length (encode ts) \<le> limit" "r = encode ts"
      using "1.prems" by (auto simp: Let_def current_def shrink_texts.simps [of encode limit ts] split: if_splits)
    then show ?thesis by (auto intro!: exI [of _ ts] list_all2_refl)
  next
    case False
    then have "shrink_texts encode limit (ts[longest ts := shortened d current]) = Some r"
      using "1.prems" by (simp add: shrink_texts.simps [of encode limit ts] Let_def d_def current_def)
    then have "length r \<le> limit \<and> (\<exists>us. list_all2 prefix us (ts[longest ts := shortened d current]) \<and> r = encode us)"
      using "1.IH" [OF refl refl refl] False by (simp add: d_def current_def)
    moreover have "prefix (shortened d current) current" by (simp add: shortened_def Let_def take_is_prefix)
    then have "list_all2 prefix (ts[longest ts := shortened d current]) ts"
      unfolding current_def by (simp add: list_all2_conv_all_nth)
        (metis nth_list_update_eq nth_list_update_neq prefix_order.refl)
    moreover have "list_all2 prefix us vs \<Longrightarrow> list_all2 prefix vs ws \<Longrightarrow> list_all2 prefix us ws" for us vs ws :: "string list"
      by (rule list_all2_trans [where ?P1.0 = prefix and ?P2.0 = prefix]) (auto intro: prefix_order.trans)
    ultimately show ?thesis by blast
  qed
qed

lemma shrink_texts_None:
  assumes "shrink_texts encode limit ts = None"
  shows "limit < length (encode (map (\<lambda>_. []) ts))"
  using assms
proof (induction encode limit ts rule: shrink_texts.induct)
  case (1 encode limit ts)
  define d where "d = length (encode ts) - limit"
  define current where "current = ts ! longest ts"
  have big: "\<not> length (encode ts) \<le> limit"
    using "1.prems" by (auto simp: Let_def shrink_texts.simps [of encode limit ts] split: if_splits)
  show ?case
  proof (cases "ts = [] \<or> current = []")
    case True
    then have "t = []" if "t \<in> set ts" for t
      using longest_greatest [OF that] that by (auto simp: current_def)
    then have "map (\<lambda>_. []) ts = ts" by (induction ts) auto
    then show ?thesis using big by simp
  next
    case False
    then have "shrink_texts encode limit (ts[longest ts := shortened d current]) = None"
      using "1.prems" big by (simp add: shrink_texts.simps [of encode limit ts] Let_def d_def current_def)
    then have "limit < length (encode (map (\<lambda>_. []) (ts[longest ts := shortened d current])))"
      using "1.IH" [OF refl refl refl] big False by (simp add: d_def current_def)
    then show ?thesis by (simp add: map_update list_update_same_conv map_replicate_const)
  qed
qed

lemma parse_failureD:
  assumes "parse_failure s = Some (code, params)"
  shows "known_code code \<and>
    ((structured s = Some (code, None) \<and> params = []) \<or>
     (\<exists>raw. structured s = Some (code, Some raw) \<and> loads raw = Some (JObj params)))"
  using assms by (auto simp: parse_failure_def split: option.splits if_splits json.splits)

lemma no_places_without_params: "shrinkable_places code [] = []"
  by (simp add: shrinkable_places_def prepared_params_def shrink_values_def gaps_of_def json_get_def
      validation_message_def string_places_def Let_def)

text \<open>A bounded reason is never longer than its limit, whatever the reason is.\<close>

theorem bound_reason_within: "length (bound_reason reason limit) \<le> limit"
  by (auto simp: bound_reason_def Let_def dest: shrink_texts_Some split: option.splits json.splits prod.splits)

text \<open>
  C13: a structured reason that is too long is bounded to one that still parses, with the same code
  and the same parameters, in which the texts that may be shortened are prefixes of what they were;
  only an envelope that does not fit with all of them empty is cut as raw text.
\<close>

theorem bound_reason_readable:
  assumes long: "limit < length reason"
    and parsed: "parse_failure reason = Some (code, params)"
    and ok: "json_ok (JObj (prepared_params code params))"
    and some: "shrinkable_places code params \<noteq> []"
    and room: "length (failure_text code (fill (prepared_params code params)
                 (map fst (shrinkable_places code params)) (map (\<lambda>_. []) (shrinkable_places code params)))) \<le> limit"
  shows "\<exists>texts. list_all2 prefix texts (map snd (shrinkable_places code params)) \<and>
    parse_failure (bound_reason reason limit)
      = Some (code, stored_params (fill (prepared_params code params) (map fst (shrinkable_places code params)) texts))"
proof -
  let ?enc = "\<lambda>ts. failure_text code (fill (prepared_params code params) (map fst (shrinkable_places code params)) ts)"
  let ?ts = "map snd (shrinkable_places code params)"
  obtain raw where raw: "structured reason = Some (code, Some raw)" "loads raw = Some (JObj params)"
    and known: "known_code code"
    using parse_failureD [OF parsed] some no_places_without_params by auto
  obtain r where r: "shrink_texts ?enc limit ?ts = Some r"
    using shrink_texts_None [of ?enc limit ?ts] room by (cases "shrink_texts ?enc limit ?ts") (auto simp: comp_def)
  obtain us where us: "list_all2 prefix us ?ts" "r = ?enc us" using shrink_texts_Some [OF r] by blast
  have "bound_reason reason limit = r"
    using long raw known some r by (simp add: bound_reason_def Let_def)
  then show ?thesis using us parse_failure_text [OF known fill_ok [OF ok]] by auto
qed

section \<open>The reason of a blocked task\<close>

lemma known_cascade: "known_code cascade_failure_code"
  by (simp add: known_code_def cascade_failure_code_def failure_code_keys_def other_failure_keys_def)

lemma parse_cascade_text:
  "parse_failure (cascade_text dep r)
     = Some (cascade_failure_code, [(''dependency_task_id'', JStr dep), (''reason'', JStr r)])"
proof -
  have "stored_params [(''dependency_task_id'', JStr dep), (''reason'', JStr r)]
      = [(''dependency_task_id'', JStr dep), (''reason'', JStr r)]"
    by (simp add: stored_params_def)
  then show ?thesis
    unfolding cascade_text_def by (subst parse_failure_text) (simp_all add: known_cascade)
qed

definition cascade_envelope :: "string \<Rightarrow> bool" where
  "cascade_envelope s = (case parse_failure s of Some (code, _) \<Rightarrow> code = cascade_failure_code | None \<Rightarrow> False)"

lemma collapse_from_text: "collapse_from left (cascade_text dep r) = (if left = 0 then r else collapse_from (left - 1) r)"
  by (subst collapse_from.simps) (simp add: parse_cascade_text)

lemma collapse_from_cause: "\<not> cascade_envelope s \<Longrightarrow> collapse_from left s = s"
  by (subst collapse_from.simps) (auto simp: cascade_envelope_def split: option.splits)

lemma collapse_chain:
  "\<not> cascade_envelope cause \<Longrightarrow> length deps \<le> Suc left \<Longrightarrow>
     collapse_from left (foldr cascade_text deps cause) = cause"
proof (induction deps arbitrary: left)
  case Nil
  then show ?case by (simp add: collapse_from_cause del: collapse_from.simps)
next
  case (Cons d deps)
  then show ?case
    by (cases left) (simp_all add: collapse_from_text del: collapse_from.simps)
qed

lemma cascade_rounds_text: "\<exists>r. cascade_rounds n dep reason budget = cascade_text dep r"
proof (induction n arbitrary: reason budget)
  case 0
  then show ?case by (subst cascade_rounds.simps) (auto simp: Let_def)
next
  case (Suc n)
  show ?case
    by (subst cascade_rounds.simps) (auto simp: Let_def simp del: cascade_rounds.simps intro: Suc.IH)
qed

lemma encode_bounded_cascade_text:
  "\<exists>r. encode_bounded_cascade_failure dep reason = cascade_text dep r"
  using cascade_rounds_text by (auto simp: encode_bounded_cascade_failure_def Let_def simp del: cascade_rounds.simps)

text \<open>
  C33: the reason of a task behind a chain of blocked tasks is always a readable cascade envelope. It
  names the task it waits for and, where that fits the column, the first cause itself: the chain in
  between, up to 101 envelopes, is gone.
\<close>

theorem blocked_reason_names_cause:
  assumes "\<not> cascade_envelope cause" and "length deps \<le> 101"
  shows "\<exists>r. parse_failure (encode_bounded_cascade_failure dep (foldr cascade_text deps cause))
      = Some (cascade_failure_code, [(''dependency_task_id'', JStr dep), (''reason'', JStr r)]) \<and>
    (length (cascade_text dep cause) \<le> max_error_message_len \<longrightarrow> r = cause)"
proof -
  have c: "collapse_cascade_reason (foldr cascade_text deps cause) = cause"
    using assms by (simp add: collapse_cascade_reason_def max_cascade_unwrap_def collapse_chain del: collapse_from.simps)
  show ?thesis
  proof (cases "length (cascade_text dep cause) \<le> max_error_message_len")
    case True
    then show ?thesis by (simp add: encode_bounded_cascade_failure_def c parse_cascade_text)
  next
    case False
    then show ?thesis
      using encode_bounded_cascade_text [of dep "foldr cascade_text deps cause"] parse_cascade_text by metis
  qed
qed

text \<open>What a blocked task stores is no other failure: its code can only read as the cascade's.\<close>

lemma parse_failure_code:
  assumes "list_all is_word code" "code \<noteq> []" "parse_failure (''['' @ code @ '']'' @ t) = Some (c, ps)"
  shows "c = code"
  using assms(3) structured_code [OF assms(1,2), of t]
  by (auto simp: parse_failure_def split: option.splits if_splits json.splits)

lemma bound_reason_head:
  assumes code: "known_code code" and len: "length code + 2 \<le> limit"
  shows "\<exists>u. bound_reason (''['' @ code @ '']'' @ t) limit = ''['' @ code @ '']'' @ u"
proof -
  have w: "list_all is_word code" "code \<noteq> []" using known_codeD [OF code] by auto
  have raw: "\<exists>u. take limit (''['' @ code @ '']'' @ t) = ''['' @ code @ '']'' @ u"
  proof -
    have "limit = Suc (length code + Suc (limit - length code - 2))" using len by simp
    then have "take limit (''['' @ code @ '']'' @ t) = ''['' @ code @ '']'' @ take (limit - length code - 2) t"
      by (metis (no_types, lifting) append_Cons append_Nil take_Suc_Cons take_add append_eq_conv_conj take_append diff_add_inverse)
    then show ?thesis by blast
  qed
  have enc: "\<exists>u. failure_text code ps = ''['' @ code @ '']'' @ u" for ps
    unfolding failure_text_def by blast
  have code': "c = code" if "structured (''['' @ code @ '']'' @ t) = Some (c, p)" for c p
    using that structured_code [OF w, of t] by (cases "structured_params t") auto
  show ?thesis
    using raw enc code' unfolding bound_reason_def Let_def
    by (auto split: option.splits json.splits prod.splits dest!: shrink_texts_Some)
qed

lemma blocked_task_code:
  assumes "parse_failure (bound_reason (encode_bounded_cascade_failure dep msg) max_error_message_len) = Some (c, ps)"
  shows "c = cascade_failure_code"
proof -
  obtain r where r: "encode_bounded_cascade_failure dep msg = cascade_text dep r"
    using encode_bounded_cascade_text by blast
  then obtain t where t: "encode_bounded_cascade_failure dep msg = ''['' @ cascade_failure_code @ '']'' @ t"
    unfolding cascade_text_def failure_text_def by blast
  have len: "length cascade_failure_code + 2 \<le> max_error_message_len"
    by (simp add: cascade_failure_code_def max_error_message_len_def)
  obtain u where "bound_reason (''['' @ cascade_failure_code @ '']'' @ t) max_error_message_len
      = ''['' @ cascade_failure_code @ '']'' @ u"
    using bound_reason_head [OF known_cascade len, of t] by blast
  then show ?thesis
    using assms known_codeD [OF known_cascade] parse_failure_code [of cascade_failure_code u c ps]
    unfolding t by metis
qed

section \<open>Instances\<close>

definition sample_reason_params :: "(string \<times> json) list" where
  "sample_reason_params = [(''detail'', JStr ''connection reset by the server''), (''status'', JInt 502)]"

definition sample_code :: string where
  "sample_code = ''artifact_download_failed''"

lemma known_sample_code: "known_code sample_code"
  by (simp add: known_code_def sample_code_def failure_code_keys_def other_failure_keys_def)

lemma parse_sample_reason:
  "parse_failure (failure_text sample_code sample_reason_params) = Some (sample_code, sample_reason_params)"
proof -
  have "stored_params sample_reason_params = sample_reason_params"
    by (simp add: stored_params_def sample_reason_params_def)
  moreover have "json_ok (JObj sample_reason_params)"
    by (simp add: sample_reason_params_def str_nat.simps max_int_digits_def)
  ultimately show ?thesis using parse_failure_text [OF known_sample_code] by metis
qed

lemma sample_prepared:
  "prepared_params sample_code sample_reason_params = sample_reason_params"
  "shrinkable_places sample_code sample_reason_params = [(Top ''detail'', ''connection reset by the server'')]"
proof -
  show p: "prepared_params sample_code sample_reason_params = sample_reason_params"
    by (simp add: prepared_params_def sample_reason_params_def shrink_values_def as_shrinkable_def
        validation_message_def json_get_def gaps_of_def Let_def)
  show "shrinkable_places sample_code sample_reason_params = [(Top ''detail'', ''connection reset by the server'')]"
    unfolding shrinkable_places_def p
    by (simp add: sample_reason_params_def validation_message_def json_get_def gaps_of_def string_places_def Let_def)
qed

lemma sample_reason_length:
  "length (failure_text sample_code sample_reason_params) = 86"
  "length (failure_text sample_code (fill sample_reason_params [Top ''detail''] [[]])) = 56"
  by (code_simp, code_simp)

lemma bound_reason_readable_witness:
  "\<exists>texts. list_all2 prefix texts [''connection reset by the server''] \<and>
     parse_failure (bound_reason (failure_text sample_code sample_reason_params) 60)
       = Some (sample_code, stored_params (fill sample_reason_params [Top ''detail''] texts))"
proof -
  have "json_ok (JObj sample_reason_params)"
    by (simp add: sample_reason_params_def str_nat.simps max_int_digits_def)
  then show ?thesis
    using bound_reason_readable [of 60 "failure_text sample_code sample_reason_params" sample_code sample_reason_params]
    by (simp only: parse_sample_reason sample_prepared sample_reason_length list.map fst_conv snd_conv) simp
qed

lemma blocked_reason_names_cause_witness:
  "\<exists>r. parse_failure (encode_bounded_cascade_failure ''t3'' (foldr cascade_text [''t2'', ''t1''] ''boom''))
      = Some (cascade_failure_code, [(''dependency_task_id'', JStr ''t3''), (''reason'', JStr r)]) \<and>
    (length (cascade_text ''t3'' ''boom'') \<le> max_error_message_len \<longrightarrow> r = ''boom'')"
  by (rule blocked_reason_names_cause) (simp_all add: cascade_envelope_def parse_failure_def structured_def)

lemma encode_failure_reads_back_witness:
  "case encode_failure sample_code sample_reason_params of
      Inl e \<Rightarrow> e = Unknown_code sample_code \<and> \<not> known_code sample_code
    | Inr s \<Rightarrow> known_code sample_code \<and> parse_failure s = Some (sample_code, stored_params sample_reason_params)"
  by (rule encode_failure_reads_back) (simp add: sample_reason_params_def str_nat.simps max_int_digits_def)

end
