(* ===== verification/Queue_Laws.thy ===== *)
theory Queue_Laws
  imports Task_Queue Failure_Laws
begin

text \<open>
  The laws of the task queue. Every operation is a sequence of small changes of the task table (a row
  is inserted, rows advance, a failed row is restarted); the invariants are proved for the small
  changes and hold in every state that sessions can reach together, each working from what it read
  earlier.
\<close>

section \<open>Small changes of the table\<close>

definition same_row :: "task \<Rightarrow> task \<Rightarrow> bool" where
  "same_row t t' =
     (t_id t' = t_id t \<and> t_dependency t' = t_dependency t \<and> dedupe_key t' = dedupe_key t)"

definition artifact_failure :: "task \<Rightarrow> bool" where
  "artifact_failure t = (map_option fst (parse_failure (coalesce (t_error t))) = Some artifact_failure_code)"

text \<open>What the columns of a row say together: the stamps, the result and the error fit the status.\<close>

definition row_ok :: "task \<Rightarrow> bool" where
  "row_ok t =
     (case t_status t of
        Queued \<Rightarrow> t_started_at t = None \<and> t_finished_at t = None
      | Running \<Rightarrow> t_started_at t \<noteq> None \<and> t_finished_at t = None
      | Succeeded \<Rightarrow> t_finished_at t \<noteq> None \<and> t_result_json t \<noteq> None \<and> t_error t = None
      | Failed \<Rightarrow> t_finished_at t \<noteq> None \<and> t_error t \<noteq> None
      | Cancelled \<Rightarrow> t_finished_at t \<noteq> None \<and> t_cancelled_by t \<noteq> None)"

definition status_step :: "queue \<Rightarrow> task \<Rightarrow> task \<Rightarrow> bool" where
  "status_step q t t' =
     (t_status t' = t_status t \<and> t_error t' = t_error t
      \<or> t_status t = Queued \<and> t_status t' = Running \<and> dependency_ready t q
      \<or> t_status t = Running \<and> t_status t' \<in> {Succeeded, Failed, Cancelled, Queued}
      \<or> t_status t = Queued \<and> t_status t' = Cancelled
      \<or> t_status t = Queued \<and> t_status t' = Failed \<and> \<not> artifact_failure t')"

definition advances :: "queue \<Rightarrow> task \<Rightarrow> task \<Rightarrow> bool" where
  "advances q t t' = (same_row t t' \<and> (row_ok t \<longrightarrow> row_ok t') \<and> status_step q t t')"

inductive small_step :: "queue \<Rightarrow> queue \<Rightarrow> bool" where
  Inserted: "q_tasks q' = q_tasks q @ [t] \<Longrightarrow> t_status t = Queued \<Longrightarrow> row_ok t \<Longrightarrow>
    t_id t \<notin> t_id ` set (q_tasks q) \<Longrightarrow> index_allows t (q_tasks q) \<Longrightarrow> small_step q q'"
| Advanced: "(\<And>t. t \<in> set (q_tasks q) \<Longrightarrow> advances q t (g t)) \<Longrightarrow>
    q_tasks q' = map g (q_tasks q) \<Longrightarrow> small_step q q'"
| Restarted: "t \<in> set (q_tasks q) \<Longrightarrow> t_status t = Failed \<Longrightarrow> dependency_ready t q \<Longrightarrow>
    same_row t t' \<Longrightarrow> row_ok t' \<Longrightarrow> t_status t' = Running \<Longrightarrow> index_allows t' (q_tasks q) \<Longrightarrow>
    q_tasks q' = map (\<lambda>u. if t_id u = t_id t then t' else u) (q_tasks q) \<Longrightarrow> small_step q q'"

abbreviation small_steps :: "queue \<Rightarrow> queue \<Rightarrow> bool" where
  "small_steps \<equiv> small_step\<^sup>*\<^sup>*"

lemma advances_refl: "advances q t t"
  by (simp add: advances_def same_row_def status_step_def)

section \<open>The invariant of the table\<close>

definition ids_ok :: "queue \<Rightarrow> bool" where
  "ids_ok q = distinct (map t_id (q_tasks q))"

definition keys_ok :: "queue \<Rightarrow> bool" where
  "keys_ok q = distinct (map dedupe_key (filter is_active (q_tasks q)))"

definition started :: "task \<Rightarrow> bool" where
  "started t = (t_status t \<in> {Running, Succeeded} \<or> t_status t = Failed \<and> artifact_failure t)"

definition queue_ok :: "queue \<Rightarrow> bool" where
  "queue_ok q =
     (ids_ok q \<and> keys_ok q \<and> list_all row_ok (q_tasks q) \<and>
      list_all (\<lambda>t. started t \<longrightarrow> dependency_ready t q) (q_tasks q))"

text \<open>What every small change keeps of a row: its identity, and the end of a task that succeeded or
  was cancelled.\<close>

definition row_after :: "task \<Rightarrow> queue \<Rightarrow> bool" where
  "row_after t q =
     (\<exists>u\<in>set (q_tasks q). same_row t u \<and> (t_status t \<in> {Succeeded, Cancelled} \<longrightarrow> t_status u = t_status t))"

lemma same_row_refl [simp]: "same_row t t"
  by (simp add: same_row_def)

lemma same_row_trans: "same_row t u \<Longrightarrow> same_row u v \<Longrightarrow> same_row t v"
  by (simp add: same_row_def)

lemma dependency_ready_same_row: "same_row t u \<Longrightarrow> dependency_ready u q = dependency_ready t q"
  by (simp add: dependency_ready_def same_row_def)

lemma ids_okD: "ids_ok q \<Longrightarrow> t \<in> set (q_tasks q) \<Longrightarrow> u \<in> set (q_tasks q) \<Longrightarrow> t_id t = t_id u \<Longrightarrow> t = u"
  by (simp add: ids_ok_def distinct_map inj_on_def)

lemma keys_ok_iff:
  assumes "ids_ok q"
  shows "keys_ok q \<longleftrightarrow> (\<forall>t\<in>set (q_tasks q). \<forall>u\<in>set (q_tasks q).
    is_active t \<and> is_active u \<and> dedupe_key t = dedupe_key u \<longrightarrow> t_id t = t_id u)"
proof -
  have d: "distinct (q_tasks q)" using assms by (simp add: ids_ok_def distinct_map)
  show ?thesis
    using d ids_okD [OF assms] by (auto simp: keys_ok_def distinct_map inj_on_def)
qed

lemma ids_ok_step: "small_step q q' \<Longrightarrow> ids_ok q \<Longrightarrow> ids_ok q'"
proof (induction rule: small_step.induct)
  case (Inserted q' q t)
  then show ?case by (auto simp: ids_ok_def)
next
  case (Advanced q g q')
  then have "map t_id (q_tasks q') = map t_id (q_tasks q)" by (auto simp: advances_def same_row_def)
  then show ?case using Advanced.prems unfolding ids_ok_def by simp
next
  case (Restarted t q t' q')
  then have "map t_id (q_tasks q') = map t_id (q_tasks q)" by (auto simp: same_row_def)
  then show ?case using Restarted.prems unfolding ids_ok_def by simp
qed

lemma row_after_self: "t \<in> set (q_tasks q) \<Longrightarrow> row_after t q"
  unfolding row_after_def by (rule bexI [of _ t]) simp_all

lemma row_after_in: "set (q_tasks q) \<subseteq> set (q_tasks q') \<Longrightarrow> t \<in> set (q_tasks q) \<Longrightarrow> row_after t q'"
  by (rule row_after_self) blast

lemma row_after_step: "small_step q q' \<Longrightarrow> ids_ok q \<Longrightarrow> t \<in> set (q_tasks q) \<Longrightarrow> row_after t q'"
proof (induction rule: small_step.induct)
  case (Inserted q' q u)
  then show ?case by (intro row_after_self) simp
next
  case (Advanced q g q')
  then have "advances q t (g t)" "g t \<in> set (q_tasks q')" by auto
  then show ?case unfolding row_after_def by (intro bexI [of _ "g t"]) (auto simp: advances_def status_step_def)
next
  case (Restarted u q u' q')
  show ?case
  proof (cases "t_id t = t_id u")
    case True
    then have "t = u" using Restarted ids_okD by blast
    moreover have "u' \<in> set (q_tasks q')" using Restarted by auto
    ultimately show ?thesis using Restarted unfolding row_after_def by (intro bexI [of _ u']) auto
  next
    case False
    then have "t \<in> set (q_tasks q')" using Restarted by (auto intro: rev_image_eqI)
    then show ?thesis by (rule row_after_self)
  qed
qed

lemma dependency_ready_step: "small_step q q' \<Longrightarrow> ids_ok q \<Longrightarrow> dependency_ready t q \<Longrightarrow> dependency_ready t q'"
proof -
  assume step: "small_step q q'" and ids: "ids_ok q" and ready: "dependency_ready t q"
  show "dependency_ready t q'"
  proof (cases "t_dependency t")
    case None
    then show ?thesis by (simp add: dependency_ready_def)
  next
    case (Some d)
    then obtain u where u: "u \<in> set (q_tasks q)" "t_id u = d" "t_status u = Succeeded"
      using ready by (auto simp: dependency_ready_def list_ex_iff)
    obtain v where v: "v \<in> set (q_tasks q')" "same_row u v" "t_status v = Succeeded"
      using row_after_step [OF step ids u(1)] u(3) by (auto simp: row_after_def)
    then show ?thesis using Some u(2) by (auto simp: dependency_ready_def list_ex_iff same_row_def)
  qed
qed

lemma advances_active: "advances q t t' \<Longrightarrow> is_active t' \<Longrightarrow> is_active t \<and> dedupe_key t' = dedupe_key t"
  by (auto simp: advances_def same_row_def status_step_def is_active_def active_statuses_def)

lemma keys_ok_step: "small_step q q' \<Longrightarrow> ids_ok q \<Longrightarrow> keys_ok q \<Longrightarrow> keys_ok q'"
proof (induction rule: small_step.induct)
  case (Inserted q' q t)
  have ids: "ids_ok q'" using small_step.Inserted [OF Inserted.hyps] Inserted.prems ids_ok_step by blast
  show ?case
    unfolding keys_ok_iff [OF ids]
  proof (intro ballI impI, elim conjE)
    fix u v assume uv: "u \<in> set (q_tasks q')" "v \<in> set (q_tasks q')" "is_active u" "is_active v" "dedupe_key u = dedupe_key v"
    have new: "t_id w = t_id t" if "w \<in> set (q_tasks q)" "is_active t" "is_active w" "dedupe_key w = dedupe_key t" for w
      using Inserted.hyps(5) that by (auto simp: index_allows_def list_ex_iff)
    consider "u = t" "v = t" | "u = t" "v \<in> set (q_tasks q)" | "v = t" "u \<in> set (q_tasks q)"
      | "u \<in> set (q_tasks q)" "v \<in> set (q_tasks q)" using uv(1,2) Inserted.hyps(1) by auto
    then show "t_id u = t_id v"
    proof cases
      case 2
      then show ?thesis using new [of v] uv by simp
    next
      case 3
      then show ?thesis using new [of u] uv by simp
    next
      case 4
      then show ?thesis using Inserted.prems(2) uv keys_ok_iff [OF Inserted.prems(1)] by blast
    qed simp
  qed
next
  case (Advanced q g q')
  have ids: "ids_ok q'" using small_step.Advanced [OF Advanced.hyps] Advanced.prems ids_ok_step by blast
  show ?case
    unfolding keys_ok_iff [OF ids]
  proof (intro ballI impI, elim conjE)
    fix u v assume uv: "u \<in> set (q_tasks q')" "v \<in> set (q_tasks q')" "is_active u" "is_active v" "dedupe_key u = dedupe_key v"
    obtain t w where t: "t \<in> set (q_tasks q)" "u = g t" and w: "w \<in> set (q_tasks q)" "v = g w"
      using uv(1,2) Advanced.hyps(2) by auto
    have adv: "advances q t u" "advances q w v" using t w Advanced.hyps(1) by blast+
    have "t_id t = t_id w"
      using advances_active [OF adv(1) uv(3)] advances_active [OF adv(2) uv(4)] uv(5) t(1) w(1)
        Advanced.prems(2) keys_ok_iff [OF Advanced.prems(1)] by metis
    then show "t_id u = t_id v" using adv by (simp add: advances_def same_row_def)
  qed
next
  case (Restarted t q t' q')
  have ids: "ids_ok q'" using small_step.Restarted [OF Restarted.hyps] Restarted.prems ids_ok_step by blast
  have id: "t_id t' = t_id t" using Restarted.hyps by (simp add: same_row_def)
  have allow: "is_active t'" "\<And>u. u \<in> set (q_tasks q) \<Longrightarrow> is_active u \<Longrightarrow> dedupe_key u = dedupe_key t' \<Longrightarrow> t_id u = t_id t"
    using Restarted.hyps id by (auto simp: index_allows_def list_ex_iff is_active_def active_statuses_def)
  show ?case
    unfolding keys_ok_iff [OF ids]
  proof (intro ballI impI, elim conjE)
    fix u v assume uv: "u \<in> set (q_tasks q')" "v \<in> set (q_tasks q')" "is_active u" "is_active v" "dedupe_key u = dedupe_key v"
    have mem: "w = t' \<or> w \<in> set (q_tasks q)" if "w \<in> set (q_tasks q')" for w
      using that Restarted.hyps(8) by (auto split: if_splits)
    consider "u = t'" "v = t'" | "u = t'" "v \<in> set (q_tasks q)" | "v = t'" "u \<in> set (q_tasks q)"
      | "u \<in> set (q_tasks q)" "v \<in> set (q_tasks q)" using mem [OF uv(1)] mem [OF uv(2)] by blast
    then show "t_id u = t_id v"
    proof cases
      case 2
      then show ?thesis using allow(2) [of v] uv id by simp
    next
      case 3
      then show ?thesis using allow(2) [of u] uv id by simp
    next
      case 4
      then show ?thesis using Restarted.prems(2) uv keys_ok_iff [OF Restarted.prems(1)] by blast
    qed simp
  qed
qed

lemma rows_ok_step:
  "small_step q q' \<Longrightarrow> list_all row_ok (q_tasks q) \<Longrightarrow> list_all row_ok (q_tasks q')"
  by (induction rule: small_step.induct) (auto simp: list_all_iff advances_def)

lemma started_advances:
  "advances q t u \<Longrightarrow> started u \<Longrightarrow> started t \<or> dependency_ready t q"
  by (auto simp: started_def advances_def status_step_def artifact_failure_def)

lemma started_step:
  assumes "small_step q q'" "ids_ok q" "list_all (\<lambda>t. started t \<longrightarrow> dependency_ready t q) (q_tasks q)"
  shows "list_all (\<lambda>t. started t \<longrightarrow> dependency_ready t q') (q_tasks q')"
proof -
  have old: "started t \<Longrightarrow> dependency_ready t q" if "t \<in> set (q_tasks q)" for t
    using assms(3) that by (simp add: list_all_iff)
  have "dependency_ready u q" if u: "u \<in> set (q_tasks q')" "started u" for u
    using assms(1)
  proof cases
    case (Inserted t)
    then have "u \<noteq> t" using u(2) by (auto simp: started_def)
    then show ?thesis using Inserted u old by auto
  next
    case (Advanced g)
    then obtain t where t: "t \<in> set (q_tasks q)" "u = g t" using u(1) by auto
    then have "advances q t u" using Advanced by blast
    then show ?thesis
      using started_advances u(2) old [OF t(1)] dependency_ready_same_row [of t u q] by (auto simp: advances_def)
  next
    case (Restarted t t')
    then show ?thesis
      using u old dependency_ready_same_row [of t t' q] by (auto split: if_splits)
  qed
  then show ?thesis using dependency_ready_step [OF assms(1,2)] by (simp add: list_all_iff)
qed

lemma queue_ok_step: "small_step q q' \<Longrightarrow> queue_ok q \<Longrightarrow> queue_ok q'"
  unfolding queue_ok_def using ids_ok_step keys_ok_step rows_ok_step started_step by blast

lemma queue_ok_steps: "small_steps q q' \<Longrightarrow> queue_ok q \<Longrightarrow> queue_ok q'"
  by (induction rule: rtranclp_induct) (auto intro: queue_ok_step)

lemma queue_ok_ids: "queue_ok q \<Longrightarrow> ids_ok q"
  by (simp add: queue_ok_def)

lemma dependency_ready_steps: "small_steps q q' \<Longrightarrow> queue_ok q \<Longrightarrow> dependency_ready t q \<Longrightarrow> dependency_ready t q'"
  by (induction rule: rtranclp_induct)
    (auto intro: dependency_ready_step queue_ok_ids queue_ok_steps)

lemma row_after_steps: "small_steps q q' \<Longrightarrow> queue_ok q \<Longrightarrow> t \<in> set (q_tasks q) \<Longrightarrow> row_after t q'"
proof (induction rule: rtranclp_induct)
  case base
  then show ?case by (simp add: row_after_self)
next
  case (step y z)
  then obtain u where u: "u \<in> set (q_tasks y)" "same_row t u" "t_status t \<in> {Succeeded, Cancelled} \<longrightarrow> t_status u = t_status t"
    by (auto simp: row_after_def)
  have "row_after u z"
    using row_after_step [OF step.hyps(2) _ u(1)] queue_ok_ids queue_ok_steps step by blast
  then show ?case using u same_row_trans unfolding row_after_def by metis
qed

section \<open>Every operation is made of small changes\<close>

lemma small_same: "q_tasks q' = q_tasks q \<Longrightarrow> small_steps q q'"
proof -
  assume "q_tasks q' = q_tasks q"
  then have "small_step q q'" by (intro Advanced [where g = "\<lambda>t. t"]) (simp_all add: advances_refl)
  then show ?thesis by blast
qed

lemma small_update:
  assumes "\<And>t. t \<in> set (q_tasks q) \<Longrightarrow> P t \<Longrightarrow> advances q t (f t)"
    and "q_tasks q' = map (\<lambda>t. if P t then f t else t) (q_tasks q)"
  shows "small_steps q q'"
  using assms by (intro r_into_rtranclp Advanced [where g = "\<lambda>t. if P t then f t else t"]) (auto simp: advances_refl)

lemma small_update_where:
  "(\<And>t. t \<in> set (q_tasks q) \<Longrightarrow> P t \<Longrightarrow> advances q t (f t)) \<Longrightarrow> small_steps q (update_where P f q)"
  by (rule small_update [of q P f]) (simp_all add: update_where_def)

lemma small_transition:
  assumes "\<And>t. t \<in> set (q_tasks q) \<Longrightarrow> has_status tid from t \<Longrightarrow> advances q t (f t)"
  shows "small_steps q (snd (transition tid from f q))"
  by (rule small_update [OF _ transition_tasks]) (rule assms)

lemma add_members_tasks: "add_members bid tid dd us q = Inr q' \<Longrightarrow> q_tasks q' = q_tasks q"
  by (induction bid tid dd us q rule: add_members.induct) (auto split: if_splits)

lemma join_batch_tasks: "join_batch r res q = Inr (res', q') \<Longrightarrow> q_tasks q' = q_tasks q"
  by (auto simp: join_batch_def bindE_Inr_iff dest: add_members_tasks split: option.splits)

lemma insert_small:
  assumes "insert_task t q = Some q'" "t_status t = Queued" "row_ok t"
  shows "small_step q q'"
  using assms by (intro Inserted [of q' q t]) (auto simp: insert_task_def list_ex_iff split: if_splits)

lemma new_task_ok: "t_status (new_task now tid r) = Queued" "row_ok (new_task now tid r)"
  by (simp_all add: new_task_def row_ok_def)

lemma enqueue_small:
  assumes "enqueue now tid guard r q = Inr (res, q')"
  shows "small_steps q q'"
proof -
  consider q1 res1 where "insert_task (new_task now tid r) q = Some q1" "join_batch r res1 q1 = Inr (res, q')"
    | res1 where "join_batch r res1 q = Inr (res, q')"
    using assms by (auto simp: enqueue_def bindE_Inr_iff Let_def split: option.splits if_splits)
  then show ?thesis
  proof cases
    case 1
    then show ?thesis
      using insert_small [OF 1(1) new_task_ok] small_same [OF join_batch_tasks [OF 1(2)]] by simp
  next
    case 2
    then show ?thesis using small_same [OF join_batch_tasks] by blast
  qed
qed

lemma find_taskD: "find_task tid q = Some t \<Longrightarrow> t \<in> set (q_tasks q) \<and> t_id t = tid"
  by (auto simp: find_task_def find_Some_iff)

lemma claim_candidateD:
  assumes "claim_candidate media full q = Some tid"
  shows "\<exists>t\<in>set (q_tasks q). t_id t = tid \<and> claimable media full q t \<and>
    (\<forall>u\<in>set (q_tasks q). claimable media full q u \<longrightarrow> t_queued_at t \<le> t_queued_at u)"
proof -
  let ?ts = "sort_key t_queued_at (filter (claimable media full q) (q_tasks q))"
  obtain t ts where t: "?ts = t # ts" "t_id t = tid"
    using assms by (auto simp: claim_candidate_def split: list.splits)
  have mem: "set (t # ts) = {u \<in> set (q_tasks q). claimable media full q u}"
    using t(1) by (metis set_filter set_sort)
  have "sorted (map t_queued_at (t # ts))" using t(1) by (metis sorted_sort_key)
  then have "\<forall>u\<in>set (t # ts). t_queued_at t \<le> t_queued_at u" by auto
  then show ?thesis using mem t(2) by (intro bexI [of _ t]) auto
qed

lemma claim_advances:
  assumes "dependency_ready t q" "t_status t = Queued"
  shows "advances q t (t\<lparr>t_status := Running, t_started_at := Some now, t_updated_at := now\<rparr>)"
  using assms by (auto simp: advances_def same_row_def dedupe_key_def row_ok_def status_step_def)

text \<open>What a session read, the state now, and what it then claims.\<close>

lemma claim_small:
  assumes ok: "queue_ok seen" and steps: "small_steps seen q"
  shows "small_steps q (snd (claim_next now media full seen q))"
proof (cases "claim_candidate media full seen")
  case None
  then show ?thesis by (simp add: claim_next_def)
next
  case (Some tid)
  then obtain t where t: "t \<in> set (q_tasks seen)" "t_id t = tid" "dependency_ready t seen"
    using claim_candidateD by (fastforce simp: claimable_def)
  have ready: "dependency_ready t q" using dependency_ready_steps [OF steps ok t(3)] .
  obtain v where v: "v \<in> set (q_tasks q)" "same_row t v"
    using row_after_steps [OF steps ok t(1)] by (auto simp: row_after_def)
  have ids: "ids_ok q" using queue_ok_ids [OF queue_ok_steps [OF steps ok]] .
  have "advances q u (u\<lparr>t_status := Running, t_started_at := Some now, t_updated_at := now\<rparr>)"
    if "u \<in> set (q_tasks q)" "has_status tid [Queued] u" for u
  proof -
    have "u = v" using ids_okD [OF ids that(1) v(1)] that(2) v(2) t(2) by (simp add: has_status_def same_row_def)
    then show ?thesis
      using that(2) ready dependency_ready_same_row [OF v(2)] by (intro claim_advances) (simp_all add: has_status_def)
  qed
  then have "small_steps q (update_where (has_status tid [Queued])
      (\<lambda>t. t\<lparr>t_status := Running, t_started_at := Some now, t_updated_at := now\<rparr>) q)"
    by (rule small_update_where)
  then show ?thesis by (simp add: claim_next_def Some Let_def)
qed

lemma succeed_small: "small_steps q (snd (mark_succeeded now tid outcome q))"
  unfolding mark_succeeded_def
  by (rule small_transition)
    (auto simp: advances_def same_row_def dedupe_key_def row_ok_def status_step_def has_status_def)

lemma failed_with_running: "has_status tid [Running] t \<Longrightarrow> advances q t (failed_with now msg t)"
  by (auto simp: advances_def same_row_def dedupe_key_def row_ok_def status_step_def has_status_def failed_with_def)

lemma failed_with_blocked:
  "has_status tid [Queued] t \<Longrightarrow> advances q t (failed_with now (encode_bounded_cascade_failure parent msg) t)"
proof -
  have "\<not> artifact_failure (failed_with now (encode_bounded_cascade_failure parent msg) t)"
    using blocked_task_code [of parent msg]
    by (auto simp: artifact_failure_def failed_with_def coalesce_def artifact_failure_code_def cascade_failure_code_def)
  then show "has_status tid [Queued] t \<Longrightarrow> ?thesis"
    by (auto simp: advances_def same_row_def dedupe_key_def row_ok_def status_step_def has_status_def failed_with_def)
qed

lemma cancelled_with_advances: "t_status t \<in> {Queued, Running} \<Longrightarrow> advances q t (cancelled_with now by_whom t)"
  by (auto simp: advances_def same_row_def dedupe_key_def row_ok_def status_step_def cancelled_with_def)

lemma cascade_failed_small: "small_steps q (snd (cascade_failed_from now msg todo q))"
proof (induction now msg todo q rule: cascade_failed_from.induct)
  case (1 now msg q)
  then show ?case by simp
next
  case (2 now msg parent dep todo q)
  obtain n q1 where s: "mark_failed_queued_dep now dep (encode_bounded_cascade_failure parent msg) q = (n, q1)"
    by (cases "mark_failed_queued_dep now dep (encode_bounded_cascade_failure parent msg) q")
  have "small_steps q q1"
    using small_transition [of q dep "[Queued]"] failed_with_blocked s
    unfolding mark_failed_queued_dep_def by (metis snd_conv)
  moreover have "n \<noteq> 0 \<Longrightarrow> small_steps q1 (snd (cascade_failed_from now msg (parented dep q1 @ todo) q1))"
    using "2.IH"(2) s by simp
  ultimately have "n \<noteq> 0 \<Longrightarrow> small_steps q (snd (cascade_failed_from now msg (parented dep q1 @ todo) q1))"
    using rtranclp_trans by metis
  then show ?case
    using "2.IH"(1) s by (cases "n = 0") (simp_all add: case_prod_beta)
qed

lemma fail_small: "small_steps q (snd (mark_failed now tid msg q))"
proof -
  obtain n q1 where s: "mark_failed_running now tid msg q = (n, q1)" by (cases "mark_failed_running now tid msg q")
  have "small_steps q q1"
    using small_transition [of q tid "[Running]"] failed_with_running s
    unfolding mark_failed_running_def by (metis snd_conv)
  moreover have "small_steps q1 (snd (cascade_failed_queued now tid msg q1))"
    unfolding cascade_failed_queued_def by (rule cascade_failed_small)
  ultimately show ?thesis
    using s rtranclp_trans [of small_step q q1] by (simp add: mark_failed_def)
qed

lemma cascade_cancelled_small: "small_steps q (snd (cascade_cancelled_from now todo q))"
proof (induction now todo q rule: cascade_cancelled_from.induct)
  case (1 now q)
  then show ?case by simp
next
  case (2 now tid todo q)
  obtain n q1 where s: "transition tid [Queued] (cancelled_with now ''cascade'') q = (n, q1)"
    by (cases "transition tid [Queued] (cancelled_with now ''cascade'') q")
  have "small_steps q q1"
    using small_transition [of q tid "[Queued]" "cancelled_with now ''cascade''"] cancelled_with_advances s
    by (auto simp: has_status_def)
  moreover have "n \<noteq> 0 \<Longrightarrow> small_steps q1 (snd (cascade_cancelled_from now (map t_id (queued_dependents tid q1) @ todo) q1))"
    using "2.IH"(2) s by simp
  ultimately have "n \<noteq> 0 \<Longrightarrow> small_steps q (snd (cascade_cancelled_from now (map t_id (queued_dependents tid q1) @ todo) q1))"
    using rtranclp_trans by metis
  then show ?case
    using "2.IH"(1) s by (cases "n = 0") (simp_all add: case_prod_beta)
qed

lemma cancelled_small:
  assumes "mark_cancelled now tid by_whom from q = Some (ds, q')" "set from \<subseteq> {Queued, Running}"
  shows "small_steps q q'"
proof -
  obtain n q1 where s: "transition tid from (cancelled_with now by_whom) q = (n, q1)"
    by (cases "transition tid from (cancelled_with now by_whom) q")
  have "small_steps q (snd (transition tid from (cancelled_with now by_whom) q))"
  proof (rule small_transition)
    fix t assume "has_status tid from t"
    then have "t_status t \<in> {Queued, Running}" using assms(2) by (auto simp: has_status_def)
    then show "advances q t (cancelled_with now by_whom t)" by (rule cancelled_with_advances)
  qed
  then have "small_steps q q1" using s by simp
  moreover have "q' = snd (cascade_cancelled_from now (map t_id (queued_dependents tid q1)) q1)"
    using assms(1) s by (auto simp: mark_cancelled_def split: if_splits prod.splits)
  ultimately show ?thesis using cascade_cancelled_small rtranclp_trans by metis
qed

lemma cancel_task_small: "cancel_task now tid seen q = Inr (r, q') \<Longrightarrow> small_steps q q'"
  using cancelled_small [of now tid "''user''" "[Queued]" q]
  by (auto simp: cancel_task_def split: option.splits if_splits prod.splits)

lemma interrupt_small: "small_steps q (snd (finalize_interrupted now tid q))"
  using cancelled_small [of now tid "''interrupted''" "[Queued, Running]" q]
  by (auto simp: finalize_interrupted_def split: option.splits prod.splits)

lemma record_events_tasks: "q_tasks (fold (\<lambda>t. record_terminal_event (f t) st) ts q) = q_tasks q"
  by (induction ts arbitrary: q) (simp_all add: record_terminal_event_def)

lemma cancel_all_small: "small_steps q (snd (cancel_all_queued now project excluded seen q))"
proof -
  define ids where "ids = map t_id (filter (cancellable_in project excluded) (q_tasks seen))"
  have all: "q_tasks (snd (cancel_all_queued now project excluded seen q))
      = (if ids = [] then q_tasks q else map (\<lambda>t. if t_id t \<in> set ids \<and> t_status t = Queued
          then cancelled_with now ''user'' t else t) (q_tasks q))"
    by (simp add: cancel_all_queued_def Let_def ids_def [symmetric] record_events_tasks update_where_def)
  show ?thesis
  proof (cases "ids = []")
    case True
    then show ?thesis using all by (intro small_same) simp
  next
    case False
    show ?thesis
    proof (rule small_update)
      show "q_tasks (snd (cancel_all_queued now project excluded seen q))
          = map (\<lambda>t. if t_id t \<in> set ids \<and> t_status t = Queued then cancelled_with now ''user'' t else t) (q_tasks q)"
        using all False by simp
    qed (simp add: cancelled_with_advances)
  qed
qed

lemma requeue_advances:
  "t_status t = Running \<Longrightarrow> advances q t (t\<lparr>t_status := Queued, t_started_at := None, t_finished_at := None,
     t_updated_at := now, t_result_json := None, t_error := None\<rparr>)"
  by (simp add: advances_def same_row_def dedupe_key_def row_ok_def status_step_def)

lemma requeue_small: "small_steps q (snd (requeue_running now limit seen q))"
proof (cases "running_tasks seen = []")
  case True
  then show ?thesis by (simp add: requeue_running_def)
next
  case False
  then have "take (nat (max 1 (min 5000 limit))) (running_tasks seen) \<noteq> []" by auto
  then show ?thesis
    by (simp add: requeue_running_def Let_def)
      (rule small_update_where, rule requeue_advances, simp)
qed

lemma touch_small:
  assumes "\<And>t. same_row t (f t)" "\<And>t. t_status (f t) = t_status t" "\<And>t. t_error (f t) = t_error t"
    "\<And>t. row_ok t \<Longrightarrow> row_ok (f t)"
  shows "small_steps q (update_where P f q)"
  using assms by (intro small_update [of q P f]) (auto simp: advances_def status_step_def update_where_def)

lemma persist_small:
  "small_steps q (persist_provider_job_id now tid job endpoint base_url q)"
  "small_steps q (persist_execution_provider_id now tid provider q)"
  "persist_execution_checkpoint now tid checkpoint provider q = Inr q' \<Longrightarrow> small_steps q q'"
  unfolding persist_provider_job_id_def persist_execution_provider_id_def persist_execution_checkpoint_def
  by (auto intro!: touch_small simp: same_row_def dedupe_key_def row_ok_def split: if_splits task_status.splits)

lemma retry_small:
  assumes ok: "queue_ok seen" and steps: "small_steps seen q"
    and r: "retry_artifact_download now tid seen q = Inr (d, q')"
  shows "small_steps q q'"
proof -
  let ?restart = "\<lambda>t. t\<lparr>t_status := Running, t_error := None, t_finished_at := None,
    t_started_at := Some now, t_updated_at := now\<rparr>"
  obtain t where t: "find_task tid seen = Some t" "retry_eligible t"
    using r by (auto simp: retry_artifact_download_def split: option.splits if_splits)
  obtain u where q1: "filter (has_status tid [Failed]) (q_tasks q) = [u]" "index_allows (?restart u) (q_tasks q)"
    "q_tasks q' = map (\<lambda>t. if has_status tid [Failed] t then ?restart t else t) (q_tasks q)"
    using r t
    by (auto simp: retry_artifact_download_def update_where_def Let_def split: option.splits if_splits list.splits)
  have mem: "t \<in> set (q_tasks seen)" "t_id t = tid" using find_taskD [OF t(1)] by auto
  have "started t" using t(2) by (simp add: started_def retry_eligible_def artifact_failure_def)
  then have "dependency_ready t seen" using ok mem by (simp add: queue_ok_def list_all_iff)
  then have ready: "dependency_ready t q" by (rule dependency_ready_steps [OF steps ok])
  obtain v where v: "v \<in> set (q_tasks q)" "same_row t v"
    using row_after_steps [OF steps ok mem(1)] by (auto simp: row_after_def)
  have ids: "ids_ok q" using queue_ok_ids [OF queue_ok_steps [OF steps ok]] .
  have "u \<in> set (filter (has_status tid [Failed]) (q_tasks q))" by (simp add: q1(1))
  then have u: "u \<in> set (q_tasks q)" "t_id u = tid" "t_status u = Failed" by (auto simp: has_status_def)
  have uv: "u = v" using ids_okD [OF ids u(1) v(1)] u(2) v(2) mem(2) by (simp add: same_row_def)
  have only: "has_status tid [Failed] w \<longleftrightarrow> w = u" if "w \<in> set (q_tasks q)" for w
    using ids_okD [OF ids that u(1)] u by (auto simp: has_status_def)
  have by_id: "t_id w = t_id u \<longleftrightarrow> w = u" if "w \<in> set (q_tasks q)" for w
    using ids_okD [OF ids that u(1)] by auto
  have "small_step q q'"
  proof (rule Restarted)
    show "u \<in> set (q_tasks q)" "t_status u = Failed" by (fact u)+
    show "dependency_ready u q" using ready dependency_ready_same_row [OF v(2)] uv by simp
    show "same_row u (?restart u)" by (simp add: same_row_def dedupe_key_def)
    show "row_ok (?restart u)" "t_status (?restart u) = Running" by (simp_all add: row_ok_def)
    show "index_allows (?restart u) (q_tasks q)" by (fact q1)
    show "q_tasks q' = map (\<lambda>w. if t_id w = t_id u then ?restart u else w) (q_tasks q)"
      using only by_id by (auto simp: q1)
  qed
  then show ?thesis by blast
qed

lemma requeue_one_small: "small_steps q (snd (requeue_single_task now tid q))"
  unfolding requeue_single_task_def snd_conv
  by (rule small_update_where)
    (auto simp: advances_def same_row_def dedupe_key_def row_ok_def status_step_def has_status_def)

section \<open>Sessions\<close>

text \<open>
  Sessions working at the same time: each keeps the queue as it last read it, and an operation takes
  that and the queue as it is now. What other tables see of the changes, the events taken by the bus
  and the calls written by the accounting, may change at any time.
\<close>

type_synonym sessions = "queue \<times> (nat \<Rightarrow> queue)"

inductive session_step :: "sessions \<Rightarrow> sessions \<Rightarrow> bool" where
  Reads: "session_step (q, s) (q, s(i := q))"
| Enqueues: "enqueue now tid guard r q = Inr (res, q') \<Longrightarrow> session_step (q, s) (q', s)"
| Creates_batch: "create_batch now bid project operation requested blocked source user q = Inr q' \<Longrightarrow>
    session_step (q, s) (q', s)"
| Attaches: "attach_batch_task project bid tid u dd user q = Inr q' \<Longrightarrow> session_step (q, s) (q', s)"
| Deletes_batch: "session_step (q, s) (snd (delete_fresh_batch project bid user q), s)"
| Claims: "session_step (q, s) (snd (claim_next now media full (s i) q), s)"
| Succeeds: "session_step (q, s) (snd (mark_succeeded now tid outcome q), s)"
| Fails: "session_step (q, s) (snd (mark_failed now tid msg q), s)"
| Retries: "retry_artifact_download now tid (s i) q = Inr (d, q') \<Longrightarrow> session_step (q, s) (q', s)"
| Cancels: "cancel_task now tid (s i) q = Inr (res, q') \<Longrightarrow> session_step (q, s) (q', s)"
| Cancels_all: "session_step (q, s) (snd (cancel_all_queued now project excluded (s i) q), s)"
| Interrupts: "session_step (q, s) (snd (finalize_interrupted now tid q), s)"
| Requeues: "session_step (q, s) (snd (requeue_running now limit (s i) q), s)"
| Requeues_one: "session_step (q, s) (snd (requeue_single_task now tid q), s)"
| Persists_job: "session_step (q, s) (persist_provider_job_id now tid job endpoint base_url q, s)"
| Persists_provider: "session_step (q, s) (persist_execution_provider_id now tid provider q, s)"
| Persists_checkpoint: "persist_execution_checkpoint now tid checkpoint provider q = Inr q' \<Longrightarrow>
    session_step (q, s) (q', s)"
| Elsewhere: "session_step (q, s) (q\<lparr>q_calls := cs, q_events := es\<rparr>, s)"

inductive_cases session_stepE: "session_step (q, s) (q', s')"

definition empty_queue :: queue where
  "empty_queue = \<lparr>q_tasks = [], q_batches = [], q_members = [], q_calls = [], q_events = []\<rparr>"

inductive sessions_reach :: "sessions \<Rightarrow> bool" where
  Start: "sessions_reach (empty_queue, \<lambda>_. empty_queue)"
| Step: "sessions_reach a \<Longrightarrow> session_step a b \<Longrightarrow> sessions_reach b"

definition sessions_ok :: "sessions \<Rightarrow> bool" where
  "sessions_ok a = (queue_ok (fst a) \<and> (\<forall>i. queue_ok (snd a i) \<and> small_steps (snd a i) (fst a)))"

lemma batch_tasks:
  "create_batch now bid project operation requested blocked source user q = Inr q' \<Longrightarrow> q_tasks q' = q_tasks q"
  "attach_batch_task project bid tid u dd user q = Inr q' \<Longrightarrow> q_tasks q' = q_tasks q"
  "q_tasks (snd (delete_fresh_batch project bid user q)) = q_tasks q"
  by (auto simp: create_batch_def attach_batch_task_def delete_fresh_batch_def Let_def bindE_Inr_iff
      dest!: add_members_tasks split: if_splits option.splits)

lemma session_step_small:
  assumes "session_step a b" "sessions_ok a"
  shows "small_steps (fst a) (fst b) \<and> (\<forall>i. snd b i = snd a i \<or> snd b i = fst b)"
  using assms
proof (induction rule: session_step.induct)
  case (Claims q s now media full i)
  then show ?case using claim_small [of "s i" q] by (simp add: sessions_ok_def)
next
  case (Retries now tid s i q d q')
  then show ?case using retry_small [of "s i" q] by (simp add: sessions_ok_def)
qed (auto intro: enqueue_small succeed_small fail_small cancel_task_small cancel_all_small interrupt_small
    requeue_small requeue_one_small persist_small small_same batch_tasks)

lemma sessions_ok_step:
  assumes "session_step a b" "sessions_ok a"
  shows "sessions_ok b"
proof -
  have s: "small_steps (fst a) (fst b)" "\<And>i. snd b i = snd a i \<or> snd b i = fst b"
    using session_step_small [OF assms] by auto
  have ok: "queue_ok (fst b)" using queue_ok_steps [OF s(1)] assms(2) by (simp add: sessions_ok_def)
  have "queue_ok (snd b i) \<and> small_steps (snd b i) (fst b)" for i
    using s(2) [of i] ok assms(2) rtranclp_trans [OF _ s(1)] by (auto simp: sessions_ok_def)
  then show ?thesis using ok by (simp add: sessions_ok_def)
qed

lemma sessions_ok_reach: "sessions_reach a \<Longrightarrow> sessions_ok a"
proof (induction rule: sessions_reach.induct)
  case Start
  have "queue_ok empty_queue" by (simp add: queue_ok_def ids_ok_def keys_ok_def empty_queue_def)
  then show ?case by (simp add: sessions_ok_def)
qed (rule sessions_ok_step)

section \<open>What holds in every reachable state\<close>

text \<open>
  C2: however the sessions interleave, each claiming, cancelling and retrying on what it read
  earlier, no task is running or has succeeded unless the task it depends on has succeeded; a retried
  download is no exception.
\<close>

theorem started_after_dependency:
  assumes "sessions_reach (q, s)" and "t \<in> set (q_tasks q)" and "t_status t \<in> {Running, Succeeded}"
    and "t_dependency t = Some d"
  shows "\<exists>u\<in>set (q_tasks q). t_id u = d \<and> t_status u = Succeeded"
proof -
  have "queue_ok q" using sessions_ok_reach [OF assms(1)] by (simp add: sessions_ok_def)
  then have "dependency_ready t q" using assms(2,3) by (auto simp: queue_ok_def list_all_iff started_def)
  then show ?thesis using assms(4) by (auto simp: dependency_ready_def list_ex_iff)
qed

text \<open>
  C4: in every reachable state the ids of tasks are distinct, and no two queued or running tasks are
  for the same resource (project, user, type, resource, script and resource type, with a missing
  script or resource type read as empty).
\<close>

theorem one_active_task_per_key:
  assumes "sessions_reach (q, s)"
  shows "distinct (map t_id (q_tasks q)) \<and> distinct (map dedupe_key (filter is_active (q_tasks q)))"
  using sessions_ok_reach [OF assms] by (simp add: sessions_ok_def queue_ok_def ids_ok_def keys_ok_def)

text \<open>
  C35: in every reachable state the columns of a row fit its status: a queued task has no start and no
  end, a running one a start and no end, an ended one an end; a success has a result and no error, a
  failure an error, a cancelled task its reason.
\<close>

theorem rows_well_typed:
  assumes "sessions_reach (q, s)" and "t \<in> set (q_tasks q)"
  shows "row_ok t"
  using sessions_ok_reach [OF assms(1)] assms(2) by (simp add: sessions_ok_def queue_ok_def list_all_iff)

text \<open>
  a task that succeeded or was cancelled never changes its status again, whatever the sessions
  do, and no row is ever lost or changes its identity, its dependency or its key.
\<close>

theorem ended_tasks_stay:
  assumes "sessions_reach a" and "session_step\<^sup>*\<^sup>* a b" and "t \<in> set (q_tasks (fst a))"
  shows "\<exists>u\<in>set (q_tasks (fst b)). t_id u = t_id t \<and> t_dependency u = t_dependency t \<and> dedupe_key u = dedupe_key t \<and>
    (t_status t \<in> {Succeeded, Cancelled} \<longrightarrow> t_status u = t_status t)"
proof -
  have "sessions_ok b \<and> small_steps (fst a) (fst b)"
    using assms(2)
  proof (induction rule: rtranclp_induct)
    case base
    then show ?case using sessions_ok_reach [OF assms(1)] by simp
  next
    case (step y z)
    then show ?case using session_step_small sessions_ok_step by (meson rtranclp_trans)
  qed
  moreover have "queue_ok (fst a)" using sessions_ok_reach [OF assms(1)] by (simp add: sessions_ok_def)
  ultimately have "row_after t (fst b)" using row_after_steps assms(3) by blast
  then show ?thesis by (simp add: row_after_def same_row_def)
qed

section \<open>Instances\<close>

text \<open>
  Two tasks, the second of which waits for the first: both are enqueued, a session reads and claims
  the first, it succeeds, and a session claims the second.
\<close>

definition sample_request :: "string \<Rightarrow> string option \<Rightarrow> enqueue_request" where
  "sample_request resource dependency =
     \<lparr>r_project = ''demo'', r_type = ''video'', r_media = ''video'', r_resource_id = resource, r_payload = [],
      r_script_file = None, r_resource_type = None, r_source = ''webui'', r_dependency = dependency,
      r_dependency_group = None, r_dependency_index = None, r_user = ''u'', r_provider = None,
      r_batch_id = None, r_batch_unit = None, r_batch_units = []\<rparr>"

definition sample_two_tasks :: queue where
  "sample_two_tasks = empty_queue\<lparr>q_tasks := [new_task 1 ''t1'' (sample_request ''s1'' None),
     new_task 2 ''t2'' (sample_request ''s2'' (Some ''t1''))]\<rparr>"

definition sample_succeeded :: queue where
  "sample_succeeded =
     snd (mark_succeeded 4 ''t1'' [] (snd (claim_next 3 ''video'' [] sample_two_tasks sample_two_tasks)))"

definition sample_second_running :: queue where
  "sample_second_running = snd (claim_next 5 ''video'' [] sample_succeeded sample_succeeded)"

lemma sample_enqueues:
  "enqueue 1 ''t1'' (\<lambda>_ _. False) (sample_request ''s1'' None) empty_queue
     = Inr (\<lparr>er_task = ''t1'', er_status = Queued, er_deduped = False, er_existing = None, er_existing_payload = None\<rparr>,
         empty_queue\<lparr>q_tasks := [new_task 1 ''t1'' (sample_request ''s1'' None)]\<rparr>)"
  "enqueue 2 ''t2'' (\<lambda>_ _. False) (sample_request ''s2'' (Some ''t1''))
       (empty_queue\<lparr>q_tasks := [new_task 1 ''t1'' (sample_request ''s1'' None)]\<rparr>)
     = Inr (\<lparr>er_task = ''t2'', er_status = Queued, er_deduped = False, er_existing = None, er_existing_payload = None\<rparr>,
         sample_two_tasks)"
  by (simp_all add: enqueue_def ensure_def require_units_def unit_ids_of_def sample_request_def insert_task_def new_task_def
      empty_queue_def index_allows_def is_active_def active_statuses_def dedupe_key_def join_batch_def sample_two_tasks_def)

lemma sample_two_tasks_reach: "\<exists>s. sessions_reach (sample_two_tasks, s) \<and> s 0 = sample_two_tasks"
proof -
  have "sessions_reach (sample_two_tasks, \<lambda>_. empty_queue)"
    using Step [OF Step [OF Start Enqueues [OF sample_enqueues(1)]] Enqueues [OF sample_enqueues(2)]] .
  then have "sessions_reach (sample_two_tasks, (\<lambda>_. empty_queue)(0 := sample_two_tasks))"
    using Step Reads by blast
  then show ?thesis by (intro exI [of _ "(\<lambda>_. empty_queue)(0 := sample_two_tasks)"]) simp
qed

lemma sample_second_running_reach: "\<exists>s. sessions_reach (sample_second_running, s)"
proof -
  obtain s where s: "sessions_reach (sample_two_tasks, s)" "s 0 = sample_two_tasks"
    using sample_two_tasks_reach by blast
  have "sessions_reach (snd (claim_next 3 ''video'' [] (s 0) sample_two_tasks), s)"
    using Step [OF s(1) Claims] .
  then have "sessions_reach (sample_succeeded, s)"
    using Step Succeeds s(2) unfolding sample_succeeded_def by metis
  then have "sessions_reach (sample_succeeded, s(0 := sample_succeeded))" using Step Reads by blast
  then have "sessions_reach (snd (claim_next 5 ''video'' [] ((s(0 := sample_succeeded)) 0) sample_succeeded), s(0 := sample_succeeded))"
    using Step Claims by blast
  then show ?thesis unfolding sample_second_running_def by (simp del: fun_upd_apply add: fun_upd_same) blast
qed

lemma sample_second_running_tasks:
  "map (\<lambda>t. (t_id t, t_status t, t_dependency t)) (q_tasks sample_second_running)
     = [(''t1'', Succeeded, None), (''t2'', Running, Some ''t1'')]"
  by code_simp

lemma sample_rows:
  "\<exists>t\<in>set (q_tasks sample_second_running). t_id t = ''t1'' \<and> t_status t = Succeeded"
  "\<exists>t\<in>set (q_tasks sample_second_running). t_status t = Running \<and> t_dependency t = Some ''t1''"
proof -
  let ?f = "\<lambda>t. (t_id t, t_status t, t_dependency t)"
  have "(''t1'', Succeeded, None) \<in> set (map ?f (q_tasks sample_second_running))"
    "(''t2'', Running, Some ''t1'') \<in> set (map ?f (q_tasks sample_second_running))"
    unfolding sample_second_running_tasks by simp_all
  then show "\<exists>t\<in>set (q_tasks sample_second_running). t_id t = ''t1'' \<and> t_status t = Succeeded"
    "\<exists>t\<in>set (q_tasks sample_second_running). t_status t = Running \<and> t_dependency t = Some ''t1''"
    unfolding set_map by (auto elim!: imageE) (metis | force)+
qed

lemma started_after_dependency_witness:
  "\<exists>u\<in>set (q_tasks sample_second_running). t_id u = ''t1'' \<and> t_status u = Succeeded"
proof -
  obtain s where s: "sessions_reach (sample_second_running, s)" using sample_second_running_reach by blast
  obtain t where "t \<in> set (q_tasks sample_second_running)" "t_status t = Running" "t_dependency t = Some ''t1''"
    using sample_rows(2) by blast
  then show ?thesis using started_after_dependency [OF s] by simp
qed

lemma one_active_task_per_key_witness:
  "distinct (map t_id (q_tasks sample_second_running)) \<and>
   distinct (map dedupe_key (filter is_active (q_tasks sample_second_running)))"
proof -
  obtain s where "sessions_reach (sample_second_running, s)" using sample_second_running_reach by blast
  then show ?thesis by (rule one_active_task_per_key)
qed

lemma rows_well_typed_witness: "list_all row_ok (q_tasks sample_second_running)"
proof -
  obtain s where "sessions_reach (sample_second_running, s)" using sample_second_running_reach by blast
  then show ?thesis using rows_well_typed by (simp add: list_all_iff)
qed

lemma ended_tasks_stay_witness:
  "\<exists>u\<in>set (q_tasks (snd (requeue_running 9 100 sample_second_running sample_second_running))).
     t_id u = ''t1'' \<and> t_status u = Succeeded"
proof -
  obtain s where s: "sessions_reach (sample_second_running, s)" using sample_second_running_reach by blast
  let ?s = "s(0 := sample_second_running)"
  have r: "sessions_reach (sample_second_running, ?s)" using Step [OF s Reads] .
  have "session_step (sample_second_running, ?s) (snd (requeue_running 9 100 (?s 0) sample_second_running), ?s)"
    by (rule Requeues)
  then have st: "session_step\<^sup>*\<^sup>* (sample_second_running, ?s)
      (snd (requeue_running 9 100 sample_second_running sample_second_running), ?s)" by simp
  obtain t where t: "t \<in> set (q_tasks sample_second_running)" "t_id t = ''t1''" "t_status t = Succeeded"
    using sample_rows(1) by blast
  then show ?thesis using ended_tasks_stay [OF r st, of t] by auto
qed

end
