(* ===== verification/Queue_Effects.thy ===== *)
theory Queue_Effects
  imports Queue_Laws
begin

text \<open>
  What whole operations of the task queue achieve: the worker drains it, a failure reaches every task
  that waits for the failed one, and a cancellation cancels what its preview lists.
\<close>

section \<open>Draining the queue\<close>

text \<open>Every dependency of a row names an earlier row.\<close>

fun deps_before :: "string set \<Rightarrow> task list \<Rightarrow> bool" where
  "deps_before earlier [] = True"
| "deps_before earlier (t # ts) =
     ((case t_dependency t of None \<Rightarrow> True | Some d \<Rightarrow> d \<in> earlier) \<and> deps_before (insert (t_id t) earlier) ts)"

definition workable :: "string \<Rightarrow> string list \<Rightarrow> queue \<Rightarrow> bool" where
  "workable media full q =
     (ids_ok q \<and> deps_before {} (q_tasks q) \<and>
      list_all (\<lambda>t. t_status t \<in> {Queued, Succeeded} \<and> t_media t = media \<and>
        (case t_provider t of None \<Rightarrow> True | Some p \<Rightarrow> p \<notin> set full)) (q_tasks q))"

text \<open>A worker that claims the next task, finishes it, and goes on.\<close>

fun drain :: "nat \<Rightarrow> int \<Rightarrow> string \<Rightarrow> string list \<Rightarrow> queue \<Rightarrow> queue" where
  "drain 0 now media full q = q"
| "drain (Suc n) now media full q =
     (case claim_next now media full q q of
        (None, q1) \<Rightarrow> q1
      | (Some d, q1) \<Rightarrow> drain n now media full (snd (mark_succeeded now (t_id (fst d)) [] q1)))"

lemma first_queued_ready:
  assumes "deps_before earlier ts" "\<exists>t\<in>set ts. t_status t = Queued"
    and "\<And>d. d \<in> earlier \<Longrightarrow> \<exists>u\<in>S. t_id u = d \<and> t_status u = Succeeded" and "set ts \<subseteq> S"
    and "list_all (\<lambda>t. t_status t \<in> {Queued, Succeeded}) ts"
  shows "\<exists>t\<in>set ts. t_status t = Queued \<and>
    (\<forall>d. t_dependency t = Some d \<longrightarrow> (\<exists>u\<in>S. t_id u = d \<and> t_status u = Succeeded))"
  using assms
proof (induction earlier ts rule: deps_before.induct)
  case (1 earlier)
  then show ?case by simp
next
  case (2 earlier t ts)
  show ?case
  proof (cases "t_status t = Queued")
    case True
    then show ?thesis using 2(2,4) by (intro bexI [of _ t]) auto
  next
    case False
    then have s: "t_status t = Succeeded" using 2(6) by simp
    have "\<exists>u\<in>S. t_id u = d \<and> t_status u = Succeeded" if "d \<in> insert (t_id t) earlier" for d
      using that s 2(4) 2(5) by auto
    then have "\<exists>u\<in>set ts. t_status u = Queued \<and>
        (\<forall>d. t_dependency u = Some d \<longrightarrow> (\<exists>v\<in>S. t_id v = d \<and> t_status v = Succeeded))"
      using 2 False by (intro "2.IH") auto
    then show ?thesis by auto
  qed
qed

lemma workable_claims:
  assumes w: "workable media full q" and t: "\<exists>t\<in>set (q_tasks q). t_status t = Queued"
  shows "claim_candidate media full q \<noteq> None"
proof -
  obtain t where t: "t \<in> set (q_tasks q)" "t_status t = Queued"
    "\<forall>d. t_dependency t = Some d \<longrightarrow> (\<exists>u\<in>set (q_tasks q). t_id u = d \<and> t_status u = Succeeded)"
    using first_queued_ready [of "{}" "q_tasks q" "set (q_tasks q)"] w t by (auto simp: workable_def list_all_iff)
  then have "claimable media full q t"
    using w by (auto simp: claimable_def dependency_ready_def workable_def list_all_iff list_ex_iff split: option.splits)
  then have "filter (claimable media full q) (q_tasks q) \<noteq> []" using t(1) by (auto simp: filter_empty_conv)
  then have "sort_key t_queued_at (filter (claimable media full q) (q_tasks q)) \<noteq> []"
    by (metis length_0_conv length_sort)
  then show ?thesis by (auto simp: claim_candidate_def split: list.splits)
qed

lemma deps_before_map:
  "(\<And>t. t_id (f t) = t_id t \<and> t_dependency (f t) = t_dependency t) \<Longrightarrow>
     deps_before earlier (map f ts) = deps_before earlier ts"
  by (induction ts arbitrary: earlier) auto

text \<open>One round: the claimed task has succeeded, and every other row is as it was.\<close>

definition finished_row :: "int \<Rightarrow> string \<Rightarrow> task \<Rightarrow> task" where
  "finished_row now tid t =
     (if t_id t = tid
      then t\<lparr>t_status := Succeeded, t_started_at := Some now, t_finished_at := Some now, t_updated_at := now,
             t_error := None, t_result_json := Some (json_dumps (JObj []))\<rparr>
      else t)"

definition claimed_row :: "int \<Rightarrow> task \<Rightarrow> task" where
  "claimed_row now t = t\<lparr>t_status := Running, t_started_at := Some now, t_updated_at := now\<rparr>"

lemma claim_round:
  assumes ids: "ids_ok q" and c: "claim_candidate media full q = Some tid"
  obtains t where "t \<in> set (q_tasks q)" "t_id t = tid" "t_status t = Queued"
    "\<And>u. u \<in> set (q_tasks q) \<Longrightarrow> claimable media full q u \<Longrightarrow> t_queued_at t \<le> t_queued_at u"
    "fst (claim_next now media full q q) = Some (task_to_dict (claimed_row now t))"
    "q_tasks (snd (claim_next now media full q q)) = map (\<lambda>u. if u = t then claimed_row now t else u) (q_tasks q)"
proof -
  obtain t where t: "t \<in> set (q_tasks q)" "t_id t = tid" "t_status t = Queued"
    and first: "\<And>u. u \<in> set (q_tasks q) \<Longrightarrow> claimable media full q u \<Longrightarrow> t_queued_at t \<le> t_queued_at u"
    using claim_candidateD [OF c] by (auto simp: claimable_def)
  define q1 where "q1 = update_where (has_status tid [Queued])
    (\<lambda>t. t\<lparr>t_status := Running, t_started_at := Some now, t_updated_at := now\<rparr>) q"
  have only: "has_status tid [Queued] u \<longleftrightarrow> u = t" if "u \<in> set (q_tasks q)" for u
    using ids_okD [OF ids that t(1)] t(2,3) by (auto simp: has_status_def)
  then have q1: "q_tasks q1 = map (\<lambda>u. if u = t then claimed_row now t else u) (q_tasks q)"
    by (auto simp: q1_def update_where_def claimed_row_def)
  have "rows_where (has_status tid [Queued]) q \<noteq> 0"
    using t by (auto simp: rows_where_def filter_empty_conv has_status_def)
  then have claim: "claim_next now media full q q = (map_option task_to_dict (find_task tid q1), q1)"
    by (simp add: claim_next_def c q1_def Let_def)
  have mem: "claimed_row now t \<in> set (q_tasks q1)" using t(1) by (auto simp: q1 intro: rev_image_eqI)
  moreover have "t_id (claimed_row now t) = tid" using t(2) by (simp add: claimed_row_def)
  ultimately obtain u where u: "find_task tid q1 = Some u"
    unfolding find_task_def by (cases "find (\<lambda>t. t_id t = tid) (q_tasks q1)") (auto simp: find_None_iff)
  have "u \<in> set (q_tasks q1)" and uid: "t_id u = tid" using find_taskD [OF u] by auto
  then have "u \<in> (\<lambda>v. if v = t then claimed_row now t else v) ` set (q_tasks q)" by (simp only: q1 set_map)
  then obtain v where v: "u = (if v = t then claimed_row now t else v)" "v \<in> set (q_tasks q)" by (rule imageE)
  have "u = claimed_row now t"
  proof (cases "v = t")
    case False
    then have "t_id v = t_id t" using v(1) uid t(2) by simp
    then show ?thesis using ids_okD [OF ids v(2) t(1)] False by blast
  qed (simp add: v)
  then show ?thesis using that t first claim u q1 by simp
qed

lemma round_tasks:
  assumes ids: "ids_ok q" and c: "claim_candidate media full q = Some tid"
  shows "\<exists>d q1. claim_next now media full q q = (Some d, q1) \<and> t_id (fst d) = tid \<and>
    q_tasks (snd (mark_succeeded now tid [] q1)) = map (finished_row now tid) (q_tasks q)"
proof -
  obtain t where t: "t \<in> set (q_tasks q)" "t_id t = tid" "t_status t = Queued"
    "fst (claim_next now media full q q) = Some (task_to_dict (claimed_row now t))"
    "q_tasks (snd (claim_next now media full q q)) = map (\<lambda>u. if u = t then claimed_row now t else u) (q_tasks q)"
    by (rule claim_round [OF ids c])
  have by_id: "t_id u = tid \<longleftrightarrow> u = t" if "u \<in> set (q_tasks q)" for u
    using ids_okD [OF ids that t(1)] t(2) by auto
  have "q_tasks (snd (mark_succeeded now tid [] (snd (claim_next now media full q q)))) = map (finished_row now tid) (q_tasks q)"
    using by_id t(2) by (auto simp: mark_succeeded_def transition_tasks t(5) has_status_def finished_row_def claimed_row_def)
  moreover have "t_id (fst (task_to_dict (claimed_row now t))) = tid"
    using t(2) by (simp add: task_to_dict_def claimed_row_def)
  ultimately show ?thesis using t(4) by (metis prod.collapse)
qed

lemma workable_round:
  assumes "workable media full q" "q_tasks q' = map (finished_row now tid) (q_tasks q)"
  shows "workable media full q'"
proof -
  have "map t_id (map (finished_row now tid) (q_tasks q)) = map t_id (q_tasks q)"
    by (auto simp: finished_row_def)
  then show ?thesis
    using assms deps_before_map [of "finished_row now tid" "{}" "q_tasks q"]
    by (auto simp: workable_def ids_ok_def finished_row_def list_all_iff simp del: map_map)
qed

lemma waiting_round:
  assumes "q_tasks q' = map (finished_row now tid) (q_tasks q)"
    and "t \<in> set (q_tasks q)" "t_id t = tid" "t_status t = Queued"
  shows "waiting_tasks q' < waiting_tasks q"
  unfolding waiting_tasks_def rows_where_def assms(1)
  using assms(2-) by (intro rows_where_map_less [of _ _ _ t]) (auto simp: finished_row_def split: if_splits)

lemma drain_done:
  "workable media full q \<Longrightarrow> waiting_tasks q \<le> n \<Longrightarrow>
     list_all (\<lambda>t. t_status t = Succeeded) (q_tasks (drain n now media full q))"
proof (induction n arbitrary: q)
  case 0
  then show ?case by (auto simp: waiting_tasks_def rows_where_def workable_def list_all_iff filter_empty_conv)
next
  case (Suc n)
  show ?case
  proof (cases "claim_candidate media full q")
    case None
    then have "\<forall>t\<in>set (q_tasks q). t_status t \<noteq> Queued" using workable_claims [OF Suc.prems(1)] by blast
    then show ?thesis using Suc.prems(1) None by (auto simp: claim_next_def workable_def list_all_iff)
  next
    case (Some tid)
    have ids: "ids_ok q" using Suc.prems(1) by (simp add: workable_def)
    obtain d q1 where r: "claim_next now media full q q = (Some d, q1)" "t_id (fst d) = tid"
      "q_tasks (snd (mark_succeeded now tid [] q1)) = map (finished_row now tid) (q_tasks q)"
      using round_tasks [OF ids Some] by blast
    let ?q' = "snd (mark_succeeded now tid [] q1)"
    have "waiting_tasks ?q' < waiting_tasks q"
      using claim_candidateD [OF Some] waiting_round [OF r(3)] by (auto simp: claimable_def)
    then have "list_all (\<lambda>t. t_status t = Succeeded) (q_tasks (drain n now media full ?q'))"
      using Suc.IH [OF workable_round [OF Suc.prems(1) r(3)]] Suc.prems(2) by simp
    then show ?thesis using r by simp
  qed
qed

text \<open>
  C16: the queue never gets stuck. A claim takes the oldest task that is free to run, and takes none
  only if there is none; and where every dependency names an earlier task, a worker that finishes what
  it claims has, after as many rounds as tasks were waiting, finished them all.
\<close>

theorem worker_drains_queue:
  assumes "workable media full q"
  shows "list_all (\<lambda>t. t_status t = Succeeded) (q_tasks (drain (waiting_tasks q) now media full q)) \<and>
    (case fst (claim_next now media full q q) of
       None \<Rightarrow> \<not> list_ex (claimable media full q) (q_tasks q)
     | Some d \<Rightarrow> t_status (fst d) = Running \<and>
         list_all (\<lambda>u. claimable media full q u \<longrightarrow> t_queued_at (fst d) \<le> t_queued_at u) (q_tasks q))"
proof -
  have ids: "ids_ok q" using assms by (simp add: workable_def)
  have "case fst (claim_next now media full q q) of
       None \<Rightarrow> \<not> list_ex (claimable media full q) (q_tasks q)
     | Some d \<Rightarrow> t_status (fst d) = Running \<and>
         list_all (\<lambda>u. claimable media full q u \<longrightarrow> t_queued_at (fst d) \<le> t_queued_at u) (q_tasks q)"
  proof (cases "claim_candidate media full q")
    case None
    then have "filter (claimable media full q) (q_tasks q) = []"
      unfolding claim_candidate_def by (metis length_0_conv length_sort list.case_eq_if option.distinct(1))
    then show ?thesis using None by (simp add: claim_next_def filter_empty_conv list_ex_iff)
  next
    case (Some tid)
    show ?thesis
      by (rule claim_round [OF ids Some, of now])
        (simp add: list_all_iff task_to_dict_def claimed_row_def)
  qed
  then show ?thesis using drain_done [OF assms order_refl] by blast
qed

lemma worker_drains_queue_witness:
  "list_all (\<lambda>t. t_status t = Succeeded) (q_tasks (drain (waiting_tasks sample_two_tasks) 7 ''video'' [] sample_two_tasks))"
proof -
  have "workable ''video'' [] sample_two_tasks"
    by (simp add: workable_def ids_ok_def sample_two_tasks_def new_task_def sample_request_def)
  then show ?thesis using worker_drains_queue [of "''video''" "[]" sample_two_tasks 7] by blast
qed

section \<open>The cascade of a failure\<close>

lemma transition_none:
  assumes "\<And>t. t \<in> set (q_tasks q) \<Longrightarrow> \<not> has_status tid from t"
  shows "transition tid from f q = (0, q)"
proof -
  have "filter (has_status tid from) (q_tasks q) = []" using assms by (simp add: filter_empty_conv)
  then show ?thesis by (simp add: transition_def rows_where_def)
qed

lemma filter_one: "distinct xs \<Longrightarrow> x \<in> set xs \<Longrightarrow> (\<And>y. y \<in> set xs \<Longrightarrow> P y \<longleftrightarrow> y = x) \<Longrightarrow> filter P xs = [x]"
proof -
  assume d: "distinct xs" and x: "x \<in> set xs" and P: "\<And>y. y \<in> set xs \<Longrightarrow> P y \<longleftrightarrow> y = x"
  have "filter P xs = filter (\<lambda>y. y = x) xs" using P by (auto intro: filter_cong)
  also have "\<dots> = [x]" using d x by (induction xs) (auto simp: filter_empty_conv)
  finally show "filter P xs = [x]" .
qed

lemma ids_ok_rows: "ids_ok q \<Longrightarrow> distinct (q_tasks q)"
  by (simp add: ids_ok_def distinct_map)

lemma find_by_id: "ids_ok q \<Longrightarrow> t \<in> set (q_tasks q) \<Longrightarrow> find_task (t_id t) q = Some t"
proof -
  assume ids: "ids_ok q" and t: "t \<in> set (q_tasks q)"
  then obtain u where u: "find_task (t_id t) q = Some u"
    unfolding find_task_def by (cases "find (\<lambda>u. t_id u = t_id t) (q_tasks q)") (auto simp: find_None_iff)
  then show ?thesis using find_taskD [OF u] ids_okD [OF ids _ t] by blast
qed

lemma transition_one:
  assumes ids: "ids_ok q" and t: "t \<in> set (q_tasks q)" "has_status tid from t"
    and f: "t_id (f t) = t_id t" "t_status (f t) \<in> set terminal_task_statuses"
  shows "transition tid from f q
    = (1, q\<lparr>q_tasks := map (\<lambda>u. if u = t then f t else u) (q_tasks q),
            q_events := q_events q @ [\<lparr>e_task = tid, e_project = t_project (f t), e_status = t_status (f t), e_type = t_type (f t)\<rparr>]\<rparr>)"
proof -
  have only: "has_status tid from u \<longleftrightarrow> u = t" if "u \<in> set (q_tasks q)" for u
    using ids_okD [OF ids that t(1)] t(2) by (auto simp: has_status_def)
  then have one: "rows_where (has_status tid from) q = 1"
    unfolding rows_where_def by (subst filter_one [OF ids_ok_rows [OF ids] t(1)]) auto
  let ?q1 = "update_where (has_status tid from) f q"
  have tasks: "q_tasks ?q1 = map (\<lambda>u. if u = t then f t else u) (q_tasks q)"
    using only by (auto simp: update_where_def)
  have "map t_id (q_tasks ?q1) = map t_id (q_tasks q)" using f(1) by (auto simp: tasks)
  then have ids1: "ids_ok ?q1" using ids by (simp add: ids_ok_def del: map_map)
  have mem: "f t \<in> set (q_tasks ?q1)" using t(1) by (auto simp: tasks intro: rev_image_eqI)
  have "find_task tid ?q1 = Some (f t)"
    using find_by_id [OF ids1 mem] f(1) t(2) by (simp add: has_status_def)
  then show ?thesis
    using one f t(2) tasks by (simp add: transition_def Let_def record_terminal_event_def has_status_def update_where_def)
qed

text \<open>How the cascade changes a row: the tasks of \<open>E\<close> fail, each behind one that failed.\<close>

definition blocked_change :: "int \<Rightarrow> string \<Rightarrow> string set \<Rightarrow> string set \<Rightarrow> task \<Rightarrow> task \<Rightarrow> bool" where
  "blocked_change now msg B E t t' =
     (if t_id t \<in> E
      then t_status t = Queued \<and>
        (\<exists>d\<in>B \<union> E. t_dependency t = Some d \<and> t' = failed_with now (encode_bounded_cascade_failure d msg) t)
      else t' = t)"

definition unblocked :: "string set \<Rightarrow> queue \<Rightarrow> bool" where
  "unblocked B q =
     (\<forall>t\<in>set (q_tasks q). \<forall>d. t_status t = Queued \<and> t_dependency t = Some d \<longrightarrow> d \<notin> B)"

text \<open>What is still to visit: tasks behind one of \<open>B\<close>, and every queued one of those.\<close>

definition blocked_todo :: "string set \<Rightarrow> (string \<times> string) list \<Rightarrow> queue \<Rightarrow> bool" where
  "blocked_todo B todo q =
     ((\<forall>p i. (p, i) \<in> set todo \<longrightarrow> p \<in> B \<and> (\<forall>t\<in>set (q_tasks q). t_id t = i \<longrightarrow> t_dependency t = Some p)) \<and>
      (\<forall>t\<in>set (q_tasks q). \<forall>d\<in>B. t_status t = Queued \<and> t_dependency t = Some d \<longrightarrow> t_id t \<in> snd ` set todo))"

lemma blocked_todoI:
  assumes "\<And>p i. (p, i) \<in> set todo \<Longrightarrow> p \<in> B \<and> (\<forall>t\<in>set (q_tasks q). t_id t = i \<longrightarrow> t_dependency t = Some p)"
    and "\<And>t d. t \<in> set (q_tasks q) \<Longrightarrow> t_status t = Queued \<Longrightarrow> t_dependency t = Some d \<Longrightarrow> d \<in> B \<Longrightarrow>
      t_id t \<in> snd ` set todo"
  shows "blocked_todo B todo q"
  using assms unfolding blocked_todo_def by blast

lemma blocked_todoD:
  assumes "blocked_todo B todo q"
  shows "(p, i) \<in> set todo \<Longrightarrow> p \<in> B \<and> (\<forall>t\<in>set (q_tasks q). t_id t = i \<longrightarrow> t_dependency t = Some p)"
    and "t \<in> set (q_tasks q) \<Longrightarrow> t_status t = Queued \<Longrightarrow> t_dependency t = Some d \<Longrightarrow> d \<in> B \<Longrightarrow>
      t_id t \<in> snd ` set todo"
  using assms unfolding blocked_todo_def by blast+

lemma cascade_failed_spec:
  assumes "ids_ok q" and "blocked_todo B todo q"
  shows "\<exists>es. q_events (snd (cascade_failed_from now msg todo q)) = q_events q @ es \<and> distinct (map e_task es) \<and>
    fst (cascade_failed_from now msg todo q) = length es \<and> list_all (\<lambda>e. e_status e = Failed) es \<and>
    list_all2 (blocked_change now msg B (e_task ` set es)) (q_tasks q) (q_tasks (snd (cascade_failed_from now msg todo q))) \<and>
    unblocked (B \<union> e_task ` set es) (snd (cascade_failed_from now msg todo q))"
  using assms
proof (induction now msg todo q arbitrary: B rule: cascade_failed_from.induct)
  case (1 now msg q)
  have "list_all2 (blocked_change now msg B {}) (q_tasks q) (q_tasks q)"
    by (rule list_all2_refl) (simp add: blocked_change_def)
  moreover have "unblocked B q" using 1(2) by (fastforce simp: unblocked_def blocked_todo_def)
  ultimately show ?case by simp
next
  case (2 now msg parent dep todo q)
  let ?m = "encode_bounded_cascade_failure parent msg"
  note visit = blocked_todoD [OF "2.prems"(2)]
  show ?case
  proof (cases "\<exists>t\<in>set (q_tasks q). has_status dep [Queued] t")
    case False
    then have none: "mark_failed_queued_dep now dep ?m q = (0, q)"
      unfolding mark_failed_queued_dep_def by (intro transition_none) blast
    have closed: "t_id t \<in> snd ` set todo"
      if "t \<in> set (q_tasks q)" "t_status t = Queued" "t_dependency t = Some d" "d \<in> B" for t d
      using visit(2) [OF that] False that(1,2) by (auto simp: has_status_def)
    have todo': "p \<in> B \<and> (\<forall>t\<in>set (q_tasks q). t_id t = i \<longrightarrow> t_dependency t = Some p)"
      if "(p, i) \<in> set todo" for p i
      using visit(1) [of p i] that by simp
    have eq: "cascade_failed_from now msg ((parent, dep) # todo) q = cascade_failed_from now msg todo q"
      by (simp add: none)
    have "blocked_todo B todo q" using todo' closed by (intro blocked_todoI) blast+
    then show ?thesis
      unfolding eq using "2.IH"(1) [OF none [symmetric] refl refl "2.prems"(1)] by blast
  next
    case True
    then obtain t where t: "t \<in> set (q_tasks q)" "has_status dep [Queued] t" by blast
    define q1 where "q1 = q\<lparr>q_tasks := map (\<lambda>u. if u = t then failed_with now ?m t else u) (q_tasks q),
      q_events := q_events q @ [\<lparr>e_task = dep, e_project = t_project t, e_status = Failed, e_type = t_type t\<rparr>]\<rparr>"
    have tr: "mark_failed_queued_dep now dep ?m q = (1, q1)"
      unfolding mark_failed_queued_dep_def q1_def
      by (subst transition_one [OF "2.prems"(1) t]) (simp_all add: failed_with_def terminal_task_statuses_def)
    have td: "t_id t = dep" "t_status t = Queued" "t_dependency t = Some parent" "parent \<in> B"
      using t visit(1) [of parent dep] by (auto simp: has_status_def)
    have "map t_id (q_tasks q1) = map t_id (q_tasks q)" by (simp add: q1_def failed_with_def)
    then have ids1: "ids_ok q1" using "2.prems"(1) by (simp add: ids_ok_def del: map_map)
    have rows1: "u \<in> set (q_tasks q1) \<Longrightarrow> u = failed_with now ?m t \<or> u \<in> set (q_tasks q) \<and> u \<noteq> t" for u
      by (auto simp: q1_def split: if_splits)
    let ?todo = "parented dep q1 @ todo"
    have todo1: "p \<in> insert dep B \<and> (\<forall>u\<in>set (q_tasks q1). t_id u = i \<longrightarrow> t_dependency u = Some p)"
      if "(p, i) \<in> set ?todo" for p i
    proof -
      consider "(p, i) \<in> set (parented dep q1)" | "(p, i) \<in> set todo" using \<open>(p, i) \<in> set ?todo\<close> by auto
      then show ?thesis
      proof cases
        case 1
        then obtain u where u: "u \<in> set (q_tasks q1)" "t_dependency u = Some dep" "p = dep" "i = t_id u"
          by (auto simp: parented_def queued_dependents_def)
        then show ?thesis using ids_okD [OF ids1 _ u(1)] by auto
      next
        case 2
        then have "p \<in> B" "\<forall>u\<in>set (q_tasks q). t_id u = i \<longrightarrow> t_dependency u = Some p"
          using visit(1) [of p i] by auto
        then show ?thesis using rows1 t(1) by (fastforce simp: failed_with_def)
      qed
    qed
    have closed1: "t_id u \<in> snd ` set ?todo"
      if u: "u \<in> set (q_tasks q1)" "t_status u = Queued" "t_dependency u = Some d" "d \<in> insert dep B" for u d
    proof (cases "d = dep")
      case True
      then have "u \<in> set (queued_dependents dep q1)" using u by (simp add: queued_dependents_def)
      then show ?thesis by (force simp: parented_def)
    next
      case False
      have "t_status (failed_with now ?m t) = Failed" by (simp add: failed_with_def)
      then have "u \<noteq> failed_with now ?m t" using u(2) by auto
      then have "u \<in> set (q_tasks q)" "u \<noteq> t" using rows1 [OF u(1)] by blast+
      moreover from this have "t_id u \<noteq> dep" using ids_okD [OF "2.prems"(1) _ t(1)] td(1) by auto
      ultimately show ?thesis using visit(2) [of u d] u False by auto
    qed
    have ready1: "blocked_todo (insert dep B) ?todo q1" using todo1 closed1 by (intro blocked_todoI) blast+
    obtain es where es: "q_events (snd (cascade_failed_from now msg ?todo q1)) = q_events q1 @ es" "distinct (map e_task es)"
      "fst (cascade_failed_from now msg ?todo q1) = length es" "list_all (\<lambda>e. e_status e = Failed) es"
      "list_all2 (blocked_change now msg (insert dep B) (e_task ` set es)) (q_tasks q1) (q_tasks (snd (cascade_failed_from now msg ?todo q1)))"
      "unblocked (insert dep B \<union> e_task ` set es) (snd (cascade_failed_from now msg ?todo q1))"
      using "2.IH"(2) [OF tr [symmetric] refl _ ids1 ready1] by auto
    let ?e = "\<lparr>e_task = dep, e_project = t_project t, e_status = Failed, e_type = t_type t\<rparr>"
    have fresh: "dep \<notin> e_task ` set es"
    proof
      assume d: "dep \<in> e_task ` set es"
      have "failed_with now ?m t \<in> set (q_tasks q1)" using t(1) by (auto simp: q1_def intro: rev_image_eqI)
      then obtain i where i: "i < length (q_tasks q1)" "q_tasks q1 ! i = failed_with now ?m t" by (auto simp: in_set_conv_nth)
      have "blocked_change now msg (insert dep B) (e_task ` set es) (failed_with now ?m t)
          (q_tasks (snd (cascade_failed_from now msg ?todo q1)) ! i)"
        using list_all2_nthD [OF es(5) i(1)] i(2) by simp
      then show False using d td(1) by (auto simp: blocked_change_def failed_with_def)
    qed
    have change: "blocked_change now msg B (insert dep (e_task ` set es)) u u'"
      if "blocked_change now msg (insert dep B) (e_task ` set es) (if u = t then failed_with now ?m t else u) u'"
        "u \<in> set (q_tasks q)" for u u'
    proof (cases "u = t")
      case True
      then have "u' = failed_with now ?m t" using that fresh td(1) by (simp add: blocked_change_def failed_with_def)
      then show ?thesis using True td by (auto simp: blocked_change_def)
    next
      case False
      then have "t_id u \<noteq> dep" using ids_okD [OF "2.prems"(1) that(2) t(1)] td(1) by auto
      then show ?thesis using that False by (auto simp: blocked_change_def)
    qed
    have "list_all2 (blocked_change now msg B (insert dep (e_task ` set es))) (q_tasks q)
        (q_tasks (snd (cascade_failed_from now msg ?todo q1)))"
      using es(5) change by (auto simp: q1_def list_all2_conv_all_nth)
    moreover have "B \<union> insert dep (e_task ` set es) = insert dep B \<union> e_task ` set es" by blast
    ultimately show ?thesis
      using es fresh tr
      by (intro exI [of _ "?e # es"]) (simp add: case_prod_beta, simp add: q1_def)
  qed
qed

text \<open>The state between the failure of a task and the cascade behind it.\<close>

definition own_failure :: "int \<Rightarrow> string \<Rightarrow> task \<Rightarrow> queue \<Rightarrow> queue" where
  "own_failure now msg t q =
     q\<lparr>q_tasks := map (\<lambda>u. if u = t then failed_with now msg t else u) (q_tasks q),
       q_events := q_events q @ [\<lparr>e_task = t_id t, e_project = t_project t, e_status = Failed, e_type = t_type t\<rparr>]\<rparr>"

lemma own_failure_ids: "ids_ok q \<Longrightarrow> ids_ok (own_failure now msg t q)"
proof -
  have "map t_id (q_tasks (own_failure now msg t q)) = map t_id (q_tasks q)" by (simp add: own_failure_def failed_with_def)
  then show "ids_ok q \<Longrightarrow> ids_ok (own_failure now msg t q)" by (simp add: ids_ok_def del: map_map)
qed

lemma mark_failed_own:
  assumes "ids_ok q" "t \<in> set (q_tasks q)" "t_status t = Running"
  shows "mark_failed_running now (t_id t) msg q = (1, own_failure now msg t q)"
  unfolding mark_failed_running_def own_failure_def
  using assms by (subst transition_one [OF assms(1,2)]) (simp_all add: has_status_def failed_with_def terminal_task_statuses_def)

text \<open>The direct dependents of one task are a list of work that the cascade can start from.\<close>

lemma parented_ready:
  assumes "ids_ok q"
  shows "blocked_todo {p} (parented p q) q"
proof -
  have "r \<in> {p} \<and> (\<forall>u\<in>set (q_tasks q). t_id u = i \<longrightarrow> t_dependency u = Some r)" if ri: "(r, i) \<in> set (parented p q)" for r i
  proof -
    obtain u where "u \<in> set (q_tasks q)" "t_dependency u = Some p" "r = p" "i = t_id u"
      using ri by (auto simp: parented_def queued_dependents_def)
    then show ?thesis using ids_okD [OF assms] by auto
  qed
  moreover have "t_id u \<in> snd ` set (parented p q)"
    if "u \<in> set (q_tasks q)" "t_status u = Queued" "t_dependency u = Some d" "d \<in> {p}" for u d
  proof -
    have "u \<in> set (queued_dependents p q)" using that by (simp add: queued_dependents_def)
    then show ?thesis by (force simp: parented_def)
  qed
  ultimately show ?thesis by (intro blocked_todoI) blast+
qed

text \<open>What the cascade makes of the rows after the failure, as a change of the rows before it.\<close>

lemma list_all2_mono_set: "list_all2 P xs ys \<Longrightarrow> (\<And>x y. P x y \<Longrightarrow> x \<in> set xs \<Longrightarrow> Q x y) \<Longrightarrow> list_all2 Q xs ys"
  by (induction rule: list_all2_induct) auto

lemma cascade_after_own:
  assumes ids: "ids_ok q" "t \<in> set (q_tasks q)" and fresh: "t_id t \<notin> F"
    and rows: "list_all2 (blocked_change now msg {t_id t} F) (q_tasks (own_failure now msg t q)) rows"
  shows "list_all2 (\<lambda>u u'. if u = t then u' = failed_with now msg t
      else blocked_change now msg (insert (t_id t) F) (insert (t_id t) F) u u') (q_tasks q) rows"
proof -
  have change: "if u = t then u' = failed_with now msg t
      else blocked_change now msg (insert (t_id t) F) (insert (t_id t) F) u u'"
    if "blocked_change now msg {t_id t} F (if u = t then failed_with now msg t else u) u'" "u \<in> set (q_tasks q)" for u u'
  proof (cases "u = t")
    case True
    then show ?thesis using that fresh by (simp add: blocked_change_def failed_with_def)
  next
    case False
    then have "t_id u \<noteq> t_id t" using ids_okD [OF ids(1) that(2) ids(2)] by auto
    then show ?thesis using that False by (auto simp: blocked_change_def)
  qed
  have "list_all2 (\<lambda>u. blocked_change now msg {t_id t} F (if u = t then failed_with now msg t else u)) (q_tasks q) rows"
    using rows by (simp add: own_failure_def list_all2_map1)
  then show ?thesis by (rule list_all2_mono_set) (rule change)
qed

lemma own_failure_fresh:
  assumes "t \<in> set (q_tasks q)"
    and "list_all2 (blocked_change now msg {t_id t} F) (q_tasks (own_failure now msg t q)) rows"
  shows "t_id t \<notin> F"
proof
  assume d: "t_id t \<in> F"
  have "failed_with now msg t \<in> set (q_tasks (own_failure now msg t q))"
    using assms(1) by (auto simp: own_failure_def intro: rev_image_eqI)
  then obtain i where "i < length (q_tasks (own_failure now msg t q))" "q_tasks (own_failure now msg t q) ! i = failed_with now msg t"
    by (auto simp: in_set_conv_nth)
  then have "blocked_change now msg {t_id t} F (failed_with now msg t) (rows ! i)" using list_all2_nthD [OF assms(2)] by metis
  then show False using d by (auto simp: blocked_change_def failed_with_def)
qed

text \<open>
  C11: when a running task fails, every task that waits for it, directly or through others, fails with
  it, and nothing else changes: the task itself stores its bounded reason, each of the others the
  envelope naming the task it waited for; no queued task is left behind a failed one of them; each
  failure is recorded as exactly one terminal event. A task that is not running is left alone.
\<close>

theorem failure_reaches_dependents:
  assumes "ids_ok q" and "t \<in> set (q_tasks q)" and "t_id t = tid"
  shows "if t_status t \<noteq> Running then mark_failed now tid msg q = (0, q)
    else fst (mark_failed now tid msg q) = 1 \<and>
      (\<exists>es. q_events (snd (mark_failed now tid msg q)) = q_events q @ es \<and> distinct (map e_task es) \<and>
        tid \<in> e_task ` set es \<and> list_all (\<lambda>e. e_status e = Failed) es \<and>
        list_all2 (\<lambda>u u'. if u = t then u' = failed_with now msg t
            else blocked_change now msg (e_task ` set es) (e_task ` set es) u u')
          (q_tasks q) (q_tasks (snd (mark_failed now tid msg q))) \<and>
        unblocked (e_task ` set es) (snd (mark_failed now tid msg q)))"
proof (cases "t_status t = Running")
  case False
  then have "\<not> has_status tid [Running] u" if "u \<in> set (q_tasks q)" for u
    using ids_okD [OF assms(1) that assms(2)] assms(3) by (auto simp: has_status_def)
  then have "mark_failed_running now tid msg q = (0, q)"
    unfolding mark_failed_running_def by (intro transition_none)
  then show ?thesis using False by (simp add: mark_failed_def)
next
  case True
  let ?q1 = "own_failure now msg t q"
  let ?r = "snd (cascade_failed_from now msg (parented tid ?q1) ?q1)"
  let ?e = "\<lparr>e_task = tid, e_project = t_project t, e_status = Failed, e_type = t_type t\<rparr>"
  note ids1 = own_failure_ids [OF assms(1), of now msg t]
  obtain es where es: "q_events ?r = q_events ?q1 @ es" "distinct (map e_task es)" "list_all (\<lambda>e. e_status e = Failed) es"
    "list_all2 (blocked_change now msg {tid} (e_task ` set es)) (q_tasks ?q1) (q_tasks ?r)" "unblocked ({tid} \<union> e_task ` set es) ?r"
    using cascade_failed_spec [OF ids1 parented_ready [OF ids1, of tid]] by blast
  have q': "mark_failed now tid msg q = (1, ?r)"
    using mark_failed_own [OF assms(1,2) True] assms(3) by (simp add: mark_failed_def cascade_failed_queued_def)
  have fresh: "tid \<notin> e_task ` set es" by (rule own_failure_fresh [OF assms(2), unfolded assms(3), OF es(4)])
  have names: "e_task ` set (?e # es) = insert tid (e_task ` set es)" by simp
  have "list_all2 (\<lambda>u u'. if u = t then u' = failed_with now msg t
      else blocked_change now msg (e_task ` set (?e # es)) (e_task ` set (?e # es)) u u') (q_tasks q) (q_tasks ?r)"
    unfolding names by (rule cascade_after_own [OF assms(1,2), unfolded assms(3), OF fresh es(4)])
  then show ?thesis
    using True es fresh assms(3) unfolding q' by (auto intro!: exI [of _ "?e # es"] simp: own_failure_def)
qed

text \<open>The first of the two sample tasks runs and fails; the second fails with it.\<close>

definition sample_first_running :: queue where
  "sample_first_running = snd (claim_next 3 ''video'' [] sample_two_tasks sample_two_tasks)"

lemma sample_first_running_tasks:
  "map (\<lambda>t. (t_id t, t_status t, t_dependency t)) (q_tasks sample_first_running)
     = [(''t1'', Running, None), (''t2'', Queued, Some ''t1'')]"
  by code_simp

lemma failure_reaches_dependents_witness:
  "fst (mark_failed 6 ''t1'' ''boom'' sample_first_running) = 1 \<and>
    (\<exists>es. q_events (snd (mark_failed 6 ''t1'' ''boom'' sample_first_running)) = q_events sample_first_running @ es \<and>
      distinct (map e_task es) \<and> unblocked (e_task ` set es) (snd (mark_failed 6 ''t1'' ''boom'' sample_first_running)))"
proof -
  let ?f = "\<lambda>t. (t_id t, t_status t, t_dependency t)"
  have "map t_id (q_tasks sample_first_running) = map fst (map ?f (q_tasks sample_first_running))" by simp
  then have ids: "ids_ok sample_first_running" by (simp add: ids_ok_def sample_first_running_tasks del: map_map)
  have "(''t1'', Running, None) \<in> set (map ?f (q_tasks sample_first_running))"
    by (simp only: sample_first_running_tasks) simp
  then obtain t where "t \<in> set (q_tasks sample_first_running)" "t_id t = ''t1''" "t_status t = Running" by auto
  then show ?thesis using failure_reaches_dependents [OF ids, of t "''t1''" 6 "''boom''"] by auto
qed

section \<open>Cancelling what the preview lists\<close>

text \<open>Where every dependency names an earlier row, the place of a row bounds the depth behind it.\<close>

definition place_of :: "task list \<Rightarrow> string \<Rightarrow> nat" where
  "place_of ts tid = length (takeWhile (\<lambda>t. t_id t \<noteq> tid) ts)"

lemma place_le: "place_of ts tid \<le> length ts"
  by (simp add: place_of_def length_takeWhile_le)

lemma deps_before_place:
  "deps_before earlier ts \<Longrightarrow> distinct (map t_id ts) \<Longrightarrow> t \<in> set ts \<Longrightarrow> t_dependency t = Some d \<Longrightarrow>
     d \<in> earlier \<or> place_of ts d < place_of ts (t_id t)"
proof (induction earlier ts rule: deps_before.induct)
  case (1 earlier)
  then show ?case by simp
next
  case (2 earlier h ts)
  show ?case
  proof (cases "t = h")
    case True
    then show ?thesis using 2 by simp
  next
    case False
    then have t: "t \<in> set ts" "t_id t \<noteq> t_id h" using 2 by (auto simp: image_iff)
    then have "d \<in> insert (t_id h) earlier \<or> place_of ts d < place_of ts (t_id t)" using 2 by simp
    then show ?thesis using t(2) by (auto simp: place_of_def)
  qed
qed

definition ordered_queue :: "queue \<Rightarrow> bool" where
  "ordered_queue q = (ids_ok q \<and> deps_before {} (q_tasks q))"

definition queue_place :: "queue \<Rightarrow> string \<Rightarrow> nat" where
  "queue_place q tid = place_of (q_tasks q) tid"

lemma dependent_place:
  assumes "ordered_queue q" "t \<in> set (q_tasks q)" "t_dependency t = Some d"
  shows "queue_place q d < queue_place q (t_id t)"
  using deps_before_place [of "{}" "q_tasks q" t d] assms by (simp add: ordered_queue_def ids_ok_def queue_place_def)

lemma queued_dependentsD:
  "t \<in> set (queued_dependents x q) \<longleftrightarrow> t \<in> set (q_tasks q) \<and> t_dependency t = Some x \<and> t_status t = Queued"
  by (auto simp: queued_dependents_def)

lemma those_Some: "(\<And>x. x \<in> set xs \<Longrightarrow> f x = Some (g x)) \<Longrightarrow> those (map f xs) = Some (map g xs)"
  by (induction xs) simp_all

declare collect_queued_dependents.simps(2) [simp del]

text \<open>The tasks behind a task, without the fuel.\<close>

definition behind :: "queue \<Rightarrow> string \<Rightarrow> task list" where
  "behind q x = the (collect_queued_dependents (Suc (length (q_tasks q))) x q)"

lemma collect_enough:
  assumes o: "ordered_queue q"
  shows "length (q_tasks q) - queue_place q x < n \<Longrightarrow> length (q_tasks q) - queue_place q x < m \<Longrightarrow>
    collect_queued_dependents n x q = collect_queued_dependents m x q \<and> collect_queued_dependents n x q \<noteq> None"
proof (induction n arbitrary: m x)
  case 0
  then show ?case by simp
next
  case (Suc n)
  obtain k where m: "m = Suc k" using Suc.prems by (cases m) auto
  have child: "collect_queued_dependents n (t_id d) q = collect_queued_dependents k (t_id d) q \<and>
      collect_queued_dependents n (t_id d) q \<noteq> None" if "d \<in> set (queued_dependents x q)" for d
  proof -
    have "queue_place q x < queue_place q (t_id d)" using dependent_place [OF o] that by (simp add: queued_dependentsD)
    moreover have "queue_place q (t_id d) \<le> length (q_tasks q)" by (simp add: queue_place_def place_le)
    ultimately show ?thesis using Suc.prems m by (intro Suc.IH) linarith+
  qed
  then have eq: "map (\<lambda>d. map_option ((#) d) (collect_queued_dependents n (t_id d) q)) (queued_dependents x q)
      = map (\<lambda>d. map_option ((#) d) (collect_queued_dependents k (t_id d) q)) (queued_dependents x q)"
    by (intro map_cong) auto
  have some: "those (map (\<lambda>d. map_option ((#) d) (collect_queued_dependents n (t_id d) q)) (queued_dependents x q))
      = Some (map (\<lambda>d. d # the (collect_queued_dependents n (t_id d) q)) (queued_dependents x q))"
  proof (rule those_Some)
    fix d assume "d \<in> set (queued_dependents x q)"
    then obtain ds where "collect_queued_dependents n (t_id d) q = Some ds" using child by blast
    then show "map_option ((#) d) (collect_queued_dependents n (t_id d) q) = Some (d # the (collect_queued_dependents n (t_id d) q))"
      by simp
  qed
  show ?case unfolding m collect_queued_dependents.simps(2) eq [symmetric] some by simp
qed

lemma behind_unfold:
  assumes o: "ordered_queue q"
  shows "behind q x = concat (map (\<lambda>d. d # behind q (t_id d)) (queued_dependents x q))"
proof -
  let ?n = "length (q_tasks q)"
  have "collect_queued_dependents ?n (t_id d) q = Some (behind q (t_id d))" if "d \<in> set (queued_dependents x q)" for d
  proof -
    have "queue_place q x < queue_place q (t_id d)" using dependent_place [OF o] that by (simp add: queued_dependentsD)
    moreover have "queue_place q (t_id d) \<le> ?n" by (simp add: queue_place_def place_le)
    ultimately have "?n - queue_place q (t_id d) < ?n" by linarith
    then have "collect_queued_dependents ?n (t_id d) q = collect_queued_dependents (Suc ?n) (t_id d) q"
      and some: "collect_queued_dependents ?n (t_id d) q \<noteq> None"
      using collect_enough [OF o, of "t_id d" ?n "Suc ?n"] by (simp, fastforce)
    then have "behind q (t_id d) = the (collect_queued_dependents ?n (t_id d) q)" by (simp only: behind_def)
    then show ?thesis using some by auto
  qed
  then have "those (map (\<lambda>d. map_option ((#) d) (collect_queued_dependents ?n (t_id d) q)) (queued_dependents x q))
      = Some (map (\<lambda>d. d # behind q (t_id d)) (queued_dependents x q))"
    by (intro those_Some) simp
  then show ?thesis by (subst behind_def) (simp add: collect_queued_dependents.simps(2))
qed

lemma disjoint_singleton: "x \<notin> A \<Longrightarrow> A \<inter> {x} = {}"
  by blast

lemma dependents_behind: "ordered_queue q \<Longrightarrow> set (queued_dependents x q) \<subseteq> set (behind q x)"
  by (subst behind_unfold) auto

lemma collect_behind:
  assumes "ordered_queue q"
  shows "collect_queued_dependents (Suc (length (q_tasks q))) x q = Some (behind q x)"
proof -
  have "length (q_tasks q) - queue_place q x < Suc (length (q_tasks q))" by simp
  from collect_enough [OF assms this this] show ?thesis by (auto simp: behind_def)
qed

text \<open>A task waits for one other at most, so no task is behind two tasks that wait for the same one.\<close>

definition waits_for :: "queue \<Rightarrow> (string \<times> string) set" where
  "waits_for q = {(t_id t, d) |t d. t \<in> set (q_tasks q) \<and> t_dependency t = Some d}"

lemma waits_for_single: "ids_ok q \<Longrightarrow> single_valued (waits_for q)"
  unfolding single_valued_def waits_for_def using ids_okD by fastforce

lemma waits_for_place:
  assumes "ordered_queue q"
  shows "(x, y) \<in> (waits_for q)\<^sup>+ \<Longrightarrow> queue_place q y < queue_place q x"
proof (induction rule: trancl_induct)
  case (base y)
  then show ?case using dependent_place [OF assms] by (auto simp: waits_for_def)
next
  case (step y z)
  then have "queue_place q z < queue_place q y" using dependent_place [OF assms] by (auto simp: waits_for_def)
  then show ?case using step.IH by simp
qed

lemma behind_waits:
  assumes o: "ordered_queue q"
  shows "t \<in> set (behind q x) \<Longrightarrow> t \<in> set (q_tasks q) \<and> t_status t = Queued \<and> (t_id t, x) \<in> (waits_for q)\<^sup>+"
proof (induction "length (q_tasks q) - queue_place q x" arbitrary: x rule: less_induct)
  case less
  from less.prems obtain d where d: "d \<in> set (queued_dependents x q)" "t = d \<or> t \<in> set (behind q (t_id d))"
    by (subst (asm) behind_unfold [OF o]) auto
  have dq: "d \<in> set (q_tasks q)" "t_dependency d = Some x" "t_status d = Queued" using d(1) by (simp_all add: queued_dependentsD)
  have edge: "(t_id d, x) \<in> waits_for q" using dq by (auto simp: waits_for_def)
  show ?case
  proof (cases "t = d")
    case True
    then show ?thesis using dq edge by auto
  next
    case False
    have "queue_place q x < queue_place q (t_id d)" using dependent_place [OF o dq(1,2)] .
    moreover have "queue_place q (t_id d) \<le> length (q_tasks q)" by (simp add: queue_place_def place_le)
    ultimately have "length (q_tasks q) - queue_place q (t_id d) < length (q_tasks q) - queue_place q x" by linarith
    then have "t \<in> set (q_tasks q) \<and> t_status t = Queued \<and> (t_id t, t_id d) \<in> (waits_for q)\<^sup>+"
      using less.hyps d(2) False by blast
    then show ?thesis using edge by auto
  qed
qed

lemma disjoint_behind:
  assumes o: "ordered_queue q" and c: "c \<in> set (queued_dependents x q)" "e \<in> set (queued_dependents x q)" "c \<noteq> e"
    and y: "(y, t_id c) \<in> (waits_for q)\<^sup>*" "(y, t_id e) \<in> (waits_for q)\<^sup>*"
  shows False
proof -
  have ids: "ids_ok q" using o by (simp add: ordered_queue_def)
  have no: False if c: "c \<in> set (queued_dependents x q)" and e: "e \<in> set (queued_dependents x q)"
    and p: "(t_id c, t_id e) \<in> (waits_for q)\<^sup>*" and ne: "t_id c \<noteq> t_id e" for c e
  proof -
    obtain z where z: "(t_id c, z) \<in> waits_for q" "(z, t_id e) \<in> (waits_for q)\<^sup>*"
      using p ne by (meson converse_rtranclE)
    have "(t_id c, x) \<in> waits_for q" using c by (auto simp: queued_dependentsD waits_for_def)
    then have "z = x" using waits_for_single [OF ids] z(1) by (auto simp: single_valued_def)
    then have "queue_place q (t_id e) \<le> queue_place q x"
      using z(2) waits_for_place [OF o] by (metis less_imp_le_nat order_refl rtranclD)
    moreover have "queue_place q x < queue_place q (t_id e)"
      using dependent_place [OF o] e by (simp add: queued_dependentsD)
    ultimately show False by simp
  qed
  have ne: "t_id c \<noteq> t_id e" using c ids_okD [OF ids] by (auto simp: queued_dependentsD)
  have "(t_id c, t_id e) \<in> (waits_for q)\<^sup>* \<or> (t_id e, t_id c) \<in> (waits_for q)\<^sup>*"
    using single_valued_confluent [OF waits_for_single [OF ids] y] .
  then show False using no [OF c(1,2)] no [OF c(2,1)] ne by auto
qed

lemma distinct_concatI:
  assumes "distinct xs" and "\<And>x. x \<in> set xs \<Longrightarrow> distinct (f x)"
    and "\<And>x y z. x \<in> set xs \<Longrightarrow> y \<in> set xs \<Longrightarrow> x \<noteq> y \<Longrightarrow> z \<in> set (f x) \<Longrightarrow> z \<in> set (f y) \<Longrightarrow> False"
  shows "distinct (concat (map f xs))"
  using assms
proof (induction xs)
  case Nil
  then show ?case by simp
next
  case (Cons a xs)
  have "distinct (concat (map f xs))"
  proof (rule Cons.IH)
    show "distinct xs" using Cons.prems(1) by simp
    show "distinct (f x)" if "x \<in> set xs" for x using Cons.prems(2) that by simp
    show False if "x \<in> set xs" "y \<in> set xs" "x \<noteq> y" "z \<in> set (f x)" "z \<in> set (f y)" for x y z
      using Cons.prems(3) [of x y z] that by simp
  qed
  moreover have "set (f a) \<inter> set (concat (map f xs)) = {}"
    using Cons.prems(1) Cons.prems(3) [of a] by fastforce
  ultimately show ?case using Cons.prems(2) by simp
qed

lemma distinct_behind:
  assumes o: "ordered_queue q"
  shows "distinct (map t_id (behind q x))"
proof (induction "length (q_tasks q) - queue_place q x" arbitrary: x rule: less_induct)
  case less
  have ids: "ids_ok q" using o by (simp add: ordered_queue_def)
  have child: "distinct (t_id d # map t_id (behind q (t_id d)))" if d: "d \<in> set (queued_dependents x q)" for d
  proof -
    have "queue_place q x < queue_place q (t_id d)" using dependent_place [OF o] d by (simp add: queued_dependentsD)
    moreover have "queue_place q (t_id d) \<le> length (q_tasks q)" by (simp add: queue_place_def place_le)
    ultimately have "distinct (map t_id (behind q (t_id d)))" by (intro less.hyps) linarith
    moreover have "t_id d \<notin> t_id ` set (behind q (t_id d))"
      using behind_waits [OF o] waits_for_place [OF o] by fastforce
    ultimately show ?thesis by simp
  qed
  have dist: "distinct (queued_dependents x q)"
    using ids_ok_rows [OF ids] by (simp add: queued_dependents_def)
  have "distinct (concat (map (\<lambda>d. t_id d # map t_id (behind q (t_id d))) (queued_dependents x q)))"
  proof (rule distinct_concatI [OF dist child])
    fix c e y assume c: "c \<in> set (queued_dependents x q)" "e \<in> set (queued_dependents x q)" "c \<noteq> e"
      and y: "y \<in> set (t_id c # map t_id (behind q (t_id c)))" "y \<in> set (t_id e # map t_id (behind q (t_id e)))"
    have "(y, t_id c) \<in> (waits_for q)\<^sup>*" "(y, t_id e) \<in> (waits_for q)\<^sup>*"
      using y behind_waits [OF o] by (auto intro: trancl_into_rtrancl)
    then show False using disjoint_behind [OF o c] by blast
  qed
  then show ?case by (subst behind_unfold [OF o]) (simp add: map_concat comp_def)
qed

text \<open>
  The queue in the middle of a cancellation: the rows of \<open>K\<close> are no longer queued, the others are as
  they were.
\<close>

definition cancelled_so_far :: "string set \<Rightarrow> queue \<Rightarrow> queue \<Rightarrow> bool" where
  "cancelled_so_far K q q' =
     (\<exists>g. q_tasks q' = map g (q_tasks q) \<and>
       (\<forall>t\<in>set (q_tasks q). t_id (g t) = t_id t \<and>
          (if t_id t \<in> K then t_status (g t) \<noteq> Queued else g t = t)))"

lemma cancelled_so_far_ids: "cancelled_so_far K q q' \<Longrightarrow> ids_ok q \<Longrightarrow> ids_ok q'"
proof -
  assume c: "cancelled_so_far K q q'" and ids: "ids_ok q"
  then obtain g where g: "q_tasks q' = map g (q_tasks q)" "\<And>t. t \<in> set (q_tasks q) \<Longrightarrow> t_id (g t) = t_id t"
    unfolding cancelled_so_far_def by blast
  have "map t_id (q_tasks q') = map t_id (q_tasks q)" using g by simp
  then show "ids_ok q'" using ids by (simp add: ids_ok_def del: map_map)
qed

lemma dependents_so_far:
  assumes c: "cancelled_so_far K q q'" and out: "t_id ` set (queued_dependents x q) \<inter> K = {}"
  shows "queued_dependents x q' = queued_dependents x q"
proof -
  obtain g where g: "q_tasks q' = map g (q_tasks q)"
    "\<And>t. t \<in> set (q_tasks q) \<Longrightarrow> if t_id t \<in> K then t_status (g t) \<noteq> Queued else g t = t"
    using c unfolding cancelled_so_far_def by blast
  have "filter (\<lambda>t. t_dependency t = Some x \<and> t_status t = Queued) (map g ts)
      = filter (\<lambda>t. t_dependency t = Some x \<and> t_status t = Queued) ts" if "set ts \<subseteq> set (q_tasks q)" for ts
    using that
  proof (induction ts)
    case Nil
    then show ?case by simp
  next
    case (Cons t ts)
    have t: "t \<in> set (q_tasks q)" using Cons.prems by simp
    show ?case
    proof (cases "t_id t \<in> K")
      case True
      then have "t \<notin> set (queued_dependents x q)" using out by auto
      then have "\<not> (t_dependency t = Some x \<and> t_status t = Queued)" using t by (simp add: queued_dependentsD)
      then show ?thesis using Cons g(2) [OF t] True by simp
    next
      case False
      then show ?thesis using Cons g(2) [OF t] by simp
    qed
  qed
  then show ?thesis unfolding queued_dependents_def g(1) by simp
qed

lemma cancel_one:
  assumes ids: "ids_ok q" and c: "cancelled_so_far K q q'" and t: "t \<in> set (q_tasks q)" "t_status t = Queued" "t_id t \<notin> K"
    and fq: "Queued \<in> set from"
  shows "\<exists>q1. transition (t_id t) from (cancelled_with now w) q' = (1, q1) \<and> cancelled_so_far (insert (t_id t) K) q q1 \<and>
    map (t_id \<circ> fst) (map task_to_dict (filter (\<lambda>u. t_id u = t_id t) (q_tasks q1))) = [t_id t]"
proof -
  obtain g where g: "q_tasks q' = map g (q_tasks q)" "\<And>t. t \<in> set (q_tasks q) \<Longrightarrow> t_id (g t) = t_id t"
    "\<And>t. t \<in> set (q_tasks q) \<Longrightarrow> if t_id t \<in> K then t_status (g t) \<noteq> Queued else g t = t"
    using c unfolding cancelled_so_far_def by blast
  have ids': "ids_ok q'" using cancelled_so_far_ids [OF c ids] .
  have gt: "g t = t" using g(3) [OF t(1)] t(3) by simp
  have tq': "t \<in> set (q_tasks q')" using g(1) t(1) gt by (metis image_eqI set_map)
  let ?q1 = "snd (transition (t_id t) from (cancelled_with now w) q')"
  have tr: "fst (transition (t_id t) from (cancelled_with now w) q') = 1"
    and tasks: "q_tasks ?q1 = map (\<lambda>u. if u = t then cancelled_with now w t else u) (q_tasks q')"
    using transition_one [OF ids' tq', of "t_id t" "from" "cancelled_with now w"] t(2) fq
    by (simp_all add: has_status_def cancelled_with_def terminal_task_statuses_def)
  have "cancelled_so_far (insert (t_id t) K) q ?q1"
    unfolding cancelled_so_far_def
  proof (intro exI [of _ "\<lambda>u. if u = t then cancelled_with now w t else g u"] conjI ballI)
    have "(g u = t) = (u = t)" if "u \<in> set (q_tasks q)" for u
      using g(2) [OF that] gt ids_okD [OF ids that t(1)] by auto
    then show "q_tasks ?q1 = map (\<lambda>u. if u = t then cancelled_with now w t else g u) (q_tasks q)"
      using gt by (auto simp: tasks g(1))
  next
    fix u assume u: "u \<in> set (q_tasks q)"
    show "t_id (if u = t then cancelled_with now w t else g u) = t_id u"
      using g(2) [OF u] by (simp add: cancelled_with_def)
    show "if t_id u \<in> insert (t_id t) K then t_status (if u = t then cancelled_with now w t else g u) \<noteq> Queued
        else (if u = t then cancelled_with now w t else g u) = u"
      using g(3) [OF u] ids_okD [OF ids u t(1)] by (auto simp: cancelled_with_def)
  qed
  moreover have "map t_id (filter (\<lambda>u. t_id u = t_id t) (q_tasks ?q1)) = [t_id t]"
  proof -
    have ids1: "ids_ok ?q1" using cancelled_so_far_ids [OF calculation ids] .
    have "cancelled_with now w t \<in> set (q_tasks ?q1)" using tq' by (auto simp: tasks intro: rev_image_eqI)
    then have "filter (\<lambda>u. t_id u = t_id t) (q_tasks ?q1) = [cancelled_with now w t]"
      using ids_okD [OF ids1] by (intro filter_one ids_ok_rows [OF ids1]) (auto simp: cancelled_with_def)
    then show ?thesis by (simp add: cancelled_with_def)
  qed
  ultimately show ?thesis
    using tr by (intro exI [of _ ?q1]) (auto simp: task_to_dict_def comp_def prod_eq_iff)
qed

lemma cascade_cancels_behind:
  assumes o: "ordered_queue q"
  shows "cancelled_so_far K q q' \<Longrightarrow>
    list_all (\<lambda>x. \<exists>t\<in>set (q_tasks q). t_id t = x \<and> t_status t = Queued) todo \<Longrightarrow>
    distinct (concat (map (\<lambda>x. x # map t_id (behind q x)) todo)) \<Longrightarrow>
    set (concat (map (\<lambda>x. x # map t_id (behind q x)) todo)) \<inter> K = {} \<Longrightarrow>
    map (t_id \<circ> fst) (fst (cascade_cancelled_from now todo q')) = concat (map (\<lambda>x. x # map t_id (behind q x)) todo)"
proof (induction now todo q' arbitrary: K rule: cascade_cancelled_from.induct)
  case (1 now q')
  then show ?case by simp
next
  case (2 now x todo q')
  have ids: "ids_ok q" using o by (simp add: ordered_queue_def)
  obtain t where t: "t \<in> set (q_tasks q)" "t_id t = x" "t_status t = Queued" using "2.prems"(2) by auto
  have xK: "t_id t \<notin> K" using "2.prems"(4) t(2) by auto
  obtain q1 where q1: "transition x [Queued] (cancelled_with now ''cascade'') q' = (1, q1)"
    "cancelled_so_far (insert x K) q q1"
    "map (t_id \<circ> fst) (map task_to_dict (filter (\<lambda>u. t_id u = x) (q_tasks q1))) = [x]"
    using cancel_one [OF ids "2.prems"(1) t(1,3) xK, of "[Queued]" now "''cascade''"] t(2) by auto
  let ?cs = "queued_dependents x q"
  have flat_behind: "map t_id (behind q x) = concat (map (\<lambda>y. y # map t_id (behind q y)) (map t_id ?cs))"
    by (subst behind_unfold [OF o]) (simp add: map_concat comp_def)
  have deps: "queued_dependents x q1 = ?cs"
  proof (rule dependents_so_far [OF q1(2)])
    have "t_id ` set ?cs \<subseteq> set (map t_id (behind q x))" using dependents_behind [OF o] by auto
    moreover have "set (map t_id (behind q x)) \<inter> insert x K = {}" using "2.prems"(3,4) by auto
    ultimately show "t_id ` set ?cs \<inter> insert x K = {}" by blast
  qed
  let ?todo = "map t_id (queued_dependents x q1) @ todo"
  have flat: "concat (map (\<lambda>y. y # map t_id (behind q y)) ?todo)
      = map t_id (behind q x) @ concat (map (\<lambda>y. y # map t_id (behind q y)) todo)"
    by (simp only: deps flat_behind map_append concat_append)
  have IH: "map (t_id \<circ> fst) (fst (cascade_cancelled_from now ?todo q1)) = concat (map (\<lambda>y. y # map t_id (behind q y)) ?todo)"
  proof (rule "2.IH"(2) [OF q1(1) [symmetric] refl _ q1(2)])
    show "(1::nat) \<noteq> 0" by simp
    show "list_all (\<lambda>y. \<exists>t\<in>set (q_tasks q). t_id t = y \<and> t_status t = Queued) ?todo"
      using "2.prems"(2) unfolding deps by (auto simp: list_all_iff queued_dependentsD)
    show "distinct (concat (map (\<lambda>y. y # map t_id (behind q y)) ?todo))"
      unfolding flat using "2.prems"(3) by simp
    show "set (concat (map (\<lambda>y. y # map t_id (behind q y)) ?todo)) \<inter> insert x K = {}"
      unfolding flat using "2.prems"(3,4) by auto
  qed
  have eq: "fst (cascade_cancelled_from now (x # todo) q')
      = map task_to_dict (filter (\<lambda>u. t_id u = x) (q_tasks q1)) @ fst (cascade_cancelled_from now ?todo q1)"
    using q1(1) by (simp add: case_prod_beta)
  have "map (t_id \<circ> fst) (fst (cascade_cancelled_from now (x # todo) q'))
      = [x] @ concat (map (\<lambda>y. y # map t_id (behind q y)) ?todo)"
    unfolding eq map_append [of "t_id \<circ> fst"] q1(3) IH ..
  then show ?case by (simp only: flat) simp
qed

lemma flat_behind:
  assumes "ordered_queue q"
  shows "map t_id (behind q x) = concat (map (\<lambda>y. y # map t_id (behind q y)) (map t_id (queued_dependents x q)))"
  by (subst behind_unfold [OF assms]) (simp add: map_concat comp_def)

lemma not_behind_itself:
  assumes o: "ordered_queue q"
  shows "x \<notin> set (map t_id (behind q x))"
proof
  assume "x \<in> set (map t_id (behind q x))"
  then obtain u where "u \<in> set (behind q x)" "t_id u = x" by auto
  then have "(x, x) \<in> (waits_for q)\<^sup>+" using behind_waits [OF o, of u x] by simp
  then show False using waits_for_place [OF o] by blast
qed

text \<open>
  C19: the preview of a cancellation ends, and it lists what the cancellation does: where every
  dependency names an earlier row, cancelling a queued task cancels that task and then exactly the
  tasks of its preview, in the same order, and nothing is skipped.
\<close>

theorem cancel_preview_exact:
  assumes "ids_ok q" and "deps_before {} (q_tasks q)" and "t \<in> set (q_tasks q)" and "t_status t = Queued"
  shows "\<exists>ds cs q'. get_cancel_preview (Suc (length (q_tasks q))) (t_id t) q = Inr (Some (t, ds)) \<and>
    cancel_task now (t_id t) q q = Inr ((cs, []), q') \<and> map (t_id \<circ> fst) cs = t_id t # map t_id ds"
proof -
  have o: "ordered_queue q" using assms by (simp add: ordered_queue_def)
  let ?x = "t_id t"
  have find: "find_task ?x q = Some t" by (rule find_by_id [OF assms(1,3)])
  have pre: "get_cancel_preview (Suc (length (q_tasks q))) ?x q = Inr (Some (t, behind q ?x))"
    using find assms(4) collect_behind [OF o, of ?x] by (simp add: get_cancel_preview_def)
  have start: "cancelled_so_far {} q q" unfolding cancelled_so_far_def by (intro exI [of _ "\<lambda>t. t"]) simp
  obtain q1 where q1: "transition ?x [Queued] (cancelled_with now ''user'') q = (1, q1)" "cancelled_so_far {?x} q q1"
    "map (t_id \<circ> fst) (map task_to_dict (filter (\<lambda>u. t_id u = ?x) (q_tasks q1))) = [?x]"
    using cancel_one [OF assms(1) start assms(3,4), of "[Queued]" now "''user''"] by auto
  note flat_behind = flat_behind [OF o, of ?x] and out = not_behind_itself [OF o, of ?x]
  have deps: "queued_dependents ?x q1 = queued_dependents ?x q"
  proof (rule dependents_so_far [OF q1(2)])
    have "t_id ` set (queued_dependents ?x q) \<subseteq> set (map t_id (behind q ?x))" using dependents_behind [OF o] by auto
    then have "?x \<notin> t_id ` set (queued_dependents ?x q)" using out by (meson subsetD)
    then show "t_id ` set (queued_dependents ?x q) \<inter> {?x} = {}" by (rule disjoint_singleton)
  qed
  have "map (t_id \<circ> fst) (fst (cascade_cancelled_from now (map t_id (queued_dependents ?x q)) q1)) = map t_id (behind q ?x)"
    unfolding flat_behind
  proof (rule cascade_cancels_behind [OF o q1(2)])
    show "list_all (\<lambda>y. \<exists>t\<in>set (q_tasks q). t_id t = y \<and> t_status t = Queued) (map t_id (queued_dependents ?x q))"
      by (auto simp: list_all_iff queued_dependentsD)
    show "distinct (concat (map (\<lambda>y. y # map t_id (behind q y)) (map t_id (queued_dependents ?x q))))"
      using distinct_behind [OF o, of ?x] unfolding flat_behind .
    show "set (concat (map (\<lambda>y. y # map t_id (behind q y)) (map t_id (queued_dependents ?x q)))) \<inter> {?x} = {}"
      using out unfolding flat_behind by (rule disjoint_singleton)
  qed
  moreover obtain ds q2 where "cascade_cancelled_from now (map t_id (queued_dependents ?x q)) q1 = (ds, q2)"
    by (cases "cascade_cancelled_from now (map t_id (queued_dependents ?x q)) q1")
  ultimately show ?thesis
    using pre find assms(4) q1(1,3) deps
    by (auto simp: cancel_task_def mark_cancelled_def is_terminal_def terminal_task_statuses_def)
qed

lemma cancel_preview_exact_witness:
  "\<exists>ds cs q'. get_cancel_preview 3 ''t1'' sample_two_tasks = Inr (Some (hd (q_tasks sample_two_tasks), ds)) \<and>
    cancel_task 9 ''t1'' sample_two_tasks sample_two_tasks = Inr ((cs, []), q') \<and>
    map (t_id \<circ> fst) cs = ''t1'' # map t_id ds"
proof -
  have "ids_ok sample_two_tasks" "deps_before {} (q_tasks sample_two_tasks)"
    by (simp_all add: ids_ok_def sample_two_tasks_def new_task_def sample_request_def)
  moreover have "hd (q_tasks sample_two_tasks) \<in> set (q_tasks sample_two_tasks)"
    "t_status (hd (q_tasks sample_two_tasks)) = Queued" "t_id (hd (q_tasks sample_two_tasks)) = ''t1''"
    "length (q_tasks sample_two_tasks) = 2"
    by (simp_all add: sample_two_tasks_def new_task_def)
  ultimately show ?thesis
    using cancel_preview_exact [of sample_two_tasks "hd (q_tasks sample_two_tasks)" 9] by (simp add: eval_nat_numeral)
qed

end
