(* ===== verification/Worker_Lease.thy ===== *)
theory Worker_Lease
  imports Prelude
begin

text \<open>
  The lease by which one worker at a time drives the queue (\<open>lib/db/repositories/task_repo.py\<close>, table
  \<open>worker_lease\<close>). Instants are rationals where the code has floats; the sums are exact, and \<open>time.time()\<close> and \<open>utc_now()\<close> are
  the same clock. An \<open>UPDATE\<close>
  or \<open>DELETE ... WHERE\<close> is atomic, and so is the \<open>INSERT\<close> that the primary key may refuse.
\<close>

record worker_lease =
  l_name :: string
  l_owner :: string
  l_until :: rat
  l_updated_at :: rat

type_synonym leases = "worker_lease list"

definition may_take :: "string \<Rightarrow> string \<Rightarrow> rat \<Rightarrow> worker_lease \<Rightarrow> bool" where
  "may_take name owner now l = (l_name l = name \<and> (l_owner l = owner \<or> l_until l \<le> now))"

definition acquire_or_renew_lease :: "rat \<Rightarrow> string \<Rightarrow> string \<Rightarrow> rat \<Rightarrow> leases \<Rightarrow> bool \<times> leases" where
  "acquire_or_renew_lease now name owner ttl ls =
     (let until = now + max 1 ttl
      in if list_ex (may_take name owner now) ls
         then (True, map (\<lambda>l. if may_take name owner now l then l\<lparr>l_owner := owner, l_until := until, l_updated_at := now\<rparr> else l) ls)
         else if list_ex (\<lambda>l. l_name l = name) ls then (False, ls)
         else (True, ls @ [\<lparr>l_name = name, l_owner = owner, l_until = until, l_updated_at = now\<rparr>]))"

definition release_lease :: "string \<Rightarrow> string \<Rightarrow> leases \<Rightarrow> leases" where
  "release_lease name owner ls = filter (\<lambda>l. \<not> (l_name l = name \<and> l_owner l = owner)) ls"

definition is_worker_online :: "rat \<Rightarrow> string \<Rightarrow> leases \<Rightarrow> bool" where
  "is_worker_online now name ls =
     (case filter (\<lambda>l. l_name l = name) ls of [] \<Rightarrow> False | l # _ \<Rightarrow> now < l_until l)"

definition get_worker_lease :: "rat \<Rightarrow> string \<Rightarrow> leases \<Rightarrow> (worker_lease \<times> bool) option" where
  "get_worker_lease now name ls =
     (case filter (\<lambda>l. l_name l = name) ls of [] \<Rightarrow> None | l # _ \<Rightarrow> Some (l, now < l_until l))"

section \<open>Workers and a clock\<close>

text \<open>
  Workers that call the operations in any order while time passes. \<open>held\<close> is what each worker knows:
  the instant up to which its last successful call gave it the lease.
\<close>

record lease_world =
  w_leases :: leases
  w_now :: rat
  w_held :: "string \<Rightarrow> string \<Rightarrow> rat option"

inductive lease_step :: "lease_world \<Rightarrow> lease_world \<Rightarrow> bool" where
  Tick: "w_now w \<le> t \<Longrightarrow> lease_step w (w\<lparr>w_now := t\<rparr>)"
| Acquired: "acquire_or_renew_lease (w_now w) name owner ttl (w_leases w) = (True, ls) \<Longrightarrow>
    lease_step w (w\<lparr>w_leases := ls, w_held := (w_held w)(name := (w_held w name)(owner := Some (w_now w + max 1 ttl)))\<rparr>)"
| Refused: "acquire_or_renew_lease (w_now w) name owner ttl (w_leases w) = (False, ls) \<Longrightarrow>
    lease_step w (w\<lparr>w_leases := ls, w_held := (w_held w)(name := (w_held w name)(owner := None))\<rparr>)"
| Released: "lease_step w (w\<lparr>w_leases := release_lease name owner (w_leases w),
    w_held := (w_held w)(name := (w_held w name)(owner := None))\<rparr>)"

inductive lease_reachable :: "lease_world \<Rightarrow> bool" where
  Start: "lease_reachable \<lparr>w_leases = [], w_now = t, w_held = (\<lambda>_ _. None)\<rparr>"
| Step: "lease_reachable w \<Longrightarrow> lease_step w w' \<Longrightarrow> lease_reachable w'"

inductive_cases lease_stepE: "lease_step w w'"

text \<open>
  What holds in every reachable world: a name has one row, and a worker that still holds the lease is
  the owner of the row, which does not expire before.
\<close>

definition lease_ok :: "lease_world \<Rightarrow> bool" where
  "lease_ok w =
     (distinct (map l_name (w_leases w)) \<and>
      (\<forall>name owner t. w_held w name owner = Some t \<and> w_now w < t \<longrightarrow>
        (\<exists>l\<in>set (w_leases w). l_name l = name \<and> l_owner l = owner \<and> l_until l = t)))"

lemma lease_okI:
  assumes "distinct (map l_name (w_leases w))"
    and "\<And>name owner t. w_held w name owner = Some t \<Longrightarrow> w_now w < t \<Longrightarrow>
      \<exists>l\<in>set (w_leases w). l_name l = name \<and> l_owner l = owner \<and> l_until l = t"
  shows "lease_ok w"
  using assms unfolding lease_ok_def by blast

lemma lease_okD:
  assumes "lease_ok w"
  shows "distinct (map l_name (w_leases w))"
    and "w_held w name owner = Some t \<Longrightarrow> w_now w < t \<Longrightarrow>
      \<exists>l\<in>set (w_leases w). l_name l = name \<and> l_owner l = owner \<and> l_until l = t"
  using assms unfolding lease_ok_def by blast+

lemma one_row: "distinct (map l_name ls) \<Longrightarrow> l \<in> set ls \<Longrightarrow> m \<in> set ls \<Longrightarrow> l_name l = l_name m \<Longrightarrow> l = m"
  by (simp add: distinct_map inj_on_def)

lemma acquire_names:
  assumes "acquire_or_renew_lease now name owner ttl ls = (ok, ls')" "distinct (map l_name ls)"
  shows "distinct (map l_name ls')"
proof -
  have keep: "map l_name (map (\<lambda>l. if P l then l\<lparr>l_owner := a, l_until := b, l_updated_at := c\<rparr> else l) ls) = map l_name ls" for P a b c
    by (induction ls) auto
  consider "ls' = map (\<lambda>l. if may_take name owner now l then l\<lparr>l_owner := owner, l_until := now + max 1 ttl, l_updated_at := now\<rparr> else l) ls"
    | "ls' = ls"
    | "ls' = ls @ [\<lparr>l_name = name, l_owner = owner, l_until = now + max 1 ttl, l_updated_at = now\<rparr>]" "name \<notin> l_name ` set ls"
    using assms(1) by (auto simp: acquire_or_renew_lease_def Let_def list_ex_iff split: if_splits)
  then show ?thesis using assms(2) by cases (simp_all only: keep, simp)
qed

lemma acquired_row:
  assumes "acquire_or_renew_lease now name owner ttl ls = (True, ls')"
  shows "\<exists>l\<in>set ls'. l_name l = name \<and> l_owner l = owner \<and> l_until l = now + max 1 ttl"
proof (cases "list_ex (may_take name owner now) ls")
  case True
  then obtain l where l: "l \<in> set ls" "may_take name owner now l" by (auto simp: list_ex_iff)
  let ?f = "\<lambda>l. if may_take name owner now l then l\<lparr>l_owner := owner, l_until := now + max 1 ttl, l_updated_at := now\<rparr> else l"
  have "?f l \<in> set ls'" using assms True l(1) by (auto simp: acquire_or_renew_lease_def Let_def)
  then show ?thesis using l(2) by (auto simp: may_take_def intro!: bexI [of _ "?f l"])
next
  case False
  then show ?thesis using assms by (auto simp: acquire_or_renew_lease_def Let_def split: if_splits)
qed

lemma acquire_others:
  assumes "acquire_or_renew_lease now name owner ttl ls = (ok, ls')" "l \<in> set ls" "\<not> may_take name owner now l"
  shows "l \<in> set ls'"
  using assms by (auto simp: acquire_or_renew_lease_def Let_def split: if_splits)

lemma lease_ok_step: "lease_step w w' \<Longrightarrow> lease_ok w \<Longrightarrow> lease_ok w'"
proof (induction rule: lease_step.induct)
  case (Tick w t)
  then show ?case unfolding lease_ok_def by fastforce
next
  case (Acquired w name owner ttl ls)
  note ok = lease_okD [OF Acquired.prems]
  show ?case
  proof (rule lease_okI, goal_cases)
    case 1
    then show ?case using acquire_names [OF Acquired.hyps ok(1)] by simp
  next
    case (2 n x t)
    show ?case
    proof (cases "n = name \<and> x = owner")
      case True
      then show ?thesis using 2 acquired_row [OF Acquired.hyps] by simp
    next
      case False
      then have "w_held w n x = Some t" using 2(1) by (auto split: if_splits)
      then obtain l where l: "l \<in> set (w_leases w)" "l_name l = n" "l_owner l = x" "l_until l = t"
        using ok(2) 2(2) by (metis lease_world.select_convs(2) lease_world.surjective lease_world.update_convs(1,3))
      then have "\<not> may_take name owner (w_now w) l" using False 2(2) by (auto simp: may_take_def)
      then show ?thesis using acquire_others [OF Acquired.hyps l(1)] l by auto
    qed
  qed
next
  case (Refused w name owner ttl ls)
  then have "ls = w_leases w" by (auto simp: acquire_or_renew_lease_def Let_def split: if_splits)
  then show ?case using Refused.prems unfolding lease_ok_def by (auto split: if_splits)
next
  case (Released w name owner)
  note ok = lease_okD [OF Released.prems]
  show ?case
  proof (rule lease_okI, goal_cases)
    case 1
    then show ?case using ok(1) by (simp add: release_lease_def distinct_map inj_on_def)
  next
    case (2 n x t)
    then have "w_held w n x = Some t" "\<not> (n = name \<and> x = owner)" by (auto split: if_splits)
    then show ?case using ok(2) 2(2) by (fastforce simp: release_lease_def)
  qed
qed

lemma lease_ok_reachable: "lease_reachable w \<Longrightarrow> lease_ok w"
proof (induction rule: lease_reachable.induct)
  case (Start t)
  show ?case by (rule lease_okI) simp_all
qed (rule lease_ok_step)

text \<open>
  C34: whatever the workers call and in whatever order, no two of them hold the lease of a name at
  once: while the time that its last successful call gave a worker is not over, the row is its own,
  every other worker is refused, and the worker counts as online.
\<close>

theorem lease_excludes:
  assumes "lease_reachable w" and "w_held w name a = Some t" and "w_now w < t"
  shows "(\<forall>b u. w_held w name b = Some u \<and> w_now w < u \<longrightarrow> b = a)
    \<and> (\<forall>b ttl. b \<noteq> a \<longrightarrow> \<not> fst (acquire_or_renew_lease (w_now w) name b ttl (w_leases w)))
    \<and> is_worker_online (w_now w) name (w_leases w)"
proof -
  note ok = lease_okD [OF lease_ok_reachable [OF assms(1)]]
  obtain l where l: "l \<in> set (w_leases w)" "l_name l = name" "l_owner l = a" "l_until l = t"
    using ok(2) [OF assms(2,3)] by blast
  have uniq: "m = l" if "m \<in> set (w_leases w)" "l_name m = name" for m
    using one_row [OF ok(1) that(1) l(1)] that l by simp
  have "b = a" if "w_held w name b = Some u" "w_now w < u" for b u
    using ok(2) [OF that] uniq l by blast
  moreover have "\<not> fst (acquire_or_renew_lease (w_now w) name b ttl (w_leases w))" if "b \<noteq> a" for b ttl
  proof -
    have "\<not> list_ex (may_take name b (w_now w)) (w_leases w)"
    proof
      assume "list_ex (may_take name b (w_now w)) (w_leases w)"
      then obtain m where m: "m \<in> set (w_leases w)" "may_take name b (w_now w) m" by (auto simp: list_ex_iff)
      then have "m = l" using uniq by (simp add: may_take_def)
      then show False using m(2) l assms(3) that by (simp add: may_take_def)
    qed
    moreover have "list_ex (\<lambda>l. l_name l = name) (w_leases w)" using l by (auto simp: list_ex_iff)
    ultimately show ?thesis by (simp add: acquire_or_renew_lease_def Let_def)
  qed
  moreover have "is_worker_online (w_now w) name (w_leases w)"
  proof -
    have "l \<in> set (filter (\<lambda>l. l_name l = name) (w_leases w))" using l by simp
    then obtain m ms where m: "filter (\<lambda>l. l_name l = name) (w_leases w) = m # ms"
      by (cases "filter (\<lambda>l. l_name l = name) (w_leases w)") auto
    then have "m \<in> set (w_leases w)" "l_name m = name" by (auto dest: filter_eq_ConsD)
    then have "m = l" using uniq by blast
    then show ?thesis using m l assms(3) by (simp add: is_worker_online_def)
  qed
  ultimately show ?thesis by blast
qed

text \<open>Worker \<open>a\<close> takes the lease for ten seconds; worker \<open>b\<close> is refused.\<close>

definition sample_lease_start :: lease_world where
  "sample_lease_start = \<lparr>w_leases = [], w_now = 0, w_held = (\<lambda>_ _. None)\<rparr>"

definition sample_lease_world :: lease_world where
  "sample_lease_world = sample_lease_start\<lparr>w_leases := [\<lparr>l_name = ''default'', l_owner = ''a'', l_until = 10, l_updated_at = 0\<rparr>],
     w_held := (w_held sample_lease_start)(''default'' :=
       (w_held sample_lease_start ''default'')(''a'' := Some (w_now sample_lease_start + max 1 10)))\<rparr>"

lemma sample_lease_reachable: "lease_reachable sample_lease_world"
proof (rule Step)
  show "lease_reachable sample_lease_start" unfolding sample_lease_start_def by (rule Start)
  show "lease_step sample_lease_start sample_lease_world"
    unfolding sample_lease_world_def
    by (rule Acquired) (simp add: sample_lease_start_def acquire_or_renew_lease_def)
qed

lemma lease_excludes_witness:
  "\<not> fst (acquire_or_renew_lease 0 ''default'' ''b'' 5 (w_leases sample_lease_world))
    \<and> is_worker_online 0 ''default'' (w_leases sample_lease_world)"
  using lease_excludes [of sample_lease_world "''default''" "''a''" 10] sample_lease_reachable
  by (simp add: sample_lease_world_def sample_lease_start_def)

end
