(* ===== verification/Worker_Slots.thy ===== *)
theory Worker_Slots
  imports Prelude Py_Str
begin

text \<open>
  The two tables by which the worker limits what runs at once (\<open>lib/generation/generation_worker.py\<close>,
  first part, and \<open>render_lane.py\<close>): the capacity table, the numbers a provider may run per kind of
  media, and the slot table, what runs now. A slot table is a dict of dicts, so both levels are
  association lists in the order of insertion; an \<open>asyncio\<close> future is a number, and which futures are
  done is an argument.
\<close>

section \<open>The render lane\<close>

definition render_media_type :: string where
  "render_media_type = ''render''"

definition render_provider_id :: string where
  "render_provider_id = ''render''"

definition render_task_prefix :: string where
  "render_task_prefix = ''render_''"

definition render_lane_concurrency :: int where
  "render_lane_concurrency = 1"

definition is_render_task_type :: "string option \<Rightarrow> bool" where
  "is_render_task_type ty = (case ty of None \<Rightarrow> False | Some s \<Rightarrow> starts_with render_task_prefix s)"

section \<open>The capacity table\<close>

type_synonym lane_limits = "(string \<times> int) list"

record capacity_table =
  cap_limits :: "(string \<times> lane_limits) list"
  cap_defaults :: lane_limits

definition get_or :: "'v \<Rightarrow> 'k \<Rightarrow> ('k \<times> 'v) list \<Rightarrow> 'v" where
  "get_or fallback k d = (case map_of d k of None \<Rightarrow> fallback | Some v \<Rightarrow> v)"

definition capacity_get :: "capacity_table \<Rightarrow> string \<Rightarrow> string \<Rightarrow> int" where
  "capacity_get ct provider media =
     (if media = render_media_type
      then (if provider = render_provider_id then render_lane_concurrency else 0)
      else case map_of (cap_limits ct) provider of
             None \<Rightarrow> get_or 0 media (cap_defaults ct)
           | Some lanes \<Rightarrow> get_or 0 media lanes)"

definition capacity_replace :: "(string \<times> lane_limits) list \<Rightarrow> capacity_table \<Rightarrow> capacity_table" where
  "capacity_replace limits ct = ct\<lparr>cap_limits := limits\<rparr>"

text \<open>Reading a number from the environment or from the configuration.\<close>

definition read_int_env :: "string option \<Rightarrow> int \<Rightarrow> int \<Rightarrow> int" where
  "read_int_env raw fallback minimum =
     (case raw of
        None \<Rightarrow> fallback
      | Some s \<Rightarrow> (case py_int s of None \<Rightarrow> fallback | Some v \<Rightarrow> max minimum v))"

definition parse_lane_max :: "(string \<times> string) list \<Rightarrow> string \<Rightarrow> int \<Rightarrow> int" where
  "parse_lane_max config key fallback =
     (case map_of config key of
        None \<Rightarrow> fallback
      | Some raw \<Rightarrow> (case py_int raw of None \<Rightarrow> fallback | Some parsed \<Rightarrow> max 0 parsed))"

definition lane_limits_of :: "string list \<Rightarrow> int \<Rightarrow> int \<Rightarrow> int \<Rightarrow> lane_limits" where
  "lane_limits_of media_types img vid aud =
     [(''image'', if ''image'' \<in> set media_types then img else 0),
      (''video'', if ''video'' \<in> set media_types then vid else 0),
      (''audio'', if ''audio'' \<in> set media_types then aud else 0)]"

text \<open>A provider of the registry, with the media types the catalog lists for it.\<close>

record builtin_provider =
  bp_id :: string
  bp_default_concurrency :: lane_limits
  bp_media_types :: "string list"

definition lane_default :: "builtin_provider \<Rightarrow> string \<Rightarrow> int \<Rightarrow> int" where
  "lane_default meta lane global_default = get_or global_default lane (bp_default_concurrency meta)"

record custom_model =
  cm_enabled :: bool
  cm_endpoint :: string

record custom_provider =
  cp_id :: string
  cp_discovery_format :: string
  cp_image_max :: "int option"
  cp_video_max :: "int option"
  cp_audio_max :: "int option"
  cp_models :: "custom_model list"

definition comfyui_lane_default :: int where
  "comfyui_lane_default = 1"

definition is_comfyui_protocol :: "string \<Rightarrow> bool" where
  "is_comfyui_protocol discovery_format = (discovery_format = ''comfyui'')"

definition custom_lane_default :: "custom_provider \<Rightarrow> int option \<Rightarrow> int \<Rightarrow> int" where
  "custom_lane_default provider column global_default =
     (case column of
        Some n \<Rightarrow> n
      | None \<Rightarrow> if is_comfyui_protocol (cp_discovery_format provider) then comfyui_lane_default else global_default)"

definition default_lanes :: "int \<Rightarrow> int \<Rightarrow> int \<Rightarrow> lane_limits" where
  "default_lanes img vid aud =
     [(''image'', img), (''video'', vid), (''audio'', aud), (''text'', 1),
      (render_media_type, render_lane_concurrency)]"

text \<open>\<open>env\<close> gives the variables \<open>IMAGE_MAX_WORKERS\<close>, \<open>VIDEO_MAX_WORKERS\<close> and \<open>AUDIO_MAX_WORKERS\<close>.\<close>

definition capacity_from_env :: "(string \<Rightarrow> string option) \<Rightarrow> builtin_provider list \<Rightarrow> capacity_table" where
  "capacity_from_env env registry =
     (let image_max = read_int_env (env ''IMAGE_MAX_WORKERS'') 5 1;
          video_max = read_int_env (env ''VIDEO_MAX_WORKERS'') 3 1;
          audio_max = read_int_env (env ''AUDIO_MAX_WORKERS'') 10 1
      in \<lparr>cap_limits = map (\<lambda>meta. (bp_id meta, lane_limits_of (bp_media_types meta)
             (lane_default meta ''image'' image_max) (lane_default meta ''video'' video_max)
             (lane_default meta ''audio'' audio_max))) registry,
          cap_defaults = default_lanes image_max video_max audio_max\<rparr>)"

text \<open>
  The media types of a custom provider's enabled models: the loop keeps what it has resolved of the
  endpoints in a cache, and skips a model whose endpoint cannot be resolved (\<open>resolve\<close> reads the
  endpoint's definition).
\<close>

fun collect_media_types ::
    "(string \<Rightarrow> string option) \<Rightarrow> custom_model list \<Rightarrow> (string \<times> string) list \<Rightarrow> string list
       \<Rightarrow> string list \<times> (string \<times> string) list" where
  "collect_media_types resolve [] cache types = (types, cache)"
| "collect_media_types resolve (m # ms) cache types =
     (if \<not> cm_enabled m then collect_media_types resolve ms cache types
      else case map_of cache (cm_endpoint m) of
             Some ty \<Rightarrow> collect_media_types resolve ms cache (List.insert ty types)
           | None \<Rightarrow>
               (case resolve (cm_endpoint m) of
                  None \<Rightarrow> collect_media_types resolve ms cache types
                | Some ty \<Rightarrow>
                    collect_media_types resolve ms (AList.update (cm_endpoint m) ty cache) (List.insert ty types)))"

definition builtin_limits ::
    "(string \<Rightarrow> string option) \<Rightarrow> (string \<times> string) list \<Rightarrow> builtin_provider \<Rightarrow> lane_limits" where
  "builtin_limits env config meta =
     (let lane = (\<lambda>name var fallback. parse_lane_max config (name @ ''_max_workers'')
            (lane_default meta name (read_int_env (env var) fallback 1)))
      in lane_limits_of (bp_media_types meta) (lane ''image'' ''IMAGE_MAX_WORKERS'' 5)
           (lane ''video'' ''VIDEO_MAX_WORKERS'' 3) (lane ''audio'' ''AUDIO_MAX_WORKERS'' 10))"

fun custom_limits ::
    "(string \<Rightarrow> string option) \<Rightarrow> (string \<Rightarrow> string option) \<Rightarrow> custom_provider list \<Rightarrow> (string \<times> string) list
       \<Rightarrow> (string \<times> lane_limits) list \<Rightarrow> (string \<times> lane_limits) list" where
  "custom_limits env resolve [] cache limits = limits"
| "custom_limits env resolve (p # ps) cache limits =
     (let (types, cache') = collect_media_types resolve (cp_models p) cache [];
          lanes = lane_limits_of types
            (custom_lane_default p (cp_image_max p) (read_int_env (env ''IMAGE_MAX_WORKERS'') 5 1))
            (custom_lane_default p (cp_video_max p) (read_int_env (env ''VIDEO_MAX_WORKERS'') 3 1))
            (custom_lane_default p (cp_audio_max p) (read_int_env (env ''AUDIO_MAX_WORKERS'') 10 1))
      in custom_limits env resolve ps cache' (AList.update (cp_id p) lanes limits))"

definition capacity_from_db ::
    "(string \<Rightarrow> string option) \<Rightarrow> builtin_provider list \<Rightarrow> (string \<times> (string \<times> string) list) list
       \<Rightarrow> (string \<Rightarrow> string option) \<Rightarrow> custom_provider list \<Rightarrow> capacity_table" where
  "capacity_from_db env registry configs resolve customs =
     \<lparr>cap_limits = custom_limits env resolve customs []
        (map (\<lambda>meta. (bp_id meta, builtin_limits env (get_or [] (bp_id meta) configs) meta)) registry),
      cap_defaults = default_lanes (read_int_env (env ''IMAGE_MAX_WORKERS'') 5 1)
        (read_int_env (env ''VIDEO_MAX_WORKERS'') 3 1) (read_int_env (env ''AUDIO_MAX_WORKERS'') 10 1)\<rparr>"

section \<open>The slot table\<close>

record occupant =
  o_future :: nat
  o_pending :: bool

type_synonym bucket = "(string \<times> occupant) list"
type_synonym slot_table = "((string \<times> string) \<times> bucket) list"

definition bucket_of :: "string \<Rightarrow> string \<Rightarrow> slot_table \<Rightarrow> bucket" where
  "bucket_of provider media slots = get_or [] (provider, media) slots"

definition slot_register :: "string \<Rightarrow> string \<Rightarrow> string \<Rightarrow> nat \<Rightarrow> bool \<Rightarrow> slot_table \<Rightarrow> slot_table" where
  "slot_register provider media tid future pending slots =
     AList.update (provider, media)
       (AList.update tid \<lparr>o_future = future, o_pending = pending\<rparr> (bucket_of provider media slots)) slots"

definition slot_promote :: "string \<Rightarrow> string \<Rightarrow> string \<Rightarrow> slot_table \<Rightarrow> slot_table" where
  "slot_promote provider media tid slots =
     (case map_of slots (provider, media) of
        None \<Rightarrow> slots
      | Some b \<Rightarrow>
          (case map_of b tid of
             None \<Rightarrow> slots
           | Some occ \<Rightarrow> AList.update (provider, media) (AList.update tid (occ\<lparr>o_pending := False\<rparr>) b) slots))"

definition slot_release :: "string \<Rightarrow> string \<Rightarrow> string \<Rightarrow> slot_table \<Rightarrow> slot_table" where
  "slot_release provider media tid slots =
     (case map_of slots (provider, media) of
        None \<Rightarrow> slots
      | Some b \<Rightarrow>
          (let b' = AList.delete tid b
           in if b' = [] then AList.delete (provider, media) slots
              else AList.update (provider, media) b' slots))"

definition slot_occupied :: "string \<Rightarrow> string \<Rightarrow> slot_table \<Rightarrow> nat" where
  "slot_occupied provider media slots = length (bucket_of provider media slots)"

definition slot_has_room :: "string \<Rightarrow> string \<Rightarrow> int \<Rightarrow> slot_table \<Rightarrow> bool" where
  "slot_has_room provider media capacity slots =
     (0 < capacity \<and> int (slot_occupied provider media slots) < capacity)"

definition occupied_providers :: "string \<Rightarrow> slot_table \<Rightarrow> string list" where
  "occupied_providers media slots =
     dedup (map (\<lambda>((provider, _), _). provider) (filter (\<lambda>((_, m), b). m = media \<and> b \<noteq> []) slots))"

definition finished_occupant :: "(nat \<Rightarrow> bool) \<Rightarrow> string \<times> occupant \<Rightarrow> bool" where
  "finished_occupant done x = (\<not> o_pending (snd x) \<and> done (o_future (snd x)))"

definition drain_finished :: "(nat \<Rightarrow> bool) \<Rightarrow> slot_table \<Rightarrow> (string \<times> nat) list \<times> slot_table" where
  "drain_finished done slots =
     (concat (map (\<lambda>(_, b). map (\<lambda>(tid, occ). (tid, o_future occ)) (filter (finished_occupant done) b)) slots),
      filter (\<lambda>(_, b). b \<noteq> [])
        (map (\<lambda>(k, b). (k, filter (\<lambda>x. \<not> finished_occupant done x) b)) slots))"

definition active_task_ids :: "slot_table \<Rightarrow> string set" where
  "active_task_ids slots = (\<Union>(_, b)\<in>set slots. fst ` set b)"

definition all_active_tasks :: "slot_table \<Rightarrow> nat list" where
  "all_active_tasks slots = concat (map (\<lambda>(_, b). map (\<lambda>(_, occ). o_future occ) b) slots)"

definition slot_clear :: "slot_table \<Rightarrow> slot_table" where
  "slot_clear slots = []"

section \<open>The ledger as its clients see it\<close>

text \<open>
  What a client that starts work relies on: asking for room tells whether the limit is reached, and
  an admission takes at most one place of its own lane.
\<close>

locale slot_ledger =
  fixes taken :: "string \<Rightarrow> string \<Rightarrow> 's \<Rightarrow> nat"
    and room :: "string \<Rightarrow> string \<Rightarrow> int \<Rightarrow> 's \<Rightarrow> bool"
    and admit :: "string \<Rightarrow> string \<Rightarrow> string \<Rightarrow> nat \<Rightarrow> bool \<Rightarrow> 's \<Rightarrow> 's"
  assumes room_iff: "room p m c s \<longleftrightarrow> int (taken p m s) < c"
    and admit_same: "taken p m (admit p m tid f pending s) \<in> {taken p m s, Suc (taken p m s)}"
    and admit_other: "(p', m') \<noteq> (p, m) \<Longrightarrow> taken p' m' (admit p m tid f pending s) = taken p' m' s"
begin

lemma admit_mono: "taken p' m' s \<le> taken p' m' (admit p m tid f pending s)"
  using admit_same [of p m tid f pending s] admit_other [of p' m' p m tid f pending s]
  by (cases "(p', m') = (p, m)") auto

text \<open>A client that asks before it admits never takes a lane over its limit.\<close>

lemma admit_within:
  assumes "room p m (cap p m) s"
  shows "int (taken p' m' (admit p m tid f pending s)) \<le> max (int (taken p' m' s)) (cap p' m')"
  using assms admit_same [of p m tid f pending s] admit_other [of p' m' p m tid f pending s]
  by (cases "(p', m') = (p, m)") (auto simp: room_iff)

lemma full_stays_full: "\<not> room p' m' c s \<Longrightarrow> \<not> room p' m' c (admit p m tid f pending s)"
  using admit_mono [of p' m' s p m tid f pending] by (simp add: room_iff)

end

lemma length_update_le: "length (AList.update k v d) \<in> {length d, Suc (length d)}"
  by (induction d) auto

lemma bucket_of_register:
  "bucket_of p' m' (slot_register p m tid f pending slots) =
     (if (p', m') = (p, m) then AList.update tid \<lparr>o_future = f, o_pending = pending\<rparr> (bucket_of p m slots)
      else bucket_of p' m' slots)"
  by (simp add: bucket_of_def slot_register_def get_or_def)

interpretation slots: slot_ledger slot_occupied slot_has_room slot_register
proof unfold_locales
  fix p m c and s :: slot_table
  show "slot_has_room p m c s \<longleftrightarrow> int (slot_occupied p m s) < c"
    by (auto simp: slot_has_room_def intro: le_less_trans [of 0 "int (slot_occupied p m s)"])
next
  fix p m tid f pending and s :: slot_table
  show "slot_occupied p m (slot_register p m tid f pending s) \<in> {slot_occupied p m s, Suc (slot_occupied p m s)}"
    using length_update_le [of tid "\<lparr>o_future = f, o_pending = pending\<rparr>" "bucket_of p m s"]
    by (simp add: slot_occupied_def bucket_of_register)
next
  fix p m p' m' tid :: string and f pending and s :: slot_table
  assume "(p', m') \<noteq> (p, m)"
  then show "slot_occupied p' m' (slot_register p m tid f pending s) = slot_occupied p' m' s"
    by (auto simp: slot_occupied_def bucket_of_register)
qed

text \<open>A table in use: one bucket per lane, none empty, one occupant per task of a bucket.\<close>

definition slots_ok :: "slot_table \<Rightarrow> bool" where
  "slots_ok slots =
     (distinct (map fst slots) \<and> list_all (\<lambda>(_, b). b \<noteq> [] \<and> distinct (map fst b)) slots)"

definition occupies :: "slot_table \<Rightarrow> string \<Rightarrow> string \<Rightarrow> string \<Rightarrow> occupant \<Rightarrow> bool" where
  "occupies slots provider media tid occ = (map_of (bucket_of provider media slots) tid = Some occ)"

lemma bucket_in_slots: "bucket_of p m slots \<noteq> [] \<Longrightarrow> ((p, m), bucket_of p m slots) \<in> set slots"
  by (auto simp: bucket_of_def get_or_def dest: map_of_SomeD split: option.splits)

lemma set_update_subset: "set (AList.update k v d) \<subseteq> insert (k, v) (set d)"
  by (induction d) auto

lemma slots_ok_bucket: "slots_ok slots \<Longrightarrow> distinct (map fst (bucket_of p m slots))"
  using bucket_in_slots [of p m slots] by (cases "bucket_of p m slots = []") (auto simp: slots_ok_def list_all_iff)

lemma slots_ok_mem:
  "slots_ok slots \<Longrightarrow> ((p, m), b) \<in> set slots \<Longrightarrow> bucket_of p m slots = b \<and> b \<noteq> []"
  by (auto simp: slots_ok_def bucket_of_def get_or_def list_all_iff)

lemma slots_ok_update:
  assumes "slots_ok slots" "b \<noteq> []" "distinct (map fst b)"
  shows "slots_ok (AList.update k b slots)"
  using assms set_update_subset [of k b slots] AList.distinct_update [of slots k b]
  by (auto simp: slots_ok_def list_all_iff)

lemma slots_ok_register: "slots_ok slots \<Longrightarrow> slots_ok (slot_register p m tid f pending slots)"
proof -
  assume ok: "slots_ok slots"
  let ?b = "AList.update tid \<lparr>o_future = f, o_pending = pending\<rparr> (bucket_of p m slots)"
  have "?b \<noteq> []" by (cases "bucket_of p m slots") auto
  moreover have "distinct (map fst ?b)" using slots_ok_bucket [OF ok] by (rule AList.distinct_update)
  ultimately show ?thesis unfolding slot_register_def by (rule slots_ok_update [OF ok])
qed

lemma occupied_provider_iff:
  "slots_ok slots \<Longrightarrow> p \<in> set (occupied_providers media slots) \<longleftrightarrow> 0 < slot_occupied p media slots"
proof -
  assume ok: "slots_ok slots"
  show ?thesis
  proof
    assume "p \<in> set (occupied_providers media slots)"
    then obtain b where "((p, media), b) \<in> set slots" "b \<noteq> []" by (auto simp: occupied_providers_def)
    then show "0 < slot_occupied p media slots" using slots_ok_mem [OF ok] by (simp add: slot_occupied_def)
  next
    assume "0 < slot_occupied p media slots"
    then have "bucket_of p media slots \<noteq> []" by (simp add: slot_occupied_def)
    then show "p \<in> set (occupied_providers media slots)"
      using bucket_in_slots [of p media slots] by (force simp: occupied_providers_def)
  qed
qed

end
