(* ===== verification/Generation_Worker.thy ===== *)
theory Generation_Worker
  imports Queue_Laws Worker_Slots
begin

text \<open>
  The worker that consumes the queue (\<open>lib/generation/generation_worker.py\<close>, second part). Its state is
  the queue, its two tables, the futures and the semaphores it has created: a future is the execution
  of one task, its number is its position in the list; \<open>f_resumes\<close> is set where it continues a task of
  an earlier process, to the task as it was handed over and to the semaphore that admits it. What the code asks of the outside, the provider an unrecorded
  task would go to, which writes the database accepts, how an execution ends, are arguments.

  An iteration of the claim loop and the end of an execution are each one step: the code awaits the
  database in between, but no other coroutine changes the slot table or the row of a running task
  during them.
\<close>

section \<open>The state\<close>

datatype future_state = Executing | Ended | Interrupted

record future =
  f_task :: string
  f_provider :: string
  f_state :: future_state
  f_resumes :: "(task \<times> nat) option"

record worker =
  wk_queue :: queue
  wk_slots :: slot_table
  wk_capacity :: capacity_table
  wk_futures :: "future list"
  wk_permits :: "int list"

record claim_env =
  ce_now :: int
  ce_projection :: "task_dict \<Rightarrow> string"
  ce_records :: "string \<Rightarrow> bool"
  ce_requeues :: "string \<Rightarrow> bool"

section \<open>Claiming\<close>

definition pool_full_providers :: "string \<Rightarrow> capacity_table \<Rightarrow> slot_table \<Rightarrow> string list" where
  "pool_full_providers media ct slots =
     filter (\<lambda>p. let cap = capacity_get ct p media in 0 < cap \<and> \<not> slot_has_room p media cap slots)
       (occupied_providers media slots)"

definition record_provider :: "claim_env \<Rightarrow> string \<Rightarrow> string \<Rightarrow> queue \<Rightarrow> bool \<times> queue" where
  "record_provider env tid provider q =
     (if ce_records env tid then (True, persist_execution_provider_id (ce_now env) tid provider q) else (False, q))"

definition fixed_lane :: "string \<Rightarrow> bool" where
  "fixed_lane media = (media = ''text'' \<or> media = render_media_type)"

definition slot_provider ::
    "claim_env \<Rightarrow> capacity_table \<Rightarrow> task_dict \<Rightarrow> string \<Rightarrow> queue \<Rightarrow> (string \<times> bool) \<times> queue" where
  "slot_provider env ct d media q =
     (if fixed_lane media then ((ce_projection env d, False), q)
      else if truthy (t_provider (fst d)) \<and> 0 < capacity_get ct (coalesce (t_provider (fst d))) media
      then ((coalesce (t_provider (fst d)), True), q)
      else let provider = ce_projection env d; (recorded, q1) = record_provider env (t_id (fst d)) provider q
           in ((provider, recorded), q1))"

definition requeue_task :: "claim_env \<Rightarrow> string \<Rightarrow> queue \<Rightarrow> bool \<times> queue" where
  "requeue_task env tid q =
     (if \<not> ce_requeues env tid then (False, q)
      else let (affected, q1) = requeue_single_task (ce_now env) tid q in (affected \<noteq> 0, q1))"

text \<open>
  One round of the loop over a lane: whether something was claimed, whether the loop goes on, and the
  worker afterwards.
\<close>

definition claim_step :: "claim_env \<Rightarrow> string \<Rightarrow> worker \<Rightarrow> (bool \<times> bool) \<times> worker" where
  "claim_step env media w =
     (let pool_full = pool_full_providers media (wk_capacity w) (wk_slots w)
      in case claim_next (ce_now env) media pool_full (wk_queue w) (wk_queue w) of
           (None, q1) \<Rightarrow> ((False, False), w\<lparr>wk_queue := q1\<rparr>)
         | (Some d, q1) \<Rightarrow>
             (let tid = t_id (fst d);
                  ((provider, recorded), q2) = slot_provider env (wk_capacity w) d media q1;
                  cap = capacity_get (wk_capacity w) provider media
              in if cap \<le> 0
                 then ((True, True), w\<lparr>wk_queue := snd (mark_failed (ce_now env) tid
                        (failure_text ''provider_unsupported_media''
                          [(''provider_id'', JStr provider), (''media_type'', JStr media)]) q2)\<rparr>)
                 else if \<not> slot_has_room provider media cap (wk_slots w)
                 then (let (recorded', q3) = (if recorded then (True, q2) else record_provider env tid provider q2)
                       in ((False, recorded'), w\<lparr>wk_queue := snd (requeue_task env tid q3)\<rparr>))
                 else ((True, \<not> fixed_lane media),
                       w\<lparr>wk_queue := q2,
                         wk_slots := slot_register provider media tid (length (wk_futures w)) False (wk_slots w),
                         wk_futures := wk_futures w @
                           [\<lparr>f_task = tid, f_provider = provider, f_state = Executing, f_resumes = None\<rparr>]\<rparr>)))"

text \<open>
  The loop itself: \<open>while True\<close>, left by a \<open>break\<close>. It is partial by its form; that it always returns
  is proved below for tables whose task ids are distinct.
\<close>

partial_function (option) claim_lane :: "claim_env \<Rightarrow> string \<Rightarrow> bool \<Rightarrow> worker \<Rightarrow> (bool \<times> worker) option" where
  "claim_lane env media claimed_any w =
     (case claim_step env media w of
        ((claimed, continue), w1) \<Rightarrow>
          if continue then claim_lane env media (claimed_any \<or> claimed) w1
          else Some (claimed_any \<or> claimed, w1))"

fun claim_tasks :: "claim_env \<Rightarrow> string list \<Rightarrow> bool \<Rightarrow> worker \<Rightarrow> (bool \<times> worker) option" where
  "claim_tasks env [] claimed_any w = Some (claimed_any, w)"
| "claim_tasks env (media # lanes) claimed_any w =
     (case claim_lane env media claimed_any w of
        None \<Rightarrow> None
      | Some (claimed, w1) \<Rightarrow> claim_tasks env lanes claimed w1)"

definition worker_lanes :: "string list" where
  "worker_lanes = [''image'', ''video'', ''audio'', ''text'', render_media_type]"

section \<open>Executing\<close>

text \<open>
  How the execution of a claimed task ends: with a result, with an exception (its message already
  encoded), with the provider found to have changed, or by an interruption of the process, before the
  coroutine has begun, during the execution, or while the result is being saved. \<open>Save_failed\<close> is an
  error of the database while saving.
\<close>

datatype run_outcome =
    Executed "(string \<times> json) list"
  | Execution_raised string
  | Provider_changed string string
  | Interrupted_early
  | Interrupted_run
  | Interrupted_save "(string \<times> json) list"
  | Save_failed

definition fail_task_of_deleted_project :: "int \<Rightarrow> string \<Rightarrow> queue \<Rightarrow> queue" where
  "fail_task_of_deleted_project now tid q =
     snd (mark_failed now tid (failure_text ''project_deleted_during_task'' []) q)"

definition run_claimed_task :: "claim_env \<Rightarrow> bool \<Rightarrow> run_outcome \<Rightarrow> string \<Rightarrow> queue \<Rightarrow> queue" where
  "run_claimed_task env revoked outcome tid q =
     (let now = ce_now env in
      case outcome of
        Interrupted_early \<Rightarrow> q
      | Interrupted_run \<Rightarrow> snd (finalize_interrupted now tid q)
      | Provider_changed claimed actual \<Rightarrow>
          if revoked then fail_task_of_deleted_project now tid q
          else (let q1 = (if ce_records env tid then persist_execution_provider_id now tid actual q else q);
                    (requeued, q2) = requeue_task env tid q1
                in if requeued then q2
                   else snd (mark_failed now tid
                     (failure_text ''dispatch_provider_requeue_failed''
                       [(''claimed_provider_id'', JStr claimed), (''actual_provider_id'', JStr actual)]) q2))
      | Execution_raised msg \<Rightarrow>
          if revoked then fail_task_of_deleted_project now tid q else snd (mark_failed now tid msg q)
      | Executed outcome \<Rightarrow>
          if revoked then fail_task_of_deleted_project now tid q else snd (mark_succeeded now tid outcome q)
      | Interrupted_save outcome \<Rightarrow>
          if revoked then fail_task_of_deleted_project now tid q
          else snd (finalize_interrupted now tid (snd (mark_succeeded now tid outcome q)))
      | Save_failed \<Rightarrow> if revoked then fail_task_of_deleted_project now tid q else q)"

definition state_after :: "bool \<Rightarrow> run_outcome \<Rightarrow> future_state" where
  "state_after revoked outcome =
     (case outcome of
        Interrupted_early \<Rightarrow> Interrupted
      | Interrupted_run \<Rightarrow> Interrupted
      | Interrupted_save _ \<Rightarrow> if revoked then Ended else Interrupted
      | _ \<Rightarrow> Ended)"

definition end_execution :: "claim_env \<Rightarrow> bool \<Rightarrow> run_outcome \<Rightarrow> nat \<Rightarrow> worker \<Rightarrow> worker" where
  "end_execution env revoked outcome h w =
     (let f = wk_futures w ! h
      in w\<lparr>wk_queue := run_claimed_task env revoked outcome (f_task f) (wk_queue w),
           wk_futures := (wk_futures w)[h := f\<lparr>f_state := state_after revoked outcome\<rparr>]\<rparr>)"

definition future_done :: "worker \<Rightarrow> nat \<Rightarrow> bool" where
  "future_done w h = (f_state (wk_futures w ! h) \<noteq> Executing)"

definition drain_finished_tasks :: "int \<Rightarrow> worker \<Rightarrow> worker" where
  "drain_finished_tasks now w =
     (let (finished, slots) = drain_finished (future_done w) (wk_slots w)
      in w\<lparr>wk_slots := slots,
           wk_queue := fold (\<lambda>(tid, h) q.
               if f_state (wk_futures w ! h) = Interrupted then snd (finalize_interrupted now tid q) else q)
             finished (wk_queue w)\<rparr>)"

definition reload_limits :: "capacity_table option \<Rightarrow> worker \<Rightarrow> worker" where
  "reload_limits loaded w =
     (case loaded of
        None \<Rightarrow> w
      | Some new \<Rightarrow> w\<lparr>wk_capacity := capacity_replace (cap_limits new) (wk_capacity w)\<rparr>)"

end
