(* ===== verification/Worker_Claims.thy ===== *)
theory Worker_Claims
  imports Generation_Worker Queue_Effects
begin

text \<open>
  The laws of the claim loop: it returns, it never takes a lane over its limit, and it leaves a task
  waiting only where its provider is full.
\<close>

section \<open>What the end of a task changes\<close>

text \<open>
  Row by row: the tasks of \<open>S\<close> end, tasks that wait may end, and nothing else changes. \<open>F\<close> is how they end.
\<close>

definition ends_in :: "task_status set \<Rightarrow> string set \<Rightarrow> task \<Rightarrow> task \<Rightarrow> bool" where
  "ends_in F S u u' =
     (t_id u' = t_id u \<and> t_media u' = t_media u \<and> t_provider u' = t_provider u \<and>
      (case t_status u of
         Running \<Rightarrow> if t_id u \<in> S then t_status u' \<in> F else u' = u
       | Queued \<Rightarrow> t_status u' = Queued \<or> t_status u' \<in> F
       | _ \<Rightarrow> u' = u))"

definition queue_ends :: "task_status set \<Rightarrow> string set \<Rightarrow> queue \<Rightarrow> queue \<Rightarrow> bool" where
  "queue_ends F S q q' = list_all2 (ends_in F S) (q_tasks q) (q_tasks q')"

lemma ends_in_refl: "ends_in F {} u u"
  by (simp add: ends_in_def split: task_status.splits)

lemma ends_in_mono: "ends_in F S u v \<Longrightarrow> F \<subseteq> F' \<Longrightarrow> ends_in F' S u v"
  by (cases "t_status u") (auto simp: ends_in_def)

lemma ends_in_trans:
  "ends_in F S u v \<Longrightarrow> ends_in F T v w \<Longrightarrow> F \<subseteq> {Succeeded, Failed, Cancelled} \<Longrightarrow> ends_in F (S \<union> T) u w"
  by (cases "t_status u"; cases "t_status v") (auto simp: ends_in_def split: if_splits)

lemma queue_ends_refl: "queue_ends F {} q q"
  by (simp add: queue_ends_def list_all2_same ends_in_refl)

lemma queue_ends_mono: "queue_ends F S q q' \<Longrightarrow> F \<subseteq> F' \<Longrightarrow> queue_ends F' S q q'"
  unfolding queue_ends_def by (erule list_all2_mono) (rule ends_in_mono)

lemma queue_ends_union:
  assumes "queue_ends F S q q1" "queue_ends F T q1 q2" "F \<subseteq> {Succeeded, Failed, Cancelled}"
  shows "queue_ends F (S \<union> T) q q2"
  using assms unfolding queue_ends_def
  by (intro list_all2_trans [of "ends_in F S" "ends_in F T" "ends_in F (S \<union> T)"]) (auto intro: ends_in_trans)

lemma queue_ends_trans:
  "queue_ends F S q q1 \<Longrightarrow> queue_ends F {} q1 q2 \<Longrightarrow> F \<subseteq> {Succeeded, Failed, Cancelled} \<Longrightarrow> queue_ends F S q q2"
  using queue_ends_union [of F S q q1 "{}" q2] by simp

lemma queue_ends_map:
  "(\<And>u. u \<in> set (q_tasks q) \<Longrightarrow> ends_in F S u (g u)) \<Longrightarrow> q_tasks q' = map g (q_tasks q) \<Longrightarrow> queue_ends F S q q'"
  by (simp add: queue_ends_def list.rel_map list_all2_same)

lemma keeps_failed [simp]:
  "t_id (failed_with now msg u) = t_id u" "t_media (failed_with now msg u) = t_media u"
  "t_provider (failed_with now msg u) = t_provider u" "t_status (failed_with now msg u) = Failed"
  by (simp_all add: failed_with_def)

lemma keeps_cancelled [simp]:
  "t_id (cancelled_with now by_whom u) = t_id u" "t_media (cancelled_with now by_whom u) = t_media u"
  "t_provider (cancelled_with now by_whom u) = t_provider u" "t_status (cancelled_with now by_whom u) = Cancelled"
  by (simp_all add: cancelled_with_def)

definition ends_row :: "task_status \<Rightarrow> (task \<Rightarrow> task) \<Rightarrow> bool" where
  "ends_row st f =
     (\<forall>u. t_status (f u) = st \<and> t_id (f u) = t_id u \<and> t_media (f u) = t_media u \<and> t_provider (f u) = t_provider u)"

lemma ends_row_failed: "ends_row Failed (failed_with now msg)"
  by (simp add: ends_row_def)

lemma ends_row_cancelled: "ends_row Cancelled (cancelled_with now by_whom)"
  by (simp add: ends_row_def)

lemma transition_waiting_ends:
  "ends_row st f \<Longrightarrow> queue_ends {st} {} q (snd (transition tid [Queued] f q))"
  by (intro queue_ends_map [OF _ transition_tasks])
    (auto simp: ends_in_refl, auto simp: ends_row_def ends_in_def has_status_def)

lemma transition_running_ends:
  assumes "ends_row st f" and "Running \<in> set from" "set from \<subseteq> {Queued, Running}"
  shows "queue_ends {st} {tid} q (snd (transition tid from f q))"
  using assms by (intro queue_ends_map [OF _ transition_tasks])
    (auto simp: ends_row_def ends_in_def has_status_def split: task_status.splits)

lemma cascade_failed_ends: "queue_ends {Failed} {} q (snd (cascade_failed_from now msg todo q))"
proof (induction now msg todo q rule: cascade_failed_from.induct)
  case (1 now msg q)
  then show ?case by (simp add: queue_ends_refl)
next
  case (2 now msg parent dep todo q)
  obtain n q1 where s: "mark_failed_queued_dep now dep (encode_bounded_cascade_failure parent msg) q = (n, q1)"
    by (cases "mark_failed_queued_dep now dep (encode_bounded_cascade_failure parent msg) q")
  have e: "queue_ends {Failed} {} q q1"
    using transition_waiting_ends [OF ends_row_failed, of q dep now "encode_bounded_cascade_failure parent msg"] s
    by (simp add: mark_failed_queued_dep_def)
  have "n \<noteq> 0 \<Longrightarrow> queue_ends {Failed} {} q (snd (cascade_failed_from now msg (parented dep q1 @ todo) q1))"
    using queue_ends_trans [OF e] "2.IH"(2) s by simp
  moreover have "n = 0 \<Longrightarrow> queue_ends {Failed} {} q (snd (cascade_failed_from now msg todo q))"
    using "2.IH"(1) s by simp
  ultimately show ?case
    by (cases "n = 0") (simp_all only: cascade_failed_from.simps(2) s Let_def prod.case case_prod_beta if_True if_False simp_thms fst_conv snd_conv)
qed

lemma mark_failed_ends: "queue_ends {Failed} {tid} q (snd (mark_failed now tid msg q))"
proof -
  obtain n q1 where s: "mark_failed_running now tid msg q = (n, q1)" by (cases "mark_failed_running now tid msg q")
  have e: "queue_ends {Failed} {tid} q q1"
    using transition_running_ends [OF ends_row_failed, of "[Running]" tid q now msg] s by (simp add: mark_failed_running_def)
  have "n = 0 \<Longrightarrow> q1 = q" using s by (auto simp: mark_failed_running_def transition_def Let_def split: if_splits)
  then show ?thesis
    using e s queue_ends_trans [OF e cascade_failed_ends]
    by (cases "n = 0") (auto simp: mark_failed_def cascade_failed_queued_def)
qed

lemma mark_succeeded_ends: "queue_ends {Succeeded} {tid} q (snd (mark_succeeded now tid outcome q))"
  unfolding mark_succeeded_def by (rule transition_running_ends) (auto simp: ends_row_def)

lemma cascade_cancelled_ends: "queue_ends {Cancelled} {} q (snd (cascade_cancelled_from now todo q))"
proof (induction now todo q rule: cascade_cancelled_from.induct)
  case (1 now q)
  then show ?case by (simp add: queue_ends_refl)
next
  case (2 now tid todo q)
  obtain n q1 where s: "transition tid [Queued] (cancelled_with now ''cascade'') q = (n, q1)"
    by (cases "transition tid [Queued] (cancelled_with now ''cascade'') q")
  have e: "queue_ends {Cancelled} {} q q1"
    using transition_waiting_ends [OF ends_row_cancelled, of q tid now "''cascade''"] s by simp
  have "n \<noteq> 0 \<Longrightarrow> queue_ends {Cancelled} {} q (snd (cascade_cancelled_from now (map t_id (queued_dependents tid q1) @ todo) q1))"
    using queue_ends_trans [OF e] "2.IH"(2) s by simp
  moreover have "n = 0 \<Longrightarrow> queue_ends {Cancelled} {} q (snd (cascade_cancelled_from now todo q))"
    using "2.IH"(1) s by simp
  ultimately show ?case
    by (cases "n = 0") (simp_all only: cascade_cancelled_from.simps(2) s Let_def prod.case case_prod_beta if_True if_False simp_thms fst_conv snd_conv)
qed

lemma mark_cancelled_ends:
  assumes "mark_cancelled now tid by_whom from q = Some (ds, q')" "set from \<subseteq> {Queued, Running}"
  shows "queue_ends {Cancelled} (if Running \<in> set from then {tid} else {}) q q'"
proof -
  obtain n q1 where s: "transition tid from (cancelled_with now by_whom) q = (n, q1)"
    by (cases "transition tid from (cancelled_with now by_whom) q")
  have q': "q' = snd (cascade_cancelled_from now (map t_id (queued_dependents tid q1)) q1)"
    using assms(1) s by (auto simp: mark_cancelled_def case_prod_beta split: if_splits)
  have "queue_ends {Cancelled} (if Running \<in> set from then {tid} else {}) q q1"
  proof (cases "Running \<in> set from")
    case True
    then show ?thesis using transition_running_ends [OF ends_row_cancelled True assms(2), of tid q now by_whom] s by simp
  next
    case False
    have "queue_ends {Cancelled} {} q (snd (transition tid from (cancelled_with now by_whom) q))"
      using False assms(2) by (intro queue_ends_map [OF _ transition_tasks])
        (auto simp: ends_in_refl, auto simp: ends_in_def has_status_def)
    then show ?thesis using s False by simp
  qed
  then show ?thesis unfolding q' by (rule queue_ends_trans) (simp_all add: cascade_cancelled_ends)
qed

lemma finalize_ends: "queue_ends {Cancelled} {tid} q (snd (finalize_interrupted now tid q))"
proof (cases "mark_cancelled now tid ''interrupted'' [Queued, Running] q")
  case None
  then have "fst (transition tid [Queued, Running] (cancelled_with now ''interrupted'') q) = 0"
    by (auto simp: mark_cancelled_def case_prod_beta split: if_splits)
  then have "snd (transition tid [Queued, Running] (cancelled_with now ''interrupted'') q) = q"
    by (auto simp: transition_def Let_def split: if_splits)
  then show ?thesis
    using transition_running_ends [OF ends_row_cancelled, of "[Queued, Running]" tid q now "''interrupted''"] None
    by (simp add: finalize_interrupted_def)
next
  case (Some x)
  then show ?thesis
    using mark_cancelled_ends [of now tid "''interrupted''" "[Queued, Running]" q "fst x" "snd x"]
    by (simp add: finalize_interrupted_def case_prod_beta)
qed

lemma queue_ends_ids: "queue_ends F S q q' \<Longrightarrow> map t_id (q_tasks q') = map t_id (q_tasks q)"
  unfolding queue_ends_def by (induction rule: list_all2_induct) (auto simp: ends_in_def)

lemma queue_ends_ids_ok: "queue_ends F S q q' \<Longrightarrow> ids_ok q \<Longrightarrow> ids_ok q'"
  by (simp add: ids_ok_def queue_ends_ids)

section \<open>What one round of the loop changes\<close>

definition one_row :: "task \<Rightarrow> task \<Rightarrow> queue \<Rightarrow> queue \<Rightarrow> bool" where
  "one_row t t' q q' =
     (q_tasks q' = map (\<lambda>u. if u = t then t' else u) (q_tasks q) \<and> t_id t' = t_id t \<and> t_media t' = t_media t)"

definition row_ended :: "task \<Rightarrow> queue \<Rightarrow> queue \<Rightarrow> bool" where
  "row_ended t q q' =
     list_all2 (\<lambda>u u'. if u = t then t_id u' = t_id t \<and> t_status u' = Failed else ends_in {Failed} {} u u') (q_tasks q) (q_tasks q')"

lemma one_row_update:
  assumes "ids_ok q" "t \<in> set (q_tasks q)" "one_row t t1 q q1" "\<And>u. P u \<Longrightarrow> t_id u = t_id t"
    and "t_id (f t1) = t_id t" "t_media (f t1) = t_media t"
  shows "one_row t (if P t1 then f t1 else t1) q (update_where P f q1)"
proof -
  have "P u \<longleftrightarrow> False" if "u \<in> set (q_tasks q)" "u \<noteq> t" for u
    using ids_okD [OF assms(1) that(1) assms(2)] assms(4) that(2) by blast
  then show ?thesis using assms(3,5,6) by (auto simp: one_row_def update_where_def)
qed

lemma one_row_ended:
  assumes "ids_ok q" "t \<in> set (q_tasks q)" "one_row t t1 q q1" "t_status t1 = Running" "queue_ends {Failed} {t_id t} q1 q2"
  shows "row_ended t q q2"
proof -
  have rows: "q_tasks q1 = map (\<lambda>u. if u = t then t1 else u) (q_tasks q)" and id: "t_id t1 = t_id t"
    using assms(3) by (auto simp: one_row_def)
  have "list_all2 (\<lambda>u u'. ends_in {Failed} {t_id t} (if u = t then t1 else u) u') (q_tasks q) (q_tasks q2)"
    using assms(5) by (simp add: queue_ends_def rows list_all2_map1)
  then show ?thesis
    unfolding row_ended_def
  proof (rule list.rel_mono_strong)
    fix u u' assume u: "u \<in> set (q_tasks q)" and e: "ends_in {Failed} {t_id t} (if u = t then t1 else u) u'"
    show "if u = t then t_id u' = t_id t \<and> t_status u' = Failed else ends_in {Failed} {} u u'"
    proof (cases "u = t")
      case True
      then show ?thesis using e assms(4) id by (simp add: ends_in_def)
    next
      case False
      then have "t_id u \<noteq> t_id t" using ids_okD [OF assms(1) u assms(2)] by blast
      then show ?thesis using e False by (cases "t_status u") (simp_all add: ends_in_def)
    qed
  qed
qed

lemma one_row_ids: "one_row t t' q q' \<Longrightarrow> map t_id (q_tasks q') = map t_id (q_tasks q)"
  by (auto simp: one_row_def)

lemma row_ended_ids: "row_ended t q q' \<Longrightarrow> map t_id (q_tasks q') = map t_id (q_tasks q)"
  unfolding row_ended_def by (induction rule: list_all2_induct) (auto simp: ends_in_def split: if_splits)

lemma claim_next_row:
  assumes ids: "ids_ok q" and c: "claim_candidate media full q = Some tid"
  obtains t where "t \<in> set (q_tasks q)" "claimable media full q t" "t_id t = tid"
    "fst (claim_next now media full q q) = Some (task_to_dict (claimed_row now t))"
    "one_row t (claimed_row now t) q (snd (claim_next now media full q q))"
proof -
  obtain u where u: "u \<in> set (q_tasks q)" "t_id u = tid" "claimable media full q u"
    using claim_candidateD [OF c] by auto
  obtain t where t: "t \<in> set (q_tasks q)" "t_id t = tid"
    "fst (claim_next now media full q q) = Some (task_to_dict (claimed_row now t))"
    "q_tasks (snd (claim_next now media full q q)) = map (\<lambda>u. if u = t then claimed_row now t else u) (q_tasks q)"
    by (rule claim_round [OF ids c, of now]) auto
  have "u = t" using ids_okD [OF ids u(1) t(1)] u(2) t(2) by simp
  then show ?thesis using that [of t] t u by (simp add: one_row_def claimed_row_def)
qed

text \<open>Where a claimed task goes: its row is the claimed one, perhaps with the provider recorded.\<close>

lemma record_provider_row:
  assumes ids: "ids_ok q" and t: "t \<in> set (q_tasks q)" and row: "one_row t t1 q q1"
    and r: "record_provider env (t_id t) provider q1 = (recorded, q2)"
  obtains t2 where "one_row t t2 q q2" "t_status t2 = t_status t1" "recorded \<longrightarrow> t_provider t2 = Some provider"
    "recorded = ce_records env (t_id t)"
proof (cases "ce_records env (t_id t)")
  case True
  let ?t2 = "t1\<lparr>t_provider := Some provider, t_updated_at := ce_now env\<rparr>"
  have id: "t_id t1 = t_id t" "t_media t1 = t_media t" using row by (simp_all add: one_row_def)
  have "one_row t (if t_id t1 = t_id t then ?t2 else t1) q
      (update_where (\<lambda>u. t_id u = t_id t) (\<lambda>u. u\<lparr>t_provider := Some provider, t_updated_at := ce_now env\<rparr>) q1)"
    by (rule one_row_update [OF ids t row]) (simp_all add: id)
  then show ?thesis
    using that [of ?t2] r True id by (simp add: record_provider_def persist_execution_provider_id_def)
next
  case False
  then show ?thesis using that [of t1] r row by (simp add: record_provider_def)
qed

lemma slot_provider_row:
  assumes ids: "ids_ok q" and t: "t \<in> set (q_tasks q)" and row: "one_row t t1 q q1"
    and s: "slot_provider env ct (task_to_dict t1) media q1 = ((provider, recorded), q2)"
  obtains t2 where "one_row t t2 q q2" "t_status t2 = t_status t1" "recorded \<longrightarrow> t_provider t2 = Some provider"
    "\<not> fixed_lane media \<longrightarrow> ce_records env (t_id t) \<longrightarrow> recorded"
proof -
  have id: "t_id t1 = t_id t" using row by (simp add: one_row_def)
  obtain r q3 where r: "record_provider env (t_id t) (ce_projection env (task_to_dict t1)) q1 = (r, q3)"
    by (cases "record_provider env (t_id t) (ce_projection env (task_to_dict t1)) q1")
  have dict: "fst (task_to_dict t1) = t1" by (simp add: task_to_dict_def)
  consider "fixed_lane media" "recorded = False" "q2 = q1"
    | "\<not> fixed_lane media" "recorded" "t_provider t1 = Some provider" "q2 = q1"
    | "\<not> fixed_lane media" "record_provider env (t_id t) provider q1 = (recorded, q2)"
    using s r by (auto simp: slot_provider_def id dict truthy_def coalesce_def split: if_splits option.splits)
  then show ?thesis
  proof cases
    case 3
    then show ?thesis using record_provider_row [OF ids t row 3(2)] that by metis
  qed (use that [of t1] row in auto)
qed

lemma requeue_task_row:
  assumes ids: "ids_ok q" and t: "t \<in> set (q_tasks q)" and row: "one_row t t1 q q1" and run: "t_status t1 = Running"
  obtains t2 where "one_row t t2 q (snd (requeue_task env (t_id t) q1))" "t_provider t2 = t_provider t1"
    "t_status t2 = (if ce_requeues env (t_id t) then Queued else Running)"
proof (cases "ce_requeues env (t_id t)")
  case True
  let ?t2 = "t1\<lparr>t_status := Queued, t_started_at := None, t_updated_at := ce_now env\<rparr>"
  have id: "t_id t1 = t_id t" "t_media t1 = t_media t" using row by (simp_all add: one_row_def)
  have "one_row t (if has_status (t_id t) [Running] t1 then ?t2 else t1) q (update_where (has_status (t_id t) [Running])
      (\<lambda>u. u\<lparr>t_status := Queued, t_started_at := None, t_updated_at := ce_now env\<rparr>) q1)"
    by (rule one_row_update [OF ids t row]) (simp_all add: id has_status_def)
  then show ?thesis
    using that [of ?t2] True id run by (simp add: requeue_task_def requeue_single_task_def has_status_def case_prod_beta)
next
  case False
  then show ?thesis using that [of t1] row run by (simp add: requeue_task_def)
qed

abbreviation full_now :: "string \<Rightarrow> worker \<Rightarrow> string list" where
  "full_now media w \<equiv> pool_full_providers media (wk_capacity w) (wk_slots w)"

abbreviation rows_of :: "worker \<Rightarrow> task set" where
  "rows_of w \<equiv> set (q_tasks (wk_queue w))"

abbreviation free_task :: "string \<Rightarrow> worker \<Rightarrow> task \<Rightarrow> bool" where
  "free_task media w t \<equiv> t \<in> rows_of w \<and> claimable media (full_now media w) (wk_queue w) t"

definition admitted :: "string \<Rightarrow> string \<Rightarrow> string \<Rightarrow> queue \<Rightarrow> worker \<Rightarrow> worker" where
  "admitted media provider tid q w =
     w\<lparr>wk_queue := q,
       wk_slots := slot_register provider media tid (length (wk_futures w)) False (wk_slots w),
       wk_futures := wk_futures w @ [\<lparr>f_task = tid, f_provider = provider, f_state = Executing, f_resumes = None\<rparr>]\<rparr>"

lemma claim_step_cases:
  assumes ids: "ids_ok (wk_queue w)"
  obtains (idle) "\<not> (\<exists>t. free_task media w t)" "claim_step env media w = ((False, False), w)"
  | (failed) t provider q' where "free_task media w t" "capacity_get (wk_capacity w) provider media \<le> 0"
      "claim_step env media w = ((True, True), w\<lparr>wk_queue := q'\<rparr>)" "row_ended t (wk_queue w) q'"
  | (full) t t' provider recorded q' where "free_task media w t" "0 < capacity_get (wk_capacity w) provider media"
      "\<not> slot_has_room provider media (capacity_get (wk_capacity w) provider media) (wk_slots w)"
      "claim_step env media w = ((False, recorded), w\<lparr>wk_queue := q'\<rparr>)" "one_row t t' (wk_queue w) q'"
      "t_status t' = (if ce_requeues env (t_id t) then Queued else Running)"
      "recorded \<longrightarrow> t_provider t' = Some provider" "ce_records env (t_id t) \<longrightarrow> recorded"
  | (taken) t t' provider q' where "free_task media w t"
      "slot_has_room provider media (capacity_get (wk_capacity w) provider media) (wk_slots w)"
      "claim_step env media w = ((True, \<not> fixed_lane media), admitted media provider (t_id t) q' w)"
      "one_row t t' (wk_queue w) q'" "t_status t' = Running"
proof (cases "claim_candidate media (full_now media w) (wk_queue w)")
  case None
  then have "filter (claimable media (full_now media w) (wk_queue w)) (q_tasks (wk_queue w)) = []"
    unfolding claim_candidate_def by (metis length_0_conv length_sort list.case_eq_if option.distinct(1))
  then have "\<not> (\<exists>t. free_task media w t)" by (simp add: filter_empty_conv)
  moreover have "claim_step env media w = ((False, False), w)"
    using None by (simp add: claim_step_def claim_next_def Let_def)
  ultimately show ?thesis by (rule idle)
next
  case (Some tid)
  let ?q = "wk_queue w" and ?now = "ce_now env"
  obtain t where t: "t \<in> rows_of w" "claimable media (full_now media w) ?q t" "t_id t = tid"
    and claim: "fst (claim_next ?now media (full_now media w) ?q ?q) = Some (task_to_dict (claimed_row ?now t))"
      "one_row t (claimed_row ?now t) ?q (snd (claim_next ?now media (full_now media w) ?q ?q))"
    by (rule claim_next_row [OF ids Some, of ?now])
  let ?t1 = "claimed_row ?now t"
  obtain q1 where q1: "claim_next ?now media (full_now media w) ?q ?q = (Some (task_to_dict ?t1), q1)"
    using claim(1) by (cases "claim_next ?now media (full_now media w) ?q ?q") auto
  have row1: "one_row t ?t1 ?q q1" using claim(2) q1 by simp
  have run1: "t_status ?t1 = Running" "t_id (fst (task_to_dict ?t1)) = tid"
    using t(3) by (simp_all add: claimed_row_def task_to_dict_def)
  obtain provider recorded q2 where s: "slot_provider env (wk_capacity w) (task_to_dict ?t1) media q1 = ((provider, recorded), q2)"
    by (metis prod.exhaust)
  obtain t2 where t2: "one_row t t2 ?q q2" "t_status t2 = Running" "recorded \<longrightarrow> t_provider t2 = Some provider"
    "\<not> fixed_lane media \<longrightarrow> ce_records env (t_id t) \<longrightarrow> recorded"
    using slot_provider_row [OF ids t(1) row1 s] run1(1) by metis
  let ?cap = "capacity_get (wk_capacity w) provider media"
  have free: "free_task media w t" using t by simp
  consider "?cap \<le> 0" | "0 < ?cap" "\<not> slot_has_room provider media ?cap (wk_slots w)"
    | "slot_has_room provider media ?cap (wk_slots w)" by (cases "?cap \<le> 0") auto
  then show ?thesis
  proof cases
    case 1
    let ?q' = "snd (mark_failed ?now tid (failure_text ''provider_unsupported_media''
      [(''provider_id'', JStr provider), (''media_type'', JStr media)]) q2)"
    have "claim_step env media w = ((True, True), w\<lparr>wk_queue := ?q'\<rparr>)"
      using 1 by (simp add: claim_step_def q1 s run1 Let_def)
    moreover have "row_ended t ?q ?q'"
      using one_row_ended [OF ids t(1) t2(1,2)] mark_failed_ends t(3) by blast
    ultimately show ?thesis using failed free 1 by blast
  next
    case 2
    obtain recorded' q3 where r: "(if recorded then (True, q2) else record_provider env tid provider q2) = (recorded', q3)"
      by (metis prod.exhaust)
    obtain t3 where t3: "one_row t t3 ?q q3" "t_status t3 = Running" "recorded' \<longrightarrow> t_provider t3 = Some provider"
      "ce_records env (t_id t) \<longrightarrow> recorded'"
    proof (cases recorded)
      case True
      then show ?thesis using that [of t2] t2 r by auto
    next
      case False
      then have "record_provider env (t_id t) provider q2 = (recorded', q3)" using r t(3) by simp
      then show ?thesis using record_provider_row [OF ids t(1) t2(1)] t2(2) that by metis
    qed
    obtain t4 where t4: "one_row t t4 ?q (snd (requeue_task env (t_id t) q3))" "t_provider t4 = t_provider t3"
      "t_status t4 = (if ce_requeues env (t_id t) then Queued else Running)"
      by (rule requeue_task_row [OF ids t(1) t3(1,2)])
    have "claim_step env media w = ((False, recorded'), w\<lparr>wk_queue := snd (requeue_task env (t_id t) q3)\<rparr>)"
      using 2 r t(3) by (simp add: claim_step_def q1 s run1 Let_def)
    then show ?thesis using full [OF free 2] t4 t3(3,4) by simp
  next
    case 3
    have pos: "\<not> ?cap \<le> 0" using 3 by (simp add: slot_has_room_def)
    have "claim_step env media w = ((True, \<not> fixed_lane media), admitted media provider (t_id t) q2 w)"
      using 3 pos t(3) by (simp add: claim_step_def q1 s run1 Let_def admitted_def)
    then show ?thesis using taken [OF free 3 _ t2(1,2)] by simp
  qed
qed

section \<open>The loop returns\<close>

text \<open>A task the loop may still claim: it waits in the lane and its provider is not known to be full.\<close>

definition open_task :: "string \<Rightarrow> string list \<Rightarrow> task \<Rightarrow> bool" where
  "open_task media full u =
     (t_status u = Queued \<and> t_media u = media \<and> (case t_provider u of None \<Rightarrow> True | Some p \<Rightarrow> p \<notin> set full))"

definition open_tasks :: "string \<Rightarrow> worker \<Rightarrow> nat" where
  "open_tasks media w = length (filter (open_task media (full_now media w)) (q_tasks (wk_queue w)))"

definition tables_ok :: "worker \<Rightarrow> bool" where
  "tables_ok w = (ids_ok (wk_queue w) \<and> slots_ok (wk_slots w))"

lemma count_le:
  "list_all2 R xs ys \<Longrightarrow> (\<And>x y. R x y \<Longrightarrow> Q y \<Longrightarrow> P x) \<Longrightarrow> length (filter Q ys) \<le> length (filter P xs)"
  by (induction rule: list_all2_induct) (auto intro: le_SucI)

lemma count_less:
  "list_all2 R xs ys \<Longrightarrow> (\<And>x y. R x y \<Longrightarrow> Q y \<Longrightarrow> P x) \<Longrightarrow> z \<in> set xs \<Longrightarrow> P z \<Longrightarrow> (\<And>y. R z y \<Longrightarrow> \<not> Q y) \<Longrightarrow>
     length (filter Q ys) < length (filter P xs)"
proof (induction rule: list_all2_induct)
  case Nil
  then show ?case by simp
next
  case (Cons x xs y ys)
  show ?case
  proof (cases "x = z")
    case True
    then have "P x" "\<not> Q y" using Cons.prems(3,4) Cons.hyps(1) by auto
    then show ?thesis using count_le [of R xs ys Q P] Cons.hyps(2) Cons.prems(1) by (simp add: less_Suc_eq_le)
  next
    case False
    then have "length (filter Q ys) < length (filter P xs)" using Cons by simp
    then show ?thesis using Cons.prems(1) [OF Cons.hyps(1)] by auto
  qed
qed

lemma open_claimable: "claimable media full q t \<Longrightarrow> open_task media full t"
  by (simp add: claimable_def open_task_def)

lemma open_ends: "ends_in {Failed} {} u u' \<Longrightarrow> open_task media full u' \<Longrightarrow> open_task media full u"
  by (cases "t_status u") (auto simp: ends_in_def open_task_def)

lemma open_fewer_full: "set full \<subseteq> set full' \<Longrightarrow> open_task media full' u \<Longrightarrow> open_task media full u"
  by (auto simp: open_task_def split: option.splits)

lemma failed_not_open: "t_status u = Failed \<Longrightarrow> \<not> open_task media full u"
  by (simp add: open_task_def)

lemma pool_full_iff:
  "slots_ok slots \<Longrightarrow> p \<in> set (pool_full_providers media ct slots) \<longleftrightarrow>
     0 < capacity_get ct p media \<and> capacity_get ct p media \<le> int (slot_occupied p media slots)"
  by (auto simp: pool_full_providers_def occupied_provider_iff slots.room_iff Let_def)

lemma full_now_admitted:
  assumes "slots_ok (wk_slots w)"
  shows "set (full_now media w) \<subseteq> set (full_now media (admitted media p tid q w))"
proof
  fix x assume "x \<in> set (full_now media w)"
  then show "x \<in> set (full_now media (admitted media p tid q w))"
    using slots_ok_register [OF assms] slots.admit_mono [of x media "wk_slots w" p media tid "length (wk_futures w)" False]
    by (auto simp: pool_full_iff assms admitted_def)
qed

lemma claim_step_ok:
  assumes ok: "tables_ok w" and s: "claim_step env media w = (x, w')"
  shows "tables_ok w'"
proof -
  have ids: "ids_ok (wk_queue w)" and sl: "slots_ok (wk_slots w)" using ok by (simp_all add: tables_ok_def)
  show ?thesis
    by (rule claim_step_cases [OF ids, of media env])
      (use s sl ids in \<open>auto simp: tables_ok_def ids_ok_def one_row_ids row_ended_ids admitted_def slots_ok_register\<close>)
qed

lemma claim_step_less:
  assumes ok: "tables_ok w" and s: "claim_step env media w = ((c, True), w')"
  shows "open_tasks media w' < open_tasks media w"
proof -
  have ids: "ids_ok (wk_queue w)" and sl: "slots_ok (wk_slots w)" using ok by (simp_all add: tables_ok_def)
  have other: "open_tasks media w' < open_tasks media w"
    if t: "free_task media w t" and row: "one_row t t' (wk_queue w) (wk_queue w')"
      and mono: "set (full_now media w) \<subseteq> set (full_now media w')" and closed: "\<not> open_task media (full_now media w') t'" for t t'
    unfolding open_tasks_def
  proof (rule count_less [where R = "\<lambda>u u'. u' = (if u = t then t' else u)" and z = t])
    show "list_all2 (\<lambda>u u'. u' = (if u = t then t' else u)) (q_tasks (wk_queue w)) (q_tasks (wk_queue w'))"
      using row by (simp add: one_row_def list.rel_map list_all2_same)
    show "open_task media (full_now media w) u"
      if "u' = (if u = t then t' else u)" "open_task media (full_now media w') u'" for u u'
      using that closed open_fewer_full [OF mono] by (auto split: if_splits)
    show "t \<in> rows_of w" "open_task media (full_now media w) t" using t open_claimable by auto
    show "\<not> open_task media (full_now media w') u'" if "u' = (if t = t then t' else t)" for u'
      using closed that by simp
  qed
  show ?thesis
  proof (rule claim_step_cases [OF ids, of media env])
    assume "claim_step env media w = ((False, False), w)"
    then show ?thesis using s by simp
  next
    fix t provider q'
    assume t: "free_task media w t" and c: "claim_step env media w = ((True, True), w\<lparr>wk_queue := q'\<rparr>)"
      and e: "row_ended t (wk_queue w) q'"
    have w': "w' = w\<lparr>wk_queue := q'\<rparr>" using s c by simp
    have "length (filter (open_task media (full_now media w)) (q_tasks q'))
        < length (filter (open_task media (full_now media w)) (q_tasks (wk_queue w)))"
      using t open_claimable failed_not_open
      by (intro count_less [OF e [unfolded row_ended_def], where z = t]) (auto dest: open_ends split: if_splits)
    then show ?thesis by (simp add: open_tasks_def w')
  next
    fix t t' provider recorded q'
    assume t: "free_task media w t" and full: "0 < capacity_get (wk_capacity w) provider media"
        "\<not> slot_has_room provider media (capacity_get (wk_capacity w) provider media) (wk_slots w)"
      and c: "claim_step env media w = ((False, recorded), w\<lparr>wk_queue := q'\<rparr>)" "one_row t t' (wk_queue w) q'"
        "recorded \<longrightarrow> t_provider t' = Some provider"
    have w': "w' = w\<lparr>wk_queue := q'\<rparr>" "t_provider t' = Some provider" using s c by auto
    have "provider \<in> set (full_now media w)" using full sl by (simp add: pool_full_iff slots.room_iff)
    then show ?thesis using other [OF t, of t'] c(2) w' by (auto simp: open_task_def)
  next
    fix t t' provider q'
    assume t: "free_task media w t"
      and c: "claim_step env media w = ((True, \<not> fixed_lane media), admitted media provider (t_id t) q' w)"
        "one_row t t' (wk_queue w) q'" "t_status t' = Running"
    have w': "w' = admitted media provider (t_id t) q' w" using s c by simp
    then have "one_row t t' (wk_queue w) (wk_queue w')" using c(2) by (simp add: admitted_def)
    then show ?thesis
      using other [OF t, of t'] c(3) full_now_admitted [OF sl] by (auto simp: w' open_task_def)
  qed
qed

definition claims_on :: "claim_env \<Rightarrow> string \<Rightarrow> worker \<Rightarrow> worker \<Rightarrow> bool" where
  "claims_on env media w w' = (\<exists>c. claim_step env media w = ((c, True), w'))"

lemma claim_lane_run:
  assumes "tables_ok w"
  shows "\<exists>b c w1 w2. claim_lane env media any w = Some (b, w2) \<and> (claims_on env media)\<^sup>*\<^sup>* w w1 \<and>
    tables_ok w1 \<and> claim_step env media w1 = ((c, False), w2)"
  using assms
proof (induction "open_tasks media w" arbitrary: w any rule: less_induct)
  case less
  obtain c go w1 where s: "claim_step env media w = ((c, go), w1)" by (metis prod.exhaust)
  show ?case
  proof (cases go)
    case False
    then have "claim_lane env media any w = Some (any \<or> c, w1)" by (subst claim_lane.simps) (simp add: s)
    moreover have "claim_step env media w = ((c, False), w1)" using s False by simp
    ultimately show ?thesis using less.prems by blast
  next
    case True
    then have step: "claims_on env media w w1" using s by (auto simp: claims_on_def)
    have "open_tasks media w1 < open_tasks media w" using claim_step_less [OF less.prems] s True by simp
    then obtain b c' w2 w3 where r: "claim_lane env media (any \<or> c) w1 = Some (b, w3)"
      "(claims_on env media)\<^sup>*\<^sup>* w1 w2" "tables_ok w2" "claim_step env media w2 = ((c', False), w3)"
      using less.hyps [of w1 "any \<or> c"] claim_step_ok [OF less.prems s] by blast
    have "claim_lane env media any w = Some (b, w3)" using r(1) True by (subst claim_lane.simps) (simp add: s)
    then show ?thesis using r step converse_rtranclp_into_rtranclp [of "claims_on env media", OF step r(2)] by blast
  qed
qed

section \<open>What the loop keeps and what it achieves\<close>

definition within_capacity :: "worker \<Rightarrow> worker \<Rightarrow> bool" where
  "within_capacity w w' =
     (wk_capacity w' = wk_capacity w \<and>
      (\<forall>p m. int (slot_occupied p m (wk_slots w')) \<le>
         max (int (slot_occupied p m (wk_slots w))) (capacity_get (wk_capacity w) p m)))"

lemma within_capacity_refl: "within_capacity w w"
  by (simp add: within_capacity_def)

lemma within_capacity_trans: "within_capacity w w1 \<Longrightarrow> within_capacity w1 w2 \<Longrightarrow> within_capacity w w2"
proof -
  assume a: "within_capacity w w1" and b: "within_capacity w1 w2"
  have "int (slot_occupied p m (wk_slots w2)) \<le>
      max (int (slot_occupied p m (wk_slots w))) (capacity_get (wk_capacity w) p m)" for p m
    using a b by (simp add: within_capacity_def) (metis (no_types, lifting) le_max_iff_disj order_trans)
  then show ?thesis using a b by (simp add: within_capacity_def)
qed

lemma claim_step_within:
  assumes "tables_ok w" and s: "claim_step env media w = (x, w')"
  shows "within_capacity w w'"
proof -
  have ids: "ids_ok (wk_queue w)" using assms by (simp add: tables_ok_def)
  show ?thesis
  proof (rule claim_step_cases [OF ids, of media env])
    fix t t' provider q'
    assume room: "slot_has_room provider media (capacity_get (wk_capacity w) provider media) (wk_slots w)"
      and "claim_step env media w = ((True, \<not> fixed_lane media), admitted media provider (t_id t) q' w)"
    then have "w' = admitted media provider (t_id t) q' w" using s by simp
    then show ?thesis
      using slots.admit_within [where cap = "capacity_get (wk_capacity w)", OF room]
      by (simp add: within_capacity_def admitted_def)
  qed (use s in \<open>auto simp: within_capacity_def\<close>)
qed

lemma claims_within:
  "(claims_on env media)\<^sup>*\<^sup>* w w' \<Longrightarrow> tables_ok w \<Longrightarrow> within_capacity w w' \<and> tables_ok w'"
proof (induction rule: rtranclp_induct)
  case base
  then show ?case by (simp add: within_capacity_refl)
next
  case (step y z)
  then show ?case
    using claim_step_within [of y] claim_step_ok [of y] within_capacity_trans by (auto simp: claims_on_def)
qed

lemma claim_lane_within:
  assumes "tables_ok w"
  shows "\<exists>b w'. claim_lane env media any w = Some (b, w') \<and> within_capacity w w' \<and> tables_ok w'"
proof -
  obtain b c w1 w2 where r: "claim_lane env media any w = Some (b, w2)" "(claims_on env media)\<^sup>*\<^sup>* w w1"
    "tables_ok w1" "claim_step env media w1 = ((c, False), w2)"
    using claim_lane_run [OF assms] by blast
  have "within_capacity w w2"
    using claims_within [OF r(2) assms] claim_step_within [OF r(3,4)] within_capacity_trans by blast
  then show ?thesis using r(1) claim_step_ok [OF r(3,4)] by blast
qed

lemma claim_tasks_run:
  "tables_ok w \<Longrightarrow> \<exists>b w'. claim_tasks env lanes any w = Some (b, w') \<and> within_capacity w w' \<and> tables_ok w'"
proof (induction lanes arbitrary: any w)
  case Nil
  then show ?case by (simp add: within_capacity_refl)
next
  case (Cons media lanes)
  obtain b w1 where l: "claim_lane env media any w = Some (b, w1)" "within_capacity w w1" "tables_ok w1"
    using claim_lane_within [OF Cons.prems] by blast
  then show ?case using Cons.IH [OF l(3), of b] within_capacity_trans by auto
qed

text \<open>
  C15: a pass over the lanes returns, and never takes a provider's lane over its limit: what runs after it
  is at most the limit, or what ran before where that was more already (the limit may have been lowered).
\<close>

theorem claim_tasks_within_capacity:
  assumes "ids_ok (wk_queue w)" and "slots_ok (wk_slots w)"
  shows "\<exists>claimed w'. claim_tasks env lanes False w = Some (claimed, w') \<and> wk_capacity w' = wk_capacity w \<and>
    (\<forall>p m. int (slot_occupied p m (wk_slots w')) \<le>
       max (int (slot_occupied p m (wk_slots w))) (capacity_get (wk_capacity w) p m))"
proof -
  have "tables_ok w" using assms by (simp add: tables_ok_def)
  from claim_tasks_run [OF this, of env lanes False] show ?thesis by (auto simp: within_capacity_def)
qed

text \<open>
  C14: a pass over a lane returns, and leaves no capacity idle: afterwards every waiting task of the lane
  whose dependency has succeeded has its provider recorded, and that provider runs as much as its limit
  allows. The lanes of text and of rendering, which take one task at a time, are left out, and the
  database must accept the provider that is written back.
\<close>

theorem claim_lane_saturates:
  assumes "ids_ok (wk_queue w)" and "slots_ok (wk_slots w)" and "\<not> fixed_lane media" and "\<And>tid. ce_records env tid"
  shows "\<exists>claimed w'. claim_lane env media False w = Some (claimed, w') \<and>
    (\<forall>t\<in>set (q_tasks (wk_queue w')). t_status t = Queued \<and> t_media t = media \<and> dependency_ready t (wk_queue w') \<longrightarrow>
       (\<exists>p. t_provider t = Some p \<and> 0 < capacity_get (wk_capacity w') p media \<and>
          capacity_get (wk_capacity w') p media \<le> int (slot_occupied p media (wk_slots w'))))"
proof -
  have "tables_ok w" using assms by (simp add: tables_ok_def)
  then obtain b c w1 w2 where run: "claim_lane env media False w = Some (b, w2)" "tables_ok w1"
    "claim_step env media w1 = ((c, False), w2)"
    using claim_lane_run [of w env media False] by blast
  have ids: "ids_ok (wk_queue w1)" and sl: "slots_ok (wk_slots w1)" using run(2) by (simp_all add: tables_ok_def)
  have "w2 = w1 \<and> \<not> (\<exists>t. free_task media w1 t)"
    by (rule claim_step_cases [OF ids, of media env]) (use run(3) assms(3,4) in auto)
  then show ?thesis
    using run(1) pool_full_iff [OF sl]
    by (auto simp: claimable_def split: option.splits)
qed

section \<open>A sample worker\<close>

definition sample_queue :: queue where
  "sample_queue = empty_queue\<lparr>q_tasks :=
     [new_task 1 ''t1'' (sample_request ''s1'' None), new_task 2 ''t2'' (sample_request ''s2'' None),
      new_task 3 ''t3'' (sample_request ''s3'' None)]\<rparr>"

definition sample_worker :: worker where
  "sample_worker =
     \<lparr>wk_queue = sample_queue, wk_slots = [],
      wk_capacity = \<lparr>cap_limits = [(''ark'', lane_limits_of [''image'', ''video''] 5 1 0)], cap_defaults = default_lanes 5 3 10\<rparr>,
      wk_futures = [], wk_permits = []\<rparr>"

definition sample_env :: claim_env where
  "sample_env = \<lparr>ce_now = 9, ce_projection = (\<lambda>d. ''ark''), ce_records = (\<lambda>_. True), ce_requeues = (\<lambda>_. True)\<rparr>"

lemma sample_worker_ok: "ids_ok (wk_queue sample_worker)" "slots_ok (wk_slots sample_worker)"
  by (simp_all add: sample_worker_def sample_queue_def ids_ok_def slots_ok_def new_task_def)

lemma sample_not_fixed: "\<not> fixed_lane ''video''"
  by (simp add: fixed_lane_def render_media_type_def)

lemma claim_tasks_within_capacity_witness:
  "\<exists>claimed w'. claim_tasks sample_env worker_lanes False sample_worker = Some (claimed, w') \<and>
     slot_occupied ''ark'' ''video'' (wk_slots w') \<le> 1"
proof -
  have cap: "capacity_get (wk_capacity sample_worker) ''ark'' ''video'' = 1"
    by (simp add: capacity_get_def sample_worker_def lane_limits_of_def get_or_def render_media_type_def)
  have none: "slot_occupied ''ark'' ''video'' (wk_slots sample_worker) = 0"
    by (simp add: slot_occupied_def bucket_of_def get_or_def sample_worker_def)
  obtain claimed w' where r: "claim_tasks sample_env worker_lanes False sample_worker = Some (claimed, w')"
    "\<And>p m. int (slot_occupied p m (wk_slots w')) \<le>
       max (int (slot_occupied p m (wk_slots sample_worker))) (capacity_get (wk_capacity sample_worker) p m)"
    using claim_tasks_within_capacity [OF sample_worker_ok, of sample_env worker_lanes] by blast
  have "slot_occupied ''ark'' ''video'' (wk_slots w') \<le> 1"
    using r(2) [of "''ark''" "''video''"] cap none by simp
  then show ?thesis using r(1) by blast
qed

lemma claim_lane_saturates_witness:
  "\<exists>claimed w'. claim_lane sample_env ''video'' False sample_worker = Some (claimed, w')"
  proof -
  have "ce_records sample_env tid" for tid by (simp add: sample_env_def)
  from claim_lane_saturates [OF sample_worker_ok sample_not_fixed this] show ?thesis by blast
qed

end
