(* ===== verification/Restart_Recovery.thy ===== *)
theory Restart_Recovery
  imports Generation_Worker "HOL-Library.Sublist"
begin

text \<open>
  What the worker does with tasks it finds running that it is not executing: after a restart
  (\<open>lib/generation/restart_recovery.py\<close>), and the continuation of a video task whose provider already has
  the job (\<open>lib/generation/video_resume.py\<close>). \<open>load\<close> reads the submission checkpoint of a task and gives
  its provider, or \<open>None\<close> where the checkpoint is rejected. The files that are cleaned up and the
  accounting of the calls are not modelled.
\<close>

section \<open>Can the task be continued?\<close>

datatype resume_state = No_checkpoint_no_job | Checkpoint_without_job | Ready | Identity_unrecoverable

definition classify_video_resume_state :: "(task \<Rightarrow> string option) \<Rightarrow> task \<Rightarrow> resume_state \<times> string option" where
  "classify_video_resume_state load t =
     (if \<not> truthy (t_provider_job t)
      then (if truthy (t_checkpoint t) then Checkpoint_without_job else No_checkpoint_no_job, None)
      else if \<not> truthy (t_checkpoint t) then (Identity_unrecoverable, None)
      else case load t of
             None \<Rightarrow> (Identity_unrecoverable, None)
           | Some provider \<Rightarrow> (Ready, Some provider))"

definition video_task_types :: "string list" where
  "video_task_types = [''video'', ''reference_video'']"

definition non_resumable_video_providers :: "string list" where
  "non_resumable_video_providers = [''grok'', ''vidu'']"

text \<open>The reason stored for a task that is given up.\<close>

definition identity_detail :: string where
  "identity_detail = ''missing, malformed, or mismatched video submission checkpoint''"

definition unready_failure :: "resume_state \<Rightarrow> string" where
  "unready_failure st =
     (case st of
        No_checkpoint_no_job \<Rightarrow> failure_text ''restart_lost_no_job_id'' []
      | Checkpoint_without_job \<Rightarrow> failure_text ''restart_lost_checkpoint_no_job_id'' []
      | _ \<Rightarrow> failure_text ''execution_identity_unrecoverable'' [(''detail'', JStr identity_detail)])"

datatype orphan_fate = Lost string | Resumable string

definition orphan_media :: "task \<Rightarrow> string" where
  "orphan_media t =
     (if t_media t \<noteq> [] then t_media t
      else if t_type t \<in> set video_task_types then ''video''
      else if t_type t = ''tts'' then ''audio'' else ''image'')"

definition orphan_fate_of ::
    "(task \<Rightarrow> string option) \<Rightarrow> (task_dict \<Rightarrow> string) \<Rightarrow> task_dict \<Rightarrow> orphan_fate" where
  "orphan_fate_of load projection d =
     (let t = fst d; media = orphan_media t;
          (state, checkpoint) =
            (if t_type t \<in> set video_task_types then classify_video_resume_state load t else (Ready, None));
          provider = (case checkpoint of
              Some p \<Rightarrow> p
            | None \<Rightarrow> if truthy (t_provider t) then coalesce (t_provider t) else projection d)
      in if media = ''image'' then Lost (failure_text ''restart_lost_image'' [])
         else if media = ''audio'' then Lost (failure_text ''restart_lost_audio'' [])
         else if media = ''text'' then Lost (failure_text ''restart_lost_text'' [])
         else if media = render_media_type then Lost (failure_text ''restart_lost_render'' [])
         else if state \<noteq> Ready then Lost (unready_failure state)
         else if provider \<in> set non_resumable_video_providers
         then Lost (failure_text ''resume_unsupported_provider'' [(''provider_id'', JStr provider)])
         else if \<not> truthy (t_provider_job t) then Lost (failure_text ''restart_lost_no_job_id'' [])
         else Resumable provider)"

section \<open>The scan\<close>

type_synonym resume_buckets = "(string \<times> task list) list"

definition add_resumable :: "string \<Rightarrow> task \<Rightarrow> resume_buckets \<Rightarrow> resume_buckets" where
  "add_resumable provider t buckets =
     AList.update provider (get_or [] provider buckets @ [t\<lparr>t_provider := Some provider\<rparr>]) buckets"

fun scan_orphans ::
    "int \<Rightarrow> (task \<Rightarrow> string option) \<Rightarrow> (task_dict \<Rightarrow> string) \<Rightarrow> string set \<Rightarrow> task_dict list \<Rightarrow> queue \<times> resume_buckets
       \<Rightarrow> queue \<times> resume_buckets" where
  "scan_orphans now load projection active [] (q, buckets) = (q, buckets)"
| "scan_orphans now load projection active (d # ds) (q, buckets) =
     scan_orphans now load projection active ds
       (if t_id (fst d) \<in> active then (q, buckets)
        else case orphan_fate_of load projection d of
               Lost msg \<Rightarrow> (snd (mark_failed now (t_id (fst d)) msg q), buckets)
             | Resumable provider \<Rightarrow> (q, add_resumable provider (fst d) buckets))"

definition handle_orphans ::
    "int \<Rightarrow> (task \<Rightarrow> string option) \<Rightarrow> (task_dict \<Rightarrow> string) \<Rightarrow> worker \<Rightarrow> worker \<times> resume_buckets" where
  "handle_orphans now load projection w =
     (let (q, buckets) = scan_orphans now load projection (active_task_ids (wk_slots w))
            (list_orphan_tasks_on_start (wk_queue w)) (wk_queue w, [])
      in (w\<lparr>wk_queue := q\<rparr>, buckets))"

section \<open>Dispatching what can be continued\<close>

text \<open>One sub-task per task of a provider, registered at once; the semaphore has as many permits as the
  provider's limit.\<close>

definition register_resume :: "string \<Rightarrow> nat \<Rightarrow> task \<Rightarrow> worker \<Rightarrow> worker" where
  "register_resume provider sem t w =
     w\<lparr>wk_slots := slot_register provider ''video'' (t_id t) (length (wk_futures w)) True (wk_slots w),
       wk_futures := wk_futures w @
         [\<lparr>f_task = t_id t, f_provider = provider, f_state = Executing, f_resumes = Some (t, sem)\<rparr>]\<rparr>"

definition fail_without_capacity :: "int \<Rightarrow> string \<Rightarrow> task \<Rightarrow> queue \<Rightarrow> queue" where
  "fail_without_capacity now provider t q =
     snd (mark_failed now (t_id t)
       (failure_text ''resume_unsupported_capacity_zero'' [(''provider_id'', JStr provider)]) q)"

text \<open>\<open>loaded\<close> is what a reload of the limits finds; the limits are reloaded where they say zero.\<close>

definition dispatch_provider_bucket ::
    "int \<Rightarrow> capacity_table option \<Rightarrow> bool \<Rightarrow> string \<Rightarrow> task list \<Rightarrow> worker \<Rightarrow> worker" where
  "dispatch_provider_bucket now loaded stopping provider ts w =
     (let w1 = (if capacity_get (wk_capacity w) provider ''video'' \<le> 0 then reload_limits loaded w else w);
          cap = capacity_get (wk_capacity w1) provider ''video''
      in if cap \<le> 0 then w1\<lparr>wk_queue := fold (fail_without_capacity now provider) ts (wk_queue w1)\<rparr>
         else if stopping then w1
         else fold (register_resume provider (length (wk_permits w1))) ts (w1\<lparr>wk_permits := wk_permits w1 @ [cap]\<rparr>))"

definition dispatch_resumable ::
    "int \<Rightarrow> capacity_table option \<Rightarrow> bool \<Rightarrow> resume_buckets \<Rightarrow> worker \<Rightarrow> worker" where
  "dispatch_resumable now loaded stopping buckets w =
     (if stopping then w
      else fold (\<lambda>(provider, ts). dispatch_provider_bucket now loaded stopping provider ts) buckets w)"

text \<open>The recovery of a process that has just taken the lease: the scan, and the dispatch of its finds.\<close>

definition recover ::
    "int \<Rightarrow> (task \<Rightarrow> string option) \<Rightarrow> (task_dict \<Rightarrow> string) \<Rightarrow> capacity_table option \<Rightarrow> worker \<Rightarrow> worker" where
  "recover now load projection loaded w =
     (let (w1, buckets) = handle_orphans now load projection w
      in dispatch_resumable now loaded False buckets w1)"

section \<open>Continuing one task\<close>

datatype resume_outcome =
    Resumed "(string \<times> json) list"
  | Resume_unsupported string
  | Resume_endpoint_changed string
  | Resume_expired string
  | Resume_raised string
  | Resume_interrupted
  | Resume_interrupted_save "(string \<times> json) list"
  | Resume_stopped
  | Resume_save_failed

definition deleted_marker :: string where
  "deleted_marker = ''#deleted-''"

definition is_deleted_project_name :: "string \<Rightarrow> bool" where
  "is_deleted_project_name name = sublist deleted_marker name"

definition detail_failure :: "string \<Rightarrow> string \<Rightarrow> string" where
  "detail_failure code detail = failure_text code [(''detail'', JStr detail)]"

text \<open>\<open>VideoResumeRunner.run\<close>, once the semaphore has let the sub-task in.\<close>

definition run_resume ::
    "int \<Rightarrow> (task \<Rightarrow> string option) \<Rightarrow> bool \<Rightarrow> resume_outcome \<Rightarrow> task \<Rightarrow> queue \<Rightarrow> queue" where
  "run_resume now load revoked outcome t q =
     (let tid = t_id t;
          state = (if t_type t \<in> set video_task_types then fst (classify_video_resume_state load t) else Ready);
          failed = (\<lambda>msg. snd (mark_failed now tid msg q))
      in if is_deleted_project_name (t_project t) then fail_task_of_deleted_project now tid q
         else if state \<noteq> Ready then failed (unready_failure state)
         else if \<not> truthy (t_provider_job t) then failed (failure_text ''restart_lost_resume_no_job_id'' [])
         else case outcome of
                Resume_unsupported detail \<Rightarrow> failed (detail_failure ''resume_unsupported_detail'' detail)
              | Resume_endpoint_changed detail \<Rightarrow> failed (detail_failure ''resume_endpoint_changed_detail'' detail)
              | Resume_expired detail \<Rightarrow> failed (detail_failure ''resume_expired_detail'' detail)
              | Resume_raised msg \<Rightarrow> if revoked then fail_task_of_deleted_project now tid q else failed msg
              | Resume_interrupted \<Rightarrow> snd (finalize_interrupted now tid q)
              | Resumed result \<Rightarrow>
                  if revoked then fail_task_of_deleted_project now tid q else snd (mark_succeeded now tid result q)
              | Resume_interrupted_save result \<Rightarrow>
                  if revoked then fail_task_of_deleted_project now tid q
                  else snd (finalize_interrupted now tid (snd (mark_succeeded now tid result q)))
              | Resume_stopped \<Rightarrow> q
              | Resume_save_failed \<Rightarrow> if revoked then fail_task_of_deleted_project now tid q else q)"

definition take_permit :: "nat \<Rightarrow> int \<Rightarrow> worker \<Rightarrow> worker" where
  "take_permit sem n w = w\<lparr>wk_permits := (wk_permits w)[sem := wk_permits w ! sem - n]\<rparr>"

text \<open>The sub-task gets a permit and is shown as running.\<close>

definition may_start_resume :: "nat \<Rightarrow> worker \<Rightarrow> bool" where
  "may_start_resume h w =
     (case f_resumes (wk_futures w ! h) of None \<Rightarrow> False | Some (t, sem) \<Rightarrow> 0 < wk_permits w ! sem)"

definition start_resume :: "nat \<Rightarrow> worker \<Rightarrow> worker" where
  "start_resume h w =
     (let f = wk_futures w ! h
      in case f_resumes f of
           None \<Rightarrow> w
         | Some (t, sem) \<Rightarrow>
             (take_permit sem 1 w)\<lparr>wk_slots := slot_promote (f_provider f) ''video'' (f_task f) (wk_slots w)\<rparr>)"

text \<open>The end of the sub-task: its outcome is stored, the permit goes back if it was taken (\<open>acquired\<close>),
  and the slot is released. Where the process interrupts the sub-task, the interruption is stored
  whatever it was doing.\<close>

definition end_resume ::
    "int \<Rightarrow> (task \<Rightarrow> string option) \<Rightarrow> bool \<Rightarrow> resume_outcome \<Rightarrow> bool \<Rightarrow> nat \<Rightarrow> worker \<Rightarrow> worker" where
  "end_resume now load revoked outcome acquired h w =
     (let f = wk_futures w ! h
      in case f_resumes f of
           None \<Rightarrow> w
         | Some (t, sem) \<Rightarrow>
             (let interrupted = (case outcome of Resume_interrupted \<Rightarrow> True | Resume_interrupted_save _ \<Rightarrow> True | _ \<Rightarrow> False);
                  q1 = (if outcome = Resume_stopped \<or> \<not> acquired then wk_queue w
                        else run_resume now load revoked outcome t (wk_queue w));
                  q2 = (if interrupted then snd (finalize_interrupted now (t_id t) q1) else q1);
                  w1 = (if acquired then take_permit sem (- 1) w else w)
              in w1\<lparr>wk_queue := q2,
                    wk_slots := slot_release (f_provider f) ''video'' (f_task f) (wk_slots w),
                    wk_futures := (wk_futures w)[h := f\<lparr>f_state := if interrupted then Interrupted else Ended\<rparr>]\<rparr>))"

text \<open>A failed download is tried again: the row is put back to running and handed to the dispatcher.
  The queue commits before the dispatcher looks at the provider.\<close>

definition retry_download ::
    "int \<Rightarrow> string \<Rightarrow> capacity_table option \<Rightarrow> queue \<Rightarrow> worker \<Rightarrow> task_error option \<times> worker" where
  "retry_download now tid loaded seen w =
     (case retry_artifact_download now tid seen (wk_queue w) of
        Inl e \<Rightarrow> (Some e, w)
      | Inr (d, q) \<Rightarrow>
          if \<not> truthy (t_provider (fst d)) then (Some Task_value_error, w\<lparr>wk_queue := q\<rparr>)
          else (None, dispatch_resumable now loaded False [(coalesce (t_provider (fst d)), [fst d])] (w\<lparr>wk_queue := q\<rparr>)))"

end
