(* ===== verification/Recovery_Laws.thy ===== *)
theory Recovery_Laws
  imports Worker_Claims Restart_Recovery
begin

text \<open>
  The law of the scan after a restart: what an earlier process left running is failed or handed over,
  and never submitted again.
\<close>

section \<open>What the scan fails\<close>

lemma list_all2_ex:
  "list_all2 R xs ys \<Longrightarrow> y \<in> set ys \<Longrightarrow> \<exists>x\<in>set xs. R x y"
  by (induction rule: list_all2_induct) auto

lemma list_all2_ex':
  "list_all2 R xs ys \<Longrightarrow> x \<in> set xs \<Longrightarrow> \<exists>y\<in>set ys. R x y"
  by (induction rule: list_all2_induct) auto

definition is_lost :: "(task \<Rightarrow> string option) \<Rightarrow> (task_dict \<Rightarrow> string) \<Rightarrow> string set \<Rightarrow> task_dict \<Rightarrow> bool" where
  "is_lost load projection active d =
     (t_id (fst d) \<notin> active \<and> (case orphan_fate_of load projection d of Lost _ \<Rightarrow> True | Resumable _ \<Rightarrow> False))"

definition lost_ids :: "(task \<Rightarrow> string option) \<Rightarrow> (task_dict \<Rightarrow> string) \<Rightarrow> string set \<Rightarrow> task_dict list \<Rightarrow> string set" where
  "lost_ids load projection active ds = (\<lambda>d. t_id (fst d)) ` set (filter (is_lost load projection active) ds)"

lemma scan_ends:
  "queue_ends {Failed} (lost_ids load projection active ds) q (fst (scan_orphans now load projection active ds (q, b)))"
proof (induction ds arbitrary: q b)
  case Nil
  then show ?case by (simp add: lost_ids_def queue_ends_refl)
next
  case (Cons d ds)
  show ?case
  proof (cases "is_lost load projection active d")
    case True
    then obtain msg where msg: "orphan_fate_of load projection d = Lost msg" "t_id (fst d) \<notin> active"
      by (auto simp: is_lost_def split: orphan_fate.splits)
    have "lost_ids load projection active (d # ds) = {t_id (fst d)} \<union> lost_ids load projection active ds"
      using True by (simp add: lost_ids_def)
    then show ?thesis
      using msg queue_ends_union [OF mark_failed_ends Cons.IH] by simp
  next
    case False
    then have "lost_ids load projection active (d # ds) = lost_ids load projection active ds"
      by (simp add: lost_ids_def)
    moreover have "\<exists>b'. scan_orphans now load projection active (d # ds) (q, b)
        = scan_orphans now load projection active ds (q, b')"
      using False by (auto simp: is_lost_def split: orphan_fate.splits)
    ultimately show ?thesis using Cons.IH by metis
  qed
qed

lemma ended_row:
  assumes "queue_ends F S q q'" "u \<in> set (q_tasks q)" "t_id u \<notin> S" "t_status u \<noteq> Queued"
  shows "u \<in> set (q_tasks q')"
proof -
  obtain u' where "u' \<in> set (q_tasks q')" "ends_in F S u u'"
    using list_all2_ex' [OF assms(1) [unfolded queue_ends_def] assms(2)] by blast
  then show ?thesis using assms(3,4) by (cases "t_status u") (auto simp: ends_in_def)
qed

lemma row_before:
  assumes "queue_ends F S q q'" "u' \<in> set (q_tasks q')" "t_status u' \<in> {Queued, Running}" "F \<subseteq> {Succeeded, Failed, Cancelled}"
  obtains u where "u \<in> set (q_tasks q)" "t_id u = t_id u'" "t_status u = t_status u'"
proof -
  obtain u where "u \<in> set (q_tasks q)" "ends_in F S u u'"
    using list_all2_ex [OF assms(1) [unfolded queue_ends_def] assms(2)] by blast
  then show ?thesis using that [of u] assms(3,4) by (cases "t_status u") (auto simp: ends_in_def split: if_splits)
qed

lemma mark_failed_row:
  assumes ids: "ids_ok q" and t: "t \<in> set (q_tasks q)" "t_status t = Running"
  shows "failed_with now msg t \<in> set (q_tasks (snd (mark_failed now (t_id t) msg q)))"
proof -
  obtain n q1 where s: "mark_failed_running now (t_id t) msg q = (n, q1)" by (cases "mark_failed_running now (t_id t) msg q")
  have "transition (t_id t) [Running] (failed_with now msg) q = (n, q1)" using s by (simp add: mark_failed_running_def)
  then have n: "n = 1" "failed_with now msg t \<in> set (q_tasks q1)"
    using transition_one [OF ids t(1), of "t_id t" "[Running]" "failed_with now msg"] t
    by (auto simp: has_status_def terminal_task_statuses_def intro: rev_image_eqI)
  have "queue_ends {Failed} {} q1 (snd (cascade_failed_queued now (t_id t) msg q1))"
    by (simp add: cascade_failed_queued_def cascade_failed_ends)
  from ended_row [OF this n(2)] show ?thesis using s n(1) by (simp add: mark_failed_def)
qed

lemma scan_fails:
  assumes "ids_ok q" "distinct (map (\<lambda>d. t_id (fst d)) ds)" "d \<in> set ds" "fst d \<in> set (q_tasks q)"
    and "t_status (fst d) = Running" "t_id (fst d) \<notin> active" "orphan_fate_of load projection d = Lost msg"
  shows "failed_with now msg (fst d) \<in> set (q_tasks (fst (scan_orphans now load projection active ds (q, b))))"
  using assms(1-4)
proof (induction ds arbitrary: q b)
  case Nil
  then show ?case by simp
next
  case (Cons e ds)
  obtain q1 b1 where step: "scan_orphans now load projection active (e # ds) (q, b)
        = scan_orphans now load projection active ds (q1, b1)"
    and q1: "q1 = q \<or> (\<exists>m. q1 = snd (mark_failed now (t_id (fst e)) m q))"
    by (cases "t_id (fst e) \<in> active"; cases "orphan_fate_of load projection e") auto
  show ?case
  proof (cases "d = e")
    case True
    let ?q1 = "snd (mark_failed now (t_id (fst d)) msg q)"
    have "failed_with now msg (fst d) \<in> set (q_tasks ?q1)"
      by (rule mark_failed_row [OF Cons.prems(1) Cons.prems(4) assms(5)])
    moreover have "t_id (fst d) \<notin> lost_ids load projection active ds"
      using Cons.prems(2) True by (auto simp: lost_ids_def)
    ultimately have "failed_with now msg (fst d) \<in> set (q_tasks (fst (scan_orphans now load projection active ds (?q1, b))))"
      by (intro ended_row [OF scan_ends]) simp_all
    then show ?thesis using True assms(6,7) by simp
  next
    case False
    then have d: "d \<in> set ds" using Cons.prems(3) by simp
    then have "t_id (fst d) \<noteq> t_id (fst e)" using Cons.prems(2) by (auto simp: image_iff)
    then have "fst d \<in> set (q_tasks q1)"
      using q1 ended_row [OF mark_failed_ends Cons.prems(4)] Cons.prems(4) assms(5) by fastforce
    moreover have "ids_ok q1" using q1 queue_ends_ids_ok [OF mark_failed_ends Cons.prems(1)] Cons.prems(1) by blast
    ultimately show ?thesis using Cons.IH [of q1 b1] Cons.prems(2) d step by simp
  qed
qed

section \<open>What the scan hands over\<close>

definition handed_over :: "resume_buckets \<Rightarrow> (string \<times> task) list" where
  "handed_over buckets = concat (map (\<lambda>(p, ts). map (Pair p) ts) buckets)"

definition resumed_one ::
    "(task \<Rightarrow> string option) \<Rightarrow> (task_dict \<Rightarrow> string) \<Rightarrow> string set \<Rightarrow> task_dict \<Rightarrow> (string \<times> task) list" where
  "resumed_one load projection active d =
     (case orphan_fate_of load projection d of
        Lost _ \<Rightarrow> []
      | Resumable p \<Rightarrow> if t_id (fst d) \<in> active then [] else [(p, (fst d)\<lparr>t_provider := Some p\<rparr>)])"

definition resumed :: "(task \<Rightarrow> string option) \<Rightarrow> (task_dict \<Rightarrow> string) \<Rightarrow> string set \<Rightarrow> task_dict list \<Rightarrow> (string \<times> task) list" where
  "resumed load projection active ds = concat (map (resumed_one load projection active) ds)"

lemma resumed_simps [simp]:
  "resumed load projection active [] = []"
  "resumed load projection active (d # ds) = resumed_one load projection active d @ resumed load projection active ds"
  by (simp_all add: resumed_def)

lemma handed_over_Cons: "handed_over ((p, ts) # b) = map (Pair p) ts @ handed_over b"
  by (simp add: handed_over_def)

lemma handed_over_update:
  "distinct (map fst b) \<Longrightarrow> mset (handed_over (AList.update p (get_or [] p b @ [t]) b)) = add_mset (p, t) (mset (handed_over b))"
proof (induction b)
  case Nil
  then show ?case by (simp add: handed_over_def get_or_def)
next
  case (Cons x b)
  obtain p' ts where x: "x = (p', ts)" by (cases x)
  show ?case
  proof (cases "p' = p")
    case True
    then show ?thesis by (simp add: x handed_over_Cons get_or_def)
  next
    case False
    then have "get_or [] p (x # b) = get_or [] p b" by (simp add: x get_or_def)
    then show ?thesis using Cons False by (simp add: x handed_over_Cons)
  qed
qed

lemma scan_hands_over:
  "distinct (map fst b) \<Longrightarrow>
     mset (handed_over (snd (scan_orphans now load projection active ds (q, b))))
       = mset (handed_over b) + mset (resumed load projection active ds)"
proof (induction ds arbitrary: q b)
  case Nil
  then show ?case by simp
next
  case (Cons d ds)
  show ?case
  proof (cases "t_id (fst d) \<in> active")
    case True
    then show ?thesis using Cons by (simp add: resumed_one_def split: orphan_fate.splits)
  next
    case False
    show ?thesis
    proof (cases "orphan_fate_of load projection d")
      case (Lost msg)
      then show ?thesis using Cons False by (simp add: resumed_one_def)
    next
      case (Resumable p)
      have "distinct (map fst (add_resumable p (fst d) b))"
        using Cons.prems by (simp add: add_resumable_def AList.distinct_update)
      then show ?thesis
        using Cons.IH [of "add_resumable p (fst d) b" q] False Resumable handed_over_update [OF Cons.prems]
        by (simp add: add_resumable_def resumed_one_def)
    qed
  qed
qed

lemma resumed_one_iff:
  "x \<in> set (resumed_one load projection active d) \<longleftrightarrow>
     t_id (fst d) \<notin> active \<and> (\<exists>p. orphan_fate_of load projection d = Resumable p \<and> x = (p, (fst d)\<lparr>t_provider := Some p\<rparr>))"
  by (cases "orphan_fate_of load projection d") (auto simp: resumed_one_def)

lemma resumed_iff:
  "x \<in> set (resumed load projection active ds) \<longleftrightarrow> (\<exists>d\<in>set ds. x \<in> set (resumed_one load projection active d))"
  by (simp add: resumed_def)

lemma resumed_ids:
  "x \<in> set (resumed load projection active ds) \<Longrightarrow> \<exists>d\<in>set ds. t_id (snd x) = t_id (fst d)"
  unfolding resumed_iff resumed_one_iff by (elim bexE conjE exE) (rule bexI, simp_all)

lemma resumed_distinct:
  "distinct (map (\<lambda>d. t_id (fst d)) ds) \<Longrightarrow> distinct (map (\<lambda>x. t_id (snd x)) (resumed load projection active ds))"
proof (induction ds)
  case Nil
  then show ?case by simp
next
  case (Cons d ds)
  have "t_id (fst d) \<noteq> t_id (snd x)" if "x \<in> set (resumed load projection active ds)" for x
    using resumed_ids [OF that] Cons.prems by (auto simp: image_iff)
  then show ?case using Cons by (cases "orphan_fate_of load projection d") (simp_all add: image_iff resumed_one_def)
qed

text \<open>What the code knows of a task it hands over: the provider has the job and can be asked for it.\<close>

definition continuable :: "(task \<Rightarrow> string option) \<Rightarrow> string \<Rightarrow> task \<Rightarrow> bool" where
  "continuable load p u =
     (truthy (t_provider_job u) \<and> p \<notin> set non_resumable_video_providers \<and>
      (t_type u \<in> set video_task_types \<longrightarrow> truthy (t_checkpoint u) \<and> load u = Some p) \<and>
      orphan_media u \<notin> {''image'', ''audio'', ''text'', render_media_type})"

lemma resumable_continuable:
  "orphan_fate_of load projection d = Resumable p \<Longrightarrow> continuable load p (fst d)"
  by (auto simp: orphan_fate_of_def continuable_def classify_video_resume_state_def Let_def
      split: if_splits option.splits)

lemma orphans:
  "set (list_orphan_tasks_on_start q) = task_to_dict ` {t \<in> set (q_tasks q). t_status t = Running}"
  "ids_ok q \<Longrightarrow> distinct (map (\<lambda>d. t_id (fst d)) (list_orphan_tasks_on_start q))"
proof -
  show "set (list_orphan_tasks_on_start q) = task_to_dict ` {t \<in> set (q_tasks q). t_status t = Running}"
    by (simp add: list_orphan_tasks_on_start_def running_tasks_def)
  assume ids: "ids_ok q"
  have "(\<lambda>d. t_id (fst d)) \<circ> task_to_dict = t_id" by (auto simp: task_to_dict_def)
  then have "map (\<lambda>d. t_id (fst d)) (list_orphan_tasks_on_start q) = map t_id (running_tasks q)"
    by (simp add: list_orphan_tasks_on_start_def)
  moreover have "mset (map t_id (running_tasks q)) = mset (map t_id (filter (\<lambda>t. t_status t = Running) (q_tasks q)))"
    unfolding running_tasks_def mset_map by simp
  moreover have "distinct (map t_id (filter (\<lambda>t. t_status t = Running) (q_tasks q)))"
    using ids by (simp add: ids_ok_def distinct_map_filter)
  ultimately show "distinct (map (\<lambda>d. t_id (fst d)) (list_orphan_tasks_on_start q))"
    by (metis mset_eq_imp_distinct_iff)
qed

section \<open>The scan as a whole\<close>

lemma list_all_handed:
  "mset xs = mset ys \<Longrightarrow> list_all P xs \<longleftrightarrow> list_all P ys"
  by (simp add: list_all_iff) (metis set_mset_mset)

definition scan_result ::
    "(task \<Rightarrow> string option) \<Rightarrow> (task_dict \<Rightarrow> string) \<Rightarrow> int \<Rightarrow> worker \<Rightarrow> worker \<Rightarrow> resume_buckets \<Rightarrow> task \<Rightarrow> bool" where
  "scan_result load projection now w w' buckets t =
     (case orphan_fate_of load projection (task_to_dict t) of
        Lost msg \<Rightarrow> failed_with now msg t \<in> rows_of w'
      | Resumable p \<Rightarrow> t \<in> rows_of w' \<and> continuable load p t \<and> (p, t\<lparr>t_provider := Some p\<rparr>) \<in> set (handed_over buckets))"

lemma handle_orphans_result:
  assumes ids: "ids_ok (wk_queue w)" and h: "handle_orphans now load projection w = (w', buckets)"
    and t: "t \<in> rows_of w" "t_status t = Running" "t_id t \<notin> active_task_ids (wk_slots w)"
  shows "scan_result load projection now w w' buckets t"
proof -
  let ?active = "active_task_ids (wk_slots w)" and ?ds = "list_orphan_tasks_on_start (wk_queue w)"
  let ?scan = "scan_orphans now load projection ?active ?ds (wk_queue w, [])"
  have w': "wk_queue w' = fst ?scan" "buckets = snd ?scan" using h by (auto simp: handle_orphans_def case_prod_beta Let_def)
  have d: "task_to_dict t \<in> set ?ds" "fst (task_to_dict t) = t" "t_id (fst (task_to_dict t)) \<notin> ?active"
    using t by (auto simp: orphans task_to_dict_def)
  show ?thesis
  proof (cases "orphan_fate_of load projection (task_to_dict t)")
    case (Lost msg)
    then have "failed_with now msg (fst (task_to_dict t)) \<in> set (q_tasks (fst ?scan))"
      using scan_fails [OF ids orphans(2) [OF ids] d(1) _ _ d(3)] d(2) t by simp
    then show ?thesis using Lost d(2) by (simp add: scan_result_def w')
  next
    case (Resumable p)
    have "t_id t \<notin> lost_ids load projection ?active ?ds"
    proof
      assume "t_id t \<in> lost_ids load projection ?active ?ds"
      then obtain u where u: "u \<in> rows_of w" "t_id u = t_id t" "is_lost load projection ?active (task_to_dict u)"
        by (auto simp: lost_ids_def orphans task_to_dict_def)
      then have "u = t" using ids_okD [OF ids u(1) t(1)] by simp
      then show False using u(3) Resumable by (simp add: is_lost_def)
    qed
    then have "t \<in> rows_of w'" using ended_row [OF scan_ends t(1)] t(2) by (simp add: w')
    moreover have "(p, t\<lparr>t_provider := Some p\<rparr>) \<in> set (resumed load projection ?active ?ds)"
      using d Resumable unfolding resumed_iff resumed_one_iff by (intro bexI [of _ "task_to_dict t"]) simp_all
    then have "(p, t\<lparr>t_provider := Some p\<rparr>) \<in> set (handed_over buckets)"
      using scan_hands_over [of "[]" now load projection ?active ?ds "wk_queue w"]
      by (simp add: w' handed_over_def flip: set_mset_mset)
    ultimately show ?thesis
      using resumable_continuable [OF Resumable] Resumable d(2) by (simp add: scan_result_def)
  qed
qed

lemma handle_orphans_handed:
  assumes ids: "ids_ok (wk_queue w)" and h: "handle_orphans now load projection w = (w', buckets)"
  shows "distinct (map (\<lambda>x. t_id (snd x)) (handed_over buckets))"
    and "(p, t) \<in> set (handed_over buckets) \<Longrightarrow>
      \<exists>u\<in>rows_of w. t_status u = Running \<and> t_id u \<notin> active_task_ids (wk_slots w) \<and> t = u\<lparr>t_provider := Some p\<rparr> \<and>
        orphan_fate_of load projection (task_to_dict u) = Resumable p"
proof -
  let ?active = "active_task_ids (wk_slots w)" and ?ds = "list_orphan_tasks_on_start (wk_queue w)"
  have m: "mset (handed_over buckets) = mset (resumed load projection ?active ?ds)"
    using h scan_hands_over [of "[]" now load projection ?active ?ds "wk_queue w"]
    by (auto simp: handle_orphans_def case_prod_beta Let_def handed_over_def)
  have "mset (map (\<lambda>x. t_id (snd x)) (handed_over buckets)) = mset (map (\<lambda>x. t_id (snd x)) (resumed load projection ?active ?ds))"
    unfolding mset_map m by simp
  then show "distinct (map (\<lambda>x. t_id (snd x)) (handed_over buckets))"
    using resumed_distinct [OF orphans(2) [OF ids]] mset_eq_imp_distinct_iff by blast
  assume "(p, t) \<in> set (handed_over buckets)"
  then have "(p, t) \<in> set (resumed load projection ?active ?ds)" using m by (metis set_mset_mset)
  then obtain d where d: "d \<in> set ?ds" "t_id (fst d) \<notin> ?active" "orphan_fate_of load projection d = Resumable p"
    "t = (fst d)\<lparr>t_provider := Some p\<rparr>" unfolding resumed_iff resumed_one_iff by auto
  then obtain u where "u \<in> rows_of w" "t_status u = Running" "d = task_to_dict u" by (auto simp: orphans)
  then show "\<exists>u\<in>rows_of w. t_status u = Running \<and> t_id u \<notin> ?active \<and> t = u\<lparr>t_provider := Some p\<rparr> \<and>
      orphan_fate_of load projection (task_to_dict u) = Resumable p"
    using d by (intro bexI [of _ u]) (simp_all add: task_to_dict_def)
qed

lemma handle_orphans_continuable:
  assumes "ids_ok (wk_queue w)" "handle_orphans now load projection w = (w', buckets)" "(p, t) \<in> set (handed_over buckets)"
  shows "\<exists>u\<in>rows_of w. t_status u = Running \<and> t_id u \<notin> active_task_ids (wk_slots w) \<and> t = u\<lparr>t_provider := Some p\<rparr> \<and> continuable load p u"
  using handle_orphans_handed(2) [OF assms] resumable_continuable [of load projection "task_to_dict _" p]
  by (metis fst_conv task_to_dict_def)

lemma handle_orphans_rows:
  assumes h: "handle_orphans now load projection w = (w', buckets)"
    and u': "u' \<in> rows_of w'" "t_status u' \<in> {Queued, Running}"
  shows "\<exists>u\<in>rows_of w. t_id u = t_id u' \<and> t_status u = t_status u'"
proof -
  have "wk_queue w' = fst (scan_orphans now load projection (active_task_ids (wk_slots w))
      (list_orphan_tasks_on_start (wk_queue w)) (wk_queue w, []))"
    using h by (auto simp: handle_orphans_def case_prod_beta Let_def)
  then obtain u where "u \<in> rows_of w" "t_id u = t_id u'" "t_status u = t_status u'"
    using u' row_before [OF scan_ends, of u'] by (metis insertCI subsetI singletonD)
  then show ?thesis by blast
qed

text \<open>C10: after a restart, a task found running that this process does not execute is failed with the
  reason its kind calls for, unless its provider has the job, supports continuing it and, for the two
  types of video, is named by a valid checkpoint; then it keeps its row and is handed over under that
  provider, once. No task is put back to waiting, so nothing is submitted a second time.\<close>
theorem orphans_never_resubmitted:
  assumes "ids_ok (wk_queue w)" and "handle_orphans now load projection w = (w', buckets)"
  shows "(\<forall>t\<in>rows_of w. t_status t = Running \<longrightarrow> t_id t \<notin> active_task_ids (wk_slots w) \<longrightarrow>
            scan_result load projection now w w' buckets t)
    \<and> (\<forall>p t. (p, t) \<in> set (handed_over buckets) \<longrightarrow>
            (\<exists>u\<in>rows_of w. t_status u = Running \<and> t_id u \<notin> active_task_ids (wk_slots w) \<and>
               t = u\<lparr>t_provider := Some p\<rparr> \<and> continuable load p u))
    \<and> distinct (map (\<lambda>x. t_id (snd x)) (handed_over buckets))
    \<and> (\<forall>u'\<in>rows_of w'. t_status u' \<in> {Queued, Running} \<longrightarrow>
            (\<exists>u\<in>rows_of w. t_id u = t_id u' \<and> t_status u = t_status u'))"
  using handle_orphans_result [OF assms] handle_orphans_handed(1) [OF assms] handle_orphans_continuable [OF assms]
    handle_orphans_rows [OF assms(2)]
  by blast

definition orphan_image :: task where
  "orphan_image = (new_task 1 ''t1'' (sample_request ''s1'' None))\<lparr>t_status := Running, t_media := ''image'', t_type := ''storyboard''\<rparr>"

definition orphan_video :: task where
  "orphan_video = (new_task 2 ''t2'' (sample_request ''s2'' None))\<lparr>t_status := Running, t_media := ''video'', t_type := ''video'',
     t_provider_job := Some ''job-1'', t_checkpoint := Some ''c''\<rparr>"

definition restarted :: worker where
  "restarted = sample_worker\<lparr>wk_queue := empty_queue\<lparr>q_tasks := [orphan_image, orphan_video]\<rparr>\<rparr>"

lemma orphans_never_resubmitted_witness:
  "\<exists>w' buckets. handle_orphans 9 (\<lambda>_. Some ''ark'') (\<lambda>_. ''ark'') restarted = (w', buckets) \<and>
     failed_with 9 (failure_text ''restart_lost_image'' []) orphan_image \<in> rows_of w' \<and>
     orphan_video \<in> rows_of w' \<and> (''ark'', orphan_video\<lparr>t_provider := Some ''ark''\<rparr>) \<in> set (handed_over buckets)"
proof -
  obtain w' buckets where h: "handle_orphans 9 (\<lambda>_. Some ''ark'') (\<lambda>_. ''ark'') restarted = (w', buckets)"
    by (metis prod.exhaust)
  have rows: "rows_of restarted = {orphan_image, orphan_video}" "wk_slots restarted = []"
    by (simp_all add: restarted_def sample_worker_def)
  have st: "t_status orphan_image = Running" "t_status orphan_video = Running"
    by (simp_all add: orphan_image_def orphan_video_def)
  have ids: "ids_ok (wk_queue restarted)"
    by (simp add: restarted_def ids_ok_def orphan_image_def orphan_video_def new_task_def)
  have fate: "orphan_fate_of (\<lambda>_. Some ''ark'') (\<lambda>_. ''ark'') (task_to_dict orphan_image) = Lost (failure_text ''restart_lost_image'' [])"
    "orphan_fate_of (\<lambda>_. Some ''ark'') (\<lambda>_. ''ark'') (task_to_dict orphan_video) = Resumable ''ark''"
    by (simp_all add: orphan_fate_of_def task_to_dict_def orphan_image_def orphan_video_def orphan_media_def
        video_task_types_def classify_video_resume_state_def truthy_def coalesce_def render_media_type_def
        non_resumable_video_providers_def)
  have r: "scan_result (\<lambda>_. Some ''ark'') (\<lambda>_. ''ark'') 9 restarted w' buckets t"
    if "t \<in> {orphan_image, orphan_video}" for t
    using orphans_never_resubmitted [OF ids h] that st rows by (auto simp: active_task_ids_def)
  show ?thesis using h r [of orphan_image] r [of orphan_video] fate by (simp add: scan_result_def)
qed

end
