(* ===== verification/Worker_Laws.thy ===== *)
theory Worker_Laws
  imports Recovery_Laws
begin

text \<open>
  The laws of the worker as a whole: who executes which task, over every interleaving of the worker's
  loop, the executions it has started, the recovery of what an earlier process left, and the clients
  of the queue.
\<close>

section \<open>Which tasks run\<close>

definition running :: "queue \<Rightarrow> string set" where
  "running q = t_id ` {t \<in> set (q_tasks q). t_status t = Running}"

text \<open>A task that no claim and no retry can start.\<close>

definition frozen :: "queue \<Rightarrow> string \<Rightarrow> bool" where
  "frozen q tid = (\<exists>t\<in>set (q_tasks q). t_id t = tid \<and> t_status t \<in> {Running, Succeeded, Cancelled})"

lemma running_iff: "tid \<in> running q \<longleftrightarrow> (\<exists>t\<in>set (q_tasks q). t_id t = tid \<and> t_status t = Running)"
  by (auto simp: running_def)

lemma running_frozen: "tid \<in> running q \<Longrightarrow> frozen q tid"
  by (auto simp: running_iff frozen_def)

lemma unfrozen:
  "ids_ok q \<Longrightarrow> t \<in> set (q_tasks q) \<Longrightarrow> t_status t \<in> {Queued, Failed} \<Longrightarrow> \<not> frozen q (t_id t)"
proof
  assume ids: "ids_ok q" and t: "t \<in> set (q_tasks q)" "t_status t \<in> {Queued, Failed}" and f: "frozen q (t_id t)"
  then obtain u where u: "u \<in> set (q_tasks q)" "t_id u = t_id t" "t_status u \<in> {Running, Succeeded, Cancelled}"
    unfolding frozen_def by blast
  have "u = t" by (rule ids_okD [OF ids u(1) t(1) u(2)])
  then show False using u(3) t(2) by auto
qed

text \<open>Rows may end while they wait; apart from that, only the rows of \<open>S\<close> change their status.\<close>

definition changes_in :: "string set \<Rightarrow> task \<Rightarrow> task \<Rightarrow> bool" where
  "changes_in S u u' =
     (t_id u' = t_id u \<and>
      (t_id u \<in> S \<or> t_status u' = t_status u \<or> t_status u = Queued \<and> t_status u' \<noteq> Running))"

definition quiet :: "string set \<Rightarrow> queue \<Rightarrow> queue \<Rightarrow> bool" where
  "quiet S q q' =
     ((ids_ok q \<longrightarrow> ids_ok q') \<and>
      (\<forall>tid. tid \<notin> S \<longrightarrow> (tid \<in> running q' \<longleftrightarrow> tid \<in> running q) \<and> (frozen q tid \<longrightarrow> frozen q' tid)))"

lemma quietD:
  "quiet S q q' \<Longrightarrow> ids_ok q \<Longrightarrow> ids_ok q'"
  "quiet S q q' \<Longrightarrow> tid \<notin> S \<Longrightarrow> tid \<in> running q' \<longleftrightarrow> tid \<in> running q"
  "quiet S q q' \<Longrightarrow> tid \<notin> S \<Longrightarrow> frozen q tid \<Longrightarrow> frozen q' tid"
  by (simp_all add: quiet_def)

lemma quiet_refl: "quiet S q q"
  by (simp add: quiet_def)

lemma quiet_trans: "quiet S q q1 \<Longrightarrow> quiet T q1 q2 \<Longrightarrow> quiet (S \<union> T) q q2"
  by (simp add: quiet_def)

lemma quiet_mono: "quiet S q q' \<Longrightarrow> S \<subseteq> T \<Longrightarrow> quiet T q q'"
  unfolding quiet_def by blast

lemma quiet_rows:
  assumes rows: "list_all2 (changes_in S) (q_tasks q) (q_tasks q')"
  shows "quiet S q q'"
proof -
  have bwd: "\<exists>u\<in>set (q_tasks q). changes_in S u u'" if "u' \<in> set (q_tasks q')" for u'
    using list_all2_ex [OF rows that] .
  have forth: "\<exists>u'\<in>set (q_tasks q'). changes_in S u u'" if "u \<in> set (q_tasks q)" for u
    using list_all2_ex' [OF rows that] .
  have "map t_id (q_tasks q') = map t_id (q_tasks q)"
    using rows by (induction rule: list_all2_induct) (auto simp: changes_in_def)
  then have "ids_ok q \<Longrightarrow> ids_ok q'" by (simp add: ids_ok_def)
  moreover have "tid \<in> running q' \<Longrightarrow> tid \<in> running q" if "tid \<notin> S" for tid
    using bwd that unfolding running_iff changes_in_def by fastforce
  moreover have "tid \<in> running q \<Longrightarrow> tid \<in> running q'" if "tid \<notin> S" for tid
    using forth that unfolding running_iff changes_in_def by fastforce
  moreover have "frozen q tid \<Longrightarrow> frozen q' tid" if "tid \<notin> S" for tid
    using forth that unfolding frozen_def changes_in_def by fastforce
  ultimately show ?thesis unfolding quiet_def by blast
qed

lemma quiet_ends: "queue_ends F S q q' \<Longrightarrow> F \<subseteq> {Succeeded, Failed, Cancelled} \<Longrightarrow> quiet S q q'"
  unfolding queue_ends_def
proof (rule quiet_rows, erule list_all2_mono)
  fix u u' assume F: "F \<subseteq> {Succeeded, Failed, Cancelled}" and e: "ends_in F S u u'"
  show "changes_in S u u'"
    using F e by (cases "t_status u") (auto simp: ends_in_def changes_in_def split: if_splits)
qed

lemma quiet_row_ended: "row_ended t q q' \<Longrightarrow> quiet {t_id t} q q'"
  unfolding row_ended_def
proof (rule quiet_rows, erule list_all2_mono)
  fix u u'
  assume "if u = t then t_id u' = t_id t \<and> t_status u' = Failed else ends_in {Failed} {} u u'"
  then show "changes_in {t_id t} u u'"
    by (cases "t_status u") (auto simp: ends_in_def changes_in_def split: if_splits)
qed

lemma quiet_one_row: "one_row t t' q q' \<Longrightarrow> quiet {t_id t} q q'"
  by (rule quiet_rows) (auto simp: one_row_def changes_in_def list.rel_map list_all2_same)

lemma quiet_update:
  "(\<And>u. P u \<Longrightarrow> t_id (f u) = t_id u \<and> (t_id u \<in> S \<or> t_status (f u) = t_status u)) \<Longrightarrow> quiet S q (update_where P f q)"
  by (rule quiet_rows) (auto simp: update_where_def changes_in_def list.rel_map list_all2_same)

lemma quiet_tasks: "q_tasks q' = q_tasks q \<Longrightarrow> quiet {} q q'"
  by (rule quiet_rows) (simp add: changes_in_def list_all2_same)

lemma ended_not_running:
  assumes "queue_ends F S q q'" "tid \<in> S" "Running \<notin> F"
  shows "tid \<notin> running q'"
proof
  assume "tid \<in> running q'"
  then obtain u' where u': "u' \<in> set (q_tasks q')" "t_id u' = tid" "t_status u' = Running" by (auto simp: running_iff)
  obtain u where "ends_in F S u u'" using list_all2_ex [OF assms(1) [unfolded queue_ends_def] u'(1)] by blast
  then show False using u' assms(2,3) by (cases "t_status u") (auto simp: ends_in_def split: if_splits)
qed

lemma frozen_ends:
  assumes "queue_ends F S q q'" "frozen q tid" "F \<subseteq> {Succeeded, Cancelled}"
  shows "frozen q' tid"
proof -
  obtain u where u: "u \<in> set (q_tasks q)" "t_id u = tid" "t_status u \<in> {Running, Succeeded, Cancelled}"
    using assms(2) by (auto simp: frozen_def)
  obtain u' where u': "u' \<in> set (q_tasks q')" "ends_in F S u u'"
    using list_all2_ex' [OF assms(1) [unfolded queue_ends_def] u(1)] by blast
  then have "t_id u' = tid \<and> t_status u' \<in> {Running, Succeeded, Cancelled}"
    using u assms(3) by (cases "t_status u") (auto simp: ends_in_def split: if_splits)
  then show ?thesis using u'(1) by (auto simp: frozen_def)
qed

lemma one_row_running:
  assumes "ids_ok q" "t \<in> set (q_tasks q)" "one_row t t' q q'"
  shows "t_id t \<in> running q' \<longleftrightarrow> t_status t' = Running"
proof -
  have rows: "q_tasks q' = map (\<lambda>u. if u = t then t' else u) (q_tasks q)" "t_id t' = t_id t"
    using assms(3) by (simp_all add: one_row_def)
  have by_id: "t_id u = t_id t \<longleftrightarrow> u = t" if "u \<in> set (q_tasks q)" for u
    using ids_okD [OF assms(1) that assms(2)] by blast
  show ?thesis
    unfolding running_iff rows(1) using by_id assms(2) rows(2) by auto
qed

section \<open>The clients\<close>

text \<open>
  What everybody else may do to the queue while the worker holds the lease: enqueue, cancel, keep
  batches, and what a running execution writes of itself.
\<close>

inductive client_step :: "queue \<Rightarrow> queue \<Rightarrow> bool" where
  Enqueues: "enqueue now tid guard r q = Inr (res, q') \<Longrightarrow> client_step q q'"
| Creates_batch: "create_batch now bid project operation requested blocked source user q = Inr q' \<Longrightarrow> client_step q q'"
| Attaches: "attach_batch_task project bid tid u dd user q = Inr q' \<Longrightarrow> client_step q q'"
| Deletes_batch: "client_step q (snd (delete_fresh_batch project bid user q))"
| Cancels: "cancel_task now tid seen q = Inr (res, q') \<Longrightarrow> client_step q q'"
| Cancels_all: "client_step q (snd (cancel_all_queued now project excluded seen q))"
| Persists_job: "client_step q (persist_provider_job_id now tid job endpoint base_url q)"
| Persists_checkpoint: "persist_execution_checkpoint now tid checkpoint provider q = Inr q' \<Longrightarrow> client_step q q'"
| Elsewhere: "client_step q (q\<lparr>q_calls := cs, q_events := es\<rparr>)"

lemma quiet_insert:
  assumes "q_tasks q' = q_tasks q @ [t]" "t_status t = Queued" "t_id t \<notin> t_id ` set (q_tasks q)"
  shows "quiet {} q q'"
  using assms by (auto simp: quiet_def ids_ok_def running_iff frozen_def)

lemma enqueue_inserts:
  "enqueue now tid guard r q = Inr (res, q') \<Longrightarrow>
     (\<exists>t. q_tasks q' = q_tasks q @ [t] \<and> t_status t = Queued \<and> t_id t \<notin> t_id ` set (q_tasks q)) \<or> q_tasks q' = q_tasks q"
  unfolding enqueue_def
  by (auto simp: bindE_Inr_iff Let_def insert_task_def list_ex_iff new_task_def
      split: option.splits if_splits dest!: join_batch_tasks)

lemma quiet_enqueue: "enqueue now tid guard r q = Inr (res, q') \<Longrightarrow> quiet {} q q'"
  using enqueue_inserts [of now tid guard r q res q'] quiet_insert [of q' q] quiet_tasks [of q' q] by blast

lemma record_event_tasks [simp]: "q_tasks (record_terminal_event t st q) = q_tasks q"
  by (simp add: record_terminal_event_def)

lemma fold_event_tasks: "q_tasks (fold (\<lambda>t. record_terminal_event (f t) st) ts q) = q_tasks q"
  by (induction ts arbitrary: q) auto

lemma quiet_cancel_all: "quiet {} q (snd (cancel_all_queued now project excluded seen q))"
proof -
  let ?hit = "\<lambda>t. t_id t \<in> set (map t_id (filter (cancellable_in project excluded) (q_tasks seen))) \<and> t_status t = Queued"
  have "q_tasks (snd (cancel_all_queued now project excluded seen q)) = q_tasks q \<or>
      q_tasks (snd (cancel_all_queued now project excluded seen q))
        = map (\<lambda>t. if ?hit t then cancelled_with now ''user'' t else t) (q_tasks q)"
    unfolding cancel_all_queued_def Let_def
    by (cases "map t_id (filter (cancellable_in project excluded) (q_tasks seen)) = []")
      (simp_all add: fold_event_tasks update_where_def)
  then show ?thesis
  proof
    assume "q_tasks (snd (cancel_all_queued now project excluded seen q))
        = map (\<lambda>t. if ?hit t then cancelled_with now ''user'' t else t) (q_tasks q)"
    then show ?thesis by (intro quiet_rows) (simp add: list.rel_map list_all2_same changes_in_def)
  qed (rule quiet_tasks)
qed

lemma quiet_mark_cancelled: "mark_cancelled now tid by_whom [Queued] q = Some (ds, q') \<Longrightarrow> quiet {} q q'"
  using mark_cancelled_ends [of now tid by_whom "[Queued]" q ds q'] by (auto intro: quiet_ends)

lemma quiet_cancel: "cancel_task now tid seen q = Inr (res, q') \<Longrightarrow> quiet {} q q'"
  unfolding cancel_task_def
  by (auto split: option.splits if_splits intro: quiet_refl quiet_mark_cancelled)

lemma quiet_client: "client_step q q' \<Longrightarrow> quiet {} q q'"
proof (induction rule: client_step.induct)
  case (Persists_job q now tid job endpoint base_url)
  show ?case unfolding persist_provider_job_id_def by (rule quiet_update) auto
next
  case (Persists_checkpoint now tid checkpoint provider q q')
  then show ?case by (auto simp: persist_execution_checkpoint_def split: if_splits intro!: quiet_update)
next
  case (Enqueues now tid guard r q res q')
  then show ?case by (cases res) (rule quiet_enqueue)
next
  case (Cancels now tid seen q res q')
  then show ?case by (rule quiet_cancel)
qed (auto intro: quiet_cancel_all quiet_tasks batch_tasks)

end
