(* ===== verification/Worker_Ownership.thy ===== *)
theory Worker_Ownership
  imports Worker_Laws
begin

text \<open>
  Who executes a task: every task that runs is executed by one future of the worker, over every
  interleaving of the worker with its executions, its recovery and its clients.
\<close>

section \<open>Slots\<close>

lemma occupies_register:
  "occupies (slot_register p m tid f pending s) p' m' tid' occ \<longleftrightarrow>
     (if (p', m', tid') = (p, m, tid) then occ = \<lparr>o_future = f, o_pending = pending\<rparr> else occupies s p' m' tid' occ)"
  by (auto simp: occupies_def bucket_of_register update_conv' split: if_splits)

lemma bucket_of_update:
  "bucket_of p' m' (AList.update (p, m) b s) = (if (p', m') = (p, m) then b else bucket_of p' m' s)"
  by (simp add: bucket_of_def get_or_def update_conv')

lemma bucket_of_delete:
  "bucket_of p' m' (AList.delete (p, m) s) = (if (p', m') = (p, m) then [] else bucket_of p' m' s)"
  by (simp add: bucket_of_def get_or_def delete_conv')

lemma slots_ok_delete: "slots_ok s \<Longrightarrow> slots_ok (AList.delete k s)"
  by (auto simp: slots_ok_def list_all_iff AList.delete_eq distinct_map_filter)

lemma bucket_of_get: "map_of s (p, m) = Some b \<Longrightarrow> bucket_of p m s = b"
  by (simp add: bucket_of_def get_or_def)

lemma release_ok: "slots_ok s \<Longrightarrow> slots_ok (slot_release p m tid s)"
proof (cases "map_of s (p, m)")
  case (Some b)
  assume ok: "slots_ok s"
  have "distinct (map fst (AList.delete tid b))"
    using slots_ok_bucket [OF ok, of p m] bucket_of_get [OF Some] AList.distinct_delete by metis
  then show ?thesis
    using ok Some slots_ok_delete slots_ok_update by (simp add: slot_release_def Let_def)
qed (simp add: slot_release_def)

lemma bucket_of_release: "bucket_of p' m' (slot_release p m tid s) =
    (if (p', m') = (p, m) then AList.delete tid (bucket_of p m s) else bucket_of p' m' s)"
  by (cases "map_of s (p, m)")
    (auto simp: slot_release_def Let_def bucket_of_update bucket_of_delete bucket_of_get, auto simp: bucket_of_def get_or_def)

lemma occupies_release:
  "occupies (slot_release p m tid s) p' m' tid' occ \<longleftrightarrow> (p', m', tid') \<noteq> (p, m, tid) \<and> occupies s p' m' tid' occ"
  by (auto simp: occupies_def bucket_of_release delete_conv')

lemma promote_ok: "slots_ok s \<Longrightarrow> slots_ok (slot_promote p m tid s)"
proof -
  assume ok: "slots_ok s"
  have "slots_ok (AList.update (p, m) (AList.update tid occ b) s)" if "map_of s (p, m) = Some b" for b and occ :: occupant
  proof (rule slots_ok_update [OF ok])
    show "AList.update tid occ b \<noteq> []" by (cases b) auto
    show "distinct (map fst (AList.update tid occ b))"
      using slots_ok_bucket [OF ok, of p m] bucket_of_get [OF that] AList.distinct_update by metis
  qed
  then show ?thesis using ok by (simp add: slot_promote_def split: option.split)
qed

text \<open>Promotion keeps the futures.\<close>

definition holds :: "slot_table \<Rightarrow> string \<Rightarrow> string \<Rightarrow> string \<Rightarrow> nat \<Rightarrow> bool" where
  "holds s p m tid h = (\<exists>occ. occupies s p m tid occ \<and> o_future occ = h)"

lemma holds_promote: "holds (slot_promote p m tid s) p' m' tid' h \<longleftrightarrow> holds s p' m' tid' h"
proof (cases "map_of s (p, m)")
  case (Some b)
  note b = this
  show ?thesis
  proof (cases "map_of b tid")
    case (Some occ)
    then show ?thesis
      using b by (auto simp: slot_promote_def holds_def occupies_def bucket_of_update bucket_of_get update_conv')
  qed (simp add: slot_promote_def b)
qed (simp add: slot_promote_def)

lemma holds_register:
  "holds (slot_register p m tid f pending s) p' m' tid' h \<longleftrightarrow>
     (if (p', m', tid') = (p, m, tid) then h = f else holds s p' m' tid' h)"
  by (auto simp: holds_def occupies_register)

lemma holds_release:
  "holds (slot_release p m tid s) p' m' tid' h \<longleftrightarrow> (p', m', tid') \<noteq> (p, m, tid) \<and> holds s p' m' tid' h"
  by (auto simp: holds_def occupies_release)

lemma holds_active: "slots_ok s \<Longrightarrow> tid \<in> active_task_ids s \<longleftrightarrow> (\<exists>p m h. holds s p m tid h)"
proof -
  assume ok: "slots_ok s"
  show ?thesis
  proof
    assume "tid \<in> active_task_ids s"
    then obtain p m b occ where b: "((p, m), b) \<in> set s" "(tid, occ) \<in> set b" by (auto simp: active_task_ids_def)
    then have "bucket_of p m s = b" using slots_ok_mem [OF ok] by blast
    then have "occupies s p m tid occ" using b(2) slots_ok_bucket [OF ok, of p m] by (simp add: occupies_def)
    then show "\<exists>p m h. holds s p m tid h" by (auto simp: holds_def)
  next
    assume "\<exists>p m h. holds s p m tid h"
    then obtain p m occ where "map_of (bucket_of p m s) tid = Some occ" by (auto simp: holds_def occupies_def)
    then have "(tid, occ) \<in> set (bucket_of p m s)" "bucket_of p m s \<noteq> []" by (auto dest: map_of_SomeD)
    then show "tid \<in> active_task_ids s" using bucket_in_slots [of p m s] by (force simp: active_task_ids_def)
  qed
qed

text \<open>Draining removes what has finished.\<close>

lemma get_or_nonempty: "distinct (map fst xs) \<Longrightarrow> get_or [] k (filter (\<lambda>(k, b). b \<noteq> []) xs) = get_or [] k xs"
proof (induction xs)
  case Nil
  then show ?case by simp
next
  case (Cons x xs)
  obtain k' b where x: "x = (k', b)" by (cases x)
  have "get_or [] k (filter (\<lambda>(k, b). b \<noteq> []) xs) = get_or [] k xs" using Cons by simp
  moreover have "k' = k \<Longrightarrow> map_of xs k = None" using Cons.prems x by (simp add: map_of_eq_None_iff)
  ultimately show ?case by (cases "k' = k"; cases "b = []") (simp_all add: x get_or_def)
qed

lemma bucket_of_drain:
  assumes "slots_ok s"
  shows "bucket_of p m (snd (drain_finished fin s)) = filter (\<lambda>x. \<not> finished_occupant fin x) (bucket_of p m s)"
    and "slots_ok (snd (drain_finished fin s))"
proof -
  let ?keep = "\<lambda>b. filter (\<lambda>x. \<not> finished_occupant fin x) b"
  let ?s1 = "map (\<lambda>(k, b). (k, ?keep b)) s"
  have d: "distinct (map fst s)" "\<And>k b. (k, b) \<in> set s \<Longrightarrow> distinct (map fst b)"
    using assms by (auto simp: slots_ok_def list_all_iff)
  have keys: "map fst ?s1 = map fst s" by (induction s) auto
  have d1: "distinct (map fst ?s1)" unfolding keys by (rule d(1))
  have s2: "snd (drain_finished fin s) = filter (\<lambda>(k, b). b \<noteq> []) ?s1" by (simp add: drain_finished_def)
  have "distinct (map fst (filter (\<lambda>(k, b). b \<noteq> []) ?s1))" using d1 by (rule distinct_map_filter)
  then show "slots_ok (snd (drain_finished fin s))"
    unfolding s2 using d(2) by (auto simp: slots_ok_def list_all_iff distinct_map_filter)
  have "map_of ?s1 k = map_option ?keep (map_of s k)" for k by (induction s) auto
  moreover have "get_or [] k (filter (\<lambda>(k, b). b \<noteq> []) ?s1) = get_or [] k ?s1" for k
    by (rule get_or_nonempty [OF d1])
  ultimately show "bucket_of p m (snd (drain_finished fin s)) = ?keep (bucket_of p m s)"
    unfolding s2 bucket_of_def by (simp add: get_or_def split: option.split)
qed

lemma occupies_iff: "slots_ok s \<Longrightarrow> occupies s p m tid occ \<longleftrightarrow> (tid, occ) \<in> set (bucket_of p m s)"
  using slots_ok_bucket [of s p m] by (simp add: occupies_def)

lemma lane_iff: "slots_ok s \<Longrightarrow> ((p, m), b) \<in> set s \<longleftrightarrow> b \<noteq> [] \<and> b = bucket_of p m s"
  using slots_ok_mem [of s p m b] bucket_in_slots [of p m s] by auto

lemma occupies_drain:
  "slots_ok s \<Longrightarrow> occupies (snd (drain_finished fin s)) p m tid occ \<longleftrightarrow>
     occupies s p m tid occ \<and> \<not> finished_occupant fin (tid, occ)"
  by (auto simp: occupies_iff bucket_of_drain)

lemma drained_iff:
  assumes ok: "slots_ok s"
  shows "(tid, h) \<in> set (fst (drain_finished fin s)) \<longleftrightarrow>
     (\<exists>p m occ. occupies s p m tid occ \<and> finished_occupant fin (tid, occ) \<and> o_future occ = h)"
proof
  assume "(tid, h) \<in> set (fst (drain_finished fin s))"
  then obtain k b occ where x: "(k, b) \<in> set s" "(tid, occ) \<in> set b" "finished_occupant fin (tid, occ)" "o_future occ = h"
    by (auto simp: drain_finished_def)
  obtain p m where k: "k = (p, m)" by (cases k)
  have "b = bucket_of p m s" using x(1) ok unfolding k lane_iff [OF ok] by simp
  then have "occupies s p m tid occ" using x(2) by (simp add: occupies_iff ok)
  then show "\<exists>p m occ. occupies s p m tid occ \<and> finished_occupant fin (tid, occ) \<and> o_future occ = h"
    using x(3,4) by blast
next
  assume "\<exists>p m occ. occupies s p m tid occ \<and> finished_occupant fin (tid, occ) \<and> o_future occ = h"
  then obtain p m occ where x: "(tid, occ) \<in> set (bucket_of p m s)" "finished_occupant fin (tid, occ)" "o_future occ = h"
    by (auto simp: occupies_iff ok)
  then have "((p, m), bucket_of p m s) \<in> set s" using bucket_in_slots [of p m s] by force
  then show "(tid, h) \<in> set (fst (drain_finished fin s))" using x by (force simp: drain_finished_def)
qed

section \<open>Who owns a task\<close>

definition live :: "worker \<Rightarrow> nat \<Rightarrow> bool" where
  "live w h =
     (h < length (wk_futures w) \<and> f_state (wk_futures w ! h) \<noteq> Ended \<and>
      (\<exists>p m. holds (wk_slots w) p m (f_task (wk_futures w ! h)) h))"

definition live_tasks :: "worker \<Rightarrow> string set" where
  "live_tasks w = (\<lambda>h. f_task (wk_futures w ! h)) ` {h. live w h}"

definition executing :: "worker \<Rightarrow> nat \<Rightarrow> bool" where
  "executing w h = (h < length (wk_futures w) \<and> f_state (wk_futures w ! h) = Executing)"

definition well_held :: "worker \<Rightarrow> bool" where
  "well_held w =
     (\<forall>p m tid h. holds (wk_slots w) p m tid h \<longrightarrow> h < length (wk_futures w) \<and> f_task (wk_futures w ! h) = tid \<and>
        (\<forall>p' m'. holds (wk_slots w) p' m' tid h \<longrightarrow> (p', m') = (p, m)))"

definition well_resumed :: "worker \<Rightarrow> bool" where
  "well_resumed w =
     (\<forall>h t sem. executing w h \<longrightarrow> f_resumes (wk_futures w ! h) = Some (t, sem) \<longrightarrow>
        t_id t = f_task (wk_futures w ! h) \<and>
        holds (wk_slots w) (f_provider (wk_futures w ! h)) ''video'' (f_task (wk_futures w ! h)) h)"

definition owned :: "worker \<Rightarrow> bool" where
  "owned w =
     (tables_ok w \<and> well_held w \<and> well_resumed w \<and>
      (\<forall>h. executing w h \<longrightarrow> live w h \<and> f_task (wk_futures w ! h) \<in> running (wk_queue w)) \<and>
      (\<forall>h. live w h \<longrightarrow> frozen (wk_queue w) (f_task (wk_futures w ! h))) \<and>
      (\<forall>h h'. live w h \<longrightarrow> live w h' \<longrightarrow> f_task (wk_futures w ! h) = f_task (wk_futures w ! h') \<longrightarrow> h = h'))"

definition accounted :: "worker \<Rightarrow> string set \<Rightarrow> bool" where
  "accounted w lost = (running (wk_queue w) \<subseteq> lost \<union> live_tasks w)"

lemma ownedD:
  assumes "owned w"
  shows "ids_ok (wk_queue w)" "slots_ok (wk_slots w)" "well_held w" "well_resumed w"
    "executing w h \<Longrightarrow> live w h" "executing w h \<Longrightarrow> f_task (wk_futures w ! h) \<in> running (wk_queue w)"
    "live w h \<Longrightarrow> frozen (wk_queue w) (f_task (wk_futures w ! h))"
    "live w h \<Longrightarrow> live w h' \<Longrightarrow> f_task (wk_futures w ! h) = f_task (wk_futures w ! h') \<Longrightarrow> h = h'"
  using assms unfolding owned_def tables_ok_def by blast+

lemma well_heldD:
  "well_held w \<Longrightarrow> holds (wk_slots w) p m tid h \<Longrightarrow> h < length (wk_futures w) \<and> f_task (wk_futures w ! h) = tid"
  "well_held w \<Longrightarrow> holds (wk_slots w) p m tid h \<Longrightarrow> holds (wk_slots w) p' m' tid h \<Longrightarrow> p' = p \<and> m' = m"
  unfolding well_held_def by blast+

lemma live_tasksI: "live w h \<Longrightarrow> f_task (wk_futures w ! h) \<in> live_tasks w"
  by (simp add: live_tasks_def)

lemma live_frozen: "owned w \<Longrightarrow> tid \<in> live_tasks w \<Longrightarrow> frozen (wk_queue w) tid"
  by (auto simp: live_tasks_def dest: ownedD(7))

lemma live_active: "owned w \<Longrightarrow> tid \<in> live_tasks w \<Longrightarrow> tid \<in> active_task_ids (wk_slots w)"
  using holds_active [OF ownedD(2)] by (auto simp: live_tasks_def live_def)

lemma queue_only [simp]:
  "live (w\<lparr>wk_queue := q\<rparr>) h = live w h" "live_tasks (w\<lparr>wk_queue := q\<rparr>) = live_tasks w"
  "executing (w\<lparr>wk_queue := q\<rparr>) h = executing w h" "well_held (w\<lparr>wk_queue := q\<rparr>) = well_held w"
  "well_resumed (w\<lparr>wk_queue := q\<rparr>) = well_resumed w"
  by (simp_all add: live_def live_tasks_def executing_def well_held_def well_resumed_def)

lemma other_fields [simp]:
  "live (w\<lparr>wk_capacity := c\<rparr>) h = live w h" "live_tasks (w\<lparr>wk_capacity := c\<rparr>) = live_tasks w"
  "owned (w\<lparr>wk_capacity := c\<rparr>) = owned w" "accounted (w\<lparr>wk_capacity := c\<rparr>) lost = accounted w lost"
  "live (w\<lparr>wk_permits := ps\<rparr>) h = live w h" "live_tasks (w\<lparr>wk_permits := ps\<rparr>) = live_tasks w"
  "owned (w\<lparr>wk_permits := ps\<rparr>) = owned w" "accounted (w\<lparr>wk_permits := ps\<rparr>) lost = accounted w lost"
  by (simp_all add: owned_def accounted_def tables_ok_def live_def live_tasks_def executing_def well_held_def well_resumed_def)

text \<open>The queue changes, but not under a task that is owned.\<close>

lemma owned_quiet:
  assumes w: "owned w" and q: "quiet S (wk_queue w) q" "S \<inter> live_tasks w = {}"
  shows "owned (w\<lparr>wk_queue := q\<rparr>)"
proof -
  have out: "f_task (wk_futures w ! h) \<notin> S" if "live w h" for h
    using q(2) that by (auto simp: live_tasks_def)
  have "tables_ok (w\<lparr>wk_queue := q\<rparr>)" using ownedD(1,2) [OF w] quietD(1) [OF q(1)] by (simp add: tables_ok_def)
  moreover have "f_task (wk_futures w ! h) \<in> running q" if "executing w h" for h
    using ownedD(5,6) [OF w that] quietD(2) [OF q(1) out] by blast
  moreover have "frozen q (f_task (wk_futures w ! h))" if "live w h" for h
    using ownedD(7) [OF w that] quietD(3) [OF q(1) out [OF that]] by blast
  ultimately show ?thesis
    using w unfolding owned_def by simp
qed

text \<open>An execution starts.\<close>

definition started :: "string \<Rightarrow> string \<Rightarrow> bool \<Rightarrow> future \<Rightarrow> worker \<Rightarrow> worker" where
  "started p m pending f w =
     w\<lparr>wk_slots := slot_register p m (f_task f) (length (wk_futures w)) pending (wk_slots w),
       wk_futures := wk_futures w @ [f]\<rparr>"

definition fresh_future :: "string \<Rightarrow> string \<Rightarrow> future \<Rightarrow> bool" where
  "fresh_future p m f =
     (f_state f = Executing \<and>
      (\<forall>t sem. f_resumes f = Some (t, sem) \<longrightarrow> t_id t = f_task f \<and> m = ''video'' \<and> f_provider f = p))"

lemma started_live:
  assumes w: "owned w" and f: "f_task f \<notin> live_tasks w" "f_state f \<noteq> Ended"
  shows "live (started p m pending f w) h \<longleftrightarrow> live w h \<or> h = length (wk_futures w)"
proof (cases "h < length (wk_futures w)")
  case True
  have "live (started p m pending f w) h \<longleftrightarrow> live w h"
  proof (cases "f_task (wk_futures w ! h) = f_task f")
    case same: True
    then have "\<not> live w h" using f(1) live_tasksI [of w h] by auto
    then show ?thesis using True same by (auto simp: live_def started_def holds_register nth_append split: if_splits)
  next
    case False
    then show ?thesis using True by (auto simp: live_def started_def holds_register nth_append)
  qed
  then show ?thesis using True by simp
next
  case False
  have "live (started p m pending f w) (length (wk_futures w))"
    using f(2) unfolding live_def by (auto simp: started_def holds_register intro: exI [of _ p] exI [of _ m])
  moreover have "h \<noteq> length (wk_futures w) \<Longrightarrow> \<not> live (started p m pending f w) h"
    using False by (simp add: live_def started_def)
  ultimately show ?thesis using False by (auto simp: live_def)
qed

lemma well_held_start:
  assumes w: "well_held w"
  shows "well_held (started p m pending f w)"
proof -
  have old: "h < length (wk_futures w)" if "holds (wk_slots w) p' m' tid h" for p' m' tid h
    using well_heldD(1) [OF w that] by simp
  show ?thesis
    unfolding well_held_def
  proof (intro allI impI)
    fix p1 m1 tid h
    assume a: "holds (wk_slots (started p m pending f w)) p1 m1 tid h"
    show "h < length (wk_futures (started p m pending f w)) \<and> f_task (wk_futures (started p m pending f w) ! h) = tid \<and>
        (\<forall>p2 m2. holds (wk_slots (started p m pending f w)) p2 m2 tid h \<longrightarrow> (p2, m2) = (p1, m1))"
    proof (cases "(p1, m1, tid) = (p, m, f_task f)")
      case True
      then show ?thesis using a old by (auto simp: started_def holds_register split: if_splits)
    next
      case False
      then have h: "holds (wk_slots w) p1 m1 tid h" using a by (auto simp: started_def holds_register split: if_splits)
      have now: "h < length (wk_futures w)" "f_task (wk_futures w ! h) = tid" using well_heldD(1) [OF w h] by simp_all
      have "(p2, m2) = (p1, m1)" if "holds (wk_slots (started p m pending f w)) p2 m2 tid h" for p2 m2
      proof -
        have "holds (wk_slots w) p2 m2 tid h"
          using that now(1) by (cases "(p2, m2, tid) = (p, m, f_task f)") (simp_all add: started_def holds_register)
        then show ?thesis using well_heldD(2) [OF w h] by simp
      qed
      then show ?thesis using now by (simp add: started_def nth_append)
    qed
  qed
qed

lemma owned_start:
  assumes w: "owned w" and f: "f_task f \<in> running (wk_queue w)" "f_task f \<notin> live_tasks w" "fresh_future p m f"
  shows "owned (started p m pending f w)"
    and "live_tasks (started p m pending f w) = insert (f_task f) (live_tasks w)"
proof -
  let ?w = "started p m pending f w" and ?n = "length (wk_futures w)"
  have st: "f_state f \<noteq> Ended" using f(3) by (simp add: fresh_future_def)
  note lv = started_live [OF w f(2) st, of p m pending]
  have old: "wk_futures ?w ! h = wk_futures w ! h" if "live w h" for h
    using that by (simp add: live_def started_def nth_append)
  have ne: "f_task (wk_futures w ! h) \<noteq> f_task f" if "live w h" for h
    using live_tasksI [OF that] f(2) by auto
  have new: "wk_futures ?w ! ?n = f" "wk_queue ?w = wk_queue w" by (simp_all add: started_def)
  show "live_tasks ?w = insert (f_task f) (live_tasks w)"
  proof -
    have "{h. live ?w h} = insert ?n {h. live w h}" using lv by auto
    moreover have "(\<lambda>h. f_task (wk_futures ?w ! h)) ` {h. live w h} = live_tasks w"
      using old unfolding live_tasks_def by (intro image_cong) auto
    ultimately show ?thesis using new(1) by (simp add: live_tasks_def)
  qed
  have exec: "executing ?w h \<longleftrightarrow> executing w h \<or> h = ?n" for h
    using f(3) by (auto simp: executing_def started_def nth_append less_Suc_eq fresh_future_def)
  have "tables_ok ?w" using ownedD(1,2) [OF w] by (simp add: tables_ok_def started_def slots_ok_register)
  moreover have "well_held ?w" by (rule well_held_start [OF ownedD(3) [OF w]])
  moreover have "well_resumed ?w"
  proof -
    have "holds (wk_slots ?w) (f_provider (wk_futures w ! h)) ''video'' (f_task (wk_futures w ! h)) h"
      if "executing w h" "holds (wk_slots w) (f_provider (wk_futures w ! h)) ''video'' (f_task (wk_futures w ! h)) h" for h
    proof -
      have "f_task (wk_futures w ! h) \<noteq> f_task f"
        using ownedD(5) [OF w that(1)] f(2) using live_tasksI [of w h] by auto
      then show ?thesis using that(2) by (simp add: started_def holds_register)
    qed
    then show ?thesis
      using ownedD(4,5) [OF w] old new f(3) unfolding well_resumed_def exec
      by (auto simp: fresh_future_def started_def holds_register)
  qed
  moreover have "live ?w h \<and> f_task (wk_futures ?w ! h) \<in> running (wk_queue ?w)" if "executing ?w h" for h
    using that ownedD(5,6) [OF w] old new f(1) unfolding exec lv by auto
  moreover have "frozen (wk_queue ?w) (f_task (wk_futures ?w ! h))" if "live ?w h" for h
    using that ownedD(7) [OF w] old new running_frozen [OF f(1)] unfolding lv by auto
  moreover have "h = h'" if "live ?w h" "live ?w h'" "f_task (wk_futures ?w ! h) = f_task (wk_futures ?w ! h')" for h h'
    using that ownedD(8) [OF w] old new(1) ne unfolding lv by metis
  ultimately show "owned ?w" unfolding owned_def by blast
qed

text \<open>An execution ends.\<close>

definition ended :: "future_state \<Rightarrow> nat \<Rightarrow> worker \<Rightarrow> worker" where
  "ended st h w = w\<lparr>wk_futures := (wk_futures w)[h := (wk_futures w ! h)\<lparr>f_state := st\<rparr>]\<rparr>"

lemma ended_nth:
  "wk_futures (ended st h w) ! h' =
     (if h' = h \<and> h < length (wk_futures w) then (wk_futures w ! h)\<lparr>f_state := st\<rparr> else wk_futures w ! h')"
  by (cases "h < length (wk_futures w)") (simp_all add: ended_def nth_list_update list_update_beyond)

lemma ended_fields [simp]:
  "wk_queue (ended st h w) = wk_queue w" "wk_slots (ended st h w) = wk_slots w"
  "length (wk_futures (ended st h w)) = length (wk_futures w)"
  "f_task (wk_futures (ended st h w) ! h') = f_task (wk_futures w ! h')"
  "f_provider (wk_futures (ended st h w) ! h') = f_provider (wk_futures w ! h')"
  "f_resumes (wk_futures (ended st h w) ! h') = f_resumes (wk_futures w ! h')"
  unfolding ended_nth by (simp_all add: ended_def)

lemma ended_state:
  "h < length (wk_futures w) \<Longrightarrow> f_state (wk_futures (ended st h w) ! h') = (if h' = h then st else f_state (wk_futures w ! h'))"
  by (simp add: ended_nth)

lemma owned_end:
  assumes w: "owned w" and h: "executing w h" "st \<noteq> Executing"
    and q: "quiet {f_task (wk_futures w ! h)} (wk_queue w) q"
    and fr: "st = Interrupted \<Longrightarrow> frozen q (f_task (wk_futures w ! h))"
  shows "owned (ended st h (w\<lparr>wk_queue := q\<rparr>))"
    and "live_tasks (ended st h (w\<lparr>wk_queue := q\<rparr>)) =
      (if st = Ended then live_tasks w - {f_task (wk_futures w ! h)} else live_tasks w)"
proof -
  let ?w = "ended st h (w\<lparr>wk_queue := q\<rparr>)" and ?tid = "f_task (wk_futures w ! h)"
  have lt: "h < length (wk_futures w)" using h(1) by (simp add: executing_def)
  then have lt': "h < length (wk_futures (w\<lparr>wk_queue := q\<rparr>))" by simp
  have lh: "live w h" by (rule ownedD(5) [OF w h(1)])
  have lv: "live ?w h' \<longleftrightarrow> live w h' \<and> (h' = h \<longrightarrow> st \<noteq> Ended)" for h'
    using lh by (auto simp: live_def ended_state [OF lt'] split: if_splits)
  have ex: "executing ?w h' \<longleftrightarrow> executing w h' \<and> h' \<noteq> h" for h'
    using h by (auto simp: executing_def ended_state [OF lt'] split: if_splits)
  have other: "f_task (wk_futures w ! h') \<noteq> ?tid" if "live w h'" "h' \<noteq> h" for h'
    using ownedD(8) [OF w that(1) lh] that(2) by blast
  have out: "f_task (wk_futures w ! h') \<notin> {?tid}" if "live w h'" "h' \<noteq> h" for h'
    using other [OF that] by simp
  show "live_tasks ?w = (if st = Ended then live_tasks w - {?tid} else live_tasks w)"
    using other lh by (auto simp: live_tasks_def lv)
  have "tables_ok ?w" using ownedD(1,2) [OF w] quietD(1) [OF q] by (simp add: tables_ok_def)
  moreover have "well_held ?w" using ownedD(3) [OF w] by (simp add: well_held_def)
  moreover have "well_resumed ?w" using ownedD(4) [OF w] unfolding well_resumed_def ex by simp
  moreover have "live ?w h' \<and> f_task (wk_futures ?w ! h') \<in> running (wk_queue ?w)" if "executing ?w h'" for h'
    using that ownedD(5,6) [OF w] quietD(2) [OF q out] unfolding ex lv by simp
  moreover have "frozen (wk_queue ?w) (f_task (wk_futures ?w ! h'))" if "live ?w h'" for h'
  proof (cases "h' = h")
    case True
    then have "st = Interrupted" using that h(2) lv by (cases st) auto
    then show ?thesis using fr True by simp
  next
    case False
    then show ?thesis using that ownedD(7) [OF w] quietD(3) [OF q out] unfolding lv by simp
  qed
  moreover have "h1 = h2" if "live ?w h1" "live ?w h2" "f_task (wk_futures ?w ! h1) = f_task (wk_futures ?w ! h2)" for h1 h2
    using that ownedD(8) [OF w] unfolding lv by simp
  ultimately show "owned ?w" unfolding owned_def by blast
qed

text \<open>A slot is given back: by an execution that has ended.\<close>

lemma owned_slots:
  assumes w: "owned w" and s: "slots_ok s"
    and sub: "\<And>p m tid h. holds s p m tid h \<Longrightarrow> holds (wk_slots w) p m tid h"
    and keep: "\<And>p m tid h. executing w h \<Longrightarrow> holds (wk_slots w) p m tid h \<Longrightarrow> holds s p m tid h"
  shows "owned (w\<lparr>wk_slots := s\<rparr>)"
proof -
  let ?w = "w\<lparr>wk_slots := s\<rparr>"
  have lv: "live ?w h \<Longrightarrow> live w h" for h using sub unfolding live_def by simp blast
  have ex: "executing ?w h = executing w h" for h by (simp add: executing_def)
  have "tables_ok ?w" using ownedD(1) [OF w] s by (simp add: tables_ok_def)
  moreover have "well_held ?w" using ownedD(3) [OF w] sub unfolding well_held_def by simp blast
  moreover have "well_resumed ?w" using ownedD(4) [OF w] keep unfolding well_resumed_def ex by simp
  moreover have "live ?w h \<and> f_task (wk_futures ?w ! h) \<in> running (wk_queue ?w)" if "executing ?w h" for h
    using that ownedD(5,6) [OF w] keep unfolding ex live_def by simp blast
  moreover have "frozen (wk_queue ?w) (f_task (wk_futures ?w ! h))" if "live ?w h" for h
    using ownedD(7) [OF w lv [OF that]] by simp
  moreover have "h = h'" if "live ?w h" "live ?w h'" "f_task (wk_futures ?w ! h) = f_task (wk_futures ?w ! h')" for h h'
    using ownedD(8) [OF w lv [OF that(1)] lv [OF that(2)]] that(3) by simp
  ultimately show ?thesis unfolding owned_def by blast
qed

end
