(* ===== verification/Ownership_Laws.thy ===== *)
theory Ownership_Laws
  imports Worker_Ownership
begin

text \<open>Every step of the worker keeps who executes what.\<close>

section \<open>Claiming\<close>

lemma waiting_free:
  assumes w: "owned w" and t: "t \<in> rows_of w" "t_status t \<in> {Queued, Failed}"
  shows "{t_id t} \<inter> live_tasks w = {}" "t_id t \<notin> running (wk_queue w)"
proof -
  have "\<not> frozen (wk_queue w) (t_id t)" by (rule unfrozen [OF ownedD(1) [OF w] t])
  then show "{t_id t} \<inter> live_tasks w = {}" "t_id t \<notin> running (wk_queue w)"
    using live_frozen [OF w] running_frozen by blast+
qed

lemma accounted_quiet:
  assumes "accounted w lost" "quiet S (wk_queue w) q" "S \<inter> running q \<subseteq> lost'" "lost \<subseteq> lost'"
  shows "accounted (w\<lparr>wk_queue := q\<rparr>) lost'"
  using assms quietD(2) [OF assms(2)] unfolding accounted_def by auto

lemma accounted_start:
  assumes w: "owned w" and f: "f_task f \<in> running (wk_queue w)" "f_task f \<notin> live_tasks w" "fresh_future p m f"
    and a: "accounted w (insert (f_task f) lost)"
  shows "accounted (started p m pending f w) lost"
  using a owned_start(2) [OF w f] by (auto simp: accounted_def started_def)

lemma row_ended_not_running:
  assumes "ids_ok q" "t \<in> set (q_tasks q)" "row_ended t q q'"
  shows "t_id t \<notin> running q'"
proof
  assume "t_id t \<in> running q'"
  then obtain u' where u': "u' \<in> set (q_tasks q')" "t_id u' = t_id t" "t_status u' = Running" by (auto simp: running_iff)
  obtain u where u: "u \<in> set (q_tasks q)"
    "if u = t then t_id u' = t_id t \<and> t_status u' = Failed else ends_in {Failed} {} u u'"
    using list_all2_ex [OF assms(3) [unfolded row_ended_def] u'(1)] by blast
  then have "t_id u = t_id t" using u'(2) by (auto simp: ends_in_def split: if_splits)
  then show False using ids_okD [OF assms(1) u(1) assms(2)] u(2) u'(3) by simp
qed

lemma admitted_started:
  "admitted media p tid q w =
     started p media False \<lparr>f_task = tid, f_provider = p, f_state = Executing, f_resumes = None\<rparr> (w\<lparr>wk_queue := q\<rparr>)"
  by (simp add: admitted_def started_def)

definition newly_running :: "worker \<Rightarrow> worker \<Rightarrow> string set" where
  "newly_running w w' = running (wk_queue w') - running (wk_queue w)"

lemma claim_owned:
  assumes w: "owned w" "accounted w lost" and s: "claim_step env media w = (x, w')"
  shows "owned w' \<and> accounted w' (lost \<union> {tid \<in> newly_running w w'. \<not> ce_requeues env tid})"
proof -
  note ids = ownedD(1) [OF w(1)]
  show ?thesis
  proof (rule claim_step_cases [OF ids, of media env])
    assume "claim_step env media w = ((False, False), w)"
    then show ?thesis using w s by (auto simp: accounted_def)
  next
    fix t provider q'
    assume t: "free_task media w t" and r: "claim_step env media w = ((True, True), w\<lparr>wk_queue := q'\<rparr>)"
      and e: "row_ended t (wk_queue w) q'"
    have q: "t \<in> rows_of w" "t_status t \<in> {Queued, Failed}" using t by (auto simp: claimable_def)
    note fr = waiting_free [OF w(1) q]
    have w': "w' = w\<lparr>wk_queue := q'\<rparr>" using r s by simp
    show ?thesis
      unfolding w' using owned_quiet [OF w(1) quiet_row_ended [OF e] fr(1)]
        accounted_quiet [OF w(2) quiet_row_ended [OF e]] row_ended_not_running [OF ids q(1) e] by simp
  next
    fix t t' provider recorded q'
    assume t: "free_task media w t" and r: "claim_step env media w = ((False, recorded), w\<lparr>wk_queue := q'\<rparr>)"
      and e: "one_row t t' (wk_queue w) q'" and st: "t_status t' = (if ce_requeues env (t_id t) then Queued else Running)"
    have q: "t \<in> rows_of w" "t_status t \<in> {Queued, Failed}" using t by (auto simp: claimable_def)
    note fr = waiting_free [OF w(1) q]
    have w': "w' = w\<lparr>wk_queue := q'\<rparr>" using r s by simp
    have "{t_id t} \<inter> running q' \<subseteq> lost \<union> {tid \<in> newly_running w w'. \<not> ce_requeues env tid}"
      using one_row_running [OF ids q(1) e] st fr(2) by (auto simp: newly_running_def w' split: if_splits)
    then show ?thesis
      using owned_quiet [OF w(1) quiet_one_row [OF e] fr(1)] accounted_quiet [OF w(2) quiet_one_row [OF e]]
      by (simp add: w')
  next
    fix t t' provider q'
    assume t: "free_task media w t"
      and r: "claim_step env media w = ((True, \<not> fixed_lane media), admitted media provider (t_id t) q' w)"
      and e: "one_row t t' (wk_queue w) q'" and st: "t_status t' = Running"
    have q: "t \<in> rows_of w" "t_status t \<in> {Queued, Failed}" using t by (auto simp: claimable_def)
    note fr = waiting_free [OF w(1) q]
    let ?f = "\<lparr>f_task = t_id t, f_provider = provider, f_state = Executing, f_resumes = None\<rparr>" and ?w1 = "w\<lparr>wk_queue := q'\<rparr>"
    have w': "w' = started provider media False ?f ?w1" using r s by (simp add: admitted_started)
    have o1: "owned ?w1" by (rule owned_quiet [OF w(1) quiet_one_row [OF e] fr(1)])
    have a1: "accounted ?w1 (insert (t_id t) lost)" by (rule accounted_quiet [OF w(2) quiet_one_row [OF e]]) auto
    have f: "f_task ?f \<in> running (wk_queue ?w1)" "f_task ?f \<notin> live_tasks ?w1" "fresh_future provider media ?f"
      using one_row_running [OF ids q(1) e] st fr(1) by (simp_all add: fresh_future_def)
    have "accounted w' lost" unfolding w' using accounted_start [OF o1 f] a1 by simp
    then show ?thesis using owned_start(1) [OF o1 f] by (auto simp: w' accounted_def)
  qed
qed

section \<open>Ending\<close>

lemma quiet_record: "quiet S q (if ok then persist_execution_provider_id now tid p q else q)"
proof (cases ok)
  case True
  have "quiet S q (persist_execution_provider_id now tid p q)"
    unfolding persist_execution_provider_id_def by (rule quiet_update) simp
  then show ?thesis using True by simp
qed (simp add: quiet_refl)

lemma quiet_requeue: "requeue_task env tid q = (r, q') \<Longrightarrow> quiet {tid} q q'"
proof (cases "ce_requeues env tid")
  case True
  assume r: "requeue_task env tid q = (r, q')"
  let ?f = "\<lambda>t. t\<lparr>t_status := Queued, t_started_at := None, t_updated_at := ce_now env\<rparr>"
  have "q' = update_where (has_status tid [Running]) ?f q"
    using r True by (simp add: requeue_task_def requeue_single_task_def)
  moreover have "quiet {tid} q (update_where (has_status tid [Running]) ?f q)"
    by (rule quiet_update) (simp add: has_status_def)
  ultimately show ?thesis by simp
qed (simp add: requeue_task_def quiet_refl)

lemma requeued_not_running:
  assumes "requeue_task env tid q = (True, q')"
  shows "tid \<notin> running q'"
proof
  assume "tid \<in> running q'"
  then obtain u' where u': "u' \<in> set (q_tasks q')" "t_id u' = tid" "t_status u' = Running" by (auto simp: running_iff)
  let ?f = "\<lambda>t. t\<lparr>t_status := Queued, t_started_at := None, t_updated_at := ce_now env\<rparr>"
  have "q_tasks q' = map (\<lambda>t. if has_status tid [Running] t then ?f t else t) (q_tasks q)"
    using assms by (auto simp: requeue_task_def requeue_single_task_def update_where_def split: if_splits)
  then have "u' \<in> (\<lambda>t. if has_status tid [Running] t then ?f t else t) ` set (q_tasks q)" using u'(1) by simp
  then obtain u where u: "u' = (if has_status tid [Running] u then ?f u else u)" by blast
  show False
  proof (cases "has_status tid [Running] u")
    case True
    then show False using u u'(3) by simp
  next
    case False
    then have "u' = u" using u by simp
    then show False using False u'(2,3) by (simp add: has_status_def)
  qed
qed

lemma quiet_failed: "quiet {tid} q (snd (mark_failed now tid msg q))"
  by (rule quiet_ends [OF mark_failed_ends]) auto

lemma failed_not_running: "tid \<notin> running (snd (mark_failed now tid msg q))"
  by (rule ended_not_running [OF mark_failed_ends]) auto

lemma quiet_succeeded: "quiet {tid} q (snd (mark_succeeded now tid r q))"
  by (rule quiet_ends [OF mark_succeeded_ends]) auto

lemma succeeded_not_running: "tid \<notin> running (snd (mark_succeeded now tid r q))"
  by (rule ended_not_running [OF mark_succeeded_ends]) auto

lemma quiet_finalized: "quiet {tid} q (snd (finalize_interrupted now tid q))"
  by (rule quiet_ends [OF finalize_ends]) auto

lemma finalized_not_running: "tid \<notin> running (snd (finalize_interrupted now tid q))"
  by (rule ended_not_running [OF finalize_ends]) auto

lemma finalized_frozen: "frozen q tid \<Longrightarrow> frozen (snd (finalize_interrupted now tid q)) tid"
  by (rule frozen_ends [OF finalize_ends]) auto

lemma succeeded_frozen: "frozen q tid \<Longrightarrow> frozen (snd (mark_succeeded now tid r q)) tid"
  by (rule frozen_ends [OF mark_succeeded_ends]) auto

lemma quiet_two: "quiet S q q1 \<Longrightarrow> quiet S q1 q2 \<Longrightarrow> quiet S q q2"
  using quiet_trans [of S q q1 S q2] by simp

lemmas ending =
  quiet_failed failed_not_running quiet_succeeded succeeded_not_running quiet_finalized finalized_not_running
  finalized_frozen succeeded_frozen quiet_two [OF quiet_succeeded quiet_finalized]

lemma run_claimed_quiet: "quiet {tid} q (run_claimed_task env revoked outcome tid q)"
proof (cases outcome)
  case (Provider_changed claimed actual)
  let ?q1 = "if ce_records env tid then persist_execution_provider_id (ce_now env) tid actual q else q"
  obtain r q2 where r: "requeue_task env tid ?q1 = (r, q2)" by (cases "requeue_task env tid ?q1")
  have "quiet {tid} q q2" by (rule quiet_two [OF quiet_record quiet_requeue [OF r]])
  then show ?thesis
    using r quiet_two [OF _ quiet_failed] Provider_changed
    by (auto simp: run_claimed_task_def fail_task_of_deleted_project_def quiet_failed Let_def)
qed (simp_all add: run_claimed_task_def fail_task_of_deleted_project_def Let_def ending quiet_refl)

lemma run_claimed_ended:
  assumes "state_after revoked outcome = Ended" "\<not> (outcome = Save_failed \<and> \<not> revoked)"
  shows "tid \<notin> running (run_claimed_task env revoked outcome tid q)"
proof (cases outcome)
  case (Provider_changed claimed actual)
  let ?q1 = "if ce_records env tid then persist_execution_provider_id (ce_now env) tid actual q else q"
  obtain r q2 where r: "requeue_task env tid ?q1 = (r, q2)" by (cases "requeue_task env tid ?q1")
  then show ?thesis
    using requeued_not_running [of env tid ?q1 q2] Provider_changed
    by (auto simp: run_claimed_task_def fail_task_of_deleted_project_def failed_not_running Let_def)
qed (use assms in \<open>simp_all add: run_claimed_task_def fail_task_of_deleted_project_def Let_def ending state_after_def split: if_splits\<close>)

lemma run_claimed_frozen:
  "state_after revoked outcome = Interrupted \<Longrightarrow> frozen q tid \<Longrightarrow> frozen (run_claimed_task env revoked outcome tid q) tid"
  by (cases outcome) (simp_all add: run_claimed_task_def state_after_def Let_def ending split: if_splits)

lemma accounted_end:
  assumes w: "owned w" "accounted w lost" and h: "executing w h" "st \<noteq> Executing"
    and q: "quiet {f_task (wk_futures w ! h)} (wk_queue w) q"
    and fr: "st = Interrupted \<Longrightarrow> frozen q (f_task (wk_futures w ! h))"
    and out: "st = Ended \<Longrightarrow> f_task (wk_futures w ! h) \<in> running q \<Longrightarrow> f_task (wk_futures w ! h) \<in> lost'" "lost \<subseteq> lost'"
  shows "accounted (ended st h (w\<lparr>wk_queue := q\<rparr>)) lost'"
proof -
  let ?tid = "f_task (wk_futures w ! h)"
  have lt: "live_tasks (ended st h (w\<lparr>wk_queue := q\<rparr>)) = (if st = Ended then live_tasks w - {?tid} else live_tasks w)"
    by (rule owned_end(2) [OF w(1) h q fr])
  have mem: "?tid \<in> live_tasks w" by (rule live_tasksI [OF ownedD(5) [OF w(1) h(1)]])
  have "tid \<in> lost' \<union> live_tasks (ended st h (w\<lparr>wk_queue := q\<rparr>))" if t: "tid \<in> running q" for tid
  proof (cases "tid = ?tid")
    case True
    then show ?thesis using mem lt out(1) t h(2) by (cases st) auto
  next
    case False
    then have "tid \<in> running (wk_queue w)" using quietD(2) [OF q] t by simp
    then show ?thesis using w(2) lt False out(2) by (auto simp: accounted_def)
  qed
  then show ?thesis by (auto simp: accounted_def)
qed

lemma end_execution_ended:
  "end_execution env revoked outcome h w =
     ended (state_after revoked outcome) h
       (w\<lparr>wk_queue := run_claimed_task env revoked outcome (f_task (wk_futures w ! h)) (wk_queue w)\<rparr>)"
  by (simp add: end_execution_def ended_def Let_def)

lemma end_owned:
  assumes w: "owned w" "accounted w lost" and h: "executing w h"
  shows "owned (end_execution env revoked outcome h w) \<and>
    accounted (end_execution env revoked outcome h w)
      (if outcome = Save_failed \<and> \<not> revoked then insert (f_task (wk_futures w ! h)) lost else lost)"
proof -
  have st: "state_after revoked outcome \<noteq> Executing" by (simp add: state_after_def split: run_outcome.split)
  have fr: "frozen (run_claimed_task env revoked outcome (f_task (wk_futures w ! h)) (wk_queue w)) (f_task (wk_futures w ! h))"
    if "state_after revoked outcome = Interrupted"
    using run_claimed_frozen [OF that] ownedD(5,7) [OF w(1)] h by blast
  let ?lost = "if outcome = Save_failed \<and> \<not> revoked then insert (f_task (wk_futures w ! h)) lost else lost"
  have "f_task (wk_futures w ! h) \<in> ?lost"
    if "state_after revoked outcome = Ended"
      "f_task (wk_futures w ! h) \<in> running (run_claimed_task env revoked outcome (f_task (wk_futures w ! h)) (wk_queue w))"
    using run_claimed_ended [OF that(1)] that(2) by (cases "outcome = Save_failed \<and> \<not> revoked") auto
  then have "accounted (end_execution env revoked outcome h w) ?lost"
    unfolding end_execution_ended by (intro accounted_end [OF w h st run_claimed_quiet fr]) auto
  then show ?thesis
    using owned_end(1) [OF w(1) h st run_claimed_quiet fr] unfolding end_execution_ended by blast
qed

section \<open>Draining\<close>

definition finalize_drained :: "int \<Rightarrow> (nat \<Rightarrow> bool) \<Rightarrow> (string \<times> nat) list \<Rightarrow> queue \<Rightarrow> queue" where
  "finalize_drained now stopped xs =
     fold (\<lambda>(tid, h) q. if stopped h then snd (finalize_interrupted now tid q) else q) xs"

lemma drained_quiet:
  "quiet {tid. \<exists>h. (tid, h) \<in> set xs \<and> stopped h} q (finalize_drained now stopped xs q)"
proof (induction xs arbitrary: q)
  case Nil
  then show ?case by (simp add: finalize_drained_def quiet_refl)
next
  case (Cons x xs)
  obtain tid h where x: "x = (tid, h)" by (cases x)
  let ?S = "{tid. \<exists>h. (tid, h) \<in> set (x # xs) \<and> stopped h}"
  let ?q1 = "if stopped h then snd (finalize_interrupted now tid q) else q"
  have "stopped h \<Longrightarrow> {tid} \<subseteq> ?S" by (auto simp: x)
  then have one: "quiet ?S q ?q1" using quiet_mono [OF quiet_finalized] by (simp add: quiet_refl)
  have "quiet ?S ?q1 (finalize_drained now stopped xs ?q1)"
    by (rule quiet_mono [OF Cons.IH]) auto
  moreover have "finalize_drained now stopped (x # xs) q = finalize_drained now stopped xs ?q1"
    by (simp add: finalize_drained_def x)
  ultimately show ?case using quiet_two [OF one] by simp
qed

lemma quiet_running_subset: "queue_ends F S q q' \<Longrightarrow> F \<subseteq> {Succeeded, Failed, Cancelled} \<Longrightarrow> running q' \<subseteq> running q"
  using ended_not_running [of F S q q'] quietD(2) [OF quiet_ends] by blast

lemma drained_running: "running (finalize_drained now stopped xs q) \<subseteq> running q"
proof (induction xs arbitrary: q)
  case Nil
  then show ?case by (simp add: finalize_drained_def)
next
  case (Cons x xs)
  obtain tid h where x: "x = (tid, h)" by (cases x)
  let ?q1 = "if stopped h then snd (finalize_interrupted now tid q) else q"
  have "running (snd (finalize_interrupted now tid q)) \<subseteq> running q"
    by (rule quiet_running_subset [OF finalize_ends]) auto
  then have "running ?q1 \<subseteq> running q" by simp
  moreover have "finalize_drained now stopped (x # xs) q = finalize_drained now stopped xs ?q1"
    by (simp add: finalize_drained_def x)
  ultimately show ?case using Cons.IH [of ?q1] by simp
qed

lemma drained_not_running:
  "(tid, h) \<in> set xs \<Longrightarrow> stopped h \<Longrightarrow> tid \<notin> running (finalize_drained now stopped xs q)"
proof (induction xs arbitrary: q)
  case Nil
  then show ?case by simp
next
  case (Cons x xs)
  show ?case
  proof (cases "x = (tid, h)")
    case True
    then show ?thesis
      using Cons.prems(2) drained_running [of now stopped xs "snd (finalize_interrupted now tid q)"]
        finalized_not_running [of tid now q] by (auto simp: finalize_drained_def)
  next
    case False
    then show ?thesis using Cons by (auto simp: finalize_drained_def)
  qed
qed

definition stopped_early :: "worker \<Rightarrow> nat \<Rightarrow> bool" where
  "stopped_early w h = (f_state (wk_futures w ! h) = Interrupted)"

lemma drain_unfold:
  "drain_finished_tasks now w =
     (w\<lparr>wk_slots := snd (drain_finished (future_done w) (wk_slots w))\<rparr>)
       \<lparr>wk_queue := finalize_drained now (stopped_early w) (fst (drain_finished (future_done w) (wk_slots w))) (wk_queue w)\<rparr>"
  by (simp add: drain_finished_tasks_def finalize_drained_def stopped_early_def case_prod_beta Let_def)

lemma drain_owned:
  assumes w: "owned w" "accounted w lost"
  shows "owned (drain_finished_tasks now w) \<and> accounted (drain_finished_tasks now w) lost"
proof -
  let ?d = "future_done w" and ?s = "wk_slots w"
  let ?s' = "snd (drain_finished ?d ?s)" and ?out = "fst (drain_finished ?d ?s)"
  let ?w1 = "w\<lparr>wk_slots := ?s'\<rparr>"
  let ?q = "finalize_drained now (stopped_early w) ?out (wk_queue w)" and ?S = "{tid. \<exists>h. (tid, h) \<in> set ?out \<and> stopped_early w h}"
  note ok = ownedD(2) [OF w(1)] and held = ownedD(3) [OF w(1)]
  have sub: "holds ?s p m tid h" if "holds ?s' p m tid h" for p m tid h
    using that by (auto simp: holds_def occupies_drain ok)
  have keep: "holds ?s' p m tid h" if "executing w h" "holds ?s p m tid h" for p m tid h
    using that by (auto simp: holds_def occupies_drain ok finished_occupant_def future_done_def executing_def)
  have o1: "owned ?w1" by (rule owned_slots [OF w(1) bucket_of_drain(2) [OF ok] sub keep])
  have gone: "\<not> holds ?s' p m tid h" if out: "(tid, h) \<in> set ?out" for p m tid h
  proof
    assume h': "holds ?s' p m tid h"
    then obtain occ where occ: "occupies ?s p m tid occ" "\<not> finished_occupant ?d (tid, occ)" "o_future occ = h"
      by (auto simp: holds_def occupies_drain ok)
    obtain p2 m2 occ2 where occ2: "occupies ?s p2 m2 tid occ2" "finished_occupant ?d (tid, occ2)" "o_future occ2 = h"
      using out [unfolded drained_iff [OF ok]] by blast
    have "p2 = p \<and> m2 = m" using well_heldD(2) [OF held] occ(1,3) occ2(1,3) by (metis holds_def)
    then show False using occ occ2 by (auto simp: occupies_def)
  qed
  have task: "f_task (wk_futures w ! h) = tid" "live w h" if "(tid, h) \<in> set ?out" "stopped_early w h" for tid h
  proof -
    note a = that
    obtain p m where "holds ?s p m tid h" using a(1) [unfolded drained_iff [OF ok]] by (auto simp: holds_def)
    then show "f_task (wk_futures w ! h) = tid" "live w h"
      using well_heldD(1) [OF held] a(2) by (auto simp: live_def stopped_early_def)
  qed
  have lv: "live ?w1 h \<Longrightarrow> live w h" for h using sub unfolding live_def by simp blast
  have free: "?S \<inter> live_tasks ?w1 = {}"
  proof (rule ccontr)
    assume "?S \<inter> live_tasks ?w1 \<noteq> {}"
    then obtain tid h h' where a: "(tid, h) \<in> set ?out" "stopped_early w h" "live ?w1 h'" "f_task (wk_futures w ! h') = tid"
      by (auto simp: live_tasks_def)
    have "f_task (wk_futures w ! h') = f_task (wk_futures w ! h)" using a(4) task(1) [OF a(1,2)] by simp
    then have "h' = h" by (rule ownedD(8) [OF w(1) lv [OF a(3)] task(2) [OF a(1,2)]])
    then show False using a(3) gone [OF a(1)] task(1) [OF a(1,2)] by (auto simp: live_def)
  qed
  have "accounted (?w1\<lparr>wk_queue := ?q\<rparr>) lost"
    unfolding accounted_def
  proof
    fix tid assume "tid \<in> running (wk_queue (?w1\<lparr>wk_queue := ?q\<rparr>))"
    then have r: "tid \<in> running ?q" by simp
    have "tid \<in> lost \<union> live_tasks w" using subsetD [OF drained_running r] w(2) by (auto simp: accounted_def)
    moreover have "tid \<in> live_tasks ?w1" if mem: "tid \<in> live_tasks w"
    proof -
      obtain h where h: "live w h" "f_task (wk_futures w ! h) = tid" using mem by (auto simp: live_tasks_def)
      then obtain p m occ where occ: "occupies ?s p m tid occ" "o_future occ = h" by (auto simp: live_def holds_def)
      have "\<not> finished_occupant ?d (tid, occ)"
      proof
        assume f: "finished_occupant ?d (tid, occ)"
        then have "stopped_early w h"
          using h(1) occ(2) by (cases "f_state (wk_futures w ! h)") (auto simp: finished_occupant_def future_done_def stopped_early_def live_def)
        moreover have "(tid, h) \<in> set ?out" using f occ by (auto simp: drained_iff ok)
        ultimately show False using drained_not_running r by blast
      qed
      then have "holds ?s' p m tid h" using occ by (auto simp: holds_def occupies_drain ok)
      then have "live ?w1 h" using h unfolding live_def by auto
      then show ?thesis using live_tasksI [of ?w1 h] h(2) by simp
    qed
    ultimately show "tid \<in> lost \<union> live_tasks (?w1\<lparr>wk_queue := ?q\<rparr>)" by auto
  qed
  moreover have "owned (?w1\<lparr>wk_queue := ?q\<rparr>)"
    by (rule owned_quiet [OF o1 _ free]) (simp add: drained_quiet)
  ultimately show ?thesis unfolding drain_unfold by blast
qed

section \<open>Continuing\<close>

text \<open>What remains to be dispatched: each task runs, nobody owns it, and none is there twice.\<close>

definition pending :: "worker \<Rightarrow> string set \<Rightarrow> (string \<times> task) list \<Rightarrow> bool" where
  "pending w lost todo =
     (owned w \<and> accounted w (lost \<union> (\<lambda>x. t_id (snd x)) ` set todo) \<and> distinct (map (\<lambda>x. t_id (snd x)) todo) \<and>
      (\<forall>x\<in>set todo. t_id (snd x) \<in> running (wk_queue w) \<and> t_id (snd x) \<notin> live_tasks w))"

lemma register_started:
  "register_resume p sem t w =
     started p ''video'' True \<lparr>f_task = t_id t, f_provider = p, f_state = Executing, f_resumes = Some (t, sem)\<rparr> w"
  by (simp add: register_resume_def started_def)

lemma pending_register: "pending w lost ((p, t) # todo) \<Longrightarrow> pending (register_resume p sem t w) lost todo"
proof -
  assume a: "pending w lost ((p, t) # todo)"
  let ?f = "\<lparr>f_task = t_id t, f_provider = p, f_state = Executing, f_resumes = Some (t, sem)\<rparr>"
  have w: "owned w" "t_id t \<in> running (wk_queue w)" "t_id t \<notin> live_tasks w" using a by (auto simp: pending_def)
  then have f: "f_task ?f \<in> running (wk_queue w)" "f_task ?f \<notin> live_tasks w" "fresh_future p ''video'' ?f"
    by (simp_all add: fresh_future_def)
  let ?L = "lost \<union> (\<lambda>x. t_id (snd x)) ` set todo"
  have "accounted w (insert (f_task ?f) ?L)" using a by (simp add: pending_def)
  from accounted_start [OF w(1) f this] owned_start [OF w(1) f]
  show ?thesis
    using a unfolding register_started pending_def by (auto simp: started_def image_iff)
qed

lemma pending_registers:
  "pending w lost (map (Pair p) ts @ todo) \<Longrightarrow> pending (fold (register_resume p sem) ts w) lost todo"
  by (induction ts arbitrary: w) (auto intro: pending_register)

lemma pending_fail: "pending w lost ((p, t) # todo) \<Longrightarrow> pending (w\<lparr>wk_queue := fail_without_capacity now p' t (wk_queue w)\<rparr>) lost todo"
proof -
  assume a: "pending w lost ((p, t) # todo)"
  let ?q = "fail_without_capacity now p' t (wk_queue w)"
  have w: "owned w" "{t_id t} \<inter> live_tasks w = {}" using a by (auto simp: pending_def)
  have q: "quiet {t_id t} (wk_queue w) ?q" by (simp add: fail_without_capacity_def quiet_failed)
  have nr: "t_id t \<notin> running ?q" by (simp add: fail_without_capacity_def failed_not_running)
  have acc: "accounted w (insert (t_id t) (lost \<union> (\<lambda>x. t_id (snd x)) ` set todo))" using a by (simp add: pending_def)
  have "accounted (w\<lparr>wk_queue := ?q\<rparr>) (lost \<union> (\<lambda>x. t_id (snd x)) ` set todo)"
    unfolding accounted_def
  proof
    fix tid assume "tid \<in> running (wk_queue (w\<lparr>wk_queue := ?q\<rparr>))"
    then have r: "tid \<in> running ?q" by simp
    then have ne: "tid \<noteq> t_id t" using nr by blast
    then have "tid \<in> running (wk_queue w)" using quietD(2) [OF q] r by simp
    then show "tid \<in> (lost \<union> (\<lambda>x. t_id (snd x)) ` set todo) \<union> live_tasks (w\<lparr>wk_queue := ?q\<rparr>)"
      using acc ne by (auto simp: accounted_def)
  qed
  moreover have "t_id (snd x) \<in> running ?q" if "x \<in> set todo" for x
  proof -
    have "t_id (snd x) \<notin> {t_id t}" "t_id (snd x) \<in> running (wk_queue w)" using a that by (auto simp: pending_def image_iff)
    then show ?thesis using quietD(2) [OF q] by blast
  qed
  ultimately show ?thesis
    using a owned_quiet [OF w(1) q w(2)] by (simp add: pending_def)
qed

lemma pending_fails:
  "pending w lost (map (Pair p) ts @ todo) \<Longrightarrow>
     pending (w\<lparr>wk_queue := fold (fail_without_capacity now p') ts (wk_queue w)\<rparr>) lost todo"
proof (induction ts arbitrary: w)
  case Nil
  then show ?case by simp
next
  case (Cons t ts)
  have "pending (w\<lparr>wk_queue := fail_without_capacity now p' t (wk_queue w)\<rparr>) lost (map (Pair p) ts @ todo)"
    by (rule pending_fail) (use Cons.prems in simp)
  from Cons.IH [OF this] show ?case by simp
qed

lemma pending_fields [simp]:
  "pending (w\<lparr>wk_capacity := c\<rparr>) lost todo = pending w lost todo"
  "pending (w\<lparr>wk_permits := ps\<rparr>) lost todo = pending w lost todo"
  by (simp_all add: pending_def)

lemma pending_reload: "pending (reload_limits loaded w) lost todo = pending w lost todo"
  by (simp add: reload_limits_def split: option.split)

lemma pending_bucket:
  "pending w lost (map (Pair p) ts @ todo) \<Longrightarrow> pending (dispatch_provider_bucket now loaded False p ts w) lost todo"
  unfolding dispatch_provider_bucket_def Let_def
  by (auto simp: pending_reload intro!: pending_fails pending_registers)

lemma pending_dispatch:
  "pending w lost (handed_over buckets @ todo) \<Longrightarrow> pending (dispatch_resumable now loaded False buckets w) lost todo"
proof (induction buckets arbitrary: w)
  case Nil
  then show ?case by (simp add: dispatch_resumable_def handed_over_def)
next
  case (Cons b buckets)
  obtain p ts where b: "b = (p, ts)" by (cases b)
  have "pending (dispatch_provider_bucket now loaded False p ts w) lost (handed_over buckets @ todo)"
    by (rule pending_bucket) (use Cons.prems in \<open>simp add: b handed_over_Cons\<close>)
  from Cons.IH [OF this] show ?case by (simp add: dispatch_resumable_def b)
qed

lemma scan_quiet:
  assumes "handle_orphans now load projection w = (w1, buckets)"
  obtains S where "queue_ends {Failed} S (wk_queue w) (wk_queue w1)" "S \<inter> active_task_ids (wk_slots w) = {}"
    "w1 = w\<lparr>wk_queue := wk_queue w1\<rparr>"
proof -
  let ?active = "active_task_ids (wk_slots w)" and ?ds = "list_orphan_tasks_on_start (wk_queue w)"
  have w1: "w1 = w\<lparr>wk_queue := fst (scan_orphans now load projection ?active ?ds (wk_queue w, []))\<rparr>"
    using assms by (auto simp: handle_orphans_def case_prod_beta Let_def)
  have "lost_ids load projection ?active ?ds \<inter> ?active = {}" by (auto simp: lost_ids_def is_lost_def)
  then show ?thesis using that [of "lost_ids load projection ?active ?ds"] scan_ends w1 by simp
qed

lemma recover_owned:
  assumes w: "owned w" "accounted w lost"
  shows "owned (recover now load projection loaded w) \<and>
    accounted (recover now load projection loaded w) (lost \<inter> active_task_ids (wk_slots w))"
proof -
  obtain w1 buckets where h: "handle_orphans now load projection w = (w1, buckets)" by (metis prod.exhaust)
  let ?active = "active_task_ids (wk_slots w)" and ?ids = "(\<lambda>x. t_id (snd x)) ` set (handed_over buckets)"
  note ids = ownedD(1) [OF w(1)]
  obtain S where S: "queue_ends {Failed} S (wk_queue w) (wk_queue w1)" "S \<inter> ?active = {}" "w1 = w\<lparr>wk_queue := wk_queue w1\<rparr>"
    by (rule scan_quiet [OF h])
  have q: "quiet S (wk_queue w) (wk_queue w1)" by (rule quiet_ends [OF S(1)]) auto
  have lt: "live_tasks w1 = live_tasks w" by (subst S(3)) simp
  have "owned (w\<lparr>wk_queue := wk_queue w1\<rparr>)"
    using live_active [OF w(1)] S(2) by (intro owned_quiet [OF w(1) q]) blast
  then have o1: "owned w1" using S(3) by simp
  have handed: "t_id (snd x) \<in> running (wk_queue w1) \<and> t_id (snd x) \<notin> live_tasks w1" if mem: "x \<in> set (handed_over buckets)" for x
  proof -
    obtain p t where x: "x = (p, t)" by (cases x)
    obtain u where u: "u \<in> rows_of w" "t_status u = Running" "t_id u \<notin> ?active" "t = u\<lparr>t_provider := Some p\<rparr>"
      "orphan_fate_of load projection (task_to_dict u) = Resumable p"
      using handle_orphans_handed(2) [OF ids h, of p t] mem x by blast
    have "u \<in> rows_of w1" using handle_orphans_result [OF ids h u(1,2,3)] u(5) by (simp add: scan_result_def)
    then show ?thesis using u(2,3,4) live_active [OF w(1)] lt by (auto simp: x running_iff)
  qed
  have "running (wk_queue w1) \<subseteq> ((lost \<inter> ?active) \<union> ?ids) \<union> live_tasks w1"
  proof
    fix tid assume r: "tid \<in> running (wk_queue w1)"
    have before: "tid \<in> running (wk_queue w)" using quiet_running_subset [OF S(1)] r by blast
    show "tid \<in> ((lost \<inter> ?active) \<union> ?ids) \<union> live_tasks w1"
    proof (cases "tid \<in> ?active")
      case True
      then show ?thesis using before w(2) lt by (auto simp: accounted_def)
    next
      case False
      obtain t where t: "t \<in> rows_of w" "t_status t = Running" "t_id t = tid" using before by (auto simp: running_iff)
      have res: "scan_result load projection now w w1 buckets t"
        using handle_orphans_result [OF ids h t(1,2)] t(3) False by simp
      show ?thesis
      proof (cases "orphan_fate_of load projection (task_to_dict t)")
        case (Lost msg)
        then have f: "failed_with now msg t \<in> rows_of w1" using res by (simp add: scan_result_def)
        then have "t_id (failed_with now msg t) \<notin> running (wk_queue w1)"
          using waiting_free(2) [OF o1 f] by simp
        then show ?thesis using r t(3) by simp
      next
        case (Resumable p)
        then have "(p, t\<lparr>t_provider := Some p\<rparr>) \<in> set (handed_over buckets)" using res by (simp add: scan_result_def)
        then have "tid \<in> ?ids" using t(3) by (force simp: image_iff)
        then show ?thesis by blast
      qed
    qed
  qed
  then have "pending w1 (lost \<inter> ?active) (handed_over buckets @ [])"
    using o1 handed handle_orphans_handed(1) [OF ids h] by (simp add: pending_def accounted_def)
  then have "pending (recover now load projection loaded w) (lost \<inter> ?active) []"
    using pending_dispatch h by (simp add: recover_def)
  then show ?thesis by (simp add: pending_def)
qed

lemma holds_one: "holds s p m tid h \<Longrightarrow> holds s p m tid h' \<Longrightarrow> h = h'"
  by (auto simp: holds_def occupies_def)

lemma release_owned:
  assumes w: "owned w" and h: "holds (wk_slots w) p m tid h" "\<not> executing w h"
  shows "owned (w\<lparr>wk_slots := slot_release p m tid (wk_slots w)\<rparr>)"
    and "live_tasks w - {tid} \<subseteq> live_tasks (w\<lparr>wk_slots := slot_release p m tid (wk_slots w)\<rparr>)"
proof -
  let ?w = "w\<lparr>wk_slots := slot_release p m tid (wk_slots w)\<rparr>"
  have keep: "holds (slot_release p m tid (wk_slots w)) p' m' tid' h'"
    if "executing w h'" "holds (wk_slots w) p' m' tid' h'" for p' m' tid' h'
  proof -
    have "(p', m', tid') \<noteq> (p, m, tid)"
    proof
      assume "(p', m', tid') = (p, m, tid)"
      then have "h = h'" using holds_one [OF h(1)] that(2) by simp
      then show False using that(1) h(2) by simp
    qed
    then show ?thesis using that(2) by (simp add: holds_release)
  qed
  show "owned ?w"
    by (rule owned_slots [OF w release_ok [OF ownedD(2) [OF w]] _ keep]) (simp_all add: holds_release)
  have lv: "live ?w h'" if "live w h'" "f_task (wk_futures w ! h') \<noteq> tid" for h'
    using that unfolding live_def by (simp add: holds_release)
  show "live_tasks w - {tid} \<subseteq> live_tasks ?w"
  proof
    fix x assume "x \<in> live_tasks w - {tid}"
    then obtain h' where h': "live w h'" "f_task (wk_futures w ! h') = x" "x \<noteq> tid" unfolding live_tasks_def by blast
    then have "live ?w h'" using lv by blast
    from live_tasksI [OF this] show "x \<in> live_tasks ?w" using h'(2) by simp
  qed
qed

lemma unready_quiet: "quiet {t_id t} q (run_resume now load revoked outcome t q)"
  by (cases outcome) (simp_all add: run_resume_def fail_task_of_deleted_project_def Let_def ending quiet_refl)

definition keeps_running :: "resume_outcome \<Rightarrow> bool" where
  "keeps_running outcome = (outcome = Resume_stopped \<or> outcome = Resume_save_failed)"

definition interrupts :: "resume_outcome \<Rightarrow> bool" where
  "interrupts outcome = (case outcome of Resume_interrupted \<Rightarrow> True | Resume_interrupted_save _ \<Rightarrow> True | _ \<Rightarrow> False)"

lemma run_resume_ended:
  "\<not> keeps_running outcome \<Longrightarrow> t_id t \<notin> running (run_resume now load revoked outcome t q)"
  by (cases outcome)
    (simp_all add: run_resume_def fail_task_of_deleted_project_def Let_def ending keeps_running_def)

definition resume_queue ::
    "int \<Rightarrow> (task \<Rightarrow> string option) \<Rightarrow> bool \<Rightarrow> resume_outcome \<Rightarrow> bool \<Rightarrow> task \<Rightarrow> queue \<Rightarrow> queue" where
  "resume_queue now load revoked outcome acquired t q =
     (let q1 = (if outcome = Resume_stopped \<or> \<not> acquired then q else run_resume now load revoked outcome t q)
      in if interrupts outcome then snd (finalize_interrupted now (t_id t) q1) else q1)"

lemma resume_queue_quiet: "quiet {t_id t} q (resume_queue now load revoked outcome acquired t q)"
  using quiet_two [OF unready_quiet quiet_finalized]
  by (simp add: resume_queue_def Let_def unready_quiet quiet_finalized quiet_refl)

lemma resume_queue_ended:
  "acquired \<or> interrupts outcome \<Longrightarrow> \<not> keeps_running outcome \<Longrightarrow>
     t_id t \<notin> running (resume_queue now load revoked outcome acquired t q)"
  using run_resume_ended [of outcome t now load revoked q]
  by (auto simp: resume_queue_def Let_def finalized_not_running keeps_running_def)

lemma owned_restate:
  assumes w: "owned w" and h: "h < length (wk_futures w)" "\<not> executing w h" "st \<noteq> Executing"
    and free: "\<And>p m. \<not> holds (wk_slots w) p m (f_task (wk_futures w ! h)) h"
  shows "owned (ended st h w)" "live_tasks (ended st h w) = live_tasks w"
proof -
  have lv: "live (ended st h w) h' = live w h'" for h'
    using free by (cases "h' = h") (auto simp: live_def ended_state [OF h(1)])
  have ex: "executing (ended st h w) h' = executing w h'" for h'
    using h by (auto simp: executing_def ended_state [OF h(1)])
  show "live_tasks (ended st h w) = live_tasks w" by (simp add: live_tasks_def lv)
  have "well_held (ended st h w)" using ownedD(3) [OF w] by (simp add: well_held_def)
  moreover have "well_resumed (ended st h w)" using ownedD(4) [OF w] by (simp add: well_resumed_def ex)
  ultimately show "owned (ended st h w)" using w by (simp add: owned_def tables_ok_def lv ex)
qed

definition released_resume :: "nat \<Rightarrow> queue \<Rightarrow> worker \<Rightarrow> worker" where
  "released_resume h q w =
     (ended Ended h (w\<lparr>wk_queue := q\<rparr>))
       \<lparr>wk_slots := slot_release (f_provider (wk_futures w ! h)) ''video'' (f_task (wk_futures w ! h)) (wk_slots w)\<rparr>"

lemma end_resume_unfold:
  assumes "f_resumes (wk_futures w ! h) = Some (t, sem)" "h < length (wk_futures w)"
  shows "end_resume now load revoked outcome acquired h w =
    (ended (if interrupts outcome then Interrupted else Ended) h
        (released_resume h (resume_queue now load revoked outcome acquired t (wk_queue w)) w))
      \<lparr>wk_permits := if acquired then (wk_permits w)[sem := wk_permits w ! sem + 1] else wk_permits w\<rparr>"
  using assms
  by (intro worker.equality)
    (simp_all add: end_resume_def resume_queue_def released_resume_def ended_def take_permit_def interrupts_def Let_def)

lemma end_resume_owned:
  assumes w: "owned w" "accounted w lost" and h: "executing w h" "f_resumes (wk_futures w ! h) = Some (t, sem)"
    and acq: "acquired \<or> interrupts outcome"
  shows "owned (end_resume now load revoked outcome acquired h w) \<and>
    accounted (end_resume now load revoked outcome acquired h w)
      (if keeps_running outcome then insert (f_task (wk_futures w ! h)) lost else lost)"
proof -
  let ?f = "wk_futures w ! h" and ?q = "resume_queue now load revoked outcome acquired t (wk_queue w)"
  let ?st = "if interrupts outcome then Interrupted else Ended"
  let ?L = "if keeps_running outcome then insert (f_task ?f) lost else lost"
  let ?w2 = "ended Ended h (w\<lparr>wk_queue := ?q\<rparr>)" and ?w3 = "released_resume h ?q w"
  have id: "t_id t = f_task ?f" and hold: "holds (wk_slots w) (f_provider ?f) ''video'' (f_task ?f) h"
    using ownedD(4) [OF w(1)] h unfolding well_resumed_def by blast+
  have q: "quiet {f_task ?f} (wk_queue w) ?q" using resume_queue_quiet [of t] id by simp
  have lt: "h < length (wk_futures w)" using h(1) by (simp add: executing_def)
  have notex: "\<not> executing ?w2 h" "\<not> executing ?w3 h"
    using ended_state [of h "w\<lparr>wk_queue := ?q\<rparr>" Ended h] lt by (simp_all add: executing_def released_resume_def)
  have o2: "owned ?w2" "live_tasks ?w2 = live_tasks w - {f_task ?f}"
    using owned_end [OF w(1) h(1) _ q, of Ended] by simp_all
  have hold2: "holds (wk_slots ?w2) (f_provider ?f) ''video'' (f_task ?f) h" using hold by simp
  have o3: "owned ?w3" "live_tasks w - {f_task ?f} \<subseteq> live_tasks ?w3"
    using release_owned [OF o2(1) hold2 notex(1)] o2(2) by (auto simp: released_resume_def)
  have fields: "wk_futures ?w3 ! h = wk_futures ?w2 ! h" "wk_queue ?w3 = ?q" "length (wk_futures ?w3) = length (wk_futures w)"
    by (simp_all add: released_resume_def)
  have free: "\<not> holds (wk_slots ?w3) p m (f_task (wk_futures ?w3 ! h)) h" for p m
  proof
    assume a: "holds (wk_slots ?w3) p m (f_task (wk_futures ?w3 ! h)) h"
    then have "holds (wk_slots w) p m (f_task ?f) h" "(p, m) \<noteq> (f_provider ?f, ''video'')"
      by (auto simp: released_resume_def holds_release)
    then show False using well_heldD(2) [OF ownedD(3) [OF w(1)] hold] by blast
  qed
  have o4: "owned (ended ?st h ?w3)" "live_tasks (ended ?st h ?w3) = live_tasks ?w3"
    using owned_restate [OF o3(1) _ notex(2) _ free, of ?st] lt fields(3) by simp_all
  have "accounted (ended ?st h ?w3) ?L"
    unfolding accounted_def
  proof
    fix tid assume "tid \<in> running (wk_queue (ended ?st h ?w3))"
    then have r: "tid \<in> running ?q" using fields(2) by simp
    show "tid \<in> ?L \<union> live_tasks (ended ?st h ?w3)"
    proof (cases "tid = f_task ?f")
      case True
      then have "keeps_running outcome" using resume_queue_ended [OF acq, of t now load revoked "wk_queue w"] id r by auto
      then show ?thesis using True by simp
    next
      case False
      then have "tid \<in> running (wk_queue w)" using quietD(2) [OF q] r by simp
      then show ?thesis using w(2) o3(2) o4(2) False by (auto simp: accounted_def)
    qed
  qed
  then show ?thesis using o4(1) end_resume_unfold [OF h(2) lt, of now load revoked outcome acquired] by simp
qed

lemma start_resume_owned:
  assumes w: "owned w" "accounted w lost"
  shows "owned (start_resume h w) \<and> accounted (start_resume h w) lost"
proof (cases "f_resumes (wk_futures w ! h)")
  case None
  then show ?thesis using w by (simp add: start_resume_def Let_def)
next
  case (Some x)
  obtain t sem where x: "x = (t, sem)" by (cases x)
  let ?s = "slot_promote (f_provider (wk_futures w ! h)) ''video'' (f_task (wk_futures w ! h)) (wk_slots w)"
  let ?w1 = "w\<lparr>wk_slots := ?s\<rparr>"
  have o1: "owned ?w1"
    by (rule owned_slots [OF w(1) promote_ok [OF ownedD(2) [OF w(1)]]]) (simp_all add: holds_promote)
  have lt: "live_tasks ?w1 = live_tasks w" by (simp add: live_tasks_def live_def holds_promote)
  then have a1: "accounted ?w1 lost" using w(2) by (simp add: accounted_def)
  have "start_resume h w = ?w1\<lparr>wk_permits := (wk_permits w)[sem := wk_permits w ! sem - 1]\<rparr>"
    using Some x by (simp add: start_resume_def take_permit_def Let_def)
  then show ?thesis using o1 a1 by simp
qed

lemma retried_row:
  assumes "retry_artifact_download now tid seen q = Inr (d, q')"
  obtains u where "u \<in> set (q_tasks q)" "t_id u = tid" "t_status u = Failed" "t_id (fst d) = tid"
    "quiet {tid} q q'" "tid \<in> running q'"
proof -
  let ?restart = "\<lambda>t. t\<lparr>t_status := Running, t_error := None, t_finished_at := None, t_started_at := Some now, t_updated_at := now\<rparr>"
  obtain k u where k: "filter (has_status tid [Failed]) (q_tasks q) = [u]" "d = task_to_dict (?restart u)"
    "q' = update_where (has_status tid [Failed]) ?restart (q\<lparr>q_calls := map (reopen_call k) (q_calls q)\<rparr>)"
    using assms by (auto simp: retry_artifact_download_def Let_def split: option.splits if_splits list.splits)
  have "u \<in> set (filter (has_status tid [Failed]) (q_tasks q))" using k(1) by simp
  then have u: "u \<in> set (q_tasks q)" "has_status tid [Failed] u" by simp_all
  have "quiet ({} \<union> {tid}) q q'"
    unfolding k(3) by (rule quiet_trans [OF quiet_tasks quiet_update]) (simp_all add: has_status_def)
  moreover have "?restart u \<in> set (q_tasks q')" using u by (force simp: k(3) update_where_def)
  then have "tid \<in> running q'" unfolding running_iff using u(2) by (rule_tac bexI) (simp_all add: has_status_def)
  ultimately show ?thesis
    using that [of u] u k(2) by (simp add: has_status_def task_to_dict_def)
qed

lemma retry_owned:
  assumes w: "owned w" "accounted w lost" and r: "retry_download now tid loaded seen w = (err, w')"
  shows "owned w' \<and> accounted w' (if err = None then lost else lost \<union> newly_running w w')"
proof (cases "retry_artifact_download now tid seen (wk_queue w)")
  case (Inl e)
  then show ?thesis using w r by (auto simp: retry_download_def accounted_def)
next
  case (Inr x)
  obtain d q where x: "x = (d, q)" by (cases x)
  obtain u where u: "u \<in> rows_of w" "t_id u = tid" "t_status u = Failed" "t_id (fst d) = tid"
    and q: "quiet {tid} (wk_queue w) q" "tid \<in> running q"
    by (rule retried_row [OF Inr [unfolded x]])
  let ?w1 = "w\<lparr>wk_queue := q\<rparr>"
  have free: "{tid} \<inter> live_tasks w = {}" "tid \<notin> running (wk_queue w)"
    using waiting_free [OF w(1) u(1)] u(2,3) by auto
  have o1: "owned ?w1" by (rule owned_quiet [OF w(1) q(1) free(1)])
  show ?thesis
  proof (cases "truthy (t_provider (fst d))")
    case False
    then have w': "w' = ?w1" "err = Some Task_value_error" using r Inr x by (simp_all add: retry_download_def)
    have "accounted ?w1 (lost \<union> newly_running w w')"
      by (rule accounted_quiet [OF w(2) q(1)]) (use free(2) in \<open>auto simp: newly_running_def w'\<close>)
    then show ?thesis using o1 w' by simp
  next
    case True
    let ?b = "[(coalesce (t_provider (fst d)), [fst d])]"
    have w': "w' = dispatch_resumable now loaded False ?b ?w1" "err = None"
      using r Inr x True by (auto simp: retry_download_def)
    have "accounted ?w1 (lost \<union> {tid})" by (rule accounted_quiet [OF w(2) q(1)]) auto
    then have "pending ?w1 lost (handed_over ?b @ [])"
      using o1 q(2) free(1) u(4) by (simp add: pending_def handed_over_def)
    from pending_dispatch [OF this] show ?thesis unfolding w' by (simp add: pending_def)
  qed
qed

section \<open>Every interleaving\<close>

text \<open>
  What may happen while the process lives. \<open>lost\<close> collects the tasks whose row stays at running with
  nobody behind it: what was found at the start, until it is recovered; a task taken that the database
  neither lets start nor put back; a result that could not be stored; a continuation the shutdown
  stopped; a retry with no provider.
\<close>

inductive worker_step :: "worker \<times> string set \<Rightarrow> worker \<times> string set \<Rightarrow> bool" where
  Claims: "claim_step env media w = (x, w') \<Longrightarrow>
    worker_step (w, lost) (w', lost \<union> {tid \<in> newly_running w w'. \<not> ce_requeues env tid})"
| Ends: "executing w h \<Longrightarrow> f_resumes (wk_futures w ! h) = None \<Longrightarrow>
    worker_step (w, lost) (end_execution env revoked outcome h w,
      if outcome = Save_failed \<and> \<not> revoked then insert (f_task (wk_futures w ! h)) lost else lost)"
| Drains: "worker_step (w, lost) (drain_finished_tasks now w, lost)"
| Reloads: "worker_step (w, lost) (reload_limits loaded w, lost)"
| Recovers: "worker_step (w, lost) (recover now load projection loaded w, lost \<inter> active_task_ids (wk_slots w))"
| Starts_resume: "executing w h \<Longrightarrow> may_start_resume h w \<Longrightarrow> worker_step (w, lost) (start_resume h w, lost)"
| Ends_resume: "executing w h \<Longrightarrow> f_resumes (wk_futures w ! h) = Some (t, sem) \<Longrightarrow> acquired \<or> interrupts outcome \<Longrightarrow>
    worker_step (w, lost) (end_resume now load revoked outcome acquired h w,
      if keeps_running outcome then insert (f_task (wk_futures w ! h)) lost else lost)"
| Retries: "retry_download now tid loaded seen w = (err, w') \<Longrightarrow>
    worker_step (w, lost) (w', if err = None then lost else lost \<union> newly_running w w')"
| Clients: "client_step (wk_queue w) q \<Longrightarrow> worker_step (w, lost) (w\<lparr>wk_queue := q\<rparr>, lost)"

lemma step_owned:
  assumes "worker_step x y" "owned (fst x)" "accounted (fst x) (snd x)"
  shows "owned (fst y) \<and> accounted (fst y) (snd y)"
  using assms
proof (induction rule: worker_step.induct)
  case (Claims env media w x w' lost)
  then show ?case using claim_owned [of w lost env media x w'] by simp
next
  case (Ends w h lost env revoked outcome)
  then show ?case using end_owned [of w lost h env revoked outcome] by simp
next
  case (Drains w lost now)
  then show ?case using drain_owned [of w lost now] by simp
next
  case (Reloads w lost loaded)
  then show ?case by (cases loaded) (simp_all add: reload_limits_def)
next
  case (Recovers w lost now load projection loaded)
  then show ?case using recover_owned [of w lost now load projection loaded] by simp
next
  case (Starts_resume w h lost)
  then show ?case using start_resume_owned [of w lost h] by simp
next
  case (Ends_resume w h t sem acquired outcome lost now load revoked)
  then show ?case using end_resume_owned [of w lost h t sem acquired outcome now load revoked] by simp
next
  case (Retries now tid loaded seen w err w' lost)
  then show ?case using retry_owned [of w lost now tid loaded seen err w'] by simp
next
  case (Clients w q lost)
  have "quiet {} (wk_queue w) q" by (rule quiet_client [OF Clients.hyps])
  then show ?case
    using owned_quiet [of w "{}" q] accounted_quiet [of w lost "{}" q lost] Clients.prems by simp
qed

lemma run_owned:
  "worker_step\<^sup>*\<^sup>* x y \<Longrightarrow> owned (fst x) \<Longrightarrow> accounted (fst x) (snd x) \<Longrightarrow> owned (fst y) \<and> accounted (fst y) (snd y)"
  by (induction rule: rtranclp_induct) (auto dest: step_owned)

definition just_started :: "worker \<Rightarrow> bool" where
  "just_started w = (ids_ok (wk_queue w) \<and> wk_slots w = [] \<and> wk_futures w = [])"

lemma just_started_owned: "just_started w \<Longrightarrow> owned w \<and> accounted w (running (wk_queue w))"
  by (auto simp: just_started_def owned_def tables_ok_def slots_ok_def well_held_def well_resumed_def holds_def
      occupies_def bucket_of_def get_or_def executing_def live_def accounted_def)

text \<open>C8: over every interleaving, no task is executed twice at once; a future that executes has its task
  running in the queue and a slot for it in the table; and every task running in the queue has one
  future that executes it, or has been interrupted and is about to be drained, unless its row has been
  lost.\<close>
theorem one_execution_per_task:
  assumes "just_started w0" and "worker_step\<^sup>*\<^sup>* (w0, running (wk_queue w0)) (w, lost)"
  shows "(\<forall>h. executing w h \<longrightarrow> f_task (wk_futures w ! h) \<in> running (wk_queue w)
              \<and> f_task (wk_futures w ! h) \<in> active_task_ids (wk_slots w))
    \<and> (\<forall>h h'. executing w h \<longrightarrow> executing w h' \<longrightarrow> f_task (wk_futures w ! h) = f_task (wk_futures w ! h') \<longrightarrow> h = h')
    \<and> (\<forall>tid\<in>running (wk_queue w) - lost.
          \<exists>!h. live w h \<and> f_task (wk_futures w ! h) = tid)"
proof -
  have w: "owned w" "accounted w lost"
    using run_owned [OF assms(2)] just_started_owned [OF assms(1)] by simp_all
  have "\<exists>!h. live w h \<and> f_task (wk_futures w ! h) = tid" if t: "tid \<in> running (wk_queue w) - lost" for tid
  proof -
    obtain h where h: "live w h" "f_task (wk_futures w ! h) = tid"
      using t w(2) by (auto simp: accounted_def live_tasks_def)
    have "h' = h" if "live w h'" "f_task (wk_futures w ! h') = tid" for h'
      using ownedD(8) [OF w(1) that(1) h(1)] that(2) h(2) by simp
    then show ?thesis using h by blast
  qed
  moreover have "f_task (wk_futures w ! h) \<in> running (wk_queue w) \<and> f_task (wk_futures w ! h) \<in> active_task_ids (wk_slots w)"
    if "executing w h" for h
    using ownedD(6) [OF w(1) that] live_active [OF w(1) live_tasksI [OF ownedD(5) [OF w(1) that]]] by blast
  moreover have "h = h'" if "executing w h" "executing w h'" "f_task (wk_futures w ! h) = f_task (wk_futures w ! h')" for h h'
    by (rule ownedD(8) [OF w(1) ownedD(5) [OF w(1) that(1)] ownedD(5) [OF w(1) that(2)] that(3)])
  ultimately show ?thesis by blast
qed

lemma sample_claim: "map f_state (wk_futures (snd (claim_step sample_env ''video'' sample_worker))) = [Executing]"
  by code_simp

lemma one_execution_per_task_witness:
  "\<exists>w lost. worker_step\<^sup>*\<^sup>* (sample_worker, running (wk_queue sample_worker)) (w, lost) \<and> executing w 0 \<and>
     f_task (wk_futures w ! 0) \<in> running (wk_queue w) \<and> f_task (wk_futures w ! 0) \<in> active_task_ids (wk_slots w)"
proof -
  have start: "just_started sample_worker"
    using sample_worker_ok by (simp add: just_started_def sample_worker_def)
  obtain x w where s: "claim_step sample_env ''video'' sample_worker = (x, w)" by (metis prod.exhaust)
  have ex: "executing w 0" using sample_claim s by (auto simp: executing_def map_eq_Cons_conv)
  obtain lost where r: "worker_step\<^sup>*\<^sup>* (sample_worker, running (wk_queue sample_worker)) (w, lost)"
    using Claims [OF s] by blast
  show ?thesis using one_execution_per_task [OF start r] ex r by blast
qed

end
