(* ===== verification/Worker_Loop.thy ===== *)
theory Worker_Loop
  imports Ownership_Laws
begin

text \<open>
  The main loop of the worker (\<open>GenerationWorker._run_loop\<close>): a round renews the lease, drains what has
  finished, scans for orphans where it must, and claims. Only the lease and the clock come from outside:
  \<open>acquired\<close> is what the call of the queue answers, instants are those of \<open>time.monotonic()\<close>. The wait
  at the end of a round and the shutdown after the last one are not modelled.
\<close>

section \<open>One round\<close>

record loop_state =
  lp_owns :: bool
  lp_scanned :: bool
  lp_settled :: bool
  lp_lost_at :: "rat option"

definition loop_start :: loop_state where
  "loop_start = \<lparr>lp_owns = False, lp_scanned = False, lp_settled = False, lp_lost_at = None\<rparr>"

definition rescan_lease_lost_mult :: rat where
  "rescan_lease_lost_mult = 3"

text \<open>Since when the lease has been away, after it has been asked for.\<close>

definition away_since :: "rat \<Rightarrow> bool \<Rightarrow> loop_state \<Rightarrow> rat option" where
  "away_since now acquired s =
     (if lp_owns s \<and> \<not> acquired \<and> lp_lost_at s = None then Some now else lp_lost_at s)"

definition must_scan :: "rat \<Rightarrow> rat \<Rightarrow> bool \<Rightarrow> loop_state \<Rightarrow> bool" where
  "must_scan ttl now acquired s =
     (acquired \<and>
      (\<not> lp_scanned s \<or>
       (case away_since now acquired s of None \<Rightarrow> False | Some t \<Rightarrow> ttl * rescan_lease_lost_mult < now - t)))"

definition after_round :: "rat \<Rightarrow> rat \<Rightarrow> bool \<Rightarrow> loop_state \<Rightarrow> loop_state" where
  "after_round ttl now acquired s =
     \<lparr>lp_owns = acquired,
      lp_scanned = (acquired \<or> lp_scanned s),
      lp_settled = (lp_settled s \<or> must_scan ttl now acquired s),
      lp_lost_at = (if acquired then None else away_since now acquired s)\<rparr>"

text \<open>What the round asks of the outside, beside the lease.\<close>

record round_env =
  re_now :: int
  re_claims :: claim_env
  re_load :: "task \<Rightarrow> string option"
  re_projection :: "task_dict \<Rightarrow> string"
  re_limits :: "capacity_table option"

definition loop_round ::
    "round_env \<Rightarrow> string list \<Rightarrow> rat \<Rightarrow> rat \<Rightarrow> bool \<Rightarrow> loop_state \<times> worker \<Rightarrow> (loop_state \<times> worker) option" where
  "loop_round env lanes ttl now acquired x =
     (let (s, w) = x;
          w1 = drain_finished_tasks (re_now env) w;
          w2 = (if must_scan ttl now acquired s
                then recover (re_now env) (re_load env) (re_projection env) (re_limits env) w1 else w1);
          s' = after_round ttl now acquired s
      in if \<not> acquired then Some (s', w2)
         else map_option (\<lambda>(claimed_any, w3). (s', w3)) (claim_tasks (re_claims env) lanes False w2))"

section \<open>When the orphans are scanned\<close>

text \<open>The rounds so far: when each asked for the lease, and whether it got it.\<close>

type_synonym rounds = "(rat \<times> bool) list"

definition state_after_rounds :: "rat \<Rightarrow> rounds \<Rightarrow> loop_state" where
  "state_after_rounds ttl past = fold (\<lambda>(now, acquired). after_round ttl now acquired) past loop_start"

text \<open>The first round after the last one that had the lease.\<close>

definition lost_in :: "rounds \<Rightarrow> rat option" where
  "lost_in past =
     (if list_ex snd past
      then (case rev (takeWhile (\<lambda>r. \<not> snd r) (rev past)) of [] \<Rightarrow> None | r # _ \<Rightarrow> Some (fst r))
      else None)"

lemma state_snoc:
  "state_after_rounds ttl (past @ [(now, acquired)]) = after_round ttl now acquired (state_after_rounds ttl past)"
  by (simp add: state_after_rounds_def)

lemma lost_in_snoc:
  "lost_in (past @ [(now, acquired)]) =
     (if acquired then None
      else if past \<noteq> [] \<and> snd (last past) then Some now
      else lost_in past)"
proof (cases past rule: rev_cases)
  case Nil
  then show ?thesis by (simp add: lost_in_def)
next
  case (snoc xs r)
  then show ?thesis
    by (cases "snd r"; cases "rev (takeWhile (\<lambda>r. \<not> snd r) (rev xs))") (simp_all add: lost_in_def)
qed

lemma state_of_rounds:
  "lp_owns (state_after_rounds ttl past) = (past \<noteq> [] \<and> snd (last past)) \<and>
   lp_scanned (state_after_rounds ttl past) = list_ex snd past \<and>
   lp_settled (state_after_rounds ttl past) = list_ex snd past \<and>
   lp_lost_at (state_after_rounds ttl past) = lost_in past"
proof (induction past rule: rev_induct)
  case Nil
  then show ?case by (simp add: state_after_rounds_def loop_start_def lost_in_def)
next
  case (snoc r past)
  obtain now acquired where r: "r = (now, acquired)" by (cases r)
  have held: "past \<noteq> [] \<and> snd (last past) \<Longrightarrow> lost_in past = None"
    by (cases past rule: rev_cases) (simp_all add: lost_in_def)
  show ?case
    using snoc.IH held
    by (auto simp: r state_snoc after_round_def must_scan_def away_since_def lost_in_snoc split: option.splits)
qed

text \<open>a worker scans for orphans in a round exactly where it has the lease and either has it for the
  first time, or had lost it for longer than three of its terms; so no task is claimed before the first
  scan, and a short interruption of the lease does not repeat it.\<close>
theorem scans_when_owner_changed:
  "must_scan ttl now acquired (state_after_rounds ttl past) \<longleftrightarrow>
     acquired \<and> (\<not> list_ex snd past \<or>
       (\<exists>t. lost_in past = Some t \<and> ttl * rescan_lease_lost_mult < now - t))"
proof -
  have held: "past \<noteq> [] \<and> snd (last past) \<Longrightarrow> lost_in past = None"
    by (cases past rule: rev_cases) (simp_all add: lost_in_def)
  show ?thesis
    using state_of_rounds [of ttl past] held
    by (auto simp: must_scan_def away_since_def split: option.splits)
qed

lemma scans_when_owner_changed_witness:
  "must_scan 10 40 True (state_after_rounds 10 [(0, True), (5, False)]) \<and>
   \<not> must_scan 10 30 True (state_after_rounds 10 [(0, True), (5, False)]) \<and>
   must_scan 10 0 True (state_after_rounds 10 [])"
  unfolding scans_when_owner_changed by (simp add: lost_in_def rescan_lease_lost_mult_def)

section \<open>A round is a run of steps\<close>

lemma claim_lane_steps:
  "claim_lane env media claimed w = Some (r, w') \<Longrightarrow> \<exists>lost'. worker_step\<^sup>*\<^sup>* (w, lost) (w', lost')"
proof -
  have "\<And>r. claim_lane env media claimed w = Some r \<Longrightarrow> \<forall>lost. \<exists>lost'. worker_step\<^sup>*\<^sup>* (w, lost) (snd r, lost')"
  proof (rule claim_lane.raw_induct [where P = "\<lambda>env media claimed w r. \<forall>lost. \<exists>lost'. worker_step\<^sup>*\<^sup>* (w, lost) (snd r, lost')"])
    fix rec env media claimed w r
    assume IH: "\<And>env media claimed w r. rec env media claimed w = Some r \<Longrightarrow> \<forall>lost. \<exists>lost'. worker_step\<^sup>*\<^sup>* (w, lost) (snd r, lost')"
      and r: "(case claim_step env media w of
        ((claimed', continue), w1) \<Rightarrow>
          if continue then rec env media (claimed \<or> claimed') w1 else Some (claimed \<or> claimed', w1)) = Some r"
    obtain c continue w1 where s: "claim_step env media w = ((c, continue), w1)" by (metis prod.exhaust)
    show "\<forall>lost. \<exists>lost'. worker_step\<^sup>*\<^sup>* (w, lost) (snd r, lost')"
    proof
      fix lost
      let ?lost1 = "lost \<union> {tid \<in> newly_running w w1. \<not> ce_requeues env tid}"
      have one: "worker_step (w, lost) (w1, ?lost1)" by (rule Claims [OF s])
      show "\<exists>lost'. worker_step\<^sup>*\<^sup>* (w, lost) (snd r, lost')"
      proof (cases continue)
        case True
        then have "rec env media (claimed \<or> c) w1 = Some r" using r s by simp
        then obtain lost' where "worker_step\<^sup>*\<^sup>* (w1, ?lost1) (snd r, lost')" using IH by blast
        then show ?thesis using converse_rtranclp_into_rtranclp [of worker_step, OF one] by blast
      next
        case False
        then have "snd r = w1" using r s by auto
        then show ?thesis using one by blast
      qed
    qed
  qed
  then show "claim_lane env media claimed w = Some (r, w') \<Longrightarrow> \<exists>lost'. worker_step\<^sup>*\<^sup>* (w, lost) (w', lost')" by force
qed

lemma claim_tasks_steps:
  "claim_tasks env lanes claimed w = Some (r, w') \<Longrightarrow> \<exists>lost'. worker_step\<^sup>*\<^sup>* (w, lost) (w', lost')"
proof (induction lanes arbitrary: claimed w lost)
  case Nil
  then show ?case by auto
next
  case (Cons media lanes)
  obtain c w1 where s: "claim_lane env media claimed w = Some (c, w1)" "claim_tasks env lanes c w1 = Some (r, w')"
    using Cons.prems by (auto split: option.splits)
  obtain lost1 where one: "worker_step\<^sup>*\<^sup>* (w, lost) (w1, lost1)" using claim_lane_steps [OF s(1)] by blast
  obtain lost' where "worker_step\<^sup>*\<^sup>* (w1, lost1) (w', lost')" using Cons.IH [OF s(2)] by blast
  then show ?case using rtranclp_trans [OF one] by blast
qed

lemma run_step: "worker_step\<^sup>*\<^sup>* x y \<Longrightarrow> worker_step y z \<Longrightarrow> worker_step\<^sup>*\<^sup>* x z"
  by (rule rtranclp.rtrancl_into_rtrancl)

lemma drain_starts_nothing:
  "running (wk_queue (drain_finished_tasks now w)) \<subseteq> running (wk_queue w)"
  "wk_futures (drain_finished_tasks now w) = wk_futures w"
  using drained_running by (simp_all add: drain_unfold)

text \<open>C36: from every state the worker can reach, a round of its loop returns and is a run of its steps, so
  what holds over every interleaving holds for the loop; and a round without the lease starts nothing:
  no execution, and no task begins to run.\<close>
theorem loop_round_runs:
  assumes "just_started w0" and "worker_step\<^sup>*\<^sup>* (w0, running (wk_queue w0)) (w, lost)"
  shows "\<exists>w' lost'. loop_round env lanes ttl now acquired (s, w) = Some (after_round ttl now acquired s, w') \<and>
    worker_step\<^sup>*\<^sup>* (w, lost) (w', lost') \<and>
    (\<not> acquired \<longrightarrow> wk_futures w' = wk_futures w \<and> running (wk_queue w') \<subseteq> running (wk_queue w))"
proof -
  have w: "owned w" "accounted w lost"
    using run_owned [OF assms(2)] just_started_owned [OF assms(1)] by simp_all
  let ?w1 = "drain_finished_tasks (re_now env) w"
  have one: "worker_step\<^sup>*\<^sup>* (w, lost) (?w1, lost)" using Drains by blast
  define w2 where "w2 = (if must_scan ttl now acquired s
    then recover (re_now env) (re_load env) (re_projection env) (re_limits env) ?w1 else ?w1)"
  have "\<exists>lost2. worker_step\<^sup>*\<^sup>* (w, lost) (w2, lost2)"
  proof (cases "must_scan ttl now acquired s")
    case True
    then have "w2 = recover (re_now env) (re_load env) (re_projection env) (re_limits env) ?w1" by (simp add: w2_def)
    then have "worker_step\<^sup>*\<^sup>* (w, lost) (w2, lost \<inter> active_task_ids (wk_slots ?w1))"
      using run_step [OF one Recovers] by simp
    then show ?thesis by blast
  next
    case False
    then show ?thesis using one by (auto simp: w2_def)
  qed
  then obtain lost2 where two: "worker_step\<^sup>*\<^sup>* (w, lost) (w2, lost2)" by blast
  have o2: "owned w2" using run_owned [OF two] w by simp
  show ?thesis
  proof (cases acquired)
    case False
    then have "w2 = ?w1" by (simp add: w2_def must_scan_def)
    then show ?thesis
      using False two drain_starts_nothing [of "re_now env" w] by (auto simp: loop_round_def Let_def must_scan_def)
  next
    case True
    have "tables_ok w2" using ownedD(1,2) [OF o2] by (simp add: tables_ok_def)
    then obtain b w3 where c: "claim_tasks (re_claims env) lanes False w2 = Some (b, w3)"
      using claim_tasks_run [of w2 "re_claims env" lanes False] by auto
    obtain lost3 where "worker_step\<^sup>*\<^sup>* (w2, lost2) (w3, lost3)" using claim_tasks_steps [OF c] by blast
    then have "worker_step\<^sup>*\<^sup>* (w, lost) (w3, lost3)" by (rule rtranclp_trans [OF two])
    moreover have "loop_round env lanes ttl now acquired (s, w) = Some (after_round ttl now acquired s, w3)"
    proof -
      have "loop_round env lanes ttl now acquired (s, w)
          = map_option (\<lambda>(claimed_any, w3). (after_round ttl now acquired s, w3)) (claim_tasks (re_claims env) lanes False w2)"
        using True by (simp add: loop_round_def w2_def Let_def)
      then show ?thesis using c by simp
    qed
    ultimately show ?thesis using True by blast
  qed
qed

definition sample_round :: round_env where
  "sample_round = \<lparr>re_now = 9, re_claims = sample_env, re_load = (\<lambda>_. None), re_projection = (\<lambda>_. ''ark''), re_limits = None\<rparr>"

lemma loop_round_runs_witness:
  "\<exists>w'. loop_round sample_round worker_lanes 10 0 True (loop_start, sample_worker) = Some (after_round 10 0 True loop_start, w')"
proof -
  have "just_started sample_worker"
    using sample_worker_ok by (simp add: just_started_def sample_worker_def)
  from loop_round_runs [OF this rtranclp.rtrancl_refl] show ?thesis by blast
qed

end
