(* ===== verification/Py_Bytes.thy ===== *)
theory Py_Bytes
  imports Py_Str
begin

text \<open>
  Bytes and their encodings, as the artifact manifest uses them: \<open>s.encode("utf-8")\<close>,
  \<open>b.decode("utf-8")\<close>, \<open>base64.urlsafe_b64encode\<close> and the strict \<open>base64.b64decode\<close> with the
  URL-safe characters. A byte is a \<^typ>\<open>char\<close>; text is over the code points U+0000 to U+00FF, so the
  encoding of a character has one byte or two, and bytes of longer encodings are outside of the model
  (they read as an error).
\<close>

section \<open>UTF-8\<close>

definition utf8_char :: "char \<Rightarrow> string" where
  "utf8_char c =
     (let n = of_char c :: nat in
      if n < 128 then [c] else [char_of (192 + n div 64), char_of (128 + n mod 64)])"

definition utf8_encode :: "string \<Rightarrow> string" where
  "utf8_encode s = concat (map utf8_char s)"

fun utf8_decode :: "string \<Rightarrow> string option" where
  "utf8_decode [] = Some []"
| "utf8_decode (b # bs) =
     (let n = of_char b :: nat in
      if n < 128 then map_option (Cons b) (utf8_decode bs)
      else if n \<in> {194, 195} then
        (case bs of
           [] \<Rightarrow> None
         | c # cs \<Rightarrow>
             let m = of_char c :: nat in
             if 128 \<le> m \<and> m < 192 then map_option (Cons (char_of ((n - 192) * 64 + (m - 128)))) (utf8_decode cs)
             else None)
      else None)"

lemma of_char_lt: "(of_char (c :: char) :: nat) < 256"
  using nat_of_char_less_256 [of c] by simp

lemma of_char_of: "n < 256 \<Longrightarrow> (of_char (char_of n :: char) :: nat) = n"
  by simp

lemma utf8_decode_char: "utf8_decode (utf8_char c @ r) = map_option (Cons c) (utf8_decode r)"
proof (cases "(of_char c :: nat) < 128")
  case True
  then show ?thesis by (simp add: utf8_char_def)
next
  case False
  define n where "n = (of_char c :: nat)"
  have n: "128 \<le> n" "n < 256" using False of_char_lt [of c] by (simp_all add: n_def)
  have q: "n div 64 = 2 \<or> n div 64 = 3" using n by linarith
  have h: "(of_char (char_of (192 + n div 64) :: char) :: nat) = 192 + n div 64" using n by (intro of_char_of) linarith
  have l: "(of_char (char_of (128 + n mod 64) :: char) :: nat) = 128 + n mod 64"
    using mod_less_divisor [of 64 n] by (intro of_char_of) linarith
  have byte: "char_of (n div 64 * 64 + n mod 64) = c" by (simp add: n_def)
  have m: "n mod 64 < 64" by simp
  have g: "192 + n div 64 \<in> {194, 195}" "\<not> 192 + n div 64 < 128" "128 \<le> 128 + n mod 64" "128 + n mod 64 < 192"
    using q m by auto
  have d: "192 + n div 64 - 192 = n div 64" "128 + n mod 64 - 128 = n mod 64" by simp_all
  have "utf8_decode ([char_of (192 + n div 64), char_of (128 + n mod 64)] @ r)
      = map_option (Cons (char_of (n div 64 * 64 + n mod 64))) (utf8_decode r)"
    unfolding append_Cons append_Nil utf8_decode.simps(2) [of "char_of (192 + n div 64)"] Let_def h list.case l d
    using g by (simp only: if_True if_False conj_absorb simp_thms)
  then have eq: "utf8_decode ([char_of (192 + n div 64), char_of (128 + n mod 64)] @ r) = map_option (Cons c) (utf8_decode r)"
    unfolding byte .
  have "utf8_char c = [char_of (192 + n div 64), char_of (128 + n mod 64)]"
    using n by (simp add: utf8_char_def n_def Let_def)
  then show ?thesis by (simp only: eq)
qed

lemma utf8_round_trip: "utf8_decode (utf8_encode s) = Some s"
  by (induction s) (simp_all add: utf8_encode_def utf8_decode_char)

section \<open>Base64\<close>

definition pad_char :: char where
  "pad_char = CHR ''=''"

text \<open>The alphabet of \<open>urlsafe_b64encode\<close>, which ends with a hyphen and an underscore.\<close>

definition b64_char :: "nat \<Rightarrow> char" where
  "b64_char n =
     (if n < 26 then char_of (65 + n)
      else if n < 52 then char_of (97 + (n - 26))
      else if n < 62 then char_of (48 + (n - 52))
      else if n = 62 then CHR ''-'' else CHR ''_'')"

text \<open>\<open>altchars\<close> replaces the last two characters; the standard ones stay readable.\<close>

definition b64_val :: "char \<Rightarrow> nat option" where
  "b64_val c =
     (let n = of_char c :: nat in
      if 65 \<le> n \<and> n \<le> 90 then Some (n - 65)
      else if 97 \<le> n \<and> n \<le> 122 then Some (n - 97 + 26)
      else if 48 \<le> n \<and> n \<le> 57 then Some (n - 48 + 52)
      else if n = 45 \<or> n = 43 then Some 62
      else if n = 95 \<or> n = 47 then Some 63
      else None)"

fun urlsafe_b64encode :: "string \<Rightarrow> string" where
  "urlsafe_b64encode [] = []"
| "urlsafe_b64encode [a] =
     (let x = of_char a in [b64_char (x div 4), b64_char (x mod 4 * 16), pad_char, pad_char])"
| "urlsafe_b64encode [a, b] =
     (let x = of_char a; y = of_char b in
      [b64_char (x div 4), b64_char (x mod 4 * 16 + y div 16), b64_char (y mod 16 * 4), pad_char])"
| "urlsafe_b64encode (a # b # c # r) =
     (let x = of_char a; y = of_char b; z = of_char c in
      [b64_char (x div 4), b64_char (x mod 4 * 16 + y div 16), b64_char (y mod 16 * 4 + z div 64), b64_char (z mod 64)]
        @ urlsafe_b64encode r)"

text \<open>
  The strict reading: whole groups of four, padding only at the end and only as much as completes the
  group. Bits of the last group that no byte takes are ignored.
\<close>

fun b64decode_strict :: "string \<Rightarrow> string option" where
  "b64decode_strict [] = Some []"
| "b64decode_strict (a # b # c # d # r) =
     (case (b64_val a, b64_val b) of
        (Some x, Some y) \<Rightarrow>
          if d = pad_char \<and> r = [] then
            (if c = pad_char then Some [char_of (x * 4 + y div 16)]
             else case b64_val c of
                    None \<Rightarrow> None
                  | Some z \<Rightarrow> Some [char_of (x * 4 + y div 16), char_of (y mod 16 * 16 + z div 4)])
          else
            (case (b64_val c, b64_val d) of
               (Some z, Some w) \<Rightarrow>
                 map_option (\<lambda>t. char_of (x * 4 + y div 16) # char_of (y mod 16 * 16 + z div 4) # char_of (z mod 4 * 64 + w) # t)
                   (b64decode_strict r)
             | _ \<Rightarrow> None)
      | _ \<Rightarrow> None)"
| "b64decode_strict _ = None"

text \<open>\<open>token.rstrip("=")\<close>, and the padding that is put back: \<open>"=" * (-len(token) % 4)\<close>.\<close>

definition rstrip_pad :: "string \<Rightarrow> string" where
  "rstrip_pad s = rev (dropWhile (\<lambda>c. c = pad_char) (rev s))"

definition with_padding :: "string \<Rightarrow> string" where
  "with_padding t = t @ replicate (nat ((- int (length t)) mod 4)) pad_char"

lemma b64_val_char: "n < 64 \<Longrightarrow> b64_val (b64_char n) = Some n"
  by (auto simp: b64_val_def b64_char_def Let_def of_char_of)

lemma b64_char_not_pad: "n < 64 \<Longrightarrow> b64_char n \<noteq> pad_char"
proof
  assume n: "n < 64" and "b64_char n = pad_char"
  then have "b64_val pad_char = Some n" using b64_val_char by metis
  then show False by (simp add: b64_val_def pad_char_def)
qed

lemma join_split: "q < k \<Longrightarrow> (p * k + q) div k = (p :: nat)" "q < k \<Longrightarrow> (p * k + q) mod k = (q :: nat)"
  by simp_all

lemma six_bits:
  "x < (256::nat) \<Longrightarrow> x div 4 < 64" "x mod 4 * 16 < (64::nat)" "y < 256 \<Longrightarrow> x mod 4 * 16 + y div 16 < (64::nat)"
  "y mod 16 * 4 < (64::nat)" "z < 256 \<Longrightarrow> y mod 16 * 4 + z div 64 < (64::nat)" "z mod 64 < (64::nat)"
proof -
  have m: "x mod 4 < 4" "y mod 16 < 16" by simp_all
  show "x < 256 \<Longrightarrow> x div 4 < 64" by linarith
  show "x mod 4 * 16 < 64" using m by linarith
  show "y < 256 \<Longrightarrow> x mod 4 * 16 + y div 16 < 64" using m by linarith
  show "y mod 16 * 4 < 64" using m by linarith
  show "z < 256 \<Longrightarrow> y mod 16 * 4 + z div 64 < 64" using m by linarith
qed simp

lemma byte_back:
  "x div 4 * 4 + (x mod 4 * 16) div 16 = (x::nat)"
  "y < 256 \<Longrightarrow> x div 4 * 4 + (x mod 4 * 16 + y div 16) div 16 = (x::nat)"
  "y < 256 \<Longrightarrow> (x mod 4 * 16 + y div 16) mod 16 * 16 + (y mod 16 * 4) div 4 = (y::nat)"
  "y < 256 \<Longrightarrow> z < 256 \<Longrightarrow> (x mod 4 * 16 + y div 16) mod 16 * 16 + (y mod 16 * 4 + z div 64) div 4 = (y::nat)"
  "z < 256 \<Longrightarrow> (y mod 16 * 4 + z div 64) mod 4 * 64 + z mod 64 = (z::nat)"
proof -
  show "x div 4 * 4 + (x mod 4 * 16) div 16 = x" by simp
  show "y < 256 \<Longrightarrow> x div 4 * 4 + (x mod 4 * 16 + y div 16) div 16 = x"
    by (subst join_split(1)) simp_all
  show "y < 256 \<Longrightarrow> (x mod 4 * 16 + y div 16) mod 16 * 16 + (y mod 16 * 4) div 4 = y"
    by (subst join_split(2)) simp_all
  show "y < 256 \<Longrightarrow> z < 256 \<Longrightarrow> (x mod 4 * 16 + y div 16) mod 16 * 16 + (y mod 16 * 4 + z div 64) div 4 = y"
    by (subst join_split(2), simp, subst join_split(1)) simp_all
  show "z < 256 \<Longrightarrow> (y mod 16 * 4 + z div 64) mod 4 * 64 + z mod 64 = z"
    by (subst join_split(2)) simp_all
qed

lemma b64decode_quad:
  "x < 64 \<Longrightarrow> y < 64 \<Longrightarrow> z < 64 \<Longrightarrow> w < 64 \<Longrightarrow>
     b64decode_strict ([b64_char x, b64_char y, b64_char z, b64_char w] @ r)
     = map_option (\<lambda>t. char_of (x * 4 + y div 16) # char_of (y mod 16 * 16 + z div 4) # char_of (z mod 4 * 64 + w) # t)
         (b64decode_strict r)"
  by (simp add: b64_val_char b64_char_not_pad)

lemma b64decode_padded:
  "x < 64 \<Longrightarrow> y < 64 \<Longrightarrow>
     b64decode_strict [b64_char x, b64_char y, pad_char, pad_char] = Some [char_of (x * 4 + y div 16)]"
  "x < 64 \<Longrightarrow> y < 64 \<Longrightarrow> z < 64 \<Longrightarrow>
     b64decode_strict [b64_char x, b64_char y, b64_char z, pad_char]
     = Some [char_of (x * 4 + y div 16), char_of (y mod 16 * 16 + z div 4)]"
  by (simp_all add: b64_val_char b64_char_not_pad)

lemma b64_round_trip: "b64decode_strict (urlsafe_b64encode bs) = Some bs"
proof (induction bs rule: urlsafe_b64encode.induct)
  case (4 a b c r)
  note lt = of_char_lt [of a] of_char_lt [of b] of_char_lt [of c]
  show ?case
    unfolding urlsafe_b64encode.simps Let_def
    by (simp only: b64decode_quad six_bits byte_back lt 4 option.map) simp
next
  case (2 a)
  show ?case
    unfolding urlsafe_b64encode.simps Let_def
    by (simp only: b64decode_padded six_bits byte_back of_char_lt) simp
next
  case (3 a b)
  show ?case
    unfolding urlsafe_b64encode.simps Let_def
    by (simp only: b64decode_padded six_bits byte_back of_char_lt) simp
qed simp

text \<open>The token without its padding is completed to what was encoded.\<close>

lemma padding_back: "with_padding (rstrip_pad (urlsafe_b64encode bs)) = urlsafe_b64encode bs"
proof -
  have enc: "\<exists>t n. urlsafe_b64encode bs = t @ replicate n pad_char \<and> n < 3 \<and> (length t + n) mod 4 = 0
      \<and> (t = [] \<or> last t \<noteq> pad_char)" (is "\<exists>t n. ?E bs t n")
  proof (induction bs rule: urlsafe_b64encode.induct)
    case 1
    show ?case by (rule exI [of _ "[]"], rule exI [of _ 0]) simp
  next
    case (2 a)
    show ?case
      by (rule exI [of _ "[b64_char (of_char a div 4), b64_char (of_char a mod 4 * 16)]"], rule exI [of _ 2])
        (simp add: Let_def numeral_2_eq_2 b64_char_not_pad six_bits)
  next
    case (3 a b)
    show ?case
      by (rule exI [of _ "[b64_char (of_char a div 4), b64_char (of_char a mod 4 * 16 + of_char b div 16),
            b64_char (of_char b mod 16 * 4)]"], rule exI [of _ 1])
        (simp add: Let_def b64_char_not_pad six_bits)
  next
    case (4 a b c r)
    let ?q = "[b64_char (of_char a div 4), b64_char (of_char a mod 4 * 16 + of_char b div 16),
       b64_char (of_char b mod 16 * 4 + of_char c div 64), b64_char (of_char c mod 64)]"
    obtain t n where e: "urlsafe_b64encode r = t @ replicate n pad_char" and n: "n < 3" and l: "(length t + n) mod 4 = 0"
      and last: "t = [] \<or> last t \<noteq> pad_char" using 4 [OF refl refl refl] by (elim exE conjE)
    have e4: "urlsafe_b64encode (a # b # c # r) = (?q @ t) @ replicate n pad_char" by (simp add: Let_def e)
    have l4: "(length (?q @ t) + n) mod 4 = 0" using l by simp
    have last4: "last (?q @ t) \<noteq> pad_char" using last b64_char_not_pad [OF six_bits(6)] by (cases "t = []") simp_all
    show ?case
      by (rule exI [of _ "?q @ t"], rule exI [of _ n], intro conjI, rule e4, rule n, rule l4, rule disjI2, rule last4)
  qed
  then obtain t n where t: "urlsafe_b64encode bs = t @ replicate n pad_char" and n: "n < 3"
    and l: "(length t + n) mod 4 = 0" and last: "t = [] \<or> last t \<noteq> pad_char" by (elim exE conjE)
  have "dropWhile (\<lambda>c. c = pad_char) (rev t) = rev t"
    using last by (cases t rule: rev_cases) auto
  moreover have "dropWhile (\<lambda>c. c = pad_char) (replicate n pad_char @ rev t) = dropWhile (\<lambda>c. c = pad_char) (rev t)"
    by (rule dropWhile_append2) simp
  ultimately have strip: "rstrip_pad (urlsafe_b64encode bs) = t" by (simp add: rstrip_pad_def t)
  have "(- int (length t)) mod 4 = int n" using n l by presburger
  then show ?thesis unfolding strip by (simp add: with_padding_def t)
qed

end
