(* ===== verification/Py_Json_Layout.thy ===== *)
theory Py_Json_Layout
  imports Py_Json
begin

text \<open>
  \<open>json.dumps\<close> in other layouts: compact (\<open>separators=(',', ':')\<close>) and indented (\<open>indent=2\<close>). A layout is the
  white space that goes after an opening bracket and after a comma, by depth, and after a colon; what
  makes a layout readable is that it is white space, and the locale proves the round trip once for both.
\<close>

fun dumps_at :: "(nat \<Rightarrow> string) \<Rightarrow> string \<Rightarrow> nat \<Rightarrow> json \<Rightarrow> string"
  and items_at :: "(nat \<Rightarrow> string) \<Rightarrow> string \<Rightarrow> nat \<Rightarrow> json list \<Rightarrow> string"
  and members_at :: "(nat \<Rightarrow> string) \<Rightarrow> string \<Rightarrow> nat \<Rightarrow> (string \<times> json) list \<Rightarrow> string" where
  "dumps_at brk col n JNull = ''null''"
| "dumps_at brk col n (JBool b) = (if b then ''true'' else ''false'')"
| "dumps_at brk col n (JInt k) = str_int k"
| "dumps_at brk col n (JFloat t) = t"
| "dumps_at brk col n (JStr s) = dumps_string s"
| "dumps_at brk col n (JArr xs) =
     (if xs = [] then ''[]'' else ''['' @ brk (Suc n) @ items_at brk col (Suc n) xs @ brk n @ '']'')"
| "dumps_at brk col n (JObj kvs) =
     (if kvs = [] then ''{}'' else ''{'' @ brk (Suc n) @ members_at brk col (Suc n) kvs @ brk n @ ''}'')"
| "items_at brk col n [] = []"
| "items_at brk col n (v # vs) =
     dumps_at brk col n v @ (if vs = [] then [] else '','' @ brk n @ items_at brk col n vs)"
| "members_at brk col n [] = []"
| "members_at brk col n ((k, v) # kvs) =
     dumps_string k @ '':'' @ col @ dumps_at brk col n v
       @ (if kvs = [] then [] else '','' @ brk n @ members_at brk col n kvs)"

definition no_break :: "nat \<Rightarrow> string" where
  "no_break n = []"

definition break_indent2 :: "nat \<Rightarrow> string" where
  "break_indent2 n = char_of (10::nat) # replicate (2 * n) (CHR '' '')"

definition dumps_compact :: "json \<Rightarrow> string" where
  "dumps_compact v = dumps_at no_break [] 0 v"

definition dumps_indented :: "json \<Rightarrow> string" where
  "dumps_indented v = dumps_at break_indent2 '' '' 0 v"

lemma skip_ws_append: "list_all is_json_ws w \<Longrightarrow> skip_ws (w @ s) = skip_ws s"
  by (induction w) (simp_all add: skip_ws_def)

lemma ends_value_append: "list_all is_json_ws w \<Longrightarrow> ends_value s \<Longrightarrow> ends_value (w @ s)"
  by (cases w) (simp_all add: ends_value_def)

lemma mark_not_ws:
  "\<not> is_json_ws (CHR '','')" "\<not> is_json_ws (CHR '']'')" "\<not> is_json_ws (CHR ''}'')" "\<not> is_json_ws (CHR '':'')"
  by (simp_all add: is_json_ws_def)

lemma skip_ws_mark: "\<not> is_json_ws c \<Longrightarrow> skip_ws (c # s) = c # s"
  by (simp add: skip_ws_def)

locale json_layout =
  fixes brk :: "nat \<Rightarrow> string" and col :: string
  assumes brk_ws: "list_all is_json_ws (brk n)" and col_ws: "list_all is_json_ws col"
begin

lemma starts_at: "json_ok v \<Longrightarrow> starts_value (dumps_at brk col n v)"
proof (cases v)
  case (JInt k)
  then show "json_ok v \<Longrightarrow> ?thesis" using scan_atom_head [OF scan_atom_int] by simp
next
  case (JFloat t)
  then show "json_ok v \<Longrightarrow> ?thesis" using scan_atom_head by simp
qed (simp_all add: starts_value_string, simp_all add: starts_value_def is_json_ws_def)

lemma skip_brk: "starts_value s \<Longrightarrow> skip_ws (brk n @ s) = s"
  using skip_ws_append [OF brk_ws] skip_ws_starts by simp

lemma skip_close: "\<not> is_json_ws c \<Longrightarrow> skip_ws (brk n @ c # r) = c # r"
  using skip_ws_append [OF brk_ws] skip_ws_mark by simp

lemma close_ends: "c \<in> {CHR '']'', CHR ''}''} \<Longrightarrow> ends_value (brk n @ c # r)"
  by (rule ends_value_append [OF brk_ws]) (auto simp: ends_value_def)

definition reads_at :: "json \<Rightarrow> bool" where
  "reads_at v = (\<forall>n r. ends_value r \<longrightarrow> (\<exists>N. \<forall>m\<ge>N. scan_value m (dumps_at brk col n v @ r) = Some (v, r)))"

lemma reads_atD:
  assumes "reads_at v" "ends_value r"
  obtains N where "\<And>m. N \<le> m \<Longrightarrow> scan_value m (dumps_at brk col n v @ r) = Some (v, r)"
  using assms unfolding reads_at_def by blast

lemma reads_at_atom:
  assumes "\<And>n. dumps_at brk col n v = dumps v" "scan_atom (dumps v) = Some (v, [])"
  shows "reads_at v"
  using reads_back_atom [OF assms(2)] by (simp add: reads_at_def reads_back_def assms(1))

lemma items_read:
  assumes "list_all reads_at vs" "list_all json_ok vs" "vs \<noteq> []"
  shows "\<exists>N. \<forall>m\<ge>N. scan_items m (items_at brk col n vs @ brk j @ '']'' @ r) = Some (vs, r)"
  using assms
proof (induction vs)
  case Nil
  then show ?case by simp
next
  case (Cons v vs)
  let ?rest = "(if vs = [] then [] else '','' @ brk n @ items_at brk col n vs) @ brk j @ '']'' @ r"
  have "ends_value ?rest" using close_ends [of "CHR '']''" j r] by (simp add: ends_value_def)
  then obtain N where N: "\<And>m. N \<le> m \<Longrightarrow> scan_value m (dumps_at brk col n v @ ?rest) = Some (v, ?rest)"
    using Cons.prems(1) reads_atD [of v ?rest n] by (metis list.pred_inject(2))
  show ?case
  proof (cases "vs = []")
    case True
    have "scan_items m (items_at brk col n [v] @ brk j @ '']'' @ r) = Some ([v], r)" if m: "Suc N \<le> m" for m
    proof (cases m)
      case 0
      then show ?thesis using m by simp
    next
      case (Suc k)
      then show ?thesis using N [of k] m True skip_close [OF mark_not_ws(2)] by simp
    qed
    then show ?thesis using True by blast
  next
    case False
    then obtain M where M: "\<And>m. M \<le> m \<Longrightarrow> scan_items m (items_at brk col n vs @ brk j @ '']'' @ r) = Some (vs, r)"
      using Cons by auto
    obtain w ws where vs: "vs = w # ws" using False by (cases vs) auto
    then have "starts_value (items_at brk col n vs @ brk j @ '']'' @ r)"
      using Cons.prems(2) by (auto simp del: append_assoc intro!: starts_value_append starts_at)
    then have ws: "skip_ws (brk n @ items_at brk col n vs @ brk j @ '']'' @ r) = items_at brk col n vs @ brk j @ '']'' @ r"
      by (rule skip_brk)
    have "scan_items m (items_at brk col n (v # vs) @ brk j @ '']'' @ r) = Some (v # vs, r)"
      if m: "Suc (max N M) \<le> m" for m
    proof (cases m)
      case 0
      then show ?thesis using m by simp
    next
      case (Suc k)
      have "scan_value k (dumps_at brk col n v @ ?rest) = Some (v, ?rest)" using N [of k] m Suc by simp
      moreover have "scan_items k (items_at brk col n vs @ brk j @ '']'' @ r) = Some (vs, r)" using M [of k] m Suc by simp
      ultimately show ?thesis using Suc False ws skip_ws_mark [OF mark_not_ws(1)] by simp
    qed
    then show ?thesis by blast
  qed
qed

lemma members_read:
  assumes "list_all (\<lambda>kv. reads_at (snd kv)) kvs" "list_all (\<lambda>kv. json_ok (snd kv)) kvs" "kvs \<noteq> []"
  shows "\<exists>N. \<forall>m\<ge>N. scan_members m (members_at brk col n kvs @ brk j @ ''}'' @ r) = Some (kvs, r)"
  using assms
proof (induction kvs)
  case Nil
  then show ?case by simp
next
  case (Cons kv kvs)
  obtain k v where kv: "kv = (k, v)" by (cases kv)
  let ?rest = "(if kvs = [] then [] else '','' @ brk n @ members_at brk col n kvs) @ brk j @ ''}'' @ r"
  have "ends_value ?rest" using close_ends [of "CHR ''}''" j r] by (simp add: ends_value_def)
  then obtain N where N: "\<And>m. N \<le> m \<Longrightarrow> scan_value m (dumps_at brk col n v @ ?rest) = Some (v, ?rest)"
    using Cons.prems(1) reads_atD [of v ?rest n] kv by (metis list.pred_inject(2) snd_conv)
  have "starts_value (dumps_at brk col n v @ t)" for t
    using Cons.prems(2) kv by (auto intro!: starts_value_append starts_at)
  then have sv: "skip_ws (col @ dumps_at brk col n v @ t) = dumps_at brk col n v @ t" for t
    using skip_ws_append [OF col_ws] skip_ws_starts by simp
  have key: "scan_string (concat (map escape_char k) @ quote # t) = Some (k, t)" for t by (rule scan_string_dumps)
  show ?case
  proof (cases "kvs = []")
    case True
    have "scan_members m (members_at brk col n [kv] @ brk j @ ''}'' @ r) = Some ([kv], r)" if m: "Suc N \<le> m" for m
    proof (cases m)
      case 0
      then show ?thesis using m by simp
    next
      case (Suc i)
      then show ?thesis
        using N [of i] m True sv key skip_close [OF mark_not_ws(3)] skip_ws_mark [OF mark_not_ws(4)]
        by (simp add: kv dumps_string_def)
    qed
    then show ?thesis using True by blast
  next
    case False
    then obtain M where M: "\<And>m. M \<le> m \<Longrightarrow> scan_members m (members_at brk col n kvs @ brk j @ ''}'' @ r) = Some (kvs, r)"
      using Cons by auto
    have "starts_value (members_at brk col n kvs @ brk j @ ''}'' @ r)"
      using False starts_value_string by (cases kvs) (auto intro!: starts_value_append)
    then have ws: "skip_ws (brk n @ members_at brk col n kvs @ brk j @ ''}'' @ r) = members_at brk col n kvs @ brk j @ ''}'' @ r"
      by (rule skip_brk)
    have "scan_members m (members_at brk col n (kv # kvs) @ brk j @ ''}'' @ r) = Some (kv # kvs, r)"
      if m: "Suc (max N M) \<le> m" for m
    proof (cases m)
      case 0
      then show ?thesis using m by simp
    next
      case (Suc i)
      have "scan_value i (dumps_at brk col n v @ ?rest) = Some (v, ?rest)" using N [of i] m Suc by simp
      moreover have "scan_members i (members_at brk col n kvs @ brk j @ ''}'' @ r) = Some (kvs, r)" using M [of i] m Suc by simp
      ultimately show ?thesis
        using Suc False ws sv key skip_ws_mark [OF mark_not_ws(1)] skip_ws_mark [OF mark_not_ws(4)]
        by (simp add: kv dumps_string_def)
    qed
    then show ?thesis by blast
  qed
qed

lemma json_reads_at: "json_ok v \<Longrightarrow> reads_at v"
proof (induction v)
  case (JStr s)
  have "scan_value m (dumps_at brk col n (JStr s) @ r) = Some (JStr s, r)" if "1 \<le> m" for m n r
    using that scan_string_dumps by (cases m) (simp_all add: dumps_string_def)
  then show ?case unfolding reads_at_def by blast
next
  case (JArr xs)
  have rb: "list_all reads_at xs" and ok: "list_all json_ok xs" using JArr by (auto simp: list_all_iff)
  show ?case
  proof (cases "xs = []")
    case True
    have "scan_value m (dumps_at brk col n (JArr []) @ r) = Some (JArr [], r)" if "1 \<le> m" for m n r
      using that by (cases m) (simp_all add: skip_ws_def is_json_ws_def quote_def)
    then show ?thesis using True unfolding reads_at_def by blast
  next
    case False
    then obtain w ws where xs: "xs = w # ws" by (cases xs) auto
    have "\<exists>N. \<forall>m\<ge>N. scan_value m (dumps_at brk col n (JArr xs) @ r) = Some (JArr xs, r)" for n r
    proof -
      obtain N where N: "\<And>m. N \<le> m \<Longrightarrow> scan_items m (items_at brk col (Suc n) xs @ brk n @ '']'' @ r) = Some (xs, r)"
        using items_read [OF rb ok False] by blast
      have st: "starts_value (items_at brk col (Suc n) xs @ brk n @ '']'' @ r)"
        using ok xs by (auto simp del: append_assoc intro!: starts_value_append starts_at)
      have "scan_value m (dumps_at brk col n (JArr xs) @ r) = Some (JArr xs, r)" if "Suc N \<le> m" for m
        using that N [of "m - 1"] skip_brk [OF st, of "Suc n"] starts_value_open [OF st] False
        by (cases m) (simp_all add: quote_def)
      then show ?thesis by blast
    qed
    then show ?thesis unfolding reads_at_def by blast
  qed
next
  case (JObj kvs)
  have rb: "list_all (\<lambda>kv. reads_at (snd kv)) kvs" and ok: "list_all (\<lambda>kv. json_ok (snd kv)) kvs"
    using JObj by (fastforce simp: list_all_iff)+
  show ?case
  proof (cases "kvs = []")
    case True
    have "scan_value m (dumps_at brk col n (JObj []) @ r) = Some (JObj [], r)" if "1 \<le> m" for m n r
      using that by (cases m) (simp_all add: skip_ws_def is_json_ws_def quote_def)
    then show ?thesis using True unfolding reads_at_def by blast
  next
    case False
    have "\<exists>N. \<forall>m\<ge>N. scan_value m (dumps_at brk col n (JObj kvs) @ r) = Some (JObj kvs, r)" for n r
    proof -
      obtain N where N: "\<And>m. N \<le> m \<Longrightarrow> scan_members m (members_at brk col (Suc n) kvs @ brk n @ ''}'' @ r) = Some (kvs, r)"
        using members_read [OF rb ok False] by blast
      have st: "starts_value (members_at brk col (Suc n) kvs @ brk n @ ''}'' @ r)"
        using False starts_value_string by (cases kvs) (auto intro!: starts_value_append)
      have "scan_value m (dumps_at brk col n (JObj kvs) @ r) = Some (JObj kvs, r)" if "Suc N \<le> m" for m
        using that N [of "m - 1"] skip_brk [OF st, of "Suc n"] starts_value_open [OF st] False
        by (cases m) (simp_all add: quote_def)
      then show ?thesis by blast
    qed
    then show ?thesis unfolding reads_at_def by blast
  qed
next
  case (JInt k)
  then show ?case by (intro reads_at_atom) (simp_all add: scan_atom_int)
qed (intro reads_at_atom, simp_all add: scan_atom_def literals_def)+

text \<open>A text in the layout reads back, also with white space behind it.\<close>

lemma loads_pairs_at: "json_ok v \<Longrightarrow> list_all is_json_ws w \<Longrightarrow> loads_pairs (dumps_at brk col n v @ w) = Some v"
proof -
  assume ok: "json_ok v" and w: "list_all is_json_ws w"
  have "ends_value w" using ends_value_append [OF w, of "[]"] by (simp add: ends_value_def)
  then obtain N where N: "\<And>m. N \<le> m \<Longrightarrow> scan_value m (dumps_at brk col n v @ w) = Some (v, w)"
    using reads_atD [OF json_reads_at [OF ok]] by blast
  have "starts_value (dumps_at brk col n v @ w)" by (rule starts_value_append [OF starts_at [OF ok]])
  then have skip: "skip_ws (dumps_at brk col n v @ w) = dumps_at brk col n v @ w" by (rule skip_ws_starts)
  let ?t = "dumps_at brk col n v @ w"
  have "skip_ws w = []" using skip_ws_append [OF w, of "[]"] by (simp add: skip_ws_def)
  then have "loads_pairs_with (max N (2 * length ?t + 1)) ?t = Some v"
    using N [of "max N (2 * length ?t + 1)"] skip by (simp add: loads_pairs_with_def)
  then show ?thesis by (metis loads_fuel max.cobounded2)
qed

end

interpretation compact: json_layout no_break "[]"
  by unfold_locales (simp_all add: no_break_def)

interpretation indented: json_layout break_indent2 "'' ''"
  by unfold_locales (auto simp: break_indent2_def is_json_ws_def list_all_iff)

lemma loads_compact: "json_ok v \<Longrightarrow> loads (dumps_compact v) = Some v"
  using compact.loads_pairs_at [of v "[]" 0] by (simp add: dumps_compact_def loads_of_pairs)

lemma loads_pairs_indented: "json_ok v \<Longrightarrow> list_all is_json_ws w \<Longrightarrow> loads_pairs (dumps_indented v @ w) = Some v"
  using indented.loads_pairs_at by (simp add: dumps_indented_def)

end
