(* ===== verification/Artifact_Key.thy ===== *)
theory Artifact_Key
  imports Py_Bytes Py_Json_Layout
begin

text \<open>
  The identity of a produced file (\<open>ArtifactKey\<close> in \<open>lib/artifacts/artifact_manifest.py\<close>): a kind and
  components, checked and normalised when a key is made, and the text a key is stored under. A Python
  value is a \<^typ>\<open>json\<close>, a \<open>bool\<close> is no \<open>int\<close>. On the modelled text \<open>unicodedata.normalize("NFC", s)\<close>
  is \<open>s\<close>. Making a key fails with \<open>ValueError\<close>, or with the \<open>TypeError\<close> of \<open>x in {...}\<close> for an \<open>x\<close>
  that cannot be hashed.
\<close>

section \<open>Kinds\<close>

datatype artifact_kind =
    Asset_sheet
  | Episode_script_plan
  | Episode_script
  | Episode_grid
  | Episode_storyboard
  | Episode_video
  | Episode_audio
  | Episode_subtitle
  | Episode_presentation
  | Episode_final_cut
  | Episode_jianying_draft
  | Project_bgm

fun kind_value :: "artifact_kind \<Rightarrow> string" where
  "kind_value Asset_sheet = ''asset-sheet''"
| "kind_value Episode_script_plan = ''episode-script-plan''"
| "kind_value Episode_script = ''episode-script''"
| "kind_value Episode_grid = ''episode-grid''"
| "kind_value Episode_storyboard = ''episode-storyboard''"
| "kind_value Episode_video = ''episode-video''"
| "kind_value Episode_audio = ''episode-audio''"
| "kind_value Episode_subtitle = ''episode-subtitle''"
| "kind_value Episode_presentation = ''episode-presentation''"
| "kind_value Episode_final_cut = ''episode-final-cut''"
| "kind_value Episode_jianying_draft = ''episode-jianying-draft''"
| "kind_value Project_bgm = ''project-bgm''"

definition all_kinds :: "artifact_kind list" where
  "all_kinds =
     [Asset_sheet, Episode_script_plan, Episode_script, Episode_grid, Episode_storyboard, Episode_video, Episode_audio,
      Episode_subtitle, Episode_presentation, Episode_final_cut, Episode_jianying_draft, Project_bgm]"

definition artifact_kind_of :: "string \<Rightarrow> artifact_kind option" where
  "artifact_kind_of s = find (\<lambda>k. kind_value k = s) all_kinds"

definition project_level_artifact_kinds :: "artifact_kind list" where
  "project_level_artifact_kinds = [Asset_sheet, Project_bgm]"

definition asset_types :: "string list" where
  "asset_types = [''character'', ''scene'', ''prop'', ''product'']"

definition narration_versions :: "string list" where
  "narration_versions = [''without_narration'', ''with_narration'']"

definition final_cut_subtitle_modes :: "string list" where
  "final_cut_subtitle_modes = [''no_subtitles'', ''burned_subtitles'']"

definition rendition_variants :: "string list" where
  "rendition_variants = [''post_production'', ''use_tts'']"

section \<open>Making a key\<close>

record artifact_key =
  key_kind :: artifact_kind
  key_components :: "json list"

datatype key_error = Key_value_error | Key_type_error

text \<open>\<open>v in {...}\<close> for a set of strings: a list or a dict has no hash.\<close>

fun in_strings :: "json \<Rightarrow> string list \<Rightarrow> key_error + bool" where
  "in_strings (JArr xs) S = Inl Key_type_error"
| "in_strings (JObj kvs) S = Inl Key_type_error"
| "in_strings (JStr s) S = Inr (s \<in> set S)"
| "in_strings v S = Inr False"

text \<open>\<open>a and b\<close> where \<open>b\<close> may raise.\<close>

definition and_also :: "bool \<Rightarrow> key_error + bool \<Rightarrow> key_error + bool" where
  "and_also b m = (if b then m else Inr False)"

fun is_positive_int :: "json \<Rightarrow> bool" where
  "is_positive_int (JInt n) = (0 < n)"
| "is_positive_int v = False"

fun is_non_empty :: "json \<Rightarrow> bool" where
  "is_non_empty (JStr s) = (s \<noteq> [])"
| "is_non_empty v = False"

definition is_lower_hex :: "char \<Rightarrow> bool" where
  "is_lower_hex c = (let n = of_char c :: nat in (48 \<le> n \<and> n \<le> 57) \<or> (97 \<le> n \<and> n \<le> 102))"

text \<open>The patterns \<open>tl-[0-9a-f]{8}\<close> and \<open>bgm-[0-9a-f]{8}\<close> (\<open>fullmatch\<close>).\<close>

fun matches_id :: "string \<Rightarrow> json \<Rightarrow> bool" where
  "matches_id p (JStr s) =
     (starts_with p s \<and> length s = length p + 8 \<and> list_all is_lower_hex (drop (length p) s))"
| "matches_id p v = False"

definition edit_timeline_id_re :: string where
  "edit_timeline_id_re = ''tl-''"

definition bgm_id_re :: string where
  "bgm_id_re = ''bgm-''"

text \<open>The name of an asset as the manifest compares it: \<open>asset_name_comparison_key\<close>.\<close>

definition asset_name_comparison_key :: "string \<Rightarrow> string" where
  "asset_name_comparison_key name = py_strip name"

text \<open>The components that a sheet stores, where its name is not empty.\<close>

fun sheet_components :: "json list \<Rightarrow> json list option" where
  "sheet_components [JStr t, JStr i] =
     (if t \<in> set asset_types \<and> asset_name_comparison_key i \<noteq> []
      then Some [JStr t, JStr (asset_name_comparison_key i)] else None)"
| "sheet_components cs = None"

definition components_valid :: "artifact_kind \<Rightarrow> json list \<Rightarrow> key_error + bool" where
  "components_valid k cs =
     (if k \<in> {Episode_script_plan, Episode_script} then
        (case cs of [e] \<Rightarrow> Inr (is_positive_int e) | _ \<Rightarrow> Inr False)
      else if k \<in> {Episode_grid, Episode_storyboard, Episode_video, Episode_audio} then
        (case cs of [e, r] \<Rightarrow> Inr (is_positive_int e \<and> is_non_empty r) | _ \<Rightarrow> Inr False)
      else if k \<in> {Episode_subtitle, Episode_presentation} then
        (case cs of
           [e, r, v] \<Rightarrow> and_also (is_positive_int e \<and> is_non_empty r) (in_strings v rendition_variants)
         | _ \<Rightarrow> Inr False)
      else if k = Episode_final_cut then
        (case cs of
           [e, t, n, s] \<Rightarrow>
             and_also (is_positive_int e \<and> matches_id edit_timeline_id_re t)
               (bindE (in_strings n narration_versions) (\<lambda>b. and_also b (in_strings s final_cut_subtitle_modes)))
         | _ \<Rightarrow> Inr False)
      else if k = Episode_jianying_draft then
        (case cs of
           [e, t, n] \<Rightarrow>
             and_also (is_positive_int e \<and> matches_id edit_timeline_id_re t) (in_strings n narration_versions)
         | _ \<Rightarrow> Inr False)
      else if k = Project_bgm then
        (case cs of [b] \<Rightarrow> Inr (matches_id bgm_id_re b) | _ \<Rightarrow> Inr False)
      else Inr False)"

text \<open>\<open>ArtifactKey(kind, components)\<close> with its \<open>__post_init__\<close>.\<close>

definition new_key :: "artifact_kind \<Rightarrow> json list \<Rightarrow> key_error + artifact_key" where
  "new_key k cs =
     (if k = Asset_sheet then
        (case sheet_components cs of
           None \<Rightarrow> Inl Key_value_error
         | Some cs' \<Rightarrow> Inr \<lparr>key_kind = k, key_components = cs'\<rparr>)
      else bindE (components_valid k cs) (\<lambda>valid.
        if valid then Inr \<lparr>key_kind = k, key_components = cs\<rparr> else Inl Key_value_error))"

text \<open>A key as an instance holds it: made again from its fields it is itself.\<close>

definition valid_key :: "artifact_key \<Rightarrow> bool" where
  "valid_key key = (new_key (key_kind key) (key_components key) = Inr key)"

section \<open>The named constructors\<close>

definition check_episode_number :: "json \<Rightarrow> key_error + json" where
  "check_episode_number v = (if is_positive_int v then Inr v else Inl Key_value_error)"

definition check_non_empty :: "json \<Rightarrow> key_error + json" where
  "check_non_empty v = (if is_non_empty v then Inr v else Inl Key_value_error)"

definition check_rendition_variant :: "json \<Rightarrow> key_error + json" where
  "check_rendition_variant v =
     bindE (in_strings v rendition_variants) (\<lambda>b. if b then Inr v else Inl Key_value_error)"

definition asset_sheet_key :: "json \<Rightarrow> json \<Rightarrow> key_error + artifact_key" where
  "asset_sheet_key asset_type asset_id =
     bindE (in_strings asset_type asset_types) (\<lambda>b.
       if \<not> b then Inl Key_value_error
       else bindE (check_non_empty asset_id) (\<lambda>i. new_key Asset_sheet [asset_type, i]))"

definition script_plan_key :: "json \<Rightarrow> key_error + artifact_key" where
  "script_plan_key episode = bindE (check_episode_number episode) (\<lambda>e. new_key Episode_script_plan [e])"

definition script_key :: "json \<Rightarrow> key_error + artifact_key" where
  "script_key episode = bindE (check_episode_number episode) (\<lambda>e. new_key Episode_script [e])"

definition resource_key :: "artifact_kind \<Rightarrow> json \<Rightarrow> json \<Rightarrow> key_error + artifact_key" where
  "resource_key k episode resource =
     bindE (check_episode_number episode) (\<lambda>e. bindE (check_non_empty resource) (\<lambda>r. new_key k [e, r]))"

definition variant_key :: "artifact_kind \<Rightarrow> json \<Rightarrow> json \<Rightarrow> json \<Rightarrow> key_error + artifact_key" where
  "variant_key k episode resource variant =
     bindE (check_episode_number episode) (\<lambda>e. bindE (check_non_empty resource) (\<lambda>r.
       bindE (check_rendition_variant variant) (\<lambda>v. new_key k [e, r, v])))"

definition grid_key :: "json \<Rightarrow> json \<Rightarrow> key_error + artifact_key" where
  "grid_key = resource_key Episode_grid"

definition storyboard_key :: "json \<Rightarrow> json \<Rightarrow> key_error + artifact_key" where
  "storyboard_key = resource_key Episode_storyboard"

definition video_key :: "json \<Rightarrow> json \<Rightarrow> key_error + artifact_key" where
  "video_key = resource_key Episode_video"

definition audio_key :: "json \<Rightarrow> json \<Rightarrow> key_error + artifact_key" where
  "audio_key = resource_key Episode_audio"

definition subtitle_key :: "json \<Rightarrow> json \<Rightarrow> json \<Rightarrow> key_error + artifact_key" where
  "subtitle_key = variant_key Episode_subtitle"

definition presentation_key :: "json \<Rightarrow> json \<Rightarrow> json \<Rightarrow> key_error + artifact_key" where
  "presentation_key = variant_key Episode_presentation"

definition final_cut_key :: "json \<Rightarrow> json \<Rightarrow> json \<Rightarrow> json \<Rightarrow> key_error + artifact_key" where
  "final_cut_key episode timeline narration subtitles =
     bindE (check_episode_number episode) (\<lambda>e. new_key Episode_final_cut [e, timeline, narration, subtitles])"

definition jianying_draft_key :: "json \<Rightarrow> json \<Rightarrow> json \<Rightarrow> key_error + artifact_key" where
  "jianying_draft_key episode timeline narration =
     bindE (check_episode_number episode) (\<lambda>e. new_key Episode_jianying_draft [e, timeline, narration])"

definition project_bgm_key :: "json \<Rightarrow> key_error + artifact_key" where
  "project_bgm_key b = new_key Project_bgm [b]"

fun all_or_error :: "('e + 'a) list \<Rightarrow> 'e + 'a list" where
  "all_or_error [] = Inr []"
| "all_or_error (m # ms) = bindE m (\<lambda>x. bindE (all_or_error ms) (\<lambda>xs. Inr (x # xs)))"

definition episode_resource_artifacts :: "json \<Rightarrow> json \<Rightarrow> key_error + artifact_key list" where
  "episode_resource_artifacts e r =
     all_or_error
       [storyboard_key e r, video_key e r, audio_key e r,
        subtitle_key e r (JStr ''post_production''), subtitle_key e r (JStr ''use_tts''),
        presentation_key e r (JStr ''post_production''), presentation_key e r (JStr ''use_tts'')]"

definition episode_number :: "artifact_key \<Rightarrow> int option" where
  "episode_number key =
     (if key_kind key \<in> set project_level_artifact_kinds then None
      else case key_components key of JInt n # _ \<Rightarrow> Some n | _ \<Rightarrow> None)"

section \<open>The stored text of a key\<close>

definition key_prefix :: string where
  "key_prefix = ''artifact-key-v1:''"

definition encode_artifact_key_parts :: "string \<Rightarrow> json list \<Rightarrow> string" where
  "encode_artifact_key_parts kind components =
     key_prefix @ rstrip_pad (urlsafe_b64encode (utf8_encode (dumps_compact (JArr (JStr kind # components)))))"

definition decode_artifact_key_parts :: "string \<Rightarrow> (string \<times> json list) option" where
  "decode_artifact_key_parts v =
     (if \<not> starts_with key_prefix v then None
      else case b64decode_strict (with_padding (drop (length key_prefix) v)) of
             None \<Rightarrow> None
           | Some raw \<Rightarrow>
               (case utf8_decode raw of
                  None \<Rightarrow> None
                | Some text \<Rightarrow>
                    (case loads text of
                       Some (JArr (JStr kind # components)) \<Rightarrow> Some (kind, components)
                     | _ \<Rightarrow> None)))"

definition key_encode :: "artifact_key \<Rightarrow> string" where
  "key_encode key = encode_artifact_key_parts (kind_value (key_kind key)) (key_components key)"

definition key_from_parts :: "string \<Rightarrow> json list \<Rightarrow> key_error + artifact_key" where
  "key_from_parts kind parts =
     (case artifact_kind_of kind of
        None \<Rightarrow> Inl Key_value_error
      | Some k \<Rightarrow> new_key k parts)"

definition key_decode :: "string \<Rightarrow> key_error + artifact_key" where
  "key_decode v =
     (if \<not> starts_with key_prefix v then Inl Key_value_error
      else case decode_artifact_key_parts v of
             None \<Rightarrow> Inl Key_value_error
           | Some (kind, parts) \<Rightarrow>
               bindE (key_from_parts kind parts) (\<lambda>key.
                 if key_encode key \<noteq> v then Inl Key_value_error else Inr key))"

section \<open>Keys and their text\<close>

lemma artifact_kind_of_value [simp]: "artifact_kind_of (kind_value k) = Some k"
  by (cases k) (simp_all add: artifact_kind_of_def all_kinds_def)

lemma and_also_Inr_True [simp]: "and_also b m = Inr True \<longleftrightarrow> b \<and> m = Inr True"
  by (simp add: and_also_def)

lemma in_strings_True: "in_strings v S = Inr True \<longleftrightarrow> (\<exists>s. v = JStr s \<and> s \<in> set S)"
  by (cases v) auto

lemma dropWhile_hd: "dropWhile p s = [] \<or> \<not> p (hd (dropWhile p s))"
  using hd_dropWhile [of p s] by blast

lemma py_strip_idem [simp]: "py_strip (py_strip s) = py_strip s"
proof -
  let ?d = "dropWhile is_space s"
  let ?t = "dropWhile is_space (rev ?d)"
  have strip: "py_strip s = rev ?t" by (simp add: py_strip_def)
  have keep: "dropWhile is_space (rev ?t) = rev ?t"
  proof (cases "?t = []")
    case True
    show ?thesis unfolding True by simp
  next
    case False
    obtain p where p: "rev ?d = p @ ?t" using takeWhile_dropWhile_id [of is_space "rev ?d"] by metis
    then have "?d = rev ?t @ rev p" by (metis rev_append rev_rev_ident)
    then have "hd (rev ?t) = hd ?d" "?d \<noteq> []" using False by (metis hd_append2 rev_is_Nil_conv, metis append_is_Nil_conv rev_is_Nil_conv)
    then have "\<not> is_space (hd (rev ?t))" using dropWhile_hd [of is_space s] by metis
    then show ?thesis using False by (cases "rev ?t") auto
  qed
  show ?thesis by (simp add: strip py_strip_def [of "rev ?t"] keep)
qed

lemma sheet_components_stable: "sheet_components cs = Some cs' \<Longrightarrow> sheet_components cs' = Some cs'"
  by (induction cs rule: sheet_components.induct) (auto simp: asset_name_comparison_key_def split: if_splits)

text \<open>What the constructor returns is valid, and a valid key is one of the shapes of its kind.\<close>

lemma new_key_valid:
  assumes "new_key k cs = Inr key"
  shows "valid_key key"
proof (cases "k = Asset_sheet")
  case True
  then obtain cs' where cs': "sheet_components cs = Some cs'" "key = \<lparr>key_kind = k, key_components = cs'\<rparr>"
    using assms by (auto simp: new_key_def split: option.splits)
  then show ?thesis using True sheet_components_stable [OF cs'(1)] by (simp add: valid_key_def new_key_def)
next
  case False
  then have "components_valid k cs = Inr True" "key = \<lparr>key_kind = k, key_components = cs\<rparr>"
    using assms by (auto simp: new_key_def bindE_Inr_iff split: if_splits)
  then show ?thesis using False by (simp add: valid_key_def new_key_def)
qed

lemma new_key_kind: "new_key k cs = Inr key \<Longrightarrow> key_kind key = k"
  by (auto simp: new_key_def bindE_Inr_iff split: if_splits option.splits)

lemma starts_with_prefix [simp]: "starts_with p (p @ s)"
  by (simp add: starts_with_def)

text \<open>The wire form of parts reads back, for every kind and every JSON components.\<close>

lemma decode_parts_encode:
  "list_all json_ok cs \<Longrightarrow> decode_artifact_key_parts (encode_artifact_key_parts kind cs) = Some (kind, cs)"
  by (simp add: decode_artifact_key_parts_def encode_artifact_key_parts_def padding_back b64_round_trip
      utf8_round_trip loads_compact)

lemma key_decode_encode:
  assumes "valid_key key" "list_all json_ok (key_components key)"
  shows "key_decode (key_encode key) = Inr key"
proof -
  have "decode_artifact_key_parts (key_encode key) = Some (kind_value (key_kind key), key_components key)"
    using decode_parts_encode [OF assms(2)] by (simp add: key_encode_def)
  moreover have "starts_with key_prefix (key_encode key)"
    by (simp add: key_encode_def encode_artifact_key_parts_def)
  ultimately show ?thesis
    using assms(1) by (simp add: key_decode_def key_from_parts_def valid_key_def)
qed

lemma key_decode_canonical:
  assumes "key_decode v = Inr key"
  shows "key_encode key = v" "valid_key key"
  using assms
  by (auto simp: key_decode_def key_from_parts_def bindE_Inr_iff split: if_splits option.splits dest: new_key_valid)

lemma key_encode_inj:
  assumes "valid_key a" "valid_key b" "list_all json_ok (key_components a)" "list_all json_ok (key_components b)"
  shows "key_encode a = key_encode b \<longleftrightarrow> a = b"
  using key_decode_encode assms by (metis sum.inject(2))

end
