(* ===== verification/Manifest_Entries.thy ===== *)
theory Manifest_Entries
  imports Artifact_Key
begin

text \<open>
  The entries of the artifact manifest (\<open>lib/artifacts/artifact_manifest.py\<close>): the canonical form of a
  path, what a target state must satisfy before it is written, and the text of the file with its strict
  reading. A dict over encoded keys is an association list with distinct keys. Messages of errors are
  left out; the recursion limit of the interpreter is not modelled.
\<close>

datatype manifest_error =
    Manifest_error
  | Registration_error
  | Bad_value
  | Bad_type
  | Rollback_incomplete
  | Raised nat

text \<open>\<open>except ArtifactManifestError\<close>: a registration error is one of them.\<close>

fun is_manifest_error :: "manifest_error \<Rightarrow> bool" where
  "is_manifest_error Manifest_error = True"
| "is_manifest_error Registration_error = True"
| "is_manifest_error e = False"

section \<open>Paths and digests\<close>

fun split_char :: "char \<Rightarrow> string \<Rightarrow> string list" where
  "split_char c [] = [[]]"
| "split_char c (x # xs) =
     (if x = c then [] # split_char c xs
      else case split_char c xs of [] \<Rightarrow> [[x]] | p # ps \<Rightarrow> (x # p) # ps)"

definition rstrip_chars :: "string \<Rightarrow> string \<Rightarrow> string" where
  "rstrip_chars cs s = rev (dropWhile (\<lambda>c. c \<in> set cs) (rev s))"

definition manifest_filename :: string where
  "manifest_filename = ''.arcreel_artifacts.json''"

definition lock_filename :: string where
  "lock_filename = ''.artifact_manifest.lock''"

definition reserved_artifact_paths :: "string list" where
  "reserved_artifact_paths = [manifest_filename, lock_filename]"

text \<open>
  The tests of \<open>is_absolute\<close> and of drives are subsumed by those of the parts: an absolute path has an
  empty first part and a drive a colon. With such parts \<open>PurePosixPath(value).as_posix()\<close> is the value.
\<close>

definition bad_part :: "string \<Rightarrow> bool" where
  "bad_part p = (p \<in> {[], ''.'', ''..''} \<or> rstrip_chars '' .'' p \<noteq> p \<or> CHR '':'' \<in> set p)"

definition normalize_artifact_path :: "string \<Rightarrow> manifest_error + string" where
  "normalize_artifact_path v =
     (if v = [] \<or> char_of (0::nat) \<in> set v \<or> char_of (92::nat) \<in> set v then Inl Bad_value
      else if list_ex bad_part (split_char (CHR ''/'') v) then Inl Bad_value
      else if v \<in> set reserved_artifact_paths
             \<or> (length (split_char (CHR ''/'') v) = 1
                \<and> py_casefold (rstrip_chars '' .'' v) \<in> set (map py_casefold reserved_artifact_paths))
           then Inl Bad_value
      else Inr v)"

definition hash_algorithm :: string where
  "hash_algorithm = ''sha256-v1''"

definition is_content_digest :: "string \<Rightarrow> bool" where
  "is_content_digest s = (length s = 64 \<and> list_all is_lower_hex s)"

definition is_prefixed_digest :: "string \<Rightarrow> bool" where
  "is_prefixed_digest s = (starts_with ''sha256-v1:'' s \<and> is_content_digest (drop 10 s))"

section \<open>Entries\<close>

record manifest_entry =
  artifact_path :: string
  basis_digest :: string

type_synonym entries = "(string \<times> manifest_entry) list"

definition filesystem_identity :: "manifest_entry \<Rightarrow> string" where
  "filesystem_identity e = py_casefold (artifact_path e)"

fun check_owners :: "(string \<times> string) list \<Rightarrow> entries \<Rightarrow> manifest_error + unit" where
  "check_owners owners [] = Inr ()"
| "check_owners owners ((key, e) # es) =
     (case map_of owners (filesystem_identity e) of
        Some own \<Rightarrow>
          if own \<noteq> key then Inl Manifest_error
          else check_owners (AList.update (filesystem_identity e) key owners) es
      | None \<Rightarrow> check_owners (AList.update (filesystem_identity e) key owners) es)"

definition assert_unique_artifact_paths :: "entries \<Rightarrow> manifest_error + unit" where
  "assert_unique_artifact_paths es = check_owners [] es"

definition entry_ok :: "manifest_entry \<Rightarrow> bool" where
  "entry_ok e = (normalize_artifact_path (artifact_path e) = Inr (artifact_path e) \<and> is_prefixed_digest (basis_digest e))"

fun encode_targets :: "entries \<Rightarrow> (artifact_key \<times> manifest_entry) list \<Rightarrow> manifest_error + entries" where
  "encode_targets encoded [] = Inr encoded"
| "encode_targets encoded ((key, e) # es) =
     bindE (normalize_artifact_path (artifact_path e)) (\<lambda>p.
       if p \<noteq> artifact_path e then Inl Bad_value
       else if \<not> is_prefixed_digest (basis_digest e) then Inl Bad_value
       else if key_encode key \<in> fst ` set encoded then Inl Bad_value
       else encode_targets (encoded @ [(key_encode key, e)]) es)"

definition encode_target_entries :: "(artifact_key \<times> manifest_entry) list \<Rightarrow> manifest_error + entries" where
  "encode_target_entries es = encode_targets [] es"

definition present_entries :: "('k \<times> 'v option) list \<Rightarrow> ('k \<times> 'v) list" where
  "present_entries es = List.map_filter (\<lambda>(k, e). map_option (Pair k) e) es"

definition encode_optional_entries ::
    "(artifact_key \<times> manifest_entry option) list \<Rightarrow> manifest_error + (string \<times> manifest_entry option) list" where
  "encode_optional_entries es =
     bindE (encode_target_entries (present_entries es)) (\<lambda>encoded_present.
       Inr (fold (\<lambda>(k, e).
              AList.update (key_encode k) (if e = None then None else map_of encoded_present (key_encode k))) es []))"

section \<open>The text of the manifest\<close>

definition manifest_schema_version :: int where
  "manifest_schema_version = 1"

definition entry_json :: "manifest_entry \<Rightarrow> json" where
  "entry_json e = JObj [(''artifact_path'', JStr (artifact_path e)), (''basis_digest'', JStr (basis_digest e))]"

definition manifest_payload :: "entries \<Rightarrow> json" where
  "manifest_payload es =
     JObj [(''entries'', JObj (map (\<lambda>(k, e). (k, entry_json e)) (sort_key fst es))),
           (''hash_algorithm'', JStr hash_algorithm),
           (''schema_version'', JInt manifest_schema_version)]"

definition newline :: char where
  "newline = char_of (10::nat)"

definition serialize_manifest :: "entries \<Rightarrow> manifest_error + string" where
  "serialize_manifest es =
     bindE (assert_unique_artifact_paths es) (\<lambda>_.
       Inr (utf8_encode (dumps_indented (sort_keys (manifest_payload es))) @ [newline]))"

text \<open>\<open>_reject_duplicate_json_keys\<close> as the hook of every object.\<close>

fun no_duplicate_keys :: "json \<Rightarrow> bool" where
  "no_duplicate_keys (JArr xs) = list_all no_duplicate_keys xs"
| "no_duplicate_keys (JObj kvs) = (distinct (map fst kvs) \<and> list_all (\<lambda>(k, v). no_duplicate_keys v) kvs)"
| "no_duplicate_keys v = True"

definition same_names :: "string list \<Rightarrow> string list \<Rightarrow> bool" where
  "same_names xs ys = (list_all (\<lambda>x. x \<in> set ys) xs \<and> list_all (\<lambda>y. y \<in> set xs) ys)"

text \<open>\<open>ArtifactKey.decode(encoded_key)\<close> where \<open>ValueError\<close> becomes a manifest error: a \<open>TypeError\<close> passes.\<close>

definition check_encoded_key :: "string \<Rightarrow> manifest_error + artifact_key" where
  "check_encoded_key k =
     (case key_decode k of
        Inl Key_value_error \<Rightarrow> Inl Manifest_error
      | Inl Key_type_error \<Rightarrow> Inl Bad_type
      | Inr key \<Rightarrow> Inr key)"

fun parse_entry :: "json \<Rightarrow> manifest_error + manifest_entry" where
  "parse_entry (JObj kvs) =
     (if \<not> same_names (map fst kvs) [''artifact_path'', ''basis_digest''] then Inl Manifest_error
      else case (map_of kvs ''artifact_path'', map_of kvs ''basis_digest'') of
             (Some (JStr p), d) \<Rightarrow>
               (case normalize_artifact_path p of
                  Inl e \<Rightarrow> Inl Manifest_error
                | Inr q \<Rightarrow>
                    if q \<noteq> p then Inl Manifest_error
                    else (case d of
                            Some (JStr b) \<Rightarrow>
                              if is_prefixed_digest b then Inr \<lparr>artifact_path = q, basis_digest = b\<rparr>
                              else Inl Manifest_error
                          | _ \<Rightarrow> Inl Manifest_error))
           | _ \<Rightarrow> Inl Manifest_error)"
| "parse_entry v = Inl Manifest_error"

fun parse_entries :: "(string \<times> json) list \<Rightarrow> manifest_error + entries" where
  "parse_entries [] = Inr []"
| "parse_entries ((k, v) # kvs) =
     bindE (check_encoded_key k) (\<lambda>_.
     bindE (parse_entry v) (\<lambda>e.
     bindE (parse_entries kvs) (\<lambda>es. Inr ((k, e) # es))))"

definition parse_payload :: "bool \<Rightarrow> json \<Rightarrow> manifest_error + entries" where
  "parse_payload validate_path_ownership v =
     (case v of
        JObj payload \<Rightarrow>
          if \<not> same_names (map fst payload) [''entries'', ''hash_algorithm'', ''schema_version''] then Inl Manifest_error
          else if map_of payload ''schema_version'' \<noteq> Some (JInt manifest_schema_version) then Inl Manifest_error
          else if map_of payload ''hash_algorithm'' \<noteq> Some (JStr hash_algorithm) then Inl Manifest_error
          else (case map_of payload ''entries'' of
                  Some (JObj raw_entries) \<Rightarrow>
                    bindE (parse_entries raw_entries) (\<lambda>es.
                      if validate_path_ownership then bindE (assert_unique_artifact_paths es) (\<lambda>_. Inr es)
                      else Inr es)
                | _ \<Rightarrow> Inl Manifest_error)
      | _ \<Rightarrow> Inl Manifest_error)"

definition parse_manifest :: "bool \<Rightarrow> string \<Rightarrow> manifest_error + entries" where
  "parse_manifest validate_path_ownership raw =
     (case utf8_decode raw of
        None \<Rightarrow> Inl Manifest_error
      | Some text \<Rightarrow>
          (case loads_pairs text of
             None \<Rightarrow> Inl Manifest_error
           | Some v \<Rightarrow>
               if \<not> no_duplicate_keys v then Inl Manifest_error
               else parse_payload validate_path_ownership v))"

section \<open>What the checks establish\<close>

definition unique_paths :: "entries \<Rightarrow> bool" where
  "unique_paths es = distinct (map (filesystem_identity \<circ> snd) es)"

lemma check_owners_iff:
  assumes "distinct (map fst es)" "snd ` set owners \<inter> fst ` set es = {}" "distinct (map fst owners)"
  shows "check_owners owners es = Inr () \<longleftrightarrow>
     unique_paths es \<and> fst ` set owners \<inter> (filesystem_identity \<circ> snd) ` set es = {}"
  using assms
proof (induction es arbitrary: owners)
  case Nil
  then show ?case by (simp add: unique_paths_def)
next
  case (Cons kv es)
  obtain k e where kv: "kv = (k, e)" by (cases kv)
  show ?case
  proof (cases "map_of owners (filesystem_identity e)")
    case None
    then have n: "filesystem_identity e \<notin> fst ` set owners" by (simp add: map_of_eq_None_iff)
    then have u: "AList.update (filesystem_identity e) k owners = owners @ [(filesystem_identity e, k)]"
      by (induction owners) auto
    have "check_owners (owners @ [(filesystem_identity e, k)]) es = Inr () \<longleftrightarrow>
       unique_paths es \<and> fst ` set (owners @ [(filesystem_identity e, k)]) \<inter> (filesystem_identity \<circ> snd) ` set es = {}"
      using Cons.prems kv n by (intro Cons.IH) auto
    then show ?thesis using None n kv by (auto simp: u unique_paths_def)
  next
    case (Some own)
    then have m: "(filesystem_identity e, own) \<in> set owners" by (rule map_of_SomeD)
    then have "own \<noteq> k" using Cons.prems(2) kv by force
    moreover have "filesystem_identity e \<in> fst ` set owners" using m by force
    ultimately show ?thesis using Some kv by auto
  qed
qed

lemma assert_unique_iff:
  "distinct (map fst es) \<Longrightarrow> assert_unique_artifact_paths es = Inr () \<longleftrightarrow> unique_paths es"
  by (simp add: assert_unique_artifact_paths_def check_owners_iff)

lemma check_owners_error: "check_owners owners es = Inl e \<Longrightarrow> e = Manifest_error"
  by (induction owners es rule: check_owners.induct) (auto split: option.splits if_splits)

text \<open>A well-formed manifest: what a strict reading accepts.\<close>

definition stored_key :: "string \<Rightarrow> bool" where
  "stored_key k = (\<exists>key. key_decode k = Inr key)"

definition manifest_ok :: "entries \<Rightarrow> bool" where
  "manifest_ok es =
     (distinct (map fst es) \<and> unique_paths es \<and> (\<forall>(k, e)\<in>set es. stored_key k \<and> entry_ok e))"

text \<open>Read as a map, a path has one owner at most.\<close>

definition owned_once :: "(string \<rightharpoonup> manifest_entry) \<Rightarrow> bool" where
  "owned_once m = (\<forall>k l d e. m k = Some d \<longrightarrow> m l = Some e \<longrightarrow> filesystem_identity d = filesystem_identity e \<longrightarrow> k = l)"

lemma unique_paths_iff:
  assumes "distinct (map fst es)"
  shows "unique_paths es \<longleftrightarrow> owned_once (map_of es)"
proof -
  have inj: "unique_paths es \<longleftrightarrow> inj_on (filesystem_identity \<circ> snd) (set es)"
    using assms by (simp add: unique_paths_def distinct_map distinct_map [of fst])
  have mem: "map_of es k = Some e \<longleftrightarrow> (k, e) \<in> set es" for k e
    using assms by (simp add: map_of_eq_Some_iff)
  show ?thesis
  proof
    assume "unique_paths es"
    then show "owned_once (map_of es)" unfolding inj owned_once_def mem inj_on_def by fastforce
  next
    assume o: "owned_once (map_of es)"
    show "unique_paths es"
      unfolding inj
    proof (rule inj_onI)
      fix x y assume x: "x \<in> set es" and y: "y \<in> set es" and f: "(filesystem_identity \<circ> snd) x = (filesystem_identity \<circ> snd) y"
      have mx: "map_of es (fst x) = Some (snd x)" and my: "map_of es (fst y) = Some (snd y)" using x y mem by simp_all
      then have "fst x = fst y" using o f unfolding owned_once_def by auto
      then show "x = y" using mx my by (simp add: prod_eq_iff)
    qed
  qed
qed

section \<open>The file reads back\<close>

lemma utf8_encode_append: "utf8_encode (s @ t) = utf8_encode s @ utf8_encode t"
  by (simp add: utf8_encode_def)

lemma utf8_newline: "utf8_encode [newline] = [newline]"
  by (simp add: utf8_encode_def utf8_char_def newline_def)

lemma sort_key_same: "sorted (map f xs) \<Longrightarrow> sort_key f xs = xs"
  by (simp add: sorted_sort_id sort_key_id_if_sorted)

lemma sort_keys_entry: "sort_keys (entry_json e) = entry_json e"
  by (simp add: entry_json_def sort_key_def insort_key_def)

lemma fst_entry_json: "fst \<circ> (\<lambda>(k, e). (k, entry_json e)) = fst"
  by auto

lemma map_entries_sorted:
  "sort_key fst (map (\<lambda>(k, v). (k, sort_keys v)) (map (\<lambda>(k, e). (k, entry_json e)) (sort_key fst es)))
   = map (\<lambda>(k, e). (k, entry_json e)) (sort_key fst es)"
proof -
  have m: "map (\<lambda>(k, v). (k, sort_keys v)) (map (\<lambda>(k, e). (k, entry_json e)) xs) = map (\<lambda>(k, e). (k, entry_json e)) xs" for xs
    by (induction xs) (auto simp: sort_keys_entry)
  show ?thesis unfolding m by (rule sort_key_same) (simp add: fst_entry_json)
qed

lemma sort_keys_payload: "sort_keys (manifest_payload es) = manifest_payload es"
  using map_entries_sorted [of es] by (simp add: manifest_payload_def)

lemma payload_ok: "distinct (map fst es) \<Longrightarrow> json_ok (manifest_payload es) \<and> no_duplicate_keys (manifest_payload es)"
proof -
  assume d: "distinct (map fst es)"
  have s: "distinct (map fst (sort_key fst es))" using d by (metis distinct_map distinct_sort set_sort)
  have a: "list_all (\<lambda>(k, v). json_ok v) (map (\<lambda>(k, e). (k, entry_json e)) xs)"
    "list_all (\<lambda>(k, v). no_duplicate_keys v) (map (\<lambda>(k, e). (k, entry_json e)) xs)" for xs
    by (induction xs) (auto simp: entry_json_def)
  have "json_ok (JInt manifest_schema_version)"
    by (simp add: manifest_schema_version_def max_int_digits_def str_nat.simps)
  then show ?thesis using s by (simp add: manifest_payload_def fst_entry_json a del: list.pred_map)
qed

lemma parse_entry_json: "entry_ok e \<Longrightarrow> parse_entry (entry_json e) = Inr e"
  by (simp add: entry_json_def same_names_def entry_ok_def)

lemma stored_key_check: "stored_key k \<Longrightarrow> \<exists>key. check_encoded_key k = Inr key"
  by (auto simp: stored_key_def check_encoded_key_def)

lemma parse_entries_map:
  "\<forall>(k, e)\<in>set es. stored_key k \<and> entry_ok e \<Longrightarrow> parse_entries (map (\<lambda>(k, e). (k, entry_json e)) es) = Inr es"
proof (induction es)
  case Nil
  then show ?case by simp
next
  case (Cons kv es)
  obtain k e where kv: "kv = (k, e)" by (cases kv)
  then have "stored_key k" "entry_ok e" using Cons.prems by auto
  moreover obtain key where "check_encoded_key k = Inr key" using stored_key_check [OF calculation(1)] by blast
  ultimately show ?case using Cons kv by (simp add: parse_entry_json)
qed

lemma manifest_ok_sort: "manifest_ok es \<Longrightarrow> manifest_ok (sort_key fst es)"
proof -
  assume ok: "manifest_ok es"
  then have d: "distinct (map fst es)" by (simp add: manifest_ok_def)
  have s: "distinct (map fst (sort_key fst es))" using d by (metis distinct_map distinct_sort set_sort)
  have "map_of (sort_key fst es) = map_of es" using map_of_sort_key_fst [OF d] by (rule ext)
  then have "unique_paths (sort_key fst es)"
    using unique_paths_iff [OF d] unique_paths_iff [OF s] ok by (simp add: manifest_ok_def)
  then show ?thesis using s ok by (simp add: manifest_ok_def)
qed

lemma serialize_ok: "manifest_ok es \<Longrightarrow>
    serialize_manifest es = Inr (utf8_encode (dumps_indented (manifest_payload es)) @ [newline])"
proof -
  assume "manifest_ok es"
  then have "assert_unique_artifact_paths es = Inr ()" by (simp add: assert_unique_iff manifest_ok_def)
  then show ?thesis by (simp add: serialize_manifest_def sort_keys_payload)
qed

lemma parse_serialize:
  assumes ok: "manifest_ok es" and raw: "serialize_manifest es = Inr raw"
  shows "parse_manifest b raw = Inr (sort_key fst es)"
proof -
  have d: "distinct (map fst es)" using ok by (simp add: manifest_ok_def)
  have "raw = utf8_encode (dumps_indented (manifest_payload es) @ [newline])"
    using raw serialize_ok [OF ok] by (simp add: utf8_encode_append utf8_newline)
  then have t: "utf8_decode raw = Some (dumps_indented (manifest_payload es) @ [newline])" by (simp add: utf8_round_trip)
  have l: "loads_pairs (dumps_indented (manifest_payload es) @ [newline]) = Some (manifest_payload es)"
    using payload_ok [OF d] by (intro loads_pairs_indented) (simp_all add: is_json_ws_def newline_def)
  have sorted_ok: "manifest_ok (sort_key fst es)" by (rule manifest_ok_sort [OF ok])
  then have p: "parse_entries (map (\<lambda>(k, e). (k, entry_json e)) (sort_key fst es)) = Inr (sort_key fst es)"
    by (intro parse_entries_map) (simp add: manifest_ok_def)
  have u: "assert_unique_artifact_paths (sort_key fst es) = Inr ()"
    using sorted_ok by (simp add: manifest_ok_def assert_unique_iff)
  have "parse_payload b (manifest_payload es) = Inr (sort_key fst es)"
    using p u by (simp add: parse_payload_def manifest_payload_def same_names_def)
  then show ?thesis using t l payload_ok [OF d] by (simp add: parse_manifest_def)
qed

text \<open>What a strict reading returns is well formed.\<close>

lemma parse_entry_ok: "parse_entry v = Inr e \<Longrightarrow> entry_ok e"
  by (induction v rule: parse_entry.induct)
    (auto simp: entry_ok_def split: if_splits option.splits json.splits sum.splits)

lemma parse_entries_ok:
  "parse_entries kvs = Inr es \<Longrightarrow> map fst es = map fst kvs \<and> (\<forall>(k, e)\<in>set es. stored_key k \<and> entry_ok e)"
proof (induction kvs arbitrary: es)
  case Nil
  then show ?case by simp
next
  case (Cons kv kvs)
  obtain k v where kv: "kv = (k, v)" by (cases kv)
  from Cons.prems obtain key e es' where c: "check_encoded_key k = Inr key" and e: "parse_entry v = Inr e"
    and r: "parse_entries kvs = Inr es'" and es: "es = (k, e) # es'"
    unfolding kv by (auto simp: bindE_Inr_iff)
  have "stored_key k" using c by (auto simp: stored_key_def check_encoded_key_def split: sum.splits key_error.splits)
  then show ?case using Cons.IH [OF r] parse_entry_ok [OF e] by (simp add: es kv)
qed

lemma parse_manifest_ok:
  assumes "parse_manifest True raw = Inr es"
  shows "manifest_ok es"
proof -
  from assms obtain t v where v: "loads_pairs t = Some v" "no_duplicate_keys v" "parse_payload True v = Inr es"
    by (auto simp: parse_manifest_def split: option.splits if_splits)
  then obtain payload kvs where f: "v = JObj payload" "map_of payload ''entries'' = Some (JObj kvs)"
    and p: "parse_entries kvs = Inr es" and u: "assert_unique_artifact_paths es = Inr ()"
    by (auto simp: parse_payload_def bindE_Inr_iff split: json.splits if_splits option.splits)
  have "no_duplicate_keys (JObj kvs)"
    using v(2) f map_of_SomeD [OF f(2)] by (fastforce simp: list_all_iff)
  then have d: "distinct (map fst es)" using parse_entries_ok [OF p] by simp
  then show ?thesis using parse_entries_ok [OF p] u by (simp add: manifest_ok_def assert_unique_iff)
qed

end
