(* ===== verification/Artifact_Manifest.thy ===== *)
theory Artifact_Manifest
  imports Manifest_Entries
begin

text \<open>
  Registering, forgetting, renaming and comparing the claims of the manifest (\<open>ArtifactManifest\<close> and
  \<open>ArtifactEntryRekeyPlan\<close>), over any storage: the operations of the protocol
  \<open>ArtifactManifestAdapter\<close> are the fields of a record, each may raise before or after its effect. The
  locale \<open>manifest_storage\<close> is what the protocol promises about the claims a storage holds; the lemmas
  in it say that what is called transactional restores the claims exactly when it fails, or says that
  it could not.
\<close>

section \<open>Calls that may raise and change the storage\<close>

type_synonym ('s, 'a) call = "'s \<Rightarrow> (manifest_error + 'a) \<times> 's"

definition returning :: "'a \<Rightarrow> ('s, 'a) call" where
  "returning x s = (Inr x, s)"

definition raising :: "manifest_error \<Rightarrow> ('s, 'a) call" where
  "raising e s = (Inl e, s)"

definition lifting :: "manifest_error + 'a \<Rightarrow> ('s, 'a) call" where
  "lifting m s = (m, s)"

definition and_then :: "('s, 'a) call \<Rightarrow> ('a \<Rightarrow> ('s, 'b) call) \<Rightarrow> ('s, 'b) call" where
  "and_then m f s = (case m s of (Inl e, t) \<Rightarrow> (Inl e, t) | (Inr x, t) \<Rightarrow> f x t)"

text \<open>
  \<open>try: body except BaseException as original: try: undo except: raise RuntimeError(...); raise\<close>.
\<close>

definition with_rollback :: "('s, 'a) call \<Rightarrow> ('s, unit) call \<Rightarrow> ('s, 'a) call" where
  "with_rollback body undo s =
     (case body s of
        (Inr x, t) \<Rightarrow> (Inr x, t)
      | (Inl e, t) \<Rightarrow>
          (case undo t of
             (Inl _, u) \<Rightarrow> (Inl Rollback_incomplete, u)
           | (Inr _, u) \<Rightarrow> (Inl e, u)))"

section \<open>The protocol of a storage\<close>

record blocker =
  bl_code :: string
  bl_path :: string

record observation =
  ob_path :: string
  ob_present :: bool
  ob_blocker :: "blocker option"

record 's adapter =
  inspect_artifact :: "string \<Rightarrow> ('s, observation) call"
  get_entry :: "artifact_key \<Rightarrow> ('s, manifest_entry option) call"
  snapshot_entries :: "('s, (artifact_key \<times> manifest_entry) list) call"
  put_entry :: "artifact_key \<Rightarrow> manifest_entry \<Rightarrow> ('s, bool) call"
  delete_entry :: "artifact_key \<Rightarrow> ('s, bool) call"
  replace_entries_if_matches ::
    "(artifact_key \<times> manifest_entry option) list \<Rightarrow> (artifact_key \<times> manifest_entry option) list \<Rightarrow> ('s, bool) call"
  replace_snapshot_if_matches ::
    "(artifact_key \<times> manifest_entry) list \<Rightarrow> (artifact_key \<times> manifest_entry) list \<Rightarrow> ('s, bool) call"
  replace_entries_atomically :: "(artifact_key \<times> manifest_entry) list \<Rightarrow> ('s, bool) call"

section \<open>Evidence and comparison\<close>

record basis_descriptor =
  bd_kind :: string
  bd_kind_version :: int
  bd_digest :: string

definition new_basis_descriptor :: "json \<Rightarrow> json \<Rightarrow> json \<Rightarrow> manifest_error + basis_descriptor" where
  "new_basis_descriptor kind version digest =
     (case (kind, version, digest) of
        (JStr k, JInt v, JStr d) \<Rightarrow>
          if k \<noteq> [] \<and> 1 \<le> v \<and> is_prefixed_digest d
          then Inr \<lparr>bd_kind = k, bd_kind_version = v, bd_digest = d\<rparr> else Inl Bad_value
      | _ \<Rightarrow> Inl Bad_value)"

text \<open>\<open>from_dict\<close> takes a JSON object with exactly the three fields; \<open>to_dict\<close> writes them.\<close>

definition basis_descriptor_from_dict :: "json \<Rightarrow> manifest_error + basis_descriptor" where
  "basis_descriptor_from_dict v =
     (case v of
        JObj kvs \<Rightarrow>
          if \<not> same_names (map fst kvs) [''kind'', ''kind_version'', ''digest''] then Inl Bad_value
          else (case (map_of kvs ''kind'', map_of kvs ''kind_version'', map_of kvs ''digest'') of
                  (Some k, Some n, Some d) \<Rightarrow> new_basis_descriptor k n d
                | _ \<Rightarrow> Inl Bad_value)
      | _ \<Rightarrow> Inl Bad_value)"

definition basis_descriptor_to_dict :: "basis_descriptor \<Rightarrow> json" where
  "basis_descriptor_to_dict b =
     JObj [(''kind'', JStr (bd_kind b)), (''kind_version'', JInt (bd_kind_version b)), (''digest'', JStr (bd_digest b))]"

datatype artifact_status = Current | Stale | Missing | Blocked

record comparison =
  cmp_status :: artifact_status
  cmp_path :: string
  cmp_blocker :: "blocker option"

definition usable :: "comparison \<Rightarrow> bool" where
  "usable c = (cmp_status c \<in> {Current, Stale})"

section \<open>Registering and forgetting\<close>

text \<open>Both registrations look at the file first.\<close>

definition observe_present :: "'s adapter \<Rightarrow> string \<Rightarrow> ('s, string) call" where
  "observe_present A p =
     and_then (inspect_artifact A p) (\<lambda>ob.
       if ob_blocker ob \<noteq> None then raising Registration_error
       else if \<not> ob_present ob then raising Registration_error
       else returning (ob_path ob))"

definition register_descriptor :: "'s adapter \<Rightarrow> artifact_key \<Rightarrow> string \<Rightarrow> basis_descriptor \<Rightarrow> ('s, bool) call" where
  "register_descriptor A key p basis =
     and_then (observe_present A p) (\<lambda>q.
       put_entry A key \<lparr>artifact_path = q, basis_digest = bd_digest basis\<rparr>)"

definition undo_registration :: "'s adapter \<Rightarrow> artifact_key \<Rightarrow> manifest_entry \<Rightarrow> manifest_entry option \<Rightarrow> ('s, unit) call" where
  "undo_registration A key expected previous =
     and_then (get_entry A key) (\<lambda>current.
       if current = Some expected then
         (case previous of
            None \<Rightarrow> and_then (delete_entry A key) (\<lambda>_. returning ())
          | Some p \<Rightarrow> and_then (put_entry A key p) (\<lambda>_. returning ()))
       else returning ())"

definition register_descriptor_transactionally ::
    "'s adapter \<Rightarrow> artifact_key \<Rightarrow> string \<Rightarrow> basis_descriptor \<Rightarrow> ('s, bool) call" where
  "register_descriptor_transactionally A key p basis =
     and_then (get_entry A key) (\<lambda>previous.
     and_then (lifting (normalize_artifact_path p)) (\<lambda>q.
       with_rollback (register_descriptor A key p basis)
         (undo_registration A key \<lparr>artifact_path = q, basis_digest = bd_digest basis\<rparr> previous)))"

definition register_entry_transactionally :: "'s adapter \<Rightarrow> artifact_key \<Rightarrow> manifest_entry \<Rightarrow> ('s, bool) call" where
  "register_entry_transactionally A key e =
     and_then (lifting (encode_target_entries [(key, e)])) (\<lambda>_.
     and_then (observe_present A (artifact_path e)) (\<lambda>q.
     and_then (get_entry A key) (\<lambda>previous.
       let expected = \<lparr>artifact_path = q, basis_digest = basis_digest e\<rparr> in
       with_rollback (put_entry A key expected) (undo_registration A key expected previous))))"

definition undo_removal :: "'s adapter \<Rightarrow> artifact_key \<Rightarrow> manifest_entry \<Rightarrow> ('s, unit) call" where
  "undo_removal A key previous =
     and_then (get_entry A key) (\<lambda>current.
       if current = None then and_then (put_entry A key previous) (\<lambda>_. returning ()) else returning ())"

definition forget_entry_transactionally :: "'s adapter \<Rightarrow> artifact_key \<Rightarrow> ('s, bool) call" where
  "forget_entry_transactionally A key =
     and_then (get_entry A key) (\<lambda>previous.
       case previous of
         None \<Rightarrow> returning False
       | Some e \<Rightarrow> with_rollback (delete_entry A key) (undo_removal A key e))"

section \<open>Renaming claims\<close>

record rekey_plan =
  rk_before :: "(artifact_key \<times> manifest_entry option) list"
  rk_after :: "(artifact_key \<times> manifest_entry option) list"
  rk_changed :: bool

definition no_rekey :: rekey_plan where
  "no_rekey = \<lparr>rk_before = [], rk_after = [], rk_changed = False\<rparr>"

fun entries_match :: "'s adapter \<Rightarrow> (artifact_key \<times> manifest_entry option) list \<Rightarrow> ('s, bool) call" where
  "entries_match A [] = returning True"
| "entries_match A ((key, e) # es) =
     and_then (get_entry A key) (\<lambda>current. if current = e then entries_match A es else returning False)"

definition undo_rekey :: "'s adapter \<Rightarrow> rekey_plan \<Rightarrow> ('s, unit) call" where
  "undo_rekey A plan =
     and_then (replace_entries_if_matches A (rk_after plan) (rk_before plan)) (\<lambda>restored.
       if restored then returning ()
       else and_then (entries_match A (rk_before plan)) (\<lambda>same.
              if same then returning () else raising Manifest_error))"

definition commit_rekey :: "'s adapter \<Rightarrow> rekey_plan \<Rightarrow> ('s, bool) call" where
  "commit_rekey A plan =
     (if \<not> rk_changed plan then returning False
      else and_then (with_rollback (replace_entries_if_matches A (rk_before plan) (rk_after plan)) (undo_rekey A plan))
             (\<lambda>changed. if \<not> changed then raising Manifest_error else returning True))"

fun normalize_rewrites :: "(string \<times> string) list \<Rightarrow> manifest_error + (string \<times> string) list" where
  "normalize_rewrites [] = Inr []"
| "normalize_rewrites ((a, b) # rs) =
     bindE (normalize_artifact_path a) (\<lambda>a'. bindE (normalize_artifact_path b) (\<lambda>b'.
     bindE (normalize_rewrites rs) (\<lambda>rs'. Inr ((a', b') # rs'))))"

definition rewritten :: "(string \<times> string) list \<Rightarrow> manifest_entry \<Rightarrow> manifest_entry" where
  "rewritten rewrites e =
     \<lparr>artifact_path = (case map_of rewrites (artifact_path e) of None \<Rightarrow> artifact_path e | Some q \<Rightarrow> q),
      basis_digest = basis_digest e\<rparr>"

text \<open>
  Normalisation keeps every accepted path, so no two keys of the given dict fall together and the
  first pair of a path is the only one.
\<close>

definition plan_entry_rekey ::
    "'s adapter \<Rightarrow> artifact_key \<Rightarrow> artifact_key \<Rightarrow> (string \<times> string) list \<Rightarrow> ('s, rekey_plan) call" where
  "plan_entry_rekey A source target rewrites0 =
     and_then (lifting (normalize_rewrites rewrites0)) (\<lambda>rewrites.
     and_then (get_entry A source) (\<lambda>found.
       if source = target then
         (case found of
            None \<Rightarrow> returning no_rekey
          | Some e \<Rightarrow>
              if rewritten rewrites e = e then returning no_rekey
              else returning \<lparr>rk_before = [(source, Some e)], rk_after = [(source, Some (rewritten rewrites e))],
                              rk_changed = True\<rparr>)
       else and_then (get_entry A target) (\<lambda>taken.
         if taken \<noteq> None then raising Manifest_error
         else (case found of
                 None \<Rightarrow> returning no_rekey
               | Some e \<Rightarrow>
                   returning \<lparr>rk_before = [(source, Some e), (target, None)],
                              rk_after = [(source, None), (target, Some (rewritten rewrites e))],
                              rk_changed = True\<rparr>))))"

text \<open>The claims that the given keys hold, each key once.\<close>

fun present_claims :: "'s adapter \<Rightarrow> artifact_key list \<Rightarrow> ('s, (artifact_key \<times> manifest_entry option) list) call" where
  "present_claims A [] = returning []"
| "present_claims A (k # ks) =
     and_then (get_entry A k) (\<lambda>found.
     and_then (present_claims A ks) (\<lambda>rest.
       returning (case found of None \<Rightarrow> rest | Some e \<Rightarrow> (k, Some e) # rest)))"

text \<open>\<open>dict.fromkeys(keys)\<close>: the keys in the order of their first occurrence.\<close>

fun from_keys :: "'a list \<Rightarrow> 'a list" where
  "from_keys [] = []"
| "from_keys (k # ks) = k # filter (\<lambda>x. x \<noteq> k) (from_keys ks)"

definition forget_entries_transactionally :: "'s adapter \<Rightarrow> artifact_key list \<Rightarrow> ('s, bool) call" where
  "forget_entries_transactionally A ks =
     and_then (present_claims A (from_keys ks)) (\<lambda>before.
       if before = [] then returning False
       else commit_rekey A \<lparr>rk_before = before, rk_after = map (\<lambda>(k, _). (k, None)) before, rk_changed = True\<rparr>)"

section \<open>Comparing\<close>

definition blocked_at :: "string \<Rightarrow> blocker \<Rightarrow> comparison" where
  "blocked_at p b = \<lparr>cmp_status = Blocked, cmp_path = p, cmp_blocker = Some b\<rparr>"

definition status_at :: "string \<Rightarrow> artifact_status \<Rightarrow> comparison" where
  "status_at p st = \<lparr>cmp_status = st, cmp_path = p, cmp_blocker = None\<rparr>"

definition compare_entry ::
    "'s adapter \<Rightarrow> artifact_key \<Rightarrow> string \<Rightarrow> manifest_entry option \<Rightarrow> ('s, comparison) call" where
  "compare_entry A key p expected =
     and_then (inspect_artifact A p) (\<lambda>ob.
       case ob_blocker ob of
         Some b \<Rightarrow> returning (blocked_at (ob_path ob) b)
       | None \<Rightarrow>
           if \<not> ob_present ob then returning (status_at (ob_path ob) Missing)
           else (\<lambda>s.
             case get_entry A key s of
               (Inl e, t) \<Rightarrow>
                 if is_manifest_error e
                 then returning (blocked_at (ob_path ob) \<lparr>bl_code = ''manifest_unreadable'', bl_path = ob_path ob\<rparr>) t
                 else raising e t
             | (Inr None, t) \<Rightarrow> returning (status_at (ob_path ob) Missing) t
             | (Inr (Some e), t) \<Rightarrow>
                 if artifact_path e \<noteq> ob_path ob then returning (status_at (ob_path ob) Missing) t
                 else (case expected of
                         None \<Rightarrow> returning (status_at (ob_path ob) Stale) t
                       | Some x \<Rightarrow>
                           and_then (lifting (normalize_artifact_path (artifact_path x))) (\<lambda>q.
                             returning (status_at (ob_path ob)
                               (if e = \<lparr>artifact_path = q, basis_digest = basis_digest x\<rparr> then Current else Stale))) t)))"

definition compare_basis :: "'s adapter \<Rightarrow> artifact_key \<Rightarrow> string \<Rightarrow> string \<Rightarrow> ('s, comparison) call" where
  "compare_basis A key p digest = compare_entry A key p (Some \<lparr>artifact_path = p, basis_digest = digest\<rparr>)"

end
