(* ===== verification/Manifest_Contract.thy ===== *)
theory Manifest_Contract
  imports Artifact_Manifest
begin

text \<open>
  The contract of a manifest storage, and what the domain operations make of it. A storage shows the
  claims it holds as a map from encoded keys; every operation either has its whole effect on this map
  or none, also where it raises.
\<close>

definition key_ok :: "artifact_key \<Rightarrow> bool" where
  "key_ok key = (valid_key key \<and> list_all json_ok (key_components key))"

lemma key_encode_eq: "key_ok a \<Longrightarrow> key_ok b \<Longrightarrow> key_encode a = key_encode b \<longleftrightarrow> a = b"
  unfolding key_ok_def using key_encode_inj by blast

lemma stored_key_encode: "key_ok key \<Longrightarrow> stored_key (key_encode key)"
  using key_decode_encode by (auto simp: key_ok_def stored_key_def)

type_synonym claims = "string \<rightharpoonup> manifest_entry"

definition matches :: "(artifact_key \<times> manifest_entry option) list \<Rightarrow> claims \<Rightarrow> bool" where
  "matches xs m = list_all (\<lambda>(k, e). m (key_encode k) = e) xs"

definition write_claims :: "(artifact_key \<times> manifest_entry option) list \<Rightarrow> claims \<Rightarrow> claims" where
  "write_claims xs m = fold (\<lambda>(k, e) m. m(key_encode k := e)) xs m"

text \<open>The keys of a dict of claims.\<close>

definition claims_dict :: "(artifact_key \<times> 'a) list \<Rightarrow> bool" where
  "claims_dict xs = (distinct (map fst xs) \<and> list_all key_ok (map fst xs))"

lemma claims_dict_codes:
  assumes "claims_dict xs"
  shows "distinct (map (key_encode \<circ> fst) xs)"
proof -
  have "inj_on key_encode (fst ` set xs)"
    using assms key_encode_eq by (auto simp: claims_dict_def list_all_iff inj_on_def)
  then show ?thesis using assms by (simp add: claims_dict_def distinct_map comp_inj_on)
qed

lemma encode_targets_result:
  "encode_targets acc xs = Inr es \<Longrightarrow>
     es = acc @ map (\<lambda>(k, e). (key_encode k, e)) xs \<and> list_all (\<lambda>(_, e). entry_ok e) xs
     \<and> (distinct (map fst acc) \<longrightarrow> distinct (map fst es))"
proof (induction acc xs rule: encode_targets.induct)
  case (2 acc key e xs)
  from "2.prems" obtain p where n: "normalize_artifact_path (artifact_path e) = Inr p" "p = artifact_path e"
    and d: "is_prefixed_digest (basis_digest e)" and f: "key_encode key \<notin> fst ` set acc"
    and r: "encode_targets (acc @ [(key_encode key, e)]) xs = Inr es"
    by (auto simp: bindE_Inr_iff split: if_splits)
  have "\<not> p \<noteq> artifact_path e" "\<not> \<not> is_prefixed_digest (basis_digest e)" "\<not> key_encode key \<in> fst ` set acc"
    using n d f by simp_all
  note IH = "2.IH" [OF n(1) this r]
  show ?case
  proof (intro conjI impI)
    show "es = acc @ map (\<lambda>(k, e). (key_encode k, e)) ((key, e) # xs)" using IH by simp
    show "list_all (\<lambda>(_, e). entry_ok e) ((key, e) # xs)" using IH n d by (simp add: entry_ok_def)
    assume "distinct (map fst acc)"
    then have "distinct (map fst (acc @ [(key_encode key, e)]))" using f by simp
    then show "distinct (map fst es)" using IH by blast
  qed
qed simp

lemma encode_target_result:
  "encode_target_entries xs = Inr es \<Longrightarrow>
     es = map (\<lambda>(k, e). (key_encode k, e)) xs \<and> list_all (\<lambda>(_, e). entry_ok e) xs \<and> distinct (map fst es)"
proof -
  assume "encode_target_entries xs = Inr es"
  then have "encode_targets [] xs = Inr es" by (simp add: encode_target_entries_def)
  note r = encode_targets_result [OF this, unfolded append_Nil]
  have "distinct (map fst ([] :: entries))" by simp
  then show ?thesis using r by blast
qed

lemma write_claims_simps [simp]:
  "write_claims [] m = m"
  "write_claims ((k, e) # xs) m = write_claims xs (m(key_encode k := e))"
  by (simp_all add: write_claims_def)

lemma matches_simps [simp]:
  "matches [] m" "matches ((k, e) # xs) m \<longleftrightarrow> m (key_encode k) = e \<and> matches xs m"
  by (simp_all add: matches_def)

lemma write_claims_other:
  "key_ok k \<Longrightarrow> claims_dict xs \<Longrightarrow> k \<notin> fst ` set xs \<Longrightarrow> write_claims xs m (key_encode k) = m (key_encode k)"
proof (induction xs arbitrary: m)
  case Nil
  then show ?case by simp
next
  case (Cons x xs)
  obtain l e where x: "x = (l, e)" by (cases x)
  have "key_encode k \<noteq> key_encode l" using Cons.prems x key_encode_eq [of k l] by (auto simp: claims_dict_def)
  then show ?case using Cons x by (simp add: claims_dict_def)
qed

lemma write_claims_code:
  "c \<notin> (key_encode \<circ> fst) ` set xs \<Longrightarrow> write_claims xs m c = m c"
  by (induction xs arbitrary: m) auto

text \<open>What has been written matches, and writing back what matched before restores.\<close>

lemma matches_write: "claims_dict xs \<Longrightarrow> matches xs (write_claims xs m)"
proof (induction xs arbitrary: m)
  case Nil
  then show ?case by simp
next
  case (Cons x xs)
  obtain k e where x: "x = (k, e)" by (cases x)
  have "write_claims xs (m(key_encode k := e)) (key_encode k) = e"
    using Cons.prems x write_claims_other [of k xs "m(key_encode k := e)"] by (auto simp: claims_dict_def)
  then show ?case using Cons x by (simp add: claims_dict_def)
qed

lemma write_matching: "matches xs m \<Longrightarrow> write_claims xs m = m"
proof (induction xs)
  case Nil
  then show ?case by simp
next
  case (Cons x xs)
  obtain k e where x: "x = (k, e)" by (cases x)
  then have "m(key_encode k := e) = m" using Cons.prems by (auto simp: fun_upd_idem)
  then show ?case using Cons x by simp
qed

lemma write_back:
  assumes "matches xs m" "map fst ys = map fst xs" "claims_dict xs"
  shows "write_claims xs (write_claims ys m) = m"
proof
  fix c
  show "write_claims xs (write_claims ys m) c = m c"
  proof (cases "c \<in> (key_encode \<circ> fst) ` set xs")
    case False
    have "fst ` set ys = fst ` set xs" using assms(2) by (metis list.set_map)
    then have "c \<notin> (key_encode \<circ> fst) ` set ys" using False by (metis image_comp)
    then show ?thesis using False by (simp add: write_claims_code)
  next
    case True
    then obtain k e where ke: "(k, e) \<in> set xs" and c: "c = key_encode k" by auto
    have "matches xs (write_claims xs (write_claims ys m))" by (rule matches_write [OF assms(3)])
    then have "write_claims xs (write_claims ys m) c = e" using ke c by (auto simp: matches_def list_all_iff)
    moreover have "m c = e" using assms(1) ke c by (auto simp: matches_def list_all_iff)
    ultimately show ?thesis by simp
  qed
qed

lemma and_then_cases:
  assumes "and_then m f s = (r, t)"
  obtains (Raises) e where "m s = (Inl e, t)" "r = Inl e"
    | (Returns) x u where "m s = (Inr x, u)" "f x u = (r, t)"
  using assms by (auto simp: and_then_def split: prod.splits sum.splits)

lemma with_rollback_cases:
  assumes "with_rollback body undo s = (r, t)"
  obtains (Done) x where "body s = (Inr x, t)" "r = Inr x"
    | (Undone) e u x where "body s = (Inl e, u)" "undo u = (Inr x, t)" "r = Inl e"
    | (Incomplete) e u e' where "body s = (Inl e, u)" "undo u = (Inl e', t)" "r = Inl Rollback_incomplete"
  using assms by (auto simp: with_rollback_def split: prod.splits sum.splits)

lemma call_simps [simp]:
  "returning x s = (r, t) \<longleftrightarrow> r = Inr x \<and> t = s"
  "raising e s = (r, t) \<longleftrightarrow> r = Inl e \<and> t = s"
  "lifting m s = (r, t) \<longleftrightarrow> r = m \<and> t = s"
  by (auto simp: returning_def raising_def lifting_def)

lemma normalize_idem: "normalize_artifact_path p = Inr q \<Longrightarrow> q = p"
  by (auto simp: normalize_artifact_path_def split: if_splits)

lemma entry_ok_encode: "encode_target_entries [(k, e)] = Inr es \<Longrightarrow> entry_ok e"
  by (auto simp: encode_target_entries_def entry_ok_def bindE_Inr_iff split: if_splits)

lemma normalize_rewrites_idem: "normalize_rewrites rs = Inr rs' \<Longrightarrow> rs' = rs"
proof (induction rs arbitrary: rs')
  case (Cons r rs)
  obtain a b where r: "r = (a, b)" by (cases r)
  from Cons.prems show ?case
    unfolding r by (auto simp: bindE_Inr_iff dest: normalize_idem Cons.IH)
qed simp

text \<open>Renaming: the claim moves to the new key and keeps its digest; nothing else changes.\<close>

definition moved_claim ::
    "artifact_key \<Rightarrow> artifact_key \<Rightarrow> (string \<times> string) list \<Rightarrow> claims \<Rightarrow> claims" where
  "moved_claim source target rewrites m =
     (case m (key_encode source) of
        None \<Rightarrow> m
      | Some e \<Rightarrow> m(key_encode source := None, key_encode target \<mapsto> rewritten rewrites e))"

text \<open>The status of a claim: what the file, the claim and the expected entry make of it.\<close>

definition currency :: "bool \<Rightarrow> manifest_entry option \<Rightarrow> string \<Rightarrow> manifest_entry option \<Rightarrow> artifact_status" where
  "currency present claim p expected =
     (if \<not> present then Missing
      else case claim of
             None \<Rightarrow> Missing
           | Some e \<Rightarrow>
               if artifact_path e \<noteq> p then Missing
               else if expected = Some e then Current else Stale)"

text \<open>Forgetting a set of keys, as one replacement of the claims they hold.\<close>

lemma set_from_keys [simp]: "set (from_keys ks) = set ks"
  by (induction ks) auto

lemma distinct_from_keys [simp]: "distinct (from_keys ks)"
  by (induction ks) auto

definition held_claims :: "claims \<Rightarrow> artifact_key list \<Rightarrow> (artifact_key \<times> manifest_entry option) list" where
  "held_claims m ks = map (\<lambda>k. (k, m (key_encode k))) (filter (\<lambda>k. m (key_encode k) \<noteq> None) ks)"

definition without_claims :: "artifact_key list \<Rightarrow> claims \<Rightarrow> claims" where
  "without_claims ks m = (\<lambda>c. if c \<in> key_encode ` set ks then None else m c)"

lemma held_claims_dict: "distinct ks \<Longrightarrow> list_all key_ok ks \<Longrightarrow> claims_dict (held_claims m ks)"
  by (simp add: claims_dict_def held_claims_def list_all_iff comp_def)

lemma matches_held: "matches (held_claims m ks) m"
  by (auto simp: matches_def held_claims_def list_all_iff)

lemma write_nones: "write_claims (map (\<lambda>(k, _). (k, None)) xs) m = (\<lambda>c. if c \<in> (key_encode \<circ> fst) ` set xs then None else m c)"
proof (induction xs arbitrary: m)
  case Nil
  then show ?case by simp
next
  case (Cons x xs)
  obtain k e where x: "x = (k, e)" by (cases x)
  show ?case unfolding x list.map prod.case write_claims_simps Cons.IH by (rule ext) simp
qed

lemma write_forget: "write_claims (map (\<lambda>(k, _). (k, None)) (held_claims m ks)) m = without_claims ks m"
  unfolding write_nones without_claims_def by (rule ext) (auto simp: held_claims_def image_iff)

locale manifest_storage =
  fixes A :: "'s adapter" and view :: "'s \<Rightarrow> claims" and has_file :: "'s \<Rightarrow> string \<Rightarrow> bool" and good :: "'s \<Rightarrow> bool"
  assumes inspect: "good s \<Longrightarrow> inspect_artifact A p s = (ob, t) \<Longrightarrow>
      good t \<and> view t = view s \<and> has_file t = has_file s \<and>
      (\<forall>b. ob = Inr b \<longrightarrow> ob_blocker b = None \<longrightarrow>
        normalize_artifact_path p = Inr (ob_path b) \<and> ob_present b = has_file s (ob_path b))"
    and get: "good s \<Longrightarrow> key_ok k \<Longrightarrow> get_entry A k s = (found, t) \<Longrightarrow>
      good t \<and> view t = view s \<and> has_file t = has_file s \<and> (\<forall>x. found = Inr x \<longrightarrow> x = view s (key_encode k))"
    and put: "good s \<Longrightarrow> key_ok k \<Longrightarrow> entry_ok e \<Longrightarrow> put_entry A k e s = (r, t) \<Longrightarrow>
      good t \<and> view t \<in> {view s, (view s)(key_encode k \<mapsto> e)} \<and>
      (\<forall>b. r = Inr b \<longrightarrow> view t = (view s)(key_encode k \<mapsto> e) \<and> b = (view s (key_encode k) \<noteq> Some e))"
    and delete: "good s \<Longrightarrow> key_ok k \<Longrightarrow> delete_entry A k s = (r, t) \<Longrightarrow>
      good t \<and> view t \<in> {view s, (view s)(key_encode k := None)} \<and>
      (\<forall>b. r = Inr b \<longrightarrow> view t = (view s)(key_encode k := None) \<and> b = (view s (key_encode k) \<noteq> None))"
    and replace: "good s \<Longrightarrow> claims_dict xs \<Longrightarrow> claims_dict ys \<Longrightarrow> replace_entries_if_matches A xs ys s = (r, t) \<Longrightarrow>
      good t \<and> (view t = view s \<or> matches xs (view s) \<and> view t = write_claims ys (view s)) \<and>
      (r = Inr True \<longrightarrow> matches xs (view s) \<and> view t = write_claims ys (view s)) \<and>
      (r = Inr False \<longrightarrow> view t = view s \<and> (matches xs (view s) \<longrightarrow> write_claims ys (view s) = view s))"
    and good_entries: "good s \<Longrightarrow> view s c = Some e \<Longrightarrow> entry_ok e"
    and good_owned: "good s \<Longrightarrow> owned_once (view s)"
begin

text \<open>A result where the claims are as before, unless the rollback was given up.\<close>

definition restored :: "'s \<Rightarrow> manifest_error + 'a \<Rightarrow> 's \<Rightarrow> bool" where
  "restored s r t = (good t \<and> (\<forall>e. r = Inl e \<longrightarrow> e \<noteq> Rollback_incomplete \<longrightarrow> view t = view s))"

lemma undo_registration_restores:
  assumes "good t" "key_ok k" "undo_registration A k x (view s (key_encode k)) t = (r, u)"
    "good s" "view t \<in> {view s, (view s)(key_encode k \<mapsto> x)}"
  shows "good u \<and> (\<forall>y. r = Inr y \<longrightarrow> view u = view s)"
  using assms(3) unfolding undo_registration_def
proof (cases rule: and_then_cases)
  case (Raises e)
  then show ?thesis using get [OF assms(1,2)] by auto
next
  case (Returns cur v)
  then have v: "good v" "view v = view t" and cur: "cur = view t (key_encode k)" using get [OF assms(1,2)] by auto
  show ?thesis
  proof (cases "cur = Some x")
    case False
    then have "view t = view s" using assms(5) cur by auto
    then show ?thesis using Returns False v by simp
  next
    case True
    show ?thesis
    proof (cases "view s (key_encode k)")
      case None
      then have "and_then (delete_entry A k) (\<lambda>_. returning ()) v = (r, u)" using Returns True by simp
      then show ?thesis
      proof (cases rule: and_then_cases)
        case (Raises e)
        then show ?thesis using delete [OF v(1) assms(2)] by auto
      next
        case (Returns b w)
        then show ?thesis using delete [OF v(1) assms(2)] v(2) assms(5) None by auto
      qed
    next
      case (Some p)
      have p: "entry_ok p" by (rule good_entries [OF assms(4) Some])
      have "and_then (put_entry A k p) (\<lambda>_. returning ()) v = (r, u)" using Returns True Some by simp
      then show ?thesis
      proof (cases rule: and_then_cases)
        case (Raises e)
        then show ?thesis using put [OF v(1) assms(2) p] by auto
      next
        case (Returns b w)
        then have "good w" "view w = (view v)(key_encode k \<mapsto> p)" using put [OF v(1) assms(2) p] by auto
        then show ?thesis using Returns v(2) assms(5) Some by auto
      qed
    qed
  qed
qed

lemma put_with_rollback:
  assumes "good s" "key_ok k" "entry_ok x"
    and body: "\<And>r t. body s = (r, t) \<Longrightarrow> good t \<and> view t \<in> {view s, (view s)(key_encode k \<mapsto> x)}"
    and run: "with_rollback body (undo_registration A k x (view s (key_encode k))) s = (r, t)"
  shows "restored s r t \<and> (\<forall>b. r = Inr b \<longrightarrow> body s = (Inr b, t))"
  using run
proof (cases rule: with_rollback_cases)
  case (Done b)
  then show ?thesis using body by (auto simp: restored_def)
next
  case (Undone e u y)
  then show ?thesis
    using undo_registration_restores [OF _ assms(2) Undone(2) assms(1)] body [OF Undone(1)] by (auto simp: restored_def)
next
  case (Incomplete e u e')
  then show ?thesis
    using undo_registration_restores [OF _ assms(2) Incomplete(2) assms(1)] body [OF Incomplete(1)]
    by (auto simp: restored_def)
qed

lemma observe_present_result:
  assumes "good s" "observe_present A p s = (r, t)"
  shows "good t \<and> view t = view s \<and> (\<forall>q. r = Inr q \<longrightarrow> normalize_artifact_path p = Inr q \<and> has_file s q)"
  using assms(2) unfolding observe_present_def
proof (cases rule: and_then_cases)
  case (Raises e)
  then show ?thesis using inspect [OF assms(1)] by auto
next
  case (Returns ob u)
  then show ?thesis using inspect [OF assms(1) Returns(1)] by (auto split: if_splits)
qed

text \<open>
  A claim is registered with its file present, or the claims are what they were; the answer says
  whether the claim is new.
\<close>

lemma register_entry_result:
  assumes "good s" "key_ok k" "register_entry_transactionally A k e s = (r, t)"
  shows "restored s r t \<and>
    (\<forall>b. r = Inr b \<longrightarrow> entry_ok e \<and> has_file s (artifact_path e) \<and>
       view t = (view s)(key_encode k \<mapsto> e) \<and> b = (view s (key_encode k) \<noteq> Some e))"
  using assms(3) unfolding register_entry_transactionally_def
proof (cases rule: and_then_cases)
  case (Raises x)
  then show ?thesis using assms(1) by (simp add: restored_def)
next
  case (Returns es s1)
  then have e: "entry_ok e" and s1: "s1 = s" using entry_ok_encode [of k e es] by simp_all
  from Returns(2) show ?thesis unfolding s1
  proof (cases rule: and_then_cases)
    case (Raises x)
    then show ?thesis using observe_present_result [OF assms(1)] by (auto simp: restored_def)
  next
    case (Returns q s2)
    then have s2: "good s2" "view s2 = view s" and q: "normalize_artifact_path (artifact_path e) = Inr q" "has_file s q"
      using observe_present_result [OF assms(1)] by auto
    have q': "q = artifact_path e" by (rule normalize_idem [OF q(1)])
    from Returns(2) show ?thesis
    proof (cases rule: and_then_cases)
      case (Raises x)
      then show ?thesis using get [OF s2(1) assms(2)] s2(2) by (auto simp: restored_def)
    next
      case (Returns previous s3)
      then have s3: "good s3" "view s3 = view s" and p: "previous = view s3 (key_encode k)"
        using get [OF s2(1) assms(2)] s2(2) by auto
      have "\<lparr>artifact_path = q, basis_digest = basis_digest e\<rparr> = e" by (simp add: q')
      then have run: "with_rollback (put_entry A k e) (undo_registration A k e (view s3 (key_encode k))) s3 = (r, t)"
        using Returns(2) p by (simp add: Let_def)
      have "restored s3 r t \<and> (\<forall>b. r = Inr b \<longrightarrow> put_entry A k e s3 = (Inr b, t))"
        by (rule put_with_rollback [OF s3(1) assms(2) e _ run]) (use put [OF s3(1) assms(2) e] in blast)
      then show ?thesis using put [OF s3(1) assms(2) e] s3(2) e q q' by (auto simp: restored_def)
    qed
  qed
qed

text \<open>Forgetting a claim: it is gone, or the claims are what they were.\<close>

lemma undo_removal_restores:
  assumes "good t" "key_ok k" "undo_removal A k x t = (r, u)" "good s" "view s (key_encode k) = Some x"
    "view t \<in> {view s, (view s)(key_encode k := None)}"
  shows "good u \<and> (\<forall>y. r = Inr y \<longrightarrow> view u = view s)"
  using assms(3) unfolding undo_removal_def
proof (cases rule: and_then_cases)
  case (Raises e)
  then show ?thesis using get [OF assms(1,2)] by auto
next
  case (Returns cur v)
  then have v: "good v" "view v = view t" and cur: "cur = view t (key_encode k)" using get [OF assms(1,2)] by auto
  show ?thesis
  proof (cases "cur = None")
    case False
    then have "view t = view s" using assms(6) cur by auto
    then show ?thesis using Returns False v by simp
  next
    case True
    have x: "entry_ok x" by (rule good_entries [OF assms(4,5)])
    have "and_then (put_entry A k x) (\<lambda>_. returning ()) v = (r, u)" using Returns True by simp
    then show ?thesis
    proof (cases rule: and_then_cases)
      case (Raises e)
      then show ?thesis using put [OF v(1) assms(2) x] by auto
    next
      case (Returns b w)
      then have "good w" "view w = (view v)(key_encode k \<mapsto> x)" using put [OF v(1) assms(2) x] by auto
      then show ?thesis using Returns v(2) assms(5,6) by auto
    qed
  qed
qed

lemma forget_entry_result:
  assumes "good s" "key_ok k" "forget_entry_transactionally A k s = (r, t)"
  shows "restored s r t \<and>
    (\<forall>b. r = Inr b \<longrightarrow> view t = (view s)(key_encode k := None) \<and> b = (view s (key_encode k) \<noteq> None))"
  using assms(3) unfolding forget_entry_transactionally_def
proof (cases rule: and_then_cases)
  case (Raises e)
  then show ?thesis using get [OF assms(1,2)] by (auto simp: restored_def)
next
  case (Returns previous u)
  then have u: "good u" "view u = view s" and p: "previous = view s (key_encode k)" using get [OF assms(1,2)] by auto
  show ?thesis
  proof (cases previous)
    case None
    then show ?thesis using Returns(2) u p by (auto simp: restored_def fun_upd_idem)
  next
    case (Some x)
    have x: "view u (key_encode k) = Some x" using p Some u(2) by simp
    have "with_rollback (delete_entry A k) (undo_removal A k x) u = (r, t)" using Returns(2) Some by simp
    then show ?thesis
    proof (cases rule: with_rollback_cases)
      case (Done b)
      then show ?thesis using delete [OF u(1) assms(2)] u(2) by (auto simp: restored_def)
    next
      case (Undone e v y)
      have "good v" "view v \<in> {view u, (view u)(key_encode k := None)}" using delete [OF u(1) assms(2) Undone(1)] by auto
      then show ?thesis
        using undo_removal_restores [OF _ assms(2) Undone(2) u(1) x] u(2) Undone(3) by (auto simp: restored_def)
    next
      case (Incomplete e v e')
      have "good v" "view v \<in> {view u, (view u)(key_encode k := None)}" using delete [OF u(1) assms(2) Incomplete(1)] by auto
      then show ?thesis
        using undo_removal_restores [OF _ assms(2) Incomplete(2) u(1) x] Incomplete(3) by (auto simp: restored_def)
    qed
  qed
qed

text \<open>A set of claims replaced in one commit.\<close>

lemma entries_match_result:
  assumes "good s" "list_all key_ok (map fst xs)" "entries_match A xs s = (r, t)"
  shows "good t \<and> view t = view s \<and> (\<forall>b. r = Inr b \<longrightarrow> b = matches xs (view s))"
  using assms
proof (induction xs arbitrary: s)
  case Nil
  then show ?case by simp
next
  case (Cons x xs)
  obtain k e where x: "x = (k, e)" by (cases x)
  have k: "key_ok k" using Cons.prems x by simp
  have "and_then (get_entry A k) (\<lambda>cur. if cur = e then entries_match A xs else returning False) s = (r, t)"
    using Cons.prems(3) x by simp
  then show ?case
  proof (cases rule: and_then_cases)
    case (Raises f)
    then show ?thesis using get [OF Cons.prems(1) k] by auto
  next
    case (Returns cur u)
    then have u: "good u" "view u = view s" and cur: "cur = view s (key_encode k)" using get [OF Cons.prems(1) k] by auto
    show ?thesis
    proof (cases "cur = e")
      case True
      then have "entries_match A xs u = (r, t)" using Returns(2) by simp
      then show ?thesis using Cons.IH [OF u(1)] Cons.prems(2) x u(2) cur True by simp
    next
      case False
      then show ?thesis using Returns(2) u cur x by auto
    qed
  qed
qed

lemma commit_rekey_result:
  assumes s: "good s" and plan: "claims_dict (rk_before plan)" "map fst (rk_after plan) = map fst (rk_before plan)"
    and m: "matches (rk_before plan) (view s)" and run: "commit_rekey A plan s = (r, t)"
  shows "restored s r t \<and>
    (\<forall>b. r = Inr b \<longrightarrow> b = rk_changed plan \<and> view t = (if b then write_claims (rk_after plan) (view s) else view s))"
proof (cases "rk_changed plan")
  case False
  then show ?thesis using run s by (simp add: commit_rekey_def restored_def)
next
  case True
  let ?x = "rk_before plan" and ?y = "rk_after plan"
  have y: "claims_dict ?y" using plan by (simp add: claims_dict_def)
  have undo: "good v \<and> (\<forall>z. q = Inr z \<longrightarrow> view v = view s)"
    if u: "good u" "view u \<in> {view s, write_claims ?y (view s)}" and q: "undo_rekey A plan u = (q, v)" for u q v
    using q unfolding undo_rekey_def
  proof (cases rule: and_then_cases)
    case (Raises e)
    then show ?thesis using replace [OF u(1) y plan(1)] by auto
  next
    case (Returns b w)
    note rep = replace [OF u(1) y plan(1) Returns(1)]
    have same: "write_claims ?x (view u) = view s" using u(2) write_matching [OF m] write_back [OF m plan(2,1)] by auto
    show ?thesis
    proof (cases b)
      case True
      then show ?thesis using rep same Returns(2) by auto
    next
      case False
      have w: "view w = view u" "good w" using rep False by auto
      have "and_then (entries_match A ?x) (\<lambda>same. if same then returning () else raising Manifest_error) w = (q, v)"
        using Returns(2) False by simp
      then show ?thesis
      proof (cases rule: and_then_cases)
        case (Raises e)
        then show ?thesis using entries_match_result [OF w(2)] plan(1) by (auto simp: claims_dict_def)
      next
        case (Returns c x)
        then have "good x" "view x = view u" "c = matches ?x (view u)"
          using entries_match_result [OF w(2)] plan(1) w(1) by (auto simp: claims_dict_def)
        then show ?thesis using Returns(2) same write_matching [of ?x "view u"] by (cases c) auto
      qed
    qed
  qed
  have "and_then (with_rollback (replace_entries_if_matches A ?x ?y) (undo_rekey A plan))
      (\<lambda>changed. if \<not> changed then raising Manifest_error else returning True) s = (r, t)"
    using run True by (simp add: commit_rekey_def)
  then show ?thesis
  proof (cases rule: and_then_cases)
    case (Raises e)
    from Raises(1) show ?thesis
    proof (cases rule: with_rollback_cases)
      case (Undone f u z)
      have "good u" "view u \<in> {view s, write_claims ?y (view s)}" using replace [OF s plan(1) y Undone(1)] by auto
      then show ?thesis using undo [OF _ _ Undone(2)] Raises(2) by (auto simp: restored_def)
    next
      case (Incomplete f u z)
      have "good u" "view u \<in> {view s, write_claims ?y (view s)}" using replace [OF s plan(1) y Incomplete(1)] by auto
      then show ?thesis using undo [OF _ _ Incomplete(2)] Raises(2) Incomplete(3) by (auto simp: restored_def)
    qed simp
  next
    case (Returns changed u)
    from Returns(1) have "replace_entries_if_matches A ?x ?y s = (Inr changed, u)"
      by (cases rule: with_rollback_cases) simp_all
    from replace [OF s plan(1) y this] show ?thesis
      using Returns(2) True by (cases changed) (auto simp: restored_def)
  qed
qed

lemma register_descriptor_result:
  assumes "good s" "key_ok k" "is_prefixed_digest (bd_digest basis)"
    and run: "register_descriptor_transactionally A k p basis s = (r, t)"
  defines "e \<equiv> \<lparr>artifact_path = p, basis_digest = bd_digest basis\<rparr>"
  shows "restored s r t \<and>
    (\<forall>b. r = Inr b \<longrightarrow> has_file s p \<and> view t = (view s)(key_encode k \<mapsto> e) \<and> b = (view s (key_encode k) \<noteq> Some e))"
  using run unfolding register_descriptor_transactionally_def
proof (cases rule: and_then_cases)
  case (Raises x)
  then show ?thesis using get [OF assms(1,2)] by (auto simp: restored_def)
next
  case (Returns previous s1)
  then have s1: "good s1" "view s1 = view s" "has_file s1 = has_file s" and p: "previous = view s1 (key_encode k)"
    using get [OF assms(1,2)] by auto
  from Returns(2) show ?thesis
  proof (cases rule: and_then_cases)
    case (Raises x)
    then show ?thesis using s1 by (auto simp: restored_def)
  next
    case (Returns q s2)
    then have s2: "s2 = s1" and q: "q = p" "normalize_artifact_path p = Inr p" using normalize_idem [of p q] by auto
    have e: "entry_ok e" using q(2) assms(3) by (simp add: e_def entry_ok_def)
    have body: "good v \<and> view v \<in> {view s1, (view s1)(key_encode k \<mapsto> e)} \<and>
        (\<forall>b. x = Inr b \<longrightarrow> has_file s1 p \<and> view v = (view s1)(key_encode k \<mapsto> e) \<and> b = (view s1 (key_encode k) \<noteq> Some e))"
      if "register_descriptor A k p basis s1 = (x, v)" for x v
      using that unfolding register_descriptor_def
    proof (cases rule: and_then_cases)
      case (Raises y)
      then show ?thesis using observe_present_result [OF s1(1)] by auto
    next
      case (Returns q' w)
      then have w: "good w" "view w = view s1" "q' = p" "has_file s1 p"
        using observe_present_result [OF s1(1) Returns(1)] q(2) by auto
      have "put_entry A k e w = (x, v)" using Returns(2) w(3) by (simp add: e_def)
      from put [OF w(1) assms(2) e this] show ?thesis using w(2,4) by simp
    qed
    have roll: "with_rollback (register_descriptor A k p basis) (undo_registration A k e (view s1 (key_encode k))) s1 = (r, t)"
      using Returns(2) s2 q(1) p by (simp add: e_def)
    have rest: "restored s1 r t \<and> (\<forall>b. r = Inr b \<longrightarrow> register_descriptor A k p basis s1 = (Inr b, t))"
      by (rule put_with_rollback [OF s1(1) assms(2) e _ roll]) (use body in blast)
    show ?thesis
    proof (intro conjI allI impI)
      show "restored s r t" using rest s1(2) by (simp add: restored_def)
    next
      fix b assume "r = Inr b"
      then have "register_descriptor A k p basis s1 = (Inr b, t)" using rest by blast
      from body [OF this] show "has_file s p" "view t = (view s)(key_encode k \<mapsto> e)" "b = (view s (key_encode k) \<noteq> Some e)"
        unfolding s1 by simp_all
    qed
  qed
qed

lemma plan_rekey_result:
  assumes s: "good s" and k: "key_ok source" "key_ok target" and run: "plan_entry_rekey A source target rewrites s = (r, t)"
  shows "good t \<and> view t = view s \<and>
    (\<forall>plan. r = Inr plan \<longrightarrow>
       claims_dict (rk_before plan) \<and> map fst (rk_after plan) = map fst (rk_before plan) \<and> matches (rk_before plan) (view s) \<and>
       write_claims (rk_after plan) (view s) = moved_claim source target rewrites (view s) \<and>
       rk_changed plan = (moved_claim source target rewrites (view s) \<noteq> view s) \<and>
       (source = target \<or> view s (key_encode target) = None))"
  using run unfolding plan_entry_rekey_def
proof (cases rule: and_then_cases)
  case (Raises e)
  then show ?thesis using s by simp
next
  case (Returns rw u)
  have u: "u = s" and n: "normalize_rewrites rewrites = Inr rw" using Returns(1) by simp_all
  have rw: "rw = rewrites" by (rule normalize_rewrites_idem [OF n])
  from Returns(2) show ?thesis unfolding u rw
  proof (cases rule: and_then_cases)
    case (Raises e)
    then show ?thesis using get [OF s k(1)] by auto
  next
    case (Returns found v)
    then have v: "good v" "view v = view s" and f: "found = view s (key_encode source)" using get [OF s k(1)] by auto
    let ?m = "view s" and ?a = "key_encode source" and ?b = "key_encode target"
    have eq: "?a = ?b \<longleftrightarrow> source = target" by (rule key_encode_eq [OF k])
    show ?thesis
    proof (cases "source = target")
      case True
      show ?thesis
      proof (cases found)
        case None
        then show ?thesis using Returns(2) True v f
          by (simp add: no_rekey_def claims_dict_def moved_claim_def)
      next
        case (Some e)
        have eqm: "?m(?b \<mapsto> rewritten rewrites e) = ?m \<longleftrightarrow> rewritten rewrites e = e"
          using f Some True by (auto simp: fun_upd_idem_iff)
        have fe: "?m ?b = Some e" using f Some True by simp
        have "(if rewritten rewrites e = e then returning no_rekey
            else returning \<lparr>rk_before = [(source, Some e)], rk_after = [(source, Some (rewritten rewrites e))],
                   rk_changed = True\<rparr>) v = (r, t)"
          using Returns(2) True Some by simp
        then show ?thesis using v fe True k eqm
          by (cases "rewritten rewrites e = e") (simp_all add: no_rekey_def claims_dict_def moved_claim_def fun_upd_idem)
      qed
    next
      case False
      then have ne: "?a \<noteq> ?b" using eq by simp
      have "and_then (get_entry A target) (\<lambda>taken.
          if taken \<noteq> None then raising Manifest_error
          else case found of None \<Rightarrow> returning no_rekey
               | Some e \<Rightarrow> returning \<lparr>rk_before = [(source, Some e), (target, None)],
                   rk_after = [(source, None), (target, Some (rewritten rewrites e))], rk_changed = True\<rparr>) v = (r, t)"
        using Returns(2) False by simp
      then show ?thesis
      proof (cases rule: and_then_cases)
        case (Raises e)
        then show ?thesis using get [OF v(1) k(2)] v(2) by auto
      next
        case (Returns taken w)
        then have w: "good w" "view w = view s" and tk: "taken = ?m ?b" using get [OF v(1) k(2)] v(2) by auto
        show ?thesis
        proof (cases taken)
          case (Some x)
          then show ?thesis using Returns(2) w by simp
        next
          case None
          show ?thesis
          proof (cases found)
            case None
            then show ?thesis using Returns(2) \<open>taken = None\<close> w f tk
              by (simp add: no_rekey_def claims_dict_def moved_claim_def)
          next
            case (Some e)
            have "(?m(?a := None, ?b \<mapsto> rewritten rewrites e)) ?a \<noteq> ?m ?a" using Some f ne by simp
            then have "?m(?a := None, ?b \<mapsto> rewritten rewrites e) \<noteq> ?m" by metis
            then show ?thesis using Returns(2) None Some w f tk k False ne
              by (simp add: claims_dict_def moved_claim_def)
          qed
        qed
      qed
    qed
  qed
qed

lemma rekey_result:
  assumes s: "good s" and k: "key_ok source" "key_ok target"
    and run: "and_then (plan_entry_rekey A source target rewrites) (commit_rekey A) s = (r, t)"
  shows "restored s r t \<and>
    (\<forall>b. r = Inr b \<longrightarrow> view t = moved_claim source target rewrites (view s) \<and> b = (view t \<noteq> view s) \<and>
       (source = target \<or> view s (key_encode target) = None))"
  using run
proof (cases rule: and_then_cases)
  case (Raises e)
  then show ?thesis using plan_rekey_result [OF s k] by (auto simp: restored_def)
next
  case (Returns plan u)
  note p = plan_rekey_result [OF s k Returns(1)]
  then have u: "good u" "view u = view s" and d: "claims_dict (rk_before plan)" "map fst (rk_after plan) = map fst (rk_before plan)"
    "matches (rk_before plan) (view u)"
    and m: "write_claims (rk_after plan) (view u) = moved_claim source target rewrites (view s)"
    and c: "rk_changed plan = (moved_claim source target rewrites (view s) \<noteq> view s)"
    and free: "source = target \<or> view s (key_encode target) = None" by simp_all
  note w = commit_rekey_result [OF u(1) d Returns(2), unfolded m, unfolded u(2)]
  show ?thesis
  proof (intro conjI allI impI)
    show "restored s r t" using w u(2) by (simp add: restored_def)
  next
    fix b assume "r = Inr b"
    then have b: "b = rk_changed plan" "view t = (if b then moved_claim source target rewrites (view s) else view s)"
      using w by blast+
    show "view t = moved_claim source target rewrites (view s)" using b c by (cases b) simp_all
    then show "b = (view t \<noteq> view s)" using b(1) c by simp
  qed (rule free)
qed

lemma compare_result:
  assumes s: "good s" and k: "key_ok k" and run: "compare_entry A k p x s = (r, t)"
  shows "good t \<and> view t = view s \<and>
    (\<forall>c. r = Inr c \<longrightarrow> cmp_status c \<noteq> Blocked \<longrightarrow>
       normalize_artifact_path p = Inr (cmp_path c) \<and>
       cmp_status c = currency (has_file s (cmp_path c)) (view s (key_encode k)) (cmp_path c) x)"
  using run unfolding compare_entry_def
proof (cases rule: and_then_cases)
  case (Raises e)
  then show ?thesis using inspect [OF s] by auto
next
  case (Returns ob u)
  note i = inspect [OF s Returns(1)]
  then have u: "good u" "view u = view s" by auto
  show ?thesis
  proof (cases "ob_blocker ob")
    case (Some b)
    then show ?thesis using Returns(2) u by (simp add: blocked_at_def)
  next
    case None
    then have ob: "normalize_artifact_path p = Inr (ob_path ob)" "ob_present ob = has_file s (ob_path ob)" using i by auto
    show ?thesis
    proof (cases "ob_present ob")
      case False
      then show ?thesis using Returns(2) u None ob by (simp add: status_at_def currency_def)
    next
      case True
      obtain g v where g: "get_entry A k u = (g, v)" by fastforce
      have v: "good v" "view v = view s" "\<And>y. g = Inr y \<Longrightarrow> y = view s (key_encode k)" using get [OF u(1) k g] u(2) by auto
      show ?thesis
      proof (cases g)
        case (Inl e)
        then show ?thesis using Returns(2) v None True g
          by (auto simp: blocked_at_def split: if_splits)
      next
        case (Inr y)
        show ?thesis
        proof (cases y)
          case None
          then show ?thesis using Returns(2) v Inr \<open>ob_blocker ob = None\<close> True g ob by (auto simp: status_at_def currency_def)
        next
          case (Some e)
          have claim: "view s (key_encode k) = Some e" using v(3) [OF Inr] Some by simp
          show ?thesis
          proof (cases "artifact_path e = ob_path ob")
            case False
            then show ?thesis using Returns(2) v Inr Some \<open>ob_blocker ob = None\<close> True g ob claim
              by (auto simp: status_at_def currency_def)
          next
            case same: True
            show ?thesis
            proof (cases x)
              case None
              then show ?thesis using Returns(2) v Inr Some \<open>ob_blocker ob = None\<close> True g ob claim same
                by (auto simp: status_at_def currency_def)
            next
              case (Some y')
              have "and_then (lifting (normalize_artifact_path (artifact_path y'))) (\<lambda>q.
                  returning (status_at (ob_path ob)
                    (if e = \<lparr>artifact_path = q, basis_digest = basis_digest y'\<rparr> then Current else Stale))) v = (r, t)"
                using Returns(2) Inr \<open>y = Some e\<close> \<open>ob_blocker ob = None\<close> True g same Some by simp
              then show ?thesis
              proof (cases rule: and_then_cases)
                case (Raises f)
                then show ?thesis using v by simp
              next
                case (Returns q w)
                then have "q = artifact_path y'" "w = v" using normalize_idem [of "artifact_path y'" q] by auto
                then show ?thesis using Returns(2) v ob True claim same Some
                  by (auto simp: status_at_def currency_def)
              qed
            qed
          qed
        qed
      qed
    qed
  qed
qed

lemma present_claims_result:
  assumes "good s" "list_all key_ok ks" "present_claims A ks s = (r, t)"
  shows "good t \<and> view t = view s \<and> (\<forall>xs. r = Inr xs \<longrightarrow> xs = held_claims (view s) ks)"
  using assms
proof (induction ks arbitrary: s r t)
  case Nil
  then show ?case by (simp add: held_claims_def)
next
  case (Cons k ks)
  have k: "key_ok k" using Cons.prems by simp
  have "and_then (get_entry A k) (\<lambda>found. and_then (present_claims A ks) (\<lambda>rest.
      returning (case found of None \<Rightarrow> rest | Some e \<Rightarrow> (k, Some e) # rest))) s = (r, t)"
    using Cons.prems(3) by simp
  then show ?case
  proof (cases rule: and_then_cases)
    case (Raises e)
    then show ?thesis using get [OF Cons.prems(1) k] by auto
  next
    case (Returns found u)
    then have u: "good u" "view u = view s" and f: "found = view s (key_encode k)" using get [OF Cons.prems(1) k] by auto
    have ks: "list_all key_ok ks" using Cons.prems by simp
    from Returns(2) show ?thesis
    proof (cases rule: and_then_cases)
      case (Raises e)
      then show ?thesis using Cons.IH [OF u(1) ks] u by auto
    next
      case (Returns rest v)
      then have "good v" "view v = view s" "rest = held_claims (view s) ks" using Cons.IH [OF u(1) ks Returns(1)] u by auto
      then show ?thesis using Returns(2) f by (auto simp: held_claims_def split: option.splits)
    qed
  qed
qed

lemma forget_entries_result:
  assumes s: "good s" and ks: "list_all key_ok ks" and run: "forget_entries_transactionally A ks s = (r, t)"
  shows "restored s r t \<and> (\<forall>b. r = Inr b \<longrightarrow> view t = without_claims ks (view s) \<and> b = (view t \<noteq> view s))"
  using run unfolding forget_entries_transactionally_def
proof (cases rule: and_then_cases)
  case (Raises e)
  have ks': "list_all key_ok (from_keys ks)" using ks by (simp add: list_all_iff)
  show ?thesis using Raises present_claims_result [OF s ks' Raises(1)] by (auto simp: restored_def)
next
  case (Returns before u)
  have ks': "list_all key_ok (from_keys ks)" using ks by (simp add: list_all_iff)
  have u: "good u" "view u = view s" and b: "before = held_claims (view s) (from_keys ks)"
    using present_claims_result [OF s ks' Returns(1)] by auto
  have same: "without_claims (from_keys ks) = without_claims ks" by (simp add: without_claims_def fun_eq_iff)
  show ?thesis
  proof (cases "before = []")
    case True
    then have none: "\<forall>k\<in>set ks. view s (key_encode k) = None" using b by (auto simp: held_claims_def filter_empty_conv)
    have "without_claims ks (view s) = view s" using none by (auto simp: without_claims_def fun_eq_iff)
    then show ?thesis using Returns(2) True u by (simp add: restored_def)
  next
    case False
    let ?plan = "\<lparr>rk_before = before, rk_after = map (\<lambda>(k, _). (k, None)) before, rk_changed = True\<rparr>"
    have w: "write_claims (map (\<lambda>(k, _). (k, None)) before) (view u) = without_claims ks (view s)"
      using write_forget [of "view s" "from_keys ks"] by (simp add: b u(2) same)
    have "filter (\<lambda>k. view s (key_encode k) \<noteq> None) (from_keys ks) \<noteq> []" using False b by (simp add: held_claims_def)
    then obtain k where "k \<in> set (filter (\<lambda>k. view s (key_encode k) \<noteq> None) (from_keys ks))"
      by (meson hd_in_set)
    then obtain e where "k \<in> set ks" "view s (key_encode k) = Some e" by auto
    then have "without_claims ks (view s) (key_encode k) \<noteq> view s (key_encode k)" by (simp add: without_claims_def)
    then have ne: "without_claims ks (view s) \<noteq> view s" by metis
    have run': "commit_rekey A ?plan u = (r, t)" using Returns(2) False by simp
    have d: "claims_dict (rk_before ?plan)" using held_claims_dict [OF _ ks'] by (simp add: b)
    have m: "matches (rk_before ?plan) (view u)" using matches_held by (simp add: b u(2))
    have f: "map fst (rk_after ?plan) = map fst (rk_before ?plan)" by (simp add: comp_def case_prod_beta)
    from commit_rekey_result [OF u(1) d f m run'] show ?thesis
      using w ne u(2) by (auto simp: restored_def)
  qed
qed

end

end
