(* ===== verification/Memory_Manifest.thy ===== *)
theory Memory_Manifest
  imports Manifest_Contract
begin

text \<open>
  The storage in memory (\<open>InMemoryArtifactManifestAdapter\<close>): a dict of entries by encoded key, and the
  paths of the artifacts that are there. It keeps the contract of a manifest storage.
\<close>

section \<open>Dicts of entries\<close>

definition dict_eq :: "entries \<Rightarrow> entries \<Rightarrow> bool" where
  "dict_eq a b = (list_all (\<lambda>(k, e). map_of b k = Some e) a \<and> list_all (\<lambda>(k, e). map_of a k = Some e) b)"

definition apply_replacements :: "(string \<times> manifest_entry option) list \<Rightarrow> entries \<Rightarrow> entries" where
  "apply_replacements xs es =
     fold (\<lambda>(k, e) es. case e of None \<Rightarrow> AList.delete k es | Some x \<Rightarrow> AList.update k x es) xs es"

definition all_match :: "(string \<times> manifest_entry option) list \<Rightarrow> entries \<Rightarrow> bool" where
  "all_match xs es = list_all (\<lambda>(k, e). map_of es k = e) xs"

text \<open>\<open>{ArtifactKey.decode(encoded): entry for ...}\<close>\<close>

definition decode_stored_key :: "string \<Rightarrow> manifest_error + artifact_key" where
  "decode_stored_key c =
     (case key_decode c of
        Inl Key_value_error \<Rightarrow> Inl Bad_value
      | Inl Key_type_error \<Rightarrow> Inl Bad_type
      | Inr key \<Rightarrow> Inr key)"

fun decode_entries :: "entries \<Rightarrow> manifest_error + (artifact_key \<times> manifest_entry) list" where
  "decode_entries [] = Inr []"
| "decode_entries ((c, e) # es) =
     bindE (decode_stored_key c) (\<lambda>key. bindE (decode_entries es) (\<lambda>rest. Inr ((key, e) # rest)))"

section \<open>The adapter\<close>

record memory =
  mm_entries :: entries
  mm_artifacts :: "string list"

fun normalize_all :: "string list \<Rightarrow> manifest_error + string list" where
  "normalize_all [] = Inr []"
| "normalize_all (p # ps) = bindE (normalize_artifact_path p) (\<lambda>q. bindE (normalize_all ps) (\<lambda>qs. Inr (q # qs)))"

definition new_memory :: "string list \<Rightarrow> manifest_error + memory" where
  "new_memory artifacts = bindE (normalize_all artifacts) (\<lambda>ps. Inr \<lparr>mm_entries = [], mm_artifacts = ps\<rparr>)"

definition invalid_path :: "string \<Rightarrow> observation" where
  "invalid_path p =
     \<lparr>ob_path = p, ob_present = False, ob_blocker = Some \<lparr>bl_code = ''artifact_path_invalid'', bl_path = p\<rparr>\<rparr>"

definition memory_inspect :: "string \<Rightarrow> (memory, observation) call" where
  "memory_inspect p s =
     (case normalize_artifact_path p of
        Inl _ \<Rightarrow> (Inr (invalid_path p), s)
      | Inr q \<Rightarrow> (Inr \<lparr>ob_path = q, ob_present = (q \<in> set (mm_artifacts s)), ob_blocker = None\<rparr>, s))"

definition memory_get :: "artifact_key \<Rightarrow> (memory, manifest_entry option) call" where
  "memory_get key s = (Inr (map_of (mm_entries s) (key_encode key)), s)"

definition memory_snapshot :: "(memory, (artifact_key \<times> manifest_entry) list) call" where
  "memory_snapshot s = (decode_entries (mm_entries s), s)"

definition memory_put :: "artifact_key \<Rightarrow> manifest_entry \<Rightarrow> (memory, bool) call" where
  "memory_put key e s =
     (if map_of (mm_entries s) (key_encode key) = Some e then (Inr False, s)
      else let updated = AList.update (key_encode key) e (mm_entries s) in
           case assert_unique_artifact_paths updated of
             Inl x \<Rightarrow> (Inl x, s)
           | Inr _ \<Rightarrow> (Inr True, s\<lparr>mm_entries := updated\<rparr>))"

definition memory_delete :: "artifact_key \<Rightarrow> (memory, bool) call" where
  "memory_delete key s =
     (Inr (map_of (mm_entries s) (key_encode key) \<noteq> None),
      s\<lparr>mm_entries := AList.delete (key_encode key) (mm_entries s)\<rparr>)"

definition memory_replace_if ::
    "(artifact_key \<times> manifest_entry option) list \<Rightarrow> (artifact_key \<times> manifest_entry option) list \<Rightarrow> (memory, bool) call" where
  "memory_replace_if expected replacements s =
     (case encode_optional_entries expected of
        Inl x \<Rightarrow> (Inl x, s)
      | Inr xs \<Rightarrow>
          (case encode_optional_entries replacements of
             Inl x \<Rightarrow> (Inl x, s)
           | Inr ys \<Rightarrow>
               if \<not> all_match xs (mm_entries s) then (Inr False, s)
               else let updated = apply_replacements ys (mm_entries s) in
                    if dict_eq updated (mm_entries s) then (Inr False, s)
                    else (case assert_unique_artifact_paths updated of
                            Inl x \<Rightarrow> (Inl x, s)
                          | Inr _ \<Rightarrow> (Inr True, s\<lparr>mm_entries := updated\<rparr>))))"

definition memory_replace_snapshot ::
    "(artifact_key \<times> manifest_entry) list \<Rightarrow> (artifact_key \<times> manifest_entry) list \<Rightarrow> (memory, bool) call" where
  "memory_replace_snapshot expected replacement s =
     (case encode_target_entries expected of
        Inl x \<Rightarrow> (Inl x, s)
      | Inr xs \<Rightarrow>
          (case encode_target_entries replacement of
             Inl x \<Rightarrow> (Inl x, s)
           | Inr ys \<Rightarrow>
               (case assert_unique_artifact_paths ys of
                  Inl x \<Rightarrow> (Inl x, s)
                | Inr _ \<Rightarrow>
                    if \<not> dict_eq (mm_entries s) xs then (Inr False, s)
                    else (Inr True, s\<lparr>mm_entries := ys\<rparr>))))"

definition memory_replace_all :: "(artifact_key \<times> manifest_entry) list \<Rightarrow> (memory, bool) call" where
  "memory_replace_all es s =
     (case encode_target_entries es of
        Inl x \<Rightarrow> (Inl x, s)
      | Inr xs \<Rightarrow>
          (case assert_unique_artifact_paths xs of
             Inl x \<Rightarrow> (Inl x, s)
           | Inr _ \<Rightarrow>
               if dict_eq (mm_entries s) xs then (Inr False, s) else (Inr True, s\<lparr>mm_entries := xs\<rparr>)))"

definition memory_adapter :: "memory adapter" where
  "memory_adapter =
     \<lparr>inspect_artifact = memory_inspect, get_entry = memory_get, snapshot_entries = memory_snapshot,
      put_entry = memory_put, delete_entry = memory_delete, replace_entries_if_matches = memory_replace_if,
      replace_snapshot_if_matches = memory_replace_snapshot, replace_entries_atomically = memory_replace_all\<rparr>"

section \<open>Dicts and the claims they show\<close>

lemma all_entries_iff: "distinct (map fst a) \<Longrightarrow> list_all (\<lambda>(k, e). f k = Some e) a \<longleftrightarrow> map_of a \<subseteq>\<^sub>m f"
  by (auto simp: list_all_iff map_le_def dom_def)

lemma dict_eq_iff:
  assumes "distinct (map fst a)" "distinct (map fst b)"
  shows "dict_eq a b \<longleftrightarrow> map_of a = map_of b"
  unfolding dict_eq_def all_entries_iff [OF assms(1)] all_entries_iff [OF assms(2)]
  using map_le_antisym map_le_refl by metis

lemma map_of_updated [simp]: "map_of (AList.update k e es) = (map_of es)(k \<mapsto> e)"
  by (simp add: update_conv')

lemma map_of_delete [simp]: "map_of (AList.delete k es) = (map_of es)(k := None)"
  by (simp add: delete_conv')

lemma present_entries_simps [simp]:
  "present_entries [] = []"
  "present_entries ((k, e) # xs) = (case e of None \<Rightarrow> present_entries xs | Some x \<Rightarrow> (k, x) # present_entries xs)"
  by (auto simp: present_entries_def List.map_filter_def split: option.splits)

lemma present_entries_mem: "(k, e) \<in> set (present_entries xs) \<longleftrightarrow> (k, Some e) \<in> set xs"
  by (induction xs) (auto split: option.splits)

lemma fold_update_fresh:
  "distinct (map f xs) \<Longrightarrow> fst ` set acc \<inter> f ` set xs = {} \<Longrightarrow>
     fold (\<lambda>x. AList.update (f x) (g x)) xs acc = acc @ map (\<lambda>x. (f x, g x)) xs"
proof (induction xs arbitrary: acc)
  case Nil
  then show ?case by simp
next
  case (Cons x xs)
  have "f x \<notin> fst ` set acc" using Cons.prems by auto
  then have "AList.update (f x) (g x) acc = acc @ [(f x, g x)]" by (induction acc) auto
  then show ?case using Cons by auto
qed

lemma encode_optional_result:
  assumes "claims_dict xs" "encode_optional_entries xs = Inr ys"
  shows "ys = map (\<lambda>(k, e). (key_encode k, e)) xs \<and> (\<forall>k e. (k, Some e) \<in> set xs \<longrightarrow> entry_ok e)"
proof -
  obtain enc where enc: "encode_target_entries (present_entries xs) = Inr enc"
    and ys: "ys = fold (\<lambda>(k, e). AList.update (key_encode k) (if e = None then None else map_of enc (key_encode k))) xs []"
    using assms(2) by (auto simp: encode_optional_entries_def bindE_Inr_iff)
  note r = encode_target_result [OF enc]
  let ?f = "key_encode \<circ> fst" and ?g = "\<lambda>(k, e). if e = None then None else map_of enc (key_encode k)"
  have "ys = fold (\<lambda>x. AList.update (?f x) (?g x)) xs []" unfolding ys by (simp add: case_prod_beta')
  also have "\<dots> = map (\<lambda>x. (?f x, ?g x)) xs" using fold_update_fresh [OF claims_dict_codes [OF assms(1)], of "[]"] by simp
  also have "\<dots> = map (\<lambda>(k, e). (key_encode k, e)) xs"
  proof (rule map_cong [OF refl])
    fix x assume x: "x \<in> set xs"
    obtain k e where ke: "x = (k, e)" by (cases x)
    show "(?f x, ?g x) = (case x of (k, e) \<Rightarrow> (key_encode k, e))"
    proof (cases e)
      case (Some d)
      then have "(key_encode k, d) \<in> set enc" using x ke r by (force simp: present_entries_mem)
      then have "map_of enc (key_encode k) = Some d" using r by (metis map_of_is_SomeI)
      then show ?thesis using ke Some by simp
    qed (simp add: ke)
  qed
  finally have "ys = map (\<lambda>(k, e). (key_encode k, e)) xs" .
  moreover have "entry_ok e" if "(k, Some e) \<in> set xs" for k e
    using that r by (auto simp: list_all_iff present_entries_mem)
  ultimately show ?thesis by blast
qed

lemma all_match_iff: "all_match (map (\<lambda>(k, e). (key_encode k, e)) xs) es \<longleftrightarrow> matches xs (map_of es)"
  by (auto simp: all_match_def matches_def list_all_iff)

lemma map_of_apply:
  "map_of (apply_replacements (map (\<lambda>(k, e). (key_encode k, e)) xs) es) = write_claims xs (map_of es)"
proof (induction xs arbitrary: es)
  case Nil
  then show ?case by (simp add: apply_replacements_def)
next
  case (Cons x xs)
  obtain k e where x: "x = (k, e)" by (cases x)
  show ?case using Cons by (cases e) (simp_all add: x apply_replacements_def fun_upd_def)
qed

text \<open>Well-formed entries stay so, but for the ownership of paths, which the code checks.\<close>

definition entries_ok :: "entries \<Rightarrow> bool" where
  "entries_ok es = (distinct (map fst es) \<and> (\<forall>(k, e)\<in>set es. stored_key k \<and> entry_ok e))"

lemma manifest_ok_iff: "manifest_ok es \<longleftrightarrow> entries_ok es \<and> assert_unique_artifact_paths es = Inr ()"
  unfolding manifest_ok_def entries_ok_def using assert_unique_iff by blast

lemma mem_update: "(c, d) \<in> set (AList.update k e es) \<Longrightarrow> c = k \<and> d = e \<or> (c, d) \<in> set es"
  by (induction es) (auto split: if_splits)

lemma entries_ok_update: "entries_ok es \<Longrightarrow> stored_key k \<Longrightarrow> entry_ok e \<Longrightarrow> entries_ok (AList.update k e es)"
  using mem_update [of _ _ k e es] by (fastforce simp: entries_ok_def AList.distinct_update)

lemma entries_ok_delete: "entries_ok es \<Longrightarrow> entries_ok (AList.delete k es)"
  by (auto simp: entries_ok_def AList.delete_eq distinct_map_filter)

lemma entries_ok_apply:
  "entries_ok es \<Longrightarrow> list_all key_ok (map fst xs) \<Longrightarrow> \<forall>k e. (k, Some e) \<in> set xs \<longrightarrow> entry_ok e \<Longrightarrow>
     entries_ok (apply_replacements (map (\<lambda>(k, e). (key_encode k, e)) xs) es)"
proof (induction xs arbitrary: es)
  case Nil
  then show ?case by (simp add: apply_replacements_def)
next
  case (Cons x xs)
  obtain k e where x: "x = (k, e)" by (cases x)
  let ?es = "case e of None \<Rightarrow> AList.delete (key_encode k) es | Some d \<Rightarrow> AList.update (key_encode k) d es"
  have "entries_ok ?es"
    using Cons.prems x by (cases e) (auto intro: entries_ok_delete entries_ok_update stored_key_encode)
  then have "entries_ok (apply_replacements (map (\<lambda>(k, e). (key_encode k, e)) xs) ?es)"
    using Cons.prems by (intro Cons.IH) auto
  then show ?case by (simp add: x apply_replacements_def)
qed

lemma manifest_ok_Nil [simp]: "manifest_ok []"
  by (simp add: manifest_ok_def unique_paths_def)

lemma manifest_ok_delete: "manifest_ok es \<Longrightarrow> manifest_ok (AList.delete k es)"
  using entries_ok_delete [of es k]
  by (auto simp: manifest_ok_def entries_ok_def unique_paths_def AList.delete_eq distinct_map_filter)

section \<open>The adapter keeps the contract\<close>

definition memory_view :: "memory \<Rightarrow> claims" where
  "memory_view s = map_of (mm_entries s)"

definition memory_has :: "memory \<Rightarrow> string \<Rightarrow> bool" where
  "memory_has s p = (p \<in> set (mm_artifacts s))"

definition memory_good :: "memory \<Rightarrow> bool" where
  "memory_good s = manifest_ok (mm_entries s)"

lemma memory_cases [simp]:
  "memory_view (s\<lparr>mm_entries := es\<rparr>) = map_of es"
  "memory_has (s\<lparr>mm_entries := es\<rparr>) = memory_has s"
  "memory_good (s\<lparr>mm_entries := es\<rparr>) = manifest_ok es"
  by (simp_all add: memory_view_def memory_has_def memory_good_def fun_eq_iff)

lemma memory_put_cases:
  assumes "memory_good s" "key_ok k" "entry_ok e" "memory_put k e s = (r, t)"
  obtains (Same) "map_of (mm_entries s) (key_encode k) = Some e" "r = Inr False" "t = s"
    | (Refused) x where "r = Inl x" "t = s"
    | (Written) "map_of (mm_entries s) (key_encode k) \<noteq> Some e" "r = Inr True"
        "t = s\<lparr>mm_entries := AList.update (key_encode k) e (mm_entries s)\<rparr>"
        "manifest_ok (AList.update (key_encode k) e (mm_entries s))"
proof -
  have "entries_ok (AList.update (key_encode k) e (mm_entries s))"
    using assms(1-3) by (intro entries_ok_update stored_key_encode) (simp_all add: memory_good_def manifest_ok_iff)
  then show ?thesis
    using assms(4) that by (auto simp: memory_put_def Let_def manifest_ok_iff split: if_splits sum.splits)
qed

lemma memory_replace_cases:
  assumes "memory_good s" "claims_dict xs" "claims_dict ys" "memory_replace_if xs ys s = (r, t)"
  obtains (Refused) x where "r = Inl x" "t = s"
    | (Differs) "\<not> matches xs (memory_view s)" "r = Inr False" "t = s"
    | (Same) "matches xs (memory_view s)" "write_claims ys (memory_view s) = memory_view s" "r = Inr False" "t = s"
    | (Written) es where "matches xs (memory_view s)" "map_of es = write_claims ys (memory_view s)" "r = Inr True"
        "t = s\<lparr>mm_entries := es\<rparr>" "manifest_ok es"
proof (cases "encode_optional_entries xs")
  case (Inl x)
  show ?thesis by (rule that(1) [of x]) (use assms(4) Inl in \<open>simp_all add: memory_replace_if_def\<close>)
next
  case (Inr exs)
  note ex = encode_optional_result [OF assms(2) Inr]
  show ?thesis
  proof (cases "encode_optional_entries ys")
    case (Inl y)
    show ?thesis by (rule that(1) [of y]) (use assms(4) Inr Inl in \<open>simp_all add: memory_replace_if_def\<close>)
  next
    case ey: (Inr eys)
    note r = encode_optional_result [OF assms(3) ey]
    let ?es = "apply_replacements eys (mm_entries s)"
    have v: "map_of ?es = write_claims ys (memory_view s)" using r by (simp add: map_of_apply memory_view_def)
    have m: "all_match exs (mm_entries s) = matches xs (memory_view s)" using ex by (simp add: all_match_iff memory_view_def)
    have ok: "entries_ok ?es"
      using r assms(1,3) by (auto intro!: entries_ok_apply simp: memory_good_def manifest_ok_iff claims_dict_def)
    have d: "dict_eq ?es (mm_entries s) \<longleftrightarrow> write_claims ys (memory_view s) = memory_view s"
      using ok assms(1) dict_eq_iff [of ?es "mm_entries s"] v
      by (simp add: entries_ok_def memory_good_def manifest_ok_def memory_view_def)
    have run: "(if \<not> matches xs (memory_view s) then (Inr False, s)
        else if write_claims ys (memory_view s) = memory_view s then (Inr False, s)
        else case assert_unique_artifact_paths ?es of Inl x \<Rightarrow> (Inl x, s)
             | Inr _ \<Rightarrow> (Inr True, s\<lparr>mm_entries := ?es\<rparr>)) = (r, t)"
      using assms(4) by (simp only: memory_replace_if_def Inr ey sum.case Let_def m d)
    consider "\<not> matches xs (memory_view s)"
      | "matches xs (memory_view s)" "write_claims ys (memory_view s) = memory_view s"
      | "matches xs (memory_view s)" "write_claims ys (memory_view s) \<noteq> memory_view s"
      by blast
    then show ?thesis
    proof cases
      case 1
      then show ?thesis using run by (intro that(2)) simp_all
    next
      case 2
      then show ?thesis using run by (intro that(3)) simp_all
    next
      case 3
      show ?thesis
      proof (cases "assert_unique_artifact_paths ?es")
        case (Inl x)
        then show ?thesis using run 3 by (intro that(1) [of x]) simp_all
      next
        case (Inr u)
        then show ?thesis using run 3 v ok by (intro that(4) [of ?es]) (simp_all add: manifest_ok_iff)
      qed
    qed
  qed
qed

interpretation memory: manifest_storage memory_adapter memory_view memory_has memory_good
proof
  fix s t :: memory and p ob
  assume "memory_good s" "inspect_artifact memory_adapter p s = (ob, t)"
  then show "memory_good t \<and> memory_view t = memory_view s \<and> memory_has t = memory_has s \<and>
      (\<forall>b. ob = Inr b \<longrightarrow> ob_blocker b = None \<longrightarrow>
        normalize_artifact_path p = Inr (ob_path b) \<and> ob_present b = memory_has s (ob_path b))"
    by (auto simp: memory_adapter_def memory_inspect_def memory_has_def invalid_path_def split: sum.splits)
next
  fix s t :: memory and k found
  assume "memory_good s" "get_entry memory_adapter k s = (found, t)"
  then show "memory_good t \<and> memory_view t = memory_view s \<and> memory_has t = memory_has s \<and>
      (\<forall>x. found = Inr x \<longrightarrow> x = memory_view s (key_encode k))"
    by (auto simp: memory_adapter_def memory_get_def memory_view_def)
next
  fix s t :: memory and k e r
  assume a: "memory_good s" "key_ok k" "entry_ok e" and run: "put_entry memory_adapter k e s = (r, t)"
  from run have "memory_put k e s = (r, t)" by (simp add: memory_adapter_def)
  with a show "memory_good t \<and> memory_view t \<in> {memory_view s, (memory_view s)(key_encode k \<mapsto> e)} \<and>
      (\<forall>b. r = Inr b \<longrightarrow> memory_view t = (memory_view s)(key_encode k \<mapsto> e) \<and> b = (memory_view s (key_encode k) \<noteq> Some e))"
    by (cases rule: memory_put_cases) (use a in \<open>simp_all add: memory_view_def fun_upd_idem\<close>)
next
  fix s t :: memory and k r
  assume "memory_good s" "delete_entry memory_adapter k s = (r, t)"
  then show "memory_good t \<and> memory_view t \<in> {memory_view s, (memory_view s)(key_encode k := None)} \<and>
      (\<forall>b. r = Inr b \<longrightarrow> memory_view t = (memory_view s)(key_encode k := None) \<and> b = (memory_view s (key_encode k) \<noteq> None))"
    by (auto simp: memory_adapter_def memory_delete_def memory_view_def memory_good_def manifest_ok_delete)
next
  fix s t :: memory and xs ys r
  assume a: "memory_good s" "claims_dict xs" "claims_dict ys" and run: "replace_entries_if_matches memory_adapter xs ys s = (r, t)"
  from run have "memory_replace_if xs ys s = (r, t)" by (simp add: memory_adapter_def)
  with a show "memory_good t \<and> (memory_view t = memory_view s \<or> matches xs (memory_view s) \<and> memory_view t = write_claims ys (memory_view s)) \<and>
      (r = Inr True \<longrightarrow> matches xs (memory_view s) \<and> memory_view t = write_claims ys (memory_view s)) \<and>
      (r = Inr False \<longrightarrow> memory_view t = memory_view s \<and> (matches xs (memory_view s) \<longrightarrow> write_claims ys (memory_view s) = memory_view s))"
    by (cases rule: memory_replace_cases) (use a in simp_all)
next
  fix s c e
  assume "memory_good s" "memory_view s c = Some e"
  then show "entry_ok e" by (auto simp: memory_good_def memory_view_def manifest_ok_def dest!: map_of_SomeD)
next
  fix s
  assume "memory_good s"
  then show "owned_once (memory_view s)"
    using unique_paths_iff [of "mm_entries s"] by (simp add: memory_good_def memory_view_def manifest_ok_def)
qed

end
