(* ===== verification/Project_Manifest.thy ===== *)
theory Project_Manifest
  imports Memory_Manifest
begin

text \<open>
  The storage in a project directory (\<open>ProjectArtifactManifestAdapter\<close>), on a POSIX system with
  \<open>O_NOFOLLOW\<close>: the bytes of the manifest file, whether the lock file is there, the tree of the project's
  files, and what the operating system will answer to the calls that may fail, in their order. A call
  fails before or after its effect; what it raises is any exception. The storage keeps the contract
  under every such sequence of answers.

  Other processes are kept out by the lock and are not modelled. A read takes the parsed manifest as a
  fresh parse; the cache in front of it is in \<open>Manifest_Cache\<close>. The fallback without \<open>O_NOFOLLOW\<close> and the
  one for Windows, which compare identities of files, are left out, and so are digests of the
  artifacts' contents.
\<close>

section \<open>The project directory\<close>

datatype file_node =
    Regular_file
  | Directory "(string \<times> file_node) list"
  | Symlink
  | Special_file
  | Unreadable

datatype os_answer = Works | Fails_before manifest_error | Fails_after manifest_error

record project =
  pm_content :: "string option"
  pm_lock :: bool
  pm_tree :: file_node
  pm_answers :: "os_answer list"

text \<open>A call of the operating system: an exhausted list of answers means that it works.\<close>

definition os_call :: "(project \<Rightarrow> project) \<Rightarrow> (project, unit) call" where
  "os_call eff s =
     (case pm_answers s of
        [] \<Rightarrow> (Inr (), eff s)
      | a # rest \<Rightarrow>
          let u = s\<lparr>pm_answers := rest\<rparr> in
          case a of
            Works \<Rightarrow> (Inr (), eff u)
          | Fails_before e \<Rightarrow> (Inl e, u)
          | Fails_after e \<Rightarrow> (Inl e, eff u))"

section \<open>Looking at an artifact\<close>

datatype sighting = Found | Absent | Barred string

text \<open>
  \<open>_inspect_artifact_posix\<close>: directories are opened one in the other without following links, then the
  file. A component that is no directory shows as \<open>ENOTDIR\<close>, which is reported like a link.
\<close>

fun sight :: "file_node \<Rightarrow> string list \<Rightarrow> sighting" where
  "sight (Directory kids) [] = Barred ''artifact_not_regular_file''"
| "sight (Directory kids) [p] =
     (case map_of kids p of
        None \<Rightarrow> Absent
      | Some Regular_file \<Rightarrow> Found
      | Some (Directory _) \<Rightarrow> Barred ''artifact_not_regular_file''
      | Some Symlink \<Rightarrow> Barred ''artifact_symlink''
      | Some Special_file \<Rightarrow> Barred ''artifact_not_regular_file''
      | Some Unreadable \<Rightarrow> Barred ''artifact_unreadable'')"
| "sight (Directory kids) (p # q # ps) =
     (case map_of kids p of
        None \<Rightarrow> Absent
      | Some (Directory inner) \<Rightarrow> sight (Directory inner) (q # ps)
      | Some Unreadable \<Rightarrow> Barred ''artifact_unreadable''
      | Some _ \<Rightarrow> Barred ''artifact_symlink'')"
| "sight _ ps = Barred ''artifact_unreadable''"

definition project_inspect :: "string \<Rightarrow> (project, observation) call" where
  "project_inspect p s =
     (case normalize_artifact_path p of
        Inl _ \<Rightarrow> (Inr (invalid_path p), s)
      | Inr q \<Rightarrow>
          (case sight (pm_tree s) (split_char (CHR ''/'') q) of
             Found \<Rightarrow> (Inr \<lparr>ob_path = q, ob_present = True, ob_blocker = None\<rparr>, s)
           | Absent \<Rightarrow> (Inr \<lparr>ob_path = q, ob_present = False, ob_blocker = None\<rparr>, s)
           | Barred code \<Rightarrow>
               (Inr \<lparr>ob_path = q, ob_present = False, ob_blocker = Some \<lparr>bl_code = code, bl_path = q\<rparr>\<rparr>, s)))"

section \<open>The lock and the file\<close>

text \<open>\<open>_locked\<close>: the lock file is made and locked, and unlocked in a \<open>finally\<close>.\<close>

definition locked :: "(project, 'a) call \<Rightarrow> (project, 'a) call" where
  "locked body s =
     (case os_call (\<lambda>s. s\<lparr>pm_lock := True\<rparr>) s of
        (Inl e, t) \<Rightarrow> (Inl e, t)
      | (Inr _, t) \<Rightarrow>
          (case body t of
             (r, u) \<Rightarrow>
               (case os_call (\<lambda>s. s) u of
                  (Inl e, v) \<Rightarrow> (Inl e, v)
                | (Inr _, v) \<Rightarrow> (r, v))))"

definition parse_content :: "bool \<Rightarrow> (project, entries \<times> string option) call" where
  "parse_content validate s =
     (case pm_content s of
        None \<Rightarrow> (Inr ([], None), s)
      | Some raw \<Rightarrow>
          (case parse_manifest validate raw of
             Inl e \<Rightarrow> (Inl e, s)
           | Inr es \<Rightarrow> (Inr (es, Some raw), s)))"

definition load_unlocked :: "bool \<Rightarrow> (project, entries \<times> string option) call" where
  "load_unlocked validate = and_then (os_call (\<lambda>s. s)) (\<lambda>_. parse_content validate)"

definition atomic_replace :: "string \<Rightarrow> (project, unit) call" where
  "atomic_replace raw = os_call (\<lambda>s. s\<lparr>pm_content := Some raw\<rparr>)"

definition unlink_manifest :: "(project, unit) call" where
  "unlink_manifest = os_call (\<lambda>s. s\<lparr>pm_content := None\<rparr>)"

text \<open>
  \<open>_load_readonly\<close>: under the lock where there is a lock file; otherwise two reads that must agree, each
  followed by another look for the lock file.
\<close>

definition lock_exists :: "(project, bool) call" where
  "lock_exists = and_then (os_call (\<lambda>s. s)) (\<lambda>_ s. (Inr (pm_lock s), s))"

definition load_readonly :: "(project, entries \<times> string option) call" where
  "load_readonly =
     and_then lock_exists (\<lambda>has_lock.
       if has_lock then locked (load_unlocked True)
       else and_then (load_unlocked True) (\<lambda>original.
            and_then lock_exists (\<lambda>appeared.
              if appeared then locked (load_unlocked True)
              else and_then (load_unlocked True) (\<lambda>repeated.
                   and_then lock_exists (\<lambda>appeared2.
                     if appeared2 then locked (load_unlocked True)
                     else if snd original \<noteq> snd repeated then raising Manifest_error
                     else returning original)))))"

section \<open>The operations\<close>

text \<open>The end of every operation that changes some entries: nothing is written where the bytes are the same.\<close>

definition write_manifest :: "entries \<Rightarrow> string option \<Rightarrow> (project, bool) call" where
  "write_manifest es original =
     and_then (lifting (serialize_manifest es)) (\<lambda>raw.
       if original = Some raw then returning False
       else and_then (atomic_replace raw) (\<lambda>_. returning True))"

definition project_get :: "artifact_key \<Rightarrow> (project, manifest_entry option) call" where
  "project_get key = and_then load_readonly (\<lambda>(es, _). returning (map_of es (key_encode key)))"

definition project_snapshot :: "(project, (artifact_key \<times> manifest_entry) list) call" where
  "project_snapshot = and_then load_readonly (\<lambda>(es, _). lifting (decode_entries es))"

definition project_put :: "artifact_key \<Rightarrow> manifest_entry \<Rightarrow> (project, bool) call" where
  "project_put key e =
     locked (and_then (load_unlocked True) (\<lambda>(es, original).
       if map_of es (key_encode key) = Some e \<and> original \<noteq> None then returning False
       else write_manifest (AList.update (key_encode key) e es) original))"

definition project_delete :: "artifact_key \<Rightarrow> (project, bool) call" where
  "project_delete key =
     locked (and_then (load_unlocked True) (\<lambda>(es, original).
       if map_of es (key_encode key) = None then returning False
       else let rest = AList.delete (key_encode key) es in
            if rest = [] then and_then unlink_manifest (\<lambda>_. returning True)
            else write_manifest rest original))"

definition project_replace_if ::
    "(artifact_key \<times> manifest_entry option) list \<Rightarrow> (artifact_key \<times> manifest_entry option) list \<Rightarrow> (project, bool) call" where
  "project_replace_if expected replacements =
     and_then (lifting (encode_optional_entries expected)) (\<lambda>xs.
     and_then (lifting (encode_optional_entries replacements)) (\<lambda>ys.
       locked (and_then (load_unlocked True) (\<lambda>(es, original).
         if \<not> all_match xs es then returning False
         else let updated = apply_replacements ys es in
              if updated = [] then and_then unlink_manifest (\<lambda>_. returning (original \<noteq> None))
              else write_manifest updated original))))"

definition project_replace_entry_if ::
    "artifact_key \<Rightarrow> manifest_entry \<Rightarrow> manifest_entry option \<Rightarrow> (project, bool) call" where
  "project_replace_entry_if key expected replacement =
     project_replace_if [(key, Some expected)] [(key, replacement)]"

definition project_replace_snapshot ::
    "(artifact_key \<times> manifest_entry) list \<Rightarrow> (artifact_key \<times> manifest_entry) list \<Rightarrow> (project, bool) call" where
  "project_replace_snapshot expected replacement =
     and_then (lifting (encode_target_entries expected)) (\<lambda>xs.
     and_then (lifting (encode_target_entries replacement)) (\<lambda>ys.
     and_then (lifting (serialize_manifest ys)) (\<lambda>raw.
       locked (and_then (load_unlocked True) (\<lambda>(es, original).
         if \<not> dict_eq es xs then returning False
         else if dict_eq es ys then returning True
         else if ys = [] then and_then unlink_manifest (\<lambda>_. returning True)
         else if original = Some raw then returning True
         else and_then (atomic_replace raw) (\<lambda>_. returning True))))))"

text \<open>Every entry of a target state must have its file.\<close>

fun check_present :: "entries \<Rightarrow> (project, unit) call" where
  "check_present [] = returning ()"
| "check_present ((c, e) # es) =
     and_then (project_inspect (artifact_path e)) (\<lambda>ob.
       if ob_blocker ob \<noteq> None then raising Registration_error
       else if \<not> ob_present ob then raising Registration_error
       else check_present es)"

definition project_replace_all :: "(artifact_key \<times> manifest_entry) list \<Rightarrow> (project, bool) call" where
  "project_replace_all targets =
     and_then (lifting (encode_target_entries targets)) (\<lambda>ys.
     and_then (check_present ys) (\<lambda>_.
     and_then (lifting (serialize_manifest ys)) (\<lambda>raw.
       locked (and_then (load_unlocked True) (\<lambda>(es, original).
         if original = Some raw then returning False
         else and_then (atomic_replace raw) (\<lambda>_. returning True))))))"

text \<open>Recovery of a manifest that cannot be read, or whose paths have several owners.\<close>

definition replace_unreadable_entries :: "(artifact_key \<times> manifest_entry) list \<Rightarrow> (project, bool) call" where
  "replace_unreadable_entries targets =
     and_then (lifting (encode_target_entries targets)) (\<lambda>ys.
     and_then (check_present ys) (\<lambda>_.
     and_then (lifting (serialize_manifest ys)) (\<lambda>raw.
       locked (\<lambda>s.
         case load_unlocked True s of
           (Inl e, t) \<Rightarrow>
             if is_manifest_error e then and_then (atomic_replace raw) (\<lambda>_. returning True) t else raising e t
         | (Inr (es, _), t) \<Rightarrow>
             if dict_eq es ys then returning False t else raising Manifest_error t))))"

definition repair_path_conflicts ::
    "((artifact_key \<times> manifest_entry) list \<Rightarrow> manifest_error + (artifact_key \<times> manifest_entry) list) \<Rightarrow> (project, bool) call" where
  "repair_path_conflicts repair =
     locked (and_then (load_unlocked False) (\<lambda>(es, _).
       case assert_unique_artifact_paths es of
         Inr _ \<Rightarrow> raising Manifest_error
       | Inl _ \<Rightarrow>
           and_then (lifting (decode_entries es)) (\<lambda>decoded.
           and_then (lifting (repair decoded)) (\<lambda>repaired.
           and_then (lifting (encode_target_entries repaired)) (\<lambda>ys.
           and_then (lifting (serialize_manifest ys)) (\<lambda>raw.
           and_then (atomic_replace raw) (\<lambda>_. returning True)))))))"

definition project_adapter :: "project adapter" where
  "project_adapter =
     \<lparr>inspect_artifact = project_inspect, get_entry = project_get, snapshot_entries = project_snapshot,
      put_entry = project_put, delete_entry = project_delete, replace_entries_if_matches = project_replace_if,
      replace_snapshot_if_matches = project_replace_snapshot, replace_entries_atomically = project_replace_all\<rparr>"

section \<open>What a call leaves\<close>

text \<open>Two states with the same files: they differ in the lock file and the answers to come.\<close>

definition same_files :: "project \<Rightarrow> project \<Rightarrow> bool" where
  "same_files s t = (pm_content t = pm_content s \<and> pm_tree t = pm_tree s)"

lemma same_files_refl [simp]: "same_files s s"
  by (simp add: same_files_def)

lemma same_files_trans: "same_files s t \<Longrightarrow> same_files t u \<Longrightarrow> same_files s u"
  by (simp add: same_files_def)

lemma os_call_cases:
  assumes "os_call eff s = (r, t)"
  obtains (Effect) rest where "t = eff (s\<lparr>pm_answers := rest\<rparr>)" "r = Inr () \<or> (\<exists>e. r = Inl e)"
    | (None) rest e where "t = s\<lparr>pm_answers := rest\<rparr>" "r = Inl e"
proof (cases "pm_answers s")
  case Nil
  then have same: "s\<lparr>pm_answers := []\<rparr> = s" by (intro project.equality) simp_all
  have "t = eff s" "r = Inr ()" using assms Nil by (simp_all add: os_call_def)
  then show ?thesis using that(1) [of "[]"] unfolding same by blast
next
  case (Cons a rest)
  then show ?thesis using assms that by (cases a) (auto simp: os_call_def Let_def)
qed

lemma os_call_id: "os_call (\<lambda>s. s) s = (r, t) \<Longrightarrow> same_files s t \<and> pm_lock t = pm_lock s"
  by (erule os_call_cases) (auto simp: same_files_def)

lemma locked_cases:
  assumes "locked body s = (r, t)"
  obtains (Refused) e where "r = Inl e" "same_files s t"
    | (Ran) u q v where "same_files s u" "body u = (q, v)" "same_files v t" "r = q \<or> (\<exists>e. r = Inl e)"
proof -
  obtain a u where a: "os_call (\<lambda>s. s\<lparr>pm_lock := True\<rparr>) s = (a, u)" by fastforce
  then have u: "same_files s u" by (rule os_call_cases) (auto simp: same_files_def)
  show ?thesis
  proof (cases a)
    case (Inl e)
    then show ?thesis using assms a u that(1) by (auto simp: locked_def)
  next
    case (Inr x)
    obtain q v where q: "body u = (q, v)" by fastforce
    obtain b w where b: "os_call (\<lambda>s. s) v = (b, w)" by fastforce
    then have "same_files v w" using os_call_id by blast
    moreover have "t = w" "r = q \<or> (\<exists>e. r = Inl e)" using assms a Inr q b by (auto simp: locked_def split: sum.splits)
    ultimately show ?thesis using that(2) u q by blast
  qed
qed

text \<open>What the file holds, as claims: nothing where it is missing or cannot be read.\<close>

definition stored_entries :: "project \<Rightarrow> entries" where
  "stored_entries s =
     (case pm_content s of
        None \<Rightarrow> []
      | Some raw \<Rightarrow> (case parse_manifest True raw of Inl _ \<Rightarrow> [] | Inr es \<Rightarrow> es))"

definition project_view :: "project \<Rightarrow> claims" where
  "project_view s = map_of (stored_entries s)"

definition project_has :: "project \<Rightarrow> string \<Rightarrow> bool" where
  "project_has s p = (sight (pm_tree s) (split_char (CHR ''/'') p) = Found)"

lemma stored_entries_ok: "manifest_ok (stored_entries s)"
  by (auto simp: stored_entries_def split: option.splits sum.splits intro: parse_manifest_ok)

lemma same_files_view: "same_files s t \<Longrightarrow> project_view t = project_view s \<and> project_has t = project_has s \<and> stored_entries t = stored_entries s"
  by (simp add: same_files_def project_view_def stored_entries_def project_has_def fun_eq_iff)

lemma load_unlocked_result:
  assumes "load_unlocked True s = (r, t)"
  shows "same_files s t \<and> pm_lock t = pm_lock s \<and>
     (\<forall>es original. r = Inr (es, original) \<longrightarrow> es = stored_entries s \<and> original = pm_content s)"
  using assms unfolding load_unlocked_def
proof (cases rule: and_then_cases)
  case (Raises e)
  then show ?thesis using os_call_id by fastforce
next
  case (Returns x u)
  then have "same_files s u" "pm_lock u = pm_lock s" using os_call_id by blast+
  then show ?thesis using Returns(2)
    by (auto simp: parse_content_def stored_entries_def same_files_def split: option.splits sum.splits)
qed

lemma load_readonly_result:
  assumes "load_readonly s = (r, t)"
  shows "same_files s t \<and> (\<forall>es original. r = Inr (es, original) \<longrightarrow> es = stored_entries s \<and> original = pm_content s)"
    (is "?R s r t")
proof -
  have look: "same_files u v" if "lock_exists u = (q, v)" for u q v
    using that unfolding lock_exists_def
    by (cases rule: and_then_cases) (use os_call_id in \<open>auto dest: os_call_id\<close>)
  have step: "?R s q v" if "same_files s u" "load_unlocked True u = (q, v)" for u q v
    using load_unlocked_result [OF that(2)] same_files_trans [OF that(1)] same_files_view [OF that(1)] that(1)
    by (auto simp: same_files_def)
  have lock: "?R s q v" if u: "same_files s u" and run: "locked (load_unlocked True) u = (q, v)" for u q v
    using run
  proof (cases rule: locked_cases)
    case (Refused e)
    then show ?thesis using same_files_trans [OF u] by auto
  next
    case (Ran w q' w')
    have "?R s q' w'" by (rule step [OF same_files_trans [OF u Ran(1)] Ran(2)])
    then show ?thesis using Ran(3,4) same_files_trans by blast
  qed
  from assms show ?thesis unfolding load_readonly_def
  proof (cases rule: and_then_cases)
    case (Raises e)
    then show ?thesis using look by auto
  next
    case (Returns b u)
    note u = look [OF Returns(1)]
    show ?thesis
    proof (cases b)
      case True
      then show ?thesis using lock [OF u] Returns(2) by simp
    next
      case False
      have "and_then (load_unlocked True) (\<lambda>original.
            and_then lock_exists (\<lambda>appeared.
              if appeared then locked (load_unlocked True)
              else and_then (load_unlocked True) (\<lambda>repeated.
                   and_then lock_exists (\<lambda>appeared2.
                     if appeared2 then locked (load_unlocked True)
                     else if snd original \<noteq> snd repeated then raising Manifest_error
                     else returning original)))) u = (r, t)" using Returns(2) False by simp
      then show ?thesis
      proof (cases rule: and_then_cases)
        case (Raises e)
        then show ?thesis using step [OF u Raises(1)] by simp
      next
        case (Returns original u1)
        note o = step [OF u Returns(1)]
        from Returns(2) show ?thesis
        proof (cases rule: and_then_cases)
          case (Raises e)
          then show ?thesis using look o same_files_trans by blast
        next
          case (Returns b1 u2)
          have u2: "same_files s u2" using look [OF Returns(1)] o same_files_trans by blast
          show ?thesis
          proof (cases b1)
            case True
            then show ?thesis using lock [OF u2] Returns(2) by simp
          next
            case False
            have "and_then (load_unlocked True) (\<lambda>repeated.
                   and_then lock_exists (\<lambda>appeared2.
                     if appeared2 then locked (load_unlocked True)
                     else if snd original \<noteq> snd repeated then raising Manifest_error
                     else returning original)) u2 = (r, t)" using Returns(2) False by simp
            then show ?thesis
            proof (cases rule: and_then_cases)
              case (Raises e)
              then show ?thesis using step [OF u2 Raises(1)] by simp
            next
              case (Returns repeated u3)
              note p = step [OF u2 Returns(1)]
              from Returns(2) show ?thesis
              proof (cases rule: and_then_cases)
                case (Raises e)
                then show ?thesis using look p same_files_trans by blast
              next
                case (Returns b2 u4)
                have u4: "same_files s u4" using look [OF Returns(1)] p same_files_trans by blast
                show ?thesis
                  using Returns(2) lock [OF u4, of r t] u4 o by (cases original) (auto split: if_splits)
              qed
            qed
          qed
        qed
      qed
    qed
  qed
qed

lemma entries_ok_written: "entries_ok es \<Longrightarrow> serialize_manifest es = Inr raw \<Longrightarrow> manifest_ok es"
  by (auto simp: serialize_manifest_def bindE_Inr_iff manifest_ok_iff)

lemma view_written:
  assumes "entries_ok es" "serialize_manifest es = Inr raw" "pm_content s = Some raw"
  shows "stored_entries s = sort_key fst es" "project_view s = map_of es"
proof -
  note ok = entries_ok_written [OF assms(1,2)]
  show st: "stored_entries s = sort_key fst es" using parse_serialize [OF ok assms(2)] assms(3) by (simp add: stored_entries_def)
  have "distinct (map fst es)" using ok by (simp add: manifest_ok_def)
  then show "project_view s = map_of es" using map_of_sort_key_fst [of es] by (simp add: project_view_def st fun_eq_iff)
qed

lemma write_manifest_result:
  assumes "entries_ok es" "write_manifest es (pm_content s) s = (r, t)"
  shows "pm_tree t = pm_tree s \<and> project_view t \<in> {project_view s, map_of es} \<and>
    (r = Inr True \<longrightarrow> project_view t = map_of es) \<and> (r = Inr False \<longrightarrow> project_view t = project_view s \<and> map_of es = project_view s)"
  using assms(2) unfolding write_manifest_def
proof (cases rule: and_then_cases)
  case (Raises e)
  then show ?thesis by simp
next
  case (Returns raw u)
  then have u: "u = s" and raw: "serialize_manifest es = Inr raw" by auto
  show ?thesis
  proof (cases "pm_content s = Some raw")
    case True
    then show ?thesis using Returns(2) u view_written [OF assms(1) raw True] by simp
  next
    case False
    then have "and_then (atomic_replace raw) (\<lambda>_. returning True) s = (r, t)" using Returns(2) u by simp
    then show ?thesis unfolding atomic_replace_def
    proof (cases rule: and_then_cases)
      case (Raises e)
      from Raises(1) show ?thesis
      proof (cases rule: os_call_cases)
        case (Effect rest)
        then show ?thesis using view_written [OF assms(1) raw, of t] Raises(2) by simp
      next
        case (None rest e')
        then show ?thesis using same_files_view [of s t] Raises(2) by (simp add: same_files_def)
      qed
    next
      case (Returns x v)
      from Returns(1) show ?thesis
      proof (cases rule: os_call_cases)
        case (Effect rest)
        then show ?thesis using view_written [OF assms(1) raw, of v] Returns(2) by simp
      next
        case (None rest e')
        then show ?thesis by simp
      qed
    qed
  qed
qed

text \<open>What a body that reads the file first and then changes it leaves, under the lock.\<close>

lemma locked_change:
  assumes body: "\<And>u q v. same_files s u \<Longrightarrow> f (stored_entries u, pm_content u) u = (q, v) \<Longrightarrow>
      project_view v \<in> {project_view s, m} \<and> (\<forall>b. q = Inr b \<longrightarrow> P b (project_view v))"
    and run: "locked (and_then (load_unlocked True) f) s = (r, t)"
  shows "project_view t \<in> {project_view s, m} \<and> (\<forall>b. r = Inr b \<longrightarrow> P b (project_view t))"
  using run
proof (cases rule: locked_cases)
  case (Refused e)
  then show ?thesis using same_files_view [of s t] by simp
next
  case (Ran u q v)
  note t = same_files_view [OF Ran(3)]
  from Ran(2) have "project_view v \<in> {project_view s, m} \<and> (\<forall>b. q = Inr b \<longrightarrow> P b (project_view v))"
  proof (cases rule: and_then_cases)
    case (Raises e)
    have "same_files u v" using load_unlocked_result [OF Raises(1)] by simp
    then show ?thesis using same_files_view [OF same_files_trans [OF Ran(1)], of v] Raises(2) by simp
  next
    case (Returns x w)
    have w: "same_files u w" "x = (stored_entries u, pm_content u)" using load_unlocked_result [OF Returns(1)] by (cases x; simp)+
    have "x = (stored_entries w, pm_content w)" using w same_files_view [OF w(1)] by (simp add: same_files_def)
    then show ?thesis using body [OF same_files_trans [OF Ran(1) w(1)], of q v] Returns(2) by simp
  qed
  then show ?thesis using Ran(4) t by auto
qed

lemma unlink_result:
  assumes "and_then unlink_manifest (\<lambda>_. returning b) s = (r, t)"
  shows "project_view t \<in> {project_view s, Map.empty} \<and> (\<forall>c. r = Inr c \<longrightarrow> c = b \<and> pm_content t = None \<and> project_view t = Map.empty)"
  using assms unfolding unlink_manifest_def
proof (cases rule: and_then_cases)
  case (Raises e)
  from Raises(1) show ?thesis
  proof (cases rule: os_call_cases)
    case (Effect rest)
    then show ?thesis using Raises(2) by (simp add: project_view_def stored_entries_def)
  next
    case (None rest e')
    then show ?thesis using same_files_view [of s t] Raises(2) by (simp add: same_files_def)
  qed
next
  case (Returns x v)
  from Returns(1) show ?thesis
  proof (cases rule: os_call_cases)
    case (Effect rest)
    then show ?thesis using Returns(2) by (simp add: project_view_def stored_entries_def)
  qed simp
qed

lemma entries_ok_stored: "entries_ok (stored_entries s)"
  using stored_entries_ok manifest_ok_iff by blast

lemma content_stored: "pm_content s = None \<Longrightarrow> stored_entries s = []"
  by (simp add: stored_entries_def)

lemma project_put_result:
  assumes k: "key_ok k" and e: "entry_ok e" and run: "project_put k e s = (r, t)"
  shows "project_view t \<in> {project_view s, (project_view s)(key_encode k \<mapsto> e)} \<and>
    (\<forall>b. r = Inr b \<longrightarrow> project_view t = (project_view s)(key_encode k \<mapsto> e) \<and> b = (project_view s (key_encode k) \<noteq> Some e))"
  using run unfolding project_put_def
proof (rule locked_change [rotated])
  fix u q v
  assume su: "same_files s u" and f: "(case (stored_entries u, pm_content u) of (es, original) \<Rightarrow>
      if map_of es (key_encode k) = Some e \<and> original \<noteq> None then returning False
      else write_manifest (AList.update (key_encode k) e es) original) u = (q, v)"
  have es: "stored_entries u = stored_entries s" "project_view u = project_view s" using same_files_view [OF su] by simp_all
  have ok: "entries_ok (AList.update (key_encode k) e (stored_entries s))"
    by (rule entries_ok_update [OF entries_ok_stored stored_key_encode [OF k] e])
  show "project_view v \<in> {project_view s, (project_view s)(key_encode k \<mapsto> e)} \<and>
    (\<forall>b. q = Inr b \<longrightarrow> project_view v = (project_view s)(key_encode k \<mapsto> e) \<and> b = (project_view s (key_encode k) \<noteq> Some e))"
  proof (cases "project_view s (key_encode k) = Some e")
    case True
    then have "pm_content u \<noteq> None" using content_stored [of u] es(1)
      by (cases "pm_content u") (simp_all add: project_view_def)
    then have "q = Inr False \<and> v = u" using f True es by (simp add: project_view_def)
    then show ?thesis using True es by (simp add: fun_upd_idem)
  next
    case False
    then have w: "write_manifest (AList.update (key_encode k) e (stored_entries s)) (pm_content u) u = (q, v)"
      using f es by (simp add: project_view_def)
    have m: "map_of (AList.update (key_encode k) e (stored_entries s)) = (project_view s)(key_encode k \<mapsto> e)"
      by (simp add: project_view_def)
    have ne: "(project_view s)(key_encode k \<mapsto> e) \<noteq> project_view s" using False by (metis fun_upd_same)
    note r = write_manifest_result [OF ok w, unfolded m es]
    show ?thesis
    proof (intro conjI allI impI)
      show "project_view v \<in> {project_view s, (project_view s)(key_encode k \<mapsto> e)}" using r by blast
    next
      fix b assume "q = Inr b"
      then have "b" "project_view v = (project_view s)(key_encode k \<mapsto> e)" using r ne by (cases b; simp)+
      then show "project_view v = (project_view s)(key_encode k \<mapsto> e)" "b = (project_view s (key_encode k) \<noteq> Some e)"
        using False by simp_all
    qed
  qed
qed

lemma project_delete_result:
  assumes run: "project_delete k s = (r, t)"
  shows "project_view t \<in> {project_view s, (project_view s)(key_encode k := None)} \<and>
    (\<forall>b. r = Inr b \<longrightarrow> project_view t = (project_view s)(key_encode k := None) \<and> b = (project_view s (key_encode k) \<noteq> None))"
  using run unfolding project_delete_def
proof (rule locked_change [rotated])
  fix u q v
  let ?rest = "AList.delete (key_encode k) (stored_entries s)"
  assume su: "same_files s u" and f: "(case (stored_entries u, pm_content u) of (es, original) \<Rightarrow>
      if map_of es (key_encode k) = None then returning False
      else let rest = AList.delete (key_encode k) es in
           if rest = [] then and_then unlink_manifest (\<lambda>_. returning True)
           else write_manifest rest original) u = (q, v)"
  have es: "stored_entries u = stored_entries s" "project_view u = project_view s" using same_files_view [OF su] by simp_all
  have m: "map_of ?rest = (project_view s)(key_encode k := None)" by (simp add: project_view_def fun_upd_def)
  show "project_view v \<in> {project_view s, (project_view s)(key_encode k := None)} \<and>
    (\<forall>b. q = Inr b \<longrightarrow> project_view v = (project_view s)(key_encode k := None) \<and> b = (project_view s (key_encode k) \<noteq> None))"
  proof (cases "project_view s (key_encode k) = None")
    case True
    then have "q = Inr False \<and> v = u" using f es by (simp add: project_view_def)
    then show ?thesis using True es by (simp add: fun_upd_idem)
  next
    case False
    then obtain x where x: "map_of (stored_entries s) (key_encode k) = Some x" by (auto simp: project_view_def)
    have ne: "(project_view s)(key_encode k := None) \<noteq> project_view s" using False by (metis fun_upd_same)
    show ?thesis
    proof (cases "?rest = []")
      case True
      then have "and_then unlink_manifest (\<lambda>_. returning True) u = (q, v)"
        using f x es True by simp
      moreover have "(project_view s)(key_encode k := None) = Map.empty" using m True by simp
      ultimately show ?thesis using unlink_result [of True u q v] es False by auto
    next
      case rest: False
      then have w: "write_manifest ?rest (pm_content u) u = (q, v)"
        using f x es by (simp add: Let_def)
      note r = write_manifest_result [OF entries_ok_delete [OF entries_ok_stored] w, unfolded m es]
      show ?thesis
      proof (intro conjI allI impI)
        show "project_view v \<in> {project_view s, (project_view s)(key_encode k := None)}" using r by blast
      next
        fix b assume "q = Inr b"
        then have "b" "project_view v = (project_view s)(key_encode k := None)" using r ne by (cases b; simp)+
        then show "project_view v = (project_view s)(key_encode k := None)" "b = (project_view s (key_encode k) \<noteq> None)"
          using False by simp_all
      qed
    qed
  qed
qed

lemma project_replace_result:
  assumes xs: "claims_dict xs" and ys: "claims_dict ys" and run: "project_replace_if xs ys s = (r, t)"
  shows "(project_view t = project_view s \<or> matches xs (project_view s) \<and> project_view t = write_claims ys (project_view s)) \<and>
    (r = Inr True \<longrightarrow> matches xs (project_view s) \<and> project_view t = write_claims ys (project_view s)) \<and>
    (r = Inr False \<longrightarrow> project_view t = project_view s \<and> (matches xs (project_view s) \<longrightarrow> write_claims ys (project_view s) = project_view s))"
  using run unfolding project_replace_if_def
proof (cases rule: and_then_cases)
  case (Raises e)
  then show ?thesis by simp
next
  case (Returns exs s1)
  then have s1: "s1 = s" and ex: "encode_optional_entries xs = Inr exs" by auto
  note exs = encode_optional_result [OF xs ex]
  from Returns(2) show ?thesis unfolding s1
  proof (cases rule: and_then_cases)
    case (Raises e)
    then show ?thesis by simp
  next
    case (Returns eys s2)
    then have s2: "s2 = s" and ey: "encode_optional_entries ys = Inr eys" by auto
    note eys = encode_optional_result [OF ys ey]
    let ?new = "apply_replacements eys (stored_entries s)" and ?old = "project_view s"
    have all: "all_match exs (stored_entries s) = matches xs ?old" using exs by (simp add: all_match_iff project_view_def)
    have m: "map_of ?new = write_claims ys ?old" using eys by (simp add: map_of_apply project_view_def)
    have ok: "entries_ok ?new"
      using eys ys by (auto intro!: entries_ok_apply [OF entries_ok_stored] simp: claims_dict_def)
    let ?P = "\<lambda>b w. (b \<longrightarrow> matches xs ?old \<and> w = write_claims ys ?old) \<and> (\<not> b \<longrightarrow> w = ?old \<and> (matches xs ?old \<longrightarrow> write_claims ys ?old = ?old))"
    let ?m = "if matches xs ?old then write_claims ys ?old else ?old"
    from Returns(2) have "project_view t \<in> {?old, ?m} \<and> (\<forall>b. r = Inr b \<longrightarrow> ?P b (project_view t))" unfolding s2
    proof (rule locked_change [rotated])
      fix u q v
      assume su: "same_files s u" and f: "(case (stored_entries u, pm_content u) of (es, original) \<Rightarrow>
         if \<not> all_match exs es then returning False
         else let updated = apply_replacements eys es in
              if updated = [] then and_then unlink_manifest (\<lambda>_. returning (original \<noteq> None))
              else write_manifest updated original) u = (q, v)"
      have es: "stored_entries u = stored_entries s" "project_view u = ?old" using same_files_view [OF su] by simp_all
      show "project_view v \<in> {?old, ?m} \<and> (\<forall>b. q = Inr b \<longrightarrow> ?P b (project_view v))"
      proof (cases "matches xs ?old")
        case False
        then have "q = Inr False \<and> v = u" using f es all by simp
        then show ?thesis using False es by simp
      next
        case True
        show ?thesis
        proof (cases "?new = []")
          case empty: True
          then have w: "write_claims ys ?old = Map.empty" using m by simp
          have un: "and_then unlink_manifest (\<lambda>_. returning (pm_content u \<noteq> None)) u = (q, v)"
            using f True es all empty by (simp add: Let_def)
          have old: "?old = Map.empty" if "pm_content u = None"
            using content_stored [OF that] es by (simp add: project_view_def)
          note un = unlink_result [OF un, unfolded es]
          show ?thesis
          proof (intro conjI allI impI)
            show "project_view v \<in> {?old, ?m}" using un w True by simp
          next
            fix b assume "q = Inr b" "b"
            then have "project_view v = Map.empty" using un by blast
            then show "matches xs ?old" "project_view v = write_claims ys ?old" using w True by simp_all
          next
            fix b assume b: "q = Inr b" "\<not> b"
            then have "b = (pm_content u \<noteq> None)" "project_view v = Map.empty" using un by blast+
            then have "pm_content u = None" "project_view v = Map.empty" using b(2) by simp_all
            then show "project_view v = ?old" "write_claims ys ?old = ?old" using old w by simp_all
          qed
        next
          case False
          then have "write_manifest ?new (pm_content u) u = (q, v)" using f True es all by (simp add: Let_def)
          note w = write_manifest_result [OF ok this, unfolded m es]
          show ?thesis
          proof (intro conjI allI impI)
            show "project_view v \<in> {?old, ?m}" using w True by simp
          next
            fix b assume "q = Inr b" "b"
            then show "matches xs ?old" "project_view v = write_claims ys ?old" using w True by simp_all
          next
            fix b assume "q = Inr b" "\<not> b"
            then show "project_view v = ?old" "write_claims ys ?old = ?old" using w by simp_all
          qed
        qed
      qed
    qed
    then have v: "project_view t \<in> {?old, ?m}" and P: "\<And>b. r = Inr b \<Longrightarrow> ?P b (project_view t)" by blast+
    show ?thesis
    proof (intro conjI impI)
      show "project_view t = ?old \<or> matches xs ?old \<and> project_view t = write_claims ys ?old"
        using v by (cases "matches xs ?old") simp_all
    qed (use P [of True] in simp, use P [of True] in simp, use P [of False] in simp, use P [of False] in simp)
  qed
qed

section \<open>The adapter keeps the contract\<close>

interpretation project: manifest_storage project_adapter project_view project_has "\<lambda>_. True"
proof
  fix s t :: project and p ob
  assume "inspect_artifact project_adapter p s = (ob, t)"
  then show "True \<and> project_view t = project_view s \<and> project_has t = project_has s \<and>
      (\<forall>b. ob = Inr b \<longrightarrow> ob_blocker b = None \<longrightarrow>
        normalize_artifact_path p = Inr (ob_path b) \<and> ob_present b = project_has s (ob_path b))"
    by (auto simp: project_adapter_def project_inspect_def project_has_def invalid_path_def split: sum.splits sighting.splits)
next
  fix s t :: project and k found
  assume "get_entry project_adapter k s = (found, t)"
  then have "and_then load_readonly (\<lambda>(es, _). returning (map_of es (key_encode k))) s = (found, t)"
    by (simp add: project_adapter_def project_get_def)
  then show "True \<and> project_view t = project_view s \<and> project_has t = project_has s \<and>
      (\<forall>x. found = Inr x \<longrightarrow> x = project_view s (key_encode k))"
  proof (cases rule: and_then_cases)
    case (Raises e)
    then show ?thesis using load_readonly_result [OF Raises(1)] same_files_view [of s t] by simp
  next
    case (Returns x u)
    then show ?thesis using load_readonly_result [OF Returns(1)] same_files_view [of s u]
      by (cases x) (auto simp: project_view_def)
  qed
next
  fix s t :: project and k e r
  assume "key_ok k" "entry_ok e" "put_entry project_adapter k e s = (r, t)"
  then show "True \<and> project_view t \<in> {project_view s, (project_view s)(key_encode k \<mapsto> e)} \<and>
      (\<forall>b. r = Inr b \<longrightarrow> project_view t = (project_view s)(key_encode k \<mapsto> e) \<and> b = (project_view s (key_encode k) \<noteq> Some e))"
    using project_put_result [of k e s r t] by (simp add: project_adapter_def)
next
  fix s t :: project and k r
  assume "delete_entry project_adapter k s = (r, t)"
  then show "True \<and> project_view t \<in> {project_view s, (project_view s)(key_encode k := None)} \<and>
      (\<forall>b. r = Inr b \<longrightarrow> project_view t = (project_view s)(key_encode k := None) \<and> b = (project_view s (key_encode k) \<noteq> None))"
    using project_delete_result [of k s r t] by (simp add: project_adapter_def)
next
  fix s t :: project and xs ys r
  assume "claims_dict xs" "claims_dict ys" "replace_entries_if_matches project_adapter xs ys s = (r, t)"
  then show "True \<and> (project_view t = project_view s \<or> matches xs (project_view s) \<and> project_view t = write_claims ys (project_view s)) \<and>
      (r = Inr True \<longrightarrow> matches xs (project_view s) \<and> project_view t = write_claims ys (project_view s)) \<and>
      (r = Inr False \<longrightarrow> project_view t = project_view s \<and> (matches xs (project_view s) \<longrightarrow> write_claims ys (project_view s) = project_view s))"
    using project_replace_result [of xs ys s r t] by (simp add: project_adapter_def)
next
  fix s c e
  assume "project_view s c = Some e"
  then show "entry_ok e" using stored_entries_ok [of s] by (auto simp: project_view_def manifest_ok_def dest!: map_of_SomeD)
next
  fix s
  show "owned_once (project_view s)"
    using stored_entries_ok [of s] unique_paths_iff [of "stored_entries s"] by (simp add: project_view_def manifest_ok_def)
qed

end
