(* ===== verification/Manifest_Refinement.thy ===== *)
theory Manifest_Refinement
  imports Project_Manifest
begin

text \<open>
  The manifest in a file does what the one in memory does: where the operating system answers, each
  operation gives the same result, and the file holds the text of the same entries. So the adapter in
  memory is the specification of the one on disk, and what is tested with the first holds for the
  second.
\<close>

section \<open>The text of a dict\<close>

lemma sort_key_dict:
  assumes "distinct (map fst a)" "distinct (map fst b)" "map_of a = map_of b"
  shows "sort_key fst a = sort_key fst b"
proof (rule map_sorted_distinct_set_unique [where f = fst])
  have set: "set a = set b"
  proof (rule set_eqI)
    fix x
    show "x \<in> set a \<longleftrightarrow> x \<in> set b"
      using assms map_of_eq_Some_iff [OF assms(1), of "fst x" "snd x"] map_of_eq_Some_iff [OF assms(2), of "fst x" "snd x"]
      by simp
  qed
  then show "set (sort_key fst a) = set (sort_key fst b)" by simp
  show "inj_on fst (set (sort_key fst a) \<union> set (sort_key fst b))"
    using set assms(1) by (simp add: distinct_map)
  show "distinct (map fst (sort_key fst a))" "distinct (map fst (sort_key fst b))"
    using assms(1,2) by (metis distinct_map distinct_sort set_sort)+
qed simp_all

lemma assert_unique_dict:
  assumes "distinct (map fst a)" "distinct (map fst b)" "map_of a = map_of b"
  shows "assert_unique_artifact_paths a = assert_unique_artifact_paths b"
proof (cases "assert_unique_artifact_paths a")
  case (Inl x)
  then have "assert_unique_artifact_paths b \<noteq> Inr ()"
    using assert_unique_iff [OF assms(1)] assert_unique_iff [OF assms(2)] unique_paths_iff [OF assms(1)]
      unique_paths_iff [OF assms(2)] assms(3) by auto
  then obtain y where y: "assert_unique_artifact_paths b = Inl y" by (cases "assert_unique_artifact_paths b") auto
  then show ?thesis using Inl check_owners_error [of "[]" a x] check_owners_error [of "[]" b y]
    by (simp add: assert_unique_artifact_paths_def)
next
  case (Inr u)
  then show ?thesis
    using assert_unique_iff [OF assms(1)] assert_unique_iff [OF assms(2)] unique_paths_iff [OF assms(1)]
      unique_paths_iff [OF assms(2)] assms(3) by simp
qed

lemma serialize_dict:
  assumes "distinct (map fst a)" "distinct (map fst b)" "map_of a = map_of b"
  shows "serialize_manifest a = serialize_manifest b"
  unfolding serialize_manifest_def manifest_payload_def sort_key_dict [OF assms] assert_unique_dict [OF assms] ..

definition manifest_text :: "entries \<Rightarrow> string" where
  "manifest_text es = utf8_encode (dumps_indented (manifest_payload es)) @ [newline]"

definition file_text :: "entries \<Rightarrow> string option" where
  "file_text es = (if es = [] then None else Some (manifest_text es))"

lemma serialize_text: "manifest_ok es \<Longrightarrow> serialize_manifest es = Inr (manifest_text es)"
  by (simp add: serialize_ok manifest_text_def)

lemma parse_text: "manifest_ok es \<Longrightarrow> parse_manifest b (manifest_text es) = Inr (sort_key fst es)"
  by (rule parse_serialize [OF _ serialize_text])

lemma serialize_text_cases:
  "entries_ok es \<Longrightarrow> serialize_manifest es =
     (case assert_unique_artifact_paths es of Inl x \<Rightarrow> Inl x | Inr _ \<Rightarrow> Inr (manifest_text es))"
  using serialize_text [of es]
  by (cases "assert_unique_artifact_paths es") (auto simp: manifest_ok_iff serialize_manifest_def)

lemma text_inj:
  assumes "manifest_ok a" "manifest_ok b" "manifest_text a = manifest_text b"
  shows "map_of a = map_of b"
proof -
  have "sort_key fst a = sort_key fst b" using parse_text [OF assms(1)] parse_text [OF assms(2)] assms(3) by (metis sum.inject(2))
  then show ?thesis using map_of_sort_key_fst [of a] map_of_sort_key_fst [of b] assms(1,2)
    by (metis ext manifest_ok_def)
qed

lemma text_dict:
  assumes "distinct (map fst a)" "distinct (map fst b)" "map_of a = map_of b"
  shows "manifest_text a = manifest_text b"
  unfolding manifest_text_def manifest_payload_def sort_key_dict [OF assms] ..

lemma file_text_dict:
  assumes "distinct (map fst a)" "distinct (map fst b)" "map_of a = map_of b"
  shows "file_text a = file_text b"
proof -
  have "a = [] \<longleftrightarrow> b = []" using assms(3) by (metis list.set_intros(1) map_of_eq_None_iff map_of.simps(1) image_eqI empty_iff list.set(1) neq_Nil_conv)
  then show ?thesis using text_dict [OF assms] by (simp add: file_text_def)
qed

section \<open>Running without failures\<close>

lemma os_call_works: "pm_answers s = [] \<Longrightarrow> os_call eff s = (Inr (), eff s)"
  by (simp add: os_call_def)

lemma and_then_returns: "m s = (Inr x, t) \<Longrightarrow> and_then m f s = f x t"
  by (simp add: and_then_def)

lemma and_then_raises: "m s = (Inl e, t) \<Longrightarrow> and_then m f s = (Inl e, t)"
  by (simp add: and_then_def)

lemma lifting_then: "and_then (lifting m) f s = (case m of Inl e \<Rightarrow> (Inl e, s) | Inr x \<Rightarrow> f x s)"
  by (cases m) (simp_all add: and_then_def lifting_def)

lemma locked_works:
  "pm_answers s = [] \<Longrightarrow> body (s\<lparr>pm_lock := True\<rparr>) = (r, t) \<Longrightarrow> pm_answers t = [] \<Longrightarrow> locked body s = (r, t)"
  by (simp add: locked_def os_call_works)

text \<open>
  The relation between the directory and the memory: no call of the operating system is going to fail, the
  file holds the text of the entries, and every artifact that the memory knows is a file of the project.
\<close>

definition shows_memory :: "project \<Rightarrow> memory \<Rightarrow> bool" where
  "shows_memory s m =
     (pm_answers s = [] \<and> pm_content s = file_text (mm_entries m) \<and> manifest_ok (mm_entries m)
      \<and> list_all (project_has s) (mm_artifacts m))"

lemma project_has_update [simp]:
  "project_has (s\<lparr>pm_lock := b\<rparr>) = project_has s" "project_has (s\<lparr>pm_content := c\<rparr>) = project_has s"
  by (simp_all add: project_has_def fun_eq_iff)

lemma load_shows:
  assumes "shows_memory s m"
  shows "load_unlocked True s = (Inr (sort_key fst (mm_entries m), file_text (mm_entries m)), s)"
  using assms parse_text [of "mm_entries m" True]
  by (simp add: shows_memory_def load_unlocked_def and_then_def os_call_works parse_content_def file_text_def)

lemma locked_load_shows:
  assumes R: "shows_memory s m"
    and f: "f (sort_key fst (mm_entries m), file_text (mm_entries m)) (s\<lparr>pm_lock := True\<rparr>) = (r, t)" "pm_answers t = []"
  shows "locked (and_then (load_unlocked True) f) s = (r, t)"
proof (rule locked_works)
  have R': "shows_memory (s\<lparr>pm_lock := True\<rparr>) m" using R by (simp add: shows_memory_def)
  show "and_then (load_unlocked True) f (s\<lparr>pm_lock := True\<rparr>) = (r, t)" using load_shows [OF R'] f(1) by (simp add: and_then_def)
qed (use R f in \<open>simp_all add: shows_memory_def\<close>)

text \<open>Sorted, the entries of the memory are the same dict.\<close>

lemma sorted_dict:
  assumes "manifest_ok es"
  shows "map_of (sort_key fst es) = map_of es" "distinct (map fst (sort_key fst es))" "entries_ok (sort_key fst es)"
  using assms map_of_sort_key_fst [of es] manifest_ok_sort [OF assms]
  by (auto simp: manifest_ok_def fun_eq_iff manifest_ok_iff entries_ok_def)

lemma write_shows:
  assumes ok: "manifest_ok es" and new: "entries_ok a" "entries_ok b" "map_of a = map_of b" "a \<noteq> []" "map_of b \<noteq> map_of es"
    and s: "pm_answers s = []"
  shows "write_manifest a (file_text es) s =
    (case assert_unique_artifact_paths b of Inl x \<Rightarrow> (Inl x, s) | Inr _ \<Rightarrow> (Inr True, s\<lparr>pm_content := file_text b\<rparr>))"
proof -
  have d: "distinct (map fst a)" "distinct (map fst b)" using new by (simp_all add: entries_ok_def)
  have ser: "serialize_manifest a = (case assert_unique_artifact_paths b of Inl x \<Rightarrow> Inl x | Inr _ \<Rightarrow> Inr (manifest_text b))"
    using serialize_text_cases [OF new(2)] serialize_dict [OF d new(3)] by simp
  show ?thesis
  proof (cases "assert_unique_artifact_paths b")
    case (Inl x)
    then show ?thesis using ser by (simp add: write_manifest_def lifting_then)
  next
    case (Inr u)
    then have b: "manifest_ok b" using new(2) by (simp add: manifest_ok_iff)
    have ne: "file_text es \<noteq> Some (manifest_text b)"
      using text_inj [OF ok b] new(5) by (auto simp: file_text_def)
    have "b \<noteq> []" using file_text_dict [OF d new(3)] new(4) by (auto simp: file_text_def)
    have w: "write_manifest a (file_text es) s = and_then (atomic_replace (manifest_text b)) (\<lambda>_. returning True) s"
      using ser Inr ne by (simp add: write_manifest_def lifting_then)
    show ?thesis unfolding w
      using Inr s \<open>b \<noteq> []\<close> by (simp add: atomic_replace_def os_call_works and_then_def returning_def file_text_def)
  qed
qed

section \<open>Each operation\<close>

lemma load_readonly_shows:
  assumes R: "shows_memory s m"
  shows "\<exists>t. load_readonly s = (Inr (sort_key fst (mm_entries m), file_text (mm_entries m)), t) \<and> shows_memory t m"
proof -
  have look: "lock_exists s = (Inr (pm_lock s), s)"
    using R by (simp add: lock_exists_def and_then_def os_call_works shows_memory_def)
  show ?thesis
  proof (cases "pm_lock s")
    case True
    let ?t = "s\<lparr>pm_lock := True\<rparr>"
    have R': "shows_memory ?t m" using R by (simp add: shows_memory_def)
    have "locked (load_unlocked True) s = (Inr (sort_key fst (mm_entries m), file_text (mm_entries m)), ?t)"
      using R load_shows [OF R'] by (intro locked_works) (simp_all add: shows_memory_def)
    then show ?thesis using True look R' by (simp add: load_readonly_def and_then_def)
  next
    case False
    then show ?thesis using look load_shows [OF R] R by (simp add: load_readonly_def and_then_def returning_def)
  qed
qed

lemma get_refines:
  assumes R: "shows_memory s m"
  shows "\<exists>t. project_get k s = (Inr (map_of (mm_entries m) (key_encode k)), t) \<and> shows_memory t m"
proof -
  have "manifest_ok (mm_entries m)" using R by (simp add: shows_memory_def)
  from sorted_dict(1) [OF this] load_readonly_shows [OF R] show ?thesis
    by (auto simp: project_get_def and_then_def returning_def)
qed

text \<open>A snapshot of the file is the dict of the memory.\<close>

lemma decode_stored:
  assumes "list_all (\<lambda>(c, e). stored_key c) es"
  shows "\<exists>ds. decode_entries es = Inr ds \<and> list_all2 (\<lambda>(c, e) (k, d). key_decode c = Inr k \<and> d = e) es ds"
  using assms
proof (induction es)
  case Nil
  then show ?case by simp
next
  case (Cons x es)
  obtain c e where x: "x = (c, e)" by (cases x)
  obtain k where "key_decode c = Inr k" using Cons.prems x by (auto simp: stored_key_def)
  then show ?case using Cons x by (auto simp: decode_stored_key_def)
qed

lemma decoded_map:
  "list_all2 (\<lambda>(c, e) (k, d). key_decode c = Inr k \<and> d = e) es ds \<Longrightarrow>
     map_of ds k = (if key_decode (key_encode k) = Inr k then map_of es (key_encode k) else None)"
proof (induction es ds rule: list_all2_induct)
  case Nil
  then show ?case by simp
next
  case (Cons x xs y ys)
  obtain c e l where xy: "x = (c, e)" "y = (l, e)" "key_decode c = Inr l" using Cons.hyps(1) by (cases x; cases y) auto
  have "key_encode l = c" using key_decode_canonical [OF xy(3)] by simp
  then show ?case using Cons.IH xy by auto
qed

lemma snapshot_refines:
  assumes R: "shows_memory s m"
  shows "\<exists>t xs ys. project_snapshot s = (Inr xs, t) \<and> memory_snapshot m = (Inr ys, m) \<and> map_of xs = map_of ys \<and> shows_memory t m"
proof -
  let ?es = "mm_entries m"
  have ok: "manifest_ok ?es" using R by (simp add: shows_memory_def)
  then have st: "list_all (\<lambda>(c, e). stored_key c) ?es" "list_all (\<lambda>(c, e). stored_key c) (sort_key fst ?es)"
    by (auto simp: manifest_ok_def list_all_iff)
  obtain ys where ys: "decode_entries ?es = Inr ys" "list_all2 (\<lambda>(c, e) (k, d). key_decode c = Inr k \<and> d = e) ?es ys"
    using decode_stored [OF st(1)] by blast
  obtain xs where xs: "decode_entries (sort_key fst ?es) = Inr xs"
    "list_all2 (\<lambda>(c, e) (k, d). key_decode c = Inr k \<and> d = e) (sort_key fst ?es) xs"
    using decode_stored [OF st(2)] by blast
  have "map_of xs = map_of ys" using decoded_map [OF xs(2)] decoded_map [OF ys(2)] sorted_dict(1) [OF ok] by (simp add: fun_eq_iff)
  moreover obtain t where "load_readonly s = (Inr (sort_key fst ?es, file_text ?es), t)" "shows_memory t m"
    using load_readonly_shows [OF R] by blast
  ultimately show ?thesis using xs(1) ys(1) by (simp add: project_snapshot_def memory_snapshot_def and_then_def lifting_def)
qed

lemma put_refines:
  assumes R: "shows_memory s m" and k: "key_ok k" and e: "entry_ok e" and mem: "memory_put k e m = (r, m')"
  shows "\<exists>t. project_put k e s = (r, t) \<and> shows_memory t m'"
proof -
  let ?es = "mm_entries m" and ?c = "key_encode k"
  have ok: "manifest_ok ?es" and ans: "pm_answers s = []" "list_all (project_has s) (mm_artifacts m)" using R by (simp_all add: shows_memory_def)
  have new: "entries_ok (AList.update ?c e (sort_key fst ?es))" "entries_ok (AList.update ?c e ?es)"
    using ok k e sorted_dict(3) [OF ok] by (auto intro!: entries_ok_update stored_key_encode simp: manifest_ok_iff)
  have same: "map_of (AList.update ?c e (sort_key fst ?es)) = map_of (AList.update ?c e ?es)"
    using sorted_dict(1) [OF ok] by simp
  show ?thesis
  proof (cases "map_of ?es ?c = Some e")
    case True
    then have "file_text ?es \<noteq> None" by (auto simp: file_text_def)
    then have "project_put k e s = (Inr False, s\<lparr>pm_lock := True\<rparr>)" unfolding project_put_def
      using True ans sorted_dict(1) [OF ok] by (intro locked_load_shows [OF R]) (simp_all add: returning_def)
    moreover have "r = Inr False" "m' = m" using mem True by (simp_all add: memory_put_def)
    ultimately show ?thesis using R by (auto simp: shows_memory_def)
  next
    case False
    then have "map_of (AList.update ?c e ?es) \<noteq> map_of ?es" by (metis fun_upd_same map_of_updated)
    then have w: "write_manifest (AList.update ?c e (sort_key fst ?es)) (file_text ?es) (s\<lparr>pm_lock := True\<rparr>) =
      (case assert_unique_artifact_paths (AList.update ?c e ?es) of Inl x \<Rightarrow> (Inl x, s\<lparr>pm_lock := True\<rparr>)
       | Inr _ \<Rightarrow> (Inr True, s\<lparr>pm_lock := True, pm_content := file_text (AList.update ?c e ?es)\<rparr>))"
      using ans by (intro write_shows [OF ok new same]) simp_all
    show ?thesis
    proof (cases "assert_unique_artifact_paths (AList.update ?c e ?es)")
      case (Inl x)
      have "project_put k e s = (Inl x, s\<lparr>pm_lock := True\<rparr>)" unfolding project_put_def
        using False Inl w ans sorted_dict(1) [OF ok] by (intro locked_load_shows [OF R]) simp_all
      moreover have "r = Inl x" "m' = m" using mem False Inl by (simp_all add: memory_put_def Let_def)
      ultimately show ?thesis using R by (auto simp: shows_memory_def)
    next
      case (Inr u)
      have "project_put k e s = (Inr True, s\<lparr>pm_lock := True, pm_content := file_text (AList.update ?c e ?es)\<rparr>)"
        unfolding project_put_def
        using False Inr w ans sorted_dict(1) [OF ok] by (intro locked_load_shows [OF R]) simp_all
      moreover have "r = Inr True" "m' = m\<lparr>mm_entries := AList.update ?c e ?es\<rparr>"
        using mem False Inr by (simp_all add: memory_put_def Let_def)
      moreover have "manifest_ok (AList.update ?c e ?es)" using new(2) Inr by (simp add: manifest_ok_iff)
      ultimately show ?thesis using ans by (auto simp: shows_memory_def)
    qed
  qed
qed

lemma unlink_works: "pm_answers s = [] \<Longrightarrow>
    and_then unlink_manifest (\<lambda>_. returning b) s = (Inr b, s\<lparr>pm_content := None\<rparr>)"
  by (simp add: unlink_manifest_def and_then_def os_call_works returning_def)

lemma map_of_Nil_iff: "map_of a = Map.empty \<longleftrightarrow> a = []"
  by (cases a) (auto simp: fun_eq_iff)

lemma delete_refines:
  assumes R: "shows_memory s m" and mem: "memory_delete k m = (r, m')"
  shows "\<exists>t. project_delete k s = (r, t) \<and> shows_memory t m'"
proof -
  let ?es = "mm_entries m" and ?c = "key_encode k"
  let ?new = "AList.delete ?c ?es" and ?rest = "AList.delete ?c (sort_key fst ?es)" and ?s = "s\<lparr>pm_lock := True\<rparr>"
  have ok: "manifest_ok ?es" and ans: "pm_answers s = []" "list_all (project_has s) (mm_artifacts m)" using R by (simp_all add: shows_memory_def)
  have r: "r = Inr (map_of ?es ?c \<noteq> None)" "m' = m\<lparr>mm_entries := ?new\<rparr>" using mem by (auto simp: memory_delete_def)
  have same: "map_of ?rest = map_of ?new" using sorted_dict(1) [OF ok] by (simp add: AList.delete_conv')
  have new: "entries_ok ?rest" "manifest_ok ?new"
    using ok sorted_dict(3) [OF ok] by (auto intro: entries_ok_delete manifest_ok_delete)
  then have new: "entries_ok ?rest" "entries_ok ?new" "manifest_ok ?new" by (simp_all add: manifest_ok_iff)
  show ?thesis
  proof (cases "map_of ?es ?c")
    case None
    have "project_delete k s = (Inr False, ?s)" unfolding project_delete_def
      using None ans sorted_dict(1) [OF ok] by (intro locked_load_shows [OF R]) (simp_all add: returning_def)
    moreover have "?c \<notin> fst ` set ?es" using None by (simp add: map_of_eq_None_iff)
    ultimately show ?thesis using R r None by (simp add: shows_memory_def)
  next
    case (Some x)
    show ?thesis
    proof (cases "?new = []")
      case True
      then have "?rest = []" using same map_of_Nil_iff [of ?rest] by simp
      then have "project_delete k s = (Inr True, ?s\<lparr>pm_content := None\<rparr>)" unfolding project_delete_def
        using Some ans sorted_dict(1) [OF ok] unlink_works [of ?s True]
        by (intro locked_load_shows [OF R]) simp_all
      then show ?thesis using r Some True ans by (simp add: shows_memory_def file_text_def)
    next
      case False
      then have ne: "?rest \<noteq> []" using same map_of_Nil_iff [of ?new] by (metis map_of.simps(1))
      have "map_of ?new \<noteq> map_of ?es" using Some by (metis AList.delete_conv' fun_upd_same option.distinct(1))
      then have "write_manifest ?rest (file_text ?es) ?s = (Inr True, ?s\<lparr>pm_content := file_text ?new\<rparr>)"
        using write_shows [OF ok new(1,2) same ne, of ?s] ans new(3) by (simp add: manifest_ok_iff)
      then have "project_delete k s = (Inr True, ?s\<lparr>pm_content := file_text ?new\<rparr>)" unfolding project_delete_def
        using Some ne ans sorted_dict(1) [OF ok] by (intro locked_load_shows [OF R]) (simp_all add: Let_def)
      then show ?thesis using r Some ans new(3) by (simp add: shows_memory_def)
    qed
  qed
qed

lemma replace_if_refines:
  assumes R: "shows_memory s m" and xs: "claims_dict xs" and ys: "claims_dict ys" and mem: "memory_replace_if xs ys m = (r, m')"
  shows "\<exists>t. project_replace_if xs ys s = (r, t) \<and> shows_memory t m'"
proof (cases "encode_optional_entries xs")
  case (Inl x)
  then show ?thesis using R mem by (auto simp: memory_replace_if_def project_replace_if_def lifting_then)
next
  case ex: (Inr exs)
  show ?thesis
  proof (cases "encode_optional_entries ys")
    case (Inl y)
    then show ?thesis using R mem ex by (auto simp: memory_replace_if_def project_replace_if_def lifting_then)
  next
    case ey: (Inr eys)
    let ?es = "mm_entries m" and ?s = "s\<lparr>pm_lock := True\<rparr>"
    let ?new = "apply_replacements eys ?es" and ?upd = "apply_replacements eys (sort_key fst ?es)"
    let ?body = "\<lambda>(es, original). if \<not> all_match exs es then returning False
        else let updated = apply_replacements eys es in
             if updated = [] then and_then unlink_manifest (\<lambda>_. returning (original \<noteq> None))
             else write_manifest updated original"
    have run: "project_replace_if xs ys s = locked (and_then (load_unlocked True) ?body) s"
      by (simp add: project_replace_if_def lifting_then ex ey)
    have ok: "manifest_ok ?es" and ans: "pm_answers s = []" "list_all (project_has s) (mm_artifacts m)" using R by (simp_all add: shows_memory_def)
    note exs = encode_optional_result [OF xs ex] and eys = encode_optional_result [OF ys ey]
    have all: "all_match exs (sort_key fst ?es) = all_match exs ?es"
      using exs sorted_dict(1) [OF ok] by (simp add: all_match_iff)
    have same: "map_of ?upd = map_of ?new" using eys sorted_dict(1) [OF ok] by (simp add: map_of_apply)
    have new: "entries_ok ?upd" "entries_ok ?new"
      using eys ys ok sorted_dict(3) [OF ok] by (auto intro!: entries_ok_apply simp: claims_dict_def manifest_ok_iff)
    have deq: "dict_eq ?new ?es \<longleftrightarrow> map_of ?new = map_of ?es"
      using new(2) ok by (intro dict_eq_iff) (simp_all add: entries_ok_def manifest_ok_def)
    have mem': "(if \<not> all_match exs ?es then (Inr False, m)
        else if map_of ?new = map_of ?es then (Inr False, m)
        else case assert_unique_artifact_paths ?new of Inl x \<Rightarrow> (Inl x, m)
             | Inr _ \<Rightarrow> (Inr True, m\<lparr>mm_entries := ?new\<rparr>)) = (r, m')"
      using mem by (simp only: memory_replace_if_def ex ey sum.case Let_def deq)
    show ?thesis
    proof (cases "all_match exs ?es")
      case False
      have "project_replace_if xs ys s = (Inr False, ?s)" unfolding run
        using False all ans by (intro locked_load_shows [OF R]) (simp_all add: returning_def)
      then show ?thesis using mem' False R by (auto simp: shows_memory_def)
    next
      case match: True
      show ?thesis
      proof (cases "map_of ?new = map_of ?es")
        case True
        have r: "r = Inr False" "m' = m" using mem' match True by simp_all
        show ?thesis
        proof (cases "?upd = []")
          case empty: True
          then have "?es = []" using True same map_of_Nil_iff by (metis map_of.simps(1))
          then have "project_replace_if xs ys s = (Inr False, ?s\<lparr>pm_content := None\<rparr>)" unfolding run
            using match all empty ans unlink_works [of ?s False]
            by (intro locked_load_shows [OF R]) (simp_all add: file_text_def)
          then show ?thesis using r \<open>?es = []\<close> ans by (simp add: shows_memory_def file_text_def)
        next
          case False
          have d: "distinct (map fst ?upd)" "distinct (map fst ?es)" using new ok by (simp_all add: entries_ok_def manifest_ok_def)
          have eq: "map_of ?upd = map_of ?es" using same True by simp
          have ne: "?es \<noteq> []" using eq False map_of_Nil_iff by (metis map_of.simps(1))
          have "serialize_manifest ?upd = Inr (manifest_text ?es)"
            using serialize_dict [OF d eq] serialize_text [OF ok] by simp
          then have "write_manifest ?upd (file_text ?es) ?s = (Inr False, ?s)"
            using ne by (simp add: write_manifest_def lifting_then file_text_def returning_def)
          then have "project_replace_if xs ys s = (Inr False, ?s)" unfolding run
            using match all False ans by (intro locked_load_shows [OF R]) (simp_all add: Let_def)
          then show ?thesis using r R by (auto simp: shows_memory_def)
        qed
      next
        case differs: False
        show ?thesis
        proof (cases "?upd = []")
          case True
          then have n: "?new = []" using same map_of_Nil_iff [of ?new] by simp
          have es: "?es \<noteq> []" using differs n by auto
          have "assert_unique_artifact_paths ?new = Inr ()" using n by (simp add: assert_unique_artifact_paths_def)
          then have r: "r = Inr True" "m' = m\<lparr>mm_entries := []\<rparr>" using mem' match differs n by simp_all
          have "project_replace_if xs ys s = (Inr True, ?s\<lparr>pm_content := None\<rparr>)" unfolding run
            using match all True es ans unlink_works [of ?s True]
            by (intro locked_load_shows [OF R]) (simp_all add: file_text_def)
          then show ?thesis using r ans by (simp add: shows_memory_def file_text_def)
        next
          case False
          note w = write_shows [OF ok new same False differs, of ?s]
          show ?thesis
          proof (cases "assert_unique_artifact_paths ?new")
            case (Inl x)
            have "project_replace_if xs ys s = (Inl x, ?s)" unfolding run
              using match all False ans w Inl by (intro locked_load_shows [OF R]) (simp_all add: Let_def)
            moreover have "r = Inl x" "m' = m" using mem' match differs Inl by simp_all
            ultimately show ?thesis using R by (auto simp: shows_memory_def)
          next
            case (Inr u)
            have "project_replace_if xs ys s = (Inr True, ?s\<lparr>pm_content := file_text ?new\<rparr>)" unfolding run
              using match all False ans w Inr by (intro locked_load_shows [OF R]) (simp_all add: Let_def)
            moreover have "r = Inr True" "m' = m\<lparr>mm_entries := ?new\<rparr>" using mem' match differs Inr by simp_all
            moreover have "manifest_ok ?new" using new(2) Inr by (simp add: manifest_ok_iff)
            ultimately show ?thesis using ans by (auto simp: shows_memory_def)
          qed
        qed
      qed
    qed
  qed
qed

lemma entries_ok_targets:
  assumes "encode_target_entries xs = Inr es" "list_all key_ok (map fst xs)"
  shows "entries_ok es"
proof -
  note r = encode_target_result [OF assms(1)]
  have "stored_key c \<and> entry_ok e" if "(c, e) \<in> set es" for c e
    using that r assms(2) by (fastforce simp: list_all_iff intro: stored_key_encode)
  moreover have "distinct (map fst es)" using r by blast
  ultimately show ?thesis unfolding entries_ok_def by blast
qed

lemma replace_snapshot_refines:
  assumes R: "shows_memory s m" and xs: "list_all key_ok (map fst xs)" and ys: "list_all key_ok (map fst ys)"
    and mem: "memory_replace_snapshot xs ys m = (r, m')"
  shows "\<exists>t. project_replace_snapshot xs ys s = (r, t) \<and> shows_memory t m'"
proof (cases "encode_target_entries xs")
  case (Inl x)
  then show ?thesis using R mem by (auto simp: memory_replace_snapshot_def project_replace_snapshot_def lifting_then)
next
  case ex: (Inr exs)
  show ?thesis
  proof (cases "encode_target_entries ys")
    case (Inl y)
    then show ?thesis using R mem ex by (auto simp: memory_replace_snapshot_def project_replace_snapshot_def lifting_then)
  next
    case ey: (Inr eys)
    have ok: "manifest_ok (mm_entries m)" and ans: "pm_answers s = []" "list_all (project_has s) (mm_artifacts m)" using R by (simp_all add: shows_memory_def)
    have eok: "entries_ok exs" "entries_ok eys" using entries_ok_targets [OF ex xs] entries_ok_targets [OF ey ys] by simp_all
    have ser: "serialize_manifest eys = (case assert_unique_artifact_paths eys of Inl x \<Rightarrow> Inl x | Inr _ \<Rightarrow> Inr (manifest_text eys))"
      by (rule serialize_text_cases [OF eok(2)])
    show ?thesis
    proof (cases "assert_unique_artifact_paths eys")
      case (Inl x)
      then show ?thesis using R mem ex ey ser
        by (auto simp: memory_replace_snapshot_def project_replace_snapshot_def lifting_then)
    next
      case (Inr u)
      let ?es = "mm_entries m" and ?s = "s\<lparr>pm_lock := True\<rparr>"
      have new: "manifest_ok eys" using eok(2) Inr by (simp add: manifest_ok_iff)
      have d: "distinct (map fst (sort_key fst ?es))" "distinct (map fst ?es)" "distinct (map fst exs)" "distinct (map fst eys)"
        using sorted_dict(2) [OF ok] ok eok by (simp_all add: entries_ok_def manifest_ok_def)
      have deq: "dict_eq (sort_key fst ?es) exs = dict_eq ?es exs" "dict_eq (sort_key fst ?es) eys = (map_of ?es = map_of eys)"
        using d sorted_dict(1) [OF ok] by (simp_all add: dict_eq_iff)
      have run: "project_replace_snapshot xs ys s = locked (and_then (load_unlocked True) (\<lambda>(es, original).
          if \<not> dict_eq es exs then returning False
          else if dict_eq es eys then returning True
          else if eys = [] then and_then unlink_manifest (\<lambda>_. returning True)
          else if original = Some (manifest_text eys) then returning True
          else and_then (atomic_replace (manifest_text eys)) (\<lambda>_. returning True))) s"
        using ser Inr by (simp add: project_replace_snapshot_def lifting_then ex ey)
      have mem': "(if \<not> dict_eq ?es exs then (Inr False, m) else (Inr True, m\<lparr>mm_entries := eys\<rparr>)) = (r, m')"
        using mem by (simp only: memory_replace_snapshot_def ex ey Inr sum.case)
      consider "\<not> dict_eq ?es exs" | "dict_eq ?es exs" "map_of ?es = map_of eys"
        | "dict_eq ?es exs" "map_of ?es \<noteq> map_of eys" "eys = []" | "dict_eq ?es exs" "map_of ?es \<noteq> map_of eys" "eys \<noteq> []"
        by blast
      then show ?thesis
      proof cases
        case 1
        have "project_replace_snapshot xs ys s = (Inr False, ?s)" unfolding run
          using 1 deq ans by (intro locked_load_shows [OF R]) (simp_all add: returning_def)
        then show ?thesis using mem' 1 R by (auto simp: shows_memory_def)
      next
        case 2
        have "project_replace_snapshot xs ys s = (Inr True, ?s)" unfolding run
          using 2 deq ans by (intro locked_load_shows [OF R]) (simp_all add: returning_def)
        moreover have "file_text ?es = file_text eys" by (rule file_text_dict [OF d(2,4) 2(2)])
        moreover have "r = Inr True" "m' = m\<lparr>mm_entries := eys\<rparr>" using mem' 2 by simp_all
        ultimately show ?thesis using R new by (auto simp: shows_memory_def)
      next
        case 3
        have "project_replace_snapshot xs ys s = (Inr True, ?s\<lparr>pm_content := None\<rparr>)" unfolding run
          using 3 deq ans unlink_works [of ?s True] by (intro locked_load_shows [OF R]) simp_all
        moreover have "r = Inr True" "m' = m\<lparr>mm_entries := []\<rparr>" using mem' 3 by simp_all
        ultimately show ?thesis using ans by (simp add: shows_memory_def file_text_def)
      next
        case 4
        have ne: "file_text ?es \<noteq> Some (manifest_text eys)"
          using text_inj [OF ok new] 4(2) by (auto simp: file_text_def)
        have "project_replace_snapshot xs ys s = (Inr True, ?s\<lparr>pm_content := Some (manifest_text eys)\<rparr>)" unfolding run
          using 4 deq ans ne
          by (intro locked_load_shows [OF R]) (simp_all add: atomic_replace_def os_call_works and_then_def returning_def)
        moreover have "r = Inr True" "m' = m\<lparr>mm_entries := eys\<rparr>" using mem' 4 by simp_all
        ultimately show ?thesis using ans new 4(3) by (simp add: shows_memory_def file_text_def)
      qed
    qed
  qed
qed

text \<open>
  The whole state replaced without a condition. The file alone asks whether the artifacts are there, and
  writes an empty manifest where the memory has nothing to change; so they agree for targets that are not
  empty and are artifacts the memory knows.
\<close>

lemma check_present_works:
  "list_all (\<lambda>(c, e). entry_ok e \<and> project_has s (artifact_path e)) ys \<Longrightarrow> check_present ys s = (Inr (), s)"
  by (induction ys) (auto simp: returning_def and_then_def project_inspect_def project_has_def entry_ok_def)

lemma replace_all_refines:
  assumes R: "shows_memory s m" and k: "list_all key_ok (map fst xs)" and ne: "xs \<noteq> []"
    and there: "list_all (\<lambda>(k, e). artifact_path e \<in> set (mm_artifacts m)) xs" and mem: "memory_replace_all xs m = (r, m')"
  shows "\<exists>t. project_replace_all xs s = (r, t) \<and> shows_memory t m'"
proof (cases "encode_target_entries xs")
  case (Inl x)
  then show ?thesis using R mem by (auto simp: memory_replace_all_def project_replace_all_def lifting_then)
next
  case ys: (Inr ys)
  have ok: "manifest_ok (mm_entries m)" and ans: "pm_answers s = []" "list_all (project_has s) (mm_artifacts m)" using R by (simp_all add: shows_memory_def)
  have eok: "entries_ok ys" by (rule entries_ok_targets [OF ys k])
  note er = encode_target_result [OF ys]
  have "list_all (\<lambda>(c, e). entry_ok e \<and> project_has s (artifact_path e)) ys"
    using er there R by (fastforce simp: list_all_iff shows_memory_def)
  then have present: "and_then (check_present ys) f s = f () s" for f by (simp add: and_then_def check_present_works)
  have ser: "serialize_manifest ys = (case assert_unique_artifact_paths ys of Inl x \<Rightarrow> Inl x | Inr _ \<Rightarrow> Inr (manifest_text ys))"
    by (rule serialize_text_cases [OF eok])
  have run: "project_replace_all xs s = and_then (lifting (serialize_manifest ys)) (\<lambda>raw.
       locked (and_then (load_unlocked True) (\<lambda>(es, original).
         if original = Some raw then returning False
         else and_then (atomic_replace raw) (\<lambda>_. returning True)))) s"
    by (simp add: project_replace_all_def lifting_then ys present)
  show ?thesis
  proof (cases "assert_unique_artifact_paths ys")
    case (Inl x)
    then show ?thesis using R mem ys ser by (auto simp: memory_replace_all_def run lifting_then)
  next
    case (Inr u)
    let ?es = "mm_entries m" and ?s = "s\<lparr>pm_lock := True\<rparr>"
    have new: "manifest_ok ys" "ys \<noteq> []" using eok Inr er ne by (simp_all add: manifest_ok_iff)
    have d: "distinct (map fst ?es)" "distinct (map fst ys)" using ok new(1) by (simp_all add: manifest_ok_def)
    have run': "project_replace_all xs s = locked (and_then (load_unlocked True) (\<lambda>(es, original).
         if original = Some (manifest_text ys) then returning False
         else and_then (atomic_replace (manifest_text ys)) (\<lambda>_. returning True))) s"
      using ser Inr by (simp add: run lifting_then)
    have mem': "(if map_of ?es = map_of ys then (Inr False, m) else (Inr True, m\<lparr>mm_entries := ys\<rparr>)) = (r, m')"
      using mem by (simp only: memory_replace_all_def ys Inr sum.case dict_eq_iff [OF d])
    show ?thesis
    proof (cases "map_of ?es = map_of ys")
      case True
      have same: "file_text ?es = Some (manifest_text ys)" using file_text_dict [OF d True] new(2) by (simp add: file_text_def)
      have "project_replace_all xs s = (Inr False, ?s)" unfolding run'
        using same ans by (intro locked_load_shows [OF R]) (simp_all add: returning_def)
      then show ?thesis using mem' True R by (auto simp: shows_memory_def)
    next
      case False
      have other: "file_text ?es \<noteq> Some (manifest_text ys)" using text_inj [OF ok new(1)] False by (auto simp: file_text_def)
      have "project_replace_all xs s = (Inr True, ?s\<lparr>pm_content := Some (manifest_text ys)\<rparr>)" unfolding run'
        using other ans by (intro locked_load_shows [OF R]) (simp_all add: atomic_replace_def os_call_works and_then_def returning_def)
      then show ?thesis using mem' False R new by (auto simp: shows_memory_def file_text_def)
    qed
  qed
qed

section \<open>Runs\<close>

text \<open>The operations of a storage on its claims, which are all but looking at an artifact.\<close>

datatype manifest_op =
    Get_op artifact_key
  | Snapshot_op
  | Put_op artifact_key manifest_entry
  | Delete_op artifact_key
  | Replace_op "(artifact_key \<times> manifest_entry option) list" "(artifact_key \<times> manifest_entry option) list"
  | Replace_snapshot_op "(artifact_key \<times> manifest_entry) list" "(artifact_key \<times> manifest_entry) list"
  | Replace_all_op "(artifact_key \<times> manifest_entry) list"

text \<open>A snapshot is a dict: what counts is what each key has in it.\<close>

datatype op_result =
    Entry_result "manifest_error + manifest_entry option"
  | Flag_result "manifest_error + bool"
  | Snapshot_result "manifest_error + (artifact_key \<rightharpoonup> manifest_entry)"

fun run_op :: "'s adapter \<Rightarrow> manifest_op \<Rightarrow> 's \<Rightarrow> op_result \<times> 's" where
  "run_op A (Get_op k) s = map_prod Entry_result id (get_entry A k s)"
| "run_op A Snapshot_op s = map_prod (Snapshot_result \<circ> map_sum id map_of) id (snapshot_entries A s)"
| "run_op A (Put_op k e) s = map_prod Flag_result id (put_entry A k e s)"
| "run_op A (Delete_op k) s = map_prod Flag_result id (delete_entry A k s)"
| "run_op A (Replace_op xs ys) s = map_prod Flag_result id (replace_entries_if_matches A xs ys s)"
| "run_op A (Replace_snapshot_op xs ys) s = map_prod Flag_result id (replace_snapshot_if_matches A xs ys s)"
| "run_op A (Replace_all_op xs) s = map_prod Flag_result id (replace_entries_atomically A xs s)"

fun run_ops :: "'s adapter \<Rightarrow> manifest_op list \<Rightarrow> 's \<Rightarrow> op_result list \<times> 's" where
  "run_ops A [] s = ([], s)"
| "run_ops A (x # xs) s =
     (case run_op A x s of (r, t) \<Rightarrow> (case run_ops A xs t of (rs, u) \<Rightarrow> (r # rs, u)))"

text \<open>
  What the callers pass: made keys, dicts, and to \<open>put_entry\<close>, which checks neither, an entry with a
  canonical path and digest.
\<close>

fun op_ok :: "manifest_op \<Rightarrow> bool" where
  "op_ok (Get_op k) = key_ok k"
| "op_ok Snapshot_op = True"
| "op_ok (Put_op k e) = (key_ok k \<and> entry_ok e)"
| "op_ok (Delete_op k) = key_ok k"
| "op_ok (Replace_op xs ys) = (claims_dict xs \<and> claims_dict ys)"
| "op_ok (Replace_snapshot_op xs ys) = (list_all key_ok (map fst xs) \<and> list_all key_ok (map fst ys))"
| "op_ok (Replace_all_op xs) = list_all key_ok (map fst xs)"

text \<open>Where the two storages are to agree, a whole state is not empty and consists of known artifacts.\<close>

fun known_targets :: "string list \<Rightarrow> manifest_op \<Rightarrow> bool" where
  "known_targets ps (Replace_all_op xs) = (xs \<noteq> [] \<and> list_all (\<lambda>(k, e). artifact_path e \<in> set ps) xs)"
| "known_targets ps x = True"

lemma op_refines:
  assumes "shows_memory s m" "op_ok x" "known_targets (mm_artifacts m) x" "run_op memory_adapter x m = (r, m')"
  shows "\<exists>t. run_op project_adapter x s = (r, t) \<and> shows_memory t m'"
proof (cases x)
  case (Get_op k)
  then show ?thesis using get_refines [OF assms(1), of k] assms(4)
    by (auto simp: project_adapter_def memory_adapter_def memory_get_def)
next
  case Snapshot_op
  then show ?thesis using snapshot_refines [OF assms(1)] assms(4)
    by (auto simp: project_adapter_def memory_adapter_def)
next
  case (Put_op k e)
  obtain q where q: "memory_put k e m = (q, m')" "r = Flag_result q"
    using assms(4) Put_op by (auto simp: memory_adapter_def map_prod_def split: prod.splits)
  then show ?thesis using put_refines [OF assms(1) _ _ q(1)] assms(2) Put_op by (auto simp: project_adapter_def)
next
  case (Delete_op k)
  obtain q where q: "memory_delete k m = (q, m')" "r = Flag_result q"
    using assms(4) Delete_op by (auto simp: memory_adapter_def map_prod_def split: prod.splits)
  then show ?thesis using delete_refines [OF assms(1) q(1)] Delete_op by (auto simp: project_adapter_def)
next
  case (Replace_op xs ys)
  obtain q where q: "memory_replace_if xs ys m = (q, m')" "r = Flag_result q"
    using assms(4) Replace_op by (auto simp: memory_adapter_def map_prod_def split: prod.splits)
  then show ?thesis using replace_if_refines [OF assms(1) _ _ q(1)] assms(2) Replace_op by (auto simp: project_adapter_def)
next
  case (Replace_snapshot_op xs ys)
  obtain q where q: "memory_replace_snapshot xs ys m = (q, m')" "r = Flag_result q"
    using assms(4) Replace_snapshot_op by (auto simp: memory_adapter_def map_prod_def split: prod.splits)
  then show ?thesis using replace_snapshot_refines [OF assms(1) _ _ q(1)] assms(2) Replace_snapshot_op
    by (auto simp: project_adapter_def)
next
  case (Replace_all_op xs)
  obtain q where q: "memory_replace_all xs m = (q, m')" "r = Flag_result q"
    using assms(4) Replace_all_op by (auto simp: memory_adapter_def map_prod_def split: prod.splits)
  then show ?thesis using replace_all_refines [OF assms(1) _ _ _ q(1)] assms(2,3) Replace_all_op
    by (auto simp: project_adapter_def)
qed

lemma memory_artifacts_kept: "run_op memory_adapter x m = (r, m') \<Longrightarrow> mm_artifacts m' = mm_artifacts m"
  by (cases x) (auto simp: memory_adapter_def memory_get_def memory_snapshot_def memory_put_def memory_delete_def
      memory_replace_if_def memory_replace_snapshot_def memory_replace_all_def Let_def split: if_splits sum.splits)

lemma runs_refine:
  "shows_memory s m \<Longrightarrow> list_all op_ok xs \<Longrightarrow> list_all (known_targets (mm_artifacts m)) xs \<Longrightarrow>
     run_ops memory_adapter xs m = (rs, m') \<Longrightarrow> \<exists>t. run_ops project_adapter xs s = (rs, t) \<and> shows_memory t m'"
proof (induction xs arbitrary: s m rs)
  case Nil
  then show ?case by simp
next
  case (Cons x xs)
  obtain r n where x: "run_op memory_adapter x m = (r, n)" by fastforce
  obtain rest where rest: "run_ops memory_adapter xs n = (rest, m')" "rs = r # rest"
    using Cons.prems(4) x by (auto split: prod.splits)
  obtain t where t: "run_op project_adapter x s = (r, t)" "shows_memory t n"
    using op_refines [OF Cons.prems(1) _ _ x] Cons.prems(2,3) by auto
  obtain u where "run_ops project_adapter xs t = (rest, u)" "shows_memory u m'"
    using Cons.IH [OF t(2) _ _ rest(1)] Cons.prems(2,3) memory_artifacts_kept [OF x] by auto
  then show ?case using t(1) rest(2) by simp
qed

end
