(* ===== verification/Manifest_Cache.thy ===== *)
theory Manifest_Cache
  imports Manifest_Entries
begin

text \<open>
  The cache of parsed manifests in front of the file (\<open>_ManifestReadCache\<close> and \<open>_load_cached\<close>): one slot
  for each of the 32 projects read last. A slot is taken without reading when the file just opened has
  the identity of the slot and that identity was old enough, when it was read, to prove the bytes; it
  is taken after reading when the bytes are the same. The lazily decoded form that a slot remembers is
  left out.
\<close>

section \<open>Identities of files\<close>

record file_stat =
  st_device :: int
  st_inode :: int
  st_size :: int
  st_modified_ns :: int
  st_changed_ns :: int

text \<open>On POSIX; a file without an inode has no identity.\<close>

definition identity_of :: "file_stat \<Rightarrow> file_stat option" where
  "identity_of st = (if st_inode st = 0 then None else Some st)"

definition last_change_ns :: "file_stat \<Rightarrow> int" where
  "last_change_ns st = max (st_modified_ns st) (st_changed_ns st)"

definition manifest_settled_age_ns :: int where
  "manifest_settled_age_ns = 2000000000"

definition manifest_read_cache_project_limit :: nat where
  "manifest_read_cache_project_limit = 32"

section \<open>The slots\<close>

type_synonym project_identity = "int \<times> int"

record cache_slot =
  sl_identity :: file_stat
  sl_settled :: bool
  sl_raw :: string
  sl_entries :: entries

text \<open>An \<open>OrderedDict\<close>: the project used last is at the end.\<close>

type_synonym read_cache = "(project_identity \<times> cache_slot) list"

definition move_to_end :: "project_identity \<Rightarrow> cache_slot \<Rightarrow> read_cache \<Rightarrow> read_cache" where
  "move_to_end p slot c = AList.delete p c @ [(p, slot)]"

definition cache_get :: "project_identity \<Rightarrow> read_cache \<Rightarrow> cache_slot option \<times> read_cache" where
  "cache_get p c =
     (case map_of c p of
        None \<Rightarrow> (None, c)
      | Some slot \<Rightarrow> (Some slot, move_to_end p slot c))"

text \<open>The loop that drops the oldest slots while there are too many.\<close>

fun evict :: "nat \<Rightarrow> read_cache \<Rightarrow> read_cache" where
  "evict limit [] = []"
| "evict limit (x # c) = (if limit < length (x # c) then evict limit c else x # c)"

definition cache_put :: "project_identity \<Rightarrow> cache_slot \<Rightarrow> read_cache \<Rightarrow> read_cache" where
  "cache_put p slot c = evict manifest_read_cache_project_limit (move_to_end p slot c)"

definition cache_discard :: "project_identity \<Rightarrow> read_cache \<Rightarrow> read_cache" where
  "cache_discard p c = AList.delete p c"

definition cache_clear :: "read_cache \<Rightarrow> read_cache" where
  "cache_clear c = []"

section \<open>Reading through the cache\<close>

text \<open>What file_opened the manifest of a project shows: its state, its bytes, its state after reading.\<close>

record manifest_read =
  rd_before :: file_stat
  rd_raw :: string
  rd_after :: file_stat

record file_opened =
  on_project :: project_identity
  on_file :: "manifest_read option"
  on_now :: int

type_synonym parsed = "(string \<times> entries) option"

definition keep_identity :: "manifest_read \<Rightarrow> file_stat option" where
  "keep_identity f = (if identity_of (rd_after f) = identity_of (rd_before f) then identity_of (rd_before f) else None)"

definition remember :: "project_identity \<Rightarrow> int \<Rightarrow> file_stat option \<Rightarrow> string \<Rightarrow> entries \<Rightarrow> read_cache \<Rightarrow> read_cache" where
  "remember p now identity raw es c =
     (case identity of
        None \<Rightarrow> c
      | Some i \<Rightarrow>
          cache_put p \<lparr>sl_identity = i, sl_settled = (manifest_settled_age_ns < now - last_change_ns i),
                       sl_raw = raw, sl_entries = es\<rparr> c)"

definition load_cached :: "file_opened \<Rightarrow> read_cache \<Rightarrow> (manifest_error + parsed) \<times> read_cache" where
  "load_cached opn c =
     (case on_file opn of
        None \<Rightarrow> (Inr None, cache_discard (on_project opn) c)
      | Some f \<Rightarrow>
          (case (if identity_of (rd_before f) = None then (None, c) else cache_get (on_project opn) c) of
             (slot, c1) \<Rightarrow>
               if (case slot of None \<Rightarrow> False
                   | Some sl \<Rightarrow> sl_settled sl \<and> Some (sl_identity sl) = identity_of (rd_before f))
               then (Inr (map_option (\<lambda>sl. (sl_raw sl, sl_entries sl)) slot), c1)
               else if (case slot of None \<Rightarrow> False | Some sl \<Rightarrow> sl_raw sl = rd_raw f)
               then (let es = sl_entries (the slot) in
                     (Inr (Some (rd_raw f, es)),
                      remember (on_project opn) (on_now opn) (keep_identity f) (rd_raw f) es c1))
               else (case parse_manifest True (rd_raw f) of
                       Inl e \<Rightarrow> (Inl e, c1)
                     | Inr es \<Rightarrow>
                         (Inr (Some (rd_raw f, es)),
                          remember (on_project opn) (on_now opn) (keep_identity f) (rd_raw f) es c1))))"

text \<open>The same read without a cache.\<close>

definition load_fresh :: "file_opened \<Rightarrow> manifest_error + parsed" where
  "load_fresh opn =
     (case on_file opn of
        None \<Rightarrow> Inr None
      | Some f \<Rightarrow>
          (case parse_manifest True (rd_raw f) of
             Inl e \<Rightarrow> Inl e
           | Inr es \<Rightarrow> Inr (Some (rd_raw f, es))))"

fun load_all :: "file_opened list \<Rightarrow> read_cache \<Rightarrow> (manifest_error + parsed) list \<times> read_cache" where
  "load_all [] c = ([], c)"
| "load_all (x # xs) c =
     (case load_cached x c of (r, c1) \<Rightarrow> (case load_all xs c1 of (rs, c2) \<Rightarrow> (r # rs, c2)))"

section \<open>The cache answers as a fresh read does\<close>

text \<open>
  What the file system promises: an identity that was older than the granularity of its clocks when
  the file was read, and that the read did not change, stands for the bytes read.
\<close>

definition proves :: "file_opened \<Rightarrow> file_opened \<Rightarrow> bool" where
  "proves a b =
     (case (on_file a, on_file b) of
        (Some f, Some g) \<Rightarrow>
          (on_project a = on_project b \<and> identity_of (rd_before f) \<noteq> None \<and> identity_of (rd_after f) = identity_of (rd_before f)
           \<and> manifest_settled_age_ns < on_now a - last_change_ns (rd_before f) \<and> identity_of (rd_before g) = identity_of (rd_before f))
          \<longrightarrow> rd_raw g = rd_raw f
      | _ \<Rightarrow> True)"

fun stable_files :: "file_opened list \<Rightarrow> bool" where
  "stable_files [] = True"
| "stable_files (x # xs) = (list_all (proves x) xs \<and> stable_files xs)"

definition slot_sound :: "file_opened list \<Rightarrow> project_identity \<Rightarrow> cache_slot \<Rightarrow> bool" where
  "slot_sound later p sl =
     (parse_manifest True (sl_raw sl) = Inr (sl_entries sl) \<and>
      (sl_settled sl \<longrightarrow>
         (\<forall>b\<in>set later. \<forall>g. on_project b = p \<longrightarrow> on_file b = Some g \<longrightarrow>
            identity_of (rd_before g) = Some (sl_identity sl) \<longrightarrow> rd_raw g = sl_raw sl)))"

definition cache_sound :: "file_opened list \<Rightarrow> read_cache \<Rightarrow> bool" where
  "cache_sound later c = (\<forall>(p, sl)\<in>set c. slot_sound later p sl)"

lemma set_move_to_end: "set (move_to_end p slot c) \<subseteq> insert (p, slot) (set c)"
  by (auto simp: move_to_end_def AList.delete_eq)

lemma set_evict: "set (evict n c) \<subseteq> set c"
  by (induction c) auto

lemma length_evict: "length (evict n c) \<le> n"
  by (induction c) auto

lemma cache_sound_subset: "cache_sound later c \<Longrightarrow> set d \<subseteq> set c \<Longrightarrow> cache_sound later d"
  by (auto simp: cache_sound_def)

lemma cache_sound_put: "cache_sound later c \<Longrightarrow> slot_sound later p sl \<Longrightarrow> cache_sound later (cache_put p sl c)"
  using set_evict [of manifest_read_cache_project_limit "move_to_end p sl c"] set_move_to_end [of p sl c]
  by (auto simp: cache_sound_def cache_put_def)

lemma cache_get_sound:
  assumes "cache_sound later c" "cache_get p c = (slot, d)"
  shows "cache_sound later d \<and> (\<forall>sl. slot = Some sl \<longrightarrow> slot_sound later p sl)"
proof (cases "map_of c p")
  case None
  then show ?thesis using assms by (simp add: cache_get_def)
next
  case (Some sl)
  have "(p, sl) \<in> set c" using Some by (rule map_of_SomeD)
  then have "slot_sound later p sl" "set (move_to_end p sl c) \<subseteq> set c"
    using assms(1) set_move_to_end [of p sl c] by (auto simp: cache_sound_def)
  then show ?thesis using assms Some cache_sound_subset [OF assms(1)] by (auto simp: cache_get_def)
qed

lemma cache_sound_later: "cache_sound (b # later) c \<Longrightarrow> cache_sound later c"
  by (force simp: cache_sound_def slot_sound_def)

lemma remember_sound:
  assumes c: "cache_sound later c" and f: "on_file opn = Some f" and p: "parse_manifest True (rd_raw f) = Inr es"
    and stable: "list_all (proves opn) later"
  shows "cache_sound later (remember (on_project opn) (on_now opn) (keep_identity f) (rd_raw f) es c)"
proof (cases "keep_identity f")
  case None
  then show ?thesis using c by (simp add: remember_def)
next
  case (Some i)
  then have i: "identity_of (rd_before f) = Some i" "identity_of (rd_after f) = identity_of (rd_before f)" "i = rd_before f"
    by (auto simp: keep_identity_def identity_of_def split: if_splits)
  have "slot_sound later (on_project opn) \<lparr>sl_identity = i, sl_settled = (manifest_settled_age_ns < on_now opn - last_change_ns i),
      sl_raw = rd_raw f, sl_entries = es\<rparr>"
    using p stable f i by (auto simp: slot_sound_def list_all_iff proves_def)
  then show ?thesis using Some cache_sound_put [OF c] by (simp add: remember_def)
qed

lemma load_cached_fresh:
  assumes c: "cache_sound (opn # later) c" and stable: "list_all (proves opn) later"
    and run: "load_cached opn c = (r, d)"
  shows "r = load_fresh opn \<and> cache_sound later d"
proof (cases "on_file opn")
  case None
  then have "r = Inr None" "d = AList.delete (on_project opn) c" using run by (simp_all add: load_cached_def cache_discard_def)
  moreover have "set (AList.delete (on_project opn) c) \<subseteq> set c" by (auto simp: AList.delete_eq)
  ultimately show ?thesis using None cache_sound_subset [OF cache_sound_later [OF c]] by (simp add: load_fresh_def)
next
  case (Some f)
  obtain slot c1 where sc: "(if identity_of (rd_before f) = None then (None, c) else cache_get (on_project opn) c) = (slot, c1)"
    by fastforce
  have s1: "cache_sound (opn # later) c1" and sl: "\<And>x. slot = Some x \<Longrightarrow> slot_sound (opn # later) (on_project opn) x"
    using sc c cache_get_sound [OF c] by (auto split: if_splits)
  note c1 = cache_sound_later [OF s1]
  let ?hit = "case slot of None \<Rightarrow> False | Some x \<Rightarrow> sl_settled x \<and> Some (sl_identity x) = identity_of (rd_before f)"
  let ?same = "case slot of None \<Rightarrow> False | Some x \<Rightarrow> sl_raw x = rd_raw f"
  have run': "(if ?hit then (Inr (map_option (\<lambda>x. (sl_raw x, sl_entries x)) slot), c1)
      else if ?same then (let es = sl_entries (the slot) in
        (Inr (Some (rd_raw f, es)), remember (on_project opn) (on_now opn) (keep_identity f) (rd_raw f) es c1))
      else case parse_manifest True (rd_raw f) of Inl e \<Rightarrow> (Inl e, c1)
        | Inr es \<Rightarrow> (Inr (Some (rd_raw f, es)), remember (on_project opn) (on_now opn) (keep_identity f) (rd_raw f) es c1)) = (r, d)"
    using run by (simp only: load_cached_def Some option.case sc prod.case)
  consider (Hit) ?hit | (Same) "\<not> ?hit" ?same | (Read) "\<not> ?hit" "\<not> ?same" by blast
  then show ?thesis
  proof cases
    case Hit
    then obtain x where x: "slot = Some x" "sl_settled x" "Some (sl_identity x) = identity_of (rd_before f)"
      by (auto split: option.splits)
    then have "rd_raw f = sl_raw x" "parse_manifest True (sl_raw x) = Inr (sl_entries x)"
      using sl [OF x(1)] Some by (auto simp: slot_sound_def)
    then show ?thesis using run' Hit x(1) c1 Some by (auto simp: load_fresh_def)
  next
    case Same
    then obtain x where x: "slot = Some x" "sl_raw x = rd_raw f" by (auto split: option.splits)
    then have p: "parse_manifest True (rd_raw f) = Inr (sl_entries x)" using sl [OF x(1)] by (simp add: slot_sound_def)
    then have "r = Inr (Some (rd_raw f, sl_entries x))"
      "d = remember (on_project opn) (on_now opn) (keep_identity f) (rd_raw f) (sl_entries x) c1"
      using run' [unfolded x(1) option.case] Same [unfolded x(1) option.case] by (simp_all add: Let_def)
    then show ?thesis using remember_sound [OF c1 Some p stable] Some p by (simp add: load_fresh_def)
  next
    case Read
    show ?thesis
    proof (cases "parse_manifest True (rd_raw f)")
      case (Inl e)
      then show ?thesis using run' Read c1 Some by (simp add: load_fresh_def)
    next
      case (Inr es)
      then have "r = Inr (Some (rd_raw f, es))"
        "d = remember (on_project opn) (on_now opn) (keep_identity f) (rd_raw f) es c1"
        using run' Read by simp_all
      then show ?thesis using remember_sound [OF c1 Some Inr stable] Some Inr by (simp add: load_fresh_def)
    qed
  qed
qed

lemma load_all_fresh:
  "cache_sound xs c \<Longrightarrow> stable_files xs \<Longrightarrow> fst (load_all xs c) = map load_fresh xs"
proof (induction xs arbitrary: c)
  case Nil
  then show ?case by simp
next
  case (Cons x xs)
  obtain r d where x: "load_cached x c = (r, d)" by fastforce
  have "r = load_fresh x" "cache_sound xs d" using load_cached_fresh [OF Cons.prems(1) _ x] Cons.prems(2) by simp_all
  moreover obtain rs e where "load_all xs d = (rs, e)" by fastforce
  ultimately show ?case using Cons.IH [of d] Cons.prems(2) x by simp
qed

text \<open>The cache never holds more projects than its limit.\<close>

lemma move_to_end_le: "map_of c p \<noteq> None \<Longrightarrow> length (move_to_end p sl c) \<le> length c"
proof -
  assume "map_of c p \<noteq> None"
  then have "filter (\<lambda>(k, _). p \<noteq> k) c \<noteq> c" by (auto simp: filter_id_conv map_of_eq_None_iff)
  then have "length (filter (\<lambda>(k, _). p \<noteq> k) c) < length c"
    by (metis (no_types, lifting) filter_id_conv length_filter_less)
  then show ?thesis by (simp add: move_to_end_def AList.delete_eq)
qed

lemma load_cached_bounded:
  assumes "length c \<le> manifest_read_cache_project_limit" "load_cached opn c = (r, d)"
  shows "length d \<le> manifest_read_cache_project_limit"
proof (cases "on_file opn")
  case None
  then show ?thesis using assms AList.length_delete_le [of "on_project opn" c] by (auto simp: load_cached_def cache_discard_def)
next
  case (Some f)
  obtain slot c1 where sc: "(if identity_of (rd_before f) = None then (None, c) else cache_get (on_project opn) c) = (slot, c1)"
    by fastforce
  have c1: "length c1 \<le> manifest_read_cache_project_limit"
    using sc assms(1) move_to_end_le [of c "on_project opn"] order_trans
    by (auto simp: cache_get_def split: if_splits option.splits)
  then have rem: "length (remember p now i raw es c1) \<le> manifest_read_cache_project_limit" for p now i raw es
    by (simp add: remember_def cache_put_def length_evict split: option.split)
  show ?thesis using assms(2) Some sc c1 by (auto simp: rem load_cached_def Let_def split: if_splits sum.splits)
qed

end
