(* ===== verification/Manifest_Archive.thy ===== *)
theory Manifest_Archive
  imports Manifest_Contract
begin

text \<open>
  The manifest as it travels in a project archive (\<open>encode_artifact_manifest_payload\<close> and
  \<open>decode_artifact_manifest_payload\<close>): the claims, and for each the digest of the artifact's bytes.
\<close>

record archive_snapshot =
  sn_entries :: "(artifact_key \<times> manifest_entry) list"
  sn_digests :: "(artifact_key \<times> string) list"

definition archive_manifest_schema_version :: int where
  "archive_manifest_schema_version = 2"

definition archive_entry_json :: "manifest_entry \<Rightarrow> string \<Rightarrow> json" where
  "archive_entry_json e d =
     JObj [(''artifact_path'', JStr (artifact_path e)), (''basis_digest'', JStr (basis_digest e)), (''content_digest'', JStr d)]"

section \<open>Encoding\<close>

fun encode_digests :: "(string \<times> string) list \<Rightarrow> (artifact_key \<times> string) list \<Rightarrow> manifest_error + (string \<times> string) list" where
  "encode_digests acc [] = Inr acc"
| "encode_digests acc ((key, d) # ds) =
     (if is_content_digest d then encode_digests (AList.update (key_encode key) d acc) ds else Inl Bad_value)"

definition archive_payload :: "entries \<Rightarrow> (string \<Rightarrow> string) \<Rightarrow> json" where
  "archive_payload es digest_of =
     JObj [(''entries'', JObj (map (\<lambda>(k, e). (k, archive_entry_json e (digest_of k))) (sort_key fst es))),
           (''hash_algorithm'', JStr hash_algorithm),
           (''schema_version'', JInt archive_manifest_schema_version)]"

definition encode_artifact_manifest_payload :: "archive_snapshot \<Rightarrow> manifest_error + json" where
  "encode_artifact_manifest_payload sn =
     bindE (encode_target_entries (sn_entries sn)) (\<lambda>encoded.
     bindE (encode_digests [] (sn_digests sn)) (\<lambda>digests.
       if \<not> same_names (map fst digests) (map fst encoded) then Inl Bad_value
       else Inr (archive_payload encoded (\<lambda>k. the (map_of digests k)))))"

section \<open>Decoding\<close>

fun parse_archive_entry :: "json \<Rightarrow> manifest_error + (manifest_entry \<times> string)" where
  "parse_archive_entry (JObj kvs) =
     (if \<not> same_names (map fst kvs) [''artifact_path'', ''basis_digest'', ''content_digest''] then Inl Manifest_error
      else case (map_of kvs ''artifact_path'', map_of kvs ''basis_digest'', map_of kvs ''content_digest'') of
             (Some (JStr p), b, c) \<Rightarrow>
               (case normalize_artifact_path p of
                  Inl e \<Rightarrow> Inl Manifest_error
                | Inr q \<Rightarrow>
                    if q \<noteq> p then Inl Manifest_error
                    else (case (b, c) of
                            (Some (JStr bd), Some (JStr cd)) \<Rightarrow>
                              if is_prefixed_digest bd \<and> is_content_digest cd
                              then Inr (\<lparr>artifact_path = q, basis_digest = bd\<rparr>, cd) else Inl Manifest_error
                          | _ \<Rightarrow> Inl Manifest_error))
           | _ \<Rightarrow> Inl Manifest_error)"
| "parse_archive_entry v = Inl Manifest_error"

text \<open>The key, its text, the entry and the digest of every member.\<close>

fun parse_archive_entries ::
    "(string \<times> json) list \<Rightarrow> manifest_error + (artifact_key \<times> string \<times> manifest_entry \<times> string) list" where
  "parse_archive_entries [] = Inr []"
| "parse_archive_entries ((k, v) # kvs) =
     bindE (check_encoded_key k) (\<lambda>key.
     bindE (parse_archive_entry v) (\<lambda>(e, d).
     bindE (parse_archive_entries kvs) (\<lambda>rest. Inr ((key, k, e, d) # rest))))"

definition parse_archive :: "json \<Rightarrow> manifest_error + archive_snapshot" where
  "parse_archive v =
     (case v of
        JObj payload \<Rightarrow>
          if \<not> same_names (map fst payload) [''entries'', ''hash_algorithm'', ''schema_version''] then Inl Manifest_error
          else if map_of payload ''schema_version'' \<noteq> Some (JInt archive_manifest_schema_version) then Inl Manifest_error
          else if map_of payload ''hash_algorithm'' \<noteq> Some (JStr hash_algorithm) then Inl Manifest_error
          else (case map_of payload ''entries'' of
                  Some (JObj raw_entries) \<Rightarrow>
                    bindE (parse_archive_entries raw_entries) (\<lambda>rows.
                    bindE (assert_unique_artifact_paths (map (\<lambda>(key, k, e, d). (k, e)) rows)) (\<lambda>_.
                      Inr \<lparr>sn_entries = map (\<lambda>(key, k, e, d). (key, e)) rows,
                           sn_digests = map (\<lambda>(key, k, e, d). (key, d)) rows\<rparr>))
                | _ \<Rightarrow> Inl Manifest_error)
      | _ \<Rightarrow> Inl Manifest_error)"

definition decode_artifact_manifest_payload :: "json \<Rightarrow> manifest_error + archive_snapshot" where
  "decode_artifact_manifest_payload payload =
     (case utf8_decode (utf8_encode (dumps_sorted payload)) of
        None \<Rightarrow> Inl Manifest_error
      | Some text \<Rightarrow>
          (case loads_pairs text of
             None \<Rightarrow> Inl Manifest_error
           | Some v \<Rightarrow> if \<not> no_duplicate_keys v then Inl Manifest_error else parse_archive v))"

section \<open>An archive gives back the snapshot, if it can be read at all\<close>

lemma sort_keys_archive_entry: "sort_keys (archive_entry_json e d) = archive_entry_json e d"
  by (simp add: archive_entry_json_def sort_key_def insort_key_def)

lemma fst_archive_entries: "fst \<circ> (\<lambda>(k, e). (k, archive_entry_json e (f k))) = fst"
  by auto

lemma sort_keys_archive: "sort_keys (archive_payload es f) = archive_payload es f"
proof -
  have m: "map (\<lambda>(k, v). (k, sort_keys v)) (map (\<lambda>(k, e). (k, archive_entry_json e (f k))) xs)
      = map (\<lambda>(k, e). (k, archive_entry_json e (f k))) xs" for xs
    by (induction xs) (auto simp: sort_keys_archive_entry)
  have s: "sort_key fst (map (\<lambda>(k, e). (k, archive_entry_json e (f k))) (sort_key fst es))
      = map (\<lambda>(k, e). (k, archive_entry_json e (f k))) (sort_key fst es)"
    by (rule sort_key_same) (simp add: fst_archive_entries)
  have inner: "sort_keys (JObj (map (\<lambda>(k, e). (k, archive_entry_json e (f k))) (sort_key fst es)))
      = JObj (map (\<lambda>(k, e). (k, archive_entry_json e (f k))) (sort_key fst es))"
    unfolding sort_keys.simps m s ..
  have "sort_keys (JObj [(''entries'', x), (''hash_algorithm'', JStr h), (''schema_version'', JInt n)])
      = JObj [(''entries'', x), (''hash_algorithm'', JStr h), (''schema_version'', JInt n)]" if "sort_keys x = x" for x h n
    using that by simp
  then show ?thesis unfolding archive_payload_def using inner by blast
qed

lemma archive_payload_ok:
  assumes d: "distinct (map fst es)"
  shows "json_ok (archive_payload es f)" "no_duplicate_keys (archive_payload es f)"
proof -
  have s: "distinct (map fst (sort_key fst es))" using d by (metis distinct_map distinct_sort set_sort)
  have a: "list_all (\<lambda>(k, v). json_ok v) (map (\<lambda>(k, e). (k, archive_entry_json e (f k))) xs)"
    "list_all (\<lambda>(k, v). no_duplicate_keys v) (map (\<lambda>(k, e). (k, archive_entry_json e (f k))) xs)" for xs
    by (induction xs) (auto simp: archive_entry_json_def)
  have "json_ok (JInt archive_manifest_schema_version)"
    by (simp add: archive_manifest_schema_version_def max_int_digits_def str_nat.simps)
  then show "json_ok (archive_payload es f)" "no_duplicate_keys (archive_payload es f)"
    using s by (simp_all add: archive_payload_def fst_archive_entries a del: list.pred_map)
qed

lemma encode_digests_result:
  "encode_digests acc ds = Inr es \<Longrightarrow>
     list_all (\<lambda>(_, d). is_content_digest d) ds
     \<and> map_of es = fold (\<lambda>(k, d) m. m(key_encode k \<mapsto> d)) ds (map_of acc)"
  by (induction acc ds rule: encode_digests.induct) (auto split: if_splits simp: update_conv')

lemma parse_archive_entry_json:
  "entry_ok e \<Longrightarrow> is_content_digest d \<Longrightarrow> parse_archive_entry (archive_entry_json e d) = Inr (e, d)"
  by (simp add: archive_entry_json_def same_names_def entry_ok_def)

lemma parse_archive_entries_map:
  "list_all (\<lambda>(k, e). key_ok k \<and> entry_ok e \<and> is_content_digest (f (key_encode k))) xs \<Longrightarrow>
     parse_archive_entries (map (\<lambda>(c, e). (c, archive_entry_json e (f c))) (map (\<lambda>(k, e). (key_encode k, e)) xs))
     = Inr (map (\<lambda>(k, e). (k, key_encode k, e, f (key_encode k))) xs)"
proof (induction xs)
  case Nil
  then show ?case by simp
next
  case (Cons x xs)
  obtain k e where x: "x = (k, e)" by (cases x)
  then have k: "key_ok k" and e: "entry_ok e" "is_content_digest (f (key_encode k))" using Cons.prems by simp_all
  have "check_encoded_key (key_encode k) = Inr k" using k key_decode_encode by (simp add: key_ok_def check_encoded_key_def)
  then show ?case using Cons x parse_archive_entry_json [OF e] by simp
qed

text \<open>A dict of digests, as a map from keys, and the same over their texts.\<close>

lemma digest_of_key:
  assumes "claims_dict ds" "(k, d) \<in> set ds"
  shows "fold (\<lambda>(k, d) m. m(key_encode k \<mapsto> d)) ds m (key_encode k) = Some d"
  using assms
proof (induction ds arbitrary: m)
  case Nil
  then show ?case by simp
next
  case (Cons x ds)
  obtain l c where x: "x = (l, c)" by (cases x)
  have other: "fold (\<lambda>(k, d) m. m(key_encode k \<mapsto> d)) ds m (key_encode l) = m (key_encode l)" for m
  proof -
    have "key_encode l \<notin> (key_encode \<circ> fst) ` set ds" using claims_dict_codes [OF Cons.prems(1)] x by simp
    then show ?thesis by (induction ds arbitrary: m) auto
  qed
  have ds: "claims_dict ds" using Cons.prems(1) by (simp add: claims_dict_def)
  show ?case
  proof (cases "(k, d) \<in> set ds")
    case True
    then show ?thesis using Cons.IH [OF ds] by simp
  next
    case False
    then have "k = l" "d = c" using Cons.prems(2) x by auto
    then show ?thesis by (simp only: x fold_simps prod.case other fun_upd_same)
  qed
qed

lemma encode_digests_keys:
  "encode_digests acc ds = Inr es \<Longrightarrow> fst ` set es = fst ` set acc \<union> (key_encode \<circ> fst) ` set ds"
  by (induction acc ds rule: encode_digests.induct) (auto split: if_splits simp: dom_update)

lemma distinct_sort_keys: "distinct (map f xs) \<Longrightarrow> distinct (map f (sort_key g xs))"
  by (simp add: distinct_map)

lemma sort_encoded:
  assumes "claims_dict xs"
  shows "sort_key fst (map (\<lambda>(k, e). (key_encode k, e)) xs)
     = map (\<lambda>(k, e). (key_encode k, e)) (sort_key (key_encode \<circ> fst) xs)"
proof (rule map_sorted_distinct_set_unique [where f = fst])
  let ?g = "\<lambda>(k, e). (key_encode k, e)"
  have fg: "map fst (map ?g ys) = map (key_encode \<circ> fst) ys" for ys :: "(artifact_key \<times> 'a) list"
    by (induction ys) auto
  have d: "distinct (map (key_encode \<circ> fst) xs)" by (rule claims_dict_codes [OF assms])
  then have ds: "distinct (map (key_encode \<circ> fst) (sort_key (key_encode \<circ> fst) xs))"
    by (rule distinct_sort_keys)
  show "sorted (map fst (map ?g (sort_key (key_encode \<circ> fst) xs)))" unfolding fg by simp
  show "distinct (map fst (map ?g (sort_key (key_encode \<circ> fst) xs)))" unfolding fg by (rule ds)
  have dg: "distinct (map fst (map ?g xs))" unfolding fg by (rule d)
  then show "distinct (map fst (sort_key fst (map ?g xs)))" by (rule distinct_sort_keys)
  have st: "set (sort_key fst (map ?g xs)) \<union> set (map ?g (sort_key (key_encode \<circ> fst) xs)) = set (map ?g xs)" by simp
  have "inj_on fst (set (map ?g xs))" using dg unfolding distinct_map [of fst] by blast
  then show "inj_on fst (set (sort_key fst (map ?g xs)) \<union> set (map ?g (sort_key (key_encode \<circ> fst) xs)))"
    unfolding st .
qed simp_all

lemma map_of_sort: "distinct (map fst xs) \<Longrightarrow> map_of (sort_key f xs) = map_of xs"
proof -
  assume d: "distinct (map fst xs)"
  then have "distinct (map fst (sort_key f xs))" by (rule distinct_sort_keys)
  then show ?thesis using map_of_inject_set [OF _ d] by (metis set_sort)
qed

lemma map_of_map_keys: "map_of (map (\<lambda>(k, e). (k, h k)) xs) k = map_option (\<lambda>_. h k) (map_of xs k)"
  by (induction xs) auto

text \<open>The rows that a written archive reads back as.\<close>

lemma archive_read_back:
  assumes es: "claims_dict (sn_entries sn)" and ds: "claims_dict (sn_digests sn)"
    and enc: "encode_artifact_manifest_payload sn = Inr v"
  shows "\<exists>sn'. map_of (sn_entries sn') = map_of (sn_entries sn) \<and> map_of (sn_digests sn') = map_of (sn_digests sn) \<and>
     decode_artifact_manifest_payload v =
       (if owned_once (map_of (map (\<lambda>(k, e). (key_encode k, e)) (sn_entries sn))) then Inr sn' else Inl Manifest_error)"
proof -
  obtain e d where e: "encode_target_entries (sn_entries sn) = Inr e" and d: "encode_digests [] (sn_digests sn) = Inr d"
    and names: "same_names (map fst d) (map fst e)" and v: "v = archive_payload e (\<lambda>k. the (map_of d k))"
    using enc by (auto simp: encode_artifact_manifest_payload_def bindE_Inr_iff split: if_splits)
  let ?f = "\<lambda>k. the (map_of d k)" and ?xs = "sort_key (key_encode \<circ> fst) (sn_entries sn)"
  note er = encode_target_result [OF e] and dr = encode_digests_result [OF d] and dk = encode_digests_keys [OF d]
  have keys: "fst ` set d = fst ` set e" using names by (force simp: same_names_def list_all_iff)
  have digest: "\<exists>c. (k, c) \<in> set (sn_digests sn) \<and> map_of d (key_encode k) = Some c" if k: "(k, x) \<in> set (sn_entries sn)" for k x
  proof -
    have "key_encode k \<in> fst ` set e" using er k by force
    then have "key_encode k \<in> (key_encode \<circ> fst) ` set (sn_digests sn)" using keys dk by simp
    then obtain l c where l: "(l, c) \<in> set (sn_digests sn)" "key_encode k = key_encode l" by auto
    have "key_ok k" "key_ok l" using es ds k l(1) by (auto simp: claims_dict_def list_all_iff)
    then have "k = l" using l(2) key_encode_eq by blast
    then show ?thesis using l digest_of_key [OF ds l(1), of Map.empty] dr by auto
  qed
  have rows: "parse_archive_entries (map (\<lambda>(c, e). (c, archive_entry_json e (?f c))) (sort_key fst e))
      = Inr (map (\<lambda>(k, e). (k, key_encode k, e, ?f (key_encode k))) ?xs)"
  proof -
    have "key_ok k \<and> entry_ok x \<and> is_content_digest (?f (key_encode k))" if k: "(k, x) \<in> set (sn_entries sn)" for k x
    proof -
      obtain c where c: "(k, c) \<in> set (sn_digests sn)" "map_of d (key_encode k) = Some c" using digest [OF k] by blast
      then have "is_content_digest c" using dr by (auto simp: list_all_iff)
      then show ?thesis using c(2) er es k by (auto simp: claims_dict_def list_all_iff)
    qed
    then have "list_all (\<lambda>(k, e). key_ok k \<and> entry_ok e \<and> is_content_digest (?f (key_encode k))) ?xs"
      by (auto simp: list_all_iff)
    moreover have "sort_key fst e = map (\<lambda>(k, e). (key_encode k, e)) ?xs" using sort_encoded [OF es] er by simp
    ultimately show ?thesis using parse_archive_entries_map by simp
  qed
  have ue: "map (\<lambda>(key, k, e, d). (k, e)) (map (\<lambda>(k, e). (k, key_encode k, e, ?f (key_encode k))) ?xs) = sort_key fst e"
    using sort_encoded [OF es] er by (simp add: comp_def case_prod_beta')
  have de: "distinct (map fst e)" using er by blast
  have sorted: "distinct (map fst (sort_key fst e))" "map_of (sort_key fst e) = map_of e"
    using distinct_sort_keys [OF de] map_of_sort_key_fst [OF de] by (simp_all add: fun_eq_iff)
  let ?own = "owned_once (map_of (map (\<lambda>(k, e). (key_encode k, e)) (sn_entries sn)))"
  have "assert_unique_artifact_paths (sort_key fst e) = Inr () \<longleftrightarrow> ?own"
    using er sorted assert_unique_iff [OF sorted(1)] unique_paths_iff [OF sorted(1)] by simp
  then have uni: "assert_unique_artifact_paths (sort_key fst e) = (if ?own then Inr () else Inl Manifest_error)"
    using check_owners_error [of "[]" "sort_key fst e"]
    by (cases "assert_unique_artifact_paths (sort_key fst e)") (auto simp: assert_unique_artifact_paths_def)
  let ?sn = "\<lparr>sn_entries = ?xs, sn_digests = map (\<lambda>(k, e). (k, ?f (key_encode k))) ?xs\<rparr>"
  have "parse_archive v = (if ?own then Inr ?sn else Inl Manifest_error)"
    using rows uni ue by (simp add: v parse_archive_def archive_payload_def same_names_def comp_def case_prod_beta')
  moreover have "loads_pairs (dumps_sorted v) = Some v"
    using loads_pairs_dumps [OF archive_payload_ok(1) [OF de]] by (simp add: v dumps_sorted_def sort_keys_archive)
  ultimately have dec: "decode_artifact_manifest_payload v = (if ?own then Inr ?sn else Inl Manifest_error)"
    using archive_payload_ok(2) [OF de] by (simp add: decode_artifact_manifest_payload_def utf8_round_trip v)
  have d1: "distinct (map fst (sn_entries sn))" and d2: "distinct (map fst (sn_digests sn))"
    using es ds by (simp_all add: claims_dict_def)
  have m1: "map_of ?xs = map_of (sn_entries sn)" by (rule map_of_sort [OF d1])
  have m2: "map_of (sn_digests ?sn) = map_of (sn_digests sn)"
  proof
    fix k
    show "map_of (sn_digests ?sn) k = map_of (sn_digests sn) k"
    proof (cases "map_of (sn_entries sn) k")
      case (Some x)
      then obtain c where c: "(k, c) \<in> set (sn_digests sn)" "map_of d (key_encode k) = Some c"
        using digest map_of_SomeD by metis
      have "map_of (sn_digests ?sn) k = map_option (\<lambda>_. ?f (key_encode k)) (map_of ?xs k)"
        using map_of_map_keys [of "\<lambda>k. ?f (key_encode k)" ?xs k] by simp
      then show ?thesis using Some m1 c d2 by simp
    next
      case None
      then have "map_of ?xs k = None" using m1 by simp
      then have "map_of (sn_digests ?sn) k = None" by (auto simp: map_of_eq_None_iff image_iff)
      moreover have "map_of (sn_digests sn) k = None"
      proof (rule ccontr)
        assume "map_of (sn_digests sn) k \<noteq> None"
        then obtain c where c: "(k, c) \<in> set (sn_digests sn)" using map_of_SomeD by fastforce
        then have "key_encode k \<in> fst ` set e" using dk keys by force
        then obtain l x where l: "(l, x) \<in> set (sn_entries sn)" "key_encode k = key_encode l" using er by auto
        have "key_ok k" "key_ok l" using es ds c l(1) by (auto simp: claims_dict_def list_all_iff)
        then have "k = l" using l(2) key_encode_eq by blast
        then show False using None l(1) by (force simp: map_of_eq_None_iff)
      qed
      ultimately show ?thesis by simp
    qed
  qed
  show ?thesis by (intro exI [of _ ?sn]) (use dec m1 m2 in simp)
qed

end
