(* ===== verification/Artifact_Laws.thy ===== *)
theory Artifact_Laws
  imports Manifest_Refinement Manifest_Cache Manifest_Archive
begin

text \<open>
  The properties of the artifact manifest: the texts of keys and of the file read back, transactional
  operations leave the claims they found when they fail, the file stays readable with one owner for
  every path whatever the operating system answers, and the file, the memory and the cache agree.
\<close>

section \<open>The file stays readable\<close>

definition readable :: "project \<Rightarrow> bool" where
  "readable s =
     (case pm_content s of
        None \<Rightarrow> True
      | Some raw \<Rightarrow> (case parse_manifest True raw of Inl _ \<Rightarrow> False | Inr _ \<Rightarrow> True))"

definition keeps_readable :: "(project, 'a) call \<Rightarrow> bool" where
  "keeps_readable m = (\<forall>s r t. readable s \<longrightarrow> m s = (r, t) \<longrightarrow> readable t)"

named_theorems keeps \<open>calls after which a readable manifest is readable\<close>

lemma readable_same: "same_files s t \<Longrightarrow> readable t = readable s"
  by (simp add: same_files_def readable_def)

lemma keeps_returning [keeps]: "keeps_readable (returning x)" "keeps_readable (raising e)" "keeps_readable (lifting m)"
  by (simp_all add: keeps_readable_def)

lemma keeps_then: "keeps_readable m \<Longrightarrow> (\<And>x. keeps_readable (f x)) \<Longrightarrow> keeps_readable (and_then m f)"
  unfolding keeps_readable_def by (metis and_then_cases)

lemma keeps_lifting: "(\<And>x. m = Inr x \<Longrightarrow> keeps_readable (f x)) \<Longrightarrow> keeps_readable (and_then (lifting m) f)"
  by (cases m) (auto simp: keeps_readable_def and_then_def lifting_def)

lemma keeps_load:
  assumes "\<And>es original. manifest_ok es \<Longrightarrow> keeps_readable (f (es, original))"
  shows "keeps_readable (and_then (load_unlocked True) f)"
  unfolding keeps_readable_def
proof (intro allI impI)
  fix s r t
  assume s: "readable s" and run: "and_then (load_unlocked True) f s = (r, t)"
  from run show "readable t"
  proof (cases rule: and_then_cases)
    case (Raises e)
    then show ?thesis using s load_unlocked_result readable_same by blast
  next
    case (Returns x u)
    have "same_files s u" "x = (stored_entries s, pm_content s)" using load_unlocked_result [OF Returns(1)] by (cases x; simp)+
    then show ?thesis using s readable_same [of s u] assms [OF stored_entries_ok, of s] Returns(2) by (auto simp: keeps_readable_def)
  qed
qed

lemma keeps_locked: "keeps_readable body \<Longrightarrow> keeps_readable (locked body)"
  unfolding keeps_readable_def using readable_same by (metis locked_cases)

lemma keeps_os_call: "(\<And>s. readable s \<Longrightarrow> readable (eff s)) \<Longrightarrow> keeps_readable (os_call eff)"
  unfolding keeps_readable_def
proof (intro allI impI)
  fix s r t
  assume e: "\<And>s. readable s \<Longrightarrow> readable (eff s)" and s: "readable s" and run: "os_call eff s = (r, t)"
  have "readable (s\<lparr>pm_answers := rest\<rparr>)" for rest using s by (simp add: readable_def)
  then show "readable t" using run e by (auto elim!: os_call_cases)
qed

lemma keeps_unlink [keeps]: "keeps_readable unlink_manifest"
  unfolding unlink_manifest_def by (rule keeps_os_call) (simp add: readable_def)

lemma keeps_atomic_replace: "manifest_ok es \<Longrightarrow> keeps_readable (atomic_replace (manifest_text es))"
  unfolding atomic_replace_def by (rule keeps_os_call) (simp add: readable_def parse_text)

lemma keeps_write [keeps]: "entries_ok es \<Longrightarrow> keeps_readable (write_manifest es original)"
  unfolding write_manifest_def
proof (rule keeps_lifting)
  fix raw
  assume "entries_ok es" "serialize_manifest es = Inr raw"
  then have "manifest_ok es" "raw = manifest_text es" using entries_ok_written serialize_text [of es] by auto
  then show "keeps_readable (if original = Some raw then returning False else and_then (atomic_replace raw) (\<lambda>_. returning True))"
    by (simp add: keeps keeps_then keeps_atomic_replace)
qed

lemma keeps_readonly: "keeps_readable load_readonly"
  unfolding keeps_readable_def using load_readonly_result readable_same by blast

lemma put_keeps: "key_ok k \<Longrightarrow> entry_ok e \<Longrightarrow> keeps_readable (project_put k e)"
  unfolding project_put_def
  by (intro keeps_locked keeps_load) (simp add: keeps entries_ok_update stored_key_encode manifest_ok_iff)

lemma delete_keeps: "keeps_readable (project_delete k)"
  unfolding project_delete_def
  by (intro keeps_locked keeps_load) (simp add: Let_def keeps keeps_then entries_ok_delete manifest_ok_iff)

lemma replace_keeps:
  assumes "claims_dict ys"
  shows "keeps_readable (project_replace_if xs ys)"
  unfolding project_replace_if_def
proof (intro keeps_lifting keeps_locked keeps_load)
  fix exs eys es original
  assume e: "encode_optional_entries ys = Inr eys" and "manifest_ok es"
  then have "entries_ok (apply_replacements eys es)"
    using encode_optional_result [OF assms e] assms by (auto intro!: entries_ok_apply simp: claims_dict_def manifest_ok_iff)
  then show "keeps_readable (case (es, original) of (es, original) \<Rightarrow>
      if \<not> all_match exs es then returning False
      else let updated = apply_replacements eys es in
           if updated = [] then and_then unlink_manifest (\<lambda>_. returning (original \<noteq> None))
           else write_manifest updated original)"
    by (simp add: Let_def keeps keeps_then)
qed

lemma replace_snapshot_keeps:
  assumes "list_all key_ok (map fst ys)"
  shows "keeps_readable (project_replace_snapshot xs ys)"
  unfolding project_replace_snapshot_def
proof (intro keeps_lifting keeps_locked keeps_load)
  fix exs eys raw es original
  assume e: "encode_target_entries ys = Inr eys" and "serialize_manifest eys = Inr raw"
  then have "manifest_ok eys" "raw = manifest_text eys"
    using entries_ok_targets [OF e assms] entries_ok_written serialize_text [of eys] by auto
  then show "keeps_readable (case (es, original) of (es, original) \<Rightarrow>
      if \<not> dict_eq es exs then returning False
      else if dict_eq es eys then returning True
      else if eys = [] then and_then unlink_manifest (\<lambda>_. returning True)
      else if original = Some raw then returning True
      else and_then (atomic_replace raw) (\<lambda>_. returning True))"
    by (simp add: keeps keeps_then keeps_atomic_replace)
qed

lemma get_readable: "readable s \<Longrightarrow> get_entry project_adapter k s = (r, t) \<Longrightarrow> readable t"
proof -
  have "keeps_readable (project_get k)"
    unfolding project_get_def by (rule keeps_then [OF keeps_readonly]) (simp add: keeps split: prod.splits)
  then show "readable s \<Longrightarrow> get_entry project_adapter k s = (r, t) \<Longrightarrow> readable t"
    by (auto simp: keeps_readable_def project_adapter_def)
qed

lemma keeps_snapshot: "keeps_readable project_snapshot"
  unfolding project_snapshot_def
  by (rule keeps_then [OF keeps_readonly]) (auto simp: keeps_readable_def split: prod.splits)

lemma keeps_check_present: "keeps_readable (check_present ys)"
proof (induction ys)
  case (Cons y ys)
  obtain c e where y: "y = (c, e)" by (cases y)
  have "keeps_readable (project_inspect (artifact_path e))"
    by (auto simp: keeps_readable_def project_inspect_def split: sum.splits sighting.splits)
  then show ?case using Cons by (auto simp: y keeps intro!: keeps_then)
qed (simp add: keeps)

lemma replace_all_keeps:
  assumes "list_all key_ok (map fst ys)"
  shows "keeps_readable (project_replace_all ys)"
  unfolding project_replace_all_def
proof (intro keeps_lifting keeps_then [OF keeps_check_present] keeps_locked keeps_load)
  fix eys raw es original
  assume e: "encode_target_entries ys = Inr eys" and "serialize_manifest eys = Inr raw"
  then have "manifest_ok eys" "raw = manifest_text eys"
    using entries_ok_targets [OF e assms] entries_ok_written serialize_text [of eys] by auto
  then show "keeps_readable (case (es, original) of (es, original) \<Rightarrow>
      if original = Some raw then returning False else and_then (atomic_replace raw) (\<lambda>_. returning True))"
    by (simp add: keeps keeps_then keeps_atomic_replace)
qed

text \<open>Which claims an operation may change.\<close>

fun op_writes :: "manifest_op \<Rightarrow> string \<Rightarrow> bool" where
  "op_writes (Get_op k) c = False"
| "op_writes Snapshot_op c = False"
| "op_writes (Put_op k e) c = (c = key_encode k)"
| "op_writes (Delete_op k) c = (c = key_encode k)"
| "op_writes (Replace_op xs ys) c = (c \<in> (key_encode \<circ> fst) ` set ys)"
| "op_writes (Replace_snapshot_op xs ys) c = True"
| "op_writes (Replace_all_op xs) c = True"

lemma op_keeps:
  assumes "op_ok x" "run_op project_adapter x s = (r, t)"
  shows "(readable s \<longrightarrow> readable t) \<and> (\<not> op_writes x c \<longrightarrow> project_view t c = project_view s c)"
proof (cases x)
  case (Get_op k)
  then obtain q where q: "get_entry project_adapter k s = (q, t)"
    using assms(2) by (auto simp: map_prod_def split: prod.splits)
  then show ?thesis using get_readable [OF _ q] project.get [OF _ _ q] assms(1) Get_op by auto
next
  case Snapshot_op
  then obtain q where q: "project_snapshot s = (q, t)"
    using assms(2) by (auto simp: map_prod_def project_adapter_def split: prod.splits)
  then have "same_files s t" unfolding project_snapshot_def
    by (cases rule: and_then_cases) (use load_readonly_result in \<open>auto dest!: load_readonly_result\<close>)
  then show ?thesis using keeps_snapshot q same_files_view [of s t] by (auto simp: keeps_readable_def)
next
  case (Put_op k e)
  then obtain q where q: "project_put k e s = (q, t)" and k: "key_ok k" "entry_ok e"
    using assms by (auto simp: map_prod_def project_adapter_def split: prod.splits)
  show ?thesis using put_keeps [OF k] q project_put_result [OF k q] Put_op by (auto simp: keeps_readable_def)
next
  case (Delete_op k)
  then obtain q where q: "project_delete k s = (q, t)"
    using assms by (auto simp: map_prod_def project_adapter_def split: prod.splits)
  show ?thesis using delete_keeps q project_delete_result [OF q] Delete_op by (auto simp: keeps_readable_def)
next
  case (Replace_op xs ys)
  then obtain q where q: "project_replace_if xs ys s = (q, t)" and d: "claims_dict xs" "claims_dict ys"
    using assms by (auto simp: map_prod_def project_adapter_def split: prod.splits)
  have "project_view t c = project_view s c" if "\<not> op_writes x c"
    using project_replace_result [OF d q] that Replace_op write_claims_code [of c ys "project_view s"] by auto
  then show ?thesis using replace_keeps [OF d(2)] q by (auto simp: keeps_readable_def)
next
  case (Replace_snapshot_op xs ys)
  then obtain q where q: "project_replace_snapshot xs ys s = (q, t)" and d: "list_all key_ok (map fst ys)"
    using assms by (auto simp: map_prod_def project_adapter_def split: prod.splits)
  show ?thesis using replace_snapshot_keeps [OF d] q Replace_snapshot_op by (auto simp: keeps_readable_def)
next
  case (Replace_all_op xs)
  then obtain q where q: "project_replace_all xs s = (q, t)" and d: "list_all key_ok (map fst xs)"
    using assms by (auto simp: map_prod_def project_adapter_def split: prod.splits)
  show ?thesis using replace_all_keeps [OF d] q Replace_all_op by (auto simp: keeps_readable_def)
qed

lemma run_keeps:
  assumes "list_all op_ok xs" "run_ops project_adapter xs s = (rs, t)"
  shows "(readable s \<longrightarrow> readable t) \<and> (list_all (\<lambda>x. \<not> op_writes x c) xs \<longrightarrow> project_view t c = project_view s c)"
  using assms
proof (induction xs arbitrary: s rs)
  case Nil
  then show ?case by simp
next
  case (Cons x xs)
  obtain r u where x: "run_op project_adapter x s = (r, u)" by fastforce
  obtain qs where "run_ops project_adapter xs u = (qs, t)" using Cons.prems(2) x by (auto split: prod.splits)
  then show ?case using Cons.IH [of u qs] Cons.prems(1) op_keeps [OF _ x] by auto
qed

section \<open>A single failure is always undone\<close>

definition failures :: "project \<Rightarrow> nat" where
  "failures s = length (filter (\<lambda>a. a \<noteq> Works) (pm_answers s))"

text \<open>The operating system does not itself raise what reports an incomplete rollback.\<close>

definition honest :: "project \<Rightarrow> bool" where
  "honest s = list_all (\<lambda>a. a \<noteq> Fails_before Rollback_incomplete \<and> a \<noteq> Fails_after Rollback_incomplete) (pm_answers s)"

text \<open>A call that raises only what the operating system raised, and so uses up a failure.\<close>

definition spends :: "(project, 'a) call \<Rightarrow> project \<Rightarrow> bool" where
  "spends m s =
     (\<forall>r t. m s = (r, t) \<longrightarrow> honest s \<longrightarrow>
        honest t \<and> failures t \<le> failures s \<and> (\<forall>x. r = Inl x \<longrightarrow> failures t < failures s \<and> x \<noteq> Rollback_incomplete))"

lemma spendsD:
  assumes "spends m s" "m s = (r, t)" "honest s"
  shows "honest t" "failures t \<le> failures s" "r = Inl x \<Longrightarrow> failures t < failures s \<and> x \<noteq> Rollback_incomplete"
  using assms by (simp_all add: spends_def)

lemma spends_returning [simp]: "spends (returning x) s"
  by (simp add: spends_def)

lemma spends_then:
  assumes m: "spends m s" and f: "\<And>x u. m s = (Inr x, u) \<Longrightarrow> spends (f x) u"
  shows "spends (and_then m f) s"
  unfolding spends_def
proof (intro allI impI)
  fix r t
  assume run: "and_then m f s = (r, t)" and h: "honest s"
  from run show "honest t \<and> failures t \<le> failures s \<and> (\<forall>x. r = Inl x \<longrightarrow> failures t < failures s \<and> x \<noteq> Rollback_incomplete)"
  proof (cases rule: and_then_cases)
    case (Raises e)
    then show ?thesis using spendsD [OF m Raises(1) h] by simp
  next
    case (Returns x u)
    note u = spendsD [OF m Returns(1) h] and t = spendsD [OF f [OF Returns(1)] Returns(2)]
    have "honest u" "failures u \<le> failures s" using u by simp_all
    then show ?thesis using t by fastforce
  qed
qed

lemma spends_os_call:
  assumes "\<And>u. pm_answers (eff u) = pm_answers u"
  shows "spends (os_call eff) s"
proof (cases "pm_answers s")
  case Nil
  then show ?thesis using assms by (simp add: spends_def os_call_def honest_def failures_def)
next
  case (Cons a rest)
  then show ?thesis using assms by (cases a) (auto simp: spends_def os_call_def honest_def failures_def Let_def)
qed

lemma spends_locked:
  assumes body: "\<And>u. same_files s u \<Longrightarrow> spends body u"
  shows "spends (locked body) s"
  unfolding spends_def
proof (intro allI impI)
  fix r t
  assume run: "locked body s = (r, t)" and h: "honest s"
  let ?lock = "\<lambda>s. s\<lparr>pm_lock := True\<rparr>"
  obtain a u where a: "os_call ?lock s = (a, u)" by fastforce
  have sa: "spends (os_call ?lock) s" by (rule spends_os_call) simp
  note u = spendsD [OF sa a h]
  have su: "same_files s u" using a by (rule os_call_cases) (auto simp: same_files_def)
  show "honest t \<and> failures t \<le> failures s \<and> (\<forall>x. r = Inl x \<longrightarrow> failures t < failures s \<and> x \<noteq> Rollback_incomplete)"
  proof (cases a)
    case (Inl e)
    then have "r = Inl e" "t = u" using run a by (simp_all add: locked_def)
    then show ?thesis using u Inl by simp
  next
    case (Inr x)
    obtain q v where q: "body u = (q, v)" by fastforce
    obtain b w where b: "os_call (\<lambda>s. s) v = (b, w)" by fastforce
    note v = spendsD [OF body [OF su] q u(1)]
    have sb: "spends (os_call (\<lambda>s. s)) v" by (rule spends_os_call) simp
    note w = spendsD [OF sb b v(1)]
    have "t = w \<and> (r = q \<and> b = Inr () \<or> (\<exists>e. b = Inl e \<and> r = Inl e))"
      using run a Inr q b by (cases b) (auto simp: locked_def)
    then show ?thesis using u(2) v w by fastforce
  qed
qed

lemma spends_load: "readable s \<Longrightarrow> spends (load_unlocked True) s"
  unfolding load_unlocked_def
proof (rule spends_then)
  show "spends (os_call (\<lambda>s. s)) s" by (rule spends_os_call) simp
next
  fix x u
  assume r: "readable s" and "os_call (\<lambda>s. s) s = (Inr x, u)"
  then have "readable u" using os_call_id readable_same by blast
  then show "spends (parse_content True) u"
    by (auto simp: spends_def parse_content_def readable_def split: option.splits sum.splits)
qed

lemma spends_with_load:
  assumes r: "readable s" and f: "\<And>u. same_files s u \<Longrightarrow> spends (f (stored_entries s, pm_content s)) u"
  shows "spends (locked (and_then (load_unlocked True) f)) s"
proof (rule spends_locked)
  fix u
  assume u: "same_files s u"
  show "spends (and_then (load_unlocked True) f) u"
  proof (rule spends_then)
    show "spends (load_unlocked True) u" using r u readable_same spends_load by blast
    fix x v
    assume v: "load_unlocked True u = (Inr x, v)"
    have "same_files u v" "x = (stored_entries u, pm_content u)" using load_unlocked_result [OF v] by (cases x; simp)+
    then show "spends (f x) v" using f [OF same_files_trans [OF u]] same_files_view [OF u] u by (simp add: same_files_def)
  qed
qed

lemma spends_lock_exists: "spends lock_exists s"
  unfolding lock_exists_def by (rule spends_then) (simp_all add: spends_os_call, simp add: spends_def)

lemma lock_exists_same: "lock_exists u = (q, v) \<Longrightarrow> same_files u v"
  unfolding lock_exists_def by (erule and_then_cases) (auto dest: os_call_id)

lemma spends_readonly: "readable s \<Longrightarrow> spends load_readonly s"
proof -
  assume r: "readable s"
  have load: "spends (load_unlocked True) u" if "same_files s u" for u
    using that r readable_same spends_load by blast
  have under: "spends (locked (load_unlocked True)) u" if u: "same_files s u" for u
    by (rule spends_locked) (rule load [OF same_files_trans [OF u]])
  show ?thesis
    unfolding load_readonly_def
  proof (rule spends_then [OF spends_lock_exists])
    fix b u
    assume "lock_exists s = (Inr b, u)"
    then have u: "same_files s u" by (rule lock_exists_same)
    have "spends (and_then (load_unlocked True) (\<lambda>original.
            and_then lock_exists (\<lambda>appeared.
              if appeared then locked (load_unlocked True)
              else and_then (load_unlocked True) (\<lambda>repeated.
                   and_then lock_exists (\<lambda>appeared2.
                     if appeared2 then locked (load_unlocked True)
                     else if snd original \<noteq> snd repeated then raising Manifest_error
                     else returning original))))) u"
    proof (rule spends_then [OF load [OF u]])
      fix x v
      assume x: "load_unlocked True u = (Inr x, v)"
      have v: "same_files s v" using load_unlocked_result [OF x] u same_files_trans by blast
      have sx: "snd x = pm_content s" using load_unlocked_result [OF x] u by (cases x) (simp add: same_files_def)
      show "spends (and_then lock_exists (\<lambda>appeared.
              if appeared then locked (load_unlocked True)
              else and_then (load_unlocked True) (\<lambda>repeated.
                   and_then lock_exists (\<lambda>appeared2.
                     if appeared2 then locked (load_unlocked True)
                     else if snd x \<noteq> snd repeated then raising Manifest_error
                     else returning x)))) v"
      proof (rule spends_then [OF spends_lock_exists])
        fix c w
        assume "lock_exists v = (Inr c, w)"
        then have w: "same_files s w" using lock_exists_same v same_files_trans by blast
        have "spends (and_then (load_unlocked True) (\<lambda>repeated.
                   and_then lock_exists (\<lambda>appeared2.
                     if appeared2 then locked (load_unlocked True)
                     else if snd x \<noteq> snd repeated then raising Manifest_error
                     else returning x))) w"
        proof (rule spends_then [OF load [OF w]])
          fix y z
          assume y: "load_unlocked True w = (Inr y, z)"
          have z: "same_files s z" using load_unlocked_result [OF y] w same_files_trans by blast
          have sy: "snd y = snd x" using load_unlocked_result [OF y] w sx by (cases y) (simp add: same_files_def)
          show "spends (and_then lock_exists (\<lambda>appeared2.
                     if appeared2 then locked (load_unlocked True)
                     else if snd x \<noteq> snd y then raising Manifest_error else returning x)) z"
            by (rule spends_then [OF spends_lock_exists]) (use z sy under lock_exists_same same_files_trans in \<open>auto\<close>)
        qed
        then show "spends (if c then locked (load_unlocked True) else and_then (load_unlocked True) (\<lambda>repeated.
                   and_then lock_exists (\<lambda>appeared2.
                     if appeared2 then locked (load_unlocked True)
                     else if snd x \<noteq> snd repeated then raising Manifest_error
                     else returning x))) w" using under [OF w] by simp
      qed
    qed
    then show "spends (if b then locked (load_unlocked True) else and_then (load_unlocked True) (\<lambda>original.
            and_then lock_exists (\<lambda>appeared.
              if appeared then locked (load_unlocked True)
              else and_then (load_unlocked True) (\<lambda>repeated.
                   and_then lock_exists (\<lambda>appeared2.
                     if appeared2 then locked (load_unlocked True)
                     else if snd original \<noteq> snd repeated then raising Manifest_error
                     else returning original))))) u" using under [OF u] by simp
  qed
qed

lemma spends_replace: "spends (atomic_replace raw) s" and spends_unlink: "spends unlink_manifest s"
  by (simp_all add: atomic_replace_def unlink_manifest_def spends_os_call)

lemma spends_write: "manifest_ok es \<Longrightarrow> spends (write_manifest es original) s"
  by (simp add: write_manifest_def spends_def lifting_then serialize_text)
    (use spends_then [OF spends_replace, of "manifest_text es" s "\<lambda>_. returning True"] in \<open>auto simp: spends_def\<close>)

lemma spends_get: "readable s \<Longrightarrow> spends (project_get k) s"
  unfolding project_get_def by (rule spends_then [OF spends_readonly]) (auto split: prod.splits)

text \<open>What a write would make of the claims must keep one owner for every path.\<close>

lemma manifest_ok_owned: "entries_ok es \<Longrightarrow> owned_once (map_of es) \<Longrightarrow> manifest_ok es"
  using unique_paths_iff [of es] by (simp add: entries_ok_def manifest_ok_def)

lemma spends_put:
  assumes r: "readable s" and k: "key_ok k" "entry_ok e" and own: "owned_once ((project_view s)(key_encode k \<mapsto> e))"
  shows "spends (project_put k e) s"
  unfolding project_put_def
proof (rule spends_with_load [OF r])
  fix u
  have "manifest_ok (AList.update (key_encode k) e (stored_entries s))"
    using own k by (intro manifest_ok_owned entries_ok_update entries_ok_stored stored_key_encode) (simp_all add: project_view_def)
  then show "spends (case (stored_entries s, pm_content s) of (es, original) \<Rightarrow>
      if map_of es (key_encode k) = Some e \<and> original \<noteq> None then returning False
      else write_manifest (AList.update (key_encode k) e es) original) u"
    by (simp add: spends_write)
qed

lemma spends_delete: "readable s \<Longrightarrow> spends (project_delete k) s"
  unfolding project_delete_def
proof (rule spends_with_load)
  fix u
  have "manifest_ok (AList.delete (key_encode k) (stored_entries s))" by (rule manifest_ok_delete [OF stored_entries_ok])
  then show "spends (case (stored_entries s, pm_content s) of (es, original) \<Rightarrow>
      if map_of es (key_encode k) = None then returning False
      else let rest = AList.delete (key_encode k) es in
           if rest = [] then and_then unlink_manifest (\<lambda>_. returning True)
           else write_manifest rest original) u"
    by (simp add: Let_def spends_write spends_then spends_unlink)
qed

lemma encode_target_ok:
  assumes "claims_dict xs" "list_all (\<lambda>(_, e). entry_ok e) xs"
  shows "encode_target_entries xs = Inr (map (\<lambda>(k, e). (key_encode k, e)) xs)"
proof -
  have "encode_targets acc ys = Inr (acc @ map (\<lambda>(k, e). (key_encode k, e)) ys)"
    if "distinct (map fst acc @ map (key_encode \<circ> fst) ys)" "list_all (\<lambda>(_, e). entry_ok e) ys" for acc ys
    using that
  proof (induction acc ys rule: encode_targets.induct)
    case (2 acc k e ys)
    then show ?case by (simp add: entry_ok_def comp_def)
  qed simp
  then show ?thesis using claims_dict_codes [OF assms(1)] assms(2) by (simp add: encode_target_entries_def)
qed

lemma encode_optional_ok:
  assumes "claims_dict xs" "\<forall>k e. (k, Some e) \<in> set xs \<longrightarrow> entry_ok e"
  obtains ys where "encode_optional_entries xs = Inr ys"
proof -
  have sub: "fst ` set (present_entries xs) \<subseteq> fst ` set xs" using present_entries_mem [of _ _ xs] by force
  have d: "distinct (map fst (present_entries xs))" using assms(1) unfolding claims_dict_def
  proof (induction xs)
    case (Cons x xs)
    then show ?case using present_entries_mem [of _ _ xs] by (cases x) (force split: option.splits)
  qed simp
  have "\<forall>k\<in>fst ` set xs. key_ok k" using assms(1) by (simp add: claims_dict_def list_all_iff)
  then have "\<forall>k\<in>fst ` set (present_entries xs). key_ok k" using sub by blast
  then have "claims_dict (present_entries xs)" using d by (simp add: claims_dict_def list_all_iff)
  moreover have "list_all (\<lambda>(_, e). entry_ok e) (present_entries xs)"
    using assms(2) by (auto simp: list_all_iff present_entries_mem)
  ultimately show ?thesis using encode_target_ok that by (simp add: encode_optional_entries_def)
qed

lemma spends_replace_if:
  assumes r: "readable s" and xs: "claims_dict xs" "\<forall>k e. (k, Some e) \<in> set xs \<longrightarrow> entry_ok e"
    and ys: "claims_dict ys" "\<forall>k e. (k, Some e) \<in> set ys \<longrightarrow> entry_ok e"
    and own: "matches xs (project_view s) \<Longrightarrow> owned_once (write_claims ys (project_view s))"
  shows "spends (project_replace_if xs ys) s"
proof -
  obtain exs where ex: "encode_optional_entries xs = Inr exs" by (rule encode_optional_ok [OF xs])
  obtain eys where ey: "encode_optional_entries ys = Inr eys" by (rule encode_optional_ok [OF ys])
  note exs = encode_optional_result [OF xs(1) ex] and eys = encode_optional_result [OF ys(1) ey]
  have "spends (locked (and_then (load_unlocked True) (\<lambda>(es, original).
         if \<not> all_match exs es then returning False
         else let updated = apply_replacements eys es in
              if updated = [] then and_then unlink_manifest (\<lambda>_. returning (original \<noteq> None))
              else write_manifest updated original))) s"
  proof (rule spends_with_load [OF r])
    fix u
    have "manifest_ok (apply_replacements eys (stored_entries s))" if "all_match exs (stored_entries s)"
    proof (rule manifest_ok_owned)
      show "entries_ok (apply_replacements eys (stored_entries s))"
        using eys ys by (auto intro!: entries_ok_apply [OF entries_ok_stored] simp: claims_dict_def)
      show "owned_once (map_of (apply_replacements eys (stored_entries s)))"
        using own that exs eys by (simp add: all_match_iff map_of_apply project_view_def)
    qed
    then show "spends (case (stored_entries s, pm_content s) of (es, original) \<Rightarrow>
         if \<not> all_match exs es then returning False
         else let updated = apply_replacements eys es in
              if updated = [] then and_then unlink_manifest (\<lambda>_. returning (original \<noteq> None))
              else write_manifest updated original) u"
      by (simp add: Let_def spends_write spends_then spends_unlink)
  qed
  then show ?thesis by (simp add: project_replace_if_def spends_def lifting_then ex ey)
qed

lemma one_failure_undone:
  assumes run: "with_rollback body undo s = (r, t)" and h: "honest s" "failures s \<le> 1"
    and body: "spends body s" and undo: "\<And>e u. body s = (Inl e, u) \<Longrightarrow> spends undo u"
  shows "r \<noteq> Inl Rollback_incomplete"
  using run
proof (cases rule: with_rollback_cases)
  case (Done x)
  then show ?thesis by simp
next
  case (Undone e u x)
  then show ?thesis using spendsD(3) [OF body Undone(1) h(1)] by simp
next
  case (Incomplete e u e')
  have u: "honest u" "failures u < failures s"
    using spendsD(1) [OF body Incomplete(1) h(1)] spendsD(3) [OF body Incomplete(1) h(1)] by simp_all
  have "failures t < failures u" using spendsD(3) [OF undo [OF Incomplete(1)] Incomplete(2) u(1)] by simp
  then show ?thesis using u(2) h(2) by simp
qed

lemma spends_entries_match: "readable s \<Longrightarrow> spends (entries_match project_adapter xs) s"
proof (induction xs arbitrary: s)
  case Nil
  then show ?case by simp
next
  case (Cons x xs)
  obtain k e where x: "x = (k, e)" by (cases x)
  show ?case unfolding x entries_match.simps
  proof (rule spends_then)
    show "spends (get_entry project_adapter k) s" using spends_get [OF Cons.prems] by (simp add: project_adapter_def)
    fix c u
    assume "get_entry project_adapter k s = (Inr c, u)"
    then have "readable u" by (rule get_readable [OF Cons.prems])
    then show "spends (if c = e then entries_match project_adapter xs else returning False) u" using Cons.IH by simp
  qed
qed

lemma entry_ok_shown: "project_view s c = Some e \<Longrightarrow> entry_ok e"
  by (rule project.good_entries) simp_all

lemma commit_without_giving_up:
  assumes s: "readable s" "honest s" "failures s \<le> 1"
    and plan: "claims_dict (rk_before plan)" "map fst (rk_after plan) = map fst (rk_before plan)" "matches (rk_before plan) (project_view s)"
    and after: "\<forall>k e. (k, Some e) \<in> set (rk_after plan) \<longrightarrow> entry_ok e" "owned_once (write_claims (rk_after plan) (project_view s))"
    and run: "commit_rekey project_adapter plan s = (r, t)"
  shows "r \<noteq> Inl Rollback_incomplete"
proof (cases "rk_changed plan")
  case False
  then show ?thesis using run by (simp add: commit_rekey_def)
next
  case True
  let ?x = "rk_before plan" and ?y = "rk_after plan"
  have y: "claims_dict ?y" using plan by (simp add: claims_dict_def)
  have before: "\<forall>k e. (k, Some e) \<in> set ?x \<longrightarrow> entry_ok e"
    using plan(3) entry_ok_shown by (fastforce simp: matches_def list_all_iff)
  have rep: "replace_entries_if_matches project_adapter = project_replace_if" by (simp add: project_adapter_def)
  have body: "spends (project_replace_if ?x ?y) s" by (rule spends_replace_if [OF s(1) plan(1) before y after])
  have undo: "spends (undo_rekey project_adapter plan) u" if u: "project_replace_if ?x ?y s = (Inl e, u)" for e u
    unfolding undo_rekey_def rep
  proof (rule spends_then)
    have ru: "readable u" using replace_keeps [OF y] u s(1) by (auto simp: keeps_readable_def)
    have view: "project_view u \<in> {project_view s, write_claims ?y (project_view s)}" using project_replace_result [OF plan(1) y u] by auto
    have restored: "write_claims ?x (project_view u) = project_view s"
      using view write_matching [OF plan(3)] write_back [OF plan(3,2,1)] by auto
    show "spends (project_replace_if ?y ?x) u"
      by (rule spends_replace_if [OF ru y after(1) plan(1) before]) (simp add: restored project.good_owned)
    fix b w
    assume w: "project_replace_if ?y ?x u = (Inr b, w)"
    have rw: "readable w" using replace_keeps [OF plan(1)] w ru by (auto simp: keeps_readable_def)
    show "spends (if b then returning () else and_then (entries_match project_adapter ?x)
        (\<lambda>same. if same then returning () else raising Manifest_error)) w"
    proof (cases b)
      case False
      have "spends (and_then (entries_match project_adapter ?x) (\<lambda>same. if same then returning () else raising Manifest_error)) w"
      proof (rule spends_then [OF spends_entries_match [OF rw]])
        fix c z
        assume c: "entries_match project_adapter ?x w = (Inr c, z)"
        have vw: "project_view w = project_view u" "matches ?y (project_view u) \<longrightarrow> write_claims ?x (project_view u) = project_view u"
          using project_replace_result [OF y plan(1) w] False by simp_all
        have my: "matches ?y (write_claims ?y (project_view s))" by (rule matches_write [OF y])
        have "project_view w = project_view s"
        proof (cases "project_view u = project_view s")
          case True
          then show ?thesis using vw(1) by simp
        next
          case False
          then have "matches ?y (project_view u)" using view my by simp
          then show ?thesis using vw restored by simp
        qed
        then have "c" using project.entries_match_result [OF _ _ c] plan(1,3) by (simp add: claims_dict_def)
        then show "spends (if c then returning () else raising Manifest_error) z" by simp
      qed
      then show ?thesis using False by simp
    qed simp
  qed
  have "and_then (with_rollback (project_replace_if ?x ?y) (undo_rekey project_adapter plan))
      (\<lambda>changed. if \<not> changed then raising Manifest_error else returning True) s = (r, t)"
    using run True by (simp add: commit_rekey_def rep)
  then show ?thesis
  proof (cases rule: and_then_cases)
    case (Raises e)
    have "Inl e \<noteq> (Inl Rollback_incomplete :: manifest_error + bool)"
      by (rule one_failure_undone [OF Raises(1) s(2,3) body]) (rule undo)
    then show ?thesis using Raises(2) by simp
  next
    case (Returns c u)
    then show ?thesis by (auto split: if_splits)
  qed
qed

lemma encode_target_error: "encode_target_entries xs = Inl x \<Longrightarrow> x = Bad_value"
proof -
  have "encode_targets acc xs = Inl x \<Longrightarrow> x = Bad_value" for acc
    by (induction acc xs rule: encode_targets.induct)
      (auto simp: bindE_Inl_iff normalize_artifact_path_def split: if_splits)
  then show "encode_target_entries xs = Inl x \<Longrightarrow> x = Bad_value" by (simp add: encode_target_entries_def)
qed

lemma observe_error: "observe_present project_adapter p s = (Inl x, t) \<Longrightarrow> x = Registration_error"
  by (auto simp: observe_present_def and_then_def project_adapter_def project_inspect_def raising_def returning_def
      split: sum.splits sighting.splits if_splits prod.splits)

lemma register_without_giving_up:
  assumes s: "readable s" "honest s" "failures s \<le> 1" and k: "key_ok k"
    and own: "owned_once ((project_view s)(key_encode k \<mapsto> e))"
    and run: "register_entry_transactionally project_adapter k e s = (r, t)"
  shows "r \<noteq> Inl Rollback_incomplete"
  using run unfolding register_entry_transactionally_def
proof (cases rule: and_then_cases)
  case (Raises x)
  then show ?thesis using encode_target_error [of "[(k, e)]" x] by auto
next
  case (Returns es s1)
  then have s1: "s1 = s" and e: "entry_ok e" using entry_ok_encode [of k e es] by simp_all
  from Returns(2) show ?thesis unfolding s1
  proof (cases rule: and_then_cases)
    case (Raises x)
    then show ?thesis using observe_error by auto
  next
    case (Returns q s2)
    have q: "q = artifact_path e" and s2: "s2 = s"
      using project.observe_present_result [OF _ Returns(1)] normalize_idem [of "artifact_path e" q] Returns(1)
      by (simp, auto simp: observe_present_def and_then_def project_adapter_def project_inspect_def raising_def returning_def
        split: sum.splits sighting.splits if_splits prod.splits)
    have ee: "\<lparr>artifact_path = q, basis_digest = basis_digest e\<rparr> = e" by (simp add: q)
    from Returns(2) show ?thesis unfolding s2 ee Let_def
    proof (cases rule: and_then_cases)
      case (Raises x)
      then show ?thesis using spendsD(3) [OF spends_get [OF s(1)] _ s(2)] by (simp add: project_adapter_def)
    next
      case (Returns previous u)
      have g: "project_get k s = (Inr previous, u)" using Returns(1) by (simp add: project_adapter_def)
      have u: "readable u" "honest u" "failures u \<le> 1" "project_view u = project_view s" "previous = project_view u (key_encode k)"
        using get_readable [OF s(1) Returns(1)] spendsD [OF spends_get [OF s(1)] g s(2)] s(3) project.get [OF _ k Returns(1)] by auto
      have put: "put_entry project_adapter = project_put" "delete_entry project_adapter = project_delete" by (simp_all add: project_adapter_def)
      have body: "spends (put_entry project_adapter k e) u"
        unfolding put by (rule spends_put [OF u(1) k e]) (simp add: u(4) own)
      have undo: "spends (undo_registration project_adapter k e previous) w" if w: "put_entry project_adapter k e u = (Inl x, w)" for x w
        unfolding undo_registration_def
      proof (rule spends_then)
        have rw: "readable w" using put_keeps [OF k e] w u(1) by (auto simp: keeps_readable_def put)
        have vw: "project_view w \<in> {project_view u, (project_view u)(key_encode k \<mapsto> e)}"
          using project_put_result [OF k e w [unfolded put]] by simp
        show "spends (get_entry project_adapter k) w" using spends_get [OF rw] by (simp add: project_adapter_def)
        fix c z
        assume c: "get_entry project_adapter k w = (Inr c, z)"
        have z: "readable z" "project_view z = project_view w" using get_readable [OF rw c] project.get [OF _ k c] by simp_all
        show "spends (if c = Some e then case previous of None \<Rightarrow> and_then (delete_entry project_adapter k) (\<lambda>_. returning ())
            | Some p \<Rightarrow> and_then (put_entry project_adapter k p) (\<lambda>_. returning ()) else returning ()) z"
        proof (cases previous)
          case None
          then show ?thesis by (simp add: put spends_then spends_delete z(1))
        next
          case (Some p)
          have "(project_view z)(key_encode k \<mapsto> p) = project_view u"
            using z(2) vw u(5) Some by (auto simp: fun_upd_idem)
          then have "spends (project_put k p) z"
            using Some u(5) by (intro spends_put [OF z(1) k entry_ok_shown [of u "key_encode k"]]) (simp_all add: project.good_owned)
          then show ?thesis using Some by (simp add: put spends_then)
        qed
      qed
      show ?thesis by (rule one_failure_undone [OF Returns(2) u(2,3) body]) (rule undo)
    qed
  qed
qed

text \<open>Renaming and forgetting, with at most one failure.\<close>

lemma owned_once_smaller: "owned_once m \<Longrightarrow> (\<And>c. n c \<noteq> None \<Longrightarrow> n c = m c) \<Longrightarrow> owned_once n"
  unfolding owned_once_def by (metis option.distinct(1))

lemma get_rest:
  assumes "readable s" "honest s" "key_ok k" "get_entry project_adapter k s = (Inr x, u)"
  shows "readable u" "honest u" "failures u \<le> failures s" "project_view u = project_view s" "x = project_view s (key_encode k)"
proof -
  have g: "project_get k s = (Inr x, u)" using assms(4) by (simp add: project_adapter_def)
  show "readable u" by (rule get_readable [OF assms(1,4)])
  show "honest u" "failures u \<le> failures s" using spendsD [OF spends_get [OF assms(1)] g assms(2)] by simp_all
  show "project_view u = project_view s" "x = project_view s (key_encode k)" using project.get [OF _ assms(3,4)] by simp_all
qed

lemma get_raises:
  assumes "readable s" "honest s" "get_entry project_adapter k s = (Inl x, u)"
  shows "x \<noteq> Rollback_incomplete" "0 < failures s"
proof -
  have g: "project_get k s = (Inl x, u)" using assms(3) by (simp add: project_adapter_def)
  show "x \<noteq> Rollback_incomplete" "0 < failures s" using spendsD(3) [OF spends_get [OF assms(1)] g assms(2)] by auto
qed

lemma normalize_rewrites_ok: "normalize_rewrites rs = Inr rs' \<Longrightarrow> (a, b) \<in> set rs' \<Longrightarrow> normalize_artifact_path b = Inr b"
proof (induction rs arbitrary: rs' rule: normalize_rewrites.induct)
  case (2 x y rs)
  then obtain x' y' ss where n: "normalize_artifact_path x = Inr x'" "normalize_artifact_path y = Inr y'" "normalize_rewrites rs = Inr ss"
    and r: "rs' = (x', y') # ss" by (auto simp: bindE_Inr_iff)
  show ?case using 2 n r normalize_idem [OF n(2)] by auto
qed simp

lemma entry_ok_rewritten: "normalize_rewrites rs = Inr rs' \<Longrightarrow> entry_ok e \<Longrightarrow> entry_ok (rewritten rs' e)"
  by (auto simp: entry_ok_def rewritten_def dest: map_of_SomeD normalize_rewrites_ok split: option.split)

lemma plan_rest:
  assumes s: "readable s" "honest s" and k: "key_ok source" "key_ok target"
    and run: "plan_entry_rekey project_adapter source target rewrites s = (Inr plan, u)"
  shows "readable u" "honest u" "failures u \<le> failures s" "\<forall>k e. (k, Some e) \<in> set (rk_after plan) \<longrightarrow> entry_ok e"
proof -
  from run have *: "readable u \<and> honest u \<and> failures u \<le> failures s \<and> (\<forall>k e. (k, Some e) \<in> set (rk_after plan) \<longrightarrow> entry_ok e)"
    unfolding plan_entry_rekey_def
  proof (cases rule: and_then_cases)
    case (Returns rw v)
    then have v: "v = s" and n: "normalize_rewrites rewrites = Inr rw" by simp_all
    from Returns(2) show ?thesis unfolding v
    proof (cases rule: and_then_cases)
      case (Returns found w)
      note w = get_rest [OF s k(1) Returns(1)]
      have e: "entry_ok (rewritten rw e)" if "found = Some e" for e
        using that w(5) entry_ok_rewritten [OF n] entry_ok_shown by simp
      show ?thesis
      proof (cases "source = target")
        case True
        then show ?thesis using Returns(2) w(1-3) e by (auto simp: no_rekey_def split: option.splits if_splits)
      next
        case False
        then have "and_then (get_entry project_adapter target) (\<lambda>taken.
            if taken \<noteq> None then raising Manifest_error
            else case found of None \<Rightarrow> returning no_rekey
                 | Some e \<Rightarrow> returning \<lparr>rk_before = [(source, Some e), (target, None)],
                     rk_after = [(source, None), (target, Some (rewritten rw e))], rk_changed = True\<rparr>) w = (Inr plan, u)"
          using Returns(2) by simp
        then show ?thesis
        proof (cases rule: and_then_cases)
          case (Returns taken z)
          have z: "readable z" "honest z" "failures z \<le> failures s"
            using get_rest [OF w(1,2) k(2) Returns(1)] w(3) by simp_all
          show ?thesis using Returns(2) z e by (auto simp: no_rekey_def split: option.splits if_splits)
        qed simp
      qed
    qed simp
  qed simp
  then show "readable u" "honest u" "failures u \<le> failures s" "\<forall>k e. (k, Some e) \<in> set (rk_after plan) \<longrightarrow> entry_ok e" by simp_all
qed

lemma normalize_rewrites_error: "normalize_rewrites rs = Inl x \<Longrightarrow> x = Bad_value"
  by (induction rs rule: normalize_rewrites.induct)
    (auto simp: bindE_Inl_iff normalize_artifact_path_def split: if_splits)

lemma plan_raises:
  assumes s: "readable s" "honest s" and k: "key_ok source"
    and k2: "key_ok target" and run: "plan_entry_rekey project_adapter source target rewrites s = (Inl x, u)"
  shows "x \<noteq> Rollback_incomplete"
  using run unfolding plan_entry_rekey_def
proof (cases rule: and_then_cases)
  case (Raises y)
  then show ?thesis using normalize_rewrites_error [of "rewrites" y] by simp
next
  case (Returns rw v)
  then have v: "v = s" by simp
  from Returns(2) show ?thesis unfolding v
  proof (cases rule: and_then_cases)
    case (Raises y)
    then show ?thesis using get_raises [OF s Raises(1)] by simp
  next
    case (Returns found w)
    note w = get_rest [OF s k Returns(1)]
    show ?thesis
    proof (cases "source = target")
      case True
      then show ?thesis using Returns(2) by (auto split: option.splits if_splits)
    next
      case False
      then have "and_then (get_entry project_adapter target) (\<lambda>taken.
          if taken \<noteq> None then raising Manifest_error
          else case found of None \<Rightarrow> returning no_rekey
               | Some e \<Rightarrow> returning \<lparr>rk_before = [(source, Some e), (target, None)],
                   rk_after = [(source, None), (target, Some (rewritten rw e))], rk_changed = True\<rparr>) w = (Inl x, u)"
        using Returns(2) by simp
      then show ?thesis
      proof (cases rule: and_then_cases)
        case (Raises y)
        then show ?thesis using get_raises [OF w(1,2) Raises(1)] by simp
      next
        case (Returns taken z)
        then show ?thesis by (auto split: option.splits if_splits)
      qed
    qed
  qed
qed

lemma rekey_without_giving_up:
  assumes s: "readable s" "honest s" "failures s \<le> 1" and k: "key_ok source" "key_ok target"
    and own: "owned_once (moved_claim source target rewrites (project_view s))"
    and run: "and_then (plan_entry_rekey project_adapter source target rewrites) (commit_rekey project_adapter) s = (r, t)"
  shows "r \<noteq> Inl Rollback_incomplete"
  using run
proof (cases rule: and_then_cases)
  case (Raises x)
  then show ?thesis using plan_raises [OF s(1,2) k Raises(1)] by simp
next
  case (Returns plan u)
  note p = project.plan_rekey_result [OF _ k Returns(1)] and u = plan_rest [OF s(1,2) k Returns(1)]
  show ?thesis
  proof (rule commit_without_giving_up [OF u(1,2) _ _ _ _ u(4) _ Returns(2)])
    show "failures u \<le> 1" using u(3) s(3) by simp
    show "claims_dict (rk_before plan)" "map fst (rk_after plan) = map fst (rk_before plan)" using p by simp_all
    show "matches (rk_before plan) (project_view u)" "owned_once (write_claims (rk_after plan) (project_view u))"
      using p own by simp_all
  qed
qed

lemma present_claims_rest:
  "readable s \<Longrightarrow> honest s \<Longrightarrow> list_all key_ok ks \<Longrightarrow> present_claims project_adapter ks s = (r, t) \<Longrightarrow>
     readable t \<and> honest t \<and> failures t \<le> failures s \<and> r \<noteq> Inl Rollback_incomplete"
proof (induction ks arbitrary: s r t)
  case Nil
  then show ?case by simp
next
  case (Cons k ks)
  have k: "key_ok k" "list_all key_ok ks" using Cons.prems(3) by simp_all
  have "and_then (get_entry project_adapter k) (\<lambda>found. and_then (present_claims project_adapter ks) (\<lambda>rest.
      returning (case found of None \<Rightarrow> rest | Some e \<Rightarrow> (k, Some e) # rest))) s = (r, t)"
    using Cons.prems(4) by simp
  then show ?case
  proof (cases rule: and_then_cases)
    case (Raises x)
    have g: "project_get k s = (Inl x, t)" using Raises(1) by (simp add: project_adapter_def)
    show ?thesis using Raises get_readable [OF Cons.prems(1) Raises(1)] spendsD [OF spends_get [OF Cons.prems(1)] g Cons.prems(2)] by simp
  next
    case (Returns found u)
    note u = get_rest [OF Cons.prems(1,2) k(1) Returns(1)]
    from Returns(2) show ?thesis
    proof (cases rule: and_then_cases)
      case (Raises x)
      then show ?thesis using Cons.IH [OF u(1,2) k(2) Raises(1)] u(3) by simp
    next
      case (Returns rest v)
      then show ?thesis using Cons.IH [OF u(1,2) k(2) Returns(1)] u(3) by simp
    qed
  qed
qed

lemma forget_without_giving_up:
  assumes s: "readable s" "honest s" "failures s \<le> 1" and ks: "list_all key_ok ks"
    and run: "forget_entries_transactionally project_adapter ks s = (r, t)"
  shows "r \<noteq> Inl Rollback_incomplete"
proof -
  have ks': "list_all key_ok (from_keys ks)" using ks by (simp add: list_all_iff)
  show ?thesis using run unfolding forget_entries_transactionally_def
  proof (cases rule: and_then_cases)
    case (Raises x)
    then show ?thesis using present_claims_rest [OF s(1,2) ks' Raises(1)] by simp
  next
    case (Returns before u)
    note u = present_claims_rest [OF s(1,2) ks' Returns(1)] and b = project.present_claims_result [OF _ ks' Returns(1)]
    show ?thesis
    proof (cases "before = []")
      case True
      then show ?thesis using Returns(2) by simp
    next
      case False
      let ?plan = "\<lparr>rk_before = before, rk_after = map (\<lambda>(k, _). (k, None)) before, rk_changed = True\<rparr>"
      have h: "before = held_claims (project_view u) (from_keys ks)" using b by simp
      show ?thesis
      proof (rule commit_without_giving_up [of u ?plan])
        show "readable u" "honest u" "failures u \<le> 1" using u s(3) by simp_all
        show "claims_dict (rk_before ?plan)" using held_claims_dict [OF _ ks'] by (simp add: h)
        show "map fst (rk_after ?plan) = map fst (rk_before ?plan)" by (simp add: comp_def case_prod_beta)
        show "matches (rk_before ?plan) (project_view u)" using matches_held by (simp add: h)
        show "\<forall>k e. (k, Some e) \<in> set (rk_after ?plan) \<longrightarrow> entry_ok e" by auto
        have "owned_once (without_claims (from_keys ks) (project_view u))"
          by (rule owned_once_smaller [OF project.good_owned [of u]]) (auto simp: without_claims_def split: if_splits)
        then show "owned_once (write_claims (rk_after ?plan) (project_view u))" by (simp add: h write_forget)
        show "commit_rekey project_adapter ?plan u = (r, t)" using Returns(2) False by simp
      qed
    qed
  qed
qed

text \<open>Where nothing fails, a registration that is allowed succeeds.\<close>

lemma register_succeeds:
  assumes s: "readable s" "honest s" "failures s = 0" and k: "key_ok k" and e: "entry_ok e" and present: "project_has s (artifact_path e)"
    and own: "owned_once ((project_view s)(key_encode k \<mapsto> e))"
    and run: "register_entry_transactionally project_adapter k e s = (r, t)"
  shows "\<exists>b. r = Inr b"
proof -
  have enc: "lifting (encode_target_entries [(k, e)]) s = (Inr [(key_encode k, e)], s)"
    using e by (simp add: lifting_def encode_target_entries_def entry_ok_def)
  have obs: "observe_present project_adapter (artifact_path e) s = (Inr (artifact_path e), s)"
    using e present by (simp add: observe_present_def project_adapter_def project_inspect_def project_has_def entry_ok_def
        and_then_def returning_def)
  have same: "\<lparr>artifact_path = artifact_path e, basis_digest = basis_digest e\<rparr> = e" by simp
  have r: "and_then (get_entry project_adapter k) (\<lambda>previous.
      with_rollback (put_entry project_adapter k e) (undo_registration project_adapter k e previous)) s = (r, t)"
    using run enc obs same by (simp add: register_entry_transactionally_def and_then_def Let_def)
  then show ?thesis
  proof (cases rule: and_then_cases)
    case (Raises x)
    then show ?thesis using get_raises [OF s(1,2) Raises(1)] s(3) by simp
  next
    case (Returns previous u)
    note u = get_rest [OF s(1,2) k Returns(1)]
    have put: "spends (project_put k e) u" by (rule spends_put [OF u(1) k e]) (simp add: u(4) own)
    obtain q w where q: "project_put k e u = (q, w)" by fastforce
    obtain b where b: "q = Inr b" using spendsD(3) [OF put q u(2)] u(3) s(3) by (cases q) auto
    have "project_put k e u = (Inr b, w)" using q b by simp
    then show ?thesis using Returns(2) by (auto simp: with_rollback_def project_adapter_def)
  qed
qed

section \<open>Comparing and recovering\<close>

lemma get_works:
  assumes "readable s" "honest s" "failures s = 0" "key_ok k"
  obtains u where "get_entry project_adapter k s = (Inr (project_view s (key_encode k)), u)" "project_view u = project_view s"
proof -
  obtain q u where q: "get_entry project_adapter k s = (q, u)" by fastforce
  show thesis
  proof (cases q)
    case (Inl x)
    then have "get_entry project_adapter k s = (Inl x, u)" using q by simp
    then have "0 < failures s" by (rule get_raises(2) [OF assms(1,2)])
    then show ?thesis using assms(3) by simp
  next
    case (Inr x)
    then have g: "get_entry project_adapter k s = (Inr x, u)" using q by simp
    show ?thesis using that [of u] g get_rest(4,5) [OF assms(1,2,4) g] by simp
  qed
qed

definition compared :: "project \<Rightarrow> artifact_key \<Rightarrow> string \<Rightarrow> manifest_entry option \<Rightarrow> comparison" where
  "compared s k p expected =
     (case sight (pm_tree s) (split_char (CHR ''/'') p) of
        Barred code \<Rightarrow> blocked_at p \<lparr>bl_code = code, bl_path = p\<rparr>
      | _ \<Rightarrow> status_at p (currency (project_has s p) (project_view s (key_encode k)) p expected))"

lemma and_then_value: "m s = (Inr x, t) \<Longrightarrow> and_then m f s = f x t"
  by (simp add: and_then_def)

lemma compare_complete:
  assumes s: "readable s" "honest s" "failures s = 0" and k: "key_ok k" and p: "normalize_artifact_path p = Inr p"
    and x: "\<forall>x. expected = Some x \<longrightarrow> entry_ok x"
    and run: "compare_entry project_adapter k p expected s = (r, t)"
  shows "r = Inr (compared s k p expected)"
proof -
  obtain u where g: "get_entry project_adapter k s = (Inr (project_view s (key_encode k)), u)" by (rule get_works [OF s k])
  have i: "inspect_artifact project_adapter p s = project_inspect p s" by (simp add: project_adapter_def)
  show ?thesis
  proof (cases "sight (pm_tree s) (split_char (CHR ''/'') p)")
    case (Barred code)
    then show ?thesis using run p
      by (simp add: compare_entry_def i project_inspect_def and_then_def returning_def compared_def)
  next
    case Absent
    then show ?thesis using run p
      by (simp add: compare_entry_def i project_inspect_def and_then_def returning_def compared_def currency_def project_has_def)
  next
    case Found
    then have o: "inspect_artifact project_adapter p s = (Inr \<lparr>ob_path = p, ob_present = True, ob_blocker = None\<rparr>, s)"
      using p by (simp add: i project_inspect_def)
    let ?ob = "\<lparr>ob_path = p, ob_present = True, ob_blocker = None\<rparr>"
    have "(case project_view s (key_encode k) of
          None \<Rightarrow> returning (status_at (ob_path ?ob) Missing) u
        | Some e \<Rightarrow>
            if artifact_path e \<noteq> ob_path ?ob then returning (status_at (ob_path ?ob) Missing) u
            else (case expected of
                    None \<Rightarrow> returning (status_at (ob_path ?ob) Stale) u
                  | Some x \<Rightarrow>
                      and_then (lifting (normalize_artifact_path (artifact_path x))) (\<lambda>q.
                        returning (status_at (ob_path ?ob)
                          (if e = \<lparr>artifact_path = q, basis_digest = basis_digest x\<rparr> then Current else Stale))) u)) = (r, t)"
      using run g by (simp add: compare_entry_def and_then_value [where m="inspect_artifact project_adapter p", OF o])
    then show ?thesis using Found x
      by (auto simp: compared_def currency_def project_has_def and_then_def lifting_def returning_def entry_ok_def
          split: option.splits if_splits)
  qed
qed

text \<open>A component that has no hash makes the reading of its key raise a \<open>TypeError\<close>.\<close>

definition unhashable_key :: "int \<Rightarrow> string \<Rightarrow> json list \<Rightarrow> string" where
  "unhashable_key n r xs = encode_artifact_key_parts (kind_value Episode_subtitle) [JInt n, JStr r, JArr xs]"

lemma unhashable_decode:
  assumes "0 < n" "r \<noteq> []" "list_all json_ok [JInt n, JStr r, JArr xs]"
  shows "key_decode (unhashable_key n r xs) = Inl Key_type_error"
proof -
  have "starts_with key_prefix (unhashable_key n r xs)" by (simp add: unhashable_key_def encode_artifact_key_parts_def)
  then show ?thesis using decode_parts_encode [OF assms(3), of "kind_value Episode_subtitle"] assms(1,2)
    by (simp add: key_decode_def unhashable_key_def key_from_parts_def new_key_def components_valid_def and_also_def
        artifact_kind_of_def all_kinds_def)
qed

lemma unhashable_parse:
  assumes "key_decode k = Inl Key_type_error"
  shows "parse_manifest b (utf8_encode (dumps_indented (manifest_payload [(k, e)]) @ [newline])) = Inl Bad_type"
proof -
  have d: "distinct (map fst [(k, e)])" by simp
  have l: "loads_pairs (dumps_indented (manifest_payload [(k, e)]) @ [newline]) = Some (manifest_payload [(k, e)])"
    using payload_ok [OF d] by (intro loads_pairs_indented) (simp_all add: is_json_ws_def newline_def)
  have "parse_payload b (manifest_payload [(k, e)]) = Inl Bad_type"
    using assms by (simp add: parse_payload_def manifest_payload_def same_names_def check_encoded_key_def)
  then show ?thesis using l payload_ok [OF d] by (simp add: parse_manifest_def utf8_round_trip)
qed

lemma check_present_same: "check_present es s = (r, t) \<Longrightarrow> t = s"
proof (induction es arbitrary: r)
  case (Cons x es)
  obtain c e where x: "x = (c, e)" by (cases x)
  have "\<exists>ob. project_inspect (artifact_path e) s = (Inr ob, s)"
    by (simp add: project_inspect_def split: sum.split sighting.split)
  then obtain ob where ob: "project_inspect (artifact_path e) s = (Inr ob, s)" by blast
  show ?case using Cons.prems Cons.IH by (auto simp: x and_then_value [where m="project_inspect (artifact_path e)", OF ob] split: if_splits)
qed simp

lemma recovery_needs_manifest_error:
  assumes "pm_content s = Some raw" "parse_manifest True raw = Inl Bad_type" "replace_unreadable_entries targets s = (r, t)"
    and "pm_answers s = []"
  shows "(\<forall>b. r \<noteq> Inr b) \<and> pm_content t = pm_content s"
proof -
  have load: "load_unlocked True (s\<lparr>pm_lock := True\<rparr>) = (Inl Bad_type, s\<lparr>pm_lock := True\<rparr>)"
    using assms(1,2,4) by (simp add: load_unlocked_def and_then_def os_call_works parse_content_def)
  from assms(3) show ?thesis unfolding replace_unreadable_entries_def
  proof (cases rule: and_then_cases)
    case (Returns ys u)
    then have u: "u = s" by simp
    from Returns(2) show ?thesis unfolding u
    proof (cases rule: and_then_cases)
      case (Raises x)
      then show ?thesis using check_present_same by blast
    next
      case (Returns x v)
      then have v: "v = s" using check_present_same by blast
      from Returns(2) show ?thesis unfolding v
      proof (cases rule: and_then_cases)
        case (Returns raw' w)
        then have "w = s" by simp
        then show ?thesis using Returns(2) load assms(4) by (auto simp: locked_def os_call_works raising_def)
      qed simp
    qed
  qed simp
qed

end
