(* ===== verification/Manifest_Properties.thy ===== *)
theory Manifest_Properties
  imports Artifact_Laws
begin

text \<open>
  The properties of the artifact manifest, each with an application to the directory of a small project:
  one video on disk, no manifest yet, and an operating system whose fourth answer is a failure.
\<close>

section \<open>A sample project\<close>

definition first_key :: artifact_key where
  "first_key = \<lparr>key_kind = Episode_video, key_components = [JInt 1, JStr ''E1S01'']\<rparr>"

definition second_key :: artifact_key where
  "second_key = \<lparr>key_kind = Episode_video, key_components = [JInt 2, JStr ''E2S01'']\<rparr>"

definition first_claim :: manifest_entry where
  "first_claim = \<lparr>artifact_path = ''videos/a.mp4'', basis_digest = ''sha256-v1:'' @ replicate 64 (CHR ''0'')\<rparr>"

definition small_project :: project where
  "small_project =
     \<lparr>pm_content = None, pm_lock = False,
      pm_tree = Directory [(''videos'', Directory [(''a.mp4'', Regular_file)])],
      pm_answers = [Works, Works, Works, Fails_after (Raised 0)]\<rparr>"

definition working_project :: project where
  "working_project = small_project\<lparr>pm_answers := []\<rparr>"

lemma first_key_ok: "key_ok first_key" "key_ok second_key"
  by (simp_all add: key_ok_def first_key_def second_key_def valid_key_def new_key_def components_valid_def
      str_nat.simps max_int_digits_def)

lemma first_claim_ok: "entry_ok first_claim"
  by (simp add: entry_ok_def first_claim_def normalize_artifact_path_def bad_part_def rstrip_chars_def
      reserved_artifact_paths_def manifest_filename_def lock_filename_def is_prefixed_digest_def starts_with_def
      is_content_digest_def is_lower_hex_def list_all_iff char_of_def)

lemma small_view: "project_view small_project = Map.empty" "project_view working_project = Map.empty"
  by (simp_all add: project_view_def stored_entries_def small_project_def working_project_def)

lemma small_readable: "readable small_project" "readable working_project"
  by (simp_all add: readable_def small_project_def working_project_def)

lemma small_answers: "honest small_project" "failures small_project \<le> 1" "honest working_project" "failures working_project = 0"
  by (simp_all add: honest_def failures_def small_project_def working_project_def)

lemma owned_once_single: "owned_once [c \<mapsto> e]" "owned_once Map.empty"
  by (simp_all add: owned_once_def)

lemma small_has: "project_has working_project ''videos/a.mp4''"
  by (simp add: project_has_def working_project_def small_project_def)

text \<open>The same project with its video in the manifest.\<close>

definition claimed_project :: project where
  "claimed_project = small_project\<lparr>pm_content := Some (manifest_text [(key_encode first_key, first_claim)])\<rparr>"

lemma claimed_entries: "manifest_ok [(key_encode first_key, first_claim)]"
  using stored_key_encode [OF first_key_ok(1)] first_claim_ok by (simp add: manifest_ok_def unique_paths_def)

lemma claimed_view: "project_view claimed_project = [key_encode first_key \<mapsto> first_claim]" "readable claimed_project"
  by (simp_all add: project_view_def stored_entries_def readable_def claimed_project_def parse_text [OF claimed_entries])

lemma claimed_answers: "honest claimed_project" "failures claimed_project \<le> 1"
  using small_answers(1,2) by (simp_all add: claimed_project_def honest_def failures_def)

lemma first_not_second: "key_encode first_key \<noteq> key_encode second_key"
  using key_encode_eq [OF first_key_ok] by (simp add: first_key_def second_key_def)

section \<open>Keys\<close>

text \<open>
  C37: The text of a key reads back to the key; and every text that reads at all is the text of the key
  it reads to, so that a claim has one name in the file.
\<close>

theorem key_text_round_trip:
  assumes "key_ok k"
  shows "key_decode (key_encode k) = Inr k \<and> (key_decode v = Inr l \<longrightarrow> key_encode l = v)"
  using assms key_decode_encode key_decode_canonical by (auto simp: key_ok_def)

lemma key_text_round_trip_witness:
  "key_decode (key_encode first_key) = Inr first_key"
  using key_text_round_trip [OF first_key_ok(1)] by blast

text \<open>
  C40: A stored key with a list where a variant is expected raises a \<open>TypeError\<close>, in the reading of the
  key, in the reading of a manifest that holds it, and in the recovery that is there to replace a
  manifest that cannot be read, which then changes nothing.
\<close>

theorem unhashable_key_blocks_recovery:
  assumes "0 < n" "r \<noteq> []" "list_all json_ok [JInt n, JStr r, JArr xs]"
    and "raw = utf8_encode (dumps_indented (manifest_payload [(unhashable_key n r xs, e)]) @ [newline])"
    and "pm_content s = Some raw" "pm_answers s = []" "replace_unreadable_entries targets s = (result, t)"
  shows "key_decode (unhashable_key n r xs) = Inl Key_type_error \<and> parse_manifest True raw = Inl Bad_type \<and>
    (\<forall>b. result \<noteq> Inr b) \<and> pm_content t = Some raw"
proof -
  have k: "key_decode (unhashable_key n r xs) = Inl Key_type_error" by (rule unhashable_decode [OF assms(1-3)])
  have p: "parse_manifest True raw = Inl Bad_type" using unhashable_parse [OF k] assms(4) by simp
  show ?thesis using k p recovery_needs_manifest_error [OF assms(5) p assms(7,6)] assms(5) by simp
qed

definition unhashable_text :: string where
  "unhashable_text = utf8_encode (dumps_indented (manifest_payload [(unhashable_key 1 ''E1S01'' [], first_claim)]) @ [newline])"

lemma unhashable_key_blocks_recovery_witness:
  "parse_manifest True unhashable_text = Inl Bad_type \<and>
   pm_content (snd (replace_unreadable_entries [(first_key, first_claim)] (working_project\<lparr>pm_content := Some unhashable_text\<rparr>)))
     = Some unhashable_text"
proof -
  let ?s = "working_project\<lparr>pm_content := Some unhashable_text\<rparr>"
  obtain q t where run: "replace_unreadable_entries [(first_key, first_claim)] ?s = (q, t)" by fastforce
  have ok: "list_all json_ok [JInt 1, JStr ''E1S01'', JArr []]" by (simp add: str_nat.simps max_int_digits_def)
  show ?thesis
    using unhashable_key_blocks_recovery [OF _ _ ok unhashable_text_def _ _ run] run by (simp add: working_project_def)
qed

section \<open>Transactions\<close>

text \<open>
  C5: A registration either makes the claim, or raises and leaves every claim as it was, as long as the
  operating system fails at most once between its first call and the end of the rollback; the file of
  a claim that was made is there. Where nothing fails and the claim is allowed, it is made.
\<close>

theorem registration_all_or_nothing:
  assumes "readable s" "honest s" "failures s \<le> 1" "key_ok k" "owned_once ((project_view s)(key_encode k \<mapsto> e))"
    and "register_entry_transactionally project_adapter k e s = (r, t)"
  shows "(case r of
      Inr changed \<Rightarrow>
        entry_ok e \<and> project_has s (artifact_path e) \<and> project_view t = (project_view s)(key_encode k \<mapsto> e) \<and>
        changed = (project_view s (key_encode k) \<noteq> Some e)
    | Inl x \<Rightarrow> x \<noteq> Rollback_incomplete \<and> project_view t = project_view s) \<and>
    (failures s = 0 \<and> entry_ok e \<and> project_has s (artifact_path e) \<longrightarrow> (\<exists>changed. r = Inr changed))"
proof
  show "case r of
      Inr changed \<Rightarrow>
        entry_ok e \<and> project_has s (artifact_path e) \<and> project_view t = (project_view s)(key_encode k \<mapsto> e) \<and>
        changed = (project_view s (key_encode k) \<noteq> Some e)
    | Inl x \<Rightarrow> x \<noteq> Rollback_incomplete \<and> project_view t = project_view s"
    using project.register_entry_result [OF _ assms(4,6)] register_without_giving_up [OF assms]
    by (cases r) (auto simp: project.restored_def)
  show "failures s = 0 \<and> entry_ok e \<and> project_has s (artifact_path e) \<longrightarrow> (\<exists>changed. r = Inr changed)"
    using register_succeeds [OF assms(1,2) _ assms(4) _ _ assms(5,6)] by blast
qed

lemma registration_all_or_nothing_witness:
  "(case register_entry_transactionally project_adapter first_key first_claim small_project of
      (Inr changed, t) \<Rightarrow> project_view t = [key_encode first_key \<mapsto> first_claim]
    | (Inl x, t) \<Rightarrow> x \<noteq> Rollback_incomplete \<and> project_view t = Map.empty) \<and>
   project_view (snd (register_entry_transactionally project_adapter first_key first_claim working_project))
     = [key_encode first_key \<mapsto> first_claim]"
proof
  obtain r t where run: "register_entry_transactionally project_adapter first_key first_claim small_project = (r, t)" by fastforce
  show "case register_entry_transactionally project_adapter first_key first_claim small_project of
      (Inr changed, t) \<Rightarrow> project_view t = [key_encode first_key \<mapsto> first_claim]
    | (Inl x, t) \<Rightarrow> x \<noteq> Rollback_incomplete \<and> project_view t = Map.empty"
    using registration_all_or_nothing [OF small_readable(1) small_answers(1,2) first_key_ok(1) _ run] run
    by (simp add: small_view owned_once_single split: sum.splits)
  obtain q u where run: "register_entry_transactionally project_adapter first_key first_claim working_project = (q, u)" by fastforce
  show "project_view (snd (register_entry_transactionally project_adapter first_key first_claim working_project))
      = [key_encode first_key \<mapsto> first_claim]"
    using registration_all_or_nothing [OF small_readable(2) small_answers(3) _ first_key_ok(1) _ run] run small_answers(4) first_claim_ok
      small_has
    by (auto simp: small_view owned_once_single first_claim_def)
qed

text \<open>
  C21: Renaming a claim moves it to the new key, with its digest and the rewritten path, only where the
  new key is free; a failure leaves every claim as it was, and says so truly with one failure at most.
\<close>

theorem rekey_all_or_nothing:
  assumes "readable s" "honest s" "failures s \<le> 1" "key_ok source" "key_ok target"
    and "owned_once (moved_claim source target path_rewrites (project_view s))"
    and "and_then (plan_entry_rekey project_adapter source target path_rewrites) (commit_rekey project_adapter) s = (r, t)"
  shows "case r of
      Inr changed \<Rightarrow>
        project_view t = moved_claim source target path_rewrites (project_view s) \<and>
        changed = (project_view t \<noteq> project_view s) \<and> (source = target \<or> project_view s (key_encode target) = None)
    | Inl x \<Rightarrow> x \<noteq> Rollback_incomplete \<and> project_view t = project_view s"
  using project.rekey_result [OF _ assms(4,5,7)] rekey_without_giving_up [OF assms]
  by (cases r) (auto simp: project.restored_def)

lemma rekey_all_or_nothing_witness:
  "case and_then (plan_entry_rekey project_adapter first_key second_key []) (commit_rekey project_adapter) claimed_project of
     (Inr changed, t) \<Rightarrow> changed \<and> project_view t = [key_encode second_key \<mapsto> first_claim]
   | (Inl x, t) \<Rightarrow> x \<noteq> Rollback_incomplete \<and> project_view t = [key_encode first_key \<mapsto> first_claim]"
proof -
  obtain r t where run: "and_then (plan_entry_rekey project_adapter first_key second_key []) (commit_rekey project_adapter) claimed_project = (r, t)"
    by fastforce
  have m: "moved_claim first_key second_key [] [key_encode first_key \<mapsto> first_claim] = [key_encode second_key \<mapsto> first_claim]"
    by (simp add: moved_claim_def rewritten_def first_claim_def)
  have "[key_encode second_key \<mapsto> first_claim] (key_encode second_key) \<noteq> [key_encode first_key \<mapsto> first_claim] (key_encode second_key)"
    using first_not_second by simp
  then have "[key_encode second_key \<mapsto> first_claim] \<noteq> [key_encode first_key \<mapsto> first_claim]" by metis
  then show ?thesis
    using rekey_all_or_nothing [OF claimed_view(2) claimed_answers first_key_ok _ run] run
    by (simp add: claimed_view m owned_once_single split: sum.splits)
qed

text \<open>
  C22: Forgetting a set of keys removes the claims of exactly these keys, all of them or none, whichever
  single call of the operating system fails.
\<close>

theorem forgetting_all_or_nothing:
  assumes "readable s" "honest s" "failures s \<le> 1" "list_all key_ok ks"
    and "forget_entries_transactionally project_adapter ks s = (r, t)"
  shows "case r of
      Inr changed \<Rightarrow>
        project_view t = (\<lambda>c. if c \<in> key_encode ` set ks then None else project_view s c) \<and>
        changed = (project_view t \<noteq> project_view s)
    | Inl x \<Rightarrow> x \<noteq> Rollback_incomplete \<and> project_view t = project_view s"
  using project.forget_entries_result [OF _ assms(4,5)] forget_without_giving_up [OF assms]
  by (cases r) (auto simp: project.restored_def without_claims_def)

lemma forgetting_all_or_nothing_witness:
  "case forget_entries_transactionally project_adapter [first_key, second_key] claimed_project of
     (Inr changed, t) \<Rightarrow> project_view t = Map.empty
   | (Inl x, t) \<Rightarrow> x \<noteq> Rollback_incomplete \<and> project_view t = [key_encode first_key \<mapsto> first_claim]"
proof -
  obtain r t where run: "forget_entries_transactionally project_adapter [first_key, second_key] claimed_project = (r, t)" by fastforce
  have ks: "list_all key_ok [first_key, second_key]" by (simp add: first_key_ok)
  show ?thesis
    using forgetting_all_or_nothing [OF claimed_view(2) claimed_answers ks run] run
    by (auto simp: claimed_view fun_eq_iff split: sum.splits)
qed

section \<open>The file and what stands for it\<close>

text \<open>
  C6: Whatever the operating system answers, a manifest that could be read can still be read after every
  sequence of operations of the storage (reading, snapshot, put, delete, the two conditional replacements
  and the unconditional one) on made keys, no path has two owners, and a claim that no operation of the
  sequence names is untouched; replacing the whole state names every claim. What is put must have a
  canonical path and a well-formed digest: \<open>put_entry\<close> does not check it, and with other entries the manifest
  may become unreadable. The replacements check their entries themselves.
\<close>

theorem file_stays_readable:
  assumes "readable s" "list_all op_ok xs" "run_ops project_adapter xs s = (rs, t)"
  shows "readable t \<and> owned_once (project_view t) \<and>
    (list_all (\<lambda>x. \<not> op_writes x c) xs \<longrightarrow> project_view t c = project_view s c)"
  using run_keeps [OF assms(2,3)] assms(1) project.good_owned by simp

lemma file_stays_readable_witness:
  "readable (snd (run_ops project_adapter [Delete_op second_key, Snapshot_op, Put_op second_key first_claim] claimed_project)) \<and>
   project_view (snd (run_ops project_adapter [Delete_op second_key, Snapshot_op, Put_op second_key first_claim] claimed_project))
     (key_encode first_key) = Some first_claim"
proof -
  obtain rs t where run: "run_ops project_adapter [Delete_op second_key, Snapshot_op, Put_op second_key first_claim] claimed_project = (rs, t)"
    by fastforce
  have ok: "list_all op_ok [Delete_op second_key, Snapshot_op, Put_op second_key first_claim]" by (simp add: first_key_ok first_claim_ok)
  show ?thesis
    using file_stays_readable [OF claimed_view(2) ok run, of "key_encode first_key"] run first_not_second by (simp add: claimed_view)
qed

lemma shows_memory_view: "shows_memory t m \<Longrightarrow> project_view t = memory_view m"
  using map_of_sort_key_fst [of "mm_entries m"] parse_text [of "mm_entries m" True]
  by (auto simp: shows_memory_def project_view_def memory_view_def stored_entries_def file_text_def manifest_ok_def fun_eq_iff)

text \<open>
  C7: Where no call of the operating system fails, every sequence of operations of the storage on its claims
  (reading, snapshot, put, delete, the two conditional replacements and the unconditional one) answers on
  the file what it answers in memory, errors included, and ends with the text of the same entries. This is
  for made keys; for entries with a canonical path and digest where \<open>put_entry\<close>, which checks neither, is
  given one; and, where the whole state is replaced without a condition, for target states that are not
  empty and whose paths are artifacts of both, since there only the file looks for the artifacts and
  writes an empty manifest.
\<close>

theorem file_refines_memory:
  assumes "shows_memory s m" "list_all op_ok xs" "list_all (known_targets (mm_artifacts m)) xs"
    and "run_ops memory_adapter xs m = (rs, m')"
  shows "\<exists>t. run_ops project_adapter xs s = (rs, t) \<and> pm_content t = file_text (mm_entries m') \<and>
    project_view t = memory_view m'"
proof -
  obtain t where t: "run_ops project_adapter xs s = (rs, t)" "shows_memory t m'" using runs_refine [OF assms] by blast
  show ?thesis using t shows_memory_view [OF t(2)] by (auto simp: shows_memory_def)
qed

lemma file_refines_memory_witness:
  "fst (run_ops project_adapter [Put_op first_key first_claim, Get_op first_key, Replace_all_op [(second_key, first_claim)], Get_op first_key]
      working_project)
     = [Flag_result (Inr True), Entry_result (Inr (Some first_claim)), Flag_result (Inr True), Entry_result (Inr None)]"
proof -
  let ?m = "\<lparr>mm_entries = [], mm_artifacts = [''videos/a.mp4'']\<rparr>"
  let ?xs = "[Put_op first_key first_claim, Get_op first_key, Replace_all_op [(second_key, first_claim)], Get_op first_key]"
  obtain rs m' where run: "run_ops memory_adapter ?xs ?m = (rs, m')" by fastforce
  have "project_has working_project ''videos/a.mp4''" by (rule small_has)
  then have R: "shows_memory working_project ?m" by (simp add: shows_memory_def working_project_def small_project_def file_text_def)
  have ok: "list_all op_ok ?xs" by (simp add: first_key_ok first_claim_ok)
  have known: "list_all (known_targets (mm_artifacts ?m)) ?xs" by (simp add: first_claim_def)
  have ne: "key_encode first_key \<noteq> key_encode second_key" using first_not_second by auto
  have enc: "encode_target_entries [(second_key, first_claim)] = Inr [(key_encode second_key, first_claim)]"
    using first_claim_ok by (simp add: encode_target_entries_def entry_ok_def)
  have "rs = [Flag_result (Inr True), Entry_result (Inr (Some first_claim)), Flag_result (Inr True), Entry_result (Inr None)]"
    using run ne enc
    by (simp add: memory_adapter_def memory_put_def memory_get_def memory_replace_all_def assert_unique_artifact_paths_def dict_eq_def)
  then show ?thesis using file_refines_memory [OF R ok known run] by force
qed

text \<open>
  C38: The text of a well-formed manifest is written and reads back, strictly, to the same entries in the
  order of their keys; and what reads strictly at all is well formed.
\<close>

theorem manifest_text_round_trip:
  assumes "manifest_ok es"
  shows "\<exists>raw. serialize_manifest es = Inr raw \<and> parse_manifest True raw = Inr (sort_key fst es) \<and>
    (\<forall>other ds. parse_manifest True other = Inr ds \<longrightarrow> manifest_ok ds)"
  using serialize_text [OF assms] parse_text [OF assms] parse_manifest_ok by blast

lemma manifest_text_round_trip_witness:
  "\<exists>raw. serialize_manifest [(key_encode first_key, first_claim)] = Inr raw \<and>
     parse_manifest True raw = Inr [(key_encode first_key, first_claim)]"
  using manifest_text_round_trip [OF claimed_entries] by auto

text \<open>
  C39: A manifest whose claims and digests are under made keys, each once, and that was written into a
  project archive, reads back, where every path has one owner, to the same claims and the same digest of
  every claim; where two claims name one path, which the writing does not check, reading it back is
  refused. Paths are compared as the code does, letter case aside.
\<close>

theorem archive_gives_back:
  assumes "claims_dict (sn_entries sn)" "claims_dict (sn_digests sn)" "encode_artifact_manifest_payload sn = Inr v"
  shows "if owned_once (map_of (map (\<lambda>(k, e). (key_encode k, e)) (sn_entries sn)))
    then \<exists>sn'. decode_artifact_manifest_payload v = Inr sn' \<and>
      map_of (sn_entries sn') = map_of (sn_entries sn) \<and> map_of (sn_digests sn') = map_of (sn_digests sn)
    else decode_artifact_manifest_payload v = Inl Manifest_error"
  using archive_read_back [OF assms] by auto

definition small_archive :: archive_snapshot where
  "small_archive = \<lparr>sn_entries = [(first_key, first_claim)], sn_digests = [(first_key, replicate 64 (CHR ''a''))]\<rparr>"

text \<open>Two claims of one path.\<close>

definition shared_archive :: archive_snapshot where
  "shared_archive =
     \<lparr>sn_entries = [(first_key, first_claim), (second_key, first_claim)],
      sn_digests = [(first_key, replicate 64 (CHR ''a'')), (second_key, replicate 64 (CHR ''a''))]\<rparr>"

lemma archive_gives_back_witness:
  "(case encode_artifact_manifest_payload small_archive of
      Inl x \<Rightarrow> False
    | Inr v \<Rightarrow> \<exists>sn. decode_artifact_manifest_payload v = Inr sn \<and> map_of (sn_entries sn) = [first_key \<mapsto> first_claim]) \<and>
   (case encode_artifact_manifest_payload shared_archive of
      Inl x \<Rightarrow> False
    | Inr v \<Rightarrow> decode_artifact_manifest_payload v = Inl Manifest_error)"
proof -
  have ne: "key_encode first_key \<noteq> key_encode second_key" "first_key \<noteq> second_key" using first_not_second by auto
  have d: "claims_dict (sn_entries small_archive)" "claims_dict (sn_digests small_archive)"
    "claims_dict (sn_entries shared_archive)" "claims_dict (sn_digests shared_archive)"
    using ne by (simp_all add: small_archive_def shared_archive_def claims_dict_def first_key_ok)
  have o: "owned_once (map_of (map (\<lambda>(k, e). (key_encode k, e)) (sn_entries small_archive)))"
    by (simp add: small_archive_def owned_once_single)
  have s: "\<not> owned_once (map_of (map (\<lambda>(k, e). (key_encode k, e)) (sn_entries shared_archive)))"
    using ne by (auto simp: shared_archive_def owned_once_def)
  have "is_content_digest (replicate 64 (CHR ''a''))" by (simp add: is_content_digest_def is_lower_hex_def list_all_iff)
  then obtain v w where v: "encode_artifact_manifest_payload small_archive = Inr v" "encode_artifact_manifest_payload shared_archive = Inr w"
    using first_claim_ok ne
    by (simp add: encode_artifact_manifest_payload_def small_archive_def shared_archive_def encode_target_entries_def entry_ok_def same_names_def)
  show ?thesis
    using archive_gives_back [OF d(1,2) v(1)] archive_gives_back [OF d(3,4) v(2)] o s v by (auto simp: small_archive_def)
qed

section \<open>Comparing\<close>

text \<open>
  C20: Where nothing fails, comparing an artifact answers exactly this: blocked with the reason where the
  path cannot be followed to a regular file; missing where there is no file, no claim, or a claim of
  another path; current where the claim is the expected one, and stale otherwise.
\<close>

theorem comparison_exact:
  assumes "readable s" "honest s" "failures s = 0" "key_ok k" "normalize_artifact_path p = Inr p"
    and "\<forall>x. expected = Some x \<longrightarrow> entry_ok x" "compare_entry project_adapter k p expected s = (r, t)"
  shows "project_view t = project_view s \<and>
    r = Inr (case sight (pm_tree s) (split_char (CHR ''/'') p) of
               Barred code \<Rightarrow> \<lparr>cmp_status = Blocked, cmp_path = p, cmp_blocker = Some \<lparr>bl_code = code, bl_path = p\<rparr>\<rparr>
             | Absent \<Rightarrow> \<lparr>cmp_status = Missing, cmp_path = p, cmp_blocker = None\<rparr>
             | Found \<Rightarrow>
                 \<lparr>cmp_status = (case project_view s (key_encode k) of
                     None \<Rightarrow> Missing
                   | Some e \<Rightarrow> if artifact_path e \<noteq> p then Missing else if expected = Some e then Current else Stale),
                  cmp_path = p, cmp_blocker = None\<rparr>)"
  using compare_complete [OF assms] project.compare_result [OF _ assms(4,7)]
  by (auto simp: compared_def currency_def project_has_def blocked_at_def status_at_def split: sighting.split)

lemma comparison_exact_witness:
  "fst (compare_entry project_adapter first_key ''videos/a.mp4'' (Some first_claim) (claimed_project\<lparr>pm_answers := []\<rparr>))
     = Inr \<lparr>cmp_status = Current, cmp_path = ''videos/a.mp4'', cmp_blocker = None\<rparr>"
proof -
  let ?s = "claimed_project\<lparr>pm_answers := []\<rparr>"
  obtain r t where run: "compare_entry project_adapter first_key ''videos/a.mp4'' (Some first_claim) ?s = (r, t)" by fastforce
  have s: "readable ?s" "honest ?s" "failures ?s = 0" "project_view ?s = project_view claimed_project"
    using claimed_view(2) by (simp_all add: readable_def honest_def failures_def project_view_def stored_entries_def)
  have p: "normalize_artifact_path ''videos/a.mp4'' = Inr ''videos/a.mp4''"
    using first_claim_ok by (simp add: entry_ok_def first_claim_def)
  have "pm_tree ?s = pm_tree small_project" by (simp add: claimed_project_def)
  then have sight: "sight (pm_tree ?s) (split_char (CHR ''/'') ''videos/a.mp4'') = Found" by (simp add: small_project_def)
  show ?thesis
    using comparison_exact [OF s(1-3) first_key_ok(1) p _ run] run first_claim_ok sight
    by (simp add: s(4) claimed_view first_claim_def)
qed

section \<open>The cache\<close>

text \<open>
  C23: Reading manifests through the cache answers, for every sequence of readings of any projects, what
  reading each file would answer, as long as the identity of a file that was settled when it was read
  stands for its bytes.
\<close>

theorem cached_reads_are_fresh:
  assumes "stable_files xs"
  shows "fst (load_all xs []) = map load_fresh xs"
  using load_all_fresh [of xs "[]"] assms by (simp add: cache_sound_def)

definition read_at :: "int \<Rightarrow> file_opened" where
  "read_at now =
     \<lparr>on_project = (1, 2),
      on_file = Some \<lparr>rd_before = \<lparr>st_device = 1, st_inode = 7, st_size = 256, st_modified_ns = 0, st_changed_ns = 0\<rparr>, rd_raw = manifest_text [(key_encode first_key, first_claim)],
        rd_after = \<lparr>st_device = 1, st_inode = 7, st_size = 256, st_modified_ns = 0, st_changed_ns = 0\<rparr>\<rparr>,
      on_now = now\<rparr>"

lemma cached_reads_are_fresh_witness:
  "fst (load_all [read_at 5000000000, read_at 6000000000] []) = [load_fresh (read_at 5000000000), load_fresh (read_at 6000000000)]"
  using cached_reads_are_fresh [of "[read_at 5000000000, read_at 6000000000]"]
  by (simp add: proves_def read_at_def)

text \<open>The cache never holds more than 32 projects, however many are read.\<close>

theorem cache_stays_small:
  "length (snd (load_all xs [])) \<le> 32"
proof -
  have "length (snd (load_all xs c)) \<le> manifest_read_cache_project_limit" if "length c \<le> manifest_read_cache_project_limit" for c
    using that
  proof (induction xs arbitrary: c)
    case (Cons x xs)
    obtain r d where x: "load_cached x c = (r, d)" by fastforce
    show ?case using Cons.IH [OF load_cached_bounded [OF Cons.prems x]] x by (auto split: prod.split)
  qed simp
  from this [of "[]"] show ?thesis by (simp add: manifest_read_cache_project_limit_def)
qed

end
