(* ===== verification/Py_Sha256.thy ===== *)
theory Py_Sha256
  imports Py_Bytes "HOL-Library.Word"
begin

unbundle bit_operations_syntax

text \<open>
  \<open>hashlib.sha256(data).hexdigest()\<close> on bytes, a byte being a character: the algorithm of FIPS 180-4 on
  32-bit words, whose addition wraps.
\<close>

section \<open>Words\<close>

type_synonym word32 = "32 word"

record hash_state =
  h_a :: word32
  h_b :: word32
  h_c :: word32
  h_d :: word32
  h_e :: word32
  h_f :: word32
  h_g :: word32
  h_h :: word32

text \<open>
  The constants are the first 32 bits of the fractional parts of the square roots of the first 8 primes
  and of the cube roots of the first 64: a root of a number is found bit by bit, and the word drops its
  integral part.
\<close>

fun root_from :: "nat \<Rightarrow> nat \<Rightarrow> nat \<Rightarrow> nat \<Rightarrow> nat" where
  "root_from k 0 n r = r"
| "root_from k (Suc b) n r = root_from k b n (if (r + 2 ^ b) ^ k \<le> n then r + 2 ^ b else r)"

definition root_fraction :: "nat \<Rightarrow> nat \<Rightarrow> word32" where
  "root_fraction k p = word_of_nat (root_from k 38 (p * 2 ^ (32 * k)) 0)"

definition primes_to :: "nat \<Rightarrow> nat list" where
  "primes_to n = filter (\<lambda>p. list_all (\<lambda>d. p mod d \<noteq> 0) [2..<p]) [2..<Suc n]"

definition sha_constants :: "word32 list" where
  "sha_constants = map (root_fraction 3) (primes_to 311)"

definition sha_init :: hash_state where
  "sha_init =
     \<lparr>h_a = root_fraction 2 2, h_b = root_fraction 2 3, h_c = root_fraction 2 5, h_d = root_fraction 2 7,
      h_e = root_fraction 2 11, h_f = root_fraction 2 13, h_g = root_fraction 2 17, h_h = root_fraction 2 19\<rparr>"

definition choose_bits :: "word32 \<Rightarrow> word32 \<Rightarrow> word32 \<Rightarrow> word32" where
  "choose_bits x y z = (x AND y) XOR (NOT x AND z)"

definition majority_bits :: "word32 \<Rightarrow> word32 \<Rightarrow> word32 \<Rightarrow> word32" where
  "majority_bits x y z = (x AND y) XOR (x AND z) XOR (y AND z)"

definition big_sigma0 :: "word32 \<Rightarrow> word32" where
  "big_sigma0 x = word_rotr 2 x XOR word_rotr 13 x XOR word_rotr 22 x"

definition big_sigma1 :: "word32 \<Rightarrow> word32" where
  "big_sigma1 x = word_rotr 6 x XOR word_rotr 11 x XOR word_rotr 25 x"

definition small_sigma0 :: "word32 \<Rightarrow> word32" where
  "small_sigma0 x = word_rotr 7 x XOR word_rotr 18 x XOR drop_bit 3 x"

definition small_sigma1 :: "word32 \<Rightarrow> word32" where
  "small_sigma1 x = word_rotr 17 x XOR word_rotr 19 x XOR drop_bit 10 x"

section \<open>Blocks\<close>

definition byte_word :: "char \<Rightarrow> word32" where
  "byte_word c = word_of_nat (of_char c)"

fun block_words :: "string \<Rightarrow> word32 list" where
  "block_words (a # b # c # d # s) =
     (push_bit 24 (byte_word a) OR push_bit 16 (byte_word b) OR push_bit 8 (byte_word c) OR byte_word d) # block_words s"
| "block_words s = []"

fun extend_schedule :: "nat \<Rightarrow> word32 list \<Rightarrow> word32 list" where
  "extend_schedule 0 ws = ws"
| "extend_schedule (Suc n) ws =
     (let i = length ws in
      extend_schedule n (ws @ [small_sigma1 (ws ! (i - 2)) + ws ! (i - 7) + small_sigma0 (ws ! (i - 15)) + ws ! (i - 16)]))"

fun sha_rounds :: "(word32 \<times> word32) list \<Rightarrow> hash_state \<Rightarrow> hash_state" where
  "sha_rounds [] h = h"
| "sha_rounds ((k, w) # kws) h =
     (let t1 = h_h h + big_sigma1 (h_e h) + choose_bits (h_e h) (h_f h) (h_g h) + k + w;
          t2 = big_sigma0 (h_a h) + majority_bits (h_a h) (h_b h) (h_c h)
      in sha_rounds kws
           \<lparr>h_a = t1 + t2, h_b = h_a h, h_c = h_b h, h_d = h_c h,
            h_e = h_d h + t1, h_f = h_e h, h_g = h_f h, h_h = h_g h\<rparr>)"

definition add_states :: "hash_state \<Rightarrow> hash_state \<Rightarrow> hash_state" where
  "add_states g h =
     \<lparr>h_a = h_a g + h_a h, h_b = h_b g + h_b h, h_c = h_c g + h_c h, h_d = h_d g + h_d h,
      h_e = h_e g + h_e h, h_f = h_f g + h_f h, h_g = h_g g + h_g h, h_h = h_h g + h_h h\<rparr>"

definition sha_block :: "string \<Rightarrow> hash_state \<Rightarrow> hash_state" where
  "sha_block block h = add_states h (sha_rounds (zip sha_constants (extend_schedule 48 (block_words block))) h)"

function sha_blocks :: "string \<Rightarrow> hash_state \<Rightarrow> hash_state" where
  "sha_blocks s h = (if length s < 64 then h else sha_blocks (drop 64 s) (sha_block (take 64 s) h))"
  by pat_completeness auto
termination by (relation "measure (length \<circ> fst)") auto

section \<open>Padding and the digest\<close>

fun big_endian :: "nat \<Rightarrow> nat \<Rightarrow> string" where
  "big_endian 0 n = []"
| "big_endian (Suc k) n = big_endian k (n div 256) @ [char_of (n mod 256)]"

definition sha_pad :: "string \<Rightarrow> string" where
  "sha_pad s =
     s @ [char_of (128::nat)] @ replicate ((119 - length s mod 64) mod 64) (char_of (0::nat)) @ big_endian 8 (8 * length s)"

definition hex_char :: "nat \<Rightarrow> char" where
  "hex_char n = (if n < 10 then char_of (48 + n) else char_of (87 + n))"

fun hex_of :: "nat \<Rightarrow> nat \<Rightarrow> string" where
  "hex_of 0 n = []"
| "hex_of (Suc k) n = hex_of k (n div 16) @ [hex_char (n mod 16)]"

definition word_hex :: "word32 \<Rightarrow> string" where
  "word_hex w = hex_of 8 (unat w)"

definition sha256_hexdigest :: "string \<Rightarrow> string" where
  "sha256_hexdigest s =
     (let h = sha_blocks (sha_pad s) sha_init in
      concat (map word_hex [h_a h, h_b h, h_c h, h_d h, h_e h, h_f h, h_g h, h_h h]))"

section \<open>The form of a digest\<close>

lemma length_big_endian [simp]: "length (big_endian k n) = k"
  by (induction k arbitrary: n) auto

lemma sha_pad_blocks: "length (sha_pad s) mod 64 = 0"
proof -
  obtain q r where a: "length s = 64 * q + r" and r: "length s mod 64 = r" "r < 64"
    by (metis mult_div_mod_eq mod_less_divisor zero_less_numeral)
  have len: "length (sha_pad s) = 64 * q + r + 1 + (119 - r) mod 64 + 8" by (simp add: sha_pad_def r(1)) (simp add: a)
  show ?thesis
  proof (cases "r \<le> 55")
    case True
    then have "(119 - r) mod 64 = 55 - r" using mod_add_self1 [of 64 "55 - r"] by simp
    then have "length (sha_pad s) = 64 * (q + 1)" using len True by simp
    then show ?thesis by simp
  next
    case False
    then have "length (sha_pad s) = 64 * (q + 2)" using len r(2) by simp
    then show ?thesis by simp
  qed
qed

lemma length_hex [simp]: "length (hex_of k n) = k"
  by (induction k arbitrary: n) auto

lemma length_sha256 [simp]: "length (sha256_hexdigest s) = 64"
  by (simp add: sha256_hexdigest_def word_hex_def Let_def)

end
