(* ===== verification/Artifact_Basis.thy ===== *)
theory Artifact_Basis
  imports Py_Sha256 Artifact_Manifest
begin

text \<open>
  The basis of an artifact (\<open>ArtifactBasis\<close>): the inputs it was made from, as canonical JSON and its
  SHA-256 digest, with the portable evidence of a basis and the composition of the basis of a video. A
  basis goes to the manifest as a descriptor.
\<close>

section \<open>Canonical JSON\<close>

text \<open>
  \<open>_normalize_json\<close> on values that JSON has (a tuple is taken for a list): numbers must be finite.
\<close>

definition non_finite :: "string list" where
  "non_finite = [''NaN'', ''Infinity'', ''-Infinity'']"

fun normalize_json :: "json \<Rightarrow> manifest_error + json"
  and normalize_items :: "json list \<Rightarrow> manifest_error + json list"
  and normalize_members :: "(string \<times> json) list \<Rightarrow> manifest_error + (string \<times> json) list" where
  "normalize_json (JFloat t) = (if t \<in> set non_finite then Inl Bad_value else Inr (JFloat t))"
| "normalize_json (JArr xs) = bindE (normalize_items xs) (\<lambda>ys. Inr (JArr ys))"
| "normalize_json (JObj kvs) = bindE (normalize_members kvs) (\<lambda>ys. Inr (JObj ys))"
| "normalize_json v = Inr v"
| "normalize_items [] = Inr []"
| "normalize_items (x # xs) = bindE (normalize_json x) (\<lambda>y. bindE (normalize_items xs) (\<lambda>ys. Inr (y # ys)))"
| "normalize_members [] = Inr []"
| "normalize_members ((k, v) # kvs) =
     bindE (normalize_json v) (\<lambda>w. bindE (normalize_members kvs) (\<lambda>ws. Inr ((k, w) # ws)))"

definition canonical_json :: "json \<Rightarrow> string" where
  "canonical_json v = dumps_compact (sort_keys v)"

definition canonical_json_bytes :: "json \<Rightarrow> string" where
  "canonical_json_bytes v = utf8_encode (canonical_json v)"

definition prefixed :: "string \<Rightarrow> string" where
  "prefixed d = hash_algorithm @ '':'' @ d"

section \<open>A basis\<close>

record artifact_basis =
  ab_kind :: string
  ab_kind_version :: int
  ab_normalized :: string
  ab_digest :: string

definition basis_payload :: "string \<Rightarrow> int \<Rightarrow> json \<Rightarrow> json" where
  "basis_payload kind version inputs =
     JObj [(''inputs'', inputs), (''kind'', JStr kind), (''kind_version'', JInt version)]"

definition new_basis :: "string \<Rightarrow> json \<Rightarrow> json \<Rightarrow> manifest_error + artifact_basis" where
  "new_basis kind version inputs =
     (if kind = [] then Inl Bad_value
      else case version of
             JInt v \<Rightarrow>
               if v < 1 then Inl Bad_value
               else bindE (normalize_json inputs) (\<lambda>n.
                 let normalized = canonical_json_bytes (basis_payload kind v n) in
                 Inr \<lparr>ab_kind = kind, ab_kind_version = v, ab_normalized = normalized,
                      ab_digest = prefixed (sha256_hexdigest normalized)\<rparr>)
           | _ \<Rightarrow> Inl Bad_value)"

text \<open>\<open>to_evidence_dict\<close>: \<open>None\<close> where the bytes are not the text of an object.\<close>

definition to_evidence_dict :: "artifact_basis \<Rightarrow> json option" where
  "to_evidence_dict b =
     (case utf8_decode (ab_normalized b) of
        None \<Rightarrow> None
      | Some t \<Rightarrow>
          (case loads t of
             Some (JObj payload) \<Rightarrow> Some (JObj (AList.update ''digest'' (JStr (ab_digest b)) payload))
           | _ \<Rightarrow> None))"

definition from_evidence_dict :: "json \<Rightarrow> manifest_error + artifact_basis" where
  "from_evidence_dict v =
     (case v of
        JObj kvs \<Rightarrow>
          if \<not> same_names (map fst kvs) [''kind'', ''kind_version'', ''inputs'', ''digest''] then Inl Bad_value
          else (case (map_of kvs ''kind'', map_of kvs ''kind_version'', map_of kvs ''inputs'') of
                  (Some (JStr kind), Some version, Some (JObj inputs)) \<Rightarrow>
                    bindE (new_basis kind version (JObj inputs)) (\<lambda>b.
                      if map_of kvs ''digest'' = Some (JStr (ab_digest b)) then Inr b else Inl Bad_value)
                | _ \<Rightarrow> Inl Bad_value)
      | _ \<Rightarrow> Inl Bad_value)"

definition descriptor_of_basis :: "artifact_basis \<Rightarrow> manifest_error + basis_descriptor" where
  "descriptor_of_basis b = new_basis_descriptor (JStr (ab_kind b)) (JInt (ab_kind_version b)) (JStr (ab_digest b))"

section \<open>The basis of a video\<close>

datatype basis_source = Whole_basis artifact_basis | Descriptor basis_descriptor

fun coerce_descriptor :: "basis_source \<Rightarrow> manifest_error + basis_descriptor" where
  "coerce_descriptor (Whole_basis b) = descriptor_of_basis b"
| "coerce_descriptor (Descriptor d) = Inr d"

fun coerce_optional_descriptor :: "basis_source option \<Rightarrow> manifest_error + basis_descriptor option" where
  "coerce_optional_descriptor None = Inr None"
| "coerce_optional_descriptor (Some b) = bindE (coerce_descriptor b) (\<lambda>d. Inr (Some d))"

fun optional_dict :: "basis_descriptor option \<Rightarrow> json" where
  "optional_dict None = JNull"
| "optional_dict (Some d) = basis_descriptor_to_dict d"

definition video_inputs :: "basis_descriptor \<Rightarrow> basis_descriptor option \<Rightarrow> basis_descriptor option \<Rightarrow> json" where
  "video_inputs visual speech duration =
     JObj [(''components'',
       JObj [(''visual'', basis_descriptor_to_dict visual), (''speech'', optional_dict speech),
             (''duration'', optional_dict duration)])]"

definition compose_video_artifact_basis ::
    "basis_source \<Rightarrow> basis_source option \<Rightarrow> basis_source option \<Rightarrow> manifest_error + artifact_basis" where
  "compose_video_artifact_basis visual speech duration =
     bindE (coerce_descriptor visual) (\<lambda>v.
     bindE (coerce_optional_descriptor speech) (\<lambda>s.
     bindE (coerce_optional_descriptor duration) (\<lambda>d.
       new_basis ''artifact-components/video'' (JInt 1) (video_inputs v s d))))"

section \<open>The manifest takes a basis\<close>

definition register_basis :: "'s adapter \<Rightarrow> artifact_key \<Rightarrow> string \<Rightarrow> artifact_basis \<Rightarrow> ('s, bool) call" where
  "register_basis A key p b = and_then (lifting (descriptor_of_basis b)) (\<lambda>d. register_descriptor A key p d)"

definition compare_with_basis :: "'s adapter \<Rightarrow> artifact_key \<Rightarrow> string \<Rightarrow> artifact_basis \<Rightarrow> ('s, comparison) call" where
  "compare_with_basis A key p b = compare_basis A key p (ab_digest b)"

section \<open>Digests\<close>

lemma hex_char_lower: "n < 16 \<Longrightarrow> is_lower_hex (hex_char n)"
  by (auto simp: is_lower_hex_def hex_char_def Let_def)

lemma hex_of_lower: "list_all is_lower_hex (hex_of k n)"
  by (induction k arbitrary: n) (simp_all add: hex_char_lower)

lemma sha256_digest: "is_content_digest (sha256_hexdigest s)"
proof -
  have "list_all is_lower_hex (sha256_hexdigest s)"
    by (simp add: sha256_hexdigest_def word_hex_def Let_def hex_of_lower)
  then show ?thesis by (simp add: is_content_digest_def)
qed

lemma prefixed_digest: "is_prefixed_digest (prefixed (sha256_hexdigest s))"
  using sha256_digest [of s] by (simp add: is_prefixed_digest_def prefixed_def hash_algorithm_def starts_with_def)

lemma new_basis_parts:
  assumes "new_basis kind version inputs = Inr b"
  obtains v where "version = JInt v" "1 \<le> v" "kind \<noteq> []" "ab_kind b = kind" "ab_kind_version b = v"
    "ab_digest b = prefixed (sha256_hexdigest (ab_normalized b))"
    "\<exists>n. normalize_json inputs = Inr n \<and> ab_normalized b = canonical_json_bytes (basis_payload kind v n)"
  using assms that
  by (cases version) (auto simp: new_basis_def Let_def bindE_Inr_iff split: if_splits)

lemma descriptor_of_new_basis:
  assumes "new_basis kind version inputs = Inr b"
  shows "descriptor_of_basis b = Inr \<lparr>bd_kind = ab_kind b, bd_kind_version = ab_kind_version b, bd_digest = ab_digest b\<rparr>"
  using assms
  by (rule new_basis_parts) (simp add: descriptor_of_basis_def new_basis_descriptor_def prefixed_digest)

section \<open>Normal forms\<close>

lemma normalize_same:
  "normalize_json v = Inr w \<Longrightarrow> w = v"
  "normalize_items xs = Inr ys \<Longrightarrow> ys = xs"
  "normalize_members kvs = Inr ws \<Longrightarrow> ws = kvs"
  by (induction v and xs and kvs arbitrary: w and ys and ws rule: normalize_json_normalize_items_normalize_members.induct)
    (auto simp: bindE_Inr_iff split: if_splits)

lemma normalize_items_iff: "normalize_items xs = Inr xs \<longleftrightarrow> (\<forall>x\<in>set xs. normalize_json x = Inr x)"
  by (induction xs) (auto simp: bindE_Inr_iff dest: normalize_same)

lemma normalize_members_iff: "normalize_members kvs = Inr kvs \<longleftrightarrow> (\<forall>(k, v)\<in>set kvs. normalize_json v = Inr v)"
  by (induction kvs) (auto simp: bindE_Inr_iff dest: normalize_same)

lemma normalize_sorted: "normalize_json v = Inr v \<Longrightarrow> normalize_json (sort_keys v) = Inr (sort_keys v)"
proof (induction v rule: sort_keys.induct)
  case (1 xs)
  then have "normalize_items xs = Inr xs" by (auto simp: bindE_Inr_iff)
  then have "normalize_items (map sort_keys xs) = Inr (map sort_keys xs)"
    using 1 by (simp add: normalize_items_iff)
  then show ?case by simp
next
  case (2 kvs)
  then have "normalize_members kvs = Inr kvs" by (auto simp: bindE_Inr_iff)
  then have m: "\<forall>(k, v)\<in>set kvs. normalize_json v = Inr v" by (simp add: normalize_members_iff)
  let ?s = "sort_key fst (map (\<lambda>(k, v). (k, sort_keys v)) kvs)"
  have "\<forall>(k, v)\<in>set ?s. normalize_json v = Inr v" using m 2 by auto
  then have "normalize_members ?s = Inr ?s" by (simp only: normalize_members_iff)
  then show ?case by simp
qed simp_all

lemma sort_keys_idem: "sort_keys (sort_keys v) = sort_keys v"
proof (induction v rule: sort_keys.induct)
  case (2 kvs)
  let ?m = "map (\<lambda>(k, v). (k, sort_keys v)) kvs"
  have "map (\<lambda>(k, v). (k, sort_keys v)) (sort_key fst ?m) = sort_key fst ?m"
    using 2 by (auto intro!: map_idI)
  moreover have "sorted (map fst (sort_key fst ?m))" by simp
  ultimately show ?case by (simp only: sort_keys.simps sort_key_same)
qed simp_all

section \<open>Evidence\<close>

lemma sort_payload: "sort_keys (basis_payload kind n inputs) = basis_payload kind n (sort_keys inputs)"
  by (simp add: basis_payload_def)

lemma payload_json_ok: "json_ok inputs \<Longrightarrow> json_ok (JInt n) \<Longrightarrow> json_ok (basis_payload kind n inputs)"
  by (simp add: basis_payload_def)

lemma evidence_dict:
  assumes "ab_normalized b = canonical_json_bytes (basis_payload kind n inputs)" "json_ok inputs" "json_ok (JInt n)"
  shows "to_evidence_dict b = Some (JObj [(''inputs'', sort_keys inputs), (''kind'', JStr kind),
      (''kind_version'', JInt n), (''digest'', JStr (ab_digest b))])"
proof -
  have "json_ok (basis_payload kind n (sort_keys inputs))" using assms(2,3) by (intro payload_json_ok json_ok_sort_keys)
  then show ?thesis
    using assms(1)
    by (simp add: to_evidence_dict_def canonical_json_bytes_def canonical_json_def utf8_round_trip sort_payload loads_compact)
      (simp add: basis_payload_def)
qed

lemma evidence_round_trip:
  assumes new: "new_basis kind version (JObj inputs) = Inr b" and ok: "json_ok (JObj inputs)" "json_ok version"
  shows "\<exists>v. to_evidence_dict b = Some v \<and> from_evidence_dict v = Inr b"
proof -
  obtain n where v: "version = JInt n" "1 \<le> n" "kind \<noteq> []" "ab_kind b = kind" "ab_kind_version b = n"
    "ab_digest b = prefixed (sha256_hexdigest (ab_normalized b))"
    and "\<exists>i. normalize_json (JObj inputs) = Inr i \<and> ab_normalized b = canonical_json_bytes (basis_payload kind n i)"
    by (rule new_basis_parts [OF new])
  then have nf: "normalize_json (JObj inputs) = Inr (JObj inputs)"
    and nb: "ab_normalized b = canonical_json_bytes (basis_payload kind n (JObj inputs))"
    using normalize_same(1) by blast+
  obtain si where si: "sort_keys (JObj inputs) = JObj si" by simp
  have e: "to_evidence_dict b = Some (JObj [(''inputs'', JObj si), (''kind'', JStr kind),
      (''kind_version'', JInt n), (''digest'', JStr (ab_digest b))])"
    using evidence_dict [OF nb ok(1)] ok(2) v(1) si by simp
  have "normalize_json (JObj si) = Inr (JObj si)" using normalize_sorted [OF nf] unfolding si .
  moreover have "canonical_json_bytes (basis_payload kind n (JObj si)) = ab_normalized b"
    using si sort_keys_idem [of "JObj inputs"] by (simp only: nb canonical_json_bytes_def canonical_json_def sort_payload)
  ultimately have "new_basis kind (JInt n) (JObj si) = Inr b"
    using v by (simp only: new_basis_def json.case if_False not_less [symmetric] simp_thms bindE.simps Let_def) simp
  then show ?thesis unfolding e by (simp add: from_evidence_dict_def same_names_def)
qed

text \<open>Equal bytes come from equal parts.\<close>

lemma canonical_inj:
  assumes "json_ok v" "json_ok w" "canonical_json_bytes v = canonical_json_bytes w"
  shows "sort_keys v = sort_keys w"
proof -
  have "dumps_compact (sort_keys v) = dumps_compact (sort_keys w)"
    using assms(3) utf8_round_trip by (metis canonical_json_bytes_def canonical_json_def option.inject)
  then show ?thesis using loads_compact json_ok_sort_keys assms(1,2) by (metis option.inject)
qed

lemma sort_video_inputs:
  "sort_keys (video_inputs v s d) =
     JObj [(''components'', JObj [(''duration'', sort_keys (optional_dict d)), (''speech'', sort_keys (optional_dict s)),
       (''visual'', sort_keys (basis_descriptor_to_dict v))])]"
  by (simp add: video_inputs_def)

lemma sorted_dict_inj: "sort_keys (basis_descriptor_to_dict a) = sort_keys (basis_descriptor_to_dict b) \<Longrightarrow> a = b"
  by (simp add: basis_descriptor_to_dict_def)

lemma sorted_optional_inj: "sort_keys (optional_dict a) = sort_keys (optional_dict b) \<Longrightarrow> a = b"
  by (cases a; cases b) (auto simp: basis_descriptor_to_dict_def)

lemma compose_coerced:
  assumes "coerce_descriptor visual = Inr v" "coerce_optional_descriptor speech = Inr s" "coerce_optional_descriptor duration = Inr d"
  obtains b where "compose_video_artifact_basis visual speech duration = Inr b"
    "ab_normalized b = canonical_json_bytes (basis_payload ''artifact-components/video'' 1 (video_inputs v s d))"
proof -
  have o: "normalize_json (optional_dict x) = Inr (optional_dict x)" for x
    by (cases x) (simp_all add: basis_descriptor_to_dict_def)
  have "normalize_json (video_inputs v s d) = Inr (video_inputs v s d)"
    by (simp add: video_inputs_def o) (simp add: basis_descriptor_to_dict_def)
  then obtain b where "compose_video_artifact_basis visual speech duration = Inr b"
    "ab_normalized b = canonical_json_bytes (basis_payload ''artifact-components/video'' 1 (video_inputs v s d))"
    by (simp add: compose_video_artifact_basis_def assms new_basis_def Let_def)
  then show ?thesis by (rule that)
qed

lemma video_bytes_inj:
  assumes "json_ok (video_inputs v s d)" "json_ok (video_inputs v' s' d')"
    and "canonical_json_bytes (basis_payload k 1 (video_inputs v s d)) = canonical_json_bytes (basis_payload k 1 (video_inputs v' s' d'))"
  shows "v = v' \<and> s = s' \<and> d = d'"
proof -
  have one: "json_ok (JInt 1)" by (simp add: str_nat.simps max_int_digits_def)
  have "sort_keys (video_inputs v s d) = sort_keys (video_inputs v' s' d')"
    using canonical_inj [OF payload_json_ok [OF assms(1) one] payload_json_ok [OF assms(2) one] assms(3)]
    by (simp only: sort_payload) (simp add: basis_payload_def)
  then show ?thesis using sorted_dict_inj sorted_optional_inj by (simp add: sort_video_inputs)
qed

end
