(* ===== verification/Basis_Laws.thy ===== *)
theory Basis_Laws
  imports Manifest_Properties Artifact_Basis
begin

text \<open>
  A basis that was registered is what the artifact is compared with: the operations of the manifest on
  whole bases, over the project directory.
\<close>

section \<open>The tree of files\<close>

definition keeps_tree :: "(project, 'a) call \<Rightarrow> bool" where
  "keeps_tree m = (\<forall>s r t. m s = (r, t) \<longrightarrow> pm_tree t = pm_tree s)"

named_theorems tree \<open>calls that leave the tree of files\<close>

lemma keeps_tree_basic [tree]: "keeps_tree (returning x)" "keeps_tree (raising e)" "keeps_tree (lifting m)"
  "keeps_tree (parse_content b)"
  by (auto simp: keeps_tree_def parse_content_def split: option.splits sum.splits)

lemma keeps_tree_then [tree]: "keeps_tree m \<Longrightarrow> (\<And>x. keeps_tree (f x)) \<Longrightarrow> keeps_tree (and_then m f)"
  by (fastforce simp: keeps_tree_def elim!: and_then_cases)

lemma keeps_tree_os: "(\<And>s. pm_tree (eff s) = pm_tree s) \<Longrightarrow> keeps_tree (os_call eff)"
  by (auto simp: keeps_tree_def os_call_def Let_def split: list.splits os_answer.splits)

lemma keeps_tree_locked:
  assumes "keeps_tree body"
  shows "keeps_tree (locked body)"
proof -
  have "keeps_tree (os_call (\<lambda>s. s\<lparr>pm_lock := True\<rparr>))" "keeps_tree (os_call (\<lambda>s. s))" by (simp_all add: keeps_tree_os)
  then show ?thesis using assms unfolding keeps_tree_def locked_def
    by (auto split: prod.splits sum.splits)
qed

lemma keeps_tree_calls [tree]:
  "keeps_tree (load_unlocked b)" "keeps_tree (atomic_replace raw)" "keeps_tree (write_manifest es original)"
proof -
  show "keeps_tree (load_unlocked b)" by (simp add: load_unlocked_def tree keeps_tree_os)
  show a: "keeps_tree (atomic_replace raw)" for raw by (simp add: atomic_replace_def keeps_tree_os)
  show "keeps_tree (write_manifest es original)" by (simp add: write_manifest_def tree a)
qed

lemma put_keeps_tree: "project_put k e s = (r, t) \<Longrightarrow> pm_tree t = pm_tree s"
proof -
  have "keeps_tree (project_put k e)"
    unfolding project_put_def by (intro keeps_tree_locked keeps_tree_then) (auto intro: tree split: prod.split)
  then show "project_put k e s = (r, t) \<Longrightarrow> pm_tree t = pm_tree s" by (auto simp: keeps_tree_def)
qed

section \<open>Registering a basis\<close>

lemma basis_entry_ok:
  assumes "new_basis kind version inputs = Inr b" "normalize_artifact_path p = Inr p"
  shows "entry_ok \<lparr>artifact_path = p, basis_digest = ab_digest b\<rparr>"
  using assms(1) by (rule new_basis_parts) (simp add: entry_ok_def assms(2) prefixed_digest)

lemma register_basis_succeeds:
  assumes s: "readable s" "honest s" "failures s = 0" and k: "key_ok k" and b: "new_basis kind version inputs = Inr b"
    and p: "normalize_artifact_path p = Inr p" "project_has s p"
    and own: "owned_once ((project_view s)(key_encode k \<mapsto> \<lparr>artifact_path = p, basis_digest = ab_digest b\<rparr>))"
    and run: "register_basis project_adapter k p b s = (r, t)"
  shows "(\<exists>changed. r = Inr changed) \<and> readable t \<and> honest t \<and> failures t = 0 \<and> pm_tree t = pm_tree s \<and>
    project_view t = (project_view s)(key_encode k \<mapsto> \<lparr>artifact_path = p, basis_digest = ab_digest b\<rparr>)"
proof -
  let ?e = "\<lparr>artifact_path = p, basis_digest = ab_digest b\<rparr>"
  note e = basis_entry_ok [OF b p(1)]
  have obs: "observe_present project_adapter p s = (Inr p, s)"
    using p by (simp add: observe_present_def project_adapter_def project_inspect_def project_has_def and_then_def returning_def)
  have put: "project_put k ?e s = (r, t)"
    using run descriptor_of_new_basis [OF b] obs
    by (simp add: register_basis_def register_descriptor_def and_then_def lifting_def) (simp add: project_adapter_def)
  have sp: "spends (project_put k ?e) s" by (rule spends_put [OF s(1) k e own])
  obtain changed where "r = Inr changed" using spendsD(3) [OF sp put s(2)] s(3) by (cases r) auto
  then show ?thesis
    using put_keeps [OF k e] put s(1,3) spendsD(1,2) [OF sp put s(2)] put_keeps_tree [OF put] project_put_result [OF k e put]
    by (auto simp: keeps_readable_def)
qed

section \<open>Properties\<close>

text \<open>
  The portable evidence of a basis reads back to the basis, digest included; the digest has the form
  that entries require, and the descriptor of a basis is never refused.
\<close>

theorem basis_evidence_round_trip:
  assumes "new_basis kind version (JObj inputs) = Inr b" "json_ok (JObj inputs)" "json_ok version"
  shows "(\<exists>v. to_evidence_dict b = Some v \<and> from_evidence_dict v = Inr b) \<and> is_prefixed_digest (ab_digest b) \<and>
    descriptor_of_basis b = Inr \<lparr>bd_kind = ab_kind b, bd_kind_version = ab_kind_version b, bd_digest = ab_digest b\<rparr>"
  using evidence_round_trip [OF assms] descriptor_of_new_basis [OF assms(1)]
  by (rule_tac new_basis_parts [OF assms(1)]) (simp add: prefixed_digest)

definition small_inputs :: "(string \<times> json) list" where
  "small_inputs = [(''text'', JStr ''a''), (''seconds'', JInt 5)]"

lemma basis_evidence_round_trip_witness:
  "case new_basis ''storyboard'' (JInt 1) (JObj small_inputs) of
     Inl x \<Rightarrow> False
   | Inr b \<Rightarrow> \<exists>v. to_evidence_dict b = Some v \<and> from_evidence_dict v = Inr b"
proof -
  obtain b where b: "new_basis ''storyboard'' (JInt 1) (JObj small_inputs) = Inr b"
    by (simp add: new_basis_def small_inputs_def Let_def)
  have ok: "json_ok (JObj small_inputs)" "json_ok (JInt 1)" by (simp_all add: small_inputs_def str_nat.simps max_int_digits_def)
  show ?thesis using basis_evidence_round_trip [OF b ok] b by simp
qed

text \<open>
  The canonical bytes of a video's basis, from which its digest is taken, are the same for two videos
  exactly when they have the same visual, speech and duration descriptors.
\<close>

theorem video_basis_identifies_parts:
  assumes "coerce_descriptor visual = Inr v" "coerce_optional_descriptor speech = Inr s" "coerce_optional_descriptor duration = Inr d"
    and "coerce_descriptor visual' = Inr v'" "coerce_optional_descriptor speech' = Inr s'" "coerce_optional_descriptor duration' = Inr d'"
    and "json_ok (video_inputs v s d)" "json_ok (video_inputs v' s' d')"
  shows "\<exists>b b'. compose_video_artifact_basis visual speech duration = Inr b \<and>
    compose_video_artifact_basis visual' speech' duration' = Inr b' \<and>
    (ab_normalized b = ab_normalized b') = (v = v' \<and> s = s' \<and> d = d')"
proof -
  obtain b where b: "compose_video_artifact_basis visual speech duration = Inr b"
    "ab_normalized b = canonical_json_bytes (basis_payload ''artifact-components/video'' 1 (video_inputs v s d))"
    by (rule compose_coerced [OF assms(1-3)])
  obtain b' where b': "compose_video_artifact_basis visual' speech' duration' = Inr b'"
    "ab_normalized b' = canonical_json_bytes (basis_payload ''artifact-components/video'' 1 (video_inputs v' s' d'))"
    by (rule compose_coerced [OF assms(4-6)])
  have "(ab_normalized b = ab_normalized b') = (v = v' \<and> s = s' \<and> d = d')"
    using video_bytes_inj [OF assms(7,8)] b(2) b'(2) by auto
  then show ?thesis using b(1) b'(1) by blast
qed

definition visual_part :: "string \<Rightarrow> basis_descriptor" where
  "visual_part kind = \<lparr>bd_kind = kind, bd_kind_version = 1, bd_digest = prefixed (replicate 64 (CHR ''0''))\<rparr>"

lemma video_basis_identifies_parts_witness:
  "\<exists>b b'. compose_video_artifact_basis (Descriptor (visual_part ''storyboard'')) None None = Inr b \<and>
     compose_video_artifact_basis (Descriptor (visual_part ''storyboard'')) (Some (Descriptor (visual_part ''speech''))) None = Inr b' \<and>
     ab_normalized b \<noteq> ab_normalized b'"
proof -
  have ok: "json_ok (video_inputs (visual_part ''storyboard'') None None)"
    "json_ok (video_inputs (visual_part ''storyboard'') (Some (visual_part ''speech'')) None)"
    by (simp_all add: video_inputs_def basis_descriptor_to_dict_def visual_part_def str_nat.simps max_int_digits_def)
  show ?thesis using video_basis_identifies_parts [OF _ _ _ _ _ _ ok] by simp
qed

text \<open>
  C24: Where nothing fails, registering an artifact with a basis succeeds, and comparing it afterwards with
  any basis is current exactly if the digests are the same, and stale otherwise.
\<close>

theorem registered_basis_is_current:
  assumes "readable s" "honest s" "failures s = 0" "key_ok k" "normalize_artifact_path p = Inr p" "project_has s p"
    and "new_basis kind version inputs = Inr b" "new_basis kind' version' inputs' = Inr b'"
    and "owned_once ((project_view s)(key_encode k \<mapsto> \<lparr>artifact_path = p, basis_digest = ab_digest b\<rparr>))"
    and "register_basis project_adapter k p b s = (r, t)" "compare_with_basis project_adapter k p b' t = (q, u)"
  shows "(\<exists>changed. r = Inr changed) \<and>
    q = Inr \<lparr>cmp_status = (if ab_digest b' = ab_digest b then Current else Stale), cmp_path = p, cmp_blocker = None\<rparr>"
proof -
  note t = register_basis_succeeds [OF assms(1-4,7,5,6,9,10)]
  have e: "\<forall>x. Some \<lparr>artifact_path = p, basis_digest = ab_digest b'\<rparr> = Some x \<longrightarrow> entry_ok x"
    using basis_entry_ok [OF assms(8,5)] by simp
  have run: "compare_entry project_adapter k p (Some \<lparr>artifact_path = p, basis_digest = ab_digest b'\<rparr>) t = (q, u)"
    using assms(11) by (simp add: compare_with_basis_def compare_basis_def)
  have "q = Inr (compared t k p (Some \<lparr>artifact_path = p, basis_digest = ab_digest b'\<rparr>))"
    using t by (intro compare_complete [OF _ _ _ assms(4,5) e run]) simp_all
  moreover have "sight (pm_tree t) (split_char (CHR ''/'') p) = Found" using t assms(6) by (simp add: project_has_def)
  ultimately show ?thesis using t by (simp add: compared_def currency_def project_has_def status_at_def)
qed

lemma registered_basis_is_current_witness:
  "\<exists>b. new_basis ''storyboard'' (JInt 1) (JObj small_inputs) = Inr b \<and>
     fst (compare_with_basis project_adapter first_key ''videos/a.mp4'' b
            (snd (register_basis project_adapter first_key ''videos/a.mp4'' b working_project)))
       = Inr \<lparr>cmp_status = Current, cmp_path = ''videos/a.mp4'', cmp_blocker = None\<rparr>"
proof -
  let ?p = "''videos/a.mp4''"
  obtain b where b: "new_basis ''storyboard'' (JInt 1) (JObj small_inputs) = Inr b"
    by (simp add: new_basis_def small_inputs_def Let_def)
  obtain r t where run: "register_basis project_adapter first_key ?p b working_project = (r, t)" by fastforce
  obtain q u where cmp: "compare_with_basis project_adapter first_key ?p b t = (q, u)" by fastforce
  have p: "normalize_artifact_path ?p = Inr ?p" using first_claim_ok by (simp add: entry_ok_def first_claim_def)
  have own: "owned_once ((project_view working_project)(key_encode first_key \<mapsto> \<lparr>artifact_path = ?p, basis_digest = ab_digest b\<rparr>))"
    by (simp add: small_view owned_once_single)
  have "q = Inr \<lparr>cmp_status = Current, cmp_path = ?p, cmp_blocker = None\<rparr>"
    using registered_basis_is_current [OF small_readable(2) small_answers(3,4) first_key_ok(1) p small_has b b own run cmp] by simp
  then show ?thesis using b run cmp by (intro exI [of _ b]) simp
qed

end
