(* ===== verification/Py_Difflib.thy ===== *)
theory Py_Difflib
  imports Main
begin

text \<open>
  Python's \<open>difflib.SequenceMatcher(None, a, b, autojunk=False).get_opcodes()\<close> on lists: the longest
  matching block, the earliest in \<open>a\<close> and then in \<open>b\<close> among the longest; the same to its left and to its
  right; adjacent blocks joined; and what lies between them named. The queue of the library, whose blocks
  are sorted at the end, is the recursion in order. The operations tile both lists.
\<close>

section \<open>Matching blocks\<close>

datatype op_tag = Replace | Delete | Insert | Equal

type_synonym opcode = "op_tag \<times> nat \<times> nat \<times> nat \<times> nat"

fun common_prefix :: "'a list \<Rightarrow> 'a list \<Rightarrow> nat" where
  "common_prefix (x # xs) (y # ys) = (if x = y then Suc (common_prefix xs ys) else 0)"
| "common_prefix xs ys = 0"

definition better_match :: "'a list \<Rightarrow> 'a list \<Rightarrow> nat \<times> nat \<Rightarrow> nat \<times> nat \<times> nat \<Rightarrow> nat \<times> nat \<times> nat" where
  "better_match a b ij best =
     (let k = common_prefix (drop (fst ij) a) (drop (snd ij) b) in
      if snd (snd best) < k then (fst ij, snd ij, k) else best)"

definition find_longest_match :: "'a list \<Rightarrow> 'a list \<Rightarrow> nat \<times> nat \<times> nat" where
  "find_longest_match a b =
     fold (better_match a b) (concat (map (\<lambda>i. map (Pair i) [0..<length b]) [0..<length a])) (0, 0, 0)"

lemma common_prefix_take: "take (common_prefix a b) a = take (common_prefix a b) b"
  by (induction a b rule: common_prefix.induct) auto

lemma common_prefix_le: "common_prefix a b \<le> length a" "common_prefix a b \<le> length b"
  by (induction a b rule: common_prefix.induct) auto

definition is_match :: "'a list \<Rightarrow> 'a list \<Rightarrow> nat \<times> nat \<times> nat \<Rightarrow> bool" where
  "is_match a b m =
     (case m of (i, j, k) \<Rightarrow>
        i + k \<le> length a \<and> j + k \<le> length b \<and> take k (drop i a) = take k (drop j b))"

lemma better_match_ok:
  assumes "is_match a b best" "fst ij \<le> length a" "snd ij \<le> length b"
  shows "is_match a b (better_match a b ij best)"
  using assms common_prefix_le [of "drop (fst ij) a" "drop (snd ij) b"] common_prefix_take [of "drop (fst ij) a" "drop (snd ij) b"]
  by (auto simp: better_match_def is_match_def Let_def)

lemma find_longest_ok: "is_match a b (find_longest_match a b)"
proof -
  have "is_match a b (fold (better_match a b) ps best)"
    if "is_match a b best" "\<forall>ij\<in>set ps. fst ij \<le> length a \<and> snd ij \<le> length b" for ps best
    using that
  proof (induction ps arbitrary: best)
    case (Cons ij ps)
    have "is_match a b (better_match a b ij best)" using Cons.prems by (intro better_match_ok) simp_all
    then show ?case using Cons.IH Cons.prems(2) by simp
  qed simp
  then show ?thesis by (auto simp: find_longest_match_def is_match_def)
qed

lemma find_longest_bounds: "(i, j, k) = find_longest_match a b \<Longrightarrow> i + k \<le> length a \<and> j + k \<le> length b"
  using find_longest_ok [of a b] by (auto simp: is_match_def split: prod.splits)

function matching_blocks :: "nat \<Rightarrow> nat \<Rightarrow> 'a list \<Rightarrow> 'a list \<Rightarrow> (nat \<times> nat \<times> nat) list" where
  "matching_blocks i0 j0 a b =
     (case find_longest_match a b of (i, j, k) \<Rightarrow>
        if k = 0 then []
        else matching_blocks i0 j0 (take i a) (take j b) @ [(i0 + i, j0 + j, k)]
             @ matching_blocks (i0 + i + k) (j0 + j + k) (drop (i + k) a) (drop (j + k) b))"
  by pat_completeness auto
termination
  by (relation "measure (\<lambda>(i0, j0, a, b). length a)") (auto dest: find_longest_bounds)

declare matching_blocks.simps [simp del]

fun join_blocks :: "nat \<times> nat \<times> nat \<Rightarrow> (nat \<times> nat \<times> nat) list \<Rightarrow> (nat \<times> nat \<times> nat) list" where
  "join_blocks (i1, j1, k1) [] = (if k1 \<noteq> 0 then [(i1, j1, k1)] else [])"
| "join_blocks (i1, j1, k1) ((i2, j2, k2) # bs) =
     (if i1 + k1 = i2 \<and> j1 + k1 = j2 then join_blocks (i1, j1, k1 + k2) bs
      else (if k1 \<noteq> 0 then [(i1, j1, k1)] else []) @ join_blocks (i2, j2, k2) bs)"

definition get_matching_blocks :: "'a list \<Rightarrow> 'a list \<Rightarrow> (nat \<times> nat \<times> nat) list" where
  "get_matching_blocks a b = join_blocks (0, 0, 0) (matching_blocks 0 0 a b) @ [(length a, length b, 0)]"

section \<open>Operations\<close>

definition gap_op :: "nat \<Rightarrow> nat \<Rightarrow> nat \<Rightarrow> nat \<Rightarrow> opcode list" where
  "gap_op i ai j bj =
     (if i < ai \<and> j < bj then [(Replace, i, ai, j, bj)]
      else if i < ai then [(Delete, i, ai, j, bj)]
      else if j < bj then [(Insert, i, ai, j, bj)] else [])"

fun opcodes_from :: "nat \<Rightarrow> nat \<Rightarrow> (nat \<times> nat \<times> nat) list \<Rightarrow> opcode list" where
  "opcodes_from i j [] = []"
| "opcodes_from i j ((ai, bj, sz) # bs) =
     gap_op i ai j bj @ (if sz \<noteq> 0 then [(Equal, ai, ai + sz, bj, bj + sz)] else [])
       @ opcodes_from (ai + sz) (bj + sz) bs"

definition get_opcodes :: "'a list \<Rightarrow> 'a list \<Rightarrow> opcode list" where
  "get_opcodes a b = opcodes_from 0 0 (get_matching_blocks a b)"

section \<open>The operations tile both lists\<close>

text \<open>An operation says truly what it is.\<close>

fun op_ok :: "'a list \<Rightarrow> 'a list \<Rightarrow> opcode \<Rightarrow> bool" where
  "op_ok a b (t, i1, i2, j1, j2) =
     (i1 \<le> i2 \<and> j1 \<le> j2 \<and> i2 \<le> length a \<and> j2 \<le> length b \<and>
      (case t of
         Equal \<Rightarrow> i1 < i2 \<and> take (i2 - i1) (drop i1 a) = take (j2 - j1) (drop j1 b) \<and> i2 - i1 = j2 - j1
       | Delete \<Rightarrow> i1 < i2 \<and> j1 = j2
       | Insert \<Rightarrow> i1 = i2 \<and> j1 < j2
       | Replace \<Rightarrow> i1 < i2 \<and> j1 < j2))"

text \<open>Each operation starts where the one before ended.\<close>

fun chained :: "nat \<times> nat \<Rightarrow> opcode list \<Rightarrow> nat \<times> nat \<Rightarrow> bool" where
  "chained s [] e = (s = e)"
| "chained s ((t, i1, i2, j1, j2) # ops) e = (s = (i1, j1) \<and> chained (i2, j2) ops e)"

text \<open>Two changes are never neighbours.\<close>

fun separated :: "opcode list \<Rightarrow> bool" where
  "separated (x # y # ops) = ((fst x = Equal \<or> fst y = Equal) \<and> separated (y # ops))"
| "separated ops = True"

definition tiling :: "'a list \<Rightarrow> 'a list \<Rightarrow> opcode list \<Rightarrow> bool" where
  "tiling a b ops = (list_all (op_ok a b) ops \<and> chained (0, 0) ops (length a, length b) \<and> separated ops)"

lemma chained_append: "chained s (xs @ ys) e \<longleftrightarrow> (\<exists>m. chained s xs m \<and> chained m ys e)"
  by (induction s xs e rule: chained.induct) auto

lemma separated_append:
  "separated (xs @ ys) \<longleftrightarrow>
     separated xs \<and> separated ys \<and> (xs = [] \<or> ys = [] \<or> fst (last xs) = Equal \<or> fst (hd ys) = Equal)"
proof (induction xs)
  case (Cons x xs)
  then show ?case by (cases xs; cases ys) auto
qed simp

text \<open>Blocks in order: each matches and starts behind the one before.\<close>

fun blocks_ok :: "'a list \<Rightarrow> 'a list \<Rightarrow> nat \<Rightarrow> nat \<Rightarrow> (nat \<times> nat \<times> nat) list \<Rightarrow> nat \<Rightarrow> nat \<Rightarrow> bool" where
  "blocks_ok a b i j [] i' j' = (i \<le> i' \<and> j \<le> j')"
| "blocks_ok a b i j ((ai, bj, k) # bs) i' j' =
     (i \<le> ai \<and> j \<le> bj \<and> 0 < k \<and> is_match a b (ai, bj, k) \<and> blocks_ok a b (ai + k) (bj + k) bs i' j')"

lemma blocks_ok_append:
  "blocks_ok a b i j xs m n \<Longrightarrow> blocks_ok a b m n ys i' j' \<Longrightarrow> blocks_ok a b i j (xs @ ys) i' j'"
proof (induction a b i j xs m n rule: blocks_ok.induct)
  case (1 a b i j m n)
  then show ?case by (cases ys) auto
qed auto

lemma blocks_ok_le: "blocks_ok a b i j bs i' j' \<Longrightarrow> i \<le> i' \<and> j \<le> j'"
  by (induction a b i j bs i' j' rule: blocks_ok.induct) auto

lemma take_drop_slice:
  assumes "i + k \<le> n"
  shows "take k (drop i (take n (drop d xs))) = take k (drop (d + i) xs)"
  using assms by (simp add: drop_take min_def add.commute)

lemma is_match_slice:
  assumes "is_match (take n (drop i0 a)) (take m (drop j0 b)) (i, j, k)" "i0 + n \<le> length a" "j0 + m \<le> length b"
  shows "is_match a b (i0 + i, j0 + j, k)"
proof -
  have "i + k \<le> n" "j + k \<le> m" using assms by (simp_all add: is_match_def)
  then show ?thesis using assms take_drop_slice [of i k n i0 a] take_drop_slice [of j k m j0 b] by (simp add: is_match_def)
qed

lemma matching_blocks_ok:
  "xs = take n (drop i0 a) \<Longrightarrow> ys = take m (drop j0 b) \<Longrightarrow> i0 + n \<le> length a \<Longrightarrow> j0 + m \<le> length b \<Longrightarrow>
     blocks_ok a b i0 j0 (matching_blocks i0 j0 xs ys) (i0 + n) (j0 + m)"
proof (induction i0 j0 xs ys arbitrary: n m rule: matching_blocks.induct)
  case (1 i0 j0 xs ys)
  obtain i j k where f: "find_longest_match xs ys = (i, j, k)" by (metis prod_cases3)
  have len: "length xs = n" "length ys = m" using "1.prems" by simp_all
  have m: "is_match xs ys (i, j, k)" using find_longest_ok [of xs ys] f by simp
  then have le: "i + k \<le> n" "j + k \<le> m" using len by (simp_all add: is_match_def)
  show ?case
  proof (cases "k = 0")
    case True
    then show ?thesis by (subst matching_blocks.simps) (simp add: f)
  next
    case False
    have left: "blocks_ok a b i0 j0 (matching_blocks i0 j0 (take i xs) (take j ys)) (i0 + i) (j0 + j)"
      using le "1.prems" by (intro "1.IH"(1) [OF f [symmetric] refl False]) (simp_all add: min_def)
    have right: "blocks_ok a b (i0 + i + k) (j0 + j + k) (matching_blocks (i0 + i + k) (j0 + j + k) (drop (i + k) xs) (drop (j + k) ys))
        (i0 + i + k + (n - (i + k))) (j0 + j + k + (m - (j + k)))"
      using le "1.prems" by (intro "1.IH"(2) [OF f [symmetric] refl False]) (simp_all add: drop_take ac_simps)
    have mid: "is_match a b (i0 + i, j0 + j, k)" using is_match_slice m "1.prems" by blast
    have "blocks_ok a b (i0 + i) (j0 + j) ((i0 + i, j0 + j, k) # matching_blocks (i0 + i + k) (j0 + j + k) (drop (i + k) xs) (drop (j + k) ys))
        (i0 + n) (j0 + m)"
      using False mid right le by simp
    from blocks_ok_append [OF left this] show ?thesis
      using False by (subst matching_blocks.simps) (simp add: f)
  qed
qed

lemma is_match_join:
  assumes "is_match a b (i, j, k)" "is_match a b (i + k, j + k, l)"
  shows "is_match a b (i, j, k + l)"
  using assms by (simp add: is_match_def take_add add.commute)

lemma join_blocks_ok:
  "k1 \<noteq> 0 \<longrightarrow> is_match a b (i1, j1, k1) \<Longrightarrow> i \<le> i1 \<Longrightarrow> j \<le> j1 \<Longrightarrow> blocks_ok a b (i1 + k1) (j1 + k1) bs i' j' \<Longrightarrow>
     blocks_ok a b i j (join_blocks (i1, j1, k1) bs) i' j'"
proof (induction bs arbitrary: i j i1 j1 k1)
  case Nil
  then show ?case by auto
next
  case (Cons x bs)
  obtain i2 j2 k2 where x: "x = (i2, j2, k2)" by (metis prod_cases3)
  have two: "i1 + k1 \<le> i2" "j1 + k1 \<le> j2" "0 < k2" "is_match a b (i2, j2, k2)" "blocks_ok a b (i2 + k2) (j2 + k2) bs i' j'"
    using Cons.prems(4) x by simp_all
  show ?case
  proof (cases "i1 + k1 = i2 \<and> j1 + k1 = j2")
    case True
    have "is_match a b (i1, j1, k1 + k2)"
    proof (cases "k1 = 0")
      case True
      then show ?thesis using two(4) \<open>i1 + k1 = i2 \<and> j1 + k1 = j2\<close> by simp
    next
      case False
      then show ?thesis using Cons.prems(1) two(4) True by (intro is_match_join) simp_all
    qed
    then have "blocks_ok a b i j (join_blocks (i1, j1, k1 + k2) bs) i' j'"
      using Cons.prems(2,3) two(5) True by (intro Cons.IH) (auto simp: ac_simps)
    then show ?thesis using True x by simp
  next
    case False
    have rest: "blocks_ok a b (i1 + k1) (j1 + k1) (join_blocks (i2, j2, k2) bs) i' j'"
      using two by (intro Cons.IH) simp_all
    have "blocks_ok a b i j (if k1 \<noteq> 0 then [(i1, j1, k1)] else []) (i1 + k1) (j1 + k1)"
      using Cons.prems(1-3) by simp
    from blocks_ok_append [OF this rest] show ?thesis unfolding x join_blocks.simps(2) if_not_P [OF False] .
  qed
qed

lemma gap_op_ok:
  assumes "i \<le> ai" "j \<le> bj" "ai \<le> length a" "bj \<le> length b"
  shows "list_all (op_ok a b) (gap_op i ai j bj)" "chained (i, j) (gap_op i ai j bj) (ai, bj)"
  using assms by (auto simp: gap_op_def)

lemma opcodes_from_ok:
  assumes "blocks_ok a b i j bs (length a) (length b)"
  shows "list_all (op_ok a b) (opcodes_from i j (bs @ [(length a, length b, 0)])) \<and>
    chained (i, j) (opcodes_from i j (bs @ [(length a, length b, 0)])) (length a, length b) \<and>
    separated (opcodes_from i j (bs @ [(length a, length b, 0)]))"
  using assms
proof (induction bs arbitrary: i j)
  case Nil
  then show ?case by (auto simp: gap_op_def)
next
  case (Cons x bs)
  obtain ai bj k where x: "x = (ai, bj, k)" by (metis prod_cases3)
  have b: "i \<le> ai" "j \<le> bj" "0 < k" "is_match a b (ai, bj, k)" "blocks_ok a b (ai + k) (bj + k) bs (length a) (length b)"
    using Cons.prems x by simp_all
  let ?rest = "opcodes_from (ai + k) (bj + k) (bs @ [(length a, length b, 0)])"
  have IH: "list_all (op_ok a b) ?rest" "chained (ai + k, bj + k) ?rest (length a, length b)" "separated ?rest"
    using Cons.IH [OF b(5)] by simp_all
  have e: "opcodes_from i j ((x # bs) @ [(length a, length b, 0)]) = gap_op i ai j bj @ (Equal, ai, ai + k, bj, bj + k) # ?rest"
    using b(3) x by simp
  have le: "ai \<le> length a" "bj \<le> length b" using b(4) by (simp_all add: is_match_def)
  have op: "op_ok a b (Equal, ai, ai + k, bj, bj + k)" using b(3,4) by (simp add: is_match_def)
  have "separated ((Equal, ai, ai + k, bj, bj + k) # ?rest)" using IH(3) by (cases ?rest) simp_all
  moreover have "separated (gap_op i ai j bj)" by (simp add: gap_op_def)
  ultimately have "separated (gap_op i ai j bj @ (Equal, ai, ai + k, bj, bj + k) # ?rest)" by (simp add: separated_append)
  moreover have "chained (i, j) (gap_op i ai j bj @ (Equal, ai, ai + k, bj, bj + k) # ?rest) (length a, length b)"
    using gap_op_ok(2) [OF b(1,2) le] IH(2) by (auto simp: chained_append)
  ultimately show ?case unfolding e using gap_op_ok(1) [OF b(1,2) le] IH(1) op by simp
qed

theorem get_opcodes_tile: "tiling a b (get_opcodes a b)"
proof -
  have "blocks_ok a b 0 0 (matching_blocks 0 0 a b) (0 + length a) (0 + length b)" by (rule matching_blocks_ok) simp_all
  then have "blocks_ok a b 0 0 (join_blocks (0, 0, 0) (matching_blocks 0 0 a b)) (length a) (length b)"
    by (intro join_blocks_ok) simp_all
  from opcodes_from_ok [OF this] show ?thesis by (simp add: tiling_def get_opcodes_def get_matching_blocks_def)
qed

section \<open>A list and itself\<close>

lemma common_prefix_same [simp]: "common_prefix xs xs = length xs"
  by (induction xs) simp_all

lemma longest_stays: "fold (better_match a b) ps (i, j, length a) = (i, j, length a)"
proof (induction ps)
  case (Cons p ps)
  have "common_prefix (drop (fst p) a) (drop (snd p) b) \<le> length a"
    using common_prefix_le(1) [of "drop (fst p) a" "drop (snd p) b"] by simp
  then have "better_match a b p (i, j, length a) = (i, j, length a)" by (simp add: better_match_def Let_def)
  then show ?case using Cons by simp
qed simp

lemma find_longest_same: "find_longest_match xs xs = (0, 0, length xs)"
proof (cases "xs = []")
  case True
  then show ?thesis by (simp add: find_longest_match_def)
next
  case False
  then have "[0..<length xs] = 0 # [1..<length xs]" by (simp add: upt_conv_Cons)
  then obtain ps where "concat (map (\<lambda>i. map (Pair i) [0..<length xs]) [0..<length xs]) = (0, 0) # ps" by simp
  moreover have "better_match xs xs (0, 0) (0, 0, 0) = (0, 0, length xs)" using False by (simp add: better_match_def)
  ultimately show ?thesis by (simp add: find_longest_match_def longest_stays)
qed

lemma matching_blocks_Nil: "matching_blocks i j ([] :: 'a list) [] = []"
  by (subst matching_blocks.simps) (simp add: find_longest_same)

lemma get_opcodes_same: "get_opcodes xs xs = (if xs = [] then [] else [(Equal, 0, length xs, 0, length xs)])"
proof -
  have "matching_blocks 0 0 xs xs = (if xs = [] then [] else [(0, 0, length xs)])"
    by (subst matching_blocks.simps) (simp add: find_longest_same matching_blocks_Nil)
  then show ?thesis by (simp add: get_opcodes_def get_matching_blocks_def gap_op_def)
qed

end
