(* ===== verification/Text_Alignment.thy ===== *)
theory Text_Alignment
  imports Prelude Py_Difflib
begin

text \<open>
  The alignment of a source file before and after a change, from \<open>src/lib/episode/source_remap.py\<close>: the
  common beginning and end, the changed middle aligned by lines and small replaced blocks by characters,
  the position of the new text that an old position becomes, and whether the text between two positions
  changed. A text is the list of its code points. The alignment is used only through the laws of the
  locale \<open>position_map\<close>, which every tiling of the two texts satisfies.
\<close>

section \<open>Texts\<close>

type_synonym source_text = "nat list"

definition newline :: nat where
  "newline = 10"

definition slice :: "nat \<Rightarrow> nat \<Rightarrow> 'a list \<Rightarrow> 'a list" where
  "slice i j xs = drop i (take j xs)"

text \<open>\<open>str.splitlines(keepends=True)\<close>: the line boundaries of Python, a carriage return and a line feed being one.\<close>

definition line_boundary :: "nat \<Rightarrow> bool" where
  "line_boundary c = (c \<in> {10, 11, 12, 13, 28, 29, 30, 133, 8232, 8233})"

fun splitlines_from :: "source_text \<Rightarrow> source_text \<Rightarrow> source_text list" where
  "splitlines_from line [] = (if line = [] then [] else [line])"
| "splitlines_from line (c # cs) =
     (if \<not> line_boundary c \<or> (c = 13 \<and> cs \<noteq> [] \<and> hd cs = 10) then splitlines_from (line @ [c]) cs
      else (line @ [c]) # splitlines_from [] cs)"

definition splitlines :: "source_text \<Rightarrow> source_text list" where
  "splitlines s = splitlines_from [] s"

section \<open>Alignment\<close>

definition char_align_limit :: nat where
  "char_align_limit = 8000"

record text_alignment =
  opcodes :: "opcode list"
  old_length :: nat
  new_length :: nat

text \<open>The two loops of \<open>map_position\<close>: an insertion at the position first, then the operation that contains it.\<close>

definition map_opcodes :: "opcode list \<Rightarrow> nat \<Rightarrow> nat \<Rightarrow> nat \<Rightarrow> bool \<Rightarrow> nat" where
  "map_opcodes ops old_len new_len position after_insertions =
     (case List.find (\<lambda>(t, i1, i2, j1, j2). t = Insert \<and> i1 = position) ops of
        Some (t, i1, i2, j1, j2) \<Rightarrow> (if after_insertions then j2 else j1)
      | None \<Rightarrow>
          (case List.find (\<lambda>(t, i1, i2, j1, j2). i1 \<le> position \<and> position < i2) ops of
             Some (t, i1, i2, j1, j2) \<Rightarrow>
               (if t = Equal then j1 + (position - i1)
                else if t = Delete then j1
                else j1 + (position - i1) * (j2 - j1) div (i2 - i1))
           | None \<Rightarrow> (if old_len \<le> position then new_len else position)))"

definition map_position :: "text_alignment \<Rightarrow> nat \<Rightarrow> bool \<Rightarrow> nat" where
  "map_position al position after_insertions =
     map_opcodes (opcodes al) (old_length al) (new_length al) position after_insertions"

definition op_changes :: "nat \<Rightarrow> nat \<Rightarrow> bool \<Rightarrow> bool \<Rightarrow> opcode \<Rightarrow> bool" where
  "op_changes start end at_start at_end op =
     (case op of (t, i1, i2, j1, j2) \<Rightarrow>
        (if t = Equal then False
         else if t = Insert
         then (start < i1 \<and> i1 < end) \<or> (i1 = start \<and> at_start) \<or> (i1 = end \<and> at_end)
         else i1 < end \<and> start < i2))"

definition changed_between :: "text_alignment \<Rightarrow> nat \<Rightarrow> nat \<Rightarrow> bool \<Rightarrow> bool \<Rightarrow> bool" where
  "changed_between al start end at_start at_end = list_ex (op_changes start end at_start at_end) (opcodes al)"

fun line_offsets_from :: "nat \<Rightarrow> source_text list \<Rightarrow> nat list" where
  "line_offsets_from n [] = [n]"
| "line_offsets_from n (l # ls) = n # line_offsets_from (n + length l) ls"

definition line_offsets :: "source_text list \<Rightarrow> nat list" where
  "line_offsets ls = line_offsets_from 0 ls"

definition align_chars :: "source_text \<Rightarrow> source_text \<Rightarrow> nat \<Rightarrow> nat \<Rightarrow> opcode list" where
  "align_chars old new old_base new_base =
     map (\<lambda>(t, i1, i2, j1, j2). (t, i1 + old_base, i2 + old_base, j1 + new_base, j2 + new_base)) (get_opcodes old new)"

definition refine_op :: "source_text \<Rightarrow> source_text \<Rightarrow> nat \<Rightarrow> nat \<Rightarrow> nat list \<Rightarrow> nat list \<Rightarrow> opcode \<Rightarrow> opcode list" where
  "refine_op old new old_base new_base old_offsets new_offsets op =
     (case op of (t, i1, i2, j1, j2) \<Rightarrow>
        let a1 = old_offsets ! i1 + old_base; a2 = old_offsets ! i2 + old_base;
            b1 = new_offsets ! j1 + new_base; b2 = new_offsets ! j2 + new_base in
        if t = Replace \<and> a2 - a1 \<le> char_align_limit \<and> b2 - b1 \<le> char_align_limit
        then align_chars (slice (a1 - old_base) (a2 - old_base) old) (slice (b1 - new_base) (b2 - new_base) new) a1 b1
        else [(t, a1, a2, b1, b2)])"

definition align_middle :: "source_text \<Rightarrow> source_text \<Rightarrow> nat \<Rightarrow> nat \<Rightarrow> opcode list" where
  "align_middle old new old_base new_base =
     (if old = [] \<or> new = []
      then (if old = [] \<and> new = [] then []
            else [(if old = [] then Insert else Delete, old_base, old_base + length old, new_base, new_base + length new)])
      else let old_lines = splitlines old; new_lines = splitlines new in
           concat (map (refine_op old new old_base new_base (line_offsets old_lines) (line_offsets new_lines))
                     (get_opcodes old_lines new_lines)))"

text \<open>\<open>old.rfind("\n", 0, p) + 1\<close> and \<open>old.find("\n", p)\<close>.\<close>

definition line_start_before :: "source_text \<Rightarrow> nat \<Rightarrow> nat" where
  "line_start_before s p = length (dropWhile (\<lambda>c. c \<noteq> newline) (rev (take p s)))"

definition find_newline :: "source_text \<Rightarrow> nat \<Rightarrow> nat option" where
  "find_newline s p =
     (let n = p + length (takeWhile (\<lambda>c. c \<noteq> newline) (drop p s)) in if n < length s then Some n else None)"

definition aligned_prefix :: "source_text \<Rightarrow> source_text \<Rightarrow> nat" where
  "aligned_prefix old new =
     (let prefix = common_prefix old new; line_start = line_start_before old prefix in
      if prefix - line_start \<le> char_align_limit then line_start else prefix)"

definition common_suffix :: "source_text \<Rightarrow> source_text \<Rightarrow> nat" where
  "common_suffix old new =
     (let limit = min (length old) (length new); prefix = common_prefix old new in
      common_prefix (take (limit - prefix) (rev old)) (take (limit - prefix) (rev new)))"

definition aligned_suffix :: "source_text \<Rightarrow> source_text \<Rightarrow> nat" where
  "aligned_suffix old new =
     (let suffix = common_suffix old new; tail = length old - suffix in
      if 0 < tail \<and> old ! (tail - 1) \<noteq> newline
      then (case find_newline old tail of
              Some n \<Rightarrow> (if n + 1 - tail \<le> char_align_limit then length old - n - 1 else suffix)
            | None \<Rightarrow> (if suffix \<le> char_align_limit then 0 else suffix))
      else suffix)"

definition align_texts :: "source_text \<Rightarrow> source_text \<Rightarrow> text_alignment" where
  "align_texts old new =
     (let prefix = aligned_prefix old new; suffix = aligned_suffix old new in
      \<lparr>opcodes =
         (if prefix \<noteq> 0 then [(Equal, 0, prefix, 0, prefix)] else [])
           @ align_middle (slice prefix (length old - suffix) old) (slice prefix (length new - suffix) new) prefix prefix
           @ (if suffix \<noteq> 0 then [(Equal, length old - suffix, length old, length new - suffix, length new)] else []),
       old_length = length old, new_length = length new\<rparr>)"

end
