(* ===== verification/Source_Ledger.thy ===== *)
theory Source_Ledger
  imports Py_Json Text_Alignment
begin

text \<open>
  The episodes of a project that are cut from its source text, from \<open>src/lib/episode/episode_sources.py\<close>
  and \<open>src/lib/episode/episode_ledger.py\<close>: the entries of the ledger, where each says it was cut, the
  placement of the cuts on the files, the text of a cut, and the unsplit text between cuts.
  \<open>unicodedata.normalize("NFC", path)\<close> is the parameter \<open>nfc\<close>.
\<close>

section \<open>Ledger entries\<close>

record source_doc =
  rel_path :: string
  doc_text :: source_text

text \<open>A range of the source. The ledger gives integers; a placed range has natural numbers.\<close>

record 'n source_span =
  span_file :: string
  span_start :: 'n
  span_end_file :: string
  span_end :: 'n

datatype source_origin = Whole_source | Own_source | No_source

definition parse_episode_num :: "json \<Rightarrow> int option" where
  "parse_episode_num value =
     (case value of JInt k \<Rightarrow> Some k | JStr s \<Rightarrow> (if py_isdigit s then py_int s else None) | _ \<Rightarrow> None)"

definition parse_positive_episode_num :: "json \<Rightarrow> int option" where
  "parse_positive_episode_num value =
     (case parse_episode_num value of Some n \<Rightarrow> (if 0 < n then Some n else None) | None \<Rightarrow> None)"

text \<open>\<open>d.get(k)\<close>: \<open>None\<close> is also the answer for a missing key.\<close>

definition dict_get :: "string \<Rightarrow> json \<Rightarrow> json" where
  "dict_get k d = (case member k d of Some v \<Rightarrow> v | None \<Rightarrow> JNull)"

definition is_mapping :: "json \<Rightarrow> bool" where
  "is_mapping v = (case v of JObj _ \<Rightarrow> True | _ \<Rightarrow> False)"

definition entries :: "json \<Rightarrow> json list" where
  "entries project = (case dict_get ''episodes'' project of JArr es \<Rightarrow> filter is_mapping es | _ \<Rightarrow> [])"

definition episode_source_origin :: "json \<Rightarrow> source_origin" where
  "episode_source_origin entry =
     (let raw = dict_get ''source_origin'' entry in
      if raw = JStr ''whole_source'' then Whole_source
      else if raw = JStr ''own'' then Own_source
      else if raw = JStr ''none'' then No_source
      else if dict_get ''source_range'' entry \<noteq> JNull then Whole_source else No_source)"

definition is_cut_episode :: "json \<Rightarrow> bool" where
  "is_cut_episode entry = (episode_source_origin entry = Whole_source)"

definition parse_source_range :: "json \<Rightarrow> int source_span option" where
  "parse_source_range entry =
     (let source_range = dict_get ''source_range'' entry in
      if \<not> is_mapping source_range then None
      else case (dict_get ''source_file'' source_range,
                 case member ''end_file'' source_range of Some f \<Rightarrow> f | None \<Rightarrow> dict_get ''source_file'' source_range,
                 dict_get ''start'' source_range, dict_get ''end'' source_range) of
             (JStr rel, JStr end_file, JInt start, JInt end) \<Rightarrow>
               Some \<lparr>span_file = rel, span_start = start, span_end_file = end_file, span_end = end\<rparr>
           | _ \<Rightarrow> None)"

definition source_range_value :: "string \<Rightarrow> int \<Rightarrow> string \<Rightarrow> int \<Rightarrow> json" where
  "source_range_value source_file start end_file end =
     JObj ([(''source_file'', JStr source_file), (''start'', JInt start), (''end'', JInt end)]
       @ (if end_file \<noteq> source_file then [(''end_file'', JStr end_file)] else []))"

definition well_formed_ledger_entries :: "json \<Rightarrow> json list option" where
  "well_formed_ledger_entries project =
     (case dict_get ''episodes'' project of
        JArr raw \<Rightarrow>
          if \<not> list_all is_mapping raw then None
          else let nums = map (\<lambda>entry. parse_positive_episode_num (dict_get ''episode'' entry)) raw in
               if None \<in> set nums \<or> \<not> distinct nums then None else Some raw
      | _ \<Rightarrow> None)"

definition legacy_cut_episode_ids :: "json \<Rightarrow> int list" where
  "legacy_cut_episode_ids project =
     List.map_filter (\<lambda>entry.
       if is_cut_episode entry \<and> parse_source_range entry = None
       then parse_positive_episode_num (dict_get ''episode'' entry) else None) (entries project)"

section \<open>Placements\<close>

record cut_placement =
  cp_episode :: int
  file_index :: nat
  cp_start :: nat
  end_file_index :: nat
  cp_end :: nat

definition cp_position :: "cut_placement \<Rightarrow> nat \<times> nat" where
  "cp_position p = (file_index p, cp_start p)"

definition cp_end_position :: "cut_placement \<Rightarrow> nat \<times> nat" where
  "cp_end_position p = (end_file_index p, cp_end p)"

definition portion :: "cut_placement \<Rightarrow> nat \<Rightarrow> nat \<Rightarrow> (nat \<times> nat) option" where
  "portion p index len =
     (if \<not> (file_index p \<le> index \<and> index \<le> end_file_index p) then None
      else Some (if index = file_index p then cp_start p else 0, if index = end_file_index p then cp_end p else len))"

definition placement_text :: "source_doc list \<Rightarrow> cut_placement \<Rightarrow> source_text" where
  "placement_text docs p =
     concat (map (\<lambda>index.
       let text = doc_text (docs ! index) in
       case portion p index (length text) of Some (lo, hi) \<Rightarrow> slice lo hi text | None \<Rightarrow> [])
     [file_index p..<Suc (end_file_index p)])"

text \<open>\<open>{nfc(doc.rel_path): index}\<close>: of two files with one path the later one counts.\<close>

definition file_order :: "(string \<Rightarrow> string) \<Rightarrow> source_doc list \<Rightarrow> string \<Rightarrow> nat option" where
  "file_order nfc docs = map_of (rev (zip (map (\<lambda>d. nfc (rel_path d)) docs) [0..<length docs]))"

definition cut_candidate :: "(string \<Rightarrow> string) \<Rightarrow> source_doc list \<Rightarrow> json \<Rightarrow> cut_placement option" where
  "cut_candidate nfc docs entry =
     (case (parse_positive_episode_num (dict_get ''episode'' entry), parse_source_range entry) of
        (Some episode, Some rng) \<Rightarrow>
          if \<not> is_cut_episode entry then None
          else (case (file_order nfc docs (nfc (span_file rng)), file_order nfc docs (nfc (span_end_file rng))) of
                  (Some first, Some final) \<Rightarrow>
                    if final < first then None
                    else if span_start rng < 0 \<or> int (length (doc_text (docs ! first))) < span_start rng \<or> span_end rng < 0 then None
                    else if first = final \<and> span_end rng < span_start rng then None
                    else Some \<lparr>cp_episode = episode, file_index = first, cp_start = nat (span_start rng),
                               end_file_index = final, cp_end = min (nat (span_end rng)) (length (doc_text (docs ! final)))\<rparr>
                | _ \<Rightarrow> None)
      | _ \<Rightarrow> None)"

definition place_cut :: "cut_placement \<Rightarrow> (int \<times> cut_placement) list \<times> nat \<times> nat \<Rightarrow> (int \<times> cut_placement) list \<times> nat \<times> nat" where
  "place_cut item st =
     (case st of (placed, cursor) \<Rightarrow>
        if cp_position item < cursor \<or> cp_episode item \<in> fst ` set placed then (placed, cursor)
        else (placed @ [(cp_episode item, item)], cp_end_position item))"

definition cut_episode_placements :: "(string \<Rightarrow> string) \<Rightarrow> json \<Rightarrow> source_doc list \<Rightarrow> (int \<times> cut_placement) list" where
  "cut_episode_placements nfc project docs =
     fst (fold place_cut
       (sort_key (\<lambda>p. (cp_position p, cp_end_position p)) (List.map_filter (cut_candidate nfc docs) (entries project)))
       ([], (0, 0)))"

definition placement_spans :: "source_doc list \<Rightarrow> (int \<times> cut_placement) list \<Rightarrow> (int \<times> nat source_span) list" where
  "placement_spans docs placements =
     map (\<lambda>(episode, p). (episode,
       \<lparr>span_file = rel_path (docs ! file_index p), span_start = cp_start p,
        span_end_file = rel_path (docs ! end_file_index p), span_end = cp_end p\<rparr>)) placements"

section \<open>Unsplit text\<close>

fun unsplit_loop :: "nat \<Rightarrow> nat \<Rightarrow> cut_placement list \<Rightarrow> nat \<Rightarrow> (nat \<times> nat) option" where
  "unsplit_loop index end [] ends_before = Some (ends_before, end)"
| "unsplit_loop index end (p # ps) ends_before =
     (if \<not> (file_index p \<le> index \<and> index \<le> end_file_index p) then unsplit_loop index end ps ends_before
      else let low = (if file_index p = index then cp_start p else 0);
               high = (if end_file_index p = index then Some (cp_end p) else None) in
           if low < end \<and> (case high of None \<Rightarrow> True | Some h \<Rightarrow> end < h) then None
           else unsplit_loop index end ps
                  (case high of Some h \<Rightarrow> (if h \<le> end then max ends_before h else ends_before) | None \<Rightarrow> ends_before))"

definition unsplit_range_ending_at :: "(int \<times> cut_placement) list \<Rightarrow> nat \<Rightarrow> nat \<Rightarrow> (nat \<times> nat) option" where
  "unsplit_range_ending_at placements index end = unsplit_loop index end (map snd placements) 0"

text \<open>The first position of the ledger at which \<open>next(...)\<close> finds the episode; it raises \<open>StopIteration\<close> otherwise.\<close>

definition entry_index :: "json list \<Rightarrow> int \<Rightarrow> nat option" where
  "entry_index es episode =
     find_pos (\<lambda>entry. is_mapping entry \<and> parse_positive_episode_num (dict_get ''episode'' entry) = Some episode) es"

definition last_cut_index :: "json list \<Rightarrow> nat" where
  "last_cut_index es =
     (case find_pos (\<lambda>entry. is_mapping entry \<and> is_cut_episode entry) (rev es) of
        Some k \<Rightarrow> length es - k
      | None \<Rightarrow> length es)"

definition cut_insert_index :: "json list \<Rightarrow> (int \<times> cut_placement) list \<Rightarrow> nat \<times> nat \<Rightarrow> nat option" where
  "cut_insert_index es placements position =
     (let ordered = sort_key cp_position (map snd placements);
          before = filter (\<lambda>p. cp_position p < position) ordered;
          after = filter (\<lambda>p. position \<le> cp_position p) ordered in
      if before \<noteq> [] then map_option Suc (entry_index es (cp_episode (last before)))
      else if after \<noteq> [] then entry_index es (cp_episode (hd after))
      else Some (last_cut_index es))"

definition planning_start :: "(string \<Rightarrow> string) \<Rightarrow> json \<Rightarrow> source_doc list \<Rightarrow> (string \<times> int) option" where
  "planning_start nfc project docs =
     (let latest = fold (\<lambda>entry latest.
            if \<not> is_cut_episode entry then latest
            else case parse_source_range entry of
                   None \<Rightarrow> latest
                 | Some rng \<Rightarrow>
                     (case file_order nfc docs (nfc (span_end_file rng)) of
                        None \<Rightarrow> latest
                      | Some index \<Rightarrow>
                          (case latest of
                             None \<Rightarrow> Some (index, span_end rng)
                           | Some l \<Rightarrow> if l < (index, span_end rng) then Some (index, span_end rng) else latest)))
          (entries project) None in
      case latest of
        Some (index, e) \<Rightarrow> Some (rel_path (docs ! index), e)
      | None \<Rightarrow> (case docs of [] \<Rightarrow> None | d # _ \<Rightarrow> Some (rel_path d, 0)))"

end
