(* ===== verification/Source_Remap.thy ===== *)
theory Source_Remap
  imports Source_Ledger
begin

text \<open>
  Remapping the ranges of the cut episodes when a file of the source text is edited, deleted, inserted or
  moved, from \<open>src/lib/episode/source_remap.py\<close>. \<open>Inl\<close> is the \<open>ValueError\<close> of \<open>list.index\<close> for a path
  that is not among the files; offsets are natural numbers, as placed ranges have them.
\<close>

section \<open>Files\<close>

datatype files_error = Not_in_files string

type_synonym file_span = "nat source_span"

fun mapE :: "('a \<Rightarrow> 'e + 'b) \<Rightarrow> 'a list \<Rightarrow> 'e + 'b list" where
  "mapE f [] = Inr []"
| "mapE f (x # xs) = bindE (f x) (\<lambda>y. bindE (mapE f xs) (\<lambda>ys. Inr (y # ys)))"

definition rels :: "source_doc list \<Rightarrow> string list" where
  "rels docs = map rel_path docs"

definition bases :: "source_doc list \<Rightarrow> nat list" where
  "bases docs = line_offsets (map doc_text docs)"

definition file_pos :: "source_doc list \<Rightarrow> string \<Rightarrow> files_error + nat" where
  "file_pos docs rel = (case find_pos (\<lambda>r. r = rel) (rels docs) of Some i \<Rightarrow> Inr i | None \<Rightarrow> Inl (Not_in_files rel))"

definition global_start :: "source_doc list \<Rightarrow> file_span \<Rightarrow> files_error + nat" where
  "global_start docs sp = bindE (file_pos docs (span_file sp)) (\<lambda>i. Inr (bases docs ! i + span_start sp))"

definition global_end :: "source_doc list \<Rightarrow> file_span \<Rightarrow> files_error + nat" where
  "global_end docs sp = bindE (file_pos docs (span_end_file sp)) (\<lambda>i. Inr (bases docs ! i + span_end sp))"

definition text_part :: "source_doc list \<Rightarrow> nat \<Rightarrow> nat \<Rightarrow> nat \<Rightarrow> nat \<Rightarrow> nat \<Rightarrow> source_text" where
  "text_part docs first start final end index =
     (let text = doc_text (docs ! index) in
      slice (if index = first then start else 0) (if index = final then end else length text) text)"

definition files_text :: "source_doc list \<Rightarrow> file_span \<Rightarrow> files_error + source_text" where
  "files_text docs sp =
     bindE (file_pos docs (span_file sp)) (\<lambda>first.
     bindE (file_pos docs (span_end_file sp)) (\<lambda>final.
       Inr (concat (map (text_part docs first (span_start sp) final (span_end sp)) [first..<Suc final]))))"

function start_inside :: "source_doc list \<Rightarrow> nat \<Rightarrow> nat \<Rightarrow> nat \<Rightarrow> nat \<times> nat" where
  "start_inside docs final first start =
     (if first < final \<and> length (doc_text (docs ! first)) \<le> start
      then start_inside docs final (first + 1) 0 else (first, start))"
  by pat_completeness auto
termination by (relation "measure (\<lambda>(docs, final, first, start). final - first)") auto

fun end_inside :: "source_doc list \<Rightarrow> nat \<Rightarrow> nat \<Rightarrow> nat \<Rightarrow> nat \<times> nat" where
  "end_inside docs first 0 end = (0, end)"
| "end_inside docs first (Suc final) end =
     (if first < Suc final \<and> end \<le> 0 then end_inside docs first final (length (doc_text (docs ! final)))
      else (Suc final, end))"

declare start_inside.simps [simp del]

definition normalized :: "source_doc list \<Rightarrow> file_span \<Rightarrow> files_error + file_span" where
  "normalized docs sp =
     bindE (file_pos docs (span_file sp)) (\<lambda>first0.
     bindE (file_pos docs (span_end_file sp)) (\<lambda>final0.
       let (first, start) = start_inside docs final0 first0 (span_start sp);
           (final, end) = end_inside docs first final0 (span_end sp) in
       Inr \<lparr>span_file = rels docs ! first, span_start = start, span_end_file = rels docs ! final, span_end = end\<rparr>))"

section \<open>Results\<close>

record range_remap =
  rr_episode :: int
  rr_before :: file_span
  rr_after :: "file_span option"
  text_changed :: bool

text \<open>The code points that \<open>str.strip()\<close> takes away.\<close>

definition space_point :: "nat \<Rightarrow> bool" where
  "space_point c = (9 \<le> c \<and> c \<le> 13 \<or> 28 \<le> c \<and> c \<le> 32 \<or> c \<in> {133, 160, 5760, 8232, 8233, 8239, 8287, 12288} \<or> 8192 \<le> c \<and> c \<le> 8202)"

definition strip_text :: "source_text \<Rightarrow> source_text" where
  "strip_text s = rev (dropWhile space_point (rev (dropWhile space_point s)))"

definition finish_remap :: "source_doc list \<Rightarrow> int \<Rightarrow> file_span \<Rightarrow> file_span \<Rightarrow> bool \<Rightarrow> files_error + range_remap" where
  "finish_remap docs episode before after changed =
     bindE (normalized docs after) (\<lambda>sp.
     bindE (file_pos docs (span_file sp)) (\<lambda>first.
     bindE (file_pos docs (span_end_file sp)) (\<lambda>final.
     let gone = \<lparr>rr_episode = episode, rr_before = before, rr_after = None, text_changed = True\<rparr> in
     if (final, span_end sp) \<le> (first, span_start sp) then Inr gone
     else bindE (files_text docs sp) (\<lambda>text.
       if strip_text text = [] then Inr gone
       else Inr \<lparr>rr_episode = episode, rr_before = before, rr_after = Some sp, text_changed = changed\<rparr>))))"

definition unchanged_remap :: "int \<Rightarrow> file_span \<Rightarrow> range_remap" where
  "unchanged_remap episode sp = \<lparr>rr_episode = episode, rr_before = sp, rr_after = Some sp, text_changed = False\<rparr>"

section \<open>Editing a file\<close>

definition edit_range :: "source_doc list \<Rightarrow> source_doc list \<Rightarrow> nat \<Rightarrow> text_alignment \<Rightarrow> nat set \<Rightarrow> int \<times> file_span \<Rightarrow> files_error + range_remap" where
  "edit_range docs new target alignment starts item =
     (case item of (episode, sp) \<Rightarrow>
      bindE (file_pos docs (span_file sp)) (\<lambda>first.
      bindE (file_pos docs (span_end_file sp)) (\<lambda>final.
      if \<not> (first \<le> target \<and> target \<le> final) then Inr (unchanged_remap episode sp)
      else
        let starts_here = (first = target); ends_here = (final = target);
            low = (if starts_here then span_start sp else 0);
            high = (if ends_here then span_end sp else length (doc_text (docs ! target))) in
        bindE (global_end docs sp) (\<lambda>ge.
        let include_end = (\<not> ends_here \<or> ge \<in> starts);
            changed = changed_between alignment low high (\<not> starts_here) include_end;
            new_low = map_position alignment low starts_here;
            new_high = map_position alignment high include_end in
        finish_remap new episode sp
          \<lparr>span_file = span_file sp, span_start = (if starts_here then new_low else span_start sp),
           span_end_file = span_end_file sp, span_end = (if ends_here then new_high else span_end sp)\<rparr> changed))))"

definition remap_for_edit :: "source_doc list \<Rightarrow> (int \<times> file_span) list \<Rightarrow> string \<Rightarrow> source_text \<Rightarrow> files_error + range_remap list" where
  "remap_for_edit docs spans rel new_text =
     bindE (file_pos docs rel) (\<lambda>target.
     bindE (mapE (\<lambda>(e, sp). global_start docs sp) spans) (\<lambda>starts.
     let alignment = align_texts (doc_text (docs ! target)) new_text;
         new = take target docs @ [\<lparr>rel_path = rel, doc_text = new_text\<rparr>] @ drop (target + 1) docs in
     mapE (edit_range docs new target alignment (set starts)) spans))"

section \<open>Deleting, inserting and moving a file\<close>

text \<open>
  The neighbours \<open>rels[target + 1]\<close> and \<open>rels[target - 1]\<close> are read only for a range that goes on beyond
  the file on that side.
\<close>

definition delete_range :: "source_doc list \<Rightarrow> source_doc list \<Rightarrow> nat \<Rightarrow> int \<times> file_span \<Rightarrow> files_error + range_remap" where
  "delete_range docs new target item =
     (case item of (episode, sp) \<Rightarrow>
      bindE (file_pos docs (span_file sp)) (\<lambda>first.
      bindE (file_pos docs (span_end_file sp)) (\<lambda>final.
      if \<not> (first \<le> target \<and> target \<le> final) then Inr (unchanged_remap episode sp)
      else if first = final \<or> (final < target + 1 \<and> int target - 1 < int first)
      then Inr \<lparr>rr_episode = episode, rr_before = sp, rr_after = None, text_changed = True\<rparr>
      else
        let (start_file, start) = (if first = target then (rels docs ! (target + 1), 0) else (span_file sp, span_start sp));
            (end_file, end) =
              (if final = target then (rels docs ! (target - 1), length (doc_text (docs ! (target - 1))))
               else (span_end_file sp, span_end sp)) in
        finish_remap new episode sp
          \<lparr>span_file = start_file, span_start = start, span_end_file = end_file, span_end = end\<rparr> True)))"

definition remap_for_delete :: "source_doc list \<Rightarrow> (int \<times> file_span) list \<Rightarrow> string \<Rightarrow> files_error + range_remap list" where
  "remap_for_delete docs spans rel =
     bindE (file_pos docs rel) (\<lambda>target.
       mapE (delete_range docs (filter (\<lambda>d. rel_path d \<noteq> rel) docs) target) spans)"

definition insert_range :: "source_doc list \<Rightarrow> nat \<Rightarrow> int \<times> file_span \<Rightarrow> files_error + range_remap" where
  "insert_range docs boundary item =
     (case item of (episode, sp) \<Rightarrow>
      bindE (global_start docs sp) (\<lambda>gs.
      if \<not> gs < boundary
      then Inr \<lparr>rr_episode = episode, rr_before = sp, rr_after = Some sp, text_changed = False\<rparr>
      else bindE (global_end docs sp) (\<lambda>ge.
        Inr \<lparr>rr_episode = episode, rr_before = sp, rr_after = Some sp, text_changed = (boundary < ge)\<rparr>)))"

definition remap_for_insert :: "source_doc list \<Rightarrow> (int \<times> file_span) list \<Rightarrow> nat \<Rightarrow> files_error + range_remap list" where
  "remap_for_insert docs spans index = mapE (insert_range docs (bases docs ! min index (length docs))) spans"

function kept_until :: "string list \<Rightarrow> string list \<Rightarrow> nat \<Rightarrow> nat \<Rightarrow> nat \<Rightarrow> nat \<Rightarrow> nat" where
  "kept_until old new position first final kept =
     (if kept < final \<and> position + (kept - first) + 1 < length new
         \<and> new ! (position + (kept - first) + 1) = old ! (kept + 1)
      then kept_until old new position first final (kept + 1) else kept)"
  by pat_completeness auto
termination by (relation "measure (\<lambda>(old, new, position, first, final, kept). final - kept)") auto

declare kept_until.simps [simp del]

definition move_range :: "source_doc list \<Rightarrow> source_doc list \<Rightarrow> int \<times> file_span \<Rightarrow> files_error + range_remap" where
  "move_range docs new item =
     (case item of (episode, sp) \<Rightarrow>
      bindE (file_pos docs (span_file sp)) (\<lambda>first.
      bindE (file_pos docs (span_end_file sp)) (\<lambda>final.
      bindE (file_pos new (span_file sp)) (\<lambda>position.
      let kept = kept_until (rels docs) (rels new) position first final first in
      if kept = final then Inr (unchanged_remap episode sp)
      else finish_remap new episode sp
        \<lparr>span_file = span_file sp, span_start = span_start sp, span_end_file = rels docs ! kept,
         span_end = length (doc_text (docs ! kept))\<rparr> True))))"

definition moved_order :: "source_doc list \<Rightarrow> string \<Rightarrow> nat \<Rightarrow> nat \<Rightarrow> source_doc list" where
  "moved_order docs rel new_index old_index =
     insert_at new_index (docs ! old_index) (filter (\<lambda>d. rel_path d \<noteq> rel) docs)"

definition remap_for_move :: "source_doc list \<Rightarrow> (int \<times> file_span) list \<Rightarrow> string \<Rightarrow> nat \<Rightarrow> files_error + range_remap list" where
  "remap_for_move docs spans rel new_index =
     bindE (file_pos docs rel) (\<lambda>i. mapE (move_range docs (moved_order docs rel new_index i)) spans)"

end
