(* ===== verification/Alignment_Tiling.thy ===== *)
theory Alignment_Tiling
  imports Text_Alignment
begin

text \<open>
  \<open>align_texts\<close> tiles both texts: its operations follow each other without a gap from the beginning of the
  two texts to their ends, each says truly what it is, and no two changes are neighbours.
\<close>

section \<open>Slices\<close>

lemma slice_conv: "slice i j xs = take (j - i) (drop i xs)"
  by (simp add: slice_def drop_take)

lemma length_slice [simp]: "length (slice i j xs) = min j (length xs) - i"
  by (simp add: slice_def)

lemma slice_self [simp]: "j \<le> i \<Longrightarrow> slice i j xs = []"
  by (simp add: slice_conv)

lemma slice_all [simp]: "slice 0 (length xs) xs = xs"
  by (simp add: slice_def)

lemma slice_join:
  assumes "i \<le> j" "j \<le> k"
  shows "slice i j xs @ slice j k xs = slice i k xs"
proof -
  have "take (j - i + (k - j)) (drop i xs) = take (j - i) (drop i xs) @ take (k - j) (drop j xs)"
    using assms by (subst take_add) simp
  then show ?thesis using assms by (simp add: slice_conv)
qed

lemma slice_slice: "i \<le> j \<Longrightarrow> j \<le> q - p \<Longrightarrow> slice i j (slice p q xs) = slice (p + i) (p + j) xs"
  by (simp add: slice_conv drop_take min_def add.commute)

section \<open>Shifted operations\<close>

definition shift_op :: "nat \<Rightarrow> nat \<Rightarrow> opcode \<Rightarrow> opcode" where
  "shift_op p r op = (case op of (t, i1, i2, j1, j2) \<Rightarrow> (t, i1 + p, i2 + p, j1 + r, j2 + r))"

lemma fst_shift_op [simp]: "fst (shift_op p r op) = fst op"
  by (simp add: shift_op_def split: prod.splits)

lemma align_chars_shift: "align_chars old new p r = map (shift_op p r) (get_opcodes old new)"
  by (simp add: align_chars_def shift_op_def)

lemma op_ok_slice:
  "op_ok a b (t, i1, i2, j1, j2) =
     (i1 \<le> i2 \<and> j1 \<le> j2 \<and> i2 \<le> length a \<and> j2 \<le> length b \<and>
      (case t of
         Equal \<Rightarrow> i1 < i2 \<and> slice i1 i2 a = slice j1 j2 b \<and> i2 - i1 = j2 - j1
       | Delete \<Rightarrow> i1 < i2 \<and> j1 = j2
       | Insert \<Rightarrow> i1 = i2 \<and> j1 < j2
       | Replace \<Rightarrow> i1 < i2 \<and> j1 < j2))"
  by (simp add: slice_conv split: op_tag.splits)

lemma op_ok_shift:
  assumes "op_ok (slice p q a) (slice r s b) op" "q \<le> length a" "s \<le> length b" "p \<le> q" "r \<le> s"
  shows "op_ok a b (shift_op p r op)"
proof -
  obtain t i1 i2 j1 j2 where op: "op = (t, i1, i2, j1, j2)" by (metis prod_cases5)
  have le: "i2 \<le> q - p" "j2 \<le> s - r" "i1 \<le> i2" "j1 \<le> j2" using assms by (simp_all add: op min_def)
  show ?thesis
    unfolding op shift_op_def prod.case op_ok_slice
    using assms(1) [unfolded op op_ok_slice] assms(2-5) le by (auto simp: slice_slice ac_simps split: op_tag.splits)
qed

lemma chained_shift: "chained (i, j) ops (m, n) \<Longrightarrow> chained (i + p, j + r) (map (shift_op p r) ops) (m + p, n + r)"
proof (induction ops arbitrary: i j)
  case (Cons op ops)
  then show ?case by (cases op) (simp add: shift_op_def)
qed simp

lemma separated_shift: "separated (map (shift_op p r) ops) = separated ops"
  by (induction ops rule: separated.induct) simp_all

section \<open>Lines\<close>

lemma concat_splitlines_from: "concat (splitlines_from line s) = line @ s"
  by (induction line s rule: splitlines_from.induct) simp_all

lemma concat_splitlines [simp]: "concat (splitlines s) = s"
  by (simp add: splitlines_def concat_splitlines_from)

lemma splitlines_from_not_Nil: "l \<in> set (splitlines_from line s) \<Longrightarrow> l \<noteq> []"
  by (induction line s rule: splitlines_from.induct) (auto split: if_splits)

lemma splitlines_not_Nil: "l \<in> set (splitlines s) \<Longrightarrow> l \<noteq> []"
  unfolding splitlines_def by (rule splitlines_from_not_Nil)

lemma line_offsets_from_nth:
  "i \<le> length ls \<Longrightarrow> line_offsets_from n ls ! i = n + length (concat (take i ls))"
proof (induction ls arbitrary: i n)
  case (Cons l ls)
  then show ?case by (cases i) simp_all
qed simp

lemma line_offsets_nth: "i \<le> length ls \<Longrightarrow> line_offsets ls ! i = length (concat (take i ls))"
  by (simp add: line_offsets_def line_offsets_from_nth)

lemma concat_take_mono: "i \<le> j \<Longrightarrow> length (concat (take i ls)) \<le> length (concat (take j ls))"
proof -
  assume "i \<le> j"
  then have "take j ls = take i ls @ take (j - i) (drop i ls)" by (metis le_add_diff_inverse take_add)
  then show ?thesis by simp
qed

lemma concat_take_strict:
  assumes "i < j" "j \<le> length ls" "[] \<notin> set ls"
  shows "length (concat (take i ls)) < length (concat (take j ls))"
proof -
  have "ls ! i \<noteq> []" using assms by (metis nth_mem order_less_le_trans)
  then have "length (concat (take i ls)) < length (concat (take (Suc i) ls))"
    using assms by (simp add: take_Suc_conv_app_nth)
  also have "\<dots> \<le> length (concat (take j ls))" using assms by (intro concat_take_mono) simp
  finally show ?thesis .
qed

lemma concat_slice:
  assumes "i \<le> j" "j \<le> length ls"
  shows "slice (length (concat (take i ls))) (length (concat (take j ls))) (concat ls) = concat (slice i j ls)"
proof -
  have j: "take j ls = take i ls @ slice i j ls"
    using assms slice_join [of 0 i j ls] by (simp add: slice_def [of 0])
  have "concat ls = concat (take j ls) @ concat (drop j ls)" by (metis append_take_drop_id concat_append)
  then have e: "concat ls = concat (take i ls) @ concat (slice i j ls) @ concat (drop j ls)"
    unfolding j by simp
  from j have "length (concat (take j ls)) = length (concat (take i ls)) + length (concat (slice i j ls))"
    by (metis concat_append length_append)
  then show ?thesis unfolding e slice_conv by simp
qed

section \<open>Refined operations\<close>

text \<open>What a list of operations is to cover: the texts from one pair of positions to another.\<close>

definition covers :: "'a list \<Rightarrow> 'a list \<Rightarrow> nat \<times> nat \<Rightarrow> opcode list \<Rightarrow> nat \<times> nat \<Rightarrow> bool" where
  "covers a b s ops e = (list_all (op_ok a b) ops \<and> chained s ops e \<and> separated ops)"

lemma tiling_covers: "tiling a b ops = covers a b (0, 0) ops (length a, length b)"
  by (simp add: tiling_def covers_def)

lemma covers_append_equal:
  assumes "covers a b s xs m" "covers a b m ys e" "xs \<noteq> [] \<Longrightarrow> ys \<noteq> [] \<Longrightarrow> fst (last xs) = Equal \<or> fst (hd ys) = Equal"
  shows "covers a b s (xs @ ys) e"
  using assms unfolding covers_def chained_append separated_append list_all_append by blast

lemma covers_shift:
  assumes "covers (slice p q a) (slice r s b) (0, 0) ops (q - p, s - r)" "q \<le> length a" "s \<le> length b" "p \<le> q" "r \<le> s"
  shows "covers a b (p, r) (map (shift_op p r) ops) (q, s)"
proof -
  have "list_all (op_ok a b) (map (shift_op p r) ops)"
    using assms op_ok_shift [of p q a r s b] by (auto simp: covers_def list_all_iff)
  moreover have "chained (p, r) (map (shift_op p r) ops) (q, s)"
    using assms chained_shift [of 0 0 ops "q - p" "s - r" p r] by (simp add: covers_def)
  ultimately show ?thesis using assms by (simp add: covers_def separated_shift)
qed

lemma covers_align_chars:
  assumes "p \<le> q" "r \<le> s" "q \<le> length a" "s \<le> length b"
  shows "covers a b (p, r) (align_chars (slice p q a) (slice r s b) p r) (q, s)"
proof -
  have "covers (slice p q a) (slice r s b) (0, 0) (get_opcodes (slice p q a) (slice r s b)) (q - p, s - r)"
    using get_opcodes_tile [of "slice p q a" "slice r s b"] assms by (simp add: tiling_covers min_def)
  from covers_shift [OF this] show ?thesis using assms by (simp add: align_chars_shift)
qed

text \<open>A list of operations, each replaced by operations that cover the same, covers the same.\<close>

lemma covers_concat:
  assumes "chained (i, j) ops (m, n)" "separated ops"
    and "\<And>t i1 i2 j1 j2. (t, i1, i2, j1, j2) \<in> set ops \<Longrightarrow>
      covers a b (F i1, G j1) (f (t, i1, i2, j1, j2)) (F i2, G j2) \<and> f (t, i1, i2, j1, j2) \<noteq> [] \<and>
      (t = Equal \<longrightarrow> fst (hd (f (t, i1, i2, j1, j2))) = Equal \<and> fst (last (f (t, i1, i2, j1, j2))) = Equal)"
  shows "covers a b (F i, G j) (concat (map f ops)) (F m, G n)"
  using assms
proof (induction ops arbitrary: i j)
  case Nil
  then show ?case by (simp add: covers_def)
next
  case (Cons op ops)
  obtain t i1 i2 j1 j2 where op: "op = (t, i1, i2, j1, j2)" by (metis prod_cases5)
  have at: "i1 = i" "j1 = j" "chained (i2, j2) ops (m, n)" using Cons.prems(1) op by simp_all
  have head: "covers a b (F i, G j) (f op) (F i2, G j2)" "f op \<noteq> []" "t = Equal \<longrightarrow> fst (last (f op)) = Equal"
    using Cons.prems(3) [of t i1 i2 j1 j2] op at by simp_all
  have sep: "separated ops" using Cons.prems(2) by (cases ops) simp_all
  have rest: "covers a b (F i2, G j2) (concat (map f ops)) (F m, G n)"
  proof (rule Cons.IH [OF at(3) sep])
    fix t i1 i2 j1 j2
    assume "(t, i1, i2, j1, j2) \<in> set ops"
    then show "covers a b (F i1, G j1) (f (t, i1, i2, j1, j2)) (F i2, G j2) \<and> f (t, i1, i2, j1, j2) \<noteq> [] \<and>
      (t = Equal \<longrightarrow> fst (hd (f (t, i1, i2, j1, j2))) = Equal \<and> fst (last (f (t, i1, i2, j1, j2))) = Equal)"
      by (intro Cons.prems(3)) simp
  qed
  have "fst (last (f op)) = Equal \<or> fst (hd (concat (map f ops))) = Equal" if "concat (map f ops) \<noteq> []"
  proof (cases ops)
    case Nil
    then show ?thesis using that by simp
  next
    case (Cons op' ops')
    obtain t' k1 k2 l1 l2 where op': "op' = (t', k1, k2, l1, l2)" by (metis prod_cases5)
    have "t = Equal \<or> t' = Equal" using Cons.prems(2) Cons op op' by simp
    moreover have "f op' \<noteq> [] \<and> (t' = Equal \<longrightarrow> fst (hd (f op')) = Equal)"
      using Cons.prems(3) [of t' k1 k2 l1 l2] Cons op' by simp
    ultimately show ?thesis using head(3) Cons by auto
  qed
  then show ?case using covers_append_equal [OF head(1) rest] by simp
qed

lemma op_ok_lines:
  assumes "op_ok ls ls' (t, i1, i2, j1, j2)" "[] \<notin> set ls" "[] \<notin> set ls'"
  shows "op_ok (concat ls) (concat ls')
    (t, length (concat (take i1 ls)), length (concat (take i2 ls)), length (concat (take j1 ls')), length (concat (take j2 ls')))"
proof -
  have le: "i1 \<le> i2" "j1 \<le> j2" "i2 \<le> length ls" "j2 \<le> length ls'" using assms by simp_all
  have mono: "length (concat (take i1 ls)) \<le> length (concat (take i2 ls))" "length (concat (take i2 ls)) \<le> length (concat ls)"
    "length (concat (take j1 ls')) \<le> length (concat (take j2 ls'))" "length (concat (take j2 ls')) \<le> length (concat ls')"
    using le concat_take_mono [of i2 "length ls" ls] concat_take_mono [of j2 "length ls'" ls'] by (simp_all add: concat_take_mono)
  have eq: "slice (length (concat (take i1 ls))) (length (concat (take i2 ls))) (concat ls) = concat (slice i1 i2 ls)"
    "slice (length (concat (take j1 ls'))) (length (concat (take j2 ls'))) (concat ls') = concat (slice j1 j2 ls')"
    using le by (simp_all add: concat_slice)
  have lens: "length (concat (take i2 ls)) - length (concat (take i1 ls)) = length (concat (slice i1 i2 ls))"
    "length (concat (take j2 ls')) - length (concat (take j1 ls')) = length (concat (slice j1 j2 ls'))"
    using arg_cong [OF eq(1), of length] arg_cong [OF eq(2), of length] mono by (simp_all only: length_slice min_absorb1)
  show ?thesis
    using assms mono concat_take_strict [of i1 i2 ls] concat_take_strict [of j1 j2 ls'] le
    unfolding op_ok_slice by (auto simp: eq lens split: op_tag.splits)
qed

section \<open>The changed middle\<close>

lemma refine_op_covers:
  assumes op: "op_ok (splitlines old) (splitlines new) (t, i1, i2, j1, j2)"
    and old: "old = slice p q a" "p \<le> q" "q \<le> length a" and new: "new = slice r s b" "r \<le> s" "s \<le> length b"
    and F: "F = (\<lambda>i. line_offsets (splitlines old) ! i + p)" and G: "G = (\<lambda>j. line_offsets (splitlines new) ! j + r)"
    and f: "f = refine_op old new p r (line_offsets (splitlines old)) (line_offsets (splitlines new)) (t, i1, i2, j1, j2)"
  shows "covers a b (F i1, G j1) f (F i2, G j2) \<and> f \<noteq> [] \<and> (t = Equal \<longrightarrow> fst (hd f) = Equal \<and> fst (last f) = Equal)"
proof -
  let ?x = "\<lambda>i. length (concat (take i (splitlines old)))" and ?y = "\<lambda>j. length (concat (take j (splitlines new)))"
  have nil: "[] \<notin> set (splitlines old)" "[] \<notin> set (splitlines new)" using splitlines_not_Nil by blast+
  have le: "i1 \<le> length (splitlines old)" "i2 \<le> length (splitlines old)" "j1 \<le> length (splitlines new)" "j2 \<le> length (splitlines new)"
    using op by simp_all
  have ok: "op_ok old new (t, ?x i1, ?x i2, ?y j1, ?y j2)" using op_ok_lines [OF op nil] by simp
  have FG: "F i1 = ?x i1 + p" "F i2 = ?x i2 + p" "G j1 = ?y j1 + r" "G j2 = ?y j2 + r"
    using le by (simp_all add: F G line_offsets_nth)
  have bound: "?x i1 \<le> ?x i2" "?y j1 \<le> ?y j2" "?x i2 \<le> q - p" "?y j2 \<le> s - r"
    using ok old new by (simp_all only: op_ok.simps length_slice min_absorb1)
  have single: "covers a b (F i1, G j1) [(t, F i1, F i2, G j1, G j2)] (F i2, G j2)"
    using op_ok_shift [OF ok [unfolded old new] old(3) new(3) old(2) new(2)] by (simp add: covers_def FG shift_op_def old new)
  have chars: "covers a b (F i1, G j1) (align_chars (slice (?x i1) (?x i2) old) (slice (?y j1) (?y j2) new) (F i1) (G j1)) (F i2, G j2)"
    using covers_align_chars [of "F i1" "F i2" "G j1" "G j2" a b] bound old new by (simp add: FG slice_slice add.commute)
  have cases: "f = [(t, F i1, F i2, G j1, G j2)] \<or>
      t = Replace \<and> f = align_chars (slice (?x i1) (?x i2) old) (slice (?y j1) (?y j2) new) (F i1) (G j1)"
    by (simp add: f refine_op_def Let_def F G le line_offsets_nth)
  have "align_chars (slice (?x i1) (?x i2) old) (slice (?y j1) (?y j2) new) (F i1) (G j1) \<noteq> []" if "t = Replace"
    using chars ok that by (auto simp: covers_def FG)
  then show ?thesis using cases single chars by auto
qed

lemma covers_align_middle:
  assumes "p \<le> q" "q \<le> length a" "r \<le> s" "s \<le> length b"
  shows "covers a b (p, r) (align_middle (slice p q a) (slice r s b) p r) (q, s)"
proof (cases "p < q \<and> r < s")
  case False
  then show ?thesis using assms by (auto simp: align_middle_def covers_def slice_conv)
next
  case True
  let ?old = "slice p q a" and ?new = "slice r s b"
  let ?ls = "splitlines ?old" and ?ls' = "splitlines ?new"
  have tile: "list_all (op_ok ?ls ?ls') (get_opcodes ?ls ?ls')" "chained (0, 0) (get_opcodes ?ls ?ls') (length ?ls, length ?ls')"
    "separated (get_opcodes ?ls ?ls')"
    using get_opcodes_tile [of ?ls ?ls'] by (simp_all add: tiling_def)
  let ?F = "\<lambda>i. line_offsets ?ls ! i + p" and ?G = "\<lambda>j. line_offsets ?ls' ! j + r"
  have "covers a b (?F 0, ?G 0)
      (concat (map (refine_op ?old ?new p r (line_offsets ?ls) (line_offsets ?ls')) (get_opcodes ?ls ?ls'))) (?F (length ?ls), ?G (length ?ls'))"
  proof (rule covers_concat [OF tile(2,3)])
    fix t i1 i2 j1 j2
    assume "(t, i1, i2, j1, j2) \<in> set (get_opcodes ?ls ?ls')"
    then have "op_ok ?ls ?ls' (t, i1, i2, j1, j2)" using tile(1) by (simp only: list_all_iff)
    from refine_op_covers [OF this refl assms(1,2) refl assms(3,4) refl refl refl]
    show "covers a b (?F i1, ?G j1) (refine_op ?old ?new p r (line_offsets ?ls) (line_offsets ?ls') (t, i1, i2, j1, j2)) (?F i2, ?G j2) \<and>
      refine_op ?old ?new p r (line_offsets ?ls) (line_offsets ?ls') (t, i1, i2, j1, j2) \<noteq> [] \<and>
      (t = Equal \<longrightarrow> fst (hd (refine_op ?old ?new p r (line_offsets ?ls) (line_offsets ?ls') (t, i1, i2, j1, j2))) = Equal \<and>
       fst (last (refine_op ?old ?new p r (line_offsets ?ls) (line_offsets ?ls') (t, i1, i2, j1, j2))) = Equal)" .
  qed
  moreover have "?F 0 = p" "?G 0 = r" "?F (length ?ls) = q" "?G (length ?ls') = s"
    using assms by (simp_all add: line_offsets_nth min_absorb1)
  moreover have "?old \<noteq> []" "?new \<noteq> []" using True assms by (auto simp flip: length_0_conv)
  ultimately show ?thesis by (simp add: align_middle_def Let_def)
qed

section \<open>The whole texts\<close>

lemma aligned_prefix_le: "aligned_prefix old new \<le> common_prefix old new"
proof -
  have "line_start_before old (common_prefix old new) \<le> common_prefix old new"
    using length_dropWhile_le [of "\<lambda>c. c \<noteq> newline" "rev (take (common_prefix old new) old)"]
    by (simp add: line_start_before_def min_def split: if_splits)
  then show ?thesis by (simp add: aligned_prefix_def Let_def)
qed

lemma aligned_prefix_take: "take (aligned_prefix old new) old = take (aligned_prefix old new) new"
  using common_prefix_take [of old new] aligned_prefix_le [of old new] by (metis min_def take_take)

lemma common_suffix_le: "common_suffix old new + common_prefix old new \<le> min (length old) (length new)"
proof -
  let ?m = "min (length old) (length new) - common_prefix old new"
  have "common_suffix old new \<le> ?m"
    using common_prefix_le(1) [of "take ?m (rev old)" "take ?m (rev new)"] by (simp add: common_suffix_def Let_def)
  then show ?thesis using common_prefix_le [of old new] by linarith
qed

lemma find_newline_ge: "find_newline s p = Some n \<Longrightarrow> p \<le> n"
  by (auto simp: find_newline_def Let_def split: if_splits)

lemma aligned_suffix_le: "aligned_suffix old new \<le> common_suffix old new"
proof -
  have "length old - n - 1 \<le> common_suffix old new" if "find_newline old (length old - common_suffix old new) = Some n" for n
    using find_newline_ge [OF that] by linarith
  then show ?thesis by (simp add: aligned_suffix_def Let_def split: option.splits)
qed

lemma common_suffix_take: "take (common_suffix old new) (rev old) = take (common_suffix old new) (rev new)"
proof -
  let ?m = "min (length old) (length new) - common_prefix old new"
  have "take (common_suffix old new) (take ?m (rev old)) = take (common_suffix old new) (take ?m (rev new))"
    unfolding common_suffix_def Let_def by (rule common_prefix_take)
  moreover have "common_suffix old new \<le> ?m" using common_suffix_le [of old new] by linarith
  ultimately show ?thesis by (simp add: min_def)
qed

lemma aligned_suffix_drop:
  "drop (length old - aligned_suffix old new) old = drop (length new - aligned_suffix old new) new"
proof -
  have "take (aligned_suffix old new) (rev old) = take (aligned_suffix old new) (rev new)"
    using common_suffix_take [of old new] aligned_suffix_le [of old new] by (metis min_def take_take)
  then show ?thesis by (simp add: take_rev)
qed

lemma aligned_ends:
  "aligned_prefix old new + aligned_suffix old new \<le> length old" "aligned_prefix old new + aligned_suffix old new \<le> length new"
  using common_suffix_le [of old new] aligned_prefix_le [of old new] aligned_suffix_le [of old new] by linarith+

lemma align_texts_covers: "covers old new (0, 0) (opcodes (align_texts old new)) (length old, length new)"
proof -
  let ?p = "aligned_prefix old new" and ?s = "aligned_suffix old new"
  have head: "covers old new (0, 0) (if ?p \<noteq> 0 then [(Equal, 0, ?p, 0, ?p)] else []) (?p, ?p)"
    using aligned_ends [of old new] aligned_prefix_take [of old new] by (simp add: covers_def)
  have last: "covers old new (length old - ?s, length new - ?s)
      (if ?s \<noteq> 0 then [(Equal, length old - ?s, length old, length new - ?s, length new)] else []) (length old, length new)"
    using aligned_ends [of old new] aligned_suffix_drop [of old new] by (auto simp: covers_def)
  have middle: "covers old new (?p, ?p)
      (align_middle (slice ?p (length old - ?s) old) (slice ?p (length new - ?s) new) ?p ?p) (length old - ?s, length new - ?s)"
    using aligned_ends [of old new] by (intro covers_align_middle) simp_all
  have "covers old new (?p, ?p)
      (align_middle (slice ?p (length old - ?s) old) (slice ?p (length new - ?s) new) ?p ?p @
        (if ?s \<noteq> 0 then [(Equal, length old - ?s, length old, length new - ?s, length new)] else [])) (length old, length new)"
    by (rule covers_append_equal [OF middle last]) (auto split: if_splits)
  then have "covers old new (0, 0) ((if ?p \<noteq> 0 then [(Equal, 0, ?p, 0, ?p)] else []) @
      (align_middle (slice ?p (length old - ?s) old) (slice ?p (length new - ?s) new) ?p ?p @
        (if ?s \<noteq> 0 then [(Equal, length old - ?s, length old, length new - ?s, length new)] else []))) (length old, length new)"
    by (rule covers_append_equal [OF head]) (auto split: if_splits)
  then show ?thesis by (simp only: align_texts_def Let_def text_alignment.simps)
qed

text \<open>A text and itself differ nowhere.\<close>

lemma align_middle_same: "list_all (\<lambda>op. fst op = Equal) (align_middle xs xs p r)"
proof (cases "xs = []")
  case False
  then have "splitlines xs \<noteq> []" by (metis concat.simps(1) concat_splitlines)
  then show ?thesis using False by (simp add: align_middle_def get_opcodes_same Let_def refine_op_def)
qed (simp add: align_middle_def)

lemma align_texts_same: "list_all (\<lambda>op. fst op = Equal) (opcodes (align_texts s s))"
  using align_middle_same by (simp add: align_texts_def Let_def)

end
