(* ===== verification/Remap_Files.thy ===== *)
theory Remap_Files
  imports Source_Remap Alignment_Tiling
begin

text \<open>
  Ranges on the files of the source text: where a range lies, its text as the parts of its files and as
  one piece of the whole text, and the normalized range, which is the same piece of text.
\<close>

section \<open>Placed ranges\<close>

definition file_text :: "source_doc list \<Rightarrow> nat \<Rightarrow> source_text" where
  "file_text docs i = doc_text (docs ! i)"

definition placed_at :: "source_doc list \<Rightarrow> file_span \<Rightarrow> nat \<Rightarrow> nat \<Rightarrow> bool" where
  "placed_at docs sp f l =
     (f \<le> l \<and> l < length docs \<and> rel_path (docs ! f) = span_file sp \<and> rel_path (docs ! l) = span_end_file sp
      \<and> span_start sp \<le> length (file_text docs f) \<and> span_end sp \<le> length (file_text docs l))"

text \<open>A placed range: its files are there and in order, its offsets inside them, its end not before its start.\<close>

definition placed :: "source_doc list \<Rightarrow> file_span \<Rightarrow> bool" where
  "placed docs sp =
     (case (file_pos docs (span_file sp), file_pos docs (span_end_file sp)) of
        (Inr f, Inr l) \<Rightarrow> placed_at docs sp f l \<and> (f = l \<longrightarrow> span_start sp \<le> span_end sp)
      | _ \<Rightarrow> False)"

text \<open>A range that neither starts at the end of a file it leaves nor ends at the beginning of one it enters.\<close>

definition normal_span :: "source_doc list \<Rightarrow> file_span \<Rightarrow> bool" where
  "normal_span docs sp =
     (case (file_pos docs (span_file sp), file_pos docs (span_end_file sp)) of
        (Inr f, Inr l) \<Rightarrow> f < l \<longrightarrow> span_start sp < length (file_text docs f) \<and> 0 < span_end sp
      | _ \<Rightarrow> False)"

text \<open>The points where a range starts and ends, file first.\<close>

definition start_point :: "source_doc list \<Rightarrow> file_span \<Rightarrow> nat \<times> nat" where
  "start_point docs sp = (case file_pos docs (span_file sp) of Inr f \<Rightarrow> (f, span_start sp) | Inl _ \<Rightarrow> (length docs, 0))"

definition end_point :: "source_doc list \<Rightarrow> file_span \<Rightarrow> nat \<times> nat" where
  "end_point docs sp = (case file_pos docs (span_end_file sp) of Inr l \<Rightarrow> (l, span_end sp) | Inl _ \<Rightarrow> (length docs, 0))"

definition in_order :: "source_doc list \<Rightarrow> file_span list \<Rightarrow> bool" where
  "in_order docs sps = sorted_wrt (\<lambda>x y. end_point docs x \<le> start_point docs y) sps"

lemma find_pos_distinct: "distinct xs \<Longrightarrow> i < length xs \<Longrightarrow> find_pos (\<lambda>r. r = xs ! i) xs = Some i"
proof (induction xs arbitrary: i)
  case (Cons x xs)
  then show ?case by (cases i) auto
qed simp

lemma file_pos_nth: "distinct (rels docs) \<Longrightarrow> i < length docs \<Longrightarrow> file_pos docs (rel_path (docs ! i)) = Inr i"
  using find_pos_distinct [of "rels docs" i] by (simp add: file_pos_def rels_def)

lemma file_posD: "file_pos docs r = Inr i \<Longrightarrow> i < length docs \<and> rel_path (docs ! i) = r"
  using find_pos_SomeD [of "\<lambda>x. x = r" "rels docs" i]
  by (auto simp: file_pos_def rels_def split: option.splits)

lemma file_pos_member: "distinct (rels docs) \<Longrightarrow> r \<in> set (rels docs) \<Longrightarrow> \<exists>i<length docs. rel_path (docs ! i) = r \<and> file_pos docs r = Inr i"
  by (auto simp: rels_def in_set_conv_nth file_pos_nth [unfolded rels_def])

lemma placed_at_pos:
  assumes "distinct (rels docs)" "placed_at docs sp f l"
  shows "file_pos docs (span_file sp) = Inr f" "file_pos docs (span_end_file sp) = Inr l"
  using assms file_pos_nth [of docs f] file_pos_nth [of docs l] by (auto simp: placed_at_def)

lemma placedE:
  assumes "placed docs sp"
  obtains f l where "placed_at docs sp f l" "f = l \<longrightarrow> span_start sp \<le> span_end sp"
    "file_pos docs (span_file sp) = Inr f" "file_pos docs (span_end_file sp) = Inr l"
  using assms by (auto simp: placed_def split: sum.splits)

lemma placed_atI:
  "distinct (rels docs) \<Longrightarrow> placed_at docs sp f l \<Longrightarrow> f = l \<longrightarrow> span_start sp \<le> span_end sp \<Longrightarrow> placed docs sp"
  by (simp add: placed_def placed_at_pos)

section \<open>The text of a range\<close>

definition range_text :: "source_doc list \<Rightarrow> nat \<Rightarrow> nat \<Rightarrow> nat \<Rightarrow> nat \<Rightarrow> source_text" where
  "range_text docs f s l e = concat (map (text_part docs f s l e) [f..<Suc l])"

lemma files_text_at:
  "distinct (rels docs) \<Longrightarrow> placed_at docs sp f l \<Longrightarrow> files_text docs sp = Inr (range_text docs f (span_start sp) l (span_end sp))"
  by (simp add: files_text_def placed_at_pos range_text_def)

definition base :: "source_doc list \<Rightarrow> nat \<Rightarrow> nat" where
  "base docs i = length (concat (take i (map doc_text docs)))"

definition whole_text :: "source_doc list \<Rightarrow> source_text" where
  "whole_text docs = concat (map doc_text docs)"

lemma bases_nth: "i \<le> length docs \<Longrightarrow> bases docs ! i = base docs i"
  by (simp add: bases_def base_def line_offsets_nth)

lemma base_Suc: "i < length docs \<Longrightarrow> base docs (Suc i) = base docs i + length (file_text docs i)"
  by (simp add: base_def take_Suc_conv_app_nth file_text_def)

lemma base_mono: "i \<le> j \<Longrightarrow> base docs i \<le> base docs j"
  by (simp add: base_def concat_take_mono)

lemma file_slice:
  assumes "i < length docs" "s \<le> e" "e \<le> length (file_text docs i)"
  shows "slice (base docs i + s) (base docs i + e) (whole_text docs) = slice s e (file_text docs i)"
proof -
  let ?ts = "map doc_text docs"
  have "slice (base docs i) (base docs (Suc i)) (whole_text docs) = concat (slice i (Suc i) ?ts)"
    using assms(1) unfolding base_def whole_text_def by (intro concat_slice) simp_all
  also have "\<dots> = file_text docs i" using assms(1) by (simp add: slice_def file_text_def take_Suc_conv_app_nth)
  finally have "slice s e (slice (base docs i) (base docs (Suc i)) (whole_text docs)) = slice s e (file_text docs i)" by simp
  moreover have "e \<le> base docs (Suc i) - base docs i" using assms(3) base_Suc [OF assms(1)] by simp
  ultimately show ?thesis using slice_slice [OF assms(2)] by metis
qed

lemma range_text_one: "range_text docs f s f e = slice s e (file_text docs f)"
  by (simp add: range_text_def text_part_def file_text_def)

lemma range_text_more:
  assumes "f < l"
  shows "range_text docs f s l e =
    drop s (file_text docs f) @ concat (map (file_text docs) [Suc f..<l]) @ take e (file_text docs l)"
proof -
  have files: "[f..<Suc l] = f # [Suc f..<l] @ [l]" using assms by (simp add: upt_conv_Cons)
  have inner: "map (text_part docs f s l e) [Suc f..<l] = map (file_text docs) [Suc f..<l]"
    by (rule map_cong) (auto simp: text_part_def file_text_def)
  have ends: "text_part docs f s l e f = drop s (file_text docs f)" "text_part docs f s l e l = take e (file_text docs l)"
    using assms by (simp_all add: text_part_def file_text_def slice_def)
  show ?thesis unfolding range_text_def files by (simp add: inner ends del: map_eq_conv)
qed

lemma concat_files:
  "i \<le> j \<Longrightarrow> j \<le> length docs \<Longrightarrow> concat (map (file_text docs) [i..<j]) = slice (base docs i) (base docs j) (whole_text docs)"
proof (induction j)
  case (Suc j)
  show ?case
  proof (cases "i = Suc j")
    case False
    then have "concat (map (file_text docs) [i..<Suc j]) = slice (base docs i) (base docs j) (whole_text docs) @ file_text docs j"
      using Suc by simp
    also have "file_text docs j = slice (base docs j) (base docs (Suc j)) (whole_text docs)"
      using file_slice [of j docs 0 "length (file_text docs j)"] Suc.prems by (simp add: base_Suc)
    finally show ?thesis using False Suc.prems by (simp add: slice_join base_mono)
  qed simp
qed simp

text \<open>A range is one piece of the whole text.\<close>

lemma range_text_whole:
  assumes "f \<le> l" "l < length docs" "s \<le> length (file_text docs f)" "e \<le> length (file_text docs l)" "f = l \<longrightarrow> s \<le> e"
  shows "range_text docs f s l e = slice (base docs f + s) (base docs l + e) (whole_text docs)"
proof (cases "f = l")
  case True
  then show ?thesis using assms by (simp add: range_text_one file_slice)
next
  case False
  then have lt: "f < l" using assms by simp
  have "drop s (file_text docs f) = slice (base docs f + s) (base docs (Suc f)) (whole_text docs)"
    using file_slice [of f docs s "length (file_text docs f)"] assms lt by (simp add: base_Suc slice_def)
  moreover have "take e (file_text docs l) = slice (base docs l) (base docs l + e) (whole_text docs)"
    using file_slice [of l docs 0 e] assms by (simp add: slice_def)
  moreover have "base docs f + s \<le> base docs (Suc f)" "base docs (Suc f) \<le> base docs l"
    using assms lt base_Suc [of f docs] base_mono [of "Suc f" l docs] by linarith+
  ultimately show ?thesis
    using lt assms(2) by (simp add: range_text_more concat_files slice_join del: upt_Suc)
qed

section \<open>Normalized ranges\<close>

lemma start_inside_spec:
  assumes "start_inside docs l f s = (f', s')" "f \<le> l" "l < length docs" "s \<le> length (file_text docs f)"
  shows "f \<le> f' \<and> f' \<le> l \<and> s' \<le> length (file_text docs f') \<and> base docs f' + s' = base docs f + s
    \<and> (f' < l \<longrightarrow> s' < length (file_text docs f')) \<and> (f, s) \<le> (f', s') \<and> (f = l \<longrightarrow> s' = s)"
  using assms
proof (induction docs l f s arbitrary: f' s' rule: start_inside.induct)
  case (1 docs l f s)
  show ?case
  proof (cases "f < l \<and> length (doc_text (docs ! f)) \<le> s")
    case True
    then have "start_inside docs l (f + 1) 0 = (f', s')" using "1.prems"(1) by (subst (asm) start_inside.simps) simp
    from "1.IH" [OF True this] True "1.prems" show ?thesis by (auto simp: base_Suc file_text_def)
  next
    case False
    then show ?thesis using "1.prems" by (subst (asm) start_inside.simps) (auto simp: file_text_def)
  qed
qed

lemma end_inside_spec:
  assumes "end_inside docs f l e = (l', e')" "f \<le> l" "l < length docs" "e \<le> length (file_text docs l)"
  shows "f \<le> l' \<and> l' \<le> l \<and> e' \<le> length (file_text docs l') \<and> base docs l' + e' = base docs l + e
    \<and> (f < l' \<longrightarrow> 0 < e') \<and> (l', e') \<le> (l, e) \<and> (f = l \<longrightarrow> e' = e)"
  using assms
proof (induction docs f l e arbitrary: l' e' rule: end_inside.induct)
  case (2 docs f l e)
  show ?case
  proof (cases "f < Suc l \<and> e \<le> 0")
    case True
    then have "end_inside docs f l (length (doc_text (docs ! l))) = (l', e')" using "2.prems"(1) by simp
    from "2.IH" [OF True this] True "2.prems" show ?thesis by (auto simp: base_Suc file_text_def)
  next
    case False
    then have "l' = Suc l" "e' = e" using "2.prems"(1) by (auto split: if_splits)
    then show ?thesis using "2.prems" False by auto
  qed
qed simp

lemma normalized_spec:
  assumes "distinct (rels docs)" "placed_at docs sp f l"
  obtains sp' f' l' where "normalized docs sp = Inr sp'" "placed_at docs sp' f' l'" "f \<le> f'" "l' \<le> l"
    "(f, span_start sp) \<le> (f', span_start sp')" "(l', span_end sp') \<le> (l, span_end sp)"
    "f' < l' \<longrightarrow> span_start sp' < length (file_text docs f') \<and> 0 < span_end sp'"
    "range_text docs f' (span_start sp') l' (span_end sp') = range_text docs f (span_start sp) l (span_end sp)"
    "f < l \<Longrightarrow> f' = l' \<Longrightarrow> span_start sp' \<le> span_end sp'"
    "base docs f' + span_start sp' = base docs f + span_start sp" "base docs l' + span_end sp' = base docs l + span_end sp"
proof -
  have p: "f \<le> l" "l < length docs" "span_start sp \<le> length (file_text docs f)" "span_end sp \<le> length (file_text docs l)"
    using assms(2) by (simp_all add: placed_at_def)
  obtain f' s' where s: "start_inside docs l f (span_start sp) = (f', s')" by fastforce
  note S = start_inside_spec [OF s p(1-3)]
  obtain l' e' where e: "end_inside docs f' l (span_end sp) = (l', e')" by fastforce
  note E = end_inside_spec [OF e _ p(2,4)]
  let ?sp = "\<lparr>span_file = rels docs ! f', span_start = s', span_end_file = rels docs ! l', span_end = e'\<rparr>"
  have le: "f' \<le> l'" "l' \<le> l" "l' < length docs" using S E p(2) by auto
  have mono: "s' \<le> e'" if "f < l" "f' = l'"
  proof -
    have "base docs f + span_start sp \<le> base docs (Suc f)" using p that by (simp add: base_Suc)
    also have "\<dots> \<le> base docs l + span_end sp" using that base_mono [of "Suc f" l docs] by simp
    finally show ?thesis using S E that(2) by simp
  qed
  have same: "f' = f \<and> l' = l \<and> s' = span_start sp \<and> e' = span_end sp" if "f = l" using S E that by auto
  show thesis
  proof (rule that [of ?sp f' l'])
    show "normalized docs sp = Inr ?sp"
      by (simp add: normalized_def placed_at_pos [OF assms] s e)
    show "placed_at docs ?sp f' l'" using S E le p(2) by (simp add: placed_at_def rels_def)
    show "range_text docs f' (span_start ?sp) l' (span_end ?sp) = range_text docs f (span_start sp) l (span_end sp)"
    proof (cases "f = l")
      case True
      then show ?thesis using same by simp
    next
      case False
      then have "range_text docs f (span_start sp) l (span_end sp) = slice (base docs f' + s') (base docs l' + e') (whole_text docs)"
        using range_text_whole [OF p] S E by simp
      also have "\<dots> = range_text docs f' s' l' e'"
        using False mono p(1) S E le by (intro range_text_whole [symmetric]) auto
      finally show ?thesis by simp
    qed
  qed (use S E le mono same in auto)
qed

lemma strip_text_Nil: "strip_text [] = []"
  by (simp add: strip_text_def)

text \<open>\<open>_finish\<close>: nothing but white space left is no range; otherwise the normalized range, with the same text.\<close>

definition finished :: "source_doc list \<Rightarrow> nat \<Rightarrow> nat \<Rightarrow> file_span \<Rightarrow> int \<Rightarrow> file_span \<Rightarrow> bool \<Rightarrow> range_remap \<Rightarrow> bool" where
  "finished docs f l after episode before changed r =
     (let T = range_text docs f (span_start after) l (span_end after) in
      rr_episode r = episode \<and> rr_before r = before \<and> (rr_after r = None \<longleftrightarrow> strip_text T = []) \<and>
      (text_changed r \<longleftrightarrow> changed \<or> rr_after r = None) \<and>
      (case rr_after r of
         None \<Rightarrow> True
       | Some a \<Rightarrow> placed docs a \<and> normal_span docs a \<and> files_text docs a = Inr T \<and>
           global_start docs a = Inr (base docs f + span_start after) \<and> global_end docs a = Inr (base docs l + span_end after) \<and>
           (f, span_start after) \<le> start_point docs a \<and> end_point docs a \<le> (l, span_end after)))"

lemma finish_spec:
  assumes "distinct (rels docs)" "placed_at docs after f l"
  shows "\<exists>r. finish_remap docs episode before after changed = Inr r \<and> finished docs f l after episode before changed r"
proof -
  obtain a f' l' where n: "normalized docs after = Inr a" "placed_at docs a f' l'"
    "(f, span_start after) \<le> (f', span_start a)" "(l', span_end a) \<le> (l, span_end after)"
    "f' < l' \<longrightarrow> span_start a < length (file_text docs f') \<and> 0 < span_end a"
    "range_text docs f' (span_start a) l' (span_end a) = range_text docs f (span_start after) l (span_end after)"
    "f < l \<Longrightarrow> f' = l' \<Longrightarrow> span_start a \<le> span_end a"
    "base docs f' + span_start a = base docs f + span_start after" "base docs l' + span_end a = base docs l + span_end after"
    by (rule normalized_spec [OF assms]) blast
  note pos = placed_at_pos [OF assms(1) n(2)]
  let ?T = "range_text docs f (span_start after) l (span_end after)"
  let ?gone = "\<lparr>rr_episode = episode, rr_before = before, rr_after = None, text_changed = True\<rparr>"
  have tx: "files_text docs a = Inr ?T" using files_text_at [OF assms(1) n(2)] n(6) by simp
  have empty: "?T = []" if "(l', span_end a) \<le> (f', span_start a)"
  proof -
    have "f' = l'" "span_end a \<le> span_start a" using that n(2) by (auto simp: placed_at_def)
    then show ?thesis using n(6) by (simp add: range_text_one)
  qed
  show ?thesis
  proof (cases "strip_text ?T = []")
    case True
    then have gone: "finish_remap docs episode before after changed = Inr ?gone"
      by (simp add: finish_remap_def n(1) pos tx Let_def)
    then show ?thesis using True by (intro exI [of _ ?gone]) (simp add: finished_def)
  next
    case False
    then have "\<not> (l', span_end a) \<le> (f', span_start a)" using empty strip_text_Nil by metis
    then have f: "finish_remap docs episode before after changed
        = Inr \<lparr>rr_episode = episode, rr_before = before, rr_after = Some a, text_changed = changed\<rparr>"
      using False by (simp only: finish_remap_def n(1) pos tx bindE.simps Let_def if_False)
    have "placed docs a"
      using \<open>\<not> (l', span_end a) \<le> (f', span_start a)\<close> by (intro placed_atI [OF assms(1) n(2)]) auto
    moreover have "normal_span docs a" using n(5) by (simp add: normal_span_def pos)
    moreover have "start_point docs a = (f', span_start a)" "end_point docs a = (l', span_end a)"
      by (simp_all add: start_point_def end_point_def pos)
    moreover have "global_start docs a = Inr (base docs f + span_start after)" "global_end docs a = Inr (base docs l + span_end after)"
      using n(2,8,9) by (simp_all add: global_start_def global_end_def pos bases_nth placed_at_def)
    ultimately show ?thesis using False n(3,4) tx unfolding f by (simp add: finished_def)
  qed
qed

end
