(* ===== verification/Position_Map.thy ===== *)
theory Position_Map
  imports Alignment_Tiling
begin

text \<open>
  What the remapping of the episodes relies on in an alignment, as the laws of the locale \<open>position_map\<close>:
  positions keep their order, the ends of the old text become the ends of the new one, and between two
  positions with no change between them the two texts are the same. The model's alignment has them because
  its operations tile the texts.
\<close>

section \<open>The laws\<close>

locale position_map =
  fixes old :: source_text and new :: source_text
    and pos :: "nat \<Rightarrow> bool \<Rightarrow> nat" and changed :: "nat \<Rightarrow> nat \<Rightarrow> bool \<Rightarrow> bool \<Rightarrow> bool"
  assumes pos_mono: "lo \<le> hi \<Longrightarrow> hi \<le> length old \<Longrightarrow> lo < hi \<or> (s \<longrightarrow> e) \<Longrightarrow> pos lo s \<le> pos hi e"
    and pos_le: "p \<le> length old \<Longrightarrow> pos p s \<le> length new"
    and pos_first: "pos 0 False = 0"
    and pos_last: "pos (length old) True = length new"
    and unchanged: "lo \<le> hi \<Longrightarrow> hi \<le> length old \<Longrightarrow> \<not> changed lo hi (\<not> s) e \<Longrightarrow>
      slice (pos lo s) (pos hi e) new = slice lo hi old"
    and changed_same: "new = old \<Longrightarrow> \<not> changed lo hi s e"
begin

text \<open>Two ranges one behind the other stay so, whoever gets what was put at their border.\<close>

lemma ranges_in_order:
  "hi \<le> lo' \<Longrightarrow> lo' \<le> length old \<Longrightarrow> pos hi e \<le> pos lo' True"
  by (rule pos_mono) simp_all

lemma unchanged_tail: "lo \<le> length old \<Longrightarrow> \<not> changed lo (length old) (\<not> s) True \<Longrightarrow>
    drop (pos lo s) new = drop lo old"
  using unchanged [of lo "length old" s True] by (simp add: pos_last slice_def)

lemma unchanged_head: "hi \<le> length old \<Longrightarrow> \<not> changed 0 hi True e \<Longrightarrow> take (pos hi e) new = take hi old"
  using unchanged [of 0 hi False e] by (simp add: pos_first slice_def)

lemma unchanged_whole: "\<not> changed 0 (length old) True True \<longleftrightarrow> new = old"
  using unchanged_head [of "length old" True] changed_same by (auto simp: pos_last)

end

section \<open>Positions along the operations\<close>

lemma covers_Cons:
  "covers a b (i, j) ((t, i1, i2, j1, j2) # ops) e \<longleftrightarrow>
     i1 = i \<and> j1 = j \<and> op_ok a b (t, i1, i2, j1, j2) \<and> covers a b (i2, j2) ops e \<and>
     (t = Equal \<or> ops = [] \<or> fst (hd ops) = Equal)"
  by (cases ops) (auto simp: covers_def)

lemma covers_Nil [simp]: "covers a b s [] e \<longleftrightarrow> s = e"
  by (simp add: covers_def)

lemma covers_later:
  "covers a b (i, j) ops e \<Longrightarrow> (t, i1, i2, j1, j2) \<in> set ops \<Longrightarrow> i \<le> i1"
proof (induction ops arbitrary: i j)
  case (Cons op ops)
  obtain t' k1 k2 l1 l2 where op: "op = (t', k1, k2, l1, l2)" by (metis prod_cases5)
  have c: "k1 = i" "covers a b (k2, l2) ops e" "k1 \<le> k2" using Cons.prems(1) by (simp_all add: op covers_Cons)
  then show ?case using Cons.IH [OF c(2)] Cons.prems(2) op by fastforce
qed simp

definition inside_op :: "opcode \<Rightarrow> nat \<Rightarrow> nat" where
  "inside_op op p =
     (case op of (t, i1, i2, j1, j2) \<Rightarrow>
        (if t = Equal then j1 + (p - i1) else if t = Delete then j1 else j1 + (p - i1) * (j2 - j1) div (i2 - i1)))"

text \<open>Along a tiling the two loops of \<open>map_position\<close> are one: an insertion at a position comes before the operation that starts there.\<close>

lemma map_opcodes_Cons:
  assumes "covers a b (i, j) ((t, i1, i2, j1, j2) # ops) e"
  shows "map_opcodes ((t, i1, i2, j1, j2) # ops) m n p s =
    (if t = Insert \<and> i1 = p then (if s then j2 else j1)
     else if i1 \<le> p \<and> p < i2 then inside_op (t, i1, i2, j1, j2) p
     else map_opcodes ops m n p s)"
proof -
  have none: "List.find (\<lambda>(t, i1, i2, j1, j2). t = Insert \<and> i1 = p) ops = None" if "p < i2"
    using covers_later [of a b i2 j2 ops e] assms that by (fastforce simp: find_None_iff covers_Cons)
  show ?thesis
  proof (cases "t = Insert \<and> i1 = p")
    case False
    then have first: "List.find (\<lambda>(t, i1, i2, j1, j2). t = Insert \<and> i1 = p) ((t, i1, i2, j1, j2) # ops)
        = List.find (\<lambda>(t, i1, i2, j1, j2). t = Insert \<and> i1 = p) ops" by auto
    have second: "List.find (\<lambda>(t, i1, i2, j1, j2). i1 \<le> p \<and> p < i2) ((t, i1, i2, j1, j2) # ops)
        = (if i1 \<le> p \<and> p < i2 then Some (t, i1, i2, j1, j2) else List.find (\<lambda>(t, i1, i2, j1, j2). i1 \<le> p \<and> p < i2) ops)"
      by simp
    show ?thesis
    proof (cases "i1 \<le> p \<and> p < i2")
      case True
      then show ?thesis unfolding map_opcodes_def first second if_not_P [OF False] if_P [OF True]
        using none by (simp add: inside_op_def)
    next
      case outside: False
      show ?thesis unfolding map_opcodes_def first second if_not_P [OF False] if_not_P [OF outside] ..
    qed
  qed (simp add: map_opcodes_def)
qed

lemma map_opcodes_Nil: "map_opcodes [] m n p s = (if m \<le> p then n else p)"
  by (simp add: map_opcodes_def)

lemma div_part_le: "x \<le> (d::nat) \<Longrightarrow> x * y div d \<le> y"
  by (cases "d = 0") (auto intro: order_trans [OF div_le_mono [of "x * y" "d * y" d]])

lemma inside_op_bounds:
  assumes "op_ok a b (t, i1, i2, j1, j2)" "i1 \<le> p" "p < i2"
  shows "j1 \<le> inside_op (t, i1, i2, j1, j2) p" "inside_op (t, i1, i2, j1, j2) p \<le> j2"
  using assms div_part_le [of "p - i1" "i2 - i1" "j2 - j1"] by (cases t; simp add: inside_op_def; linarith)+

lemma inside_op_mono: "p \<le> q \<Longrightarrow> inside_op op p \<le> inside_op op q"
  by (auto simp: inside_op_def intro!: div_le_mono split: prod.splits)

lemma map_opcodes_bounds:
  assumes "covers a b (i, j) ops (m, n)" "i \<le> p" "p \<le> m"
  shows "j \<le> map_opcodes ops m n p s \<and> map_opcodes ops m n p s \<le> n"
  using assms
proof (induction ops arbitrary: i j)
  case Nil
  then show ?case by (simp add: map_opcodes_Nil)
next
  case (Cons op ops)
  obtain t i1 i2 j1 j2 where op: "op = (t, i1, i2, j1, j2)" by (metis prod_cases5)
  have c: "i1 = i" "j1 = j" "op_ok a b (t, i1, i2, j1, j2)" "covers a b (i2, j2) ops (m, n)"
    using Cons.prems(1) unfolding op covers_Cons by blast+
  have chain: "chained (i2, j2) ops (m, n)" "list_all (op_ok a b) ops" using c(4) by (simp_all add: covers_def)
  have le: "j2 \<le> n" using chain
  proof (induction ops arbitrary: i2 j2)
    case (Cons x xs)
    obtain t' k1 k2 l1 l2 where x: "x = (t', k1, k2, l1, l2)" by (metis prod_cases5)
    show ?case using Cons.IH [of k2 l2] Cons.prems by (simp add: x)
  qed simp
  show ?case
    using Cons.IH [OF c(4)] Cons.prems(2,3) inside_op_bounds [OF c(3), of p] c(1-3) le
    unfolding op map_opcodes_Cons [OF Cons.prems(1) [unfolded op]] by (cases "t = Insert"; auto)
qed

lemma map_opcodes_start:
  assumes "covers a b (i, j) ops (m, n)" "ops = [] \<or> fst (hd ops) \<noteq> Insert \<or> \<not> s"
  shows "map_opcodes ops m n i s = j"
proof (cases ops)
  case Nil
  then show ?thesis using assms by (simp add: map_opcodes_Nil)
next
  case (Cons op ops')
  obtain t i1 i2 j1 j2 where op: "op = (t, i1, i2, j1, j2)" by (metis prod_cases5)
  show ?thesis
    using assms op Cons by (cases t) (auto simp: map_opcodes_Cons covers_Cons inside_op_def)
qed

lemma map_opcodes_end:
  assumes "covers a b (i, j) ops (m, n)" "i \<le> m"
  shows "map_opcodes ops m n m True = n"
  using assms
proof (induction ops arbitrary: i j)
  case Nil
  then show ?case by (simp add: map_opcodes_Nil)
next
  case (Cons op ops)
  obtain t i1 i2 j1 j2 where op: "op = (t, i1, i2, j1, j2)" by (metis prod_cases5)
  have c: "i1 = i" "op_ok a b (t, i1, i2, j1, j2)" "covers a b (i2, j2) ops (m, n)" "t = Equal \<or> ops = [] \<or> fst (hd ops) = Equal"
    using Cons.prems(1) unfolding op covers_Cons by blast+
  have le: "i2 \<le> m" using c(3)
  proof (induction ops arbitrary: i2 j2)
    case (Cons x xs)
    obtain t' k1 k2 l1 l2 where x: "x = (t', k1, k2, l1, l2)" by (metis prod_cases5)
    show ?case using Cons.IH [of k2 l2] Cons.prems by (simp add: x covers_Cons)
  qed simp
  show ?case
  proof (cases "t = Insert \<and> i1 = m")
    case True
    then have "map_opcodes ops m n i2 True = j2"
      using c by (intro map_opcodes_start [OF c(3)]) auto
    then show ?thesis
      using Cons.IH [OF c(3) le] True c(2) unfolding op map_opcodes_Cons [OF Cons.prems(1) [unfolded op]] by simp
  next
    case False
    then show ?thesis
      using Cons.IH [OF c(3) le] le unfolding op map_opcodes_Cons [OF Cons.prems(1) [unfolded op]] by auto
  qed
qed

lemma map_opcodes_mono:
  assumes "covers a b (i, j) ops (m, n)" "i \<le> lo" "lo \<le> hi" "hi \<le> m" "lo < hi \<or> (s \<longrightarrow> e)"
  shows "map_opcodes ops m n lo s \<le> map_opcodes ops m n hi e"
  using assms
proof (induction ops arbitrary: i j)
  case Nil
  then show ?case by (simp add: map_opcodes_Nil)
next
  case (Cons op ops)
  obtain t i1 i2 j1 j2 where op: "op = (t, i1, i2, j1, j2)" by (metis prod_cases5)
  have c: "i1 = i" "op_ok a b (t, i1, i2, j1, j2)" "covers a b (i2, j2) ops (m, n)"
    using Cons.prems(1) unfolding op covers_Cons by blast+
  have rest: "j2 \<le> map_opcodes ops m n hi e" if "i2 \<le> hi" using map_opcodes_bounds [OF c(3) that Cons.prems(4)] by blast
  have IH: "map_opcodes ops m n lo s \<le> map_opcodes ops m n hi e" if "i2 \<le> lo"
    using Cons.IH [OF c(3) that] Cons.prems(3-5) by blast
  have ins: "t = Insert \<Longrightarrow> i1 = i2 \<and> j1 < j2" using c(2) by simp
  show ?case
    using IH rest ins Cons.prems(2-5) c(1) inside_op_mono [OF Cons.prems(3), of "(t, i1, i2, j1, j2)"]
      inside_op_bounds(2) [OF c(2), of lo]
    unfolding op map_opcodes_Cons [OF Cons.prems(1) [unfolded op]] by (cases "t = Insert"; force)
qed

section \<open>Unchanged text\<close>

definition ops_change :: "opcode list \<Rightarrow> nat \<Rightarrow> nat \<Rightarrow> bool \<Rightarrow> bool \<Rightarrow> bool" where
  "ops_change ops lo hi s e = list_ex (op_changes lo hi s e) ops"

lemma ops_change_Cons [simp]: "ops_change (op # ops) lo hi s e = (op_changes lo hi s e op \<or> ops_change ops lo hi s e)"
  by (simp add: ops_change_def)

lemma equal_slice:
  assumes "op_ok a b (Equal, i1, i2, j1, j2)" "i1 \<le> lo" "lo \<le> hi" "hi \<le> i2"
  shows "slice (j1 + (lo - i1)) (j1 + (hi - i1)) b = slice lo hi a"
proof -
  have eq: "slice i1 i2 a = slice j1 j2 b" "i2 - i1 = j2 - j1" using assms(1) unfolding op_ok_slice by simp_all
  have le: "hi - i1 \<le> j2 - j1" using diff_le_mono [OF assms(4), of i1] unfolding eq(2) .
  have "slice (lo - i1) (hi - i1) (slice i1 i2 a) = slice lo hi a"
    using assms(2-4) by (subst slice_slice) simp_all
  moreover have "slice (lo - i1) (hi - i1) (slice j1 j2 b) = slice (j1 + (lo - i1)) (j1 + (hi - i1)) b"
    using assms(2,3) by (subst slice_slice [OF _ le]) simp_all
  ultimately show ?thesis using eq(1) by simp
qed

text \<open>From an operation on that starts inside an unchanged range: nothing but equal text up to the end of the range.\<close>

lemma unchanged_rest:
  assumes "covers a b (i, j) ops (m, n)" "lo < i" "i \<le> hi" "hi \<le> m" "\<not> ops_change ops lo hi s e"
  shows "slice j (map_opcodes ops m n hi e) b = slice i hi a"
  using assms
proof (induction ops arbitrary: i j)
  case Nil
  then show ?case by (auto simp: map_opcodes_Nil)
next
  case (Cons op ops)
  obtain t i1 i2 j1 j2 where op: "op = (t, i1, i2, j1, j2)" by (metis prod_cases5)
  have c: "i1 = i" "j1 = j" "op_ok a b (t, i1, i2, j1, j2)" "covers a b (i2, j2) ops (m, n)"
    using Cons.prems(1) unfolding op covers_Cons by blast+
  show ?case
  proof (cases "i = hi")
    case True
    have "t \<noteq> Insert \<or> \<not> e" using Cons.prems(5) c(1) True by (auto simp: op op_changes_def)
    then have "map_opcodes (op # ops) m n i e = j" by (intro map_opcodes_start [OF Cons.prems(1)]) (auto simp: op)
    then show ?thesis using True by simp
  next
    case False
    then have lt: "i < hi" "\<not> op_changes lo hi s e op" "\<not> ops_change ops lo hi s e" using Cons.prems(3,5) by simp_all
    then have t: "t = Equal" "i1 < i2" using c(1,3) Cons.prems(2) by (cases t; simp add: op op_changes_def)+
    note ok = c(3) [unfolded t(1)]
    have m: "map_opcodes (op # ops) m n hi e = (if hi < i2 then j1 + (hi - i1) else map_opcodes ops m n hi e)"
      using lt(1) c(1) unfolding op map_opcodes_Cons [OF Cons.prems(1) [unfolded op]] by (simp add: t inside_op_def)
    show ?thesis
    proof (cases "hi < i2")
      case True
      then show ?thesis using equal_slice [OF ok, of i hi] lt(1) c(1,2) by (simp add: m)
    next
      case False
      have first: "slice j j2 b = slice i i2 a" using ok c(1,2) unfolding op_ok_slice by simp
      have rest: "slice j2 (map_opcodes ops m n hi e) b = slice i2 hi a"
        using False lt(3) t(2) c(1) Cons.prems(2,4) by (intro Cons.IH [OF c(4)]) simp_all
      have le: "j2 \<le> map_opcodes ops m n hi e" "j \<le> j2" "i \<le> i2" "i2 \<le> hi"
        using map_opcodes_bounds [OF c(4)] False Cons.prems(4) c by simp_all
      show ?thesis
        using slice_join [OF le(2,1), of b] slice_join [OF le(3,4), of a] False by (simp add: m first rest)
    qed
  qed
qed

lemma map_opcodes_flag:
  assumes "\<not> ops_change ops p p True e"
  shows "map_opcodes ops m n p s = map_opcodes ops m n p s'"
proof -
  have "List.find (\<lambda>(t, i1, i2, j1, j2). t = Insert \<and> i1 = p) ops = None"
    using assms by (fastforce simp: find_None_iff ops_change_def list_ex_iff op_changes_def)
  then show ?thesis by (simp add: map_opcodes_def)
qed

lemma unchanged_empty:
  assumes "covers a b (i, j) ops (m, n)" "i \<le> p" "p \<le> m" "\<not> ops_change ops p p (\<not> s) e"
  shows "map_opcodes ops m n p e \<le> map_opcodes ops m n p s"
proof (cases s)
  case True
  then show ?thesis using map_opcodes_mono [OF assms(1,2) order.refl assms(3), of e s] by simp
next
  case False
  then show ?thesis using map_opcodes_flag [of ops p e m n e s] assms(4) by simp
qed

lemma unchanged_slice:
  assumes "covers a b (i, j) ops (m, n)" "i \<le> lo" "lo < hi" "hi \<le> m" "\<not> ops_change ops lo hi (\<not> s) e"
  shows "slice (map_opcodes ops m n lo s) (map_opcodes ops m n hi e) b = slice lo hi a"
  using assms
proof (induction ops arbitrary: i j s)
  case Nil
  then show ?case by (simp add: map_opcodes_Nil)
next
  case (Cons op ops)
  obtain t i1 i2 j1 j2 where op: "op = (t, i1, i2, j1, j2)" by (metis prod_cases5)
  have c: "i1 = i" "j1 = j" "op_ok a b (t, i1, i2, j1, j2)" "covers a b (i2, j2) ops (m, n)" "t = Equal \<or> ops = [] \<or> fst (hd ops) = Equal"
    using Cons.prems(1) unfolding op covers_Cons by blast+
  note step = map_opcodes_Cons [OF Cons.prems(1) [unfolded op]]
  have rest: "\<not> ops_change ops lo hi (\<not> s) e" "\<not> op_changes lo hi (\<not> s) e op" using Cons.prems(5) by simp_all
  consider (before) "i2 \<le> lo" "t = Insert \<longrightarrow> i1 \<noteq> lo" | (inserted) "t = Insert" "i1 = lo" | (over) "lo < i2" "t \<noteq> Insert"
    using c(3) Cons.prems(2) c(1) by (cases t; force)
  then show ?case
  proof cases
    case before
    then have "map_opcodes (op # ops) m n lo s = map_opcodes ops m n lo s" "map_opcodes (op # ops) m n hi e = map_opcodes ops m n hi e"
      using c(3) Cons.prems(3) unfolding op step by (cases t; simp)+
    then show ?thesis using Cons.IH [OF c(4) before(1) Cons.prems(3,4) rest(1)] by simp
  next
    case inserted
    then have at: "i2 = lo" s using c(3) rest(2) by (auto simp: op op_changes_def)
    have "map_opcodes (op # ops) m n lo s = j2" "map_opcodes (op # ops) m n hi e = map_opcodes ops m n hi e"
      using at inserted Cons.prems(3) unfolding op step by simp_all
    moreover have "map_opcodes ops m n lo True = j2"
      using map_opcodes_start [OF c(4), of True] c(5) inserted at(1) by fastforce
    ultimately show ?thesis using Cons.IH [OF c(4), of True] Cons.prems(3,4) rest(1) at by simp
  next
    case over
    then have t: "t = Equal" using rest(2) c(1) Cons.prems(2,3) by (cases t) (auto simp: op op_changes_def)
    note ok = c(3) [unfolded t]
    have lo: "map_opcodes (op # ops) m n lo s = j1 + (lo - i1)"
      using over c(1) Cons.prems(2) unfolding op step by (simp add: t inside_op_def)
    have hi: "map_opcodes (op # ops) m n hi e = (if hi < i2 then j1 + (hi - i1) else map_opcodes ops m n hi e)"
      using over c(1) Cons.prems(2,3) unfolding op step by (simp add: t inside_op_def)
    show ?thesis
    proof (cases "hi < i2")
      case True
      then show ?thesis using equal_slice [OF ok, of lo hi] Cons.prems(2,3) c(1) by (simp add: lo hi)
    next
      case False
      have "j1 + (i2 - i1) = j2" using ok by simp
      then have first: "slice (j1 + (lo - i1)) j2 b = slice lo i2 a" "j1 + (lo - i1) \<le> j2"
        using equal_slice [OF ok, of lo i2] over(1) c(1) Cons.prems(2) by simp_all
      have tail: "slice j2 (map_opcodes ops m n hi e) b = slice i2 hi a"
        using unchanged_rest [OF c(4) over(1) _ Cons.prems(4) rest(1)] False by simp
      have le: "j2 \<le> map_opcodes ops m n hi e" "lo \<le> i2" "i2 \<le> hi"
        using map_opcodes_bounds [OF c(4)] False Cons.prems(4) over(1) by simp_all
      show ?thesis
        using slice_join [OF first(2) le(1), of b] slice_join [OF le(2,3), of a] False by (simp add: lo hi first tail)
    qed
  qed
qed

section \<open>The model's alignment\<close>

lemma lengths_align_texts [simp]:
  "old_length (align_texts old new) = length old" "new_length (align_texts old new) = length new"
  by (simp_all add: align_texts_def Let_def)

interpretation aligned: position_map old new "map_position (align_texts old new)" "changed_between (align_texts old new)"
  for old new
proof
  note tile = align_texts_covers [of old new]
  fix lo hi p :: nat and s e :: bool
  show "map_position (align_texts old new) lo s \<le> map_position (align_texts old new) hi e"
    if "lo \<le> hi" "hi \<le> length old" "lo < hi \<or> (s \<longrightarrow> e)"
    using map_opcodes_mono [OF tile _ that(1,2,3)] by (simp add: map_position_def)
  show "map_position (align_texts old new) p s \<le> length new" if "p \<le> length old"
    using map_opcodes_bounds [OF tile _ that] by (simp add: map_position_def)
  show "map_position (align_texts old new) 0 False = 0"
    using map_opcodes_start [OF tile, of False] by (simp add: map_position_def)
  show "map_position (align_texts old new) (length old) True = length new"
    using map_opcodes_end [OF tile] by (simp add: map_position_def)
  show "\<not> changed_between (align_texts old new) lo hi s e" if "new = old"
    using align_texts_same [of old] that by (auto simp: changed_between_def list_ex_iff list_all_iff op_changes_def)
  show "slice (map_position (align_texts old new) lo s) (map_position (align_texts old new) hi e) new = slice lo hi old"
    if "lo \<le> hi" "hi \<le> length old" "\<not> changed_between (align_texts old new) lo hi (\<not> s) e"
  proof (cases "lo = hi")
    case True
    then show ?thesis
      using unchanged_empty [OF tile _ that(2), of s e] that(3)
      by (simp add: map_position_def changed_between_def ops_change_def)
  next
    case False
    then show ?thesis
      using unchanged_slice [OF tile _ _ that(2), of lo s e] that(1,3)
      by (simp add: map_position_def changed_between_def ops_change_def)
  qed
qed

end
