(* ===== verification/Remap_Edit.thy ===== *)
theory Remap_Edit
  imports Remap_Files Position_Map
begin

text \<open>
  Editing a file: every range is found again, one whose text is said to be the same has the same text, and
  ranges that follow each other still do. Of the alignment only the laws of \<open>position_map\<close> are used.
\<close>

section \<open>The loop over the ranges\<close>

lemma mapE_all2:
  "(\<And>x. x \<in> set xs \<Longrightarrow> \<exists>y. f x = Inr y \<and> P x y) \<Longrightarrow> \<exists>ys. mapE f xs = Inr ys \<and> list_all2 P xs ys"
proof (induction xs)
  case (Cons x xs)
  obtain y where "f x = Inr y" "P x y" using Cons.prems [of x] by auto
  moreover obtain ys where "mapE f xs = Inr ys" "list_all2 P xs ys" using Cons.IH Cons.prems by auto
  ultimately show ?case by auto
qed simp

lemma mapE_list_all2: "mapE f xs = Inr ys \<Longrightarrow> list_all2 (\<lambda>x y. f x = Inr y) xs ys"
proof (induction xs arbitrary: ys)
  case (Cons x xs)
  then show ?case by (auto simp: bindE_Inr_iff)
qed simp

lemma map_filter_sorted_wrt:
  assumes "list_all2 (\<lambda>x y. Q x y) xs ys" "sorted_wrt R xs"
    and "\<And>x y x' y' a a'. Q x y \<Longrightarrow> Q x' y' \<Longrightarrow> R x x' \<Longrightarrow> g y = Some a \<Longrightarrow> g y' = Some a' \<Longrightarrow> S a a'"
  shows "sorted_wrt S (List.map_filter g ys)"
  using assms(1,2)
proof (induction rule: list_all2_induct)
  case (Cons x xs y ys)
  have "S a a'" if "g y = Some a" "y' \<in> set ys" "g y' = Some a'" for a y' a'
  proof -
    obtain x' where "x' \<in> set xs" "Q x' y'" using Cons.hyps(2) \<open>y' \<in> set ys\<close> by (metis list_all2_conv_all_nth in_set_conv_nth)
    then show ?thesis using assms(3) Cons.hyps(1) Cons.prems that by auto
  qed
  then show ?case using Cons by (auto simp: List.map_filter_def split: option.splits)
qed (simp add: List.map_filter_def)

lemma range_text_cong:
  "(\<And>i. f \<le> i \<Longrightarrow> i \<le> l \<Longrightarrow> file_text docs i = file_text docs' i) \<Longrightarrow> range_text docs f s l e = range_text docs' f s l e"
  unfolding range_text_def text_part_def file_text_def by (intro arg_cong [of _ _ concat] map_cong) auto

section \<open>The edited files\<close>

definition edited :: "source_doc list \<Rightarrow> string \<Rightarrow> source_text \<Rightarrow> source_doc list" where
  "edited docs rel new_text = map (\<lambda>d. if rel_path d = rel then d\<lparr>doc_text := new_text\<rparr> else d) docs"

lemma edited_rels [simp]: "rels (edited docs rel new_text) = rels docs" "length (edited docs rel new_text) = length docs"
  by (simp_all add: edited_def rels_def)

lemma edited_file:
  assumes "distinct (rels docs)" "file_pos docs rel = Inr t" "i < length docs"
  shows "file_text (edited docs rel new_text) i = (if i = t then new_text else file_text docs i)"
    and "rel_path (edited docs rel new_text ! i) = rel_path (docs ! i)"
proof -
  have "rel_path (docs ! i) = rel \<longleftrightarrow> i = t"
    using assms file_posD [OF assms(2)] by (auto simp: rels_def distinct_conv_nth)
  then show "file_text (edited docs rel new_text) i = (if i = t then new_text else file_text docs i)"
    "rel_path (edited docs rel new_text ! i) = rel_path (docs ! i)"
    using assms(3) by (simp_all add: edited_def file_text_def)
qed

lemma edited_update:
  assumes "distinct (rels docs)" "file_pos docs rel = Inr t"
  shows "take t docs @ [\<lparr>rel_path = rel, doc_text = new_text\<rparr>] @ drop (t + 1) docs = edited docs rel new_text"
proof -
  have t: "t < length docs" "rel_path (docs ! t) = rel" using file_posD [OF assms(2)] by auto
  have "docs[t := \<lparr>rel_path = rel, doc_text = new_text\<rparr>] = edited docs rel new_text"
  proof (rule nth_equalityI)
    fix i
    assume "i < length (docs[t := \<lparr>rel_path = rel, doc_text = new_text\<rparr>])"
    moreover have "rel_path (docs ! i) = rel \<longleftrightarrow> i = t" if "i < length docs"
      using assms(1) t that by (auto simp: rels_def distinct_conv_nth)
    ultimately show "docs[t := \<lparr>rel_path = rel, doc_text = new_text\<rparr>] ! i = edited docs rel new_text ! i"
      by (auto simp: edited_def nth_list_update)
  qed simp
  then show ?thesis using t(1) by (simp add: upd_conv_take_nth_drop)
qed

section \<open>One range\<close>

text \<open>The file lies in the range; the range's text with other text in place of the file's share.\<close>

definition crosses :: "source_doc list \<Rightarrow> string \<Rightarrow> file_span \<Rightarrow> bool" where
  "crosses docs rel sp =
     (case (file_pos docs (span_file sp), file_pos docs (span_end_file sp), file_pos docs rel) of
        (Inr f, Inr l, Inr t) \<Rightarrow> f \<le> t \<and> t \<le> l
      | _ \<Rightarrow> False)"

definition text_with :: "source_doc list \<Rightarrow> string \<Rightarrow> source_text \<Rightarrow> file_span \<Rightarrow> source_text" where
  "text_with docs rel share sp =
     (case (file_pos docs (span_file sp), file_pos docs (span_end_file sp)) of
        (Inr f, Inr l) \<Rightarrow>
          concat (map (\<lambda>i. if rel_path (docs ! i) = rel then share else text_part docs f (span_start sp) l (span_end sp) i) [f..<Suc l])
      | _ \<Rightarrow> [])"

text \<open>
  What an edit makes of a range: one without the file is left as it is; of one with the file, the text in
  other files stays and the file's share becomes a piece of the new text, the old share where nothing is
  said to have changed; no range is left exactly where this is white space.
\<close>

definition edit_result :: "source_doc list \<Rightarrow> string \<Rightarrow> source_text \<Rightarrow> int \<times> file_span \<Rightarrow> range_remap \<Rightarrow> bool" where
  "edit_result docs rel new_text item r =
     (let new = edited docs rel new_text; sp = snd item in
      rr_episode r = fst item \<and> rr_before r = sp \<and>
      (if \<not> crosses docs rel sp
       then rr_after r = Some sp \<and> \<not> text_changed r \<and> placed new sp \<and> files_text new sp = files_text docs sp
       else \<exists>lo hi. let T = text_with docs rel (slice lo hi new_text) sp in
              (\<not> text_changed r \<longrightarrow> files_text docs sp = Inr T) \<and>
              (case rr_after r of
                 None \<Rightarrow> text_changed r \<and> strip_text T = []
               | Some a \<Rightarrow> strip_text T \<noteq> [] \<and> placed new a \<and> files_text new a = Inr T)))"

text \<open>Where the points of a range go, before it is normalized.\<close>

definition edit_start :: "source_doc list \<Rightarrow> nat \<Rightarrow> text_alignment \<Rightarrow> file_span \<Rightarrow> nat \<times> nat" where
  "edit_start docs t al sp =
     (let (f, s) = start_point docs sp in (f, if f = t then map_position al s True else s))"

definition edit_end :: "source_doc list \<Rightarrow> nat \<Rightarrow> text_alignment \<Rightarrow> bool \<Rightarrow> file_span \<Rightarrow> nat \<times> nat" where
  "edit_end docs t al incl sp =
     (let (l, e) = end_point docs sp in (l, if l = t then map_position al e incl else e))"

text \<open>An insertion at the end of a range is its own where the range goes on beyond the file or another starts there.\<close>

definition edit_incl :: "source_doc list \<Rightarrow> nat \<Rightarrow> nat set \<Rightarrow> file_span \<Rightarrow> bool" where
  "edit_incl docs t starts sp = (let (l, e) = end_point docs sp in l \<noteq> t \<or> bases docs ! l + e \<in> starts)"

text \<open>Where a range is left, it goes from the new start to the new end.\<close>

definition edit_place :: "source_doc list \<Rightarrow> source_doc list \<Rightarrow> nat \<Rightarrow> text_alignment \<Rightarrow> nat set \<Rightarrow> file_span \<Rightarrow> range_remap \<Rightarrow> bool" where
  "edit_place docs new t al starts sp r =
     (let S = edit_start docs t al sp; E = edit_end docs t al (edit_incl docs t starts sp) sp in
      case rr_after r of
        None \<Rightarrow> True
      | Some a \<Rightarrow> S \<le> start_point new a \<and> end_point new a \<le> E
          \<and> global_start new a = Inr (base new (fst S) + snd S) \<and> global_end new a = Inr (base new (fst E) + snd E))"

lemma edit_away:
  assumes d: "distinct (rels docs)" and t: "file_pos docs rel = Inr t" and p: "placed docs sp"
    and out: "\<not> crosses docs rel sp" and new: "new = edited docs rel new_text"
  shows "edit_range docs new t al starts (episode, sp) = Inr (unchanged_remap episode sp)"
    and "edit_result docs rel new_text (episode, sp) (unchanged_remap episode sp)"
    and "edit_place docs new t al starts sp (unchanged_remap episode sp)"
proof -
  obtain f l where at: "placed_at docs sp f l" "f = l \<longrightarrow> span_start sp \<le> span_end sp"
    and pos: "file_pos docs (span_file sp) = Inr f" "file_pos docs (span_end_file sp) = Inr l"
    using p by (rule placedE)
  have fl: "f \<le> l" "l < length docs" using at(1) by (simp_all add: placed_at_def)
  have ne: "\<not> (f \<le> t \<and> t \<le> l)" using out by (simp add: crosses_def pos t)
  have dn: "distinct (rels new)" "length new = length docs" using d by (simp_all add: new)
  have same: "file_text docs i = file_text new i" "rel_path (new ! i) = rel_path (docs ! i)" if "f \<le> i" "i \<le> l" for i
    using that edited_file [OF d t, of i new_text] ne fl by (auto simp: new)
  have atn: "placed_at new sp f l" using at(1) same [of f] same [of l] fl dn(2) by (simp add: placed_at_def)
  have pn: "placed new sp" by (rule placed_atI [OF dn(1) atn at(2)])
  have tx: "files_text new sp = files_text docs sp"
    using files_text_at [OF dn(1) atn] files_text_at [OF d at(1)] range_text_cong [OF same(1)] by simp
  show "edit_range docs new t al starts (episode, sp) = Inr (unchanged_remap episode sp)" using ne by (auto simp: edit_range_def pos)
  show "edit_result docs rel new_text (episode, sp) (unchanged_remap episode sp)"
    using out pn tx by (simp add: edit_result_def unchanged_remap_def new)
  have "f \<noteq> t" "l \<noteq> t" using ne fl(1) by auto
  moreover have "file_pos new r = file_pos docs r" for r by (simp add: file_pos_def new)
  ultimately show "edit_place docs new t al starts sp (unchanged_remap episode sp)"
    using fl dn(2) by (simp add: edit_place_def unchanged_remap_def edit_start_def edit_end_def start_point_def end_point_def
        pos global_start_def global_end_def bases_nth)
qed

lemma text_with_at:
  assumes "distinct (rels docs)" "placed_at docs sp f l" "file_pos docs rel = Inr t"
  shows "text_with docs rel share sp =
    concat (map (\<lambda>i. if i = t then share else text_part docs f (span_start sp) l (span_end sp) i) [f..<Suc l])"
proof -
  have t: "t < length docs" "rel_path (docs ! t) = rel" using file_posD [OF assms(3)] by auto
  have l: "l < length docs" using assms(2) by (simp add: placed_at_def)
  have other: "rel_path (docs ! i) = rel \<longleftrightarrow> i = t" if "i \<le> l" for i
  proof -
    have "i < length docs" using that l by simp
    then show ?thesis using assms(1) t by (auto simp: rels_def distinct_conv_nth)
  qed
  have "map (\<lambda>i. if rel_path (docs ! i) = rel then share else text_part docs f (span_start sp) l (span_end sp) i) [f..<Suc l]
      = map (\<lambda>i. if i = t then share else text_part docs f (span_start sp) l (span_end sp) i) [f..<Suc l]"
  proof (intro map_cong refl)
    fix i
    assume "i \<in> set [f..<Suc l]"
    then have "i \<le> l" by auto
    then show "(if rel_path (docs ! i) = rel then share else text_part docs f (span_start sp) l (span_end sp) i)
        = (if i = t then share else text_part docs f (span_start sp) l (span_end sp) i)" by (simp only: other)
  qed
  then show ?thesis by (simp add: text_with_def placed_at_pos [OF assms(1,2)] del: upt_Suc map_eq_conv)
qed

lemma edit_across:
  assumes d: "distinct (rels docs)" and t: "file_pos docs rel = Inr t" and p: "placed docs sp" and "crosses docs rel sp"
    and al: "al = align_texts (file_text docs t) new_text" and new: "new = edited docs rel new_text"
  shows "\<exists>r. edit_range docs new t al starts (episode, sp) = Inr r \<and> edit_result docs rel new_text (episode, sp) r \<and>
    edit_place docs new t al starts sp r \<and> (new_text = file_text docs t \<longrightarrow> text_changed r = (rr_after r = None))"
proof -
  obtain f l where at: "placed_at docs sp f l" "f = l \<longrightarrow> span_start sp \<le> span_end sp"
    and pos: "file_pos docs (span_file sp) = Inr f" "file_pos docs (span_end_file sp) = Inr l"
    using p by (rule placedE)
  have fl: "f \<le> l" "l < length docs" "span_start sp \<le> length (file_text docs f)" "span_end sp \<le> length (file_text docs l)"
    "rel_path (docs ! f) = span_file sp" "rel_path (docs ! l) = span_end_file sp" using at(1) by (simp_all add: placed_at_def)
  have across: "f \<le> t" "t \<le> l" using assms(4) by (simp_all add: crosses_def pos t)
  have dn: "distinct (rels new)" "length new = length docs" using d by (simp_all add: new)
  have ft: "file_text new i = (if i = t then new_text else file_text docs i)" "rel_path (new ! i) = rel_path (docs ! i)"
    if "i < length docs" for i using edited_file [OF d t that] by (simp_all add: new)
  define incl where "incl = edit_incl docs t starts sp"
  have incl: "incl = (l \<noteq> t \<or> bases docs ! l + span_end sp \<in> starts)"
    by (simp add: incl_def edit_incl_def end_point_def pos)
  define low where "low = (if f = t then span_start sp else 0)"
  define high where "high = (if l = t then span_end sp else length (file_text docs t))"
  define A where "A = \<lparr>span_file = span_file sp, span_start = (if f = t then map_position al low (f = t) else span_start sp),
    span_end_file = span_end_file sp, span_end = (if l = t then map_position al high incl else span_end sp)\<rparr>"
  define ch where "ch = changed_between al low high (f \<noteq> t) incl"
  let ?lo = "map_position al low (f = t)" and ?hi = "map_position al high incl"
  have run: "edit_range docs new t al starts (episode, sp) = finish_remap new episode sp A ch"
    using across by (simp add: edit_range_def pos global_end_def incl low_def high_def A_def ch_def file_text_def Let_def cong: if_cong)
  have lh: "low \<le> high" "high \<le> length (file_text docs t)" "low \<le> length (file_text docs t)"
    using across fl at(2) by (auto simp: low_def high_def)
  have atA: "placed_at new A f l"
    using fl across ft [of f] ft [of l] dn(2) aligned.pos_le [of low "file_text docs t" new_text] aligned.pos_le [of high "file_text docs t" new_text] lh
    by (auto simp: placed_at_def A_def al)
  have ends: "?lo = 0" if "f \<noteq> t" using aligned.pos_first that by (simp add: low_def al)
  have ends': "?hi = length new_text" if "l \<noteq> t" using aligned.pos_last that by (simp add: high_def incl al)
  have T: "range_text new f (span_start A) l (span_end A) = text_with docs rel (slice ?lo ?hi new_text) sp"
    unfolding range_text_def text_with_at [OF d at(1) t]
  proof (intro arg_cong [of _ _ concat] map_cong refl)
    fix i
    assume "i \<in> set [f..<Suc l]"
    then have "i < length docs" using fl(1,2) by auto
    then have "doc_text (new ! i) = (if i = t then new_text else doc_text (docs ! i))"
      using ft(1) [of i] by (simp add: file_text_def)
    then show "text_part new f (span_start A) l (span_end A) i
        = (if i = t then slice ?lo ?hi new_text else text_part docs f (span_start sp) l (span_end sp) i)"
      using ends ends' by (auto simp: text_part_def A_def Let_def)
  qed
  have same: "files_text docs sp = Inr (text_with docs rel (slice ?lo ?hi new_text) sp)" if "\<not> ch"
  proof -
    have "slice ?lo ?hi new_text = slice low high (file_text docs t)"
      using aligned.unchanged [OF lh(1,2), where s = "f = t"] that by (simp add: ch_def al)
    moreover have "slice low high (file_text docs t) = text_part docs f (span_start sp) l (span_end sp) t"
      by (simp add: text_part_def low_def high_def file_text_def Let_def)
    ultimately have "(\<lambda>i. if i = t then slice ?lo ?hi new_text else text_part docs f (span_start sp) l (span_end sp) i)
        = text_part docs f (span_start sp) l (span_end sp)" by auto
    then show ?thesis using files_text_at [OF d at(1)] by (simp add: text_with_at [OF d at(1) t] range_text_def)
  qed
  obtain r where r: "finish_remap new episode sp A ch = Inr r" "finished new f l A episode sp ch r"
    using finish_spec [OF dn(1) atA] by blast
  have "edit_start docs t al sp = (f, span_start A)" "edit_end docs t al incl sp = (l, span_end A)"
    by (simp_all add: edit_start_def edit_end_def start_point_def end_point_def pos A_def low_def high_def)
  then have "edit_place docs new t al starts sp r"
    using r(2) by (simp add: edit_place_def finished_def Let_def incl_def [symmetric] split: option.splits)
  moreover have "edit_result docs rel new_text (episode, sp) r"
  proof -
    have "(\<not> text_changed r \<longrightarrow> files_text docs sp = Inr (text_with docs rel (slice ?lo ?hi new_text) sp)) \<and>
      (case rr_after r of
         None \<Rightarrow> text_changed r \<and> strip_text (text_with docs rel (slice ?lo ?hi new_text) sp) = []
       | Some a \<Rightarrow> strip_text (text_with docs rel (slice ?lo ?hi new_text) sp) \<noteq> [] \<and> placed new a \<and>
           files_text new a = Inr (text_with docs rel (slice ?lo ?hi new_text) sp))"
      using r(2) same by (auto simp: finished_def Let_def T split: option.splits)
    moreover have "rr_episode r = episode" "rr_before r = sp" using r(2) by (simp_all add: finished_def Let_def)
    ultimately show ?thesis using assms(4) unfolding edit_result_def Let_def new [symmetric]
      by (simp only: fst_conv snd_conv not_True_eq_False if_False) blast
  qed
  moreover have "text_changed r = (rr_after r = None)" if "new_text = file_text docs t"
    using r(2) aligned.changed_same [OF that] by (simp add: finished_def Let_def ch_def al)
  ultimately show ?thesis using run r(1) by auto
qed

lemma edit_range_spec:
  assumes "distinct (rels docs)" "file_pos docs rel = Inr t" "placed docs sp"
    and "al = align_texts (file_text docs t) new_text" "new = edited docs rel new_text"
  shows "\<exists>r. edit_range docs new t al starts (episode, sp) = Inr r \<and> edit_result docs rel new_text (episode, sp) r \<and>
    edit_place docs new t al starts sp r \<and> (new_text = file_text docs t \<longrightarrow> text_changed r = (rr_after r = None))"
proof (cases "crosses docs rel sp")
  case True
  then show ?thesis by (rule edit_across [OF assms(1-3) _ assms(4,5)])
next
  case False
  note away = edit_away [OF assms(1-3) False assms(5)]
  show ?thesis by (intro exI [of _ "unchanged_remap episode sp"] conjI away) (simp add: unchanged_remap_def)
qed

lemma edit_points_in_order:
  assumes "placed docs x" "placed docs y" "end_point docs x \<le> start_point docs y" "al = align_texts (file_text docs t) new_text"
  shows "edit_end docs t al incl x \<le> edit_start docs t al y"
proof -
  obtain f l where x: "placed_at docs x f l" "file_pos docs (span_end_file x) = Inr l" using assms(1) by (rule placedE) blast
  obtain f' l' where y: "placed_at docs y f' l'" "file_pos docs (span_file y) = Inr f'" using assms(2) by (rule placedE) blast
  have le: "l < f' \<or> l = f' \<and> span_end x \<le> span_start y" using assms(3) x(2) y(2) by (auto simp: end_point_def start_point_def)
  have "map_position al (span_end x) incl \<le> map_position al (span_start y) True" if "l = t" "f' = t"
    unfolding assms(4) using le that y(1) by (intro aligned.ranges_in_order) (auto simp: placed_at_def)
  then show ?thesis using le x(2) y(2) by (auto simp: edit_end_def edit_start_def end_point_def start_point_def)
qed

section \<open>All ranges\<close>

text \<open>Ranges that meet still meet: the end of the one goes where the start of the other goes.\<close>

lemma edit_points_meet:
  assumes "end_point docs x = start_point docs y" "global_start docs y = Inr g" "g \<in> starts" "placed docs x" "placed docs y"
  shows "edit_end docs t al (edit_incl docs t starts x) x = edit_start docs t al y"
proof -
  obtain f l where y: "placed_at docs y f l" "file_pos docs (span_file y) = Inr f" using assms(5) by (rule placedE) blast
  have "bases docs ! f + span_start y \<in> starts" using assms(2,3) y by (simp add: global_start_def)
  then have "edit_incl docs t starts x" using assms(1) y(2) by (auto simp: edit_incl_def start_point_def)
  then show ?thesis using assms(1) by (simp add: edit_end_def edit_start_def split: prod.splits)
qed

lemma global_starts:
  assumes "list_all (placed docs) (map snd spans)"
  shows "\<exists>starts. mapE (\<lambda>(e, sp). global_start docs sp) spans = Inr starts \<and>
    list_all2 (\<lambda>x g. global_start docs (snd x) = Inr g) spans starts"
proof (rule mapE_all2)
  fix x
  assume "x \<in> set spans"
  then have "placed docs (snd x)" using assms by (simp add: list_all_iff)
  then show "\<exists>y. (case x of (e, sp) \<Rightarrow> global_start docs sp) = Inr y \<and> global_start docs (snd x) = Inr y"
    by (rule placedE) (cases x; simp add: global_start_def)
qed

lemma edit_all:
  assumes d: "distinct (rels docs)" and rel: "rel \<in> set (rels docs)" and p: "list_all (placed docs) (map snd spans)"
  shows "\<exists>rs t al starts. remap_for_edit docs spans rel new_text = Inr rs \<and> file_pos docs rel = Inr t \<and>
    al = align_texts (file_text docs t) new_text \<and>
    list_all2 (\<lambda>x g. global_start docs (snd x) = Inr g) spans starts \<and>
    list_all2 (\<lambda>x r. edit_result docs rel new_text x r \<and> placed docs (snd x) \<and>
      edit_place docs (edited docs rel new_text) t al (set starts) (snd x) r \<and>
      (new_text = file_text docs t \<longrightarrow> text_changed r = (rr_after r = None))) spans rs"
proof -
  obtain t where t: "file_pos docs rel = Inr t" using file_pos_member [OF d rel] by blast
  obtain starts where st: "mapE (\<lambda>(e, sp). global_start docs sp) spans = Inr starts"
    "list_all2 (\<lambda>x g. global_start docs (snd x) = Inr g) spans starts" using global_starts [OF p] by blast
  let ?al = "align_texts (file_text docs t) new_text" and ?new = "edited docs rel new_text"
  have "\<exists>rs. mapE (edit_range docs ?new t ?al (set starts)) spans = Inr rs \<and>
    list_all2 (\<lambda>x r. edit_result docs rel new_text x r \<and> placed docs (snd x) \<and>
      edit_place docs ?new t ?al (set starts) (snd x) r \<and>
      (new_text = file_text docs t \<longrightarrow> text_changed r = (rr_after r = None))) spans rs"
  proof (rule mapE_all2)
    fix x
    assume "x \<in> set spans"
    then have px: "placed docs (snd x)" using p by (simp add: list_all_iff)
    from edit_range_spec [OF d t this refl refl, of new_text "set starts" "fst x"] px
    show "\<exists>y. edit_range docs ?new t ?al (set starts) x = Inr y \<and> edit_result docs rel new_text x y \<and> placed docs (snd x) \<and>
      edit_place docs ?new t ?al (set starts) (snd x) y \<and>
      (new_text = file_text docs t \<longrightarrow> text_changed y = (rr_after y = None))" by simp
  qed
  then obtain rs where "mapE (edit_range docs ?new t ?al (set starts)) spans = Inr rs"
    "list_all2 (\<lambda>x r. edit_result docs rel new_text x r \<and> placed docs (snd x) \<and>
      edit_place docs ?new t ?al (set starts) (snd x) r \<and>
      (new_text = file_text docs t \<longrightarrow> text_changed r = (rr_after r = None))) spans rs" by blast
  moreover from this(1) have "remap_for_edit docs spans rel new_text = Inr rs"
    using t st(1) by (simp add: remap_for_edit_def edited_update [OF d t, simplified] file_text_def)
  ultimately show ?thesis using t st(2) by blast
qed

end
