(* ===== verification/Remap_Order.thy ===== *)
theory Remap_Order
  imports Remap_Edit
begin

text \<open>
  Deleting, inserting and moving a file: what is left of the text of each range, and where the ranges stand
  to each other.
\<close>

section \<open>Deleting a file\<close>

definition without_file :: "source_doc list \<Rightarrow> string \<Rightarrow> source_doc list" where
  "without_file docs rel = filter (\<lambda>d. rel_path d \<noteq> rel) docs"

text \<open>The text of a range but for the file.\<close>

definition text_outside :: "source_doc list \<Rightarrow> string \<Rightarrow> file_span \<Rightarrow> source_text" where
  "text_outside docs rel sp =
     (case (file_pos docs (span_file sp), file_pos docs (span_end_file sp)) of
        (Inr f, Inr l) \<Rightarrow>
          concat (map (text_part docs f (span_start sp) l (span_end sp))
            (filter (\<lambda>i. rel_path (docs ! i) \<noteq> rel) [f..<Suc l]))
      | _ \<Rightarrow> [])"

text \<open>
  What a deletion makes of a range: one without the file is left as it is; of one with the file, exactly
  the text in other files stays, and no range is left exactly where this is white space.
\<close>

definition delete_result :: "source_doc list \<Rightarrow> string \<Rightarrow> int \<times> file_span \<Rightarrow> range_remap \<Rightarrow> bool" where
  "delete_result docs rel item r =
     (let new = without_file docs rel; sp = snd item; T = text_outside docs rel sp in
      rr_episode r = fst item \<and> rr_before r = sp \<and> (text_changed r \<longleftrightarrow> crosses docs rel sp) \<and>
      (if \<not> crosses docs rel sp then rr_after r = Some sp \<and> placed new sp \<and> files_text new sp = files_text docs sp
       else case rr_after r of
              None \<Rightarrow> strip_text T = []
            | Some a \<Rightarrow> strip_text T \<noteq> [] \<and> placed new a \<and> files_text new a = Inr T))"

lemma without_file_at:
  assumes "distinct (rels docs)" "file_pos docs rel = Inr t"
  shows "without_file docs rel = remove_at t docs"
proof -
  have t: "t < length docs" "rel_path (docs ! t) = rel" using file_posD [OF assms(2)] by auto
  have "rel \<notin> rel_path ` set (remove_at t docs)"
    using distinct_remove_at [OF assms(1)] set_remove_at [OF assms(1), of t] t by (auto simp: rels_def map_remove_at [symmetric] simp flip: set_map)
  then have "filter (\<lambda>d. rel_path d \<noteq> rel) (remove_at t docs) = remove_at t docs" by (intro filter_True) auto
  moreover have "filter (\<lambda>d. rel_path d \<noteq> rel) (remove_at t docs) = filter (\<lambda>d. rel_path d \<noteq> rel) docs"
    using t by (intro filter_remove_at) simp_all
  ultimately show ?thesis by (simp add: without_file_def)
qed

lemma nth_remove_at: "t < length xs \<Longrightarrow> i < length xs - 1 \<Longrightarrow> remove_at t xs ! i = xs ! (if i < t then i else i + 1)"
  by (simp add: remove_at_def nth_append)

lemma rels_distinct_nth: "distinct (rels docs) \<Longrightarrow> i < length docs \<Longrightarrow> j < length docs \<Longrightarrow> rel_path (docs ! i) = rel_path (docs ! j) \<longleftrightarrow> i = j"
  by (auto simp: rels_def distinct_conv_nth)

lemma distinct_without: "distinct (rels docs) \<Longrightarrow> distinct (rels (without_file docs rel))"
  unfolding rels_def without_file_def by (rule distinct_map_filter)

lemma filter_upt_other: "f \<le> t \<Longrightarrow> t \<le> l \<Longrightarrow> filter (\<lambda>i. i \<noteq> t) [f..<Suc l] = map (\<lambda>i. if i < t then i else i + 1) [f..<l]"
proof -
  assume a: "f \<le> t" "t \<le> l"
  then have "[f..<Suc l] = [f..<t] @ [t..<Suc l]" "[t..<Suc l] = t # [Suc t..<Suc l]" and v: "[f..<l] = [f..<t] @ [t..<l]"
    using upt_add_eq_append [of f t "Suc l - t"] upt_add_eq_append [of f t "l - t"] by (simp_all add: upt_conv_Cons del: upt_Suc)
  then have u: "[f..<Suc l] = [f..<t] @ t # [Suc t..<Suc l]" by simp
  have "filter (\<lambda>i. i \<noteq> t) [Suc t..<Suc l] = map Suc [t..<l]" by (simp add: map_Suc_upt del: upt_Suc)
  moreover have "map (\<lambda>i. if i < t then i else i + 1) [t..<l] = map Suc [t..<l]" by simp
  moreover have "map (\<lambda>i. if i < t then i else i + 1) [f..<t] = [f..<t]" by (rule map_idI) simp
  moreover have "filter (\<lambda>i. i \<noteq> t) [f..<t] = [f..<t]" by (rule filter_True) simp
  ultimately show ?thesis unfolding u v by (simp del: upt_Suc)
qed

lemma text_outside_at:
  assumes "distinct (rels docs)" "placed_at docs sp f l" "file_pos docs rel = Inr t"
  shows "text_outside docs rel sp = concat (map (text_part docs f (span_start sp) l (span_end sp)) (filter (\<lambda>i. i \<noteq> t) [f..<Suc l]))"
proof -
  have t: "t < length docs" "rel_path (docs ! t) = rel" using file_posD [OF assms(3)] by auto
  have "filter (\<lambda>i. rel_path (docs ! i) \<noteq> rel) [f..<Suc l] = filter (\<lambda>i. i \<noteq> t) [f..<Suc l]"
    using assms(2) rels_distinct_nth [OF assms(1) _ t(1)] t(2) by (intro filter_cong) (auto simp: placed_at_def)
  then show ?thesis by (simp add: text_outside_def placed_at_pos [OF assms(1,2)])
qed

text \<open>Where the points of a range go.\<close>

definition delete_start :: "source_doc list \<Rightarrow> nat \<Rightarrow> file_span \<Rightarrow> nat \<times> nat" where
  "delete_start docs t sp = (let (f, s) = start_point docs sp in if f < t then (f, s) else if f = t then (t, 0) else (f - 1, s))"

definition delete_end :: "source_doc list \<Rightarrow> nat \<Rightarrow> file_span \<Rightarrow> nat \<times> nat" where
  "delete_end docs t sp =
     (let (l, e) = end_point docs sp in
      if l < t then (l, e) else if l = t then (t - 1, length (file_text docs (t - 1))) else (l - 1, e))"

definition delete_kept :: "source_doc list \<Rightarrow> string \<Rightarrow> nat \<Rightarrow> file_span \<Rightarrow> range_remap \<Rightarrow> bool" where
  "delete_kept docs rel t sp r =
     (case rr_after r of
        None \<Rightarrow> True
      | Some a \<Rightarrow> (fst (end_point docs sp) = t \<longrightarrow> fst (start_point docs sp) < t) \<and>
          delete_start docs t sp \<le> start_point (without_file docs rel) a \<and> end_point (without_file docs rel) a \<le> delete_end docs t sp)"

lemma delete_away:
  assumes d: "distinct (rels docs)" and t: "file_pos docs rel = Inr t" and p: "placed_at docs sp f l"
    and out: "\<not> (f \<le> t \<and> t \<le> l)" and new: "new = without_file docs rel"
  shows "placed_at new sp (if l < t then f else f - 1) (if l < t then l else l - 1)"
    and "files_text new sp = Inr (text_outside docs rel sp)" "files_text docs sp = Inr (text_outside docs rel sp)"
proof -
  have tt: "t < length docs" using file_posD [OF t] by simp
  have nw: "new = remove_at t docs" using without_file_at [OF d t] by (simp add: new)
  have len: "length new = length docs - 1" using tt by (simp add: nw length_remove_at)
  have fl: "f \<le> l" "l < length docs" using p by (simp_all add: placed_at_def)
  have nth: "new ! (if l < t then i else i - 1) = docs ! i" if "f \<le> i" "i \<le> l" for i
    using that out tt fl nth_remove_at [OF tt, of "if l < t then i else i - 1"] by (auto simp: nw)
  show P: "placed_at new sp (if l < t then f else f - 1) (if l < t then l else l - 1)"
    using p nth [of f] nth [of l] fl out tt len by (auto simp: placed_at_def file_text_def)
  have "filter (\<lambda>i. i \<noteq> t) [f..<Suc l] = [f..<Suc l]" using out by (intro filter_True) auto
  then have T: "text_outside docs rel sp = range_text docs f (span_start sp) l (span_end sp)"
    by (simp add: text_outside_at [OF d p t] range_text_def del: upt_Suc)
  show "files_text docs sp = Inr (text_outside docs rel sp)" using files_text_at [OF d p] by (simp add: T)
  have dn: "distinct (rels new)" using distinct_without [OF d] by (simp add: new)
  have "range_text new (if l < t then f else f - 1) (span_start sp) (if l < t then l else l - 1) (span_end sp)
      = range_text docs f (span_start sp) l (span_end sp)"
  proof (cases "l < t")
    case True
    have "file_text new i = file_text docs i" if "f \<le> i" "i \<le> l" for i using nth [OF that] True by (simp add: file_text_def)
    then show ?thesis using True range_text_cong [of f l new docs] by simp
  next
    case False
    then have ft: "t < f" using out fl by auto
    then have files: "[f..<Suc l] = map Suc [f - 1..<Suc (l - 1)]" using fl by (simp add: map_Suc_upt del: upt_Suc)
    have parts: "map (text_part new (f - 1) (span_start sp) (l - 1) (span_end sp)) [f - 1..<Suc (l - 1)]
        = map (text_part docs f (span_start sp) l (span_end sp) \<circ> Suc) [f - 1..<Suc (l - 1)]"
    proof (rule map_cong [OF refl])
      fix i
      assume "i \<in> set [f - 1..<Suc (l - 1)]"
      then have "f \<le> Suc i" "Suc i \<le> l" using ft fl by auto
      moreover have pos: "i = f - 1 \<longleftrightarrow> Suc i = f" "i = l - 1 \<longleftrightarrow> Suc i = l" using ft fl by auto
      ultimately show "text_part new (f - 1) (span_start sp) (l - 1) (span_end sp) i = (text_part docs f (span_start sp) l (span_end sp) \<circ> Suc) i"
        using nth [of "Suc i"] False ft fl by (simp add: text_part_def pos)
    qed
    show ?thesis unfolding if_not_P [OF False] range_text_def files map_map parts ..
  qed
  then show "files_text new sp = Inr (text_outside docs rel sp)" using files_text_at [OF dn P] by (simp add: T)
qed

lemma delete_across:
  assumes d: "distinct (rels docs)" and t: "file_pos docs rel = Inr t" and p: "placed_at docs sp f l"
    and across: "f \<le> t" "t \<le> l" "f < l" and new: "new = without_file docs rel"
    and A: "A = \<lparr>span_file = (if f = t then rels docs ! (t + 1) else span_file sp), span_start = (if f = t then 0 else span_start sp),
      span_end_file = (if l = t then rels docs ! (t - 1) else span_end_file sp),
      span_end = (if l = t then length (file_text docs (t - 1)) else span_end sp)\<rparr>"
  shows "placed_at new A f (l - 1)" "range_text new f (span_start A) (l - 1) (span_end A) = text_outside docs rel sp"
proof -
  have tt: "t < length docs" using file_posD [OF t] by simp
  have nw: "new = remove_at t docs" using without_file_at [OF d t] by (simp add: new)
  have len: "length new = length docs - 1" using tt by (simp add: nw length_remove_at)
  have fl: "f \<le> l" "l < length docs" using p by (simp_all add: placed_at_def)
  have nth: "new ! i = docs ! (if i < t then i else i + 1)" if "i < l" for i
    using nth_remove_at [OF tt, of i] that fl by (simp add: nw)
  show "placed_at new A f (l - 1)"
    using p nth [of f] nth [of "l - 1"] fl across len tt by (auto simp: placed_at_def file_text_def A rels_def)
  have parts: "map (text_part new f (span_start A) (l - 1) (span_end A)) [f..<l]
      = map (text_part docs f (span_start sp) l (span_end sp) \<circ> (\<lambda>i. if i < t then i else i + 1)) [f..<l]"
  proof (rule map_cong [OF refl])
    fix i
    assume "i \<in> set [f..<l]"
    then have i: "f \<le> i" "i < l" by auto
    have e: "span_start A = (if f = t then 0 else span_start sp)" "span_end A = (if l = t then length (file_text docs (t - 1)) else span_end sp)"
      by (simp_all add: A)
    show "text_part new f (span_start A) (l - 1) (span_end A) i
        = (text_part docs f (span_start sp) l (span_end sp) \<circ> (\<lambda>i. if i < t then i else i + 1)) i"
      using nth [OF i(2)] i across unfolding text_part_def e by (auto simp: file_text_def Let_def)
  qed
  have "[f..<Suc (l - 1)] = [f..<l]" using across(3) by simp
  then show "range_text new f (span_start A) (l - 1) (span_end A) = text_outside docs rel sp"
    by (simp only: range_text_def text_outside_at [OF d p t] filter_upt_other [OF across(1,2)] map_map parts)
qed

lemma delete_range_spec:
  assumes d: "distinct (rels docs)" and t: "file_pos docs rel = Inr t" and p: "placed docs sp"
  shows "\<exists>r. delete_range docs (without_file docs rel) t (episode, sp) = Inr r \<and> delete_result docs rel (episode, sp) r \<and> delete_kept docs rel t sp r"
proof -
  let ?new = "without_file docs rel"
  obtain f l where at: "placed_at docs sp f l" "f = l \<longrightarrow> span_start sp \<le> span_end sp"
    and pos: "file_pos docs (span_file sp) = Inr f" "file_pos docs (span_end_file sp) = Inr l"
    using p by (rule placedE)
  have fl: "f \<le> l" using at(1) by (simp add: placed_at_def)
  have dn: "distinct (rels ?new)" by (rule distinct_without [OF d])
  have points: "start_point docs sp = (f, span_start sp)" "end_point docs sp = (l, span_end sp)"
    by (simp_all add: start_point_def end_point_def pos)
  have cross: "crosses docs rel sp \<longleftrightarrow> f \<le> t \<and> t \<le> l" by (simp add: crosses_def pos t)
  show ?thesis
  proof (cases "f \<le> t \<and> t \<le> l")
    case False
    note away = delete_away [OF d t at(1) False refl]
    have "placed ?new sp" using away(1) at(2) fl False by (intro placed_atI [OF dn away(1)]) (auto split: if_splits)
    moreover have "start_point ?new sp = (if l < t then f else f - 1, span_start sp)" "end_point ?new sp = (if l < t then l else l - 1, span_end sp)"
      using placed_at_pos [OF dn away(1)] by (simp_all add: start_point_def end_point_def)
    moreover have "delete_range docs ?new t (episode, sp) = Inr (unchanged_remap episode sp)"
      using False by (auto simp: delete_range_def pos)
    ultimately show ?thesis
      using away(2,3) False fl
      by (auto simp: unchanged_remap_def delete_result_def delete_kept_def delete_start_def delete_end_def points cross)
  next
    case True
    show ?thesis
    proof (cases "f = l")
      case same: True
      then have "filter (\<lambda>i. i \<noteq> t) [f..<Suc l] = []" using True by simp
      then have "text_outside docs rel sp = []" by (simp add: text_outside_at [OF d at(1) t])
      then show ?thesis using True same
        by (simp add: delete_range_def pos delete_result_def delete_kept_def strip_text_Nil cross)
    next
      case False
      then have lt: "f < l" using fl by simp
      define A where "A = \<lparr>span_file = (if f = t then rels docs ! (t + 1) else span_file sp), span_start = (if f = t then 0 else span_start sp),
        span_end_file = (if l = t then rels docs ! (t - 1) else span_end_file sp),
        span_end = (if l = t then length (file_text docs (t - 1)) else span_end sp)\<rparr>"
      note across = delete_across [OF d t at(1) _ _ lt refl A_def]
      have run: "delete_range docs ?new t (episode, sp) = finish_remap ?new episode sp A True"
        using True lt by (auto simp: delete_range_def pos A_def file_text_def)
      obtain r where r: "finish_remap ?new episode sp A True = Inr r" "finished ?new f (l - 1) A episode sp True r"
        using finish_spec [OF dn across(1)] True by blast
      have T: "range_text ?new f (span_start A) (l - 1) (span_end A) = text_outside docs rel sp" using across(2) True by simp
      have "(f, span_start A) = delete_start docs t sp" "(l - 1, span_end A) = delete_end docs t sp"
        using True by (auto simp: delete_start_def delete_end_def points A_def)
      then have "delete_kept docs rel t sp r"
        using r(2) True lt by (auto simp: finished_def Let_def delete_kept_def points split: option.splits)
      moreover have "delete_result docs rel (episode, sp) r"
        using r(2) True by (auto simp: finished_def Let_def delete_result_def cross T [simplified] split: option.splits)
      ultimately show ?thesis using run r(1) by simp
    qed
  qed
qed

lemma delete_points_in_order:
  assumes "end_point docs x \<le> start_point docs y" "fst (end_point docs x) = t \<longrightarrow> fst (start_point docs x) < t"
    and "placed docs x"
  shows "delete_end docs t x \<le> delete_start docs t y"
proof -
  obtain l e where l: "end_point docs x = (l, e)" by fastforce
  obtain f' s' where f': "start_point docs y = (f', s')" by fastforce
  have "l \<noteq> t \<or> 0 < t" using assms(2) l by auto
  then show ?thesis using assms(1) l f' by (auto simp: delete_end_def delete_start_def)
qed

end
