(* ===== verification/Remap_Move.thy ===== *)
theory Remap_Move
  imports Remap_Order
begin

text \<open>
  Inserting and moving a file: which ranges the new file falls into, and how much of a range stays together.
\<close>

section \<open>Shifted files\<close>

lemma range_text_shift:
  assumes "\<And>i. i \<le> n \<Longrightarrow> file_text new (p + i) = file_text docs (f + i)"
  shows "range_text new p s (p + n) e = range_text docs f s (f + n) e"
proof -
  have u: "[q..<Suc (q + n)] = map (\<lambda>i. i + q) [0..<Suc n]" for q by (simp add: map_add_upt add.commute del: upt_Suc)
  have parts: "map (text_part new p s (p + n) e \<circ> (\<lambda>i. i + p)) [0..<Suc n] = map (text_part docs f s (f + n) e \<circ> (\<lambda>i. i + f)) [0..<Suc n]"
  proof (rule map_cong [OF refl])
    fix i
    assume "i \<in> set [0..<Suc n]"
    then have "doc_text (new ! (i + p)) = doc_text (docs ! (i + f))" using assms [of i] by (auto simp: file_text_def add.commute)
    then show "(text_part new p s (p + n) e \<circ> (\<lambda>i. i + p)) i = (text_part docs f s (f + n) e \<circ> (\<lambda>i. i + f)) i"
      by (simp add: text_part_def)
  qed
  show ?thesis unfolding range_text_def u map_map parts ..
qed

lemma range_text_head:
  assumes "f \<le> k" "k < l"
  shows "range_text docs f s l e = range_text docs f s k (length (file_text docs k)) @ concat (map (text_part docs f s l e) [Suc k..<Suc l])"
proof -
  have u: "[f..<Suc l] = [f..<Suc k] @ [Suc k..<Suc l]" using upt_add_eq_append [of f "Suc k" "l - k"] assms by (simp del: upt_Suc)
  have parts: "map (text_part docs f s l e) [f..<Suc k] = map (text_part docs f s k (length (file_text docs k))) [f..<Suc k]"
    using assms by (intro map_cong) (auto simp: text_part_def file_text_def Let_def)
  show ?thesis unfolding range_text_def u map_append concat_append parts ..
qed

section \<open>Inserting a file\<close>

definition insert_result :: "source_doc list \<Rightarrow> nat \<Rightarrow> source_doc \<Rightarrow> int \<times> file_span \<Rightarrow> range_remap \<Rightarrow> bool" where
  "insert_result docs i d item r =
     (let new = insert_at i d docs; sp = snd item in
      rr_episode r = fst item \<and> rr_before r = sp \<and> rr_after r = Some sp \<and> placed new sp \<and>
      (if text_changed r
       then \<exists>pre post start. files_text docs sp = Inr (pre @ post) \<and> files_text new sp = Inr (pre @ doc_text d @ post) \<and>
              global_start docs sp = Inr start \<and> start + length pre = bases docs ! i
       else files_text new sp = files_text docs sp))"

lemma nth_insert_at: "i \<le> length xs \<Longrightarrow> k \<le> length xs \<Longrightarrow> insert_at i x xs ! k = (if k < i then xs ! k else if k = i then x else xs ! (k - 1))"
  by (auto simp: insert_at_def nth_append min_def nth_Cons')

lemma inserted_inside:
  assumes "placed_at docs sp f l" "f < l \<longrightarrow> span_start sp < length (file_text docs f) \<and> 0 < span_end sp"
    "f = l \<longrightarrow> span_start sp \<le> span_end sp" "i \<le> length docs"
  shows "base docs f + span_start sp < base docs i \<and> base docs i < base docs l + span_end sp \<longleftrightarrow> f < i \<and> i \<le> l"
proof -
  have p: "f \<le> l" "l < length docs" "span_start sp \<le> length (file_text docs f)" "span_end sp \<le> length (file_text docs l)"
    using assms(1) by (simp_all add: placed_at_def)
  have before: "base docs i \<le> base docs f + span_start sp" if "i \<le> f" using base_mono [OF that, of docs] by simp
  have behind: "base docs l + span_end sp \<le> base docs i" if "l < i"
    using base_mono [of "Suc l" i docs] that p by (simp add: base_Suc)
  have inside: "base docs f + span_start sp < base docs i" "base docs i < base docs l + span_end sp" if "f < i" "i \<le> l"
    using base_mono [of "Suc f" i docs] base_mono [of i l docs] that p assms(2) by (simp_all add: base_Suc)
  show ?thesis using before behind inside by (meson not_le)
qed

lemma insert_range_spec:
  assumes d: "distinct (rels (insert_at i d docs))" and i: "i \<le> length docs" and p: "placed docs sp" and n: "normal_span docs sp"
  shows "\<exists>r. insert_range docs (bases docs ! i) (episode, sp) = Inr r \<and> insert_result docs i d (episode, sp) r"
proof -
  let ?new = "insert_at i d docs"
  have dd: "distinct (rels docs)" using d by (auto simp: rels_def map_insert_at distinct_insert_at)
  obtain f l where at: "placed_at docs sp f l" "f = l \<longrightarrow> span_start sp \<le> span_end sp"
    and pos: "file_pos docs (span_file sp) = Inr f" "file_pos docs (span_end_file sp) = Inr l"
    using p by (rule placedE)
  have fl: "f \<le> l" "l < length docs" using at(1) by (simp_all add: placed_at_def)
  have normal: "f < l \<longrightarrow> span_start sp < length (file_text docs f) \<and> 0 < span_end sp" using n by (simp add: normal_span_def pos)
  let ?in = "f < i \<and> i \<le> l"
  have run: "insert_range docs (bases docs ! i) (episode, sp)
      = Inr \<lparr>rr_episode = episode, rr_before = sp, rr_after = Some sp, text_changed = ?in\<rparr>"
    using inserted_inside [OF at(1) normal at(2) i] i fl
    by (auto simp: insert_range_def global_start_def global_end_def pos bases_nth)
  let ?f = "if f < i then f else f + 1" and ?l = "if l < i then l else l + 1"
  have nth: "?new ! (if k < i then k else k + 1) = docs ! k" if "k < length docs" for k
    using nth_insert_at [OF i, of "if k < i then k else k + 1" d] that by simp
  have atn: "placed_at ?new sp ?f ?l"
    using at(1) fl nth [of f] nth [of l] by (auto simp: placed_at_def file_text_def)
  have placed: "placed ?new sp" using placed_atI [OF d atn] at(2) fl by auto
  note tn = files_text_at [OF d atn] and td = files_text_at [OF dd at(1)]
  have "if ?in then \<exists>pre post start. files_text docs sp = Inr (pre @ post) \<and> files_text ?new sp = Inr (pre @ doc_text d @ post) \<and>
              global_start docs sp = Inr start \<and> start + length pre = bases docs ! i
       else files_text ?new sp = files_text docs sp"
  proof (cases ?in)
    case False
    have "range_text ?new ?f (span_start sp) (?f + (l - f)) (span_end sp) = range_text docs f (span_start sp) (f + (l - f)) (span_end sp)"
    proof (rule range_text_shift)
      fix k
      assume "k \<le> l - f"
      then have k: "f + k \<le> l" "f + k < length docs" using fl by simp_all
      then have "(f + k < i) = (f < i)" using False by auto
      then show "file_text ?new (?f + k) = file_text docs (f + k)" using nth [OF k(2)] by (auto simp: file_text_def)
    qed
    moreover have "?f + (l - f) = ?l" "f + (l - f) = l" using False fl by auto
    ultimately have "range_text ?new ?f (span_start sp) ?l (span_end sp) = range_text docs f (span_start sp) l (span_end sp)" by simp
    then show ?thesis using False tn td by (simp split: if_splits)
  next
    case True
    let ?pre = "range_text docs f (span_start sp) (i - 1) (length (file_text docs (i - 1)))"
    let ?post = "concat (map (text_part docs f (span_start sp) l (span_end sp)) [i..<Suc l])"
    have old: "range_text docs f (span_start sp) l (span_end sp) = ?pre @ ?post"
    proof -
      have le: "f \<le> i - 1" "i - 1 < l" "Suc (i - 1) = i" using True by auto
      show ?thesis using range_text_head [OF le(1,2), of docs "span_start sp" "span_end sp"] unfolding le(3) .
    qed
    have u: "[f..<Suc (l + 1)] = [f..<i] @ [i] @ map Suc [i..<Suc l]"
      using upt_add_eq_append [of f i "Suc (Suc l) - i"] True by (simp add: upt_conv_Cons map_Suc_upt del: upt_Suc)
    have parts: "map (text_part ?new f (span_start sp) (l + 1) (span_end sp)) [f..<i] = map (text_part docs f (span_start sp) (i - 1) (length (file_text docs (i - 1)))) [f..<i]"
    proof (rule map_cong [OF refl])
      fix k
      assume k: "k \<in> set [f..<i]"
      then have "doc_text (?new ! k) = doc_text (docs ! k)" "k \<noteq> l + 1" using nth [of k] True fl by auto
      then show "text_part ?new f (span_start sp) (l + 1) (span_end sp) k = text_part docs f (span_start sp) (i - 1) (length (file_text docs (i - 1))) k"
        by (simp add: text_part_def file_text_def Let_def)
    qed
    have tail: "map (text_part ?new f (span_start sp) (l + 1) (span_end sp) \<circ> Suc) [i..<Suc l] = map (text_part docs f (span_start sp) l (span_end sp)) [i..<Suc l]"
    proof (rule map_cong [OF refl])
      fix k
      assume "k \<in> set [i..<Suc l]"
      then have k: "doc_text (?new ! Suc k) = doc_text (docs ! k)" "Suc k \<noteq> f" "k \<noteq> f" using nth [of k] True fl by auto
      then show "(text_part ?new f (span_start sp) (l + 1) (span_end sp) \<circ> Suc) k = text_part docs f (span_start sp) l (span_end sp) k"
        by (simp add: text_part_def file_text_def)
    qed
    have mid: "text_part ?new f (span_start sp) (l + 1) (span_end sp) i = doc_text d"
      using nth_insert_at [OF i, of i d] True fl by (simp add: text_part_def)
    have "range_text ?new f (span_start sp) (l + 1) (span_end sp) = ?pre @ doc_text d @ ?post"
    proof -
      have si: "Suc (i - 1) = i" using True by simp
      show ?thesis unfolding range_text_def u map_append concat_append list.map map_map parts tail mid si
        by (simp del: upt_Suc)
    qed
    moreover have "base docs f + span_start sp + length ?pre = bases docs ! i"
    proof -
      have le: "base docs f + span_start sp \<le> base docs i"
        using base_mono [of "Suc f" i docs] True at(1) fl by (simp add: base_Suc placed_at_def)
      have e: "base docs (i - 1) + length (file_text docs (i - 1)) = base docs i" using base_Suc [of "i - 1" docs] True fl by auto
      have "?pre = slice (base docs f + span_start sp) (base docs i) (whole_text docs)"
      proof -
        have le: "f \<le> i - 1" "i - 1 < length docs" "span_start sp \<le> length (file_text docs f)"
          using True at(1) fl by (auto simp: placed_at_def)
        then show ?thesis using range_text_whole [OF le order.refl] unfolding e by auto
      qed
      moreover have "base docs i \<le> length (whole_text docs)"
        using concat_take_mono [of i "length docs" "map doc_text docs"] i by (simp add: base_def whole_text_def)
      ultimately show ?thesis using le i by (simp add: bases_nth)
    qed
    moreover have "global_start docs sp = Inr (base docs f + span_start sp)" using fl by (simp add: global_start_def pos bases_nth)
    ultimately show ?thesis using True tn td old by (auto simp: not_less)
  qed
  then show ?thesis using run placed by (simp add: insert_result_def Let_def)
qed

section \<open>Moving a file\<close>

text \<open>
  The next file follows in the new order as well; the last file of a range up to which each is followed by
  the next; and the text of the range up to the end of that file.
\<close>

definition followed :: "source_doc list \<Rightarrow> source_doc list \<Rightarrow> nat \<Rightarrow> bool" where
  "followed docs new i =
     (case file_pos new (rel_path (docs ! i)) of
        Inr p \<Rightarrow> p + 1 < length new \<and> new ! (p + 1) = docs ! (i + 1)
      | Inl _ \<Rightarrow> False)"

definition together_until :: "source_doc list \<Rightarrow> source_doc list \<Rightarrow> nat \<Rightarrow> nat \<Rightarrow> nat" where
  "together_until docs new f l = f + length (takeWhile (followed docs new) [f..<l])"

text \<open>
  What a move makes of a range: one whose files all stay together is left as it is; any other keeps exactly
  its text in the files that stay together with its first one, and no range is left exactly where this is
  white space.
\<close>

definition move_result :: "source_doc list \<Rightarrow> source_doc list \<Rightarrow> int \<times> file_span \<Rightarrow> range_remap \<Rightarrow> bool" where
  "move_result docs new item r =
     (let sp = snd item in
      case (file_pos docs (span_file sp), file_pos docs (span_end_file sp)) of
        (Inr f, Inr l) \<Rightarrow>
          let K = together_until docs new f l in
          rr_episode r = fst item \<and> rr_before r = sp \<and> (text_changed r \<longleftrightarrow> K < l) \<and>
          (if K = l then rr_after r = Some sp \<and> placed new sp \<and> files_text new sp = files_text docs sp
           else let T = range_text docs f (span_start sp) K (length (file_text docs K)) in
             (\<exists>rest. files_text docs sp = Inr (T @ rest)) \<and>
             (case rr_after r of
                None \<Rightarrow> strip_text T = []
              | Some a \<Rightarrow> strip_text T \<noteq> [] \<and> placed new a \<and> files_text new a = Inr T))
      | _ \<Rightarrow> False)"

lemma kept_until_spec:
  assumes "kept_until old new p f l k = K" "k \<le> l"
  shows "k \<le> K \<and> K \<le> l \<and> (\<forall>i. k < i \<longrightarrow> i \<le> K \<longrightarrow> p + (i - 1 - f) + 1 < length new \<and> new ! (p + (i - 1 - f) + 1) = old ! i)"
  using assms
proof (induction old new p f l k rule: kept_until.induct)
  case (1 old new p f l k)
  show ?case
  proof (cases "k < l \<and> p + (k - f) + 1 < length new \<and> new ! (p + (k - f) + 1) = old ! (k + 1)")
    case True
    then have IH: "k + 1 \<le> K \<and> K \<le> l \<and>
        (\<forall>i. k + 1 < i \<longrightarrow> i \<le> K \<longrightarrow> p + (i - 1 - f) + 1 < length new \<and> new ! (p + (i - 1 - f) + 1) = old ! i)"
      using "1.IH" "1.prems" by (subst (asm) kept_until.simps) simp
    have "p + (i - 1 - f) + 1 < length new \<and> new ! (p + (i - 1 - f) + 1) = old ! i" if "k < i" "i \<le> K" for i
      using IH True that by (cases "i = k + 1") simp_all
    then show ?thesis using IH by auto
  next
    case False
    then have "K = k" using "1.prems"(1) by (subst (asm) kept_until.simps) auto
    then show ?thesis using "1.prems"(2) by simp
  qed
qed

lemma same_path: "distinct (rels docs) \<Longrightarrow> x \<in> set docs \<Longrightarrow> y \<in> set docs \<Longrightarrow> rel_path x = rel_path y \<Longrightarrow> x = y"
  by (auto simp: rels_def distinct_map inj_on_def)

lemma kept_until_together:
  assumes "distinct (rels docs)" "distinct (rels new)" "set new = set docs" "f \<le> k" "k \<le> l" "l < length docs"
    and "q + (k - f) < length new" "new ! (q + (k - f)) = docs ! k"
  shows "kept_until (rels docs) (rels new) q f l k = k + length (takeWhile (followed docs new) [k..<l])"
  using assms(4,5,7,8)
proof (induction "l - k" arbitrary: k)
  case 0
  then show ?case by (subst kept_until.simps) simp
next
  case (Suc n)
  then have lt: "k < l" by simp
  let ?p = "q + (k - f)"
  have pos: "file_pos new (rel_path (docs ! k)) = Inr ?p" using file_pos_nth [OF assms(2) Suc.prems(3)] Suc.prems(4) by simp
  have k1: "docs ! (k + 1) \<in> set docs" "rels docs ! (k + 1) = rel_path (docs ! (k + 1))"
    using lt assms(6) by (simp_all add: rels_def)
  have same: "rels new ! (?p + 1) = rels docs ! (k + 1) \<longleftrightarrow> new ! (?p + 1) = docs ! (k + 1)" if "?p + 1 < length new"
    using same_path [OF assms(1) _ k1(1), of "new ! (?p + 1)"] nth_mem [OF that] assms(3) that k1(2) by (auto simp: rels_def)
  have len: "length (rels new) = length new" by (simp add: rels_def)
  have step: "followed docs new k \<longleftrightarrow> ?p + 1 < length (rels new) \<and> rels new ! (?p + 1) = rels docs ! (k + 1)"
    using same by (auto simp: followed_def pos len)
  have next_pos: "q + (k + 1 - f) = ?p + 1" using Suc.prems(1) by simp
  have rest: "[k..<l] = k # [k + 1..<l]" using lt by (simp add: upt_conv_Cons)
  show ?case
  proof (cases "followed docs new k")
    case True
    then have "kept_until (rels docs) (rels new) q f l (k + 1) = k + 1 + length (takeWhile (followed docs new) [k + 1..<l])"
      using Suc.hyps(2) Suc.prems lt next_pos by (intro Suc.hyps(1)) (simp_all add: followed_def pos)
    then show ?thesis using True lt step unfolding rest by (subst kept_until.simps) simp
  next
    case False
    then show ?thesis using step unfolding rest by (subst kept_until.simps) auto
  qed
qed

lemma moved_order_files:
  assumes "distinct (rels docs)" "file_pos docs rel = Inr t"
  shows "set (moved_order docs rel ni t) = set docs" "distinct (rels (moved_order docs rel ni t))"
proof -
  have t: "t < length docs" using file_posD [OF assms(2)] by simp
  have m: "mset (moved_order docs rel ni t) = mset docs"
    using without_file_at [OF assms] mset_remove_at [OF t] by (simp add: moved_order_def without_file_def)
  then show "set (moved_order docs rel ni t) = set docs" by (rule mset_eq_setD)
  from m have "mset (rels (moved_order docs rel ni t)) = mset (rels docs)" by (simp add: rels_def)
  then show "distinct (rels (moved_order docs rel ni t))" using assms(1) mset_eq_imp_distinct_iff by blast
qed

lemma moved_together:
  assumes d: "distinct (rels docs)" and s: "set new = set docs" and p: "placed_at docs sp f l"
    and pos: "file_pos new (span_file sp) = Inr q" and K: "kept_until (rels docs) (rels new) q f l f = K"
    and A: "span_file A = span_file sp" "span_start A = span_start sp" "span_end_file A = rel_path (docs ! K)"
      "span_end A \<le> length (file_text docs K)"
  shows "f \<le> K" "K \<le> l" "placed_at new A q (q + (K - f))"
    "range_text new q (span_start A) (q + (K - f)) (span_end A) = range_text docs f (span_start A) K (span_end A)"
proof -
  have fl: "f \<le> l" "l < length docs" "rel_path (docs ! f) = span_file sp" "span_start sp \<le> length (file_text docs f)"
    using p by (simp_all add: placed_at_def)
  have q: "q < length new" "rel_path (new ! q) = span_file sp" using file_posD [OF pos] by simp_all
  note spec = kept_until_spec [OF K fl(1)]
  show K': "f \<le> K" "K \<le> l" using spec by simp_all
  have nth: "q + (i - f) < length new \<and> new ! (q + (i - f)) = docs ! i" if "f \<le> i" "i \<le> K" for i
  proof (cases "i = f")
    case True
    then show ?thesis using q fl same_path [OF d _ _, of "new ! q" "docs ! f"] nth_mem [OF q(1)] s by simp
  next
    case False
    then have "q + (i - 1 - f) + 1 < length (rels new) \<and> rels new ! (q + (i - 1 - f) + 1) = rels docs ! i"
      using spec that by auto
    moreover have "q + (i - 1 - f) + 1 = q + (i - f)" using False that by simp
    ultimately have "q + (i - f) < length (rels new)" "rels new ! (q + (i - f)) = rels docs ! i" by metis+
    then have b: "q + (i - f) < length new" "rel_path (new ! (q + (i - f))) = rel_path (docs ! i)"
      using that K' fl by (simp_all add: rels_def)
    then show ?thesis using same_path [OF d, of "new ! (q + (i - f))" "docs ! i"] s nth_mem [OF b(1)] that K' fl by simp
  qed
  show "placed_at new A q (q + (K - f))"
    using nth [of f] nth [of K] K' A q fl by (simp add: placed_at_def file_text_def)
  have "range_text new q (span_start A) (q + (K - f)) (span_end A) = range_text docs f (span_start A) (f + (K - f)) (span_end A)"
  proof (rule range_text_shift)
    fix i
    assume "i \<le> K - f"
    then show "file_text new (q + i) = file_text docs (f + i)" using nth [of "f + i"] K' by (simp add: file_text_def)
  qed
  then show "range_text new q (span_start A) (q + (K - f)) (span_end A) = range_text docs f (span_start A) K (span_end A)"
    using K' by simp
qed

lemma move_range_spec:
  assumes d: "distinct (rels docs)" and dn: "distinct (rels new)" and s: "set new = set docs" and p: "placed docs sp"
  shows "\<exists>r. move_range docs new (episode, sp) = Inr r \<and> move_result docs new (episode, sp) r"
proof -
  obtain f l where at: "placed_at docs sp f l" "f = l \<longrightarrow> span_start sp \<le> span_end sp"
    and pos: "file_pos docs (span_file sp) = Inr f" "file_pos docs (span_end_file sp) = Inr l"
    using p by (rule placedE)
  have fl: "f \<le> l" "l < length docs" "rel_path (docs ! l) = span_end_file sp" "span_end sp \<le> length (file_text docs l)"
    "rel_path (docs ! f) = span_file sp" using at(1) by (simp_all add: placed_at_def)
  have "span_file sp \<in> set (rels new)" using fl s by (metis rels_def image_eqI le_less_trans list.set_map nth_mem)
  then obtain q where q: "file_pos new (span_file sp) = Inr q" using file_pos_member [OF dn] by blast
  define K where "K = kept_until (rels docs) (rels new) q f l f"
  let ?A = "\<lparr>span_file = span_file sp, span_start = span_start sp, span_end_file = rels docs ! K, span_end = length (doc_text (docs ! K))\<rparr>"
  have K: "f \<le> K" "K \<le> l" using kept_until_spec [OF K_def [symmetric] fl(1)] by simp_all
  have qn: "q < length new" "new ! q = docs ! f"
    using file_posD [OF q] same_path [OF d _ _, of "new ! q" "docs ! f"] fl s nth_mem [of q new] by auto
  have KT: "together_until docs new f l = K"
    using kept_until_together [OF d dn s order.refl fl(1,2), of q] qn by (simp add: together_until_def K_def)
  note td = files_text_at [OF d at(1)]
  show ?thesis
  proof (cases "K = l")
    case True
    note m = moved_together [OF d s at(1) q K_def [symmetric], of sp]
    have atn: "placed_at new sp q (q + (K - f))" and "range_text new q (span_start sp) (q + (K - f)) (span_end sp) = range_text docs f (span_start sp) K (span_end sp)"
      using m(3,4) fl True by simp_all
    moreover have "placed new sp" using at(2) K True by (intro placed_atI [OF dn atn]) auto
    moreover have "move_range docs new (episode, sp) = Inr (unchanged_remap episode sp)"
      using True by (simp add: move_range_def pos q K_def)
    ultimately show ?thesis using files_text_at [OF dn atn] td True
      by (simp add: unchanged_remap_def move_result_def pos KT)
  next
    case False
    then have lt: "K < l" using K by simp
    have A: "rels docs ! K = rel_path (docs ! K)" "length (doc_text (docs ! K)) = length (file_text docs K)"
      using K fl by (simp_all add: rels_def file_text_def)
    note m = moved_together [OF d s at(1) q K_def [symmetric], of ?A]
    have atn: "placed_at new ?A q (q + (K - f))" using m(3) A by simp
    have T: "range_text new q (span_start ?A) (q + (K - f)) (span_end ?A) = range_text docs f (span_start sp) K (length (file_text docs K))"
      using m(4) A by simp
    obtain r where r: "finish_remap new episode sp ?A True = Inr r" "finished new q (q + (K - f)) ?A episode sp True r"
      using finish_spec [OF dn atn] by blast
    have "move_range docs new (episode, sp) = Inr r" using r(1) False by (simp add: move_range_def pos q K_def [symmetric])
    moreover have "move_result docs new (episode, sp) r"
      using r(2) td range_text_head [OF K(1) lt, of docs "span_start sp" "span_end sp"]
        lt by (auto simp: move_result_def pos KT finished_def Let_def T [simplified] split: option.splits)
    ultimately show ?thesis by blast
  qed
qed

end
