(* ===== verification/Remap_Laws.thy ===== *)
theory Remap_Laws
  imports Remap_Move
begin

text \<open>
  The ranges of the cut episodes of a project: their placements never overlap, and editing, deleting,
  inserting or moving a file keeps of their text what it should and their order where it should.
\<close>

section \<open>Placements\<close>

definition cut_ok :: "source_doc list \<Rightarrow> cut_placement \<Rightarrow> bool" where
  "cut_ok docs p =
     (file_index p \<le> end_file_index p \<and> end_file_index p < length docs
      \<and> cp_start p \<le> length (file_text docs (file_index p)) \<and> cp_end p \<le> length (file_text docs (end_file_index p))
      \<and> (file_index p = end_file_index p \<longrightarrow> cp_start p \<le> cp_end p))"

lemma file_order_bound: "file_order nfc docs r = Some i \<Longrightarrow> i < length docs"
  by (auto simp: file_order_def in_set_zip dest!: map_of_SomeD)

lemma cut_candidate_ok: "cut_candidate nfc docs entry = Some p \<Longrightarrow> cut_ok docs p"
  using file_order_bound [of nfc docs]
  by (auto simp: cut_candidate_def cut_ok_def file_text_def split: option.splits if_splits)

lemma cut_ok_position: "cut_ok docs p \<Longrightarrow> cp_position p \<le> cp_end_position p"
  by (auto simp: cut_ok_def cp_position_def cp_end_position_def)

definition placing :: "source_doc list \<Rightarrow> (int \<times> cut_placement) list \<times> nat \<times> nat \<Rightarrow> bool" where
  "placing docs st =
     (case st of (ps, cursor) \<Rightarrow>
        distinct (map fst ps) \<and> list_all (\<lambda>(e, p). cut_ok docs p \<and> cp_end_position p \<le> cursor) ps
        \<and> sorted_wrt (\<lambda>x y. cp_end_position (snd x) \<le> cp_position (snd y)) ps)"

lemma place_cut_placing: "placing docs st \<Longrightarrow> cut_ok docs p \<Longrightarrow> placing docs (place_cut p st)"
  using cut_ok_position [of docs p]
  by (auto simp: placing_def place_cut_def sorted_wrt_append list_all_iff split: prod.splits; fastforce)

lemma fold_place_cut: "list_all (cut_ok docs) ps \<Longrightarrow> placing docs st \<Longrightarrow> placing docs (fold place_cut ps st)"
  by (induction ps arbitrary: st) (simp_all add: place_cut_placing)

lemma placements_placing:
  "distinct (map fst (cut_episode_placements nfc project docs)) \<and>
   list_all (\<lambda>(e, p). cut_ok docs p) (cut_episode_placements nfc project docs) \<and>
   sorted_wrt (\<lambda>x y. cp_end_position (snd x) \<le> cp_position (snd y)) (cut_episode_placements nfc project docs)"
proof -
  let ?ps = "sort_key (\<lambda>p. (cp_position p, cp_end_position p)) (List.map_filter (cut_candidate nfc docs) (entries project))"
  have "list_all (cut_ok docs) ?ps"
    using cut_candidate_ok by (fastforce simp: list_all_iff List.map_filter_def)
  moreover have "placing docs ([], (0, 0))" by (simp add: placing_def)
  ultimately have "placing docs (fold place_cut ?ps ([], (0, 0)))" by (rule fold_place_cut)
  then show ?thesis by (auto simp: placing_def cut_episode_placements_def list_all_iff split: prod.splits)
qed

lemma placement_points:
  assumes "distinct (rels docs)" "cut_ok docs p"
    and "sp = \<lparr>span_file = rel_path (docs ! file_index p), span_start = cp_start p,
      span_end_file = rel_path (docs ! end_file_index p), span_end = cp_end p\<rparr>"
  shows "placed docs sp" "start_point docs sp = cp_position p" "end_point docs sp = cp_end_position p"
    "files_text docs sp = Inr (placement_text docs p)"
proof -
  have at: "placed_at docs sp (file_index p) (end_file_index p)" using assms(2) by (simp add: placed_at_def cut_ok_def assms(3))
  show "placed docs sp" using assms(2) by (intro placed_atI [OF assms(1) at]) (simp add: cut_ok_def assms(3))
  show "start_point docs sp = cp_position p" "end_point docs sp = cp_end_position p"
    using placed_at_pos [OF assms(1) at] by (simp_all add: start_point_def end_point_def cp_position_def cp_end_position_def assms(3))
  have "range_text docs (file_index p) (cp_start p) (end_file_index p) (cp_end p) = placement_text docs p"
    unfolding range_text_def placement_text_def
    by (intro arg_cong [of _ _ concat] map_cong) (auto simp: text_part_def portion_def Let_def)
  then show "files_text docs sp = Inr (placement_text docs p)" using files_text_at [OF assms(1) at] by (simp add: assms(3))
qed

text \<open>
  The placements of the cut episodes, as ranges: each lies in the files, they follow each other without
  overlap, no episode has two, and the text of a range is the text of the placement.
\<close>

theorem cut_ranges_in_order:
  assumes "distinct (rels docs)"
  shows "list_all (placed docs) (map snd (placement_spans docs (cut_episode_placements nfc project docs))) \<and>
    in_order docs (map snd (placement_spans docs (cut_episode_placements nfc project docs))) \<and>
    distinct (map fst (placement_spans docs (cut_episode_placements nfc project docs))) \<and>
    list_all2 (\<lambda>(e, p) (e', sp). e' = e \<and> files_text docs sp = Inr (placement_text docs p))
      (cut_episode_placements nfc project docs) (placement_spans docs (cut_episode_placements nfc project docs))"
proof -
  let ?ps = "cut_episode_placements nfc project docs"
  note P = placements_placing [of nfc project docs]
  have pt: "placed docs (snd y) \<and> start_point docs (snd y) = cp_position p \<and> end_point docs (snd y) = cp_end_position p
      \<and> files_text docs (snd y) = Inr (placement_text docs p)"
    if "(e, p) \<in> set ?ps" "y = (e, \<lparr>span_file = rel_path (docs ! file_index p), span_start = cp_start p,
      span_end_file = rel_path (docs ! end_file_index p), span_end = cp_end p\<rparr>)" for e p y
    using placement_points [OF assms, of p] P that by (auto simp: list_all_iff)
  have "sorted_wrt (\<lambda>x y. end_point docs (snd x) \<le> start_point docs (snd y)) (placement_spans docs ?ps)"
    unfolding placement_spans_def sorted_wrt_map
    by (rule sorted_wrt_mono_rel [rotated]) (use P in blast, use pt in fastforce)
  then have o: "in_order docs (map snd (placement_spans docs ?ps))" by (simp add: in_order_def sorted_wrt_map)
  have p: "list_all (placed docs) (map snd (placement_spans docs ?ps))"
    using pt by (fastforce simp: placement_spans_def list_all_iff)
  have e: "map fst (placement_spans docs ?ps) = map fst ?ps" by (simp add: placement_spans_def case_prod_beta' comp_def)
  have "list_all2 (\<lambda>(e, p) (e', sp). e' = e \<and> files_text docs sp = Inr (placement_text docs p)) ?ps (placement_spans docs ?ps)"
    unfolding placement_spans_def list_all2_map2 by (rule list.rel_refl_strong) (use pt in fastforce)
  then show ?thesis using P p o e by simp
qed

text \<open>Two files and three ranges, the second across both, for the witnesses.\<close>

definition two_files :: "source_doc list" where
  "two_files = [\<lparr>rel_path = ''a.txt'', doc_text = [65, 10, 66, 10]\<rparr>, \<lparr>rel_path = ''b.txt'', doc_text = [67, 10, 68, 10]\<rparr>]"

definition three_ranges :: "(int \<times> file_span) list" where
  "three_ranges =
     [(1, \<lparr>span_file = ''a.txt'', span_start = 0, span_end_file = ''a.txt'', span_end = 2\<rparr>),
      (2, \<lparr>span_file = ''a.txt'', span_start = 2, span_end_file = ''b.txt'', span_end = 2\<rparr>),
      (3, \<lparr>span_file = ''b.txt'', span_start = 2, span_end_file = ''b.txt'', span_end = 4\<rparr>)]"

lemma two_files_pos:
  "distinct (rels two_files)" "file_pos two_files ''a.txt'' = Inr 0" "file_pos two_files ''b.txt'' = Inr 1"
  by (simp_all add: two_files_def rels_def file_pos_def)

lemma three_ranges_ok: "list_all (placed two_files) (map snd three_ranges)" "in_order two_files (map snd three_ranges)"
  by (simp_all add: three_ranges_def placed_def placed_at_def in_order_def start_point_def end_point_def two_files_pos)
    (simp_all add: two_files_def file_text_def)

section \<open>The four changes\<close>

definition remap_ranges :: "range_remap list \<Rightarrow> file_span list" where
  "remap_ranges rs = List.map_filter rr_after rs"







text \<open>
  C26: When one of the files is deleted, for files with distinct paths and ranges that lie in them without
  overlap, listed in the order of the text: every range gets a result, in their order. A range without the file is left as it is, with the text it had; a range with the file is
  said to have changed and keeps exactly its text in the other files, and no range is left exactly where
  this is white space. The ranges left lie in the remaining files without overlap, in their order.
\<close>

theorem delete_keeps_rest:
  assumes "distinct (rels docs)" "rel \<in> set (rels docs)" "list_all (placed docs) (map snd spans)" "in_order docs (map snd spans)"
  shows "\<exists>rs. remap_for_delete docs spans rel = Inr rs \<and>
    list_all2 (delete_result docs rel) spans rs \<and> in_order (without_file docs rel) (remap_ranges rs)"
proof -
  let ?new = "without_file docs rel"
  obtain t where t: "file_pos docs rel = Inr t" using file_pos_member [OF assms(1,2)] by blast
  have "\<exists>rs. mapE (delete_range docs ?new t) spans = Inr rs \<and>
      list_all2 (\<lambda>x r. delete_result docs rel x r \<and> delete_kept docs rel t (snd x) r \<and> placed docs (snd x)) spans rs"
  proof (rule mapE_all2)
    fix x
    assume "x \<in> set spans"
    then have p: "placed docs (snd x)" using assms(3) by (simp add: list_all_iff)
    from delete_range_spec [OF assms(1) t p, of "fst x"] p
    show "\<exists>y. delete_range docs ?new t x = Inr y \<and> delete_result docs rel x y \<and> delete_kept docs rel t (snd x) y \<and> placed docs (snd x)"
      by simp
  qed
  then obtain rs where rs: "mapE (delete_range docs ?new t) spans = Inr rs"
    and all: "list_all2 (\<lambda>x r. delete_result docs rel x r \<and> delete_kept docs rel t (snd x) r \<and> placed docs (snd x)) spans rs" by blast
  have "in_order ?new (remap_ranges rs)" unfolding in_order_def remap_ranges_def
  proof (rule map_filter_sorted_wrt [OF all])
    show "sorted_wrt (\<lambda>x y. end_point docs (snd x) \<le> start_point docs (snd y)) spans"
      using assms(4) by (simp add: in_order_def sorted_wrt_map)
  next
    fix x y x' y' a a'
    assume x: "delete_result docs rel x y \<and> delete_kept docs rel t (snd x) y \<and> placed docs (snd x)" "rr_after y = Some a"
      and x': "delete_result docs rel x' y' \<and> delete_kept docs rel t (snd x') y' \<and> placed docs (snd x')" "rr_after y' = Some a'"
      and le: "end_point docs (snd x) \<le> start_point docs (snd x')"
    have "end_point ?new a \<le> delete_end docs t (snd x)" using x by (simp add: delete_kept_def)
    also have "\<dots> \<le> delete_start docs t (snd x')" using delete_points_in_order [OF le] x by (simp add: delete_kept_def)
    also have "\<dots> \<le> start_point ?new a'" using x' by (simp add: delete_kept_def)
    finally show "end_point ?new a \<le> start_point ?new a'" .
  qed
  moreover have "list_all2 (delete_result docs rel) spans rs" by (rule list_all2_mono [OF all]) blast
  ultimately show ?thesis using rs t by (auto simp: remap_for_delete_def without_file_def)
qed

lemma delete_keeps_rest_witness:
  "case remap_for_delete two_files three_ranges ''b.txt'' of
     Inr rs \<Rightarrow> list_all2 (delete_result two_files ''b.txt'') three_ranges rs \<and>
       in_order (without_file two_files ''b.txt'') (remap_ranges rs)
   | Inl x \<Rightarrow> False"
proof -
  have "''b.txt'' \<in> set (rels two_files)" by (simp add: two_files_def rels_def)
  from delete_keeps_rest [OF two_files_pos(1) this three_ranges_ok] show ?thesis by auto
qed

text \<open>
  When a file is inserted, no recorded range has to change: every range keeps its place, and it is said to have
  changed where the new file falls inside it, which then has its text at that place and the old text
  around it; every other range has the text it had. The ranges are normalized, as the program writes
  them: none starts at the end of a file it leaves or ends at the beginning of one it enters.
\<close>

theorem insert_finds_ranges:
  assumes "distinct (rels (insert_at i d docs))" "i \<le> length docs"
    and "list_all (\<lambda>(e, sp). placed docs sp \<and> normal_span docs sp) spans"
  shows "\<exists>rs. remap_for_insert docs spans i = Inr rs \<and> list_all2 (insert_result docs i d) spans rs"
proof -
  have "\<exists>rs. mapE (insert_range docs (bases docs ! i)) spans = Inr rs \<and> list_all2 (insert_result docs i d) spans rs"
  proof (rule mapE_all2)
    fix x
    assume "x \<in> set spans"
    then have "placed docs (snd x)" "normal_span docs (snd x)" using assms(3) by (auto simp: list_all_iff)
    from insert_range_spec [OF assms(1,2) this, of "fst x"]
    show "\<exists>y. insert_range docs (bases docs ! i) x = Inr y \<and> insert_result docs i d x y" by simp
  qed
  then show ?thesis using assms(2) by (simp add: remap_for_insert_def min_absorb1)
qed

text \<open>
  C27: When one of the files is moved to another place, for files with distinct paths and ranges that lie in
  them: every range gets a result, in their order. A range each of whose files is still followed by the next is left as it is, with the text it
  had. Any other is said to have changed and keeps exactly the beginning of its text up to the end of the
  first of its files whose next file no longer follows it; no range is left exactly where that is white space.
\<close>

theorem move_keeps_beginnings:
  assumes "distinct (rels docs)" "file_pos docs rel = Inr t" "list_all (placed docs) (map snd spans)"
  shows "\<exists>rs. remap_for_move docs spans rel new_index = Inr rs \<and>
    list_all2 (move_result docs (moved_order docs rel new_index t)) spans rs"
proof -
  let ?new = "moved_order docs rel new_index t"
  have "\<exists>rs. mapE (move_range docs ?new) spans = Inr rs \<and> list_all2 (move_result docs ?new) spans rs"
  proof (rule mapE_all2)
    fix x
    assume "x \<in> set spans"
    then have "placed docs (snd x)" using assms(3) by (simp add: list_all_iff)
    from move_range_spec [OF assms(1) moved_order_files(2,1) [OF assms(1,2)] this, of new_index "fst x"]
    show "\<exists>y. move_range docs ?new x = Inr y \<and> move_result docs ?new x y" by simp
  qed
  then show ?thesis by (simp add: remap_for_move_def assms(2))
qed

lemma move_keeps_beginnings_witness:
  "case remap_for_move two_files three_ranges ''a.txt'' 1 of
     Inr rs \<Rightarrow> list_all2 (move_result two_files (moved_order two_files ''a.txt'' 1 0)) three_ranges rs
   | Inl x \<Rightarrow> False"
  using move_keeps_beginnings [OF two_files_pos(1,2) three_ranges_ok(1), of 1] by auto

end
