(* ===== verification/Spec2Isabelle.thy ===== *)
theory Spec2Isabelle
  imports Service_Laws Render_Laws Queue_Effects Worker_Lease Worker_Loop Basis_Laws Remap_Laws
begin

text \<open>
  A verification development for the core of the Python library under \<open>lib/\<close>: the editing of an
  episode's timeline with its two exports, the queue of generation tasks with the worker that runs
  them, the manifest of the artifacts they leave, and the ranges of the source text that episodes are cut
  from.

  The parts and how they interact. An episode has timelines. A timeline is a document of numbered,
  immutable revisions; a command applies a batch of operations to the latest revision and appends a
  new one, and concurrent commands are reconciled by revision number. A revision is read as a
  projection that lays clips end to end and lists the issues. The same revision is exported twice: as a
  draft for an external editor, by placing it on tracks, and as a rendered final cut, by a plan of
  frames and segments. The material of the episode is produced by generation tasks: they are enqueued
  in database tables, claimed by the one worker that holds the lease, may depend on one another, and end
  with a stored result or a stored failure reason. The worker limits what runs at once by provider and
  kind of media, and after a restart continues what a provider has already accepted. What has been
  produced is claimed in a manifest: a file of the project that says, for the key of each artifact, where
  its file is and from which inputs it was made, so that an artifact is current, stale or missing.
  Episodes may be cut from the files of a source text; when such a file changes, the range of every cut
  episode is found again.

  Which theory models which code.

  \<^item> \<open>Prelude\<close>: results (\<open>Inl\<close> an exception, \<open>Inr\<close> a value), loops that stop at the first error, and
    the interfaces \<open>step_machine\<close>, \<open>step_machine_rel\<close> and \<open>step_machine_err\<close> of such a loop (an
    invariant, a relation and an error class that every step keeps).
  \<^item> \<open>Py_Float\<close>, \<open>Py_Str\<close>, \<open>Py_Json\<close>: the language as the code uses it. A float is the rational it denotes,
    every operation is rounded by \<open>fl\<close>; strings are lists of the 256 characters of \<open>char\<close>; \<open>json.dumps\<close> and
    \<open>json.loads\<close> with their round trip.
  \<^item> \<open>Timeline_Model\<close>: \<open>edit_timeline/model.py\<close>, \<open>errors.py\<close>. Records for the pydantic models; a validator
    is a predicate and a constructor fails where the predicate does.
  \<^item> \<open>Timeline_Bgm\<close>: \<open>sources.py\<close>, \<open>bgm.py\<close>: the facts of units and media, the placement of background music.
  \<^item> \<open>Timeline_Readout\<close>, \<open>Readout_Laws\<close>: \<open>readout.py\<close>.
  \<^item> \<open>Timeline_Ops\<close>, \<open>Timeline_Batch\<close>, \<open>Timeline_Laws\<close>: \<open>operations.py\<close>, first part. A batch is the record of
    \<open>_Batch\<close>'s fields; one definition per method; \<open>Timeline_Batch\<close> interprets the loop interfaces of the
    prelude on \<open>apply_op\<close>, and the laws are read off the interpretations.
  \<^item> \<open>Timeline_Diff\<close>: \<open>operations.py\<close>, second part: differences and longest common subsequences.
  \<^item> \<open>Timeline_Store\<close>: \<open>store.py\<close>. The directories of an episode are association lists of documents; the
    locale \<open>keyed_store\<close> is the interface the service relies on, interpreted on the store.
  \<^item> \<open>Timeline_Service\<close>, \<open>Service_Laws\<close>: \<open>service.py\<close>, each transaction as a step of the store.
  \<^item> \<open>Placement\<close>, \<open>Placement_Laws\<close>: \<open>jianying_draft/placement.py\<close>. The locale \<open>piece\<close> (a thing with a start and a
    length that may be shortened) is interpreted on narrations and on subtitles.
  \<^item> \<open>Render_Plan\<close>, \<open>Render_Laws\<close>: \<open>final_cut/render_plan.py\<close>, \<open>edit_timeline/transitions.py\<close>. The locale
    \<open>frame_grid\<close> (a monotone map from times to frames) is interpreted on \<open>frame_at\<close>.
  \<^item> \<open>Task_Failure\<close>, \<open>Failure_Laws\<close>: \<open>generation/task_failure.py\<close>: the stored reasons, their parsing, their
    bounding to the width of the column, the collapse of chains of causes.
  \<^item> \<open>Task_Queue\<close>, \<open>Queue_Laws\<close>, \<open>Queue_Effects\<close>: \<open>db/repositories/task_repo.py\<close> over \<open>db/models/task.py\<close>, with
    \<open>generation/task_terminal_events.py\<close>. The state is the list of rows of each table and the log of
    terminal events. An operation that reads and later writes under a guard takes the queue twice:
    what it read, and what it finds when it writes.
  \<^item> \<open>Worker_Lease\<close>: the lease table of the same repository, over clocks that only advance.
  \<^item> \<open>Worker_Slots\<close>: the first part of \<open>generation/generation_worker.py\<close>, with \<open>render_lane.py\<close>: the capacity table
    and the slot table. The locale \<open>slot_ledger\<close> (asking for room and admitting) is interpreted on the slots.
  \<^item> \<open>Generation_Worker\<close>, \<open>Worker_Claims\<close>: its second part: claiming, the end of an execution, draining. The
    worker is a record of the queue, the two tables and the futures it has created; a coroutine is a future
    with a state, and its end is a step.
  \<^item> \<open>Restart_Recovery\<close>, \<open>Recovery_Laws\<close>: \<open>restart_recovery.py\<close> and \<open>video_resume.py\<close>: the scan of what was left
    running, its dispatch under a semaphore, the continuation of one task, the retry of a download.
  \<^item> \<open>Worker_Laws\<close>, \<open>Worker_Ownership\<close>, \<open>Ownership_Laws\<close>: who executes a task. \<open>Worker_Laws\<close> says what each operation
    leaves alone in the queue, \<open>Worker_Ownership\<close> states the invariant, \<open>Ownership_Laws\<close> has the step relation
    \<open>worker_step\<close> of the worker among its clients and proves that every step keeps it.
  \<^item> \<open>Worker_Loop\<close>: \<open>_run_loop\<close>, whose rounds are runs of these steps.
  \<^item> \<open>Py_Bytes\<close>, \<open>Py_Json_Layout\<close>: UTF-8 and URL-safe base64, and the compact and the indented layout of
    \<open>json.dumps\<close>, with their round trips.
  \<^item> \<open>Artifact_Key\<close>, \<open>Manifest_Entries\<close>: \<open>artifacts/artifact_manifest.py\<close>: the keys with their text, the canonical
    paths, the entries, and the text of the file with its strict reading.
  \<^item> \<open>Artifact_Manifest\<close>, \<open>Manifest_Contract\<close>: registering, forgetting, renaming and comparing. The protocol of a
    storage is a record of calls that may raise before or after their effect; the locale
    \<open>manifest_storage\<close> states what a storage promises, and what the domain operations make of it is proved in it.
  \<^item> \<open>Memory_Manifest\<close>, \<open>Project_Manifest\<close>: the two storages, with the locale interpreted on each. The project
    directory is a record of the file's bytes, the lock, the tree of files and the answers that the
    operating system will give; \<open>Manifest_Refinement\<close> relates the two.
  \<^item> \<open>Manifest_Cache\<close>, \<open>Manifest_Archive\<close>: the cache of parsed manifests and the form in project archives.
  \<^item> \<open>Artifact_Laws\<close>, \<open>Manifest_Properties\<close>: the laws of the file under failures, and the properties.
  \<^item> \<open>Py_Sha256\<close>, \<open>Artifact_Basis\<close>, \<open>Basis_Laws\<close>: SHA-256 on 32-bit words; the basis of an artifact with its
    canonical bytes, digest and evidence; what registering a basis makes of later comparisons.
  \<^item> \<open>Source_Ledger\<close>: \<open>episode/episode_sources.py\<close>, \<open>episode_ledger.py\<close>: the entries of the ledger and the placement
    of the cut episodes on the files.
  \<^item> \<open>Py_Difflib\<close>, \<open>Text_Alignment\<close>, \<open>Alignment_Tiling\<close>, \<open>Position_Map\<close>, \<open>Source_Remap\<close>: \<open>episode/source_remap.py\<close>. A
    text is the list of its code points. The operations of an alignment tile both texts, and the locale
    \<open>position_map\<close>, interpreted on \<open>align_texts\<close>, states what the remapping relies on.
  \<^item> \<open>Remap_Files\<close>, \<open>Remap_Edit\<close>, \<open>Remap_Order\<close>, \<open>Remap_Move\<close>, \<open>Remap_Laws\<close>: ranges as pieces of the whole text,
    and what editing, deleting, inserting and moving a file make of them.

  What the lemmas show. Timeline: a batch keeps the content valid, its ids fresh, one narration carrier
  per unit, no dangling transition and no overlapping music; it leaves what it does not name alone and
  fails only with an error that names an operation; an edit loses no concurrent update, and the history
  keeps what it records. Exports: placement, plan and readout show one and the same timeline; segments
  compose to exactly their frames and never read outside their source; stacking uses the fewest
  tracks. Queue: over every interleaving of sessions, at most one task per resource is active, a task
  starts only after its dependency succeeded, ended tasks stay ended and the columns of a row fit its
  status; the worker drains a queue without cycles oldest first; a failure fails exactly what waits for
  it; a cancellation does what its preview says; two workers never hold the lease. Worker: a pass over the lanes
  returns, keeps to the limits and leaves no capacity idle; no task is executed twice at once and every
  task that runs has an execution behind it; a restart submits nothing a second time; the main loop only
  takes the steps of the relation, and none that starts work without the lease. Manifest: keys and files
  read back, and archives where every path has one owner; whatever the operating system answers, the file
  stays readable with one owner of every path, as long as the paths and digests put into it are well formed,
  which \<open>put_entry\<close> leaves to its caller; with one failure at most a registration, a renaming or a forgetting
  is made or leaves no trace; under the same condition, and for the unconditional replacement of known
  artifacts by a target that is not empty, the file does what the memory does, and the cache answers
  what a reading would; a comparison
  answers exactly what the file, the claim and the expected entry make of it; a basis reads back from its
  evidence, and what was registered with it is current for it and stale for any other digest. Source text:
  the placed cuts lie in the files without overlap; when a file is edited or deleted, every range keeps
  its text in the other files, a range said to be unchanged has the same text, and what is left stays in
  order without overlap; when a file is moved, a range keeps its beginning in the files that stay together.

  Bounds and fuel. The JSON parser takes \<open>2 * length s + 1\<close> as fuel, which \<open>loads_fuel\<close> shows to be
  enough; the preview of a cancellation recurses without a measure in the code, so it takes fuel, and
  \<open>Suc (length rows)\<close> is proved enough when dependencies precede their dependents, which is how tasks are
  enqueued; the rounds of the cascade message (5) and of the collapse (101) are the code's own. The
  loop over a lane is a partial function, proved to return by the number of tasks it may still claim. The other
  loops have termination proofs. Rows that tie in an \<open>ORDER BY\<close> come in the order of insertion, where the
  database leaves the order open.

  What is not modelled, and why. Characters beyond 256 outside source texts (so of Unicode normalisation and case folding only
  what concerns these, and UTF-8 of one or two bytes); the reading of
  scripts, projects and media files, which are inputs of the service; activity records and change
  notifications; the files a render leaves; the names and paths inside a draft archive; ffmpeg and
  its filters; the translation of a failure reason for display; SQLAlchemy, whose tables and guarded
  updates are taken at their documented meaning; the providers of generated media and their
  HTTP clients, so how an execution ends is an argument of its end; of the worker, the scheduling inside
  \<open>asyncio\<close> (an iteration of the claim loop, the end of an execution and a recovery with its dispatch are one
  step each), the start and the shutdown of its tasks, the ledger of calls, the staging files and the
  parsing of checkpoints; of the manifest, the fallbacks for systems without \<open>O_NOFOLLOW\<close> and for Windows, the
  checks that a directory or file is still the one opened, other processes (kept out by the lock), the
  digests of the bytes of artifacts; the admission of batches; the reading, listing and
  fingerprints of source files and the commands that rewrite the ledger; prompts and language models; the server and the frontend.
\<close>

end
